(* ===== verification/Prelude.thy ===== *)
theory Prelude
  imports Main "HOL-Library.Word" "HOL-Library.AList"
begin

text \<open>
  Shared vocabulary of the development: the standard library of Rust as the sources
  use it (\<open>Instant\<close> and \<open>Duration\<close>, saturating arithmetic, \<open>HashMap\<close>), the list
  and association-list lemmas that the components share, and the interface of an
  invariant over the reachable states of a component.
\<close>

section \<open>Time\<close>

text \<open>
  \<open>Instant\<close> and \<open>Duration\<close> are counted in nanoseconds. Subtraction of natural numbers
  stops at 0, which is \<open>Instant::saturating_duration_since\<close>; additions to an instant
  do not overflow in the range of a process' life time.
\<close>

type_synonym instant = nat
type_synonym duration = nat

named_theorems rust_time "unfolding durations to nanoseconds"
named_theorems rust_sat "unfolding saturating machine arithmetic"
named_theorems alist_simps "association lists as hash maps"

definition from_millis :: "nat \<Rightarrow> duration" where
  [rust_time]: "from_millis n = n * 1000000"

definition from_secs :: "nat \<Rightarrow> duration" where
  [rust_time]: "from_secs n = n * 1000000000"

definition as_millis :: "duration \<Rightarrow> nat" where
  [rust_time]: "as_millis d = d div 1000000"

definition since :: "instant \<Rightarrow> instant \<Rightarrow> duration" where
  [rust_time]: "since now earlier = now - earlier"

text \<open>\<open>is_some_and\<close> and \<open>map_or(true, \<dots>)\<close> on options.\<close>

definition is_some_and :: "'a option \<Rightarrow> ('a \<Rightarrow> bool) \<Rightarrow> bool" where
  "is_some_and x p = (case x of None \<Rightarrow> False | Some a \<Rightarrow> p a)"

definition is_none_or :: "'a option \<Rightarrow> ('a \<Rightarrow> bool) \<Rightarrow> bool" where
  "is_none_or x p = (case x of None \<Rightarrow> True | Some a \<Rightarrow> p a)"

definition unwrap_or :: "'a option \<Rightarrow> 'a \<Rightarrow> 'a" where
  "unwrap_or x d = (case x of None \<Rightarrow> d | Some a \<Rightarrow> a)"

lemma is_some_and_simps [simp]:
  "is_some_and None p = False" "is_some_and (Some a) p = p a"
  by (simp_all add: is_some_and_def)

lemma is_none_or_simps [simp]:
  "is_none_or None p = True" "is_none_or (Some a) p = p a"
  by (simp_all add: is_none_or_def)

lemma unwrap_or_simps [simp]:
  "unwrap_or None d = d" "unwrap_or (Some a) d = a"
  by (simp_all add: unwrap_or_def)

lemma is_some_and_iff: "is_some_and x p \<longleftrightarrow> (\<exists>a. x = Some a \<and> p a)"
  by (cases x) simp_all

lemma is_none_or_iff: "is_none_or x p \<longleftrightarrow> (\<forall>a. x = Some a \<longrightarrow> p a)"
  by (cases x) simp_all

section \<open>Saturating arithmetic\<close>

abbreviation u8_max :: nat where "u8_max \<equiv> 255"
abbreviation u32_max :: nat where "u32_max \<equiv> 4294967295"
abbreviation u64_max :: nat where "u64_max \<equiv> 18446744073709551615"

definition sat_add :: "nat \<Rightarrow> nat \<Rightarrow> nat \<Rightarrow> nat" where
  [rust_sat]: "sat_add lim a b = min (a + b) lim"

definition sat_mul :: "nat \<Rightarrow> nat \<Rightarrow> nat \<Rightarrow> nat" where
  [rust_sat]: "sat_mul lim a b = min (a * b) lim"

lemma sat_add_le [simp]: "sat_add lim a b \<le> lim"
  by (simp add: sat_add_def)

lemma sat_mul_le [simp]: "sat_mul lim a b \<le> lim"
  by (simp add: sat_mul_def)

lemma sat_add_exact: "a + b \<le> lim \<Longrightarrow> sat_add lim a b = a + b"
  by (simp add: sat_add_def)

lemma sat_add_ge: "a \<le> lim \<Longrightarrow> a \<le> sat_add lim a b"
  by (simp add: sat_add_def)

abbreviation i32_max :: int where "i32_max \<equiv> 2147483647"
abbreviation i32_min :: int where "i32_min \<equiv> - 2147483648"
abbreviation i64_max :: int where "i64_max \<equiv> 9223372036854775807"
abbreviation i64_min :: int where "i64_min \<equiv> - 9223372036854775808"

lemma xor_zero_iff: "semiring_bit_operations_class.xor (x :: 8 word) y = 0 \<longleftrightarrow> x = y"
  by (metis xor.assoc xor.right_neutral xor_self_eq)

definition in_i64 :: "int \<Rightarrow> bool" where
  "in_i64 x \<longleftrightarrow> i64_min \<le> x \<and> x \<le> i64_max"

definition sat_i64 :: "int \<Rightarrow> int" where
  [rust_sat]: "sat_i64 x = max i64_min (min i64_max x)"

lemma in_i64_sat [simp]: "in_i64 (sat_i64 x)"
  by (simp add: in_i64_def sat_i64_def)

lemma sat_i64_id: "in_i64 x \<Longrightarrow> sat_i64 x = x"
  by (simp add: in_i64_def sat_i64_def)

section \<open>Association lists as hash maps\<close>

text \<open>
  A \<open>HashMap\<close> or \<open>BTreeMap\<close> is an association list with distinct keys: \<open>map_of\<close> is
  \<open>get\<close>, \<open>AList.update\<close> is \<open>insert\<close>, \<open>AList.delete\<close> is \<open>remove\<close>, \<open>length\<close> is
  \<open>len\<close>, \<open>filter\<close> is \<open>retain\<close>. The order of the list stands for one iteration order;
  statements about the entries do not depend on it.
\<close>

abbreviation map_wf :: "('k \<times> 'v) list \<Rightarrow> bool" where
  "map_wf m \<equiv> distinct (map fst m)"

definition contains_key :: "('k \<times> 'v) list \<Rightarrow> 'k \<Rightarrow> bool" where
  "contains_key m k = (map_of m k \<noteq> None)"

definition get_or :: "('k \<times> 'v) list \<Rightarrow> 'k \<Rightarrow> 'v \<Rightarrow> 'v" where
  "get_or m k d = (case map_of m k of None \<Rightarrow> d | Some v \<Rightarrow> v)"

lemma contains_key_iff [simp]: "contains_key m k \<longleftrightarrow> k \<in> fst ` set m"
  by (simp add: contains_key_def map_of_eq_None_iff)

lemma map_of_update [alist_simps]: "map_of (AList.update k v m) = (map_of m)(k \<mapsto> v)"
  by (rule update_conv')

lemma map_of_delete [alist_simps]: "map_of (AList.delete k m) = (map_of m)(k := None)"
  by (rule delete_conv')

lemma map_wf_update [alist_simps]: "map_wf m \<Longrightarrow> map_wf (AList.update k v m)"
  by (rule distinct_update)

lemma map_wf_delete [alist_simps]: "map_wf m \<Longrightarrow> map_wf (AList.delete k m)"
  by (rule distinct_delete)

lemma map_wf_filter [alist_simps]: "map_wf m \<Longrightarrow> map_wf (filter P m)"
  by (rule distinct_map_filter)

lemma set_update_wf [alist_simps]:
  "map_wf m \<Longrightarrow> set (AList.update k v m) = {(k, v)} \<union> {p \<in> set m. fst p \<noteq> k}"
  by (induction m) (auto simp: image_iff)

lemma set_delete_wf [alist_simps]: "set (AList.delete k m) = {p \<in> set m. fst p \<noteq> k}"
  by (auto simp: AList.delete_eq)

lemma length_update [alist_simps]:
  "length (AList.update k v m) = (if k \<in> fst ` set m then length m else Suc (length m))"
  by (induction m) auto

lemma length_delete_le [alist_simps]: "length (AList.delete k m) \<le> length m"
  by (simp add: AList.delete_eq)

lemma update_same [alist_simps]: "map_of m k = Some v \<Longrightarrow> AList.update k v m = m"
  by (induction m) (auto split: if_splits)

lemma map_of_filter_wf:
  "map_wf m \<Longrightarrow> map_of (filter P m) k = (case map_of m k of None \<Rightarrow> None
     | Some v \<Rightarrow> if P (k, v) then Some v else None)"
  by (induction m) (auto split: option.splits simp: map_of_eq_None_iff image_iff)

section \<open>Counting in lists\<close>

lemma length_filter_le_mono:
  "(\<And>x. x \<in> set xs \<Longrightarrow> P x \<Longrightarrow> Q x) \<Longrightarrow> length (filter P xs) \<le> length (filter Q xs)"
  by (induction xs) auto

lemma sum_list_filter_le:
  "sum_list (map f (filter P xs)) \<le> sum_list (map (f :: 'a \<Rightarrow> nat) xs)"
  by (induction xs) auto

lemma sum_list_map_remove_nth:
  "i < length xs \<Longrightarrow>
   sum_list (map f xs) = f (xs ! i) + sum_list (map (f :: 'a \<Rightarrow> nat) (take i xs @ drop (Suc i) xs))"
  by (subst id_take_nth_drop [of i xs]) simp_all

section \<open>Reachable states\<close>

text \<open>
  A component is a set of initial states and a step relation, one step per call of an
  operation. Every component gives its own step relation and invariant and interprets
  this interface, so that the invariant holds after every sequence of calls.
\<close>

locale invariant_machine =
  fixes initial :: "'s \<Rightarrow> bool"
    and step :: "'s \<Rightarrow> 's \<Rightarrow> bool"
    and inv :: "'s \<Rightarrow> bool"
  assumes inv_initial: "initial s \<Longrightarrow> inv s"
    and inv_step: "inv s \<Longrightarrow> step s t \<Longrightarrow> inv t"
begin

lemma inv_steps: "step\<^sup>*\<^sup>* s t \<Longrightarrow> inv s \<Longrightarrow> inv t"
  by (induction rule: rtranclp_induct) (auto intro: inv_step)

lemma inv_reachable: "initial s \<Longrightarrow> step\<^sup>*\<^sup>* s t \<Longrightarrow> inv t"
  by (blast intro: inv_steps inv_initial)

end

section \<open>Functional refinement\<close>

text \<open>
  A component that refines an abstract one operation by operation, as long as an invariant of its own holds,
  refines it over every sequence of operations.
\<close>

locale functional_refinement =
  fixes conc :: "'o \<Rightarrow> 's \<Rightarrow> 's"
    and spec :: "'o \<Rightarrow> 'a \<Rightarrow> 'a"
    and abs :: "'s \<Rightarrow> 'a"
    and cinv :: "'s \<Rightarrow> bool"
  assumes cinv_conc: "cinv s \<Longrightarrow> cinv (conc x s)"
    and simulates: "cinv s \<Longrightarrow> abs (conc x s) = spec x (abs s)"
begin

lemma run_cinv: "cinv s \<Longrightarrow> cinv (fold conc xs s)"
  by (induction xs arbitrary: s) (auto intro: cinv_conc)

lemma run_refines: "cinv s \<Longrightarrow> abs (fold conc xs s) = fold spec xs (abs s)"
  by (induction xs arbitrary: s) (simp_all add: simulates cinv_conc)

end

end
