(* ===== verification/Messages.thy ===== *)
theory Messages
  imports Prelude
begin

text \<open>
  The parts of the wire messages that several components read. The protobuf types are
  generated outside the repository: a message is its union (a video frame or anything else),
  and of a video frame the fields below are read. A video service has one of two sources
  (\<^verbatim>\<open>src/src/server/video_service.rs\<close>).
\<close>

datatype VideoSource = Monitor | Camera

record EncodedVideoFrame =
  ef_key :: bool
  ef_data :: "8 word list"

datatype frame_union =
    Vp8s "EncodedVideoFrame list"
  | Vp9s "EncodedVideoFrame list"
  | Av1s "EncodedVideoFrame list"
  | H264s "EncodedVideoFrame list"
  | H265s "EncodedVideoFrame list"
  | OtherFrame

record VideoFrame =
  vf_display :: int
  vf_stream_id :: nat
  vf_frame_id :: nat
  vf_union :: "frame_union option"

datatype 'm message = VideoFrameMsg VideoFrame | OtherMsg 'm | EmptyMsg

type_synonym 'm queued = "instant \<times> 'm message"

definition leading_keyframe :: "VideoFrame \<Rightarrow> bool" where
  "leading_keyframe f =
     (let first = (\<lambda>fs. case fs of [] \<Rightarrow> False | g # _ \<Rightarrow> ef_key g \<and> ef_data g \<noteq> [])
      in case vf_union f of
           Some (Vp8s fs) \<Rightarrow> first fs
         | Some (Vp9s fs) \<Rightarrow> first fs
         | Some (Av1s fs) \<Rightarrow> first fs
         | Some (H264s fs) \<Rightarrow> first fs
         | Some (H265s fs) \<Rightarrow> first fs
         | _ \<Rightarrow> False)"

end
