(* ===== verification/VideoQueue.thy ===== *)
theory VideoQueue
  imports Messages "HOL-Library.Sublist"
begin

text \<open>
  The connection-owned admission queue for encoded video,
  \<^verbatim>\<open>src/src/server/video_queue.rs\<close>: bounded admission per display track, loss and
  recovery bookkeeping, ordering barriers, and the deficit-round-robin \<open>pop\<close>.

  \<open>compute_size\<close> of a message is the parameter \<open>sz\<close> of the operations. The array \<open>[Track; DISPLAYS]\<close> is a function of the
  display number; every index the code uses is below \<open>DISPLAYS\<close>.
\<close>

section \<open>Data\<close>

definition DISPLAYS :: nat where "DISPLAYS = 64"
definition CONTROL_RESERVE :: nat where "CONTROL_RESERVE = 8"
definition TRACK_FRAMES :: nat where "TRACK_FRAMES = 4"
definition TRACKS :: nat where "TRACKS = 16"
definition CAPACITY :: nat where "CAPACITY = TRACKS * TRACK_FRAMES + CONTROL_RESERVE"
definition MAX_FRAME_BYTES :: nat where "MAX_FRAME_BYTES = 16 * 1024 * 1024"
definition MAX_BYTES :: nat where "MAX_BYTES = 64 * 1024 * 1024"
definition QUANTUM :: nat where "QUANTUM = 64 * 1024"
definition REFRESH_INTERVAL :: duration where "REFRESH_INTERVAL = from_secs 1"
definition MAX_REFRESHES :: nat where "MAX_REFRESHES = 5"
definition STALE_DELTA :: duration where "STALE_DELTA = from_secs 3"

lemmas queue_consts = DISPLAYS_def CONTROL_RESERVE_def TRACK_FRAMES_def TRACKS_def CAPACITY_def
  MAX_FRAME_BYTES_def MAX_BYTES_def QUANTUM_def

record Track =
  stream :: "nat option"
  enabled :: bool
  recovering :: bool
  lost_through :: nat
  refreshes :: nat
  last_refresh :: "instant option"
  deficit :: nat
  loss_events :: nat

definition Track_default :: Track where
  "Track_default = \<lparr>stream = None, enabled = False, recovering = False, lost_through = 0,
     refreshes = 0, last_refresh = None, deficit = 0, loss_events = 0\<rparr>"

record 'm Entry =
  item :: "'m queued"
  display :: "nat option"
  bytes :: nat
  key :: bool
  frame :: nat

type_synonym drops = "nat \<Rightarrow> instant option"

definition Drops_default :: drops where
  "Drops_default = (\<lambda>_. None)"

definition Drops_record :: "drops \<Rightarrow> 'm Entry \<Rightarrow> drops" where
  "Drops_record dr e = (case display e of Some d \<Rightarrow> dr(d := Some (fst (item e))) | None \<Rightarrow> dr)"

record 'm State =
  messages :: "'m Entry list"
  tracks :: "nat \<Rightarrow> Track"
  total_bytes :: nat
  cursor :: nat
  continuing :: bool
  fatal :: bool

definition State_new :: "'m State" where
  "State_new = \<lparr>messages = [], tracks = (\<lambda>_. Track_default\<lparr>enabled := True\<rparr>),
     total_bytes = 0, cursor = 0, continuing = False, fatal = False\<rparr>"

section \<open>Operations of the state\<close>

definition State_remove :: "'m State \<Rightarrow> nat \<Rightarrow> 'm State \<times> 'm Entry option" where
  "State_remove s i =
     (if i < length (messages s)
      then (let e = messages s ! i
            in (s\<lparr>messages := take i (messages s) @ drop (Suc i) (messages s),
                  total_bytes := total_bytes s - bytes e\<rparr>, Some e))
      else (s, None))"

text \<open>The scan of \<open>purge\<close> by index: an entry is removed in place or skipped.\<close>

function purge_from :: "nat \<Rightarrow> bool \<Rightarrow> nat \<Rightarrow> 'm State \<times> drops \<Rightarrow> 'm State \<times> drops" where
  "purge_from d deltas_only i (s, dr) =
     (if i < length (messages s) then
        (let e = messages s ! i
         in if display e = Some d \<and> (\<not> deltas_only \<or> \<not> key e)
            then purge_from d deltas_only i (fst (State_remove s i), Drops_record dr e)
            else purge_from d deltas_only (Suc i) (s, dr))
      else (s, dr))"
  by pat_completeness auto
termination
  by (relation "measure (\<lambda>(d, b, i, (s, dr)). length (messages s) - i)")
    (auto simp: State_remove_def Let_def)

definition State_purge :: "nat \<Rightarrow> bool \<Rightarrow> 'm State \<times> drops \<Rightarrow> 'm State \<times> drops" where
  "State_purge d deltas_only = purge_from d deltas_only 0"

definition set_track :: "nat \<Rightarrow> (Track \<Rightarrow> Track) \<Rightarrow> 'm State \<Rightarrow> 'm State" where
  "set_track d f s = s\<lparr>tracks := (tracks s)(d := f (tracks s d))\<rparr>"

definition loss_frame :: "'m Entry list \<Rightarrow> nat \<Rightarrow> nat \<Rightarrow> nat" where
  "loss_frame ms d fr =
     fold (\<lambda>e fl. max fl (frame e)) (filter (\<lambda>e. display e = Some d \<and> \<not> key e) ms) fr"

definition Track_lose :: "nat \<Rightarrow> Track \<Rightarrow> Track" where
  "Track_lose fr t =
     (let t1 = (if \<not> recovering t then t\<lparr>refreshes := 0, last_refresh := None\<rparr> else t)
      in t1\<lparr>recovering := True, lost_through := max (lost_through t1) fr,
            loss_events := sat_add u64_max (loss_events t1) 1\<rparr>)"

definition State_loss :: "nat \<Rightarrow> nat \<Rightarrow> 'm State \<times> drops \<Rightarrow> 'm State \<times> drops" where
  "State_loss d fr sd =
     (case sd of (s, dr) \<Rightarrow>
        State_purge d True (set_track d (Track_lose (loss_frame (messages s) d fr)) s, dr))"

definition push_barrier :: "'m queued \<Rightarrow> nat \<Rightarrow> 'm State \<Rightarrow> 'm State" where
  "push_barrier q b s =
     (if length (messages s) = CAPACITY \<or> b > MAX_FRAME_BYTES
         \<or> sat_add u64_max (total_bytes s) b > MAX_BYTES
      then s\<lparr>fatal := True\<rparr>
      else s\<lparr>total_bytes := total_bytes s + b,
             messages := messages s @ [\<lparr>item = q, display = None, bytes = b, key = False,
                                        frame = 0\<rparr>]\<rparr>)"

definition own_entries :: "nat \<Rightarrow> 'm Entry list \<Rightarrow> 'm Entry list" where
  "own_entries d ms = filter (\<lambda>e. display e = Some d) ms"

definition pending :: "'m Entry list \<Rightarrow> nat \<Rightarrow> bool" where
  "pending ms d = (\<exists>e \<in> set ms. display e = Some d)"

definition pending_count :: "'m Entry list \<Rightarrow> nat" where
  "pending_count ms = length (filter (pending ms) [0..<DISPLAYS])"

definition over_limit :: "nat \<Rightarrow> nat \<Rightarrow> 'm State \<Rightarrow> bool" where
  "over_limit d b s =
     (b > MAX_FRAME_BYTES
      \<or> sat_add u64_max (total_bytes s) b > MAX_BYTES
      \<or> length (messages s) \<ge> CAPACITY - CONTROL_RESERVE
      \<or> sat_add u64_max (sum_list (map bytes (own_entries d (messages s)))) b > MAX_FRAME_BYTES
      \<or> length (own_entries d (messages s)) \<ge> TRACK_FRAMES
      \<or> (\<not> pending (messages s) d \<and> pending_count (messages s) \<ge> TRACKS))"

text \<open>
  The video path of \<open>push\<close>, in the order of the code: a stale or disabled track drops the
  frame, a new stream restarts the track, a delta of a recovering track is lost, a keyframe
  supersedes its own track, a frame over a limit is lost, the rest is admitted.
\<close>

definition lose_video :: "'m Entry \<Rightarrow> nat \<Rightarrow> 'm State \<times> drops \<Rightarrow> 'm State \<times> drops" where
  "lose_video e d sd = (case State_loss d (frame e) sd of (s, dr) \<Rightarrow> (s, Drops_record dr e))"

definition start_stream :: "'m Entry \<Rightarrow> nat \<Rightarrow> nat \<Rightarrow> 'm State \<times> drops \<Rightarrow> 'm State \<times> drops" where
  "start_stream e d strm sd =
     (if stream (tracks (fst sd) d) \<noteq> Some strm
      then (case State_purge d False sd of (s, dr) \<Rightarrow>
              (set_track d (\<lambda>_. Track_default\<lparr>stream := Some strm, enabled := True,
                                              recovering := \<not> key e\<rparr>) s, dr))
      else sd)"

definition admit_video :: "'m Entry \<Rightarrow> nat \<Rightarrow> 'm State \<times> drops \<Rightarrow> 'm State \<times> drops" where
  "admit_video e d sd =
     (let s = fst sd in
      if over_limit d (bytes e) s then lose_video e d sd
      else (let s1 = (if key e \<and> (frame e = 0 \<or> frame e > lost_through (tracks s d))
                      then set_track d (\<lambda>t. t\<lparr>recovering := False, refreshes := 0\<rparr>) s
                      else s)
            in (s1\<lparr>total_bytes := total_bytes s1 + bytes e, messages := messages s1 @ [e]\<rparr>,
                snd sd)))"

definition push_video ::
  "'m Entry \<Rightarrow> nat \<Rightarrow> nat \<Rightarrow> 'm State \<Rightarrow> 'm State \<times> drops" where
  "push_video e d strm s =
     (let t = tracks s d in
      if \<not> enabled t \<or> is_some_and (stream t) (\<lambda>old. strm < old)
      then (s, Drops_record Drops_default e)
      else
        (let sd = start_stream e d strm (s, Drops_default) in
         if \<not> key e \<and> recovering (tracks (fst sd) d) then lose_video e d sd
         else admit_video e d (if key e then State_purge d False sd else sd)))"

definition State_push :: "('m message \<Rightarrow> nat) \<Rightarrow> 'm queued \<Rightarrow> 'm State \<Rightarrow> 'm State \<times> drops" where
  "State_push sz q s =
     (case snd q of
        VideoFrameMsg f \<Rightarrow>
          (if vf_display f < 0 \<or> nat (vf_display f) \<ge> DISPLAYS
           then (s, Drops_default)
           else push_video \<lparr>item = q, display = Some (nat (vf_display f)), bytes = sz (snd q),
                            key = leading_keyframe f, frame = vf_frame_id f\<rparr>
                  (nat (vf_display f)) (vf_stream_id f) s)
      | _ \<Rightarrow> (push_barrier q (sz (snd q)) s, Drops_default))"

text \<open>\<open>position\<close> of Rust iterators.\<close>

fun position :: "('a \<Rightarrow> bool) \<Rightarrow> 'a list \<Rightarrow> nat option" where
  "position P [] = None"
| "position P (x # xs) = (if P x then Some 0 else map_option Suc (position P xs))"

text \<open>One iteration of the round-robin loop: \<open>Some\<close> when it returns an entry.\<close>

definition pop_iter :: "nat \<Rightarrow> 'm State \<Rightarrow> 'm State \<times> 'm queued option" where
  "pop_iter barrier s =
     (let d = cursor s;
          cont = continuing s;
          s1 = s\<lparr>cursor := (cursor s + 1) mod DISPLAYS, continuing := False\<rparr>
      in case position (\<lambda>e. display e = Some d) (take barrier (messages s1)) of
           None \<Rightarrow> (set_track d (\<lambda>t. t\<lparr>deficit := 0\<rparr>) s1, None)
         | Some i \<Rightarrow>
             (let s2 = (if cont then s1
                        else set_track d (\<lambda>t. t\<lparr>deficit :=
                               min (sat_add u64_max (deficit t) QUANTUM)
                                   (MAX_FRAME_BYTES + QUANTUM)\<rparr>) s1);
                  cost = bytes (messages s2 ! i)
              in if deficit (tracks s2 d) \<ge> cost
                 then (let s3 = (set_track d (\<lambda>t. t\<lparr>deficit := deficit t - cost\<rparr>) s2)
                                  \<lparr>cursor := d, continuing := True\<rparr>
                       in (fst (State_remove s3 i), map_option item (snd (State_remove s3 i))))
                 else (s2, None)))"

fun pop_loop :: "nat \<Rightarrow> nat \<Rightarrow> 'm State \<Rightarrow> 'm State \<times> 'm queued option" where
  "pop_loop 0 barrier s = (s, None)"
| "pop_loop (Suc n) barrier s =
     (case pop_iter barrier s of
        (s1, Some q) \<Rightarrow> (s1, Some q)
      | (s1, None) \<Rightarrow> pop_loop n barrier s1)"

definition POP_ROUNDS :: nat where
  "POP_ROUNDS = DISPLAYS * (MAX_FRAME_BYTES div QUANTUM + 1)"

definition State_pop :: "'m State \<Rightarrow> 'm State \<times> 'm queued option" where
  "State_pop s =
     (if (case messages s of [] \<Rightarrow> False | e # _ \<Rightarrow> display e = None)
      then (case State_remove s 0 of (s1, e) \<Rightarrow> (s1, map_option item e))
      else
        (let barrier = unwrap_or (position (\<lambda>e. display e = None) (messages s))
                         (length (messages s))
         in if barrier = 0 then (s, None) else pop_loop POP_ROUNDS barrier s))"

section \<open>The sender and receiver ends\<close>

definition VideoQueueSender_send ::
  "('m message \<Rightarrow> nat) \<Rightarrow> 'm queued \<Rightarrow> 'm State \<Rightarrow> 'm State \<times> drops" where
  "VideoQueueSender_send sz q s = State_push sz q s"

definition VideoQueueSender_lose :: "'m queued \<Rightarrow> 'm State \<Rightarrow> 'm State \<times> drops" where
  "VideoQueueSender_lose q s =
     (case snd q of
        VideoFrameMsg f \<Rightarrow>
          (if vf_display f \<ge> 0 \<and> nat (vf_display f) < DISPLAYS
           then (let d = nat (vf_display f);
                     (s1, dr1) = (if stream (tracks s d) = Some (vf_stream_id f)
                                  then State_loss d (vf_frame_id f) (s, Drops_default)
                                  else (s, Drops_default))
                 in (s1, dr1(d := Some (fst q))))
           else (s, Drops_default))
      | _ \<Rightarrow> (s, Drops_default))"

definition set_display :: "nat list \<Rightarrow> nat \<Rightarrow> 'm State \<times> drops \<Rightarrow> 'm State \<times> drops" where
  "set_display ds d sd =
     (let en = (d \<in> set ds);
          (s1, dr1) = (if enabled (tracks (fst sd) d) \<and> \<not> en
                       then (let (sp, dp) = State_purge d False sd
                             in (set_track d (\<lambda>t. t\<lparr>recovering := False\<rparr>) sp, dp))
                       else sd);
          s2 = (if \<not> enabled (tracks s1 d) \<and> en
                then set_track d (\<lambda>t. t\<lparr>recovering := True, refreshes := 0,
                                        last_refresh := None\<rparr>) s1
                else s1)
      in (set_track d (\<lambda>t. t\<lparr>enabled := en\<rparr>) s2, dr1))"

definition VideoQueueSender_set_displays :: "nat list \<Rightarrow> 'm State \<Rightarrow> 'm State \<times> drops" where
  "VideoQueueSender_set_displays ds s = fold (set_display ds) [0..<DISPLAYS] (s, Drops_default)"

definition Track_due :: "instant \<Rightarrow> Track \<Rightarrow> bool" where
  "Track_due now t \<longleftrightarrow> \<not> (\<not> enabled t \<or> \<not> recovering t \<or> refreshes t \<ge> MAX_REFRESHES
     \<or> is_some_and (last_refresh t) (\<lambda>at. since now at < REFRESH_INTERVAL))"

definition VideoQueueSender_recovery_due ::
  "instant \<Rightarrow> 'm State \<Rightarrow> 'm State \<times> (nat \<Rightarrow> (nat \<times> nat) option)" where
  "VideoQueueSender_recovery_due now s =
     (s\<lparr>tracks := (\<lambda>d. let t = tracks s d in if d < DISPLAYS \<and> Track_due now t
                       then t\<lparr>last_refresh := Some now, refreshes := refreshes t + 1\<rparr> else t)\<rparr>,
      (\<lambda>d. let t = tracks s d in if d < DISPLAYS \<and> Track_due now t
           then Some (unwrap_or (stream t) 0, loss_events t) else None))"

definition VideoQueueSender_stale_delta :: "instant \<Rightarrow> 'm queued \<Rightarrow> bool" where
  "VideoQueueSender_stale_delta now q =
     (case snd q of
        VideoFrameMsg f \<Rightarrow> \<not> leading_keyframe f \<and> since now (fst q) \<ge> STALE_DELTA
      | _ \<Rightarrow> False)"

text \<open>
  One pass of the loop of \<open>recv\<close> under the state's lock. \<open>Inr None\<close> is the pass that
  found nothing and waits for the next notification.
\<close>

definition VideoQueueReceiver_recv :: "'m State \<Rightarrow> 'm State \<times> (string + 'm queued option)" where
  "VideoQueueReceiver_recv s =
     (if fatal s then (s, Inl ''video ordering queue capacity exceeded'')
      else (case State_pop s of (s1, r) \<Rightarrow> (s1, Inr r)))"


section \<open>Purging is filtering\<close>

abbreviation purged :: "nat \<Rightarrow> bool \<Rightarrow> 'm Entry \<Rightarrow> bool" where
  "purged d deltas_only e \<equiv> display e = Some d \<and> (deltas_only \<longrightarrow> \<not> key e)"

declare purge_from.simps [simp del]

lemma purge_from_eq:
  "purge_from d b i (s, dr) =
     (s\<lparr>messages := take i (messages s) @ filter (\<lambda>e. \<not> purged d b e) (drop i (messages s)),
        total_bytes := total_bytes s - sum_list (map bytes (filter (purged d b) (drop i (messages s))))\<rparr>,
      fold (\<lambda>e dr. Drops_record dr e) (filter (purged d b) (drop i (messages s))) dr)"
proof (induction d b i "(s, dr)" arbitrary: s dr rule: purge_from.induct)
  case (1 d b i s dr)
  show ?case
  proof (cases "i < length (messages s)")
    case True
    let ?e = "messages s ! i"
    from True have dr: "drop i (messages s) = ?e # drop (Suc i) (messages s)"
      by (simp add: Cons_nth_drop_Suc)
    show ?thesis
    proof (cases "purged d b ?e")
      case p: True
      then have p': "display ?e = Some d \<and> (\<not> b \<or> \<not> key ?e)" by blast
      let ?t = "fst (State_remove s i)"
      from True have rm: "drop i (messages ?t) = drop (Suc i) (messages s)"
        "take i (messages ?t) = take i (messages s)" "total_bytes ?t = total_bytes s - bytes ?e"
        "?t\<lparr>messages := ms, total_bytes := n\<rparr> = s\<lparr>messages := ms, total_bytes := n\<rparr>" for ms n
        by (simp_all add: State_remove_def Let_def)
      have keep: "filter (\<lambda>e. \<not> purged d b e) (drop i (messages s))
          = filter (\<lambda>e. \<not> purged d b e) (drop (Suc i) (messages s))"
        using p unfolding dr by simp
      have gone: "filter (purged d b) (drop i (messages s))
          = ?e # filter (purged d b) (drop (Suc i) (messages s))"
        using p unfolding dr by simp
      have "purge_from d b i (s, dr) = purge_from d b i (?t, Drops_record dr ?e)"
        using True p' by (subst purge_from.simps) (simp add: Let_def)
      then show ?thesis
        unfolding keep gone "1.hyps"(1) [OF True refl p'] rm by simp
    next
      case p: False
      then have p': "\<not> (display ?e = Some d \<and> (\<not> b \<or> \<not> key ?e))" by blast
      from True have tk: "take (Suc i) (messages s) = take i (messages s) @ [?e]"
        by (rule take_Suc_conv_app_nth)
      have keep: "filter (\<lambda>e. \<not> purged d b e) (drop i (messages s))
          = ?e # filter (\<lambda>e. \<not> purged d b e) (drop (Suc i) (messages s))"
        using p unfolding dr by simp
      have gone: "filter (purged d b) (drop i (messages s))
          = filter (purged d b) (drop (Suc i) (messages s))"
        using p unfolding dr by simp
      have "purge_from d b i (s, dr) = purge_from d b (Suc i) (s, dr)"
        using True p' by (subst purge_from.simps) (simp only: Let_def if_True if_False)
      then show ?thesis
        unfolding keep gone "1.hyps"(2) [OF True refl p'] tk by simp
    qed
  next
    case False
    then show ?thesis by (subst purge_from.simps) simp
  qed
qed

lemma State_purge_eq:
  "State_purge d b (s, dr) =
     (s\<lparr>messages := filter (\<lambda>e. \<not> purged d b e) (messages s),
        total_bytes := total_bytes s - sum_list (map bytes (filter (purged d b) (messages s)))\<rparr>,
      fold (\<lambda>e dr. Drops_record dr e) (filter (purged d b) (messages s)) dr)"
  by (simp add: State_purge_def purge_from_eq)

lemma sum_list_filter_split:
  "sum_list (map f (filter P xs)) + sum_list (map f (filter (\<lambda>x. \<not> P x) xs))
     = sum_list (map (f :: 'a \<Rightarrow> nat) xs)"
  by (induction xs) auto

section \<open>The queue invariant\<close>

text \<open>Every limit of the queue, as a property of its entries.\<close>

definition within_limits :: "'m Entry list \<Rightarrow> bool" where
  "within_limits ms \<longleftrightarrow>
     length ms \<le> CAPACITY \<and> sum_list (map bytes ms) \<le> MAX_BYTES
     \<and> (\<forall>e \<in> set ms. bytes e \<le> MAX_FRAME_BYTES)
     \<and> (\<forall>d. length (own_entries d ms) \<le> TRACK_FRAMES
            \<and> sum_list (map bytes (own_entries d ms)) \<le> MAX_FRAME_BYTES)
     \<and> pending_count ms \<le> TRACKS"

definition entry_stream :: "'m Entry \<Rightarrow> nat option" where
  "entry_stream e = (case snd (item e) of VideoFrameMsg f \<Rightarrow> Some (vf_stream_id f) | _ \<Rightarrow> None)"

text \<open>Which entries a track may hold: its own stream, only while it is enabled, and no
  delta while it is recovering.\<close>

definition entry_ok :: "(nat \<Rightarrow> Track) \<Rightarrow> 'm Entry \<Rightarrow> bool" where
  "entry_ok ts e \<longleftrightarrow> (\<forall>d. display e = Some d \<longrightarrow>
     d < DISPLAYS \<and> enabled (ts d) \<and> (recovering (ts d) \<longrightarrow> key e)
     \<and> entry_stream e = stream (ts d))"

definition queue_inv :: "'m State \<Rightarrow> bool" where
  "queue_inv s \<longleftrightarrow>
     total_bytes s = sum_list (map bytes (messages s)) \<and> within_limits (messages s)
     \<and> (\<forall>e \<in> set (messages s). entry_ok (tracks s) e)
     \<and> cursor s < DISPLAYS \<and> (\<forall>d. deficit (tracks s d) \<le> MAX_FRAME_BYTES + QUANTUM)"

lemma sum_list_subseq: "subseq xs ys \<Longrightarrow> sum_list (map f xs) \<le> sum_list (map (f :: 'a \<Rightarrow> nat) ys)"
  by (induction rule: list_emb.induct) auto

lemma subseq_filterI: "subseq (filter P xs) xs"
  by (rule subseq_filter_left)

lemma subseq_remove_nth: "subseq (take i xs @ drop (Suc i) xs) xs"
proof (cases "i < length xs")
  case True
  have "subseq (take i xs @ drop (Suc i) xs) (take i xs @ xs ! i # drop (Suc i) xs)"
    by (intro list_emb_append_mono list_emb_Cons list_emb_refl refl)
  with True show ?thesis by (simp add: id_take_nth_drop [symmetric])
qed simp

lemma within_limits_subseq:
  assumes sub: "subseq ms' ms" and lim: "within_limits ms"
  shows "within_limits ms'"
proof -
  have st: "set ms' \<subseteq> set ms"
    using sub by (auto elim: list_emb_set)
  have own: "subseq (own_entries d ms') (own_entries d ms)" for d
    unfolding own_entries_def by (rule subseq_filter [OF sub])
  have "pending_count ms' \<le> pending_count ms"
    unfolding pending_count_def by (rule length_filter_le_mono) (use st in \<open>auto simp: pending_def\<close>)
  moreover have "length (own_entries d ms') \<le> length (own_entries d ms)"
    "sum_list (map bytes (own_entries d ms')) \<le> sum_list (map bytes (own_entries d ms))" for d
    using own [of d] by (auto intro: list_emb_length sum_list_subseq)
  moreover have "length ms' \<le> length ms" "sum_list (map bytes ms') \<le> sum_list (map bytes ms)"
    using sub by (auto intro: list_emb_length sum_list_subseq)
  ultimately show ?thesis
    using lim st unfolding within_limits_def by (meson order_trans subsetD)
qed


section \<open>Every operation keeps the invariant\<close>

lemma fst_State_purge:
  "fst (State_purge d b sd) = (fst sd)\<lparr>messages := filter (\<lambda>e. \<not> purged d b e) (messages (fst sd)),
     total_bytes := total_bytes (fst sd)
       - sum_list (map bytes (filter (purged d b) (messages (fst sd))))\<rparr>"
  by (cases sd) (simp add: State_purge_eq)

lemma purge_tracks [simp]: "tracks (fst (State_purge d b sd)) = tracks (fst sd)"
  by (simp add: fst_State_purge)

lemma set_track_sel [simp]:
  "messages (set_track d f s) = messages s" "total_bytes (set_track d f s) = total_bytes s"
  "cursor (set_track d f s) = cursor s" "continuing (set_track d f s) = continuing s"
  "fatal (set_track d f s) = fatal s"
  "tracks (set_track d f s) = (tracks s)(d := f (tracks s d))"
  by (simp_all add: set_track_def)

lemma queue_inv_subseq:
  assumes inv: "queue_inv s" and sub: "subseq (messages t) (messages s)"
    and eq: "total_bytes t = sum_list (map bytes (messages t))"
    and "tracks t = tracks s" "cursor t < DISPLAYS"
  shows "queue_inv t"
proof -
  have "set (messages t) \<subseteq> set (messages s)"
    using sub by (auto elim: list_emb_set)
  with inv assms within_limits_subseq [OF sub] show ?thesis
    unfolding queue_inv_def by auto
qed

lemma queue_inv_purge:
  assumes "queue_inv (fst sd)"
  shows "queue_inv (fst (State_purge d b sd))"
proof (rule queue_inv_subseq [OF assms])
  have "total_bytes (fst sd) = sum_list (map bytes (messages (fst sd)))"
    using assms by (simp add: queue_inv_def)
  then show "total_bytes (fst (State_purge d b sd))
      = sum_list (map bytes (messages (fst (State_purge d b sd))))"
    using sum_list_filter_split [of bytes "purged d b" "messages (fst sd)"]
    by (simp add: fst_State_purge)
qed (use assms in \<open>auto simp: fst_State_purge subseq_filterI queue_inv_def\<close>)

text \<open>Changing a track whose entries still fit it.\<close>

lemma queue_inv_set_track:
  assumes "queue_inv s" and "deficit (f (tracks s d)) \<le> MAX_FRAME_BYTES + QUANTUM"
    and "\<And>e. e \<in> set (messages s) \<Longrightarrow> display e = Some d \<Longrightarrow>
           enabled (f (tracks s d)) \<and> (recovering (f (tracks s d)) \<longrightarrow> key e)
           \<and> stream (f (tracks s d)) = stream (tracks s d)"
  shows "queue_inv (set_track d f s)"
  using assms unfolding queue_inv_def entry_ok_def by auto

lemma Track_lose_sel [simp]:
  "recovering (Track_lose fr t)" "enabled (Track_lose fr t) = enabled t"
  "stream (Track_lose fr t) = stream t" "deficit (Track_lose fr t) = deficit t"
  by (simp_all add: Track_lose_def Let_def)

lemma State_loss_eq:
  "State_loss d fr (s, dr) =
     State_purge d True (set_track d (Track_lose (loss_frame (messages s) d fr)) s, dr)"
  by (simp add: State_loss_def)

lemma loss_tracks [simp]:
  "tracks (fst (State_loss d fr sd))
     = (tracks (fst sd))(d := Track_lose (loss_frame (messages (fst sd)) d fr) (tracks (fst sd) d))"
  by (cases sd) (simp add: State_loss_eq)

lemma queue_inv_loss:
  assumes "queue_inv (fst sd)"
  shows "queue_inv (fst (State_loss d fr sd))"
proof (cases sd)
  case (Pair s dr)
  let ?f = "Track_lose (loss_frame (messages s) d fr)"
  let ?p = "fst (State_purge d True (s, dr))"
  have inv: "queue_inv s" using assms Pair by simp
  have "queue_inv ?p" by (rule queue_inv_purge) (simp add: inv)
  then have "queue_inv (set_track d ?f ?p)"
    using inv by (intro queue_inv_set_track)
      (auto simp: fst_State_purge queue_inv_def entry_ok_def)
  moreover have "fst (State_loss d fr sd) = set_track d ?f ?p"
    by (simp add: Pair State_loss_eq fst_State_purge set_track_def)
  ultimately show ?thesis by simp
qed

lemma queue_inv_lose_video: "queue_inv (fst sd) \<Longrightarrow> queue_inv (fst (lose_video e d sd))"
  using queue_inv_loss [of sd d "frame e"] by (simp add: lose_video_def case_prod_beta)

lemma queue_inv_start_stream:
  assumes "queue_inv (fst sd)"
  shows "queue_inv (fst (start_stream e d strm sd))"
proof (cases "stream (tracks (fst sd) d) = Some strm")
  case False
  let ?f = "\<lambda>_. Track_default\<lparr>stream := Some strm, enabled := True, recovering := \<not> key e\<rparr>"
  have "queue_inv (set_track d ?f (fst (State_purge d False sd)))"
    by (rule queue_inv_set_track [OF queue_inv_purge [OF assms]])
      (auto simp: fst_State_purge Track_default_def)
  with False show ?thesis by (simp add: start_stream_def case_prod_beta)
qed (use assms in \<open>simp add: start_stream_def\<close>)

lemma sat_add_le_limit: "m < u64_max \<Longrightarrow> \<not> sat_add u64_max a b > m \<Longrightarrow> a + b \<le> m"
  by (auto simp: sat_add_def min_def split: if_splits)

lemma length_filter_insert:
  "distinct xs \<Longrightarrow> length (filter (\<lambda>x. P x \<or> x = d) xs) \<le> Suc (length (filter P xs))"
proof (induction xs)
  case (Cons x xs)
  have "x = d \<Longrightarrow> filter (\<lambda>y. P y \<or> y = d) xs = filter P xs"
    using Cons.prems by (auto intro!: filter_cong)
  with Cons show ?case by auto
qed simp

lemma pending_count_snoc:
  assumes "display e = Some d"
  shows "pending_count (ms @ [e]) \<le> (if pending ms d then pending_count ms else Suc (pending_count ms))"
proof -
  have eq: "pending (ms @ [e]) = (\<lambda>x. pending ms x \<or> x = d)"
    using assms by (auto simp: pending_def fun_eq_iff)
  have "pending ms d \<Longrightarrow> (\<lambda>x. pending ms x \<or> x = d) = pending ms"
    by (auto simp: fun_eq_iff)
  with length_filter_insert [of "[0..<DISPLAYS]" "pending ms" d] show ?thesis
    by (auto simp: pending_count_def eq)
qed

lemma within_limits_admit:
  assumes lim: "within_limits (messages s)" and tb: "total_bytes s = sum_list (map bytes (messages s))"
    and ok: "\<not> over_limit d (bytes e) s" and d: "display e = Some d"
  shows "within_limits (messages s @ [e])"
proof -
  let ?ms = "messages s"
  have a: "bytes e \<le> MAX_FRAME_BYTES" "length ?ms < CAPACITY - CONTROL_RESERVE"
    "length (own_entries d ?ms) < TRACK_FRAMES"
    "\<not> (\<not> pending ?ms d \<and> pending_count ?ms \<ge> TRACKS)"
    using ok by (auto simp: over_limit_def)
  have b: "sum_list (map bytes ?ms) + bytes e \<le> MAX_BYTES"
    using ok tb sat_add_le_limit [of MAX_BYTES "total_bytes s" "bytes e"]
    by (simp add: over_limit_def queue_consts)
  have c: "sum_list (map bytes (own_entries d ?ms)) + bytes e \<le> MAX_FRAME_BYTES"
    using ok sat_add_le_limit [of MAX_FRAME_BYTES "sum_list (map bytes (own_entries d ?ms))" "bytes e"]
    by (simp add: over_limit_def queue_consts)
  have own: "own_entries x (?ms @ [e]) = own_entries x ?ms @ (if x = d then [e] else [])" for x
    using d by (simp add: own_entries_def)
  have "pending_count (?ms @ [e]) \<le> TRACKS"
    using pending_count_snoc [OF d, of ?ms] a(4) lim
    by (auto simp: within_limits_def not_le split: if_splits)
  moreover have "\<forall>x. length (own_entries x (?ms @ [e])) \<le> TRACK_FRAMES
      \<and> sum_list (map bytes (own_entries x (?ms @ [e]))) \<le> MAX_FRAME_BYTES"
    using lim a(3) c by (simp add: own within_limits_def)
  ultimately show ?thesis
    using lim a b by (simp add: within_limits_def)
qed

lemma queue_inv_admit_video:
  assumes inv: "queue_inv (fst sd)" and e: "display e = Some d" "d < DISPLAYS"
    and t: "enabled (tracks (fst sd) d)" "stream (tracks (fst sd) d) = entry_stream e"
    and k: "key e \<or> \<not> recovering (tracks (fst sd) d)"
  shows "queue_inv (fst (admit_video e d sd))"
proof (cases "over_limit d (bytes e) (fst sd)")
  case True
  then show ?thesis using inv by (simp add: admit_video_def Let_def queue_inv_lose_video)
next
  case False
  let ?f = "\<lambda>t. if key e \<and> (frame e = 0 \<or> frame e > lost_through t)
                then t\<lparr>recovering := False, refreshes := 0\<rparr> else t"
  let ?s = "set_track d ?f (fst sd)"
  have s: "queue_inv ?s"
    by (rule queue_inv_set_track [OF inv]) (use inv in \<open>auto simp: queue_inv_def entry_ok_def\<close>)
  have "within_limits (messages ?s @ [e])"
    using within_limits_admit [OF _ _ False e(1)] inv by (simp add: queue_inv_def)
  moreover have "entry_ok (tracks ?s) e"
    using e t k by (auto simp: entry_ok_def)
  moreover have "fst (admit_video e d sd)
      = ?s\<lparr>total_bytes := total_bytes ?s + bytes e, messages := messages ?s @ [e]\<rparr>"
    using False by (auto simp: admit_video_def Let_def set_track_def)
  ultimately show ?thesis
    using s by (simp add: queue_inv_def)
qed

lemma start_stream_track:
  "enabled (tracks (fst sd) d) \<Longrightarrow> enabled (tracks (fst (start_stream e d strm sd)) d)"
  "stream (tracks (fst (start_stream e d strm sd)) d) = Some strm"
  by (simp_all add: start_stream_def case_prod_beta)

lemma queue_inv_push_video:
  assumes inv: "queue_inv s" and e: "display e = Some d" "d < DISPLAYS" "entry_stream e = Some strm"
  shows "queue_inv (fst (push_video e d strm s))"
proof (cases "\<not> enabled (tracks s d) \<or> is_some_and (stream (tracks s d)) (\<lambda>old. strm < old)")
  case True
  then show ?thesis using inv by (simp add: push_video_def)
next
  case False
  define sd where "sd = start_stream e d strm (s, Drops_default)"
  have i: "queue_inv (fst sd)" unfolding sd_def by (rule queue_inv_start_stream) (simp add: inv)
  have t: "enabled (tracks (fst sd) d)" "stream (tracks (fst sd) d) = entry_stream e"
    using False e(3) by (auto simp: sd_def start_stream_track)
  have "queue_inv (fst (admit_video e d (if key e then State_purge d False sd else sd)))"
    if "key e \<or> \<not> recovering (tracks (fst sd) d)"
    by (rule queue_inv_admit_video) (use that i e t in \<open>auto simp: queue_inv_purge\<close>)
  then show ?thesis
    using False queue_inv_lose_video [OF i]
    by (auto simp: push_video_def Let_def sd_def [symmetric])
qed

lemma queue_inv_push_barrier:
  assumes "queue_inv s"
  shows "queue_inv (push_barrier q b s)"
proof (cases "length (messages s) = CAPACITY \<or> b > MAX_FRAME_BYTES
    \<or> sat_add u64_max (total_bytes s) b > MAX_BYTES")
  case True
  then show ?thesis using assms by (simp add: push_barrier_def queue_inv_def)
next
  case False
  then have "total_bytes s + b \<le> MAX_BYTES"
    using sat_add_le_limit [of MAX_BYTES "total_bytes s" b] by (simp add: queue_consts)
  moreover have "pending (ms @ [x]) = pending ms" if "display x = None" for ms :: "'a Entry list" and x
    using that by (auto simp: pending_def fun_eq_iff)
  ultimately show ?thesis
    using False assms
    by (auto simp: push_barrier_def queue_inv_def within_limits_def own_entries_def pending_count_def
        entry_ok_def)
qed

lemma queue_inv_push: "queue_inv s \<Longrightarrow> queue_inv (fst (State_push sz q s))"
  by (auto simp: State_push_def entry_stream_def split: message.splits
      intro!: queue_inv_push_video queue_inv_push_barrier)

lemma queue_inv_lose: "queue_inv s \<Longrightarrow> queue_inv (fst (VideoQueueSender_lose q s))"
  using queue_inv_loss [of "(s, Drops_default)"]
  by (auto simp: VideoQueueSender_lose_def Let_def case_prod_beta split: message.splits)

lemma queue_inv_set_display:
  assumes "queue_inv (fst sd)" "d < DISPLAYS"
  shows "queue_inv (fst (set_display ds d sd))"
proof -
  let ?p = "fst (State_purge d False sd)"
  have none: "\<forall>e \<in> set (messages (fst sd)). display e \<noteq> Some d" if "\<not> enabled (tracks (fst sd) d)"
    using that assms by (auto simp: queue_inv_def entry_ok_def)
  show ?thesis
  proof (cases "enabled (tracks (fst sd) d) \<and> d \<notin> set ds")
    case True
    have "queue_inv (set_track d (\<lambda>t. t\<lparr>recovering := False, enabled := False\<rparr>) ?p)"
      by (rule queue_inv_set_track [OF queue_inv_purge [OF assms(1)]])
        (use assms in \<open>auto simp: fst_State_purge queue_inv_def\<close>)
    with True show ?thesis
      by (simp add: set_display_def Let_def case_prod_beta set_track_def)
  next
    case False
    let ?f = "\<lambda>t. (if \<not> enabled t \<and> d \<in> set ds
                   then t\<lparr>recovering := True, refreshes := 0, last_refresh := None\<rparr> else t)
                  \<lparr>enabled := d \<in> set ds\<rparr>"
    have "queue_inv (set_track d ?f (fst sd))"
      by (rule queue_inv_set_track [OF assms(1)])
        (use none False assms in \<open>auto simp: queue_inv_def entry_ok_def\<close>)
    with False show ?thesis
      by (auto simp: set_display_def Let_def case_prod_beta set_track_def)
  qed
qed

lemma queue_inv_set_displays:
  assumes "queue_inv s"
  shows "queue_inv (fst (VideoQueueSender_set_displays ds s))"
proof -
  have "queue_inv (fst (fold (set_display ds) xs sd))"
    if "queue_inv (fst sd)" "set xs \<subseteq> {..<DISPLAYS}" for xs and sd :: "'a State \<times> drops"
    using that by (induction xs arbitrary: sd) (simp_all add: queue_inv_set_display)
  from this [of "(s, Drops_default)" "[0..<DISPLAYS]"] assms show ?thesis
    by (simp add: VideoQueueSender_set_displays_def atLeast0LessThan)
qed

lemma queue_inv_recovery_due:
  assumes "queue_inv s"
  shows "queue_inv (fst (VideoQueueSender_recovery_due now s))"
  using assms unfolding queue_inv_def entry_ok_def VideoQueueSender_recovery_due_def Let_def
  by (auto split: if_splits)

section \<open>Popping\<close>

lemma position_Some:
  "position P xs = Some i \<Longrightarrow> i < length xs \<and> P (xs ! i) \<and> (\<forall>j < i. \<not> P (xs ! j))"
  by (induction xs arbitrary: i) (auto split: if_splits simp: less_Suc_eq_0_disj)

lemma position_None: "position P xs = None \<longleftrightarrow> (\<forall>x \<in> set xs. \<not> P x)"
  by (induction xs) auto

lemma State_remove_sel:
  "tracks (fst (State_remove s i)) = tracks s" "cursor (fst (State_remove s i)) = cursor s"
  "continuing (fst (State_remove s i)) = continuing s" "fatal (fst (State_remove s i)) = fatal s"
  "i < length (messages s) \<Longrightarrow>
     messages (fst (State_remove s i)) = take i (messages s) @ drop (Suc i) (messages s)"
  "i < length (messages s) \<Longrightarrow> snd (State_remove s i) = Some (messages s ! i)"
  by (simp_all add: State_remove_def Let_def)

lemma queue_inv_remove:
  assumes "queue_inv s"
  shows "queue_inv (fst (State_remove s i))"
proof (cases "i < length (messages s)")
  case True
  show ?thesis
    by (rule queue_inv_subseq [OF assms])
      (use assms True sum_list_map_remove_nth [of i "messages s" bytes] in
        \<open>auto simp: State_remove_def Let_def subseq_remove_nth queue_inv_def\<close>)
qed (use assms in \<open>simp add: State_remove_def\<close>)

text \<open>The queued entry that a track would send next: its first one before the barrier.\<close>

abbreviation next_of :: "nat \<Rightarrow> 'm State \<Rightarrow> nat \<Rightarrow> nat option" where
  "next_of barrier s d \<equiv> position (\<lambda>e. display e = Some d) (take barrier (messages s))"

definition credited :: "nat \<Rightarrow> nat" where
  "credited c = min (sat_add u64_max c QUANTUM) (MAX_FRAME_BYTES + QUANTUM)"

lemma pop_iter_cases:
  obtains (idle) "next_of b s (cursor s) = None"
      "pop_iter b s = (set_track (cursor s) (\<lambda>t. t\<lparr>deficit := 0\<rparr>)
         (s\<lparr>cursor := (cursor s + 1) mod DISPLAYS, continuing := False\<rparr>), None)"
  | (short) i t where "next_of b s (cursor s) = Some i"
      "t = (if continuing s then tracks s (cursor s)
            else (tracks s (cursor s))\<lparr>deficit := credited (deficit (tracks s (cursor s)))\<rparr>)"
      "deficit t < bytes (messages s ! i)"
      "pop_iter b s = (set_track (cursor s) (\<lambda>_. t)
         (s\<lparr>cursor := (cursor s + 1) mod DISPLAYS, continuing := False\<rparr>), None)"
  | (sent) i t where "next_of b s (cursor s) = Some i"
      "t = (if continuing s then tracks s (cursor s)
            else (tracks s (cursor s))\<lparr>deficit := credited (deficit (tracks s (cursor s)))\<rparr>)"
      "bytes (messages s ! i) \<le> deficit t"
      "pop_iter b s = (fst (State_remove ((set_track (cursor s)
           (\<lambda>_. t\<lparr>deficit := deficit t - bytes (messages s ! i)\<rparr>) s)\<lparr>continuing := True\<rparr>) i),
         Some (item (messages s ! i)))"
proof (cases "next_of b s (cursor s)")
  case None
  then show thesis by (intro idle) (simp_all add: pop_iter_def Let_def)
next
  case (Some i)
  then have i: "i < length (messages s)" using position_Some [OF Some] by simp
  define t where "t = (if continuing s then tracks s (cursor s)
     else (tracks s (cursor s))\<lparr>deficit := credited (deficit (tracks s (cursor s)))\<rparr>)"
  show thesis
  proof (cases "bytes (messages s ! i) \<le> deficit t")
    case True
    with Some i t_def show thesis
      by (intro sent [of i t])
        (auto simp: pop_iter_def Let_def State_remove_def set_track_def credited_def)
  next
    case False
    with Some t_def show thesis
      by (intro short [of i t]) (auto simp: pop_iter_def Let_def set_track_def credited_def)
  qed
qed

lemma queue_inv_pop_iter:
  assumes inv: "queue_inv s"
  shows "queue_inv (fst (pop_iter b s))"
proof -
  have mv: "queue_inv (s'\<lparr>cursor := c, continuing := k\<rparr>)"
    if "queue_inv s'" "c < DISPLAYS" for s' :: "'a State" and c k
    using that by (simp add: queue_inv_def)
  have cr: "credited c \<le> MAX_FRAME_BYTES + QUANTUM" for c by (simp add: credited_def)
  have st: "queue_inv (set_track d (\<lambda>t. t\<lparr>deficit := c\<rparr>) s')"
    if "queue_inv s'" "c \<le> MAX_FRAME_BYTES + QUANTUM" for s' :: "'a State" and d c
    by (rule queue_inv_set_track) (use that in \<open>auto simp: queue_inv_def entry_ok_def\<close>)
  have cur: "cursor s < DISPLAYS" "(cursor s + 1) mod DISPLAYS < DISPLAYS"
    using inv by (simp_all add: queue_inv_def DISPLAYS_def)
  have dl: "deficit (tracks s d) \<le> MAX_FRAME_BYTES + QUANTUM" for d
    using inv by (simp add: queue_inv_def)
  show ?thesis
  proof (cases b s rule: pop_iter_cases)
    case idle
    then show ?thesis using st [OF mv [OF inv cur(2)]] by simp
  next
    case (short i t)
    have "(\<lambda>_. t) (tracks s (cursor s)) = (tracks s (cursor s))\<lparr>deficit := deficit t\<rparr>"
      using short(2) by simp
    then show ?thesis
      using st [OF mv [OF inv cur(2)], of "deficit t" "cursor s"] short(2,4) cr dl
      by (auto simp: set_track_def split: if_splits)
  next
    case (sent i t)
    let ?c = "deficit t - bytes (messages s ! i)"
    have "?c \<le> MAX_FRAME_BYTES + QUANTUM"
      using sent(2) cr [of "deficit (tracks s (cursor s))"] dl [of "cursor s"]
      by (auto split: if_splits)
    then have "queue_inv ((set_track (cursor s) (\<lambda>t. t\<lparr>deficit := ?c\<rparr>) s)\<lparr>continuing := True\<rparr>)"
      using st [OF inv, of ?c "cursor s"] by (simp add: queue_inv_def)
    from queue_inv_remove [OF this, of i] sent(2,4) show ?thesis
      by (auto simp: set_track_def split: if_splits)
  qed
qed

lemma queue_inv_pop_loop: "queue_inv s \<Longrightarrow> queue_inv (fst (pop_loop n b s))"
proof (induction n arbitrary: s)
  case (Suc n)
  have "queue_inv (fst (pop_iter b s))" by (rule queue_inv_pop_iter [OF Suc.prems])
  with Suc.IH show ?case by (simp add: case_prod_beta split: option.splits)
qed simp

lemma queue_inv_pop: "queue_inv s \<Longrightarrow> queue_inv (fst (State_pop s))"
  using queue_inv_remove [of s 0] queue_inv_pop_loop [of s]
  by (simp add: State_pop_def Let_def case_prod_beta)

lemma queue_inv_recv: "queue_inv s \<Longrightarrow> queue_inv (fst (VideoQueueReceiver_recv s))"
  by (simp add: VideoQueueReceiver_recv_def case_prod_beta queue_inv_pop)

section \<open>The round robin always finds a frame\<close>

text \<open>How often \<open>k\<close> iterations from cursor \<open>c\<close> visit display \<open>d\<close>.\<close>

definition visits :: "nat \<Rightarrow> nat \<Rightarrow> nat \<Rightarrow> nat" where
  "visits k c d = card {i. i < k \<and> (c + i) mod DISPLAYS = d}"

lemma visits_0 [simp]: "visits 0 c d = 0"
  by (simp add: visits_def)

lemma visits_add: "visits (a + b) c d = visits a c d + visits b (c + a) d"
proof -
  have "{i. i < a + b \<and> (c + i) mod DISPLAYS = d} =
      {i. i < a \<and> (c + i) mod DISPLAYS = d}
      \<union> (\<lambda>i. a + i) ` {i. i < b \<and> (c + a + i) mod DISPLAYS = d}" (is "?L = ?A \<union> ?f ` ?B")
  proof (rule set_eqI)
    fix x show "x \<in> ?L \<longleftrightarrow> x \<in> ?A \<union> ?f ` ?B"
      by (cases "x < a") (auto simp: image_iff not_less le_iff_add add.assoc)
  qed
  moreover have "card (?A \<union> ?f ` ?B) = card ?A + card (?f ` ?B)"
    by (rule card_Un_disjoint) auto
  moreover have "card (?f ` ?B) = card ?B" by (rule card_image) (simp add: inj_on_def)
  ultimately show ?thesis by (simp add: visits_def add.assoc)
qed

lemma visits_mod: "visits k (c mod DISPLAYS) d = visits k c d"
  by (simp add: visits_def mod_simps)

lemma visits_Suc: "visits (Suc k) c d = (if c mod DISPLAYS = d then 1 else 0) + visits k (Suc c) d"
proof -
  have "{i. i = 0 \<and> (c + i) mod DISPLAYS = d} = (if c mod DISPLAYS = d then {0} else {})"
    by auto
  then have "visits 1 c d = (if c mod DISPLAYS = d then 1 else 0)"
    by (simp add: visits_def)
  then show ?thesis using visits_add [of 1 k c d] by simp
qed

lemma add_mod_less: "a < n \<Longrightarrow> i < n \<Longrightarrow> (a + i) mod n = (if a + i < n then a + i else a + i - n)"
  for a :: nat
  by (simp add: le_mod_geq)

lemma add_mod_hits:
  fixes a :: nat
  assumes "a < n" "d < n"
  shows "i < n \<and> (a + i) mod n = d \<longleftrightarrow> i = (if a \<le> d then d - a else d + n - a)"
proof (cases "i < n")
  case True
  show ?thesis unfolding add_mod_less [OF assms(1) True] using assms True by auto
qed (use assms in auto)

lemma visits_round:
  assumes "d < DISPLAYS"
  shows "visits DISPLAYS c d = 1"
proof -
  have c: "c mod DISPLAYS < DISPLAYS" by (simp add: DISPLAYS_def)
  have "visits DISPLAYS (c mod DISPLAYS) d = 1"
    unfolding visits_def add_mod_hits [OF c assms] by simp
  then show ?thesis by (simp add: visits_mod)
qed

lemma visits_rounds: "d < DISPLAYS \<Longrightarrow> visits (DISPLAYS * m) c d = m"
proof (induction m arbitrary: c)
  case (Suc m)
  then show ?case
    using visits_add [of DISPLAYS "DISPLAYS * m" c d] by (simp add: visits_round)
qed simp

lemma pop_iter_None:
  assumes "pop_iter b s = (s1, None)"
  shows "messages s1 = messages s \<and> cursor s1 = (cursor s + 1) mod DISPLAYS \<and> \<not> continuing s1
     \<and> (\<forall>d. d \<noteq> cursor s \<longrightarrow> deficit (tracks s1 d) = deficit (tracks s d))
     \<and> (\<forall>i. next_of b s (cursor s) = Some i \<longrightarrow> \<not> continuing s \<longrightarrow>
          deficit (tracks s1 (cursor s)) = credited (deficit (tracks s (cursor s)))
          \<and> deficit (tracks s1 (cursor s)) < bytes (messages s ! i))"
  using assms by (cases b s rule: pop_iter_cases) auto

lemma pop_loop_append:
  "pop_loop (m + n) b s =
     (case pop_loop m b s of (s1, Some q) \<Rightarrow> (s1, Some q) | (s1, None) \<Rightarrow> pop_loop n b s1)"
  by (induction m arbitrary: s) (auto simp: case_prod_beta split: option.splits)

text \<open>A display with a queued frame gains a quantum at every visit that does not send.\<close>

lemma pop_loop_credit:
  assumes "pop_loop k b s = (t, None)" "\<not> continuing s" "cursor s < DISPLAYS"
    "next_of b s d = Some i" "d < DISPLAYS" "deficit (tracks s d) \<le> MAX_FRAME_BYTES + QUANTUM"
  shows "min (deficit (tracks s d) + visits k (cursor s) d * QUANTUM) (MAX_FRAME_BYTES + QUANTUM)
           \<le> deficit (tracks t d)
     \<and> (visits k (cursor s) d = 0 \<longrightarrow> deficit (tracks t d) = deficit (tracks s d))
     \<and> (visits k (cursor s) d > 0 \<longrightarrow> deficit (tracks t d) < bytes (messages s ! i))"
  using assms
proof (induction k arbitrary: s)
  case (Suc k)
  obtain s1 where it: "pop_iter b s = (s1, None)" and lp: "pop_loop k b s1 = (t, None)"
    using Suc.prems(1) by (auto split: prod.splits option.splits)
  note n = pop_iter_None [OF it]
  have m1: "messages s1 = messages s" "cursor s1 = (cursor s + 1) mod DISPLAYS" "\<not> continuing s1"
    using n by auto
  have cl: "cursor s1 < DISPLAYS" by (simp add: m1 DISPLAYS_def)
  have vis: "visits (Suc k) (cursor s) d = (if cursor s = d then 1 else 0) + visits k (cursor s1) d"
    using visits_Suc [of k "cursor s" d] visits_mod [of k "Suc (cursor s)" d] Suc.prems(3)
    by (simp add: m1)
  have sat: "credited c = min (c + QUANTUM) (MAX_FRAME_BYTES + QUANTUM)"
    if "c \<le> MAX_FRAME_BYTES + QUANTUM" for c
    using that by (simp add: credited_def sat_add_def queue_consts)
  have d1: "deficit (tracks s1 d) = (if cursor s = d then credited (deficit (tracks s d))
      else deficit (tracks s d))"
    using n Suc.prems(2,4) by auto
  have c1: "cursor s = d \<Longrightarrow> deficit (tracks s1 d) < bytes (messages s ! i)"
    using n Suc.prems(2,4) by auto
  have le: "deficit (tracks s1 d) \<le> MAX_FRAME_BYTES + QUANTUM"
    using Suc.prems(6) d1 by (simp add: credited_def)
  have "next_of b s1 d = Some i" using Suc.prems(4) m1 by simp
  note ih = Suc.IH [OF lp m1(3) cl this Suc.prems(5) le]
  show ?case
  proof (cases "cursor s = d")
    case True
    then have "deficit (tracks s1 d) = min (deficit (tracks s d) + QUANTUM) (MAX_FRAME_BYTES + QUANTUM)"
      using d1 sat [OF Suc.prems(6)] by simp
    moreover have "visits (Suc k) (cursor s) d = Suc (visits k (cursor s1) d)"
      using vis True by simp
    moreover have "deficit (tracks s1 d) < bytes (messages s ! i)" using c1 True .
    ultimately show ?thesis using ih unfolding m1(1) by auto
  next
    case False
    then show ?thesis using ih d1 by (simp add: vis m1(1))
  qed
qed simp

lemma pop_loop_finds:
  assumes inv: "queue_inv s" and d: "next_of b s d = Some i" "d < DISPLAYS"
  shows "\<exists>t q. pop_loop POP_ROUNDS b s = (t, Some q)"
proof (rule ccontr)
  assume "\<nexists>t q. pop_loop POP_ROUNDS b s = (t, Some q)"
  then obtain t where none: "pop_loop POP_ROUNDS b s = (t, None)"
    by (metis option.exhaust surj_pair)
  have rounds: "POP_ROUNDS = 1 + (63 + DISPLAYS * 256)"
    by (simp add: POP_ROUNDS_def queue_consts)
  obtain s1 where s1: "pop_loop 1 b s = (s1, None)" and r1: "pop_loop (63 + DISPLAYS * 256) b s1 = (t, None)"
    using none pop_loop_append [of 1 "63 + DISPLAYS * 256" b s] unfolding rounds
    by (auto split: prod.splits option.splits)
  obtain s2 where s2: "pop_loop 63 b s1 = (s2, None)" and r2: "pop_loop (DISPLAYS * 256) b s2 = (t, None)"
    using r1 pop_loop_append [of 63 "DISPLAYS * 256" b s1]
    by (auto split: prod.splits option.splits)
  have keep: "messages v = messages u \<and> (0 < k \<longrightarrow> \<not> continuing v)"
    if "pop_loop k b u = (v, None)" for k and u v :: "'a State"
    using that
  proof (induction k arbitrary: u)
    case (Suc k)
    then obtain w where w: "pop_iter b u = (w, None)" "pop_loop k b w = (v, None)"
      by (auto split: prod.splits option.splits)
    with Suc.IH [OF w(2)] pop_iter_None [OF w(1)] show ?case by (cases k) auto
  qed simp
  have inv2: "queue_inv s2"
    using queue_inv_pop_loop [OF inv, of 1 b] queue_inv_pop_loop [of s1 63 b] s1 s2 by simp
  have m2: "messages s2 = messages s" "\<not> continuing s2"
    using keep [OF s1] keep [OF s2] by auto
  then have "next_of b s2 d = Some i" using d by simp
  note cr = pop_loop_credit [OF r2 m2(2) _ this d(2)]
  have "MAX_FRAME_BYTES \<le> deficit (tracks t d)" "deficit (tracks t d) < bytes (messages s2 ! i)"
    using cr inv2 visits_rounds [OF d(2), of 256 "cursor s2"]
    by (auto simp: queue_inv_def MAX_FRAME_BYTES_def QUANTUM_def)
  moreover have "bytes (messages s2 ! i) \<le> MAX_FRAME_BYTES"
    using inv position_Some [OF d(1)] m2(1)
    by (auto simp: queue_inv_def within_limits_def)
  ultimately show False by simp
qed

lemma pop_loop_Some:
  assumes "pop_loop n b s = (t, Some q)"
  shows "\<exists>i d. next_of b s d = Some i \<and> q = item (messages s ! i)
     \<and> messages t = take i (messages s) @ drop (Suc i) (messages s)"
  using assms
proof (induction n arbitrary: s)
  case (Suc n)
  show ?case
  proof (cases b s rule: pop_iter_cases)
    case (sent i u)
    then show ?thesis
      using Suc.prems position_Some [OF sent(1)]
      by (intro exI [of _ i] exI [of _ "cursor s"]) (auto simp: State_remove_sel)
  qed (use Suc.prems Suc.IH in \<open>force+\<close>)
qed simp

text \<open>The position that \<open>pop\<close> may take: nothing before it is a barrier or of its own track.\<close>

definition may_send :: "'m Entry list \<Rightarrow> nat \<Rightarrow> bool" where
  "may_send ms i \<longleftrightarrow> i < length ms
     \<and> (\<forall>j < i. display (ms ! j) \<noteq> None \<and> display (ms ! j) \<noteq> display (ms ! i))"

lemma State_pop_takes:
  assumes "State_pop s = (t, Some q)"
  shows "\<exists>i. may_send (messages s) i \<and> q = item (messages s ! i)
     \<and> messages t = take i (messages s) @ drop (Suc i) (messages s)"
proof (cases "case messages s of [] \<Rightarrow> False | e # _ \<Rightarrow> display e = None")
  case True
  then have "0 < length (messages s)" by (cases "messages s") auto
  with assms True show ?thesis
    by (intro exI [of _ 0]) (auto simp: State_pop_def case_prod_beta State_remove_sel may_send_def)
next
  case False
  let ?b = "unwrap_or (position (\<lambda>e. display e = None) (messages s)) (length (messages s))"
  have lp: "pop_loop POP_ROUNDS ?b s = (t, Some q)"
    using assms False by (auto simp: State_pop_def Let_def split: if_splits)
  obtain i d where i: "next_of ?b s d = Some i" "q = item (messages s ! i)"
    "messages t = take i (messages s) @ drop (Suc i) (messages s)"
    using pop_loop_Some [OF lp] by blast
  note pi = position_Some [OF i(1)]
  have "\<forall>j < ?b. j < length (messages s) \<longrightarrow> display (messages s ! j) \<noteq> None"
    using position_Some [of "\<lambda>e. display e = None" "messages s"]
    by (cases "position (\<lambda>e. display e = None) (messages s)")
      (auto simp: position_None all_set_conv_all_nth)
  with pi i(2,3) show ?thesis
    by (intro exI [of _ i]) (auto simp: may_send_def)
qed

lemma State_pop_finds:
  assumes inv: "queue_inv s" and ne: "messages s \<noteq> []"
  shows "\<exists>t q. State_pop s = (t, Some q)"
proof -
  obtain e ms where ms: "messages s = e # ms" using ne by (cases "messages s") auto
  show ?thesis
  proof (cases "display e")
    case None
    then show ?thesis by (simp add: State_pop_def ms State_remove_def case_prod_beta)
  next
    case (Some d)
    let ?b = "unwrap_or (position (\<lambda>e. display e = None) (messages s)) (length (messages s))"
    have b: "0 < ?b"
      using Some by (cases "position (\<lambda>e. display e = None) ms") (simp_all add: ms)
    then have "next_of ?b s d = Some 0" using Some ms by (cases ?b) auto
    moreover have "d < DISPLAYS" using inv Some ms by (auto simp: queue_inv_def entry_ok_def)
    ultimately have "\<exists>t q. pop_loop POP_ROUNDS ?b s = (t, Some q)"
      by (rule pop_loop_finds [OF inv])
    then show ?thesis using Some b by (simp add: State_pop_def ms)
  qed
qed

section \<open>Reachable queues\<close>

inductive queue_step :: "('m message \<Rightarrow> nat) \<Rightarrow> 'm State \<Rightarrow> 'm State \<Rightarrow> bool"
  for sz :: "'m message \<Rightarrow> nat" where
  send: "queue_step sz s (fst (VideoQueueSender_send sz q s))"
| lose: "queue_step sz s (fst (VideoQueueSender_lose q s))"
| set_displays: "queue_step sz s (fst (VideoQueueSender_set_displays ds s))"
| recovery_due: "queue_step sz s (fst (VideoQueueSender_recovery_due now s))"
| recv: "queue_step sz s (fst (VideoQueueReceiver_recv s))"

abbreviation queue_reachable :: "('m message \<Rightarrow> nat) \<Rightarrow> 'm State \<Rightarrow> bool" where
  "queue_reachable sz s \<equiv> (queue_step sz)\<^sup>*\<^sup>* State_new s"

lemma queue_inv_new: "queue_inv State_new"
  by (simp add: queue_inv_def State_new_def within_limits_def own_entries_def pending_count_def
      pending_def Track_default_def queue_consts)

interpretation vq: invariant_machine "\<lambda>s. s = State_new" "queue_step sz" queue_inv for sz
proof unfold_locales
  show "s = State_new \<Longrightarrow> queue_inv s" for s :: "'a State" by (simp add: queue_inv_new)
  show "queue_inv s \<Longrightarrow> queue_step sz s t \<Longrightarrow> queue_inv t" for s t
    by (auto elim!: queue_step.cases simp: VideoQueueSender_send_def
        intro: queue_inv_push queue_inv_lose queue_inv_set_displays queue_inv_recovery_due
          queue_inv_recv)
qed

lemma queue_reachable_inv: "queue_reachable sz s \<Longrightarrow> queue_inv s"
  by (rule vq.inv_reachable [OF refl])

text \<open>A concrete run for the witnesses: a keyframe, a delta and a barrier on display 3.\<close>

definition demo_key :: "nat message" where
  "demo_key = VideoFrameMsg \<lparr>vf_display = 3, vf_stream_id = 7, vf_frame_id = 1,
     vf_union = Some (H264s [\<lparr>ef_key = True, ef_data = [1]\<rparr>])\<rparr>"

definition demo_delta :: "nat message" where
  "demo_delta = VideoFrameMsg \<lparr>vf_display = 3, vf_stream_id = 7, vf_frame_id = 2,
     vf_union = Some (H264s [\<lparr>ef_key = False, ef_data = [1]\<rparr>])\<rparr>"

definition demo_queue :: "nat State" where
  "demo_queue =
     fst (State_push (\<lambda>_. 1000) (20, OtherMsg 5)
       (fst (State_push (\<lambda>_. 1000) (11, demo_delta)
         (fst (State_push (\<lambda>_. 1000) (10, demo_key) State_new)))))"

lemma queue_reachable_push:
  assumes "queue_reachable sz s"
  shows "queue_reachable sz (fst (State_push sz q s))"
  using assms queue_step.send [of sz s q] unfolding VideoQueueSender_send_def
  by (rule rtranclp.rtrancl_into_rtrancl)

lemma demo_queue_reachable: "queue_reachable (\<lambda>_. 1000) demo_queue"
  unfolding demo_queue_def by (intro queue_reachable_push rtranclp.rtrancl_refl)

lemmas demo_simps = demo_queue_def demo_key_def demo_delta_def State_new_def State_push_def
  push_video_def start_stream_def admit_video_def push_barrier_def over_limit_def own_entries_def
  pending_def pending_count_def leading_keyframe_def set_track_def State_purge_eq queue_consts
  sat_add_def Track_default_def Drops_default_def Let_def

lemma demo_queue_messages:
  "map (\<lambda>e. (fst (item e), display e, key e)) (messages demo_queue)
     = [(10, Some 3, True), (11, Some 3, False), (20, None, False)]"
  by (simp add: demo_simps upt_rec)

section \<open>Properties\<close>

text \<open>
  C2. After any sequence of calls the queue is within every limit of the code: at most
  \<open>CAPACITY\<close> entries and \<open>MAX_BYTES\<close> bytes in total, no entry above \<open>MAX_FRAME_BYTES\<close>, at
  most \<open>TRACK_FRAMES\<close> frames and \<open>MAX_FRAME_BYTES\<close> bytes per display, at most \<open>TRACKS\<close>
  displays with queued frames; and the byte counter is exactly the sum of the entries, so
  that \<open>self.bytes -= entry.bytes\<close> never underflows.
\<close>

theorem video_queue_within_limits:
  assumes "queue_reachable sz s"
  shows "within_limits (messages s) \<and> total_bytes s = sum_list (map bytes (messages s))"
  using queue_reachable_inv [OF assms] by (simp add: queue_inv_def)

theorem video_queue_within_limits_witness:
  "queue_reachable (\<lambda>_. 1000) demo_queue \<and> within_limits (messages demo_queue)
     \<and> total_bytes demo_queue = sum_list (map bytes (messages demo_queue))"
  using demo_queue_reachable video_queue_within_limits [OF demo_queue_reachable] by blast

text \<open>
  C1. The bounded deficit round robin makes progress: whenever a reachable queue that has
  not failed holds anything, one pass of \<open>recv\<close> returns a message. The loop bound
  \<open>DISPLAYS * (MAX_FRAME_BYTES / QUANTUM + 1)\<close> is enough for the largest frame, also when
  the first visit adds no credit.
\<close>

theorem video_queue_recv_progress:
  assumes "queue_reachable sz s" "messages s \<noteq> []" "\<not> fatal s"
  shows "\<exists>t q. VideoQueueReceiver_recv s = (t, Inr (Some q))"
  using State_pop_finds [OF queue_reachable_inv [OF assms(1)] assms(2)] assms(3)
  by (auto simp: VideoQueueReceiver_recv_def)

theorem video_queue_recv_progress_witness:
  "\<exists>t q. VideoQueueReceiver_recv demo_queue = (t, Inr (Some q))"
proof (rule video_queue_recv_progress [OF demo_queue_reachable])
  show "messages demo_queue \<noteq> []" using demo_queue_messages by force
  show "\<not> fatal demo_queue" by (simp add: demo_simps upt_rec)
qed

text \<open>
  Delivery order: what \<open>pop\<close> returns is one entry of the queue, removed alone, and no
  earlier entry is an ordering barrier or a frame of the same display. So barriers are never
  overtaken and every display is first in, first out.
\<close>

theorem video_queue_pop_order:
  assumes "State_pop s = (t, Some q)"
  shows "\<exists>i. i < length (messages s) \<and> q = item (messages s ! i)
     \<and> messages t = take i (messages s) @ drop (Suc i) (messages s)
     \<and> (\<forall>j < i. display (messages s ! j) \<noteq> None
          \<and> display (messages s ! j) \<noteq> display (messages s ! i))"
  using State_pop_takes [OF assms] by (auto simp: may_send_def)

definition demo_barrier_queue :: "nat State" where
  "demo_barrier_queue = fst (State_push (\<lambda>_. 1000) (20, OtherMsg 5) State_new)"

theorem video_queue_pop_order_witness:
  "\<exists>i. i < length (messages demo_barrier_queue) \<and> (20, OtherMsg 5) = item (messages demo_barrier_queue ! i)
     \<and> messages (State_new :: nat State) = take i (messages demo_barrier_queue) @ drop (Suc i) (messages demo_barrier_queue)
     \<and> (\<forall>j < i. display (messages demo_barrier_queue ! j) \<noteq> None
          \<and> display (messages demo_barrier_queue ! j) \<noteq> display (messages demo_barrier_queue ! i))"
proof (rule video_queue_pop_order)
  show "State_pop demo_barrier_queue = (State_new, Some (20, OtherMsg 5))"
    by (simp add: demo_barrier_queue_def State_pop_def State_push_def push_barrier_def State_new_def
        State_remove_def Let_def queue_consts sat_add_def)
qed

text \<open>
  C3. No dependent frame outlives its reference: in a reachable queue every queued delta
  belongs to the current stream of an enabled display that is not recovering. A display in
  recovery has only keyframes queued, a disabled one nothing.
\<close>

theorem video_queue_no_orphan_delta:
  assumes "queue_reachable sz s" "e \<in> set (messages s)" "display e = Some d" "\<not> key e"
  shows "enabled (tracks s d) \<and> \<not> recovering (tracks s d) \<and> entry_stream e = stream (tracks s d)"
  using queue_reachable_inv [OF assms(1)] assms(2-4) by (auto simp: queue_inv_def entry_ok_def)

theorem video_queue_no_orphan_delta_witness:
  "enabled (tracks demo_queue 3) \<and> \<not> recovering (tracks demo_queue 3)
     \<and> entry_stream (messages demo_queue ! 1) = stream (tracks demo_queue 3)"
proof (rule video_queue_no_orphan_delta [OF demo_queue_reachable])
  let ?f = "\<lambda>e. (fst (item e), display e, key e)"
  have len: "1 < length (messages demo_queue)"
    using arg_cong [OF demo_queue_messages, of length] by simp
  then show "messages demo_queue ! 1 \<in> set (messages demo_queue)" by (rule nth_mem)
  have "?f (messages demo_queue ! 1) = map ?f (messages demo_queue) ! 1"
    using len by simp
  then have "?f (messages demo_queue ! 1) = (11, Some 3, False)"
    unfolding demo_queue_messages by simp
  then show "display (messages demo_queue ! 1) = Some 3" "\<not> key (messages demo_queue ! 1)"
    by simp_all
qed

text \<open>The barriers of a queue, in order, and their behaviour under the steps of a push.\<close>

definition barriers :: "'m State \<Rightarrow> 'm queued list" where
  "barriers s = map item (filter (\<lambda>e. display e = None) (messages s))"

lemma barriers_set_track [simp]: "barriers (set_track d f s) = barriers s"
  by (simp add: barriers_def)

lemma barriers_purge [simp]: "barriers (fst (State_purge d b sd)) = barriers (fst sd)"
proof -
  have "filter (\<lambda>e. display e = None) (filter (\<lambda>e. \<not> purged d b e) ms)
      = filter (\<lambda>e. display e = None) ms" for ms :: "'a Entry list"
    by (induction ms) auto
  then show ?thesis by (simp add: barriers_def fst_State_purge)
qed

lemma barriers_loss [simp]: "barriers (fst (State_loss d fr sd)) = barriers (fst sd)"
  by (cases sd) (simp add: State_loss_eq)

lemma barriers_push_video:
  assumes "display e = Some d"
  shows "barriers (fst (push_video e d strm s)) = barriers s"
proof -
  have "barriers (fst (lose_video e d sd)) = barriers (fst sd)" for sd
    by (simp add: lose_video_def case_prod_beta)
  moreover have "barriers (fst (start_stream e d strm sd)) = barriers (fst sd)" for sd
    by (simp add: start_stream_def case_prod_beta)
  moreover have "barriers (s'\<lparr>total_bytes := n, messages := messages s' @ [e]\<rparr>) = barriers s'"
    for s' n
    using assms by (simp add: barriers_def)
  ultimately show ?thesis
    by (simp add: push_video_def admit_video_def Let_def)
qed

lemma barriers_push_barrier:
  "\<not> fatal (push_barrier q b s) \<Longrightarrow> barriers (push_barrier q b s) = barriers s @ [q]"
  by (auto simp: push_barrier_def barriers_def split: if_splits)

text \<open>
  Ordering barriers are never evicted: unless the push fails the whole queue, the
  barriers after it are the barriers before it, in order, followed by the new one if the
  message is not a video frame.
\<close>

theorem video_queue_barriers_kept:
  assumes "\<not> fatal (fst (State_push sz q s))"
  shows "barriers (fst (State_push sz q s)) =
     barriers s @ (case snd q of VideoFrameMsg _ \<Rightarrow> [] | _ \<Rightarrow> [q])"
  using assms
  by (auto simp: State_push_def barriers_push_video barriers_push_barrier split: message.splits
      if_splits)

theorem video_queue_barriers_kept_witness:
  "barriers (fst (State_push (\<lambda>_. 1000) (20, OtherMsg (5::nat)) State_new)) =
     barriers State_new @ [(20, OtherMsg 5)]"
  using video_queue_barriers_kept [of "\<lambda>_. 1000" "(20, OtherMsg 5)" "State_new :: nat State"]
  by (simp add: State_push_def push_barrier_def State_new_def queue_consts sat_add_def)

lemma recovering_lose_video:
  "d = d' \<or> recovering (tracks (fst sd) d) \<Longrightarrow> recovering (tracks (fst (lose_video e d' sd)) d)"
  by (auto simp: lose_video_def case_prod_beta)

lemma recovering_admit_video:
  assumes "recovering (tracks (fst sd) d)" "\<not> recovering (tracks (fst (admit_video e d' sd)) d)"
  shows "d = d' \<and> key e \<and> (frame e = 0 \<or> frame e > lost_through (tracks (fst sd) d))"
  using assms by (auto simp: admit_video_def Let_def recovering_lose_video split: if_splits)

lemma recovering_push_video:
  assumes r: "recovering (tracks s d)" and c: "\<not> recovering (tracks (fst (push_video e d' strm s)) d)"
  shows "d = d' \<and> key e
     \<and> (stream (tracks s d) = Some strm \<longrightarrow> frame e = 0 \<or> frame e > lost_through (tracks s d))"
proof -
  define sd where "sd = start_stream e d' strm (s, Drops_default)"
  have same: "tracks (fst sd) d = tracks s d" if "d \<noteq> d' \<or> stream (tracks s d) = Some strm"
    using that by (auto simp: sd_def start_stream_def case_prod_beta)
  have new: "recovering (tracks (fst sd) d)" if "\<not> key e"
    using that r by (auto simp: sd_def start_stream_def case_prod_beta)
  have adm: "\<not> recovering (tracks (fst (admit_video e d' (if key e then State_purge d' False sd else sd))) d)"
    and nl: "\<not> (\<not> key e \<and> recovering (tracks (fst sd) d'))"
    using c r new recovering_lose_video [of d d' sd e]
    by (auto simp: push_video_def Let_def sd_def [symmetric] split: if_splits)
  have tr: "tracks (fst (if key e then State_purge d' False sd else sd)) = tracks (fst sd)"
    by simp
  have step: "d = d' \<and> key e \<and> (frame e = 0 \<or> frame e > lost_through (tracks (fst sd) d))"
    if "recovering (tracks (fst sd) d)"
    using recovering_admit_video [OF _ adm, unfolded tr] that by blast
  show ?thesis using same new step nl r by metis
qed

text \<open>
  Only a complete reference ends a recovery: if a push takes a display out of recovery,
  the message is a video frame of that display that starts with a keyframe, and within the
  same stream it is newer than every frame recorded as lost (or carries no frame number).
\<close>

theorem video_queue_recovery_needs_keyframe:
  assumes "recovering (tracks s d)" "\<not> recovering (tracks (fst (State_push sz q s)) d)"
  shows "\<exists>f. snd q = VideoFrameMsg f \<and> vf_display f = int d \<and> leading_keyframe f
     \<and> (stream (tracks s d) = Some (vf_stream_id f) \<longrightarrow>
          vf_frame_id f = 0 \<or> vf_frame_id f > lost_through (tracks s d))"
proof (cases "snd q")
  case (VideoFrameMsg f)
  with assms(2) have neg: "\<not> vf_display f < 0"
    using assms(1) by (auto simp: State_push_def)
  let ?e = "\<lparr>item = q, display = Some (nat (vf_display f)), bytes = sz (snd q),
       key = leading_keyframe f, frame = vf_frame_id f\<rparr>"
  have "\<not> recovering (tracks (fst (push_video ?e (nat (vf_display f)) (vf_stream_id f) s)) d)"
    using VideoFrameMsg assms by (auto simp: State_push_def split: if_splits)
  from recovering_push_video [OF assms(1) this] neg VideoFrameMsg show ?thesis by auto
qed (use assms in \<open>auto simp: State_push_def push_barrier_def split: if_splits\<close>)

definition demo_lost :: "nat State" where
  "demo_lost = set_track 3 (\<lambda>t. t\<lparr>stream := Some 7, recovering := True\<rparr>) State_new"

theorem video_queue_recovery_needs_keyframe_witness:
  "\<exists>f. snd (10 :: instant, demo_key) = VideoFrameMsg f \<and> vf_display f = int 3 \<and> leading_keyframe f
     \<and> (stream (tracks demo_lost 3) = Some (vf_stream_id f) \<longrightarrow>
          vf_frame_id f = 0 \<or> vf_frame_id f > lost_through (tracks demo_lost 3))"
proof (rule video_queue_recovery_needs_keyframe)
  show "recovering (tracks demo_lost 3)" by (simp add: demo_lost_def)
  show "\<not> recovering (tracks (fst (State_push (\<lambda>_. 1000) (10, demo_key) demo_lost)) 3)"
    by (simp add: demo_lost_def demo_simps)
qed

text \<open>
  Refresh requests are rationed: \<open>recovery_due\<close> asks for a refresh of a display only
  while it is enabled and recovering, at most \<open>MAX_REFRESHES\<close> times per recovery and not
  within \<open>REFRESH_INTERVAL\<close> of the previous request, and it records the request.
\<close>

theorem video_queue_refresh_rationed:
  assumes "VideoQueueSender_recovery_due now s = (t, due)" "due d = Some r"
  shows "d < DISPLAYS \<and> enabled (tracks s d) \<and> recovering (tracks s d)
     \<and> refreshes (tracks t d) = Suc (refreshes (tracks s d)) \<and> refreshes (tracks t d) \<le> MAX_REFRESHES
     \<and> last_refresh (tracks t d) = Some now
     \<and> (\<forall>at. last_refresh (tracks s d) = Some at \<longrightarrow> since now at \<ge> REFRESH_INTERVAL)"
  using assms
  by (auto simp: VideoQueueSender_recovery_due_def Track_due_def Let_def is_some_and_iff not_less
      split: if_splits)

theorem video_queue_refresh_rationed_witness:
  "let s = demo_lost; t = fst (VideoQueueSender_recovery_due 5 s) in
   3 < DISPLAYS \<and> enabled (tracks s 3) \<and> recovering (tracks s 3)
     \<and> refreshes (tracks t 3) = Suc (refreshes (tracks s 3)) \<and> refreshes (tracks t 3) \<le> MAX_REFRESHES
     \<and> last_refresh (tracks t 3) = Some 5
     \<and> (\<forall>at. last_refresh (tracks s 3) = Some at \<longrightarrow> since 5 at \<ge> REFRESH_INTERVAL)"
  unfolding Let_def
  by (rule video_queue_refresh_rationed [where due = "snd (VideoQueueSender_recovery_due 5 demo_lost)"
        and r = "(7, 0)"])
    (simp_all add: VideoQueueSender_recovery_due_def demo_lost_def Track_due_def State_new_def
      Track_default_def set_track_def DISPLAYS_def MAX_REFRESHES_def Let_def)

end
