(* ===== verification/HelperRetry.thy ===== *)
theory HelperRetry
  imports Prelude
begin

text \<open>
  Startup policy of the user capture helper, \<^verbatim>\<open>src/src/server/helper_retry.rs\<close>: bounded
  concurrent starts, cooldown and suppression after failures, attempts owned by tokens so that
  a stale lease cannot touch a newer attempt. The \<open>BTreeMap\<close> of entries is an association
  list; the mutex around the coordinator is the atomicity of one operation.
\<close>

section \<open>Data\<close>

definition STARTUP_TIMEOUT :: duration where "STARTUP_TIMEOUT = from_secs 3"
definition ABANDONED_TIMEOUT :: duration where "ABANDONED_TIMEOUT = from_secs 5"
definition FIRST_COOLDOWN :: duration where "FIRST_COOLDOWN = from_secs 5"
definition SECOND_COOLDOWN :: duration where "SECOND_COOLDOWN = from_secs 30"
definition MAX_FAILURES :: nat where "MAX_FAILURES = 3"
definition MAX_STARTING :: nat where "MAX_STARTING = 2"
definition MAX_KEYS :: nat where "MAX_KEYS = 64"

record HelperKey =
  key_generation :: nat
  key_display :: nat
  key_backend :: nat

record AttemptToken =
  token_key :: HelperKey
  token_generation :: nat

datatype Phase = Ready | Queued | Starting instant | Running | Cooldown instant | Suppressed

record HelperEntry =
  phase :: Phase
  attempt :: nat
  failures :: nat

definition HelperEntry_default :: HelperEntry where
  "HelperEntry_default = \<lparr>phase = Ready, attempt = 0, failures = 0\<rparr>"

record HelperCoordinator =
  desktop :: "(nat \<times> bool) option"
  desktop_generation :: nat
  next_attempt :: nat
  entries :: "(HelperKey \<times> HelperEntry) list"
  enabled :: bool
  process_retry_at :: "instant option"

definition HelperCoordinator_default :: HelperCoordinator where
  "HelperCoordinator_default = \<lparr>desktop = None, desktop_generation = 0, next_attempt = 0,
     entries = [], enabled = True, process_retry_at = None\<rparr>"

section \<open>Operations of the coordinator\<close>

definition HelperEntry_fail :: "instant \<Rightarrow> HelperEntry \<Rightarrow> HelperEntry" where
  "HelperEntry_fail now e =
     (let n = sat_add u32_max (failures e) 1
      in e\<lparr>failures := n,
           phase := (if n \<ge> MAX_FAILURES then Suppressed
                     else Cooldown (now + (if n = 1 then FIRST_COOLDOWN else SECOND_COOLDOWN)))\<rparr>)"

definition reset :: "bool \<Rightarrow> HelperCoordinator \<Rightarrow> HelperCoordinator" where
  "reset en c = c\<lparr>desktop_generation := sat_add u64_max (desktop_generation c) 1,
     entries := [], process_retry_at := None, enabled := en\<rparr>"

definition observe_desktop ::
  "nat \<Rightarrow> bool \<Rightarrow> HelperCoordinator \<Rightarrow> HelperCoordinator \<times> nat" where
  "observe_desktop session secure c =
     (let c1 = (if desktop c \<noteq> Some (session, secure)
                then reset (enabled c) (c\<lparr>desktop := Some (session, secure)\<rparr>) else c)
      in (c1, desktop_generation c1))"

definition abandoned :: "instant \<Rightarrow> HelperEntry \<Rightarrow> bool" where
  "abandoned now e = (case phase e of Starting start \<Rightarrow> since now start \<ge> ABANDONED_TIMEOUT | _ \<Rightarrow> False)"

definition expire :: "instant \<Rightarrow> HelperCoordinator \<Rightarrow> HelperCoordinator" where
  "expire now c = c\<lparr>entries :=
     map (\<lambda>(k, e). (k, if abandoned now e then HelperEntry_fail now e else e)) (entries c)\<rparr>"

definition is_starting :: "HelperEntry \<Rightarrow> bool" where
  "is_starting e = (case phase e of Starting _ \<Rightarrow> True | _ \<Rightarrow> False)"

definition starting_count :: "HelperCoordinator \<Rightarrow> nat" where
  "starting_count c = length (filter (\<lambda>(k, e). is_starting e) (entries c))"

definition process_blocked :: "instant \<Rightarrow> HelperCoordinator \<Rightarrow> bool" where
  "process_blocked now c = is_some_and (process_retry_at c) (\<lambda>at. now < at)"

definition startable :: "instant \<Rightarrow> Phase \<Rightarrow> bool" where
  "startable now p = (case p of Ready \<Rightarrow> True | Queued \<Rightarrow> True | Cooldown at \<Rightarrow> now \<ge> at | _ \<Rightarrow> False)"

definition begin_attempt ::
  "HelperKey \<Rightarrow> instant \<Rightarrow> HelperCoordinator \<Rightarrow> HelperCoordinator \<times> AttemptToken option" where
  "begin_attempt k now c0 =
     (if \<not> enabled c0 \<or> key_generation k \<noteq> desktop_generation c0 \<or> next_attempt c0 = u64_max
      then (c0, None)
      else
        (let c = expire now c0 in
         if \<not> contains_key (entries c) k \<and> length (entries c) \<ge> MAX_KEYS then (c, None)
         else
           (let busy = starting_count c \<ge> MAX_STARTING;
                blocked = process_blocked now c;
                e = get_or (entries c) k HelperEntry_default;
                c1 = c\<lparr>entries := AList.update k e (entries c)\<rparr>
            in if \<not> startable now (phase e) then (c1, None)
               else if busy \<or> blocked
               then (c\<lparr>entries := AList.update k (e\<lparr>phase := Queued\<rparr>) (entries c)\<rparr>, None)
               else
                 (let n = next_attempt c + 1
                  in (c\<lparr>next_attempt := n,
                        entries := AList.update k (e\<lparr>attempt := n, phase := Starting now\<rparr>) (entries c)\<rparr>,
                      Some \<lparr>token_key = k, token_generation = n\<rparr>)))))"

definition owned_entry :: "AttemptToken \<Rightarrow> HelperCoordinator \<Rightarrow> HelperEntry option" where
  "owned_entry tok c =
     (case map_of (entries c) (token_key tok) of
        Some e \<Rightarrow> (if attempt e = token_generation tok then Some e else None)
      | None \<Rightarrow> None)"

definition set_entry :: "AttemptToken \<Rightarrow> HelperEntry \<Rightarrow> HelperCoordinator \<Rightarrow> HelperCoordinator" where
  "set_entry tok e c = c\<lparr>entries := AList.update (token_key tok) e (entries c)\<rparr>"

definition success :: "AttemptToken \<Rightarrow> HelperCoordinator \<Rightarrow> HelperCoordinator \<times> bool" where
  "success tok c =
     (case owned_entry tok c of
        None \<Rightarrow> (c, False)
      | Some e \<Rightarrow> (if \<not> is_starting e then (c, False)
                  else (set_entry tok (e\<lparr>phase := Running, failures := 0\<rparr>) c, True)))"

definition live_phase :: "HelperEntry \<Rightarrow> bool" where
  "live_phase e = (case phase e of Starting _ \<Rightarrow> True | Running \<Rightarrow> True | _ \<Rightarrow> False)"

definition failure ::
  "AttemptToken \<Rightarrow> instant \<Rightarrow> bool \<Rightarrow> HelperCoordinator \<Rightarrow> HelperCoordinator \<times> bool" where
  "failure tok now process_launch c =
     (case owned_entry tok c of
        None \<Rightarrow> (c, False)
      | Some e \<Rightarrow> (if \<not> live_phase e then (c, False)
                  else (let c1 = set_entry tok (HelperEntry_fail now e) c
                        in ((if process_launch
                             then c1\<lparr>process_retry_at := Some (now + FIRST_COOLDOWN)\<rparr> else c1), True))))"

definition cancel :: "AttemptToken \<Rightarrow> HelperCoordinator \<Rightarrow> HelperCoordinator \<times> bool" where
  "cancel tok c =
     (case owned_entry tok c of
        None \<Rightarrow> (c, False)
      | Some e \<Rightarrow> (if \<not> live_phase e then (c, False)
                  else (set_entry tok (e\<lparr>phase := Ready\<rparr>) c, True)))"

definition retry_due ::
  "HelperKey \<Rightarrow> instant \<Rightarrow> HelperCoordinator \<Rightarrow> HelperCoordinator \<times> bool" where
  "retry_due k now c0 =
     (let c = expire now c0 in
      if \<not> enabled c \<or> key_generation k \<noteq> desktop_generation c \<or> process_blocked now c
         \<or> starting_count c \<ge> MAX_STARTING
      then (c, False)
      else (c, is_some_and (map_of (entries c) k)
                 (\<lambda>e. case phase e of Queued \<Rightarrow> True | Cooldown at \<Rightarrow> now \<ge> at | _ \<Rightarrow> False)))"

definition state_name :: "HelperKey \<Rightarrow> HelperCoordinator \<Rightarrow> string" where
  "state_name k c =
     (if \<not> enabled c then ''manual''
      else if key_generation k \<noteq> desktop_generation c then ''retired-desktop''
      else (case map_option phase (map_of (entries c) k) of
              None \<Rightarrow> ''ready''
            | Some Ready \<Rightarrow> ''ready''
            | Some Queued \<Rightarrow> ''queued''
            | Some (Starting _) \<Rightarrow> ''starting''
            | Some Running \<Rightarrow> ''running''
            | Some (Cooldown _) \<Rightarrow> ''cooldown''
            | Some Suppressed \<Rightarrow> ''suppressed''))"

definition protects_refresh ::
  "nat \<Rightarrow> instant \<Rightarrow> HelperCoordinator \<Rightarrow> HelperCoordinator \<times> bool" where
  "protects_refresh d now c0 =
     (let c = expire now c0;
          busy = starting_count c \<ge> MAX_STARTING;
          blocked = process_blocked now c
      in (c, list_ex (\<lambda>(k, e). key_display k = d
                \<and> (case phase e of Starting _ \<Rightarrow> True | Cooldown at \<Rightarrow> now < at
                    | Queued \<Rightarrow> busy \<or> blocked | _ \<Rightarrow> False)) (entries c)))"

section \<open>The lease\<close>

text \<open>The lease holds a reference to the coordinator; its operations act on the pair.\<close>

record HelperAttemptLease =
  lease_token :: AttemptToken
  first_frame :: bool
  started_at :: instant

definition Lease_new :: "AttemptToken \<Rightarrow> instant \<Rightarrow> HelperAttemptLease" where
  "Lease_new tok now = \<lparr>lease_token = tok, first_frame = False, started_at = now\<rparr>"

definition Lease_success ::
  "HelperAttemptLease \<times> HelperCoordinator \<Rightarrow> (HelperAttemptLease \<times> HelperCoordinator) \<times> bool" where
  "Lease_success lc =
     (case lc of (l, c) \<Rightarrow>
        (let (l1, c1, ok) =
               (if first_frame l then (l, c, True)
                else (case success (lease_token l) c of
                        (c', True) \<Rightarrow> (l\<lparr>first_frame := True\<rparr>, c', True)
                      | (c', False) \<Rightarrow> (l, c', False)))
         in if \<not> ok then ((l1, c1), False)
            else ((l1, c1), is_some_and (owned_entry (lease_token l1) c1) (\<lambda>e. phase e = Running))))"

definition Lease_startup_timed_out :: "instant \<Rightarrow> HelperAttemptLease \<Rightarrow> bool" where
  "Lease_startup_timed_out now l = (\<not> first_frame l \<and> since now (started_at l) \<ge> STARTUP_TIMEOUT)"

definition Lease_failure ::
  "instant \<Rightarrow> bool \<Rightarrow> HelperAttemptLease \<Rightarrow> HelperCoordinator \<Rightarrow> HelperCoordinator" where
  "Lease_failure now process_launch l c = fst (failure (lease_token l) now process_launch c)"

definition Lease_drop :: "HelperAttemptLease \<Rightarrow> HelperCoordinator \<Rightarrow> HelperCoordinator" where
  "Lease_drop l c = fst (cancel (lease_token l) c)"

section \<open>The coordinator invariant\<close>

definition entry_inv :: "HelperCoordinator \<Rightarrow> HelperKey \<Rightarrow> HelperEntry \<Rightarrow> bool" where
  "entry_inv c k e \<longleftrightarrow> key_generation k = desktop_generation c \<and> attempt e \<le> next_attempt c
     \<and> (phase e = Suppressed \<longleftrightarrow> MAX_FAILURES \<le> failures e)"

definition coord_inv :: "HelperCoordinator \<Rightarrow> bool" where
  "coord_inv c \<longleftrightarrow> map_wf (entries c) \<and> length (entries c) \<le> MAX_KEYS
     \<and> starting_count c \<le> MAX_STARTING \<and> next_attempt c \<le> u64_max
     \<and> (\<forall>(k, e) \<in> set (entries c). entry_inv c k e)"

lemma length_filter_update:
  "length (filter P (AList.update k v m)) \<le> length (filter P m) + (if P (k, v) then 1 else 0)"
  by (induction m) auto

lemma fail_sel [simp]:
  "attempt (HelperEntry_fail now e) = attempt e" "\<not> is_starting (HelperEntry_fail now e)"
  "\<not> live_phase (HelperEntry_fail now e)" "phase (HelperEntry_fail now e) \<noteq> Ready"
  "failures (HelperEntry_fail now e) = sat_add u32_max (failures e) 1"
  by (simp_all add: HelperEntry_fail_def Let_def is_starting_def live_phase_def)

lemma fail_suppressed [simp]:
  "phase (HelperEntry_fail now e) = Suppressed \<longleftrightarrow> MAX_FAILURES \<le> failures (HelperEntry_fail now e)"
  by (simp add: HelperEntry_fail_def Let_def)

lemma expire_sel [simp]:
  "desktop_generation (expire now c) = desktop_generation c" "next_attempt (expire now c) = next_attempt c"
  "enabled (expire now c) = enabled c" "process_retry_at (expire now c) = process_retry_at c"
  "map fst (entries (expire now c)) = map fst (entries c)" "length (entries (expire now c)) = length (entries c)"
  by (auto simp: expire_def)

lemma map_of_expire:
  "map_of (entries (expire now c)) k =
     map_option (\<lambda>e. if abandoned now e then HelperEntry_fail now e else e) (map_of (entries c) k)"
  by (simp add: expire_def map_of_map [unfolded comp_def] comp_def)

lemma starting_expire: "starting_count (expire now c) \<le> starting_count c"
proof -
  have "length (filter (\<lambda>(k, e). is_starting e)
      (map (\<lambda>(k, e). (k, if abandoned now e then HelperEntry_fail now e else e)) xs))
      \<le> length (filter (\<lambda>(k, e). is_starting e) xs)" for xs :: "(HelperKey \<times> HelperEntry) list"
    by (induction xs) (auto split: if_splits)
  then show ?thesis by (simp add: starting_count_def expire_def)
qed

lemma coord_inv_expire:
  assumes "coord_inv c"
  shows "coord_inv (expire now c)"
proof -
  have "entry_inv (expire now c) k e" if "(k, e) \<in> set (entries (expire now c))" for k e
    using that assms by (auto simp: expire_def coord_inv_def entry_inv_def split: if_splits)
  then show ?thesis
    using assms starting_expire [of now c] by (auto simp: coord_inv_def)
qed

text \<open>Replacing one entry, the only other way an operation changes the map.\<close>

lemma coord_inv_update:
  assumes inv: "coord_inv c" and e: "entry_inv (c\<lparr>next_attempt := n\<rparr>) k e"
    and n: "next_attempt c \<le> n" "n \<le> u64_max"
    and len: "k \<in> fst ` set (entries c) \<or> length (entries c) < MAX_KEYS"
    and st: "is_starting e \<Longrightarrow> starting_count c < MAX_STARTING"
  shows "coord_inv (c\<lparr>next_attempt := n, entries := AList.update k e (entries c)\<rparr>)"
proof -
  let ?m = "entries c" and ?P = "\<lambda>(k :: HelperKey, e). is_starting e"
  have wf: "map_wf ?m" using inv by (simp add: coord_inv_def)
  have len': "length (AList.update k e ?m) \<le> MAX_KEYS"
    using len inv by (auto simp: length_update coord_inv_def)
  have "length (filter ?P (AList.update k e ?m)) \<le> MAX_STARTING"
    using st inv length_filter_update [of ?P k e ?m]
    by (fastforce simp: coord_inv_def starting_count_def split: if_splits)
  moreover have "\<forall>(k', e') \<in> set (AList.update k e ?m). entry_inv (c\<lparr>next_attempt := n\<rparr>) k' e'"
    using e inv n(1) by (fastforce simp: set_update_wf [OF wf] coord_inv_def entry_inv_def)
  ultimately show ?thesis
    using len' n wf
    by (auto simp: coord_inv_def starting_count_def entry_inv_def map_wf_update)
qed

lemma coord_inv_begin:
  assumes inv0: "coord_inv c0"
  shows "coord_inv (fst (begin_attempt k now c0))"
proof -
  define c where "c = expire now c0"
  define e where "e = get_or (entries c) k HelperEntry_default"
  have inv: "coord_inv c" unfolding c_def by (rule coord_inv_expire [OF inv0])
  have same: "AList.update k e (entries c) = entries c" if "\<not> startable now (phase e)"
  proof (cases "map_of (entries c) k")
    case None
    with that show ?thesis by (simp add: e_def get_or_def HelperEntry_default_def startable_def)
  next
    case (Some v)
    then show ?thesis by (simp add: e_def get_or_def update_same)
  qed
  have up: "coord_inv (c\<lparr>next_attempt := n, entries := AList.update k (e\<lparr>attempt := a, phase := p\<rparr>) (entries c)\<rparr>)"
    if "key_generation k = desktop_generation c0" "startable now (phase e)" "a \<le> n"
      "next_attempt c \<le> n" "n \<le> u64_max" "p \<noteq> Suppressed"
      "contains_key (entries c) k \<or> length (entries c) < MAX_KEYS"
      "is_starting (e\<lparr>phase := p\<rparr>) \<Longrightarrow> starting_count c < MAX_STARTING" for n a p
  proof (rule coord_inv_update [OF inv])
    have "e = HelperEntry_default \<or> (k, e) \<in> set (entries c)"
      by (auto simp: e_def get_or_def split: option.splits dest: map_of_SomeD)
    then have "failures e < MAX_FAILURES"
      using that(2) inv
      by (auto simp: coord_inv_def entry_inv_def startable_def HelperEntry_default_def MAX_FAILURES_def)
    then show "entry_inv (c\<lparr>next_attempt := n\<rparr>) k (e\<lparr>attempt := a, phase := p\<rparr>)"
      using that by (simp add: entry_inv_def c_def)
  qed (use that in \<open>auto simp: is_starting_def\<close>)
  have att: "attempt e \<le> next_attempt c" "e\<lparr>phase := Queued\<rparr> = e\<lparr>attempt := attempt e, phase := Queued\<rparr>"
    "c\<lparr>entries := m\<rparr> = c\<lparr>next_attempt := next_attempt c, entries := m\<rparr>" for m
    using inv by (auto simp: e_def get_or_def coord_inv_def entry_inv_def HelperEntry_default_def
        split: option.splits dest!: map_of_SomeD)
  show ?thesis
  proof (cases "\<not> enabled c0 \<or> key_generation k \<noteq> desktop_generation c0 \<or> next_attempt c0 = u64_max
      \<or> \<not> contains_key (entries c) k \<and> length (entries c) \<ge> MAX_KEYS \<or> \<not> startable now (phase e)")
    case True
    then show ?thesis
      using inv0 inv same
      by (auto simp: begin_attempt_def Let_def c_def [symmetric] e_def [symmetric])
  next
    case False
    let ?n = "next_attempt c + 1"
    let ?q = "c\<lparr>next_attempt := next_attempt c,
        entries := AList.update k (e\<lparr>attempt := attempt e, phase := Queued\<rparr>) (entries c)\<rparr>"
    let ?s = "c\<lparr>next_attempt := ?n,
        entries := AList.update k (e\<lparr>attempt := ?n, phase := Starting now\<rparr>) (entries c)\<rparr>"
    have n: "next_attempt c = next_attempt c0" "next_attempt c \<le> u64_max"
      using inv by (simp_all add: coord_inv_def c_def)
    have k: "contains_key (entries c) k \<or> \<not> MAX_KEYS \<le> length (entries c)" "startable now (phase e)"
      using False by blast+
    have eq: "fst (begin_attempt k now c0) =
        (if starting_count c \<ge> MAX_STARTING \<or> process_blocked now c then ?q else ?s)"
      using False by (simp add: begin_attempt_def Let_def c_def [symmetric] e_def [symmetric]) blast
    have "coord_inv ?q"
      by (rule up) (use False k n att(1) in \<open>simp_all add: is_starting_def not_le\<close>)
    moreover have "coord_inv ?s" if "starting_count c < MAX_STARTING"
      by (rule up) (use False k n that in \<open>simp_all add: not_le\<close>)
    ultimately show ?thesis unfolding eq by auto
  qed
qed

lemma owned_entry_Some:
  "owned_entry tok c = Some e \<longleftrightarrow> map_of (entries c) (token_key tok) = Some e \<and> attempt e = token_generation tok"
  by (auto simp: owned_entry_def split: option.splits)

lemma coord_inv_set_entry:
  assumes "coord_inv c" "owned_entry tok c = Some e" "attempt e' = attempt e" "\<not> is_starting e'"
    "phase e' = Suppressed \<longleftrightarrow> MAX_FAILURES \<le> failures e'"
  shows "coord_inv (set_entry tok e' c)"
proof -
  have "(token_key tok, e) \<in> set (entries c)"
    using assms(2) by (auto simp: owned_entry_Some dest: map_of_SomeD)
  moreover have "entry_inv c (token_key tok) e"
    using calculation assms(1) by (auto simp: coord_inv_def)
  ultimately show ?thesis
    using coord_inv_update [OF assms(1), of "next_attempt c" "token_key tok" e'] assms
    by (force simp: set_entry_def entry_inv_def coord_inv_def)
qed

lemma live_not_suppressed:
  assumes "coord_inv c" "owned_entry tok c = Some e" "live_phase e"
  shows "failures e < MAX_FAILURES"
proof -
  have "entry_inv c (token_key tok) e"
    using assms(1,2) by (auto simp: owned_entry_Some coord_inv_def dest!: map_of_SomeD)
  with assms(3) show ?thesis by (auto simp: entry_inv_def live_phase_def not_le [symmetric])
qed

lemma coord_inv_success: "coord_inv c \<Longrightarrow> coord_inv (fst (success tok c))"
  by (auto simp: success_def is_starting_def MAX_FAILURES_def split: option.splits
      intro!: coord_inv_set_entry)

lemma coord_inv_failure: "coord_inv c \<Longrightarrow> coord_inv (fst (failure tok now pl c))"
proof -
  assume inv: "coord_inv c"
  have "coord_inv (set_entry tok (HelperEntry_fail now e) c)" if "owned_entry tok c = Some e" for e
    by (rule coord_inv_set_entry [OF inv that]) simp_all
  moreover have "coord_inv (c'\<lparr>process_retry_at := r\<rparr>)" if "coord_inv c'" for c' r
    using that by (simp add: coord_inv_def starting_count_def entry_inv_def)
  ultimately show ?thesis using inv by (simp add: failure_def Let_def split: option.splits)
qed

lemma coord_inv_cancel: "coord_inv c \<Longrightarrow> coord_inv (fst (cancel tok c))"
  using live_not_suppressed [of c tok]
  by (force simp: cancel_def is_starting_def split: option.splits intro!: coord_inv_set_entry)

lemma coord_inv_reset: "coord_inv c \<Longrightarrow> coord_inv (reset en c)"
  by (simp add: coord_inv_def reset_def starting_count_def)

lemma coord_inv_observe:
  assumes "coord_inv c"
  shows "coord_inv (fst (observe_desktop session secure c))"
proof -
  have "coord_inv (c\<lparr>desktop := d\<rparr>)" for d
    using assms by (simp add: coord_inv_def starting_count_def entry_inv_def)
  with assms show ?thesis by (simp add: observe_desktop_def Let_def coord_inv_reset)
qed

section \<open>Reachable coordinators\<close>

inductive coord_step :: "HelperCoordinator \<Rightarrow> HelperCoordinator \<Rightarrow> bool" where
  observe: "coord_step c (fst (observe_desktop session secure c))"
| reset: "coord_step c (reset en c)"
| start: "coord_step c (fst (begin_attempt k now c))"
| success: "coord_step c (fst (success tok c))"
| failure: "coord_step c (fst (failure tok now pl c))"
| cancel: "coord_step c (fst (cancel tok c))"
| expire: "coord_step c (expire now c)"

lemma coord_inv_default: "coord_inv HelperCoordinator_default"
  by (simp add: coord_inv_def HelperCoordinator_default_def starting_count_def)

text \<open>\<open>retry_due\<close> and \<open>protects_refresh\<close> change the coordinator only by expiring entries.\<close>

lemma query_expires:
  "fst (retry_due k now c) = expire now c" "fst (protects_refresh d now c) = expire now c"
  by (simp_all add: retry_due_def protects_refresh_def Let_def)

interpretation hc: invariant_machine "\<lambda>c. c = HelperCoordinator_default" coord_step coord_inv
proof unfold_locales
  show "c = HelperCoordinator_default \<Longrightarrow> coord_inv c" for c by (simp add: coord_inv_default)
  show "coord_inv c \<Longrightarrow> coord_step c t \<Longrightarrow> coord_inv t" for c t
    by (auto elim!: coord_step.cases intro: coord_inv_observe coord_inv_reset coord_inv_begin
        coord_inv_success coord_inv_failure coord_inv_cancel coord_inv_expire)
qed

abbreviation coord_reachable :: "HelperCoordinator \<Rightarrow> bool" where
  "coord_reachable c \<equiv> coord_step\<^sup>*\<^sup>* HelperCoordinator_default c"

text \<open>A token is spent in a state when it was issued and its key no longer has its attempt.\<close>

definition spent :: "AttemptToken \<Rightarrow> HelperCoordinator \<Rightarrow> bool" where
  "spent tok c \<longleftrightarrow> 0 < token_generation tok \<and> token_generation tok \<le> next_attempt c
     \<and> owned_entry tok c = None"

lemma spent_iff:
  "spent tok c \<longleftrightarrow> 0 < token_generation tok \<and> token_generation tok \<le> next_attempt c
     \<and> (\<forall>e. map_of (entries c) (token_key tok) = Some e \<longrightarrow> attempt e \<noteq> token_generation tok)"
  by (auto simp: spent_def owned_entry_def split: option.splits)

lemma spent_expire: "spent tok c \<Longrightarrow> spent tok (expire now c)"
  by (auto simp: spent_iff map_of_expire split: if_splits)

lemma spent_begin:
  assumes "spent tok c0"
  shows "spent tok (fst (begin_attempt k now c0))"
proof -
  define c where "c = expire now c0"
  have c: "spent tok c" "next_attempt c = next_attempt c0"
    using spent_expire [OF assms, of now] by (simp_all add: c_def)
  have get: "get_or (entries c) k HelperEntry_default = e \<Longrightarrow> k = token_key tok \<Longrightarrow>
      attempt e \<noteq> token_generation tok" for e
    using c(1) by (auto simp: spent_iff get_or_def HelperEntry_default_def split: option.splits)
  show ?thesis
    using assms c get
    by (auto simp: begin_attempt_def Let_def c_def [symmetric] spent_iff map_of_update split: if_splits)
qed

lemma spent_set_entry:
  assumes "spent tok c" "owned_entry tok' c = Some e" "attempt e' = attempt e"
  shows "spent tok (set_entry tok' e' c)"
  using assms by (auto simp: spent_iff set_entry_def owned_entry_Some map_of_update split: if_splits)

lemma spent_reset: "spent tok c \<Longrightarrow> spent tok (reset en c)"
  by (simp add: spent_iff reset_def)

lemma spent_observe: "spent tok c \<Longrightarrow> spent tok (fst (observe_desktop session secure c))"
  by (simp add: observe_desktop_def Let_def reset_def spent_iff)

lemma spent_success: "spent tok c \<Longrightarrow> spent tok (fst (success tok' c))"
  by (auto simp: success_def spent_set_entry split: option.splits)

lemma spent_cancel: "spent tok c \<Longrightarrow> spent tok (fst (cancel tok' c))"
  by (auto simp: cancel_def spent_set_entry split: option.splits)

lemma spent_failure: "spent tok c \<Longrightarrow> spent tok (fst (failure tok' now pl c))"
proof -
  have "spent tok (d\<lparr>process_retry_at := r\<rparr>)" if "spent tok d" for d r
    using that by (simp add: spent_iff)
  then show "spent tok c \<Longrightarrow> spent tok (fst (failure tok' now pl c))"
    by (auto simp: failure_def Let_def spent_set_entry split: option.splits)
qed

interpretation sp: invariant_machine "spent tok" coord_step "spent tok" for tok
  by unfold_locales
    (auto elim!: coord_step.cases intro: spent_reset spent_observe spent_begin spent_success
      spent_cancel spent_failure spent_expire)

section \<open>Properties\<close>

text \<open>
  C4. Bounded startup: in every reachable coordinator at most \<open>MAX_STARTING\<close> helpers are
  starting and at most \<open>MAX_KEYS\<close> keys are tracked, all of them of the current desktop
  generation; no stored attempt id is above the last one that was given out, and that one is
  within 64 bits; a key is suppressed exactly when it has reached \<open>MAX_FAILURES\<close> failures.
\<close>

theorem helper_startup_bounded:
  assumes "coord_reachable c"
  shows "starting_count c \<le> MAX_STARTING \<and> length (entries c) \<le> MAX_KEYS \<and> next_attempt c \<le> u64_max
     \<and> (\<forall>k e. map_of (entries c) k = Some e \<longrightarrow> key_generation k = desktop_generation c
          \<and> attempt e \<le> next_attempt c \<and> (phase e = Suppressed \<longleftrightarrow> MAX_FAILURES \<le> failures e))"
  using hc.inv_reachable [OF refl assms]
  by (auto simp: coord_inv_def entry_inv_def dest!: map_of_SomeD)

definition helper_demo_key :: HelperKey where
  "helper_demo_key = \<lparr>key_generation = 0, key_display = 1, key_backend = 2\<rparr>"

definition helper_demo_token :: AttemptToken where
  "helper_demo_token = \<lparr>token_key = helper_demo_key, token_generation = 1\<rparr>"

definition helper_demo_started :: HelperCoordinator where
  "helper_demo_started = fst (begin_attempt helper_demo_key 10 HelperCoordinator_default)"

lemma helper_demo_started_eq:
  "begin_attempt helper_demo_key 10 HelperCoordinator_default = (helper_demo_started, Some helper_demo_token)"
  "helper_demo_started = HelperCoordinator_default\<lparr>next_attempt := 1,
     entries := [(helper_demo_key, \<lparr>phase = Starting 10, attempt = 1, failures = 0\<rparr>)]\<rparr>"
  by (simp_all add: helper_demo_started_def begin_attempt_def HelperCoordinator_default_def helper_demo_key_def
      helper_demo_token_def expire_def starting_count_def process_blocked_def get_or_def startable_def
      HelperEntry_default_def MAX_KEYS_def MAX_STARTING_def Let_def)

lemma helper_demo_reachable: "coord_reachable helper_demo_started"
  unfolding helper_demo_started_def by (rule r_into_rtranclp) (rule coord_step.start)

theorem helper_startup_bounded_witness:
  "starting_count helper_demo_started = 1 \<and> starting_count helper_demo_started \<le> MAX_STARTING
     \<and> map_of (entries helper_demo_started) helper_demo_key = Some \<lparr>phase = Starting 10, attempt = 1, failures = 0\<rparr>
     \<and> 1 \<le> next_attempt helper_demo_started \<and> key_generation helper_demo_key = desktop_generation helper_demo_started"
proof -
  have e: "map_of (entries helper_demo_started) helper_demo_key = Some \<lparr>phase = Starting 10, attempt = 1, failures = 0\<rparr>"
    "starting_count helper_demo_started = 1"
    by (simp_all add: helper_demo_started_eq(2) starting_count_def is_starting_def)
  show ?thesis using helper_startup_bounded [OF helper_demo_reachable] e by fastforce
qed

text \<open>
  Stale leases are inert: once a token no longer owns its key (the key was retired by a
  reset or given to a newer attempt), then after any further operations its success, failure
  and cancel, and so the drop of its lease, report false and leave the coordinator as it is.
\<close>

theorem helper_stale_token_inert:
  assumes "spent tok c" "coord_step\<^sup>*\<^sup>* c c'"
  shows "success tok c' = (c', False) \<and> failure tok now pl c' = (c', False)
     \<and> cancel tok c' = (c', False) \<and> Lease_drop (Lease_new tok at) c' = c'"
  using sp.inv_steps [OF assms(2,1)]
  by (simp add: spent_def success_def failure_def cancel_def Lease_drop_def Lease_new_def)

theorem helper_stale_token_inert_witness:
  "Lease_drop (Lease_new helper_demo_token 10) (reset True helper_demo_started) = reset True helper_demo_started"
proof -
  have "spent helper_demo_token (reset True helper_demo_started)"
    by (simp add: spent_iff helper_demo_started_eq helper_demo_token_def reset_def HelperCoordinator_default_def)
  from helper_stale_token_inert [OF this rtranclp.rtrancl_refl] show ?thesis by blast
qed

text \<open>
  A new attempt is only ever started when the policy allows it: automatic start is
  enabled, the key is of the current desktop, fewer than \<open>MAX_STARTING\<close> helpers are starting,
  the process gate is open, the key is neither starting, running, suppressed nor cooling
  down; and the token is fresh: no earlier attempt had its number.
\<close>

theorem helper_begin_guarded:
  assumes "begin_attempt k now c = (c', Some tok)"
  shows "enabled c \<and> key_generation k = desktop_generation c
     \<and> starting_count (expire now c) < MAX_STARTING \<and> \<not> process_blocked now c
     \<and> (\<forall>e. map_of (entries (expire now c)) k = Some e \<longrightarrow> startable now (phase e))
     \<and> token_key tok = k \<and> token_generation tok = Suc (next_attempt c)
     \<and> next_attempt c' = token_generation tok
     \<and> map_option phase (owned_entry tok c') = Some (Starting now)"
  using assms
  by (auto simp: begin_attempt_def Let_def owned_entry_def map_of_update get_or_def
      process_blocked_def split: if_splits)

theorem helper_begin_guarded_witness:
  "starting_count (expire 10 HelperCoordinator_default) < MAX_STARTING
     \<and> token_generation helper_demo_token = Suc (next_attempt HelperCoordinator_default)
     \<and> map_option phase (owned_entry helper_demo_token helper_demo_started) = Some (Starting 10)"
  using helper_begin_guarded [OF helper_demo_started_eq(1)] by blast

text \<open>
  The retry poll and the start agree: when \<open>retry_due\<close> reports a key as due, starting it
  at the same instant succeeds (unless the attempt counter is exhausted).
\<close>

theorem helper_retry_due_starts:
  assumes "retry_due k now c = (c', True)" "next_attempt c \<noteq> u64_max"
  shows "\<exists>c'' tok. begin_attempt k now c' = (c'', Some tok)"
proof -
  have c': "c' = expire now c" using assms(1) by (auto simp: retry_due_def Let_def split: if_splits)
  have "is_some_and (map_of (entries c') k)
      (\<lambda>e. case phase e of Queued \<Rightarrow> True | Cooldown at \<Rightarrow> now \<ge> at | _ \<Rightarrow> False)"
    using assms(1) by (auto simp: retry_due_def Let_def split: if_splits)
  then obtain e where e: "map_of (entries c') k = Some e"
    and q: "case phase e of Queued \<Rightarrow> True | Cooldown at \<Rightarrow> now \<ge> at | _ \<Rightarrow> False"
    by (auto simp: is_some_and_iff)
  from q have e': "startable now (phase e)" "\<not> is_starting e"
    by (cases "phase e"; simp add: startable_def is_starting_def)+
  have "abandoned now x \<Longrightarrow> is_starting x" for x
    by (auto simp: abandoned_def is_starting_def split: Phase.splits)
  then have e2: "map_of (entries (expire now c')) k = Some e"
    using e e'(2) by (auto simp: map_of_expire)
  then have k: "k \<in> fst ` set (entries (expire now c'))"
    by (force dest: map_of_SomeD)
  have "starting_count (expire now c') < MAX_STARTING" "\<not> process_blocked now c'" "enabled c'"
    "key_generation k = desktop_generation c'"
    using assms(1) starting_expire [of now c'] c'
    by (auto simp: retry_due_def Let_def process_blocked_def split: if_splits)
  moreover have "next_attempt c' \<noteq> u64_max" using assms(2) c' by simp
  ultimately show ?thesis
    using k e2 e'(1) by (simp add: begin_attempt_def Let_def get_or_def process_blocked_def)
qed

definition helper_demo_cooling :: HelperCoordinator where
  "helper_demo_cooling = fst (failure helper_demo_token 20 False helper_demo_started)"

lemma helper_demo_cooling_eq: "helper_demo_cooling = HelperCoordinator_default\<lparr>next_attempt := 1,
     entries := [(helper_demo_key, \<lparr>phase = Cooldown 5000000020, attempt = 1, failures = 1\<rparr>)]\<rparr>"
  by (simp add: helper_demo_cooling_def failure_def helper_demo_started_eq(2) owned_entry_def helper_demo_token_def
      live_phase_def HelperEntry_fail_def set_entry_def sat_add_def MAX_FAILURES_def
      FIRST_COOLDOWN_def from_secs_def Let_def)

theorem helper_retry_due_starts_witness:
  "\<exists>c'' tok. begin_attempt helper_demo_key 5000000020 helper_demo_cooling = (c'', Some tok)"
proof (rule helper_retry_due_starts)
  show "retry_due helper_demo_key 5000000020 helper_demo_cooling = (helper_demo_cooling, True)"
    by (simp add: retry_due_def helper_demo_cooling_eq expire_def abandoned_def process_blocked_def
        starting_count_def is_starting_def HelperCoordinator_default_def helper_demo_key_def
        MAX_STARTING_def Let_def)
  show "next_attempt helper_demo_cooling \<noteq> u64_max" by (simp add: helper_demo_cooling_eq)
qed

text \<open>
  Suppression is final until the desktop changes or the policy is reset: no start,
  success, failure, cancel or expiry moves a suppressed key, and starting it is refused.
\<close>

inductive attempt_step :: "HelperCoordinator \<Rightarrow> HelperCoordinator \<Rightarrow> bool" where
  "attempt_step c (fst (begin_attempt k now c))"
| "attempt_step c (fst (success tok c))"
| "attempt_step c (fst (failure tok now pl c))"
| "attempt_step c (fst (cancel tok c))"
| "attempt_step c (expire now c)"

definition suppressed :: "HelperKey \<Rightarrow> HelperCoordinator \<Rightarrow> bool" where
  "suppressed k c \<longleftrightarrow> map_option phase (map_of (entries c) k) = Some Suppressed"

lemma suppressed_iff: "suppressed k c \<longleftrightarrow> (\<exists>e. map_of (entries c) k = Some e \<and> phase e = Suppressed)"
  by (auto simp: suppressed_def)

lemma suppressed_expire:
  assumes "suppressed k c"
  shows "suppressed k (expire now c)"
proof -
  obtain e where "map_of (entries c) k = Some e" "phase e = Suppressed"
    using assms by (auto simp: suppressed_iff)
  then show ?thesis by (simp add: suppressed_def map_of_expire abandoned_def)
qed

lemma suppressed_begin:
  assumes "suppressed k c"
  shows "suppressed k (fst (begin_attempt k' now c))"
proof -
  have "suppressed k (expire now c)" by (rule suppressed_expire [OF assms])
  with assms show ?thesis
    by (auto simp: begin_attempt_def Let_def suppressed_iff map_of_update get_or_def startable_def
        split: if_splits)
qed

lemma suppressed_owned:
  assumes "suppressed k c"
  shows "suppressed k (fst (success tok c))" "suppressed k (fst (failure tok now pl c))"
    "suppressed k (fst (cancel tok c))"
  using assms
  by (auto simp: suppressed_iff success_def failure_def cancel_def owned_entry_def set_entry_def
      map_of_update is_starting_def live_phase_def Let_def split: option.split)

lemma suppressed_step: "suppressed k c \<Longrightarrow> attempt_step c c' \<Longrightarrow> suppressed k c'"
  by (erule attempt_step.cases) (simp_all add: suppressed_begin suppressed_expire suppressed_owned)

interpretation sup: invariant_machine "suppressed k" attempt_step "suppressed k" for k
  by unfold_locales (auto intro: suppressed_step)

theorem helper_suppression_final:
  assumes "suppressed k c" "attempt_step\<^sup>*\<^sup>* c c'"
  shows "suppressed k c' \<and> snd (begin_attempt k now c') = None"
proof -
  have s: "suppressed k c'" by (rule sup.inv_steps [OF assms(2,1)])
  moreover have "suppressed k (expire now c')" by (rule suppressed_expire [OF s])
  ultimately show ?thesis
    by (auto simp: begin_attempt_def Let_def suppressed_def get_or_def startable_def)
qed

definition helper_demo_suppressed :: HelperCoordinator where
  "helper_demo_suppressed = HelperCoordinator_default\<lparr>next_attempt := 3,
     entries := [(helper_demo_key, \<lparr>phase = Suppressed, attempt = 3, failures = 3\<rparr>)]\<rparr>"

theorem helper_suppression_final_witness:
  "snd (begin_attempt helper_demo_key 99 (fst (cancel helper_demo_token helper_demo_suppressed))) = None"
proof -
  have "suppressed helper_demo_key helper_demo_suppressed" by (simp add: suppressed_def helper_demo_suppressed_def)
  moreover have "attempt_step\<^sup>*\<^sup>* helper_demo_suppressed (fst (cancel helper_demo_token helper_demo_suppressed))"
    by (rule r_into_rtranclp) (rule attempt_step.intros)
  ultimately show ?thesis using helper_suppression_final by blast
qed

end
