(* ===== verification/VideoDelivery.thy ===== *)
theory VideoDelivery
  imports Messages "HOL-Library.Product_Lexorder"
begin

text \<open>
  The host's delivery controller of \<^verbatim>\<open>src/src/server/connection.rs\<close>: per display it follows
  the frontier of sent, decoded and rendered frames and decides when to ask the encoder for
  a new reference frame. The \<open>HashMap\<close> by display is an association list. Of the protobuf
  messages only the fields the controller reads are modelled. \<open>Instant::checked_add\<close> is
  addition.
\<close>

section \<open>Data\<close>

definition DEFAULT_NETWORK_DELAY_MS :: nat where "DEFAULT_NETWORK_DELAY_MS = 250"
definition MIN_PROGRESS_TIMEOUT :: duration where "MIN_PROGRESS_TIMEOUT = from_millis 500"
definition MAX_PROGRESS_TIMEOUT :: duration where "MAX_PROGRESS_TIMEOUT = from_secs 4"
definition MIN_REFRESH_COOLDOWN :: duration where "MIN_REFRESH_COOLDOWN = from_secs 1"
definition MAX_RECOVERY_REISSUES :: nat where "MAX_RECOVERY_REISSUES = 2"
definition REISSUE_COOLDOWN_MULTIPLIER :: nat where "REISSUE_COOLDOWN_MULTIPLIER = 3"
definition RECOVERY_CYCLE_COOLDOWN :: duration where "RECOVERY_CYCLE_COOLDOWN = from_secs 10"
definition PIPELINE_SLACK_FRAMES :: nat where "PIPELINE_SLACK_FRAMES = 2"
definition MAX_VIDEO_FEEDBACK_DISPLAYS :: nat where "MAX_VIDEO_FEEDBACK_DISPLAYS = 32"
definition QUIC_ADVISORY_REFRESH_CWND_MULTIPLIER :: nat where
  "QUIC_ADVISORY_REFRESH_CWND_MULTIPLIER = 2"

definition transport_counter_delta :: "nat \<Rightarrow> nat \<Rightarrow> nat" where
  "transport_counter_delta cur previous = (if cur \<ge> previous then cur - previous else cur)"

datatype VideoDeliveryPhase = PhaseStarting | PhaseHealthy | PhaseRecovering

definition severity :: "VideoDeliveryPhase \<Rightarrow> nat" where
  "severity p = (case p of PhaseHealthy \<Rightarrow> 0 | PhaseStarting \<Rightarrow> 1 | PhaseRecovering \<Rightarrow> 2)"

record VideoFeedback =
  fb_stream_id :: nat
  fb_display :: int
  fb_received :: nat
  fb_decoded :: nat
  fb_rendered :: nat
  fb_dropped :: nat

record VideoReferenceRefresh =
  rr_stream_id :: nat
  rr_display :: int
  rr_received :: nat
  rr_strict :: bool

record VideoDeliveryState =
  stream_id :: nat
  host_sent :: nat
  highest_sent :: nat
  highest_decoded :: nat
  highest_rendered :: nat
  first_sent_at :: instant
  decode_pending_since :: "instant option"
  last_refresh_at :: "instant option"
  feedback_observed :: bool
  recovery_target :: "nat option"
  recovery_generation :: nat
  recovery_reissues :: nat
  recovery_progress_at :: "instant option"
  last_sent_advance_at :: instant
  cycle_cooldown_until :: "instant option"
  phase :: VideoDeliveryPhase
  recovery_count :: nat
  latest_stall_ms :: nat

definition VideoDeliveryState_new :: "nat \<Rightarrow> nat \<Rightarrow> instant \<Rightarrow> VideoDeliveryState" where
  "VideoDeliveryState_new strm host now =
     \<lparr>stream_id = strm, host_sent = host, highest_sent = host, highest_decoded = 0,
      highest_rendered = 0, first_sent_at = now, decode_pending_since = Some now,
      last_refresh_at = None, feedback_observed = False, recovery_target = None,
      recovery_generation = 0, recovery_reissues = 0, recovery_progress_at = None,
      last_sent_advance_at = now, cycle_cooldown_until = None, phase = PhaseStarting,
      recovery_count = 0, latest_stall_ms = 0\<rparr>"

record VideoDeliveryStatus =
  st_phase :: VideoDeliveryPhase
  st_recovery_count :: nat
  st_latest_stall_ms :: nat

record VideoRecoveryAction =
  ac_display :: int
  ac_stream_id :: nat
  ac_host_sent :: nat
  ac_decoded :: nat
  ac_rendered :: nat
  ac_stalled_ms :: nat
  ac_previous_phase :: VideoDeliveryPhase
  ac_generation :: nat
  ac_reissue :: nat

datatype VideoReferenceRefreshError = InvalidRequest | UnknownDisplay | StaleStream | StaleRequest

type_synonym controller = "(int \<times> VideoDeliveryState) list"

section \<open>Policies\<close>

definition should_record_transport_loss ::
  "VideoReferenceRefreshError + VideoRecoveryAction option \<Rightarrow> bool" where
  "should_record_transport_loss r = (case r of Inr _ \<Rightarrow> True | Inl StaleRequest \<Rightarrow> True | Inl _ \<Rightarrow> False)"

definition should_suppress_quic_advisory_refresh ::
  "nat \<Rightarrow> bool \<Rightarrow> nat \<Rightarrow> nat \<Rightarrow> nat \<Rightarrow> bool" where
  "should_suppress_quic_advisory_refresh dropped strict reissue cwnd keyframe_bytes =
     (dropped > 0 \<and> \<not> strict \<and> reissue = 0 \<and> keyframe_bytes > 0
      \<and> cwnd < sat_mul u64_max keyframe_bytes QUIC_ADVISORY_REFRESH_CWND_MULTIPLIER)"

definition progress_timeout :: "nat \<Rightarrow> duration" where
  "progress_timeout delay_ms =
     (let d = (if delay_ms = 0 then DEFAULT_NETWORK_DELAY_MS else delay_ms)
      in max MIN_PROGRESS_TIMEOUT
           (min MAX_PROGRESS_TIMEOUT (from_millis (sat_mul u64_max (max d 50) 3))))"

definition refresh_cooldown :: "nat \<Rightarrow> duration" where
  "refresh_cooldown delay_ms = max (progress_timeout delay_ms) MIN_REFRESH_COOLDOWN"

definition recovery_reissue_timeout :: "nat \<Rightarrow> duration" where
  "recovery_reissue_timeout delay_ms = refresh_cooldown delay_ms * REISSUE_COOLDOWN_MULTIPLIER"

definition valid_video_feedback :: "VideoFeedback \<Rightarrow> bool" where
  "valid_video_feedback f = (fb_stream_id f \<noteq> 0 \<and> fb_display f \<ge> 0 \<and> fb_received f \<noteq> 0
     \<and> fb_decoded f \<le> fb_received f \<and> fb_rendered f \<le> fb_decoded f)"

definition valid_video_reference_refresh :: "VideoReferenceRefresh \<Rightarrow> bool" where
  "valid_video_reference_refresh r = (rr_stream_id r \<noteq> 0 \<and> rr_display r \<ge> 0 \<and> rr_received r \<noteq> 0)"

definition video_feedback_regressed :: "VideoFeedback \<Rightarrow> VideoFeedback \<Rightarrow> bool" where
  "video_feedback_regressed prev nxt =
     (fb_stream_id nxt < fb_stream_id prev
      \<or> (fb_stream_id prev = fb_stream_id nxt
          \<and> (fb_received nxt < fb_received prev \<or> fb_decoded nxt < fb_decoded prev
              \<or> fb_rendered nxt < fb_rendered prev \<or> fb_dropped nxt < fb_dropped prev)))"

section \<open>The controller\<close>

definition clear_recovery_cycle :: "VideoDeliveryState \<Rightarrow> VideoDeliveryState" where
  "clear_recovery_cycle s =
     s\<lparr>recovery_target := None, recovery_reissues := 0, recovery_progress_at := None\<rparr>"

text \<open>\<open>a.into_iter().chain(b).max()\<close> on two optional instants.\<close>

definition later :: "instant option \<Rightarrow> instant option \<Rightarrow> instant option" where
  "later a b = (case (a, b) of
     (Some x, Some y) \<Rightarrow> Some (max x y) | (Some x, None) \<Rightarrow> Some x | (None, y) \<Rightarrow> y)"

definition emit_recovery ::
  "int \<Rightarrow> instant \<Rightarrow> duration \<Rightarrow> VideoDeliveryPhase \<Rightarrow> nat \<Rightarrow> VideoDeliveryState
     \<Rightarrow> VideoDeliveryState \<times> VideoRecoveryAction option" where
  "emit_recovery d now stalled prev reissue s0 =
     (let s = s0\<lparr>phase := PhaseRecovering, last_refresh_at := Some now,
                 recovery_count := sat_add u64_max (recovery_count s0) 1,
                 latest_stall_ms := min (as_millis stalled) u64_max\<rparr>
      in (s, Some \<lparr>ac_display = d, ac_stream_id = stream_id s, ac_host_sent = host_sent s,
                   ac_decoded = highest_decoded s, ac_rendered = highest_rendered s,
                   ac_stalled_ms = as_millis stalled, ac_previous_phase = prev,
                   ac_generation = recovery_generation s, ac_reissue = reissue\<rparr>))"

definition issue_recovery ::
  "int \<Rightarrow> VideoDeliveryState \<Rightarrow> instant \<Rightarrow> nat \<Rightarrow> duration
     \<Rightarrow> VideoDeliveryState \<times> VideoRecoveryAction option" where
  "issue_recovery d s now delay_ms stalled =
     (let cooldown = refresh_cooldown delay_ms;
          prev = phase s;
          cooling = is_some_and (last_refresh_at s) (\<lambda>last. since now last < cooldown)
      in if \<not> feedback_observed s then
           (if cooling then (s, None)
            else emit_recovery d now stalled prev 0
                   (s\<lparr>recovery_generation := sat_add u64_max (recovery_generation s) 1,
                      recovery_target := None, recovery_reissues := 0,
                      recovery_progress_at := None\<rparr>))
         else if is_some_and (recovery_target s) (\<lambda>t. highest_decoded s \<le> t) then
           (let retry_from = unwrap_or (later (recovery_progress_at s) (last_refresh_at s))
                               (first_sent_at s)
            in if since now retry_from < recovery_reissue_timeout delay_ms then (s, None)
               else if recovery_reissues s \<ge> MAX_RECOVERY_REISSUES
               then ((clear_recovery_cycle s)
                       \<lparr>cycle_cooldown_until := Some (now + RECOVERY_CYCLE_COOLDOWN),
                        phase := PhaseHealthy\<rparr>, None)
               else (let n = sat_add u8_max (recovery_reissues s) 1
                     in emit_recovery d now stalled prev n (s\<lparr>recovery_reissues := n\<rparr>)))
         else
           (let s1 = (clear_recovery_cycle s)\<lparr>phase := PhaseHealthy\<rparr>
            in if is_some_and (cycle_cooldown_until s1) (\<lambda>until. now < until)
                  \<or> host_sent s1 = 0 \<or> cooling
               then (s1, None)
               else emit_recovery d now stalled prev 0
                      (s1\<lparr>cycle_cooldown_until := None,
                          recovery_generation := sat_add u64_max (recovery_generation s1) 1,
                          recovery_target := Some (host_sent s1), recovery_reissues := 0,
                          recovery_progress_at := Some now\<rparr>)))"

definition frame_sent :: "VideoFrame \<Rightarrow> instant \<Rightarrow> VideoDeliveryState \<Rightarrow> VideoDeliveryState" where
  "frame_sent f now s =
     (if stream_id s \<noteq> vf_stream_id f
      then VideoDeliveryState_new (vf_stream_id f) (vf_frame_id f) now
      else
        (let prev = host_sent s;
             s1 = (if vf_frame_id f > prev
                   then s\<lparr>host_sent := vf_frame_id f, last_sent_advance_at := now\<rparr> else s);
             s2 = (if vf_frame_id f > prev \<and> prev \<le> highest_decoded s1
                   then s1\<lparr>decode_pending_since := Some now\<rparr> else s1)
         in s2\<lparr>highest_sent := max (highest_sent s2) (vf_frame_id f)\<rparr>))"

definition on_frame_sent :: "VideoFrame \<Rightarrow> instant \<Rightarrow> controller \<Rightarrow> controller" where
  "on_frame_sent f now c =
     (if vf_stream_id f = 0 \<or> vf_frame_id f = 0 \<or> vf_display f < 0 then c
      else if \<not> contains_key c (vf_display f) \<and> length c \<ge> MAX_VIDEO_FEEDBACK_DISPLAYS then c
      else AList.update (vf_display f)
             (frame_sent f now (get_or c (vf_display f)
                (VideoDeliveryState_new (vf_stream_id f) (vf_frame_id f) now))) c)"

definition decode_progress :: "VideoFeedback \<Rightarrow> instant \<Rightarrow> VideoDeliveryState \<Rightarrow> VideoDeliveryState" where
  "decode_progress f now s3 =
     (let a = s3\<lparr>highest_decoded := fb_decoded f, cycle_cooldown_until := None\<rparr>;
          b = (if recovery_target a \<noteq> None then a\<lparr>recovery_progress_at := Some now\<rparr> else a);
          e = b\<lparr>decode_pending_since := (if highest_decoded b \<ge> host_sent b then None else Some now)\<rparr>
      in if is_some_and (recovery_target e) (\<lambda>t. highest_decoded e > t)
         then (clear_recovery_cycle e)\<lparr>phase := PhaseHealthy\<rparr>
         else if recovery_target e = None then e\<lparr>phase := PhaseHealthy\<rparr>
         else e)"

definition feedback_received ::
  "VideoFeedback \<Rightarrow> instant \<Rightarrow> VideoDeliveryState \<Rightarrow> VideoDeliveryState \<times> bool" where
  "feedback_received f now s0 =
     (let s1 = (if stream_id s0 \<noteq> fb_stream_id f
                then VideoDeliveryState_new (fb_stream_id f) 0 now else s0)\<lparr>feedback_observed := True\<rparr>;
          s2 = (if fb_received f > highest_sent s1 \<and> highest_sent s1 \<le> highest_decoded s1
                then s1\<lparr>decode_pending_since := Some now\<rparr> else s1);
          s3 = s2\<lparr>highest_sent := max (highest_sent s2) (fb_received f)\<rparr>;
          s4 = (if fb_decoded f > highest_decoded s3 then decode_progress f now s3 else s3);
          first_render = (highest_rendered s4 = 0 \<and> fb_rendered f > 0)
      in (s4\<lparr>highest_rendered := max (highest_rendered s4) (fb_rendered f)\<rparr>, first_render))"

definition on_feedback :: "VideoFeedback \<Rightarrow> instant \<Rightarrow> controller \<Rightarrow> controller \<times> bool" where
  "on_feedback f now c =
     (if \<not> contains_key c (fb_display f) \<and> length c \<ge> MAX_VIDEO_FEEDBACK_DISPLAYS then (c, False)
      else (let (s, first) = feedback_received f now
                  (get_or c (fb_display f) (VideoDeliveryState_new (fb_stream_id f) 0 now))
            in (AList.update (fb_display f) s c, first)))"

definition poll_display ::
  "instant \<Rightarrow> nat \<Rightarrow> int \<Rightarrow> VideoDeliveryState \<Rightarrow> VideoDeliveryState \<times> VideoRecoveryAction option" where
  "poll_display now delay_ms d s =
     (let timeout = progress_timeout delay_ms in
      if recovery_target s \<noteq> None then
        (let progress_at = unwrap_or (later (recovery_progress_at s) (last_refresh_at s)) (first_sent_at s)
         in issue_recovery d s now delay_ms (since now progress_at))
      else if host_sent s \<le> highest_decoded s then (s, None)
      else if phase s \<noteq> PhaseStarting \<and> host_sent s - highest_decoded s \<le> PIPELINE_SLACK_FRAMES
      then (s, None)
      else
        (let stalled = since now (unwrap_or (decode_pending_since s) (first_sent_at s))
         in if stalled < timeout then (s, None)
            else if feedback_observed s \<and> since now (last_sent_advance_at s) \<ge> timeout then (s, None)
            else issue_recovery d s now delay_ms stalled))"

definition poll_recovery :: "instant \<Rightarrow> nat \<Rightarrow> controller \<Rightarrow> controller \<times> VideoRecoveryAction list" where
  "poll_recovery now delay_ms c =
     (map (\<lambda>(d, s). (d, fst (poll_display now delay_ms d s))) c,
      List.map_filter (\<lambda>(d, s). snd (poll_display now delay_ms d s)) c)"

definition on_reference_refresh_request ::
  "VideoReferenceRefresh \<Rightarrow> instant \<Rightarrow> nat \<Rightarrow> controller
     \<Rightarrow> controller \<times> (VideoReferenceRefreshError + VideoRecoveryAction option)" where
  "on_reference_refresh_request r now delay_ms c =
     (if \<not> valid_video_reference_refresh r then (c, Inl InvalidRequest)
      else (case map_of c (rr_display r) of
              None \<Rightarrow> (c, Inl UnknownDisplay)
            | Some s \<Rightarrow>
                (if stream_id s \<noteq> rr_stream_id r then (c, Inl StaleStream)
                 else if feedback_observed s \<and> rr_received r \<le> highest_decoded s
                 then (c, Inl StaleRequest)
                 else
                   (let progress_at = (if recovery_target s \<noteq> None
                          then unwrap_or (later (recovery_progress_at s) (last_refresh_at s)) (first_sent_at s)
                          else unwrap_or (decode_pending_since s) (first_sent_at s));
                        (s1, act) = issue_recovery (rr_display r) s now delay_ms (since now progress_at)
                    in (AList.update (rr_display r) s1 c, Inr act)))))"

text \<open>\<open>max_by_key\<close>: the last of the maximal elements.\<close>

definition max_by_key :: "('a \<Rightarrow> 'k::linorder) \<Rightarrow> 'a list \<Rightarrow> 'a option" where
  "max_by_key f xs = fold (\<lambda>x acc. case acc of None \<Rightarrow> Some x
     | Some y \<Rightarrow> if f x \<ge> f y then Some x else Some y) xs None"

definition status :: "int \<Rightarrow> controller \<Rightarrow> VideoDeliveryStatus option" where
  "status d c =
     map_option (\<lambda>s. \<lparr>st_phase = phase s, st_recovery_count = recovery_count s,
                      st_latest_stall_ms = latest_stall_ms s\<rparr>)
       (case map_of c d of
          Some s \<Rightarrow> Some s
        | None \<Rightarrow> max_by_key (\<lambda>s. (severity (phase s), latest_stall_ms s, recovery_count s)) (map snd c))"

definition snapshot_display :: "int \<Rightarrow> controller \<Rightarrow> VideoDeliveryState option" where
  "snapshot_display d c = map_of c d"

definition restore_display :: "int \<Rightarrow> VideoDeliveryState option \<Rightarrow> controller \<Rightarrow> controller" where
  "restore_display d s c = (case s of Some s \<Rightarrow> AList.update d s c | None \<Rightarrow> AList.delete d c)"

section \<open>One display\<close>

definition delivery_inv :: "VideoDeliveryState \<Rightarrow> bool" where
  "delivery_inv s \<longleftrightarrow> host_sent s \<le> highest_sent s
     \<and> recovery_reissues s \<le> MAX_RECOVERY_REISSUES
     \<and> (recovery_target s = None \<longrightarrow> recovery_reissues s = 0)
     \<and> (\<forall>t. recovery_target s = Some t \<longrightarrow> 0 < t \<and> t \<le> host_sent s \<and> feedback_observed s
          \<and> phase s = PhaseRecovering \<and> last_refresh_at s \<noteq> None)"

lemmas delivery_defs = clear_recovery_cycle_def emit_recovery_def Let_def

lemma delivery_inv_new: "delivery_inv (VideoDeliveryState_new strm host now)"
  by (simp add: delivery_inv_def VideoDeliveryState_new_def)

lemma delivery_inv_issue:
  "delivery_inv s \<Longrightarrow> delivery_inv (fst (issue_recovery d s now delay_ms stalled))"
  by (cases "recovery_target s") (auto simp: issue_recovery_def delivery_defs delivery_inv_def sat_add_def MAX_RECOVERY_REISSUES_def)

lemma delivery_inv_frame_sent: "delivery_inv s \<Longrightarrow> delivery_inv (frame_sent f now s)"
  by (auto simp: frame_sent_def Let_def delivery_inv_def VideoDeliveryState_new_def)

lemma delivery_inv_fields:
  assumes "delivery_inv s"
  shows "delivery_inv (s\<lparr>feedback_observed := True\<rparr>)" "delivery_inv (s\<lparr>decode_pending_since := i\<rparr>)"
    "delivery_inv (s\<lparr>highest_decoded := n\<rparr>)" "delivery_inv (s\<lparr>cycle_cooldown_until := i\<rparr>)"
    "delivery_inv (s\<lparr>recovery_progress_at := i\<rparr>)" "delivery_inv (s\<lparr>highest_rendered := n\<rparr>)"
    "delivery_inv (s\<lparr>highest_sent := max (highest_sent s) n\<rparr>)"
    "delivery_inv ((clear_recovery_cycle s)\<lparr>phase := PhaseHealthy\<rparr>)"
    "recovery_target s = None \<Longrightarrow> delivery_inv (s\<lparr>phase := PhaseHealthy\<rparr>)"
  using assms by (simp_all add: delivery_inv_def clear_recovery_cycle_def le_max_iff_disj)

lemma delivery_inv_decode: "delivery_inv s \<Longrightarrow> delivery_inv (decode_progress f now s)"
  by (simp add: decode_progress_def Let_def delivery_inv_fields)

lemma delivery_inv_feedback:
  assumes "delivery_inv s"
  shows "delivery_inv (fst (feedback_received f now s))"
proof -
  define s1 where "s1 = (if stream_id s \<noteq> fb_stream_id f
      then VideoDeliveryState_new (fb_stream_id f) 0 now else s)\<lparr>feedback_observed := True\<rparr>"
  define s2 where "s2 = (if fb_received f > highest_sent s1 \<and> highest_sent s1 \<le> highest_decoded s1
      then s1\<lparr>decode_pending_since := Some now\<rparr> else s1)"
  define s3 where "s3 = s2\<lparr>highest_sent := max (highest_sent s2) (fb_received f)\<rparr>"
  define s4 where "s4 = (if fb_decoded f > highest_decoded s3 then decode_progress f now s3 else s3)"
  have "delivery_inv s1" using assms by (simp add: s1_def delivery_inv_fields delivery_inv_new)
  then have "delivery_inv s2" by (simp add: s2_def delivery_inv_fields)
  then have "delivery_inv s3" by (simp add: s3_def delivery_inv_fields)
  then have "delivery_inv s4" by (simp add: s4_def delivery_inv_decode)
  moreover have "fst (feedback_received f now s)
      = s4\<lparr>highest_rendered := max (highest_rendered s4) (fb_rendered f)\<rparr>"
    by (simp only: feedback_received_def Let_def fst_conv s1_def [symmetric] s2_def [symmetric]
        s3_def [symmetric] s4_def [symmetric])
  ultimately show ?thesis by (simp add: delivery_inv_fields)
qed

lemma delivery_inv_poll: "delivery_inv s \<Longrightarrow> delivery_inv (fst (poll_display now delay_ms d s))"
  by (simp add: poll_display_def Let_def delivery_inv_issue)

text \<open>What an issued recovery says about the state before and after.\<close>

definition paced :: "instant \<Rightarrow> nat \<Rightarrow> VideoDeliveryState \<Rightarrow> bool" where
  "paced now delay_ms s \<longleftrightarrow>
     (\<forall>last. last_refresh_at s = Some last \<longrightarrow> since now last \<ge> refresh_cooldown delay_ms)"

lemma since_later: "later a (Some y) = Some z \<Longrightarrow> since now z \<le> since now y"
  by (auto simp: later_def since_def split: option.splits)

lemma reissue_timeout_ge: "refresh_cooldown delay_ms \<le> recovery_reissue_timeout delay_ms"
  by (simp add: recovery_reissue_timeout_def REISSUE_COOLDOWN_MULTIPLIER_def)

lemma issue_recovery_Some:
  assumes "issue_recovery d s now delay_ms stalled = (s', Some a)"
  shows "paced now delay_ms s \<and> last_refresh_at s' = Some now \<and> phase s' = PhaseRecovering
     \<and> ac_display a = d \<and> ac_stream_id a = stream_id s \<and> ac_generation a = recovery_generation s'
     \<and> (ac_reissue a = 0 \<and> recovery_generation s' = sat_add u64_max (recovery_generation s) 1
        \<or> ac_reissue a = Suc (recovery_reissues s) \<and> recovery_generation s' = recovery_generation s
          \<and> ac_reissue a \<le> MAX_RECOVERY_REISSUES)"
proof -
  have "paced now delay_ms s"
  proof (cases "last_refresh_at s")
    case (Some last)
    obtain z where z: "later (recovery_progress_at s) (Some last) = Some z"
      by (cases "recovery_progress_at s") (simp_all add: later_def)
    have "since now z \<le> since now last" by (rule since_later [OF z])
    with assms Some z reissue_timeout_ge [of delay_ms] show ?thesis
      by (auto simp: issue_recovery_def paced_def Let_def split: if_splits)
  qed (simp add: paced_def)
  with assms show ?thesis
    by (auto simp: issue_recovery_def delivery_defs sat_add_def MAX_RECOVERY_REISSUES_def
        split: if_splits)
qed

section \<open>Reachable controllers\<close>

definition controller_inv :: "controller \<Rightarrow> bool" where
  "controller_inv c \<longleftrightarrow> map_wf c \<and> length c \<le> MAX_VIDEO_FEEDBACK_DISPLAYS
     \<and> (\<forall>s \<in> snd ` set c. delivery_inv s)"

inductive controller_step :: "controller \<Rightarrow> controller \<Rightarrow> bool" where
  frame: "controller_step c (on_frame_sent f now c)"
| feedback: "valid_video_feedback f \<Longrightarrow> controller_step c (fst (on_feedback f now c))"
| poll: "controller_step c (fst (poll_recovery now delay_ms c))"
| request: "controller_step c (fst (on_reference_refresh_request r now delay_ms c))"
| suppressed: "controller_step c (restore_display (rr_display r) (snapshot_display (rr_display r) c)
     (fst (on_reference_refresh_request r now delay_ms c)))"

lemma controller_inv_update:
  assumes "controller_inv c" "delivery_inv s"
    "contains_key c d \<or> length c < MAX_VIDEO_FEEDBACK_DISPLAYS"
  shows "controller_inv (AList.update d s c)"
  using assms by (auto simp: controller_inv_def set_update_wf length_update map_wf_update)

lemma controller_inv_get: "controller_inv c \<Longrightarrow> delivery_inv e \<Longrightarrow> delivery_inv (get_or c d e)"
  by (auto simp: controller_inv_def get_or_def split: option.splits dest!: map_of_SomeD)

lemma controller_inv_request:
  assumes inv: "controller_inv c"
  shows "controller_inv (fst (on_reference_refresh_request r now delay_ms c))"
proof (cases "map_of c (rr_display r)")
  case None
  then show ?thesis using inv by (simp add: on_reference_refresh_request_def)
next
  case (Some s)
  then have "contains_key c (rr_display r)" "delivery_inv s"
    using inv by (force simp: controller_inv_def dest!: map_of_SomeD)+
  then have "controller_inv (AList.update (rr_display r)
      (fst (issue_recovery (rr_display r) s now delay_ms x)) c)" for x
    using controller_inv_update [OF inv] delivery_inv_issue by blast
  with inv Some show ?thesis
    by (auto simp: on_reference_refresh_request_def Let_def case_prod_beta)
qed

lemma request_keeps_keys:
  "contains_key c d \<Longrightarrow> contains_key (fst (on_reference_refresh_request r now delay_ms c)) d"
  "map_of c (rr_display r) = None \<Longrightarrow> fst (on_reference_refresh_request r now delay_ms c) = c"
  by (auto simp: on_reference_refresh_request_def Let_def case_prod_beta dom_update split: option.splits)

lemma controller_inv_suppressed:
  assumes inv: "controller_inv c"
  shows "controller_inv (restore_display (rr_display r) (snapshot_display (rr_display r) c)
     (fst (on_reference_refresh_request r now delay_ms c)))"
proof (cases "map_of c (rr_display r)")
  case None
  then have "AList.delete (rr_display r) c = c" by (simp add: delete_id map_of_eq_None_iff)
  then show ?thesis using None inv request_keeps_keys(2) [OF None] by (simp add: restore_display_def snapshot_display_def)
next
  case (Some s)
  then have "delivery_inv s" "contains_key c (rr_display r)" using inv by (force simp: controller_inv_def dest!: map_of_SomeD)+
  then show ?thesis
    using Some controller_inv_update [OF controller_inv_request [OF inv, of r now delay_ms]] request_keeps_keys(1)
    by (simp add: restore_display_def snapshot_display_def)
qed

lemma controller_inv_step:
  assumes inv: "controller_inv c" and step: "controller_step c c'"
  shows "controller_inv c'"
  using step
proof cases
  case (frame f now)
  then show ?thesis
    using inv controller_inv_update [OF inv] delivery_inv_frame_sent controller_inv_get [OF inv] delivery_inv_new
    by (auto simp: on_frame_sent_def not_le)
next
  case (feedback f now)
  then show ?thesis
    using inv controller_inv_update [OF inv] delivery_inv_feedback controller_inv_get [OF inv] delivery_inv_new
    by (auto simp: on_feedback_def case_prod_beta not_le)
next
  case (poll now delay_ms)
  have "map fst c' = map fst c" using poll by (auto simp: poll_recovery_def)
  then have "map_wf c'" using inv by (simp only: controller_inv_def)
  moreover have "length c' = length c" using poll by (simp add: poll_recovery_def)
  moreover have "\<forall>s \<in> snd ` set c'. delivery_inv s"
    using inv poll by (auto simp: poll_recovery_def controller_inv_def delivery_inv_poll)
  ultimately show ?thesis using inv by (simp add: controller_inv_def)
next
  case (request r now delay_ms)
  then show ?thesis using controller_inv_request [OF inv] by simp
next
  case (suppressed r now delay_ms)
  then show ?thesis using controller_inv_suppressed [OF inv] by simp
qed

interpretation vdc: invariant_machine "\<lambda>c. c = []" controller_step controller_inv
  by unfold_locales (simp add: controller_inv_def, rule controller_inv_step)

abbreviation controller_reachable :: "controller \<Rightarrow> bool" where
  "controller_reachable c \<equiv> controller_step\<^sup>*\<^sup>* [] c"

section \<open>Properties\<close>

lemma poll_recovery_action:
  assumes "a \<in> set (snd (poll_recovery now delay_ms c))"
  obtains d s where "(d, s) \<in> set c" "snd (poll_display now delay_ms d s) = Some a"
  using assms by (auto simp: poll_recovery_def map_filter_def)

lemma poll_display_issues:
  assumes "poll_display now delay_ms d s = (s', Some a)"
  shows "\<exists>stalled. issue_recovery d s now delay_ms stalled = (s', Some a)"
  using assms by (auto simp: poll_display_def Let_def split: if_splits)

text \<open>A call that made the controller emit the action \<open>a\<close> for a display in state \<open>s\<close>.\<close>

inductive emits :: "controller \<Rightarrow> instant \<Rightarrow> nat \<Rightarrow> VideoDeliveryState \<Rightarrow> VideoRecoveryAction \<Rightarrow> bool" where
  poll: "a \<in> set (snd (poll_recovery now delay_ms c)) \<Longrightarrow> map_of c (ac_display a) = Some s \<Longrightarrow>
     emits c now delay_ms s a"
| request: "on_reference_refresh_request r now delay_ms c = (c', Inr (Some a)) \<Longrightarrow>
     map_of c (ac_display a) = Some s \<Longrightarrow> emits c now delay_ms s a"

lemma emits_issue:
  assumes "emits c now delay_ms s a" "map_wf c"
  shows "\<exists>s' stalled. issue_recovery (ac_display a) s now delay_ms stalled = (s', Some a)"
  using assms
proof cases
  case poll
  from poll(1) obtain d t where t: "(d, t) \<in> set c" "snd (poll_display now delay_ms d t) = Some a"
    by (rule poll_recovery_action)
  then obtain s' stalled where i: "issue_recovery d t now delay_ms stalled = (s', Some a)"
    using poll_display_issues [of now delay_ms d t "fst (poll_display now delay_ms d t)" a]
    by (auto simp: prod_eq_iff)
  moreover have "d = ac_display a" using issue_recovery_Some [OF i] by simp
  moreover have "t = s" using t(1) poll(2) assms(2) calculation(2) by (auto simp: map_of_eq_Some_iff)
  ultimately show ?thesis by blast
next
  case (request r c')
  then obtain t stalled s' where t: "map_of c (rr_display r) = Some t"
    "issue_recovery (rr_display r) t now delay_ms stalled = (s', Some a)"
    by (auto simp: on_reference_refresh_request_def Let_def split: if_splits option.splits prod.splits)
  moreover have "rr_display r = ac_display a" using issue_recovery_Some [OF t(2)] by simp
  ultimately show ?thesis using request(2) by auto
qed

text \<open>
  Reference refreshes are paced: whenever the controller asks for a new reference frame,
  from the poll or on a viewer's request, the previous request for that display is at least
  \<open>refresh_cooldown\<close> old, and that is never less than one second.
\<close>

theorem delivery_refresh_paced:
  assumes "controller_reachable c" "emits c now delay_ms s a"
  shows "(\<forall>last. last_refresh_at s = Some last \<longrightarrow> since now last \<ge> refresh_cooldown delay_ms)
     \<and> refresh_cooldown delay_ms \<ge> from_secs 1"
proof -
  have "map_wf c" using vdc.inv_reachable [OF refl assms(1)] by (simp add: controller_inv_def)
  from emits_issue [OF assms(2) this] show ?thesis
    using issue_recovery_Some by (fastforce simp: paced_def refresh_cooldown_def MIN_REFRESH_COOLDOWN_def)
qed

definition delivery_demo_frame :: VideoFrame where
  "delivery_demo_frame = \<lparr>vf_display = 0, vf_stream_id = 4, vf_frame_id = 9, vf_union = None\<rparr>"

definition delivery_demo :: controller where
  "delivery_demo = on_frame_sent delivery_demo_frame 0 []"

lemma delivery_demo_reachable: "controller_reachable delivery_demo"
  unfolding delivery_demo_def by (rule r_into_rtranclp) (rule controller_step.frame)

lemma delivery_demo_eq: "delivery_demo = [(0, VideoDeliveryState_new 4 9 0)]"
  by (simp add: delivery_demo_def on_frame_sent_def delivery_demo_frame_def frame_sent_def
      get_or_def VideoDeliveryState_new_def Let_def MAX_VIDEO_FEEDBACK_DISPLAYS_def)

definition delivery_demo_action :: VideoRecoveryAction where
  "delivery_demo_action = \<lparr>ac_display = 0, ac_stream_id = 4, ac_host_sent = 9, ac_decoded = 0,
     ac_rendered = 0, ac_stalled_ms = 5000, ac_previous_phase = PhaseStarting, ac_generation = 1,
     ac_reissue = 0\<rparr>"

lemma delivery_demo_emits:
  "emits delivery_demo 5000000000 0 (VideoDeliveryState_new 4 9 0) delivery_demo_action"
  by (rule emits.poll)
    (simp_all add: poll_recovery_def delivery_demo_eq map_filter_def poll_display_def
      VideoDeliveryState_new_def delivery_demo_action_def issue_recovery_def emit_recovery_def
      progress_timeout_def MIN_PROGRESS_TIMEOUT_def MAX_PROGRESS_TIMEOUT_def rust_time rust_sat
      DEFAULT_NETWORK_DELAY_MS_def Let_def)

theorem delivery_refresh_paced_witness:
  "emits delivery_demo 5000000000 0 (VideoDeliveryState_new 4 9 0) delivery_demo_action
     \<and> refresh_cooldown 0 \<ge> from_secs 1"
  using delivery_demo_emits delivery_refresh_paced [OF delivery_demo_reachable delivery_demo_emits]
  by blast

text \<open>
  Recovery of one loss is bounded: every action either opens a new recovery generation
  or re-issues the current one, and a generation is re-issued at most
  \<open>MAX_RECOVERY_REISSUES\<close> times, each with the next number.
\<close>

theorem delivery_recovery_bounded:
  assumes "controller_reachable c" "emits c now delay_ms s a"
  shows "ac_reissue a \<le> MAX_RECOVERY_REISSUES
     \<and> (ac_reissue a = 0 \<and> ac_generation a = sat_add u64_max (recovery_generation s) 1
        \<or> ac_reissue a = Suc (recovery_reissues s) \<and> ac_generation a = recovery_generation s)"
proof -
  have "map_wf c" using vdc.inv_reachable [OF refl assms(1)] by (simp add: controller_inv_def)
  from emits_issue [OF assms(2) this] show ?thesis
    using issue_recovery_Some by (force simp: MAX_RECOVERY_REISSUES_def)
qed

theorem delivery_recovery_bounded_witness:
  "ac_reissue delivery_demo_action \<le> MAX_RECOVERY_REISSUES"
  using delivery_recovery_bounded [OF delivery_demo_reachable delivery_demo_emits] by blast

text \<open>
  C5. The controller's invariant, over every sequence of sent frames, feedback, polls, refresh requests and requests
  that are suppressed (the display is restored from its snapshot): at most \<open>MAX_VIDEO_FEEDBACK_DISPLAYS\<close> displays are
  tracked; a display has a recovery target only while it is recovering and after a viewer
  answered, the target is a frame the host really sent, and the re-issue count of the cycle
  is within its bound and zero outside a cycle.
\<close>

theorem delivery_controller_invariant:
  assumes "controller_reachable c"
  shows "length c \<le> MAX_VIDEO_FEEDBACK_DISPLAYS
     \<and> (\<forall>d s. map_of c d = Some s \<longrightarrow> host_sent s \<le> highest_sent s
          \<and> recovery_reissues s \<le> MAX_RECOVERY_REISSUES
          \<and> (recovery_target s = None \<longrightarrow> recovery_reissues s = 0)
          \<and> (\<forall>t. recovery_target s = Some t \<longrightarrow> 0 < t \<and> t \<le> host_sent s \<and> feedback_observed s
               \<and> phase s = PhaseRecovering))"
  using vdc.inv_reachable [OF refl assms]
  by (force simp: controller_inv_def delivery_inv_def dest!: map_of_SomeD)

definition delivery_demo_sent :: controller where
  "delivery_demo_sent = on_frame_sent (delivery_demo_frame\<lparr>vf_frame_id := 41\<rparr>) 7900000000
     (on_frame_sent (delivery_demo_frame\<lparr>vf_frame_id := 40\<rparr>) 1000000000
       (fst (on_feedback \<lparr>fb_stream_id = 4, fb_display = 0, fb_received = 12, fb_decoded = 11, fb_rendered = 0, fb_dropped = 0\<rparr> 1 delivery_demo)))"

definition delivery_demo_recovering :: controller where
  "delivery_demo_recovering = fst (poll_recovery 8000000000 0 delivery_demo_sent)"

lemma delivery_demo_recovering_reachable: "controller_reachable delivery_demo_recovering"
  unfolding delivery_demo_recovering_def delivery_demo_sent_def
  by (rule rtranclp.rtrancl_into_rtrancl [OF rtranclp.rtrancl_into_rtrancl [OF rtranclp.rtrancl_into_rtrancl
        [OF rtranclp.rtrancl_into_rtrancl [OF delivery_demo_reachable controller_step.feedback]
          controller_step.frame] controller_step.frame] controller_step.poll])
    (simp add: valid_video_feedback_def)

theorem delivery_controller_invariant_witness:
  "\<exists>s. map_of delivery_demo_recovering 0 = Some s \<and> recovery_target s = Some 41 \<and> 41 \<le> host_sent s
     \<and> feedback_observed s \<and> phase s = PhaseRecovering \<and> recovery_reissues s \<le> MAX_RECOVERY_REISSUES"
proof -
  obtain s where s: "map_of delivery_demo_recovering 0 = Some s" "recovery_target s = Some 41"
    by (simp add: delivery_demo_recovering_def delivery_demo_sent_def delivery_demo_eq poll_recovery_def on_frame_sent_def delivery_demo_frame_def
        on_feedback_def feedback_received_def frame_sent_def VideoDeliveryState_new_def get_or_def decode_progress_def poll_display_def
        issue_recovery_def emit_recovery_def clear_recovery_cycle_def progress_timeout_def refresh_cooldown_def
        MIN_PROGRESS_TIMEOUT_def MAX_PROGRESS_TIMEOUT_def MIN_REFRESH_COOLDOWN_def rust_time rust_sat PIPELINE_SLACK_FRAMES_def
        DEFAULT_NETWORK_DELAY_MS_def MAX_VIDEO_FEEDBACK_DISPLAYS_def Let_def)
  from delivery_controller_invariant [OF delivery_demo_recovering_reachable] s show ?thesis by blast
qed

text \<open>
  A suppressed advisory refresh consumes nothing: restoring the snapshot taken before a
  refresh request gives back the state of every display, whatever the request did.
\<close>

theorem delivery_snapshot_restore:
  "map_of (restore_display (rr_display r) (snapshot_display (rr_display r) c)
       (fst (on_reference_refresh_request r now delay_ms c))) = map_of c"
proof -
  have "map_of (fst (on_reference_refresh_request r now delay_ms c)) d = map_of c d"
    if "d \<noteq> rr_display r" for d
    using that
    by (auto simp: on_reference_refresh_request_def Let_def case_prod_beta map_of_update
        split: option.splits)
  then show ?thesis
    by (auto simp: fun_eq_iff restore_display_def snapshot_display_def map_of_update map_of_delete
        split: option.splits)
qed

text \<open>
  Refused refresh requests: an error leaves the controller unchanged and is reported
  exactly for an invalid request, an unknown display, another stream than the current one, or
  a frame the viewer has already decoded.
\<close>

theorem delivery_request_refused:
  "snd (on_reference_refresh_request r now delay_ms c) = Inl e \<longleftrightarrow>
     (if \<not> valid_video_reference_refresh r then e = InvalidRequest
      else case map_of c (rr_display r) of
             None \<Rightarrow> e = UnknownDisplay
           | Some s \<Rightarrow> (if stream_id s \<noteq> rr_stream_id r then e = StaleStream
                       else feedback_observed s \<and> rr_received r \<le> highest_decoded s
                            \<and> e = StaleRequest))
     \<and> fst (on_reference_refresh_request r now delay_ms c) = c"
  by (auto simp: on_reference_refresh_request_def Let_def case_prod_beta split: option.splits)

text \<open>
  A recovery is only completed by decoding past its target: if feedback of the same
  stream ends a recovery cycle, the viewer has decoded a frame newer than the newest frame
  the host had sent when the cycle began; and the decoded frontier never moves backwards.
\<close>

theorem delivery_cycle_completes:
  assumes "recovery_target s = Some t" "stream_id s = fb_stream_id f"
    "feedback_received f now s = (s', first)"
  shows "(recovery_target s' = None \<longleftrightarrow> fb_decoded f > highest_decoded s \<and> fb_decoded f > t)
     \<and> highest_decoded s' = max (highest_decoded s) (fb_decoded f)
     \<and> (recovery_target s' = None \<longrightarrow> phase s' = PhaseHealthy)"
proof -
  define s1 where "s1 = s\<lparr>feedback_observed := True\<rparr>"
  define s2 where "s2 = (if fb_received f > highest_sent s1 \<and> highest_sent s1 \<le> highest_decoded s1
      then s1\<lparr>decode_pending_since := Some now\<rparr> else s1)"
  define s3 where "s3 = s2\<lparr>highest_sent := max (highest_sent s2) (fb_received f)\<rparr>"
  have s3: "recovery_target s3 = Some t" "highest_decoded s3 = highest_decoded s" "phase s3 = phase s"
    using assms(1) by (simp_all add: s3_def s2_def s1_def)
  have eq: "s' = (if fb_decoded f > highest_decoded s3 then decode_progress f now s3 else s3)
      \<lparr>highest_rendered := max (highest_rendered
         (if fb_decoded f > highest_decoded s3 then decode_progress f now s3 else s3)) (fb_rendered f)\<rparr>"
    using assms(3)
    by (simp only: feedback_received_def Let_def assms(2) not_True_eq_False if_False simp_thms
        s1_def [symmetric] s2_def [symmetric] s3_def [symmetric] prod.inject)
  show ?thesis
    using s3 unfolding eq by (auto simp: decode_progress_def clear_recovery_cycle_def Let_def)
qed

theorem delivery_cycle_completes_witness:
  "let s = (VideoDeliveryState_new 4 9 0)\<lparr>recovery_target := Some 9, phase := PhaseRecovering\<rparr>;
       f = \<lparr>fb_stream_id = 4, fb_display = 0, fb_received = 12, fb_decoded = 11, fb_rendered = 0, fb_dropped = 0\<rparr>
   in recovery_target (fst (feedback_received f 7 s)) = None"
proof -
  let ?s = "(VideoDeliveryState_new 4 9 0)\<lparr>recovery_target := Some 9, phase := PhaseRecovering\<rparr>"
  let ?f = "\<lparr>fb_stream_id = 4, fb_display = 0, fb_received = 12, fb_decoded = 11, fb_rendered = 0, fb_dropped = 0\<rparr>"
  have "recovery_target ?s = Some 9" "stream_id ?s = fb_stream_id ?f"
    by (simp_all add: VideoDeliveryState_new_def)
  from delivery_cycle_completes [OF this surjective_pairing] show ?thesis
    by (simp add: VideoDeliveryState_new_def)
qed

end
