(* ===== verification/SessionPolicy.thy ===== *)
theory SessionPolicy
  imports Prelude
begin

text \<open>
  Session permissions of a controlled host, \<^verbatim>\<open>src/src/server/connection.rs\<close>: the policies
  per kind of authentication, the permission switches of the connection manager, the
  request and approval of permissions by the local user, and the gate that authorizes
  remote input (\<^verbatim>\<open>src/src/server/input_authorization.rs\<close>).

  \<open>Host\<close> holds the fields of \<open>Connection\<close> that these operations use, the global
  \<open>SESSIONS\<close>, the service subscriptions of the connection and the messages it sent. The
  configuration of the device, which the code reads through \<open>hbb_common\<close>, is the record
  \<open>Env\<close>; its fields are arbitrary in every statement.
\<close>

section \<open>Policies\<close>

datatype SessionAuthKind = Unknown | OneTimePassword | UnattendedPassword | ClickApproval

definition SessionAuthKind_as_str :: "SessionAuthKind \<Rightarrow> string" where
  "SessionAuthKind_as_str k = (case k of
     Unknown \<Rightarrow> ''unknown'' | OneTimePassword \<Rightarrow> ''one-time-password''
   | UnattendedPassword \<Rightarrow> ''unattended-password'' | ClickApproval \<Rightarrow> ''click-approval'')"

definition allows_privacy_mode :: "SessionAuthKind \<Rightarrow> bool" where
  "allows_privacy_mode k \<longleftrightarrow> k = UnattendedPassword"

definition is_unattended_access :: "SessionAuthKind \<Rightarrow> bool" where
  "is_unattended_access k \<longleftrightarrow> k = UnattendedPassword"

definition is_low_permission_support :: "SessionAuthKind \<Rightarrow> bool" where
  "is_low_permission_support k \<longleftrightarrow> \<not> is_unattended_access k"

definition privacy_mode_policy_denial_reason :: "SessionAuthKind \<Rightarrow> string \<Rightarrow> string option" where
  "privacy_mode_policy_denial_reason k v =
     (if \<not> allows_privacy_mode k
      then Some ''Privacy mode is available only for unattended access sessions.''
      else if v \<noteq> ''Y'' then Some ''Privacy mode is disabled on this device.'' else None)"

definition elevation_policy_denial_reason :: "SessionAuthKind \<Rightarrow> string option" where
  "elevation_policy_denial_reason k =
     (if is_unattended_access k then None
      else Some ''Elevation requests are available only for unattended access sessions.'')"

datatype Permission = Keyboard | Clipboard | Audio | File | Restart | Recording | BlockInput

definition switch_permission_from_name :: "string \<Rightarrow> Permission option" where
  "switch_permission_from_name n =
     (if n = ''keyboard'' then Some Keyboard else if n = ''clipboard'' then Some Clipboard
      else if n = ''audio'' then Some Audio else if n = ''file'' then Some File
      else if n = ''restart'' then Some Restart else if n = ''recording'' then Some Recording
      else if n = ''block_input'' then Some BlockInput else None)"

definition low_permission_default :: "string \<Rightarrow> bool \<Rightarrow> bool" where
  "low_permission_default n current = (if n = ''keyboard'' then current else False)"

definition file_clipboard_allowed :: "bool \<Rightarrow> bool \<Rightarrow> string \<Rightarrow> bool" where
  "file_clipboard_allowed clip ft one_way \<longleftrightarrow> clip \<and> ft \<and> one_way \<noteq> ''Y''"

definition text_clipboard_allowed :: "bool \<Rightarrow> bool \<Rightarrow> bool" where
  "text_clipboard_allowed clip kb \<longleftrightarrow> clip \<and> kb"

definition cursor_tracking_allowed :: "bool \<Rightarrow> bool \<Rightarrow> bool" where
  "cursor_tracking_allowed kb show_remote \<longleftrightarrow> kb \<or> show_remote"

definition session_default_permission :: "SessionAuthKind \<Rightarrow> string \<Rightarrow> bool \<Rightarrow> bool" where
  "session_default_permission k n current =
     (if is_unattended_access k then current else low_permission_default n current)"

definition should_block_remote_control :: "SessionAuthKind \<Rightarrow> bool \<Rightarrow> bool" where
  "should_block_remote_control k active \<longleftrightarrow> is_low_permission_support k \<and> active"

definition should_reject_additional_permission_request :: "SessionAuthKind \<Rightarrow> bool \<Rightarrow> bool" where
  "should_reject_additional_permission_request k active \<longleftrightarrow> is_low_permission_support k \<and> active"

definition switch_permission_policy_denial_reason_with_grant ::
  "SessionAuthKind \<Rightarrow> string \<Rightarrow> bool \<Rightarrow> bool \<Rightarrow> string option" where
  "switch_permission_policy_denial_reason_with_grant k n en has_grant =
     (if \<not> en \<or> is_unattended_access k \<or> low_permission_default n True \<or> has_grant then None
      else Some ''Permission upgrades require local approval for this session.'')"

datatype AuthConnType = Remote | FileTransfer | PortForward | ViewCamera | Terminal

definition connection_policy_denial_reason_with_grant ::
  "SessionAuthKind \<Rightarrow> AuthConnType \<Rightarrow> bool \<Rightarrow> string option" where
  "connection_policy_denial_reason_with_grant k t has_grant =
     (if \<not> is_low_permission_support k \<or> has_grant then None
      else (case t of
              Remote \<Rightarrow> None
            | FileTransfer \<Rightarrow> Some ''File transfer requires local approval for this session.''
            | PortForward \<Rightarrow> Some ''IP tunneling requires local approval for this session.''
            | ViewCamera \<Rightarrow> Some ''Camera viewing requires local approval for this session.''
            | Terminal \<Rightarrow> Some ''Terminal access requires local approval for this session.''))"

definition connection_type_grant_name :: "AuthConnType \<Rightarrow> string" where
  "connection_type_grant_name t = (case t of
     Remote \<Rightarrow> ''remote'' | FileTransfer \<Rightarrow> ''file_transfer'' | PortForward \<Rightarrow> ''port_forward''
   | ViewCamera \<Rightarrow> ''view_camera'' | Terminal \<Rightarrow> ''terminal'')"

definition permission_request_connection_type :: "string \<Rightarrow> AuthConnType option" where
  "permission_request_connection_type n =
     (if n = ''file_transfer'' then Some FileTransfer else if n = ''port_forward'' then Some PortForward
      else if n = ''view_camera'' then Some ViewCamera else if n = ''terminal'' then Some Terminal
      else None)"

definition permission_request_label :: "string \<Rightarrow> string" where
  "permission_request_label n =
     (if n = ''keyboard'' then ''keyboard and mouse control''
      else if n = ''clipboard'' then ''clipboard access''
      else if n = ''audio'' then ''audio''
      else if n = ''file'' then ''file copy and paste''
      else if n = ''file_transfer'' then ''file transfer''
      else if n = ''restart'' then ''remote restart''
      else if n = ''recording'' then ''session recording''
      else if n = ''block_input'' then ''blocking local input''
      else if n = ''port_forward'' then ''TCP tunneling''
      else if n = ''view_camera'' then ''camera viewing''
      else if n = ''terminal'' then ''terminal access''
      else ''permission'')"

section \<open>Sequence numbers of keyboard input\<close>

record KeyboardInputReceiveState =
  epoch :: nat
  last_sequence :: nat

datatype KeyboardInputSequenceDecision = Accept | ResetEpoch | RejectDuplicateOrStale

definition update_keyboard_input_sequence ::
  "nat \<Rightarrow> nat \<Rightarrow> KeyboardInputReceiveState
     \<Rightarrow> KeyboardInputReceiveState \<times> KeyboardInputSequenceDecision" where
  "update_keyboard_input_sequence ep seq s =
     (if epoch s \<noteq> ep then (s\<lparr>epoch := ep, last_sequence := seq\<rparr>, ResetEpoch)
      else if seq \<le> last_sequence s then (s, RejectDuplicateOrStale)
      else (s\<lparr>last_sequence := seq\<rparr>, Accept))"

section \<open>The gate of remote input\<close>

datatype RemoteInputKind = Mouse | Pointer | KeyboardInput
datatype RemoteInputDecision = Deny | CursorOnly | Control

record RemoteInputAuthorizationOutcome =
  decision :: RemoteInputDecision
  reset_required :: bool

record RemoteInputAuthorizationGate =
  platform_state_dirty :: bool

definition Gate_revoke :: "RemoteInputAuthorizationGate \<Rightarrow> RemoteInputAuthorizationGate \<times> bool" where
  "Gate_revoke g = (g\<lparr>platform_state_dirty := False\<rparr>, platform_state_dirty g)"

definition Gate_evaluate ::
  "RemoteInputKind \<Rightarrow> bool \<Rightarrow> bool \<Rightarrow> bool \<Rightarrow> bool \<Rightarrow> RemoteInputAuthorizationGate
     \<Rightarrow> RemoteInputAuthorizationGate \<times> RemoteInputAuthorizationOutcome" where
  "Gate_evaluate k camera blocked kb show_cursor g =
     (let dec = (if camera \<or> blocked then Deny else if kb then Control
                 else if k = Mouse \<and> show_cursor then CursorOnly else Deny);
          (g1, reset) = (if dec \<noteq> Control then Gate_revoke g else (g, False));
          g2 = (if dec = Control then g1\<lparr>platform_state_dirty := True\<rparr> else g1)
      in (g2, \<lparr>decision = dec, reset_required = reset\<rparr>))"

section \<open>Configured permissions\<close>

datatype OptionKey =
  OPTION_ENABLE_KEYBOARD | OPTION_ENABLE_REMOTE_PRINTER | OPTION_ENABLE_CLIPBOARD
| OPTION_ENABLE_FILE_TRANSFER | OPTION_ENABLE_AUDIO | OPTION_ENABLE_CAMERA
| OPTION_ENABLE_TERMINAL | OPTION_ENABLE_TUNNEL | OPTION_ENABLE_REMOTE_RESTART
| OPTION_ENABLE_RECORD_SESSION | OPTION_ENABLE_BLOCK_INPUT | OtherOption string

datatype ControlPermission =
  CP_keyboard | CP_remote_printer | CP_clipboard | CP_file | CP_audio | CP_camera
| CP_terminal | CP_tunnel | CP_restart | CP_recording | CP_block_input

record Env =
  get_option :: "OptionKey \<Rightarrow> string"
  option2bool :: "OptionKey \<Rightarrow> string \<Rightarrow> bool"
  access_mode :: string
  flutter_desktop :: bool
  control_permission_value :: "ControlPermission \<Rightarrow> int"
  control_permissions :: "64 word option"
  unix_file_copy_paste :: bool
  local_to_remote_allowed :: bool
  one_way_file_transfer :: string
  server_alive :: bool

definition get_control_permission :: "64 word \<Rightarrow> int \<Rightarrow> bool option" where
  "get_control_permission perms index =
     (if index \<ge> 0 \<and> index < 32
      then (let v = take_bit 2 (drop_bit (nat (index * 2)) perms)
            in if v = 1 then Some False else if v = 2 then Some True else None)
      else None)"

definition is_permission_enabled_locally :: "Env \<Rightarrow> OptionKey \<Rightarrow> bool" where
  "is_permission_enabled_locally env opt =
     (if flutter_desktop env \<and> access_mode env = ''full'' then True
      else if flutter_desktop env \<and> access_mode env = ''view'' then False
      else option2bool env opt (get_option env opt))"

definition control_permission_of :: "OptionKey \<Rightarrow> ControlPermission option" where
  "control_permission_of opt = (case opt of
     OPTION_ENABLE_KEYBOARD \<Rightarrow> Some CP_keyboard
   | OPTION_ENABLE_REMOTE_PRINTER \<Rightarrow> Some CP_remote_printer
   | OPTION_ENABLE_CLIPBOARD \<Rightarrow> Some CP_clipboard
   | OPTION_ENABLE_FILE_TRANSFER \<Rightarrow> Some CP_file
   | OPTION_ENABLE_AUDIO \<Rightarrow> Some CP_audio
   | OPTION_ENABLE_CAMERA \<Rightarrow> Some CP_camera
   | OPTION_ENABLE_TERMINAL \<Rightarrow> Some CP_terminal
   | OPTION_ENABLE_TUNNEL \<Rightarrow> Some CP_tunnel
   | OPTION_ENABLE_REMOTE_RESTART \<Rightarrow> Some CP_restart
   | OPTION_ENABLE_RECORD_SESSION \<Rightarrow> Some CP_recording
   | OPTION_ENABLE_BLOCK_INPUT \<Rightarrow> Some CP_block_input
   | OtherOption _ \<Rightarrow> None)"

definition permission :: "Env \<Rightarrow> OptionKey \<Rightarrow> bool" where
  "permission env opt =
     (case control_permissions env of
        None \<Rightarrow> is_permission_enabled_locally env opt
      | Some perms \<Rightarrow>
          (case control_permission_of opt of
             None \<Rightarrow> is_permission_enabled_locally env opt
           | Some p \<Rightarrow>
               (case get_control_permission perms (control_permission_value env p) of
                  Some enabled \<Rightarrow> enabled
                | None \<Rightarrow> is_permission_enabled_locally env opt)))"

section \<open>Properties of the input path\<close>

text \<open>The events of a connection that pass the sequence check, in order.\<close>

fun processed :: "(nat \<times> nat) list \<Rightarrow> KeyboardInputReceiveState \<Rightarrow> (nat \<times> nat) list" where
  "processed [] s = []"
| "processed ((ep, seq) # evs) s =
     (case update_keyboard_input_sequence ep seq s of
        (s', RejectDuplicateOrStale) \<Rightarrow> processed evs s'
      | (s', _) \<Rightarrow> (ep, seq) # processed evs s')"

abbreviation in_sequence :: "nat \<times> nat \<Rightarrow> nat \<times> nat \<Rightarrow> bool" where
  "in_sequence a b \<equiv> fst a = fst b \<longrightarrow> snd a < snd b"

text \<open>
  No keyboard event is applied twice: among the events that pass, each one of the same
  epoch as its predecessor has a larger sequence number, whatever the peer sends.
\<close>

theorem keyboard_no_replay:
  "successively (\<lambda>a b. fst a = fst b \<longrightarrow> snd a < snd b)
     ((epoch s, last_sequence s) # processed evs s)"
proof (induction evs s rule: processed.induct)
  case (1 s)
  then show ?case by simp
next
  case (2 ep seq evs s)
  show ?case
    using "2.IH" by (auto simp: update_keyboard_input_sequence_def)
qed

theorem keyboard_no_replay_witness:
  "successively (\<lambda>a b. fst a = fst b \<longrightarrow> snd a < snd b)
     ((0, 0) # processed [(3, 1), (3, 2), (3, 2), (3, 4)] \<lparr>epoch = 0, last_sequence = 0\<rparr>)
   \<and> processed [(3, 1), (3, 2), (3, 2), (3, 4)] \<lparr>epoch = 0, last_sequence = 0\<rparr> = [(3, 1), (3, 2), (3, 4)]"
  using keyboard_no_replay [of "\<lparr>epoch = 0, last_sequence = 0\<rparr>" "[(3, 1), (3, 2), (3, 2), (3, 4)]"]
  by (simp add: update_keyboard_input_sequence_def)

text \<open>
  The platform input state is held exactly while the last decision gave control, and it is
  released by the call that takes control away.
\<close>

lemma Gate_evaluate_exact:
  "platform_state_dirty (fst (Gate_evaluate k camera blocked kb cur g))
     \<longleftrightarrow> decision (snd (Gate_evaluate k camera blocked kb cur g)) = Control"
  "reset_required (snd (Gate_evaluate k camera blocked kb cur g))
     \<longleftrightarrow> platform_state_dirty g \<and> decision (snd (Gate_evaluate k camera blocked kb cur g)) \<noteq> Control"
  "decision (snd (Gate_evaluate k camera blocked kb cur g)) = Control \<longleftrightarrow> kb \<and> \<not> camera \<and> \<not> blocked"
  by (simp_all add: Gate_evaluate_def Gate_revoke_def Let_def)

end
