(* ===== verification/PermissionFlow.thy ===== *)
theory PermissionFlow
  imports SessionPolicy
begin

text \<open>
  The permissions of one connection over its life time, \<^verbatim>\<open>src/src/server/connection.rs\<close>:
  requests of the peer, decisions of the local user, switches of the connection manager,
  and the authorization of remote input that depends on them.
\<close>

section \<open>State\<close>

record SessionKey =
  peer_id :: string
  peer_name :: string
  session_id :: nat

record SessionPermissionGrants =
  g_permissions :: "string set"
  g_connection_types :: "string set"

record Session =
  last_recv_time :: instant
  random_password :: string
  tfa :: bool
  auth_kind :: SessionAuthKind
  grants :: SessionPermissionGrants

record PendingPermissionRequest =
  req_name :: string
  req_enabled :: bool
  requested_at :: instant

datatype Service = ClipboardService | FileClipboardService | CursorService | PosService | AudioService

datatype Output =
  SendPermission Permission bool
| SendResponse nat string bool bool string
| CmPermissionUpdate string bool
| CmPermissionRequest nat string bool
| ResetPlatformInput
| EmptyFileClipboard

record Host =
  session_key :: SessionKey
  session_auth_kind :: SessionAuthKind
  authorized :: bool
  authed_conn_type :: "AuthConnType option"
  keyboard :: bool
  clipboard :: bool
  audio :: bool
  file_allowed :: bool
  restart :: bool
  recording :: bool
  block_input :: bool
  disable_keyboard :: bool
  disable_clipboard :: bool
  disable_audio :: bool
  enable_file_transfer :: bool
  show_my_cursor :: bool
  show_remote_cursor :: bool
  voice_calling :: bool
  file_transfer :: "(string \<times> bool) option"
  port_forward_socket :: bool
  port_forward_address :: string
  view_camera :: bool
  terminal :: bool
  pending_permission_requests :: "(nat \<times> PendingPermissionRequest) list"
  remote_input_authorization :: RemoteInputAuthorizationGate
  subscriptions :: "Service \<Rightarrow> bool"
  sessions :: "(SessionKey \<times> Session) list"
  sent :: "Output list"

definition PENDING_PERMISSION_REQUEST_TIMEOUT_SECS :: nat where
  "PENDING_PERMISSION_REQUEST_TIMEOUT_SECS = 120"

definition pending_permission_response_values ::
  "PendingPermissionRequest \<Rightarrow> string \<Rightarrow> bool \<Rightarrow> string \<times> bool \<times> bool" where
  "pending_permission_response_values p n en =
     (req_name p, req_enabled p, req_name p \<noteq> n \<or> req_enabled p \<noteq> en)"

definition emit :: "Output \<Rightarrow> Host \<Rightarrow> Host" where
  "emit o1 h = h\<lparr>sent := sent h @ [o1]\<rparr>"

definition subscribe :: "Env \<Rightarrow> Service \<Rightarrow> bool \<Rightarrow> Host \<Rightarrow> Host" where
  "subscribe env s b h =
     (if server_alive env then h\<lparr>subscriptions := (subscriptions h)(s := b)\<rparr> else h)"

section \<open>What the connection may use\<close>

definition peer_keyboard_enabled :: "Host \<Rightarrow> bool" where
  "peer_keyboard_enabled h \<longleftrightarrow> keyboard h \<and> \<not> disable_keyboard h"

definition can_sub_cursor_tracking_services :: "Host \<Rightarrow> bool" where
  "can_sub_cursor_tracking_services h =
     cursor_tracking_allowed (peer_keyboard_enabled h) (show_remote_cursor h)"

definition clipboard_enabled :: "Host \<Rightarrow> bool" where
  "clipboard_enabled h \<longleftrightarrow> clipboard h \<and> \<not> disable_clipboard h"

definition can_sub_clipboard_service :: "Env \<Rightarrow> Host \<Rightarrow> bool" where
  "can_sub_clipboard_service env h \<longleftrightarrow>
     text_clipboard_allowed (clipboard_enabled h) (peer_keyboard_enabled h) \<and> local_to_remote_allowed env"

definition audio_enabled :: "Host \<Rightarrow> bool" where
  "audio_enabled h \<longleftrightarrow> audio h \<and> \<not> disable_audio h"

definition file_transfer_enabled :: "Host \<Rightarrow> bool" where
  "file_transfer_enabled h \<longleftrightarrow> file_allowed h \<and> enable_file_transfer h"

definition can_sub_file_clipboard_service :: "Env \<Rightarrow> Host \<Rightarrow> bool" where
  "can_sub_file_clipboard_service env h =
     file_clipboard_allowed (clipboard_enabled h) (file_transfer_enabled h) (one_way_file_transfer env)"

definition is_authed_view_camera_conn :: "Host \<Rightarrow> bool" where
  "is_authed_view_camera_conn h \<longleftrightarrow> authed_conn_type h = Some ViewCamera"

section \<open>Remote input\<close>

definition reset_platform_remote_input_state :: "Host \<Rightarrow> Host" where
  "reset_platform_remote_input_state = emit ResetPlatformInput"

definition revoke_remote_input_authorization :: "Host \<Rightarrow> Host" where
  "revoke_remote_input_authorization h =
     (let (g, dirty) = Gate_revoke (remote_input_authorization h);
          h1 = h\<lparr>remote_input_authorization := g\<rparr>
      in if dirty then reset_platform_remote_input_state h1 else h1)"

definition pending_timeout :: duration where
  "pending_timeout = from_secs PENDING_PERMISSION_REQUEST_TIMEOUT_SECS"

definition has_active_pending_permission_request :: "instant \<Rightarrow> Host \<Rightarrow> bool" where
  "has_active_pending_permission_request now h =
     list_ex (\<lambda>(i, r). since now (requested_at r) < pending_timeout) (pending_permission_requests h)"

definition should_block_remote_control_for_permission_prompt :: "instant \<Rightarrow> Host \<Rightarrow> bool" where
  "should_block_remote_control_for_permission_prompt now h =
     should_block_remote_control (session_auth_kind h) (has_active_pending_permission_request now h)"

definition authorize_remote_input ::
  "RemoteInputKind \<Rightarrow> instant \<Rightarrow> Host \<Rightarrow> Host \<times> RemoteInputDecision" where
  "authorize_remote_input k now h =
     (let (g, oc) = Gate_evaluate k (is_authed_view_camera_conn h)
                      (should_block_remote_control_for_permission_prompt now h)
                      (peer_keyboard_enabled h) (show_my_cursor h) (remote_input_authorization h);
          h1 = h\<lparr>remote_input_authorization := g\<rparr>
      in ((if reset_required oc then reset_platform_remote_input_state h1 else h1), decision oc))"

section \<open>Grants of the session\<close>

definition session_permission_granted :: "Host \<Rightarrow> string \<Rightarrow> bool" where
  "session_permission_granted h n =
     is_some_and (map_of (sessions h) (session_key h)) (\<lambda>s. n \<in> g_permissions (grants s))"

definition session_connection_granted :: "Host \<Rightarrow> AuthConnType \<Rightarrow> bool" where
  "session_connection_granted h t =
     is_some_and (map_of (sessions h) (session_key h))
       (\<lambda>s. connection_type_grant_name t \<in> g_connection_types (grants s))"

definition grant_session_permission :: "string \<Rightarrow> Host \<Rightarrow> Host" where
  "grant_session_permission n h =
     (case map_of (sessions h) (session_key h) of
        None \<Rightarrow> h
      | Some s \<Rightarrow> h\<lparr>sessions := AList.update (session_key h)
          (s\<lparr>grants := (grants s)\<lparr>g_permissions := insert n (g_permissions (grants s))\<rparr>\<rparr>) (sessions h)\<rparr>)"

definition grant_session_connection :: "AuthConnType \<Rightarrow> Host \<Rightarrow> Host" where
  "grant_session_connection t h =
     (case map_of (sessions h) (session_key h) of
        None \<Rightarrow> h
      | Some s \<Rightarrow> h\<lparr>sessions := AList.update (session_key h)
          (s\<lparr>grants := (grants s)\<lparr>g_connection_types :=
             insert (connection_type_grant_name t) (g_connection_types (grants s))\<rparr>\<rparr>) (sessions h)\<rparr>)"

section \<open>Switching permissions\<close>

definition send_permission :: "Permission \<Rightarrow> bool \<Rightarrow> Host \<Rightarrow> Host" where
  "send_permission p en = emit (SendPermission p en)"

definition subscribe_audio :: "Env \<Rightarrow> Host \<Rightarrow> Host" where
  "subscribe_audio env h =
     (if is_authed_view_camera_conn h
      then (if voice_calling h \<or> \<not> audio_enabled h
            then subscribe env AudioService (audio_enabled h) h else h)
      else subscribe env AudioService (audio_enabled h) h)"

definition subscribe_file_clipboard :: "Env \<Rightarrow> Host \<Rightarrow> Host" where
  "subscribe_file_clipboard env h =
     (if unix_file_copy_paste env
      then subscribe env FileClipboardService (can_sub_file_clipboard_service env h) h else h)"

definition apply_switch_permission :: "Env \<Rightarrow> string \<Rightarrow> bool \<Rightarrow> Host \<Rightarrow> Host" where
  "apply_switch_permission env n en h =
     (let (h', applied) =
        (if n = ''keyboard'' then
           (let h1 = h\<lparr>keyboard := en\<rparr>;
                h2 = (if \<not> en then revoke_remote_input_authorization h1 else h1);
                h3 = send_permission Keyboard en h2;
                h4 = subscribe env ClipboardService (can_sub_clipboard_service env h3) h3;
                h5 = subscribe_file_clipboard env h4;
                h6 = subscribe env CursorService (can_sub_cursor_tracking_services h5) h5;
                h7 = subscribe env PosService (can_sub_cursor_tracking_services h6) h6
            in (h7, True))
         else if n = ''clipboard'' then
           (let h1 = send_permission Clipboard en (h\<lparr>clipboard := en\<rparr>)
            in (subscribe env ClipboardService (can_sub_clipboard_service env h1) h1, True))
         else if n = ''audio'' then
           (let h1 = send_permission Audio en (h\<lparr>audio := en\<rparr>)
            in ((if authorized h1 then subscribe_audio env h1 else h1), True))
         else if n = ''file'' then
           (let h1 = send_permission File en (h\<lparr>file_allowed := en\<rparr>);
                h2 = (if unix_file_copy_paste env \<and> \<not> en then emit EmptyFileClipboard h1 else h1)
            in (subscribe_file_clipboard env h2, True))
         else if n = ''restart'' then (send_permission Restart en (h\<lparr>restart := en\<rparr>), True)
         else if n = ''recording'' then (send_permission Recording en (h\<lparr>recording := en\<rparr>), True)
         else if n = ''block_input'' then (send_permission BlockInput en (h\<lparr>block_input := en\<rparr>), True)
         else (h, False))
      in if applied then emit (CmPermissionUpdate n en) h' else h')"

text \<open>\<open>ipc::Data::SwitchPermission\<close>, from the connection manager of the local user.\<close>

definition handle_switch_permission :: "Env \<Rightarrow> string \<Rightarrow> bool \<Rightarrow> Host \<Rightarrow> Host" where
  "handle_switch_permission env n en h =
     (case switch_permission_policy_denial_reason_with_grant (session_auth_kind h) n en
             (session_permission_granted h n) of
        Some reason \<Rightarrow>
          (case switch_permission_from_name n of
             Some p \<Rightarrow> send_permission p False h
           | None \<Rightarrow> h)
      | None \<Rightarrow> apply_switch_permission env n en h)"

section \<open>Requests of the peer\<close>

definition local_permission_enabled_for_request :: "Env \<Rightarrow> string \<Rightarrow> bool" where
  "local_permission_enabled_for_request env n =
     (if n = ''keyboard'' then permission env OPTION_ENABLE_KEYBOARD
      else if n = ''clipboard'' then permission env OPTION_ENABLE_CLIPBOARD
      else if n = ''audio'' then permission env OPTION_ENABLE_AUDIO
      else if n = ''file'' \<or> n = ''file_transfer'' then permission env OPTION_ENABLE_FILE_TRANSFER
      else if n = ''restart'' then permission env OPTION_ENABLE_REMOTE_RESTART
      else if n = ''recording'' then permission env OPTION_ENABLE_RECORD_SESSION
      else if n = ''block_input'' then permission env OPTION_ENABLE_BLOCK_INPUT
      else if n = ''port_forward'' then permission env OPTION_ENABLE_TUNNEL
      else if n = ''view_camera'' then permission env OPTION_ENABLE_CAMERA
      else if n = ''terminal'' then permission env OPTION_ENABLE_TERMINAL
      else False)"

definition permission_request_denial_reason :: "Env \<Rightarrow> string \<Rightarrow> string option" where
  "permission_request_denial_reason env n =
     (if n = ''privacy_mode''
      then Some ''Privacy mode is available only for unattended access sessions.''
      else if switch_permission_from_name n = None \<and> permission_request_connection_type n = None
      then Some ''Unknown permission requested.''
      else if \<not> local_permission_enabled_for_request env n
      then Some ''Permission is disabled on this device.''
      else None)"

definition cleanup_pending_permission_requests :: "instant \<Rightarrow> Host \<Rightarrow> Host" where
  "cleanup_pending_permission_requests now h =
     h\<lparr>pending_permission_requests :=
        filter (\<lambda>(i, r). since now (requested_at r) < pending_timeout) (pending_permission_requests h)\<rparr>"

definition approve_permission_request :: "Env \<Rightarrow> nat \<Rightarrow> string \<Rightarrow> bool \<Rightarrow> Host \<Rightarrow> Host" where
  "approve_permission_request env i n en h =
     emit (SendResponse i n en True '''')
       (case permission_request_connection_type n of
          Some t \<Rightarrow> grant_session_connection t h
        | None \<Rightarrow>
            (if switch_permission_from_name n \<noteq> None
             then apply_switch_permission env n en (grant_session_permission n h) else h))"

definition deny_permission_request :: "nat \<Rightarrow> string \<Rightarrow> bool \<Rightarrow> string \<Rightarrow> Host \<Rightarrow> Host" where
  "deny_permission_request i n en reason = emit (SendResponse i n en False reason)"

definition needs_approval :: "string \<Rightarrow> bool \<Rightarrow> Host \<Rightarrow> bool" where
  "needs_approval n en h =
     (case permission_request_connection_type n of
        Some t \<Rightarrow> connection_policy_denial_reason_with_grant (session_auth_kind h) t
                    (session_connection_granted h t) \<noteq> None
      | None \<Rightarrow> switch_permission_policy_denial_reason_with_grant (session_auth_kind h) n en
                  (session_permission_granted h n) \<noteq> None)"

definition handle_session_permission_request ::
  "Env \<Rightarrow> instant \<Rightarrow> nat \<Rightarrow> string \<Rightarrow> bool \<Rightarrow> Host \<Rightarrow> Host" where
  "handle_session_permission_request env now i n en h0 =
     (let h = cleanup_pending_permission_requests now h0 in
      if i = 0 then h
      else if \<not> en then deny_permission_request i n en ''Only enabling permissions can be requested.'' h
      else (case permission_request_denial_reason env n of
              Some reason \<Rightarrow> deny_permission_request i n en reason h
            | None \<Rightarrow>
                (if \<not> needs_approval n en h then approve_permission_request env i n en h
                 else if should_reject_additional_permission_request (session_auth_kind h)
                           (has_active_pending_permission_request now h)
                 then deny_permission_request i n en ''Another permission request is already pending.'' h
                 else if length (pending_permission_requests h) \<ge> 16
                 then deny_permission_request i n en ''Too many pending permission requests.'' h
                 else if contains_key (pending_permission_requests h) i
                 then deny_permission_request i n en ''Permission request id is already pending.'' h
                 else
                   (let h1 = h\<lparr>pending_permission_requests :=
                          AList.update i \<lparr>req_name = n, req_enabled = en, requested_at = now\<rparr>
                            (pending_permission_requests h)\<rparr>
                    in emit (CmPermissionRequest i n en) (revoke_remote_input_authorization h1)))))"

definition handle_permission_request_result ::
  "Env \<Rightarrow> instant \<Rightarrow> nat \<Rightarrow> string \<Rightarrow> bool \<Rightarrow> bool \<Rightarrow> Host \<Rightarrow> Host" where
  "handle_permission_request_result env now i n en approved h0 =
     (let h1 = cleanup_pending_permission_requests now h0 in
      case map_of (pending_permission_requests h1) i of
        None \<Rightarrow> h1
      | Some p \<Rightarrow>
          (let h = h1\<lparr>pending_permission_requests := AList.delete i (pending_permission_requests h1)\<rparr>;
               (pn, pe, mismatch) = pending_permission_response_values p n en
           in if since now (requested_at p) \<ge> from_secs 120
              then deny_permission_request i pn pe ''Permission request expired.'' h
              else if \<not> approved
              then deny_permission_request i pn pe ''Permission request declined.'' h
              else (case permission_request_denial_reason env pn of
                      Some reason \<Rightarrow> deny_permission_request i pn pe reason h
                    | None \<Rightarrow> approve_permission_request env i pn pe h)))"

section \<open>Defaults at login\<close>

definition apply_session_permission_defaults :: "Host \<Rightarrow> Host" where
  "apply_session_permission_defaults h =
     (let d = session_default_permission (session_auth_kind h) in
      h\<lparr>keyboard := d ''keyboard'' (keyboard h), clipboard := d ''clipboard'' (clipboard h),
        audio := d ''audio'' (audio h), file_allowed := d ''file'' (file_allowed h),
        restart := d ''restart'' (restart h), recording := d ''recording'' (recording h),
        block_input := d ''block_input'' (block_input h)\<rparr>)"

definition effective_permission_updates :: "Host \<Rightarrow> (Permission \<times> bool) list" where
  "effective_permission_updates h =
     [(Keyboard, keyboard h), (Clipboard, clipboard h), (Audio, audio h), (File, file_allowed h),
      (Restart, restart h), (Recording, recording h), (BlockInput, block_input h)]"

definition send_permission_updates :: "(Permission \<times> bool) list \<Rightarrow> Host \<Rightarrow> Host" where
  "send_permission_updates us h = fold (\<lambda>(p, en). send_permission p en) us h"

definition requested_conn_type :: "Host \<Rightarrow> AuthConnType" where
  "requested_conn_type h =
     (if file_transfer h \<noteq> None then FileTransfer
      else if port_forward_socket h \<or> port_forward_address h \<noteq> [] then PortForward
      else if view_camera h then ViewCamera
      else if terminal h then Terminal else Remote)"

definition session_connection_policy_denial_reason :: "Host \<Rightarrow> string option" where
  "session_connection_policy_denial_reason h =
     (let t = requested_conn_type h
      in connection_policy_denial_reason_with_grant (session_auth_kind h) t (session_connection_granted h t))"

section \<open>Permissions by name\<close>

definition permission_name :: "Permission \<Rightarrow> string" where
  "permission_name p = (case p of
     Keyboard \<Rightarrow> ''keyboard'' | Clipboard \<Rightarrow> ''clipboard'' | Audio \<Rightarrow> ''audio'' | File \<Rightarrow> ''file''
   | Restart \<Rightarrow> ''restart'' | Recording \<Rightarrow> ''recording'' | BlockInput \<Rightarrow> ''block_input'')"

definition permitted :: "Permission \<Rightarrow> Host \<Rightarrow> bool" where
  "permitted p h = (case p of
     Keyboard \<Rightarrow> keyboard h | Clipboard \<Rightarrow> clipboard h | Audio \<Rightarrow> audio h | File \<Rightarrow> file_allowed h
   | Restart \<Rightarrow> restart h | Recording \<Rightarrow> recording h | BlockInput \<Rightarrow> block_input h)"

definition granted_names :: "Host \<Rightarrow> string set" where
  "granted_names h = (case map_of (sessions h) (session_key h) of
     None \<Rightarrow> {} | Some s \<Rightarrow> g_permissions (grants s))"

lemma switch_permission_name [simp]: "switch_permission_from_name (permission_name p) = Some p"
  by (cases p) (simp_all add: switch_permission_from_name_def permission_name_def)

lemma switch_permission_from_name_iff:
  "switch_permission_from_name n = Some p \<longleftrightarrow> n = permission_name p"
  by (cases p) (auto simp: switch_permission_from_name_def permission_name_def)

lemma permission_name_inj [simp]: "permission_name p = permission_name q \<longleftrightarrow> p = q"
  by (metis switch_permission_name option.inject)

lemma permission_name_keyboard [simp]: "permission_name p = ''keyboard'' \<longleftrightarrow> p = Keyboard"
  by (cases p) (simp_all add: permission_name_def)

lemma not_conn_type [simp]: "permission_request_connection_type (permission_name p) = None"
  by (cases p) (simp_all add: permission_request_connection_type_def permission_name_def)

lemma session_permission_granted_iff: "session_permission_granted h n \<longleftrightarrow> n \<in> granted_names h"
  by (simp add: session_permission_granted_def granted_names_def split: option.split)

section \<open>Frames\<close>

text \<open>Sending, subscribing and revoking keep the permissions, sessions and requests.\<close>

definition view :: "Host \<Rightarrow> SessionKey \<times> SessionAuthKind \<times> (Permission \<Rightarrow> bool)
    \<times> (nat \<times> PendingPermissionRequest) list \<times> (SessionKey \<times> Session) list" where
  "view h = (session_key h, session_auth_kind h, (\<lambda>p. permitted p h),
     pending_permission_requests h, sessions h)"

lemmas frame_defs = emit_def subscribe_def send_permission_def deny_permission_request_def
  reset_platform_remote_input_state_def

lemma permitted_frame [simp]:
  "permitted p (h\<lparr>sent := a\<rparr>) = permitted p h"
  "permitted p (h\<lparr>subscriptions := b\<rparr>) = permitted p h"
  "permitted p (h\<lparr>remote_input_authorization := c\<rparr>) = permitted p h"
  "permitted p (h\<lparr>pending_permission_requests := d\<rparr>) = permitted p h"
  "permitted p (h\<lparr>sessions := e\<rparr>) = permitted p h"
  by (cases p; simp add: permitted_def)+

lemma view_emit [simp]: "view (emit x h) = view h"
  by (simp add: view_def emit_def)

lemma view_subscribe [simp]: "view (subscribe env s b h) = view h"
  by (simp add: view_def subscribe_def)

lemma view_send_permission [simp]: "view (send_permission p b h) = view h"
  by (simp add: send_permission_def)

lemma view_deny [simp]: "view (deny_permission_request i n en r h) = view h"
  by (simp add: deny_permission_request_def)

lemma view_gate [simp]: "view (h\<lparr>remote_input_authorization := g\<rparr>) = view h"
  by (simp add: view_def)

lemma view_revoke [simp]: "view (revoke_remote_input_authorization h) = view h"
  by (simp add: revoke_remote_input_authorization_def reset_platform_remote_input_state_def
      case_prod_beta Let_def)

lemma view_authorize [simp]: "view (fst (authorize_remote_input k now h)) = view h"
  by (simp add: authorize_remote_input_def reset_platform_remote_input_state_def case_prod_beta Let_def)

lemma view_subscribe_audio [simp]: "view (subscribe_audio env h) = view h"
  by (simp add: subscribe_audio_def)

lemma view_subscribe_file [simp]: "view (subscribe_file_clipboard env h) = view h"
  by (simp add: subscribe_file_clipboard_def)

lemma view_iff: "view h = view h' \<longleftrightarrow> session_key h = session_key h' \<and> session_auth_kind h = session_auth_kind h'
    \<and> (\<forall>p. permitted p h = permitted p h') \<and> pending_permission_requests h = pending_permission_requests h'
    \<and> sessions h = sessions h'"
  by (auto simp: view_def fun_eq_iff)

lemma view_granted: "view h = view h' \<Longrightarrow> granted_names h = granted_names h'"
  by (simp add: view_iff granted_names_def)

text \<open>A switch sets exactly the permission of that name.\<close>

definition set_permitted :: "string \<Rightarrow> bool \<Rightarrow> Host \<Rightarrow> Host" where
  "set_permitted n en h = (case switch_permission_from_name n of
     None \<Rightarrow> h
   | Some p \<Rightarrow> (case p of
       Keyboard \<Rightarrow> h\<lparr>keyboard := en\<rparr> | Clipboard \<Rightarrow> h\<lparr>clipboard := en\<rparr> | Audio \<Rightarrow> h\<lparr>audio := en\<rparr>
     | File \<Rightarrow> h\<lparr>file_allowed := en\<rparr> | Restart \<Rightarrow> h\<lparr>restart := en\<rparr>
     | Recording \<Rightarrow> h\<lparr>recording := en\<rparr> | BlockInput \<Rightarrow> h\<lparr>block_input := en\<rparr>))"

lemma permitted_set [simp]:
  "permitted p (set_permitted n en h) = (if n = permission_name p then en else permitted p h)"
  by (cases p) (auto simp: permitted_def set_permitted_def switch_permission_from_name_def permission_name_def)

lemma set_permitted_frame [simp]:
  "session_key (set_permitted n en h) = session_key h"
  "session_auth_kind (set_permitted n en h) = session_auth_kind h"
  "pending_permission_requests (set_permitted n en h) = pending_permission_requests h"
  "sessions (set_permitted n en h) = sessions h"
  by (simp_all add: set_permitted_def split: option.split Permission.split)

lemma view_apply_switch: "view (apply_switch_permission env n en h) = view (set_permitted n en h)"
  by (simp add: apply_switch_permission_def set_permitted_def switch_permission_from_name_def Let_def)

lemma apply_switch_frame [simp]:
  "session_key (apply_switch_permission env n en h) = session_key h"
  "session_auth_kind (apply_switch_permission env n en h) = session_auth_kind h"
  "pending_permission_requests (apply_switch_permission env n en h) = pending_permission_requests h"
  "sessions (apply_switch_permission env n en h) = sessions h"
  "permitted p (apply_switch_permission env n en h) = (if n = permission_name p then en else permitted p h)"
  using view_apply_switch [of env n en h] by (simp_all add: view_iff)

lemma granted_names_apply_switch [simp]: "granted_names (apply_switch_permission env n en h) = granted_names h"
  by (simp add: granted_names_def)

section \<open>The approval of the local user\<close>

text \<open>
  One connection over its life time, with the set of permission names that the local user
  approved: the peer requests, the local user answers or switches, the peer sends input,
  another connection of the same session is granted a permission, the session is removed.
\<close>

definition answered_name :: "instant \<Rightarrow> nat \<Rightarrow> Host \<Rightarrow> string set" where
  "answered_name now i h = (case map_of (pending_permission_requests h) i of
     None \<Rightarrow> {} | Some p \<Rightarrow> {req_name p})"

inductive permission_step :: "Env \<Rightarrow> Host \<times> string set \<Rightarrow> Host \<times> string set \<Rightarrow> bool" for env where
  request: "permission_step env (h, A) (handle_session_permission_request env now i n en h, A)"
| answer: "permission_step env (h, A)
     (handle_permission_request_result env now i n en ok h, if ok then A \<union> answered_name now i h else A)"
| switch: "permission_step env (h, A) (handle_switch_permission env n en h, A)"
| input: "permission_step env (h, A) (fst (authorize_remote_input k now h), A)"
| sibling: "permission_step env (h, A) (grant_session_permission n h, insert n A)"
| removed: "permission_step env (h, A) (h\<lparr>sessions := AList.delete (session_key h) (sessions h)\<rparr>, A)"

definition approved_inv :: "Host \<times> string set \<Rightarrow> bool" where
  "approved_inv = (\<lambda>(h, A). is_low_permission_support (session_auth_kind h)
     \<and> granted_names h - {''keyboard''} \<subseteq> A \<and> (\<forall>p. p \<noteq> Keyboard \<longrightarrow> permitted p h \<longrightarrow> permission_name p \<in> A))"

definition low_permission_login :: "Host \<times> string set \<Rightarrow> bool" where
  "low_permission_login = (\<lambda>(h, A). is_low_permission_support (session_auth_kind h)
     \<and> A = granted_names h \<and> (\<exists>h0. h = apply_session_permission_defaults h0)
     \<and> pending_permission_requests h = [])"

lemma approved_inv_view:
  "view h = view h' \<Longrightarrow> approved_inv (h, A) = approved_inv (h', A)"
  using view_granted [of h h'] by (simp add: approved_inv_def view_iff)

lemma defaults_low:
  "is_low_permission_support (session_auth_kind h) \<Longrightarrow> p \<noteq> Keyboard
   \<Longrightarrow> \<not> permitted p (apply_session_permission_defaults h)"
  by (cases p) (simp_all add: permitted_def apply_session_permission_defaults_def Let_def
      session_default_permission_def low_permission_default_def is_low_permission_support_def)

lemma view_cleanup:
  "session_key (cleanup_pending_permission_requests now h) = session_key h"
  "session_auth_kind (cleanup_pending_permission_requests now h) = session_auth_kind h"
  "sessions (cleanup_pending_permission_requests now h) = sessions h"
  "permitted p (cleanup_pending_permission_requests now h) = permitted p h"
  "granted_names (cleanup_pending_permission_requests now h) = granted_names h"
  by (simp_all add: cleanup_pending_permission_requests_def granted_names_def)

lemma grant_frame:
  "session_key (grant_session_permission n h) = session_key h"
  "session_auth_kind (grant_session_permission n h) = session_auth_kind h"
  "pending_permission_requests (grant_session_permission n h) = pending_permission_requests h"
  "permitted p (grant_session_permission n h) = permitted p h"
  by (simp_all add: grant_session_permission_def split: option.split)

lemma granted_names_grant: "granted_names (grant_session_permission n h) \<subseteq> insert n (granted_names h)"
  by (auto simp: granted_names_def grant_session_permission_def alist_simps split: option.splits)

lemma grant_connection_frame:
  "session_key (grant_session_connection t h) = session_key h"
  "session_auth_kind (grant_session_connection t h) = session_auth_kind h"
  "pending_permission_requests (grant_session_connection t h) = pending_permission_requests h"
  "permitted p (grant_session_connection t h) = permitted p h"
  "granted_names (grant_session_connection t h) = granted_names h"
  by (auto simp add: grant_session_connection_def granted_names_def alist_simps split: option.split)

lemma emit_frame:
  "session_key (emit x h) = session_key h" "session_auth_kind (emit x h) = session_auth_kind h"
  "pending_permission_requests (emit x h) = pending_permission_requests h"
  "sessions (emit x h) = sessions h"
  "permitted p (emit x h) = permitted p h"
  "granted_names (emit x h) = granted_names h"
  by (simp_all add: emit_def granted_names_def)

lemma approve_frame:
  "session_key (approve_permission_request env i n en h) = session_key h"
  "session_auth_kind (approve_permission_request env i n en h) = session_auth_kind h"
  "pending_permission_requests (approve_permission_request env i n en h) = pending_permission_requests h"
  by (auto simp add: approve_permission_request_def emit_frame grant_frame grant_connection_frame
      split: option.split)

lemma approve_grants:
  "granted_names (approve_permission_request env i n en h) \<subseteq> insert n (granted_names h)"
  using granted_names_grant [of n h]
  by (auto simp add: approve_permission_request_def emit_frame grant_frame grant_connection_frame
      split: option.split)

lemma approve_permitted:
  "permitted p (approve_permission_request env i n en h) \<Longrightarrow> permitted p h \<or> permission_name p = n"
  by (auto simp add: approve_permission_request_def emit_frame grant_frame grant_connection_frame
      split: option.splits if_splits)

lemma approved_inv_approve:
  assumes inv: "approved_inv (h, A)"
    and n: "n \<in> A \<or> n = ''keyboard'' \<or> permission_request_connection_type n \<noteq> None"
  shows "approved_inv (approve_permission_request env i n en h, A)"
proof (cases "permission_request_connection_type n")
  case None
  with n have n': "n \<in> A \<or> n = ''keyboard''" by simp
  show ?thesis
    using inv n' approve_grants [of env i n en h]
    by (auto simp: approved_inv_def approve_frame dest!: approve_permitted)
next
  case (Some t)
  with inv show ?thesis
    by (simp add: approved_inv_def approve_permission_request_def emit_frame grant_connection_frame)
qed

lemma approved_inv_emit [simp]: "approved_inv (emit x h, A) = approved_inv (h, A)"
  by (rule approved_inv_view) simp

lemma approved_inv_deny [simp]: "approved_inv (deny_permission_request i n en r h, A) = approved_inv (h, A)"
  by (rule approved_inv_view) simp

lemma approved_inv_cleanup [simp]:
  "approved_inv (cleanup_pending_permission_requests now h, A) = approved_inv (h, A)"
  by (simp add: approved_inv_def view_cleanup)

lemma approved_inv_pending [simp]:
  "approved_inv (h\<lparr>pending_permission_requests := ps\<rparr>, A) = approved_inv (h, A)"
  by (simp add: approved_inv_def granted_names_def)

lemma approved_inv_revoke [simp]:
  "approved_inv (revoke_remote_input_authorization h, A) = approved_inv (h, A)"
  by (rule approved_inv_view) simp

lemma approved_inv_mono: "approved_inv (h, A) \<Longrightarrow> A \<subseteq> B \<Longrightarrow> approved_inv (h, B)"
  by (auto simp: approved_inv_def)

text \<open>Without approval a low-permission session gets the keyboard or what it was granted before.\<close>

lemma no_approval_needed:
  assumes "\<not> needs_approval n True h" "is_low_permission_support (session_auth_kind h)"
  shows "n \<in> granted_names h \<or> n = ''keyboard'' \<or> permission_request_connection_type n \<noteq> None"
  using assms
  by (auto simp: needs_approval_def switch_permission_policy_denial_reason_with_grant_def
      low_permission_default_def is_low_permission_support_def session_permission_granted_iff
      split: option.splits if_splits)

lemma approved_inv_request:
  assumes inv: "approved_inv (h, A)"
  shows "approved_inv (handle_session_permission_request env now i n en h, A)"
proof -
  let ?h = "cleanup_pending_permission_requests now h"
  have "approved_inv (approve_permission_request env i n True ?h, A)" if "\<not> needs_approval n True ?h"
  proof (rule approved_inv_approve)
    show "approved_inv (?h, A)" using inv by simp
    show "n \<in> A \<or> n = ''keyboard'' \<or> permission_request_connection_type n \<noteq> None"
      using no_approval_needed [OF that] inv by (auto simp: approved_inv_def view_cleanup)
  qed
  with inv show ?thesis
    by (cases en) (simp_all add: handle_session_permission_request_def Let_def split: option.split)
qed

lemma cleanup_lookup:
  assumes "map_of (pending_permission_requests (cleanup_pending_permission_requests now h)) i = Some p"
  shows "since now (requested_at p) < pending_timeout"
    and "map_wf (pending_permission_requests h) \<Longrightarrow> map_of (pending_permission_requests h) i = Some p"
proof -
  from assms have "(i, p) \<in> set (pending_permission_requests (cleanup_pending_permission_requests now h))"
    by (rule map_of_SomeD)
  then show "since now (requested_at p) < pending_timeout"
    by (simp add: cleanup_pending_permission_requests_def)
  show "map_of (pending_permission_requests h) i = Some p" if "map_wf (pending_permission_requests h)"
    using assms that by (simp add: cleanup_pending_permission_requests_def map_of_filter_wf split: option.splits if_splits)
qed

lemma approved_inv_answer:
  assumes inv: "approved_inv (h, A)" and wf: "map_wf (pending_permission_requests h)"
  shows "approved_inv (handle_permission_request_result env now i n en ok h,
           if ok then A \<union> answered_name now i h else A)"
proof (cases "map_of (pending_permission_requests (cleanup_pending_permission_requests now h)) i")
  case None
  then show ?thesis
    using inv approved_inv_mono [OF inv, of "A \<union> answered_name now i h"]
    by (simp add: handle_permission_request_result_def)
next
  case (Some p)
  let ?B = "A \<union> answered_name now i h"
  have B: "approved_inv (h, ?B)" by (rule approved_inv_mono [OF inv]) simp
  have "req_name p \<in> ?B" using cleanup_lookup(2) [OF Some wf] by (simp add: answered_name_def)
  then show ?thesis
    using inv B Some
    by (simp add: handle_permission_request_result_def pending_permission_response_values_def Let_def
        approved_inv_approve split: option.split)
qed

lemma approved_inv_switch:
  assumes inv: "approved_inv (h, A)"
  shows "approved_inv (handle_switch_permission env n en h, A)"
proof (cases "switch_permission_policy_denial_reason_with_grant (session_auth_kind h) n en
             (session_permission_granted h n)")
  case None
  then have "en \<Longrightarrow> n = ''keyboard'' \<or> n \<in> granted_names h"
    using inv by (auto simp: approved_inv_def switch_permission_policy_denial_reason_with_grant_def
      low_permission_default_def is_low_permission_support_def session_permission_granted_iff split: if_splits)
  with None inv show ?thesis
    by (auto simp: handle_switch_permission_def approved_inv_def)
next
  case (Some r)
  with inv show ?thesis
    by (simp add: handle_switch_permission_def send_permission_def split: option.split)
qed


section \<open>Pending requests\<close>

definition pending_inv :: "Host \<Rightarrow> bool" where
  "pending_inv h \<longleftrightarrow> map_wf (pending_permission_requests h)
     \<and> length (pending_permission_requests h) \<le> 16
     \<and> (is_low_permission_support (session_auth_kind h) \<longrightarrow> length (pending_permission_requests h) \<le> 1)"

lemma pending_inv_view: "view h = view h' \<Longrightarrow> pending_inv h = pending_inv h'"
  by (simp add: pending_inv_def view_iff)

lemma pending_inv_eq:
  "pending_permission_requests h' = pending_permission_requests h \<Longrightarrow> session_auth_kind h' = session_auth_kind h
   \<Longrightarrow> pending_inv h' = pending_inv h"
  by (simp add: pending_inv_def)

lemma pending_inv_cleanup: "pending_inv h \<Longrightarrow> pending_inv (cleanup_pending_permission_requests now h)"
  by (auto simp: pending_inv_def cleanup_pending_permission_requests_def alist_simps
      intro: order.trans [OF length_filter_le])

lemma pending_inv_delete:
  "pending_inv h \<Longrightarrow> pending_inv (h\<lparr>pending_permission_requests := AList.delete i (pending_permission_requests h)\<rparr>)"
  by (auto simp: pending_inv_def map_wf_delete intro: order.trans [OF length_delete_le])

lemma pending_inv_emit [simp]: "pending_inv (emit x h) = pending_inv h"
  by (rule pending_inv_view) simp

lemma pending_inv_deny [simp]: "pending_inv (deny_permission_request i n en r h) = pending_inv h"
  by (rule pending_inv_view) simp

lemma pending_inv_approve [simp]: "pending_inv (approve_permission_request env i n en h) = pending_inv h"
  by (rule pending_inv_eq) (simp_all add: approve_frame)

lemma pending_inv_revoke [simp]: "pending_inv (revoke_remote_input_authorization h) = pending_inv h"
  by (rule pending_inv_view) simp

lemma cleanup_active:
  "\<not> has_active_pending_permission_request now (cleanup_pending_permission_requests now h)
   \<longleftrightarrow> pending_permission_requests (cleanup_pending_permission_requests now h) = []"
  by (auto simp: has_active_pending_permission_request_def cleanup_pending_permission_requests_def
      list_ex_iff filter_empty_conv)

lemma pending_inv_insert:
  assumes h: "pending_inv h" and len: "length (pending_permission_requests h) < 16"
    and one: "is_low_permission_support (session_auth_kind h) \<Longrightarrow> pending_permission_requests h = []"
  shows "pending_inv (h\<lparr>pending_permission_requests := AList.update i r (pending_permission_requests h)\<rparr>)"
  using assms by (auto simp: pending_inv_def alist_simps)

lemma pending_inv_request:
  assumes inv: "pending_inv h"
  shows "pending_inv (handle_session_permission_request env now i n en h)"
proof -
  let ?h = "cleanup_pending_permission_requests now h"
  have h: "pending_inv ?h" by (rule pending_inv_cleanup [OF inv])
  have ins: "pending_inv (?h\<lparr>pending_permission_requests := AList.update i r (pending_permission_requests ?h)\<rparr>)"
    if "\<not> should_reject_additional_permission_request (session_auth_kind ?h)
           (has_active_pending_permission_request now ?h)" "\<not> 16 \<le> length (pending_permission_requests ?h)" for r
    using that by (intro pending_inv_insert h)
      (auto simp: should_reject_additional_permission_request_def cleanup_active)
  show ?thesis using h ins
    by (auto simp: handle_session_permission_request_def Let_def split: option.split)
qed

lemma pending_inv_answer:
  assumes inv: "pending_inv h"
  shows "pending_inv (handle_permission_request_result env now i n en ok h)"
  using pending_inv_delete [OF pending_inv_cleanup [OF inv], of i now] pending_inv_cleanup [OF inv, of now]
  by (auto simp add: handle_permission_request_result_def Let_def case_prod_beta split: option.split)

lemma handle_switch_frame:
  "pending_permission_requests (handle_switch_permission env n en h) = pending_permission_requests h"
  "session_auth_kind (handle_switch_permission env n en h) = session_auth_kind h"
  "session_key (handle_switch_permission env n en h) = session_key h"
  "sessions (handle_switch_permission env n en h) = sessions h"
  by (simp_all add: handle_switch_permission_def send_permission_def emit_frame split: option.split)

lemma pending_inv_step:
  "permission_step env (h, A) (h', A') \<Longrightarrow> pending_inv h \<Longrightarrow> pending_inv h'"
proof (erule permission_step.cases; clarsimp)
  fix now i n en
  assume "pending_inv h" then show "pending_inv (handle_session_permission_request env now i n en h)"
    by (rule pending_inv_request)
next
  fix now i n en ok
  assume "pending_inv h" then show "pending_inv (handle_permission_request_result env now i n en ok h)"
    by (rule pending_inv_answer)
next
  fix n en
  assume "pending_inv h" then show "pending_inv (handle_switch_permission env n en h)"
    by (simp add: pending_inv_def handle_switch_frame)
next
  fix k now
  assume "pending_inv h"
  then show "pending_inv (fst (authorize_remote_input k now h))"
    using pending_inv_view [of "fst (authorize_remote_input k now h)" h] by simp
next
  fix n
  assume "pending_inv h" then show "pending_inv (grant_session_permission n h)"
    by (simp add: pending_inv_def grant_frame)
next
  assume "pending_inv h"
  then show "pending_inv (h\<lparr>sessions := AList.delete (session_key h) (sessions h)\<rparr>)"
    by (simp add: pending_inv_def)
qed

definition permission_inv :: "Host \<times> string set \<Rightarrow> bool" where
  "permission_inv s \<longleftrightarrow> pending_inv (fst s) \<and> approved_inv s"

lemma approved_inv_step:
  assumes step: "permission_step env (h, A) (h', A')" and wf: "pending_inv h" and inv: "approved_inv (h, A)"
  shows "approved_inv (h', A')"
  using step
proof (cases rule: permission_step.cases)
  case (request now i n en) then show ?thesis using approved_inv_request [OF inv] by simp
next
  case (answer now i n en ok)
  have wf': "map_wf (pending_permission_requests h)" using wf by (simp add: pending_inv_def)
  show ?thesis unfolding answer by (rule approved_inv_answer [OF inv wf'])
next
  case (switch n en) then show ?thesis using approved_inv_switch [OF inv] by simp
next
  case (input k now)
  then show ?thesis using inv approved_inv_view [of "fst (authorize_remote_input k now h)" h] by simp
next
  case (sibling n)
  then show ?thesis using inv granted_names_grant [of n h] by (auto simp: approved_inv_def grant_frame)
next
  case removed
  then show ?thesis using inv by (auto simp: approved_inv_def granted_names_def map_of_delete)
qed

lemma defaults_frame [simp]:
  "session_key (apply_session_permission_defaults h) = session_key h"
  "session_auth_kind (apply_session_permission_defaults h) = session_auth_kind h"
  "pending_permission_requests (apply_session_permission_defaults h) = pending_permission_requests h"
  "sessions (apply_session_permission_defaults h) = sessions h"
  "granted_names (apply_session_permission_defaults h) = granted_names h"
  by (simp_all add: apply_session_permission_defaults_def Let_def granted_names_def)

interpretation pf: invariant_machine low_permission_login "permission_step env" permission_inv for env
proof unfold_locales
  fix s assume "low_permission_login s"
  then show "permission_inv s"
    by (auto simp: low_permission_login_def permission_inv_def pending_inv_def approved_inv_def
        defaults_low)
next
  fix s t assume "permission_inv s" "permission_step env s t"
  then show "permission_inv t"
    by (cases s; cases t) (auto simp: permission_inv_def intro: approved_inv_step pending_inv_step)
qed

section \<open>Properties\<close>

definition perm_demo_env :: Env where
  "perm_demo_env = \<lparr>get_option = (\<lambda>_. ''Y''), option2bool = (\<lambda>_ v. v = ''Y''), access_mode = '''',
     flutter_desktop = False, control_permission_value = (\<lambda>_. -1), control_permissions = None,
     unix_file_copy_paste = True, local_to_remote_allowed = True, one_way_file_transfer = ''N'',
     server_alive = True\<rparr>"

definition perm_demo_key :: SessionKey where
  "perm_demo_key = \<lparr>peer_id = ''p'', peer_name = ''n'', session_id = 7\<rparr>"

definition perm_demo_raw :: Host where
  "perm_demo_raw =
     \<lparr>session_key = perm_demo_key, session_auth_kind = OneTimePassword, authorized = True,
      authed_conn_type = Some Remote, keyboard = True, clipboard = True, audio = True,
      file_allowed = True, restart = True, recording = True, block_input = True,
      disable_keyboard = False, disable_clipboard = False, disable_audio = False,
      enable_file_transfer = True, show_my_cursor = False, show_remote_cursor = False,
      voice_calling = False, file_transfer = None, port_forward_socket = False,
      port_forward_address = '''', view_camera = False, terminal = False,
      pending_permission_requests = [],
      remote_input_authorization = \<lparr>platform_state_dirty = True\<rparr>, subscriptions = (\<lambda>_. False),
      sessions = [(perm_demo_key, \<lparr>last_recv_time = 0, random_password = ''x'', tfa = False,
        auth_kind = OneTimePassword, grants = \<lparr>g_permissions = {}, g_connection_types = {}\<rparr>\<rparr>)],
      sent = []\<rparr>"

definition perm_demo_host :: Host where
  "perm_demo_host = apply_session_permission_defaults perm_demo_raw"

text \<open>The demo host after the peer asked for the clipboard.\<close>

definition perm_demo_asked :: Host where
  "perm_demo_asked = handle_session_permission_request perm_demo_env (5 :: instant) 1 ''clipboard'' True perm_demo_host"

lemma perm_demo_login: "low_permission_login (perm_demo_host, {})"
  by (auto simp: low_permission_login_def perm_demo_host_def perm_demo_raw_def granted_names_def
      is_low_permission_support_def is_unattended_access_def)

lemma perm_demo_ok: "permission_request_denial_reason perm_demo_env ''clipboard'' = None"
  by (simp add: permission_request_denial_reason_def switch_permission_from_name_def
      local_permission_enabled_for_request_def permission_def is_permission_enabled_locally_def perm_demo_env_def)

lemma perm_demo_asked_eq:
  "perm_demo_asked = emit (CmPermissionRequest 1 ''clipboard'' True) (revoke_remote_input_authorization
     (perm_demo_host\<lparr>pending_permission_requests :=
        [(1, \<lparr>req_name = ''clipboard'', req_enabled = True, requested_at = 5\<rparr>)]\<rparr>))"
proof -
  have clean: "cleanup_pending_permission_requests 5 perm_demo_host = perm_demo_host"
    by (simp add: cleanup_pending_permission_requests_def perm_demo_host_def perm_demo_raw_def
        apply_session_permission_defaults_def Let_def)
  have ok: "permission_request_denial_reason perm_demo_env ''clipboard'' = None"
    by (rule perm_demo_ok)
  have need: "needs_approval ''clipboard'' True perm_demo_host"
    by (simp add: needs_approval_def permission_request_connection_type_def perm_demo_host_def perm_demo_raw_def
        switch_permission_policy_denial_reason_with_grant_def is_unattended_access_def low_permission_default_def
        session_permission_granted_iff granted_names_def)
  have empty: "pending_permission_requests perm_demo_host = []"
    by (simp add: perm_demo_host_def perm_demo_raw_def)
  show ?thesis
    unfolding perm_demo_asked_def
    by (simp add: handle_session_permission_request_def clean ok need empty Let_def
        should_reject_additional_permission_request_def has_active_pending_permission_request_def)
qed

lemma perm_demo_asked_frame:
  "pending_permission_requests perm_demo_asked =
     [(1, \<lparr>req_name = ''clipboard'', req_enabled = True, requested_at = 5\<rparr>)]"
  "session_auth_kind perm_demo_asked = OneTimePassword"
  by (simp_all add: perm_demo_asked_eq revoke_remote_input_authorization_def Gate_revoke_def
      reset_platform_remote_input_state_def emit_def Let_def perm_demo_host_def perm_demo_raw_def)

text \<open>
  C6. In a low-permission session (every authentication but the unattended password) each
  permission other than the keyboard that is enabled at any time after login was approved by
  the local user in this session: its name is among the names granted before or approved by
  the local user, whatever the peer requests, however the connection manager switches
  permissions and in whatever order this happens.
\<close>

theorem permission_needs_local_approval:
  assumes "low_permission_login (h0, granted)" and "(permission_step env)\<^sup>*\<^sup>* (h0, granted) (h, A)"
    and "p \<noteq> Keyboard" and "permitted p h"
  shows "permission_name p \<in> A"
  using pf.inv_reachable [OF assms(1,2)] assms(3,4) by (simp add: permission_inv_def approved_inv_def)

theorem permission_needs_local_approval_witness:
  "permission_name Clipboard \<in> {''clipboard''}"
proof (rule permission_needs_local_approval [OF perm_demo_login])
  let ?h = "handle_permission_request_result perm_demo_env (6 :: instant) 1 ''clipboard'' True True perm_demo_asked"
  have "permission_step perm_demo_env (perm_demo_host, {}) (perm_demo_asked, {})"
    unfolding perm_demo_asked_def by (rule permission_step.request)
  moreover have "permission_step perm_demo_env (perm_demo_asked, {}) (?h, {''clipboard''})"
    using permission_step.answer [of perm_demo_env perm_demo_asked "{}" "6" 1 "''clipboard''" True True]
    by (simp add: answered_name_def perm_demo_asked_frame)
  ultimately show "(permission_step perm_demo_env)\<^sup>*\<^sup>* (perm_demo_host, {}) (?h, {''clipboard''})"
    by (rule converse_rtranclp_into_rtranclp [OF _ r_into_rtranclp])
  show "Clipboard \<noteq> Keyboard" by simp
  show "permitted Clipboard ?h"
    by (simp add: handle_permission_request_result_def cleanup_pending_permission_requests_def
        perm_demo_asked_frame pending_permission_response_values_def rust_time pending_timeout_def
        PENDING_PERMISSION_REQUEST_TIMEOUT_SECS_def perm_demo_ok approve_permission_request_def
        emit_frame permission_request_connection_type_def switch_permission_from_name_def permission_name_def)
qed

text \<open>
  Pending permission requests are bounded: at most sixteen, and in a low-permission
  session at most one prompt is open at any time; request ids are distinct.
\<close>

theorem permission_pending_bounded:
  assumes "pending_permission_requests h0 = []" and "(permission_step env)\<^sup>*\<^sup>* (h0, A0) (h, A)"
  shows "length (pending_permission_requests h) \<le> 16 \<and> distinct (map fst (pending_permission_requests h))
    \<and> (is_low_permission_support (session_auth_kind h) \<longrightarrow> length (pending_permission_requests h) \<le> 1)"
proof -
  have "pending_inv h0" using assms(1) by (simp add: pending_inv_def)
  with assms(2) have "pending_inv h"
    by (induction rule: rtranclp_induct2) (auto intro: pending_inv_step)
  then show ?thesis by (simp add: pending_inv_def)
qed

theorem permission_pending_bounded_witness:
  "is_low_permission_support (session_auth_kind perm_demo_asked) \<and> length (pending_permission_requests perm_demo_asked) \<le> 1"
proof -
  have 0: "pending_permission_requests perm_demo_host = []" by (simp add: perm_demo_host_def perm_demo_raw_def)
  have 1: "(permission_step perm_demo_env)\<^sup>*\<^sup>* (perm_demo_host, {}) (perm_demo_asked, {})"
    unfolding perm_demo_asked_def by (rule r_into_rtranclp) (rule permission_step.request)
  have 2: "is_low_permission_support (session_auth_kind perm_demo_asked)"
    by (simp add: perm_demo_asked_frame is_low_permission_support_def is_unattended_access_def)
  from permission_pending_bounded [OF 0 1] 2 show ?thesis by blast
qed

lemma authorize_blocked:
  assumes "should_block_remote_control_for_permission_prompt now h"
  shows "snd (authorize_remote_input k now h) = Deny"
    and "\<not> platform_state_dirty (remote_input_authorization (fst (authorize_remote_input k now h)))"
    and "sent (fst (authorize_remote_input k now h)) = sent h @
           (if platform_state_dirty (remote_input_authorization h) then [ResetPlatformInput] else [])"
  using assms
  by (simp_all add: authorize_remote_input_def Gate_evaluate_def Gate_revoke_def Let_def
      reset_platform_remote_input_state_def emit_def)

text \<open>
  While a permission prompt of a low-permission session is open, remote input of every
  kind is denied, the platform input state is released exactly when it was held, and it is
  not held afterwards.
\<close>

theorem permission_prompt_blocks_input:
  assumes "is_low_permission_support (session_auth_kind h)"
    and "(i, r) \<in> set (pending_permission_requests h)" and "now < requested_at r + from_secs 120"
  shows "snd (authorize_remote_input k now h) = Deny
    \<and> \<not> platform_state_dirty (remote_input_authorization (fst (authorize_remote_input k now h)))
    \<and> sent (fst (authorize_remote_input k now h)) = sent h @
           (if platform_state_dirty (remote_input_authorization h) then [ResetPlatformInput] else [])"
proof -
  have "since now (requested_at r) < pending_timeout"
    using assms(3) by (simp add: since_def pending_timeout_def PENDING_PERMISSION_REQUEST_TIMEOUT_SECS_def from_secs_def)
  then have "should_block_remote_control_for_permission_prompt now h"
    using assms(1,2)
    by (auto simp: should_block_remote_control_for_permission_prompt_def should_block_remote_control_def
        has_active_pending_permission_request_def list_ex_iff intro!: bexI)
  then show ?thesis by (simp add: authorize_blocked)
qed

theorem permission_prompt_blocks_input_witness:
  "snd (authorize_remote_input KeyboardInput 6 perm_demo_asked) = Deny
    \<and> \<not> platform_state_dirty (remote_input_authorization (fst (authorize_remote_input KeyboardInput 6 perm_demo_asked)))
    \<and> sent (fst (authorize_remote_input KeyboardInput 6 perm_demo_asked)) = sent perm_demo_asked @
           (if platform_state_dirty (remote_input_authorization perm_demo_asked) then [ResetPlatformInput] else [])"
proof (rule permission_prompt_blocks_input)
  show "is_low_permission_support (session_auth_kind perm_demo_asked)"
    by (simp add: perm_demo_asked_frame is_low_permission_support_def is_unattended_access_def)
  show "(1, \<lparr>req_name = ''clipboard'', req_enabled = True, requested_at = 5\<rparr>)
      \<in> set (pending_permission_requests perm_demo_asked)"
    by (simp add: perm_demo_asked_frame)
  show "6 < requested_at \<lparr>req_name = ''clipboard'', req_enabled = True, requested_at = 5\<rparr> + from_secs 120"
    by (simp add: from_secs_def)
qed

section \<open>Answers\<close>

definition responses :: "Host \<Rightarrow> Output list" where
  "responses h = filter (\<lambda>x. case x of SendResponse _ _ _ _ _ \<Rightarrow> True | _ \<Rightarrow> False) (sent h)"

lemma responses_emit [simp]:
  "responses (emit (SendResponse i n en ok r) h) = responses h @ [SendResponse i n en ok r]"
  "responses (emit (SendPermission p b) h) = responses h"
  "responses (emit (CmPermissionUpdate n b) h) = responses h"
  "responses (emit (CmPermissionRequest i n b) h) = responses h"
  "responses (emit ResetPlatformInput h) = responses h"
  "responses (emit EmptyFileClipboard h) = responses h"
  by (simp_all add: responses_def emit_def)

lemma responses_frame [simp]:
  "responses (h\<lparr>pending_permission_requests := ps\<rparr>) = responses h"
  "responses (h\<lparr>sessions := ss\<rparr>) = responses h"
  "responses (h\<lparr>remote_input_authorization := g\<rparr>) = responses h"
  "responses (subscribe env s b h) = responses h"
  by (simp_all add: responses_def subscribe_def)

lemma responses_set [simp]:
  "responses (h\<lparr>keyboard := b\<rparr>) = responses h" "responses (h\<lparr>clipboard := b\<rparr>) = responses h"
  "responses (h\<lparr>audio := b\<rparr>) = responses h" "responses (h\<lparr>file_allowed := b\<rparr>) = responses h"
  "responses (h\<lparr>restart := b\<rparr>) = responses h" "responses (h\<lparr>recording := b\<rparr>) = responses h"
  "responses (h\<lparr>block_input := b\<rparr>) = responses h"
  by (simp_all add: responses_def)

lemma responses_switch [simp]: "responses (apply_switch_permission env n en h) = responses h"
  by (simp add: apply_switch_permission_def send_permission_def subscribe_audio_def
      subscribe_file_clipboard_def revoke_remote_input_authorization_def Gate_revoke_def
      reset_platform_remote_input_state_def Let_def)

lemma responses_approve [simp]:
  "responses (approve_permission_request env i n en h) = responses h @ [SendResponse i n en True '''']"
  by (simp add: approve_permission_request_def grant_session_permission_def grant_session_connection_def
      split: option.split)

lemma responses_deny [simp]:
  "responses (deny_permission_request i n en r h) = responses h @ [SendResponse i n en False r]"
  by (simp add: deny_permission_request_def)

lemma cleanup_lookup_active:
  assumes "map_wf (pending_permission_requests h)" "map_of (pending_permission_requests h) i = Some p"
  shows "map_of (pending_permission_requests (cleanup_pending_permission_requests now h)) i =
    (if since now (requested_at p) < pending_timeout then Some p else None)"
  using assms by (simp add: cleanup_pending_permission_requests_def map_of_filter_wf)

lemma answer_pending:
  assumes "map_of (pending_permission_requests (cleanup_pending_permission_requests now h)) i = Some p"
  shows "pending_permission_requests (handle_permission_request_result env now i n en ok h) =
    AList.delete i (pending_permission_requests (cleanup_pending_permission_requests now h))"
  using assms
  by (simp add: handle_permission_request_result_def pending_permission_response_values_def Let_def
      approve_frame emit_frame deny_permission_request_def split: option.split)

lemma answer_unknown:
  assumes "map_of (pending_permission_requests h) i = None" "map_wf (pending_permission_requests h)"
  shows "responses (handle_permission_request_result env now i n en ok h) = responses h"
  using assms
  by (simp add: handle_permission_request_result_def cleanup_pending_permission_requests_def
      map_of_filter_wf)

text \<open>
  An open request is answered exactly once, with the name and the value that the peer
  asked for, not those of the answer: the answer of the local user sends one response that
  is positive only if the user approved and the device still permits it, the request is no
  longer pending, and a second answer to the same request sends nothing.
\<close>

theorem permission_answered_once:
  assumes wf: "distinct (map fst (pending_permission_requests h))"
    and p: "map_of (pending_permission_requests h) i = Some p" and t: "now < requested_at p + from_secs 120"
  shows "let h' = handle_permission_request_result env now i n en ok h in
    (\<exists>reason. responses h' = responses h @ [SendResponse i (req_name p) (req_enabled p)
            (ok \<and> permission_request_denial_reason env (req_name p) = None) reason])
    \<and> map_of (pending_permission_requests h') i = None
    \<and> responses (handle_permission_request_result env now' i n' en' ok' h') = responses h'"
proof -
  define h' where "h' = handle_permission_request_result env now i n en ok h"
  have act: "since now (requested_at p) < pending_timeout"
    using t by (simp add: since_def pending_timeout_def PENDING_PERMISSION_REQUEST_TIMEOUT_SECS_def from_secs_def)
  then have c: "map_of (pending_permission_requests (cleanup_pending_permission_requests now h)) i = Some p"
    using cleanup_lookup_active [OF wf p] by simp
  have pend: "pending_permission_requests h' =
      AList.delete i (pending_permission_requests (cleanup_pending_permission_requests now h))"
    unfolding h'_def by (rule answer_pending [OF c])
  have gone: "map_of (pending_permission_requests h') i = None"
    by (simp add: pend map_of_delete)
  moreover have "map_wf (pending_permission_requests h')"
    using wf by (simp add: pend map_wf_delete cleanup_pending_permission_requests_def map_wf_filter)
  ultimately have "responses (handle_permission_request_result env now' i n' en' ok' h') = responses h'"
    by (rule answer_unknown)
  moreover have "\<exists>reason. responses h' = responses h @ [SendResponse i (req_name p) (req_enabled p)
            (ok \<and> permission_request_denial_reason env (req_name p) = None) reason]"
    using act c
    by (auto simp: h'_def handle_permission_request_result_def pending_permission_response_values_def Let_def
        pending_timeout_def PENDING_PERMISSION_REQUEST_TIMEOUT_SECS_def cleanup_pending_permission_requests_def
        split: option.split)
  ultimately show ?thesis using gone by (simp add: h'_def [symmetric] Let_def)
qed

theorem permission_answered_once_witness:
  "(\<exists>reason. responses (handle_permission_request_result perm_demo_env 6 1 ''audio'' False True perm_demo_asked)
      = responses perm_demo_asked @ [SendResponse 1 ''clipboard'' True
            (True \<and> permission_request_denial_reason perm_demo_env ''clipboard'' = None) reason])
    \<and> map_of (pending_permission_requests
         (handle_permission_request_result perm_demo_env 6 1 ''audio'' False True perm_demo_asked)) 1 = None
    \<and> responses (handle_permission_request_result perm_demo_env 7 1 ''clipboard'' True True
         (handle_permission_request_result perm_demo_env 6 1 ''audio'' False True perm_demo_asked))
      = responses (handle_permission_request_result perm_demo_env 6 1 ''audio'' False True perm_demo_asked)"
  using permission_answered_once [of perm_demo_asked 1
      "\<lparr>req_name = ''clipboard'', req_enabled = True, requested_at = 5\<rparr>" 6 perm_demo_env "''audio''" False True
      7 "''clipboard''" True True]
  by (simp add: perm_demo_asked_frame from_secs_def Let_def)

text \<open>
  A request that the local user answers after its 120 seconds is dropped by the cleanup at
  the start of the handler: the branch that would send "Permission request expired." is not
  reached and the peer gets no response.
\<close>

lemma permission_expired_unanswered:
  assumes "distinct (map fst (pending_permission_requests h))"
    and "map_of (pending_permission_requests h) i = Some p" and "requested_at p + from_secs 120 \<le> now"
  shows "responses (handle_permission_request_result env now i n en ok h) = responses h
    \<and> map_of (pending_permission_requests (handle_permission_request_result env now i n en ok h)) i = None"
proof -
  have "map_of (pending_permission_requests (cleanup_pending_permission_requests now h)) i = None"
    using cleanup_lookup_active [OF assms(1,2), of now] assms(3)
    by (simp add: since_def pending_timeout_def PENDING_PERMISSION_REQUEST_TIMEOUT_SECS_def from_secs_def)
  then show ?thesis
    by (simp add: handle_permission_request_result_def cleanup_pending_permission_requests_def)
qed

text \<open>
  The local user's switch of the keyboard does not last: the next request of the peer turns
  it on again, without a prompt, in every kind of session.
\<close>

lemma keyboard_switch_undone_by_request:
  assumes "permission env OPTION_ENABLE_KEYBOARD" "i \<noteq> 0"
  shows "permitted Keyboard (handle_session_permission_request env now i ''keyboard'' True
           (handle_switch_permission env ''keyboard'' False h))"
proof -
  have "permission_request_denial_reason env ''keyboard'' = None"
    using assms by (simp add: permission_request_denial_reason_def switch_permission_from_name_def
        local_permission_enabled_for_request_def)
  moreover have "\<not> needs_approval ''keyboard'' True x" for x
    by (simp add: needs_approval_def permission_request_connection_type_def low_permission_default_def
        switch_permission_policy_denial_reason_with_grant_def)
  ultimately show ?thesis
    using assms(2)
    by (simp add: handle_session_permission_request_def approve_permission_request_def emit_frame
        permission_request_connection_type_def switch_permission_from_name_def permission_name_def)
qed

section \<open>Subscriptions\<close>

text \<open>The subscription of a service agrees with what the permissions allow.\<close>

definition subscribed_as_allowed :: "Env \<Rightarrow> Service \<Rightarrow> Host \<Rightarrow> bool" where
  "subscribed_as_allowed env s h = (case s of
     ClipboardService \<Rightarrow> subscriptions h s = can_sub_clipboard_service env h
   | FileClipboardService \<Rightarrow> subscriptions h s = can_sub_file_clipboard_service env h
   | CursorService \<Rightarrow> subscriptions h s = can_sub_cursor_tracking_services h
   | PosService \<Rightarrow> subscriptions h s = can_sub_cursor_tracking_services h
   | AudioService \<Rightarrow> subscriptions h s \<longrightarrow> audio_enabled h)"

lemmas allow_defs = can_sub_clipboard_service_def can_sub_file_clipboard_service_def
  can_sub_cursor_tracking_services_def audio_enabled_def clipboard_enabled_def peer_keyboard_enabled_def
  file_transfer_enabled_def is_authed_view_camera_conn_def

lemmas switch_defs = apply_switch_permission_def send_permission_def subscribe_audio_def
  subscribe_file_clipboard_def revoke_remote_input_authorization_def Gate_revoke_def
  reset_platform_remote_input_state_def subscribe_def emit_def

text \<open>
  Subscriptions follow the permissions: after a switch of any permission in an
  authorized connection, the text clipboard and the cursor services are subscribed exactly
  if the permissions allow them, and audio only if it is enabled; the file clipboard
  follows every switch but that of the clipboard.
\<close>

theorem permission_subscriptions_follow:
  assumes "server_alive env" and "unix_file_copy_paste env" and "authorized h"
    and "subscribed_as_allowed env s h" and "s = FileClipboardService \<Longrightarrow> n \<noteq> ''clipboard''"
  shows "subscribed_as_allowed env s (apply_switch_permission env n en h)"
proof (cases "switch_permission_from_name n")
  case None
  then have "apply_switch_permission env n en h = h"
    by (simp add: apply_switch_permission_def switch_permission_from_name_def split: if_splits)
  with assms(4) show ?thesis by simp
next
  case (Some p)
  then have n: "n = permission_name p" by (simp add: switch_permission_from_name_iff)
  show ?thesis
    using assms unfolding n
    by (cases p; cases s)
      (auto simp: permission_name_def switch_defs Let_def subscribed_as_allowed_def allow_defs)
qed

theorem permission_subscriptions_follow_witness:
  "subscribed_as_allowed perm_demo_env ClipboardService
     (apply_switch_permission perm_demo_env ''clipboard'' True perm_demo_host)"
proof (rule permission_subscriptions_follow)
  show "server_alive perm_demo_env" "unix_file_copy_paste perm_demo_env" by (simp_all add: perm_demo_env_def)
  show "authorized perm_demo_host"
    by (simp add: perm_demo_host_def perm_demo_raw_def apply_session_permission_defaults_def Let_def)
  show "subscribed_as_allowed perm_demo_env ClipboardService perm_demo_host"
    by (simp add: subscribed_as_allowed_def allow_defs perm_demo_host_def perm_demo_raw_def Let_def
        apply_session_permission_defaults_def session_default_permission_def low_permission_default_def
        is_unattended_access_def text_clipboard_allowed_def)
qed simp

text \<open>
  Switching the clipboard off leaves the file clipboard subscribed although the permissions
  no longer allow it.
\<close>

lemma file_clipboard_outlives_clipboard:
  assumes "subscriptions h FileClipboardService"
  shows "subscriptions (apply_switch_permission env ''clipboard'' False h) FileClipboardService
    \<and> \<not> can_sub_file_clipboard_service env (apply_switch_permission env ''clipboard'' False h)"
  using assms by (simp add: switch_defs allow_defs file_clipboard_allowed_def Let_def)

end
