(* ===== verification/NetAddr.thy ===== *)
theory NetAddr
  imports Prelude
begin

unbundle bit_operations_syntax

text \<open>
  IP addresses as the host counts them: \<open>IpAddr\<close> of the standard library, the canonical
  form of mapped addresses, and network prefixes.
\<close>

datatype IpAddr = V4 "32 word" | V6 "128 word"

text \<open>\<open>IpAddr::to_canonical\<close>: an IPv4-mapped address \<open>::ffff:a.b.c.d\<close> is its IPv4 address.\<close>

definition to_canonical :: "IpAddr \<Rightarrow> IpAddr" where
  "to_canonical ip = (case ip of
     V4 a \<Rightarrow> V4 a
   | V6 a \<Rightarrow> (if drop_bit 32 a = 65535 then V4 (ucast a) else V6 a))"

text \<open>\<open>mask_u128\<close> of \<^verbatim>\<open>connection.rs\<close>, the network of a prefix length.\<close>

definition mask_u128 :: "128 word \<Rightarrow> nat \<Rightarrow> 128 word" where
  "mask_u128 addr prefix =
     (let m = (if prefix = 0 \<or> prefix > 128 then 0 else push_bit (128 - prefix) (NOT 0))
      in addr AND m)"

lemma bit_mask_u128:
  "0 < p \<Longrightarrow> p \<le> 128 \<Longrightarrow> bit (mask_u128 a p) n \<longleftrightarrow> bit a n \<and> 128 - p \<le> n"
  by (auto simp: mask_u128_def Let_def bit_simps dest: bit_imp_le_length)

lemma mask_u128_idem: "0 < p \<Longrightarrow> p \<le> 128 \<Longrightarrow> mask_u128 (mask_u128 a p) p = mask_u128 a p"
  by (rule bit_word_eqI) (simp add: bit_mask_u128)

lemma mask_u128_coarser:
  "0 < p \<Longrightarrow> p \<le> q \<Longrightarrow> q \<le> 128 \<Longrightarrow> mask_u128 (mask_u128 a q) p = mask_u128 a p"
  by (rule bit_word_eqI) (auto simp add: bit_mask_u128)

end
