(* ===== verification/LoginGuard.thy ===== *)
theory LoginGuard
  imports NetAddr TextFormat
begin

text \<open>
  Protection against guessing, \<^verbatim>\<open>src/src/server/login_failure_check.rs\<close> and
  \<^verbatim>\<open>src/src/server/connection.rs\<close>: the backoff of logins with operating system credentials, the
  failure counters per address and per IPv6 prefix, and the rotation of the temporary
  password.

  The failure map of the code has strings as keys: the text of an address, or the text of
  a masked IPv6 address with its prefix length. \<open>FailureKey\<close> is what these strings denote.
  Counters are far below the range of \<open>i32\<close> (theorem \<open>login_guesses_bounded\<close>).
\<close>

section \<open>Operating system credentials\<close>

definition OS_CREDENTIAL_LOGIN_TOTAL_IDLE_RESET_MS :: int where
  "OS_CREDENTIAL_LOGIN_TOTAL_IDLE_RESET_MS = 120 * 60 * 1000"
definition OS_CREDENTIAL_LOGIN_BACKOFF_BASE_SECONDS :: int where
  "OS_CREDENTIAL_LOGIN_BACKOFF_BASE_SECONDS = 15"
definition OS_CREDENTIAL_LOGIN_BACKOFF_MAX_SECONDS :: int where
  "OS_CREDENTIAL_LOGIN_BACKOFF_MAX_SECONDS = 30 * 60"

lemmas os_consts = OS_CREDENTIAL_LOGIN_TOTAL_IDLE_RESET_MS_def
  OS_CREDENTIAL_LOGIN_BACKOFF_BASE_SECONDS_def OS_CREDENTIAL_LOGIN_BACKOFF_MAX_SECONDS_def

datatype FailureScope = DefaultScope | TerminalOsLogin

datatype AlarmAuditType =
  IpWhitelist | ExceedThirtyAttempts | SixAttemptsWithinOneMinute | ExceedIPv6PrefixAttempts
| TerminalOsLoginBackoff | TerminalOsLoginConcurrency

record OsCredentialPolicyDecision =
  allowed :: bool
  login_error :: "string option"
  audit :: "AlarmAuditType option"

record OsCredentialFailureState =
  total_failures :: int
  backoff_until_ms :: "int option"
  last_failure_ms :: "int option"

definition OsCredentialFailureState_default :: OsCredentialFailureState where
  "OsCredentialFailureState_default =
     \<lparr>total_failures = 0, backoff_until_ms = None, last_failure_ms = None\<rparr>"

definition is_os_credential_scope :: "FailureScope \<Rightarrow> bool" where
  "is_os_credential_scope s \<longleftrightarrow> s = TerminalOsLogin"

definition backoff_audit_type_for_scope :: "FailureScope \<Rightarrow> AlarmAuditType option" where
  "backoff_audit_type_for_scope s = (case s of
     TerminalOsLogin \<Rightarrow> Some TerminalOsLoginBackoff | DefaultScope \<Rightarrow> None)"

definition os_credential_login_backoff_seconds :: "int \<Rightarrow> int" where
  "os_credential_login_backoff_seconds n =
     (if n \<le> 2 then 0
      else (let e = min (n - 3) 7;
                seconds = OS_CREDENTIAL_LOGIN_BACKOFF_BASE_SECONDS * push_bit (nat e) 1
            in min seconds OS_CREDENTIAL_LOGIN_BACKOFF_MAX_SECONDS))"

definition normalize_backoff :: "int \<Rightarrow> OsCredentialFailureState \<Rightarrow> OsCredentialFailureState" where
  "normalize_backoff now_ms s =
     (case backoff_until_ms s of
        Some until \<Rightarrow> (if until \<le> now_ms then s\<lparr>backoff_until_ms := None\<rparr> else s)
      | None \<Rightarrow> s)"

definition reset_totals_on_idle :: "int \<Rightarrow> OsCredentialFailureState \<Rightarrow> OsCredentialFailureState" where
  "reset_totals_on_idle now_ms s =
     (case last_failure_ms s of
        Some last_ms \<Rightarrow>
          (if sat_i64 (now_ms - last_ms) \<ge> OS_CREDENTIAL_LOGIN_TOTAL_IDLE_RESET_MS
           then s\<lparr>total_failures := 0, backoff_until_ms := None, last_failure_ms := None\<rparr> else s)
      | None \<Rightarrow> s)"

definition allow_decision :: OsCredentialPolicyDecision where
  "allow_decision = \<lparr>allowed = True, login_error = None, audit = None\<rparr>"

definition block_decision :: "string \<Rightarrow> AlarmAuditType option \<Rightarrow> OsCredentialPolicyDecision" where
  "block_decision msg alarm = \<lparr>allowed = False, login_error = Some msg, audit = alarm\<rparr>"

definition remaining_seconds :: "int \<Rightarrow> int \<Rightarrow> int" where
  "remaining_seconds until now_ms = max ((max (until - now_ms) 0 + 999) div 1000) 1"

definition evaluate_os_credential_policy ::
  "FailureScope \<Rightarrow> int \<Rightarrow> OsCredentialFailureState
     \<Rightarrow> OsCredentialFailureState \<times> OsCredentialPolicyDecision" where
  "evaluate_os_credential_policy scope now_ms s0 =
     (if \<not> is_os_credential_scope scope then (s0, allow_decision)
      else
        (let s = normalize_backoff now_ms (reset_totals_on_idle now_ms s0)
         in case backoff_until_ms s of
              Some until \<Rightarrow>
                (let r = remaining_seconds until now_ms;
                     label = (if r = 1 then ''second'' else ''seconds'')
                 in (s, block_decision
                          (''Please try again in '' @ decimal (nat r) @ '' '' @ label @ ''.'')
                          (backoff_audit_type_for_scope scope)))
            | None \<Rightarrow> (s, allow_decision)))"

definition record_os_credential_failure ::
  "FailureScope \<Rightarrow> int \<Rightarrow> OsCredentialFailureState \<Rightarrow> OsCredentialFailureState" where
  "record_os_credential_failure scope now_ms s0 =
     (if \<not> is_os_credential_scope scope then s0
      else
        (let s = normalize_backoff now_ms (reset_totals_on_idle now_ms s0);
             n = min (total_failures s + 1) i32_max;
             s1 = s\<lparr>total_failures := n, last_failure_ms := Some now_ms\<rparr>;
             b = os_credential_login_backoff_seconds n
         in if b > 0 then s1\<lparr>backoff_until_ms := Some (now_ms + b * 1000)\<rparr> else s1))"

section \<open>Failures per address\<close>

datatype FailureKey = IpKey IpAddr | PrefixKey "128 word" nat

type_synonym failure = "int \<times> int \<times> int"
type_synonym failures = "FailureKey \<Rightarrow> failure option"

definition get_ipv6_prefixes :: "IpAddr \<Rightarrow> (FailureKey \<times> FailureKey \<times> FailureKey) option" where
  "get_ipv6_prefixes ip = (case ip of
     V4 _ \<Rightarrow> None
   | V6 a \<Rightarrow> Some (PrefixKey (mask_u128 a 64) 64, PrefixKey (mask_u128 a 56) 56, PrefixKey (mask_u128 a 48) 48))"

definition bump_failure_entry :: "failure \<Rightarrow> int \<Rightarrow> failure" where
  "bump_failure_entry cur time = (case cur of (t, c1, c2) \<Rightarrow>
     if t = time then (t, c1 + 1, c2 + 1) else (time, 1, c2 + 1))"

definition failure_of :: "failures \<Rightarrow> FailureKey \<Rightarrow> failure" where
  "failure_of m k = unwrap_or (m k) (0, 0, 0)"

definition bump :: "int \<Rightarrow> FailureKey \<Rightarrow> failures \<Rightarrow> failures" where
  "bump time k m = m(k \<mapsto> bump_failure_entry (failure_of m k) time)"

text \<open>\<open>update_failure_with_scope\<close> in the default scope, on the map of index \<open>i\<close>.\<close>

definition update_failure :: "IpAddr \<Rightarrow> failure \<Rightarrow> int \<Rightarrow> bool \<Rightarrow> failures \<Rightarrow> failures" where
  "update_failure ip snapshot time remove m =
     (if remove then
        (if fst snapshot \<noteq> 0 then
           (case get_ipv6_prefixes ip of
              Some (p64, p56, p48) \<Rightarrow> m(p64 := None, p56 := None, p48 := None, IpKey ip := None)
            | None \<Rightarrow> m(IpKey ip := None))
         else m)
      else
        (case get_ipv6_prefixes ip of
           Some (p64, p56, p48) \<Rightarrow> bump time (IpKey ip) (bump time p48 (bump time p56 (bump time p64 m)))
         | None \<Rightarrow> bump time (IpKey ip) m))"

definition update_failure_with_scope ::
  "IpAddr \<Rightarrow> failure \<Rightarrow> int \<Rightarrow> bool \<Rightarrow> FailureScope \<Rightarrow> int
     \<Rightarrow> failures \<times> OsCredentialFailureState \<Rightarrow> failures \<times> OsCredentialFailureState" where
  "update_failure_with_scope ip snapshot time remove scope now_ms st =
     (case scope of
        TerminalOsLogin \<Rightarrow>
          (if \<not> remove then (fst st, record_os_credential_failure scope now_ms (snd st)) else st)
      | DefaultScope \<Rightarrow> (update_failure ip snapshot time remove (fst st), snd st))"

definition check_failure_ipv6_prefix ::
  "FailureKey \<Rightarrow> nat \<Rightarrow> int \<Rightarrow> failures \<Rightarrow> (failure \<times> string \<times> AlarmAuditType) option" where
  "check_failure_ipv6_prefix k num thresh m =
     (let f = failure_of m k
      in if snd (snd f) > thresh
         then Some (f, ''Too many wrong attempts for IPv6 prefix /'' @ decimal num, ExceedIPv6PrefixAttempts)
         else None)"

text \<open>
  \<open>check_failure\<close>: the failure record found, whether the attempt may go on, and the login error with
  its alarm if not.
\<close>

type_synonym check_result = "failure \<times> bool \<times> (string \<times> AlarmAuditType) option"

definition check_address :: "IpAddr \<Rightarrow> int \<Rightarrow> failures \<Rightarrow> check_result" where
  "check_address ip time m =
     (let f = failure_of m (IpKey ip)
      in if snd (snd f) > 30 then (f, False, Some (''Too many wrong attempts'', ExceedThirtyAttempts))
         else if time = fst f \<and> fst (snd f) > 6
         then (f, False, Some (''Please try 1 minute later'', SixAttemptsWithinOneMinute))
         else (f, True, None))"

definition check_failure :: "IpAddr \<Rightarrow> int \<Rightarrow> failures \<Rightarrow> check_result" where
  "check_failure ip time m =
     (case get_ipv6_prefixes ip of
        None \<Rightarrow> check_address ip time m
      | Some (p64, p56, p48) \<Rightarrow>
          (case check_failure_ipv6_prefix p64 64 60 m of
             Some (f, e) \<Rightarrow> (f, False, Some e)
           | None \<Rightarrow>
               (case check_failure_ipv6_prefix p56 56 80 m of
                  Some (f, e) \<Rightarrow> (f, False, Some e)
                | None \<Rightarrow>
                    (case check_failure_ipv6_prefix p48 48 100 m of
                       Some (f, e) \<Rightarrow> (f, False, Some e)
                     | None \<Rightarrow> check_address ip time m))))"

definition check_failure_with_scope ::
  "IpAddr \<Rightarrow> FailureScope \<Rightarrow> int \<Rightarrow> int \<Rightarrow> failures \<times> OsCredentialFailureState
     \<Rightarrow> OsCredentialFailureState \<times> failure \<times> bool \<times> (string \<times> AlarmAuditType option) option" where
  "check_failure_with_scope ip scope time now_ms st =
     (case scope of
        TerminalOsLogin \<Rightarrow>
          (let (s, d) = evaluate_os_credential_policy scope now_ms (snd st)
           in (s, (0, 0, 0), allowed d, map_option (\<lambda>e. (e, audit d)) (login_error d)))
      | DefaultScope \<Rightarrow>
          (let (f, ok, e) = check_failure ip time (fst st)
           in (snd st, f, ok, map_option (\<lambda>(msg, a). (msg, Some a)) e)))"

section \<open>The temporary password\<close>

text \<open>
  The password store of \<open>hbb_common\<close> is a state \<open>'c\<close> with the functions \<open>temporary_enabled\<close>,
  \<open>temporary_password\<close> and \<open>update_temporary_password\<close>.
\<close>

record 'c PasswordStore =
  temporary_enabled :: "'c \<Rightarrow> bool"
  temporary_password :: "'c \<Rightarrow> string"
  update_temporary_password :: "'c \<Rightarrow> 'c"

record TempState =
  tp_password :: string
  tp_failures :: int

definition TempState_default :: TempState where
  "TempState_default = \<lparr>tp_password = '''', tp_failures = 0\<rparr>"

definition MAX_CONSECUTIVE_FAILURES :: int where
  "MAX_CONSECUTIVE_FAILURES = 10"

definition check_update_temporary_password ::
  "'c PasswordStore \<Rightarrow> bool \<Rightarrow> TempState \<times> 'c \<Rightarrow> TempState \<times> 'c" where
  "check_update_temporary_password ps ok st =
     (let (s0, c) = st in
      if \<not> temporary_enabled ps c then st
      else (let cur = temporary_password ps c in
            if cur = '''' then st
            else
              (let s = (if tp_password s0 \<noteq> cur then \<lparr>tp_password = cur, tp_failures = 0\<rparr> else s0)
               in if ok then (s\<lparr>tp_failures := 0\<rparr>, c)
                  else (let n = tp_failures s + 1
                        in if n < MAX_CONSECUTIVE_FAILURES then (s\<lparr>tp_failures := n\<rparr>, c)
                           else (let c1 = update_temporary_password ps c
                                 in (\<lparr>tp_password = temporary_password ps c1, tp_failures = 0\<rparr>, c1))))))"

section \<open>Backoff\<close>

lemma backoff_seconds_eq:
  "os_credential_login_backoff_seconds n =
     (if n \<le> 2 then 0 else min (15 * 2 ^ nat (min (n - 3) 7)) 1800)"
  by (simp add: os_credential_login_backoff_seconds_def os_consts push_bit_eq_mult Let_def)

lemma backoff_seconds_bounds:
  "0 \<le> os_credential_login_backoff_seconds n" "os_credential_login_backoff_seconds n \<le> 1800"
  "2 < n \<Longrightarrow> 15 \<le> os_credential_login_backoff_seconds n"
proof -
  have "(1 :: int) \<le> 2 ^ nat (min (n - 3) 7)" by simp
  then show "0 \<le> os_credential_login_backoff_seconds n" "os_credential_login_backoff_seconds n \<le> 1800"
    "2 < n \<Longrightarrow> 15 \<le> os_credential_login_backoff_seconds n"
    by (simp_all add: backoff_seconds_eq)
qed

lemma backoff_seconds_mono:
  assumes "m \<le> n"
  shows "os_credential_login_backoff_seconds m \<le> os_credential_login_backoff_seconds n"
proof (cases "m \<le> 2")
  case True
  then show ?thesis using backoff_seconds_bounds(1) [of n] by (simp add: os_credential_login_backoff_seconds_def)
next
  case False
  have "(2 :: int) ^ nat (min (m - 3) 7) \<le> 2 ^ nat (min (n - 3) 7)"
    by (rule power_increasing) (use assms in auto)
  then have "min (15 * 2 ^ nat (min (m - 3) 7)) 1800 \<le> min (15 * 2 ^ nat (min (n - 3) 7)) (1800 :: int)"
    by (intro min.mono) simp_all
  with False assms show ?thesis by (simp add: backoff_seconds_eq del: min.bounded_iff)
qed

text \<open>States of the failure counter: a backoff ends at most half an hour after the last failure.\<close>

definition os_inv :: "OsCredentialFailureState \<Rightarrow> bool" where
  "os_inv s \<longleftrightarrow> 0 \<le> total_failures s \<and> total_failures s \<le> i32_max
     \<and> (backoff_until_ms s \<noteq> None \<longrightarrow> 3 \<le> total_failures s \<and> last_failure_ms s \<noteq> None)"

lemma os_inv_normalize [simp]: "os_inv s \<Longrightarrow> os_inv (normalize_backoff now s)"
  by (simp add: os_inv_def normalize_backoff_def split: option.split)

lemma os_inv_reset [simp]: "os_inv s \<Longrightarrow> os_inv (reset_totals_on_idle now s)"
  by (auto simp add: os_inv_def reset_totals_on_idle_def split: option.split)

lemma os_inv_evaluate: "os_inv s \<Longrightarrow> os_inv (fst (evaluate_os_credential_policy sc now s))"
  by (simp add: evaluate_os_credential_policy_def Let_def split: option.split)

lemma os_inv_record:
  assumes "os_inv s" shows "os_inv (record_os_credential_failure sc now s)"
proof -
  have s: "os_inv (normalize_backoff now (reset_totals_on_idle now s))" using assms by simp
  have pos: "0 < os_credential_login_backoff_seconds n \<Longrightarrow> 3 \<le> n" for n
    by (simp add: os_credential_login_backoff_seconds_def split: if_splits)
  show ?thesis
    using assms s pos [of "min (total_failures (normalize_backoff now (reset_totals_on_idle now s)) + 1) i32_max"]
    by (auto simp: os_inv_def record_os_credential_failure_def Let_def)
qed

inductive os_step :: "OsCredentialFailureState \<Rightarrow> OsCredentialFailureState \<Rightarrow> bool" where
  failed: "os_step s (record_os_credential_failure sc now s)"
| evaluated: "os_step s (fst (evaluate_os_credential_policy sc now s))"

abbreviation os_reachable :: "OsCredentialFailureState \<Rightarrow> bool" where
  "os_reachable \<equiv> os_step\<^sup>*\<^sup>* OsCredentialFailureState_default"

interpretation os: invariant_machine "\<lambda>s. s = OsCredentialFailureState_default" os_step os_inv
proof unfold_locales
  show "os_inv s" if "s = OsCredentialFailureState_default" for s
    using that by (simp add: os_inv_def OsCredentialFailureState_default_def)
  show "os_inv t" if "os_inv s" "os_step s t" for s t
    using that(2,1) by cases (auto intro: os_inv_record os_inv_evaluate)
qed

lemma sat_i64_ge: "i64_min < c \<Longrightarrow> c \<le> i64_max \<Longrightarrow> c \<le> sat_i64 x \<longleftrightarrow> c \<le> x"
  by (auto simp add: sat_i64_def le_max_iff_disj)

text \<open>The state right after a failure.\<close>

lemma record_failure_state:
  assumes "os_inv s"
  shows "last_failure_ms (record_os_credential_failure TerminalOsLogin t s) = Some t"
    and "backoff_until_ms (record_os_credential_failure TerminalOsLogin t s) =
      (let b = os_credential_login_backoff_seconds
                 (total_failures (record_os_credential_failure TerminalOsLogin t s))
       in if b > 0 then Some (t + b * 1000) else None)"
proof -
  let ?s = "normalize_backoff t (reset_totals_on_idle t s)"
  let ?n = "min (total_failures ?s + 1) i32_max"
  have inv: "os_inv ?s" using assms by simp
  have "backoff_until_ms ?s = None" if "\<not> 0 < os_credential_login_backoff_seconds ?n"
  proof (rule ccontr)
    assume "backoff_until_ms ?s \<noteq> None"
    with inv have "2 < ?n" by (simp add: os_inv_def)
    from backoff_seconds_bounds(3) [OF this] that show False by linarith
  qed
  then show "last_failure_ms (record_os_credential_failure TerminalOsLogin t s) = Some t"
    "backoff_until_ms (record_os_credential_failure TerminalOsLogin t s) =
      (let b = os_credential_login_backoff_seconds
                 (total_failures (record_os_credential_failure TerminalOsLogin t s))
       in if b > 0 then Some (t + b * 1000) else None)"
    by (simp_all add: record_os_credential_failure_def is_os_credential_scope_def Let_def)
qed

lemma evaluate_after_failure:
  assumes s: "os_inv s" and t: "t \<le> now"
  defines "r \<equiv> record_os_credential_failure TerminalOsLogin t s"
  shows "allowed (snd (evaluate_os_credential_policy TerminalOsLogin now r))
    \<longleftrightarrow> t + os_credential_login_backoff_seconds (total_failures r) * 1000 \<le> now"
proof -
  let ?b = "os_credential_login_backoff_seconds (total_failures r)"
  have r: "last_failure_ms r = Some t" "backoff_until_ms r = (if ?b > 0 then Some (t + ?b * 1000) else None)"
    unfolding r_def using record_failure_state [OF s, of t] by (simp_all add: Let_def)
  have idle: "reset_totals_on_idle now r = (if t + 7200000 \<le> now
      then r\<lparr>total_failures := 0, backoff_until_ms := None, last_failure_ms := None\<rparr> else r)"
    using sat_i64_ge [of 7200000 "now - t"] by (simp add: reset_totals_on_idle_def r os_consts le_diff_eq add.commute)
  note b = backoff_seconds_bounds(1,2) [of "total_failures r"]
  show ?thesis
    using b t
    by (auto simp: evaluate_os_credential_policy_def is_os_credential_scope_def idle normalize_backoff_def
        r Let_def allow_decision_def block_decision_def split: option.split)
qed

text \<open>
  Backoff of operating system logins: after a failure at time \<open>t\<close> the next attempt is
  refused exactly until the backoff of the failure count has passed. The backoff is 0 for
  the first two failures, at least 15 seconds from the third on, never shorter after more
  failures, and at most half an hour.
\<close>

theorem os_credential_backoff:
  assumes "os_reachable s" and "t \<le> now"
  shows "let r = record_os_credential_failure TerminalOsLogin t s;
             b = os_credential_login_backoff_seconds (total_failures r)
         in (allowed (snd (evaluate_os_credential_policy TerminalOsLogin now r)) \<longleftrightarrow> t + b * 1000 \<le> now)
          \<and> (if total_failures r \<le> 2 then b = 0 else 15 \<le> b) \<and> b \<le> 1800
          \<and> b \<le> os_credential_login_backoff_seconds (total_failures r + 1)"
proof -
  have inv: "os_inv s" using os.inv_reachable [OF refl assms(1)] .
  let ?n = "total_failures (record_os_credential_failure TerminalOsLogin t s)"
  show ?thesis
    using evaluate_after_failure [OF inv assms(2)] backoff_seconds_bounds(2) [of ?n]
      backoff_seconds_bounds(3) [of ?n] backoff_seconds_mono [of ?n "?n + 1"]
    by (auto simp: Let_def os_credential_login_backoff_seconds_def [of ?n])
qed

theorem os_credential_backoff_witness:
  "let r = record_os_credential_failure TerminalOsLogin 5000 OsCredentialFailureState_default;
       b = os_credential_login_backoff_seconds (total_failures r)
   in (allowed (snd (evaluate_os_credential_policy TerminalOsLogin 6000 r)) \<longleftrightarrow> 5000 + b * 1000 \<le> 6000)
    \<and> (if total_failures r \<le> 2 then b = 0 else 15 \<le> b) \<and> b \<le> 1800
    \<and> b \<le> os_credential_login_backoff_seconds (total_failures r + 1)"
  by (rule os_credential_backoff) simp_all

section \<open>Counting guesses\<close>

definition failure_keys :: "IpAddr \<Rightarrow> FailureKey list" where
  "failure_keys ip = IpKey ip # (case get_ipv6_prefixes ip of None \<Rightarrow> []
     | Some (p64, p56, p48) \<Rightarrow> [p64, p56, p48])"

definition key_limit :: "FailureKey \<Rightarrow> int" where
  "key_limit k = (case k of IpKey _ \<Rightarrow> 30
     | PrefixKey _ n \<Rightarrow> if n = 64 then 60 else if n = 56 then 80 else 100)"

definition failed_attempts :: "failures \<Rightarrow> FailureKey \<Rightarrow> int" where
  "failed_attempts m k = snd (snd (failure_of m k))"

lemma key_limit_nonneg [simp]: "0 \<le> key_limit k"
  by (simp add: key_limit_def split: FailureKey.split)

lemma failed_attempts_bump [simp]:
  "failed_attempts (bump time k m) k' = failed_attempts m k' + (if k' = k then 1 else 0)"
  by (simp add: failed_attempts_def bump_def failure_of_def bump_failure_entry_def case_prod_beta)

lemma failed_attempts_wrong:
  "failed_attempts (update_failure ip f time False m) k =
     failed_attempts m k + (if k \<in> set (failure_keys ip) then 1 else 0)"
  by (cases ip) (auto simp: update_failure_def failure_keys_def get_ipv6_prefixes_def)

lemma failed_attempts_right:
  "failed_attempts (update_failure ip f time True m) k =
     (if fst f \<noteq> 0 \<and> k \<in> set (failure_keys ip) then 0 else failed_attempts m k)"
  by (cases ip) (auto simp: update_failure_def failure_keys_def get_ipv6_prefixes_def
      failed_attempts_def failure_of_def)

lemma check_passes:
  assumes "check_failure ip time m = (f, True, e)" "k \<in> set (failure_keys ip)"
  shows "failed_attempts m k \<le> key_limit k"
  using assms
  by (cases ip)
    (auto simp: check_failure_def failure_keys_def get_ipv6_prefixes_def check_failure_ipv6_prefix_def
      check_address_def failed_attempts_def key_limit_def Let_def split: if_splits option.splits)

text \<open>
  The login attempts of all connections on one failure map. A connection whose check passed tests its
  guess and then records the verdict; up to \<open>K\<close> connections are in between. \<open>wrong_guesses\<close> counts the
  wrong verdicts of a key since the last right one.
\<close>

record LoginSystem =
  counters :: failures
  testing :: "(IpAddr \<times> failure \<times> int) list"
  wrong_guesses :: "FailureKey \<Rightarrow> nat"

definition LoginSystem_initial :: LoginSystem where
  "LoginSystem_initial = \<lparr>counters = (\<lambda>_. None), testing = [], wrong_guesses = (\<lambda>_. 0)\<rparr>"

inductive login_step :: "nat \<Rightarrow> LoginSystem \<Rightarrow> LoginSystem \<Rightarrow> bool" for K where
  check: "check_failure ip time (counters s) = (f, True, e) \<Longrightarrow> length (testing s) < K
     \<Longrightarrow> login_step K s (s\<lparr>testing := (ip, f, time) # testing s\<rparr>)"
| blocked: "check_failure ip time (counters s) = (f, False, e) \<Longrightarrow> login_step K s s"
| wrong: "(ip, f, time) \<in> set (testing s)
     \<Longrightarrow> login_step K s (s\<lparr>testing := remove1 (ip, f, time) (testing s),
           counters := update_failure ip f time False (counters s),
           wrong_guesses := (\<lambda>k. if k \<in> set (failure_keys ip) then wrong_guesses s k + 1
                                 else wrong_guesses s k)\<rparr>)"
| right: "(ip, f, time) \<in> set (testing s)
     \<Longrightarrow> login_step K s (s\<lparr>testing := remove1 (ip, f, time) (testing s),
           counters := update_failure ip f time True (counters s),
           wrong_guesses := (\<lambda>k. if k \<in> set (failure_keys ip) then 0 else wrong_guesses s k)\<rparr>)"
| closed: "a \<in> set (testing s) \<Longrightarrow> login_step K s (s\<lparr>testing := remove1 a (testing s)\<rparr>)"

definition under_test :: "FailureKey \<Rightarrow> (IpAddr \<times> failure \<times> int) list \<Rightarrow> nat" where
  "under_test k ts = length (filter (\<lambda>a. k \<in> set (failure_keys (fst a))) ts)"

definition guess_inv :: "nat \<Rightarrow> LoginSystem \<Rightarrow> bool" where
  "guess_inv K s \<longleftrightarrow> length (testing s) \<le> K \<and> (\<forall>k.
     int (wrong_guesses s k) \<le> failed_attempts (counters s) k
     \<and> failed_attempts (counters s) k + int (under_test k (testing s)) \<le> key_limit k + int K)"

lemma under_test_le: "under_test k ts \<le> length ts"
  by (simp add: under_test_def)

lemma under_test_Cons [simp]:
  "under_test k (a # ts) = under_test k ts + (if k \<in> set (failure_keys (fst a)) then 1 else 0)"
  by (simp add: under_test_def)

lemma under_test_remove:
  "a \<in> set ts \<Longrightarrow> under_test k ts = under_test k (remove1 a ts) + (if k \<in> set (failure_keys (fst a)) then 1 else 0)"
  by (induction ts) auto

lemma guess_inv_step:
  assumes "login_step K s t" and inv: "guess_inv K s"
  shows "guess_inv K t"
  using assms(1)
proof cases
  case (check ip time f e)
  have "failed_attempts (counters s) k + int (under_test k ((ip, f, time) # testing s)) \<le> key_limit k + int K" for k
  proof (cases "k \<in> set (failure_keys ip)")
    case True
    with check under_test_le [of k "testing s"] check_passes [OF check(2) True] show ?thesis by simp
  qed (use inv in \<open>simp add: guess_inv_def\<close>)
  with inv check show ?thesis by (simp add: guess_inv_def)
next
  case (blocked ip time f e)
  with inv show ?thesis by simp
next
  case (wrong ip f time)
  have "length (remove1 (ip, f, time) (testing s)) \<le> K"
    using inv by (auto simp add: guess_inv_def length_remove1)
  moreover have "int (wrong_guesses s k) \<le> failed_attempts (counters s) k" for k
    using inv by (simp add: guess_inv_def)
  moreover have "failed_attempts (update_failure ip f time False (counters s)) k
      + int (under_test k (remove1 (ip, f, time) (testing s))) \<le> key_limit k + int K" for k
  proof -
    have "failed_attempts (counters s) k + int (under_test k (testing s)) \<le> key_limit k + int K"
      using inv by (simp add: guess_inv_def)
    then show ?thesis
      by (cases "k \<in> set (failure_keys ip)")
        (simp_all add: failed_attempts_wrong under_test_remove [OF wrong(2), of k])
  qed
  ultimately show ?thesis
    by (simp add: wrong(1) guess_inv_def) (simp add: failed_attempts_wrong)
next
  case (right ip f time)
  have len: "length (remove1 (ip, f, time) (testing s)) \<le> K"
    using inv by (auto simp add: guess_inv_def length_remove1)
  have "int (under_test k (remove1 (ip, f, time) (testing s))) \<le> key_limit k + int K" for k
    using under_test_le [of k "remove1 (ip, f, time) (testing s)"] len key_limit_nonneg [of k] by linarith
  moreover have "int (wrong_guesses s k) \<le> failed_attempts (counters s) k
     \<and> failed_attempts (counters s) k + int (under_test k (remove1 (ip, f, time) (testing s))) \<le> key_limit k + int K"
    for k
    using inv under_test_remove [OF right(2), of k] by (auto simp: guess_inv_def dest: spec [of _ k])
  moreover have "0 \<le> failed_attempts (counters s) k" for k
    using calculation(2) [of k] by linarith
  ultimately show ?thesis
    using len by (auto simp add: right(1) guess_inv_def failed_attempts_right)
next
  case (closed a)
  have "int (wrong_guesses s k) \<le> failed_attempts (counters s) k
     \<and> failed_attempts (counters s) k + int (under_test k (remove1 a (testing s))) \<le> key_limit k + int K" for k
    using inv under_test_remove [OF closed(2), of k] by (auto simp: guess_inv_def dest: spec [of _ k])
  then show ?thesis using inv closed by (auto simp add: guess_inv_def length_remove1)
qed

interpretation lg: invariant_machine "\<lambda>s. s = LoginSystem_initial" "login_step K" "guess_inv K" for K
proof unfold_locales
  show "guess_inv K s" if "s = LoginSystem_initial" for s
    using that by (simp add: guess_inv_def LoginSystem_initial_def failed_attempts_def failure_of_def under_test_def)
  show "guess_inv K t" if "guess_inv K s" "login_step K s t" for s t
    using that by (blast intro: guess_inv_step)
qed

text \<open>
  C7. Guesses are bounded: with at most \<open>K\<close> connections between their check and their
  verdict, never more than \<open>30 + K\<close> wrong guesses are tested from an address since its last
  right one, and for IPv6 never more than \<open>60 + K\<close>, \<open>80 + K\<close> and \<open>100 + K\<close> from its /64, /56
  and /48 networks, whatever the addresses, times and interleaving.
\<close>

theorem login_guesses_bounded:
  assumes "(login_step K)\<^sup>*\<^sup>* LoginSystem_initial s"
  shows "wrong_guesses s (IpKey ip) \<le> 30 + K \<and> wrong_guesses s (PrefixKey n 64) \<le> 60 + K
    \<and> wrong_guesses s (PrefixKey n 56) \<le> 80 + K \<and> wrong_guesses s (PrefixKey n 48) \<le> 100 + K"
proof -
  have "guess_inv K s" using lg.inv_reachable [OF refl assms] .
  then have "int (wrong_guesses s k) \<le> key_limit k + int K" for k
    by (auto simp: guess_inv_def dest: spec [of _ k])
  from this [of "IpKey ip"] this [of "PrefixKey n 64"] this [of "PrefixKey n 56"] this [of "PrefixKey n 48"]
  show ?thesis by (simp add: key_limit_def)
qed

definition login_demo :: LoginSystem where
  "login_demo = LoginSystem_initial
     \<lparr>counters := update_failure (V4 1) (0, 0, 0) 7 False (\<lambda>_. None),
      wrong_guesses := (\<lambda>k. if k \<in> set (failure_keys (V4 1)) then 1 else 0)\<rparr>"

theorem login_guesses_bounded_witness:
  "wrong_guesses login_demo (IpKey (V4 1)) \<le> 30 + 1 \<and> wrong_guesses login_demo (PrefixKey 0 64) \<le> 60 + 1
    \<and> wrong_guesses login_demo (PrefixKey 0 56) \<le> 80 + 1 \<and> wrong_guesses login_demo (PrefixKey 0 48) \<le> 100 + 1"
proof (rule login_guesses_bounded)
  let ?t = "LoginSystem_initial\<lparr>testing := [(V4 1, (0, 0, 0), 7)]\<rparr>"
  have "login_step 1 LoginSystem_initial ?t"
    using login_step.check [of "V4 1" 7 LoginSystem_initial "(0, 0, 0)" None 1]
    by (simp add: LoginSystem_initial_def check_failure_def get_ipv6_prefixes_def check_address_def failure_of_def Let_def)
  moreover have "login_step 1 ?t login_demo"
    using login_step.wrong [of "V4 1" "(0, 0, 0)" 7 ?t 1]
    by (simp add: login_demo_def LoginSystem_initial_def cong: if_cong)
  ultimately show "(login_step 1)\<^sup>*\<^sup>* LoginSystem_initial login_demo"
    by (rule converse_rtranclp_into_rtranclp [OF _ r_into_rtranclp])
qed

section \<open>Rotation of the temporary password\<close>

definition temp_inv :: "TempState \<times> 'c \<Rightarrow> bool" where
  "temp_inv st \<longleftrightarrow> 0 \<le> tp_failures (fst st) \<and> tp_failures (fst st) < MAX_CONSECUTIVE_FAILURES"

lemma temp_inv_step: "temp_inv st \<Longrightarrow> temp_inv (check_update_temporary_password ps ok st)"
  by (auto simp: temp_inv_def check_update_temporary_password_def MAX_CONSECUTIVE_FAILURES_def Let_def
      case_prod_beta)

lemma temp_wrong:
  assumes "temporary_enabled ps c" "temporary_password ps c \<noteq> ''''" "tp_password s = temporary_password ps c"
    "tp_failures s + 1 < MAX_CONSECUTIVE_FAILURES"
  shows "check_update_temporary_password ps False (s, c) = (s\<lparr>tp_failures := tp_failures s + 1\<rparr>, c)"
  using assms by (simp add: check_update_temporary_password_def Let_def)

lemma temp_wrong_iter:
  assumes "temporary_enabled ps c" "temporary_password ps c \<noteq> ''''" "tp_password s = temporary_password ps c"
    "tp_failures s + int n < MAX_CONSECUTIVE_FAILURES"
  shows "(check_update_temporary_password ps False ^^ n) (s, c) = (s\<lparr>tp_failures := tp_failures s + int n\<rparr>, c)"
  using assms(4)
proof (induction n)
  case (Suc n)
  then show ?case
    using temp_wrong [OF assms(1,2), of "s\<lparr>tp_failures := tp_failures s + int n\<rparr>"] assms(3) by simp
qed simp

lemma temp_rotate:
  assumes "temporary_enabled ps c" "temporary_password ps c \<noteq> ''''" "tp_password s = temporary_password ps c"
    "tp_failures s + 1 = MAX_CONSECUTIVE_FAILURES"
  shows "snd (check_update_temporary_password ps False (s, c)) = update_temporary_password ps c"
  using assms by (simp add: check_update_temporary_password_def Let_def)

lemma temp_fresh:
  assumes "temporary_enabled ps c" "temporary_password ps c \<noteq> ''''" "tp_password s \<noteq> temporary_password ps c"
  shows "check_update_temporary_password ps False (s, c) =
    check_update_temporary_password ps False (\<lparr>tp_password = temporary_password ps c, tp_failures = 0\<rparr>, c)"
  using assms by (simp add: check_update_temporary_password_def Let_def)

definition attempts_left :: "'c PasswordStore \<Rightarrow> TempState \<times> 'c \<Rightarrow> nat" where
  "attempts_left ps st = nat (MAX_CONSECUTIVE_FAILURES -
     (if tp_password (fst st) = temporary_password ps (snd st) then tp_failures (fst st) else 0))"

lemma temp_rotates_known:
  assumes en: "temporary_enabled ps c" "temporary_password ps c \<noteq> ''''"
    and pw: "tp_password s = temporary_password ps c" and inv: "temp_inv (s, c)"
  shows "n < attempts_left ps (s, c) \<Longrightarrow> snd ((check_update_temporary_password ps False ^^ n) (s, c)) = c"
    and "snd ((check_update_temporary_password ps False ^^ attempts_left ps (s, c)) (s, c)) =
      update_temporary_password ps c"
proof -
  let ?f = "check_update_temporary_password ps False"
  have left: "attempts_left ps (s, c) = nat (MAX_CONSECUTIVE_FAILURES - tp_failures s)"
    using pw by (simp add: attempts_left_def)
  show "snd ((?f ^^ n) (s, c)) = c" if "n < attempts_left ps (s, c)"
    using temp_wrong_iter [OF en pw, of n] that left by simp
  define k where "k = nat (MAX_CONSECUTIVE_FAILURES - tp_failures s - 1)"
  have k: "attempts_left ps (s, c) = Suc k"
    using inv left Suc_nat_eq_nat_zadd1 [of "MAX_CONSECUTIVE_FAILURES - tp_failures s - 1"]
    by (simp add: temp_inv_def k_def)
  have sum: "tp_failures s + int k + 1 = MAX_CONSECUTIVE_FAILURES"
    using k left by linarith
  have "(?f ^^ k) (s, c) = (s\<lparr>tp_failures := tp_failures s + int k\<rparr>, c)"
    using temp_wrong_iter [OF en pw, of k] sum by simp
  then show "snd ((?f ^^ attempts_left ps (s, c)) (s, c)) = update_temporary_password ps c"
    using temp_rotate [OF en, of "s\<lparr>tp_failures := tp_failures s + int k\<rparr>"] pw sum by (simp add: k)
qed

inductive temp_step :: "'c PasswordStore \<Rightarrow> TempState \<times> 'c \<Rightarrow> TempState \<times> 'c \<Rightarrow> bool" for ps where
  attempt: "temp_step ps st (check_update_temporary_password ps ok st)"
| changed: "temp_step ps (s, c) (s, c')"

interpretation tp: invariant_machine "\<lambda>st. fst st = TempState_default" "temp_step ps" temp_inv
  for ps :: "'c PasswordStore"
proof unfold_locales
  show "temp_inv st" if "fst st = TempState_default" for st :: "TempState \<times> 'c"
    using that by (simp add: temp_inv_def TempState_default_def MAX_CONSECUTIVE_FAILURES_def)
  show "temp_inv t" if "temp_inv st" "temp_step ps st t" for st t :: "TempState \<times> 'c"
    using that(2,1)
  proof cases
    case (attempt ok) then show ?thesis using that(1) by (simp add: temp_inv_step)
  next
    case (changed s c c') then show ?thesis using that(1) by (simp add: temp_inv_def)
  qed
qed

text \<open>
  A temporary password is rotated after at most ten consecutive wrong attempts: from
  every reachable state with a temporary password in use there is a number of wrong
  attempts, ten or less and ten for a password not tried before, before which the password
  store is unchanged and after which the code has requested a new password.
\<close>

theorem temporary_password_rotates:
  assumes "(temp_step ps)\<^sup>*\<^sup>* (TempState_default, c0) (s, c)"
    and en: "temporary_enabled ps c" "temporary_password ps c \<noteq> ''''"
  shows "attempts_left ps (s, c) \<in> {1..10}
    \<and> (tp_password s \<noteq> temporary_password ps c \<longrightarrow> attempts_left ps (s, c) = 10)
    \<and> (\<forall>n < attempts_left ps (s, c). snd ((check_update_temporary_password ps False ^^ n) (s, c)) = c)
    \<and> snd ((check_update_temporary_password ps False ^^ attempts_left ps (s, c)) (s, c))
      = update_temporary_password ps c"
proof -
  let ?f = "check_update_temporary_password ps False"
  have inv: "temp_inv (s, c)" using tp.inv_reachable [OF _ assms(1)] by simp
  have left: "attempts_left ps (s, c) \<in> {1..10}"
    "tp_password s \<noteq> temporary_password ps c \<longrightarrow> attempts_left ps (s, c) = 10"
    using inv by (auto simp: temp_inv_def attempts_left_def MAX_CONSECUTIVE_FAILURES_def)
  show ?thesis
  proof (cases "tp_password s = temporary_password ps c")
    case True
    with temp_rotates_known [OF en True inv] left show ?thesis by blast
  next
    case False
    let ?s = "\<lparr>tp_password = temporary_password ps c, tp_failures = 0\<rparr>"
    have inv': "temp_inv (?s, c)" by (simp add: temp_inv_def MAX_CONSECUTIVE_FAILURES_def)
    have ten: "attempts_left ps (?s, c) = 10" by (simp add: attempts_left_def MAX_CONSECUTIVE_FAILURES_def)
    have same: "(?f ^^ n) (s, c) = (?f ^^ n) (?s, c)" if "n \<noteq> 0" for n
      using temp_fresh [OF en False] that by (cases n) (simp_all add: funpow_Suc_right del: funpow.simps)
    have "snd ((?f ^^ n) (s, c)) = c" if "n < 10" for n
      using same [of n] temp_rotates_known(1) [OF en _ inv', of n] ten that by (cases "n = 0") auto
    moreover have "snd ((?f ^^ 10) (s, c)) = update_temporary_password ps c"
      using same [of 10] temp_rotates_known(2) [OF en _ inv'] ten by simp
    ultimately show ?thesis using left False by auto
  qed
qed

definition temp_demo_store :: "nat PasswordStore" where
  "temp_demo_store = \<lparr>temporary_enabled = (\<lambda>_. True), temporary_password = (\<lambda>n. [char_of (97 + n mod 26)]),
     update_temporary_password = Suc\<rparr>"

theorem temporary_password_rotates_witness:
  "attempts_left temp_demo_store (TempState_default, 0) = 10
    \<and> snd ((check_update_temporary_password temp_demo_store False ^^ 9) (TempState_default, 0)) = 0
    \<and> snd ((check_update_temporary_password temp_demo_store False ^^ 10) (TempState_default, 0)) = 1"
proof -
  have en: "temporary_enabled temp_demo_store 0" "temporary_password temp_demo_store 0 \<noteq> []"
    "tp_password TempState_default \<noteq> temporary_password temp_demo_store 0" "update_temporary_password temp_demo_store 0 = 1"
    by (simp_all add: temp_demo_store_def TempState_default_def)
  note r = temporary_password_rotates [OF rtranclp.rtrancl_refl en(1,2)]
  have ten: "attempts_left temp_demo_store (TempState_default, 0) = 10" using r en(3) by blast
  have "snd ((check_update_temporary_password temp_demo_store False ^^ 9) (TempState_default, 0)) = 0"
    using r unfolding ten by (simp del: funpow.simps)
  moreover have "snd ((check_update_temporary_password temp_demo_store False ^^ 10) (TempState_default, 0)) = 1"
    using r unfolding ten en(4) by (simp del: funpow.simps)
  ultimately show ?thesis using ten by blast
qed

end
