(* ===== verification/LoginFlow.thy ===== *)
theory LoginFlow
  imports PermissionFlow LoginGuard
begin

text \<open>
  How a connection becomes authorized, \<^verbatim>\<open>src/src/server/connection.rs\<close>: login requests with their
  passwords, recent sessions, the second factor, switching sides and the approval by click,
  up to the point where the connection is entered among the authorized ones.

  The model is the macOS build, where the login path has no headless session and no Windows
  credentials. What the code reads from \<open>hbb_common\<close> and from third-party crates is in
  \<open>LoginEnv\<close>: the hash function, the settings, the check of a one-time code, the trusted
  devices, whether a port-forward target can be reached. The instant \<open>now\<close> of a handler is its
  clock.
\<close>

section \<open>State\<close>

type_synonym bytes = "8 word list"

definition as_bytes :: "string \<Rightarrow> bytes" where
  "as_bytes s = map (\<lambda>c. word_of_nat (of_char c)) s"

datatype LoginUnion =
  LoginFileTransfer string bool | LoginViewCamera | LoginTerminal string | LoginPortForward string nat | LoginOther

record LoginRequest =
  lr_username :: string
  lr_my_id :: string
  lr_my_name :: string
  lr_my_platform :: string
  lr_session_id :: nat
  lr_password :: bytes
  lr_hwid :: bytes
  lr_union :: LoginUnion
  lr_new_version :: bool

record TrustedDevice =
  td_hwid :: bytes
  td_id :: string
  td_name :: string
  td_platform :: string
  td_outdate :: bool

datatype ApproveMode = ApproveBoth | ApprovePassword | ApproveClick

record ('c, 't) LoginEnv =
  penv :: Env
  sha256 :: "bytes \<Rightarrow> bytes"
  hash_salt :: string
  hash_challenge :: string
  password_store :: "'c PasswordStore"
  permanent_enabled :: bool
  decode_h1 :: "string \<Rightarrow> bytes option"
  local_storage :: string
  hard_password :: string
  approve_mode :: ApproveMode
  has_valid_password :: bool
  allow_logon_screen_password :: bool
  username_accepted :: "string \<Rightarrow> bool"
  in_privacy_mode :: bool
  enable_trusted_devices :: bool
  trusted_devices :: "TrustedDevice list"
  check_current :: "'t \<Rightarrow> string \<Rightarrow> bool option"
  service_specified_user :: "string \<Rightarrow> bool option"
  connects :: "string \<Rightarrow> bool"

datatype LoginOutput = LoginError string | StartCm bool | StartCmIpc | AddTrustedDevice bytes

record ('c, 't) LoginState =
  host :: Host
  lr :: LoginRequest
  ip :: IpAddr
  require_2fa :: "'t option"
  from_switch :: bool
  terminal_user_token :: bool
  terminal_service_id :: string
  password_failures :: failures
  tfa_failures :: failures
  temporary_failures :: TempState
  store :: 'c
  switch_sides_uuid :: "(string \<times> (instant \<times> string)) list"
  login_sent :: "LoginOutput list"

definition upd_host :: "(Host \<Rightarrow> Host) \<Rightarrow> ('c, 't) LoginState \<Rightarrow> ('c, 't) LoginState" where
  "upd_host f s = s\<lparr>host := f (host s)\<rparr>"

definition login_emit :: "LoginOutput \<Rightarrow> ('c, 't) LoginState \<Rightarrow> ('c, 't) LoginState" where
  "login_emit x s = s\<lparr>login_sent := login_sent s @ [x]\<rparr>"

section \<open>Passwords\<close>

text \<open>The loop of \<open>constant_time_eq\<close>: the accumulated difference of two byte strings.\<close>

unbundle bit_operations_syntax

fun xor_acc :: "8 word \<Rightarrow> bytes \<Rightarrow> bytes \<Rightarrow> 8 word" where
  "xor_acc x (a # as) (b # bs) = xor_acc (x OR (a XOR b)) as bs"
| "xor_acc x _ _ = x"

definition constant_time_eq :: "bytes \<Rightarrow> bytes \<Rightarrow> bool" where
  "constant_time_eq a b = (if length a \<noteq> length b then False else xor_acc 0 a b = 0)"

definition verify_h1 :: "('c, 't) LoginEnv \<Rightarrow> bytes \<Rightarrow> ('c, 't) LoginState \<Rightarrow> bool" where
  "verify_h1 env h1 s =
     constant_time_eq (sha256 env (h1 @ as_bytes (hash_challenge env))) (lr_password (lr s))"

definition validate_password_plain :: "('c, 't) LoginEnv \<Rightarrow> string \<Rightarrow> ('c, 't) LoginState \<Rightarrow> bool" where
  "validate_password_plain env pw s =
     (if pw = '''' then False
      else verify_h1 env (sha256 env (as_bytes pw @ as_bytes (hash_salt env))) s)"

definition validate_password_storage :: "('c, 't) LoginEnv \<Rightarrow> string \<Rightarrow> ('c, 't) LoginState \<Rightarrow> bool" where
  "validate_password_storage env st s =
     (if st = '''' then False
      else (case decode_h1 env st of
              Some h1 \<Rightarrow> verify_h1 env h1 s
            | None \<Rightarrow> validate_password_plain env st s))"

section \<open>Sessions\<close>

definition SESSION_TIMEOUT :: duration where
  "SESSION_TIMEOUT = from_secs 30"

definition update_or_insert_session ::
  "instant \<Rightarrow> SessionKey \<Rightarrow> string option \<Rightarrow> bool option \<Rightarrow> SessionAuthKind option
     \<Rightarrow> (SessionKey \<times> Session) list \<Rightarrow> (SessionKey \<times> Session) list" where
  "update_or_insert_session now k pw tf ak ss =
     (case map_of ss k of
        Some s \<Rightarrow>
          (let s1 = (case pw of Some p \<Rightarrow> s\<lparr>random_password := p\<rparr> | None \<Rightarrow> s);
               s2 = (case tf of Some t \<Rightarrow> s1\<lparr>tfa := t\<rparr> | None \<Rightarrow> s1);
               s3 = (case ak of Some a \<Rightarrow> s2\<lparr>auth_kind := a\<rparr> | None \<Rightarrow> s2)
           in AList.update k s3 ss)
      | None \<Rightarrow> AList.update k
          \<lparr>last_recv_time = now, random_password = unwrap_or pw '''', tfa = unwrap_or tf False,
           auth_kind = unwrap_or ak Unknown,
           grants = \<lparr>g_permissions = {}, g_connection_types = {}\<rparr>\<rparr> ss)"

definition set_session_2fa ::
  "instant \<Rightarrow> SessionKey \<Rightarrow> SessionAuthKind \<Rightarrow> (SessionKey \<times> Session) list \<Rightarrow> (SessionKey \<times> Session) list" where
  "set_session_2fa now k ak ss =
     (case map_of ss k of
        Some s \<Rightarrow> AList.update k (s\<lparr>tfa := True, auth_kind := ak\<rparr>) ss
      | None \<Rightarrow> AList.update k
          \<lparr>last_recv_time = now, random_password = '''', tfa = True, auth_kind = ak,
           grants = \<lparr>g_permissions = {}, g_connection_types = {}\<rparr>\<rparr> ss)"

definition update_or_insert_session_auth ::
  "instant \<Rightarrow> SessionAuthKind \<Rightarrow> string option \<Rightarrow> bool option \<Rightarrow> ('c, 't) LoginState \<Rightarrow> ('c, 't) LoginState" where
  "update_or_insert_session_auth now ak pw tf =
     upd_host (\<lambda>h. h\<lparr>session_auth_kind := ak,
       sessions := update_or_insert_session now (session_key h) pw tf (Some ak) (sessions h)\<rparr>)"

definition login_check_update_temporary_password ::
  "('c, 't) LoginEnv \<Rightarrow> bool \<Rightarrow> ('c, 't) LoginState \<Rightarrow> ('c, 't) LoginState" where
  "login_check_update_temporary_password env ok s =
     (let (ts, c) = check_update_temporary_password (password_store env) ok (temporary_failures s, store s)
      in s\<lparr>temporary_failures := ts, store := c\<rparr>)"

definition validate_password ::
  "('c, 't) LoginEnv \<Rightarrow> instant \<Rightarrow> bool \<Rightarrow> ('c, 't) LoginState \<Rightarrow> ('c, 't) LoginState \<times> bool" where
  "validate_password env now allow_permanent s =
     (let ps = password_store env; pw = temporary_password ps (store s) in
      if temporary_enabled ps (store s) \<and> validate_password_plain env pw s
      then (login_check_update_temporary_password env True
              (update_or_insert_session_auth now OneTimePassword (Some pw) (Some False) s), True)
      else if permanent_enabled env \<or> allow_permanent
      then (if local_storage env \<noteq> ''''
            then (if validate_password_storage env (local_storage env) s
                  then (update_or_insert_session_auth now UnattendedPassword None None s, True)
                  else (s, False))
            else (if hard_password env \<noteq> '''' \<and> validate_password_plain env (hard_password env) s
                  then (update_or_insert_session_auth now UnattendedPassword None None s, True)
                  else (s, False)))
      else (s, False))"

definition is_recent_session ::
  "('c, 't) LoginEnv \<Rightarrow> instant \<Rightarrow> bool \<Rightarrow> ('c, 't) LoginState \<Rightarrow> ('c, 't) LoginState \<times> bool" where
  "is_recent_session env now with_tfa s0 =
     (let s = upd_host (\<lambda>h. h\<lparr>sessions :=
            filter (\<lambda>(k, x). since now (last_recv_time x) < SESSION_TIMEOUT) (sessions h)\<rparr>) s0
      in case map_of (sessions (host s)) (session_key (host s)) of
           Some x \<Rightarrow>
             (if lr_password (lr s) \<noteq> []
                 \<and> (with_tfa \<and> tfa x \<or> \<not> with_tfa \<and> validate_password_plain env (random_password x) s)
              then (upd_host (\<lambda>h. h\<lparr>session_auth_kind := auth_kind x\<rparr>) s, True)
              else (s, False))
         | None \<Rightarrow> (s, False))"

section \<open>Authorization\<close>

definition normalize_port_forward_target :: "string \<Rightarrow> nat \<Rightarrow> string \<times> bool" where
  "normalize_port_forward_target h p =
     (let is_rdp = (h = ''RDP'' \<and> p = 0);
          (h1, p1) = (if is_rdp then (''localhost'', 3389) else (h, p));
          h2 = (if h1 = '''' then ''localhost'' else h1)
      in (h2 @ '':'' @ decimal p1, is_rdp))"

definition connect_port_forward_if_needed ::
  "('c, 't) LoginEnv \<Rightarrow> ('c, 't) LoginState \<Rightarrow> ('c, 't) LoginState \<times> bool" where
  "connect_port_forward_if_needed env s =
     (if port_forward_socket (host s) then (s, True)
      else (case lr_union (lr s) of
              LoginPortForward h p \<Rightarrow>
                (let (addr, is_rdp) = normalize_port_forward_target h p;
                     s1 = upd_host (\<lambda>x. x\<lparr>port_forward_address := addr\<rparr>) s
                 in if connects env addr
                    then (upd_host (\<lambda>x. x\<lparr>port_forward_socket := True\<rparr>) s1, True)
                    else (login_emit (LoginError (''Failed to access remote ''
                            @ (if is_rdp then ''RDP'' else addr)
                            @ ''. Please make sure it is reachable/open.'')) s1, False))
            | _ \<Rightarrow> (s, True)))"

text \<open>\<open>Some keep_alive\<close> ends the login here. The token of the macOS build is always \<open>SelfUser\<close>.\<close>

definition prepare_terminal_login_for_authorization ::
  "('c, 't) LoginEnv \<Rightarrow> ('c, 't) LoginState \<Rightarrow> ('c, 't) LoginState \<times> bool option" where
  "prepare_terminal_login_for_authorization env s =
     (if \<not> terminal (host s) \<or> terminal_user_token s then (s, None)
      else (let s1 = s\<lparr>terminal_user_token := True\<rparr>
            in if service_specified_user env (terminal_service_id s1) = Some True
               then (login_emit (LoginError ''Terminal service user mismatch detected.'') s1, Some False)
               else (s1, None)))"

definition authed_type :: "Host \<Rightarrow> AuthConnType" where
  "authed_type h =
     (if file_transfer h \<noteq> None then FileTransfer else if port_forward_socket h then PortForward
      else if view_camera h then ViewCamera else if terminal h then Terminal else Remote)"

definition authorize :: "('c, 't) LoginState \<Rightarrow> ('c, 't) LoginState" where
  "authorize = upd_host (\<lambda>h. h\<lparr>authorized := True, authed_conn_type := Some (authed_type h)\<rparr>)"

text \<open>The end of the logon: the policy of the session, the terminal, the permission defaults, the tunnel.\<close>

definition finish_logon :: "('c, 't) LoginEnv \<Rightarrow> ('c, 't) LoginState \<Rightarrow> ('c, 't) LoginState \<times> bool" where
  "finish_logon env s1 =
     (case session_connection_policy_denial_reason (host s1) of
        Some reason \<Rightarrow> (login_emit (LoginError reason) s1, False)
      | None \<Rightarrow>
          (let t = prepare_terminal_login_for_authorization env s1;
               c = connect_port_forward_if_needed env (upd_host apply_session_permission_defaults (fst t))
           in case snd t of
                Some keep \<Rightarrow> (fst t, keep)
              | None \<Rightarrow> (if \<not> snd c then (fst c, False) else (authorize (fst c), True))))"

definition send_logon_response_and_keep_alive ::
  "('c, 't) LoginEnv \<Rightarrow> instant \<Rightarrow> ('c, 't) LoginState \<Rightarrow> ('c, 't) LoginState \<times> bool" where
  "send_logon_response_and_keep_alive env now s =
     (if authorized (host s) then (s, True)
      else (let s1 = (if require_2fa s \<noteq> None then fst (is_recent_session env now True s) else s)
            in if require_2fa s \<noteq> None \<and> \<not> snd (is_recent_session env now True s) \<and> \<not> from_switch s
               then (login_emit (LoginError ''2FA Required'') s1, True)
               else finish_logon env s1))"

definition handle_login_request_without_validation ::
  "('c, 't) LoginEnv \<Rightarrow> LoginRequest \<Rightarrow> ('c, 't) LoginState \<Rightarrow> ('c, 't) LoginState" where
  "handle_login_request_without_validation env r s =
     (let s1 = upd_host (\<lambda>h. h\<lparr>session_key := \<lparr>peer_id = lr_my_id r, peer_name = lr_my_name r,
                 session_id = lr_session_id r\<rparr>\<rparr>) (s\<lparr>lr := r\<rparr>)
      in if require_2fa s1 \<noteq> None \<and> lr_hwid r \<noteq> [] \<and> enable_trusted_devices env
         then (case find (\<lambda>d. td_hwid d = lr_hwid r) (trusted_devices env) of
                 Some d \<Rightarrow>
                   (if \<not> td_outdate d \<and> td_id d = lr_my_id r \<and> td_name d = lr_my_name r
                       \<and> td_platform d = lr_my_platform r
                    then s1\<lparr>require_2fa := None\<rparr> else s1)
               | None \<Rightarrow> s1)
         else s1)"

section \<open>Messages before authorization\<close>

text \<open>The connection type of a login request: \<open>None\<close> closes the connection.\<close>

definition login_type ::
  "('c, 't) LoginEnv \<Rightarrow> LoginUnion \<Rightarrow> ('c, 't) LoginState \<Rightarrow> ('c, 't) LoginState \<times> bool" where
  "login_type env u s = (case u of
     LoginFileTransfer dir hidden \<Rightarrow>
       (if \<not> permission (penv env) OPTION_ENABLE_FILE_TRANSFER
        then (login_emit (LoginError ''No permission of file transfer'') s, False)
        else (upd_host (\<lambda>h. h\<lparr>file_transfer := Some (dir, hidden)\<rparr>) s, True))
   | LoginViewCamera \<Rightarrow>
       (if \<not> permission (penv env) OPTION_ENABLE_CAMERA
        then (login_emit (LoginError ''No permission of viewing camera'') s, False)
        else (upd_host (\<lambda>h. h\<lparr>view_camera := True\<rparr>) s, True))
   | LoginTerminal service \<Rightarrow>
       (if \<not> permission (penv env) OPTION_ENABLE_TERMINAL
        then (login_emit (LoginError ''No permission of terminal'') s, False)
        else ((upd_host (\<lambda>h. h\<lparr>terminal := True\<rparr>) s)\<lparr>terminal_service_id := service\<rparr>, True))
   | LoginPortForward h p \<Rightarrow>
       (if \<not> permission (penv env) OPTION_ENABLE_TUNNEL
        then (login_emit (LoginError ''No permission of IP tunneling'') s, False)
        else (upd_host (\<lambda>x. x\<lparr>port_forward_address := fst (normalize_port_forward_target h p)\<rparr>) s, True))
   | LoginOther \<Rightarrow>
       (if in_privacy_mode env
        then (login_emit (LoginError ''Someone turns on privacy mode, exit'') s, False)
        else (s, True)))"

definition failure_minute :: "int \<Rightarrow> int" where
  "failure_minute now_ms = signed_take_bit 31 (now_ms div 60000)"

text \<open>The password branch of a login request, after the guards.\<close>

definition login_password ::
  "('c, 't) LoginEnv \<Rightarrow> instant \<Rightarrow> int \<Rightarrow> ('c, 't) LoginState \<Rightarrow> ('c, 't) LoginState \<times> bool" where
  "login_password env now now_ms s =
     (let time = failure_minute now_ms;
          (f, ok, err) = check_failure (ip s) time (password_failures s)
      in if \<not> ok then ((case err of Some (msg, a) \<Rightarrow> login_emit (LoginError msg) s | None \<Rightarrow> s), True)
         else
           (let (s1, valid) = validate_password env now (allow_logon_screen_password env) s
            in if \<not> valid
               then (let s2 = s1\<lparr>password_failures := update_failure (ip s1) f time False (password_failures s1)\<rparr>;
                         s3 = login_check_update_temporary_password env False s2
                     in (login_emit (StartCm False) (login_emit (LoginError ''Wrong Password'') s3), True))
               else (let s2 = s1\<lparr>password_failures := update_failure (ip s1) f time True (password_failures s1)\<rparr>;
                         (s3, keep) = send_logon_response_and_keep_alive env now s2
                     in if \<not> keep then (s3, False)
                        else (login_emit (StartCm (authorized (host s3))) s3, True))))"

text \<open>How a login request is approved: by click, by a recent session, or by its password.\<close>

definition login_approve ::
  "('c, 't) LoginEnv \<Rightarrow> instant \<Rightarrow> int \<Rightarrow> LoginRequest \<Rightarrow> ('c, 't) LoginState \<Rightarrow> ('c, 't) LoginState \<times> bool" where
  "login_approve env now now_ms r s2 =
     (if (approve_mode env = ApproveClick \<and> \<not> allow_logon_screen_password env)
         \<or> (approve_mode env = ApproveBoth \<and> \<not> has_valid_password env)
      then (let s3 = login_emit (StartCm False) s2
            in ((if lr_new_version r then login_emit (LoginError ''No Password Access'') s3 else s3), True))
      else (case is_recent_session env now False s2 of
              (s3, True) \<Rightarrow>
                (let (s4, keep) = send_logon_response_and_keep_alive env now s3
                 in if \<not> keep then (s4, False)
                    else (login_emit (StartCm (authorized (host s4))) s4, True))
            | (s3, False) \<Rightarrow>
                (if lr_password r = [] then (login_emit (StartCm False) s3, True)
                 else login_password env now now_ms s3)))"

definition on_login_request ::
  "('c, 't) LoginEnv \<Rightarrow> instant \<Rightarrow> int \<Rightarrow> LoginRequest \<Rightarrow> ('c, 't) LoginState \<Rightarrow> ('c, 't) LoginState \<times> bool" where
  "on_login_request env now now_ms r s0 =
     (let s = handle_login_request_without_validation env r s0 in
      if authorized (host s) then (s, True)
      else (case login_type env (lr_union r) s of
              (s1, False) \<Rightarrow> (s1, False)
            | (s1, True) \<Rightarrow>
                (if \<not> username_accepted env (lr_username r)
                 then (login_emit (LoginError ''Offline'') s1, False)
                 else login_approve env now now_ms r (login_emit StartCmIpc s1))))"

definition on_auth_2fa ::
  "('c, 't) LoginEnv \<Rightarrow> instant \<Rightarrow> int \<Rightarrow> string \<Rightarrow> bytes \<Rightarrow> ('c, 't) LoginState
     \<Rightarrow> ('c, 't) LoginState \<times> bool" where
  "on_auth_2fa env now now_ms code hwid s =
     (let time = failure_minute now_ms;
          (f, ok, err) = check_failure (ip s) time (tfa_failures s)
      in if \<not> ok then ((case err of Some (msg, a) \<Rightarrow> login_emit (LoginError msg) s | None \<Rightarrow> s), True)
         else (case require_2fa s of
                 None \<Rightarrow> (s, True)
               | Some t \<Rightarrow>
                   (case check_current env t code of
                      None \<Rightarrow> (s, True)
                    | Some True \<Rightarrow>
                        (let s1 = s\<lparr>tfa_failures := update_failure (ip s) f time True (tfa_failures s),
                                    require_2fa := None\<rparr>;
                             s2 = upd_host (\<lambda>h. h\<lparr>sessions :=
                                    set_session_2fa now (session_key h) (session_auth_kind h) (sessions h)\<rparr>) s1;
                             (s3, keep) = send_logon_response_and_keep_alive env now s2
                         in if \<not> keep then (s3, False)
                            else (let s4 = login_emit (StartCm (authorized (host s3))) s3
                                  in ((if hwid \<noteq> [] \<and> enable_trusted_devices env
                                       then login_emit (AddTrustedDevice hwid) s4 else s4), True)))
                    | Some False \<Rightarrow>
                        (login_emit (LoginError ''Wrong 2FA Code'')
                           (s\<lparr>tfa_failures := update_failure (ip s) f time False (tfa_failures s)\<rparr>), True))))"

definition on_switch_sides_response ::
  "('c, 't) LoginEnv \<Rightarrow> instant \<Rightarrow> LoginRequest \<Rightarrow> string option \<Rightarrow> ('c, 't) LoginState
     \<Rightarrow> ('c, 't) LoginState \<times> bool" where
  "on_switch_sides_response env now r uuid s0 =
     (let s1 = handle_login_request_without_validation env r s0;
          live = filter (\<lambda>(k, v). since now (fst v) < from_secs 10) (switch_sides_uuid s1);
          old = map_of live (lr_my_id r);
          s2 = s1\<lparr>switch_sides_uuid := AList.delete (lr_my_id r) live\<rparr>
      in case (uuid, old) of
           (Some u, Some (at, u')) \<Rightarrow>
             (if u = u'
              then (let (s3, keep) = send_logon_response_and_keep_alive env now (s2\<lparr>from_switch := True\<rparr>)
                    in if \<not> keep then (s3, False)
                       else (login_emit StartCmIpc (login_emit (StartCm (authorized (host s3))) s3), True))
              else (s2, True))
         | _ \<Rightarrow> (s2, True))"

text \<open>\<open>ipc::Data::Authorize\<close>: the local user accepts the connection.\<close>

definition on_cm_authorize ::
  "('c, 't) LoginEnv \<Rightarrow> instant \<Rightarrow> ('c, 't) LoginState \<Rightarrow> ('c, 't) LoginState \<times> bool" where
  "on_cm_authorize env now s =
     (let s1 = (upd_host (\<lambda>h. h\<lparr>session_auth_kind := ClickApproval\<rparr>) s)\<lparr>require_2fa := None\<rparr>;
          (s2, keep) = send_logon_response_and_keep_alive env now s1
      in (s2, keep \<and> \<not> port_forward_socket (host s2)))"

section \<open>The comparison of hashes\<close>

lemma xor_acc_zero: "length a = length b \<Longrightarrow> xor_acc x a b = 0 \<longleftrightarrow> x = 0 \<and> a = b"
  by (induction x a b rule: xor_acc.induct) (auto simp: or_eq_0_iff xor_zero_iff)

lemma constant_time_eq_iff [simp]: "constant_time_eq a b \<longleftrightarrow> a = b"
  by (auto simp: constant_time_eq_def xor_acc_zero)

section \<open>Frames\<close>

lemma upd_host_simps [simp]:
  "host (upd_host f s) = f (host s)" "lr (upd_host f s) = lr s" "ip (upd_host f s) = ip s"
  "require_2fa (upd_host f s) = require_2fa s" "from_switch (upd_host f s) = from_switch s"
  "store (upd_host f s) = store s" "password_failures (upd_host f s) = password_failures s"
  "tfa_failures (upd_host f s) = tfa_failures s" "temporary_failures (upd_host f s) = temporary_failures s"
  "switch_sides_uuid (upd_host f s) = switch_sides_uuid s" "terminal_user_token (upd_host f s) = terminal_user_token s"
  by (simp_all add: upd_host_def)

lemma login_emit_simps [simp]:
  "host (login_emit x s) = host s" "lr (login_emit x s) = lr s" "ip (login_emit x s) = ip s"
  "require_2fa (login_emit x s) = require_2fa s" "from_switch (login_emit x s) = from_switch s"
  "store (login_emit x s) = store s" "password_failures (login_emit x s) = password_failures s"
  "tfa_failures (login_emit x s) = tfa_failures s" "temporary_failures (login_emit x s) = temporary_failures s"
  "switch_sides_uuid (login_emit x s) = switch_sides_uuid s" "terminal_user_token (login_emit x s) = terminal_user_token s"
  by (simp_all add: login_emit_def)

lemma temporary_frame [simp]:
  "host (login_check_update_temporary_password env ok s) = host s"
  "lr (login_check_update_temporary_password env ok s) = lr s"
  "require_2fa (login_check_update_temporary_password env ok s) = require_2fa s"
  "from_switch (login_check_update_temporary_password env ok s) = from_switch s"
  by (simp_all add: login_check_update_temporary_password_def case_prod_beta Let_def)

section \<open>What a secret proves\<close>

text \<open>The login request carries the hash of a secret: of a stored digest, or of a password.\<close>

definition proves_h1 :: "('c, 't) LoginEnv \<Rightarrow> bytes \<Rightarrow> LoginRequest \<Rightarrow> bool" where
  "proves_h1 env h1 r \<longleftrightarrow> lr_password r = sha256 env (h1 @ as_bytes (hash_challenge env))"

definition proves :: "('c, 't) LoginEnv \<Rightarrow> string \<Rightarrow> LoginRequest \<Rightarrow> bool" where
  "proves env pw r \<longleftrightarrow> pw \<noteq> '''' \<and> proves_h1 env (sha256 env (as_bytes pw @ as_bytes (hash_salt env))) r"

definition proves_permanent :: "('c, 't) LoginEnv \<Rightarrow> LoginRequest \<Rightarrow> bool" where
  "proves_permanent env r \<longleftrightarrow>
     (if local_storage env = '''' then proves env (hard_password env) r
      else (case decode_h1 env (local_storage env) of
              Some h1 \<Rightarrow> proves_h1 env h1 r | None \<Rightarrow> proves env (local_storage env) r))"

definition recent_session :: "instant \<Rightarrow> SessionKey \<Rightarrow> Host \<Rightarrow> Session option" where
  "recent_session now k h =
     map_of (filter (\<lambda>(k, x). since now (last_recv_time x) < SESSION_TIMEOUT) (sessions h)) k"

definition request_key :: "LoginRequest \<Rightarrow> SessionKey" where
  "request_key r = \<lparr>peer_id = lr_my_id r, peer_name = lr_my_name r, session_id = lr_session_id r\<rparr>"

lemma validate_plain_iff [simp]: "validate_password_plain env pw s \<longleftrightarrow> proves env pw (lr s)"
  by (auto simp: validate_password_plain_def verify_h1_def proves_def proves_h1_def)

lemma validate_storage_iff [simp]:
  "validate_password_storage env st s \<longleftrightarrow> st \<noteq> '''' \<and>
     (case decode_h1 env st of Some h1 \<Rightarrow> proves_h1 env h1 (lr s) | None \<Rightarrow> proves env st (lr s))"
  by (auto simp: validate_password_storage_def verify_h1_def proves_h1_def split: option.split)

lemma validate_password_accepts:
  "snd (validate_password env now allow s) \<longleftrightarrow>
     temporary_enabled (password_store env) (store s) \<and> proves env (temporary_password (password_store env) (store s)) (lr s)
     \<or> (permanent_enabled env \<or> allow) \<and> proves_permanent env (lr s)"
  by (auto simp: validate_password_def proves_permanent_def proves_def Let_def split: option.splits)

lemma validate_password_frame [simp]:
  "lr (fst (validate_password env now allow s)) = lr s"
  "require_2fa (fst (validate_password env now allow s)) = require_2fa s"
  "from_switch (fst (validate_password env now allow s)) = from_switch s"
  "authorized (host (fst (validate_password env now allow s))) = authorized (host s)"
  "session_key (host (fst (validate_password env now allow s))) = session_key (host s)"
  by (simp_all add: validate_password_def update_or_insert_session_auth_def Let_def)

lemma is_recent_session_iff:
  "snd (is_recent_session env now b s) \<longleftrightarrow> (\<exists>x. recent_session now (session_key (host s)) (host s) = Some x
     \<and> lr_password (lr s) \<noteq> [] \<and> (if b then tfa x else proves env (random_password x) (lr s)))"
  by (auto simp: is_recent_session_def recent_session_def proves_def proves_h1_def Let_def upd_host_def
      validate_password_plain_def verify_h1_def split: option.splits)

lemma is_recent_session_frame [simp]:
  "lr (fst (is_recent_session env now b s)) = lr s"
  "require_2fa (fst (is_recent_session env now b s)) = require_2fa s"
  "from_switch (fst (is_recent_session env now b s)) = from_switch s"
  "store (fst (is_recent_session env now b s)) = store s"
  "authorized (host (fst (is_recent_session env now b s))) = authorized (host s)"
  "session_key (host (fst (is_recent_session env now b s))) = session_key (host s)"
  by (simp_all add: is_recent_session_def Let_def split: option.split)

section \<open>From a login to the authorization\<close>

text \<open>A session that carries the second factor after the password was accepted had it before.\<close>

lemma tfa_after_update:
  assumes "map_of (filter P (update_or_insert_session now k pw tf ak ss)) k = Some x" "tfa x"
    "tf \<noteq> Some True" "map_wf ss"
    and P: "\<And>k (s :: Session) t. P (k, s) = P (k, s\<lparr>random_password := t\<rparr>)"
      "\<And>k (s :: Session) t. P (k, s) = P (k, s\<lparr>tfa := t\<rparr>)" "\<And>k (s :: Session) t. P (k, s) = P (k, s\<lparr>auth_kind := t\<rparr>)"
  shows "\<exists>y. map_of (filter P ss) k = Some y \<and> tfa y"
proof (cases "map_of ss k")
  case None
  with assms(1-4) show ?thesis
    by (cases tf) (auto simp: update_or_insert_session_def map_of_filter_wf map_wf_update map_of_update split: if_splits)
next
  case (Some s)
  with assms show ?thesis
    by (cases tf; cases pw; cases ak)
      (auto simp: update_or_insert_session_def map_of_filter_wf map_wf_update map_of_update Let_def
        P(1,2,3) [symmetric] split: if_splits)
qed

lemma validate_password_tfa:
  assumes "map_wf (sessions (host s))"
    and "recent_session now k (host (fst (validate_password env now allow s))) = Some x" "tfa x"
    and k: "k = session_key (host s)"
  shows "\<exists>y. recent_session now k (host s) = Some y \<and> tfa y"
proof -
  let ?P = "\<lambda>(k :: SessionKey, x :: Session). since now (last_recv_time x) < SESSION_TIMEOUT"
  have "sessions (host (fst (validate_password env now allow s))) = sessions (host s)
    \<or> (\<exists>pw tf ak. tf \<noteq> Some True \<and> sessions (host (fst (validate_password env now allow s))) =
        update_or_insert_session now k pw tf ak (sessions (host s)))"
    by (auto simp: validate_password_def update_or_insert_session_auth_def Let_def k)
  then show ?thesis
  proof
    assume "sessions (host (fst (validate_password env now allow s))) = sessions (host s)"
    with assms show ?thesis by (auto simp: recent_session_def)
  next
    assume "\<exists>pw tf ak. tf \<noteq> Some True \<and> sessions (host (fst (validate_password env now allow s))) =
        update_or_insert_session now k pw tf ak (sessions (host s))"
    then obtain pw tf ak where "tf \<noteq> Some True"
      "sessions (host (fst (validate_password env now allow s))) =
        update_or_insert_session now k pw tf ak (sessions (host s))" by blast
    with tfa_after_update [of ?P now k pw tf ak "sessions (host s)" x] assms
    show ?thesis by (simp add: recent_session_def)
  qed
qed

lemma send_logon_second_factor:
  assumes "\<not> authorized (host s)" "authorized (host (fst (send_logon_response_and_keep_alive env now s)))"
  shows "require_2fa s = None \<or> from_switch s \<or> (\<exists>x. recent_session now (session_key (host s)) (host s) = Some x \<and> tfa x)"
proof (rule ccontr)
  assume "\<not> ?thesis"
  then have "\<not> snd (is_recent_session env now True s)" "require_2fa s \<noteq> None" "\<not> from_switch s"
    by (auto simp: is_recent_session_iff)
  with assms show False
    by (simp add: send_logon_response_and_keep_alive_def case_prod_beta Let_def)
qed

section \<open>Who gets authorized\<close>

datatype LoginMsg =
  MsgLogin LoginRequest | MsgAuth2fa string bytes | MsgSwitchSides LoginRequest "string option" | MsgCmAuthorize

definition handle_message ::
  "('c, 't) LoginEnv \<Rightarrow> instant \<Rightarrow> int \<Rightarrow> LoginMsg \<Rightarrow> ('c, 't) LoginState \<Rightarrow> ('c, 't) LoginState \<times> bool" where
  "handle_message env now now_ms m s = (case m of
     MsgLogin r \<Rightarrow> on_login_request env now now_ms r s
   | MsgAuth2fa code hwid \<Rightarrow> on_auth_2fa env now now_ms code hwid s
   | MsgSwitchSides r u \<Rightarrow> on_switch_sides_response env now r u s
   | MsgCmAuthorize \<Rightarrow> on_cm_authorize env now s)"

definition trusted_device :: "('c, 't) LoginEnv \<Rightarrow> LoginRequest \<Rightarrow> bool" where
  "trusted_device env r \<longleftrightarrow> enable_trusted_devices env \<and> lr_hwid r \<noteq> []
     \<and> is_some_and (find (\<lambda>d. td_hwid d = lr_hwid r) (trusted_devices env))
         (\<lambda>d. \<not> td_outdate d \<and> td_id d = lr_my_id r \<and> td_name d = lr_my_name r \<and> td_platform d = lr_my_platform r)"

text \<open>The request proves the temporary password, the permanent one or that of its recent session.\<close>

definition password_accepted :: "('c, 't) LoginEnv \<Rightarrow> instant \<Rightarrow> LoginRequest \<Rightarrow> ('c, 't) LoginState \<Rightarrow> bool" where
  "password_accepted env now r s \<longleftrightarrow>
     temporary_enabled (password_store env) (store s) \<and> proves env (temporary_password (password_store env) (store s)) r
     \<or> (permanent_enabled env \<or> allow_logon_screen_password env) \<and> proves_permanent env r
     \<or> is_some_and (recent_session now (request_key r) (host s)) (\<lambda>x. proves env (random_password x) r)"

definition second_factor_accepted :: "('c, 't) LoginEnv \<Rightarrow> instant \<Rightarrow> LoginRequest \<Rightarrow> ('c, 't) LoginState \<Rightarrow> bool" where
  "second_factor_accepted env now r s \<longleftrightarrow> require_2fa s = None \<or> trusted_device env r \<or> from_switch s
     \<or> is_some_and (recent_session now (request_key r) (host s)) tfa"

lemma handle_login_frame [simp]:
  "host (handle_login_request_without_validation env r s) = (host s)\<lparr>session_key := request_key r\<rparr>"
  "lr (handle_login_request_without_validation env r s) = r"
  "from_switch (handle_login_request_without_validation env r s) = from_switch s"
  "store (handle_login_request_without_validation env r s) = store s"
  "require_2fa (handle_login_request_without_validation env r s) =
     (if trusted_device env r then None else require_2fa s)"
  by (auto simp: handle_login_request_without_validation_def Let_def request_key_def trusted_device_def
      split: option.splits)

lemma login_type_frame [simp]:
  "lr (fst (login_type env u s)) = lr s" "require_2fa (fst (login_type env u s)) = require_2fa s"
  "from_switch (fst (login_type env u s)) = from_switch s" "store (fst (login_type env u s)) = store s"
  "authorized (host (fst (login_type env u s))) = authorized (host s)"
  "session_key (host (fst (login_type env u s))) = session_key (host s)"
  "sessions (host (fst (login_type env u s))) = sessions (host s)"
  by (simp_all add: login_type_def split: LoginUnion.split)

lemma recent_session_cong: "sessions h = sessions h' \<Longrightarrow> recent_session now k h = recent_session now k h'"
  by (simp add: recent_session_def)

lemma recent_session_retained:
  "recent_session now k (host (fst (is_recent_session env now b s))) = recent_session now k (host s)"
  by (simp add: recent_session_def is_recent_session_def Let_def split: option.split)

lemma sessions_retained_wf:
  "map_wf (sessions (host s)) \<Longrightarrow> map_wf (sessions (host (fst (is_recent_session env now b s))))"
  by (simp add: is_recent_session_def Let_def map_wf_filter split: option.split)

lemma login_password_authorizes:
  assumes "\<not> authorized (host s)" "authorized (host (fst (login_password env now now_ms s)))"
    and wf: "map_wf (sessions (host s))"
  shows "snd (validate_password env now (allow_logon_screen_password env) s)"
    and "require_2fa s = None \<or> from_switch s
      \<or> (\<exists>x. recent_session now (session_key (host s)) (host s) = Some x \<and> tfa x)"
proof -
  let ?v = "validate_password env now (allow_logon_screen_password env) s"
  obtain f ok err where c: "check_failure (ip s) (failure_minute now_ms) (password_failures s) = (f, ok, err)"
    by (cases "check_failure (ip s) (failure_minute now_ms) (password_failures s)") auto
  let ?s2 = "(fst ?v)\<lparr>password_failures :=
      update_failure (ip (fst ?v)) f (failure_minute now_ms) True (password_failures (fst ?v))\<rparr>"
  show v: "snd ?v"
    using assms(1,2) c
    by (auto simp: login_password_def Let_def case_prod_beta split: if_splits option.splits)
  have "authorized (host (fst (send_logon_response_and_keep_alive env now ?s2)))"
    using assms(1,2) c v
    by (auto simp: login_password_def Let_def case_prod_beta split: if_splits option.splits)
  then have "require_2fa s = None \<or> from_switch s
      \<or> (\<exists>x. recent_session now (session_key (host s)) (host (fst ?v)) = Some x \<and> tfa x)"
    using send_logon_second_factor [of ?s2 env now] assms(1) by simp
  then show "require_2fa s = None \<or> from_switch s
      \<or> (\<exists>x. recent_session now (session_key (host s)) (host s) = Some x \<and> tfa x)"
    using validate_password_tfa [OF wf _ _ refl] by blast
qed

lemma login_request_authorizes:
  assumes un: "\<not> authorized (host s)" and au: "authorized (host (fst (on_login_request env now now_ms r s)))"
    and wf: "map_wf (sessions (host s))"
  shows "password_accepted env now r s \<and> second_factor_accepted env now r s"
proof -
  let ?s0 = "handle_login_request_without_validation env r s"
  let ?s2 = "login_emit StartCmIpc (fst (login_type env (lr_union r) ?s0))"
  let ?rs = "is_recent_session env now False ?s2"
  have s2: "lr ?s2 = r" "store ?s2 = store s" "session_key (host ?s2) = request_key r"
    "sessions (host ?s2) = sessions (host s)" "\<not> authorized (host ?s2)" "from_switch ?s2 = from_switch s"
    "require_2fa ?s2 = (if trusted_device env r then None else require_2fa s)"
    using un by simp_all
  have rec: "recent_session now (request_key r) (host ?s2) = recent_session now (request_key r) (host s)"
    using s2(4) by (rule recent_session_cong)
  have go: "(if snd ?rs then authorized (host (fst (send_logon_response_and_keep_alive env now (fst ?rs))))
             else authorized (host (fst (login_password env now now_ms (fst ?rs)))))"
    using au un s2(5)
    by (auto simp: on_login_request_def login_approve_def Let_def case_prod_beta split: if_splits bool.splits)
  show ?thesis
  proof (cases "snd ?rs")
    case True
    then have "is_some_and (recent_session now (request_key r) (host s)) (\<lambda>x. proves env (random_password x) r)"
      using s2 rec by (auto simp: is_recent_session_iff is_some_and_iff)
    moreover have "require_2fa (fst ?rs) = None \<or> from_switch (fst ?rs)
        \<or> (\<exists>x. recent_session now (request_key r) (host (fst ?rs)) = Some x \<and> tfa x)"
      using send_logon_second_factor [of "fst ?rs" env now] go True s2 by simp
    ultimately show ?thesis
      using s2 rec by (auto simp: password_accepted_def second_factor_accepted_def recent_session_retained is_some_and_iff
          split: if_splits)
  next
    case False
    have un3: "\<not> authorized (host (fst ?rs))" using s2 by simp
    have wf3: "map_wf (sessions (host (fst ?rs)))" using wf s2(4) by (intro sessions_retained_wf) simp
    have go3: "authorized (host (fst (login_password env now now_ms (fst ?rs))))" using go False by simp
    note lp = login_password_authorizes [OF un3 go3 wf3]
    from lp(1) have "password_accepted env now r s"
      using s2 by (auto simp: validate_password_accepts password_accepted_def)
    moreover from lp(2) have "second_factor_accepted env now r s"
      using s2 rec by (auto simp: second_factor_accepted_def recent_session_retained is_some_and_iff split: if_splits)
    ultimately show ?thesis by blast
  qed
qed

section \<open>What the authorized connection may do\<close>

definition type_flags :: "Host \<Rightarrow> (string \<times> bool) option \<times> bool \<times> string \<times> bool \<times> bool" where
  "type_flags h = (file_transfer h, port_forward_socket h, port_forward_address h, view_camera h, terminal h)"

lemma requested_flags: "type_flags h = type_flags h' \<Longrightarrow> requested_conn_type h = requested_conn_type h'"
  by (simp add: type_flags_def requested_conn_type_def)

lemma recent_flags [simp]: "type_flags (host (fst (is_recent_session env now b s))) = type_flags (host s)"
  by (simp add: is_recent_session_def Let_def type_flags_def split: option.split)

lemma validate_flags [simp]: "type_flags (host (fst (validate_password env now a s))) = type_flags (host s)"
  by (simp add: validate_password_def update_or_insert_session_auth_def Let_def type_flags_def)

lemma defaults_flags [simp]: "type_flags (apply_session_permission_defaults h) = type_flags h"
  by (simp add: apply_session_permission_defaults_def Let_def type_flags_def)

lemma prepare_terminal_host [simp]: "host (fst (prepare_terminal_login_for_authorization env s)) = host s"
  "lr (fst (prepare_terminal_login_for_authorization env s)) = lr s"
  by (simp_all add: prepare_terminal_login_for_authorization_def Let_def)

text \<open>The host of a connection that was authorized: policy checked, defaults applied, tunnel connected.\<close>

definition connected_host :: "string option \<Rightarrow> Host \<Rightarrow> Host" where
  "connected_host a h = (case a of None \<Rightarrow> h
     | Some addr \<Rightarrow> h\<lparr>port_forward_address := addr, port_forward_socket := True\<rparr>)"

definition authorized_host :: "Host \<Rightarrow> Host" where
  "authorized_host h = h\<lparr>authorized := True, authed_conn_type := Some (authed_type h)\<rparr>"

abbreviation is_port_forward :: "LoginUnion \<Rightarrow> bool" where
  "is_port_forward u \<equiv> (case u of LoginPortForward _ _ \<Rightarrow> True | _ \<Rightarrow> False)"

definition authorized_from :: "LoginUnion \<Rightarrow> Host \<Rightarrow> Host \<Rightarrow> bool" where
  "authorized_from u h h' \<longleftrightarrow> session_connection_policy_denial_reason h = None
     \<and> (\<exists>a. h' = authorized_host (connected_host a (apply_session_permission_defaults h))
           \<and> (a \<noteq> None \<longleftrightarrow> is_port_forward u \<and> \<not> port_forward_socket h))"

lemma connect_port_forward_host:
  assumes "snd (connect_port_forward_if_needed env s)"
  shows "\<exists>a. host (fst (connect_port_forward_if_needed env s)) = connected_host a (host s)
    \<and> (a \<noteq> None \<longleftrightarrow> is_port_forward (lr_union (lr s)) \<and> \<not> port_forward_socket (host s))"
proof (cases "is_port_forward (lr_union (lr s)) \<and> \<not> port_forward_socket (host s)")
  case True
  then obtain h p where u: "lr_union (lr s) = LoginPortForward h p" by (auto split: LoginUnion.splits)
  show ?thesis
    by (rule exI [of _ "Some (fst (normalize_port_forward_target h p))"])
      (use True u assms in \<open>simp add: connect_port_forward_if_needed_def connected_host_def Let_def case_prod_beta
          split: if_splits\<close>)
next
  case False
  show ?thesis
    by (rule exI [of _ None])
      (use False in \<open>auto simp: connect_port_forward_if_needed_def connected_host_def split: LoginUnion.splits\<close>)
qed

lemma defaults_socket [simp]: "port_forward_socket (apply_session_permission_defaults h) = port_forward_socket h"
  by (simp add: apply_session_permission_defaults_def Let_def)

lemma connect_authorized [simp]: "authorized (host (fst (connect_port_forward_if_needed env s))) = authorized (host s)"
  by (simp add: connect_port_forward_if_needed_def Let_def case_prod_beta split: LoginUnion.split)

lemma defaults_authorized [simp]: "authorized (apply_session_permission_defaults h) = authorized h"
  by (simp add: apply_session_permission_defaults_def Let_def)

lemma finish_logon_authorized:
  assumes "\<not> authorized (host s)" "authorized (host (fst (finish_logon env s)))"
  shows "authorized_from (lr_union (lr s)) (host s) (host (fst (finish_logon env s)))"
proof -
  let ?t = "prepare_terminal_login_for_authorization env s"
  let ?c = "connect_port_forward_if_needed env (upd_host apply_session_permission_defaults (fst ?t))"
  have none: "session_connection_policy_denial_reason (host s) = None"
    using assms by (cases "session_connection_policy_denial_reason (host s)") (simp_all add: finish_logon_def)
  have t: "snd ?t = None"
    using assms none by (cases "snd ?t") (simp_all add: finish_logon_def Let_def)
  have ok: "snd ?c"
    using assms none t by (cases "snd ?c") (simp_all add: finish_logon_def Let_def)
  have res: "host (fst (finish_logon env s)) = authorized_host (host (fst ?c))"
    by (simp add: finish_logon_def none t ok Let_def authorize_def authorized_host_def)
  show ?thesis
    using connect_port_forward_host [OF ok] none unfolding res authorized_from_def by auto
qed

lemma send_logon_authorized:
  assumes "\<not> authorized (host s)" "authorized (host (fst (send_logon_response_and_keep_alive env now s)))"
  shows "\<exists>h. (h = host s \<or> h = host (fst (is_recent_session env now True s))) \<and>
    authorized_from (lr_union (lr s)) h (host (fst (send_logon_response_and_keep_alive env now s)))"
proof -
  let ?s1 = "if require_2fa s \<noteq> None then fst (is_recent_session env now True s) else s"
  have un: "\<not> authorized (host ?s1)" using assms(1) by simp
  have eq: "send_logon_response_and_keep_alive env now s = finish_logon env ?s1"
  proof (rule ccontr)
    assume "\<not> ?thesis"
    then have "send_logon_response_and_keep_alive env now s = (login_emit (LoginError ''2FA Required'') ?s1, True)"
      using assms(1) by (simp add: send_logon_response_and_keep_alive_def Let_def split: if_splits)
    with assms(2) un show False by simp
  qed
  have "authorized_from (lr_union (lr ?s1)) (host ?s1) (host (fst (finish_logon env ?s1)))"
    by (rule finish_logon_authorized) (use un assms(2) eq in simp_all)
  then show ?thesis unfolding eq by (cases "require_2fa s") auto
qed

lemma policy_none:
  "session_connection_policy_denial_reason h = None \<Longrightarrow> is_low_permission_support (session_auth_kind h)
   \<Longrightarrow> requested_conn_type h = Remote \<or> session_connection_granted h (requested_conn_type h)"
  by (auto simp: session_connection_policy_denial_reason_def connection_policy_denial_reason_with_grant_def Let_def
      split: AuthConnType.splits if_splits)

lemma granted_cong: "sessions h = sessions h' \<Longrightarrow> session_key h = session_key h'
   \<Longrightarrow> session_connection_granted h t = session_connection_granted h' t"
  by (simp add: session_connection_granted_def)

lemma authorized_from_low:
  assumes "authorized_from u h h'" "is_low_permission_support (session_auth_kind h')"
  shows "requested_conn_type h = Remote \<or> session_connection_granted h' (requested_conn_type h)"
    and "p \<noteq> Keyboard \<Longrightarrow> \<not> permitted p h'"
proof -
  have k: "session_auth_kind h' = session_auth_kind h" "sessions h' = sessions h" "session_key h' = session_key h"
    "permitted p h' = permitted p (apply_session_permission_defaults h)"
    using assms(1)
    by (auto simp: authorized_from_def authorized_host_def connected_host_def permitted_def
        split: Permission.split option.split)
  show "requested_conn_type h = Remote \<or> session_connection_granted h' (requested_conn_type h)"
    using assms policy_none [of h] granted_cong [OF k(2,3)] k(1) by (simp add: authorized_from_def)
  show "\<not> permitted p h'" if "p \<noteq> Keyboard"
    using that assms(2) defaults_low [of h p] k by simp
qed

text \<open>
  C8. Every authorization has a reason: a message makes a connection authorized only if the
  local user accepted the connection; or the login request proves the temporary password, the
  permanent password or that of a recent session of the same peer, and the second factor is
  not required or was shown by a trusted device, by a recent session or by a switch of sides;
  or the message carries a valid one-time code; or it answers a switch of sides with the
  identifier that the host issued for this peer less than ten seconds ago.
\<close>

theorem login_authorized_justified:
  assumes "\<not> authorized (host s)" and "authorized (host (fst (handle_message env now now_ms m s)))"
    and "distinct (map fst (sessions (host s)))" and "distinct (map fst (switch_sides_uuid s))"
  shows "case m of
      MsgCmAuthorize \<Rightarrow> True
    | MsgLogin r \<Rightarrow> password_accepted env now r s \<and> second_factor_accepted env now r s
    | MsgAuth2fa code hwid \<Rightarrow> (\<exists>t. require_2fa s = Some t \<and> check_current env t code = Some True)
    | MsgSwitchSides r u \<Rightarrow> (\<exists>at uuid. u = Some uuid
        \<and> map_of (switch_sides_uuid s) (lr_my_id r) = Some (at, uuid) \<and> now < at + from_secs 10)"
proof (cases m)
  case (MsgLogin r)
  with assms show ?thesis by (simp add: handle_message_def login_request_authorizes)
next
  case (MsgAuth2fa code hwid)
  have "\<exists>t. require_2fa s = Some t \<and> check_current env t code = Some True"
  proof (rule ccontr)
    assume no: "\<not> ?thesis"
    have "host (fst (on_auth_2fa env now now_ms code hwid s)) = host s"
      using no by (auto simp: on_auth_2fa_def Let_def case_prod_beta split: option.split bool.split)
    with MsgAuth2fa assms(1,2) show False by (simp add: handle_message_def)
  qed
  with MsgAuth2fa show ?thesis by simp
next
  case (MsgSwitchSides r u)
  let ?live = "filter (\<lambda>(k, v). since now (fst v) < from_secs 10) (switch_sides_uuid s)"
  have eq: "switch_sides_uuid (handle_login_request_without_validation env r s) = switch_sides_uuid s"
    by (simp add: handle_login_request_without_validation_def Let_def split: option.split)
  obtain at uuid where u: "u = Some uuid" and at: "map_of ?live (lr_my_id r) = Some (at, uuid)"
    using assms(1,2) MsgSwitchSides
    by (auto simp: handle_message_def on_switch_sides_response_def Let_def eq split: option.splits if_splits)
  have "map_of (switch_sides_uuid s) (lr_my_id r) = Some (at, uuid)" "now - at < from_secs 10"
    using at assms(4) by (auto simp: map_of_filter_wf since_def split: option.splits if_splits)
  moreover have "now < at + from_secs 10"
    using calculation(2) by (simp add: from_secs_def)
  ultimately show ?thesis using MsgSwitchSides u by auto
qed simp

text \<open>A concrete login: the identity stands for the hash function, the temporary password is ``ab''.\<close>

definition lf_demo_env :: "(nat, string) LoginEnv" where
  "lf_demo_env = \<lparr>penv = perm_demo_env, sha256 = (\<lambda>x. x), hash_salt = ''s'', hash_challenge = ''c'',
     password_store = \<lparr>temporary_enabled = (\<lambda>_. True), temporary_password = (\<lambda>_. ''ab''),
       update_temporary_password = Suc\<rparr>,
     permanent_enabled = False, decode_h1 = (\<lambda>_. None), local_storage = '''', hard_password = '''',
     approve_mode = ApprovePassword, has_valid_password = True, allow_logon_screen_password = False,
     username_accepted = (\<lambda>_. True), in_privacy_mode = False, enable_trusted_devices = False,
     trusted_devices = [], check_current = (\<lambda>t code. Some (code = t)), service_specified_user = (\<lambda>_. None),
     connects = (\<lambda>_. True)\<rparr>"

definition lf_demo_request :: "LoginUnion \<Rightarrow> LoginRequest" where
  "lf_demo_request u = \<lparr>lr_username = ''1'', lr_my_id = ''p'', lr_my_name = ''n'', lr_my_platform = ''Linux'',
     lr_session_id = 7, lr_password = as_bytes ''ab'' @ as_bytes ''s'' @ as_bytes ''c'', lr_hwid = [],
     lr_union = u, lr_new_version = True\<rparr>"

definition lf_demo_state :: "string option \<Rightarrow> (nat, string) LoginState" where
  "lf_demo_state t = \<lparr>host = perm_demo_raw\<lparr>authorized := False, authed_conn_type := None,
       session_auth_kind := Unknown, sessions := []\<rparr>,
     lr = (lf_demo_request LoginOther)\<lparr>lr_my_id := '''', lr_password := []\<rparr>, ip = V4 1, require_2fa = t,
     from_switch = False, terminal_user_token = False, terminal_service_id = '''',
     password_failures = (\<lambda>_. None), tfa_failures = (\<lambda>_. None), temporary_failures = TempState_default,
     store = 0, switch_sides_uuid = [], login_sent = []\<rparr>"

lemmas lf_demo_defs = lf_demo_env_def lf_demo_request_def lf_demo_state_def perm_demo_raw_def

lemma lf_demo_proves: "proves lf_demo_env ''ab'' (lf_demo_request u)"
  by (simp add: proves_def proves_h1_def lf_demo_env_def lf_demo_request_def)

lemma lf_demo_authorized:
  "authorized (host (fst (on_login_request lf_demo_env 9 60000 (lf_demo_request LoginOther) (lf_demo_state None))))"
proof -
  have check: "check_failure (V4 1) t (\<lambda>_. None) = ((0, 0, 0), True, None)" for t
    by (simp add: check_failure_def get_ipv6_prefixes_def check_address_def failure_of_def Let_def)
  have ne: "as_bytes ''c'' \<noteq> []" by (simp add: as_bytes_def)
  show ?thesis
    using lf_demo_proves [of LoginOther]
    by (simp add: ne on_login_request_def login_approve_def handle_login_request_without_validation_def login_type_def
        is_recent_session_def login_password_def validate_password_def update_or_insert_session_auth_def
        update_or_insert_session_def send_logon_response_and_keep_alive_def finish_logon_def
        session_connection_policy_denial_reason_def connection_policy_denial_reason_with_grant_def
        requested_conn_type_def prepare_terminal_login_for_authorization_def connect_port_forward_if_needed_def
        apply_session_permission_defaults_def authorize_def check lf_demo_defs Let_def)
qed

theorem login_authorized_justified_witness:
  "password_accepted lf_demo_env 9 (lf_demo_request LoginOther) (lf_demo_state None)
    \<and> second_factor_accepted lf_demo_env 9 (lf_demo_request LoginOther) (lf_demo_state None)"
  using login_authorized_justified [of "lf_demo_state None" lf_demo_env 9 60000 "MsgLogin (lf_demo_request LoginOther)"]
    lf_demo_authorized
  by (simp add: handle_message_def lf_demo_state_def)

definition union_type :: "LoginUnion \<Rightarrow> AuthConnType" where
  "union_type u = (case u of LoginFileTransfer _ _ \<Rightarrow> FileTransfer | LoginViewCamera \<Rightarrow> ViewCamera
     | LoginTerminal _ \<Rightarrow> Terminal | LoginPortForward _ _ \<Rightarrow> PortForward | LoginOther \<Rightarrow> Remote)"

definition type_permission :: "AuthConnType \<Rightarrow> OptionKey option" where
  "type_permission t = (case t of Remote \<Rightarrow> None | FileTransfer \<Rightarrow> Some OPTION_ENABLE_FILE_TRANSFER
     | PortForward \<Rightarrow> Some OPTION_ENABLE_TUNNEL | ViewCamera \<Rightarrow> Some OPTION_ENABLE_CAMERA
     | Terminal \<Rightarrow> Some OPTION_ENABLE_TERMINAL)"

lemma requested_remote_iff: "requested_conn_type h = Remote \<longleftrightarrow> file_transfer h = None
    \<and> \<not> port_forward_socket h \<and> port_forward_address h = [] \<and> \<not> view_camera h \<and> \<not> terminal h"
  by (cases "file_transfer h") (simp_all add: requested_conn_type_def)

lemma target_not_empty: "fst (normalize_port_forward_target a p) \<noteq> []"
  by (simp add: normalize_port_forward_target_def Let_def case_prod_beta)

lemma login_type_first:
  assumes "requested_conn_type (host s) = Remote" "snd (login_type env u s)"
  shows "requested_conn_type (host (fst (login_type env u s))) = union_type u"
    and "\<not> port_forward_socket (host (fst (login_type env u s)))"
    and "file_transfer (host (fst (login_type env u s))) \<noteq> None \<longleftrightarrow> union_type u = FileTransfer"
    and "is_none_or (type_permission (union_type u)) (permission (penv env))"
  using assms unfolding requested_remote_iff
  by (cases u; force simp: login_type_def requested_conn_type_def union_type_def type_permission_def
      target_not_empty split: if_splits)+

lemma login_request_host:
  assumes un: "\<not> authorized (host s)" and au: "authorized (host (fst (on_login_request env now now_ms r s)))"
  shows "\<exists>h. type_flags h = type_flags (host (fst (login_type env (lr_union r) (handle_login_request_without_validation env r s))))
    \<and> authorized_from (lr_union r) h (host (fst (on_login_request env now now_ms r s)))
    \<and> snd (login_type env (lr_union r) (handle_login_request_without_validation env r s))"
proof -
  let ?l = "login_type env (lr_union r) (handle_login_request_without_validation env r s)"
  let ?s2 = "login_emit StartCmIpc (fst ?l)"
  let ?rs = "is_recent_session env now False ?s2"
  let ?v = "validate_password env now (allow_logon_screen_password env) (fst ?rs)"
  have ok: "snd ?l"
    using au un by (cases "snd ?l") (auto simp: on_login_request_def login_approve_def Let_def case_prod_beta)
  have *: "\<exists>s4. type_flags (host s4) = type_flags (host (fst ?l)) \<and> lr s4 = r \<and> \<not> authorized (host s4)
      \<and> host (fst (on_login_request env now now_ms r s)) = host (fst (send_logon_response_and_keep_alive env now s4))"
  proof (cases "snd ?rs")
    case True
    then have "host (fst (on_login_request env now now_ms r s)) =
        host (fst (send_logon_response_and_keep_alive env now (fst ?rs)))"
      using au un ok by (auto simp: on_login_request_def login_approve_def Let_def case_prod_beta split: if_splits)
    with un show ?thesis by (intro exI [of _ "fst ?rs"]) simp
  next
    case False
    have lp: "host (fst (on_login_request env now now_ms r s)) = host (fst (login_password env now now_ms (fst ?rs)))"
      using au un ok False by (auto simp: on_login_request_def login_approve_def Let_def case_prod_beta split: if_splits)
    obtain f k err where c: "check_failure (ip (fst ?rs)) (failure_minute now_ms) (password_failures (fst ?rs)) = (f, k, err)"
      by (cases "check_failure (ip (fst ?rs)) (failure_minute now_ms) (password_failures (fst ?rs))") auto
    let ?s2 = "(fst ?v)\<lparr>password_failures :=
      update_failure (ip (fst ?v)) f (failure_minute now_ms) True (password_failures (fst ?v))\<rparr>"
    have "host (fst (login_password env now now_ms (fst ?rs))) = host (fst (send_logon_response_and_keep_alive env now ?s2))"
      using au un lp c
      by (auto simp: login_password_def Let_def case_prod_beta split: if_splits option.splits)
    with un lp show ?thesis by (intro exI [of _ ?s2]) simp
  qed
  then obtain s4 where s4: "type_flags (host s4) = type_flags (host (fst ?l))" "lr s4 = r" "\<not> authorized (host s4)"
    "host (fst (on_login_request env now now_ms r s)) = host (fst (send_logon_response_and_keep_alive env now s4))" by blast
  then have "\<exists>h. (h = host s4 \<or> h = host (fst (is_recent_session env now True s4))) \<and>
      authorized_from (lr_union r) h (host (fst (on_login_request env now now_ms r s)))"
    using send_logon_authorized [of s4 env now] au by simp
  then obtain h where "h = host s4 \<or> h = host (fst (is_recent_session env now True s4))"
    "authorized_from (lr_union r) h (host (fst (on_login_request env now now_ms r s)))" by blast
  with s4(1) ok show ?thesis by (intro exI [of _ h]) auto
qed

text \<open>
  C9. The first login request of a connection gets what the policy allows: when it is
  authorized, the connection has the type of the request, the device permits that type, and
  in a low-permission session the type is remote control or was granted to the session, and every
  permission but the keyboard is off.
\<close>

theorem login_policy_enforced:
  assumes "\<not> authorized (host s)" and "requested_conn_type (host s) = Remote"
    and "authorized (host (fst (on_login_request env now now_ms r s)))"
  shows "let h = host (fst (on_login_request env now now_ms r s)); t = union_type (lr_union r)
     in authed_conn_type h = Some t \<and> is_none_or (type_permission t) (permission (penv env))
      \<and> (is_low_permission_support (session_auth_kind h) \<longrightarrow>
           (t = Remote \<or> session_connection_granted h t) \<and> (\<forall>p. p \<noteq> Keyboard \<longrightarrow> \<not> permitted p h))"
proof -
  let ?s0 = "handle_login_request_without_validation env r s"
  let ?l = "login_type env (lr_union r) ?s0"
  let ?h' = "host (fst (on_login_request env now now_ms r s))"
  obtain h where fl: "type_flags h = type_flags (host (fst ?l))" and af: "authorized_from (lr_union r) h ?h'"
    and ok: "snd ?l" using login_request_host [OF assms(1,3)] by blast
  have req0: "requested_conn_type (host ?s0) = Remote" using assms(2) by (simp add: requested_remote_iff)
  note first = login_type_first [OF req0 ok]
  have req: "requested_conn_type h = union_type (lr_union r)" using requested_flags [OF fl] first(1) by simp
  have soc: "\<not> port_forward_socket h" "file_transfer h \<noteq> None \<longleftrightarrow> union_type (lr_union r) = FileTransfer"
    "view_camera h = view_camera (host (fst ?l))" "terminal h = terminal (host (fst ?l))"
    using fl first(2,3) by (simp_all add: type_flags_def)
  have "authed_conn_type ?h' = Some (union_type (lr_union r))"
    using af soc req
    by (cases "lr_union r")
      (auto simp: authorized_from_def authorized_host_def authed_type_def connected_host_def union_type_def
        requested_conn_type_def apply_session_permission_defaults_def Let_def split: option.splits if_splits)
  with authorized_from_low [OF af] req first(4) show ?thesis by (auto simp: Let_def)
qed

theorem login_policy_enforced_witness:
  "let h = host (fst (on_login_request lf_demo_env 9 60000 (lf_demo_request LoginOther) (lf_demo_state None)));
       t = union_type (lr_union (lf_demo_request LoginOther))
   in authed_conn_type h = Some t \<and> is_none_or (type_permission t) (permission (penv lf_demo_env))
    \<and> (is_low_permission_support (session_auth_kind h) \<longrightarrow>
         (t = Remote \<or> session_connection_granted h t) \<and> (\<forall>p. p \<noteq> Keyboard \<longrightarrow> \<not> permitted p h))"
proof (rule login_policy_enforced)
  show "\<not> authorized (host (lf_demo_state None))" by (simp add: lf_demo_state_def)
  show "requested_conn_type (host (lf_demo_state None)) = Remote" by (simp add: requested_conn_type_def lf_demo_defs)
  show "authorized (host (fst (on_login_request lf_demo_env 9 60000 (lf_demo_request LoginOther) (lf_demo_state None))))"
    by (rule lf_demo_authorized)
qed

section \<open>Gaps of the login\<close>

text \<open>
  A valid one-time code authorizes a connection that never showed a password: the message is
  accepted as soon as the second factor is required, which it is from the start.
\<close>

lemma policy_remote: "requested_conn_type h = Remote \<Longrightarrow> session_connection_policy_denial_reason h = None"
  by (simp add: session_connection_policy_denial_reason_def connection_policy_denial_reason_with_grant_def Let_def)

lemma one_time_code_alone_authorizes:
  assumes "check_failure (ip s) (failure_minute now_ms) (tfa_failures s) = (f, True, err)"
    and "require_2fa s = Some t" and "check_current env t code = Some True" and "\<not> authorized (host s)"
    and remote: "requested_conn_type (host s) = Remote" and "\<not> is_port_forward (lr_union (lr s))"
  shows "authorized (host (fst (on_auth_2fa env now now_ms code hwid s)))"
proof -
  have "requested_conn_type ((host s)\<lparr>sessions := x\<rparr>) = Remote" for x
    using remote by (simp add: requested_remote_iff)
  note none = policy_remote [OF this]
  have "\<not> terminal (host s)" using remote by (simp add: requested_remote_iff)
  with assms show ?thesis
    by (cases "lr_union (lr s)")
      (simp_all add: on_auth_2fa_def send_logon_response_and_keep_alive_def finish_logon_def none Let_def
        prepare_terminal_login_for_authorization_def connect_port_forward_if_needed_def authorize_def)
qed

text \<open>
  Switching sides takes the login request of the peer without the checks of a login: a request for a
  tunnel is connected although neither the device nor the session allows tunnels.
\<close>

lemma switch_sides_opens_tunnel:
  assumes "requested_conn_type (host s) = Remote" "\<not> authorized (host s)" "lr_union r = LoginPortForward a p"
    and "map_of (filter (\<lambda>(k, v). since now (fst v) < from_secs 10) (switch_sides_uuid s)) (lr_my_id r) = Some (at, u)"
    and "connects env (fst (normalize_port_forward_target a p))" and "require_2fa s = None"
  shows "authed_conn_type (host (fst (on_switch_sides_response env now r (Some u) s))) = Some PortForward"
proof -
  let ?s0 = "handle_login_request_without_validation env r s"
  have sw: "switch_sides_uuid ?s0 = switch_sides_uuid s"
    by (simp add: handle_login_request_without_validation_def Let_def split: option.split)
  have fl: "\<not> terminal (host s)" "\<not> port_forward_socket (host s)" "file_transfer (host s) = None"
    using assms(1) by (simp_all add: requested_remote_iff)
  have none: "session_connection_policy_denial_reason ((host s)\<lparr>session_key := k\<rparr>) = None" for k
    using assms(1) by (intro policy_remote) (simp add: requested_remote_iff)
  show ?thesis
    using assms fl
    by (simp add: on_switch_sides_response_def sw send_logon_response_and_keep_alive_def finish_logon_def none Let_def
        prepare_terminal_login_for_authorization_def connect_port_forward_if_needed_def authorize_def authed_type_def
        case_prod_beta apply_session_permission_defaults_def)
qed

text \<open>A login request on an authorized connection still replaces the identity that its grants are looked up by.\<close>

lemma login_request_rekeys_session:
  assumes "authorized (host s)"
  shows "session_key (host (fst (on_login_request env now now_ms r s))) = request_key r
    \<and> snd (on_login_request env now now_ms r s)"
  using assms by (simp add: on_login_request_def login_approve_def Let_def)

end
