(* ===== verification/QuicAdmission.thy ===== *)
theory QuicAdmission
  imports NetAddr
begin

text \<open>
  Limits for QUIC connections that are not authenticated yet,
  \<^verbatim>\<open>src/src/quic_transport/admission.rs\<close>: the decision for an incoming connection, the counters
  of pending connections and the ticket that releases them, the pools of the authentication
  step. The semaphores of tokio are a parameter of the pools.
\<close>

section \<open>Decision\<close>

definition MAX_QUIC_PENDING :: nat where "MAX_QUIC_PENDING = 32"
definition MAX_QUIC_PENDING_PER_SOURCE :: nat where "MAX_QUIC_PENDING_PER_SOURCE = 4"
definition QUIC_RETRY_THRESHOLD :: nat where "QUIC_RETRY_THRESHOLD = 16"
definition MAX_TRUSTED_PIN_AUTHENTICATIONS :: nat where "MAX_TRUSTED_PIN_AUTHENTICATIONS = 16"
definition MAX_FIRST_CONTACT_AUTHENTICATIONS :: nat where "MAX_FIRST_CONTACT_AUTHENTICATIONS = 8"

lemmas quic_consts = MAX_QUIC_PENDING_def MAX_QUIC_PENDING_PER_SOURCE_def QUIC_RETRY_THRESHOLD_def

datatype IncomingDecision = Admit | Retry | Refuse

definition incoming_decision :: "nat \<Rightarrow> nat \<Rightarrow> bool \<Rightarrow> bool \<Rightarrow> IncomingDecision" where
  "incoming_decision pending from_source validated may_retry =
     (if pending \<ge> MAX_QUIC_PENDING \<or> from_source \<ge> MAX_QUIC_PENDING_PER_SOURCE then Refuse
      else if \<not> validated \<and> (pending \<ge> QUIC_RETRY_THRESHOLD \<or> from_source > 0)
      then (if may_retry then Retry else Refuse)
      else Admit)"

text \<open>\<open>segments[4..].fill(0)\<close>: the /64 of an IPv6 address.\<close>

definition source_key :: "IpAddr \<Rightarrow> IpAddr" where
  "source_key ip = (case to_canonical ip of
     V6 a \<Rightarrow> V6 (push_bit 64 (drop_bit 64 a))
   | V4 a \<Rightarrow> V4 a)"

record PendingConnections =
  total_pending :: nat
  per_source :: "(IpAddr \<times> nat) list"

definition PendingConnections_default :: PendingConnections where
  "PendingConnections_default = \<lparr>total_pending = 0, per_source = []\<rparr>"

text \<open>An admission gives a ticket, which is the source it counts for.\<close>

datatype Admission = Admitted IpAddr | AdmissionRetry | AdmissionRefuse

definition HandshakeAdmission_admit ::
  "IpAddr \<Rightarrow> bool \<Rightarrow> bool \<Rightarrow> PendingConnections \<Rightarrow> PendingConnections \<times> Admission" where
  "HandshakeAdmission_admit addr validated may_retry s =
     (let src = source_key addr;
          n = get_or (per_source s) src 0
      in case incoming_decision (total_pending s) n validated may_retry of
           Admit \<Rightarrow> (\<lparr>total_pending = total_pending s + 1,
                      per_source = AList.update src (n + 1) (per_source s)\<rparr>, Admitted src)
         | Retry \<Rightarrow> (s, AdmissionRetry)
         | Refuse \<Rightarrow> (s, AdmissionRefuse))"

text \<open>Dropping a ticket; \<open>None\<close> is the overflow of the subtraction.\<close>

definition PendingTicket_drop :: "IpAddr \<Rightarrow> PendingConnections \<Rightarrow> PendingConnections option" where
  "PendingTicket_drop src s =
     (let t = total_pending s - 1 in
      case map_of (per_source s) src of
        None \<Rightarrow> Some (s\<lparr>total_pending := t\<rparr>)
      | Some n \<Rightarrow>
          (if n = 0 then None
           else Some (\<lparr>total_pending = t,
             per_source = (if n - 1 = 0 then AList.delete src (per_source s)
                           else AList.update src (n - 1) (per_source s))\<rparr>)))"

section \<open>Pools\<close>

record 'sem AuthenticationPools =
  trusted_pin :: 'sem
  first_contact :: 'sem

definition AuthenticationPools_default :: "(nat \<Rightarrow> 'sem) \<Rightarrow> 'sem AuthenticationPools" where
  "AuthenticationPools_default new = \<lparr>trusted_pin = new MAX_TRUSTED_PIN_AUTHENTICATIONS,
     first_contact = new MAX_FIRST_CONTACT_AUTHENTICATIONS\<rparr>"

definition AuthenticationPools_try_acquire ::
  "('sem \<Rightarrow> 'sem \<times> 'p option) \<Rightarrow> bool \<Rightarrow> 'sem AuthenticationPools \<Rightarrow> 'sem AuthenticationPools \<times> 'p option" where
  "AuthenticationPools_try_acquire try_acquire pin p =
     (if pin then (let (s, r) = try_acquire (trusted_pin p) in (p\<lparr>trusted_pin := s\<rparr>, r))
      else (let (s, r) = try_acquire (first_contact p) in (p\<lparr>first_contact := s\<rparr>, r)))"

lemma first_contacts_keep_trusted_pool:
  "trusted_pin (fst (AuthenticationPools_try_acquire f False p)) = trusted_pin p"
  by (simp add: AuthenticationPools_try_acquire_def case_prod_beta)

section \<open>Tickets\<close>

text \<open>
  The listener with the tickets that are held: admitting adds one (with the note whether the
  address was validated), dropping removes one.
\<close>

record Listener =
  pending :: PendingConnections
  tickets :: "(IpAddr \<times> bool) list"

definition Listener_initial :: Listener where
  "Listener_initial = \<lparr>pending = PendingConnections_default, tickets = []\<rparr>"

inductive listener_step :: "Listener \<Rightarrow> Listener \<Rightarrow> bool" where
  admitted: "HandshakeAdmission_admit addr v r (pending l) = (p, Admitted src)
     \<Longrightarrow> listener_step l \<lparr>pending = p, tickets = (src, v) # tickets l\<rparr>"
| refused: "HandshakeAdmission_admit addr v r (pending l) = (p, AdmissionRefuse)
     \<Longrightarrow> listener_step l (l\<lparr>pending := p\<rparr>)"
| retried: "HandshakeAdmission_admit addr v r (pending l) = (p, AdmissionRetry)
     \<Longrightarrow> listener_step l (l\<lparr>pending := p\<rparr>)"
| dropped: "(src, v) \<in> set (tickets l) \<Longrightarrow> PendingTicket_drop src (pending l) = Some p
     \<Longrightarrow> listener_step l \<lparr>pending = p, tickets = remove1 (src, v) (tickets l)\<rparr>"

inductive_cases listener_stepE: "listener_step l l'"

definition held :: "IpAddr \<Rightarrow> Listener \<Rightarrow> nat" where
  "held src l = length (filter (\<lambda>t. fst t = src) (tickets l))"

definition unvalidated :: "(IpAddr \<times> bool) list \<Rightarrow> (IpAddr \<times> bool) list" where
  "unvalidated ts = filter (\<lambda>t. \<not> snd t) ts"

definition listener_inv :: "Listener \<Rightarrow> bool" where
  "listener_inv l \<longleftrightarrow> map_wf (per_source (pending l))
     \<and> total_pending (pending l) = length (tickets l) \<and> length (tickets l) \<le> MAX_QUIC_PENDING
     \<and> (\<forall>src. get_or (per_source (pending l)) src 0 = held src l \<and> held src l \<le> MAX_QUIC_PENDING_PER_SOURCE)
     \<and> (\<forall>n \<in> set (map snd (per_source (pending l))). n > 0)
     \<and> length (unvalidated (tickets l)) \<le> QUIC_RETRY_THRESHOLD
     \<and> distinct (map fst (unvalidated (tickets l)))"

lemma get_or_update [simp]: "get_or (AList.update k v m) x d = (if x = k then v else get_or m x d)"
  by (simp add: get_or_def map_of_update)

lemma get_or_delete [simp]: "get_or (AList.delete k m) x d = (if x = k then d else get_or m x d)"
  by (simp add: get_or_def map_of_delete)

lemma decision_admit:
  "incoming_decision n f v r = Admit \<longleftrightarrow> n < MAX_QUIC_PENDING \<and> f < MAX_QUIC_PENDING_PER_SOURCE
     \<and> (v \<or> n < QUIC_RETRY_THRESHOLD \<and> f = 0)"
  by (auto simp: incoming_decision_def)

lemma admit_cases:
  assumes "HandshakeAdmission_admit addr v r s = (p, a)"
  obtains "a \<in> {AdmissionRetry, AdmissionRefuse}" "p = s"
  | "a = Admitted (source_key addr)"
    "incoming_decision (total_pending s) (get_or (per_source s) (source_key addr) 0) v r = Admit"
    "p = \<lparr>total_pending = total_pending s + 1,
          per_source = AList.update (source_key addr) (get_or (per_source s) (source_key addr) 0 + 1) (per_source s)\<rparr>"
  using assms by (auto simp: HandshakeAdmission_admit_def Let_def split: IncomingDecision.splits)

lemma unvalidated_le: "length (unvalidated ts) \<le> length ts"
  by (simp add: unvalidated_def)

lemma held_zero: "held src l = 0 \<Longrightarrow> src \<notin> fst ` set (tickets l)"
  by (auto simp: held_def filter_empty_conv)

lemma listener_inv_admitted:
  assumes inv: "listener_inv l" and ad: "HandshakeAdmission_admit addr v r (pending l) = (p, Admitted src)"
  shows "listener_inv \<lparr>pending = p, tickets = (src, v) # tickets l\<rparr>"
  using ad
proof (cases rule: admit_cases)
  case 2
  let ?m = "per_source (pending l)"
  have src: "src = source_key addr" using 2 by simp
  have n: "get_or ?m src 0 = held src l" using inv by (simp add: listener_inv_def)
  have d: "length (tickets l) < MAX_QUIC_PENDING" "held src l < MAX_QUIC_PENDING_PER_SOURCE"
    "v \<or> length (tickets l) < QUIC_RETRY_THRESHOLD \<and> held src l = 0"
    using 2(2) inv n by (simp_all add: decision_admit src listener_inv_def)
  have p: "p = \<lparr>total_pending = length (tickets l) + 1, per_source = AList.update src (held src l + 1) ?m\<rparr>"
    using 2(3) inv n by (simp add: src listener_inv_def)
  have pos: "\<forall>n \<in> snd ` set (AList.update src (held src l + 1) ?m). n > 0"
    using inv by (auto simp: listener_inv_def set_update_wf)
  have unv: "length (unvalidated ((src, v) # tickets l)) \<le> QUIC_RETRY_THRESHOLD"
  proof (cases v)
    case True then show ?thesis using inv by (simp add: unvalidated_def listener_inv_def)
  next
    case False
    then have "length (unvalidated ((src, v) # tickets l)) = Suc (length (unvalidated (tickets l)))"
      by (simp add: unvalidated_def)
    with False d(3) unvalidated_le [of "tickets l"] show ?thesis by linarith
  qed
  have dist: "distinct (map fst (unvalidated ((src, v) # tickets l)))"
    using d(3) inv held_zero [of src l] by (auto simp: unvalidated_def listener_inv_def)
  have cnt: "held x \<lparr>pending = q, tickets = (src, v) # tickets l\<rparr> = held x l + (if x = src then 1 else 0)" for x q
    by (simp add: held_def)
  have lim: "held x l \<le> MAX_QUIC_PENDING_PER_SOURCE" "get_or ?m x 0 = held x l" for x
    using inv by (simp_all add: listener_inv_def)
  show ?thesis
    unfolding listener_inv_def
    using inv d(1,2) pos unv dist lim
    by (auto simp: p cnt map_wf_update listener_inv_def Suc_le_eq)
qed simp

lemma ticket_lookup:
  assumes inv: "listener_inv l" and t: "(src, v) \<in> set (tickets l)"
  shows "map_of (per_source (pending l)) src = Some (held src l)" "held src l > 0"
proof -
  have "filter (\<lambda>t. fst t = src) (tickets l) \<noteq> []" using t by (force simp: filter_empty_conv)
  then show pos: "held src l > 0" by (simp add: held_def)
  have "get_or (per_source (pending l)) src 0 = held src l" using inv by (simp add: listener_inv_def)
  with pos show "map_of (per_source (pending l)) src = Some (held src l)"
    by (simp add: get_or_def split: option.splits)
qed

lemma drop_defined:
  assumes inv: "listener_inv l" and t: "(src, v) \<in> set (tickets l)"
  shows "PendingTicket_drop src (pending l) = Some \<lparr>total_pending = length (tickets l) - 1,
     per_source = (if held src l = 1 then AList.delete src (per_source (pending l))
                   else AList.update src (held src l - 1) (per_source (pending l)))\<rparr>"
  using ticket_lookup [OF assms] inv by (auto simp: PendingTicket_drop_def Let_def listener_inv_def)

lemma held_remove:
  "(src, v) \<in> set ts \<Longrightarrow> length (filter (\<lambda>t. fst t = x) ts) =
     length (filter (\<lambda>t. fst t = x) (remove1 (src, v) ts)) + (if x = src then 1 else 0)"
  by (induction ts) auto

lemma unvalidated_remove: "unvalidated (remove1 t ts) = (if snd t then unvalidated ts else remove1 t (unvalidated ts))"
  by (induction ts) (auto simp: unvalidated_def)

lemma listener_inv_dropped:
  assumes inv: "listener_inv l" and t: "(src, v) \<in> set (tickets l)" and p: "PendingTicket_drop src (pending l) = Some p"
  shows "listener_inv \<lparr>pending = p, tickets = remove1 (src, v) (tickets l)\<rparr>"
proof -
  let ?m = "per_source (pending l)"
  let ?l' = "\<lparr>pending = p, tickets = remove1 (src, v) (tickets l)\<rparr>"
  have p': "p = \<lparr>total_pending = length (tickets l) - 1,
     per_source = (if held src l = 1 then AList.delete src ?m else AList.update src (held src l - 1) ?m)\<rparr>"
    using drop_defined [OF inv t] p by simp
  have cnt: "held x ?l' = held x l - (if x = src then 1 else 0)" for x
    using held_remove [OF t, of x] by (simp add: held_def)
  have lim: "held x l \<le> MAX_QUIC_PENDING_PER_SOURCE" "get_or ?m x 0 = held x l" for x
    using inv by (simp_all add: listener_inv_def)
  have wf: "map_wf ?m" using inv by (simp add: listener_inv_def)
  have pp: "per_source p = (if held src l = 1 then AList.delete src ?m else AList.update src (held src l - 1) ?m)"
    by (simp add: p')
  have pos: "\<forall>n \<in> snd ` set (per_source p). n > 0"
    using inv ticket_lookup(2) [OF inv t]
    by (auto simp: p' set_update_wf [OF wf] set_delete_wf listener_inv_def)
  have unv: "length (unvalidated (remove1 (src, v) (tickets l))) \<le> QUIC_RETRY_THRESHOLD"
    "distinct (map fst (unvalidated (remove1 (src, v) (tickets l))))"
    using inv by (auto simp: unvalidated_remove listener_inv_def length_remove1 distinct_map
        intro: inj_on_subset dest: set_remove1_subset [THEN subsetD])
  have len: "length (remove1 (src, v) (tickets l)) = length (tickets l) - 1" using t by (simp add: length_remove1)
  have get: "get_or (per_source p) x 0 = held x ?l'" for x
    using ticket_lookup(2) [OF inv t] lim(2) [of x] by (auto simp: pp cnt)
  have "held x ?l' \<le> MAX_QUIC_PENDING_PER_SOURCE" for x
    using lim(1) [of x] by (auto simp: cnt)
  with inv unv len get pos wf show ?thesis
    by (auto simp: listener_inv_def p' map_wf_update map_wf_delete)
qed

interpretation qa: invariant_machine "\<lambda>l. l = Listener_initial" listener_step listener_inv
proof unfold_locales
  show "listener_inv l" if "l = Listener_initial" for l
    using that by (simp add: listener_inv_def Listener_initial_def PendingConnections_default_def held_def
        unvalidated_def get_or_def)
  show "listener_inv l'" if "listener_inv l" "listener_step l l'" for l l'
    using that(2)
  proof cases
    case (admitted addr v r p src)
    then show ?thesis using listener_inv_admitted [OF that(1)] by simp
  next
    case (refused addr v r p)
    then show ?thesis using that(1) by (auto elim: admit_cases)
  next
    case (retried addr v r p)
    then show ?thesis using that(1) by (auto elim: admit_cases)
  next
    case (dropped src v p)
    then show ?thesis using listener_inv_dropped [OF that(1)] by simp
  qed
qed

text \<open>
  C15. The counters are exact and bounded: after any admissions and drops, the total is the number
  of tickets held, at most \<open>MAX_QUIC_PENDING\<close>, the count of a source is the number of its
  tickets, at most \<open>MAX_QUIC_PENDING_PER_SOURCE\<close>, and dropping a held ticket never underflows.
\<close>

theorem quic_admission_exact:
  assumes "listener_step\<^sup>*\<^sup>* Listener_initial l"
  shows "total_pending (pending l) = length (tickets l) \<and> length (tickets l) \<le> 32
    \<and> get_or (per_source (pending l)) src 0 = held src l \<and> held src l \<le> 4
    \<and> ((src, v) \<in> set (tickets l) \<longrightarrow> PendingTicket_drop src (pending l) \<noteq> None)"
  using qa.inv_reachable [OF refl assms] drop_defined [of l src v]
  by (auto simp: listener_inv_def quic_consts)

text \<open>
  Spoofed addresses cannot fill the listener: at most \<open>QUIC_RETRY_THRESHOLD\<close> pending connections
  have an address that was not validated, no two of them have the same source, and a peer with a validated
  address is refused only if the total or its own source is at its limit.
\<close>

theorem quic_unvalidated_bounded:
  assumes "listener_step\<^sup>*\<^sup>* Listener_initial l"
  shows "length (filter (\<lambda>t. \<not> snd t) (tickets l)) \<le> 16
    \<and> distinct (map fst (filter (\<lambda>t. \<not> snd t) (tickets l)))
    \<and> (snd (HandshakeAdmission_admit addr True may_retry (pending l)) = Admitted (source_key addr)
        \<longleftrightarrow> length (tickets l) < 32 \<and> held (source_key addr) l < 4)"
proof -
  have inv: "listener_inv l" using qa.inv_reachable [OF refl assms] .
  then have "get_or (per_source (pending l)) (source_key addr) 0 = held (source_key addr) l"
    "total_pending (pending l) = length (tickets l)" by (simp_all add: listener_inv_def)
  then have "snd (HandshakeAdmission_admit addr True may_retry (pending l)) = Admitted (source_key addr)
        \<longleftrightarrow> length (tickets l) < 32 \<and> held (source_key addr) l < 4"
    by (auto simp: HandshakeAdmission_admit_def incoming_decision_def quic_consts Let_def)
  with inv show ?thesis by (simp add: listener_inv_def unvalidated_def quic_consts)
qed

definition quic_demo :: Listener where
  "quic_demo = \<lparr>pending = \<lparr>total_pending = 1, per_source = [(V4 5, 1)]\<rparr>, tickets = [(V4 5, False)]\<rparr>"

lemma quic_demo_reachable: "listener_step\<^sup>*\<^sup>* Listener_initial quic_demo"
proof (rule r_into_rtranclp)
  have "HandshakeAdmission_admit (V4 5) False True (pending Listener_initial) = (pending quic_demo, Admitted (V4 5))"
    by (simp add: HandshakeAdmission_admit_def source_key_def to_canonical_def incoming_decision_def quic_consts
        Listener_initial_def PendingConnections_default_def quic_demo_def get_or_def Let_def)
  from listener_step.admitted [OF this] show "listener_step Listener_initial quic_demo"
    by (simp add: quic_demo_def Listener_initial_def)
qed

theorem quic_admission_exact_witness:
  "total_pending (pending quic_demo) = length (tickets quic_demo) \<and> length (tickets quic_demo) \<le> 32
    \<and> get_or (per_source (pending quic_demo)) (V4 5) 0 = held (V4 5) quic_demo \<and> held (V4 5) quic_demo \<le> 4
    \<and> (\<exists>t \<in> set (tickets quic_demo). PendingTicket_drop (fst t) (pending quic_demo) \<noteq> None)"
proof -
  have t: "(V4 5, False) \<in> set (tickets quic_demo)" by (simp add: quic_demo_def)
  from quic_admission_exact [OF quic_demo_reachable, of "V4 5" False] t show ?thesis by force
qed

theorem quic_unvalidated_bounded_witness:
  "length (filter (\<lambda>t. \<not> snd t) (tickets quic_demo)) \<le> 16
    \<and> distinct (map fst (filter (\<lambda>t. \<not> snd t) (tickets quic_demo)))
    \<and> (snd (HandshakeAdmission_admit (V4 6) True True (pending quic_demo)) = Admitted (source_key (V4 6))
        \<longleftrightarrow> length (tickets quic_demo) < 32 \<and> held (source_key (V4 6)) quic_demo < 4)"
  by (rule quic_unvalidated_bounded [OF quic_demo_reachable])

end
