(* ===== verification/PresentationClock.thy ===== *)
theory PresentationClock
  imports Prelude
begin

text \<open>
  The clock that schedules decoded frames for presentation,
  \<^verbatim>\<open>src/libs/scrap/src/common/video_presentation_clock.rs\<close>. Times are \<open>i64\<close> nanoseconds with
  saturating arithmetic, capture times \<open>u64\<close> milliseconds.
\<close>

section \<open>Model\<close>

definition DEFAULT_REFRESH_PERIOD_NS :: int where "DEFAULT_REFRESH_PERIOD_NS = 16666667"
definition MIN_REFRESH_PERIOD_NS :: int where "MIN_REFRESH_PERIOD_NS = 4000000"
definition MAX_REFRESH_PERIOD_NS :: int where "MAX_REFRESH_PERIOD_NS = 33333334"
definition MAX_FUTURE_LEAD_NS :: int where "MAX_FUTURE_LEAD_NS = 50000000"
definition LATE_TOLERANCE_PERIODS :: int where "LATE_TOLERANCE_PERIODS = 3"
definition MOVIE_PLAYOUT_DELAY_NS :: int where "MOVIE_PLAYOUT_DELAY_NS = 50000000"

lemmas clock_consts = DEFAULT_REFRESH_PERIOD_NS_def MIN_REFRESH_PERIOD_NS_def MAX_REFRESH_PERIOD_NS_def
  MAX_FUTURE_LEAD_NS_def LATE_TOLERANCE_PERIODS_def MOVIE_PLAYOUT_DELAY_NS_def

datatype PresentationResetReason = NoReset | Initial | SourceRegressed | Late | Future

record PresentationSchedule =
  target_ns :: int
  source_clock :: bool
  reset :: bool
  reset_reason :: PresentationResetReason

record VideoPresentationClock =
  refresh_period_ns :: int
  anchor_capture_time_ms :: "nat option"
  anchor_target_ns :: int
  last_capture_time_ms :: nat
  last_target_ns :: int
  movie_mode :: bool

definition normalized_refresh_period :: "int \<Rightarrow> int" where
  "normalized_refresh_period p =
     (if MIN_REFRESH_PERIOD_NS \<le> p \<and> p \<le> MAX_REFRESH_PERIOD_NS then p else DEFAULT_REFRESH_PERIOD_NS)"

definition VideoPresentationClock_new :: "int \<Rightarrow> VideoPresentationClock" where
  "VideoPresentationClock_new p = \<lparr>refresh_period_ns = normalized_refresh_period p,
     anchor_capture_time_ms = None, anchor_target_ns = 0, last_capture_time_ms = 0, last_target_ns = 0,
     movie_mode = False\<rparr>"

definition reset_anchor :: "VideoPresentationClock \<Rightarrow> VideoPresentationClock" where
  "reset_anchor c = c\<lparr>anchor_capture_time_ms := None, anchor_target_ns := 0, last_capture_time_ms := 0\<rparr>"

definition update_refresh_period :: "int \<Rightarrow> VideoPresentationClock \<Rightarrow> VideoPresentationClock" where
  "update_refresh_period p c =
     (let q = normalized_refresh_period p
      in if refresh_period_ns c \<noteq> q then reset_anchor (c\<lparr>refresh_period_ns := q\<rparr>) else c)"

definition set_movie_mode :: "bool \<Rightarrow> VideoPresentationClock \<Rightarrow> VideoPresentationClock" where
  "set_movie_mode en c = (if movie_mode c \<noteq> en then reset_anchor (c\<lparr>movie_mode := en\<rparr>) else c)"

definition playout_delay_ms :: "VideoPresentationClock \<Rightarrow> int" where
  "playout_delay_ms c = (if movie_mode c then MOVIE_PLAYOUT_DELAY_NS div 1000000 else 0)"

definition next_monotonic_target :: "VideoPresentationClock \<Rightarrow> int \<Rightarrow> int" where
  "next_monotonic_target c t =
     (if last_target_ns c = 0 then t else max t (sat_i64 (last_target_ns c + 1)))"

definition immediate_schedule :: "int \<Rightarrow> VideoPresentationClock \<Rightarrow> VideoPresentationClock \<times> PresentationSchedule" where
  "immediate_schedule now c =
     (let t = next_monotonic_target c now
      in (c\<lparr>last_target_ns := t\<rparr>, \<lparr>target_ns = t, source_clock = False, reset = False, reset_reason = NoReset\<rparr>))"

definition reset_lead_ns :: "VideoPresentationClock \<Rightarrow> int" where
  "reset_lead_ns c = (if movie_mode c then max MOVIE_PLAYOUT_DELAY_NS (refresh_period_ns c) else refresh_period_ns c)"

text \<open>The target of a frame before the limits: after the anchor by the elapsed capture time.\<close>

definition anchored_target :: "VideoPresentationClock \<Rightarrow> nat \<Rightarrow> int" where
  "anchored_target c capture =
     (let elapsed_ms = capture - unwrap_or (anchor_capture_time_ms c) capture;
          elapsed_ns = min (int (sat_mul u64_max elapsed_ms 1000000)) i64_max
      in sat_i64 (anchor_target_ns c + elapsed_ns))"

definition schedule_source ::
  "nat \<Rightarrow> int \<Rightarrow> VideoPresentationClock \<Rightarrow> VideoPresentationClock \<times> PresentationSchedule" where
  "schedule_source capture now c =
     (let regressed = (anchor_capture_time_ms c \<noteq> None \<and> capture < last_capture_time_ms c);
          reason0 = (if regressed then SourceRegressed
                     else if anchor_capture_time_ms c = None then Initial else NoReset);
          reset0 = (reason0 \<noteq> NoReset);
          lead = reset_lead_ns c;
          target0 = (if reset0 then sat_i64 (now + lead) else anchored_target c capture);
          late = sat_i64 (now - sat_i64 (refresh_period_ns c * LATE_TOLERANCE_PERIODS));
          future = sat_i64 (now + max MAX_FUTURE_LEAD_NS (sat_i64 (refresh_period_ns c * 3)));
          (reset1, reason, target1) =
            (if target0 < late then (True, Late, sat_i64 (now + lead))
             else if target0 > future then (True, Future, sat_i64 (now + lead))
             else (reset0, reason0, max target0 now));
          target = next_monotonic_target c target1;
          c1 = (if reset1 then c\<lparr>anchor_capture_time_ms := Some capture, anchor_target_ns := target\<rparr> else c)
      in (c1\<lparr>last_capture_time_ms := capture, last_target_ns := target\<rparr>,
          \<lparr>target_ns = target, source_clock = True, reset = reset1, reset_reason = reason\<rparr>))"

definition schedule ::
  "nat option \<Rightarrow> int \<Rightarrow> VideoPresentationClock \<Rightarrow> VideoPresentationClock \<times> PresentationSchedule" where
  "schedule capture now c =
     (if now < 0
      then (reset_anchor c, \<lparr>target_ns = 0, source_clock = False, reset = False, reset_reason = NoReset\<rparr>)
      else (case capture of
              None \<Rightarrow> immediate_schedule now c
            | Some t \<Rightarrow> (if t = 0 then immediate_schedule now (reset_anchor c) else schedule_source t now c)))"

section \<open>Invariant\<close>

definition clock_inv :: "VideoPresentationClock \<Rightarrow> bool" where
  "clock_inv c \<longleftrightarrow> MIN_REFRESH_PERIOD_NS \<le> refresh_period_ns c \<and> refresh_period_ns c \<le> MAX_REFRESH_PERIOD_NS
     \<and> 0 \<le> last_target_ns c \<and> last_target_ns c \<le> i64_max
     \<and> 0 \<le> anchor_target_ns c \<and> anchor_target_ns c \<le> last_target_ns c"

text \<open>The furthest a target may be ahead of the clock when it is not pushed by its predecessor.\<close>

definition max_lead :: "VideoPresentationClock \<Rightarrow> int" where
  "max_lead c = max MAX_FUTURE_LEAD_NS (refresh_period_ns c * 3)"

inductive clock_step :: "VideoPresentationClock \<Rightarrow> VideoPresentationClock \<Rightarrow> bool" where
  refreshed: "clock_step c (update_refresh_period p c)"
| movie: "clock_step c (set_movie_mode b c)"
| scheduled: "now \<le> i64_max \<Longrightarrow> clock_step c (fst (schedule capture now c))"

lemma normalized_bounds:
  "MIN_REFRESH_PERIOD_NS \<le> normalized_refresh_period p" "normalized_refresh_period p \<le> MAX_REFRESH_PERIOD_NS"
  by (simp_all add: normalized_refresh_period_def clock_consts)

lemma sat_mono: "x \<le> y \<Longrightarrow> sat_i64 x \<le> sat_i64 y"
  by (simp add: sat_i64_def max.coboundedI2 min.coboundedI2)

lemma sat_ge_self: "x \<le> i64_max \<Longrightarrow> x \<le> y \<Longrightarrow> x \<le> sat_i64 y"
  by (auto simp: sat_i64_def le_max_iff_disj)

lemma sat_upper: "sat_i64 x \<le> i64_max"
  by (simp add: sat_i64_def)

lemma next_target_props:
  assumes "0 \<le> t" "t \<le> i64_max" "clock_inv c"
  shows "t \<le> next_monotonic_target c t" "next_monotonic_target c t \<le> i64_max"
    "last_target_ns c \<le> next_monotonic_target c t"
    "last_target_ns c < i64_max \<Longrightarrow> 0 < last_target_ns c \<Longrightarrow> last_target_ns c < next_monotonic_target c t"
  using assms sat_upper [of "last_target_ns c + 1"] sat_ge_self [of "last_target_ns c" "last_target_ns c + 1"]
    sat_ge_self [of "last_target_ns c + 1" "last_target_ns c + 1"]
  by (auto simp: next_monotonic_target_def clock_inv_def)

text \<open>The target of a source frame before it is made monotone.\<close>

definition limited_target :: "nat \<Rightarrow> int \<Rightarrow> VideoPresentationClock \<Rightarrow> int" where
  "limited_target capture now c =
     (let fresh = (anchor_capture_time_ms c = None \<or> capture < last_capture_time_ms c);
          t = (if fresh then sat_i64 (now + reset_lead_ns c) else anchored_target c capture)
      in if t < sat_i64 (now - sat_i64 (refresh_period_ns c * LATE_TOLERANCE_PERIODS))
            \<or> t > sat_i64 (now + max MAX_FUTURE_LEAD_NS (sat_i64 (refresh_period_ns c * 3)))
         then sat_i64 (now + reset_lead_ns c) else max t now)"

lemma schedule_source_target:
  "target_ns (snd (schedule_source capture now c)) = next_monotonic_target c (limited_target capture now c)"
  "last_target_ns (fst (schedule_source capture now c)) = next_monotonic_target c (limited_target capture now c)"
  "refresh_period_ns (fst (schedule_source capture now c)) = refresh_period_ns c"
  by (auto simp: schedule_source_def limited_target_def Let_def split: if_splits)

lemma schedule_source_anchor:
  "anchor_target_ns (fst (schedule_source capture now c)) =
     (if reset (snd (schedule_source capture now c)) then target_ns (snd (schedule_source capture now c))
      else anchor_target_ns c)"
  by (simp add: schedule_source_def Let_def case_prod_beta)

lemma period_sat:
  assumes "clock_inv c"
  shows "sat_i64 (refresh_period_ns c * 3) = refresh_period_ns c * 3" "reset_lead_ns c \<le> max_lead c" "0 < reset_lead_ns c"
    "max_lead c \<le> 100000002"
  using assms
  by (simp_all add: clock_inv_def clock_consts sat_i64_def reset_lead_ns_def max_lead_def max_def)

lemma limited_bounds:
  assumes inv: "clock_inv c" and now: "0 \<le> now" "now \<le> i64_max"
  shows "now \<le> limited_target capture now c" "limited_target capture now c \<le> i64_max"
    "limited_target capture now c \<le> now + max_lead c"
proof -
  have lead: "now \<le> sat_i64 (now + reset_lead_ns c)" "sat_i64 (now + reset_lead_ns c) \<le> now + max_lead c"
    using period_sat [OF inv] now sat_ge_self [of now "now + reset_lead_ns c"] by (auto simp: sat_i64_def)
  have fut: "sat_i64 (now + max_lead c) \<le> now + max_lead c"
    using period_sat [OF inv] now by (auto simp: sat_i64_def)
  have m: "sat_i64 (now + max MAX_FUTURE_LEAD_NS (sat_i64 (refresh_period_ns c * 3))) = sat_i64 (now + max_lead c)"
    by (simp add: period_sat(1) [OF inv] max_lead_def)
  have anch: "anchored_target c capture \<le> i64_max"
    by (simp add: anchored_target_def Let_def sat_upper)
  show "now \<le> limited_target capture now c"
    using lead(1) by (simp add: limited_target_def Let_def)
  show "limited_target capture now c \<le> i64_max"
    using sat_upper [of "now + reset_lead_ns c"] anch now by (simp add: limited_target_def Let_def)
  show "limited_target capture now c \<le> now + max_lead c"
    unfolding limited_target_def Let_def m
    using lead(2) fut period_sat(2,3) [OF inv] by auto
qed

lemma clock_inv_source:
  assumes inv: "clock_inv c" and now: "0 \<le> now" "now \<le> i64_max"
  shows "clock_inv (fst (schedule_source capture now c))"
  using next_target_props [OF _ limited_bounds(2) [OF assms] inv, of capture] limited_bounds(1) [OF assms, of capture] inv now
  by (auto simp: clock_inv_def [of "fst _"] schedule_source_target schedule_source_anchor) (auto simp: clock_inv_def)

lemma clock_inv_reset: "clock_inv c \<Longrightarrow> clock_inv (reset_anchor c)"
  by (simp add: clock_inv_def reset_anchor_def)

lemma clock_inv_immediate:
  assumes "clock_inv c" "0 \<le> now" "now \<le> i64_max"
  shows "clock_inv (fst (immediate_schedule now c))"
  using next_target_props [OF assms(2,3,1)] assms
  by (auto simp: clock_inv_def immediate_schedule_def Let_def)

lemma clock_inv_step: "clock_inv c \<Longrightarrow> clock_step c c' \<Longrightarrow> clock_inv c'"
proof (erule clock_step.cases)
  fix p c1 assume "clock_inv c" "c = c1" "c' = update_refresh_period p c1"
  then show ?thesis
    using normalized_bounds [of p] by (auto simp: update_refresh_period_def Let_def clock_inv_def reset_anchor_def)
next
  fix b c1 assume "clock_inv c" "c = c1" "c' = set_movie_mode b c1"
  then show ?thesis by (auto simp: set_movie_mode_def clock_inv_def reset_anchor_def)
next
  fix now c1 capture assume "clock_inv c" "c = c1" "c' = fst (schedule capture now c1)" "now \<le> i64_max"
  then show ?thesis
    by (cases "now < 0")
      (auto simp: schedule_def clock_inv_reset clock_inv_immediate clock_inv_source split: option.split)
qed

interpretation pcl: invariant_machine "\<lambda>c. \<exists>p. c = VideoPresentationClock_new p" clock_step clock_inv
proof unfold_locales
  show "clock_inv c" if "\<exists>p. c = VideoPresentationClock_new p" for c
    using that normalized_bounds by (auto simp: clock_inv_def VideoPresentationClock_new_def)
  show "clock_inv c'" if "clock_inv c" "clock_step c c'" for c c'
    using that by (rule clock_inv_step)
qed

abbreviation clock_reachable :: "VideoPresentationClock \<Rightarrow> bool" where
  "clock_reachable c \<equiv> \<exists>p. clock_step\<^sup>*\<^sup>* (VideoPresentationClock_new p) c"

text \<open>
  C16. Presentation times are monotone and bounded: for every reachable clock and every time of
  the call the target is not in the past, not before the previous target and after it unless
  the range of \<open>i64\<close> is exhausted, and at most the future limit (100 ms or less) ahead of
  the clock unless it has to follow the previous target.
\<close>

theorem presentation_monotone:
  assumes "clock_reachable c" and "0 \<le> now" "now \<le> i64_max"
  shows "let t = target_ns (snd (schedule capture now c)) in
    now \<le> t \<and> t \<le> i64_max \<and> last_target_ns c \<le> t
    \<and> (0 < last_target_ns c \<and> last_target_ns c < i64_max \<longrightarrow> last_target_ns c < t)
    \<and> t \<le> max (now + 100000002) (last_target_ns c + 1) \<and> last_target_ns (fst (schedule capture now c)) = t"
proof -
  have inv: "clock_inv c" using assms(1) pcl.inv_reachable by blast
  have same: "next_monotonic_target (reset_anchor c) = next_monotonic_target c"
    by (rule ext) (simp add: next_monotonic_target_def reset_anchor_def)
  have "\<exists>x. now \<le> x \<and> x \<le> i64_max \<and> x \<le> now + 100000002 \<and>
      target_ns (snd (schedule capture now c)) = next_monotonic_target c x
      \<and> last_target_ns (fst (schedule capture now c)) = next_monotonic_target c x"
  proof (cases "capture = None \<or> capture = Some 0")
    case True
    then show ?thesis using assms(2,3)
      by (intro exI [of _ now]) (auto simp: schedule_def immediate_schedule_def same Let_def)
  next
    case False
    then obtain k where k: "capture = Some k" "k \<noteq> 0" by auto
    show ?thesis
      using limited_bounds [OF inv assms(2,3), of k] period_sat(4) [OF inv] assms(2)
      by (intro exI [of _ "limited_target k now c"]) (simp add: schedule_def k schedule_source_target)
  qed
  then obtain x where x: "now \<le> x" "x \<le> i64_max" "x \<le> now + 100000002"
    "target_ns (snd (schedule capture now c)) = next_monotonic_target c x"
    "last_target_ns (fst (schedule capture now c)) = next_monotonic_target c x" by blast
  have "next_monotonic_target c x \<le> max x (last_target_ns c + 1)"
    using inv by (auto simp: next_monotonic_target_def sat_i64_def clock_inv_def)
  with next_target_props [OF _ x(2) inv] x assms(2) show ?thesis by (auto simp: Let_def)
qed

theorem presentation_monotone_witness:
  "let t = target_ns (snd (schedule (Some 1000) 10000000000 (VideoPresentationClock_new 8333333))) in
    10000000000 \<le> t \<and> t \<le> i64_max \<and> last_target_ns (VideoPresentationClock_new 8333333) \<le> t
    \<and> (0 < last_target_ns (VideoPresentationClock_new 8333333) \<and> last_target_ns (VideoPresentationClock_new 8333333) < i64_max
        \<longrightarrow> last_target_ns (VideoPresentationClock_new 8333333) < t)
    \<and> t \<le> max (10000000000 + 100000002) (last_target_ns (VideoPresentationClock_new 8333333) + 1)
    \<and> last_target_ns (fst (schedule (Some 1000) 10000000000 (VideoPresentationClock_new 8333333))) = t"
  by (rule presentation_monotone) auto

text \<open>
  The cadence of the sender is kept: a frame that does not reset the clock and that is not
  late is presented exactly as long after the anchor as it was captured after the anchor's frame.
\<close>

theorem presentation_cadence:
  assumes "clock_reachable c" and "0 \<le> now" and "now < i64_max - 100000002"
    and "anchor_capture_time_ms c = Some a" and "a \<le> capture" and "0 < capture"
    and "\<not> reset (snd (schedule (Some capture) now c))"
    and "now \<le> anchor_target_ns c + int (capture - a) * 1000000"
    and "last_target_ns c < anchor_target_ns c + int (capture - a) * 1000000"
  shows "target_ns (snd (schedule (Some capture) now c)) = anchor_target_ns c + int (capture - a) * 1000000"
proof -
  have inv: "clock_inv c" using assms(1) pcl.inv_reachable by blast
  let ?e = "int (capture - a) * 1000000"
  have nr: "\<not> reset (snd (schedule_source capture now c))" using assms(2,6,7) by (simp add: schedule_def)
  have fresh: "\<not> (anchor_capture_time_ms c = None \<or> capture < last_capture_time_ms c)"
    and lim: "\<not> anchored_target c capture < sat_i64 (now - sat_i64 (refresh_period_ns c * LATE_TOLERANCE_PERIODS))"
      "\<not> anchored_target c capture > sat_i64 (now + max MAX_FUTURE_LEAD_NS (sat_i64 (refresh_period_ns c * 3)))"
    using nr assms(4) by (auto simp: schedule_source_def Let_def split: if_splits)
  have "anchored_target c capture \<le> sat_i64 (now + max_lead c)"
    using lim(2) by (simp add: period_sat(1) [OF inv] max_lead_def)
  also have "\<dots> < i64_max"
    using assms(2,3) period_sat(4) [OF inv] by (simp add: sat_i64_def)
  finally have small: "anchored_target c capture < i64_max" .
  have at: "anchored_target c capture = sat_i64 (anchor_target_ns c + min (int (sat_mul u64_max (capture - a) 1000000)) i64_max)"
    by (simp add: anchored_target_def assms(4) Let_def)
  have nn: "0 \<le> anchor_target_ns c" using inv by (simp add: clock_inv_def)
  have "int (sat_mul u64_max (capture - a) 1000000) = ?e"
    using small nn unfolding at sat_mul_def sat_i64_def by (auto simp: min_def max_def split: if_splits)
  then have eq: "anchored_target c capture = anchor_target_ns c + ?e"
    using small nn unfolding at sat_i64_def by (auto simp: min_def max_def split: if_splits)
  have "limited_target capture now c = anchor_target_ns c + ?e"
    using fresh lim assms(4,8) by (simp add: limited_target_def Let_def eq)
  moreover have "next_monotonic_target c (anchor_target_ns c + ?e) = anchor_target_ns c + ?e"
    using assms(9) inv small eq by (auto simp: next_monotonic_target_def sat_i64_def clock_inv_def)
  ultimately show ?thesis using assms(2,6) by (simp add: schedule_def schedule_source_target)
qed

definition clock_demo :: VideoPresentationClock where
  "clock_demo = \<lparr>refresh_period_ns = 8333333, anchor_capture_time_ms = Some 1000, anchor_target_ns = 10008333333,
     last_capture_time_ms = 1000, last_target_ns = 10008333333, movie_mode = False\<rparr>"

lemma clock_demo_step: "fst (schedule (Some 1000) 10000000000 (VideoPresentationClock_new 8333333)) = clock_demo"
  by (simp add: schedule_def schedule_source_def VideoPresentationClock_new_def normalized_refresh_period_def
      reset_lead_ns_def next_monotonic_target_def sat_i64_def clock_consts clock_demo_def Let_def)

lemma clock_demo_next: "\<not> reset (snd (schedule (Some 1033) 10033000000 clock_demo))"
  by (simp add: schedule_def schedule_source_def anchored_target_def sat_mul_def
      reset_lead_ns_def next_monotonic_target_def sat_i64_def clock_consts clock_demo_def Let_def)

theorem presentation_cadence_witness:
  "target_ns (snd (schedule (Some 1033) 10033000000 clock_demo)) =
     anchor_target_ns clock_demo + int (1033 - 1000) * 1000000"
proof (rule presentation_cadence [OF _ _ _ _ _ _ clock_demo_next])
  have "clock_step (VideoPresentationClock_new 8333333) clock_demo"
    using clock_step.scheduled [of 10000000000 "VideoPresentationClock_new 8333333" "Some 1000"]
    by (simp add: clock_demo_step)
  then show "clock_reachable clock_demo" by blast
qed (simp_all add: clock_demo_def)

end
