(* ===== verification/PeerSecurity.thy ===== *)
theory PeerSecurity
  imports Prelude "HOL-Library.Char_ord" "HOL-Library.List_Lexorder"
begin

text \<open>
  Removing the trust in a peer, \<^verbatim>\<open>src/src/common/peer_security_mutation.rs\<close>: a journal is written
  before the mutation, marked as committed after it, and completed at the next start when
  the program stopped in between.

  The trait \<open>PeerSecurityMutationBackend\<close> is a locale; the backend of the system is its
  implementation over the stores of \<open>hbb_common\<close> (a second locale), and the backend of the
  source's tests is a further one. Writing and removing the journal file succeed or fail as
  the arguments of the operations say.
\<close>

section \<open>Journal\<close>

definition JOURNAL_VERSION :: nat where "JOURNAL_VERSION = 1"
definition MAX_MUTATION_IDS :: nat where "MAX_MUTATION_IDS = 4096"
definition MAX_MUTATION_ID_BYTES :: nat where "MAX_MUTATION_ID_BYTES = 1024"

datatype PeerSecurityMutationKind = ResetPairing | RemovePeer

record PeerSecurityMutationJournal =
  version :: nat
  committed :: bool
  operation :: PeerSecurityMutationKind
  peer_config_id :: string
  config_ids :: "string list"
  quic_peer_ids :: "string list"

definition valid_id :: "string \<Rightarrow> bool" where
  "valid_id i \<longleftrightarrow> \<not> (i = '''' \<or> length i > MAX_MUTATION_ID_BYTES \<or> CHR 0x00 \<in> set i)"

fun validate_each :: "string list \<Rightarrow> string set \<Rightarrow> (string, unit) sum" where
  "validate_each [] seen = Inr ()"
| "validate_each (i # ids) seen =
     (if \<not> valid_id i \<or> i \<in> seen then Inl ''peer-security journal contains an invalid id''
      else validate_each ids (insert i seen))"

definition validate_ids :: "string list \<Rightarrow> (string, unit) sum" where
  "validate_ids ids =
     (if length ids > MAX_MUTATION_IDS then Inl ''peer-security journal contains too many ids''
      else validate_each ids {})"

definition Journal_validate :: "PeerSecurityMutationJournal \<Rightarrow> (string, unit) sum" where
  "Journal_validate j =
     (if version j \<noteq> JOURNAL_VERSION then Inl ''unsupported peer-security journal version''
      else case validate_ids (config_ids j) of
             Inl e \<Rightarrow> Inl e
           | Inr _ \<Rightarrow>
               (case validate_ids (quic_peer_ids j) of
                  Inl e \<Rightarrow> Inl e
                | Inr _ \<Rightarrow>
                    (if \<not> valid_id (peer_config_id j) \<or> peer_config_id j \<notin> set (config_ids j)
                     then Inl ''invalid peer-security journal peer id'' else Inr ())))"

text \<open>\<open>sort\<close> and \<open>dedup\<close> of a vector of strings.\<close>

definition sort_dedup :: "string list \<Rightarrow> string list" where
  "sort_dedup xs = remdups_adj (sort xs)"

record PairedRecord =
  rec_peer_id :: string
  identity_key :: string
  certificate_pin :: string

definition planned_quic_peer_ids :: "PairedRecord list \<Rightarrow> string \<Rightarrow> string list" where
  "planned_quic_peer_ids records pid =
     (case find (\<lambda>r. rec_peer_id r = pid) records of
        None \<Rightarrow> []
      | Some t \<Rightarrow> sort_dedup (map rec_peer_id (filter (\<lambda>r. identity_key r = identity_key t
                                          \<and> certificate_pin r = certificate_pin t) records)))"

definition peer_security_config_ids :: "string \<Rightarrow> string list \<Rightarrow> string list" where
  "peer_security_config_ids pid aliases = sort_dedup (pid # aliases)"

definition Journal_prepare ::
  "(string, PairedRecord list) sum \<Rightarrow> string \<Rightarrow> PeerSecurityMutationKind
     \<Rightarrow> (string, PeerSecurityMutationJournal) sum" where
  "Journal_prepare paired_peers pid op =
     (case paired_peers of
        Inl e \<Rightarrow> Inl e
      | Inr records \<Rightarrow>
          (let q = planned_quic_peer_ids records pid;
               j = \<lparr>version = JOURNAL_VERSION, committed = False, operation = op, peer_config_id = pid,
                    config_ids = peer_security_config_ids pid q, quic_peer_ids = q\<rparr>
           in case Journal_validate j of Inl e \<Rightarrow> Inl e | Inr _ \<Rightarrow> Inr j))"

section \<open>Application\<close>

text \<open>A backend: the three calls of the trait on a state \<open>'b\<close>.\<close>

record 'b Backend =
  remove_quic_ids :: "string list \<Rightarrow> 'b \<Rightarrow> 'b \<times> (string, string list) sum"
  clear_pairing :: "string \<Rightarrow> 'b \<Rightarrow> 'b \<times> (string, bool) sum"
  remove_peer_config :: "string \<Rightarrow> 'b \<Rightarrow> 'b \<times> (string, bool) sum"

record PeerSecurityMutationResult =
  cleared_peer_config_ids :: "string list"
  removed_quic_peer_ids :: "string list"
  removed_peer_config :: bool

definition Result_default :: PeerSecurityMutationResult where
  "Result_default = \<lparr>cleared_peer_config_ids = [], removed_quic_peer_ids = [], removed_peer_config = False\<rparr>"

fun clear_all :: "'b Backend \<Rightarrow> string list \<Rightarrow> string list \<Rightarrow> 'b \<Rightarrow> 'b \<times> (string, string list) sum" where
  "clear_all B [] acc b = (b, Inr acc)"
| "clear_all B (i # ids) acc b =
     (case clear_pairing B i b of
        (b1, Inl e) \<Rightarrow> (b1, Inl e)
      | (b1, Inr changed) \<Rightarrow> clear_all B ids (if changed then acc @ [i] else acc) b1)"

definition apply_journal ::
  "'b Backend \<Rightarrow> PeerSecurityMutationJournal \<Rightarrow> 'b \<Rightarrow> 'b \<times> (string, PeerSecurityMutationResult) sum" where
  "apply_journal B j b =
     (case remove_quic_ids B (quic_peer_ids j) b of
        (b1, Inl e) \<Rightarrow> (b1, Inl e)
      | (b1, Inr removed) \<Rightarrow>
          (case clear_all B (config_ids j) [] b1 of
             (b2, Inl e) \<Rightarrow> (b2, Inl e)
           | (b2, Inr cleared) \<Rightarrow>
               (let r = \<lparr>cleared_peer_config_ids = cleared, removed_quic_peer_ids = removed,
                         removed_peer_config = False\<rparr>
                in if operation j = RemovePeer
                   then (case remove_peer_config B (peer_config_id j) b2 of
                           (b3, Inl e) \<Rightarrow> (b3, Inl e)
                         | (b3, Inr x) \<Rightarrow> (b3, Inr (r\<lparr>removed_peer_config := x\<rparr>)))
                   else (b2, Inr r))))"

text \<open>
  The journal file, which is missing, cannot be read or decoded, or holds a journal, and its
  operations. \<open>store_ok\<close> and \<open>delete_ok\<close> say whether writing and removing the file succeed; a
  failed write leaves the old file.
\<close>

datatype JournalFile = NotFound | Unreadable string | Encoded PeerSecurityMutationJournal

definition load_journal :: "JournalFile \<Rightarrow> (string, PeerSecurityMutationJournal option) sum" where
  "load_journal f = (case f of
     NotFound \<Rightarrow> Inr None
   | Unreadable e \<Rightarrow> Inl e
   | Encoded j \<Rightarrow> (case Journal_validate j of Inl e \<Rightarrow> Inl e | Inr _ \<Rightarrow> Inr (Some j)))"

definition cleanup_journal :: "bool \<Rightarrow> JournalFile \<Rightarrow> JournalFile" where
  "cleanup_journal delete_ok f = (if delete_ok then NotFound else f)"

definition complete_journal ::
  "'b Backend \<Rightarrow> bool \<Rightarrow> bool \<Rightarrow> PeerSecurityMutationJournal \<Rightarrow> JournalFile \<times> 'b
     \<Rightarrow> (JournalFile \<times> 'b) \<times> (string, PeerSecurityMutationResult) sum" where
  "complete_journal B store_ok delete_ok j st =
     (let (f, b) = st in
      if committed j then ((cleanup_journal delete_ok f, b), Inr Result_default)
      else (case apply_journal B j b of
              (b1, Inl e) \<Rightarrow> ((f, b1), Inl e)
            | (b1, Inr r) \<Rightarrow>
                (if \<not> store_ok then ((f, b1), Inl ''failed to persist peer-security mutation journal'')
                 else ((cleanup_journal delete_ok (Encoded (j\<lparr>committed := True\<rparr>)), b1), Inr r))))"

definition recover_pending_with ::
  "'b Backend \<Rightarrow> bool \<Rightarrow> bool \<Rightarrow> JournalFile \<times> 'b \<Rightarrow> (JournalFile \<times> 'b) \<times> (string, PeerSecurityMutationResult) sum" where
  "recover_pending_with B store_ok delete_ok st =
     (case load_journal (fst st) of
        Inl e \<Rightarrow> (st, Inl e)
      | Inr (Some j) \<Rightarrow> complete_journal B store_ok delete_ok j st
      | Inr None \<Rightarrow> (st, Inr Result_default))"

text \<open>The outcomes of the file operations of \<open>mutate\<close>, in order.\<close>

record MutateIo =
  recover_store :: bool
  recover_delete :: bool
  prepare_store :: bool
  commit_store :: bool
  commit_delete :: bool

definition Repository_mutate ::
  "'b Backend \<Rightarrow> (string, PairedRecord list) sum \<Rightarrow> MutateIo \<Rightarrow> string \<Rightarrow> PeerSecurityMutationKind
     \<Rightarrow> JournalFile \<times> 'b \<Rightarrow> (JournalFile \<times> 'b) \<times> (string, PeerSecurityMutationResult) sum" where
  "Repository_mutate B paired_peers io pid op st =
     (case recover_pending_with B (recover_store io) (recover_delete io) st of
        (st1, Inl e) \<Rightarrow> (st1, Inl e)
      | (st1, Inr _) \<Rightarrow>
          (case Journal_prepare paired_peers pid op of
             Inl e \<Rightarrow> (st1, Inl e)
           | Inr j \<Rightarrow>
               (if \<not> prepare_store io
                then (st1, Inl ''failed to persist peer-security mutation journal'')
                else complete_journal B (commit_store io) (commit_delete io) j (Encoded j, snd st1))))"

section \<open>The contract of a backend\<close>

text \<open>
  What a backend promises: a call that succeeds removes exactly what it is asked to remove,
  a call that fails removes at most that.
\<close>

definition removed_configs :: "PeerSecurityMutationJournal \<Rightarrow> string set" where
  "removed_configs j = (if operation j = RemovePeer then {peer_config_id j} else {})"

locale peer_backend =
  fixes B :: "'b Backend"
    and quic :: "'b \<Rightarrow> string set" and paired :: "'b \<Rightarrow> string set" and configs :: "'b \<Rightarrow> string set"
  assumes quic_ok: "remove_quic_ids B ids b = (b', Inr r) \<Longrightarrow>
      quic b' = quic b - set ids \<and> paired b' = paired b \<and> configs b' = configs b"
    and quic_err: "remove_quic_ids B ids b = (b', Inl e) \<Longrightarrow>
      quic b - set ids \<subseteq> quic b' \<and> quic b' \<subseteq> quic b \<and> paired b' = paired b \<and> configs b' = configs b"
    and clear_ok: "clear_pairing B i b = (b', Inr c) \<Longrightarrow>
      paired b' = paired b - {i} \<and> quic b' = quic b \<and> configs b' = configs b"
    and clear_err: "clear_pairing B i b = (b', Inl e) \<Longrightarrow>
      paired b - {i} \<subseteq> paired b' \<and> paired b' \<subseteq> paired b \<and> quic b' = quic b \<and> configs b' = configs b"
    and remove_ok: "remove_peer_config B i b = (b', Inr c) \<Longrightarrow>
      configs b' = configs b - {i} \<and> paired b - {i} \<subseteq> paired b' \<and> paired b' \<subseteq> paired b \<and> quic b' = quic b"
    and remove_err: "remove_peer_config B i b = (b', Inl e) \<Longrightarrow>
      configs b - {i} \<subseteq> configs b' \<and> configs b' \<subseteq> configs b
      \<and> paired b - {i} \<subseteq> paired b' \<and> paired b' \<subseteq> paired b \<and> quic b' = quic b"
begin

text \<open>Between the state before a journal and the state it asks for.\<close>

definition between :: "PeerSecurityMutationJournal \<Rightarrow> 'b \<Rightarrow> 'b \<Rightarrow> bool" where
  "between j b0 b \<longleftrightarrow> quic b0 - set (quic_peer_ids j) \<subseteq> quic b \<and> quic b \<subseteq> quic b0
     \<and> paired b0 - set (config_ids j) \<subseteq> paired b \<and> paired b \<subseteq> paired b0
     \<and> configs b0 - removed_configs j \<subseteq> configs b
     \<and> configs b \<subseteq> configs b0"

definition done_with :: "PeerSecurityMutationJournal \<Rightarrow> 'b \<Rightarrow> 'b \<Rightarrow> bool" where
  "done_with j b0 b \<longleftrightarrow> quic b = quic b0 - set (quic_peer_ids j) \<and> paired b = paired b0 - set (config_ids j)
     \<and> configs b = configs b0 - removed_configs j"

lemma between_refl: "between j b b"
  by (simp add: between_def)

lemma between_trans: "between j a b \<Longrightarrow> between j b c \<Longrightarrow> between j a c"
  unfolding between_def by blast

lemma done_between: "between j a b \<Longrightarrow> done_with j b c \<Longrightarrow> done_with j a c"
  unfolding between_def done_with_def by blast

lemma clear_all_effect:
  "clear_all B ids acc b = (b', r) \<Longrightarrow> quic b' = quic b \<and> configs b' = configs b
     \<and> paired b - set ids \<subseteq> paired b' \<and> paired b' \<subseteq> paired b
     \<and> (\<forall>x. r = Inr x \<longrightarrow> paired b' = paired b - set ids)"
proof (induction ids arbitrary: acc b)
  case (Cons i ids)
  obtain b1 c where c: "clear_pairing B i b = (b1, c)" by fastforce
  show ?case
  proof (cases c)
    case (Inl e)
    with Cons.prems c clear_err [of i b b1 e] show ?thesis by auto
  next
    case (Inr ch)
    with Cons.prems c have "clear_all B ids (if ch then acc @ [i] else acc) b1 = (b', r)" by simp
    from Cons.IH [OF this] clear_ok [of i b b1 ch] c Inr show ?thesis by auto
  qed
qed simp

lemma apply_effect:
  assumes "apply_journal B j b = (b', r)" "peer_config_id j \<in> set (config_ids j)"
  shows "between j b b'" and "r = Inr x \<Longrightarrow> done_with j b b'"
proof -
  obtain b1 q where q: "remove_quic_ids B (quic_peer_ids j) b = (b1, q)" by fastforce
  have "between j b b' \<and> (\<forall>x. r = Inr x \<longrightarrow> done_with j b b')"
  proof (cases q)
    case (Inl e)
    with assms q quic_err [of _ b b1 e] show ?thesis by (auto simp: apply_journal_def removed_configs_def between_def)
  next
    case (Inr removed)
    note b1 = quic_ok [OF q [unfolded Inr]]
    obtain b2 c where c: "clear_all B (config_ids j) [] b1 = (b2, c)" by fastforce
    note b2 = clear_all_effect [OF c]
    show ?thesis
    proof (cases c)
      case (Inl e)
      with assms q \<open>q = Inr removed\<close> c b1 b2 show ?thesis by (auto simp: apply_journal_def removed_configs_def between_def)
    next
      case Inr2: (Inr cleared)
      show ?thesis
      proof (cases "operation j = RemovePeer")
        case False
        with assms q Inr c Inr2 b1 b2 show ?thesis
          by (auto simp: apply_journal_def removed_configs_def between_def done_with_def Let_def)
      next
        case True
        obtain b3 y where y: "remove_peer_config B (peer_config_id j) b2 = (b3, y)" by fastforce
        show ?thesis
        proof (cases y)
          case (Inl e)
          with assms q Inr c Inr2 b1 b2 y True remove_err [of "peer_config_id j" b2 b3 e] show ?thesis
            by (auto simp: apply_journal_def removed_configs_def between_def Let_def)
        next
          case Inr3: (Inr z)
          with assms q Inr c Inr2 b1 b2 y True remove_ok [of "peer_config_id j" b2 b3 z] show ?thesis
            by (auto simp: apply_journal_def removed_configs_def between_def done_with_def Let_def)
        qed
      qed
    qed
  qed
  then show "between j b b'" and "r = Inr x \<Longrightarrow> done_with j b b'" by blast+
qed

end

lemma validate_peer_in: "Journal_validate j = Inr u \<Longrightarrow> peer_config_id j \<in> set (config_ids j)"
  by (auto simp: Journal_validate_def split: if_splits sum.splits)

definition no_uncommitted :: "JournalFile \<Rightarrow> bool" where
  "no_uncommitted f = (case f of NotFound \<Rightarrow> True | Unreadable _ \<Rightarrow> False | Encoded j \<Rightarrow> committed j)"

text \<open>
  Attempts that were interrupted: any calls for the journal, finished or failed, in any order
  and number.
\<close>

inductive interrupted :: "'b Backend \<Rightarrow> PeerSecurityMutationJournal \<Rightarrow> 'b \<Rightarrow> 'b \<Rightarrow> bool" for B j b0 where
  start: "interrupted B j b0 b0"
| quic_call: "interrupted B j b0 b \<Longrightarrow> interrupted B j b0 (fst (remove_quic_ids B (quic_peer_ids j) b))"
| clear_call: "interrupted B j b0 b \<Longrightarrow> i \<in> set (config_ids j) \<Longrightarrow> interrupted B j b0 (fst (clear_pairing B i b))"
| remove_call: "interrupted B j b0 b \<Longrightarrow> operation j = RemovePeer \<Longrightarrow>
     interrupted B j b0 (fst (remove_peer_config B (peer_config_id j) b))"

lemma interrupted_clear_all:
  "interrupted B j b0 b \<Longrightarrow> set ids \<subseteq> set (config_ids j) \<Longrightarrow> interrupted B j b0 (fst (clear_all B ids acc b))"
proof (induction ids arbitrary: acc b)
  case (Cons i ids)
  have "interrupted B j b0 (fst (clear_pairing B i b))" using Cons.prems by (simp add: interrupted.clear_call)
  with Cons show ?case by (cases "clear_pairing B i b"; cases "snd (clear_pairing B i b)") auto
qed simp

lemma interrupted_apply:
  assumes "interrupted B j b0 b" and "apply_journal B j b = (b', r)"
  shows "interrupted B j b0 b'"
proof -
  obtain b1 q where q: "remove_quic_ids B (quic_peer_ids j) b = (b1, q)" by fastforce
  obtain b2 c where c: "clear_all B (config_ids j) [] b1 = (b2, c)" by fastforce
  obtain b3 z where z: "remove_peer_config B (peer_config_id j) b2 = (b3, z)" by fastforce
  have 1: "interrupted B j b0 b1" using interrupted.quic_call [OF assms(1)] q by simp
  have 2: "interrupted B j b0 b2" using interrupted_clear_all [OF 1 subset_refl, of "[]"] c by simp
  have 3: "operation j = RemovePeer \<Longrightarrow> interrupted B j b0 b3" using interrupted.remove_call [OF 2] z by simp
  have "b' = b1 \<or> b' = b2 \<or> b' = b3 \<and> operation j = RemovePeer"
    using assms(2) q c z by (cases q; cases c; cases z) (auto simp: apply_journal_def Let_def split: if_splits)
  with 1 2 3 show ?thesis by auto
qed

context peer_backend
begin

lemma quic_between:
  assumes "remove_quic_ids B (quic_peer_ids j) b = (b1, q)"
  shows "between j b b1"
proof (cases q)
  case (Inl e)
  from quic_err [OF assms [unfolded Inl]] show ?thesis by (auto simp: between_def)
next
  case (Inr r)
  from quic_ok [OF assms [unfolded Inr]] show ?thesis by (auto simp: between_def)
qed

lemma clear_between:
  assumes "clear_pairing B i b = (b1, q)" and "i \<in> set (config_ids j)"
  shows "between j b b1"
proof (cases q)
  case (Inl e)
  from clear_err [OF assms(1) [unfolded Inl]] assms(2) show ?thesis by (auto simp: between_def)
next
  case (Inr r)
  from clear_ok [OF assms(1) [unfolded Inr]] assms(2) show ?thesis by (auto simp: between_def)
qed

lemma remove_between:
  assumes "remove_peer_config B (peer_config_id j) b = (b1, q)" and "operation j = RemovePeer"
    and "peer_config_id j \<in> set (config_ids j)"
  shows "between j b b1"
proof (cases q)
  case (Inl e)
  from remove_err [OF assms(1) [unfolded Inl]] assms(2,3) show ?thesis
    by (auto simp: between_def removed_configs_def)
next
  case (Inr r)
  from remove_ok [OF assms(1) [unfolded Inr]] assms(2,3) show ?thesis
    by (auto simp: between_def removed_configs_def)
qed

lemma interrupted_between:
  assumes "peer_config_id j \<in> set (config_ids j)"
  shows "interrupted B j b0 b \<Longrightarrow> between j b0 b"
proof (induction rule: interrupted.induct)
  case (quic_call b)
  from quic_call.IH quic_between [OF prod.collapse [symmetric]] show ?case by (rule between_trans)
next
  case (clear_call b i)
  from clear_call.IH clear_between [OF prod.collapse [symmetric] clear_call.hyps(2)] show ?case by (rule between_trans)
next
  case (remove_call b)
  from remove_call.IH remove_between [OF prod.collapse [symmetric] remove_call.hyps(2) assms] show ?case
    by (rule between_trans)
qed (rule between_refl)

lemma completion:
  assumes "interrupted B j b0 b" and "\<not> committed j" and p: "peer_config_id j \<in> set (config_ids j)"
  shows "case complete_journal B so del j (Encoded j, b) of
       ((f', b'), Inl e) \<Rightarrow> f' = Encoded j \<and> interrupted B j b0 b'
     | ((f', b'), Inr r) \<Rightarrow> no_uncommitted f' \<and> done_with j b0 b'"
proof -
  obtain b1 x where a: "apply_journal B j b = (b1, x)" by fastforce
  have i: "interrupted B j b0 b1" by (rule interrupted_apply [OF assms(1) a])
  have "x = Inr y \<Longrightarrow> done_with j b0 b1" for y
    by (rule done_between [OF interrupted_between [OF p assms(1)] apply_effect(2) [OF a p]])
  with i a assms(2) show ?thesis
    by (cases x) (auto simp: complete_journal_def cleanup_journal_def no_uncommitted_def)
qed

end

text \<open>A committed journal is never applied again.\<close>

lemma committed_not_replayed:
  assumes "committed j" and "Journal_validate j = Inr ()"
  shows "recover_pending_with B so del (Encoded j, b) = ((cleanup_journal del (Encoded j), b), Inr Result_default)"
  using assms by (simp add: recover_pending_with_def load_journal_def complete_journal_def)

text \<open>Before the journal is on disk the backend is not touched.\<close>

lemma mutate_journal_first:
  assumes "\<not> prepare_store io"
  shows "snd (fst (Repository_mutate B paired_peers io pid op (NotFound, b))) = b"
  using assms
  by (auto simp: Repository_mutate_def recover_pending_with_def load_journal_def split: sum.split)

section \<open>The backend of the system\<close>

datatype RemoveOutcome = Removed bool | InvalidPeerId | RemoveError string

record 'd Stores =
  trusted_open :: "'d \<Rightarrow> (string, unit) sum"
  trusted_remove :: "string \<Rightarrow> 'd \<Rightarrow> 'd \<times> RemoveOutcome"
  load_options :: "string \<Rightarrow> 'd \<Rightarrow> (string \<Rightarrow> string option)"
  store_options :: "string \<Rightarrow> (string \<Rightarrow> string option) \<Rightarrow> 'd \<Rightarrow> 'd \<times> (string, unit) sum"
  remove_config :: "string \<Rightarrow> 'd \<Rightarrow> 'd \<times> (string, bool) sum"

definition pairing_options :: "string list" where
  "pairing_options = [''pinned-signing-key'', ''direct-paired-viewer-confirmed'', ''rendezvous-paired-viewer-confirmed'']"

definition clear_peer_pairing_options ::
  "(string \<Rightarrow> string option) \<Rightarrow> (string \<Rightarrow> string option) \<times> bool" where
  "clear_peer_pairing_options opts =
     fold (\<lambda>k (o1, changed). (o1(k := None), changed \<or> o1 k \<noteq> None)) pairing_options (opts, False)"

fun forget_each ::
  "'d Stores \<Rightarrow> string list \<Rightarrow> string list \<Rightarrow> 'd \<Rightarrow> 'd \<times> (string, string list) sum" where
  "forget_each S [] acc d = (d, Inr acc)"
| "forget_each S (i # ids) acc d =
     (case trusted_remove S i d of
        (d1, Removed True) \<Rightarrow> forget_each S ids (acc @ [i]) d1
      | (d1, Removed False) \<Rightarrow> forget_each S ids acc d1
      | (d1, InvalidPeerId) \<Rightarrow> forget_each S ids acc d1
      | (d1, RemoveError e) \<Rightarrow> (d1, Inl e))"

definition forget_paired_peer_ids :: "'d Stores \<Rightarrow> string list \<Rightarrow> 'd \<Rightarrow> 'd \<times> (string, string list) sum" where
  "forget_paired_peer_ids S ids d =
     (case trusted_open S d of Inl e \<Rightarrow> (d, Inl e) | Inr _ \<Rightarrow> forget_each S ids [] d)"

definition system_clear_pairing :: "'d Stores \<Rightarrow> string \<Rightarrow> 'd \<Rightarrow> 'd \<times> (string, bool) sum" where
  "system_clear_pairing S i d =
     (let (opts, changed) = clear_peer_pairing_options (load_options S i d)
      in if changed
         then (case store_options S i opts d of
                 (d1, Inl e) \<Rightarrow> (d1, Inl e)
               | (d1, Inr _) \<Rightarrow> (d1, Inr True))
         else (d, Inr False))"

definition SystemPeerSecurityMutationBackend :: "'d Stores \<Rightarrow> 'd Backend" where
  "SystemPeerSecurityMutationBackend S = \<lparr>remove_quic_ids = forget_paired_peer_ids S,
     clear_pairing = system_clear_pairing S, remove_peer_config = remove_config S\<rparr>"

text \<open>What the stores promise; a failed write of a configuration leaves the old or the new one.\<close>

locale peer_stores =
  fixes S :: "'d Stores" and trusted :: "'d \<Rightarrow> string set" and stored :: "'d \<Rightarrow> string set"
  assumes removed: "trusted_remove S i d = (d', Removed b) \<Longrightarrow>
      trusted d' = trusted d - {i} \<and> stored d' = stored d
      \<and> (\<forall>k. load_options S k d' = load_options S k d)"
    and invalid: "trusted_remove S i d = (d', InvalidPeerId) \<Longrightarrow> d' = d \<and> i \<notin> trusted d"
    and remove_failed: "trusted_remove S i d = (d', RemoveError e) \<Longrightarrow>
      trusted d - {i} \<subseteq> trusted d' \<and> trusted d' \<subseteq> trusted d \<and> stored d' = stored d
      \<and> (\<forall>k. load_options S k d' = load_options S k d)"
    and store_ok: "store_options S i opts d = (d', Inr u) \<Longrightarrow>
      (\<forall>k. load_options S k d' = (if k = i then opts else load_options S k d))
      \<and> trusted d' = trusted d \<and> (load_options S i d \<noteq> Map.empty \<longrightarrow> stored d' = stored d)"
    and store_failed: "store_options S i opts d = (d', Inl e) \<Longrightarrow>
      ((\<forall>k. load_options S k d' = load_options S k d)
        \<or> (\<forall>k. load_options S k d' = (if k = i then opts else load_options S k d)))
      \<and> trusted d' = trusted d \<and> (load_options S i d \<noteq> Map.empty \<longrightarrow> stored d' = stored d)"
    and config_removed: "remove_config S i d = (d', Inr b) \<Longrightarrow>
      stored d' = stored d - {i} \<and> trusted d' = trusted d
      \<and> (\<forall>k. load_options S k d' = (if k = i then Map.empty else load_options S k d))"
    and config_failed: "remove_config S i d = (d', Inl e) \<Longrightarrow>
      stored d - {i} \<subseteq> stored d' \<and> stored d' \<subseteq> stored d \<and> trusted d' = trusted d
      \<and> (\<forall>k. load_options S k d' = load_options S k d \<or> k = i \<and> load_options S k d' = Map.empty)"

definition has_pairing :: "(string \<Rightarrow> string option) \<Rightarrow> bool" where
  "has_pairing opts = list_ex (\<lambda>k. opts k \<noteq> None) pairing_options"

definition paired_ids :: "'d Stores \<Rightarrow> 'd \<Rightarrow> string set" where
  "paired_ids S d = {i. has_pairing (load_options S i d)}"

lemma clear_options_eq:
  "snd (clear_peer_pairing_options opts) = has_pairing opts"
  "\<not> has_pairing (fst (clear_peer_pairing_options opts))"
  by (auto simp: clear_peer_pairing_options_def has_pairing_def pairing_options_def)

context peer_stores
begin

lemma forget_effect:
  "forget_each S ids acc d = (d', r) \<Longrightarrow> trusted d - set ids \<subseteq> trusted d' \<and> trusted d' \<subseteq> trusted d
     \<and> stored d' = stored d \<and> paired_ids S d' = paired_ids S d \<and> (\<forall>x. r = Inr x \<longrightarrow> trusted d' = trusted d - set ids)"
proof (induction ids arbitrary: acc d)
  case (Cons i ids)
  obtain d1 x where x: "trusted_remove S i d = (d1, x)" by fastforce
  show ?case
  proof (cases x)
    case (Removed b)
    with Cons.prems x obtain acc' where "forget_each S ids acc' d1 = (d', r)" by (cases b) auto
    from Cons.IH [OF this] removed [OF x [unfolded Removed]] show ?thesis by (auto simp: paired_ids_def)
  next
    case InvalidPeerId
    with Cons.prems x have "forget_each S ids acc d1 = (d', r)" by simp
    from Cons.IH [OF this] invalid [OF x [unfolded InvalidPeerId]] show ?thesis by auto
  next
    case (RemoveError e)
    with Cons.prems x remove_failed [OF x [unfolded RemoveError]] show ?thesis by (auto simp: paired_ids_def)
  qed
qed simp

lemma forget_paired_effect:
  "forget_paired_peer_ids S ids d = (d', r) \<Longrightarrow> trusted d - set ids \<subseteq> trusted d' \<and> trusted d' \<subseteq> trusted d
     \<and> stored d' = stored d \<and> paired_ids S d' = paired_ids S d \<and> (\<forall>x. r = Inr x \<longrightarrow> trusted d' = trusted d - set ids)"
  using forget_effect [of ids "[]" d d' r]
  by (cases "trusted_open S d") (auto simp: forget_paired_peer_ids_def)

lemma has_pairing_nonempty: "has_pairing o1 \<Longrightarrow> o1 \<noteq> Map.empty"
  by (auto simp: has_pairing_def list_ex_iff)

lemma clear_effect:
  assumes "system_clear_pairing S i b = (b', r)"
  shows "trusted b' = trusted b \<and> stored b' = stored b
    \<and> (paired_ids S b' = paired_ids S b \<and> (i \<in> paired_ids S b \<longrightarrow> (\<exists>e. r = Inl e))
       \<or> paired_ids S b' = paired_ids S b - {i})"
proof (cases "has_pairing (load_options S i b)")
  case False
  with assms have "b' = b" by (simp add: system_clear_pairing_def case_prod_beta clear_options_eq)
  with False show ?thesis by (simp add: paired_ids_def)
next
  case True
  define opts where "opts = fst (clear_peer_pairing_options (load_options S i b))"
  have no: "\<not> has_pairing opts" unfolding opts_def by (rule clear_options_eq)
  obtain u where u: "store_options S i opts b = (b', u)" and r: "u = Inl e \<Longrightarrow> r = Inl e" for e
    using assms True by (cases "store_options S i opts b"; cases "snd (store_options S i opts b)")
      (auto simp: system_clear_pairing_def case_prod_beta clear_options_eq opts_def)
  have ne: "load_options S i b \<noteq> Map.empty" by (rule has_pairing_nonempty [OF True])
  have written: "\<forall>k. load_options S k b' = (if k = i then opts else load_options S k b) \<Longrightarrow>
      paired_ids S b' = paired_ids S b - {i}"
    using no by (auto simp: paired_ids_def)
  show ?thesis
  proof (cases u)
    case (Inl e)
    from store_failed [OF u [unfolded Inl]] ne written r [OF Inl] show ?thesis by (auto simp: paired_ids_def)
  next
    case (Inr v)
    from store_ok [OF u [unfolded Inr]] ne written show ?thesis by auto
  qed
qed

end

sublocale peer_stores \<subseteq> system: peer_backend "SystemPeerSecurityMutationBackend S" trusted "paired_ids S" stored
proof unfold_locales
  fix ids b b' r assume "remove_quic_ids (SystemPeerSecurityMutationBackend S) ids b = (b', Inr r)"
  then have "forget_paired_peer_ids S ids b = (b', Inr r)" by (simp add: SystemPeerSecurityMutationBackend_def)
  from forget_paired_effect [OF this] show "trusted b' = trusted b - set ids \<and> paired_ids S b' = paired_ids S b \<and> stored b' = stored b"
    by simp
next
  fix ids b b' e assume "remove_quic_ids (SystemPeerSecurityMutationBackend S) ids b = (b', Inl e)"
  then have "forget_paired_peer_ids S ids b = (b', Inl e)" by (simp add: SystemPeerSecurityMutationBackend_def)
  from forget_paired_effect [OF this] show "trusted b - set ids \<subseteq> trusted b' \<and> trusted b' \<subseteq> trusted b
    \<and> paired_ids S b' = paired_ids S b \<and> stored b' = stored b"
    by simp
next
  fix i b b' c assume "clear_pairing (SystemPeerSecurityMutationBackend S) i b = (b', Inr c)"
  then have c: "system_clear_pairing S i b = (b', Inr c)" by (simp add: SystemPeerSecurityMutationBackend_def)
  from clear_effect [OF c] show "paired_ids S b' = paired_ids S b - {i} \<and> trusted b' = trusted b \<and> stored b' = stored b"
    by auto
next
  fix i b b' e assume "clear_pairing (SystemPeerSecurityMutationBackend S) i b = (b', Inl e)"
  then have c: "system_clear_pairing S i b = (b', Inl e)" by (simp add: SystemPeerSecurityMutationBackend_def)
  from clear_effect [OF c] show "paired_ids S b - {i} \<subseteq> paired_ids S b' \<and> paired_ids S b' \<subseteq> paired_ids S b
      \<and> trusted b' = trusted b \<and> stored b' = stored b"
    by auto
next
  fix i b b' c assume "remove_peer_config (SystemPeerSecurityMutationBackend S) i b = (b', Inr c)"
  then have "remove_config S i b = (b', Inr c)" by (simp add: SystemPeerSecurityMutationBackend_def)
  from config_removed [OF this] show "stored b' = stored b - {i} \<and> paired_ids S b - {i} \<subseteq> paired_ids S b'
      \<and> paired_ids S b' \<subseteq> paired_ids S b \<and> trusted b' = trusted b"
    by (auto simp: paired_ids_def has_pairing_def pairing_options_def)
next
  fix i b b' e assume "remove_peer_config (SystemPeerSecurityMutationBackend S) i b = (b', Inl e)"
  then have "remove_config S i b = (b', Inl e)" by (simp add: SystemPeerSecurityMutationBackend_def)
  note x = config_failed [OF this]
  have "has_pairing (load_options S k b') \<Longrightarrow> has_pairing (load_options S k b)" for k
    using x by (cases "load_options S k b' = load_options S k b") (auto dest: has_pairing_nonempty)
  moreover have "k \<noteq> i \<Longrightarrow> load_options S k b' = load_options S k b" for k using x by blast
  ultimately show "stored b - {i} \<subseteq> stored b' \<and> stored b' \<subseteq> stored b \<and> paired_ids S b - {i} \<subseteq> paired_ids S b'
      \<and> paired_ids S b' \<subseteq> paired_ids S b \<and> trusted b' = trusted b"
    using x by (auto simp: paired_ids_def)
qed

context peer_stores
begin

lemma system_backend: "peer_backend (SystemPeerSecurityMutationBackend S) trusted (paired_ids S) stored"
  by (rule system.peer_backend_axioms)

end

section \<open>Instances\<close>

text \<open>The backend of the source's tests: sets of identifiers, and one call that fails once.\<close>

record FakeBackend =
  quic_ids :: "string set"
  paired_configs :: "string set"
  peer_configs :: "string set"
  fail_once_for :: "string option"

definition Fake :: "FakeBackend Backend" where
  "Fake = \<lparr>remove_quic_ids = (\<lambda>ids b. (b\<lparr>quic_ids := quic_ids b - set ids\<rparr>, Inr (filter (\<lambda>i. i \<in> quic_ids b) ids))),
     clear_pairing = (\<lambda>i b. if fail_once_for b = Some i
        then (b\<lparr>fail_once_for := None\<rparr>, Inl ''injected pairing persistence failure'')
        else (b\<lparr>paired_configs := paired_configs b - {i}\<rparr>, Inr (i \<in> paired_configs b))),
     remove_peer_config = (\<lambda>i b. (b\<lparr>peer_configs := peer_configs b - {i}\<rparr>, Inr (i \<in> peer_configs b)))\<rparr>"

interpretation fb: peer_backend Fake quic_ids paired_configs peer_configs
  by unfold_locales (auto simp: Fake_def split: if_splits)

text \<open>Stores that keep the trusted identities and the options in memory; an identity with an empty name is invalid.\<close>

record MemoryStores =
  mem_trusted :: "string set"
  mem_options :: "string \<Rightarrow> (string \<Rightarrow> string option)"
  mem_stored :: "string set"

definition Memory :: "MemoryStores Stores" where
  "Memory = \<lparr>trusted_open = (\<lambda>d. Inr ()),
     trusted_remove = (\<lambda>i d. if i = [] \<and> i \<notin> mem_trusted d then (d, InvalidPeerId)
        else (d\<lparr>mem_trusted := mem_trusted d - {i}\<rparr>, Removed (i \<in> mem_trusted d))),
     load_options = (\<lambda>i d. mem_options d i),
     store_options = (\<lambda>i opts d. (d\<lparr>mem_options := (mem_options d)(i := opts),
        mem_stored := (if mem_options d i = Map.empty then insert i (mem_stored d) else mem_stored d)\<rparr>, Inr ())),
     remove_config = (\<lambda>i d. (d\<lparr>mem_options := (mem_options d)(i := Map.empty), mem_stored := mem_stored d - {i}\<rparr>,
        Inr (i \<in> mem_stored d)))\<rparr>"

interpretation ms: peer_stores Memory mem_trusted mem_stored
  by unfold_locales (auto simp: Memory_def split: if_splits)

section \<open>Properties\<close>

lemma prepare_valid:
  assumes "Journal_prepare paired_peers pid op = Inr j"
  obtains records where "paired_peers = Inr records" "Journal_validate j = Inr ()" "\<not> committed j" "operation j = op"
    "peer_config_id j = pid" "quic_peer_ids j = planned_quic_peer_ids records pid"
    "set (config_ids j) = insert pid (set (planned_quic_peer_ids records pid))"
  using assms
  by (auto simp: Journal_prepare_def Let_def peer_security_config_ids_def sort_dedup_def set_insort_key split: sum.splits)

text \<open>
  C17. Recovery at the next start. Whatever calls of an earlier attempt were made for a journal that
  is on disk and not committed, a recovery that succeeds leaves exactly the state the journal asked
  for when it was written and no journal that could be applied again; one that fails keeps the
  journal, and its state is again one from which recovery completes.
\<close>

theorem peer_security_recovery:
  assumes "peer_stores S trusted stored" and "Journal_validate j = Inr ()" and "\<not> committed j"
    and "interrupted (SystemPeerSecurityMutationBackend S) j d0 d"
  shows "case recover_pending_with (SystemPeerSecurityMutationBackend S) so del (Encoded j, d) of
       ((f', d'), Inl e) \<Rightarrow> f' = Encoded j \<and> interrupted (SystemPeerSecurityMutationBackend S) j d0 d'
     | ((f', d'), Inr r) \<Rightarrow> no_uncommitted f' \<and> trusted d' = trusted d0 - set (quic_peer_ids j)
         \<and> paired_ids S d' = paired_ids S d0 - set (config_ids j) \<and> stored d' = stored d0 - removed_configs j"
proof -
  have b: "peer_backend (SystemPeerSecurityMutationBackend S) trusted (paired_ids S) stored"
    by (rule peer_stores.system_backend [OF assms(1)])
  have "recover_pending_with (SystemPeerSecurityMutationBackend S) so del (Encoded j, d)
      = complete_journal (SystemPeerSecurityMutationBackend S) so del j (Encoded j, d)"
    using assms(2) by (simp add: recover_pending_with_def load_journal_def)
  with peer_backend.completion [OF b assms(4,3) validate_peer_in [OF assms(2)], of so del]
  show ?thesis by (simp only: peer_backend.done_with_def [OF b])
qed

text \<open>
  C18. A removal or a reset of the pairing from a start without a journal. When it succeeds, the
  identities that share the key and the certificate of the peer are no longer trusted, the pairing
  of the peer and of all of them is cleared and, for a removal, its configuration is gone; when it
  fails, either nothing was changed and no journal is left, or the journal that completes the change
  is on disk.
\<close>

theorem peer_security_mutation_durable:
  assumes "peer_stores S trusted stored"
  shows "case Repository_mutate (SystemPeerSecurityMutationBackend S) (Inr records) io pid op (NotFound, d) of
       ((f', d'), Inl e) \<Rightarrow> f' = NotFound \<and> d' = d
         \<or> (\<exists>j. Journal_prepare (Inr records) pid op = Inr j \<and> f' = Encoded j
              \<and> interrupted (SystemPeerSecurityMutationBackend S) j d d')
     | ((f', d'), Inr r) \<Rightarrow> no_uncommitted f'
         \<and> trusted d' = trusted d - set (planned_quic_peer_ids records pid)
         \<and> paired_ids S d' = paired_ids S d - insert pid (set (planned_quic_peer_ids records pid))
         \<and> stored d' = (if op = RemovePeer then stored d - {pid} else stored d)"
proof (cases "Journal_prepare (Inr records) pid op")
  case (Inl e)
  then show ?thesis by (simp add: Repository_mutate_def recover_pending_with_def load_journal_def)
next
  case (Inr j)
  have b: "peer_backend (SystemPeerSecurityMutationBackend S) trusted (paired_ids S) stored"
    by (rule peer_stores.system_backend [OF assms])
  from Inr obtain rs where j: "records = rs" "Journal_validate j = Inr ()" "\<not> committed j" "operation j = op"
    "peer_config_id j = pid" "quic_peer_ids j = planned_quic_peer_ids rs pid"
    "set (config_ids j) = insert pid (set (planned_quic_peer_ids rs pid))" by (auto elim: prepare_valid)
  have m: "Repository_mutate (SystemPeerSecurityMutationBackend S) (Inr records) io pid op (NotFound, d)
      = (if prepare_store io
         then complete_journal (SystemPeerSecurityMutationBackend S) (commit_store io) (commit_delete io) j (Encoded j, d)
         else ((NotFound, d), Inl ''failed to persist peer-security mutation journal''))"
    using Inr by (simp add: Repository_mutate_def recover_pending_with_def load_journal_def)
  have "case complete_journal (SystemPeerSecurityMutationBackend S) (commit_store io) (commit_delete io) j (Encoded j, d) of
       ((f', d'), Inl e) \<Rightarrow> f' = Encoded j \<and> interrupted (SystemPeerSecurityMutationBackend S) j d d'
     | ((f', d'), Inr r) \<Rightarrow> no_uncommitted f' \<and> peer_backend.done_with trusted (paired_ids S) stored j d d'"
    by (rule peer_backend.completion [OF b interrupted.start j(3) validate_peer_in [OF j(2)]])
  with j Inr m show ?thesis
    by (auto simp: peer_backend.done_with_def [OF b] removed_configs_def case_prod_beta split: sum.splits)
qed

definition ps_demo_journal :: PeerSecurityMutationJournal where
  "ps_demo_journal = \<lparr>version = 1, committed = False, operation = RemovePeer, peer_config_id = ''peer'',
     config_ids = [''alias'', ''peer''], quic_peer_ids = [''alias'', ''peer'']\<rparr>"

definition ps_demo_stores :: MemoryStores where
  "ps_demo_stores = \<lparr>mem_trusted = {''alias'', ''peer'', ''other''},
     mem_options = (\<lambda>_. Map.empty)(''peer'' := [''pinned-signing-key'' \<mapsto> ''k'']), mem_stored = {''peer''}\<rparr>"

theorem peer_security_recovery_witness:
  "let B = SystemPeerSecurityMutationBackend Memory;
       d = fst (remove_quic_ids B [''alias'', ''peer''] ps_demo_stores)
   in case recover_pending_with B True False (Encoded ps_demo_journal, d) of
        ((f', d'), Inl e) \<Rightarrow> f' = Encoded ps_demo_journal \<and> interrupted B ps_demo_journal ps_demo_stores d'
      | ((f', d'), Inr r) \<Rightarrow> no_uncommitted f'
          \<and> mem_trusted d' = mem_trusted ps_demo_stores - set (quic_peer_ids ps_demo_journal)
          \<and> paired_ids Memory d' = paired_ids Memory ps_demo_stores - set (config_ids ps_demo_journal)
          \<and> mem_stored d' = mem_stored ps_demo_stores - removed_configs ps_demo_journal"
proof -
  have v: "Journal_validate ps_demo_journal = Inr ()"
    by (simp add: Journal_validate_def validate_ids_def valid_id_def ps_demo_journal_def JOURNAL_VERSION_def
        MAX_MUTATION_IDS_def MAX_MUTATION_ID_BYTES_def)
  have c: "\<not> committed ps_demo_journal" by (simp add: ps_demo_journal_def)
  have q: "[''alias'', ''peer''] = quic_peer_ids ps_demo_journal" by (simp add: ps_demo_journal_def)
  show ?thesis
    unfolding Let_def q
    by (rule peer_security_recovery [OF ms.peer_stores_axioms v c interrupted.quic_call [OF interrupted.start]])
qed

theorem peer_security_mutation_durable_witness:
  "case Repository_mutate (SystemPeerSecurityMutationBackend Memory)
       (Inr [\<lparr>rec_peer_id = ''peer'', identity_key = ''k'', certificate_pin = ''c''\<rparr>])
       \<lparr>recover_store = True, recover_delete = True, prepare_store = True, commit_store = True, commit_delete = True\<rparr>
       ''peer'' RemovePeer (NotFound, ps_demo_stores) of
     ((f', d'), Inl e) \<Rightarrow> False
   | ((f', d'), Inr r) \<Rightarrow> mem_trusted d' = {''alias'', ''other''} \<and> mem_stored d' = {}"
proof -
  let ?rs = "[\<lparr>rec_peer_id = ''peer'', identity_key = ''k'', certificate_pin = ''c''\<rparr>]"
  let ?io = "\<lparr>recover_store = True, recover_delete = True, prepare_store = True, commit_store = True, commit_delete = True\<rparr>"
  let ?m = "Repository_mutate (SystemPeerSecurityMutationBackend Memory) (Inr ?rs) ?io ''peer'' RemovePeer
    (NotFound, ps_demo_stores)"
  have pl: "planned_quic_peer_ids ?rs ''peer'' = [''peer'']" by (simp add: planned_quic_peer_ids_def sort_dedup_def)
  obtain j where j: "Journal_prepare (Inr ?rs) ''peer'' RemovePeer = Inr j" "operation j = RemovePeer" "\<not> committed j"
    "quic_peer_ids j = [''peer'']" "config_ids j = [''peer'']"
    by (simp add: Journal_prepare_def Let_def pl sort_dedup_def peer_security_config_ids_def Journal_validate_def
        validate_ids_def valid_id_def JOURNAL_VERSION_def MAX_MUTATION_IDS_def MAX_MUTATION_ID_BYTES_def)
  have "\<exists>b r. apply_journal (SystemPeerSecurityMutationBackend Memory) j ps_demo_stores = (b, Inr r)"
    by (simp add: apply_journal_def j SystemPeerSecurityMutationBackend_def forget_paired_peer_ids_def Memory_def
        system_clear_pairing_def case_prod_beta clear_options_eq ps_demo_stores_def)
  then have "\<exists>st r. ?m = (st, Inr r)"
    by (auto simp: Repository_mutate_def recover_pending_with_def load_journal_def j complete_journal_def)
  then obtain f d r where m: "?m = ((f, d), Inr r)" by auto
  with pl peer_security_mutation_durable [OF ms.peer_stores_axioms, where records = ?rs and io = ?io and pid = "''peer''" and op = RemovePeer and d = ps_demo_stores] m
  show ?thesis by (auto simp: ps_demo_stores_def)
qed

end
