(* ===== verification/DisplayControl.thy ===== *)
theory DisplayControl
  imports Prelude "HOL-Library.Product_Lexorder"
begin

text \<open>
  The viewer's outbox of display requests, \<^verbatim>\<open>src/src/client/display_control.rs\<close>, and its part of the
  wakeup of the connection loop in \<^verbatim>\<open>src/src/client/io_loop.rs\<close> that reconciles the outbox with the
  intent of the user interface and sends at most three commands.

  A wakeup reads the intent anew in every round and may lose the connection or fail to send: the
  outcomes of one round are a \<open>WakeupStep\<close>. The bookkeeping of the startup recovery and the logging of
  the wakeup are left out.
\<close>

section \<open>Data\<close>

record DisplayActivation =
  act_display :: nat
  act_generation :: nat
  view_count :: nat

record DisplayMediaIntent =
  logical_session_generation :: nat
  aggregate_generation :: nat
  displays :: "DisplayActivation list"
  replacement_display :: "nat option"

definition replacement_refresh_required :: "bool \<Rightarrow> bool \<Rightarrow> bool \<Rightarrow> bool" where
  "replacement_refresh_required supports_set desktop_viewer display_set_starts_capture =
     (supports_set \<and> desktop_viewer \<and> \<not> display_set_starts_capture)"

datatype DisplayControlCommand = SetDisplays "int list" | Select int | Replace int int int | Refresh int

datatype DisplayMisc = CaptureDisplays "int list" | SwitchDisplay int int int | RefreshVideoDisplay int

definition command_message :: "DisplayControlCommand \<Rightarrow> DisplayMisc" where
  "command_message c = (case c of
     SetDisplays s \<Rightarrow> CaptureDisplays s
   | Select d \<Rightarrow> SwitchDisplay d 0 0
   | Replace d w h \<Rightarrow> SwitchDisplay d w h
   | Refresh d \<Rightarrow> RefreshVideoDisplay d)"

record DisplayIntentOutbox =
  outbox_round :: nat
  generation :: "(nat \<times> nat) option"
  desired :: "int list"
  admitted :: "int list option"
  selected :: "int option"
  metadata_selection :: "int option"
  failures :: nat
  replacement_generation :: "(nat \<times> nat) option"
  replacement :: "DisplayControlCommand option"
  refresh_replacement :: bool

definition Outbox_new :: "nat \<Rightarrow> DisplayIntentOutbox" where
  "Outbox_new r = \<lparr>outbox_round = r, generation = None, desired = [], admitted = None, selected = None,
     metadata_selection = None, failures = 0, replacement_generation = None, replacement = None,
     refresh_replacement = False\<rparr>"

section \<open>Operations\<close>

abbreviation intent_generation :: "DisplayMediaIntent \<Rightarrow> nat \<times> nat" where
  "intent_generation i \<equiv> (logical_session_generation i, aggregate_generation i)"

definition i32_try_from :: "nat \<Rightarrow> int option" where
  "i32_try_from n = (if int n \<le> i32_max then Some (int n) else None)"

definition wanted_displays :: "DisplayMediaIntent \<Rightarrow> int list" where
  "wanted_displays i = remdups_adj (sort (List.map_filter (i32_try_from \<circ> act_display) (displays i)))"

definition Outbox_observe :: "nat \<Rightarrow> DisplayMediaIntent \<Rightarrow> DisplayIntentOutbox \<Rightarrow> DisplayIntentOutbox" where
  "Outbox_observe r i b =
     (if r \<noteq> outbox_round b \<or> aggregate_generation i = 0 then b
      else if is_some_and (generation b) (\<lambda>current. intent_generation i \<le> current) then b
      else (let b1 = (if is_some_and (generation b) (\<lambda>current. fst current \<noteq> fst (intent_generation i))
                      then b\<lparr>admitted := None, selected := None, metadata_selection := None\<rparr> else b)
            in b1\<lparr>generation := Some (intent_generation i), replacement := None, desired := wanted_displays i\<rparr>))"

definition Outbox_replace ::
  "nat \<Rightarrow> DisplayMediaIntent \<Rightarrow> int \<Rightarrow> int \<times> int \<Rightarrow> bool \<Rightarrow> DisplayIntentOutbox \<Rightarrow> DisplayIntentOutbox" where
  "Outbox_replace r i d res refresh b =
     (if r \<noteq> outbox_round b \<or> generation b \<noteq> Some (intent_generation i)
         \<or> replacement_generation b = Some (intent_generation i) \<or> desired b \<noteq> [d] then b
      else b\<lparr>replacement_generation := Some (intent_generation i),
             replacement := Some (Replace d (fst res) (snd res)), refresh_replacement := refresh\<rparr>)"

definition Outbox_pending :: "nat \<Rightarrow> bool \<Rightarrow> DisplayIntentOutbox \<Rightarrow> DisplayControlCommand option" where
  "Outbox_pending r supports_set b =
     (if r \<noteq> outbox_round b \<or> generation b = None then None
      else if supports_set \<and> admitted b \<noteq> Some (desired b) then Some (SetDisplays (desired b))
      else case replacement b of
             Some c \<Rightarrow> Some c
           | None \<Rightarrow>
               (case desired b of
                  [d] \<Rightarrow> if selected b \<noteq> Some d then Some (Select d) else None
                | _ \<Rightarrow> None))"

definition Outbox_admit :: "nat \<Rightarrow> DisplayControlCommand \<Rightarrow> DisplayIntentOutbox \<Rightarrow> DisplayIntentOutbox" where
  "Outbox_admit r c b =
     (if r \<noteq> outbox_round b then b
      else case c of
        SetDisplays s \<Rightarrow>
          if s = desired b
          then b\<lparr>admitted := Some s, selected := (if length s \<noteq> 1 then None else selected b), failures := 0\<rparr> else b
      | Select d \<Rightarrow>
          if desired b = [d] then b\<lparr>selected := Some d, metadata_selection := Some d, failures := 0\<rparr> else b
      | Replace d w h \<Rightarrow>
          if replacement b = Some c
          then b\<lparr>selected := Some d, replacement := (if refresh_replacement b then Some (Refresh d) else None),
                 failures := 0\<rparr> else b
      | Refresh d \<Rightarrow> if replacement b = Some c then b\<lparr>replacement := None, failures := 0\<rparr> else b)"

fun is_power_of_two :: "nat \<Rightarrow> bool" where
  "is_power_of_two n = (if n \<le> 1 then n = 1 else even n \<and> is_power_of_two (n div 2))"

declare is_power_of_two.simps [simp del]

definition Outbox_record_failure :: "DisplayIntentOutbox \<Rightarrow> DisplayIntentOutbox \<times> bool" where
  "Outbox_record_failure b =
     (let n = sat_add u64_max (failures b) 1 in (b\<lparr>failures := n\<rparr>, is_power_of_two n))"

definition Outbox_take_metadata_selection :: "int \<Rightarrow> DisplayIntentOutbox \<Rightarrow> DisplayIntentOutbox \<times> bool" where
  "Outbox_take_metadata_selection d b =
     (if metadata_selection b = Some d then (b\<lparr>metadata_selection := None\<rparr>, True) else (b, False))"

section \<open>A wakeup of the connection loop\<close>

text \<open>
  What a wakeup reads: whether the connection is up, what the peer supports, and the resolution the
  user chose for a display.
\<close>

record OutboxContext =
  connection_round :: nat
  is_connected :: bool
  supports_multi_ui :: bool
  desktop_viewer :: bool
  set_starts_capture :: bool
  custom_resolution :: "int \<Rightarrow> (int \<times> int) option"

record WakeupStep =
  still_current :: bool
  latest :: "DisplayMediaIntent option"
  sent_ok :: bool

definition reconcile_display_intent :: "OutboxContext \<Rightarrow> DisplayMediaIntent \<Rightarrow> DisplayIntentOutbox \<Rightarrow> DisplayIntentOutbox" where
  "reconcile_display_intent ctx i b =
     (let b1 = Outbox_observe (connection_round ctx) i b
      in case (if is_connected ctx then Option.bind (replacement_display i) i32_try_from else None) of
           None \<Rightarrow> b1
         | Some d \<Rightarrow> Outbox_replace (connection_round ctx) i d (unwrap_or (custom_resolution ctx d) (0, 0))
             (replacement_refresh_required (supports_multi_ui ctx) (desktop_viewer ctx) (set_starts_capture ctx)) b1)"

text \<open>The rounds of a wakeup; the second component are the commands that were sent.\<close>

fun sync_rounds ::
  "OutboxContext \<Rightarrow> WakeupStep list \<Rightarrow> DisplayIntentOutbox \<Rightarrow> DisplayIntentOutbox \<times> DisplayControlCommand list" where
  "sync_rounds ctx [] b = (b, [])"
| "sync_rounds ctx (w # ws) b =
     (if \<not> still_current w then (b, [])
      else (let b1 = (case latest w of None \<Rightarrow> b | Some i \<Rightarrow> reconcile_display_intent ctx i b)
            in case Outbox_pending (connection_round ctx) (supports_multi_ui ctx) b1 of
                 None \<Rightarrow> (b1, [])
               | Some c \<Rightarrow>
                   (if sent_ok w
                    then (let (b2, cs) = sync_rounds ctx ws (Outbox_admit (connection_round ctx) c b1) in (b2, c # cs))
                    else (fst (Outbox_record_failure b1), []))))"

definition SYNC_ROUNDS :: nat where "SYNC_ROUNDS = 3"

definition sync_display_intent_to_peer ::
  "OutboxContext \<Rightarrow> DisplayMediaIntent option \<Rightarrow> bool \<Rightarrow> (nat \<Rightarrow> WakeupStep) \<Rightarrow> DisplayIntentOutbox
     \<Rightarrow> DisplayIntentOutbox \<times> DisplayControlCommand list" where
  "sync_display_intent_to_peer ctx intent current env b =
     (case intent of
        None \<Rightarrow> (b, [])
      | Some i \<Rightarrow>
          (let b1 = reconcile_display_intent ctx i b
           in if \<not> is_connected ctx \<or> \<not> current then (b1, [])
              else sync_rounds ctx (map env [0..<SYNC_ROUNDS]) b1))"

section \<open>Draining an outbox\<close>

text \<open>
  An outbox whose pending command is retired by its admission: a measure of the outstanding work
  falls with every admitted command, so as many rounds as there is work empty it.
\<close>

locale command_outbox =
  fixes ok :: "'b \<Rightarrow> bool" and pend :: "'b \<Rightarrow> 'c option" and adm :: "'c \<Rightarrow> 'b \<Rightarrow> 'b" and work :: "'b \<Rightarrow> nat"
  assumes admit_ok: "ok b \<Longrightarrow> pend b = Some c \<Longrightarrow> ok (adm c b)"
    and admit_work: "ok b \<Longrightarrow> pend b = Some c \<Longrightarrow> work (adm c b) < work b"
begin

fun drain :: "nat \<Rightarrow> 'b \<Rightarrow> 'b \<times> 'c list" where
  "drain 0 b = (b, [])"
| "drain (Suc n) b = (case pend b of None \<Rightarrow> (b, []) | Some c \<Rightarrow> (let (b', cs) = drain n (adm c b) in (b', c # cs)))"

lemma drain_ok: "ok b \<Longrightarrow> ok (fst (drain n b))"
  by (induction n arbitrary: b) (auto simp: case_prod_beta admit_ok split: option.split)

lemma drain_empties: "ok b \<Longrightarrow> work b \<le> n \<Longrightarrow> pend (fst (drain n b)) = None"
proof (induction n arbitrary: b)
  case 0
  then show ?case using admit_work [of b] by (cases "pend b") auto
next
  case (Suc n)
  show ?case
  proof (cases "pend b")
    case (Some c)
    have "work (adm c b) \<le> n" using admit_work [OF Suc.prems(1) Some] Suc.prems(2) by simp
    from Suc.IH [OF admit_ok [OF Suc.prems(1) Some] this] Some show ?thesis by (simp add: case_prod_beta)
  qed simp
qed

lemma drain_length: "length (snd (drain n b)) \<le> n"
  by (induction n arbitrary: b) (auto simp: case_prod_beta split: option.split)

lemma drain_invariant:
  assumes "\<And>b c. ok b \<Longrightarrow> P b \<Longrightarrow> pend b = Some c \<Longrightarrow> P (adm c b)"
  shows "ok b \<Longrightarrow> P b \<Longrightarrow> P (fst (drain n b))"
  using assms by (induction n arbitrary: b) (auto simp: case_prod_beta admit_ok split: option.split)

end

section \<open>The outbox of the viewer\<close>

text \<open>A replacement in flight concerns the one display that is desired, and its refresh a display that is selected.\<close>

definition outbox_ok :: "DisplayIntentOutbox \<Rightarrow> bool" where
  "outbox_ok b = (case replacement b of
     None \<Rightarrow> True
   | Some (Replace d w h) \<Rightarrow> desired b = [d]
   | Some (Refresh d) \<Rightarrow> desired b = [d] \<and> selected b = Some d
   | Some _ \<Rightarrow> False)"

lemma outbox_ok_frame [simp]:
  "outbox_ok (b\<lparr>failures := n\<rparr>) = outbox_ok b" "outbox_ok (b\<lparr>metadata_selection := m\<rparr>) = outbox_ok b"
  by (simp_all add: outbox_ok_def cong: option.case_cong DisplayControlCommand.case_cong)

definition outbox_work :: "bool \<Rightarrow> DisplayIntentOutbox \<Rightarrow> nat" where
  "outbox_work supports_set b =
     (if supports_set \<and> admitted b \<noteq> Some (desired b) then 1 else 0)
     + (case replacement b of
          Some (Replace d w h) \<Rightarrow> if refresh_replacement b then 2 else 1
        | Some _ \<Rightarrow> 1
        | None \<Rightarrow> (case desired b of [d] \<Rightarrow> if selected b \<noteq> Some d then 1 else 0 | _ \<Rightarrow> 0))"

lemma outbox_work_bound: "outbox_work s b \<le> SYNC_ROUNDS"
  by (auto simp: outbox_work_def SYNC_ROUNDS_def split: option.split DisplayControlCommand.split list.split)

lemma pending_cases:
  assumes "Outbox_pending r s b = Some c"
  obtains (set) "c = SetDisplays (desired b)" "s" "admitted b \<noteq> Some (desired b)" "r = outbox_round b"
  | (replacement) "replacement b = Some c" "r = outbox_round b" "s \<longrightarrow> admitted b = Some (desired b)"
  | (select) d where "replacement b = None" "desired b = [d]" "selected b \<noteq> Some d" "c = Select d" "r = outbox_round b"
      "s \<longrightarrow> admitted b = Some (desired b)"
proof -
  have r: "r = outbox_round b" using assms by (auto simp: Outbox_pending_def split: if_splits)
  show thesis
  proof (cases "s \<and> admitted b \<noteq> Some (desired b)")
    case True
    with assms r show thesis by (intro set) (simp_all add: Outbox_pending_def split: if_splits)
  next
    case False
    show thesis
    proof (cases "replacement b")
      case None
      from assms False None obtain d where "desired b = [d]" "selected b \<noteq> Some d" "c = Select d"
        by (auto simp: Outbox_pending_def split: if_splits list.splits)
      with None r False show thesis by (intro select) auto
    next
      case (Some c')
      with assms r False show thesis by (intro replacement) (auto simp: Outbox_pending_def split: if_splits)
    qed
  qed
qed

interpretation ob: command_outbox outbox_ok "Outbox_pending r s" "Outbox_admit r" "outbox_work s" for r s
proof
  fix b c assume ok: "outbox_ok b" and p: "Outbox_pending r s b = Some c"
  show "outbox_ok (Outbox_admit r c b)"
    using p
  proof (cases rule: pending_cases)
    case set
    with ok show ?thesis by (auto simp: Outbox_admit_def outbox_ok_def split: option.splits DisplayControlCommand.splits)
  next
    case replacement
    with ok show ?thesis by (cases c) (auto simp: Outbox_admit_def outbox_ok_def)
  next
    case (select d)
    with ok show ?thesis by (auto simp: Outbox_admit_def outbox_ok_def)
  qed
  show "outbox_work s (Outbox_admit r c b) < outbox_work s b"
    using p
  proof (cases rule: pending_cases)
    case set
    with ok show ?thesis
      by (auto simp: Outbox_admit_def outbox_work_def outbox_ok_def split: option.splits DisplayControlCommand.splits list.splits)
  next
    case replacement
    with ok show ?thesis by (cases c) (auto simp: Outbox_admit_def outbox_work_def outbox_ok_def)
  next
    case (select d)
    with ok show ?thesis by (auto simp: Outbox_admit_def outbox_work_def)
  qed
qed

lemma observe_ok: "outbox_ok b \<Longrightarrow> outbox_ok (Outbox_observe r i b)"
  by (simp add: Outbox_observe_def outbox_ok_def Let_def)

lemma replace_ok: "outbox_ok b \<Longrightarrow> outbox_ok (Outbox_replace r i d x f b)"
  by (simp add: Outbox_replace_def outbox_ok_def)

lemma reconcile_ok: "outbox_ok b \<Longrightarrow> outbox_ok (reconcile_display_intent ctx i b)"
  by (simp add: reconcile_display_intent_def Let_def observe_ok replace_ok split: option.split)

lemma sync_rounds_ok: "outbox_ok b \<Longrightarrow> outbox_ok (fst (sync_rounds ctx ws b))"
proof (induction ctx ws b rule: sync_rounds.induct)
  case (2 ctx w ws b)
  define b1 where "b1 = (case latest w of None \<Rightarrow> b | Some i \<Rightarrow> reconcile_display_intent ctx i b)"
  have ok: "outbox_ok b1" using 2(2) by (auto simp: b1_def reconcile_ok split: option.split)
  then have fail: "outbox_ok (fst (Outbox_record_failure b1))"
    by (simp add: Outbox_record_failure_def Let_def)
  show ?case
    using 2(2) ok fail 2(1) [OF _ b1_def _ _ ob.admit_ok [OF ok]]
    by (auto simp: b1_def [symmetric] case_prod_beta Let_def split: option.split)
qed simp

lemma take_metadata_ok: "outbox_ok b \<Longrightarrow> outbox_ok (fst (Outbox_take_metadata_selection d b))"
  by (simp add: Outbox_take_metadata_selection_def)

text \<open>The runs of an outbox on a connection: wakeups with any intents and outcomes, and echoes of the peer.\<close>

inductive outbox_step :: "DisplayIntentOutbox \<Rightarrow> DisplayIntentOutbox \<Rightarrow> bool" where
  reconcile: "outbox_step b (reconcile_display_intent ctx i b)"
| wakeup: "outbox_step b (fst (sync_display_intent_to_peer ctx intent current env b))"
| echo: "outbox_step b (fst (Outbox_take_metadata_selection d b))"

lemma sync_ok: "outbox_ok b \<Longrightarrow> outbox_ok (fst (sync_display_intent_to_peer ctx intent current env b))"
  by (auto simp: sync_display_intent_to_peer_def Let_def reconcile_ok sync_rounds_ok split: option.split)

lemma outbox_reachable_ok:
  assumes "outbox_step\<^sup>*\<^sup>* (Outbox_new r) b"
  shows "outbox_ok b"
  using assms
proof induction
  case base
  show ?case by (simp add: Outbox_new_def outbox_ok_def)
next
  case (step b b')
  from step.hyps(2) step.IH show ?case
    by cases (simp_all add: reconcile_ok sync_ok take_metadata_ok)
qed

text \<open>A replacement was asked for by the current intent or an older one.\<close>

definition outbox_gen :: "DisplayIntentOutbox \<Rightarrow> bool" where
  "outbox_gen b = (\<forall>g. replacement_generation b = Some g \<longrightarrow> (\<exists>h. generation b = Some h \<and> g \<le> h))"

lemma observe_gen:
  assumes "outbox_gen b"
  shows "outbox_gen (Outbox_observe r i b)"
proof (cases "Outbox_observe r i b = b")
  case False
  then have n: "generation (Outbox_observe r i b) = Some (intent_generation i)"
      "replacement_generation (Outbox_observe r i b) = replacement_generation b" "is_none_or (generation b) (\<lambda>g. g < intent_generation i)"
    by (auto simp: Outbox_observe_def Let_def is_some_and_def is_none_or_def not_le split: if_splits option.splits)
  show ?thesis unfolding outbox_gen_def
  proof (intro allI impI)
    fix g assume "replacement_generation (Outbox_observe r i b) = Some g"
    with assms n(2) obtain h where "generation b = Some h" "g \<le> h" unfolding outbox_gen_def by metis
    then show "\<exists>h. generation (Outbox_observe r i b) = Some h \<and> g \<le> h"
      using n(1,3) less_imp_le order_trans by (fastforce simp: is_none_or_def)
  qed
qed (use assms in simp)

lemma replace_gen: "outbox_gen b \<Longrightarrow> outbox_gen (Outbox_replace r i d x f b)"
  by (simp add: Outbox_replace_def outbox_gen_def)

lemma reconcile_gen: "outbox_gen b \<Longrightarrow> outbox_gen (reconcile_display_intent ctx i b)"
  by (simp add: reconcile_display_intent_def Let_def observe_gen replace_gen split: option.split)

lemma admit_gen: "outbox_gen b \<Longrightarrow> outbox_gen (Outbox_admit r c b)"
  by (auto simp: Outbox_admit_def outbox_gen_def split: DisplayControlCommand.split)

lemma sync_rounds_gen: "outbox_gen b \<Longrightarrow> outbox_gen (fst (sync_rounds ctx ws b))"
proof (induction ctx ws b rule: sync_rounds.induct)
  case (2 ctx w ws b)
  define b1 where "b1 = (case latest w of None \<Rightarrow> b | Some i \<Rightarrow> reconcile_display_intent ctx i b)"
  have gen: "outbox_gen b1" using 2(2) by (auto simp: b1_def reconcile_gen split: option.split)
  then have fail: "outbox_gen (fst (Outbox_record_failure b1))"
    by (simp add: Outbox_record_failure_def Let_def outbox_gen_def)
  show ?case
    using 2(2) gen fail 2(1) [OF _ b1_def _ _ admit_gen [OF gen]]
    by (auto simp: b1_def [symmetric] case_prod_beta Let_def split: option.split)
qed simp

lemma sync_gen: "outbox_gen b \<Longrightarrow> outbox_gen (fst (sync_display_intent_to_peer ctx intent current env b))"
  by (auto simp: sync_display_intent_to_peer_def Let_def reconcile_gen sync_rounds_gen split: option.split)

lemma take_metadata_gen: "outbox_gen b \<Longrightarrow> outbox_gen (fst (Outbox_take_metadata_selection d b))"
  by (simp add: Outbox_take_metadata_selection_def outbox_gen_def)

lemma outbox_reachable_gen:
  assumes "outbox_step\<^sup>*\<^sup>* (Outbox_new r) b"
  shows "outbox_gen b"
  using assms
proof induction
  case base
  show ?case by (simp add: Outbox_new_def outbox_gen_def)
next
  case (step b b')
  from step.hyps(2) step.IH show ?case
    by cases (simp_all add: reconcile_gen sync_gen take_metadata_gen)
qed

section \<open>One wakeup delivers the intent\<close>

text \<open>The outbox holds the intent: reading it once more changes nothing.\<close>

definition holds_intent :: "OutboxContext \<Rightarrow> DisplayMediaIntent \<Rightarrow> DisplayIntentOutbox \<Rightarrow> bool" where
  "holds_intent ctx i b \<longleftrightarrow> connection_round ctx = outbox_round b \<and> generation b = Some (intent_generation i)
     \<and> desired b = wanted_displays i
     \<and> (\<forall>d. is_connected ctx \<and> Option.bind (replacement_display i) i32_try_from = Some d \<longrightarrow>
          replacement_generation b = Some (intent_generation i) \<or> desired b \<noteq> [d])"

lemma reconcile_held: "holds_intent ctx i b \<Longrightarrow> reconcile_display_intent ctx i b = b"
  by (auto simp: holds_intent_def reconcile_display_intent_def Outbox_observe_def Outbox_replace_def is_some_and_def Let_def
      split: option.split)

lemma reconcile_holds:
  assumes "connection_round ctx = outbox_round b" "aggregate_generation i \<noteq> 0"
    and "is_none_or (generation b) (\<lambda>g. g < intent_generation i)"
  shows "holds_intent ctx i (reconcile_display_intent ctx i b)"
  using assms
  by (auto simp: holds_intent_def reconcile_display_intent_def Outbox_observe_def Outbox_replace_def is_some_and_def
      is_none_or_def Let_def not_le split: option.splits)

lemma admit_holds: "holds_intent ctx i b \<Longrightarrow> holds_intent ctx i (Outbox_admit r c b)"
  by (auto simp: holds_intent_def Outbox_admit_def split: DisplayControlCommand.split)

lemma sync_rounds_drain:
  assumes "\<forall>w\<in>set ws. still_current w \<and> sent_ok w \<and> latest w = Some i"
  shows "holds_intent ctx i b \<Longrightarrow>
    sync_rounds ctx ws b = ob.drain (connection_round ctx) (supports_multi_ui ctx) (length ws) b"
  using assms
proof (induction ws arbitrary: b)
  case (Cons w ws)
  from Cons.prems(2) have w: "still_current w" "sent_ok w" "latest w = Some i" by auto
  from Cons.prems(2) have ws: "\<forall>w\<in>set ws. still_current w \<and> sent_ok w \<and> latest w = Some i" by simp
  have step: "sync_rounds ctx ws (Outbox_admit (connection_round ctx) c b)
      = ob.drain (connection_round ctx) (supports_multi_ui ctx) (length ws) (Outbox_admit (connection_round ctx) c b)" for c
    by (rule Cons.IH [OF admit_holds [OF Cons.prems(1)] ws])
  from w show ?case by (simp add: reconcile_held [OF Cons.prems(1)] Let_def step split: option.split)
qed simp

lemma drained:
  assumes "holds_intent ctx i b" and "Outbox_pending (connection_round ctx) s b = None"
  shows "s \<longrightarrow> admitted b = Some (wanted_displays i)" and "wanted_displays i = [d] \<Longrightarrow> selected b = Some d"
    and "replacement b = None"
  using assms by (auto simp: holds_intent_def Outbox_pending_def split: if_splits option.splits list.splits)

text \<open>
  What an intent asks of the peer, given what the outbox had delivered before: the set of displays if the peer knows sets
  and was not sent this one; then, for a single display, the replacement with its refresh if the intent asks for a
  replacement of this display, or else its selection if it is not selected. A new session starts with nothing
  delivered.
\<close>

definition same_session :: "DisplayMediaIntent \<Rightarrow> DisplayIntentOutbox \<Rightarrow> bool" where
  "same_session i b = is_none_or (generation b) (\<lambda>g. fst g = logical_session_generation i)"

definition commands_due :: "OutboxContext \<Rightarrow> DisplayMediaIntent \<Rightarrow> DisplayIntentOutbox \<Rightarrow> DisplayControlCommand list" where
  "commands_due ctx i b =
     (let wanted = wanted_displays i;
          was_admitted = (if same_session i b then admitted b else None);
          was_selected = (if same_session i b then selected b else None)
      in (if supports_multi_ui ctx \<and> was_admitted \<noteq> Some wanted then [SetDisplays wanted] else [])
         @ (case wanted of
              [d] \<Rightarrow>
                if Option.bind (replacement_display i) i32_try_from = Some d
                then (let (w, h) = unwrap_or (custom_resolution ctx d) (0, 0)
                      in Replace d w h # (if replacement_refresh_required (supports_multi_ui ctx) (desktop_viewer ctx) (set_starts_capture ctx)
                                          then [Refresh d] else []))
                else if was_selected \<noteq> Some d then [Select d] else []
            | _ \<Rightarrow> []))"

lemma reconciled_fields:
  assumes "connection_round ctx = outbox_round b" "is_connected ctx" "aggregate_generation i \<noteq> 0"
    and "is_none_or (generation b) (\<lambda>g. g < intent_generation i)" "outbox_gen b"
  defines "b1 \<equiv> reconcile_display_intent ctx i b"
  shows "outbox_round b1 = connection_round ctx" "generation b1 = Some (intent_generation i)" "desired b1 = wanted_displays i"
    "admitted b1 = (if same_session i b then admitted b else None)" "selected b1 = (if same_session i b then selected b else None)"
    "Option.bind (replacement_display i) i32_try_from = Some d \<Longrightarrow> wanted_displays i = [d] \<Longrightarrow>
       replacement b1 = (let (w, h) = unwrap_or (custom_resolution ctx d) (0, 0) in Some (Replace d w h))
       \<and> refresh_replacement b1 = replacement_refresh_required (supports_multi_ui ctx) (desktop_viewer ctx) (set_starts_capture ctx)"
    "\<not> (\<exists>d. Option.bind (replacement_display i) i32_try_from = Some d \<and> wanted_displays i = [d]) \<Longrightarrow> replacement b1 = None"
proof -
  define b0 where "b0 = Outbox_observe (connection_round ctx) i b"
  have new: "\<not> is_some_and (generation b) (\<lambda>current. intent_generation i \<le> current)"
    using assms(4) by (auto simp: is_some_and_def is_none_or_def split: option.splits)
  have g: "is_some_and (generation b) (\<lambda>current. fst current \<noteq> fst (intent_generation i)) \<longleftrightarrow> \<not> same_session i b"
    by (auto simp: same_session_def is_some_and_def is_none_or_def split: option.splits)
  have b0: "outbox_round b0 = connection_round ctx" "generation b0 = Some (intent_generation i)" "desired b0 = wanted_displays i"
      "admitted b0 = (if same_session i b then admitted b else None)" "selected b0 = (if same_session i b then selected b else None)"
      "replacement b0 = None" "replacement_generation b0 = replacement_generation b"
    using assms(1,3) new g by (simp_all add: b0_def Outbox_observe_def Let_def)
  have old: "replacement_generation b \<noteq> Some (intent_generation i)"
    using assms(4,5) by (auto simp: outbox_gen_def is_none_or_def)
  have b1: "b1 = (case Option.bind (replacement_display i) i32_try_from of
      None \<Rightarrow> b0
    | Some d \<Rightarrow> Outbox_replace (connection_round ctx) i d (unwrap_or (custom_resolution ctx d) (0, 0))
        (replacement_refresh_required (supports_multi_ui ctx) (desktop_viewer ctx) (set_starts_capture ctx)) b0)"
    using assms(2) unfolding b1_def b0_def reconcile_display_intent_def Let_def by simp
  show "outbox_round b1 = connection_round ctx" "generation b1 = Some (intent_generation i)" "desired b1 = wanted_displays i"
    "admitted b1 = (if same_session i b then admitted b else None)" "selected b1 = (if same_session i b then selected b else None)"
    unfolding b1 using b0 by (auto simp: Outbox_replace_def split: option.split)
  show "replacement b1 = (let (w, h) = unwrap_or (custom_resolution ctx d) (0, 0) in Some (Replace d w h))
       \<and> refresh_replacement b1 = replacement_refresh_required (supports_multi_ui ctx) (desktop_viewer ctx) (set_starts_capture ctx)"
    if "Option.bind (replacement_display i) i32_try_from = Some d" "wanted_displays i = [d]"
    unfolding b1 using that b0 old by (simp add: Outbox_replace_def case_prod_beta Let_def)
  show "replacement b1 = None" if "\<not> (\<exists>d. Option.bind (replacement_display i) i32_try_from = Some d \<and> wanted_displays i = [d])"
    unfolding b1 using that b0 by (auto simp: Outbox_replace_def split: option.split)
qed

lemma drain_sends_due:
  assumes "connection_round ctx = outbox_round b" "is_connected ctx" "aggregate_generation i \<noteq> 0"
    and "is_none_or (generation b) (\<lambda>g. g < intent_generation i)" "outbox_gen b"
  shows "snd (ob.drain (connection_round ctx) (supports_multi_ui ctx) SYNC_ROUNDS (reconcile_display_intent ctx i b)) = commands_due ctx i b"
proof -
  define b1 where "b1 = reconcile_display_intent ctx i b"
  note f = reconciled_fields [OF assms, folded b1_def]
  have three: "SYNC_ROUNDS = Suc (Suc (Suc 0))" by (simp add: SYNC_ROUNDS_def)
  show ?thesis
  proof (cases "\<exists>d. Option.bind (replacement_display i) i32_try_from = Some d \<and> wanted_displays i = [d]")
    case True
    then obtain d where d: "Option.bind (replacement_display i) i32_try_from = Some d" "wanted_displays i = [d]" by blast
    obtain w h where wh: "unwrap_or (custom_resolution ctx d) (0, 0) = (w, h)" by (cases "unwrap_or (custom_resolution ctx d) (0, 0)")
    have r: "replacement b1 = Some (Replace d w h)"
      "refresh_replacement b1 = replacement_refresh_required (supports_multi_ui ctx) (desktop_viewer ctx) (set_starts_capture ctx)"
      using f(6) [OF d] wh by simp_all
    show ?thesis unfolding three b1_def [symmetric] commands_due_def Let_def
      using f(1-5) r d wh by (auto simp: Outbox_pending_def Outbox_admit_def replacement_refresh_required_def)
  next
    case False
    then have r: "replacement b1 = None" by (rule f(7))
    have "\<not> (\<exists>d. wanted_displays i = [d] \<and> Option.bind (replacement_display i) i32_try_from = Some d)" using False by blast
    then show ?thesis unfolding three b1_def [symmetric] commands_due_def Let_def
      using f(1-5) r by (auto simp: Outbox_pending_def Outbox_admit_def split: list.split)
  qed
qed

text \<open>
  C19. One wakeup is enough. From every outbox that the run of a connection reaches, when the user
  interface holds a newer intent and the connection accepts what is sent, the three rounds of one wakeup
  send exactly what the intent asks for, in this order: the set of displays if the peer knows sets and does not have it,
  then for a single display the replacement that the intent asks for, followed by its refresh where the peer needs one, or
  else the selection if another display was selected. Nothing is left pending: the desired set is that of the
  intent, a peer that knows sets was sent it, and a single display is selected.
\<close>

theorem display_intent_delivered:
  assumes "outbox_step\<^sup>*\<^sup>* (Outbox_new r) b" and "connection_round ctx = outbox_round b" and "is_connected ctx"
    and "aggregate_generation i \<noteq> 0" and "is_none_or (generation b) (\<lambda>g. g < intent_generation i)"
    and "\<And>k. k < SYNC_ROUNDS \<Longrightarrow> still_current (env k) \<and> sent_ok (env k) \<and> latest (env k) = Some i"
  shows "let (b', sent) = sync_display_intent_to_peer ctx (Some i) True env b
    in sent = commands_due ctx i b
     \<and> Outbox_pending (connection_round ctx) (supports_multi_ui ctx) b' = None \<and> replacement b' = None
     \<and> desired b' = wanted_displays i
     \<and> (supports_multi_ui ctx \<longrightarrow> admitted b' = Some (wanted_displays i))
     \<and> (\<forall>d. wanted_displays i = [d] \<longrightarrow> selected b' = Some d)"
proof -
  let ?r = "connection_round ctx" and ?s = "supports_multi_ui ctx"
  define b1 where "b1 = reconcile_display_intent ctx i b"
  have ok: "outbox_ok b1" unfolding b1_def by (rule reconcile_ok [OF outbox_reachable_ok [OF assms(1)]])
  have h: "holds_intent ctx i b1" unfolding b1_def by (rule reconcile_holds [OF assms(2,4,5)])
  have w: "\<forall>w\<in>set (map env [0..<SYNC_ROUNDS]). still_current w \<and> sent_ok w \<and> latest w = Some i"
    using assms(6) by simp
  have e: "sync_display_intent_to_peer ctx (Some i) True env b = ob.drain ?r ?s SYNC_ROUNDS b1"
    using sync_rounds_drain [OF w h] assms(3) by (simp add: sync_display_intent_to_peer_def b1_def)
  let ?b = "fst (ob.drain ?r ?s SYNC_ROUNDS b1)"
  have p: "Outbox_pending ?r ?s ?b = None" by (rule ob.drain_empties [OF ok outbox_work_bound])
  have hb: "holds_intent ctx i ?b"
    by (rule ob.drain_invariant [where P = "holds_intent ctx i", OF admit_holds ok h])
  have sent: "snd (ob.drain ?r ?s SYNC_ROUNDS b1) = commands_due ctx i b"
    unfolding b1_def by (rule drain_sends_due [OF assms(2-5) outbox_reachable_gen [OF assms(1)]])
  show ?thesis
    unfolding e case_prod_beta Let_def
    using p drained [OF hb p] sent hb by (auto simp: holds_intent_def)
qed

definition dc_demo_intent :: DisplayMediaIntent where
  "dc_demo_intent = \<lparr>logical_session_generation = 1, aggregate_generation = 2,
     displays = [\<lparr>act_display = 1, act_generation = 1, view_count = 1\<rparr>], replacement_display = Some 1\<rparr>"

definition dc_demo_context :: OutboxContext where
  "dc_demo_context = \<lparr>connection_round = 4, is_connected = True, supports_multi_ui = True, desktop_viewer = True,
     set_starts_capture = False, custom_resolution = (\<lambda>_. None)\<rparr>"

theorem display_intent_delivered_witness:
  "let (b', sent) = sync_display_intent_to_peer dc_demo_context (Some dc_demo_intent) True
       (\<lambda>_. \<lparr>still_current = True, latest = Some dc_demo_intent, sent_ok = True\<rparr>) (Outbox_new 4)
   in desired b' = [1] \<and> admitted b' = Some [1] \<and> selected b' = Some 1
      \<and> sent = [SetDisplays [1], Replace 1 0 0, Refresh 1]"
proof -
  have w: "wanted_displays dc_demo_intent = [1]"
    by (simp add: wanted_displays_def dc_demo_intent_def i32_try_from_def List.map_filter_def)
  have due: "commands_due dc_demo_context dc_demo_intent (Outbox_new 4) = [SetDisplays [1], Replace 1 0 0, Refresh 1]"
    by (simp add: commands_due_def w) (simp add: dc_demo_context_def dc_demo_intent_def Outbox_new_def same_session_def is_none_or_def
        i32_try_from_def replacement_refresh_required_def)
  have c: "connection_round dc_demo_context = outbox_round (Outbox_new 4)" "is_connected dc_demo_context"
    "aggregate_generation dc_demo_intent \<noteq> 0"
    "is_none_or (generation (Outbox_new 4)) (\<lambda>g. g < intent_generation dc_demo_intent)" "supports_multi_ui dc_demo_context"
    by (simp_all add: dc_demo_context_def dc_demo_intent_def Outbox_new_def is_none_or_def)
  show ?thesis
    using display_intent_delivered [OF rtranclp.rtrancl_refl c(1,2,3,4),
        where env = "\<lambda>_. \<lparr>still_current = True, latest = Some dc_demo_intent, sent_ok = True\<rparr>"] w due c(5)
    by (simp add: case_prod_beta Let_def)
qed

end
