(* ===== verification/StreamRecovery.thy ===== *)
theory StreamRecovery
  imports DisplayControl
begin

text \<open>
  The viewer's recovery of a video stream: the startup budget of one display activation
  (\<^verbatim>\<open>src/src/client/startup_recovery.rs\<close>), the controller that owns one budget per display and orders
  its frames (\<^verbatim>\<open>src/src/client/io_loop.rs\<close>), and the recovery of a decoder
  (\<^verbatim>\<open>src/src/client/decoder_recovery.rs\<close>).

  The clock is an argument of the operations. A map from displays is an association list.
\<close>

section \<open>Startup recovery of one display\<close>

definition FIRST_CAPTURE_RETRY :: duration where "FIRST_CAPTURE_RETRY = from_secs 15"
definition CAPTURE_RETRY_INTERVAL :: duration where "CAPTURE_RETRY_INTERVAL = from_secs 40"
definition REFERENCE_INTERVAL :: duration where "REFERENCE_INTERVAL = from_millis 750"
definition DECODE_GRACE :: duration where "DECODE_GRACE = from_secs 3"
definition MAX_REFERENCES :: nat where "MAX_REFERENCES = 3"
definition MAX_CAPTURE_RETRIES :: nat where "MAX_CAPTURE_RETRIES = 2"
definition STARTUP_LIMIT :: duration where "STARTUP_LIMIT = from_secs 110"

datatype StartupRecoveryAction = Reference | Capture | Failed

record StartupRecovery =
  rec_since :: "instant option"
  last_action :: "instant option"
  last_try :: "instant option"
  last_capture :: "instant option"
  keyframe_at :: "instant option"
  reference_attempts :: nat
  capture_attempts :: nat
  is_decoded :: bool
  failed :: bool
  dropped_deltas :: nat

definition StartupRecovery_default :: StartupRecovery where
  "StartupRecovery_default = \<lparr>rec_since = None, last_action = None, last_try = None, last_capture = None,
     keyframe_at = None, reference_attempts = 0, capture_attempts = 0, is_decoded = False, failed = False,
     dropped_deltas = 0\<rparr>"

definition get_or_insert :: "'a option \<Rightarrow> 'a \<Rightarrow> 'a option" where
  "get_or_insert x d = (case x of None \<Rightarrow> Some d | Some v \<Rightarrow> Some v)"

definition Recovery_new_stream :: "instant \<Rightarrow> StartupRecovery \<Rightarrow> StartupRecovery" where
  "Recovery_new_stream now r =
     (let r1 = (if is_decoded r then StartupRecovery_default else r)
      in r1\<lparr>keyframe_at := None, rec_since := get_or_insert (rec_since r1) now\<rparr>)"

definition Recovery_received :: "bool \<Rightarrow> bool \<Rightarrow> instant \<Rightarrow> StartupRecovery \<Rightarrow> StartupRecovery" where
  "Recovery_received keyframe dropped_delta now r =
     r\<lparr>rec_since := get_or_insert (rec_since r) now,
       keyframe_at := (if keyframe then get_or_insert (keyframe_at r) now else keyframe_at r),
       dropped_deltas := (if dropped_delta then sat_add u64_max (dropped_deltas r) 1 else dropped_deltas r)\<rparr>"

definition Recovery_decoded :: "StartupRecovery \<Rightarrow> StartupRecovery" where
  "Recovery_decoded r = r\<lparr>is_decoded := True, failed := False\<rparr>"

definition Recovery_next ::
  "instant \<Rightarrow> bool \<Rightarrow> bool \<Rightarrow> StartupRecovery \<Rightarrow> StartupRecovery \<times> StartupRecoveryAction option" where
  "Recovery_next now known_stream scoped_supported r =
     (if is_decoded r \<or> failed r then (r, None)
      else
        let start = unwrap_or (rec_since r) now;
            r1 = r\<lparr>rec_since := Some start\<rparr>;
            elapsed = since now start;
            last_capture_elapsed = map_option (since now) (last_capture r1)
        in if elapsed \<ge> STARTUP_LIMIT
              \<or> capture_attempts r1 \<ge> MAX_CAPTURE_RETRIES
                \<and> is_some_and last_capture_elapsed (\<lambda>age. age \<ge> CAPTURE_RETRY_INTERVAL)
           then (r1\<lparr>failed := True\<rparr>, Some Failed)
           else if is_some_and (last_try r1) (\<lambda>at. since now at < REFERENCE_INTERVAL) then (r1, None)
           else if known_stream \<and> scoped_supported \<and> reference_attempts r1 < MAX_REFERENCES
              \<and> is_none_or (keyframe_at r1) (\<lambda>at. since now at \<ge> DECODE_GRACE)
              \<and> is_none_or (last_action r1) (\<lambda>at. since now at \<ge> REFERENCE_INTERVAL)
           then (r1, Some Reference)
           else if elapsed \<ge> FIRST_CAPTURE_RETRY \<and> capture_attempts r1 < MAX_CAPTURE_RETRIES
              \<and> is_none_or last_capture_elapsed (\<lambda>age. age \<ge> CAPTURE_RETRY_INTERVAL)
              \<and> is_none_or (last_action r1) (\<lambda>at. since now at \<ge> DECODE_GRACE)
           then (r1, Some Capture)
           else (r1, None))"

definition Recovery_admitted :: "StartupRecoveryAction \<Rightarrow> instant \<Rightarrow> StartupRecovery \<Rightarrow> StartupRecovery" where
  "Recovery_admitted a now r = (case a of
     Reference \<Rightarrow> r\<lparr>reference_attempts := reference_attempts r + 1, last_action := Some now\<rparr>
   | Capture \<Rightarrow> r\<lparr>capture_attempts := capture_attempts r + 1, last_capture := Some now, last_action := Some now\<rparr>
   | Failed \<Rightarrow> r)"

definition Recovery_attempted :: "instant \<Rightarrow> StartupRecovery \<Rightarrow> StartupRecovery" where
  "Recovery_attempted now r = r\<lparr>last_try := Some now\<rparr>"

section \<open>The displays of a connection\<close>

record DisplayStartupState =
  activation_generation :: nat
  startup_stream_id :: nat
  render_stream_id :: nat
  first_frame_received :: bool
  received_frame_id :: nat
  recovery :: StartupRecovery

definition DisplayStartupState_new :: "nat \<Rightarrow> DisplayStartupState" where
  "DisplayStartupState_new g = \<lparr>activation_generation = g, startup_stream_id = 0, render_stream_id = 0,
     first_frame_received = False, received_frame_id = 0, recovery = StartupRecovery_default\<rparr>"

text \<open>A change of the stream: \<open>Inr changed\<close>, or \<open>Inl\<close> of the current stream for an older one.\<close>

definition begin_stream :: "nat \<Rightarrow> instant \<Rightarrow> DisplayStartupState \<Rightarrow> DisplayStartupState \<times> (nat, bool) sum" where
  "begin_stream stream now st =
     (if startup_stream_id st = stream then (st, Inr False)
      else if startup_stream_id st \<noteq> 0 \<and> (stream = 0 \<or> stream < startup_stream_id st)
      then (st, Inl (startup_stream_id st))
      else (st\<lparr>startup_stream_id := stream, render_stream_id := stream, first_frame_received := False,
               received_frame_id := 0, recovery := Recovery_new_stream now (recovery st)\<rparr>, Inr True))"

datatype DisplayStartupFrameAction =
    RejectUndesired
  | RejectStaleStream nat
  | WaitForKeyframe
  | Accept bool bool nat

record DisplayStartupController =
  startup_logical_generation :: nat
  startup_aggregate_generation :: nat
  startup_displays :: "(nat \<times> DisplayStartupState) list"

definition Controller_default :: DisplayStartupController where
  "Controller_default = \<lparr>startup_logical_generation = 0, startup_aggregate_generation = 0, startup_displays = []\<rparr>"

text \<open>The entries of an intent are sorted by display; the binary search finds the entry of a display.\<close>

definition intent_activation :: "DisplayMediaIntent \<Rightarrow> nat \<Rightarrow> DisplayActivation option" where
  "intent_activation i d = find (\<lambda>a. act_display a = d) (displays i)"

definition or_insert :: "nat \<Rightarrow> DisplayStartupState \<Rightarrow> (nat \<times> DisplayStartupState) list \<Rightarrow> (nat \<times> DisplayStartupState) list" where
  "or_insert d st m = (if map_of m d = None then AList.update d st m else m)"

definition retired_displays :: "DisplayMediaIntent \<Rightarrow> (nat \<times> DisplayStartupState) list \<Rightarrow> nat list" where
  "retired_displays i m =
     map fst (filter (\<lambda>(d, st). \<not> is_some_and (intent_activation i d)
       (\<lambda>a. act_generation a = activation_generation st)) m)"

definition Controller_reconcile :: "DisplayMediaIntent \<Rightarrow> DisplayStartupController \<Rightarrow> DisplayStartupController \<times> nat list" where
  "Controller_reconcile i c =
     (let retired = retired_displays i (startup_displays c);
          kept = filter (\<lambda>(d, st). d \<notin> set retired) (startup_displays c);
          m = fold (\<lambda>a. or_insert (act_display a) (DisplayStartupState_new (act_generation a))) (displays i) kept
      in (\<lparr>startup_logical_generation = logical_session_generation i,
           startup_aggregate_generation = aggregate_generation i, startup_displays = m\<rparr>, sort retired))"

definition ensure_legacy_display :: "nat \<Rightarrow> DisplayStartupController \<Rightarrow> DisplayStartupController \<times> DisplayActivation" where
  "ensure_legacy_display d c =
     (let m = or_insert d (DisplayStartupState_new 1) (startup_displays c);
          g = (case map_of m d of None \<Rightarrow> 1 | Some st \<Rightarrow> activation_generation st)
      in (c\<lparr>startup_displays := m\<rparr>, \<lparr>act_display = d, act_generation = g, view_count = 1\<rparr>))"

definition Controller_activation :: "nat \<Rightarrow> DisplayStartupController \<Rightarrow> DisplayActivation option" where
  "Controller_activation d c =
     map_option (\<lambda>st. \<lparr>act_display = d, act_generation = activation_generation st, view_count = 1\<rparr>)
       (map_of (startup_displays c) d)"

definition should_wait_for_startup_keyframe :: "nat \<Rightarrow> (nat \<times> nat \<times> bool) option \<Rightarrow> bool" where
  "should_wait_for_startup_keyframe frame payload_stats =
     (frame \<noteq> 0 \<and> is_some_and payload_stats (\<lambda>(_, _, has_keyframe). \<not> has_keyframe))"

text \<open>A frame of a display whose stream was accepted.\<close>

definition observe_on_stream ::
  "bool \<Rightarrow> nat \<Rightarrow> (nat \<times> nat \<times> bool) option \<Rightarrow> instant \<Rightarrow> DisplayStartupState
     \<Rightarrow> DisplayStartupState \<times> DisplayStartupFrameAction" where
  "observe_on_stream stream_changed frame payload_stats now st =
     (let dropped_delta = (\<not> first_frame_received st \<and> should_wait_for_startup_keyframe frame payload_stats);
          st1 = st\<lparr>received_frame_id := max (received_frame_id st) frame,
                   recovery := Recovery_received (is_some_and payload_stats (\<lambda>(_, _, keyframe). keyframe))
                     dropped_delta now (recovery st)\<rparr>
      in if dropped_delta then (st1, WaitForKeyframe)
         else (st1\<lparr>first_frame_received := True\<rparr>,
               Accept (\<not> first_frame_received st) stream_changed (activation_generation st)))"

definition observe_display ::
  "nat \<Rightarrow> nat \<Rightarrow> (nat \<times> nat \<times> bool) option \<Rightarrow> instant \<Rightarrow> DisplayStartupState
     \<Rightarrow> DisplayStartupState \<times> DisplayStartupFrameAction" where
  "observe_display stream frame payload_stats now st =
     (case begin_stream stream now st of
        (st1, Inl expected) \<Rightarrow> (st1, RejectStaleStream expected)
      | (st1, Inr changed) \<Rightarrow> observe_on_stream changed frame payload_stats now st1)"

definition observe_frame ::
  "nat \<Rightarrow> nat \<Rightarrow> nat \<Rightarrow> (nat \<times> nat \<times> bool) option \<Rightarrow> instant \<Rightarrow> DisplayStartupController
     \<Rightarrow> DisplayStartupController \<times> DisplayStartupFrameAction" where
  "observe_frame d stream frame payload_stats now c =
     (case map_of (startup_displays c) d of
        None \<Rightarrow> (c, RejectUndesired)
      | Some st \<Rightarrow>
          (let (st1, a) = observe_display stream frame payload_stats now st
           in (c\<lparr>startup_displays := AList.update d st1 (startup_displays c)\<rparr>, a)))"

definition tick_display :: "bool \<Rightarrow> instant \<Rightarrow> DisplayStartupState \<Rightarrow> DisplayStartupState \<times> StartupRecoveryAction option" where
  "tick_display scoped_supported now st =
     (let (r, a) = Recovery_next now (startup_stream_id st \<noteq> 0 \<and> received_frame_id st \<noteq> 0) scoped_supported (recovery st)
      in (st\<lparr>recovery := r\<rparr>, a))"

definition Controller_tick ::
  "bool \<Rightarrow> bool \<Rightarrow> bool \<Rightarrow> instant \<Rightarrow> DisplayStartupController
     \<Rightarrow> DisplayStartupController \<times> (nat \<times> StartupRecoveryAction) list" where
  "Controller_tick expects_video is_conn scoped_supported now c =
     (if \<not> expects_video \<or> \<not> is_conn then (c, [])
      else (c\<lparr>startup_displays := map (\<lambda>(d, st). (d, fst (tick_display scoped_supported now st))) (startup_displays c)\<rparr>,
            List.map_filter (\<lambda>(d, st). map_option (Pair d) (snd (tick_display scoped_supported now st))) (startup_displays c)))"

text \<open>
  The recovery timer of a connection. \<open>RecoverEnv\<close> holds what it reads of the rest of the program:
  whether the worker of a display has decoded a frame of the current stream, whether the connection is
  still the current one when the action of a display is handled, whether sending succeeds, and the
  times of the attempt and of its admission.
\<close>

record RecoverEnv =
  decoded_feedback :: "nat \<Rightarrow> DisplayStartupState \<Rightarrow> bool"
  action_current :: "nat \<Rightarrow> bool"
  action_sent :: "nat \<Rightarrow> bool"
  attempted_at :: "nat \<Rightarrow> instant"
  admitted_at :: "nat \<Rightarrow> instant"

datatype RecoveryMessage = VideoReferenceRefresh int nat nat nat | StartupRefresh nat

definition recovery_message :: "nat \<Rightarrow> StartupRecoveryAction \<Rightarrow> DisplayStartupState \<Rightarrow> RecoveryMessage option" where
  "recovery_message d a st = (case a of
     Failed \<Rightarrow> None
   | Reference \<Rightarrow> map_option (\<lambda>n. VideoReferenceRefresh n (startup_stream_id st) (received_frame_id st)
       (dropped_deltas (recovery st))) (i32_try_from d)
   | Capture \<Rightarrow> Some (StartupRefresh d))"

text \<open>The action of one display: the new state of the display and the message that was sent.\<close>

definition recover_display ::
  "RecoverEnv \<Rightarrow> nat \<Rightarrow> StartupRecoveryAction \<Rightarrow> DisplayStartupState \<Rightarrow> DisplayStartupState \<times> RecoveryMessage option" where
  "recover_display env d a st =
     (case recovery_message d a st of
        None \<Rightarrow> (st, None)
      | Some m \<Rightarrow>
          (let r1 = Recovery_attempted (attempted_at env d) (recovery st)
           in if action_sent env d
              then (st\<lparr>recovery := Recovery_admitted a (admitted_at env d) r1\<rparr>, Some m)
              else (st\<lparr>recovery := r1\<rparr>, None)))"

fun recover_actions ::
  "RecoverEnv \<Rightarrow> (nat \<times> StartupRecoveryAction) list \<Rightarrow> DisplayStartupController
     \<Rightarrow> DisplayStartupController \<times> RecoveryMessage list" where
  "recover_actions env [] c = (c, [])"
| "recover_actions env ((d, a) # as) c =
     (if \<not> action_current env d then (c, [])
      else case map_of (startup_displays c) d of
             None \<Rightarrow> recover_actions env as c
           | Some st \<Rightarrow>
               (let (st1, m) = recover_display env d a st;
                    (c1, ms) = recover_actions env as (c\<lparr>startup_displays := AList.update d st1 (startup_displays c)\<rparr>)
                in (c1, (case m of None \<Rightarrow> ms | Some x \<Rightarrow> x # ms))))"

definition recover_display_startup ::
  "RecoverEnv \<Rightarrow> bool \<Rightarrow> bool \<Rightarrow> bool \<Rightarrow> bool \<Rightarrow> instant \<Rightarrow> DisplayStartupController
     \<Rightarrow> DisplayStartupController \<times> RecoveryMessage list" where
  "recover_display_startup env expects_video is_conn current scoped_supported now c =
     (if \<not> expects_video \<or> \<not> is_conn \<or> \<not> current then (c, [])
      else
        let c1 = c\<lparr>startup_displays := map (\<lambda>(d, st). (d, if decoded_feedback env d st
                    then st\<lparr>recovery := Recovery_decoded (recovery st)\<rparr> else st)) (startup_displays c)\<rparr>;
            (c2, actions) = Controller_tick True True scoped_supported now c1
        in recover_actions env actions c2)"

section \<open>The budget of one activation\<close>

text \<open>
  The run of one display activation, with the log of the actions that were sent since the activation
  or since the last stream that followed a decoded one, and a clock.
\<close>

type_synonym startup_run = "DisplayStartupState \<times> (instant \<times> StartupRecoveryAction) list \<times> instant"

inductive startup_step :: "startup_run \<Rightarrow> startup_run \<Rightarrow> bool" where
  frame: "now \<le> t \<Longrightarrow> begin_stream stream t st = (st1, Inr changed) \<Longrightarrow>
     startup_step (st, l, now)
       (fst (observe_on_stream changed f p t st1), if changed \<and> is_decoded (recovery st) then [] else l, t)"
| decoded: "startup_step (st, l, now) (st\<lparr>recovery := Recovery_decoded (recovery st)\<rparr>, l, now)"
| quiet: "now \<le> t \<Longrightarrow> tick_display scoped t st = (st1, None) \<Longrightarrow> startup_step (st, l, now) (st1, l, t)"
| act: "now \<le> t \<Longrightarrow> tick_display scoped t st = (st1, Some a) \<Longrightarrow> t \<le> attempted_at env d \<Longrightarrow>
     attempted_at env d \<le> admitted_at env d \<Longrightarrow> recover_display env d a st1 = (st2, m) \<Longrightarrow>
     startup_step (st, l, now) (st2, if m = None then l else l @ [(admitted_at env d, a)], admitted_at env d)"

definition log_spaced :: "duration \<Rightarrow> (instant \<times> 'a) list \<Rightarrow> bool" where
  "log_spaced gap l = sorted_wrt (\<lambda>x y. fst x + gap \<le> fst y) l"

definition last_time :: "(instant \<times> 'a) list \<Rightarrow> instant option" where
  "last_time l = (if l = [] then None else Some (fst (last l)))"

lemma log_spaced_snoc:
  assumes "log_spaced gap l" and "is_none_or (last_time l) (\<lambda>s. s + gap \<le> t)"
  shows "log_spaced gap (l @ [(t, a)])"
proof (cases l rule: rev_cases)
  case (snoc ys y)
  with assms have "\<forall>x\<in>set ys. fst x + gap \<le> fst y" "fst y + gap \<le> t"
    by (auto simp: log_spaced_def last_time_def sorted_wrt_append)
  with assms(1) snoc show ?thesis by (force simp: log_spaced_def sorted_wrt_append)
qed (simp add: log_spaced_def)

lemma log_spaced_Nil [simp]: "log_spaced gap []"
  by (simp add: log_spaced_def)

lemma last_time_simps [simp]: "last_time [] = None" "last_time (l @ [x]) = Some (fst x)"
  by (simp_all add: last_time_def)

abbreviation of_kind :: "StartupRecoveryAction \<Rightarrow> (instant \<times> StartupRecoveryAction) list \<Rightarrow> (instant \<times> StartupRecoveryAction) list" where
  "of_kind a \<equiv> filter (\<lambda>x. snd x = a)"

definition budget :: "StartupRecovery \<Rightarrow> (instant \<times> StartupRecoveryAction) list \<Rightarrow> bool" where
  "budget r l \<longleftrightarrow> reference_attempts r = length (of_kind Reference l) \<and> length (of_kind Reference l) \<le> MAX_REFERENCES
     \<and> capture_attempts r = length (of_kind Capture l) \<and> length (of_kind Capture l) \<le> MAX_CAPTURE_RETRIES
     \<and> of_kind Failed l = [] \<and> last_action r = last_time l \<and> last_capture r = last_time (of_kind Capture l)
     \<and> log_spaced REFERENCE_INTERVAL l \<and> log_spaced CAPTURE_RETRY_INTERVAL (of_kind Capture l)"

lemma budget_frame:
  assumes "budget r l" and "reference_attempts r' = reference_attempts r" "capture_attempts r' = capture_attempts r"
    "last_action r' = last_action r" "last_capture r' = last_capture r"
  shows "budget r' l"
  using assms by (simp add: budget_def)

lemma budget_default: "budget StartupRecovery_default []"
  by (simp add: budget_def StartupRecovery_default_def)

lemma budget_new_stream:
  "budget r l \<Longrightarrow> budget (Recovery_new_stream now r) (if is_decoded r then [] else l)"
  by (auto simp: Recovery_new_stream_def Let_def intro: budget_frame [OF budget_default] budget_frame)

lemma budget_received: "budget r l \<Longrightarrow> budget (Recovery_received k d now r) l"
  by (erule budget_frame) (simp_all add: Recovery_received_def)

lemma next_frame:
  "Recovery_next now k s r = (r', a) \<Longrightarrow> reference_attempts r' = reference_attempts r \<and> capture_attempts r' = capture_attempts r
     \<and> last_action r' = last_action r \<and> last_capture r' = last_capture r"
  by (auto simp: Recovery_next_def Let_def split: if_splits)

lemma budget_next: "budget r l \<Longrightarrow> Recovery_next now k s r = (r', a) \<Longrightarrow> budget r' l"
  by (rule budget_frame, assumption) (auto dest: next_frame)

lemma next_reference:
  assumes "Recovery_next now k s r = (r', Some Reference)"
  shows "reference_attempts r < MAX_REFERENCES" "is_none_or (last_action r) (\<lambda>at. since now at \<ge> REFERENCE_INTERVAL)"
  using assms by (auto simp: Recovery_next_def Let_def split: if_splits)

lemma next_capture:
  assumes "Recovery_next now k s r = (r', Some Capture)"
  shows "capture_attempts r < MAX_CAPTURE_RETRIES" "is_none_or (last_action r) (\<lambda>at. since now at \<ge> DECODE_GRACE)"
    "is_none_or (last_capture r) (\<lambda>at. since now at \<ge> CAPTURE_RETRY_INTERVAL)"
  using assms by (auto simp: Recovery_next_def Let_def is_none_or_def split: if_splits option.splits)

lemma since_gap: "0 < gap \<Longrightarrow> gap \<le> since now at \<Longrightarrow> now \<le> t \<Longrightarrow> at + gap \<le> t"
  by (simp add: since_def)

lemma budget_admitted:
  assumes b: "budget r l" and n: "Recovery_next now k s r = (r1, Some a)" and "now \<le> t" "a \<noteq> Failed"
  shows "budget (Recovery_admitted a t (Recovery_attempted u r1)) (l @ [(t, a)])"
proof (cases a)
  case Reference
  note x = next_reference [OF n [unfolded Reference]]
  have gap: "is_none_or (last_time l) (\<lambda>s. s + REFERENCE_INTERVAL \<le> t)"
    using x(2) b since_gap [OF _ _ assms(3)] by (auto simp: budget_def is_none_or_iff REFERENCE_INTERVAL_def rust_time)
  with Reference b x(1) next_frame [OF n] show ?thesis
    by (auto simp: budget_def Recovery_admitted_def Recovery_attempted_def log_spaced_snoc)
next
  case Capture
  note x = next_capture [OF n [unfolded Capture]]
  have gap: "is_none_or (last_time l) (\<lambda>s. s + REFERENCE_INTERVAL \<le> t)"
    using x(2) b since_gap [OF _ _ assms(3)]
    by (auto simp: budget_def is_none_or_iff REFERENCE_INTERVAL_def DECODE_GRACE_def rust_time)
  have gap2: "is_none_or (last_time (of_kind Capture l)) (\<lambda>s. s + CAPTURE_RETRY_INTERVAL \<le> t)"
    using x(3) b since_gap [OF _ _ assms(3)]
    by (auto simp: budget_def is_none_or_iff CAPTURE_RETRY_INTERVAL_def rust_time)
  from Capture b x(1) next_frame [OF n] gap gap2 show ?thesis
    by (auto simp: budget_def Recovery_admitted_def Recovery_attempted_def log_spaced_snoc)
qed (use assms in simp)

lemma begin_stream_budget:
  assumes "budget (recovery st) l" and "begin_stream stream t st = (st1, Inr changed)"
  shows "budget (recovery st1) (if changed \<and> is_decoded (recovery st) then [] else l)"
  using assms budget_new_stream [OF assms(1), of t] by (auto simp: begin_stream_def split: if_splits)

lemma observe_budget:
  "budget (recovery st) l \<Longrightarrow> budget (recovery (fst (observe_on_stream c f p t st))) l"
  by (simp add: observe_on_stream_def Let_def budget_received)

lemma tick_recovery:
  assumes "tick_display s t st = (st1, a)"
  obtains k where "Recovery_next t k s (recovery st) = (recovery st1, a)"
  using assms by (auto simp: tick_display_def Let_def case_prod_beta prod_eq_iff)

lemma recover_display_budget:
  assumes "budget (recovery st) l" and "tick_display s t st = (st1, Some a)" and "t \<le> attempted_at env d"
    and "attempted_at env d \<le> admitted_at env d" and "recover_display env d a st1 = (st2, m)"
  shows "budget (recovery st2) (if m = None then l else l @ [(admitted_at env d, a)])"
proof -
  obtain k where n: "Recovery_next t k s (recovery st) = (recovery st1, Some a)" by (rule tick_recovery [OF assms(2)])
  have b1: "budget (recovery st1) l" by (rule budget_next [OF assms(1) n])
  have b2: "budget (Recovery_attempted u (recovery st1)) l" for u
    by (rule budget_frame [OF b1]) (simp_all add: Recovery_attempted_def)
  have f: "recovery_message d Failed st1 = None" by (simp add: recovery_message_def)
  show ?thesis
  proof (cases "recovery_message d a st1")
    case None
    with assms(5) b1 show ?thesis by (simp add: recover_display_def)
  next
    case (Some x)
    with f have a: "a \<noteq> Failed" by auto
    from budget_admitted [OF assms(1) n order.trans [OF assms(3,4)] a, of "attempted_at env d"] b2 Some assms(5)
    show ?thesis by (auto simp: recover_display_def Let_def split: if_splits)
  qed
qed

fun run_budget :: "startup_run \<Rightarrow> bool" where
  "run_budget (st, l, now) = budget (recovery st) l"

fun run_initial :: "startup_run \<Rightarrow> bool" where
  "run_initial (st, l, now) = (l = [] \<and> (\<exists>g. st = DisplayStartupState_new g))"

interpretation sr: invariant_machine run_initial startup_step run_budget
proof
  fix s assume "run_initial s"
  then show "run_budget s" by (cases s) (auto simp: DisplayStartupState_new_def budget_default)
next
  fix s s' assume i: "run_budget s" and "startup_step s s'"
  from this(2) show "run_budget s'"
  proof cases
    case (frame now t stream st st1 changed l f p)
    with i begin_stream_budget [of st l stream t st1 changed] show ?thesis by (simp add: observe_budget)
  next
    case (decoded st l now)
    with i show ?thesis by (auto simp: Recovery_decoded_def intro: budget_frame)
  next
    case (quiet now t scoped st st1 l)
    from quiet(4) obtain k where "Recovery_next t k scoped (recovery st) = (recovery st1, None)" by (rule tick_recovery)
    with budget_next quiet i show ?thesis by simp
  next
    case (act now t scoped st st1 a env d st2 m l)
    with i recover_display_budget [of st l scoped t st1 a env d st2 m] show ?thesis by simp
  qed
qed

lemma next_gives_up:
  assumes "rec_since r = Some s" and "now \<ge> s + STARTUP_LIMIT"
  shows "is_decoded (fst (Recovery_next now k sc r)) \<or> failed (fst (Recovery_next now k sc r))"
  using assms by (auto simp: Recovery_next_def Let_def since_def)

lemma next_after_failure: "failed r \<Longrightarrow> Recovery_next now k s r = (r, None)"
  by (simp add: Recovery_next_def)

text \<open>
  C20. The startup of a display is bounded. Over every run of an activation, with any frames and streams and
  any outcome of the sends, at most three reference frames and two new captures were requested since the
  activation or the last decoded stream, the requests at least 750 ms apart and the captures at least
  40 s; a stream that never decodes does not renew the budget. A tick 110 s after the start gives up, and
  after giving up no request follows.
\<close>

theorem startup_recovery_bounded:
  assumes "startup_step\<^sup>*\<^sup>* (DisplayStartupState_new g, [], t0) (st, l, now)"
  shows "length (of_kind Reference l) \<le> 3 \<and> length (of_kind Capture l) \<le> 2 \<and> length l \<le> 5
     \<and> log_spaced (from_millis 750) l \<and> log_spaced (from_secs 40) (of_kind Capture l)
     \<and> (\<forall>s t sc. rec_since (recovery st) = Some s \<and> s + from_secs 110 \<le> t \<longrightarrow>
          (let st1 = fst (tick_display sc t st) in is_decoded (recovery st1) \<or> failed (recovery st1)))
     \<and> (\<forall>t sc. failed (recovery st) \<longrightarrow> snd (tick_display sc t st) = None)"
proof -
  have b: "budget (recovery st) l" using sr.inv_reachable [OF _ assms] by auto
  have "length l = length (of_kind Reference l) + length (of_kind Capture l) + length (of_kind Failed l)" for l
  proof (induction l)
    case (Cons x l)
    then show ?case by (cases "snd x") simp_all
  qed simp
  from this [of l] b have len: "length l \<le> 5" by (simp add: budget_def MAX_REFERENCES_def MAX_CAPTURE_RETRIES_def)
  have limits: "length (of_kind Reference l) \<le> 3" "length (of_kind Capture l) \<le> 2"
      "log_spaced (from_millis 750) l" "log_spaced (from_secs 40) (of_kind Capture l)"
    using b by (simp_all add: budget_def MAX_REFERENCES_def MAX_CAPTURE_RETRIES_def REFERENCE_INTERVAL_def
        CAPTURE_RETRY_INTERVAL_def)
  have gives_up: "let st1 = fst (tick_display sc t st) in is_decoded (recovery st1) \<or> failed (recovery st1)"
    if "rec_since (recovery st) = Some s \<and> s + from_secs 110 \<le> t" for s t sc
    using next_gives_up [of "recovery st" s t] that by (simp add: tick_display_def case_prod_beta STARTUP_LIMIT_def)
  have silent: "snd (tick_display sc t st) = None" if "failed (recovery st)" for sc t
    using that by (simp add: tick_display_def next_after_failure)
  show ?thesis using limits len gives_up silent by blast
qed

definition sr_demo_env :: RecoverEnv where
  "sr_demo_env = \<lparr>decoded_feedback = (\<lambda>_ _. False), action_current = (\<lambda>_. True), action_sent = (\<lambda>_. True),
     attempted_at = (\<lambda>_. from_secs 1), admitted_at = (\<lambda>_. from_secs 1)\<rparr>"

definition sr_demo_waiting :: DisplayStartupState where
  "sr_demo_waiting = fst (observe_on_stream True 1 (Some (10, 1, False)) 0
     (fst (begin_stream 5 0 (DisplayStartupState_new 1))))"

definition sr_demo_asked :: DisplayStartupState where
  "sr_demo_asked = fst (recover_display sr_demo_env 0 Reference (fst (tick_display True (from_secs 1) sr_demo_waiting)))"

lemma sr_demo_run:
  "startup_step\<^sup>*\<^sup>* (DisplayStartupState_new 1, [], 0) (sr_demo_asked, [(from_secs 1, Reference)], from_secs 1)"
proof -
  have 0: "\<not> is_decoded (recovery (DisplayStartupState_new 1))"
    by (simp add: DisplayStartupState_new_def StartupRecovery_default_def)
  have 1: "startup_step (DisplayStartupState_new 1, [], 0) (sr_demo_waiting, [], 0)"
    using startup_step.frame [of 0 0 5 "DisplayStartupState_new 1" "fst (begin_stream 5 0 (DisplayStartupState_new 1))"
        True "[]" 1 "Some (10, 1, False)"] 0
    by (simp add: sr_demo_waiting_def begin_stream_def DisplayStartupState_new_def)
  let ?st = "fst (tick_display True (from_secs 1) sr_demo_waiting)"
  have t: "tick_display True (from_secs 1) sr_demo_waiting = (?st, Some Reference)"
    by (simp add: tick_display_def sr_demo_waiting_def observe_on_stream_def begin_stream_def DisplayStartupState_new_def
        Recovery_received_def Recovery_new_stream_def StartupRecovery_default_def get_or_insert_def Recovery_next_def
        should_wait_for_startup_keyframe_def Let_def rust_time STARTUP_LIMIT_def MAX_REFERENCES_def
        MAX_CAPTURE_RETRIES_def)
  obtain x where m: "recover_display sr_demo_env 0 Reference ?st = (sr_demo_asked, Some x)"
    by (simp add: sr_demo_asked_def recover_display_def recovery_message_def i32_try_from_def sr_demo_env_def Let_def)
  have a: "attempted_at sr_demo_env 0 = from_secs 1" "admitted_at sr_demo_env 0 = from_secs 1"
    by (simp_all add: sr_demo_env_def)
  have 2: "startup_step (sr_demo_waiting, [], 0) (sr_demo_asked, [(from_secs 1, Reference)], from_secs 1)"
    using startup_step.act [OF _ t _ _ m, of 0 "[]"] a by simp
  show ?thesis by (rule converse_rtranclp_into_rtranclp [of startup_step, OF 1 r_into_rtranclp [of startup_step, OF 2]])
qed

theorem startup_recovery_bounded_witness:
  "log_spaced (from_millis 750) [(from_secs 1, Reference)] \<and> rec_since (recovery sr_demo_asked) = Some 0
   \<and> (let st1 = fst (tick_display True (from_secs 110) sr_demo_asked) in is_decoded (recovery st1) \<or> failed (recovery st1))"
proof -
  have s: "rec_since (recovery sr_demo_asked) = Some 0"
    by (simp add: sr_demo_asked_def recover_display_def recovery_message_def i32_try_from_def sr_demo_env_def Let_def
        tick_display_def sr_demo_waiting_def observe_on_stream_def begin_stream_def DisplayStartupState_new_def
        Recovery_received_def Recovery_new_stream_def StartupRecovery_default_def get_or_insert_def Recovery_next_def
        should_wait_for_startup_keyframe_def rust_time STARTUP_LIMIT_def MAX_REFERENCES_def MAX_CAPTURE_RETRIES_def
        Recovery_admitted_def Recovery_attempted_def)
  have "0 + from_secs 110 \<le> from_secs 110" by simp
  with s startup_recovery_bounded [OF sr_demo_run] show ?thesis by blast
qed

section \<open>The order of the frames\<close>

record MediaFrame =
  mf_display :: nat
  mf_stream :: nat
  mf_frame :: nat
  mf_payload :: "(nat \<times> nat \<times> bool) option"
  mf_time :: instant

text \<open>The frames a connection receives, in order, and those it accepts.\<close>

fun receive_frames :: "MediaFrame list \<Rightarrow> DisplayStartupController \<Rightarrow> DisplayStartupController \<times> MediaFrame list" where
  "receive_frames [] c = (c, [])"
| "receive_frames (f # fs) c =
     (let (c1, a) = observe_frame (mf_display f) (mf_stream f) (mf_frame f) (mf_payload f) (mf_time f) c;
          (c2, accepted) = receive_frames fs c1
      in (c2, (case a of Accept _ _ _ \<Rightarrow> f # accepted | _ \<Rightarrow> accepted)))"

abbreviation startup_delta :: "MediaFrame \<Rightarrow> bool" where
  "startup_delta f \<equiv> should_wait_for_startup_keyframe (mf_frame f) (mf_payload f)"

abbreviation accepted_on :: "nat \<Rightarrow> MediaFrame list \<Rightarrow> DisplayStartupController \<Rightarrow> MediaFrame list" where
  "accepted_on d fs c \<equiv> filter (\<lambda>f. mf_display f = d) (snd (receive_frames fs c))"

text \<open>What a list of accepted frames of a display must satisfy when its stream and its first frame are given.\<close>

fun well_ordered :: "nat \<Rightarrow> bool \<Rightarrow> MediaFrame list \<Rightarrow> bool" where
  "well_ordered stream started [] = True"
| "well_ordered stream started (f # fs) =
     (stream \<le> mf_stream f \<and> (startup_delta f \<longrightarrow> started \<and> mf_stream f = stream)
      \<and> well_ordered (mf_stream f) True fs)"

lemma well_ordered_weaken: "well_ordered s b fs \<Longrightarrow> s' \<le> s \<Longrightarrow> \<not> b \<Longrightarrow> well_ordered s' b' fs"
  by (cases fs) auto

lemma observe_display_cases:
  assumes "observe_display s f p t st = (st1, a)"
  shows "startup_stream_id st \<le> startup_stream_id st1"
    and "startup_stream_id st1 = startup_stream_id st \<longrightarrow> first_frame_received st \<longrightarrow> first_frame_received st1"
    and "startup_stream_id st1 \<noteq> startup_stream_id st \<longrightarrow> (first_frame_received st1 \<longrightarrow> (\<exists>x y z. a = Accept x y z))"
    and "a = Accept x y z \<Longrightarrow> startup_stream_id st1 = s \<and> first_frame_received st1
       \<and> (should_wait_for_startup_keyframe f p \<longrightarrow> first_frame_received st \<and> s = startup_stream_id st)"
    and "(\<forall>x y z. a \<noteq> Accept x y z) \<Longrightarrow> first_frame_received st1 \<Longrightarrow> first_frame_received st \<and> startup_stream_id st1 = startup_stream_id st"
  using assms
  by (auto simp: observe_display_def begin_stream_def observe_on_stream_def Let_def split: if_splits)

lemma accepted_well_ordered:
  "map_of (startup_displays c) d = Some st \<Longrightarrow>
     well_ordered (startup_stream_id st) (first_frame_received st) (accepted_on d fs c)"
proof (induction fs arbitrary: c st)
  case (Cons f fs)
  define c1 a where "c1 = fst (observe_frame (mf_display f) (mf_stream f) (mf_frame f) (mf_payload f) (mf_time f) c)"
    and "a = snd (observe_frame (mf_display f) (mf_stream f) (mf_frame f) (mf_payload f) (mf_time f) c)"
  have acc: "accepted_on d (f # fs) c = (if mf_display f = d \<and> (\<exists>x y z. a = Accept x y z) then [f] else []) @ accepted_on d fs c1"
    by (cases a) (auto simp: c1_def a_def case_prod_beta Let_def)
  show ?case
  proof (cases "mf_display f = d")
    case False
    have "map_of (startup_displays c1) d = Some st"
      using False Cons.prems by (auto simp: c1_def observe_frame_def case_prod_beta Let_def alist_simps split: option.split)
    from Cons.IH [OF this] acc False show ?thesis by simp
  next
    case True
    obtain st1 where o: "observe_display (mf_stream f) (mf_frame f) (mf_payload f) (mf_time f) st = (st1, a)"
      using True Cons.prems by (auto simp: a_def observe_frame_def case_prod_beta Let_def prod_eq_iff)
    have "map_of (startup_displays c1) d = Some st1"
      using True Cons.prems o by (auto simp: c1_def observe_frame_def case_prod_beta Let_def alist_simps)
    note ih = Cons.IH [OF this] and oc = observe_display_cases [OF o]
    show ?thesis
    proof (cases "\<exists>x y z. a = Accept x y z")
      case acc1: True
      then obtain x y z where "a = Accept x y z" by blast
      from oc(4) [OF this] oc(1) ih acc acc1 True show ?thesis by auto
    next
      case False
      show ?thesis
      proof (cases "first_frame_received st1")
        case True
        with oc(5) False ih acc show ?thesis by auto
      next
        case no: False
        with ih acc False well_ordered_weaken [OF ih oc(1)] show ?thesis by auto
      qed
    qed
  qed
qed simp

lemma well_ordered_nth:
  "well_ordered s b fs \<Longrightarrow> k < length fs \<Longrightarrow> startup_delta (fs ! k) \<Longrightarrow>
     b \<and> mf_stream (fs ! k) = s \<or> (\<exists>j<k. mf_stream (fs ! j) = mf_stream (fs ! k) \<and> \<not> startup_delta (fs ! j))"
proof (induction fs arbitrary: s b k)
  case (Cons f fs)
  show ?case
  proof (cases k)
    case (Suc m)
    with Cons.IH [of "mf_stream f" True m] Cons.prems
    have "mf_stream (fs ! m) = mf_stream f \<or> (\<exists>j<m. mf_stream (fs ! j) = mf_stream (fs ! m) \<and> \<not> startup_delta (fs ! j))"
      by auto
    with Cons.prems Suc show ?thesis by force
  qed (use Cons.prems in auto)
qed simp

lemma well_ordered_sorted: "well_ordered s b fs \<Longrightarrow> sorted (map mf_stream fs) \<and> (\<forall>f\<in>set fs. s \<le> mf_stream f)"
proof (induction fs arbitrary: s b)
  case (Cons f fs)
  then have "well_ordered (mf_stream f) True fs" "s \<le> mf_stream f" by auto
  with Cons.IH [of "mf_stream f" True] show ?case by force
qed simp

text \<open>
  C21. The frames of a display activation. Of the frames that arrive on a connection, for any displays, streams
  and order, those accepted for a display have streams that never go back, and within a stream a delta
  frame is accepted only after a frame of the same stream that is none; a display that is not
  desired gets no frame.
\<close>

theorem startup_frames_ordered:
  assumes "\<forall>st. map_of (startup_displays c) d = Some st \<longrightarrow> \<not> first_frame_received st"
  shows "let accepted = filter (\<lambda>f. mf_display f = d) (snd (receive_frames fs c))
    in sorted (map mf_stream accepted)
     \<and> (\<forall>k<length accepted. startup_delta (accepted ! k) \<longrightarrow>
          (\<exists>j<k. mf_stream (accepted ! j) = mf_stream (accepted ! k) \<and> \<not> startup_delta (accepted ! j)))
     \<and> (map_of (startup_displays c) d = None \<longrightarrow> accepted = [])"
proof (cases "map_of (startup_displays c) d")
  case None
  have "map_of (startup_displays c) d = None \<Longrightarrow> accepted_on d fs c = []" for c
  proof (induction fs arbitrary: c)
    case (Cons f fs)
    define c1 a where "c1 = fst (observe_frame (mf_display f) (mf_stream f) (mf_frame f) (mf_payload f) (mf_time f) c)"
      and "a = snd (observe_frame (mf_display f) (mf_stream f) (mf_frame f) (mf_payload f) (mf_time f) c)"
    have "map_of (startup_displays c1) d = None" "mf_display f = d \<longrightarrow> a = RejectUndesired"
      using Cons.prems by (auto simp: c1_def a_def observe_frame_def case_prod_beta Let_def alist_simps split: option.split)
    with Cons.IH [of c1] show ?case
      by (cases a) (auto simp: c1_def a_def case_prod_beta Let_def)
  qed simp
  with None show ?thesis by simp
next
  case (Some st)
  note w = accepted_well_ordered [OF Some, of fs]
  from well_ordered_sorted [OF w] well_ordered_nth [OF w] assms Some show ?thesis by (auto simp: Let_def)
qed

definition sr_demo_frames :: "MediaFrame list" where
  "sr_demo_frames = map (\<lambda>(s, f, k). \<lparr>mf_display = 0, mf_stream = s, mf_frame = f, mf_payload = Some (9, 1, k), mf_time = 0\<rparr>)
     [(4, 1, False), (4, 2, True), (4, 3, False), (3, 9, True), (5, 1, False)]"

definition sr_demo_controller :: DisplayStartupController where
  "sr_demo_controller = Controller_default\<lparr>startup_displays := [(0, DisplayStartupState_new 1)]\<rparr>"

theorem startup_frames_ordered_witness:
  "map mf_frame (snd (receive_frames sr_demo_frames sr_demo_controller)) = [2, 3]
   \<and> sorted (map mf_stream (filter (\<lambda>f. mf_display f = 0) (snd (receive_frames sr_demo_frames sr_demo_controller))))"
proof
  show "map mf_frame (snd (receive_frames sr_demo_frames sr_demo_controller)) = [2, 3]"
    by (simp add: sr_demo_frames_def sr_demo_controller_def Controller_default_def observe_frame_def observe_display_def
        begin_stream_def observe_on_stream_def DisplayStartupState_new_def should_wait_for_startup_keyframe_def Let_def)
  have "\<forall>st. map_of (startup_displays sr_demo_controller) 0 = Some st \<longrightarrow> \<not> first_frame_received st"
    by (simp add: sr_demo_controller_def DisplayStartupState_new_def)
  from startup_frames_ordered [OF this, of sr_demo_frames]
  show "sorted (map mf_stream (filter (\<lambda>f. mf_display f = 0) (snd (receive_frames sr_demo_frames sr_demo_controller))))"
    by (simp add: Let_def)
qed

section \<open>Decoder recovery\<close>

definition OUTPUT_STALL_TIMEOUT :: duration where "OUTPUT_STALL_TIMEOUT = from_secs 2"
definition INITIAL_RETRY_DELAY :: duration where "INITIAL_RETRY_DELAY = from_millis 500"
definition MAX_RETRY_DELAY :: duration where "MAX_RETRY_DELAY = from_secs 5"

definition frame_is_current :: "nat \<Rightarrow> nat \<Rightarrow> nat \<Rightarrow> nat \<Rightarrow> bool" where
  "frame_is_current current_stream previous_frame stream frame =
     (if current_stream \<noteq> 0 \<and> (stream = 0 \<or> stream < current_stream) then False
      else stream = 0 \<or> stream \<noteq> current_stream \<or> frame = 0 \<or> frame > previous_frame)"

record DecoderRecovery =
  next_retry :: "instant option"
  attempt :: nat
  waiting_for_keyframe :: bool
  needs_reset :: bool
  refresh_requested :: bool

definition DecoderRecovery_default :: DecoderRecovery where
  "DecoderRecovery_default = \<lparr>next_retry = None, attempt = 0, waiting_for_keyframe = False, needs_reset = False,
     refresh_requested = False\<rparr>"

definition Decoder_failed :: "instant \<Rightarrow> DecoderRecovery \<Rightarrow> DecoderRecovery" where
  "Decoder_failed now r =
     r\<lparr>next_retry := (if attempt r = 0 then Some now else next_retry r), waiting_for_keyframe := True, needs_reset := True\<rparr>"

definition Decoder_pending :: "instant \<Rightarrow> DecoderRecovery \<Rightarrow> DecoderRecovery" where
  "Decoder_pending now r =
     (if next_retry r = None then r\<lparr>next_retry := Some (now + OUTPUT_STALL_TIMEOUT)\<rparr> else r)"

definition Decoder_backend_switched :: "instant \<Rightarrow> DecoderRecovery \<Rightarrow> DecoderRecovery" where
  "Decoder_backend_switched now r =
     r\<lparr>waiting_for_keyframe := True, refresh_requested := True,
       next_retry := get_or_insert (next_retry r) (now + OUTPUT_STALL_TIMEOUT)\<rparr>"

definition Decoder_take_refresh_request :: "DecoderRecovery \<Rightarrow> DecoderRecovery \<times> bool" where
  "Decoder_take_refresh_request r = (r\<lparr>refresh_requested := False\<rparr>, refresh_requested r)"

definition Decoder_succeeded :: "DecoderRecovery \<Rightarrow> DecoderRecovery" where
  "Decoder_succeeded r = DecoderRecovery_default"

definition retry_delay :: "nat \<Rightarrow> duration" where
  "retry_delay n = min (INITIAL_RETRY_DELAY * 2 ^ min (n - 1) 4) MAX_RETRY_DELAY"

definition Decoder_take_due :: "instant \<Rightarrow> DecoderRecovery \<Rightarrow> DecoderRecovery \<times> nat option" where
  "Decoder_take_due now r =
     (case next_retry r of
        None \<Rightarrow> (r, None)
      | Some at \<Rightarrow>
          if now < at then (r, None)
          else (let n = sat_add u64_max (attempt r) 1
                in (r\<lparr>attempt := n, next_retry := Some (now + retry_delay n), waiting_for_keyframe := True,
                      needs_reset := False\<rparr>, Some n)))"

definition Decoder_wait_duration :: "instant \<Rightarrow> DecoderRecovery \<Rightarrow> duration option" where
  "Decoder_wait_duration now r = map_option (\<lambda>at. since at now) (next_retry r)"

definition Decoder_accepts_frame :: "bool \<Rightarrow> bool \<Rightarrow> DecoderRecovery \<Rightarrow> DecoderRecovery \<times> bool" where
  "Decoder_accepts_frame stamped has_keyframe r =
     (if needs_reset r \<or> waiting_for_keyframe r \<and> stamped \<and> \<not> has_keyframe then (r, False)
      else (r\<lparr>waiting_for_keyframe := False\<rparr>, True))"

text \<open>
  The run of a decoder's recovery: the calls of the video worker with a clock that does not go back, and
  the log of the retries since the last decoded frame.
\<close>

type_synonym decoder_run = "DecoderRecovery \<times> (instant \<times> nat) list \<times> instant"

inductive decoder_step :: "decoder_run \<Rightarrow> decoder_run \<Rightarrow> bool" where
  failed: "now \<le> t \<Longrightarrow> decoder_step (r, l, now) (Decoder_failed t r, l, t)"
| pending: "now \<le> t \<Longrightarrow> decoder_step (r, l, now) (Decoder_pending t r, l, t)"
| switched: "now \<le> t \<Longrightarrow> decoder_step (r, l, now) (Decoder_backend_switched t r, l, t)"
| refresh: "decoder_step (r, l, now) (fst (Decoder_take_refresh_request r), l, now)"
| succeeded: "decoder_step (r, l, now) (Decoder_succeeded r, [], now)"
| frame: "decoder_step (r, l, now) (fst (Decoder_accepts_frame stamped key r), l, now)"
| due: "now \<le> t \<Longrightarrow> Decoder_take_due t r = (r', a) \<Longrightarrow>
     decoder_step (r, l, now) (r', case a of None \<Rightarrow> l | Some n \<Rightarrow> l @ [(t, n)], t)"

text \<open>Consecutive retries are numbered from one and each waits for the delay of the one before.\<close>

definition paced :: "(instant \<times> nat) list \<Rightarrow> bool" where
  "paced l \<longleftrightarrow> (\<forall>k. Suc k < length l \<longrightarrow> fst (l ! k) + retry_delay (snd (l ! k)) \<le> fst (l ! Suc k))"

fun decoder_inv :: "decoder_run \<Rightarrow> bool" where
  "decoder_inv (r, l, now) \<longleftrightarrow> paced l \<and> is_none_or (next_retry r) (\<lambda>at. at \<le> now + MAX_RETRY_DELAY)
     \<and> (attempt r = 0 \<longleftrightarrow> l = [])
     \<and> (l \<noteq> [] \<longrightarrow> next_retry r = Some (fst (last l) + retry_delay (snd (last l))))
     \<and> (needs_reset r \<longrightarrow> next_retry r \<noteq> None) \<and> (needs_reset r \<longrightarrow> waiting_for_keyframe r)"

lemma retry_delay_bounds: "from_millis 500 \<le> retry_delay n" "retry_delay n \<le> MAX_RETRY_DELAY"
proof -
  have "(1::nat) \<le> 2 ^ min (n - 1) 4" by simp
  then have "INITIAL_RETRY_DELAY \<le> INITIAL_RETRY_DELAY * 2 ^ min (n - 1) 4" by simp
  then show "from_millis 500 \<le> retry_delay n"
    by (simp add: retry_delay_def INITIAL_RETRY_DELAY_def MAX_RETRY_DELAY_def rust_time)
qed (simp add: retry_delay_def)

lemma paced_snoc:
  assumes "paced l" and "l \<noteq> [] \<longrightarrow> fst (last l) + retry_delay (snd (last l)) \<le> t"
  shows "paced (l @ [(t, n)])"
  unfolding paced_def
proof (intro allI impI)
  fix k assume k: "Suc k < length (l @ [(t, n)])"
  show "fst ((l @ [(t, n)]) ! k) + retry_delay (snd ((l @ [(t, n)]) ! k)) \<le> fst ((l @ [(t, n)]) ! Suc k)"
  proof (cases "Suc k = length l")
    case True
    then have "l \<noteq> []" "last l = l ! k" by (cases l rule: rev_cases; simp)+
    with assms(2) True show ?thesis by (simp add: nth_append)
  next
    case False
    with k assms(1) show ?thesis by (simp add: nth_append paced_def)
  qed
qed

lemma decoder_inv_mono:
  "is_none_or x (\<lambda>at. at \<le> now + d) \<Longrightarrow> now \<le> t \<Longrightarrow> is_none_or x (\<lambda>at. at \<le> t + (d :: nat))"
  by (cases x) auto

interpretation dr: invariant_machine "\<lambda>s. fst s = DecoderRecovery_default \<and> fst (snd s) = []" decoder_step decoder_inv
proof
  fix s :: decoder_run assume "fst s = DecoderRecovery_default \<and> fst (snd s) = []"
  then show "decoder_inv s" by (cases s) (simp add: DecoderRecovery_default_def paced_def)
next
  fix s s' assume i: "decoder_inv s" and "decoder_step s s'"
  from this(2) show "decoder_inv s'"
  proof cases
    case (failed now t r l)
    with i decoder_inv_mono [of "next_retry r" now MAX_RETRY_DELAY t] show ?thesis
      by (auto simp: Decoder_failed_def)
  next
    case (pending now t r l)
    with i decoder_inv_mono [of "next_retry r" now MAX_RETRY_DELAY t] show ?thesis
      by (auto simp: Decoder_pending_def OUTPUT_STALL_TIMEOUT_def MAX_RETRY_DELAY_def rust_time)
  next
    case (switched now t r l)
    with i decoder_inv_mono [of "next_retry r" now MAX_RETRY_DELAY t] show ?thesis
      by (auto simp: Decoder_backend_switched_def get_or_insert_def OUTPUT_STALL_TIMEOUT_def MAX_RETRY_DELAY_def rust_time
          split: option.splits)
  next
    case (refresh r l now)
    with i show ?thesis by (simp add: Decoder_take_refresh_request_def)
  next
    case (succeeded r l now)
    then show ?thesis by (simp add: Decoder_succeeded_def DecoderRecovery_default_def paced_def)
  next
    case (frame r l now stamped key)
    with i show ?thesis by (auto simp: Decoder_accepts_frame_def)
  next
    case (due now t r r' a l)
    show ?thesis
    proof (cases a)
      case None
      with due i decoder_inv_mono [of "next_retry r" now MAX_RETRY_DELAY t] show ?thesis
        by (auto simp: Decoder_take_due_def Let_def split: option.splits if_splits)
    next
      case (Some n)
      then obtain at where at: "next_retry r = Some at" "at \<le> t" "n = sat_add u64_max (attempt r) 1"
        and r': "attempt r' = n" "next_retry r' = Some (t + retry_delay n)" "\<not> needs_reset r'"
        using due by (auto simp: Decoder_take_due_def Let_def split: option.splits if_splits)
      have "paced (l @ [(t, n)])" using i due at by (intro paced_snoc) auto
      moreover have "0 < n" using at by (simp add: sat_add_def)
      ultimately show ?thesis using due(2) Some r' retry_delay_bounds(2) by simp
    qed
  qed
qed

text \<open>
  The retries of a decoder. Over every run of calls, with a clock that does not go back, a retry that is
  scheduled is at most five seconds away and a decoder that waits for its reset has one scheduled; the
  retries since the last decoded frame are each at least the doubling delay of the one before apart,
  never less than half a second; and until its reset no frame reaches the decoder, after it no stamped delta
  before a keyframe.
\<close>

theorem decoder_retry_paced:
  assumes "decoder_step\<^sup>*\<^sup>* (DecoderRecovery_default, [], t0) (r, l, now)"
  shows "is_none_or (Decoder_wait_duration now r) (\<lambda>d. d \<le> from_secs 5)
     \<and> (\<forall>k. Suc k < length l \<longrightarrow> fst (l ! k) + retry_delay (snd (l ! k)) \<le> fst (l ! Suc k)
          \<and> from_millis 500 \<le> retry_delay (snd (l ! k)))
     \<and> (needs_reset r \<longrightarrow> Decoder_wait_duration now r \<noteq> None \<and> (\<forall>s k. \<not> snd (Decoder_accepts_frame s k r)))
     \<and> (\<forall>t n. snd (Decoder_take_due t r) = Some n \<longrightarrow>
          \<not> snd (Decoder_accepts_frame True False (fst (Decoder_take_due t r)))
          \<and> snd (Decoder_accepts_frame True True (fst (Decoder_take_due t r))))"
proof -
  have i: "decoder_inv (r, l, now)" using dr.inv_reachable [OF _ assms] by simp
  have w: "is_none_or (Decoder_wait_duration now r) (\<lambda>d. d \<le> from_secs 5)"
    using i by (cases "next_retry r") (auto simp: Decoder_wait_duration_def since_def MAX_RETRY_DELAY_def)
  have p: "\<forall>k. Suc k < length l \<longrightarrow> fst (l ! k) + retry_delay (snd (l ! k)) \<le> fst (l ! Suc k)
          \<and> from_millis 500 \<le> retry_delay (snd (l ! k))"
    using i retry_delay_bounds(1) by (simp add: paced_def)
  have n: "needs_reset r \<longrightarrow> Decoder_wait_duration now r \<noteq> None \<and> (\<forall>s k. \<not> snd (Decoder_accepts_frame s k r))"
    using i by (auto simp: Decoder_wait_duration_def Decoder_accepts_frame_def)
  have d: "\<not> snd (Decoder_accepts_frame True False (fst (Decoder_take_due t r)))
      \<and> snd (Decoder_accepts_frame True True (fst (Decoder_take_due t r)))"
    if "snd (Decoder_take_due t r) = Some n" for t n
    using that by (auto simp: Decoder_take_due_def Decoder_accepts_frame_def Let_def split: option.splits if_splits)
  show ?thesis using w p n d by blast
qed

definition dr_demo_failed :: DecoderRecovery where
  "dr_demo_failed = Decoder_failed 7 DecoderRecovery_default"

theorem decoder_retry_paced_witness:
  "Decoder_take_due 7 dr_demo_failed = (fst (Decoder_take_due 7 dr_demo_failed), Some 1)
   \<and> \<not> snd (Decoder_accepts_frame True False (fst (Decoder_take_due 7 dr_demo_failed)))"
proof -
  have s: "decoder_step (DecoderRecovery_default, [], 0) (dr_demo_failed, [], 7)"
    unfolding dr_demo_failed_def by (rule decoder_step.failed) simp
  have d: "snd (Decoder_take_due 7 dr_demo_failed) = Some 1"
    by (simp add: dr_demo_failed_def Decoder_failed_def DecoderRecovery_default_def Decoder_take_due_def Let_def sat_add_def)
  from decoder_retry_paced [OF r_into_rtranclp [of decoder_step, OF s]] d show ?thesis by (simp add: prod_eq_iff)
qed

text \<open>Frames that pass the test of the video worker never go back within a stream.\<close>

lemma frame_is_current_order:
  assumes "frame_is_current cs pf s f" and "cs \<noteq> 0"
  shows "s > cs \<or> s = cs \<and> (f = 0 \<or> f > pf)"
  using assms by (auto simp: frame_is_current_def split: if_splits)

end
