(* ===== verification/FloatRound.thy ===== *)
theory FloatRound
  imports Complex_Main
begin

text \<open>
  Floating point as the sources use it. A finite \<open>f32\<close> or \<open>f64\<close> is the rational number it stands for;
  an arithmetic operation is the exact one followed by rounding to the nearest number of 24 or 53
  significant bits, ties to even. Comparisons, \<open>min\<close>, \<open>max\<close> and \<open>clamp\<close> are exact. The values of the
  program stay far from overflow and from the subnormal numbers, which are left out.
\<close>

text \<open>The number of binary digits of a positive integer.\<close>

function blen :: "int \<Rightarrow> int" where
  "blen n = (if n \<le> 0 then 0 else 1 + blen (n div 2))"
  by auto
termination by (relation "measure nat") auto

declare blen.simps [simp del]

definition pow2 :: "int \<Rightarrow> rat" where
  "pow2 e = (if 0 \<le> e then of_int (2 ^ nat e) else 1 / of_int (2 ^ nat (- e)))"

text \<open>The binary exponent of a positive rational number.\<close>

definition ilog2 :: "rat \<Rightarrow> int" where
  "ilog2 x = (let (a, b) = quotient_of x; e = blen a - blen b in if pow2 e \<le> x then e else e - 1)"

definition round_even :: "rat \<Rightarrow> int" where
  "round_even y =
     (let f = \<lfloor>y\<rfloor>; d = y - of_int f
      in if d < 1 / 2 then f else if d > 1 / 2 then f + 1 else if even f then f else f + 1)"

definition rnd :: "nat \<Rightarrow> rat \<Rightarrow> rat" where
  "rnd p x =
     (if x = 0 then 0
      else let u = pow2 (ilog2 \<bar>x\<bar> - int p + 1) in of_int (round_even (x / u)) * u)"

abbreviation f32 :: "rat \<Rightarrow> rat" where "f32 \<equiv> rnd 24"
abbreviation f64 :: "rat \<Rightarrow> rat" where "f64 \<equiv> rnd 53"

text \<open>\<open>round\<close> goes away from zero on a tie; \<open>as u32\<close> truncates and saturates.\<close>

definition round_away :: "rat \<Rightarrow> rat" where
  "round_away x = (if 0 \<le> x then of_int \<lfloor>x + 1 / 2\<rfloor> else of_int \<lceil>x - 1 / 2\<rceil>)"

definition as_u32 :: "rat \<Rightarrow> nat" where
  "as_u32 x = (if x \<le> 0 then 0 else min (nat \<lfloor>x\<rfloor>) 4294967295)"

definition clamp :: "'a::linorder \<Rightarrow> 'a \<Rightarrow> 'a \<Rightarrow> 'a" where
  "clamp lo hi x = (if x < lo then lo else if hi < x then hi else x)"

lemma clamp_bounds [simp]: "lo \<le> hi \<Longrightarrow> lo \<le> clamp lo hi x" "lo \<le> hi \<Longrightarrow> clamp lo hi x \<le> hi"
  by (auto simp: clamp_def)

lemma clamp_id: "lo \<le> x \<Longrightarrow> x \<le> hi \<Longrightarrow> clamp lo hi x = x"
  by (auto simp: clamp_def)

lemma pow2_pos [simp]: "0 < pow2 e"
  by (simp add: pow2_def)

lemma round_even_error: "\<bar>of_int (round_even y) - y\<bar> \<le> 1 / 2"
proof -
  have "of_int \<lfloor>y\<rfloor> \<le> y" "y < of_int \<lfloor>y\<rfloor> + 1" by linarith+
  then show ?thesis by (auto simp: round_even_def Let_def)
qed

text \<open>Rounding changes a number by at most half a unit in the last place, and keeps its sign.\<close>

lemma rnd_error:
  assumes "x \<noteq> 0"
  shows "\<bar>rnd p x - x\<bar> \<le> pow2 (ilog2 \<bar>x\<bar> - int p + 1) / 2"
proof -
  define u where "u = pow2 (ilog2 \<bar>x\<bar> - int p + 1)"
  have u: "0 < u" by (simp add: u_def)
  have "rnd p x - x = (of_int (round_even (x / u)) - x / u) * u"
    using assms u unfolding rnd_def Let_def u_def [symmetric] by (simp add: left_diff_distrib)
  then have "\<bar>rnd p x - x\<bar> = \<bar>of_int (round_even (x / u)) - x / u\<bar> * u" using u by (simp add: abs_mult)
  also have "\<dots> \<le> 1 / 2 * u" using u by (intro mult_right_mono [OF round_even_error]) simp
  finally show ?thesis by (simp add: u_def)
qed

lemma round_even_mono: "x \<le> y \<Longrightarrow> round_even x \<le> round_even y"
proof -
  assume xy: "x \<le> y"
  show ?thesis
  proof (cases "\<lfloor>x\<rfloor> = \<lfloor>y\<rfloor>")
    case True
    with xy show ?thesis by (auto simp: round_even_def Let_def)
  next
    case False
    with floor_mono [OF xy] have "\<lfloor>x\<rfloor> + 1 \<le> \<lfloor>y\<rfloor>" by simp
    moreover have "round_even x \<le> \<lfloor>x\<rfloor> + 1" "\<lfloor>y\<rfloor> \<le> round_even y" by (auto simp: round_even_def Let_def)
    ultimately show ?thesis by simp
  qed
qed

lemma rnd_nonneg: "0 \<le> x \<Longrightarrow> 0 \<le> rnd p x"
proof -
  assume x: "0 \<le> x"
  let ?u = "pow2 (ilog2 \<bar>x\<bar> - int p + 1)"
  have "round_even 0 \<le> round_even (x / ?u)" using x by (intro round_even_mono) (simp add: less_imp_le)
  then have "0 \<le> round_even (x / ?u)" by (simp add: round_even_def)
  then show ?thesis by (simp add: rnd_def Let_def less_imp_le)
qed

lemma rnd_zero [simp]: "rnd p 0 = 0"
  by (simp add: rnd_def)

section \<open>Monotonicity\<close>

lemma pow2_powi: "pow2 e = 2 powi e"
  by (simp add: pow2_def power_int_def field_simps)

lemma pow2_add: "pow2 (d + e) = pow2 d * pow2 e"
  by (simp add: pow2_powi power_int_add)

lemma pow2_Suc: "pow2 (e + 1) = 2 * pow2 e"
  by (simp add: pow2_powi power_int_add)

lemma pow2_mono: "d \<le> e \<Longrightarrow> pow2 d \<le> pow2 e"
  by (simp add: pow2_powi power_int_increasing)

lemma pow2_diff: "pow2 (d - e) = pow2 d / pow2 e"
  by (simp add: pow2_powi power_int_diff)

lemma blen_nonneg: "0 \<le> blen n"
  by (induction n rule: blen.induct) (subst blen.simps, auto)

lemma blen_bounds: "0 < n \<Longrightarrow> pow2 (blen n - 1) \<le> of_int n \<and> of_int n < pow2 (blen n)"
proof (induction n rule: blen.induct)
  case (1 n)
  then have b: "blen n = 1 + blen (n div 2)" by (subst blen.simps) simp
  show ?case
  proof (cases "n = 1")
    case True
    have "blen 0 = 0" by (subst blen.simps) simp
    with True b show ?thesis by (simp add: pow2_def)
  next
    case False
    with 1 have n: "0 < n div 2" "2 * (n div 2) \<le> n" "n + 1 \<le> 2 * (n div 2) + 2" by presburger+
    with 1 have IH: "pow2 (blen (n div 2) - 1) \<le> of_int (n div 2)" "of_int (n div 2) < pow2 (blen (n div 2))"
      by auto
    define k where "k = blen (n div 2)"
    have k: "0 \<le> k" by (simp add: k_def blen_nonneg)
    then have "pow2 k = of_int (2 ^ nat k)" by (simp add: pow2_def)
    with IH(2) have "n div 2 < 2 ^ nat k" by (simp only: k_def [symmetric] of_int_less_iff)
    then have "n div 2 + 1 \<le> 2 ^ nat k" by simp
    with n have "n + 1 \<le> 2 * 2 ^ nat k" by linarith
    then have "of_int (n + 1) \<le> (of_int (2 * 2 ^ nat k) :: rat)" by (simp only: of_int_le_iff)
    with \<open>pow2 k = _\<close> have u: "of_int n < 2 * pow2 k" by simp
    have "2 * of_int (n div 2) \<le> (of_int n :: rat)"
      using n(2) by (metis of_int_le_iff of_int_mult of_int_numeral)
    with IH(1) have "2 * pow2 (k - 1) \<le> of_int n" by (simp add: k_def)
    then have "pow2 k \<le> of_int n" using pow2_Suc [of "k - 1"] by simp
    then show ?thesis using u pow2_Suc [of k] by (simp add: b k_def add.commute)
  qed
qed

lemma ilog2_bounds:
  assumes "0 < x"
  shows "pow2 (ilog2 x) \<le> x" and "x < pow2 (ilog2 x + 1)"
proof -
  obtain a b where q: "quotient_of x = (a, b)" by force
  then have b: "0 < b" by (rule quotient_of_denom_pos)
  have x: "x = of_int a / of_int b" using q by (rule quotient_of_div)
  with assms b have a: "0 < a" by (simp add: zero_less_divide_iff)
  let ?e = "blen a - blen b"
  note ba = blen_bounds [OF a] and bb = blen_bounds [OF b]
  have "x < pow2 (blen a) / pow2 (blen b - 1)"
    unfolding x using ba bb by (intro frac_less) (auto simp: a less_imp_le)
  then have hi: "x < pow2 (?e + 1)" by (simp add: pow2_diff [symmetric] algebra_simps)
  have "pow2 (blen a - 1) / pow2 (blen b) \<le> x"
    unfolding x using ba bb b a by (intro frac_le) (auto simp: less_imp_le)
  then have lo: "pow2 (?e - 1) \<le> x" by (simp add: pow2_diff [symmetric] algebra_simps)
  have "ilog2 x = (if pow2 ?e \<le> x then ?e else ?e - 1)" by (simp add: ilog2_def q)
  then show "pow2 (ilog2 x) \<le> x" "x < pow2 (ilog2 x + 1)" using hi lo by auto
qed

lemma ilog2_mono:
  assumes "0 < x" "x \<le> y"
  shows "ilog2 x \<le> ilog2 y"
proof (rule ccontr)
  assume "\<not> ?thesis"
  then have "pow2 (ilog2 y + 1) \<le> pow2 (ilog2 x)" by (intro pow2_mono) simp
  moreover have "y < pow2 (ilog2 y + 1)" "pow2 (ilog2 x) \<le> x" using assms by (auto intro: ilog2_bounds)
  ultimately show False using assms by simp
qed

lemma round_even_int [simp]: "round_even (of_int k) = k"
  by (simp add: round_even_def)

text \<open>The rounded number stays within the binary interval of the exact one.\<close>

lemma rnd_binade:
  assumes "0 < x" "0 < p"
  shows "pow2 (ilog2 x) \<le> rnd p x" and "rnd p x \<le> pow2 (ilog2 x + 1)"
proof -
  define e where "e = ilog2 x"
  define u where "u = pow2 (e - int p + 1)"
  have u: "0 < u" by (simp add: u_def)
  have r: "rnd p x = of_int (round_even (x / u)) * u" using assms by (simp add: rnd_def u_def e_def Let_def)
  have P: "pow2 (e + k) = of_int (2 ^ nat (k + int p - 1)) * u" if "0 \<le> k" for k
  proof -
    have "pow2 (e + k) = pow2 ((k + int p - 1) + (e - int p + 1))" by (simp add: algebra_simps)
    also have "\<dots> = pow2 (k + int p - 1) * u" unfolding u_def by (simp only: pow2_add)
    also have "pow2 (k + int p - 1) = of_int (2 ^ nat (k + int p - 1))" using that assms by (simp add: pow2_def)
    finally show ?thesis .
  qed
  have b: "pow2 (e + 0) \<le> x" "x \<le> pow2 (e + 1)"
    using ilog2_bounds [OF assms(1)] by (simp_all add: e_def less_imp_le)
  have "pow2 (e + 0) / u \<le> x / u" using b u by (simp add: divide_right_mono)
  then have "of_int (2 ^ nat (0 + int p - 1)) \<le> x / u" using P [of 0] u by simp
  from round_even_mono [OF this] have "2 ^ nat (0 + int p - 1) \<le> round_even (x / u)" by (simp only: round_even_int)
  then have "of_int (2 ^ nat (0 + int p - 1)) * u \<le> rnd p x" unfolding r using u
    by (intro mult_right_mono) (auto simp only: of_int_le_iff)
  then show "pow2 (ilog2 x) \<le> rnd p x" using P [of 0] by (simp add: e_def)
  have "x / u \<le> pow2 (e + 1) / u" using b u by (simp add: divide_right_mono)
  then have "x / u \<le> of_int (2 ^ nat (1 + int p - 1))" using P [of 1] u by simp
  from round_even_mono [OF this] have "round_even (x / u) \<le> 2 ^ nat (1 + int p - 1)" by (simp only: round_even_int)
  then have "rnd p x \<le> of_int (2 ^ nat (1 + int p - 1)) * u" unfolding r using u
    by (intro mult_right_mono) (auto simp only: of_int_le_iff)
  then show "rnd p x \<le> pow2 (ilog2 x + 1)" using P [of 1] by (simp add: e_def)
qed

lemma rnd_mono:
  assumes "0 \<le> x" "x \<le> y" "0 < p"
  shows "rnd p x \<le> rnd p y"
proof (cases "x = 0")
  case True
  then show ?thesis using assms by (simp add: rnd_nonneg)
next
  case False
  with assms have p: "0 < x" "0 < y" by auto
  show ?thesis
  proof (cases "ilog2 x = ilog2 y")
    case True
    define u where "u = pow2 (ilog2 y - int p + 1)"
    have "0 < u" by (simp add: u_def)
    moreover have "rnd p x = of_int (round_even (x / u)) * u" "rnd p y = of_int (round_even (y / u)) * u"
      using p True by (simp_all add: rnd_def u_def Let_def)
    moreover have "x / u \<le> y / u" using assms \<open>0 < u\<close> by (simp add: divide_right_mono)
    ultimately show ?thesis using round_even_mono [of "x / u" "y / u"] by (simp add: mult_right_mono)
  next
    case False
    with ilog2_mono [OF p(1) assms(2)] have "ilog2 x + 1 \<le> ilog2 y" by simp
    from pow2_mono [OF this] rnd_binade(2) [OF p(1) assms(3)] rnd_binade(1) [OF p(2) assms(3)]
    show ?thesis by simp
  qed
qed

end
