(* ===== verification/MovieCadence.thy ===== *)
theory MovieCadence
  imports Prelude FloatRound "HOL-Library.Multiset"
begin

text \<open>
  The cadence controller of the movie mode, \<^verbatim>\<open>src/src/server/video_qos.rs\<close>: the frame rate of a
  stream moves between tiers that fit the refresh rate of the viewer, down after sustained pressure and
  up after sustained health. A sample is what the encoding loop measured since the last one.
\<close>

section \<open>Data\<close>

definition FPS :: nat where "FPS = 30"
definition MIN_FPS :: nat where "MIN_FPS = 1"
definition MAX_FPS :: nat where "MAX_FPS = 120"
definition MOVIE_PROBATION_HEALTHY :: duration where "MOVIE_PROBATION_HEALTHY = from_secs 2"
definition MOVIE_PRESSURE_DURATION :: duration where "MOVIE_PRESSURE_DURATION = from_secs 2"
definition MOVIE_UPSHIFT_HEALTHY :: duration where "MOVIE_UPSHIFT_HEALTHY = from_secs 20"
definition MOVIE_MINIMUM_DWELL :: duration where "MOVIE_MINIMUM_DWELL = from_secs 10"

record MovieViewerMetrics =
  available :: bool
  all_rendered :: bool
  max_queue_depth_frames :: nat
  max_decode_time_us :: nat
  max_render_submit_time_us :: nat
  dropped_frames :: nat
  display_refresh_millihz :: nat
  presentation_late_frames :: nat
  presentation_dropped_frames :: nat
  presentation_jitter_p95_us :: nat

record MovieCadenceSample =
  sample_now :: instant
  sample_target_fps :: nat
  host_pipeline_p95_us :: nat
  host_iterations :: nat
  host_missed_slots :: nat
  viewer :: MovieViewerMetrics
  local_admission_pressure :: bool

datatype MovieCadenceReason =
  ProbationComplete | HostCapacity | ViewerCapacity | DeliveryPressure | HealthyUpshift | TargetChanged

record MovieCadenceDecision =
  previous_fps :: nat
  current_fps :: nat
  reason :: MovieCadenceReason

record MovieCadenceController =
  target_fps :: nat
  tiers :: "nat list"
  current_tier :: nat
  last_change :: instant
  pressure_since :: "instant option"
  healthy_since :: "instant option"
  probation_complete :: bool
  refresh_millihz :: nat
  last_viewer_counters :: "(nat \<times> nat \<times> nat) option"

section \<open>Tiers\<close>

definition COMMON_TIERS :: "nat list" where "COMMON_TIERS = [60, 50, 48, 45, 40, 30, 25, 24]"

text \<open>The refresh rate is a whole number of periods of the tier, up to two percent.\<close>

definition refresh_compatible :: "nat \<Rightarrow> nat \<Rightarrow> bool" where
  "refresh_compatible refresh fps =
     (let periods = f64 (f64 (of_nat refresh) / f64 (of_nat fps * 1000))
      in \<bar>f64 (periods - round_away periods)\<bar> \<le> f64 (2 / 100))"

definition compatible_tier :: "nat \<Rightarrow> nat \<Rightarrow> nat \<Rightarrow> bool" where
  "compatible_tier target refresh fps =
     (if fps > target then False else if fps = FPS \<and> target \<ge> FPS then True else refresh_compatible refresh fps)"

definition movie_cadence_tiers :: "nat \<Rightarrow> nat \<Rightarrow> nat list" where
  "movie_cadence_tiers target0 refresh =
     (let target = clamp MIN_FPS MAX_FPS target0;
          t0 = (if refresh = 0 then take 1 (filter (\<lambda>fps. fps \<le> target) COMMON_TIERS)
                else filter (compatible_tier target refresh) COMMON_TIERS);
          t1 = (if target \<ge> FPS \<and> FPS \<notin> set t0 then t0 @ [FPS] else t0);
          t2 = (if t1 = [] then t1 @ [target] else t1)
      in remdups_adj (rev (sort t2)))"

section \<open>Controller\<close>

definition Cadence_new :: "nat \<Rightarrow> nat \<Rightarrow> instant \<Rightarrow> MovieCadenceController" where
  "Cadence_new target0 refresh t =
     (let target = clamp MIN_FPS MAX_FPS target0;
          ts = movie_cadence_tiers target refresh;
          current = (case find (\<lambda>fps. fps \<le> FPS) ts of
                       Some f \<Rightarrow> f | None \<Rightarrow> (if ts = [] then target else last ts))
      in \<lparr>target_fps = target, tiers = ts, current_tier = current, last_change = t, pressure_since = None,
          healthy_since = None, probation_complete = (current = target), refresh_millihz = refresh,
          last_viewer_counters = None\<rparr>)"

definition reject_change :: "nat \<Rightarrow> nat \<Rightarrow> instant \<Rightarrow> MovieCadenceController \<Rightarrow> MovieCadenceController" where
  "reject_change previous rejected t c =
     (let c1 = c\<lparr>current_tier := previous\<rparr>;
          c2 = (if rejected > previous
                then c1\<lparr>tiers := filter (\<lambda>fps. fps \<le> previous) (tiers c1), probation_complete := True\<rparr> else c1)
      in c2\<lparr>last_change := t, pressure_since := None, healthy_since := None\<rparr>)"

definition change_tier ::
  "nat \<Rightarrow> MovieCadenceReason \<Rightarrow> instant \<Rightarrow> MovieCadenceController
     \<Rightarrow> MovieCadenceController \<times> MovieCadenceDecision option" where
  "change_tier next why t c =
     (if next = current_tier c then (c, None)
      else (c\<lparr>current_tier := next, last_change := t, pressure_since := None, healthy_since := None,
              probation_complete := True\<rparr>,
            Some \<lparr>previous_fps = current_tier c, current_fps = next, reason = why\<rparr>))"

fun tier_position :: "nat \<Rightarrow> nat list \<Rightarrow> nat option" where
  "tier_position f [] = None"
| "tier_position f (g # gs) = (if g = f then Some 0 else map_option Suc (tier_position f gs))"

definition next_lower_tier :: "MovieCadenceController \<Rightarrow> nat option" where
  "next_lower_tier c = (case tier_position (current_tier c) (tiers c) of
     None \<Rightarrow> None
   | Some i \<Rightarrow> if i + 1 < length (tiers c) then Some (tiers c ! (i + 1)) else None)"

definition next_higher_tier :: "MovieCadenceController \<Rightarrow> nat option" where
  "next_higher_tier c = (case tier_position (current_tier c) (tiers c) of
     None \<Rightarrow> None
   | Some i \<Rightarrow> if i = 0 then None else Some (tiers c ! (i - 1)))"

definition monotonic_counter_delta :: "nat \<Rightarrow> nat \<Rightarrow> nat" where
  "monotonic_counter_delta current previous = (if current \<ge> previous then current - previous else 0)"

definition viewer_counter_deltas ::
  "MovieViewerMetrics \<Rightarrow> MovieCadenceController \<Rightarrow> MovieCadenceController \<times> nat \<times> nat \<times> nat" where
  "viewer_counter_deltas v c =
     (let current = (dropped_frames v, presentation_late_frames v, presentation_dropped_frames v);
          c1 = c\<lparr>last_viewer_counters := Some current\<rparr>
      in case last_viewer_counters c of
           None \<Rightarrow> (c1, 0, 0, 0)
         | Some (d, l, p) \<Rightarrow>
             (c1, monotonic_counter_delta (dropped_frames v) d, monotonic_counter_delta (presentation_late_frames v) l,
              monotonic_counter_delta (presentation_dropped_frames v) p))"

definition update_probation_tiers :: "nat \<Rightarrow> MovieCadenceController \<Rightarrow> MovieCadenceController" where
  "update_probation_tiers refresh c =
     (if probation_complete c \<or> refresh = 0 \<or> refresh = refresh_millihz c then c
      else let ts = movie_cadence_tiers (target_fps c) refresh
           in if current_tier c \<in> set ts then c\<lparr>tiers := ts, refresh_millihz := refresh\<rparr> else c)"

definition update_target ::
  "nat \<Rightarrow> nat \<Rightarrow> instant \<Rightarrow> MovieCadenceController \<Rightarrow> MovieCadenceController \<times> MovieCadenceDecision option" where
  "update_target target0 refresh t c =
     (let target = clamp MIN_FPS MAX_FPS target0
      in if target = target_fps c then (c, None)
         else
           let ts0 = movie_cadence_tiers target refresh;
               ts = (if target > target_fps c \<and> current_tier c < target \<and> current_tier c \<notin> set ts0
                     then rev (sort (ts0 @ [current_tier c])) else ts0);
               c1 = c\<lparr>target_fps := target, tiers := ts, refresh_millihz := refresh, pressure_since := None,
                      healthy_since := None\<rparr>
           in if current_tier c1 \<notin> set (tiers c1)
              then change_tier (case tiers c1 of [] \<Rightarrow> target | f # _ \<Rightarrow> f) TargetChanged t c1
              else (c1\<lparr>probation_complete := (current_tier c1 \<ge> target)\<rparr>, None))"

section \<open>Evaluation of a sample\<close>

definition missed_over :: "rat \<Rightarrow> MovieCadenceSample \<Rightarrow> bool" where
  "missed_over limit s =
     ((if host_iterations s = 0 then 0
       else f64 (f64 (of_nat (host_missed_slots s)) / f64 (of_nat (host_iterations s)))) > f64 limit)"

definition host_pressure :: "MovieCadenceController \<Rightarrow> MovieCadenceSample \<Rightarrow> bool" where
  "host_pressure c s =
     (let period = 1000000 div max (current_tier c) 1
      in if target_fps c \<ge> FPS \<and> current_tier c \<le> FPS
         then host_pipeline_p95_us s > period * 95 div 100 \<or> missed_over (20 / 100) s
         else host_pipeline_p95_us s > period \<or> missed_over (10 / 100) s)"

definition viewer_pressure :: "MovieCadenceController \<Rightarrow> MovieCadenceSample \<Rightarrow> bool" where
  "viewer_pressure c s =
     (let period = 1000000 div max (current_tier c) 1; v = viewer s
      in available v \<and> (max_queue_depth_frames v > 3 \<or> max_decode_time_us v > period * 95 div 100
           \<or> max_render_submit_time_us v > period * 95 div 100 \<or> presentation_jitter_p95_us v > period div 2))"

definition cadence_healthy :: "nat \<Rightarrow> MovieCadenceController \<Rightarrow> MovieCadenceSample \<Rightarrow> bool" where
  "cadence_healthy next c s =
     (let period = 1000000 div max next 1; v = viewer s;
          host_headroom = (if probation_complete c then 65 else 95);
          viewer_headroom = (if probation_complete c then 65 else 90)
      in available v \<and> all_rendered v \<and> host_pipeline_p95_us s > 0
         \<and> host_pipeline_p95_us s \<le> period * host_headroom div 100 \<and> host_missed_slots s = 0
         \<and> max_queue_depth_frames v \<le> 1 \<and> max_decode_time_us v \<le> period * viewer_headroom div 100
         \<and> max_render_submit_time_us v \<le> period * viewer_headroom div 100)"

definition evaluate_pressured ::
  "bool \<Rightarrow> bool \<Rightarrow> instant \<Rightarrow> MovieCadenceController \<Rightarrow> MovieCadenceController \<times> MovieCadenceDecision option" where
  "evaluate_pressured hostp viewerp t c =
     (let start = unwrap_or (pressure_since c) t;
          c1 = c\<lparr>healthy_since := None, pressure_since := Some start\<rparr>;
          why = (if hostp then HostCapacity else if viewerp then ViewerCapacity else DeliveryPressure)
      in if since t start \<ge> MOVIE_PRESSURE_DURATION
         then (case next_lower_tier c1 of None \<Rightarrow> (c1, None) | Some n \<Rightarrow> change_tier n why t c1)
         else (c1, None))"

definition evaluate_healthy ::
  "MovieCadenceSample \<Rightarrow> MovieCadenceController \<Rightarrow> MovieCadenceController \<times> MovieCadenceDecision option" where
  "evaluate_healthy s c0 =
     (let t = sample_now s; c = c0\<lparr>pressure_since := None\<rparr>
      in case next_higher_tier c of
           None \<Rightarrow> (c\<lparr>probation_complete := True, healthy_since := None\<rparr>, None)
         | Some n \<Rightarrow>
             (if \<not> cadence_healthy n c s then (c\<lparr>healthy_since := None\<rparr>, None)
              else
                let start = unwrap_or (healthy_since c) t;
                    c1 = c\<lparr>healthy_since := Some start\<rparr>;
                    required = (if probation_complete c1 then MOVIE_UPSHIFT_HEALTHY else MOVIE_PROBATION_HEALTHY)
                in if since t start < required then (c1, None)
                   else if probation_complete c1 \<and> since t (last_change c1) < MOVIE_MINIMUM_DWELL then (c1, None)
                   else change_tier n (if probation_complete c1 then HealthyUpshift else ProbationComplete) t c1))"

definition Cadence_evaluate ::
  "MovieCadenceSample \<Rightarrow> MovieCadenceController \<Rightarrow> MovieCadenceController \<times> MovieCadenceDecision option" where
  "Cadence_evaluate s c =
     (case update_target (sample_target_fps s) (display_refresh_millihz (viewer s)) (sample_now s) c of
        (c1, Some d) \<Rightarrow> (c1, Some d)
      | (c1, None) \<Rightarrow>
          (let c2 = update_probation_tiers (display_refresh_millihz (viewer s)) c1;
               (c3, dropped, late, presentation_dropped) = viewer_counter_deltas (viewer s) c2;
               hostp = host_pressure c3 s; viewerp = viewer_pressure c3 s;
               deliveryp = (dropped > 0 \<or> late > 0 \<or> presentation_dropped > 0 \<or> local_admission_pressure s)
           in if hostp \<or> viewerp \<or> deliveryp then evaluate_pressured hostp viewerp (sample_now s) c3
              else evaluate_healthy s c3))"

section \<open>Invariant\<close>

definition cadence_inv :: "MovieCadenceController \<Rightarrow> bool" where
  "cadence_inv c \<longleftrightarrow> 1 \<le> target_fps c \<and> target_fps c \<le> 120 \<and> sorted_wrt (>) (tiers c)
     \<and> (\<forall>f\<in>set (tiers c). 1 \<le> f \<and> f \<le> target_fps c) \<and> 1 \<le> current_tier c \<and> current_tier c \<le> target_fps c"

text \<open>The times of a controller are not later than a clock, and pressure and health began after the last change.\<close>

definition cadence_times :: "instant \<Rightarrow> MovieCadenceController \<Rightarrow> bool" where
  "cadence_times clock c \<longleftrightarrow> last_change c \<le> clock
     \<and> is_none_or (pressure_since c) (\<lambda>p. last_change c \<le> p \<and> p \<le> clock)
     \<and> is_none_or (healthy_since c) (\<lambda>h. last_change c \<le> h \<and> h \<le> clock)"

lemma rev_sort_desc: "distinct xs \<Longrightarrow> sorted_wrt (>) (rev (sort (xs :: nat list)))"
  by (simp add: sorted_wrt_rev strict_sorted_iff)

lemma remdups_desc: "sorted_wrt (\<ge>) (xs :: nat list) \<Longrightarrow> sorted_wrt (>) (remdups_adj xs)"
proof (induction xs rule: remdups_adj.induct)
  case (3 x y xs)
  show ?case
  proof (cases "x = y")
    case False
    from 3 have "sorted_wrt (>) (remdups_adj (y # xs))" using False by auto
    moreover have "\<forall>z \<in> set (remdups_adj (y # xs)). z < x" using 3(3) False by force
    ultimately show ?thesis using False by simp
  qed (use 3 in simp)
qed simp_all

lemma clamp_target [simp]: "1 \<le> clamp MIN_FPS MAX_FPS f" "Suc 0 \<le> clamp MIN_FPS MAX_FPS f" "clamp MIN_FPS MAX_FPS f \<le> 120"
  by (simp_all add: clamp_def MIN_FPS_def MAX_FPS_def)

lemma clamp_idem [simp]: "clamp MIN_FPS MAX_FPS (clamp MIN_FPS MAX_FPS f) = clamp MIN_FPS MAX_FPS f"
  by (simp add: clamp_def MIN_FPS_def MAX_FPS_def)

lemma tiers_props:
  fixes f r :: nat
  defines "ts \<equiv> movie_cadence_tiers f r"
  shows "sorted_wrt (>) ts" "\<forall>x\<in>set ts. 1 \<le> x \<and> x \<le> clamp MIN_FPS MAX_FPS f" "ts \<noteq> []"
proof -
  have "sorted_wrt (\<ge>) (rev (sort xs))" for xs :: "nat list" by (simp add: sorted_wrt_rev)
  from remdups_desc [OF this] show "sorted_wrt (>) ts" unfolding ts_def movie_cadence_tiers_def Let_def .
  show "\<forall>x\<in>set ts. 1 \<le> x \<and> x \<le> clamp MIN_FPS MAX_FPS f"
    by (auto simp: ts_def movie_cadence_tiers_def Let_def COMMON_TIERS_def FPS_def compatible_tier_def
        dest!: in_set_takeD split: if_splits)
  have "sort xs = [] \<longleftrightarrow> xs = []" for xs :: "nat list" by (metis length_0_conv length_sort)
  then show "ts \<noteq> []" by (simp add: ts_def movie_cadence_tiers_def Let_def)
qed

lemma tier_position_Some: "tier_position f gs = Some i \<Longrightarrow> i < length gs \<and> gs ! i = f"
  by (induction gs arbitrary: i) (auto split: if_splits)

lemma tier_position_None: "tier_position f gs = None \<longleftrightarrow> f \<notin> set gs"
  by (induction gs) auto

lemma next_lower:
  assumes "next_lower_tier c = Some n" "sorted_wrt (>) (tiers c)"
  shows "n \<in> set (tiers c)" "n < current_tier c" "current_tier c \<in> set (tiers c)"
    "\<forall>f\<in>set (tiers c). f < current_tier c \<longrightarrow> f \<le> n"
proof -
  from assms(1) obtain i where i: "tier_position (current_tier c) (tiers c) = Some i" "i + 1 < length (tiers c)"
    "n = tiers c ! (i + 1)" by (auto simp: next_lower_tier_def split: option.splits if_splits)
  note p = tier_position_Some [OF i(1)]
  from i p show "n \<in> set (tiers c)" by auto
  from p show "current_tier c \<in> set (tiers c)" by (metis nth_mem)
  from sorted_wrt_nth_less [OF assms(2), of i "i + 1"] i p show "n < current_tier c" by simp
  show "\<forall>f\<in>set (tiers c). f < current_tier c \<longrightarrow> f \<le> n"
  proof (intro ballI impI)
    fix f assume "f \<in> set (tiers c)" "f < current_tier c"
    then obtain k where k: "k < length (tiers c)" "tiers c ! k = f" by (auto simp: in_set_conv_nth)
    have "i < k" using sorted_wrt_nth_less [OF assms(2), of k i] k p \<open>f < current_tier c\<close>
      by (metis linorder_neqE_nat order.asym)
    then have "k = i + 1 \<or> i + 1 < k" by linarith
    then show "f \<le> n" using sorted_wrt_nth_less [OF assms(2), of "i + 1" k] k i by auto
  qed
qed

lemma next_higher:
  assumes "next_higher_tier c = Some n" "sorted_wrt (>) (tiers c)"
  shows "n \<in> set (tiers c)" "current_tier c < n" "current_tier c \<in> set (tiers c)"
    "\<forall>f\<in>set (tiers c). current_tier c < f \<longrightarrow> n \<le> f"
proof -
  from assms(1) obtain i where i: "tier_position (current_tier c) (tiers c) = Some i" "i \<noteq> 0"
    "n = tiers c ! (i - 1)" by (auto simp: next_higher_tier_def split: option.splits if_splits)
  note p = tier_position_Some [OF i(1)]
  from i p show "n \<in> set (tiers c)" by auto
  from p show "current_tier c \<in> set (tiers c)" by (metis nth_mem)
  from sorted_wrt_nth_less [OF assms(2), of "i - 1" i] i p show "current_tier c < n" by simp
  show "\<forall>f\<in>set (tiers c). current_tier c < f \<longrightarrow> n \<le> f"
  proof (intro ballI impI)
    fix f assume "f \<in> set (tiers c)" "current_tier c < f"
    then obtain k where k: "k < length (tiers c)" "tiers c ! k = f" by (auto simp: in_set_conv_nth)
    have "k < i" using sorted_wrt_nth_less [OF assms(2), of i k] k p \<open>current_tier c < f\<close>
      by (metis linorder_neqE_nat order.asym)
    then have "k = i - 1 \<or> k < i - 1" "i - 1 < length (tiers c)" using p by linarith+
    then show "n \<le> f" using sorted_wrt_nth_less [OF assms(2), of k "i - 1"] k i p by auto
  qed
qed

lemma cadence_inv_new: "cadence_inv (Cadence_new f r t)"
proof -
  let ?t = "clamp MIN_FPS MAX_FPS f"
  note ts = tiers_props [of ?t r]
  have "current_tier (Cadence_new f r t) \<in> set (movie_cadence_tiers ?t r)"
    using ts(3) by (auto simp: Cadence_new_def Let_def find_Some_iff split: option.split)
  with ts show ?thesis by (auto simp: cadence_inv_def Cadence_new_def Let_def)
qed

lemma update_target_inv:
  assumes "cadence_inv c" and "update_target f r t c = (c', d)"
  shows "cadence_inv c'"
proof -
  let ?t = "clamp MIN_FPS MAX_FPS f"
  note ts = tiers_props [of ?t r]
  have "distinct (movie_cadence_tiers ?t r)"
    using ts(1) by (metis distinct_rev sorted_wrt_rev strict_sorted_iff rev_rev_ident)
  then have push: "current_tier c \<notin> set (movie_cadence_tiers ?t r) \<Longrightarrow>
      sorted_wrt (>) (rev (sort (movie_cadence_tiers ?t r @ [current_tier c])))"
    by (intro rev_sort_desc) simp
  show ?thesis
    using assms ts push
    by (auto simp: update_target_def Let_def cadence_inv_def change_tier_def split: if_splits list.splits)
qed

lemma inv_frame:
  assumes "cadence_inv c" "target_fps c' = target_fps c" "tiers c' = tiers c" "current_tier c' = current_tier c"
  shows "cadence_inv c'"
  using assms by (simp add: cadence_inv_def)

lemma change_tier_inv:
  assumes "cadence_inv c" "n \<in> set (tiers c)" "change_tier n w t c = (c', d)"
  shows "cadence_inv c'"
  using assms by (auto simp: change_tier_def cadence_inv_def split: if_splits)

lemma probation_tiers_inv: "cadence_inv c \<Longrightarrow> cadence_inv (update_probation_tiers r c)"
  using tiers_props [of "target_fps c" r]
  by (auto simp: update_probation_tiers_def Let_def cadence_inv_def clamp_id MIN_FPS_def MAX_FPS_def)

lemma deltas_frame:
  "fst (viewer_counter_deltas v c) = c\<lparr>last_viewer_counters :=
     Some (dropped_frames v, presentation_late_frames v, presentation_dropped_frames v)\<rparr>"
  by (auto simp: viewer_counter_deltas_def Let_def split: option.split)

lemma pressured_inv:
  assumes "cadence_inv c" "evaluate_pressured hp vp t c = (c', d)"
  shows "cadence_inv c'"
proof -
  let ?c1 = "c\<lparr>healthy_since := None, pressure_since := Some (unwrap_or (pressure_since c) t)\<rparr>"
  have c1: "cadence_inv ?c1" by (rule inv_frame [OF assms(1)]) simp_all
  show ?thesis
  proof (cases "\<exists>n. next_lower_tier ?c1 = Some n")
    case True
    then obtain n where n: "next_lower_tier ?c1 = Some n" by blast
    have "n \<in> set (tiers ?c1)" using next_lower(1) [OF n] c1 by (simp add: cadence_inv_def)
    from change_tier_inv [OF c1 this] assms(2) n c1 show ?thesis
      by (auto simp: evaluate_pressured_def Let_def split: if_splits)
  qed (use assms c1 in \<open>auto simp: evaluate_pressured_def Let_def split: if_splits\<close>)
qed

lemma healthy_inv:
  assumes "cadence_inv c" "evaluate_healthy s c = (c', d)"
  shows "cadence_inv c'"
proof (cases "next_higher_tier (c\<lparr>pressure_since := None\<rparr>)")
  case None
  with assms show ?thesis by (auto simp: evaluate_healthy_def Let_def intro: inv_frame)
next
  case (Some n)
  let ?c1 = "c\<lparr>pressure_since := None, healthy_since := Some (unwrap_or (healthy_since c) (sample_now s))\<rparr>"
  have c1: "cadence_inv ?c1" by (rule inv_frame [OF assms(1)]) simp_all
  have "n \<in> set (tiers ?c1)" using next_higher(1) [OF Some] assms(1) by (simp add: cadence_inv_def)
  from change_tier_inv [OF c1 this] Some assms c1 show ?thesis
    by (auto simp: evaluate_healthy_def Let_def intro: inv_frame split: if_splits)
qed

text \<open>The three stages of an evaluation: a changed target, pressure, or health.\<close>

lemma evaluate_cases:
  assumes "Cadence_evaluate s c = (c', d)"
  obtains (target) x where "update_target (sample_target_fps s) (display_refresh_millihz (viewer s)) (sample_now s) c = (c', Some x)"
      "d = Some x"
  | (stage) c1 c3 where "update_target (sample_target_fps s) (display_refresh_millihz (viewer s)) (sample_now s) c = (c1, None)"
      "c3 = fst (viewer_counter_deltas (viewer s) (update_probation_tiers (display_refresh_millihz (viewer s)) c1))"
      "(\<exists>hp vp. evaluate_pressured hp vp (sample_now s) c3 = (c', d)) \<or> evaluate_healthy s c3 = (c', d)"
proof -
  obtain c1 x where u: "update_target (sample_target_fps s) (display_refresh_millihz (viewer s)) (sample_now s) c = (c1, x)"
    by fastforce
  show thesis
  proof (cases x)
    case None
    with u assms show thesis
      by (intro stage [OF u [unfolded None] refl])
        (auto simp: Cadence_evaluate_def Let_def case_prod_beta split: if_splits)
  next
    case (Some y)
    with u assms show thesis by (intro target) (auto simp: Cadence_evaluate_def)
  qed
qed

lemma evaluate_inv:
  assumes "cadence_inv c" "Cadence_evaluate s c = (c', d)"
  shows "cadence_inv c'"
  using assms(2)
proof (cases rule: evaluate_cases)
  case (target x)
  with update_target_inv [OF assms(1)] show ?thesis by blast
next
  case (stage c1 c3)
  have "cadence_inv c3" unfolding stage(2) deltas_frame
    by (rule inv_frame [OF probation_tiers_inv [OF update_target_inv [OF assms(1) stage(1)]]]) simp_all
  with stage(3) pressured_inv healthy_inv show ?thesis by blast
qed

lemma reject_inv:
  assumes "cadence_inv c" "1 \<le> p" "p \<le> target_fps c"
  shows "cadence_inv (reject_change p rj t c)"
  using assms by (auto simp: reject_change_def Let_def cadence_inv_def sorted_wrt_filter)

section \<open>Pacing\<close>

lemma times_mono: "cadence_times t c \<Longrightarrow> t \<le> t' \<Longrightarrow> cadence_times t' c"
  by (auto simp: cadence_times_def is_none_or_iff)

lemma change_tier_times: "cadence_times t c \<Longrightarrow> change_tier n w t c = (c', d) \<Longrightarrow> cadence_times t c'"
  by (auto simp: change_tier_def cadence_times_def split: if_splits)

lemma update_target_times:
  "cadence_times t c \<Longrightarrow> update_target f r t c = (c', d) \<Longrightarrow> cadence_times t c'"
  by (auto simp: update_target_def Let_def change_tier_def cadence_times_def split: if_splits list.splits)

lemma probation_times [simp]: "cadence_times t (update_probation_tiers r c) = cadence_times t c"
  by (simp add: update_probation_tiers_def Let_def cadence_times_def)

lemma counters_times [simp]: "cadence_times t (c\<lparr>last_viewer_counters := x\<rparr>) = cadence_times t c"
  by (simp add: cadence_times_def)

lemma pressured_times:
  assumes "cadence_times t c" "evaluate_pressured hp vp t c = (c', d)"
  shows "cadence_times t c'"
proof -
  have "cadence_times t (c\<lparr>healthy_since := None, pressure_since := Some (unwrap_or (pressure_since c) t)\<rparr>)"
    using assms(1) by (cases "pressure_since c") (auto simp: cadence_times_def)
  with change_tier_times assms(2) show ?thesis
    by (auto simp: evaluate_pressured_def Let_def split: if_splits option.splits)
qed

lemma healthy_times:
  assumes "cadence_times (sample_now s) c" "evaluate_healthy s c = (c', d)"
  shows "cadence_times (sample_now s) c'"
proof -
  have 1: "cadence_times (sample_now s) (c\<lparr>pressure_since := None, healthy_since := Some (unwrap_or (healthy_since c) (sample_now s))\<rparr>)"
    using assms(1) by (cases "healthy_since c") (auto simp: cadence_times_def)
  have 2: "cadence_times (sample_now s) (c\<lparr>pressure_since := None, healthy_since := None\<rparr>)"
    using assms(1) by (auto simp: cadence_times_def)
  show ?thesis
  proof (cases "next_higher_tier (c\<lparr>pressure_since := None\<rparr>)")
    case None
    with assms(2) 2 show ?thesis by (auto simp: evaluate_healthy_def cadence_times_def)
  next
    case (Some n)
    let ?c1 = "c\<lparr>pressure_since := None, healthy_since := Some (unwrap_or (healthy_since c) (sample_now s))\<rparr>"
    consider "c' = c\<lparr>pressure_since := None, healthy_since := None\<rparr>" | "c' = ?c1" | w where "change_tier n w (sample_now s) ?c1 = (c', d)"
      using assms(2) Some by (simp add: evaluate_healthy_def Let_def split: if_splits)
    then show ?thesis using 1 2 change_tier_times [OF 1] by cases simp_all
  qed
qed

lemma evaluate_times:
  assumes "cadence_times t c" "t \<le> sample_now s" "Cadence_evaluate s c = (c', d)"
  shows "cadence_times (sample_now s) c'"
  using assms(3)
proof (cases rule: evaluate_cases)
  case (target x)
  with update_target_times [OF times_mono [OF assms(1,2)]] show ?thesis by blast
next
  case (stage c1 c3)
  have "cadence_times (sample_now s) c3"
    using update_target_times [OF times_mono [OF assms(1,2)] stage(1)] by (simp add: stage(2) deltas_frame)
  with stage(3) pressured_times healthy_times show ?thesis by blast
qed

text \<open>
  The run of a controller in the encoding loop: samples in the order of time, and after a decision to
  raise the rate possibly its rejection by the encoder. A rejected reduction ends the run: the loop
  restarts the service.
\<close>

inductive cadence_step :: "MovieCadenceController \<times> instant \<Rightarrow> MovieCadenceController \<times> instant \<Rightarrow> bool" where
  evaluate: "t \<le> sample_now s \<Longrightarrow> Cadence_evaluate s c = (c', d) \<Longrightarrow> cadence_step (c, t) (c', sample_now s)"
| rejected: "t \<le> sample_now s \<Longrightarrow> Cadence_evaluate s c = (c', Some d) \<Longrightarrow> previous_fps d < current_fps d \<Longrightarrow>
     cadence_step (c, t) (reject_change (previous_fps d) (current_fps d) (sample_now s) c', sample_now s)"

lemma change_tier_decision:
  "change_tier n w t c = (c', Some d) \<Longrightarrow> d = \<lparr>previous_fps = current_tier c, current_fps = n, reason = w\<rparr>
     \<and> current_tier c' = n \<and> target_fps c' = target_fps c \<and> tiers c' = tiers c"
  by (auto simp: change_tier_def split: if_splits)

lemma target_decision:
  assumes "update_target f r t c = (c', Some d)"
  shows "reason d = TargetChanged" "previous_fps d = current_tier c" "current_fps d = current_tier c'"
  using assms by (auto simp: update_target_def Let_def change_tier_def split: if_splits)

text \<open>A decision that is not a changed target: its neighbour tier, and how long the state lasted before it.\<close>

lemma pressured_decision:
  assumes "cadence_inv c" "cadence_times t c" "evaluate_pressured hp vp t c = (c', Some d)"
  shows "previous_fps d = current_tier c \<and> current_fps d < previous_fps d
     \<and> (\<forall>f\<in>set (tiers c). f < previous_fps d \<longrightarrow> f \<le> current_fps d)
     \<and> reason d \<in> {HostCapacity, ViewerCapacity, DeliveryPressure} \<and> from_secs 2 \<le> since t (last_change c)"
proof -
  let ?c1 = "c\<lparr>healthy_since := None, pressure_since := Some (unwrap_or (pressure_since c) t)\<rparr>"
  obtain n w where n: "next_lower_tier ?c1 = Some n" "change_tier n w t ?c1 = (c', Some d)"
    "w \<in> {HostCapacity, ViewerCapacity, DeliveryPressure}"
    and p: "MOVIE_PRESSURE_DURATION \<le> since t (unwrap_or (pressure_since c) t)"
    using assms(3) by (auto simp: evaluate_pressured_def Let_def split: if_splits option.splits)
  have s: "sorted_wrt (>) (tiers ?c1)" using assms(1) by (simp add: cadence_inv_def)
  have "from_secs 2 \<le> since t (last_change c)"
    using p assms(2) by (cases "pressure_since c") (auto simp: MOVIE_PRESSURE_DURATION_def cadence_times_def rust_time)
  with next_lower [OF n(1) s] change_tier_decision [OF n(2)] n(3) show ?thesis by auto
qed

lemma healthy_decision:
  assumes "cadence_inv c" "cadence_times (sample_now s) c" "evaluate_healthy s c = (c', Some d)"
  shows "previous_fps d = current_tier c \<and> previous_fps d < current_fps d
     \<and> (\<forall>f\<in>set (tiers c). previous_fps d < f \<longrightarrow> current_fps d \<le> f)
     \<and> reason d = (if probation_complete c then HealthyUpshift else ProbationComplete)
     \<and> from_secs (if probation_complete c then 20 else 2) \<le> since (sample_now s) (last_change c)"
proof -
  let ?c = "c\<lparr>pressure_since := None\<rparr>"
  obtain n c1 w where n: "next_higher_tier ?c = Some n" "change_tier n w (sample_now s) c1 = (c', Some d)"
    "current_tier c1 = current_tier c" "w = (if probation_complete c then HealthyUpshift else ProbationComplete)"
    and p: "(if probation_complete c then MOVIE_UPSHIFT_HEALTHY else MOVIE_PROBATION_HEALTHY)
        \<le> since (sample_now s) (unwrap_or (healthy_since c) (sample_now s))"
    using assms(3) by (auto simp: evaluate_healthy_def Let_def not_less split: if_splits option.splits)
  have s: "sorted_wrt (>) (tiers ?c)" using assms(1) by (simp add: cadence_inv_def)
  have "from_secs (if probation_complete c then 20 else 2) \<le> since (sample_now s) (last_change c)"
    using p assms(2)
    by (cases "healthy_since c")
      (auto simp: MOVIE_UPSHIFT_HEALTHY_def MOVIE_PROBATION_HEALTHY_def cadence_times_def rust_time split: if_splits)
  with next_higher [OF n(1) s] change_tier_decision [OF n(2)] n(3,4) show ?thesis by auto
qed

lemma stage_frame:
  assumes "update_target f r t c = (c1, None)"
    and "c3 = fst (viewer_counter_deltas v (update_probation_tiers r' c1))"
  shows "current_tier c3 = current_tier c" "target_fps c3 = clamp MIN_FPS MAX_FPS f"
    "probation_complete c3 = probation_complete c1" "pressure_since c3 = pressure_since c1"
    "healthy_since c3 = healthy_since c1" "last_change c3 = last_change c"
    "c1 = c \<or> pressure_since c3 = None \<and> healthy_since c3 = None"
  using assms
  by (auto simp: deltas_frame update_probation_tiers_def update_target_def change_tier_def Let_def split: if_splits)

lemma pressured_needs_start:
  "pressure_since c = None \<Longrightarrow> evaluate_pressured hp vp t c = (c', Some d) \<Longrightarrow> False"
  by (auto simp: evaluate_pressured_def Let_def MOVIE_PRESSURE_DURATION_def rust_time split: if_splits option.splits)

lemma healthy_needs_start:
  "healthy_since c = None \<Longrightarrow> evaluate_healthy s c = (c', Some d) \<Longrightarrow> False"
  by (auto simp: evaluate_healthy_def Let_def MOVIE_UPSHIFT_HEALTHY_def MOVIE_PROBATION_HEALTHY_def rust_time
      split: if_splits option.splits)

lemma stage_tier:
  assumes "(\<exists>hp vp. evaluate_pressured hp vp t c = (c', d)) \<or> evaluate_healthy s c = (c', d)"
  shows "target_fps c' = target_fps c \<and> tiers c' = tiers c"
    and "case d of None \<Rightarrow> current_tier c' = current_tier c
         | Some x \<Rightarrow> previous_fps x = current_tier c \<and> current_fps x = current_tier c'"
  using assms
  by (auto simp: evaluate_pressured_def evaluate_healthy_def change_tier_def Let_def
      split: if_splits option.splits)

lemma evaluate_tier:
  assumes "Cadence_evaluate s c = (c', d)"
  shows "target_fps c' = clamp MIN_FPS MAX_FPS (sample_target_fps s)"
    and "case d of None \<Rightarrow> current_tier c' = current_tier c
         | Some x \<Rightarrow> previous_fps x = current_tier c \<and> current_fps x = current_tier c'"
proof -
  have "target_fps c' = clamp MIN_FPS MAX_FPS (sample_target_fps s) \<and>
      (case d of None \<Rightarrow> current_tier c' = current_tier c
         | Some x \<Rightarrow> previous_fps x = current_tier c \<and> current_fps x = current_tier c')"
    using assms
  proof (cases rule: evaluate_cases)
    case (target x)
    have "target_fps c' = clamp MIN_FPS MAX_FPS (sample_target_fps s)"
      using target(1) by (auto simp: update_target_def change_tier_def Let_def split: if_splits)
    with target_decision [OF target(1)] target(2) show ?thesis by simp
  next
    case (stage c1 c3)
    note f = stage_frame [OF stage(1,2)] and t = stage_tier [OF stage(3)]
    from t f show ?thesis by (cases d) simp_all
  qed
  then show "target_fps c' = clamp MIN_FPS MAX_FPS (sample_target_fps s)"
    and "case d of None \<Rightarrow> current_tier c' = current_tier c
         | Some x \<Rightarrow> previous_fps x = current_tier c \<and> current_fps x = current_tier c'" by blast+
qed

interpretation mc: invariant_machine "\<lambda>(c, t). \<exists>f r. c = Cadence_new f r t" cadence_step
  "\<lambda>(c, t). cadence_inv c \<and> cadence_times t c"
proof
  fix s :: "MovieCadenceController \<times> instant" assume "case s of (c, t) \<Rightarrow> \<exists>f r. c = Cadence_new f r t"
  then show "case s of (c, t) \<Rightarrow> cadence_inv c \<and> cadence_times t c"
    by (auto simp: cadence_inv_new) (simp add: Cadence_new_def Let_def cadence_times_def)
next
  fix s s' :: "MovieCadenceController \<times> instant"
  assume i: "case s of (c, t) \<Rightarrow> cadence_inv c \<and> cadence_times t c" and "cadence_step s s'"
  from this(2) show "case s' of (c, t) \<Rightarrow> cadence_inv c \<and> cadence_times t c"
  proof cases
    case (evaluate t x c c' d)
    with i evaluate_inv evaluate_times show ?thesis by auto
  next
    case (rejected t x c c' d)
    have inv: "cadence_inv c'" using i rejected(1,4) evaluate_inv by auto
    have p: "previous_fps d = current_tier c" "current_fps d = current_tier c'"
      using evaluate_tier(2) [OF rejected(4)] by simp_all
    have "1 \<le> previous_fps d" "previous_fps d \<le> target_fps c'"
      using p rejected(1,5) inv i by (auto simp: cadence_inv_def)
    from reject_inv [OF inv this] rejected(2) show ?thesis by (simp add: reject_change_def Let_def cadence_times_def)
  qed
qed

text \<open>
  C22. The cadence of a movie stream. Over every run, with any samples in the order of time and any
  rejected increases, the rate is between 1 and the target, itself at most 120. A sample changes it only by a
  decision; a decision that does not follow a new target goes to the neighbouring tier, no earlier than two
  seconds after the last change, and an increase after the probation no earlier than twenty.
\<close>

theorem movie_cadence_paced:
  assumes "cadence_step\<^sup>*\<^sup>* (Cadence_new f r t0, t0) (c, t)" and "t \<le> sample_now s" and "Cadence_evaluate s c = (c', d)"
  shows "1 \<le> current_tier c' \<and> current_tier c' \<le> target_fps c' \<and> target_fps c' \<le> 120
    \<and> (case d of
         None \<Rightarrow> current_tier c' = current_tier c
       | Some x \<Rightarrow> previous_fps x = current_tier c \<and> current_fps x = current_tier c'
           \<and> (reason x = TargetChanged
              \<or> from_secs 2 \<le> since (sample_now s) (last_change c)
                \<and> (current_tier c < current_tier c' \<and> probation_complete c
                     \<longrightarrow> from_secs 20 \<le> since (sample_now s) (last_change c))
                \<and> (\<forall>g\<in>set (tiers c'). g \<le> min (current_tier c) (current_tier c')
                     \<or> max (current_tier c) (current_tier c') \<le> g)))"
proof -
  have i: "cadence_inv c" "cadence_times t c" using mc.inv_reachable [OF _ assms(1)] by auto
  have i': "cadence_inv c'" by (rule evaluate_inv [OF i(1) assms(3)])
  note tier = evaluate_tier(2) [OF assms(3)]
  have dec: "reason x = TargetChanged
              \<or> from_secs 2 \<le> since (sample_now s) (last_change c)
                \<and> (current_tier c < current_tier c' \<and> probation_complete c
                     \<longrightarrow> from_secs 20 \<le> since (sample_now s) (last_change c))
                \<and> (\<forall>g\<in>set (tiers c'). g \<le> min (current_tier c) (current_tier c')
                     \<or> max (current_tier c) (current_tier c') \<le> g)" if d: "d = Some x" for x
    using assms(3)
  proof (cases rule: evaluate_cases)
    case (target y)
    with target_decision [OF target(1)] d show ?thesis by simp
  next
    case (stage c1 c3)
    note f = stage_frame [OF stage(1,2)]
    have inv3: "cadence_inv c3" unfolding stage(2) deltas_frame
      by (rule inv_frame [OF probation_tiers_inv [OF update_target_inv [OF i(1) stage(1)]]]) simp_all
    have t3: "cadence_times (sample_now s) c3"
      using update_target_times [OF times_mono [OF i(2) assms(2)] stage(1)] by (simp add: stage(2) deltas_frame)
    have c1: "c1 = c" using f(7) stage(3) pressured_needs_start healthy_needs_start d by blast
    have x: "previous_fps x = current_tier c" "current_fps x = current_tier c'" using tier d by simp_all
    note st = stage_tier(1) [OF stage(3)]
    from stage(3) show ?thesis
    proof
      assume "\<exists>hp vp. evaluate_pressured hp vp (sample_now s) c3 = (c', d)"
      then obtain hp vp where "evaluate_pressured hp vp (sample_now s) c3 = (c', Some x)" using d by auto
      from pressured_decision [OF inv3 t3 this] x f(6) st show ?thesis by auto
    next
      assume "evaluate_healthy s c3 = (c', d)"
      with d have "evaluate_healthy s c3 = (c', Some x)" by simp
      from healthy_decision [OF inv3 t3 this] x f(3,6) c1 st show ?thesis
        by (auto simp: rust_time split: if_splits)
    qed
  qed
  show ?thesis using i' tier dec by (cases d) (auto simp: cadence_inv_def)
qed

definition mc_demo_viewer :: MovieViewerMetrics where
  "mc_demo_viewer = \<lparr>available = True, all_rendered = True, max_queue_depth_frames = 0, max_decode_time_us = 0,
     max_render_submit_time_us = 0, dropped_frames = 0, display_refresh_millihz = 0, presentation_late_frames = 0,
     presentation_dropped_frames = 0, presentation_jitter_p95_us = 0\<rparr>"

definition mc_demo_sample :: "instant \<Rightarrow> MovieCadenceSample" where
  "mc_demo_sample t = \<lparr>sample_now = t, sample_target_fps = 60, host_pipeline_p95_us = 5000, host_iterations = 0,
     host_missed_slots = 0, viewer = mc_demo_viewer, local_admission_pressure = False\<rparr>"

definition mc_demo :: "instant option \<Rightarrow> (nat \<times> nat \<times> nat) option \<Rightarrow> MovieCadenceController" where
  "mc_demo h k = \<lparr>target_fps = 60, tiers = [60, 30], current_tier = 30, last_change = 0, pressure_since = None,
     healthy_since = h, probation_complete = False, refresh_millihz = 0, last_viewer_counters = k\<rparr>"

lemma mc_demo_new: "Cadence_new 60 0 0 = mc_demo None None"
proof -
  have "movie_cadence_tiers 60 0 = [60, 30]"
    by (simp add: movie_cadence_tiers_def clamp_def MIN_FPS_def MAX_FPS_def COMMON_TIERS_def FPS_def)
  then show ?thesis by (simp add: Cadence_new_def mc_demo_def clamp_def MIN_FPS_def MAX_FPS_def FPS_def)
qed

lemma mc_demo_missed: "\<not> missed_over (20 / 100) (mc_demo_sample t)"
  using rnd_nonneg [of "1 / 5" 53] by (simp add: missed_over_def mc_demo_sample_def not_less)

lemma mc_demo_stage:
  assumes "k = None \<or> k = Some (0, 0, 0)"
  shows "Cadence_evaluate (mc_demo_sample t) (mc_demo h k) = evaluate_healthy (mc_demo_sample t) (mc_demo h (Some (0, 0, 0)))"
proof -
  have v: "viewer (mc_demo_sample t) = mc_demo_viewer" "sample_target_fps (mc_demo_sample t) = 60"
    "local_admission_pressure (mc_demo_sample t) = False"
    by (simp_all add: mc_demo_sample_def)
  have u: "update_target 60 (display_refresh_millihz mc_demo_viewer) x (mc_demo h k) = (mc_demo h k, None)" for x
    by (simp add: update_target_def mc_demo_def clamp_def MIN_FPS_def MAX_FPS_def)
  have p: "update_probation_tiers (display_refresh_millihz mc_demo_viewer) (mc_demo h k) = mc_demo h k"
    by (simp add: update_probation_tiers_def mc_demo_viewer_def)
  have d: "viewer_counter_deltas mc_demo_viewer (mc_demo h k) = (mc_demo h (Some (0, 0, 0)), 0, 0, 0)"
    using assms by (auto simp: viewer_counter_deltas_def mc_demo_def mc_demo_viewer_def monotonic_counter_delta_def)
  have hp: "\<not> host_pressure (mc_demo h (Some (0, 0, 0))) (mc_demo_sample t)"
    using mc_demo_missed [of t] by (simp add: host_pressure_def mc_demo_def FPS_def) (simp add: mc_demo_sample_def)
  have vp: "\<not> viewer_pressure (mc_demo h (Some (0, 0, 0))) (mc_demo_sample t)"
    by (simp add: viewer_pressure_def mc_demo_def mc_demo_sample_def mc_demo_viewer_def)
  show ?thesis unfolding Cadence_evaluate_def v u by (simp add: p d hp vp)
qed

lemma mc_demo_healthy: "next_higher_tier (mc_demo h k) = Some 60" "cadence_healthy 60 (mc_demo h k) (mc_demo_sample t)"
  by (simp add: next_higher_tier_def mc_demo_def)
    (simp add: cadence_healthy_def mc_demo_def mc_demo_sample_def mc_demo_viewer_def)

lemma mc_demo_first: "Cadence_evaluate (mc_demo_sample 0) (mc_demo None None) = (mc_demo (Some 0) (Some (0, 0, 0)), None)"
proof -
  have "(mc_demo h k)\<lparr>pressure_since := None\<rparr> = mc_demo h k" for h k by (simp add: mc_demo_def)
  then have "evaluate_healthy (mc_demo_sample 0) (mc_demo None (Some (0, 0, 0))) = (mc_demo (Some 0) (Some (0, 0, 0)), None)"
    using mc_demo_healthy [of None "Some (0, 0, 0)"]
    by (simp add: evaluate_healthy_def) (simp add: mc_demo_def mc_demo_sample_def MOVIE_PROBATION_HEALTHY_def rust_time)
  with mc_demo_stage [of None 0 None] show ?thesis by simp
qed

lemma mc_demo_second:
  "snd (Cadence_evaluate (mc_demo_sample (from_secs 2)) (mc_demo (Some 0) (Some (0, 0, 0))))
     = Some \<lparr>previous_fps = 30, current_fps = 60, reason = ProbationComplete\<rparr>"
proof -
  have "(mc_demo h k)\<lparr>pressure_since := None\<rparr> = mc_demo h k" for h k by (simp add: mc_demo_def)
  then have "snd (evaluate_healthy (mc_demo_sample (from_secs 2)) (mc_demo (Some 0) (Some (0, 0, 0))))
      = Some \<lparr>previous_fps = 30, current_fps = 60, reason = ProbationComplete\<rparr>"
    using mc_demo_healthy [of "Some 0" "Some (0, 0, 0)"]
    by (simp add: evaluate_healthy_def)
      (simp add: mc_demo_def mc_demo_sample_def MOVIE_PROBATION_HEALTHY_def rust_time change_tier_def)
  with mc_demo_stage [of "Some (0, 0, 0)" "from_secs 2" "Some 0"] show ?thesis by simp
qed

theorem movie_cadence_paced_witness:
  "let (c', d) = Cadence_evaluate (mc_demo_sample (from_secs 2)) (mc_demo (Some 0) (Some (0, 0, 0)))
   in d = Some \<lparr>previous_fps = 30, current_fps = 60, reason = ProbationComplete\<rparr> \<and> current_tier c' \<le> target_fps c'"
proof -
  have step: "cadence_step (Cadence_new 60 0 0, 0) (mc_demo (Some 0) (Some (0, 0, 0)), 0)"
    using cadence_step.evaluate [OF _ mc_demo_first, of 0] by (simp add: mc_demo_new mc_demo_sample_def)
  obtain c' where e: "Cadence_evaluate (mc_demo_sample (from_secs 2)) (mc_demo (Some 0) (Some (0, 0, 0)))
      = (c', Some \<lparr>previous_fps = 30, current_fps = 60, reason = ProbationComplete\<rparr>)"
    using mc_demo_second by (metis prod.collapse)
  have "0 \<le> sample_now (mc_demo_sample (from_secs 2))" by simp
  from movie_cadence_paced [OF r_into_rtranclp [of cadence_step, OF step] this e] e show ?thesis by simp
qed

text \<open>After a rejected increase the rate stays at or below the rate before it until the target changes.\<close>

fun evaluate_all :: "MovieCadenceSample list \<Rightarrow> MovieCadenceController \<Rightarrow> MovieCadenceController" where
  "evaluate_all [] c = c"
| "evaluate_all (s # ss) c = evaluate_all ss (fst (Cadence_evaluate s c))"

definition capped :: "nat \<Rightarrow> MovieCadenceController \<Rightarrow> bool" where
  "capped p c \<longleftrightarrow> probation_complete c \<and> current_tier c \<le> p \<and> (\<forall>f\<in>set (tiers c). f \<le> p)"

lemma capped_evaluate:
  assumes "capped p c" "clamp MIN_FPS MAX_FPS (sample_target_fps s) = target_fps c"
  shows "capped p (fst (Cadence_evaluate s c)) \<and> target_fps (fst (Cadence_evaluate s c)) = target_fps c"
proof -
  obtain c' d where e: "Cadence_evaluate s c = (c', d)" by fastforce
  have u: "update_target (sample_target_fps s) (display_refresh_millihz (viewer s)) (sample_now s) c = (c, None)"
    using assms(2) by (simp add: update_target_def)
  from e have "capped p c' \<and> target_fps c' = target_fps c"
  proof (cases rule: evaluate_cases)
    case (target x)
    with u show ?thesis by simp
  next
    case (stage c1 c3)
    have c3: "capped p c3" "target_fps c3 = target_fps c"
      using assms(1) stage(1,2) u by (auto simp: deltas_frame update_probation_tiers_def capped_def)
    have tier: "n \<in> set (tiers c3)" if "next_lower_tier x = Some n \<or> next_higher_tier x = Some n" "tiers x = tiers c3" for n x
      using that by (auto simp: next_lower_tier_def next_higher_tier_def split: option.splits if_splits
          dest!: tier_position_Some)
    show ?thesis
      using stage(3) c3
      by (auto simp: evaluate_pressured_def evaluate_healthy_def change_tier_def capped_def Let_def
          split: if_splits option.splits dest!: tier [OF disjI1] tier [OF disjI2])
  qed
  with e show ?thesis by simp
qed

lemma rejected_rate_not_retried:
  assumes "previous < rejected" "\<forall>s\<in>set ss. clamp MIN_FPS MAX_FPS (sample_target_fps s) = target_fps c"
  shows "current_tier (evaluate_all ss (reject_change previous rejected t c)) \<le> previous"
proof -
  have run: "capped p c \<Longrightarrow> \<forall>s\<in>set ss. clamp MIN_FPS MAX_FPS (sample_target_fps s) = target_fps c \<Longrightarrow>
      capped p (evaluate_all ss c)" for p c
    by (induction ss arbitrary: c) (auto simp: capped_evaluate)
  have "capped previous (reject_change previous rejected t c)"
    using assms(1) by (simp add: reject_change_def capped_def)
  moreover have "target_fps (reject_change previous rejected t c) = target_fps c"
    by (simp add: reject_change_def Let_def)
  ultimately show ?thesis using run [of previous "reject_change previous rejected t c"] assms(2)
    by (simp add: capped_def)
qed

end
