(* ===== verification/ViewerPolicies.thy ===== *)
theory ViewerPolicies
  imports Prelude
begin

text \<open>
  The policies of a viewer that are read from its options: the video profile
  (\<^verbatim>\<open>src/src/video_profile.rs\<close>), the keyboard input mode (\<^verbatim>\<open>src/src/keyboard_input_policy.rs\<close>) and the key
  codes of special keys (\<^verbatim>\<open>src/src/keyboard_hid.rs\<close>). Option values are strings of bytes.
\<close>

section \<open>Strings of the standard library\<close>

definition ascii_lower :: "char \<Rightarrow> char" where
  "ascii_lower c = (let n = of_char c :: nat in if 65 \<le> n \<and> n \<le> 90 then char_of (n + 32) else c)"

definition to_ascii_lowercase :: "string \<Rightarrow> string" where
  "to_ascii_lowercase = map ascii_lower"

definition eq_ignore_ascii_case :: "string \<Rightarrow> string \<Rightarrow> bool" where
  "eq_ignore_ascii_case a b = (to_ascii_lowercase a = to_ascii_lowercase b)"

definition is_ascii_space :: "char \<Rightarrow> bool" where
  "is_ascii_space c = (let n = of_char c :: nat in n = 32 \<or> 9 \<le> n \<and> n \<le> 13)"

definition trim :: "string \<Rightarrow> string" where
  "trim s = rev (dropWhile is_ascii_space (rev (dropWhile is_ascii_space s)))"

section \<open>Video profile\<close>

datatype VideoProfile = Standard | Movie

definition Profile_from_config :: "string \<Rightarrow> VideoProfile" where
  "Profile_from_config v = (if to_ascii_lowercase (trim v) = ''movie'' then Movie else Standard)"

definition Profile_config_value :: "VideoProfile \<Rightarrow> string" where
  "Profile_config_value p = (case p of Standard \<Rightarrow> ''standard'' | Movie \<Rightarrow> ''movie'')"

text \<open>The enumeration of the protocol, and a value of the wire that may be unknown.\<close>

datatype WireVideoProfile = VideoProfileNotSet | VideoProfileStandard | VideoProfileMovie

definition Profile_wire_value :: "VideoProfile \<Rightarrow> WireVideoProfile" where
  "Profile_wire_value p = (case p of Standard \<Rightarrow> VideoProfileStandard | Movie \<Rightarrow> VideoProfileMovie)"

definition Profile_from_wire_update :: "(int, WireVideoProfile) sum \<Rightarrow> VideoProfile option" where
  "Profile_from_wire_update v = (case v of
     Inr VideoProfileNotSet \<Rightarrow> None
   | Inr VideoProfileStandard \<Rightarrow> Some Standard
   | Inr VideoProfileMovie \<Rightarrow> Some Movie
   | Inl _ \<Rightarrow> Some Standard)"

datatype EffectiveMovieMode = Off | Full | ViewerOnly | CompatibilityTransport | MixedSubscribers | UnsupportedPeer

definition Mode_for_request :: "VideoProfile \<Rightarrow> bool \<Rightarrow> EffectiveMovieMode" where
  "Mode_for_request p full_supported = (case p of
     Standard \<Rightarrow> Off | Movie \<Rightarrow> if full_supported then Full else UnsupportedPeer)"

definition Mode_for_viewer :: "VideoProfile \<Rightarrow> bool \<Rightarrow> bool \<Rightarrow> EffectiveMovieMode" where
  "Mode_for_viewer p host_supported full_transport = (case p of
     Standard \<Rightarrow> Off
   | Movie \<Rightarrow> if \<not> host_supported then UnsupportedPeer
              else if full_transport then Full else CompatibilityTransport)"

definition Mode_profile_label :: "EffectiveMovieMode \<Rightarrow> string" where
  "Mode_profile_label m = (case m of
     Full \<Rightarrow> ''movie-full''
   | ViewerOnly \<Rightarrow> ''movie-viewer-only''
   | CompatibilityTransport \<Rightarrow> ''movie-compatibility-transport''
   | _ \<Rightarrow> ''standard'')"

definition Mode_fallback_reason :: "EffectiveMovieMode \<Rightarrow> string" where
  "Mode_fallback_reason m = (case m of
     Off \<Rightarrow> ''none''
   | Full \<Rightarrow> ''none''
   | ViewerOnly \<Rightarrow> ''host-pacing-unavailable''
   | CompatibilityTransport \<Rightarrow> ''transport-unsupported''
   | MixedSubscribers \<Rightarrow> ''mixed-subscribers''
   | UnsupportedPeer \<Rightarrow> ''host-unsupported'')"

definition viewer_full_movie_mode :: "VideoProfile \<Rightarrow> bool \<Rightarrow> bool \<Rightarrow> bool" where
  "viewer_full_movie_mode p host_supported full_transport = (Mode_for_viewer p host_supported full_transport = Full)"

section \<open>Keyboard input mode\<close>

datatype KeyboardInputPreference = Auto | TextInput | Physical

definition Keyboard_from_options :: "string \<Rightarrow> string \<Rightarrow> KeyboardInputPreference" where
  "Keyboard_from_options mode legacy =
     (let m = to_ascii_lowercase mode
      in if m = ''text'' then TextInput
         else if m = ''physical'' then Physical
         else if m = ''auto'' then Auto
         else if m = [] \<and> eq_ignore_ascii_case legacy ''N'' then TextInput
         else Auto)"

definition Keyboard_migration_value :: "string \<Rightarrow> string \<Rightarrow> string option" where
  "Keyboard_migration_value mode legacy =
     (if mode \<noteq> [] then None
      else if eq_ignore_ascii_case legacy ''N'' then Some ''text''
      else if eq_ignore_ascii_case legacy ''Y'' then Some ''auto''
      else None)"

definition physical_keys_enabled :: "KeyboardInputPreference \<Rightarrow> bool \<Rightarrow> bool" where
  "physical_keys_enabled p is_mobile = (is_mobile \<and> p \<noteq> TextInput)"

section \<open>Special keys\<close>

datatype HidTarget = Windows | Linux | MacOs

definition target_index :: "HidTarget \<Rightarrow> nat" where
  "target_index t = (case t of Windows \<Rightarrow> 0 | Linux \<Rightarrow> 1 | MacOs \<Rightarrow> 2)"

definition SPECIAL_KEYCODES :: "(nat \<times> nat option list) list" where
  "SPECIAL_KEYCODES =
    [(0x67, [Some 0x59, Some 125, Some 0x51]),
     (0x85, [Some 0x7e, Some 129, Some 0x5f]),
     (0x86, [None, None, None]),
     (0x87, [Some 0x73, Some 97, Some 0x5e]),
     (0x88, [Some 0x70, Some 101, None]),
     (0x89, [Some 0x7d, Some 132, Some 0x5d]),
     (0x8a, [Some 0x79, Some 100, None]),
     (0x8b, [Some 0x7b, Some 102, None]),
     (0x8c, [Some 0x5c, Some 103, None]),
     (0x90, [Some 0xf2, Some 130, Some 0x68]),
     (0x91, [Some 0xf1, Some 131, Some 0x66]),
     (0x92, [Some 0x78, Some 98, None]),
     (0x93, [Some 0x77, Some 99, None]),
     (0x94, [Some 0x76, Some 93, None])]"

definition keycode_from_usb_hid :: "HidTarget \<Rightarrow> nat \<Rightarrow> (nat \<Rightarrow> nat option) \<Rightarrow> nat option" where
  "keycode_from_usb_hid t usage fallback =
     (case find (\<lambda>row. fst row = usage) SPECIAL_KEYCODES of
        Some (_, codes) \<Rightarrow> codes ! target_index t
      | None \<Rightarrow> fallback usage)"

section \<open>Round trips\<close>

lemma profile_config_roundtrip: "Profile_from_config (Profile_config_value p) = p"
proof -
  have "Profile_from_config (Profile_config_value Standard) = Standard"
    "Profile_from_config (Profile_config_value Movie) = Movie" by code_simp+
  then show ?thesis by (cases p) simp_all
qed

lemma profile_wire_roundtrip: "Profile_from_wire_update (Inr (Profile_wire_value p)) = Some p"
  by (cases p) (simp_all add: Profile_from_wire_update_def Profile_wire_value_def)

lemma viewer_mode_full_iff:
  "viewer_full_movie_mode p host full \<longleftrightarrow> p = Movie \<and> host \<and> full"
  by (cases p) (simp_all add: viewer_full_movie_mode_def Mode_for_viewer_def)

text \<open>Migrating the legacy option does not change the preference that is read from it.\<close>

lemma keyboard_migration_keeps_preference:
  assumes "Keyboard_migration_value mode legacy = Some v"
  shows "Keyboard_from_options v legacy' = Keyboard_from_options mode legacy"
proof -
  have "to_ascii_lowercase ''text'' = ''text''" "to_ascii_lowercase ''auto'' = ''auto''" by code_simp+
  moreover have "\<not> (eq_ignore_ascii_case legacy ''N'' \<and> eq_ignore_ascii_case legacy ''Y'')"
    by (simp add: eq_ignore_ascii_case_def) code_simp
  ultimately show ?thesis using assms
    by (auto simp: Keyboard_migration_value_def Keyboard_from_options_def Let_def to_ascii_lowercase_def split: if_splits)
qed

text \<open>A special key of a platform stands for one usage only: no two usages share a code.\<close>

lemma special_keycodes_injective:
  "\<forall>t\<in>{Windows, Linux, MacOs}.
     distinct (List.map_filter (\<lambda>(_, codes). codes ! target_index t) SPECIAL_KEYCODES)"
  by code_simp

end
