(* ===== verification/VideoQoS.thy ===== *)
theory VideoQoS
  imports MovieCadence ViewerPolicies TextFormat
begin

text \<open>
  The quality controller of the host, \<^verbatim>\<open>src/src/server/video_qos.rs\<close>: per video service it keeps the frame
  rate and the bitrate ratio that its viewers can take, from their delays, losses, requests and the
  pressure of the sender. One group of definitions per group of methods.

  \<open>Instant::now()\<close> is an argument of the operations; maps and sets are association lists and lists, whose
  order is one iteration order. \<open>f32\<close> values are rationals rounded after every operation. The numbers of
  the protocol's image qualities and the \<open>enable-abr\<close> option are arguments. Sums of delays wrap at 32 bits,
  as in a release build. Logging is left out.
\<close>

section \<open>Constants\<close>

definition INIT_FPS :: nat where "INIT_FPS = 15"
definition STARTUP_SAFE_WINDOW :: duration where "STARTUP_SAFE_WINDOW = from_secs 8"
definition STARTUP_SAFE_FPS :: nat where "STARTUP_SAFE_FPS = 5"
definition STARTUP_SAFE_RATIO :: rat where "STARTUP_SAFE_RATIO = f32 (25 / 100)"
definition BR_BEST :: rat where "BR_BEST = f32 (15 / 10)"
definition BR_BALANCED :: rat where "BR_BALANCED = f32 (67 / 100)"
definition BR_SPEED :: rat where "BR_SPEED = f32 (5 / 10)"
definition BR_MAX :: rat where "BR_MAX = f32 40"
definition BR_MIN :: rat where "BR_MIN = f32 (2 / 10)"
definition BR_MIN_HIGH_RESOLUTION :: rat where "BR_MIN_HIGH_RESOLUTION = f32 (1 / 10)"
definition MAX_BR_MULTIPLE :: rat where "MAX_BR_MULTIPLE = f32 1"
definition HISTORY_DELAY_LEN :: nat where "HISTORY_DELAY_LEN = 2"
definition ADJUST_RATIO_INTERVAL :: nat where "ADJUST_RATIO_INTERVAL = 3"
definition DYNAMIC_SCREEN_THRESHOLD :: nat where "DYNAMIC_SCREEN_THRESHOLD = 2"
definition DELAY_THRESHOLD_150MS :: nat where "DELAY_THRESHOLD_150MS = 150"
definition TRANSPORT_LOSS_WINDOW :: duration where "TRANSPORT_LOSS_WINDOW = from_secs 10"
definition TRANSPORT_LOSS_BACKOFF_COOLDOWN :: duration where "TRANSPORT_LOSS_BACKOFF_COOLDOWN = from_secs 5"
definition TRANSPORT_LOSS_BURST_DROPS :: nat where "TRANSPORT_LOSS_BURST_DROPS = 3"
definition TRANSPORT_LOSS_MIN_RATE_DROPS :: nat where "TRANSPORT_LOSS_MIN_RATE_DROPS = 3"
definition TRANSPORT_LOSS_MIN_OBSERVED_FRAMES :: nat where "TRANSPORT_LOSS_MIN_OBSERVED_FRAMES = 30"
definition TRANSPORT_LOSS_RATE_PERCENT :: nat where "TRANSPORT_LOSS_RATE_PERCENT = 3"
definition TRANSPORT_LOSS_BACKOFF_NUMERATOR :: nat where "TRANSPORT_LOSS_BACKOFF_NUMERATOR = 7"
definition TRANSPORT_LOSS_BACKOFF_DENOMINATOR :: nat where "TRANSPORT_LOSS_BACKOFF_DENOMINATOR = 8"
definition MAX_TRANSPORT_LOSS_WINDOWS :: nat where "MAX_TRANSPORT_LOSS_WINDOWS = 16"
definition DATAGRAM_ADMISSION_SAMPLE_FRESHNESS :: duration where
  "DATAGRAM_ADMISSION_SAMPLE_FRESHNESS = from_millis 1500"
definition DATAGRAM_ADMISSION_PRESSURE_DURATION :: duration where "DATAGRAM_ADMISSION_PRESSURE_DURATION = from_secs 1"
definition DATAGRAM_ADMISSION_ACTION_COOLDOWN :: duration where "DATAGRAM_ADMISSION_ACTION_COOLDOWN = from_secs 2"
definition DATAGRAM_ADMISSION_UPSHIFT_FREEZE :: duration where "DATAGRAM_ADMISSION_UPSHIFT_FREEZE = from_secs 6"
definition DATAGRAM_ADMISSION_CLEAN_RESET :: duration where "DATAGRAM_ADMISSION_CLEAN_RESET = from_secs 5"
definition DATAGRAM_ADMISSION_MAX_RATIO_REDUCTIONS :: nat where "DATAGRAM_ADMISSION_MAX_RATIO_REDUCTIONS = 4"
definition DATAGRAM_ADMISSION_CADENCE_EVENTS :: nat where "DATAGRAM_ADMISSION_CADENCE_EVENTS = 3"
definition DATAGRAM_ADMISSION_MIN_REJECT_PERMILLE :: nat where "DATAGRAM_ADMISSION_MIN_REJECT_PERMILLE = 20"
definition DATAGRAM_ADMISSION_PREEMPTIVE_QUEUE_PERMILLE :: nat where
  "DATAGRAM_ADMISSION_PREEMPTIVE_QUEUE_PERMILLE = 850"
definition DATAGRAM_ADMISSION_EVENT_INTERVAL :: duration where "DATAGRAM_ADMISSION_EVENT_INTERVAL = from_millis 500"
definition MAX_DATAGRAM_ADMISSION_SERVICES :: nat where "MAX_DATAGRAM_ADMISSION_SERVICES = 16"
definition CUSTOM_CONGESTION_EPISODE_CLEAN_RESET :: duration where
  "CUSTOM_CONGESTION_EPISODE_CLEAN_RESET = from_secs 15"
definition CUSTOM_CONGESTION_EPISODE_FLOOR_MULTIPLIER :: rat where
  "CUSTOM_CONGESTION_EPISODE_FLOOR_MULTIPLIER = f32 (5 / 10)"
definition CUSTOM_CONGESTION_MAX_TRANSPORT_REDUCTIONS :: nat where "CUSTOM_CONGESTION_MAX_TRANSPORT_REDUCTIONS = 3"
definition NVENC_RATIO_UPSHIFT_INTERVAL :: duration where "NVENC_RATIO_UPSHIFT_INTERVAL = from_secs 10"
definition NVENC_RATIO_UPSHIFT_KBPS :: nat where "NVENC_RATIO_UPSHIFT_KBPS = 500"
definition MOVIE_FEEDBACK_FRESHNESS :: duration where "MOVIE_FEEDBACK_FRESHNESS = from_secs 2"
definition MAX_MOVIE_FEEDBACK_DISPLAYS :: nat where "MAX_MOVIE_FEEDBACK_DISPLAYS = 16"
definition MOVIE_DEFAULT_TARGET_FPS :: nat where "MOVIE_DEFAULT_TARGET_FPS = 60"
definition WINDOW_SAMPLES :: nat where "WINDOW_SAMPLES = 60"
definition MIN_SAMPLES :: nat where "MIN_SAMPLES = 10"

section \<open>Quality\<close>

datatype Quality = Best | Balanced | Low | Custom rat

definition is_custom :: "Quality \<Rightarrow> bool" where
  "is_custom q = (case q of Custom _ \<Rightarrow> True | _ \<Rightarrow> False)"

definition quality_ratio :: "Quality \<Rightarrow> rat" where
  "quality_ratio q = (case q of Best \<Rightarrow> BR_BEST | Balanced \<Rightarrow> BR_BALANCED | Low \<Rightarrow> BR_SPEED | Custom v \<Rightarrow> v)"

definition minimum_ratio_for_quality :: "Quality \<Rightarrow> rat \<Rightarrow> nat \<Rightarrow> rat" where
  "minimum_ratio_for_quality target current_ratio bitrate =
     (let ratio_1mbps = (if bitrate > 0
            then Some (max (f32 (f32 (current_ratio * 1000) / f32 (of_nat bitrate))) BR_MIN_HIGH_RESOLUTION) else None);
          limited = (\<lambda>m. case ratio_1mbps of None \<Rightarrow> m | Some r \<Rightarrow> min m r)
      in case target of
           Best \<Rightarrow> max (limited (f32 (BR_BEST / f32 (25 / 10)))) BR_MIN
         | Balanced \<Rightarrow> max (limited (min (f32 (BR_BALANCED / 2)) (f32 (4 / 10)))) BR_MIN_HIGH_RESOLUTION
         | Low \<Rightarrow> BR_MIN_HIGH_RESOLUTION
         | Custom _ \<Rightarrow> BR_MIN_HIGH_RESOLUTION)"

section \<open>Round trip time and delay of a user\<close>

record RttCalculator =
  min_rtt :: "nat option"
  window_min_rtt :: "nat option"
  smoothed_rtt :: "nat option"
  samples :: "nat list"

definition RttCalculator_default :: RttCalculator where
  "RttCalculator_default = \<lparr>min_rtt = None, window_min_rtt = None, smoothed_rtt = None, samples = []\<rparr>"

definition Rtt_update :: "nat \<Rightarrow> RttCalculator \<Rightarrow> RttCalculator" where
  "Rtt_update delay r =
     (let lowest = (case min_rtt r of Some m \<Rightarrow> if delay < m then delay else m | None \<Rightarrow> delay);
          kept = (if length (samples r) \<ge> WINDOW_SAMPLES then tl (samples r) else samples r) @ [delay];
          window_min = Min (set kept);
          smoothed = (if length kept \<ge> WINDOW_SAMPLES
            then Some (as_u32 (f32 (f32 (1 / 2 * f32 (of_nat lowest)) + f32 (1 / 2 * f32 (of_nat window_min)))))
            else smoothed_rtt r)
      in \<lparr>min_rtt = Some lowest, window_min_rtt = Some window_min, smoothed_rtt = smoothed, samples = kept\<rparr>)"

definition Rtt_get :: "RttCalculator \<Rightarrow> nat option" where
  "Rtt_get r = (case smoothed_rtt r of
     Some x \<Rightarrow> Some x
   | None \<Rightarrow> if length (samples r) \<ge> MIN_SAMPLES then min_rtt r else None)"

record UserDelay =
  response_delayed :: bool
  delay_history :: "nat list"
  delay_fps :: "nat option"
  rtt_calculator :: RttCalculator
  quick_increase_fps_count :: nat
  increase_fps_count :: nat

definition UserDelay_default :: UserDelay where
  "UserDelay_default = \<lparr>response_delayed = False, delay_history = [], delay_fps = None,
     rtt_calculator = RttCalculator_default, quick_increase_fps_count = 0, increase_fps_count = 0\<rparr>"

definition add_delay :: "nat \<Rightarrow> UserDelay \<Rightarrow> UserDelay" where
  "add_delay delay u =
     u\<lparr>rtt_calculator := Rtt_update delay (rtt_calculator u),
       delay_history := (if length (delay_history u) > HISTORY_DELAY_LEN then tl (delay_history u)
                         else delay_history u) @ [delay]\<rparr>"

definition avg_delay :: "UserDelay \<Rightarrow> nat" where
  "avg_delay u =
     (let n = length (delay_history u)
      in if n > 0
         then let avg = (sum_list (delay_history u) mod 2 ^ 32) div n
              in case Rtt_get (rtt_calculator u) of
                   Some rtt \<Rightarrow> if avg > rtt then avg - rtt else avg
                 | None \<Rightarrow> avg
         else DELAY_THRESHOLD_150MS)"

section \<open>Users and displays\<close>

record MovieViewerFeedback =
  mv_queue_depth_frames :: nat
  mv_decode_time_us :: nat
  mv_render_submit_time_us :: nat
  mv_dropped_frames :: nat
  mv_display_refresh_millihz :: nat
  mv_presentation_late_frames :: nat
  mv_presentation_dropped_frames :: nat
  mv_presentation_jitter_p95_us :: nat
  mv_updated_at :: "instant option"

record TransportLossKey =
  lk_display :: int
  lk_stream_id :: nat

record TransportLossWindow =
  first_frame_id :: nat
  highest_frame_id :: nat
  lw_dropped_frames :: nat
  started_at :: instant
  lw_updated_at :: instant

record VideoTransportLossSample =
  ls_display :: int
  ls_stream_id :: nat
  ls_received_frame_id :: nat
  ls_dropped_frames :: nat

record VideoDatagramAdmissionSample =
  sample_rejected_active :: nat
  sample_frames_sent :: nat
  queue_budget_bytes :: nat
  queued_bytes :: nat

record DatagramAdmissionState =
  rejected_active :: nat
  frames_sent :: nat
  pressured :: bool
  da_updated_at :: "instant option"

datatype TransportLossBackoffReason = Burst | Rate

record TransportLossObservation =
  obs_key :: TransportLossKey
  observed_frames :: nat
  obs_dropped_frames :: nat
  loss_permille :: nat
  obs_reason :: "TransportLossBackoffReason option"
  stale :: bool

record ViewerStartupState =
  vs_stream_id :: "nat option"
  render_started :: bool
  vs_started_at :: instant

definition Startup_new :: "instant \<Rightarrow> ViewerStartupState" where
  "Startup_new now = \<lparr>vs_stream_id = None, render_started = False, vs_started_at = now\<rparr>"

definition Startup_begin_stream :: "nat \<Rightarrow> instant \<Rightarrow> ViewerStartupState \<Rightarrow> ViewerStartupState \<times> bool" where
  "Startup_begin_stream stream now v =
     (if vs_stream_id v = Some stream then (v, True)
      else if is_some_and (vs_stream_id v) (\<lambda>current. stream < current) then (v, False)
      else (\<lparr>vs_stream_id = Some stream, render_started = False, vs_started_at = now\<rparr>, True))"

definition Startup_reset :: "instant \<Rightarrow> ViewerStartupState \<Rightarrow> ViewerStartupState" where
  "Startup_reset now v = \<lparr>vs_stream_id = None, render_started = False, vs_started_at = now\<rparr>"

record UserData =
  auto_adjust_fps :: "nat option"
  custom_fps :: "nat option"
  fixed_fps :: "nat option"
  quality :: "(int \<times> Quality) option"
  delay :: UserDelay
  user_recording :: bool
  video_feedback_capable :: bool
  video_startup_by_service :: "(string \<times> ViewerStartupState) list"
  last_transport_loss_at :: "instant option"
  transport_loss_windows :: "(TransportLossKey \<times> TransportLossWindow) list"
  video_profile :: VideoProfile
  movie_transport_capable :: bool
  movie_feedback_by_display :: "(int \<times> MovieViewerFeedback) list"
  datagram_admission_by_service :: "(string \<times> DatagramAdmissionState) list"
  transport_loss_upshift_frozen_until :: "(string \<times> instant) list"

definition UserData_default :: UserData where
  "UserData_default = \<lparr>auto_adjust_fps = None, custom_fps = None, fixed_fps = None, quality = None,
     delay = UserDelay_default, user_recording = False, video_feedback_capable = False, video_startup_by_service = [],
     last_transport_loss_at = None, transport_loss_windows = [], video_profile = Standard,
     movie_transport_capable = False, movie_feedback_by_display = [], datagram_admission_by_service = [],
     transport_loss_upshift_frozen_until = []\<rparr>"

record DisplayData =
  send_counter :: nat
  support_changing_quality :: bool
  subscribers :: "int list"
  fps :: nat
  ratio :: rat
  bitrate_store :: nat
  capture_backend :: "string option"
  capture_frame :: "string option"
  encoder_backend :: "string option"
  encoder_input :: "string option"
  adjust_ratio_instant :: instant
  movie_target_fps_store :: nat
  movie_pacing_fps :: nat
  movie_host_pipeline_p95_us :: nat
  admission_pressure_since :: "instant option"
  admission_clean_since :: "instant option"
  admission_events :: nat
  admission_ratio_reductions :: nat
  movie_admission_pressure :: bool
  admission_latched_at :: "instant option"
  last_admission_event_at :: "instant option"
  upshift_frozen_until :: "instant option"
  last_congestion_reduction_at :: "instant option"
  congestion_episode_floor_ratio :: "rat option"
  congestion_episode_last_pressure_at :: "instant option"
  congestion_episode_transport_reductions :: nat
  last_nvenc_ratio_upshift_at :: "instant option"

definition DisplayData_default :: "instant \<Rightarrow> DisplayData" where
  "DisplayData_default now = \<lparr>send_counter = 0, support_changing_quality = False, subscribers = [], fps = FPS,
     ratio = BR_BALANCED, bitrate_store = 0, capture_backend = None, capture_frame = None, encoder_backend = None,
     encoder_input = None, adjust_ratio_instant = now, movie_target_fps_store = 0, movie_pacing_fps = 0,
     movie_host_pipeline_p95_us = 0, admission_pressure_since = None, admission_clean_since = None,
     admission_events = 0, admission_ratio_reductions = 0, movie_admission_pressure = False,
     admission_latched_at = None, last_admission_event_at = None, upshift_frozen_until = None,
     last_congestion_reduction_at = None, congestion_episode_floor_ratio = None,
     congestion_episode_last_pressure_at = None, congestion_episode_transport_reductions = 0,
     last_nvenc_ratio_upshift_at = None\<rparr>"

definition uses_nvenc :: "DisplayData \<Rightarrow> bool" where
  "uses_nvenc d = is_some_and (encoder_backend d) (contains_str ''NVENC'')"

definition clear_custom_congestion_episode :: "DisplayData \<Rightarrow> DisplayData" where
  "clear_custom_congestion_episode d =
     d\<lparr>congestion_episode_floor_ratio := None, congestion_episode_last_pressure_at := None,
       congestion_episode_transport_reductions := 0\<rparr>"

definition expire_custom_congestion_episode :: "instant \<Rightarrow> DisplayData \<Rightarrow> DisplayData" where
  "expire_custom_congestion_episode now d =
     (if is_some_and (congestion_episode_last_pressure_at d)
           (\<lambda>last. since now last \<ge> CUSTOM_CONGESTION_EPISODE_CLEAN_RESET)
      then clear_custom_congestion_episode d else d)"

definition touch_custom_congestion_episode :: "Quality \<Rightarrow> instant \<Rightarrow> DisplayData \<Rightarrow> DisplayData \<times> rat option" where
  "touch_custom_congestion_episode target now d =
     (if \<not> is_custom target then (clear_custom_congestion_episode d, None)
      else
        let d1 = expire_custom_congestion_episode now d;
            floor = (case congestion_episode_floor_ratio d1 of
                Some f \<Rightarrow> f
              | None \<Rightarrow> max (f32 (ratio d1 * CUSTOM_CONGESTION_EPISODE_FLOOR_MULTIPLIER))
                          (minimum_ratio_for_quality target (ratio d1) (bitrate_store d1)))
        in (d1\<lparr>congestion_episode_floor_ratio := Some floor, congestion_episode_last_pressure_at := Some now\<rparr>, Some floor))"

record VideoQoS =
  users :: "(int \<times> UserData) list"
  displays :: "(string \<times> DisplayData) list"
  abr_config :: bool

definition VideoQoS_default :: VideoQoS where
  "VideoQoS_default = \<lparr>users = [], displays = [], abr_config = True\<rparr>"

text \<open>\<open>get_mut\<close> of a user or of a display.\<close>

definition on_user :: "int \<Rightarrow> (UserData \<Rightarrow> UserData) \<Rightarrow> VideoQoS \<Rightarrow> VideoQoS" where
  "on_user i f q = (case map_of (users q) i of None \<Rightarrow> q | Some u \<Rightarrow> q\<lparr>users := AList.update i (f u) (users q)\<rparr>)"

definition on_display :: "string \<Rightarrow> (DisplayData \<Rightarrow> DisplayData) \<Rightarrow> VideoQoS \<Rightarrow> VideoQoS" where
  "on_display n f q =
     (case map_of (displays q) n of None \<Rightarrow> q | Some d \<Rightarrow> q\<lparr>displays := AList.update n (f d) (displays q)\<rparr>)"

definition subscribed_users :: "string \<Rightarrow> VideoQoS \<Rightarrow> UserData list" where
  "subscribed_users n q =
     (case map_of (displays q) n of None \<Rightarrow> [] | Some d \<Rightarrow> List.map_filter (map_of (users q)) (subscribers d))"

definition display_names_for_user :: "int \<Rightarrow> VideoQoS \<Rightarrow> string list" where
  "display_names_for_user i q = map fst (filter (\<lambda>(_, d). i \<in> set (subscribers d)) (displays q))"

definition max_of :: "nat list \<Rightarrow> nat option" where
  "max_of xs = (if xs = [] then None else Some (Max (set xs)))"

definition min_of :: "nat list \<Rightarrow> nat option" where
  "min_of xs = (if xs = [] then None else Some (Min (set xs)))"

section \<open>Loss of frames\<close>

fun min_entry :: "('v \<Rightarrow> nat) \<Rightarrow> ('k \<times> 'v) list \<Rightarrow> ('k \<times> 'v) option" where
  "min_entry f [] = None"
| "min_entry f (x # xs) =
     (case min_entry f xs of None \<Rightarrow> Some x | Some y \<Rightarrow> if f (snd y) < f (snd x) then Some y else Some x)"

text \<open>The entry with the oldest key is dropped when a map is full and the key is new.\<close>

definition evict_oldest :: "('v \<Rightarrow> nat) \<Rightarrow> nat \<Rightarrow> 'k \<Rightarrow> ('k \<times> 'v) list \<Rightarrow> ('k \<times> 'v) list" where
  "evict_oldest f bound k m =
     (if \<not> contains_key m k \<and> length m \<ge> bound
      then case min_entry f m of None \<Rightarrow> m | Some (old, _) \<Rightarrow> AList.delete old m
      else m)"

definition fresh_window :: "VideoTransportLossSample \<Rightarrow> instant \<Rightarrow> TransportLossWindow" where
  "fresh_window s t =
     \<lparr>first_frame_id = ls_received_frame_id s, highest_frame_id = ls_received_frame_id s,
      lw_dropped_frames = 0, started_at = t, lw_updated_at = t\<rparr>"

definition loss_window :: "VideoTransportLossSample \<Rightarrow> instant \<Rightarrow> TransportLossWindow option \<Rightarrow> TransportLossWindow" where
  "loss_window s t w0 =
     (let w1 = unwrap_or w0 (fresh_window s t);
          w2 = (if since t (started_at w1) \<ge> TRANSPORT_LOSS_WINDOW then fresh_window s t else w1)
      in w2\<lparr>highest_frame_id := ls_received_frame_id s,
            lw_dropped_frames := sat_add u64_max (lw_dropped_frames w2) (ls_dropped_frames s), lw_updated_at := t\<rparr>)"

definition observed_in :: "TransportLossWindow \<Rightarrow> nat" where
  "observed_in w =
     max (max (sat_add u64_max (highest_frame_id w - first_frame_id w) 1) (lw_dropped_frames w)) 1"

definition loss_reason :: "nat \<Rightarrow> TransportLossWindow \<Rightarrow> TransportLossBackoffReason option" where
  "loss_reason dropped w =
     (if dropped \<ge> TRANSPORT_LOSS_BURST_DROPS then Some Burst
      else if lw_dropped_frames w \<ge> TRANSPORT_LOSS_MIN_RATE_DROPS
              \<and> observed_in w \<ge> TRANSPORT_LOSS_MIN_OBSERVED_FRAMES
              \<and> sat_mul u64_max (lw_dropped_frames w) 100 \<ge> sat_mul u64_max (observed_in w) TRANSPORT_LOSS_RATE_PERCENT
           then Some Rate else None)"

definition observe_transport_loss ::
  "VideoTransportLossSample \<Rightarrow> instant \<Rightarrow> (TransportLossKey \<times> TransportLossWindow) list
     \<Rightarrow> (TransportLossKey \<times> TransportLossWindow) list \<times> TransportLossObservation" where
  "observe_transport_loss s t windows =
     (let k = \<lparr>lk_display = ls_display s, lk_stream_id = ls_stream_id s\<rparr>;
          ws = filter (\<lambda>(e, _). lk_display e \<noteq> ls_display s \<or> lk_stream_id e = ls_stream_id s) windows
      in if is_some_and (map_of ws k) (\<lambda>w. ls_received_frame_id s \<le> highest_frame_id w)
         then (ws, \<lparr>obs_key = k, observed_frames = 0, obs_dropped_frames = 0, loss_permille = 0,
                    obs_reason = None, stale = True\<rparr>)
         else
           let kept = evict_oldest lw_updated_at MAX_TRANSPORT_LOSS_WINDOWS k ws;
               w = loss_window s t (map_of kept k)
           in (AList.update k w kept,
               \<lparr>obs_key = k, observed_frames = observed_in w, obs_dropped_frames = lw_dropped_frames w,
                loss_permille = sat_mul u64_max (lw_dropped_frames w) 1000 div observed_in w,
                obs_reason = loss_reason (ls_dropped_frames s) w, stale = False\<rparr>))"

section \<open>Requests of the viewers of a service\<close>

definition requested_fps :: "UserData \<Rightarrow> nat" where
  "requested_fps u =
     (let f = unwrap_or (custom_fps u) FPS
      in clamp MIN_FPS MAX_FPS
           (case auto_adjust_fps u of None \<Rightarrow> f | Some a \<Rightarrow> if f = 0 \<or> a < f then a else f))"

definition user_requested_fps :: "int \<Rightarrow> VideoQoS \<Rightarrow> nat" where
  "user_requested_fps i q = (case map_of (users q) i of None \<Rightarrow> FPS | Some u \<Rightarrow> requested_fps u)"

definition locked_fps :: "string \<Rightarrow> VideoQoS \<Rightarrow> nat option" where
  "locked_fps n q = map_option (clamp MIN_FPS MAX_FPS) (max_of (List.map_filter fixed_fps (subscribed_users n q)))"

definition highest_fps :: "string \<Rightarrow> VideoQoS \<Rightarrow> nat" where
  "highest_fps n q = (case locked_fps n q of
     Some f \<Rightarrow> f
   | None \<Rightarrow> unwrap_or (max_of (map requested_fps (subscribed_users n q))) FPS)"

text \<open>\<open>max_by_key\<close> returns the last of several maxima.\<close>

definition later_quality :: "(int \<times> Quality) option \<Rightarrow> int \<times> Quality \<Rightarrow> (int \<times> Quality) option" where
  "later_quality best x = (case best of None \<Rightarrow> Some x | Some b \<Rightarrow> if fst b \<le> fst x then Some x else Some b)"

definition latest_quality :: "string \<Rightarrow> VideoQoS \<Rightarrow> Quality" where
  "latest_quality n q =
     snd (unwrap_or (foldl later_quality None (List.map_filter quality (subscribed_users n q))) (0, Balanced))"

definition all_subscribers :: "(UserData \<Rightarrow> bool) \<Rightarrow> string \<Rightarrow> VideoQoS \<Rightarrow> bool" where
  "all_subscribers P n q = (subscribed_users n q \<noteq> [] \<and> list_all P (subscribed_users n q))"

definition all_subscribers_request_movie :: "string \<Rightarrow> VideoQoS \<Rightarrow> bool" where
  "all_subscribers_request_movie = all_subscribers (\<lambda>u. video_profile u = Movie)"

definition full_movie_mode :: "string \<Rightarrow> VideoQoS \<Rightarrow> bool" where
  "full_movie_mode =
     all_subscribers (\<lambda>u. video_profile u = Movie \<and> video_feedback_capable u \<and> movie_transport_capable u)"

definition movie_target_fps :: "string \<Rightarrow> VideoQoS \<Rightarrow> nat" where
  "movie_target_fps n q =
     clamp MIN_FPS MAX_FPS
       (unwrap_or
         (min_of (map (\<lambda>u. clamp MIN_FPS MAX_FPS (unwrap_or (custom_fps u) MOVIE_DEFAULT_TARGET_FPS)) (subscribed_users n q)))
         MOVIE_DEFAULT_TARGET_FPS)"

definition custom_encoder_fps :: "string \<Rightarrow> VideoQoS \<Rightarrow> nat option" where
  "custom_encoder_fps n q = map_option (clamp MIN_FPS MAX_FPS) (max_of (List.map_filter custom_fps (subscribed_users n q)))"

section \<open>Status of a display\<close>

definition qos_fps :: "string \<Rightarrow> VideoQoS \<Rightarrow> nat" where
  "qos_fps n q =
     (let f = (case map_of (displays q) n of None \<Rightarrow> FPS | Some d \<Rightarrow> fps d)
      in if f \<ge> MIN_FPS \<and> f \<le> MAX_FPS then f else FPS)"

definition store_bitrate :: "string \<Rightarrow> nat \<Rightarrow> VideoQoS \<Rightarrow> VideoQoS" where
  "store_bitrate n b = on_display n (\<lambda>d. d\<lparr>bitrate_store := b\<rparr>)"

definition bitrate :: "string \<Rightarrow> VideoQoS \<Rightarrow> nat" where
  "bitrate n q = (case map_of (displays q) n of None \<Rightarrow> 0 | Some d \<Rightarrow> bitrate_store d)"

definition store_pipeline_status :: "string \<Rightarrow> string \<Rightarrow> string \<Rightarrow> string \<Rightarrow> VideoQoS \<Rightarrow> VideoQoS" where
  "store_pipeline_status n capture encoder input =
     on_display n (\<lambda>d. d\<lparr>capture_backend := Some capture, encoder_backend := Some encoder, encoder_input := Some input\<rparr>)"

definition store_capture_frame :: "string \<Rightarrow> string \<Rightarrow> VideoQoS \<Rightarrow> VideoQoS \<times> bool" where
  "store_capture_frame n frame q =
     (case map_of (displays q) n of
        None \<Rightarrow> (q, False)
      | Some d \<Rightarrow> if capture_frame d = Some frame then (q, False)
                 else (on_display n (\<lambda>d. d\<lparr>capture_frame := Some frame\<rparr>) q, True))"

definition pipeline_status ::
  "string \<Rightarrow> VideoQoS \<Rightarrow> string option \<times> string option \<times> string option \<times> string option" where
  "pipeline_status n q =
     (case map_of (displays q) n of
        None \<Rightarrow> (None, None, None, None)
      | Some d \<Rightarrow> (capture_backend d, capture_frame d, encoder_backend d, encoder_input d))"

definition store_movie_runtime_status :: "string \<Rightarrow> nat \<Rightarrow> nat \<Rightarrow> nat \<Rightarrow> VideoQoS \<Rightarrow> VideoQoS" where
  "store_movie_runtime_status n target pacing p95 =
     on_display n (\<lambda>d. d\<lparr>movie_target_fps_store := target, movie_pacing_fps := pacing,
       fps := (if target > 0 \<and> pacing > 0 then clamp MIN_FPS MAX_FPS pacing else fps d),
       movie_host_pipeline_p95_us := min p95 u32_max\<rparr>)"

definition movie_runtime_status :: "string \<Rightarrow> VideoQoS \<Rightarrow> nat \<times> nat \<times> nat" where
  "movie_runtime_status n q =
     (case map_of (displays q) n of
        None \<Rightarrow> (0, 0, 0)
      | Some d \<Rightarrow> (movie_target_fps_store d, movie_pacing_fps d, movie_host_pipeline_p95_us d))"

definition clear_admission :: "DisplayData \<Rightarrow> DisplayData" where
  "clear_admission d =
     d\<lparr>admission_pressure_since := None, admission_clean_since := None, admission_events := 0,
       admission_ratio_reductions := 0, movie_admission_pressure := False, admission_latched_at := None,
       last_admission_event_at := None, upshift_frozen_until := None\<rparr>"

definition movie_admission_pressure_at :: "string \<Rightarrow> instant \<Rightarrow> VideoQoS \<Rightarrow> VideoQoS \<times> bool" where
  "movie_admission_pressure_at n t q =
     (case map_of (displays q) n of
        None \<Rightarrow> (q, False)
      | Some d \<Rightarrow>
          let d1 = (if is_some_and (admission_latched_at d) (\<lambda>l. since t l \<ge> DATAGRAM_ADMISSION_CLEAN_RESET * 2)
                    then clear_admission d else d)
          in (q\<lparr>displays := AList.update n d1 (displays q),
                users := map (\<lambda>(i, u). (i, u\<lparr>datagram_admission_by_service :=
                           AList.delete n (datagram_admission_by_service u)\<rparr>)) (users q)\<rparr>,
              movie_admission_pressure d1))"

definition startup_safe_mode :: "string \<Rightarrow> instant \<Rightarrow> VideoQoS \<Rightarrow> bool" where
  "startup_safe_mode n t q =
     (if map_of (displays q) n = None then False
      else if locked_fps n q \<noteq> None then False
      else
        let startups = List.map_filter (\<lambda>u. map_of (video_startup_by_service u) n) (subscribed_users n q)
        in \<not> list_ex render_started startups
           \<and> list_ex (\<lambda>s. \<not> render_started s \<and> since t (vs_started_at s) < STARTUP_SAFE_WINDOW) startups)"

definition qos_ratio :: "string \<Rightarrow> instant \<Rightarrow> VideoQoS \<Rightarrow> VideoQoS \<times> rat" where
  "qos_ratio n t q =
     (let startup_safe = startup_safe_mode n t q
      in case map_of (displays q) n of
           None \<Rightarrow> (q, BR_BALANCED)
         | Some d \<Rightarrow>
             let r = (if ratio d < BR_MIN_HIGH_RESOLUTION \<or> ratio d > BR_MAX then BR_BALANCED else ratio d);
                 q1 = on_display n (\<lambda>d. d\<lparr>ratio := r\<rparr>) q
             in (q1, if startup_safe then min r STARTUP_SAFE_RATIO else r))"

definition qos_record :: "string \<Rightarrow> VideoQoS \<Rightarrow> bool" where
  "qos_record n q = list_ex user_recording (subscribed_users n q)"

definition set_support_changing_quality :: "string \<Rightarrow> bool \<Rightarrow> VideoQoS \<Rightarrow> VideoQoS" where
  "set_support_changing_quality n support = on_display n (\<lambda>d. d\<lparr>support_changing_quality := support\<rparr>)"

definition in_vbr_state :: "string \<Rightarrow> VideoQoS \<Rightarrow> bool" where
  "in_vbr_state n q = (abr_config q \<and> is_some_and (map_of (displays q) n) support_changing_quality)"

definition clear_datagram_admission_for_display :: "string \<Rightarrow> VideoQoS \<Rightarrow> VideoQoS" where
  "clear_datagram_admission_for_display n = on_display n clear_admission"

definition clear_unless_movie :: "string \<Rightarrow> VideoQoS \<Rightarrow> VideoQoS" where
  "clear_unless_movie n q = (if full_movie_mode n q then q else clear_datagram_admission_for_display n q)"

definition clear_user_datagram_admission :: "int \<Rightarrow> VideoQoS \<Rightarrow> VideoQoS" where
  "clear_user_datagram_admission i q =
     (let q1 = on_user i (\<lambda>u. u\<lparr>datagram_admission_by_service := []\<rparr>) q
      in fold clear_unless_movie (display_names_for_user i q1) q1)"

definition custom_adaptive_display_names_for_user :: "int \<Rightarrow> VideoQoS \<Rightarrow> string list" where
  "custom_adaptive_display_names_for_user i q =
     (if \<not> is_some_and (map_of (users q) i) (\<lambda>u. is_some_and (quality u) (\<lambda>(_, c). is_custom c)) then []
      else filter (\<lambda>n. in_vbr_state n q) (display_names_for_user i q))"

definition transport_loss_upshift_frozen_for_display :: "string \<Rightarrow> instant \<Rightarrow> VideoQoS \<Rightarrow> bool" where
  "transport_loss_upshift_frozen_for_display n t =
     all_subscribers (\<lambda>u. is_some_and (quality u) (\<lambda>(_, c). is_custom c)
       \<and> is_some_and (map_of (transport_loss_upshift_frozen_until u) n) (\<lambda>until. t < until)) n"

section \<open>Frame rate and ratio\<close>

definition any_max_fps :: "UserData list \<Rightarrow> nat" where
  "any_max_fps us = unwrap_or (max_of (map (\<lambda>u. unwrap_or (delay_fps (delay u)) INIT_FPS) us)) INIT_FPS"

text \<open>The rate that the best viewer can take, lowered when nobody answers or nobody has rendered yet.\<close>

definition shared_fps :: "string \<Rightarrow> instant \<Rightarrow> VideoQoS \<Rightarrow> nat" where
  "shared_fps n t q =
     (let f0 = any_max_fps (subscribed_users n q);
          all_delayed = all_subscribers (\<lambda>u. response_delayed (delay u)) n q;
          f1 = (if all_delayed \<and> f0 > MIN_FPS + 1 then MIN_FPS + 1 else f0);
          f2 = (if startup_safe_mode n t q \<and> f1 > STARTUP_SAFE_FPS then STARTUP_SAFE_FPS else f1)
      in clamp MIN_FPS (highest_fps n q) f2)"

definition paced_fps :: "bool \<Rightarrow> nat \<Rightarrow> instant \<Rightarrow> DisplayData \<Rightarrow> nat" where
  "paced_fps movie f t d =
     (let next = (if movie \<and> movie_pacing_fps d > 0 then min f (movie_pacing_fps d) else f)
      in if movie \<and> is_some_and (upshift_frozen_until d) (\<lambda>until. t < until) \<and> next > fps d then fps d else next)"

definition adjust_fps_at :: "string \<Rightarrow> instant \<Rightarrow> VideoQoS \<Rightarrow> VideoQoS" where
  "adjust_fps_at n t q =
     (case locked_fps n q of
        Some locked \<Rightarrow>
          let pacing = (if full_movie_mode n q
                then case map_of (displays q) n of None \<Rightarrow> 0 | Some d \<Rightarrow> movie_pacing_fps d else 0)
          in on_display n (\<lambda>d. d\<lparr>fps := (if pacing > 0 then min locked pacing else locked)\<rparr>) q
      | None \<Rightarrow> on_display n (\<lambda>d. d\<lparr>fps := paced_fps (full_movie_mode n q) (shared_fps n t q) t d\<rparr>) q)"

definition adjust_displays_for_user :: "int \<Rightarrow> instant \<Rightarrow> VideoQoS \<Rightarrow> VideoQoS" where
  "adjust_displays_for_user i t q = fold (\<lambda>n. adjust_fps_at n t) (display_names_for_user i q) q"

text \<open>The ratio that the delay asks for, before the limits.\<close>

definition delay_ratio :: "nat \<Rightarrow> bool \<Rightarrow> rat \<Rightarrow> rat" where
  "delay_ratio best_delay dynamic_screen current =
     (if best_delay < 50 then if dynamic_screen then f32 (current * f32 (115 / 100)) else current
      else if best_delay < 100 then if dynamic_screen then f32 (current * f32 (11 / 10)) else current
      else if best_delay < DELAY_THRESHOLD_150MS then if dynamic_screen then f32 (current * f32 (105 / 100)) else current
      else if best_delay < 200 then f32 (current * f32 (95 / 100))
      else if best_delay < 300 then f32 (current * f32 (9 / 10))
      else if best_delay < 500 then f32 (current * f32 (85 / 100))
      else f32 (current * f32 (8 / 10)))"

definition limited_step :: "bool \<Rightarrow> nat \<Rightarrow> rat \<Rightarrow> rat \<Rightarrow> rat" where
  "limited_step nvenc current_bitrate current v =
     (if current_bitrate > 0
      then let add_step = f32 (f32 (f32 (of_nat (sat_add u32_max current_bitrate
                             (if nvenc then NVENC_RATIO_UPSHIFT_KBPS else 150))) * current) / f32 (of_nat current_bitrate))
           in if v > add_step \<and> add_step > current \<and> current \<ge> BR_SPEED then add_step else v
      else v)"

definition nvenc_upshift_allowed :: "instant \<Rightarrow> DisplayData \<Rightarrow> bool" where
  "nvenc_upshift_allowed t d =
     (\<not> uses_nvenc d \<or> is_none_or (last_nvenc_ratio_upshift_at d) (\<lambda>l. since t l \<ge> NVENC_RATIO_UPSHIFT_INTERVAL))"

definition wanted_ratio :: "nat \<Rightarrow> bool \<Rightarrow> instant \<Rightarrow> DisplayData \<Rightarrow> rat" where
  "wanted_ratio best_delay dynamic_screen t d =
     (let v = limited_step (uses_nvenc d) (bitrate_store d) (ratio d) (delay_ratio best_delay dynamic_screen (ratio d))
      in if uses_nvenc d \<and> v > ratio d \<and> \<not> nvenc_upshift_allowed t d then ratio d else v)"

definition ratio_episode :: "Quality \<Rightarrow> rat \<Rightarrow> instant \<Rightarrow> DisplayData \<Rightarrow> DisplayData \<times> rat option" where
  "ratio_episode target v t d =
     (let d1 = expire_custom_congestion_episode t d
      in if v < ratio d then touch_custom_congestion_episode target t d1 else (d1, None))"

text \<open>The two limits that \<open>clamp\<close> gets for the ratio; \<open>clamp\<close> panics when the first is above the second.\<close>

definition ratio_limits :: "Quality \<Rightarrow> rat option \<Rightarrow> DisplayData \<Rightarrow> rat \<times> rat" where
  "ratio_limits target episode_floor d =
     (let lowest = minimum_ratio_for_quality target (ratio d) (bitrate_store d);
          highest = f32 (quality_ratio target * MAX_BR_MULTIPLE);
          effective_min = min (max lowest (unwrap_or episode_floor lowest)) highest
      in (effective_min, highest))"

definition next_ratio :: "Quality \<Rightarrow> bool \<Rightarrow> rat \<Rightarrow> rat option \<Rightarrow> DisplayData \<Rightarrow> rat" where
  "next_ratio target frozen v episode_floor d =
     (let (effective_min, highest) = ratio_limits target episode_floor d;
          next = clamp effective_min highest v
      in if frozen \<and> next > ratio d then ratio d else next)"

definition apply_ratio :: "Quality \<Rightarrow> bool \<Rightarrow> rat \<Rightarrow> instant \<Rightarrow> DisplayData \<Rightarrow> DisplayData" where
  "apply_ratio target frozen v t d =
     (let (d1, episode_floor) = ratio_episode target v t d;
          next = next_ratio target frozen v episode_floor d
      in d1\<lparr>last_nvenc_ratio_upshift_at := (if uses_nvenc d \<and> next > ratio d then Some t else last_nvenc_ratio_upshift_at d1),
            ratio := next, adjust_ratio_instant := t\<rparr>)"

definition adjust_ratio_at :: "string \<Rightarrow> bool \<Rightarrow> instant \<Rightarrow> VideoQoS \<Rightarrow> VideoQoS" where
  "adjust_ratio_at n dynamic_screen t q =
     (if \<not> in_vbr_state n q then q
      else case min_of (map (\<lambda>u. avg_delay (delay u)) (subscribed_users n q)) of
        None \<Rightarrow> q
      | Some best_delay \<Rightarrow>
          let target = latest_quality n q;
              loss_frozen = transport_loss_upshift_frozen_for_display n t q
          in on_display n (\<lambda>d.
               apply_ratio target (is_some_and (upshift_frozen_until d) (\<lambda>until. t < until) \<or> loss_frozen)
                 (wanted_ratio best_delay dynamic_screen t d) t d) q)"

definition freeze_until :: "instant \<Rightarrow> DisplayData \<Rightarrow> DisplayData" where
  "freeze_until t d =
     (let until = t + DATAGRAM_ADMISSION_UPSHIFT_FREEZE
      in if is_none_or (upshift_frozen_until d) (\<lambda>current. current < until)
         then d\<lparr>upshift_frozen_until := Some until\<rparr> else d)"

definition reduce_display :: "Quality \<Rightarrow> instant \<Rightarrow> string \<Rightarrow> bool \<Rightarrow> DisplayData \<Rightarrow> DisplayData \<times> bool" where
  "reduce_display target t src freeze_upshift d0 =
     (let d1 = expire_custom_congestion_episode t d0;
          recurrence = (src = ''transport-loss-recurrence'')
      in if recurrence \<and> is_custom target
            \<and> congestion_episode_transport_reductions d1 \<ge> CUSTOM_CONGESTION_MAX_TRANSPORT_REDUCTIONS
         then (d1, False)
         else
           let minimum = minimum_ratio_for_quality target (ratio d1) (bitrate_store d1);
               reduced = f32 (ratio d1 * f32 (9 / 10))
           in if min (max reduced minimum) (ratio d1) \<ge> ratio d1 then (d1, False)
              else
                let d2 = (if freeze_upshift then freeze_until t d1 else d1)
                in if is_some_and (last_congestion_reduction_at d2) (\<lambda>l. since t l < DATAGRAM_ADMISSION_ACTION_COOLDOWN)
                   then (d2, False)
                   else
                     let (d3, floor0) = touch_custom_congestion_episode target t d2;
                         episode_floor = unwrap_or floor0 minimum;
                         next = min (max (max reduced minimum) episode_floor) (ratio d3)
                     in if next \<ge> ratio d1 then (d3, False)
                        else
                          (d3\<lparr>ratio := next, last_congestion_reduction_at := Some t,
                              congestion_episode_transport_reductions :=
                                (if recurrence \<and> is_custom target
                                 then sat_add u8_max (congestion_episode_transport_reductions d3) 1
                                 else congestion_episode_transport_reductions d3)\<rparr>, True))"

definition reduce_ratio_for_congestion :: "string \<Rightarrow> instant \<Rightarrow> string \<Rightarrow> bool \<Rightarrow> VideoQoS \<Rightarrow> VideoQoS \<times> bool" where
  "reduce_ratio_for_congestion n t src freeze_upshift q =
     (if \<not> in_vbr_state n q then (q, False)
      else case map_of (displays q) n of
        None \<Rightarrow> (q, False)
      | Some d \<Rightarrow>
          let (d1, reduced) = reduce_display (latest_quality n q) t src freeze_upshift d
          in (q\<lparr>displays := AList.update n d1 (displays q)\<rparr>, reduced))"

section \<open>Admission of datagrams by the sender\<close>

definition opt_key :: "instant option \<Rightarrow> nat" where
  "opt_key x = (case x of None \<Rightarrow> 0 | Some t \<Rightarrow> Suc t)"

definition DatagramAdmissionState_default :: DatagramAdmissionState where
  "DatagramAdmissionState_default = \<lparr>rejected_active = 0, frames_sent = 0, pressured = False, da_updated_at = None\<rparr>"

definition admission_observed :: "VideoDatagramAdmissionSample \<Rightarrow> instant \<Rightarrow> DatagramAdmissionState \<Rightarrow> DatagramAdmissionState" where
  "admission_observed s t a =
     (let initialized = (da_updated_at a \<noteq> None);
          rejected = (if initialized then monotonic_counter_delta (sample_rejected_active s) (rejected_active a) else 0);
          sent = (if initialized then monotonic_counter_delta (sample_frames_sent s) (frames_sent a) else 0);
          observed = max (sat_add u64_max rejected sent) 1;
          preemptive = (queue_budget_bytes s > 0
            \<and> sat_mul u64_max (queued_bytes s) 1000
               \<ge> sat_mul u64_max (queue_budget_bytes s) DATAGRAM_ADMISSION_PREEMPTIVE_QUEUE_PERMILLE)
      in \<lparr>rejected_active = sample_rejected_active s, frames_sent = sample_frames_sent s,
          pressured = (preemptive \<or> (rejected > 0
            \<and> sat_mul u64_max rejected 1000 \<ge> sat_mul u64_max observed DATAGRAM_ADMISSION_MIN_REJECT_PERMILLE)),
          da_updated_at = Some t\<rparr>)"

definition observe_admission :: "string \<Rightarrow> VideoDatagramAdmissionSample \<Rightarrow> instant \<Rightarrow> UserData \<Rightarrow> UserData" where
  "observe_admission n s t u =
     (let m = evict_oldest (\<lambda>a. opt_key (da_updated_at a)) MAX_DATAGRAM_ADMISSION_SERVICES n (datagram_admission_by_service u)
      in u\<lparr>datagram_admission_by_service :=
             AList.update n (admission_observed s t (unwrap_or (map_of m n) DatagramAdmissionState_default)) m\<rparr>)"

definition admission_statuses :: "string \<Rightarrow> int list \<Rightarrow> VideoQoS \<Rightarrow> DatagramAdmissionState list" where
  "admission_statuses n subs q =
     List.map_filter (\<lambda>i. case map_of (users q) i of None \<Rightarrow> None
       | Some u \<Rightarrow> map_of (datagram_admission_by_service u) n) subs"

definition pressured_display :: "instant \<Rightarrow> DisplayData \<Rightarrow> DisplayData \<times> bool" where
  "pressured_display t d =
     (let d1 = d\<lparr>admission_clean_since := None,
                 admission_latched_at := (if movie_admission_pressure d then Some t else admission_latched_at d)\<rparr>;
          started = unwrap_or (admission_pressure_since d1) t;
          d2 = d1\<lparr>admission_pressure_since := Some started\<rparr>
      in if since t started \<ge> DATAGRAM_ADMISSION_PRESSURE_DURATION
         then
           let d3 = (if is_none_or (last_admission_event_at d2) (\<lambda>l. since t l \<ge> DATAGRAM_ADMISSION_EVENT_INTERVAL)
                     then let d4 = d2\<lparr>last_admission_event_at := Some t,
                                      admission_events := sat_add u8_max (admission_events d2) 1\<rparr>
                          in if admission_events d4 \<ge> DATAGRAM_ADMISSION_CADENCE_EVENTS \<and> \<not> movie_admission_pressure d4
                             then d4\<lparr>movie_admission_pressure := True, admission_latched_at := Some t\<rparr> else d4
                     else d2)
           in (d3, admission_ratio_reductions d3 < DATAGRAM_ADMISSION_MAX_RATIO_REDUCTIONS)
         else (d2, False))"

definition unpressured_display :: "bool \<Rightarrow> instant \<Rightarrow> DisplayData \<Rightarrow> DisplayData" where
  "unpressured_display all_clean t d =
     (let d1 = d\<lparr>admission_pressure_since := None\<rparr>
      in if all_clean
         then let clean = unwrap_or (admission_clean_since d1) t;
                  d2 = d1\<lparr>admission_clean_since := Some clean\<rparr>
              in if since t clean \<ge> DATAGRAM_ADMISSION_CLEAN_RESET
                 then d2\<lparr>admission_events := 0, admission_ratio_reductions := 0, movie_admission_pressure := False,
                         admission_latched_at := None, last_admission_event_at := None, upshift_frozen_until := None\<rparr>
                 else d2
         else d1\<lparr>admission_clean_since := None\<rparr>)"

text \<open>All subscribers must have a fresh sample before the display reacts.\<close>

definition admission_change :: "string \<Rightarrow> instant \<Rightarrow> VideoQoS \<Rightarrow> DisplayData \<Rightarrow> DisplayData \<times> bool" where
  "admission_change n t q d =
     (let statuses = admission_statuses n (subscribers d) q;
          all_fresh = (subscribers d \<noteq> [] \<and> length statuses = length (subscribers d)
            \<and> list_all (\<lambda>a. is_some_and (da_updated_at a) (\<lambda>u. since t u \<le> DATAGRAM_ADMISSION_SAMPLE_FRESHNESS)) statuses);
          all_pressured = (all_fresh \<and> list_all pressured statuses);
          all_clean = (all_fresh \<and> list_all (\<lambda>a. \<not> pressured a) statuses)
      in if all_pressured then pressured_display t d else (unpressured_display all_clean t d, False))"

definition count_reduction :: "DisplayData \<Rightarrow> DisplayData" where
  "count_reduction d = d\<lparr>admission_ratio_reductions := sat_add u8_max (admission_ratio_reductions d) 1\<rparr>"

definition user_datagram_admission_at ::
  "int \<Rightarrow> string \<Rightarrow> VideoDatagramAdmissionSample \<Rightarrow> instant \<Rightarrow> VideoQoS \<Rightarrow> VideoQoS \<times> bool" where
  "user_datagram_admission_at i n s t q0 =
     (if \<not> full_movie_mode n q0 then (clear_datagram_admission_for_display n q0, False)
      else if map_of (users q0) i = None then (q0, False)
      else
        let q = on_user i (observe_admission n s t) q0
        in case map_of (displays q) n of
             None \<Rightarrow> (q, False)
           | Some d \<Rightarrow>
               let (d1, should_reduce) = admission_change n t q d;
                   q1 = q\<lparr>displays := AList.update n d1 (displays q)\<rparr>
               in if \<not> should_reduce then (q1, False)
                  else case reduce_ratio_for_congestion n t ''sender-admission'' True q1 of
                         (q2, reduced) \<Rightarrow> if \<not> reduced then (q2, False) else (on_display n count_reduction q2, True))"

definition user_datagram_admission_for_user_at ::
  "int \<Rightarrow> VideoDatagramAdmissionSample \<Rightarrow> instant \<Rightarrow> VideoQoS \<Rightarrow> VideoQoS \<times> nat" where
  "user_datagram_admission_for_user_at i s t q =
     fold (\<lambda>n (q', k). case user_datagram_admission_at i n s t q' of (q'', acted) \<Rightarrow> (q'', if acted then Suc k else k))
       (display_names_for_user i q) (q, 0)"

section \<open>Sessions of users\<close>

definition on_connection_open :: "int \<Rightarrow> bool \<Rightarrow> VideoQoS \<Rightarrow> VideoQoS" where
  "on_connection_open i abr q = q\<lparr>users := AList.update i UserData_default (users q), abr_config := abr\<rparr>"

definition on_connection_close :: "int \<Rightarrow> instant \<Rightarrow> VideoQoS \<Rightarrow> VideoQoS" where
  "on_connection_close i t q =
     fold (\<lambda>n q'. adjust_fps_at n t (clear_unless_movie n
            (on_display n (\<lambda>d. d\<lparr>subscribers := removeAll i (subscribers d)\<rparr>) q')))
       (display_names_for_user i q) (q\<lparr>users := AList.delete i (users q)\<rparr>)"

definition user_custom_fps :: "int \<Rightarrow> nat \<Rightarrow> instant \<Rightarrow> VideoQoS \<Rightarrow> VideoQoS" where
  "user_custom_fps i f t q =
     (if f < MIN_FPS \<or> f > MAX_FPS then q
      else if map_of (users q) i = None then q
      else adjust_displays_for_user i t (on_user i (\<lambda>u. u\<lparr>custom_fps := Some f, fixed_fps := None\<rparr>) q))"

definition user_fixed_fps :: "int \<Rightarrow> nat \<Rightarrow> instant \<Rightarrow> VideoQoS \<Rightarrow> VideoQoS" where
  "user_fixed_fps i f t q =
     (if f < MIN_FPS \<or> f > MAX_FPS then q
      else if map_of (users q) i = None then q
      else adjust_displays_for_user i t (on_user i (\<lambda>u. u\<lparr>custom_fps := Some f, fixed_fps := Some f\<rparr>) q))"

definition reset_startups :: "instant \<Rightarrow> UserData \<Rightarrow> UserData" where
  "reset_startups t u =
     u\<lparr>video_startup_by_service := map (\<lambda>(n, s). (n, Startup_reset t s)) (video_startup_by_service u)\<rparr>"

definition reset_adaptive :: "instant \<Rightarrow> UserData \<Rightarrow> UserData" where
  "reset_adaptive t u =
     reset_startups t (u\<lparr>delay := UserDelay_default, auto_adjust_fps := None, last_transport_loss_at := None,
       transport_loss_windows := [], movie_feedback_by_display := []\<rparr>)"

definition user_video_profile :: "int \<Rightarrow> VideoProfile \<Rightarrow> instant \<Rightarrow> VideoQoS \<Rightarrow> VideoQoS" where
  "user_video_profile i profile t q =
     (case map_of (users q) i of
        None \<Rightarrow> q
      | Some u \<Rightarrow>
          if video_profile u \<noteq> profile
          then adjust_displays_for_user i t (clear_user_datagram_admission i
                 (on_user i (\<lambda>u. (reset_adaptive t u)\<lparr>video_profile := profile\<rparr>) q))
          else q)"

definition user_movie_transport_capability :: "int \<Rightarrow> bool \<Rightarrow> VideoQoS \<Rightarrow> VideoQoS" where
  "user_movie_transport_capability i capable q =
     (let q1 = on_user i (\<lambda>u. u\<lparr>movie_transport_capable := capable\<rparr>) q
      in if capable then q1 else clear_user_datagram_admission i q1)"

record VideoFeedback =
  vf_display :: int
  vf_stream_id :: nat
  vf_metrics :: MovieViewerFeedback

definition user_video_feedback :: "int \<Rightarrow> string \<Rightarrow> VideoFeedback \<Rightarrow> instant \<Rightarrow> VideoQoS \<Rightarrow> VideoQoS" where
  "user_video_feedback i n fb t q =
     on_user i (\<lambda>u. case map_of (video_startup_by_service u) n of
        None \<Rightarrow> u
      | Some st0 \<Rightarrow>
          let (st, current) = Startup_begin_stream (vf_stream_id fb) t st0;
              u1 = u\<lparr>video_startup_by_service := AList.update n st (video_startup_by_service u)\<rparr>
          in if \<not> current then u1
             else if video_profile u \<noteq> Movie then u1
             else if \<not> contains_key (movie_feedback_by_display u) (vf_display fb)
                     \<and> length (movie_feedback_by_display u) \<ge> MAX_MOVIE_FEEDBACK_DISPLAYS then u1
             else u1\<lparr>movie_feedback_by_display :=
                    AList.update (vf_display fb) ((vf_metrics fb)\<lparr>mv_updated_at := Some t\<rparr>) (movie_feedback_by_display u)\<rparr>) q"

definition user_auto_adjust_fps :: "int \<Rightarrow> nat \<Rightarrow> instant \<Rightarrow> VideoQoS \<Rightarrow> VideoQoS" where
  "user_auto_adjust_fps i f t q =
     (if f < MIN_FPS \<or> f > MAX_FPS then q
      else adjust_displays_for_user i t (on_user i (\<lambda>u. u\<lparr>auto_adjust_fps := Some f\<rparr>) q))"

text \<open>The numbers of the protocol's image qualities; every other number carries a percentage.\<close>

record ImageQualityNumbers =
  iq_balanced :: int
  iq_low :: int
  iq_best :: int

definition convert_quality :: "ImageQualityNumbers \<Rightarrow> int \<Rightarrow> Quality" where
  "convert_quality iq x =
     (if x = iq_balanced iq then Balanced
      else if x = iq_low iq then Low
      else if x = iq_best iq then Best
      else Custom (clamp BR_MIN BR_MAX (f32 (f32 (of_int (((x div 256) mod 4096) * 2)) / 100))))"

definition apply_latest_quality :: "bool \<Rightarrow> string \<Rightarrow> VideoQoS \<Rightarrow> VideoQoS" where
  "apply_latest_quality changed n q =
     (let r = quality_ratio (latest_quality n q)
      in on_display n (\<lambda>d. let d1 = d\<lparr>ratio := r\<rparr>
           in if changed then clear_custom_congestion_episode d1 else d1) q)"

definition user_image_quality :: "ImageQualityNumbers \<Rightarrow> int \<Rightarrow> int \<Rightarrow> int \<Rightarrow> VideoQoS \<Rightarrow> VideoQoS" where
  "user_image_quality iq i x time q =
     (let converted = convert_quality iq x
      in case map_of (users q) i of
           None \<Rightarrow> q
         | Some u \<Rightarrow>
             let changed = (map_option snd (quality u) \<noteq> Some converted);
                 q1 = on_user i (\<lambda>u. (if changed then u\<lparr>transport_loss_upshift_frozen_until := []\<rparr> else u)
                        \<lparr>quality := Some (time, converted)\<rparr>) q
             in fold (apply_latest_quality changed) (display_names_for_user i q1) q1)"

definition user_preset_image_quality :: "ImageQualityNumbers \<Rightarrow> int \<Rightarrow> int \<Rightarrow> int \<Rightarrow> instant \<Rightarrow> VideoQoS \<Rightarrow> VideoQoS" where
  "user_preset_image_quality iq i x time t q =
     (if map_of (users q) i = None then q
      else adjust_displays_for_user i t (user_image_quality iq i x time
             (on_user i (\<lambda>u. u\<lparr>custom_fps := None, fixed_fps := None, auto_adjust_fps := None\<rparr>) q)))"

definition user_record :: "int \<Rightarrow> bool \<Rightarrow> VideoQoS \<Rightarrow> VideoQoS" where
  "user_record i v = on_user i (\<lambda>u. u\<lparr>user_recording := v\<rparr>)"

definition user_video_feedback_capability :: "int \<Rightarrow> bool \<Rightarrow> instant \<Rightarrow> VideoQoS \<Rightarrow> VideoQoS" where
  "user_video_feedback_capability i capable t q =
     (let q1 = on_user i (\<lambda>u. let u1 = u\<lparr>video_feedback_capable := capable\<rparr>
                 in if capable then u1 else reset_startups t u1) q;
          q2 = (if capable then q1 else clear_user_datagram_admission i q1)
      in adjust_displays_for_user i t q2)"

definition first_rendered :: "nat \<Rightarrow> ViewerStartupState \<Rightarrow> string \<Rightarrow> UserData \<Rightarrow> UserData" where
  "first_rendered highest st n u =
     (let u1 = u\<lparr>video_startup_by_service := AList.update n (st\<lparr>render_started := True\<rparr>) (video_startup_by_service u)\<rparr>
      in if delay_fps (delay u) = None \<and> \<not> response_delayed (delay u)
         then u1\<lparr>delay := (delay u)\<lparr>delay_fps := Some highest\<rparr>\<rparr> else u1)"

definition user_video_frame_rendered_for_service ::
  "int \<Rightarrow> string \<Rightarrow> nat \<Rightarrow> instant \<Rightarrow> VideoQoS \<Rightarrow> VideoQoS \<times> bool" where
  "user_video_frame_rendered_for_service i n stream t q =
     (let highest = user_requested_fps i q
      in case map_of (users q) i of
           None \<Rightarrow> (q, False)
         | Some u \<Rightarrow> (case map_of (video_startup_by_service u) n of
               None \<Rightarrow> (q, False)
             | Some st \<Rightarrow>
                 if \<not> video_feedback_capable u \<or> vs_stream_id st \<noteq> Some stream \<or> render_started st then (q, False)
                 else (adjust_fps_at n t (on_user i (first_rendered highest st n) q), True)))"

section \<open>Loss reported by a viewer\<close>

text \<open>The services whose ratio increases were frozen already, and the new freeze.\<close>

definition freeze_services :: "string list \<Rightarrow> instant \<Rightarrow> UserData \<Rightarrow> UserData \<times> string list" where
  "freeze_services names t u =
     fold (\<lambda>n (u', frozen).
         (u'\<lparr>transport_loss_upshift_frozen_until :=
              AList.update n (t + DATAGRAM_ADMISSION_UPSHIFT_FREEZE) (transport_loss_upshift_frozen_until u')\<rparr>,
          if is_some_and (map_of (transport_loss_upshift_frozen_until u') n) (\<lambda>current. t < current)
          then frozen @ [n] else frozen)) names (u, [])"

definition touch_service :: "instant \<Rightarrow> string \<Rightarrow> VideoQoS \<Rightarrow> VideoQoS" where
  "touch_service t n q =
     (let target = latest_quality n q
      in on_display n (\<lambda>d. fst (touch_custom_congestion_episode target t d)) q)"

definition recurrence_reduction :: "instant \<Rightarrow> string \<Rightarrow> VideoQoS \<times> string list \<Rightarrow> VideoQoS \<times> string list" where
  "recurrence_reduction t n acc =
     (case acc of (q, reduced) \<Rightarrow>
        if transport_loss_upshift_frozen_for_display n t q
        then case reduce_ratio_for_congestion n t ''transport-loss-recurrence'' False q of
               (q1, acted) \<Rightarrow> (q1, if acted then reduced @ [n] else reduced)
        else (q, reduced))"

definition custom_transport_loss :: "int \<Rightarrow> UserData \<Rightarrow> string list \<Rightarrow> instant \<Rightarrow> VideoQoS \<Rightarrow> VideoQoS \<times> bool" where
  "custom_transport_loss i u names t q =
     (let (u1, frozen) = freeze_services names t u;
          q1 = on_user i (\<lambda>_. u1) q;
          q2 = fold (touch_service t) (filter (\<lambda>n. n \<notin> set frozen) names) q1;
          (q3, reduced) = fold (recurrence_reduction t) frozen (q2, [])
      in (q3, reduced \<noteq> []))"

definition loss_backoff :: "nat \<Rightarrow> instant \<Rightarrow> UserData \<Rightarrow> UserData" where
  "loss_backoff highest t u =
     (let next = clamp MIN_FPS highest
            (sat_mul u32_max (unwrap_or (delay_fps (delay u)) highest) TRANSPORT_LOSS_BACKOFF_NUMERATOR
               div TRANSPORT_LOSS_BACKOFF_DENOMINATOR)
      in u\<lparr>last_transport_loss_at := Some t,
           delay := (delay u)\<lparr>quick_increase_fps_count := 0, increase_fps_count := 0, delay_fps := Some next\<rparr>\<rparr>)"

definition user_transport_loss_at :: "int \<Rightarrow> VideoTransportLossSample \<Rightarrow> instant \<Rightarrow> VideoQoS \<Rightarrow> VideoQoS \<times> bool" where
  "user_transport_loss_at i s t q0 =
     (if ls_dropped_frames s = 0 then (q0, False)
      else case map_of (users q0) i of
        None \<Rightarrow> (q0, False)
      | Some u0 \<Rightarrow>
          let (windows, obs) = observe_transport_loss s t (transport_loss_windows u0);
              u = u0\<lparr>transport_loss_windows := windows\<rparr>;
              q = on_user i (\<lambda>_. u) q0;
              names = custom_adaptive_display_names_for_user i q
          in if stale obs then (q, False)
             else if names \<noteq> [] then custom_transport_loss i u names t q
             else
               let highest = user_requested_fps i q
               in if obs_reason obs = None then (q, False)
                  else
                    let u1 = u\<lparr>transport_loss_windows := AList.delete (obs_key obs) windows\<rparr>
                    in if is_some_and (last_transport_loss_at u1) (\<lambda>l. since t l < TRANSPORT_LOSS_BACKOFF_COOLDOWN)
                       then (on_user i (\<lambda>_. u1) q, False)
                       else
                         let q1 = on_user i (\<lambda>_. loss_backoff highest t u1) q
                         in (fold (\<lambda>n q'. fst (reduce_ratio_for_congestion n t ''transport-loss'' False (adjust_fps_at n t q')))
                               (display_names_for_user i q1) q1, True))"

section \<open>Delay reported by a viewer\<close>

definition fps_limits :: "rat \<Rightarrow> nat \<times> nat" where
  "fps_limits target_ratio =
     (if target_ratio \<ge> BR_BEST then (8, 16) else if target_ratio \<ge> BR_BALANCED then (10, 20) else (12, 24))"

definition divided_fps :: "nat \<Rightarrow> nat \<Rightarrow> nat" where
  "divided_fps f avg =
     as_u32 (of_int \<lceil>f32 (f32 (of_nat f) / f32 (f32 (of_nat avg) / f32 (of_nat DELAY_THRESHOLD_150MS)))\<rceil>)"

text \<open>The frame rate after the new average delay, with the counter of good samples.\<close>

definition delayed_fps :: "nat \<Rightarrow> nat \<Rightarrow> nat \<Rightarrow> nat \<Rightarrow> nat \<Rightarrow> nat \<Rightarrow> nat \<times> nat" where
  "delayed_fps min_fps normal_fps old_avg avg quick f =
     (if avg < 50 then
        let q1 = quick + 1; step = (if f < normal_fps then 1 else 0)
        in if q1 \<ge> 3 then (max min_fps (f + 5), 0) else (max min_fps (f + step), q1)
      else if avg < 100 then
        (max min_fps (f + (if avg < old_avg then if f < normal_fps then 1 else 0 else 0)), quick)
      else if avg < DELAY_THRESHOLD_150MS then (max min_fps f, quick)
      else
        let dividend = DELAY_THRESHOLD_150MS * min_fps; divided = divided_fps f avg
        in (if avg < 200 then max min_fps divided
            else if avg < 300 then min min_fps divided
            else if avg < 600 then dividend div avg
            else min (dividend div avg) divided, quick))"

definition measured_delay :: "nat \<Rightarrow> nat \<Rightarrow> nat \<Rightarrow> nat \<Rightarrow> UserDelay \<Rightarrow> UserDelay" where
  "measured_delay min_fps normal_fps highest ms u0 =
     (let old_avg = avg_delay u0;
          u = add_delay (max ms 10) u0;
          avg = max (avg_delay u) 10;
          (f1, quick) = delayed_fps min_fps normal_fps old_avg avg (quick_increase_fps_count u) (unwrap_or (delay_fps u) INIT_FPS);
          count = (if avg < DELAY_THRESHOLD_150MS then increase_fps_count u + 1 else 0);
          (f2, count') = (if count \<ge> 3 then (f1 + 1, 0) else (f1, count))
      in u\<lparr>quick_increase_fps_count := (if avg > 50 then 0 else quick), increase_fps_count := count',
           delay_fps := Some (clamp MIN_FPS highest f2)\<rparr>)"

definition user_network_delay :: "bool \<Rightarrow> int \<Rightarrow> nat \<Rightarrow> instant \<Rightarrow> VideoQoS \<Rightarrow> VideoQoS" where
  "user_network_delay linux i ms t q =
     (let highest = user_requested_fps i q;
          target_ratio = (case map_of (users q) i of
              None \<Rightarrow> BR_BALANCED
            | Some u \<Rightarrow> (case quality u of None \<Rightarrow> BR_BALANCED | Some (_, c) \<Rightarrow> quality_ratio c));
          (min_fps, normal_fps) = fps_limits target_ratio;
          first = is_some_and (map_of (users q) i) (\<lambda>u. delay_fps (delay u) = None);
          q1 = on_user i (\<lambda>u. u\<lparr>delay := measured_delay min_fps normal_fps highest ms (delay u)\<rparr>) q;
          affected = display_names_for_user i q1;
          q2 = fold (\<lambda>n. adjust_fps_at n t) affected q1
      in if first \<and> \<not> linux then fold (\<lambda>n. adjust_ratio_at n False t) affected q2 else q2)"

definition user_delay_response_elapsed :: "int \<Rightarrow> nat \<Rightarrow> instant \<Rightarrow> VideoQoS \<Rightarrow> VideoQoS" where
  "user_delay_response_elapsed i elapsed t q =
     adjust_displays_for_user i t
       (on_user i (\<lambda>u. let d = (delay u)\<lparr>response_delayed := elapsed > 2000\<rparr>
          in u\<lparr>delay := (if elapsed > 2000 then add_delay (elapsed mod 2 ^ 32) d else d)\<rparr>) q)"

section \<open>Displays\<close>

definition new_display :: "string \<Rightarrow> instant \<Rightarrow> VideoQoS \<Rightarrow> VideoQoS" where
  "new_display n t q = q\<lparr>displays := AList.update n (DisplayData_default t) (displays q)\<rparr>"

definition remove_display :: "string \<Rightarrow> VideoQoS \<Rightarrow> VideoQoS" where
  "remove_display n q = q\<lparr>displays := AList.delete n (displays q)\<rparr>"

definition sync_subscribers :: "string \<Rightarrow> int list \<Rightarrow> instant \<Rightarrow> VideoQoS \<Rightarrow> VideoQoS" where
  "sync_subscribers n subs t q =
     (let previous = (case map_of (displays q) n of None \<Rightarrow> [] | Some d \<Rightarrow> subscribers d);
          q1 = on_display n (\<lambda>d. d\<lparr>subscribers := subs\<rparr>) q
      in if set previous = set subs then q1
         else
           let q2 = fold (\<lambda>i. on_user i (\<lambda>u. u\<lparr>video_startup_by_service := AList.delete n (video_startup_by_service u)\<rparr>))
                      (filter (\<lambda>i. i \<notin> set subs) previous) q1;
               q3 = fold (\<lambda>i. on_user i (\<lambda>u.
                        if contains_key (video_startup_by_service u) n then u
                        else u\<lparr>video_startup_by_service := AList.update n (Startup_new t) (video_startup_by_service u)\<rparr>))
                      (filter (\<lambda>i. i \<notin> set previous) subs) q2
           in adjust_fps_at n t (clear_unless_movie n q3))"

definition update_display_data :: "string \<Rightarrow> nat \<Rightarrow> instant \<Rightarrow> VideoQoS \<Rightarrow> VideoQoS" where
  "update_display_data n sent t q0 =
     (let q = adjust_fps_at n t q0
      in if in_vbr_state n q
         then case map_of (displays q) n of
                None \<Rightarrow> q
              | Some d \<Rightarrow>
                  let counter = send_counter d + sent
                  in if since t (adjust_ratio_instant d) < from_secs ADJUST_RATIO_INTERVAL
                     then on_display n (\<lambda>d. d\<lparr>send_counter := counter\<rparr>) q
                     else adjust_ratio_at n (counter \<ge> ADJUST_RATIO_INTERVAL * DYNAMIC_SCREEN_THRESHOLD) t
                            (on_display n (\<lambda>d. d\<lparr>send_counter := 0\<rparr>) q)
         else
           let r = quality_ratio (latest_quality n q)
           in on_display n (\<lambda>d. d\<lparr>ratio := r\<rparr>) q)"

section \<open>Metrics of the viewers\<close>

definition video_service_display_index :: "string \<Rightarrow> int option" where
  "video_service_display_index n =
     (case (case strip_prefix ''monitor'' n of Some r \<Rightarrow> Some r | None \<Rightarrow> strip_prefix ''camera'' n) of
        None \<Rightarrow> None
      | Some r \<Rightarrow> parse_unsigned_i32 (dropWhile (\<lambda>c. c = CHR ''-'') r))"

definition MovieViewerMetrics_default :: MovieViewerMetrics where
  "MovieViewerMetrics_default = \<lparr>available = False, all_rendered = False, max_queue_depth_frames = 0, max_decode_time_us = 0,
     max_render_submit_time_us = 0, dropped_frames = 0, display_refresh_millihz = 0, presentation_late_frames = 0,
     presentation_dropped_frames = 0, presentation_jitter_p95_us = 0\<rparr>"

definition add_feedback :: "int \<Rightarrow> instant \<Rightarrow> MovieViewerMetrics \<Rightarrow> UserData \<Rightarrow> MovieViewerMetrics" where
  "add_feedback idx t m u =
     (case map_of (movie_feedback_by_display u) idx of
        None \<Rightarrow> m\<lparr>available := False\<rparr>
      | Some fb \<Rightarrow>
          if \<not> is_some_and (mv_updated_at fb) (\<lambda>x. since t x \<le> MOVIE_FEEDBACK_FRESHNESS) then m\<lparr>available := False\<rparr>
          else m\<lparr>max_queue_depth_frames := max (max_queue_depth_frames m) (mv_queue_depth_frames fb),
                 max_decode_time_us := max (max_decode_time_us m) (mv_decode_time_us fb),
                 max_render_submit_time_us := max (max_render_submit_time_us m) (mv_render_submit_time_us fb),
                 dropped_frames := sat_add u64_max (dropped_frames m) (mv_dropped_frames fb),
                 display_refresh_millihz := (if mv_display_refresh_millihz fb > 0
                   then if display_refresh_millihz m = 0 then mv_display_refresh_millihz fb
                        else min (display_refresh_millihz m) (mv_display_refresh_millihz fb)
                   else display_refresh_millihz m),
                 presentation_late_frames := sat_add u64_max (presentation_late_frames m) (mv_presentation_late_frames fb),
                 presentation_dropped_frames :=
                   sat_add u64_max (presentation_dropped_frames m) (mv_presentation_dropped_frames fb),
                 presentation_jitter_p95_us := max (presentation_jitter_p95_us m) (mv_presentation_jitter_p95_us fb)\<rparr>)"

definition movie_viewer_metrics :: "string \<Rightarrow> instant \<Rightarrow> VideoQoS \<Rightarrow> MovieViewerMetrics" where
  "movie_viewer_metrics n t q =
     (case video_service_display_index n of
        None \<Rightarrow> MovieViewerMetrics_default
      | Some idx \<Rightarrow>
          let us = subscribed_users n q
          in if us = [] then MovieViewerMetrics_default
             else foldl (add_feedback idx t)
               (MovieViewerMetrics_default\<lparr>available := True,
                  all_rendered := list_all (\<lambda>u. is_some_and (map_of (video_startup_by_service u) n) render_started) us\<rparr>) us)"

end
