(* ===== verification/QosInvariants.thy ===== *)
theory QosInvariants
  imports VideoQoS
begin

text \<open>
  What the quality controller keeps: the ranges of the frame rate and of the ratio of every display, the
  limits of the per-user tables, the pace of reductions, and the independence of healthy viewers.
\<close>

section \<open>Constants\<close>

lemma BR_values:
  "BR_BEST = 3 / 2" "BR_BALANCED = 11240735 / 16777216" "BR_SPEED = 1 / 2" "BR_MAX = 40"
  "BR_MIN = 13421773 / 67108864" "BR_MIN_HIGH_RESOLUTION = 13421773 / 134217728" "MAX_BR_MULTIPLE = 1"
  by code_simp+

lemma f32_BR: "f32 BR_MIN = BR_MIN" "f32 BR_MAX = BR_MAX" "f32 BR_BEST = BR_BEST" "f32 BR_BALANCED = BR_BALANCED"
  "f32 BR_SPEED = BR_SPEED"
  by code_simp+

lemma fps_values: "MIN_FPS = 1" "MAX_FPS = 120" "FPS = 30" "INIT_FPS = 15" "STARTUP_SAFE_FPS = 5"
  by (simp_all add: MIN_FPS_def MAX_FPS_def FPS_def INIT_FPS_def STARTUP_SAFE_FPS_def)

section \<open>Well-formed states\<close>

definition quality_ok :: "Quality \<Rightarrow> bool" where
  "quality_ok c = (case c of Custom v \<Rightarrow> BR_MIN \<le> v \<and> v \<le> BR_MAX | _ \<Rightarrow> True)"

definition fps_ok :: "nat \<Rightarrow> bool" where
  "fps_ok f \<longleftrightarrow> MIN_FPS \<le> f \<and> f \<le> MAX_FPS"

definition ratio_ok :: "rat \<Rightarrow> bool" where
  "ratio_ok r \<longleftrightarrow> BR_MIN_HIGH_RESOLUTION \<le> r \<and> r \<le> BR_MAX"

definition delay_ok :: "UserDelay \<Rightarrow> bool" where
  "delay_ok u \<longleftrightarrow> length (delay_history u) \<le> HISTORY_DELAY_LEN + 1
     \<and> length (samples (rtt_calculator u)) \<le> WINDOW_SAMPLES \<and> is_none_or (delay_fps u) fps_ok"

definition user_ok :: "UserData \<Rightarrow> bool" where
  "user_ok u \<longleftrightarrow> is_none_or (quality u) (\<lambda>c. quality_ok (snd c)) \<and> is_none_or (custom_fps u) fps_ok
     \<and> is_none_or (fixed_fps u) fps_ok \<and> is_none_or (auto_adjust_fps u) fps_ok \<and> delay_ok (delay u)
     \<and> map_wf (transport_loss_windows u) \<and> length (transport_loss_windows u) \<le> MAX_TRANSPORT_LOSS_WINDOWS
     \<and> map_wf (datagram_admission_by_service u)
     \<and> length (datagram_admission_by_service u) \<le> MAX_DATAGRAM_ADMISSION_SERVICES
     \<and> map_wf (movie_feedback_by_display u) \<and> length (movie_feedback_by_display u) \<le> MAX_MOVIE_FEEDBACK_DISPLAYS"

definition display_ok :: "DisplayData \<Rightarrow> bool" where
  "display_ok d \<longleftrightarrow> fps_ok (fps d) \<and> ratio_ok (ratio d)
     \<and> admission_ratio_reductions d \<le> DATAGRAM_ADMISSION_MAX_RATIO_REDUCTIONS
     \<and> congestion_episode_transport_reductions d \<le> CUSTOM_CONGESTION_MAX_TRANSPORT_REDUCTIONS"

definition qos_ok :: "VideoQoS \<Rightarrow> bool" where
  "qos_ok q \<longleftrightarrow> map_wf (users q) \<and> map_wf (displays q)
     \<and> (\<forall>p \<in> set (users q). user_ok (snd p)) \<and> (\<forall>p \<in> set (displays q). display_ok (snd p))"

lemma set_map_filter: "set (List.map_filter f xs) = {y. \<exists>x \<in> set xs. f x = Some y}"
  by (induction xs) (auto simp: map_filter_simps split: option.splits)

lemma fps_ok_clamp [simp]: "fps_ok (clamp MIN_FPS MAX_FPS f)"
  by (simp add: fps_ok_def clamp_def fps_values)

lemma fps_ok_consts [simp]: "fps_ok FPS" "fps_ok INIT_FPS" "fps_ok STARTUP_SAFE_FPS"
  by (simp_all add: fps_ok_def fps_values)

lemma fps_ok_clamp_highest [intro]: "fps_ok h \<Longrightarrow> fps_ok (clamp MIN_FPS h f)"
  by (auto simp: fps_ok_def clamp_def)

subsection \<open>Access to users and displays\<close>

lemma qos_ok_on_user [intro]:
  assumes "qos_ok q" "\<And>u. user_ok u \<Longrightarrow> map_of (users q) i = Some u \<Longrightarrow> user_ok (f u)"
  shows "qos_ok (on_user i f q)"
  using assms unfolding qos_ok_def on_user_def
  by (auto simp: alist_simps split: option.splits dest: map_of_SomeD)

lemma qos_ok_on_display [intro]:
  assumes "qos_ok q" "\<And>d. display_ok d \<Longrightarrow> map_of (displays q) n = Some d \<Longrightarrow> display_ok (f d)"
  shows "qos_ok (on_display n f q)"
  using assms unfolding qos_ok_def on_display_def
  by (auto simp: alist_simps split: option.splits dest: map_of_SomeD)

lemma qos_ok_set_display:
  "qos_ok q \<Longrightarrow> display_ok d \<Longrightarrow> qos_ok (q\<lparr>displays := AList.update n d (displays q)\<rparr>)"
  unfolding qos_ok_def by (auto simp: alist_simps)

lemma qos_ok_user: "qos_ok q \<Longrightarrow> map_of (users q) i = Some u \<Longrightarrow> user_ok u"
  unfolding qos_ok_def by (auto dest: map_of_SomeD)

lemma qos_ok_display: "qos_ok q \<Longrightarrow> map_of (displays q) n = Some d \<Longrightarrow> display_ok d"
  unfolding qos_ok_def by (auto dest: map_of_SomeD)

lemma qos_ok_fold: "(\<And>x q. qos_ok q \<Longrightarrow> qos_ok (f x q)) \<Longrightarrow> qos_ok q \<Longrightarrow> qos_ok (fold f xs q)"
  by (induction xs arbitrary: q) auto

lemma subscribed_ok: "qos_ok q \<Longrightarrow> u \<in> set (subscribed_users n q) \<Longrightarrow> user_ok u"
  by (auto simp: subscribed_users_def set_map_filter qos_ok_user split: option.splits)

section \<open>Requests\<close>

lemma max_of_ok: "max_of xs = Some m \<Longrightarrow> m \<in> set xs"
  by (auto simp: max_of_def split: if_splits)

lemma requested_fps_ok [simp]: "fps_ok (requested_fps u)"
  by (simp add: requested_fps_def Let_def)

lemma user_requested_fps_ok [simp]: "fps_ok (user_requested_fps i q)"
  by (simp add: user_requested_fps_def split: option.splits)

lemma locked_fps_ok: "locked_fps n q = Some f \<Longrightarrow> fps_ok f"
  by (auto simp: locked_fps_def)

lemma highest_fps_ok [simp]: "fps_ok (highest_fps n q)"
proof (cases "locked_fps n q")
  case None
  then show ?thesis
    by (auto simp: highest_fps_def unwrap_or_def split: option.splits dest!: max_of_ok)
qed (auto simp: highest_fps_def dest: locked_fps_ok)

lemma later_quality_ok:
  "\<forall>c \<in> set cs. quality_ok (snd c) \<Longrightarrow> is_none_or b (\<lambda>c. quality_ok (snd c)) \<Longrightarrow>
   is_none_or (foldl later_quality b cs) (\<lambda>c. quality_ok (snd c))"
  by (induction cs arbitrary: b) (auto simp: later_quality_def split: option.splits)

lemma latest_quality_ok:
  assumes "qos_ok q"
  shows "quality_ok (latest_quality n q)"
proof -
  have "\<forall>c \<in> set (List.map_filter quality (subscribed_users n q)). quality_ok (snd c)"
    using subscribed_ok [OF assms] by (force simp: set_map_filter user_ok_def is_none_or_iff)
  from later_quality_ok [OF this, of None]
  show ?thesis by (auto simp: latest_quality_def unwrap_or_def is_none_or_iff quality_ok_def [of Balanced] split: option.splits)
qed

lemma quality_ratio_bounds:
  assumes "quality_ok c"
  shows "BR_MIN \<le> quality_ratio c" and "quality_ratio c \<le> BR_MAX"
  using assms by (auto simp: quality_ok_def quality_ratio_def BR_values split: Quality.splits)

lemma BR_MIN_HIGH_le: "BR_MIN_HIGH_RESOLUTION \<le> BR_MIN"
  by (simp add: BR_values)

lemma ratio_ok_quality: "quality_ok c \<Longrightarrow> ratio_ok (quality_ratio c)"
  using quality_ratio_bounds [of c] BR_MIN_HIGH_le by (simp add: ratio_ok_def)

lemma ratio_ok_highest:
  assumes "quality_ok c"
  shows "ratio_ok (f32 (quality_ratio c * MAX_BR_MULTIPLE))"
proof -
  have "0 \<le> BR_MIN" by (simp add: BR_values)
  then have "f32 BR_MIN \<le> f32 (quality_ratio c)" "f32 (quality_ratio c) \<le> f32 BR_MAX"
    using quality_ratio_bounds [OF assms] by (auto intro!: rnd_mono)
  then show ?thesis using BR_MIN_HIGH_le by (simp add: ratio_ok_def f32_BR BR_values(7))
qed

lemma minimum_ratio_low: "BR_MIN_HIGH_RESOLUTION \<le> minimum_ratio_for_quality c r b"
  using BR_MIN_HIGH_le by (auto simp: minimum_ratio_for_quality_def Let_def split: Quality.splits)

section \<open>Every operation keeps the ranges\<close>

lemma any_max_fps_ok:
  assumes "\<forall>u \<in> set us. user_ok u"
  shows "fps_ok (any_max_fps us)"
proof (cases "max_of (map (\<lambda>u. unwrap_or (delay_fps (delay u)) INIT_FPS) us)")
  case (Some m)
  from max_of_ok [OF this] obtain u where "u \<in> set us" "m = unwrap_or (delay_fps (delay u)) INIT_FPS" by auto
  with assms have "fps_ok m" by (auto simp: user_ok_def delay_ok_def is_none_or_iff unwrap_or_def split: option.splits)
  with Some show ?thesis by (simp add: any_max_fps_def unwrap_or_def)
qed (simp add: any_max_fps_def unwrap_or_def)

lemma fps_ok_min: "fps_ok f \<Longrightarrow> 0 < g \<Longrightarrow> fps_ok (min f g)"
  by (auto simp: fps_ok_def fps_values)

lemma display_ok_fps: "display_ok d \<Longrightarrow> fps_ok f \<Longrightarrow> display_ok (d\<lparr>fps := f\<rparr>)"
  by (simp add: display_ok_def)

lemma shared_fps_ok [simp]: "fps_ok (shared_fps n t q)"
  unfolding shared_fps_def Let_def by (intro fps_ok_clamp_highest highest_fps_ok)

lemma paced_fps_ok: "fps_ok f \<Longrightarrow> fps_ok (fps d) \<Longrightarrow> fps_ok (paced_fps movie f t d)"
  by (simp add: paced_fps_def Let_def fps_ok_min)

lemma qos_ok_adjust_fps [intro]:
  assumes "qos_ok q"
  shows "qos_ok (adjust_fps_at n t q)"
proof (cases "locked_fps n q")
  case None
  then show ?thesis
    by (simp add: adjust_fps_at_def)
       (rule qos_ok_on_display [OF assms], auto intro!: display_ok_fps paced_fps_ok simp: display_ok_def)
next
  case (Some f)
  from locked_fps_ok [OF this] have "fps_ok (if 0 < p then min f p else f)" for p by (simp add: fps_ok_min)
  then show ?thesis unfolding adjust_fps_at_def Some option.case Let_def
    by (intro qos_ok_on_display [OF assms] display_ok_fps)
qed

lemma qos_ok_adjust_displays [intro]: "qos_ok q \<Longrightarrow> qos_ok (adjust_displays_for_user i t q)"
  unfolding adjust_displays_for_user_def by (rule qos_ok_fold) auto

lemma display_ok_clear_admission [intro]: "display_ok d \<Longrightarrow> display_ok (clear_admission d)"
  by (simp add: display_ok_def clear_admission_def)

lemma qos_ok_clear [intro]: "qos_ok q \<Longrightarrow> qos_ok (clear_datagram_admission_for_display n q)"
  unfolding clear_datagram_admission_for_display_def by auto

lemma qos_ok_clear_unless [intro]: "qos_ok q \<Longrightarrow> qos_ok (clear_unless_movie n q)"
  by (auto simp: clear_unless_movie_def)

lemma qos_ok_clear_user [intro]: "qos_ok q \<Longrightarrow> qos_ok (clear_user_datagram_admission i q)"
  unfolding clear_user_datagram_admission_def Let_def
  by (rule qos_ok_fold) (auto intro!: qos_ok_on_user simp: user_ok_def)

lemma display_ok_clear_episode [intro]: "display_ok d \<Longrightarrow> display_ok (clear_custom_congestion_episode d)"
  by (simp add: display_ok_def clear_custom_congestion_episode_def)

lemma display_ok_expire [intro]: "display_ok d \<Longrightarrow> display_ok (expire_custom_congestion_episode t d)"
  by (auto simp: expire_custom_congestion_episode_def)

lemma display_ok_touch [intro]: "display_ok d \<Longrightarrow> display_ok (fst (touch_custom_congestion_episode c t d))"
  using display_ok_expire [of d t] display_ok_clear_episode [of d]
  by (auto simp: touch_custom_congestion_episode_def Let_def display_ok_def)

lemma episode_keeps_ratio [simp]:
  "ratio (clear_custom_congestion_episode d) = ratio d"
  "ratio (expire_custom_congestion_episode t d) = ratio d"
  "ratio (fst (touch_custom_congestion_episode c t d)) = ratio d"
  "bitrate_store (expire_custom_congestion_episode t d) = bitrate_store d"
  "last_congestion_reduction_at (expire_custom_congestion_episode t d) = last_congestion_reduction_at d"
  "last_congestion_reduction_at (fst (touch_custom_congestion_episode c t d)) = last_congestion_reduction_at d"
  by (auto simp: touch_custom_congestion_episode_def expire_custom_congestion_episode_def
        clear_custom_congestion_episode_def Let_def)

lemma ratio_limits_ordered:
  assumes "quality_ok c"
  shows "ratio_ok (fst (ratio_limits c fl d))" "ratio_ok (snd (ratio_limits c fl d))"
    and "fst (ratio_limits c fl d) \<le> snd (ratio_limits c fl d)"
  using ratio_ok_highest [OF assms] minimum_ratio_low [of c "ratio d" "bitrate_store d"]
  by (auto simp: ratio_limits_def Let_def ratio_ok_def)

lemma ratio_ok_next:
  assumes "ratio_ok (ratio d)" "quality_ok c"
  shows "ratio_ok (next_ratio c frozen v fl d)"
  using assms(1) ratio_limits_ordered [OF assms(2), of fl d]
  by (auto simp: next_ratio_def Let_def case_prod_beta ratio_ok_def clamp_def)

lemma display_ok_apply_ratio:
  assumes d: "display_ok d" and c: "quality_ok c"
  shows "display_ok (apply_ratio c frozen v t d)"
proof -
  have "display_ok (fst (ratio_episode c v t d))" using d by (auto simp: ratio_episode_def Let_def)
  moreover have "ratio_ok (ratio d)" using d by (simp add: display_ok_def)
  ultimately show ?thesis
    using ratio_ok_next [OF _ c] by (simp add: display_ok_def apply_ratio_def Let_def case_prod_beta)
qed

lemma qos_ok_adjust_ratio [intro]: "qos_ok q \<Longrightarrow> qos_ok (adjust_ratio_at n dyn t q)"
  unfolding adjust_ratio_at_def Let_def
  by (auto split: option.splits intro!: qos_ok_on_display display_ok_apply_ratio latest_quality_ok)

lemma touch_reductions:
  "is_custom c \<Longrightarrow> congestion_episode_transport_reductions (fst (touch_custom_congestion_episode c t (expire_custom_congestion_episode t d)))
     = congestion_episode_transport_reductions (expire_custom_congestion_episode t d)"
  by (auto simp: touch_custom_congestion_episode_def expire_custom_congestion_episode_def clear_custom_congestion_episode_def Let_def)

section \<open>Reductions after congestion\<close>

lemma freeze_until_keeps [simp]:
  "display_ok (freeze_until t d) = display_ok d" "ratio (freeze_until t d) = ratio d"
  "bitrate_store (freeze_until t d) = bitrate_store d"
  "last_congestion_reduction_at (freeze_until t d) = last_congestion_reduction_at d"
  "congestion_episode_transport_reductions (freeze_until t d) = congestion_episode_transport_reductions d"
  "congestion_episode_last_pressure_at (freeze_until t d) = congestion_episode_last_pressure_at d"
  "congestion_episode_floor_ratio (freeze_until t d) = congestion_episode_floor_ratio d"
  by (simp_all add: freeze_until_def Let_def display_ok_def)

lemma expire_idem:
  "congestion_episode_last_pressure_at d = congestion_episode_last_pressure_at (expire_custom_congestion_episode t e) \<Longrightarrow>
   expire_custom_congestion_episode t d = d"
  by (auto simp: expire_custom_congestion_episode_def clear_custom_congestion_episode_def is_some_and_def split: option.splits if_splits)

text \<open>
  The state of the display before the limits of a reduction are tested: an episode that is over is
  forgotten and, on request, increases are frozen.
\<close>

definition before_reduction :: "instant \<Rightarrow> bool \<Rightarrow> DisplayData \<Rightarrow> DisplayData" where
  "before_reduction t freeze d =
     (let d1 = expire_custom_congestion_episode t d in if freeze then freeze_until t d1 else d1)"

lemma before_reduction_keeps [simp]:
  "ratio (before_reduction t fz d) = ratio d" "bitrate_store (before_reduction t fz d) = bitrate_store d"
  "last_congestion_reduction_at (before_reduction t fz d) = last_congestion_reduction_at d"
  "congestion_episode_transport_reductions (before_reduction t fz d)
     = congestion_episode_transport_reductions (expire_custom_congestion_episode t d)"
  "expire_custom_congestion_episode t (before_reduction t fz d) = before_reduction t fz d"
  by (auto simp: before_reduction_def Let_def intro: expire_idem)

lemma display_ok_before [intro]: "display_ok d \<Longrightarrow> display_ok (before_reduction t fz d)"
  by (auto simp: before_reduction_def Let_def)

lemma reduce_display_cases:
  assumes "reduce_display c t src fz d = (d', r)"
  obtains (kept) fz' where "r = False" "d' = before_reduction t fz' d"
  | (touched) "r = False" "d' = fst (touch_custom_congestion_episode c t (before_reduction t fz d))"
  | (reduced) d3 fl nx where "r" "touch_custom_congestion_episode c t (before_reduction t fz d) = (d3, fl)"
      "nx = min (max (max (f32 (ratio d * f32 (9 / 10))) (minimum_ratio_for_quality c (ratio d) (bitrate_store d)))
              (unwrap_or fl (minimum_ratio_for_quality c (ratio d) (bitrate_store d)))) (ratio d)"
      "nx < ratio d" "is_none_or (last_congestion_reduction_at d) (\<lambda>l. DATAGRAM_ADMISSION_ACTION_COOLDOWN \<le> since t l)"
      "src = ''transport-loss-recurrence'' \<and> is_custom c \<longrightarrow>
         congestion_episode_transport_reductions (expire_custom_congestion_episode t d)
           < CUSTOM_CONGESTION_MAX_TRANSPORT_REDUCTIONS"
      "d' = d3\<lparr>ratio := nx, last_congestion_reduction_at := Some t,
            congestion_episode_transport_reductions :=
              (if src = ''transport-loss-recurrence'' \<and> is_custom c
               then sat_add u8_max (congestion_episode_transport_reductions d3) 1
               else congestion_episode_transport_reductions d3)\<rparr>"
proof -
  define d1 where "d1 = expire_custom_congestion_episode t d"
  define m where "m = minimum_ratio_for_quality c (ratio d) (bitrate_store d)"
  define x where "x = f32 (ratio d * f32 (9 / 10))"
  define d2 where "d2 = before_reduction t fz d"
  obtain d3 fl where tc: "touch_custom_congestion_episode c t d2 = (d3, fl)" by force
  define nx where "nx = min (max (max x m) (unwrap_or fl m)) (ratio d)"
  have d2: "(if fz then freeze_until t d1 else d1) = d2" by (simp add: d2_def before_reduction_def d1_def Let_def)
  have k: "ratio d1 = ratio d" "bitrate_store d1 = bitrate_store d" "ratio d3 = ratio d"
    "last_congestion_reduction_at d2 = last_congestion_reduction_at d"
    using arg_cong [OF tc, of "\<lambda>p. ratio (fst p)"] by (simp_all add: d1_def d2_def)
  have b1: "before_reduction t False d = d1" by (simp add: before_reduction_def d1_def)
  have eq: "reduce_display c t src fz d =
     (if src = ''transport-loss-recurrence'' \<and> is_custom c
         \<and> CUSTOM_CONGESTION_MAX_TRANSPORT_REDUCTIONS \<le> congestion_episode_transport_reductions d1 then (d1, False)
      else if ratio d \<le> min (max x m) (ratio d) then (d1, False)
      else if is_some_and (last_congestion_reduction_at d) (\<lambda>l. since t l < DATAGRAM_ADMISSION_ACTION_COOLDOWN) then (d2, False)
      else if ratio d \<le> nx then (d3, False)
      else (d3\<lparr>ratio := nx, last_congestion_reduction_at := Some t,
               congestion_episode_transport_reductions :=
                 (if src = ''transport-loss-recurrence'' \<and> is_custom c
                  then sat_add u8_max (congestion_episode_transport_reductions d3) 1
                  else congestion_episode_transport_reductions d3)\<rparr>, True))"
    unfolding reduce_display_def Let_def d1_def [symmetric] k m_def [symmetric] x_def [symmetric] d2 tc prod.case
      nx_def [symmetric] by simp
  show thesis
    using assms [unfolded eq] tc kept [of False] kept [of fz] touched reduced [of d3 fl nx]
    unfolding b1 d1_def [symmetric] d2_def [symmetric] m_def [symmetric] x_def [symmetric] nx_def [symmetric]
    by (auto simp: is_some_and_def is_none_or_def split: if_splits option.splits)
qed

lemma touched_ok:
  assumes "display_ok d" "touch_custom_congestion_episode c t (before_reduction t fz d) = (d3, fl)"
  shows "display_ok d3" and "ratio d3 = ratio d"
    and "is_custom c \<Longrightarrow> congestion_episode_transport_reductions d3
           = congestion_episode_transport_reductions (expire_custom_congestion_episode t d)"
proof -
  have f: "d3 = fst (touch_custom_congestion_episode c t (before_reduction t fz d))" using assms(2) by simp
  show "display_ok d3" using assms(1) unfolding f by auto
  show "ratio d3 = ratio d" unfolding f by simp
  show "congestion_episode_transport_reductions d3 = congestion_episode_transport_reductions (expire_custom_congestion_episode t d)"
    if "is_custom c"
    using that touch_reductions [of c t "before_reduction t fz d"] unfolding f by simp
qed

lemma display_ok_reduce:
  assumes "reduce_display c t src fz d = (d', r)" "display_ok d"
  shows "display_ok d'"
  using assms(1)
proof (cases rule: reduce_display_cases)
  case (reduced d3 fl nx)
  note k = touched_ok [OF assms(2) reduced(2)]
  have "ratio_ok (ratio d)" using assms(2) by (simp add: display_ok_def)
  then have nx: "ratio_ok nx" using reduced(3,4) minimum_ratio_low [of c "ratio d" "bitrate_store d"]
    by (auto simp: ratio_ok_def)
  have "src = ''transport-loss-recurrence'' \<and> is_custom c \<Longrightarrow>
      sat_add u8_max (congestion_episode_transport_reductions d3) 1 \<le> CUSTOM_CONGESTION_MAX_TRANSPORT_REDUCTIONS"
    using reduced(6) k(3) by (simp add: sat_add_def)
  then show ?thesis using k(1) nx unfolding reduced(7) by (simp add: display_ok_def)
qed (use assms(2) in auto)

lemma qos_ok_reduce:
  assumes "reduce_ratio_for_congestion n t src fz q = (q', r)" "qos_ok q"
  shows "qos_ok q'"
proof (cases "in_vbr_state n q \<and> map_of (displays q) n \<noteq> None")
  case False
  then have "q' = q" using assms(1) by (auto simp: reduce_ratio_for_congestion_def split: if_splits option.splits)
  then show ?thesis using assms(2) by simp
next
  case True
  then obtain d where d: "map_of (displays q) n = Some d" by auto
  obtain d' r' where e: "reduce_display (latest_quality n q) t src fz d = (d', r')" by force
  have "q' = q\<lparr>displays := AList.update n d' (displays q)\<rparr>"
    using assms(1) True by (simp add: reduce_ratio_for_congestion_def d e)
  then show ?thesis
    using qos_ok_set_display [OF assms(2) display_ok_reduce [OF e qos_ok_display [OF assms(2) d]]] by simp
qed

lemma qos_ok_reduce_fst [intro]: "qos_ok q \<Longrightarrow> qos_ok (fst (reduce_ratio_for_congestion n t src fz q))"
  by (cases "reduce_ratio_for_congestion n t src fz q") (auto dest: qos_ok_reduce)

section \<open>Tables of a user\<close>

lemma min_entry_some: "m \<noteq> [] \<Longrightarrow> \<exists>p \<in> set m. min_entry f m = Some p"
proof (induction m)
  case (Cons x m)
  then show ?case by (cases "m = []") (auto split: option.splits)
qed simp

lemma evict_oldest_ok:
  assumes "map_wf m" "length m \<le> b" "0 < b"
  shows "map_wf (evict_oldest f b k m)" and "length (AList.update k v (evict_oldest f b k m)) \<le> b"
proof -
  show "map_wf (evict_oldest f b k m)"
    using assms by (auto simp: evict_oldest_def alist_simps split: option.splits)
  show "length (AList.update k v (evict_oldest f b k m)) \<le> b"
  proof (cases "k \<notin> fst ` set m \<and> length m \<ge> b")
    case True
    then have "m \<noteq> []" using assms by auto
    from min_entry_some [OF this, of f] obtain o' v' where e: "min_entry f m = Some (o', v')" "(o', v') \<in> set m"
      by auto
    then have "length (AList.delete o' m) < length m"
      by (auto simp: AList.delete_eq intro!: length_filter_less [of "(o', v')"])
    with True e(1) assms(2) show ?thesis by (simp add: evict_oldest_def length_update)
  next
    case False
    then have "evict_oldest f b k m = m" by (auto simp: evict_oldest_def)
    with False assms show ?thesis by (auto simp: length_update)
  qed
qed

lemma observe_transport_loss_ok:
  assumes "observe_transport_loss s t ws = (ws', obs)" "map_wf ws" "length ws \<le> MAX_TRANSPORT_LOSS_WINDOWS"
  shows "map_wf ws'" and "length ws' \<le> MAX_TRANSPORT_LOSS_WINDOWS"
proof -
  define k where "k = \<lparr>lk_display = ls_display s, lk_stream_id = ls_stream_id s\<rparr>"
  define w where "w = filter (\<lambda>(e, _). lk_display e \<noteq> ls_display s \<or> lk_stream_id e = ls_stream_id s) ws"
  have w: "map_wf w" "length w \<le> MAX_TRANSPORT_LOSS_WINDOWS"
    using assms(2) le_trans [OF length_filter_le assms(3)] by (auto simp: w_def alist_simps)
  have p: "0 < MAX_TRANSPORT_LOSS_WINDOWS" by (simp add: MAX_TRANSPORT_LOSS_WINDOWS_def)
  have "ws' = w \<or> (\<exists>v. ws' = AList.update k v (evict_oldest lw_updated_at MAX_TRANSPORT_LOSS_WINDOWS k w))"
    using assms(1) unfolding observe_transport_loss_def Let_def k_def [symmetric] w_def [symmetric]
    by (auto split: if_splits)
  then show "map_wf ws'" "length ws' \<le> MAX_TRANSPORT_LOSS_WINDOWS"
    using w evict_oldest_ok [OF w p] by (auto simp: alist_simps)
qed

lemma user_ok_observe_admission [intro]: "user_ok u \<Longrightarrow> user_ok (observe_admission n s t u)"
  using evict_oldest_ok [of "datagram_admission_by_service u" MAX_DATAGRAM_ADMISSION_SERVICES]
  by (auto simp: user_ok_def observe_admission_def Let_def alist_simps MAX_DATAGRAM_ADMISSION_SERVICES_def)

section \<open>Admission of datagrams\<close>

lemma display_ok_pressured [intro]: "display_ok d \<Longrightarrow> display_ok (fst (pressured_display t d))"
  by (auto simp: pressured_display_def Let_def display_ok_def)

lemma pressured_reductions:
  "snd (pressured_display t d) \<Longrightarrow> admission_ratio_reductions (fst (pressured_display t d)) < DATAGRAM_ADMISSION_MAX_RATIO_REDUCTIONS"
  by (auto simp: pressured_display_def Let_def split: if_splits)

lemma display_ok_unpressured [intro]: "display_ok d \<Longrightarrow> display_ok (unpressured_display cl t d)"
  by (auto simp: unpressured_display_def Let_def display_ok_def)

lemma episode_keeps_admission [simp]:
  "admission_ratio_reductions (before_reduction t fz d) = admission_ratio_reductions d"
  "admission_ratio_reductions (fst (touch_custom_congestion_episode c t d)) = admission_ratio_reductions d"
  by (auto simp: before_reduction_def freeze_until_def touch_custom_congestion_episode_def
        expire_custom_congestion_episode_def clear_custom_congestion_episode_def Let_def)

lemma reduce_keeps_admission:
  assumes "reduce_display c t src fz d = (d', r)"
  shows "admission_ratio_reductions d' = admission_ratio_reductions d"
  using assms
proof (cases rule: reduce_display_cases)
  case (reduced d3 fl nx)
  have "admission_ratio_reductions d3 = admission_ratio_reductions d"
    using arg_cong [OF reduced(2), of "\<lambda>p. admission_ratio_reductions (fst p)"] by simp
  then show ?thesis unfolding reduced(7) by simp
qed auto

lemma reduce_ratio_keeps_admission:
  assumes "reduce_ratio_for_congestion n t src fz q = (q', r)" "map_of (displays q) n = Some d"
  shows "\<exists>d'. map_of (displays q') n = Some d' \<and> admission_ratio_reductions d' = admission_ratio_reductions d"
proof (cases "in_vbr_state n q")
  case True
  obtain d' r' where e: "reduce_display (latest_quality n q) t src fz d = (d', r')" by force
  show ?thesis using assms True reduce_keeps_admission [OF e]
    by (auto simp: reduce_ratio_for_congestion_def e alist_simps)
qed (use assms in \<open>simp add: reduce_ratio_for_congestion_def\<close>)

lemma qos_ok_count_reduction:
  assumes "qos_ok q1" "map_of (displays q1) n = Some d1"
    and "admission_ratio_reductions d1 < DATAGRAM_ADMISSION_MAX_RATIO_REDUCTIONS"
    and r: "reduce_ratio_for_congestion n t src fz q1 = (q2, r)"
  shows "qos_ok (on_display n count_reduction q2)"
proof (rule qos_ok_on_display)
  show "qos_ok q2" by (rule qos_ok_reduce [OF r assms(1)])
  fix d
  assume d: "display_ok d" "map_of (displays q2) n = Some d"
  with reduce_ratio_keeps_admission [OF r assms(2)] have "admission_ratio_reductions d = admission_ratio_reductions d1" by auto
  with assms(3) d(1) show "display_ok (count_reduction d)"
    by (simp add: display_ok_def sat_add_def count_reduction_def)
qed

text \<open>One sample of the sender, as the change of the display and the reduction that follows.\<close>

lemma user_datagram_admission_cases:
  assumes "user_datagram_admission_at i n s t q0 = (q', r)"
  obtains (standard) "\<not> full_movie_mode n q0" "q' = clear_datagram_admission_for_display n q0" "\<not> r"
  | (unknown) "q' = q0" "\<not> r"
  | (no_display) "q' = on_user i (observe_admission n s t) q0" "\<not> r"
  | (observed) q d d1 where "q = on_user i (observe_admission n s t) q0" "map_of (displays q) n = Some d"
      "d1 = fst (pressured_display t d) \<or> (\<exists>cl. d1 = unpressured_display cl t d)"
      "q' = q\<lparr>displays := AList.update n d1 (displays q)\<rparr>" "\<not> r"
  | (reduced) q d q2 r2 where "q = on_user i (observe_admission n s t) q0" "map_of (displays q) n = Some d"
      "snd (pressured_display t d)"
      "reduce_ratio_for_congestion n t ''sender-admission'' True
         (q\<lparr>displays := AList.update n (fst (pressured_display t d)) (displays q)\<rparr>) = (q2, r2)"
      "q' = (if r2 then on_display n count_reduction q2
             else q2)" "r = r2"
proof -
  let ?q = "on_user i (observe_admission n s t) q0"
  consider "\<not> full_movie_mode n q0" | "full_movie_mode n q0" "map_of (users q0) i = None"
    | "full_movie_mode n q0" "map_of (users q0) i \<noteq> None" "map_of (displays ?q) n = None"
    | d where "full_movie_mode n q0" "map_of (users q0) i \<noteq> None" "map_of (displays ?q) n = Some d"
    by (cases "map_of (displays ?q) n") blast+
  then show thesis
  proof cases
    case 1
    with assms standard show thesis by (simp add: user_datagram_admission_at_def)
  next
    case 2
    with assms unknown show thesis by (simp add: user_datagram_admission_at_def)
  next
    case 3
    with assms no_display show thesis by (simp add: user_datagram_admission_at_def Let_def)
  next
    case (4 d)
    obtain d1 sr where dr: "admission_change n t ?q d = (d1, sr)" by force
    let ?q1 = "?q\<lparr>displays := AList.update n d1 (displays ?q)\<rparr>"
    obtain q2 r2 where rr: "reduce_ratio_for_congestion n t ''sender-admission'' True ?q1 = (q2, r2)" by force
    have "user_datagram_admission_at i n s t q0
      = (if \<not> sr then (?q1, False) else if \<not> r2 then (q2, False) else (on_display n count_reduction q2, True))"
      using 4 by (auto simp: user_datagram_admission_at_def dr rr Let_def)
    note main = this [unfolded assms]
    show thesis
    proof (cases sr)
      case True
      then have "d1 = fst (pressured_display t d)" "snd (pressured_display t d)"
        using dr by (auto simp: admission_change_def Let_def split: if_splits)
      with main True rr 4 reduced [of ?q d q2 r2] show thesis by (auto split: if_splits)
    next
      case False
      then have "d1 = fst (pressured_display t d) \<or> (\<exists>cl. d1 = unpressured_display cl t d)"
        using dr by (auto simp: admission_change_def Let_def split: if_splits)
      with main False 4 observed [of ?q d d1] show thesis by simp
    qed
  qed
qed

lemma qos_ok_admission:
  assumes "user_datagram_admission_at i n s t q0 = (q', r)" "qos_ok q0"
  shows "qos_ok q'"
  using assms(1)
proof (cases rule: user_datagram_admission_cases)
  case (observed q d d1)
  have q: "qos_ok q" using assms(2) observed(1) by auto
  then have "display_ok d1" using observed(2,3) qos_ok_display by auto
  with q observed(4) show ?thesis by (simp add: qos_ok_set_display)
next
  case (reduced q d q2 r2)
  let ?q1 = "q\<lparr>displays := AList.update n (fst (pressured_display t d)) (displays q)\<rparr>"
  have q: "qos_ok q" using assms(2) reduced(1) by auto
  then have q1: "qos_ok ?q1" using reduced(2) qos_ok_display by (auto intro!: qos_ok_set_display)
  have "map_of (displays ?q1) n = Some (fst (pressured_display t d))" by (simp add: alist_simps)
  from qos_ok_count_reduction [OF q1 this pressured_reductions [OF reduced(3)] reduced(4)] qos_ok_reduce [OF reduced(4) q1]
  show ?thesis using reduced(5) by simp
qed (use assms(2) in auto)

lemma qos_ok_admission_user:
  "qos_ok q \<Longrightarrow> qos_ok (fst (user_datagram_admission_for_user_at i s t q))"
proof -
  let ?f = "\<lambda>n (q', k). case user_datagram_admission_at i n s t q' of (q'', acted) \<Rightarrow> (q'', if acted then Suc k else k)"
  have "qos_ok (fst acc) \<Longrightarrow> qos_ok (fst (fold ?f ns acc))" for ns acc
  proof (induction ns arbitrary: acc)
    case (Cons n ns)
    obtain q' r where e: "user_datagram_admission_at i n s t (fst acc) = (q', r)" by force
    have f: "?f n acc = (q', if r then Suc (snd acc) else snd acc)" by (cases acc) (use e in simp)
    have "qos_ok (fst (?f n acc))" unfolding f using qos_ok_admission [OF e Cons.prems] by simp
    from Cons.IH [OF this] show ?case by simp
  qed simp
  then show "qos_ok q \<Longrightarrow> ?thesis" by (simp add: user_datagram_admission_for_user_at_def)
qed

section \<open>Operations of the users\<close>

lemma delay_ok_default [simp]: "delay_ok UserDelay_default"
  by (simp add: delay_ok_def UserDelay_default_def RttCalculator_default_def)

lemma user_ok_default [simp]: "user_ok UserData_default"
  by (simp add: user_ok_def UserData_default_def)

lemma display_ok_default [simp]: "display_ok (DisplayData_default t)"
  by (simp add: display_ok_def DisplayData_default_def ratio_ok_def BR_values)

lemma add_delay_ok:
  assumes "delay_ok u"
  shows "delay_ok (add_delay ms u)"
proof -
  have "length (samples (Rtt_update ms r)) \<le> WINDOW_SAMPLES" if "length (samples r) \<le> WINDOW_SAMPLES" for r
    using that by (auto simp: Rtt_update_def Let_def WINDOW_SAMPLES_def)
  then show ?thesis using assms by (auto simp: delay_ok_def add_delay_def HISTORY_DELAY_LEN_def)
qed

lemma measured_delay_ok:
  assumes "delay_ok u" "fps_ok h"
  shows "delay_ok (measured_delay mn nm h ms u)"
  using add_delay_ok [OF assms(1), of "max ms 10"] fps_ok_clamp_highest [OF assms(2)]
  by (simp add: measured_delay_def Let_def case_prod_beta delay_ok_def)

lemma user_ok_delay: "user_ok u \<Longrightarrow> delay_ok d \<Longrightarrow> user_ok (u\<lparr>delay := d\<rparr>)"
  by (simp add: user_ok_def)

lemma user_ok_startup [simp]: "user_ok (u\<lparr>video_startup_by_service := x\<rparr>) = user_ok u"
  by (simp add: user_ok_def)

lemma user_ok_flags [simp]:
  "user_ok (u\<lparr>video_feedback_capable := b\<rparr>) = user_ok u" "user_ok (u\<lparr>movie_transport_capable := b\<rparr>) = user_ok u"
  "user_ok (u\<lparr>user_recording := b\<rparr>) = user_ok u" "user_ok (u\<lparr>video_profile := p\<rparr>) = user_ok u"
  "user_ok (u\<lparr>transport_loss_upshift_frozen_until := x\<rparr>) = user_ok u" "user_ok (u\<lparr>last_transport_loss_at := y\<rparr>) = user_ok u"
  by (simp_all add: user_ok_def)

lemma user_ok_reset_startups [simp]: "user_ok (reset_startups t u) = user_ok u"
  by (simp add: reset_startups_def)

lemma user_ok_reset_adaptive: "user_ok u \<Longrightarrow> user_ok (reset_adaptive t u)"
  by (simp add: reset_adaptive_def) (simp add: user_ok_def)

lemma user_ok_windows:
  "user_ok u \<Longrightarrow> map_wf ws \<Longrightarrow> length ws \<le> MAX_TRANSPORT_LOSS_WINDOWS \<Longrightarrow> user_ok (u\<lparr>transport_loss_windows := ws\<rparr>)"
  by (simp add: user_ok_def)

lemma user_ok_first_rendered: "user_ok u \<Longrightarrow> fps_ok h \<Longrightarrow> user_ok (first_rendered h st n u)"
  by (auto simp: first_rendered_def Let_def user_ok_def delay_ok_def)

lemma user_ok_loss_backoff:
  assumes "user_ok u" "fps_ok h"
  shows "user_ok (loss_backoff h t u)"
proof -
  have "delay_ok (delay u)" using assms(1) by (simp add: user_ok_def)
  then have "delay_ok ((delay u)\<lparr>quick_increase_fps_count := 0, increase_fps_count := 0, delay_fps := Some (clamp MIN_FPS h x)\<rparr>)"
    for x using assms(2) by (simp add: delay_ok_def fps_ok_clamp_highest)
  then show ?thesis using assms(1) unfolding loss_backoff_def Let_def by (simp add: user_ok_def)
qed

lemma user_ok_fps [intro]:
  "user_ok u \<Longrightarrow> fps_ok f \<Longrightarrow> user_ok (u\<lparr>custom_fps := Some f, fixed_fps := None\<rparr>)"
  "user_ok u \<Longrightarrow> fps_ok f \<Longrightarrow> user_ok (u\<lparr>custom_fps := Some f, fixed_fps := Some f\<rparr>)"
  "user_ok u \<Longrightarrow> fps_ok f \<Longrightarrow> user_ok (u\<lparr>auto_adjust_fps := Some f\<rparr>)"
  "user_ok u \<Longrightarrow> user_ok (u\<lparr>custom_fps := None, fixed_fps := None, auto_adjust_fps := None\<rparr>)"
  by (simp_all add: user_ok_def)

lemma convert_quality_ok [simp]: "quality_ok (convert_quality iq x)"
proof -
  have "BR_MIN \<le> BR_MAX" by (simp add: BR_values)
  then show ?thesis by (simp add: convert_quality_def quality_ok_def)
qed

lemma user_ok_quality: "user_ok u \<Longrightarrow> quality_ok c \<Longrightarrow> user_ok (u\<lparr>quality := Some (time, c)\<rparr>)"
  by (simp add: user_ok_def)

lemma user_ok_feedback:
  assumes "user_ok u" "k \<in> fst ` set (movie_feedback_by_display u) \<or> length (movie_feedback_by_display u) < MAX_MOVIE_FEEDBACK_DISPLAYS"
  shows "user_ok (u\<lparr>movie_feedback_by_display := AList.update k v (movie_feedback_by_display u)\<rparr>)"
  using assms by (auto simp: user_ok_def alist_simps)

lemma qos_ok_user_image_quality [intro]:
  assumes "qos_ok q"
  shows "qos_ok (user_image_quality iq i x time q)"
proof -
  have "qos_ok (apply_latest_quality ch n q')" if "qos_ok q'" for ch n q'
    unfolding apply_latest_quality_def Let_def using that ratio_ok_quality [OF latest_quality_ok [OF that]]
    by (auto intro!: qos_ok_on_display simp: display_ok_def clear_custom_congestion_episode_def)
  then show ?thesis unfolding user_image_quality_def Let_def
    using assms by (auto split: option.splits intro!: qos_ok_fold qos_ok_on_user user_ok_quality)
qed

lemma user_ok_video_feedback:
  assumes "user_ok u"
  shows "user_ok (case map_of (video_startup_by_service u) n of
        None \<Rightarrow> u
      | Some st0 \<Rightarrow>
          let (st, current) = Startup_begin_stream (vf_stream_id fb) t st0;
              u1 = u\<lparr>video_startup_by_service := AList.update n st (video_startup_by_service u)\<rparr>
          in if \<not> current then u1
             else if video_profile u \<noteq> Movie then u1
             else if \<not> contains_key (movie_feedback_by_display u) (vf_display fb)
                     \<and> length (movie_feedback_by_display u) \<ge> MAX_MOVIE_FEEDBACK_DISPLAYS then u1
             else u1\<lparr>movie_feedback_by_display :=
                    AList.update (vf_display fb) ((vf_metrics fb)\<lparr>mv_updated_at := Some t\<rparr>) (movie_feedback_by_display u)\<rparr>)"
proof -
  have "user_ok (u\<lparr>video_startup_by_service := y, movie_feedback_by_display := AList.update k v (movie_feedback_by_display u)\<rparr>)"
    if "k \<in> fst ` set (movie_feedback_by_display u) \<or> length (movie_feedback_by_display u) < MAX_MOVIE_FEEDBACK_DISPLAYS" for y k v
    using user_ok_feedback [of "u\<lparr>video_startup_by_service := y\<rparr>" k v] assms that by simp
  then show ?thesis using assms by (auto simp: Let_def case_prod_beta not_le split: option.splits)
qed

lemma qos_ok_frame_rendered:
  "user_video_frame_rendered_for_service i n stream t q = (q', r) \<Longrightarrow> qos_ok q \<Longrightarrow> qos_ok q'"
  unfolding user_video_frame_rendered_for_service_def Let_def
  by (auto split: option.splits if_splits intro!: qos_ok_adjust_fps qos_ok_on_user user_ok_first_rendered)

lemma qos_ok_network_delay [intro]:
  assumes "qos_ok q"
  shows "qos_ok (user_network_delay linux i ms t q)"
proof -
  have "user_ok u \<Longrightarrow> user_ok (u\<lparr>delay := measured_delay mn nm (user_requested_fps i q) ms (delay u)\<rparr>)" for u mn nm
    by (intro user_ok_delay measured_delay_ok) (simp_all add: user_ok_def)
  then have "qos_ok (on_user i (\<lambda>u. u\<lparr>delay := measured_delay mn nm (user_requested_fps i q) ms (delay u)\<rparr>) q)" for mn nm
    using assms by blast
  then show ?thesis unfolding user_network_delay_def Let_def case_prod_beta
    by (auto intro!: qos_ok_fold)
qed

lemma freeze_services_ok:
  assumes "freeze_services ns t u = (u', fr)" "user_ok u"
  shows "user_ok u'"
proof -
  let ?f = "\<lambda>n (u', frozen).
      (u'\<lparr>transport_loss_upshift_frozen_until :=
           AList.update n (t + DATAGRAM_ADMISSION_UPSHIFT_FREEZE) (transport_loss_upshift_frozen_until u')\<rparr>,
       if is_some_and (map_of (transport_loss_upshift_frozen_until u') n) (\<lambda>current. t < current)
       then frozen @ [n] else frozen)"
  have "user_ok (fst acc) \<Longrightarrow> user_ok (fst (fold ?f ns acc))" for acc
    by (induction ns arbitrary: acc) (simp_all add: case_prod_beta)
  from this [of "(u, [])"] show ?thesis using assms by (simp add: freeze_services_def)
qed

lemma qos_ok_recurrence:
  "qos_ok (fst acc) \<Longrightarrow> qos_ok (fst (recurrence_reduction t n acc))"
  by (auto simp: recurrence_reduction_def case_prod_beta)

lemma qos_ok_touch_service: "qos_ok q \<Longrightarrow> qos_ok (touch_service t n q)"
  by (auto simp: touch_service_def Let_def)

lemma qos_ok_custom_loss:
  assumes "qos_ok q" "user_ok u"
  shows "qos_ok (fst (custom_transport_loss i u ns t q))"
proof -
  obtain u1 fr where f: "freeze_services ns t u = (u1, fr)" by force
  define q2 where "q2 = fold (touch_service t) (filter (\<lambda>n. n \<notin> set fr) ns) (on_user i (\<lambda>_. u1) q)"
  have "qos_ok q2" unfolding q2_def
    using assms freeze_services_ok [OF f] by (auto intro!: qos_ok_fold qos_ok_touch_service)
  moreover have "qos_ok (fst acc) \<Longrightarrow> qos_ok (fst (fold (recurrence_reduction t) xs acc))" for xs acc
    by (induction xs arbitrary: acc) (simp_all add: qos_ok_recurrence)
  ultimately show ?thesis
    by (simp add: custom_transport_loss_def f Let_def case_prod_beta q2_def)
qed

lemma qos_ok_set_user: "qos_ok q \<Longrightarrow> user_ok u \<Longrightarrow> qos_ok (on_user i (\<lambda>_. u) q)"
  by (rule qos_ok_on_user)

lemma qos_ok_transport_loss:
  assumes "qos_ok q"
  shows "qos_ok (fst (user_transport_loss_at i s t q))"
proof (cases "ls_dropped_frames s = 0 \<or> map_of (users q) i = None")
  case False
  then obtain u where u: "map_of (users q) i = Some u" by auto
  have uk: "user_ok u" by (rule qos_ok_user [OF assms u])
  obtain ws obs where o: "observe_transport_loss s t (transport_loss_windows u) = (ws, obs)" by force
  have ws: "map_wf ws" "length ws \<le> MAX_TRANSPORT_LOSS_WINDOWS"
    using observe_transport_loss_ok [OF o] uk by (auto simp: user_ok_def)
  define u1 where "u1 = u\<lparr>transport_loss_windows := ws\<rparr>"
  define u2 where "u2 = u1\<lparr>transport_loss_windows := AList.delete (obs_key obs) ws\<rparr>"
  have k: "user_ok u1" "user_ok u2"
    using ws le_trans [OF length_delete_le ws(2)] uk
    by (auto simp: u1_def u2_def map_wf_delete intro!: user_ok_windows)
  define q1 where "q1 = on_user i (\<lambda>_. u1) q"
  have q1: "qos_ok q1" unfolding q1_def by (rule qos_ok_set_user [OF assms k(1)])
  have q2: "qos_ok (fold (\<lambda>n q'. fst (reduce_ratio_for_congestion n t ''transport-loss'' False (adjust_fps_at n t q')))
      ns (on_user i (\<lambda>_. loss_backoff (user_requested_fps i q1) t u2) q1))" for ns
    by (intro qos_ok_fold qos_ok_reduce_fst qos_ok_adjust_fps qos_ok_set_user [OF q1] user_ok_loss_backoff [OF k(2)])
       simp_all
  show ?thesis
    using False q1 q2 qos_ok_custom_loss [OF q1 k(1)] qos_ok_set_user [OF q1 k(2)]
    unfolding user_transport_loss_at_def Let_def
    by (simp add: u o u1_def [symmetric] u2_def [symmetric] q1_def [symmetric])
qed (use assms in \<open>auto simp: user_transport_loss_at_def\<close>)

lemma qos_ok_response_elapsed [intro]:
  assumes "qos_ok q"
  shows "qos_ok (user_delay_response_elapsed i e t q)"
proof -
  have "delay_ok (d\<lparr>response_delayed := b\<rparr>) = delay_ok d" for d b by (simp add: delay_ok_def)
  then show ?thesis unfolding user_delay_response_elapsed_def Let_def using assms
    by (auto intro!: qos_ok_adjust_displays qos_ok_on_user user_ok_delay add_delay_ok simp: user_ok_def)
qed

lemma qos_ok_sync [intro]:
  assumes "qos_ok q"
  shows "qos_ok (sync_subscribers n subs t q)"
proof -
  have "qos_ok (on_display n (\<lambda>d. d\<lparr>subscribers := subs\<rparr>) q)" using assms by (auto simp: display_ok_def)
  then show ?thesis unfolding sync_subscribers_def Let_def
    by (auto intro!: qos_ok_adjust_fps qos_ok_clear_unless qos_ok_fold)
qed

lemma qos_ok_update_display [intro]:
  assumes "qos_ok q"
  shows "qos_ok (update_display_data n k t q)"
proof -
  define q1 where "q1 = adjust_fps_at n t q"
  have q1: "qos_ok q1" unfolding q1_def using assms by auto
  have c: "qos_ok (on_display n (\<lambda>d. d\<lparr>send_counter := x\<rparr>) q1)" for x using q1 by (auto simp: display_ok_def)
  have r: "qos_ok (on_display n (\<lambda>d. d\<lparr>ratio := quality_ratio (latest_quality n q1)\<rparr>) q1)"
    using q1 ratio_ok_quality [OF latest_quality_ok [OF q1]] by (auto simp: display_ok_def)
  show ?thesis unfolding update_display_data_def Let_def q1_def [symmetric]
    using q1 c r by (auto split: option.splits)
qed

lemma qos_ok_close [intro]: "qos_ok q \<Longrightarrow> qos_ok (on_connection_close i t q)"
proof -
  assume "qos_ok q"
  then have "qos_ok (q\<lparr>users := AList.delete i (users q)\<rparr>)" by (auto simp: qos_ok_def alist_simps)
  moreover have "display_ok (d\<lparr>subscribers := x\<rparr>) = display_ok d" for d x by (simp add: display_ok_def)
  ultimately show ?thesis unfolding on_connection_close_def
    by (intro qos_ok_fold qos_ok_adjust_fps qos_ok_clear_unless qos_ok_on_display) simp_all
qed

lemma qos_ok_pressure_poll: "qos_ok q \<Longrightarrow> qos_ok (fst (movie_admission_pressure_at n t q))"
proof (cases "map_of (displays q) n")
  case (Some d)
  assume q: "qos_ok q"
  define f where "f = (\<lambda>(i :: int, u :: UserData). (i, u\<lparr>datagram_admission_by_service := AList.delete n (datagram_admission_by_service u)\<rparr>))"
  define d1 where "d1 = (if is_some_and (admission_latched_at d) (\<lambda>l. since t l \<ge> DATAGRAM_ADMISSION_CLEAN_RESET * 2)
                    then clear_admission d else d)"
  have d1: "display_ok d1" using qos_ok_display [OF q Some] by (auto simp: d1_def)
  have "user_ok (u\<lparr>datagram_admission_by_service := AList.delete n (datagram_admission_by_service u)\<rparr>)" if "user_ok u" for u
    using that le_trans [OF length_delete_le] by (auto simp: user_ok_def alist_simps)
  then have us: "\<forall>p \<in> set (map f (users q)). user_ok (snd p)" using q by (auto simp: f_def qos_ok_def)
  have "map fst (map f (users q)) = map fst (users q)" by (simp add: f_def case_prod_beta)
  then have wf: "map_wf (map f (users q))" using q by (simp only: qos_ok_def)
  have "fst (movie_admission_pressure_at n t q) = q\<lparr>displays := AList.update n d1 (displays q), users := map f (users q)\<rparr>"
    by (simp add: movie_admission_pressure_at_def Some d1_def f_def Let_def)
  then show ?thesis using qos_ok_set_display [OF q d1, of n] us wf by (simp add: qos_ok_def)
qed (simp add: movie_admission_pressure_at_def)

section \<open>Runs of the controller\<close>

text \<open>One call of the controller, with any arguments and at any time.\<close>

inductive qos_step :: "VideoQoS \<Rightarrow> VideoQoS \<Rightarrow> bool" where
  opened: "qos_step q (on_connection_open i abr q)"
| closed: "qos_step q (on_connection_close i t q)"
| custom: "qos_step q (user_custom_fps i f t q)"
| fixed: "qos_step q (user_fixed_fps i f t q)"
| profile: "qos_step q (user_video_profile i p t q)"
| transport: "qos_step q (user_movie_transport_capability i b q)"
| feedback: "qos_step q (user_video_feedback i n fb t q)"
| auto_fps: "qos_step q (user_auto_adjust_fps i f t q)"
| image: "qos_step q (user_image_quality iq i x time q)"
| preset: "qos_step q (user_preset_image_quality iq i x time t q)"
| recording: "qos_step q (user_record i b q)"
| capability: "qos_step q (user_video_feedback_capability i b t q)"
| rendered: "user_video_frame_rendered_for_service i n stream t q = (q', r) \<Longrightarrow> qos_step q q'"
| loss: "user_transport_loss_at i s t q = (q', r) \<Longrightarrow> qos_step q q'"
| admission: "user_datagram_admission_for_user_at i a t q = (q', k) \<Longrightarrow> qos_step q q'"
| network: "qos_step q (user_network_delay linux i ms t q)"
| response: "qos_step q (user_delay_response_elapsed i e t q)"
| created: "qos_step q (new_display n t q)"
| removed: "qos_step q (remove_display n q)"
| synced: "qos_step q (sync_subscribers n subs t q)"
| updated: "qos_step q (update_display_data n k t q)"
| stored_bitrate: "qos_step q (store_bitrate n b q)"
| stored_pipeline: "qos_step q (store_pipeline_status n x y z q)"
| stored_frame: "store_capture_frame n x q = (q', r) \<Longrightarrow> qos_step q q'"
| stored_movie: "qos_step q (store_movie_runtime_status n target pacing p95 q)"
| polled: "movie_admission_pressure_at n t q = (q', r) \<Longrightarrow> qos_step q q'"
| read_ratio: "qos_ratio n t q = (q', x) \<Longrightarrow> qos_step q q'"
| support: "qos_step q (set_support_changing_quality n b q)"

lemma qos_ok_misc [intro]:
  assumes "qos_ok q"
  shows "qos_ok (on_connection_open i abr q)" "qos_ok (user_custom_fps i f t q)" "qos_ok (user_fixed_fps i f t q)"
    "qos_ok (user_auto_adjust_fps i f t q)" "qos_ok (user_record i b q)" "qos_ok (new_display n t q)"
    "qos_ok (remove_display n q)" "qos_ok (user_movie_transport_capability i b q)"
    "qos_ok (user_preset_image_quality iq i x time t q)"
proof -
  show "qos_ok (on_connection_open i abr q)" using assms by (auto simp: on_connection_open_def qos_ok_def alist_simps)
  show "qos_ok (user_custom_fps i f t q)" "qos_ok (user_fixed_fps i f t q)" "qos_ok (user_auto_adjust_fps i f t q)"
    using assms unfolding user_custom_fps_def user_fixed_fps_def user_auto_adjust_fps_def
    by (auto intro!: qos_ok_adjust_displays qos_ok_on_user user_ok_fps simp: fps_ok_def [of f])
  show "qos_ok (user_record i b q)" using assms by (auto simp: user_record_def)
  show "qos_ok (new_display n t q)" using assms by (simp add: new_display_def qos_ok_set_display)
  show "qos_ok (remove_display n q)" using assms by (auto simp: remove_display_def qos_ok_def alist_simps)
  show "qos_ok (user_movie_transport_capability i b q)" using assms
    unfolding user_movie_transport_capability_def Let_def by (simp add: qos_ok_on_user qos_ok_clear_user)
  show "qos_ok (user_preset_image_quality iq i x time t q)" using assms
    unfolding user_preset_image_quality_def by (auto intro!: qos_ok_adjust_displays qos_ok_user_image_quality qos_ok_on_user)
qed

lemma qos_ok_profile [intro]:
  assumes "qos_ok q"
  shows "qos_ok (user_video_profile i p t q)" "qos_ok (user_video_feedback_capability i b t q)"
    "qos_ok (user_video_feedback i n fb t q)"
proof -
  show "qos_ok (user_video_profile i p t q)" using assms unfolding user_video_profile_def
    by (auto split: option.splits intro!: qos_ok_adjust_displays qos_ok_clear_user qos_ok_on_user user_ok_reset_adaptive)
  have "qos_ok (on_user i (\<lambda>u. let u1 = u\<lparr>video_feedback_capable := b\<rparr> in if b then u1 else reset_startups t u1) q)"
    using assms by (auto simp: Let_def)
  then show "qos_ok (user_video_feedback_capability i b t q)"
    unfolding user_video_feedback_capability_def Let_def by (auto intro!: qos_ok_adjust_displays qos_ok_clear_user)
  show "qos_ok (user_video_feedback i n fb t q)" unfolding user_video_feedback_def
    by (rule qos_ok_on_user [OF assms]) (rule user_ok_video_feedback)
qed

lemma qos_ok_status [intro]:
  assumes "qos_ok q"
  shows "qos_ok (store_bitrate n b q)" "qos_ok (store_pipeline_status n x y z q)"
    "qos_ok (fst (store_capture_frame n x q))" "qos_ok (store_movie_runtime_status n tg pc p95 q)"
    "qos_ok (fst (qos_ratio n t q))" "qos_ok (set_support_changing_quality n b' q)"
proof -
  show "qos_ok (store_bitrate n b q)" "qos_ok (store_pipeline_status n x y z q)" "qos_ok (set_support_changing_quality n b' q)"
    using assms unfolding store_bitrate_def store_pipeline_status_def set_support_changing_quality_def
    by (auto simp: display_ok_def)
  show "qos_ok (fst (store_capture_frame n x q))" using assms
    by (auto simp: store_capture_frame_def display_ok_def split: option.splits)
  show "qos_ok (store_movie_runtime_status n tg pc p95 q)" using assms
    unfolding store_movie_runtime_status_def by (auto simp: display_ok_def)
  show "qos_ok (fst (qos_ratio n t q))" using assms qos_ok_display [OF assms, of n]
    by (auto simp: qos_ratio_def Let_def display_ok_def ratio_ok_def split: option.splits)
qed

lemma qos_step_ok: "qos_ok q \<Longrightarrow> qos_step q q' \<Longrightarrow> qos_ok q'"
proof (erule qos_step.cases, goal_cases)
  case 13
  then show ?case using qos_ok_frame_rendered by blast
next
  case (14 i s t q q' r)
  then show ?case using qos_ok_transport_loss [of q i s t] by simp
next
  case (15 i a t q q' k)
  then show ?case using qos_ok_admission_user [of q i a t] by simp
next
  case (24 n x q q' r)
  then show ?case using qos_ok_status(3) [of q n x] by simp
next
  case (26 n t q q' r)
  then show ?case using qos_ok_pressure_poll [of q n t] by simp
next
  case (27 n t q q' x)
  then show ?case using qos_ok_status(5) [of q n t] by simp
qed auto

lemma qos_ok_default: "qos_ok VideoQoS_default"
  by (simp add: qos_ok_def VideoQoS_default_def)

interpretation qos: invariant_machine "\<lambda>q. q = VideoQoS_default" qos_step qos_ok
  by unfold_locales (simp_all add: qos_ok_default qos_step_ok)

section \<open>Properties\<close>

text \<open>
  C23. After every sequence of calls, each display has a frame rate from 1 to 120 and a ratio from 0.1 to 40,
  at most four reductions for sender pressure and three for repeated loss in an episode; the getters return
  these values and never fall back to a default. No user has more than sixteen loss windows, admission
  states or feedbacks. The computed limits given to \<open>clamp\<close>, which panics on reversed limits, are in order: the
  highest rate is at least the lowest, 1, and for the latest requested quality, whatever the floor of the congestion
  episode is, the two limits of the ratio satisfy 0.1 <= lower <= upper <= 40.
\<close>

theorem qos_ranges_kept:
  assumes "qos_step\<^sup>*\<^sup>* VideoQoS_default q"
  shows "(\<forall>d. map_of (displays q) n = Some d \<longrightarrow>
            1 \<le> fps d \<and> fps d \<le> 120 \<and> f32 (1 / 10) \<le> ratio d \<and> ratio d \<le> 40
            \<and> admission_ratio_reductions d \<le> 4 \<and> congestion_episode_transport_reductions d \<le> 3
            \<and> qos_fps n q = fps d
            \<and> (\<forall>floor0. f32 (1 / 10) \<le> fst (ratio_limits (latest_quality n q) floor0 d)
                 \<and> fst (ratio_limits (latest_quality n q) floor0 d) \<le> snd (ratio_limits (latest_quality n q) floor0 d)
                 \<and> snd (ratio_limits (latest_quality n q) floor0 d) \<le> 40)
            \<and> snd (qos_ratio n t q) = (if startup_safe_mode n t q then min (ratio d) STARTUP_SAFE_RATIO else ratio d))
    \<and> (\<forall>u. map_of (users q) i = Some u \<longrightarrow>
            length (transport_loss_windows u) \<le> 16 \<and> length (datagram_admission_by_service u) \<le> 16
            \<and> length (movie_feedback_by_display u) \<le> 16
            \<and> is_none_or (delay_fps (delay u)) (\<lambda>f. 1 \<le> f \<and> f \<le> 120))
    \<and> 1 \<le> highest_fps n q \<and> highest_fps n q \<le> 120 \<and> 1 \<le> user_requested_fps i q \<and> user_requested_fps i q \<le> 120"
proof -
  have q: "qos_ok q" by (rule qos.inv_reachable [OF refl assms])
  have d: "display_ok d" if "map_of (displays q) n = Some d" for d by (rule qos_ok_display [OF q that])
  have u: "user_ok u" if "map_of (users q) i = Some u" for u by (rule qos_ok_user [OF q that])
  have br: "BR_MIN_HIGH_RESOLUTION = f32 (1 / 10)" "BR_MAX = 40" by (simp_all add: BR_MIN_HIGH_RESOLUTION_def BR_values)
  have h: "fps_ok (highest_fps n q)" "fps_ok (user_requested_fps i q)" by simp_all
  have lim: "f32 (1 / 10) \<le> fst (ratio_limits (latest_quality n q) fl d) \<and>
      fst (ratio_limits (latest_quality n q) fl d) \<le> snd (ratio_limits (latest_quality n q) fl d)
      \<and> snd (ratio_limits (latest_quality n q) fl d) \<le> 40" for fl d
    using ratio_limits_ordered [OF latest_quality_ok [OF q, of n], of fl d] by (simp add: ratio_ok_def br)
  have r: "snd (qos_ratio n t q) = (if startup_safe_mode n t q then min (ratio d) STARTUP_SAFE_RATIO else ratio d)"
    if "map_of (displays q) n = Some d" for d
    using d [OF that] that by (auto simp: qos_ratio_def display_ok_def ratio_ok_def Let_def)
  show ?thesis
    by (intro conjI allI impI) (use d u h lim r in \<open>auto simp: display_ok_def fps_ok_def ratio_ok_def br fps_values user_ok_def delay_ok_def qos_fps_def
        DATAGRAM_ADMISSION_MAX_RATIO_REDUCTIONS_def CUSTOM_CONGESTION_MAX_TRANSPORT_REDUCTIONS_def
        MAX_TRANSPORT_LOSS_WINDOWS_def MAX_DATAGRAM_ADMISSION_SERVICES_def MAX_MOVIE_FEEDBACK_DISPLAYS_def
        is_none_or_iff\<close>)
qed

lemmas qos_eval = on_connection_open_def new_display_def sync_subscribers_def user_custom_fps_def user_fixed_fps_def
  user_network_delay_def user_video_feedback_capability_def user_video_feedback_def Startup_begin_stream_def
  user_video_frame_rendered_for_service_def first_rendered_def
  adjust_displays_for_user_def adjust_fps_at_def shared_fps_def paced_fps_def any_max_fps_def
  startup_safe_mode_def locked_fps_def highest_fps_def requested_fps_def user_requested_fps_def all_subscribers_def full_movie_mode_def
  subscribed_users_def display_names_for_user_def clear_unless_movie_def clear_datagram_admission_for_display_def
  clear_admission_def on_user_def on_display_def max_of_def clamp_def Startup_new_def
  VideoQoS_default_def UserData_default_def DisplayData_default_def UserDelay_default_def
  map_filter_simps is_some_and_def is_none_or_def unwrap_or_def fps_values Let_def STARTUP_SAFE_WINDOW_def from_secs_def since_def

definition qos_demo :: VideoQoS where
  "qos_demo =
     user_custom_fps 1 60 (from_secs 1)
       (sync_subscribers ''monitor0'' [1] 0 (new_display ''monitor0'' 0 (on_connection_open 1 True VideoQoS_default)))"

lemma qos_demo_reachable: "qos_step\<^sup>*\<^sup>* VideoQoS_default qos_demo"
  unfolding qos_demo_def
  by (rule rtranclp.rtrancl_into_rtrancl [OF rtranclp.rtrancl_into_rtrancl
        [OF rtranclp.rtrancl_into_rtrancl [OF r_into_rtranclp [of qos_step, OF opened] created] synced] custom])

theorem qos_ranges_kept_witness:
  "(let d = the (map_of (displays qos_demo) ''monitor0'') in fps d = 5 \<and> qos_fps ''monitor0'' qos_demo = fps d)
   \<and> highest_fps ''monitor0'' qos_demo \<le> 120"
proof -
  have "map_option fps (map_of (displays qos_demo) ''monitor0'') = Some 5" by (simp add: qos_demo_def qos_eval)
  then obtain d where "map_of (displays qos_demo) ''monitor0'' = Some d" "fps d = 5" by auto
  then show ?thesis using qos_ranges_kept [OF qos_demo_reachable, of "''monitor0''" 0 1] by (auto simp: Let_def)
qed

lemma touched_floor:
  assumes "is_custom c" "touch_custom_congestion_episode c t (before_reduction t fz d) = (d3, fl)"
  shows "\<exists>f. fl = Some f \<and> congestion_episode_floor_ratio d3 = Some f
           \<and> (case congestion_episode_floor_ratio (expire_custom_congestion_episode t d) of
                Some f0 \<Rightarrow> f = f0
              | None \<Rightarrow> f = max (f32 (ratio d * f32 (5 / 10))) (minimum_ratio_for_quality c (ratio d) (bitrate_store d)))"
proof -
  define x where "x = congestion_episode_floor_ratio (expire_custom_congestion_episode t d)"
  have "congestion_episode_floor_ratio (before_reduction t fz d) = x" by (simp add: before_reduction_def Let_def x_def)
  moreover define f0 where "f0 = (case x of Some f \<Rightarrow> f
    | None \<Rightarrow> max (f32 (ratio d * f32 (5 / 10))) (minimum_ratio_for_quality c (ratio d) (bitrate_store d)))"
  ultimately have "touch_custom_congestion_episode c t (before_reduction t fz d)
      = ((before_reduction t fz d)\<lparr>congestion_episode_floor_ratio := Some f0, congestion_episode_last_pressure_at := Some t\<rparr>, Some f0)"
    using assms(1) by (simp add: touch_custom_congestion_episode_def Let_def CUSTOM_CONGESTION_EPISODE_FLOOR_MULTIPLIER_def
        cong: option.case_cong)
  then show ?thesis using assms(2) unfolding x_def [symmetric] by (cases x) (auto simp: f0_def)
qed

text \<open>
  A reduction of the ratio after congestion touches one display only. It is at most a tenth, at least two
  seconds after the previous one, never below the minimum of the requested quality nor, for a custom quality,
  below the floor of the congestion episode, which is half of the ratio at its start or more and stays the
  same until the episode ends. Without a reduction the ratio and the time of the last one stay.
\<close>

theorem congestion_reduction_paced:
  assumes "reduce_ratio_for_congestion n t src fz q = (q', r)" and "map_of (displays q) n = Some d"
  shows "\<exists>d'. map_of (displays q') n = Some d' \<and> users q' = users q
     \<and> (\<forall>m. m \<noteq> n \<longrightarrow> map_of (displays q') m = map_of (displays q) m)
     \<and> (if r then in_vbr_state n q \<and> ratio d' < ratio d \<and> f32 (ratio d * f32 (9 / 10)) \<le> ratio d'
              \<and> minimum_ratio_for_quality (latest_quality n q) (ratio d) (bitrate_store d) \<le> ratio d'
              \<and> is_none_or (last_congestion_reduction_at d) (\<lambda>l. from_secs 2 \<le> since t l)
              \<and> last_congestion_reduction_at d' = Some t
              \<and> (is_custom (latest_quality n q) \<longrightarrow>
                  (\<exists>f. congestion_episode_floor_ratio d' = Some f \<and> f \<le> ratio d'
                     \<and> (case congestion_episode_floor_ratio (expire_custom_congestion_episode t d) of
                          Some f0 \<Rightarrow> f = f0 | None \<Rightarrow> f32 (ratio d * f32 (5 / 10)) \<le> f)))
        else ratio d' = ratio d \<and> last_congestion_reduction_at d' = last_congestion_reduction_at d)"
proof (cases "in_vbr_state n q")
  case True
  let ?c = "latest_quality n q"
  obtain d' r' where e: "reduce_display ?c t src fz d = (d', r')" by force
  then have q': "q' = q\<lparr>displays := AList.update n d' (displays q)\<rparr>" "r = r'"
    using assms True by (auto simp: reduce_ratio_for_congestion_def)
  have main: "if r then ratio d' < ratio d \<and> f32 (ratio d * f32 (9 / 10)) \<le> ratio d'
              \<and> minimum_ratio_for_quality ?c (ratio d) (bitrate_store d) \<le> ratio d'
              \<and> is_none_or (last_congestion_reduction_at d) (\<lambda>l. from_secs 2 \<le> since t l)
              \<and> last_congestion_reduction_at d' = Some t
              \<and> (is_custom ?c \<longrightarrow>
                  (\<exists>f. congestion_episode_floor_ratio d' = Some f \<and> f \<le> ratio d'
                     \<and> (case congestion_episode_floor_ratio (expire_custom_congestion_episode t d) of
                          Some f0 \<Rightarrow> f = f0 | None \<Rightarrow> f32 (ratio d * f32 (5 / 10)) \<le> f)))
        else ratio d' = ratio d \<and> last_congestion_reduction_at d' = last_congestion_reduction_at d"
    using e
  proof (cases rule: reduce_display_cases)
    case (reduced d3 fl nx)
    have nx: "nx = max (max (f32 (ratio d * f32 (9 / 10))) (minimum_ratio_for_quality ?c (ratio d) (bitrate_store d)))
              (unwrap_or fl (minimum_ratio_for_quality ?c (ratio d) (bitrate_store d)))"
      using reduced(3,4) by (auto simp: min_def split: if_splits)
    then have b: "f32 (ratio d * f32 (9 / 10)) \<le> nx" "minimum_ratio_for_quality ?c (ratio d) (bitrate_store d) \<le> nx"
      "unwrap_or fl (minimum_ratio_for_quality ?c (ratio d) (bitrate_store d)) \<le> nx" by auto
    have cool: "is_none_or (last_congestion_reduction_at d) (\<lambda>l. from_secs 2 \<le> since t l)"
      using reduced(5) by (simp add: DATAGRAM_ADMISSION_ACTION_COOLDOWN_def)
    have fl: "\<exists>f. congestion_episode_floor_ratio d' = Some f \<and> f \<le> nx
         \<and> (case congestion_episode_floor_ratio (expire_custom_congestion_episode t d) of
              Some f0 \<Rightarrow> f = f0 | None \<Rightarrow> f32 (ratio d * f32 (5 / 10)) \<le> f)" if "is_custom ?c"
      using touched_floor [OF that reduced(2)] b(3) unfolding reduced(7)
      by (auto simp: unwrap_or_def split: option.splits)
    have "ratio d' = nx" "last_congestion_reduction_at d' = Some t" unfolding reduced(7) by simp_all
    then show ?thesis using reduced(1,4) q'(2) b cool fl by simp
  qed (simp_all add: q'(2))
  show ?thesis using main True q' by (simp add: alist_simps)
qed (use assms in \<open>simp add: reduce_ratio_for_congestion_def\<close>)

definition qos_congested :: VideoQoS where
  "qos_congested = \<lparr>users = [(1, UserData_default\<lparr>quality := Some (0, Custom 1)\<rparr>)],
     displays = [(''monitor0'', (DisplayData_default 0)\<lparr>ratio := 1, subscribers := [1], support_changing_quality := True\<rparr>)],
     abr_config = True\<rparr>"

theorem congestion_reduction_paced_witness:
  "let (q', r) = reduce_ratio_for_congestion ''monitor0'' 5 ''transport-loss-recurrence'' False qos_congested
   in r \<and> (\<exists>d. map_of (displays q') ''monitor0'' = Some d \<and> ratio d < 1 \<and> f32 (5 / 10) \<le> ratio d
            \<and> last_congestion_reduction_at d = Some 5)"
proof -
  have v: "f32 (9 / 10) = 7549747 / 8388608" "f32 (7549747 / 8388608) = 7549747 / 8388608" "f32 (5 / 10) = 1 / 2"
    "f32 (1 / 2) = 1 / 2" "f32 (7549747 / 8388608) < 1"
    by code_simp+
  obtain q' r where e: "reduce_ratio_for_congestion ''monitor0'' 5 ''transport-loss-recurrence'' False qos_congested = (q', r)"
    by force
  let ?d = "(DisplayData_default 0)\<lparr>ratio := 1, subscribers := [1], support_changing_quality := True\<rparr>"
  have m: "map_of (displays qos_congested) ''monitor0'' = Some ?d" by (simp add: qos_congested_def)
  have l: "latest_quality ''monitor0'' qos_congested = Custom 1"
    by (simp add: latest_quality_def qos_congested_def subscribed_users_def map_filter_simps later_quality_def unwrap_or_def)
  have "snd (reduce_ratio_for_congestion ''monitor0'' 5 ''transport-loss-recurrence'' False qos_congested)"
    unfolding reduce_ratio_for_congestion_def m l
    by (simp add: in_vbr_state_def qos_congested_def is_some_and_def reduce_display_def Let_def expire_custom_congestion_episode_def
        DisplayData_default_def is_custom_def minimum_ratio_for_quality_def touch_custom_congestion_episode_def v BR_values
        CUSTOM_CONGESTION_EPISODE_FLOOR_MULTIPLIER_def CUSTOM_CONGESTION_MAX_TRANSPORT_REDUCTIONS_def unwrap_or_def)
  then have r: "r" by (simp add: e)
  have "ratio ?d = 1" by simp
  with congestion_reduction_paced [OF e m] r obtain d' where
    "map_of (displays q') ''monitor0'' = Some d'" "ratio d' < 1" "f32 (1 * f32 (9 / 10)) \<le> ratio d'" "last_congestion_reduction_at d' = Some 5"
    by metis
  then show ?thesis using r v by (auto simp: e)
qed


text \<open>The average delay and the quality that an adjustment of the ratio goes by.\<close>

lemma adjust_ratio_display:
  assumes "in_vbr_state n q" "subscribed_users n q \<noteq> []" "map_of (displays q) n = Some d"
  obtains best where "best \<in> (\<lambda>u. avg_delay (delay u)) ` set (subscribed_users n q)"
    "\<forall>u \<in> set (subscribed_users n q). best \<le> avg_delay (delay u)"
    "map_of (displays (adjust_ratio_at n dyn t q)) n =
       Some (apply_ratio (latest_quality n q)
         (is_some_and (upshift_frozen_until d) (\<lambda>until. t < until) \<or> transport_loss_upshift_frozen_for_display n t q)
         (wanted_ratio best dyn t d) t d)"
proof -
  let ?xs = "map (\<lambda>u. avg_delay (delay u)) (subscribed_users n q)"
  have "?xs \<noteq> []" using assms(2) by simp
  then have m: "min_of ?xs = Some (Min (set ?xs))" by (simp add: min_of_def)
  have "Min (set ?xs) \<in> set ?xs" using assms(2) by (intro Min_in) auto
  moreover have "\<forall>u \<in> set (subscribed_users n q). Min (set ?xs) \<le> avg_delay (delay u)" by (auto intro!: Min_le)
  ultimately show thesis
    using that [of "Min (set ?xs)"] assms(1,3) m by (simp add: adjust_ratio_at_def on_display_def alist_simps)
qed

lemma apply_ratio_ratio [simp]:
  "ratio (apply_ratio c fr v t d) = next_ratio c fr v (snd (ratio_episode c v t d)) d"
  by (simp add: apply_ratio_def Let_def case_prod_beta)

lemma next_ratio_bounds:
  shows "next_ratio c fr v fl d \<le> f32 (quality_ratio c * MAX_BR_MULTIPLE)"
    and "fr \<Longrightarrow> next_ratio c fr v fl d \<le> ratio d"
    and "min (minimum_ratio_for_quality c (ratio d) (bitrate_store d)) (f32 (quality_ratio c * MAX_BR_MULTIPLE)) \<le> next_ratio c fr v fl d
         \<or> next_ratio c fr v fl d = ratio d"
  by (auto simp: next_ratio_def ratio_limits_def Let_def clamp_def)

lemma next_ratio_raised:
  assumes "ratio d < next_ratio c fr v fl d" "v \<le> ratio d"
  shows "ratio d < minimum_ratio_for_quality c (ratio d) (bitrate_store d) \<or> is_some_and fl (\<lambda>f. ratio d < f)"
  using assms by (auto simp: next_ratio_def ratio_limits_def Let_def clamp_def unwrap_or_def is_some_and_def less_max_iff_disj
      split: option.splits if_splits)

text \<open>
  An adjustment of the ratio goes by the best delay of the viewers. The new ratio never exceeds the ratio
  of the latest requested quality and does not fall below the minimum of that quality; while increases are
  frozen it does not grow; with an NVENC encoder it grows only ten seconds after the last increase, or to
  reach the minimum or the floor of a congestion episode.
\<close>

theorem ratio_adjustment_bounded:
  assumes "in_vbr_state n q" and "subscribed_users n q \<noteq> []" and "map_of (displays q) n = Some d"
  shows "let q' = adjust_ratio_at n dyn t q; c = latest_quality n q;
             lowest = minimum_ratio_for_quality c (ratio d) (bitrate_store d)
         in \<exists>d'. map_of (displays q') n = Some d'
              \<and> ratio d' \<le> f32 (quality_ratio c * MAX_BR_MULTIPLE)
              \<and> (min lowest (f32 (quality_ratio c * MAX_BR_MULTIPLE)) \<le> ratio d' \<or> ratio d' = ratio d)
              \<and> (is_some_and (upshift_frozen_until d) (\<lambda>until. t < until) \<or> transport_loss_upshift_frozen_for_display n t q
                  \<longrightarrow> ratio d' \<le> ratio d)
              \<and> (uses_nvenc d \<and> ratio d < ratio d' \<longrightarrow>
                  (is_none_or (last_nvenc_ratio_upshift_at d) (\<lambda>l. from_secs 10 \<le> since t l) \<or> ratio d < lowest
                    \<or> is_some_and (congestion_episode_floor_ratio d') (\<lambda>f. ratio d < f))
                  \<and> last_nvenc_ratio_upshift_at d' = Some t)"
proof -
  obtain best where q': "map_of (displays (adjust_ratio_at n dyn t q)) n =
       Some (apply_ratio (latest_quality n q)
         (is_some_and (upshift_frozen_until d) (\<lambda>until. t < until) \<or> transport_loss_upshift_frozen_for_display n t q)
         (wanted_ratio best dyn t d) t d)"
    by (rule adjust_ratio_display [OF assms])
  let ?c = "latest_quality n q" and ?v = "wanted_ratio best dyn t d"
  let ?fr = "is_some_and (upshift_frozen_until d) (\<lambda>until. t < until) \<or> transport_loss_upshift_frozen_for_display n t q"
  have nv: "(is_none_or (last_nvenc_ratio_upshift_at d) (\<lambda>l. from_secs 10 \<le> since t l)
      \<or> ratio d < minimum_ratio_for_quality ?c (ratio d) (bitrate_store d)
      \<or> is_some_and (congestion_episode_floor_ratio (apply_ratio ?c ?fr ?v t d)) (\<lambda>f. ratio d < f))
      \<and> last_nvenc_ratio_upshift_at (apply_ratio ?c ?fr ?v t d) = Some t"
    if u: "uses_nvenc d" "ratio d < ratio (apply_ratio ?c ?fr ?v t d)"
  proof (cases "nvenc_upshift_allowed t d")
    case True
    then show ?thesis using u by (simp add: nvenc_upshift_allowed_def NVENC_RATIO_UPSHIFT_INTERVAL_def apply_ratio_def Let_def case_prod_beta)
  next
    case False
    then have v: "?v \<le> ratio d" using u by (auto simp: wanted_ratio_def Let_def split: if_splits)
    let ?fl = "snd (ratio_episode ?c ?v t d)"
    have "ratio d < minimum_ratio_for_quality ?c (ratio d) (bitrate_store d) \<or> is_some_and ?fl (\<lambda>f. ratio d < f)"
      using u(2) v unfolding apply_ratio_ratio by (rule next_ratio_raised)
    moreover have "?fl \<noteq> None \<Longrightarrow> congestion_episode_floor_ratio (apply_ratio ?c ?fr ?v t d) = ?fl"
      by (auto simp: apply_ratio_def ratio_episode_def touch_custom_congestion_episode_def Let_def case_prod_beta split: if_splits)
    ultimately show ?thesis using u by (auto simp: apply_ratio_def Let_def case_prod_beta is_some_and_def split: option.splits)
  qed
  show ?thesis unfolding Let_def q'
    using next_ratio_bounds [where c = ?c and fr = ?fr and v = ?v and fl = "snd (ratio_episode ?c ?v t d)" and d = d] nv by auto
qed

theorem ratio_adjustment_bounded_witness:
  "ratio (the (map_of (displays (adjust_ratio_at ''monitor0'' True 5 qos_congested)) ''monitor0'')) \<le> f32 (quality_ratio (Custom 1) * MAX_BR_MULTIPLE)"
proof -
  let ?d = "(DisplayData_default 0)\<lparr>ratio := 1, subscribers := [1], support_changing_quality := True\<rparr>"
  have h: "in_vbr_state ''monitor0'' qos_congested" "subscribed_users ''monitor0'' qos_congested \<noteq> []"
    "map_of (displays qos_congested) ''monitor0'' = Some ?d"
    "latest_quality ''monitor0'' qos_congested = Custom 1"
    by (simp_all add: in_vbr_state_def qos_congested_def is_some_and_def subscribed_users_def map_filter_simps
        latest_quality_def later_quality_def unwrap_or_def)
  show ?thesis using ratio_adjustment_bounded [OF h(1-3), of True 5] h(4) by (auto simp: Let_def)
qed

section \<open>Viewers do not slow each other down\<close>

text \<open>
  C24. While no viewer of the service has asked for a fixed rate and not all of them watch in the movie mode, a viewer
  that has rendered a frame of the service, answers in time and has a measured rate gets at least that rate, up to
  the rate it requested: no delay, loss or slow start of another viewer lowers the shared rate below it.
\<close>

theorem healthy_viewer_not_throttled:
  assumes "map_of (displays q) n = Some d" and "u \<in> set (subscribed_users n q)"
    and "locked_fps n q = None" and "\<not> full_movie_mode n q"
    and "map_of (video_startup_by_service u) n = Some st" and "render_started st"
    and "\<not> response_delayed (delay u)" and "delay_fps (delay u) = Some f"
  shows "\<exists>d'. map_of (displays (adjust_fps_at n t q)) n = Some d' \<and> min f (requested_fps u) \<le> fps d'"
proof -
  have "f \<in> set (map (\<lambda>u. unwrap_or (delay_fps (delay u)) INIT_FPS) (subscribed_users n q))"
    using assms(2,8) by (force simp: unwrap_or_def)
  then have m: "f \<le> any_max_fps (subscribed_users n q)" by (auto simp: any_max_fps_def max_of_def unwrap_or_def intro!: Max_ge)
  have h: "requested_fps u \<le> highest_fps n q"
    using assms(2,3) by (auto simp: highest_fps_def max_of_def unwrap_or_def intro!: Max_ge)
  have "\<not> all_subscribers (\<lambda>u. response_delayed (delay u)) n q"
    using assms(2,7) by (auto simp: all_subscribers_def list_all_iff)
  moreover have "\<not> startup_safe_mode n t q"
    using assms(2,5,6) by (auto simp: startup_safe_mode_def Let_def list_ex_iff set_map_filter)
  ultimately have "shared_fps n t q = clamp MIN_FPS (highest_fps n q) (any_max_fps (subscribed_users n q))"
    by (simp add: shared_fps_def Let_def)
  then have "min f (requested_fps u) \<le> shared_fps n t q" using m h by (auto simp: clamp_def)
  then show ?thesis using assms(1,3,4) by (simp add: adjust_fps_at_def on_display_def paced_fps_def alist_simps)
qed

definition qos_two_viewers :: "bool \<Rightarrow> VideoQoS" where
  "qos_two_viewers rendered = \<lparr>users =
      [(1, UserData_default\<lparr>custom_fps := Some 60, delay := UserDelay_default\<lparr>delay_fps := Some 45\<rparr>,
             video_startup_by_service := [(''monitor0'', \<lparr>vs_stream_id = Some 1, render_started = rendered, vs_started_at = 0\<rparr>)]\<rparr>),
       (2, UserData_default\<lparr>video_startup_by_service := [(''monitor0'', Startup_new (from_secs 60))]\<rparr>)],
     displays = [(''monitor0'', (DisplayData_default 0)\<lparr>fps := 45, subscribers := [1, 2]\<rparr>)], abr_config = True\<rparr>"

lemmas two_eval = qos_two_viewers_def qos_eval

theorem healthy_viewer_not_throttled_witness:
  "\<exists>d'. map_of (displays (adjust_fps_at ''monitor0'' (from_secs 61) (qos_two_viewers True))) ''monitor0'' = Some d' \<and> 45 \<le> fps d'"
proof -
  let ?u = "UserData_default\<lparr>custom_fps := Some 60, delay := UserDelay_default\<lparr>delay_fps := Some 45\<rparr>,
     video_startup_by_service := [(''monitor0'', \<lparr>vs_stream_id = Some 1, render_started = True, vs_started_at = 0\<rparr>)]\<rparr>"
  let ?d = "(DisplayData_default 0)\<lparr>fps := 45, subscribers := [1, 2]\<rparr>"
  have h: "map_of (displays (qos_two_viewers True)) ''monitor0'' = Some ?d"
    "?u \<in> set (subscribed_users ''monitor0'' (qos_two_viewers True))"
    "locked_fps ''monitor0'' (qos_two_viewers True) = None" "\<not> full_movie_mode ''monitor0'' (qos_two_viewers True)"
    "map_of (video_startup_by_service ?u) ''monitor0'' = Some \<lparr>vs_stream_id = Some 1, render_started = True, vs_started_at = 0\<rparr>"
    "\<not> response_delayed (delay ?u)" "delay_fps (delay ?u) = Some 45" "min 45 (requested_fps ?u) = 45"
    by (simp_all add: two_eval)
  show ?thesis using healthy_viewer_not_throttled [OF h(1-5) _ h(6,7), of "from_secs 61"] h(8) by simp
qed

text \<open>
  A viewer without feedback never counts as established, because only reported renderings do. While a second
  viewer starts, the shared rate falls to five frames per second for it too.
\<close>

lemma legacy_viewer_throttled:
  "map_option fps (map_of (displays (adjust_fps_at ''monitor0'' (from_secs 61) (qos_two_viewers False))) ''monitor0'') = Some 5"
  by (simp add: two_eval)

section \<open>Polling the sender pressure\<close>

lemma poll_users:
  assumes "map_of (displays q) n = Some d" "movie_admission_pressure_at n t q = (q1, r)" "map_of (users q1) i = Some u"
  shows "map_of (datagram_admission_by_service u) n = None"
proof -
  have u: "users q1 = map (\<lambda>(i, u). (i, u\<lparr>datagram_admission_by_service := AList.delete n (datagram_admission_by_service u)\<rparr>)) (users q)"
    using assms(1,2) by (auto simp: movie_admission_pressure_at_def Let_def)
  from map_of_SomeD [OF assms(3)] show ?thesis unfolding u by (auto simp: alist_simps)
qed

text \<open>
  Every poll of the pressure by the video service drops the counters that a user's next sample is compared
  with, whether or not the latch had expired. So the first sample after a poll reports no pressure for
  rejected frames, however many were rejected, unless the queue is full.
\<close>

lemma admission_poll_forgets_rejections:
  assumes "map_of (displays q) n = Some d" "movie_admission_pressure_at n t q = (q1, r)" "map_of (users q1) i = Some u"
    and "queued_bytes s = 0"
  shows "\<exists>a. map_of (datagram_admission_by_service (observe_admission n s t' u)) n = Some a \<and> \<not> pressured a"
proof -
  let ?m = "evict_oldest (\<lambda>a. opt_key (da_updated_at a)) MAX_DATAGRAM_ADMISSION_SERVICES n (datagram_admission_by_service u)"
  have "map_of (datagram_admission_by_service u) n = None" by (rule poll_users [OF assms(1-3)])
  then have "map_of ?m n = None" by (auto simp: evict_oldest_def alist_simps split: option.splits)
  moreover have "\<not> pressured (admission_observed s t' DatagramAdmissionState_default)"
    using assms(4) by (auto simp: admission_observed_def Let_def DatagramAdmissionState_default_def sat_mul_def
        DATAGRAM_ADMISSION_PREEMPTIVE_QUEUE_PERMILLE_def)
  ultimately show ?thesis by (simp add: observe_admission_def Let_def alist_simps unwrap_or_def)
qed

text \<open>The same sample without the poll reports pressure.\<close>

lemma admission_rejections_seen_without_poll:
  assumes "map_of (datagram_admission_by_service u) n = Some \<lparr>rejected_active = 0, frames_sent = 0, pressured = False, da_updated_at = Some 0\<rparr>"
  shows "map_option pressured (map_of (datagram_admission_by_service
     (observe_admission n \<lparr>sample_rejected_active = 100, sample_frames_sent = 100, queue_budget_bytes = 1000, queued_bytes = 0\<rparr> 5 u)) n)
     = Some True"
proof -
  have m: "sat_mul u64_max 100 1000 = 100000" "sat_add u64_max 100 100 = 200" "sat_mul u64_max 200 20 = 4000"
    by (simp_all add: sat_mul_def sat_add_def)
  have "evict_oldest f b n (datagram_admission_by_service u) = datagram_admission_by_service u" for f b
    using assms by (simp add: evict_oldest_def contains_key_def del: contains_key_iff)
  then show ?thesis using assms
    by (simp add: observe_admission_def Let_def admission_observed_def unwrap_or_def alist_simps
      monotonic_counter_delta_def m DATAGRAM_ADMISSION_MIN_REJECT_PERMILLE_def)
qed

end
