(* ===== verification/ServiceHub.thy ===== *)
theory ServiceHub
  imports TextFormat Messages
begin

text \<open>
  Services of the host and their subscribers, \<^verbatim>\<open>src/src/server/service.rs\<close>, and the registry of
  services and connections, \<^verbatim>\<open>src/src/server.rs\<close>, with the display requests of
  \<^verbatim>\<open>src/src/server/connection.rs\<close>.

  A subscriber is its connection id with the messages sent to it since it subscribed. Every function that
  takes the lock of a service is one step; the callback of \<open>snapshot\<close> runs without the lock, so its messages
  and the promotion at its end are steps of their own. Threads, logging and the retina switch are left out.
\<close>

section \<open>A service\<close>

record 'm ServiceInner =
  subscribes :: "(int \<times> 'm list) list"
  new_subscribes :: "(int \<times> 'm list) list"
  service_active :: bool
  need_snapshot :: bool
  service_options :: "(string \<times> string) list"

definition Service_new :: "bool \<Rightarrow> 'm ServiceInner" where
  "Service_new snapshot = \<lparr>subscribes = [], new_subscribes = [], service_active = True, need_snapshot = snapshot,
     service_options = []\<rparr>"

text \<open>\<open>send\<close> of every subscriber that \<open>p\<close> selects.\<close>

definition deliver :: "(int \<Rightarrow> bool) \<Rightarrow> 'm \<Rightarrow> (int \<times> 'm list) list \<Rightarrow> (int \<times> 'm list) list" where
  "deliver p msg subs = map (\<lambda>(i, log). (i, if p i then log @ [msg] else log)) subs"

definition send_new_subscribes :: "'m \<Rightarrow> 'm ServiceInner \<Rightarrow> 'm ServiceInner" where
  "send_new_subscribes msg s = s\<lparr>new_subscribes := deliver (\<lambda>_. True) msg (new_subscribes s)\<rparr>"

definition swap_new_subscribes :: "'m ServiceInner \<Rightarrow> 'm ServiceInner" where
  "swap_new_subscribes s =
     s\<lparr>subscribes := fold (\<lambda>(i, log). AList.update i log) (new_subscribes s) (subscribes s), new_subscribes := []\<rparr>"

definition has_subscribes :: "'m ServiceInner \<Rightarrow> bool" where
  "has_subscribes s = (length (subscribes s) > 0 \<or> length (new_subscribes s) > 0)"

definition is_subed :: "int \<Rightarrow> 'm ServiceInner \<Rightarrow> bool" where
  "is_subed i s = (contains_key (subscribes s) i \<or> contains_key (new_subscribes s) i)"

definition on_subscribe :: "int \<Rightarrow> 'm ServiceInner \<Rightarrow> 'm ServiceInner" where
  "on_subscribe i s =
     (if contains_key (subscribes s) i then s
      else if need_snapshot s then s\<lparr>new_subscribes := AList.update i [] (new_subscribes s)\<rparr>
      else s\<lparr>subscribes := AList.update i [] (subscribes s)\<rparr>)"

definition on_unsubscribe :: "int \<Rightarrow> 'm ServiceInner \<Rightarrow> 'm ServiceInner" where
  "on_unsubscribe i s =
     (if contains_key (subscribes s) i then s\<lparr>subscribes := AList.delete i (subscribes s)\<rparr>
      else s\<lparr>new_subscribes := AList.delete i (new_subscribes s)\<rparr>)"

definition service_join :: "'m ServiceInner \<Rightarrow> 'm ServiceInner" where
  "service_join s = s\<lparr>service_active := False\<rparr>"

definition get_option :: "string \<Rightarrow> 'm ServiceInner \<Rightarrow> string option" where
  "get_option opt s = map_of (service_options s) opt"

definition set_option :: "string \<Rightarrow> string \<Rightarrow> 'm ServiceInner \<Rightarrow> 'm ServiceInner" where
  "set_option opt val s = s\<lparr>service_options := AList.update opt val (service_options s)\<rparr>"

definition is_option_true :: "string \<Rightarrow> 'm ServiceInner \<Rightarrow> bool" where
  "is_option_true opt s = (case get_option opt s of None \<Rightarrow> False | Some v \<Rightarrow> v = ''1'')"

definition set_option_bool :: "string \<Rightarrow> bool \<Rightarrow> 'm ServiceInner \<Rightarrow> 'm ServiceInner" where
  "set_option_bool opt val s = (if val then set_option opt ''1'' s else set_option opt ''0'' s)"

definition service_ok :: "'m ServiceInner \<Rightarrow> bool" where
  "service_ok s = (service_active s \<and> has_subscribes s)"

definition subscriber_ids :: "'m ServiceInner \<Rightarrow> int set" where
  "subscriber_ids s = set (map fst (subscribes s)) \<union> set (map fst (new_subscribes s))"

definition has_pending_subscribers :: "'m ServiceInner \<Rightarrow> bool" where
  "has_pending_subscribers s = (new_subscribes s \<noteq> [])"

definition send_video_frame_with_join :: "'m \<Rightarrow> bool \<Rightarrow> 'm ServiceInner \<Rightarrow> 'm ServiceInner \<times> int set" where
  "send_video_frame_with_join msg starts_with_keyframe s =
     (let s1 = (if starts_with_keyframe then swap_new_subscribes s else s)
      in (s1\<lparr>subscribes := deliver (\<lambda>_. True) msg (subscribes s1)\<rparr>, set (map fst (subscribes s1))))"

text \<open>The messages of a callback that is not interrupted, and the promotion when its handle is dropped.\<close>

definition snapshot :: "'m list \<Rightarrow> bool \<Rightarrow> 'm ServiceInner \<Rightarrow> 'm ServiceInner \<times> bool" where
  "snapshot msgs callback_ok s =
     (if length (new_subscribes s) > 0
      then (swap_new_subscribes (fold send_new_subscribes msgs s), callback_ok)
      else (s, True))"

definition send_shared :: "'m \<Rightarrow> 'm ServiceInner \<Rightarrow> 'm ServiceInner" where
  "send_shared msg s = s\<lparr>subscribes := deliver (\<lambda>_. True) msg (subscribes s)\<rparr>"

definition send_to :: "'m \<Rightarrow> int \<Rightarrow> 'm ServiceInner \<Rightarrow> 'm ServiceInner" where
  "send_to msg i s = s\<lparr>subscribes := deliver (\<lambda>j. j = i) msg (subscribes s)\<rparr>"

definition send_to_others :: "'m \<Rightarrow> int \<Rightarrow> 'm ServiceInner \<Rightarrow> 'm ServiceInner" where
  "send_to_others msg i s = s\<lparr>subscribes := deliver (\<lambda>j. j \<noteq> i) msg (subscribes s)\<rparr>"

definition send_video_frame_shared :: "'m \<Rightarrow> 'm ServiceInner \<Rightarrow> 'm ServiceInner \<times> int set" where
  "send_video_frame_shared msg s = (send_shared msg s, set (map fst (subscribes s)))"

definition send_without :: "'m \<Rightarrow> int \<Rightarrow> 'm ServiceInner \<Rightarrow> 'm ServiceInner" where
  "send_without msg i s = s\<lparr>subscribes := deliver (\<lambda>j. i \<noteq> j) msg (subscribes s)\<rparr>"

subsection \<open>The threads of a service\<close>

definition HIBERNATE_TIMEOUT :: nat where "HIBERNATE_TIMEOUT = 30"
definition MAX_ERROR_TIMEOUT :: nat where "MAX_ERROR_TIMEOUT = 1000"

text \<open>The pause of \<open>run\<close> after an error of a callback that took \<open>elapsed\<close> milliseconds.\<close>

definition run_error_timeout :: "nat \<Rightarrow> nat \<Rightarrow> nat" where
  "run_error_timeout elapsed error_timeout =
     (let t = (if elapsed > MAX_ERROR_TIMEOUT then HIBERNATE_TIMEOUT else error_timeout * 2)
      in if t > MAX_ERROR_TIMEOUT then MAX_ERROR_TIMEOUT else t)"

datatype repeat_event = StateInit | StateReset | Callback

text \<open>One iteration of \<open>repeat\<close>: what happens to the state of the callback.\<close>

definition repeat_iteration :: "bool \<Rightarrow> bool \<Rightarrow> bool \<times> repeat_event list" where
  "repeat_iteration has_subs may_reset =
     (if has_subs then (True, (if \<not> may_reset then [StateInit] else []) @ [Callback])
      else if may_reset then (False, [StateReset])
      else (False, []))"

fun repeat_loop :: "bool list \<Rightarrow> bool \<Rightarrow> repeat_event list" where
  "repeat_loop [] may_reset = []"
| "repeat_loop (b # bs) may_reset = (case repeat_iteration b may_reset of (r, es) \<Rightarrow> es @ repeat_loop bs r)"

section \<open>The server\<close>

definition service_name_prefix :: "VideoSource \<Rightarrow> string" where
  "service_name_prefix v = (case v of Monitor \<Rightarrow> ''monitor'' | Camera \<Rightarrow> ''camera'')"

definition get_service_name :: "VideoSource \<Rightarrow> nat \<Rightarrow> string" where
  "get_service_name v idx = service_name_prefix v @ decimal idx"

record 'm Server =
  connections :: "int list"
  services :: "(string \<times> 'm ServiceInner) list"
  id_count :: int

datatype CaptureDisplaysOperation = Include | ExcludeListed | SetDisplays

definition capture_request :: "nat list \<Rightarrow> nat list \<Rightarrow> nat list \<Rightarrow> CaptureDisplaysOperation \<times> nat list" where
  "capture_request add sub set_list =
     (if add \<noteq> [] then (Include, add) else if sub \<noteq> [] then (ExcludeListed, sub) else (SetDisplays, set_list))"

definition validated_request ::
  "nat list \<Rightarrow> nat list \<Rightarrow> nat list \<Rightarrow> nat \<Rightarrow> (CaptureDisplaysOperation \<times> nat list) option" where
  "validated_request add sub set_list available =
     (let (operation, requested) = capture_request add sub set_list;
          valid = filter (\<lambda>d. d < available) requested
      in if requested \<noteq> [] \<and> valid = [] then None else Some (operation, remdups_adj (sort valid)))"

definition subscription :: "CaptureDisplaysOperation \<Rightarrow> bool \<Rightarrow> bool \<Rightarrow> bool" where
  "subscription operation listed subscribed =
     (case operation of Include \<Rightarrow> subscribed \<or> listed | ExcludeListed \<Rightarrow> subscribed \<and> \<not> listed | SetDisplays \<Rightarrow> listed)"

definition is_video_service_name :: "string \<Rightarrow> bool" where
  "is_video_service_name n =
     (is_prefix_of (service_name_prefix Monitor) n \<or> is_prefix_of (service_name_prefix Camera) n)"

definition on_service :: "string \<Rightarrow> ('m ServiceInner \<Rightarrow> 'm ServiceInner) \<Rightarrow> 'm Server \<Rightarrow> 'm Server" where
  "on_service n f s =
     (case map_of (services s) n of None \<Rightarrow> s | Some v \<Rightarrow> s\<lparr>services := AList.update n (f v) (services s)\<rparr>)"

definition add_service :: "string \<Rightarrow> bool \<Rightarrow> 'm Server \<Rightarrow> 'm Server" where
  "add_service n snap s = s\<lparr>services := AList.update n (Service_new snap) (services s)\<rparr>"

definition server_contains :: "string \<Rightarrow> 'm Server \<Rightarrow> bool" where
  "server_contains n s = contains_key (services s) n"

definition try_add_monitor_service :: "nat \<Rightarrow> 'm Server \<Rightarrow> 'm Server" where
  "try_add_monitor_service idx s =
     (if \<not> server_contains (get_service_name Monitor idx) s then add_service (get_service_name Monitor idx) True s else s)"

definition try_add_primary_camera_service :: "bool \<Rightarrow> nat \<Rightarrow> 'm Server \<Rightarrow> 'm Server" where
  "try_add_primary_camera_service camera_exists primary s =
     (if \<not> camera_exists then s
      else if \<not> server_contains (get_service_name Camera primary) s
      then add_service (get_service_name Camera primary) True s else s)"

definition add_camera_connection :: "bool \<Rightarrow> nat \<Rightarrow> int \<Rightarrow> 'm Server \<Rightarrow> 'm Server" where
  "add_camera_connection camera_exists primary i s =
     (let s1 = (if camera_exists then on_service (get_service_name Camera primary) (on_subscribe i) s else s)
      in s1\<lparr>connections := List.insert i (connections s1)\<rparr>)"

definition add_monitor_connection :: "int \<Rightarrow> string list \<Rightarrow> nat \<Rightarrow> 'm Server \<Rightarrow> 'm Server" where
  "add_monitor_connection i noperms idx s =
     s\<lparr>services := map (\<lambda>(n, v).
          (n, if is_video_service_name n \<and> n \<noteq> get_service_name Monitor idx then v
              else if n \<notin> set noperms then on_subscribe i v else v)) (services s),
       connections := List.insert i (connections s)\<rparr>"

definition remove_connection :: "int \<Rightarrow> 'm Server \<Rightarrow> 'm Server" where
  "remove_connection i s =
     s\<lparr>services := map (\<lambda>(n, v). (n, on_unsubscribe i v)) (services s), connections := removeAll i (connections s)\<rparr>"

definition server_subscribe :: "string \<Rightarrow> int \<Rightarrow> bool \<Rightarrow> 'm Server \<Rightarrow> 'm Server" where
  "server_subscribe n i sub s =
     (case map_of (services s) n of
        None \<Rightarrow> s
      | Some v \<Rightarrow>
          if is_subed i v = sub then s
          else s\<lparr>services := AList.update n (if sub then on_subscribe i v else on_unsubscribe i v) (services s)\<rparr>)"

definition get_new_id :: "'m Server \<Rightarrow> 'm Server \<times> int" where
  "get_new_id s = (s\<lparr>id_count := id_count s + 1\<rparr>, id_count s + 1)"

definition set_video_service_opt :: "(VideoSource \<times> nat) option \<Rightarrow> string \<Rightarrow> string \<Rightarrow> 'm Server \<Rightarrow> 'm Server" where
  "set_video_service_opt display opt val s =
     s\<lparr>services := map (\<lambda>(n, v).
          (n, if (case display of None \<Rightarrow> True | Some (src, d) \<Rightarrow> n = get_service_name src d) \<and> is_video_service_name n
              then set_option opt val v else v)) (services s)\<rparr>"

definition get_subbed_displays_count :: "int \<Rightarrow> 'm Server \<Rightarrow> nat" where
  "get_subbed_displays_count i s =
     length (filter (\<lambda>n. is_video_service_name n \<and> is_some_and (map_of (services s) n) (is_subed i)) (map fst (services s)))"

definition capture_service :: "int \<Rightarrow> string list \<Rightarrow> CaptureDisplaysOperation \<Rightarrow> string \<Rightarrow> 'm Server \<Rightarrow> 'm Server" where
  "capture_service i displays operation n s =
     (if is_video_service_name n
      then case map_of (services s) n of
             None \<Rightarrow> s
           | Some v \<Rightarrow> server_subscribe n i (subscription operation (n \<in> set displays) (is_subed i v)) s
      else s)"

text \<open>The order of the keys, sorted in the source, does not matter: each step reads and changes one service.\<close>

definition server_capture_displays ::
  "int \<Rightarrow> VideoSource \<Rightarrow> nat list \<Rightarrow> CaptureDisplaysOperation \<Rightarrow> 'm Server \<Rightarrow> 'm Server" where
  "server_capture_displays i source displays operation s =
     fold (capture_service i (map (get_service_name source) displays) operation) (map fst (services s)) s"

definition ensure_service :: "VideoSource \<Rightarrow> nat \<Rightarrow> 'm Server \<Rightarrow> 'm Server" where
  "ensure_service source d s =
     (if \<not> server_contains (get_service_name source d) s then add_service (get_service_name source d) True s else s)"

text \<open>
  \<open>Connection::capture_displays\<close>: the server after the request, the displays that the video queue of the
  connection is told about, and whether the session shows several displays.
\<close>

definition NAME_WINDOW_FOCUS :: string where "NAME_WINDOW_FOCUS = ''window_focus''"

definition connection_capture_displays ::
  "int \<Rightarrow> VideoSource \<Rightarrow> nat \<Rightarrow> bool \<Rightarrow> nat list \<Rightarrow> nat list \<Rightarrow> nat list \<Rightarrow> 'm Server \<Rightarrow> ('m Server \<times> nat list \<times> bool) option" where
  "connection_capture_displays i source source_count follow_remote_window add sub set_list s =
     (case validated_request add sub set_list source_count of
        None \<Rightarrow> None
      | Some (operation, displays) \<Rightarrow>
          let s1 = fold (ensure_service source) (filter (\<lambda>_. operation \<noteq> ExcludeListed) displays) s;
              s2 = server_capture_displays i source displays operation s1;
              subscribed = filter (\<lambda>d. is_some_and (map_of (services s2) (get_service_name source d)) (is_subed i))
                             [0..<source_count];
              multi_ui_session = get_subbed_displays_count i s2 > 1;
              s3 = (if follow_remote_window then server_subscribe NAME_WINDOW_FOCUS i (\<not> multi_ui_session) s2 else s2)
          in Some (s3, subscribed, multi_ui_session))"

section \<open>What one subscriber sees\<close>

text \<open>
  The contract of a service with one connection: it is absent, waits for a snapshot or a keyframe, or has
  joined, with the messages sent to it. Other connections do not appear.
\<close>

datatype 'm Viewer = Absent | Waiting "'m list" | Joined "'m list"

datatype 'm hub_op =
    Subscribe int
  | Unsubscribe int
  | SendShared 'm
  | SendTo 'm int
  | SendToOthers 'm int
  | SendWithout 'm int
  | FrameWithJoin 'm bool
  | SwapSend 'm
  | SwapDrop
  | Snapshot "'m list" bool
  | SetOption string string
  | Stop

primrec hub_step :: "'m hub_op \<Rightarrow> 'm ServiceInner \<Rightarrow> 'm ServiceInner" where
  "hub_step (Subscribe i) s = on_subscribe i s"
| "hub_step (Unsubscribe i) s = on_unsubscribe i s"
| "hub_step (SendShared msg) s = send_shared msg s"
| "hub_step (SendTo msg i) s = send_to msg i s"
| "hub_step (SendToOthers msg i) s = send_to_others msg i s"
| "hub_step (SendWithout msg i) s = send_without msg i s"
| "hub_step (FrameWithJoin msg k) s = fst (send_video_frame_with_join msg k s)"
| "hub_step (SwapSend msg) s = send_new_subscribes msg s"
| "hub_step SwapDrop s = swap_new_subscribes s"
| "hub_step (Snapshot msgs b) s = fst (snapshot msgs b s)"
| "hub_step (SetOption opt v) s = set_option opt v s"
| "hub_step Stop s = service_join s"

definition receive :: "'m \<Rightarrow> 'm Viewer \<Rightarrow> 'm Viewer" where
  "receive msg v = (case v of Joined log \<Rightarrow> Joined (log @ [msg]) | _ \<Rightarrow> v)"

definition promote :: "'m Viewer \<Rightarrow> 'm Viewer" where
  "promote v = (case v of Waiting log \<Rightarrow> Joined log | _ \<Rightarrow> v)"

primrec viewer_step :: "bool \<Rightarrow> int \<Rightarrow> 'm hub_op \<Rightarrow> 'm Viewer \<Rightarrow> 'm Viewer" where
  "viewer_step snap i (Subscribe j) v =
     (if j = i then (case v of Joined log \<Rightarrow> v | _ \<Rightarrow> if snap then Waiting [] else Joined []) else v)"
| "viewer_step snap i (Unsubscribe j) v = (if j = i then Absent else v)"
| "viewer_step snap i (SendShared msg) v = receive msg v"
| "viewer_step snap i (SendTo msg j) v = (if i = j then receive msg v else v)"
| "viewer_step snap i (SendToOthers msg j) v = (if i \<noteq> j then receive msg v else v)"
| "viewer_step snap i (SendWithout msg j) v = (if i \<noteq> j then receive msg v else v)"
| "viewer_step snap i (FrameWithJoin msg k) v = receive msg (if k then promote v else v)"
| "viewer_step snap i (SwapSend msg) v = (case v of Waiting log \<Rightarrow> Waiting (log @ [msg]) | _ \<Rightarrow> v)"
| "viewer_step snap i SwapDrop v = promote v"
| "viewer_step snap i (Snapshot msgs b) v = (case v of Waiting log \<Rightarrow> Joined (log @ msgs) | _ \<Rightarrow> v)"
| "viewer_step snap i (SetOption opt val) v = v"
| "viewer_step snap i Stop v = v"

definition viewer_of :: "int \<Rightarrow> 'm ServiceInner \<Rightarrow> 'm Viewer" where
  "viewer_of i s =
     (case map_of (subscribes s) i of
        Some log \<Rightarrow> Joined log
      | None \<Rightarrow> (case map_of (new_subscribes s) i of Some log \<Rightarrow> Waiting log | None \<Rightarrow> Absent))"

definition hub_inv :: "bool \<Rightarrow> 'm ServiceInner \<Rightarrow> bool" where
  "hub_inv snap s \<longleftrightarrow> need_snapshot s = snap \<and> map_wf (subscribes s) \<and> map_wf (new_subscribes s)
     \<and> fst ` set (subscribes s) \<inter> fst ` set (new_subscribes s) = {} \<and> (\<not> snap \<longrightarrow> new_subscribes s = [])"

subsection \<open>Deliveries and promotions\<close>

lemma map_of_deliver: "map_of (deliver p msg m) i = map_option (\<lambda>log. if p i then log @ [msg] else log) (map_of m i)"
  by (induction m) (auto simp: deliver_def)

lemma deliver_keys [simp]: "map fst (deliver p msg m) = map fst m"
  by (simp add: deliver_def case_prod_beta)

lemma deliver_key_set [simp]: "fst ` set (deliver p msg m) = fst ` set m"
  using arg_cong [OF deliver_keys, of set] by (simp add: image_image [symmetric] del: deliver_keys)

lemma deliver_Nil [simp]: "deliver p msg m = [] \<longleftrightarrow> m = []"
  by (simp add: deliver_def)

lemma map_of_promoted:
  "map_wf new \<Longrightarrow> map_of (fold (\<lambda>(i, log). AList.update i log) new m) i
     = (case map_of new i of Some log \<Rightarrow> Some log | None \<Rightarrow> map_of m i)"
proof (induction new arbitrary: m)
  case (Cons p new)
  obtain j log where p: "p = (j, log)" by force
  with Cons.prems have "map_wf new" "map_of new j = None" by (auto simp: map_of_eq_None_iff)
  with Cons.IH [of "AList.update j log m"] show ?case
    by (auto simp: p alist_simps split: option.splits)
qed simp

lemma promoted_wf: "map_wf m \<Longrightarrow> map_wf (fold (\<lambda>(i, log). AList.update i log) new m)"
  by (induction new arbitrary: m) (auto simp: alist_simps)

lemma viewer_of_deliver [simp]:
  "viewer_of i (s\<lparr>subscribes := deliver p msg (subscribes s)\<rparr>) = (if p i then receive msg (viewer_of i s) else viewer_of i s)"
  by (auto simp: viewer_of_def receive_def map_of_deliver split: option.splits)

lemma viewer_of_swap [simp]: "hub_inv snap s \<Longrightarrow> viewer_of i (swap_new_subscribes s) = promote (viewer_of i s)"
  by (auto simp: viewer_of_def swap_new_subscribes_def promote_def map_of_promoted hub_inv_def split: option.splits
      dest!: map_of_SomeD) force

lemma viewer_of_send_new [simp]:
  "viewer_of i (send_new_subscribes msg s) = (case viewer_of i s of Waiting log \<Rightarrow> Waiting (log @ [msg]) | v \<Rightarrow> v)"
  by (auto simp: viewer_of_def send_new_subscribes_def map_of_deliver split: option.splits)

lemma viewer_of_flags [simp]:
  "viewer_of i (s\<lparr>service_options := x\<rparr>) = viewer_of i s" "viewer_of i (s\<lparr>service_active := b\<rparr>) = viewer_of i s"
  by (simp_all add: viewer_of_def cong: option.case_cong)

lemma hub_inv_deliver [simp]: "hub_inv snap (s\<lparr>subscribes := deliver p msg (subscribes s)\<rparr>) = hub_inv snap s"
  by (simp add: hub_inv_def)

lemma hub_inv_send_new [simp]: "hub_inv snap (send_new_subscribes msg s) = hub_inv snap s"
  by (simp add: hub_inv_def send_new_subscribes_def)

lemma hub_inv_swap [simp]: "hub_inv snap s \<Longrightarrow> hub_inv snap (swap_new_subscribes s)"
  by (simp add: hub_inv_def swap_new_subscribes_def promoted_wf)

lemma hub_inv_send_all: "hub_inv snap (fold send_new_subscribes msgs s) = hub_inv snap s"
  by (induction msgs arbitrary: s) simp_all

lemma viewer_of_send_all:
  "viewer_of i (fold send_new_subscribes msgs s) = (case viewer_of i s of Waiting log \<Rightarrow> Waiting (log @ msgs) | v \<Rightarrow> v)"
  by (induction msgs arbitrary: s) (auto split: Viewer.splits)

lemmas hub_ops = on_subscribe_def on_unsubscribe_def send_shared_def send_to_def send_to_others_def send_without_def
  send_video_frame_with_join_def snapshot_def set_option_def service_join_def

lemma hub_inv_step: "hub_inv snap s \<Longrightarrow> hub_inv snap (hub_step x s)"
proof (cases x)
  case (Subscribe i)
  then show "hub_inv snap s \<Longrightarrow> ?thesis" by (auto simp: hub_inv_def on_subscribe_def alist_simps)
next
  case (Unsubscribe i)
  then show "hub_inv snap s \<Longrightarrow> ?thesis" by (auto simp: hub_inv_def on_unsubscribe_def alist_simps)
next
  case (Snapshot msgs b)
  then show "hub_inv snap s \<Longrightarrow> ?thesis" by (simp add: snapshot_def hub_inv_send_all)
qed (auto simp: hub_ops Let_def, simp_all add: hub_inv_def)

lemma hub_simulates:
  assumes "hub_inv snap s"
  shows "viewer_of i (hub_step x s) = viewer_step snap i x (viewer_of i s)"
proof (cases x)
  case (Subscribe j)
  show ?thesis
  proof (cases "map_of (subscribes s) j")
    case None
    moreover have "\<not> snap \<Longrightarrow> map_of (new_subscribes s) i = None" "need_snapshot s = snap" using assms by (auto simp: hub_inv_def)
    ultimately show ?thesis using Subscribe
      by (auto simp: viewer_of_def on_subscribe_def contains_key_def alist_simps split: option.splits simp del: contains_key_iff)
  next
    case (Some log)
    then have "on_subscribe j s = s" by (simp add: on_subscribe_def contains_key_def del: contains_key_iff)
    then show ?thesis using Subscribe Some by (cases "j = i") (simp_all add: viewer_of_def)
  qed
next
  case (Unsubscribe j)
  have "map_of (subscribes s) j \<noteq> None \<Longrightarrow> map_of (new_subscribes s) j = None"
    using assms by (auto simp: hub_inv_def map_of_eq_None_iff)
  then show ?thesis using Unsubscribe
    by (cases "map_of (subscribes s) j")
       (auto simp: viewer_of_def on_unsubscribe_def contains_key_def alist_simps split: option.splits simp del: contains_key_iff)
next
  case (Snapshot msgs b)
  have "viewer_of i s = Waiting log \<Longrightarrow> new_subscribes s \<noteq> []" for log
    by (auto simp: viewer_of_def split: option.splits)
  then show ?thesis using Snapshot assms
    by (auto simp: snapshot_def viewer_of_swap [of snap] hub_inv_send_all viewer_of_send_all promote_def split: Viewer.splits)
next
  case (FrameWithJoin msg k)
  then show ?thesis using assms viewer_of_swap [OF assms] by (simp add: send_video_frame_with_join_def Let_def)
qed (use assms in \<open>auto simp: hub_ops viewer_of_swap [of snap] split: Viewer.splits\<close>)

interpretation hub: functional_refinement hub_step "viewer_step snap i" "viewer_of i" "hub_inv snap" for snap i
  by unfold_locales (simp_all add: hub_inv_step hub_simulates)

lemma hub_inv_new: "hub_inv snap (Service_new snap)"
  by (simp add: hub_inv_def Service_new_def)

lemma viewer_of_new: "viewer_of i (Service_new snap) = Absent"
  by (simp add: viewer_of_def Service_new_def)

lemma map_of_key: "i \<in> fst ` set m \<longleftrightarrow> (\<exists>v. map_of m i = Some v)"
  by (metis map_of_eq_None_iff not_Some_eq)

lemma is_subed_viewer: "is_subed i s \<longleftrightarrow> viewer_of i s \<noteq> Absent"
  by (auto simp: is_subed_def viewer_of_def map_of_key split: option.splits)

lemma joined_viewer: "i \<in> fst ` set (subscribes s) \<longleftrightarrow> (\<exists>log. viewer_of i s = Joined log)"
  by (auto simp: viewer_of_def map_of_key split: option.splits)

section \<open>Properties of the services\<close>

text \<open>
  C25. Over every sequence of subscriptions, sends, snapshots and promotions, what a service does to one
  connection is the contract of a single subscriber: its state and the messages it gets depend on no other
  connection. The ids that a frame reports are those of the connections that got it.
\<close>

theorem service_refines_viewer:
  "let s = fold hub_step ops (Service_new snap); v = fold (viewer_step snap i) ops Absent
   in viewer_of i s = v \<and> (is_subed i s \<longleftrightarrow> v \<noteq> Absent)
      \<and> (i \<in> snd (send_video_frame_with_join msg k s) \<longleftrightarrow> (\<exists>log. (if k then promote v else v) = Joined log))"
proof -
  define s where "s = fold hub_step ops (Service_new snap)"
  have v: "viewer_of i s = fold (viewer_step snap i) ops Absent"
    unfolding s_def by (subst hub.run_refines [OF hub_inv_new]) (simp add: viewer_of_new)
  have inv: "hub_inv snap s" unfolding s_def by (rule hub.run_cinv [OF hub_inv_new])
  have "i \<in> snd (send_video_frame_with_join msg k s) \<longleftrightarrow> i \<in> fst ` set (subscribes (if k then swap_new_subscribes s else s))"
    by (simp add: send_video_frame_with_join_def Let_def)
  also have "\<dots> \<longleftrightarrow> (\<exists>log. (if k then promote (viewer_of i s) else viewer_of i s) = Joined log)"
    using viewer_of_swap [OF inv, of i] by (simp add: joined_viewer)
  finally show ?thesis unfolding Let_def s_def [symmetric] v [symmetric] by (simp add: is_subed_viewer)
qed

text \<open>
  What an operation sends to connection \<open>i\<close> when it has joined, and what the callback of a snapshot sends to the
  waiting ones.
\<close>

fun sent_to :: "int \<Rightarrow> 'm hub_op \<Rightarrow> 'm list" where
  "sent_to i (SendShared msg) = [msg]"
| "sent_to i (SendTo msg j) = (if i = j then [msg] else [])"
| "sent_to i (SendToOthers msg j) = (if i \<noteq> j then [msg] else [])"
| "sent_to i (SendWithout msg j) = (if i \<noteq> j then [msg] else [])"
| "sent_to i (FrameWithJoin msg k) = [msg]"
| "sent_to i _ = []"

fun callback_msg :: "'m hub_op \<Rightarrow> 'm list" where
  "callback_msg (SwapSend msg) = [msg]"
| "callback_msg _ = []"

text \<open>The operations that promote the waiting connections, with what they send them.\<close>

fun promotes :: "'m hub_op \<Rightarrow> 'm list option" where
  "promotes (FrameWithJoin msg k) = (if k then Some [msg] else None)"
| "promotes (Snapshot msgs b) = Some msgs"
| "promotes SwapDrop = Some []"
| "promotes _ = None"

definition waited :: "int \<Rightarrow> 'm hub_op list \<Rightarrow> 'm list \<Rightarrow> bool" where
  "waited i ops w \<longleftrightarrow> (\<exists>before since. ops = before @ Subscribe i # since
     \<and> Subscribe i \<notin> set since \<and> Unsubscribe i \<notin> set since \<and> list_all (\<lambda>x. promotes x = None) since
     \<and> w = concat (map callback_msg since))"

definition joined_at :: "int \<Rightarrow> 'm hub_op list \<Rightarrow> 'm list \<Rightarrow> bool" where
  "joined_at i ops log \<longleftrightarrow> (\<exists>pre x post w start. ops = pre @ x # post \<and> waited i pre w \<and> promotes x = Some start
     \<and> log = w @ start @ concat (map (sent_to i) post) \<and> Unsubscribe i \<notin> set post)"

lemma waited_snoc:
  assumes "waited i ops w" "x \<noteq> Subscribe i" "x \<noteq> Unsubscribe i" "promotes x = None"
  shows "waited i (ops @ [x]) (w @ callback_msg x)"
proof -
  from assms(1) obtain before since where p: "ops = before @ Subscribe i # since" "Subscribe i \<notin> set since"
    "Unsubscribe i \<notin> set since" "list_all (\<lambda>x. promotes x = None) since" "w = concat (map callback_msg since)"
    by (auto simp: waited_def)
  show ?thesis unfolding waited_def
    by (intro exI [of _ before] exI [of _ "since @ [x]"]) (use p assms in auto)
qed

lemma waited_subscribe: "waited i (ops @ [Subscribe i]) []"
  unfolding waited_def by (intro exI [of _ ops] exI [of _ "[]"]) simp

lemma joined_at_promoted: "waited i ops w \<Longrightarrow> promotes x = Some start \<Longrightarrow> joined_at i (ops @ [x]) (w @ start)"
  unfolding joined_at_def by (intro exI [of _ ops] exI [of _ x] exI [of _ "[]"] exI [of _ w] exI [of _ start]) simp

lemma joined_at_snoc:
  assumes "joined_at i ops log" "x \<noteq> Unsubscribe i"
  shows "joined_at i (ops @ [x]) (log @ sent_to i x)"
proof -
  from assms(1) obtain pre y post w start where p: "ops = pre @ y # post" "waited i pre w" "promotes y = Some start"
    "log = w @ start @ concat (map (sent_to i) post)" "Unsubscribe i \<notin> set post"
    by (auto simp: joined_at_def)
  show ?thesis unfolding joined_at_def
    by (intro exI [of _ pre] exI [of _ y] exI [of _ "post @ [x]"] exI [of _ w] exI [of _ start]) (use p assms in auto)
qed

text \<open>What one operation does to a connection that is there, by whether it promotes.\<close>

lemma viewer_step_waiting:
  "x \<noteq> Subscribe i \<Longrightarrow> x \<noteq> Unsubscribe i \<Longrightarrow> viewer_step True i x (Waiting w)
     = (case promotes x of None \<Rightarrow> Waiting (w @ callback_msg x) | Some start \<Rightarrow> Joined (w @ start))"
  by (cases x) (auto simp: receive_def promote_def)

lemma viewer_step_joined:
  "x \<noteq> Unsubscribe i \<Longrightarrow> viewer_step True i x (Joined log) = Joined (log @ sent_to i x)"
  by (cases x) (auto simp: receive_def promote_def)

lemma viewer_step_absent:
  "viewer_step True i x Absent = (if x = Subscribe i then Waiting [] else Absent)"
  by (cases x) (auto simp: receive_def promote_def)

lemma viewer_step_own [simp]:
  "viewer_step True i (Unsubscribe i) v = Absent" "viewer_step True i (Subscribe i) (Waiting w) = Waiting []"
  by simp_all

lemma viewer_history:
  "case fold (viewer_step True i) ops Absent of
     Absent \<Rightarrow> True | Waiting w \<Rightarrow> waited i ops w | Joined log \<Rightarrow> joined_at i ops log"
proof (induction ops rule: rev_induct)
  case (snoc x ops)
  define v where "v = fold (viewer_step True i) ops Absent"
  note IH = snoc.IH [folded v_def]
  show ?case
  proof (cases "x = Unsubscribe i")
    case False
    show ?thesis
    proof (cases v)
      case Absent
      then show ?thesis by (simp add: v_def [symmetric] viewer_step_absent waited_subscribe)
    next
      case (Waiting w)
      then have w: "waited i ops w" using IH by simp
      show ?thesis
      proof (cases "x = Subscribe i")
        case True
        then show ?thesis using Waiting by (simp add: v_def [symmetric] waited_subscribe)
      next
        case ne: False
        show ?thesis using waited_snoc [OF w ne False] joined_at_promoted [OF w] Waiting
          by (simp add: v_def [symmetric] viewer_step_waiting [OF ne False] split: option.split)
      qed
    next
      case (Joined log)
      then have "joined_at i ops log" using IH by simp
      from joined_at_snoc [OF this False] Joined show ?thesis
        by (simp add: v_def [symmetric] viewer_step_joined [OF False])
    qed
  qed simp
qed simp

text \<open>
  C26. After any calls on a service with snapshots, as the video services are, everything that a joined
  connection has got is accounted for. It subscribed and waited; while it waited it got only what the callbacks of snapshots
  sent, and no frame. One operation promoted it: a frame marked as starting with a keyframe, which is then the first frame it got, or
  the end of a snapshot (a changed display), whose messages it got. From there on it got every message
  addressed to it, every frame included, in order and without a gap.
\<close>

theorem viewer_history_exact:
  assumes "viewer_of i (fold hub_step ops (Service_new True)) = Joined log"
  shows "\<exists>before since x post start. ops = before @ Subscribe i # since @ x # post
     \<and> Subscribe i \<notin> set since \<and> Unsubscribe i \<notin> set since \<and> list_all (\<lambda>y. promotes y = None) since
     \<and> promotes x = Some start \<and> Unsubscribe i \<notin> set post
     \<and> log = concat (map callback_msg since) @ start @ concat (map (sent_to i) post)"
proof -
  have r: "viewer_of i (fold hub_step ops (Service_new True)) = fold (viewer_step True i) ops Absent"
    by (subst hub.run_refines [OF hub_inv_new]) (simp add: viewer_of_new)
  have "joined_at i ops log" using viewer_history [of i ops] assms unfolding r by simp
  then obtain pre x post w start where j: "ops = pre @ x # post" "waited i pre w" "promotes x = Some start"
    "log = w @ start @ concat (map (sent_to i) post)" "Unsubscribe i \<notin> set post" by (auto simp: joined_at_def)
  from j(2) obtain before since where "pre = before @ Subscribe i # since" "Subscribe i \<notin> set since"
    "Unsubscribe i \<notin> set since" "list_all (\<lambda>y. promotes y = None) since" "w = concat (map callback_msg since)"
    by (auto simp: waited_def)
  with j show ?thesis
    by (intro exI [of _ before] exI [of _ since] exI [of _ x] exI [of _ post] exI [of _ start]) simp
qed

theorem viewer_history_exact_witness:
  "\<exists>before since x post start.
      [Subscribe 1, FrameWithJoin 10 True, Subscribe 2, FrameWithJoin 11 False, FrameWithJoin (12 :: nat) True, SendShared 20]
        = before @ Subscribe 2 # since @ x # post
      \<and> promotes x = Some start \<and> [12, 20] = concat (map callback_msg since) @ start @ concat (map (sent_to 2) post)"
  using viewer_history_exact [of 2 "[Subscribe 1, FrameWithJoin 10 True, Subscribe 2, FrameWithJoin 11 False,
      FrameWithJoin (12 :: nat) True, SendShared 20]" "[12, 20]"]
  by (simp add: hub_ops Service_new_def swap_new_subscribes_def deliver_def viewer_of_def) blast

text \<open>
  A subscriber that arrives while the callback of a snapshot runs, after its last message, is promoted when the
  callback ends although it got none of the snapshot.
\<close>

lemma snapshot_promotes_late_subscriber:
  "viewer_of 2 (fold hub_step [Subscribe 1, SwapSend m, Subscribe 2, SwapDrop] (Service_new True)) = Joined []"
  by (simp add: hub_ops Service_new_def swap_new_subscribes_def send_new_subscribes_def deliver_def viewer_of_def)

lemma run_error_timeout_bounds:
  "HIBERNATE_TIMEOUT \<le> t \<Longrightarrow> HIBERNATE_TIMEOUT \<le> run_error_timeout e t \<and> run_error_timeout e t \<le> MAX_ERROR_TIMEOUT"
  by (auto simp: run_error_timeout_def Let_def HIBERNATE_TIMEOUT_def MAX_ERROR_TIMEOUT_def)

section \<open>The registry\<close>

lemma service_name_inj: "get_service_name a x = get_service_name b y \<longleftrightarrow> a = b \<and> x = y"
  by (cases a; cases b) (auto simp: get_service_name_def service_name_prefix_def decimal_inj)

lemma service_name_video [simp]: "is_video_service_name (get_service_name a x)"
  by (cases a) (auto simp: is_video_service_name_def get_service_name_def)

lemma window_focus_not_video: "\<not> is_video_service_name NAME_WINDOW_FOCUS"
  by (simp add: is_video_service_name_def service_name_prefix_def NAME_WINDOW_FOCUS_def)

definition subed_in :: "'m Server \<Rightarrow> string \<Rightarrow> int \<Rightarrow> bool" where
  "subed_in s n i = is_some_and (map_of (services s) n) (is_subed i)"

definition server_ok :: "'m Server \<Rightarrow> bool" where
  "server_ok s \<longleftrightarrow> map_wf (services s) \<and> (\<forall>p \<in> set (services s). hub_inv (need_snapshot (snd p)) (snd p))"

text \<open>The subscription of a connection brought to a given value.\<close>

definition set_sub :: "int \<Rightarrow> bool \<Rightarrow> 'm ServiceInner \<Rightarrow> 'm ServiceInner" where
  "set_sub i b v = (if is_subed i v = b then v else if b then on_subscribe i v else on_unsubscribe i v)"

lemma set_sub_same: "is_subed i v = b \<Longrightarrow> set_sub i b v = v"
  by (simp add: set_sub_def)

lemma set_sub_hub:
  assumes "hub_inv snap v"
  shows "hub_inv snap (set_sub i b v)" and "is_subed i (set_sub i b v) = b"
    and "j \<noteq> i \<Longrightarrow> viewer_of j (set_sub i b v) = viewer_of j v"
proof -
  note st = hub_inv_step [OF assms, of "Subscribe i"] hub_inv_step [OF assms, of "Unsubscribe i"]
  note vw = hub_simulates [OF assms, of _ "Subscribe i"] hub_simulates [OF assms, of _ "Unsubscribe i"]
  show "hub_inv snap (set_sub i b v)" using assms st by (simp add: set_sub_def)
  show "is_subed i (set_sub i b v) = b" using vw [of i]
    by (cases b) (auto simp: set_sub_def is_subed_viewer split: Viewer.splits)
  show "viewer_of j (set_sub i b v) = viewer_of j v" if "j \<noteq> i"
    using that vw [of j] by (simp add: set_sub_def)
qed

lemma server_subscribe_services:
  "map_of (services (server_subscribe n i b s)) m
     = (if m = n then map_option (set_sub i b) (map_of (services s) n) else map_of (services s) m)"
  by (auto simp: server_subscribe_def set_sub_def alist_simps split: option.splits)

definition captured :: "int \<Rightarrow> string list \<Rightarrow> CaptureDisplaysOperation \<Rightarrow> string \<Rightarrow> 'm ServiceInner \<Rightarrow> 'm ServiceInner" where
  "captured i ds op n v = (if is_video_service_name n then set_sub i (subscription op (n \<in> set ds) (is_subed i v)) v else v)"

lemma capture_service_services:
  "map_of (services (capture_service i ds op n s)) m
     = (if m = n then map_option (captured i ds op n) (map_of (services s) n) else map_of (services s) m)"
  by (cases "map_of (services s) n")
     (auto simp: capture_service_def captured_def server_subscribe_services)

lemma capture_fold_services:
  "distinct ns \<Longrightarrow> map_of (services (fold (capture_service i ds op) ns s)) m
     = (if m \<in> set ns then map_option (captured i ds op m) (map_of (services s) m) else map_of (services s) m)"
  by (induction ns arbitrary: s) (auto simp: capture_service_services)

lemma capture_displays_services:
  assumes "map_wf (services s)"
  shows "map_of (services (server_capture_displays i src ds op s)) m
     = map_option (captured i (map (get_service_name src) ds) op m) (map_of (services s) m)"
proof (cases "m \<in> fst ` set (services s)")
  case False
  then have "map_of (services s) m = None" by (simp add: map_of_eq_None_iff)
  with False assms show ?thesis by (simp add: server_capture_displays_def capture_fold_services)
qed (use assms in \<open>simp add: server_capture_displays_def capture_fold_services\<close>)

lemma ensure_fold_services:
  "map_of (services (fold (ensure_service src) ds s)) m
     = (case map_of (services s) m of Some v \<Rightarrow> Some v
        | None \<Rightarrow> if m \<in> get_service_name src ` set ds then Some (Service_new True) else None)"
proof (induction ds arbitrary: s)
  case (Cons d ds)
  have "map_of (services (ensure_service src d s)) m
     = (case map_of (services s) m of Some v \<Rightarrow> Some v
        | None \<Rightarrow> if m = get_service_name src d then Some (Service_new True) else None)"
    by (auto simp: ensure_service_def server_contains_def add_service_def contains_key_def alist_simps
        split: option.splits simp del: contains_key_iff)
  with Cons.IH [of "ensure_service src d s"] show ?case by (auto split: option.splits)
qed (auto split: option.splits)

lemma server_ok_ensure: "server_ok s \<Longrightarrow> server_ok (ensure_service src d s)"
  using hub_inv_new [of True]
  by (auto simp: ensure_service_def add_service_def server_ok_def alist_simps Service_new_def)

lemma server_ok_ensure_fold: "server_ok s \<Longrightarrow> server_ok (fold (ensure_service src) ds s)"
  by (induction ds arbitrary: s) (auto simp: server_ok_ensure)

lemma server_ok_get: "server_ok s \<Longrightarrow> map_of (services s) n = Some v \<Longrightarrow> hub_inv (need_snapshot v) v"
  by (auto simp: server_ok_def dest: map_of_SomeD)

lemma set_sub_snapshot [simp]: "need_snapshot (set_sub i b v) = need_snapshot v"
  by (simp add: set_sub_def on_subscribe_def on_unsubscribe_def)

lemma server_ok_subscribe:
  assumes "server_ok s"
  shows "server_ok (server_subscribe n i b s)"
proof (cases "map_of (services s) n")
  case (Some v)
  from set_sub_hub(1) [OF server_ok_get [OF assms Some], of i b]
  have "hub_inv (need_snapshot (set_sub i b v)) (set_sub i b v)" by simp
  moreover have "server_subscribe n i b s = (if is_subed i v = b then s else s\<lparr>services := AList.update n (set_sub i b v) (services s)\<rparr>)"
    by (simp add: server_subscribe_def Some set_sub_def)
  ultimately show ?thesis using assms by (auto simp: server_ok_def alist_simps)
qed (use assms in \<open>simp add: server_subscribe_def\<close>)

lemma server_ok_capture_service: "server_ok s \<Longrightarrow> server_ok (capture_service i ds op n s)"
  by (auto simp: capture_service_def server_ok_subscribe split: option.splits)

lemma server_ok_capture: "server_ok s \<Longrightarrow> server_ok (server_capture_displays i src ds op s)"
proof -
  have "server_ok s \<Longrightarrow> server_ok (fold (capture_service i ds' op) ns s)" for ds' ns
    by (induction ns arbitrary: s) (auto simp: server_ok_capture_service)
  then show "server_ok s \<Longrightarrow> ?thesis" by (simp add: server_capture_displays_def)
qed

lemma server_ok_map:
  assumes "server_ok s" "\<And>n v. hub_inv (need_snapshot v) v \<Longrightarrow> hub_inv (need_snapshot (f n v)) (f n v)"
  shows "server_ok (s\<lparr>services := map (\<lambda>(n, v). (n, f n v)) (services s), connections := c\<rparr>)"
  using assms by (auto simp: server_ok_def case_prod_beta o_def)

text \<open>One call on the registry, or one operation of a service by its own thread.\<close>

inductive server_step :: "'m Server \<Rightarrow> 'm Server \<Rightarrow> bool" where
  service_added: "server_step s (add_service n snap s)"
| service_ran: "server_step s (on_service n (hub_step x) s)"
| camera_added: "server_step s (try_add_primary_camera_service e p s)"
| monitor_added: "server_step s (try_add_monitor_service d s)"
| camera_connected: "server_step s (add_camera_connection e p i s)"
| monitor_connected: "server_step s (add_monitor_connection i noperms d s)"
| disconnected: "server_step s (remove_connection i s)"
| subscribed: "server_step s (server_subscribe n i b s)"
| new_id: "get_new_id s = (s', k) \<Longrightarrow> server_step s s'"
| option_set: "server_step s (set_video_service_opt d opt val s)"
| capture: "connection_capture_displays i source cnt follow add sub st s = Some (s', shown, multi) \<Longrightarrow> server_step s s'"

definition Server_initial :: "int \<Rightarrow> 'm Server" where
  "Server_initial k = \<lparr>connections = [], services = [], id_count = k\<rparr>"

lemma hub_inv_keep: "hub_inv (need_snapshot v) v \<Longrightarrow> hub_inv (need_snapshot (hub_step x v)) (hub_step x v)"
  using hub_inv_step [of "need_snapshot v" v x] by (simp add: hub_inv_def)

lemma hub_step_subscribe: "hub_step (Subscribe i) = on_subscribe i"
  by (rule ext) simp

lemma server_ok_add: "server_ok s \<Longrightarrow> server_ok (add_service n snap s)"
  using hub_inv_new [of snap] by (auto simp: add_service_def server_ok_def alist_simps Service_new_def)

lemma server_ok_on: "server_ok s \<Longrightarrow> server_ok (on_service n (hub_step x) s)"
  using hub_inv_keep by (auto simp: on_service_def server_ok_def alist_simps split: option.splits dest!: map_of_SomeD) fastforce

lemma server_ok_conns [simp]: "server_ok (s\<lparr>connections := c\<rparr>) = server_ok s" "server_ok (s\<lparr>id_count := k\<rparr>) = server_ok s"
  by (simp_all add: server_ok_def)

lemma capture_cases:
  assumes "connection_capture_displays i source cnt follow add sub st s = Some (s', shown, multi)"
  obtains op ds s2 where "validated_request add sub st cnt = Some (op, ds)"
    "s2 = server_capture_displays i source ds op (fold (ensure_service source) (filter (\<lambda>_. op \<noteq> ExcludeListed) ds) s)"
    "shown = filter (\<lambda>d. subed_in s2 (get_service_name source d) i) [0..<cnt]"
    "multi \<longleftrightarrow> get_subbed_displays_count i s2 > 1"
    "s' = (if follow then server_subscribe NAME_WINDOW_FOCUS i (\<not> multi) s2 else s2)"
  using assms by (auto simp: connection_capture_displays_def Let_def subed_in_def split: option.splits)

lemma server_step_ok: "server_ok s \<Longrightarrow> server_step s s' \<Longrightarrow> server_ok s'"
proof (erule server_step.cases, goal_cases)
  case 11
  then show ?case by (auto elim!: capture_cases simp: server_ok_subscribe server_ok_capture server_ok_ensure_fold)
next
  case (6 s i noperms d)
  have "server_ok (add_monitor_connection i noperms d s)" unfolding add_monitor_connection_def
    by (rule server_ok_map) (use 6 hub_inv_keep [of _ "Subscribe i"] in auto)
  with 6 show ?case by simp
next
  case (7 s i)
  have "server_ok (remove_connection i s)" unfolding remove_connection_def
    by (rule server_ok_map) (use 7 hub_inv_keep [of _ "Unsubscribe i"] in auto)
  with 7 show ?case by simp
next
  case (10 s d opt val)
  have "server_ok (set_video_service_opt d opt val s)"
    using 10 hub_inv_keep [of _ "SetOption opt val"]
    by (auto simp: set_video_service_opt_def server_ok_def case_prod_beta o_def)
  with 10 show ?case by simp
next
  case (5 s e p i)
  then show ?case using server_ok_on [of s "get_service_name Camera p" "Subscribe i", unfolded hub_step_subscribe]
    by (simp add: add_camera_connection_def Let_def)
qed (auto simp: server_ok_add server_ok_on server_ok_subscribe try_add_primary_camera_service_def
      try_add_monitor_service_def get_new_id_def)

lemma server_ok_initial: "server_ok (Server_initial k)"
  by (simp add: Server_initial_def server_ok_def)

interpretation registry: invariant_machine "\<lambda>s. \<exists>k. s = Server_initial k" server_step server_ok
  by unfold_locales (auto simp: server_ok_initial server_step_ok)

lemma validated_request_valid:
  assumes "validated_request add sub st cnt = Some (op, ds)"
  shows "set ds = {d \<in> set (snd (capture_request add sub st)). d < cnt}" and "op = fst (capture_request add sub st)"
    and "ds = [] \<Longrightarrow> snd (capture_request add sub st) = []"
proof -
  show d: "set ds = {d \<in> set (snd (capture_request add sub st)). d < cnt}" "op = fst (capture_request add sub st)"
    using assms by (auto simp: validated_request_def Let_def case_prod_beta split: if_splits)
  assume "ds = []"
  with d(1) have "filter (\<lambda>d. d < cnt) (snd (capture_request add sub st)) = []" by (auto simp: filter_empty_conv)
  then show "snd (capture_request add sub st) = []"
    using assms by (auto simp: validated_request_def Let_def case_prod_beta split: if_splits)
qed

text \<open>
  A request of a viewer for displays. In every reachable registry: a request of displays none of which
  exists changes nothing, whatever its kind. Otherwise afterwards, for every video service, the connection is
  subscribed exactly as the operation says (listed ones added, removed or set), services of new displays are
  created, no other connection notices, and a subscription that stays is not disturbed. The displays given to
  the connection's video queue are exactly the subscribed ones.
\<close>

theorem capture_displays_exact:
  assumes "server_step\<^sup>*\<^sup>* (Server_initial k) s"
    and "connection_capture_displays i source cnt follow add sub st s = Some (s', shown, multi)"
  shows "\<exists>op ds. validated_request add sub st cnt = Some (op, ds)
     \<and> set ds = {d \<in> set (snd (capture_request add sub st)). d < cnt}
     \<and> (ds = [] \<longrightarrow> snd (capture_request add sub st) = [])
     \<and> (\<forall>n. is_video_service_name n \<longrightarrow>
          subed_in s' n i = subscription op (n \<in> get_service_name source ` set ds) (subed_in s n i))
     \<and> (\<forall>n v. map_of (services s) n = Some v \<longrightarrow>
          (\<exists>v'. map_of (services s') n = Some v' \<and> (\<forall>j. j \<noteq> i \<longrightarrow> viewer_of j v' = viewer_of j v)
             \<and> (is_video_service_name n \<and> is_subed i v \<and> is_subed i v' \<longrightarrow> v' = v)))
     \<and> set shown = {d. d < cnt \<and> subscription op (d \<in> set ds) (subed_in s (get_service_name source d) i)}"
proof -
  have ok: "server_ok s" using registry.inv_reachable [OF _ assms(1)] by blast
  obtain op ds s2 where c: "validated_request add sub st cnt = Some (op, ds)"
    "s2 = server_capture_displays i source ds op (fold (ensure_service source) (filter (\<lambda>_. op \<noteq> ExcludeListed) ds) s)"
    "shown = filter (\<lambda>d. subed_in s2 (get_service_name source d) i) [0..<cnt]"
    "s' = (if follow then server_subscribe NAME_WINDOW_FOCUS i (\<not> multi) s2 else s2)"
    using assms(2) by (rule capture_cases) blast
  define s1 where "s1 = fold (ensure_service source) (filter (\<lambda>_. op \<noteq> ExcludeListed) ds) s"
  have ok1: "server_ok s1" unfolding s1_def by (rule server_ok_ensure_fold [OF ok])
  have m1: "map_of (services s1) n = (case map_of (services s) n of Some v \<Rightarrow> Some v
      | None \<Rightarrow> if op \<noteq> ExcludeListed \<and> n \<in> get_service_name source ` set ds then Some (Service_new True) else None)" for n
    unfolding s1_def by (auto simp: ensure_fold_services split: option.splits)
  have m2: "map_of (services s2) n = map_option (captured i (map (get_service_name source) ds) op n) (map_of (services s1) n)" for n
    unfolding c(2) s1_def [symmetric] using ok1 by (intro capture_displays_services) (simp add: server_ok_def)
  have video: "map_of (services s') n = map_of (services s2) n" if "is_video_service_name n" for n
    using that window_focus_not_video by (auto simp: c(4) server_subscribe_services)
  have sub1: "subed_in s1 n i = subed_in s n i" for n
    by (auto simp: subed_in_def m1 is_some_and_def is_subed_def Service_new_def split: option.splits)
  have sub2: "subed_in s2 n i = subscription op (n \<in> get_service_name source ` set ds) (subed_in s n i)"
    if "is_video_service_name n" for n
  proof (cases "map_of (services s1) n")
    case None
    then show ?thesis using sub1 [of n] m1 [of n]
      by (auto simp: subed_in_def m2 is_some_and_def subscription_def split: option.splits CaptureDisplaysOperation.splits if_splits)
  next
    case (Some v)
    from set_sub_hub(2) [OF server_ok_get [OF ok1 Some], of i] that Some sub1 [of n]
    show ?thesis by (simp add: subed_in_def m2 captured_def)
  qed
  have keep: "\<exists>v'. map_of (services s') n = Some v' \<and> (\<forall>j. j \<noteq> i \<longrightarrow> viewer_of j v' = viewer_of j v)
      \<and> (is_video_service_name n \<and> is_subed i v \<and> is_subed i v' \<longrightarrow> v' = v)" if v: "map_of (services s) n = Some v" for n v
  proof -
    have h: "hub_inv (need_snapshot v) v" by (rule server_ok_get [OF ok v])
    let ?v2 = "captured i (map (get_service_name source) ds) op n v"
    have v2: "map_of (services s2) n = Some ?v2" by (simp add: m2 m1 v)
    have h2: "hub_inv (need_snapshot v) ?v2" using set_sub_hub(1) [OF h] h by (simp add: captured_def)
    have w2: "\<forall>j. j \<noteq> i \<longrightarrow> viewer_of j ?v2 = viewer_of j v" using set_sub_hub(3) [OF h] by (simp add: captured_def)
    show ?thesis
    proof (cases "is_video_service_name n")
      case True
      then obtain b where b: "?v2 = set_sub i b v" by (simp add: captured_def)
      have "is_subed i v \<and> is_subed i ?v2 \<longrightarrow> ?v2 = v"
        unfolding b set_sub_hub(2) [OF h] by (simp add: set_sub_same)
      with True v2 w2 video show ?thesis by simp
    next
      case False
      then have "?v2 = v" by (simp add: captured_def)
      with v2 have "map_of (services s') n = Some (if follow \<and> n = NAME_WINDOW_FOCUS then set_sub i (\<not> multi) v else v)"
        by (auto simp: c(4) server_subscribe_services)
      then show ?thesis using False set_sub_hub(3) [OF h] by simp
    qed
  qed
  have shown: "set shown = {d. d < cnt \<and> subscription op (d \<in> set ds) (subed_in s (get_service_name source d) i)}"
    using sub2 by (auto simp: c(3) image_iff service_name_inj)
  have sub: "\<forall>n. is_video_service_name n \<longrightarrow>
      subed_in s' n i = subscription op (n \<in> get_service_name source ` set ds) (subed_in s n i)"
    using sub2 video by (simp add: subed_in_def)
  show ?thesis
  proof (intro exI conjI)
    show "validated_request add sub st cnt = Some (op, ds)" by (rule c(1))
    show "set ds = {d \<in> set (snd (capture_request add sub st)). d < cnt}" by (rule validated_request_valid(1) [OF c(1)])
    show "ds = [] \<longrightarrow> snd (capture_request add sub st) = []" using validated_request_valid(3) [OF c(1)] by blast
  qed (use sub keep shown in blast)+
qed

definition hub_demo :: "nat Server" where
  "hub_demo = add_monitor_connection 1 [] 0 (try_add_monitor_service 0 (Server_initial 1000))"

lemma hub_demo_reachable: "server_step\<^sup>*\<^sup>* (Server_initial 1000) hub_demo"
  unfolding hub_demo_def
  by (rule rtranclp.rtrancl_into_rtrancl [OF r_into_rtranclp [of server_step, OF monitor_added] monitor_connected])

theorem capture_displays_exact_witness:
  "let r = connection_capture_displays 1 Monitor 3 False [] [] [1, 2, 7] hub_demo
   in r \<noteq> None \<and> set (fst (snd (the r))) = {1, 2} \<and> \<not> subed_in (fst (the r)) (get_service_name Monitor 0) 1"
proof -
  have v: "validated_request [] [] [1, 2, 7] 3 = Some (SetDisplays, [1, 2])"
    by (simp add: validated_request_def capture_request_def)
  then obtain s' shown multi where c: "connection_capture_displays 1 Monitor 3 False [] [] [1, 2, 7] hub_demo = Some (s', shown, multi)"
    by (simp add: connection_capture_displays_def Let_def)
  obtain op ds where o: "validated_request [] [] [1, 2, 7] 3 = Some (op, ds)"
    "\<forall>n. is_video_service_name n \<longrightarrow>
          subed_in s' n 1 = subscription op (n \<in> get_service_name Monitor ` set ds) (subed_in hub_demo n 1)"
    "set shown = {d. d < 3 \<and> subscription op (d \<in> set ds) (subed_in hub_demo (get_service_name Monitor d) 1)}"
    using capture_displays_exact [OF hub_demo_reachable c] by blast
  from o(1) v have "op = SetDisplays" "set ds = {1, 2}" by auto
  with o(2,3) have sub: "\<forall>n. is_video_service_name n \<longrightarrow>
          subed_in s' n 1 = subscription SetDisplays (n \<in> get_service_name Monitor ` {1, 2}) (subed_in hub_demo n 1)"
    and sh: "set shown = {d. d < 3 \<and> subscription SetDisplays (d \<in> {1, 2}) (subed_in hub_demo (get_service_name Monitor d) 1)}"
    by simp_all
  have "set shown = {1, 2}" unfolding sh by (auto simp: subscription_def)
  moreover have "\<not> subed_in s' (get_service_name Monitor 0) 1"
    using sub by (auto simp: subscription_def service_name_inj)
  ultimately show ?thesis unfolding c Let_def by simp
qed

end
