(* ===== verification/KeyDsl.thy ===== *)
theory KeyDsl
  imports Prelude
begin

text \<open>
  The key language of the input library, \<^verbatim>\<open>src/libs/enigo/src/dsl.rs\<close>: text with tags such as
  \<open>{+SHIFT}\<close> becomes tokens, and the tokens become key events.

  The characters are those of \<open>char\<close>; the tokenizer treats every character but the two brackets alike, so the
  others of Rust's \<open>char\<close> behave the same. The trait \<open>KeyboardControllable\<close> is the list of events it is asked for.
\<close>

datatype Key = Shift | Control | Meta | Alt | Layout char

datatype ParseError = UnknownTag string | UnexpectedOpen | UnmatchedOpen | UnmatchedClose

datatype Token = Sequence string | Unicode string | KeyUp Key | KeyDown Key

definition flush :: "Token list \<Rightarrow> string \<Rightarrow> bool \<Rightarrow> Token list" where
  "flush tokens buffer unicode =
     (if buffer \<noteq> [] then tokens @ [if unicode then Unicode buffer else Sequence buffer] else tokens)"

text \<open>The loop that reads a tag: the current character and the rest of the input.\<close>

fun read_tag :: "string \<Rightarrow> char \<Rightarrow> string \<Rightarrow> ParseError + string \<times> string" where
  "read_tag tag c [] = Inl UnmatchedOpen"
| "read_tag tag c (x # xs) =
     (if x = CHR ''{'' then
        (case xs of
           y # ys \<Rightarrow> if y = CHR ''{'' then read_tag (tag @ [c]) (CHR ''{'') ys else Inl UnexpectedOpen
         | [] \<Rightarrow> Inl UnexpectedOpen)
      else if x = CHR ''}'' then
        (case xs of
           y # ys \<Rightarrow> if y = CHR ''}'' then read_tag (tag @ [c]) (CHR ''}'') ys else Inr (tag @ [c], xs)
         | [] \<Rightarrow> Inr (tag @ [c], []))
      else read_tag (tag @ [c]) x xs)"

datatype tag_effect = SetUnicode bool | Push Token

definition tag_meaning :: "string \<Rightarrow> tag_effect option" where
  "tag_meaning tag =
     (if tag = ''+UNICODE'' then Some (SetUnicode True)
      else if tag = ''-UNICODE'' then Some (SetUnicode False)
      else if tag = ''+SHIFT'' then Some (Push (KeyDown Shift))
      else if tag = ''-SHIFT'' then Some (Push (KeyUp Shift))
      else if tag = ''+CTRL'' then Some (Push (KeyDown Control))
      else if tag = ''-CTRL'' then Some (Push (KeyUp Control))
      else if tag = ''+META'' then Some (Push (KeyDown Meta))
      else if tag = ''-META'' then Some (Push (KeyUp Meta))
      else if tag = ''+ALT'' then Some (Push (KeyDown Alt))
      else if tag = ''-ALT'' then Some (Push (KeyUp Alt))
      else None)"

lemma read_tag_shorter: "read_tag tag c rest = Inr (tag', rest') \<Longrightarrow> length rest' \<le> length rest"
proof (induction tag c rest rule: read_tag.induct)
  case (2 tag c x xs)
  show ?case
  proof (cases xs)
    case Nil
    with 2(4) show ?thesis by (auto split: if_splits)
  next
    case (Cons y ys)
    with 2(4) show ?thesis using 2(1) [OF _ Cons] 2(2) [OF _ _ Cons] 2(3) by (force split: if_splits)
  qed
qed simp

function tokenize_loop :: "bool \<Rightarrow> Token list \<Rightarrow> string \<Rightarrow> string \<Rightarrow> ParseError + Token list" where
  "tokenize_loop unicode tokens buffer [] = Inr (flush tokens buffer unicode)"
| "tokenize_loop unicode tokens buffer (c # cs) =
     (if c = CHR ''{'' then
        (case cs of
           [] \<Rightarrow> Inl UnmatchedOpen
         | x # xs \<Rightarrow>
             if x = CHR ''{'' then tokenize_loop unicode tokens (buffer @ [CHR ''{'']) xs
             else
               (case read_tag [] x xs of
                  Inl e \<Rightarrow> Inl e
                | Inr (tag, rest) \<Rightarrow>
                    (case tag_meaning tag of
                       None \<Rightarrow> Inl (UnknownTag tag)
                     | Some (SetUnicode b) \<Rightarrow> tokenize_loop b (flush tokens buffer unicode) [] rest
                     | Some (Push t) \<Rightarrow> tokenize_loop unicode (flush tokens buffer unicode @ [t]) [] rest)))
      else if c = CHR ''}'' then
        (case cs of
           x # xs \<Rightarrow> if x = CHR ''}'' then tokenize_loop unicode tokens (buffer @ [CHR ''}'']) xs else Inl UnmatchedClose
         | [] \<Rightarrow> Inl UnmatchedClose)
      else tokenize_loop unicode tokens (buffer @ [c]) cs)"
  by pat_completeness auto
termination by (relation "measure (\<lambda>(_, _, _, s). length s)") (auto dest: read_tag_shorter)

definition tokenize :: "string \<Rightarrow> ParseError + Token list" where
  "tokenize input = tokenize_loop False [] [] input"

section \<open>Evaluation\<close>

datatype key_event = Click Key | Typed string | Released Key | Pressed Key

definition token_events :: "Token \<Rightarrow> key_event list" where
  "token_events t = (case t of
     Sequence buffer \<Rightarrow> map (\<lambda>c. Click (Layout c)) buffer
   | Unicode buffer \<Rightarrow> [Typed buffer]
   | KeyUp k \<Rightarrow> [Released k]
   | KeyDown k \<Rightarrow> [Pressed k])"

definition dsl_eval :: "string \<Rightarrow> key_event list \<times> (ParseError + unit)" where
  "dsl_eval input = (case tokenize input of Inl e \<Rightarrow> ([], Inl e) | Inr ts \<Rightarrow> (concat (map token_events ts), Inr ()))"

section \<open>The text of an error\<close>

text \<open>\<open>Display::fmt\<close> asks for \<open>to_string\<close>, which asks for \<open>fmt\<close>.\<close>

partial_function (option) error_to_string :: "ParseError \<Rightarrow> string option" where
  [code]: "error_to_string e = error_to_string e"

section \<open>Printing\<close>

text \<open>A text that stands for a list of tokens: the brackets doubled, the mode before every text.\<close>

definition escape :: "string \<Rightarrow> string" where
  "escape s = concat (map (\<lambda>c. if c = CHR ''{'' then ''{{'' else if c = CHR ''}'' then ''}}'' else [c]) s)"

definition key_tag :: "Key \<Rightarrow> string" where
  "key_tag k = (case k of Shift \<Rightarrow> ''SHIFT'' | Control \<Rightarrow> ''CTRL'' | Meta \<Rightarrow> ''META'' | Alt \<Rightarrow> ''ALT'' | Layout _ \<Rightarrow> [])"

definition print_token :: "Token \<Rightarrow> string" where
  "print_token t = (case t of
     Sequence s \<Rightarrow> ''{-UNICODE}'' @ escape s
   | Unicode s \<Rightarrow> ''{+UNICODE}'' @ escape s
   | KeyUp k \<Rightarrow> ''{-'' @ key_tag k @ ''}''
   | KeyDown k \<Rightarrow> ''{+'' @ key_tag k @ ''}'')"

definition printable :: "Token \<Rightarrow> bool" where
  "printable t = (case t of
     Sequence s \<Rightarrow> s \<noteq> [] \<and> hd s \<noteq> CHR ''}'' | Unicode s \<Rightarrow> s \<noteq> [] \<and> hd s \<noteq> CHR ''}''
   | KeyUp k \<Rightarrow> (\<forall>c. k \<noteq> Layout c) | KeyDown k \<Rightarrow> (\<forall>c. k \<noteq> Layout c))"

lemma loop_escape:
  "tokenize_loop u ts b (escape s @ rest) = tokenize_loop u ts (b @ s) rest"
  by (induction s arbitrary: b) (auto simp: escape_def)

text \<open>The next token starts with a tag, so the text before it is flushed.\<close>

definition starts_tag :: "string \<Rightarrow> bool" where
  "starts_tag rest \<longleftrightarrow> rest = [] \<or> (\<exists>x xs. rest = CHR ''{'' # x # xs \<and> x \<noteq> CHR ''{'')"

lemma starts_tag_print: "printable t \<Longrightarrow> starts_tag (print_token t @ rest)"
  by (auto simp: starts_tag_def print_token_def split: Token.splits)

lemma starts_tag_prints: "list_all printable ts \<Longrightarrow> starts_tag (concat (map print_token ts))"
  by (cases ts) (auto simp: starts_tag_print, simp add: starts_tag_def)

lemma loop_flush:
  "starts_tag rest \<Longrightarrow> tokenize_loop u ts b rest = tokenize_loop u (flush ts b u) [] rest"
  by (auto simp: starts_tag_def flush_def split: sum.splits option.splits tag_effect.splits)

text \<open>A tag is read up to its closing bracket, which no second one follows.\<close>

lemma read_tag_plain:
  "CHR ''{'' \<notin> set s \<Longrightarrow> CHR ''}'' \<notin> set s \<Longrightarrow> (\<forall>ys. rest \<noteq> CHR ''}'' # ys) \<Longrightarrow>
   read_tag tag c (s @ CHR ''}'' # rest) = Inr (tag @ c # s, rest)"
  by (induction s arbitrary: tag c) (auto split: list.splits)

lemma starts_tag_not_close: "starts_tag rest \<Longrightarrow> rest \<noteq> CHR ''}'' # ys"
  by (auto simp: starts_tag_def)

lemma escape_not_close: "s \<noteq> [] \<Longrightarrow> hd s \<noteq> CHR ''}'' \<Longrightarrow> escape s @ rest \<noteq> CHR ''}'' # ys"
  by (cases s) (auto simp: escape_def)

lemma loop_tag:
  assumes "CHR ''{'' \<notin> set (x # tag)" "CHR ''}'' \<notin> set tag" "\<forall>ys. rest \<noteq> CHR ''}'' # ys"
  shows "tokenize_loop u ts [] (CHR ''{'' # x # tag @ CHR ''}'' # rest)
    = (case tag_meaning (x # tag) of
         None \<Rightarrow> Inl (UnknownTag (x # tag))
       | Some (SetUnicode b) \<Rightarrow> tokenize_loop b ts [] rest
       | Some (Push t) \<Rightarrow> tokenize_loop u (ts @ [t]) [] rest)"
  using assms read_tag_plain [of tag rest "[]" x]
  by (auto simp: flush_def cong: option.case_cong tag_effect.case_cong)

lemma loop_print:
  assumes "printable t" "starts_tag rest"
  shows "\<exists>u'. tokenize_loop u ts [] (print_token t @ rest) = tokenize_loop u' (ts @ [t]) [] rest"
proof (cases t)
  case (Sequence s)
  with assms have s: "s \<noteq> []" "hd s \<noteq> CHR ''}''" by (auto simp: printable_def)
  have "tokenize_loop u ts [] (print_token t @ rest) = tokenize_loop False ts [] (escape s @ rest)"
    using loop_tag [of "CHR ''-''" "''UNICODE''" "escape s @ rest" u ts] escape_not_close [OF s]
    by (simp add: Sequence print_token_def tag_meaning_def)
  also have "\<dots> = tokenize_loop False (ts @ [t]) [] rest"
    using loop_flush [OF assms(2), of False ts s] s(1) by (simp add: loop_escape flush_def Sequence)
  finally show ?thesis by blast
next
  case (Unicode s)
  with assms have s: "s \<noteq> []" "hd s \<noteq> CHR ''}''" by (auto simp: printable_def)
  have "tokenize_loop u ts [] (print_token t @ rest) = tokenize_loop True ts [] (escape s @ rest)"
    using loop_tag [of "CHR ''+''" "''UNICODE''" "escape s @ rest" u ts] escape_not_close [OF s]
    by (simp add: Unicode print_token_def tag_meaning_def)
  also have "\<dots> = tokenize_loop True (ts @ [t]) [] rest"
    using loop_flush [OF assms(2), of True ts s] s(1) by (simp add: loop_escape flush_def Unicode)
  finally show ?thesis by blast
next
  case (KeyUp k)
  have "tokenize_loop u ts [] (print_token t @ rest) = tokenize_loop u (ts @ [t]) [] rest"
    using loop_tag [of "CHR ''-''" "key_tag k" rest u ts] starts_tag_not_close [OF assms(2)] assms(1)
    by (cases k) (simp_all add: KeyUp print_token_def printable_def tag_meaning_def key_tag_def)
  then show ?thesis by blast
next
  case (KeyDown k)
  have "tokenize_loop u ts [] (print_token t @ rest) = tokenize_loop u (ts @ [t]) [] rest"
    using loop_tag [of "CHR ''+''" "key_tag k" rest u ts] starts_tag_not_close [OF assms(2)] assms(1)
    by (cases k) (simp_all add: KeyDown print_token_def printable_def tag_meaning_def key_tag_def)
  then show ?thesis by blast
qed

lemma loop_prints:
  "list_all printable ts \<Longrightarrow> tokenize_loop u acc [] (concat (map print_token ts)) = Inr (acc @ ts)"
proof (induction ts arbitrary: u acc)
  case (Cons t ts)
  then obtain u' where "tokenize_loop u acc [] (print_token t @ concat (map print_token ts))
      = tokenize_loop u' (acc @ [t]) [] (concat (map print_token ts))"
    using loop_print [of t "concat (map print_token ts)" u acc] starts_tag_prints [of ts] by auto
  with Cons show ?case by simp
qed (simp add: flush_def)

section \<open>Properties\<close>

text \<open>
  Every list of key and text tokens has a text that the tokenizer reads back to exactly that list, and whose
  evaluation causes exactly the events of the tokens, in order. (The texts must be nonempty and not start with a
  closing bracket, which the language cannot express after a tag.)
\<close>

theorem dsl_print_tokenize:
  assumes "list_all printable ts"
  shows "tokenize (concat (map print_token ts)) = Inr ts
       \<and> dsl_eval (concat (map print_token ts)) = (concat (map token_events ts), Inr ())"
  using loop_prints [OF assms, of False "[]"] by (simp add: tokenize_def dsl_eval_def)

theorem dsl_print_tokenize_witness:
  "tokenize (concat (map print_token [KeyDown Shift, Sequence ''a{b}'', KeyUp Shift, Unicode ''x''])) =
     Inr [KeyDown Shift, Sequence ''a{b}'', KeyUp Shift, Unicode ''x'']"
  using dsl_print_tokenize [of "[KeyDown Shift, Sequence ''a{b}'', KeyUp Shift, Unicode ''x'']"] by (simp add: printable_def)

text \<open>An input with an error presses no key, not even the ones before the error.\<close>

lemma dsl_error_presses_nothing: "tokenize input = Inl e \<Longrightarrow> dsl_eval input = ([], Inl e)"
  by (simp add: dsl_eval_def)

text \<open>After a tag an escaped closing bracket is read as part of the tag.\<close>

lemma escaped_close_after_tag: "tokenize ''{+SHIFT}}}{-SHIFT}'' = Inl (UnknownTag ''+SHIFT}'')"
  by (simp add: tokenize_def tag_meaning_def)

text \<open>Asking for the text of an error never returns: the two functions call each other for ever.\<close>

lemma error_text_diverges: "error_to_string e = None"
proof (cases "error_to_string e")
  case (Some s)
  then have False by (rule error_to_string.raw_induct [where P = "\<lambda>_ _. False", rotated])
  then show ?thesis ..
qed

end
