(* ===== verification/PortableReader.thy ===== *)
theory PortableReader
  imports Prelude "HOL-Library.Word"
begin

text \<open>
  The portable package: \<^verbatim>\<open>src/libs/portable/generate.py\<close> writes it, \<^verbatim>\<open>src/libs/portable/src/bin_reader.rs\<close>
  reads it back when the program starts, and \<^verbatim>\<open>src/libs/portable/src/main.rs\<close> unpacks the files.

  Bytes are 8-bit words and a text is its list of code points. Indexing out of range, which panics in the
  source, is an error value. Decompression and the digest are arguments.
\<close>

type_synonym bytes = "8 word list"

section \<open>UTF-8\<close>

definition encode_char :: "nat \<Rightarrow> nat list" where
  "encode_char c =
     (if c < 0x80 then [c]
      else if c < 0x800 then [0xC0 + c div 64, 0x80 + c mod 64]
      else if c < 0x10000 then [0xE0 + c div 4096, 0x80 + c div 64 mod 64, 0x80 + c mod 64]
      else [0xF0 + c div 262144, 0x80 + c div 4096 mod 64, 0x80 + c div 64 mod 64, 0x80 + c mod 64])"

definition valid_char :: "nat \<Rightarrow> bool" where
  "valid_char c \<longleftrightarrow> c < 0xD800 \<or> 0xDFFF < c \<and> c < 0x110000"

definition cont :: "nat \<Rightarrow> nat \<Rightarrow> nat list \<Rightarrow> bool" where
  "cont lo hi bs = (case bs of b # _ \<Rightarrow> lo \<le> b \<and> b \<le> hi | [] \<Rightarrow> False)"

text \<open>The range of the second byte after a first byte of three or four.\<close>

definition second_range :: "nat \<Rightarrow> nat \<times> nat" where
  "second_range b = (if b = 0xE0 then (0xA0, 0xBF) else if b = 0xED then (0x80, 0x9F)
                     else if b = 0xF0 then (0x90, 0xBF) else if b = 0xF4 then (0x80, 0x8F) else (0x80, 0xBF))"

text \<open>
  One step of \<open>String::from_utf8_lossy\<close>: a character, or the replacement character for the longest prefix that
  could have started one, and the number of bytes used.
\<close>

definition decode_char :: "nat list \<Rightarrow> nat \<times> nat" where
  "decode_char bs =
     (let b = hd bs; r1 = tl bs; r2 = tl r1; r3 = tl r2;
          k1 = hd r1 - 0x80; k2 = hd r2 - 0x80; k3 = hd r3 - 0x80; (lo, hi) = second_range b
      in if b < 0x80 then (b, 1)
         else if 0xC2 \<le> b \<and> b \<le> 0xDF then
           (if cont 0x80 0xBF r1 then ((b - 0xC0) * 64 + k1, 2) else (0xFFFD, 1))
         else if 0xE0 \<le> b \<and> b \<le> 0xEF then
           (if \<not> cont lo hi r1 then (0xFFFD, 1)
            else if \<not> cont 0x80 0xBF r2 then (0xFFFD, 2)
            else ((b - 0xE0) * 4096 + k1 * 64 + k2, 3))
         else if 0xF0 \<le> b \<and> b \<le> 0xF4 then
           (if \<not> cont lo hi r1 then (0xFFFD, 1)
            else if \<not> cont 0x80 0xBF r2 then (0xFFFD, 2)
            else if \<not> cont 0x80 0xBF r3 then (0xFFFD, 3)
            else ((b - 0xF0) * 262144 + k1 * 4096 + k2 * 64 + k3, 4))
         else (0xFFFD, 1))"

lemma decode_char_pos: "0 < snd (decode_char bs)"
  by (simp add: decode_char_def Let_def case_prod_beta)

function lossy :: "nat list \<Rightarrow> nat list" where
  "lossy bs = (if bs = [] then [] else fst (decode_char bs) # lossy (drop (snd (decode_char bs)) bs))"
  by auto
termination by (relation "measure length") (auto simp: decode_char_pos)

declare lossy.simps [simp del]

definition from_utf8_lossy :: "bytes \<Rightarrow> nat list" where
  "from_utf8_lossy bs = lossy (map unat bs)"

definition utf8_encode :: "nat list \<Rightarrow> bytes" where
  "utf8_encode cs = map word_of_nat (concat (map encode_char cs))"

section \<open>Writing\<close>

definition IDENTIFIER :: "nat list" where
  "IDENTIFIER = map of_char ''rustdesk''"

definition to_be_bytes :: "nat \<Rightarrow> bytes" where
  "to_be_bytes n = map word_of_nat [n div 16777216 mod 256, n div 65536 mod 256, n div 256 mod 256, n mod 256]"

text \<open>\<open>to_bytes\<close> of Python raises when the number does not fit.\<close>

definition write_entry :: "nat list \<times> bytes \<times> bytes \<Rightarrow> bytes option" where
  "write_entry e =
     (case e of (path, compressed, md5_code) \<Rightarrow>
        let p = utf8_encode path
        in if length p < 2 ^ 32 \<and> length compressed < 2 ^ 32
           then Some (to_be_bytes (length p) @ p @ to_be_bytes (length compressed) @ compressed @ md5_code) else None)"

fun write_entries :: "(nat list \<times> bytes \<times> bytes) list \<Rightarrow> bytes option" where
  "write_entries [] = Some []"
| "write_entries (e # es) =
     (case write_entry e of None \<Rightarrow> None
      | Some b \<Rightarrow> (case write_entries es of None \<Rightarrow> None | Some bs \<Rightarrow> Some (b @ bs)))"

definition write_package_metadata :: "(nat list \<times> bytes \<times> bytes) list \<Rightarrow> nat list \<Rightarrow> bytes option" where
  "write_package_metadata md5_table exe =
     (case write_entries md5_table of
        None \<Rightarrow> None
      | Some body \<Rightarrow> Some (utf8_encode IDENTIFIER @ body @ utf8_encode IDENTIFIER @ utf8_encode exe))"

section \<open>Reading\<close>

definition LENGTH_BYTES :: nat where "LENGTH_BYTES = 4"
definition IDENTIFIER_LENGTH :: nat where "IDENTIFIER_LENGTH = 8"
definition MD5_LENGTH :: nat where "MD5_LENGTH = 32"

record BinaryData =
  md5_code :: bytes
  raw :: bytes
  path :: "nat list"

datatype ReadPanic = BinDataInvalid | NotValid | OutOfRange

text \<open>\<open>&data[from..to]\<close>.\<close>

definition slice :: "bytes \<Rightarrow> nat \<Rightarrow> nat \<Rightarrow> bytes option" where
  "slice data from to = (if from \<le> to \<and> to \<le> length data then Some (take (to - from) (drop from data)) else None)"

definition from_be_bytes :: "bytes \<Rightarrow> nat" where
  "from_be_bytes bs = foldl (\<lambda>n b. n * 256 + unat b) 0 bs"

text \<open>One entry at \<open>base\<close>: the entry and the base of the next.\<close>

definition read_entry :: "bytes \<Rightarrow> nat \<Rightarrow> (BinaryData \<times> nat) option" where
  "read_entry data base =
     (case slice data base (base + LENGTH_BYTES) of
        None \<Rightarrow> None
      | Some lb \<Rightarrow>
          let path_length = from_be_bytes lb; o1 = base + LENGTH_BYTES
          in case slice data o1 (o1 + path_length) of
               None \<Rightarrow> None
             | Some pb \<Rightarrow>
                 let o2 = o1 + path_length
                 in case slice data o2 (o2 + LENGTH_BYTES) of
                      None \<Rightarrow> None
                    | Some fb \<Rightarrow>
                        let file_length = from_be_bytes fb; o3 = o2 + LENGTH_BYTES
                        in case slice data o3 (o3 + file_length) of
                             None \<Rightarrow> None
                           | Some r \<Rightarrow>
                               let o4 = o3 + file_length
                               in case slice data o4 (o4 + MD5_LENGTH) of
                                    None \<Rightarrow> None
                                  | Some m \<Rightarrow> Some (\<lparr>md5_code = m, raw = r, path = from_utf8_lossy pb\<rparr>, o4 + MD5_LENGTH))"

text \<open>The loop of \<open>BinaryReader::read\<close>; \<open>None\<close> would mean that it does not end.\<close>

partial_function (option) read_loop ::
  "bytes \<Rightarrow> nat \<Rightarrow> BinaryData list \<Rightarrow> (ReadPanic + BinaryData list \<times> nat) option" where
  [code]: "read_loop data base parsed =
     (case slice data base (base + IDENTIFIER_LENGTH) of
        None \<Rightarrow> Some (Inl OutOfRange)
      | Some iden \<Rightarrow>
          if from_utf8_lossy iden = IDENTIFIER then Some (Inr (parsed, base + IDENTIFIER_LENGTH))
          else (case read_entry data base of
                  None \<Rightarrow> Some (Inl OutOfRange)
                | Some (entry, next) \<Rightarrow> read_loop data next (parsed @ [entry])))"

definition BinaryReader_read :: "bytes \<Rightarrow> (ReadPanic + BinaryData list \<times> nat list) option" where
  "BinaryReader_read data =
     (if \<not> length data > IDENTIFIER_LENGTH then Some (Inl BinDataInvalid)
      else if from_utf8_lossy (take IDENTIFIER_LENGTH data) \<noteq> IDENTIFIER then Some (Inl NotValid)
      else case read_loop data IDENTIFIER_LENGTH [] of
             None \<Rightarrow> None
           | Some (Inl p) \<Rightarrow> Some (Inl p)
           | Some (Inr (parsed, base)) \<Rightarrow> Some (Inr (parsed, from_utf8_lossy (drop base data))))"

section \<open>Unpacking\<close>

text \<open>The files below the target directory, by their path in the package.\<close>

type_synonym folder = "nat list \<rightharpoonup> bytes"

definition write_to_file :: "(bytes \<Rightarrow> bytes) \<Rightarrow> (bytes \<Rightarrow> bytes) \<Rightarrow> BinaryData \<Rightarrow> folder \<Rightarrow> folder" where
  "write_to_file decompress md5_hex file dir =
     (case dir (path file) of
        Some f \<Rightarrow> if from_utf8_lossy (md5_hex f) = from_utf8_lossy (md5_code file) then dir
                  else dir(path file \<mapsto> decompress (raw file))
      | None \<Rightarrow> dir(path file \<mapsto> decompress (raw file)))"

definition setup_files :: "(bytes \<Rightarrow> bytes) \<Rightarrow> (bytes \<Rightarrow> bytes) \<Rightarrow> BinaryData list \<Rightarrow> bool \<Rightarrow> folder \<Rightarrow> folder" where
  "setup_files decompress md5_hex files fresh dir =
     fold (write_to_file decompress md5_hex) files (if fresh then Map.empty else dir)"

section \<open>UTF-8 round trip\<close>

lemma split64: "c = c div 64 * 64 + c mod 64" "c div 64 = c div 4096 * 64 + c div 64 mod 64"
  "c div 4096 = c div 262144 * 64 + c div 4096 mod 64" for c :: nat
proof -
  have "c div 4096 = c div 64 div 64" "c div 262144 = c div 4096 div 64" by (simp_all add: div_mult2_eq [symmetric])
  then show "c = c div 64 * 64 + c mod 64" "c div 64 = c div 4096 * 64 + c div 64 mod 64"
    "c div 4096 = c div 262144 * 64 + c div 4096 mod 64" by simp_all
qed

lemma decode_encode:
  assumes "valid_char c"
  shows "decode_char (encode_char c @ rest) = (c, length (encode_char c))"
proof -
  define l m h t where "l = c mod 64" "m = c div 64 mod 64" "h = c div 4096 mod 64" "t = c div 262144"
  note d = this
  have lt: "l < 64" "m < 64" "h < 64" by (simp_all add: d)
  have c: "c = t * 262144 + h * 4096 + m * 64 + l" using split64 [of c] unfolding d by linarith
  consider "c < 0x80" | "0x80 \<le> c" "c < 0x800" | "0x800 \<le> c" "c < 0x10000" | "0x10000 \<le> c" "c < 0x110000"
    using assms unfolding valid_char_def by linarith
  then show ?thesis
  proof cases
    case 1
    then show ?thesis by (simp add: encode_char_def decode_char_def)
  next
    case 2
    have "c div 64 < 64" using 2 by (simp add: less_mult_imp_div_less)
    then have q: "c div 64 = m" by (simp add: d)
    have e: "encode_char c = [0xC0 + m, 0x80 + l]" using 2 q by (simp add: encode_char_def d)
    have cc: "c = m * 64 + l" using split64(1) [of c] unfolding q d(1) [symmetric] .
    then have "2 \<le> m" "m \<le> 31" using 2 lt by linarith+
    with cc show ?thesis unfolding e using lt by (simp add: decode_char_def cont_def case_prod_beta)
  next
    case 3
    have "c div 4096 < 64" using 3 by (simp add: less_mult_imp_div_less)
    then have q: "c div 4096 = h" by (simp add: d)
    have "t = 0" using 3 by (simp add: d)
    have e: "encode_char c = [0xE0 + h, 0x80 + m, 0x80 + l]" using 3 q by (simp add: encode_char_def d)
    have r: "h \<le> 15" "c = h * 4096 + m * 64 + l" "h = 0 \<Longrightarrow> 32 \<le> m" "h = 13 \<Longrightarrow> m \<le> 31"
      using 3 c lt assms \<open>t = 0\<close> unfolding valid_char_def by linarith+
    then show ?thesis unfolding e using lt by (auto simp: decode_char_def cont_def second_range_def Let_def)
  next
    case 4
    have e: "encode_char c = [0xF0 + t, 0x80 + h, 0x80 + m, 0x80 + l]" using 4 by (simp add: encode_char_def d)
    have r: "t \<le> 4" "t = 0 \<Longrightarrow> 16 \<le> h" "t = 4 \<Longrightarrow> h \<le> 15" using 4 c lt by linarith+
    show ?thesis unfolding e using lt r c by (auto simp: decode_char_def cont_def second_range_def Let_def)
  qed
qed

lemma encode_char_not_Nil [simp]: "encode_char c \<noteq> []"
  by (simp add: encode_char_def)

lemma lossy_encode: "list_all valid_char cs \<Longrightarrow> lossy (concat (map encode_char cs)) = cs"
proof (induction cs)
  case (Cons c cs)
  then show ?case by (subst lossy.simps) (simp add: decode_encode)
qed (simp add: lossy.simps)

lemma encode_char_byte: "valid_char c \<Longrightarrow> b \<in> set (encode_char c) \<Longrightarrow> b < 256"
  by (auto simp: encode_char_def valid_char_def split: if_splits)

lemma unat_bytes: "\<forall>b \<in> set bs. b < 256 \<Longrightarrow> map unat (map word_of_nat bs :: 8 word list) = bs"
  by (induction bs) (auto simp: unat_of_nat)

lemma utf8_roundtrip:
  assumes "list_all valid_char cs"
  shows "from_utf8_lossy (utf8_encode cs) = cs"
proof -
  have "\<forall>b \<in> set (concat (map encode_char cs)). b < 256"
    using assms encode_char_byte by (auto simp: list_all_iff)
  then show ?thesis using lossy_encode [OF assms] unfolding from_utf8_lossy_def utf8_encode_def by (simp only: unat_bytes)
qed

text \<open>A text of plain characters only comes from the same bytes.\<close>

lemma cont_hd: "cont lo hi bs \<Longrightarrow> lo \<le> hd bs \<and> hd bs \<le> hi"
  by (auto simp: cont_def split: list.splits)

lemma decode_high: "0x80 \<le> hd bs \<Longrightarrow> 0x80 \<le> fst (decode_char bs)"
proof -
  assume b: "0x80 \<le> hd bs"
  define c where "c = hd bs"
  define k1 where "k1 = hd (tl bs) - 0x80"
  have e0: "cont 0xA0 0xBF (tl bs) \<Longrightarrow> 32 \<le> k1" and f0: "cont 0x90 0xBF (tl bs) \<Longrightarrow> 16 \<le> k1"
    by (auto simp: k1_def dest!: cont_hd)
  have 2: "0xC2 \<le> c \<Longrightarrow> 0x80 \<le> (c - 0xC0) * 64 + k1" by simp
  have 3: "0xE0 \<le> c \<Longrightarrow> cont (fst (second_range c)) (snd (second_range c)) (tl bs) \<Longrightarrow> c \<le> 0xEF \<Longrightarrow>
      0x80 \<le> (c - 0xE0) * 4096 + k1 * 64 + x" for x
    using e0 by (cases "c = 0xE0") (auto simp: second_range_def)
  have 4: "0xF0 \<le> c \<Longrightarrow> cont (fst (second_range c)) (snd (second_range c)) (tl bs) \<Longrightarrow>
      0x80 \<le> (c - 0xF0) * 262144 + k1 * 4096 + x * 64 + y" for x y
    using f0 by (cases "c = 0xF0") (auto simp: second_range_def)
  show ?thesis using b 2 3 4
    by (simp add: decode_char_def Let_def case_prod_beta c_def [symmetric] k1_def [symmetric])
qed

lemma decode_plain: "fst (decode_char bs) < 0x80 \<Longrightarrow> hd bs = fst (decode_char bs) \<and> snd (decode_char bs) = 1"
proof -
  assume "fst (decode_char bs) < 0x80"
  then have "hd bs < 0x80" using decode_high [of bs] by linarith
  then show ?thesis by (simp add: decode_char_def Let_def case_prod_beta)
qed

lemma lossy_plain: "lossy bs = cs \<Longrightarrow> \<forall>c \<in> set cs. c < 0x80 \<Longrightarrow> bs = cs"
proof (induction bs arbitrary: cs rule: lossy.induct)
  case (1 bs)
  show ?case
  proof (cases "bs = []")
    case False
    then have cs: "cs = fst (decode_char bs) # lossy (drop (snd (decode_char bs)) bs)" using 1(2) by (subst (asm) lossy.simps) simp
    with 1(3) have h: "hd bs = fst (decode_char bs)" "snd (decode_char bs) = 1" using decode_plain [of bs] by auto
    from 1(1) [OF False refl] 1(3) cs have "drop (snd (decode_char bs)) bs = tl cs" by simp
    with h cs False show ?thesis by (cases bs) auto
  qed (use 1(2) in \<open>simp add: lossy.simps\<close>)
qed

section \<open>Reading what was written\<close>

lemma slice_append: "slice (xs @ ys @ zs) (length xs) (length xs + length ys) = Some ys"
  by (simp add: slice_def)

lemma slice_eqI: "data = xs @ ys @ zs \<Longrightarrow> from = length xs \<Longrightarrow> to = length xs + length ys \<Longrightarrow> slice data from to = Some ys"
  by (simp add: slice_append)

lemma length_to_be [simp]: "length (to_be_bytes n) = 4"
  by (simp add: to_be_bytes_def)

lemma from_to_be: "n < 2 ^ 32 \<Longrightarrow> from_be_bytes (to_be_bytes n) = n"
proof -
  assume n: "n < 2 ^ 32"
  have "unat (word_of_nat (x mod 256) :: 8 word) = x mod 256" for x by (simp add: unat_of_nat)
  then have "from_be_bytes (to_be_bytes n)
     = ((n div 16777216 mod 256 * 256 + n div 65536 mod 256) * 256 + n div 256 mod 256) * 256 + n mod 256"
    by (simp add: from_be_bytes_def to_be_bytes_def)
  also have "n div 16777216 mod 256 = n div 65536 div 256"
    using n by (simp add: div_mult2_eq [symmetric] less_mult_imp_div_less)
  also have "n div 65536 div 256 * 256 + n div 65536 mod 256 = n div 65536" by (rule div_mult_mod_eq)
  also have "n div 65536 = n div 256 div 256" by (simp add: div_mult2_eq [symmetric])
  also have "n div 256 div 256 * 256 + n div 256 mod 256 = n div 256" by (rule div_mult_mod_eq)
  also have "n div 256 * 256 + n mod 256 = n" by (rule div_mult_mod_eq)
  finally show ?thesis .
qed

definition entry_data :: "nat list \<times> bytes \<times> bytes \<Rightarrow> BinaryData" where
  "entry_data e = (case e of (p, compressed, m) \<Rightarrow> \<lparr>md5_code = m, raw = compressed, path = p\<rparr>)"

text \<open>
  An entry that the writer makes: a text that can be encoded, whose length does not look like the identifier,
  and a digest of 32 characters.
\<close>

definition entry_ok :: "nat list \<times> bytes \<times> bytes \<Rightarrow> bool" where
  "entry_ok e = (case e of (p, compressed, m) \<Rightarrow>
     list_all valid_char p \<and> length (utf8_encode p) < 0x72000000 \<and> length m = MD5_LENGTH)"

lemma read_entry_written:
  assumes "write_entry e = Some b" "entry_ok e"
  shows "read_entry (pre @ b @ post) (length pre) = Some (entry_data e, length pre + length b)"
proof -
  obtain p z m where e: "e = (p, z, m)" by (cases e)
  let ?p = "utf8_encode p"
  have b: "b = to_be_bytes (length ?p) @ ?p @ to_be_bytes (length z) @ z @ m"
    and l: "length ?p < 2 ^ 32" "length z < 2 ^ 32"
    using assms(1) by (auto simp: write_entry_def e Let_def split: if_splits)
  have m: "length m = MD5_LENGTH" and p: "list_all valid_char p" using assms(2) by (auto simp: entry_ok_def e)
  let ?d = "pre @ b @ post" and ?n = "length pre"
  have s1: "slice ?d ?n (?n + LENGTH_BYTES) = Some (to_be_bytes (length ?p))"
    by (rule slice_eqI [of _ pre _ "?p @ to_be_bytes (length z) @ z @ m @ post"]) (simp_all add: b LENGTH_BYTES_def)
  have s2: "slice ?d (?n + LENGTH_BYTES) (?n + LENGTH_BYTES + length ?p) = Some ?p"
    by (rule slice_eqI [of _ "pre @ to_be_bytes (length ?p)" _ "to_be_bytes (length z) @ z @ m @ post"])
       (simp_all add: b LENGTH_BYTES_def)
  have s3: "slice ?d (?n + LENGTH_BYTES + length ?p) (?n + LENGTH_BYTES + length ?p + LENGTH_BYTES) = Some (to_be_bytes (length z))"
    by (rule slice_eqI [of _ "pre @ to_be_bytes (length ?p) @ ?p" _ "z @ m @ post"]) (simp_all add: b LENGTH_BYTES_def)
  have s4: "slice ?d (?n + LENGTH_BYTES + length ?p + LENGTH_BYTES) (?n + LENGTH_BYTES + length ?p + LENGTH_BYTES + length z) = Some z"
    by (rule slice_eqI [of _ "pre @ to_be_bytes (length ?p) @ ?p @ to_be_bytes (length z)" _ "m @ post"])
       (simp_all add: b LENGTH_BYTES_def)
  have s5: "slice ?d (?n + LENGTH_BYTES + length ?p + LENGTH_BYTES + length z)
      (?n + LENGTH_BYTES + length ?p + LENGTH_BYTES + length z + MD5_LENGTH) = Some m"
    by (rule slice_eqI [of _ "pre @ to_be_bytes (length ?p) @ ?p @ to_be_bytes (length z) @ z" _ post])
       (simp_all add: b m LENGTH_BYTES_def)
  have "length b = LENGTH_BYTES + length ?p + LENGTH_BYTES + length z + MD5_LENGTH" by (simp add: b m LENGTH_BYTES_def)
  then show ?thesis
    unfolding read_entry_def s1 option.case Let_def from_to_be [OF l(1)] s2 s3 from_to_be [OF l(2)] s4 s5
    by (simp add: e entry_data_def utf8_roundtrip [OF p])
qed


text \<open>The first byte of an entry is not that of the identifier.\<close>

lemma entry_not_identifier:
  assumes "n < 0x72000000" "take 8 (to_be_bytes n @ rest) = iden"
  shows "from_utf8_lossy iden \<noteq> IDENTIFIER"
proof
  assume "from_utf8_lossy iden = IDENTIFIER"
  moreover have "\<forall>c \<in> set IDENTIFIER. c < 0x80" by (simp add: IDENTIFIER_def)
  ultimately have "map unat iden = IDENTIFIER" unfolding from_utf8_lossy_def by (rule lossy_plain)
  then have "hd (map unat iden) = 0x72" by (simp add: IDENTIFIER_def)
  moreover have "hd (map unat iden) = unat (word_of_nat (n div 16777216 mod 256) :: 8 word)"
    unfolding assms(2) [symmetric] to_be_bytes_def by simp
  ultimately have "n div 16777216 mod 256 = 0x72" by (simp add: unat_of_nat)
  moreover have "n div 16777216 < 0x72" using assms(1) by (simp add: less_mult_imp_div_less)
  ultimately show False by simp
qed

lemma identifier_valid: "list_all valid_char IDENTIFIER"
  by (simp add: IDENTIFIER_def valid_char_def)

lemma length_identifier [simp]: "length (utf8_encode IDENTIFIER) = IDENTIFIER_LENGTH"
  by (simp add: utf8_encode_def IDENTIFIER_def encode_char_def IDENTIFIER_LENGTH_def)

lemma write_entry_length: "write_entry e = Some b \<Longrightarrow> entry_ok e \<Longrightarrow> 40 \<le> length b"
  by (auto simp: write_entry_def entry_ok_def Let_def MD5_LENGTH_def split: prod.splits if_splits)

lemma write_entry_start:
  assumes "write_entry e = Some b" "entry_ok e"
  shows "\<exists>n rest. b = to_be_bytes n @ rest \<and> n < 0x72000000"
proof -
  obtain p z m where e: "e = (p, z, m)" by (cases e)
  then have "b = to_be_bytes (length (utf8_encode p)) @ (utf8_encode p @ to_be_bytes (length z) @ z @ m)"
    using assms(1) by (simp add: write_entry_def Let_def split: if_splits)
  moreover have "length (utf8_encode p) < 0x72000000" using assms(2) by (simp add: entry_ok_def e)
  ultimately show ?thesis by blast
qed

lemma read_loop_written:
  assumes "write_entries es = Some body" "list_all entry_ok es"
  shows "read_loop (pre @ body @ utf8_encode IDENTIFIER @ exe) (length pre) parsed
     = Some (Inr (parsed @ map entry_data es, length pre + length body + IDENTIFIER_LENGTH))"
  using assms
proof (induction es arbitrary: body pre parsed)
  case Nil
  have "slice (pre @ utf8_encode IDENTIFIER @ exe) (length pre) (length pre + IDENTIFIER_LENGTH) = Some (utf8_encode IDENTIFIER)"
    using slice_append [of pre "utf8_encode IDENTIFIER" exe] by simp
  then show ?case using Nil by (subst read_loop.simps) (simp add: utf8_roundtrip identifier_valid)
next
  case (Cons e es)
  then obtain b bs where w: "write_entry e = Some b" "write_entries es = Some bs" "body = b @ bs"
    by (auto split: option.splits)
  let ?post = "bs @ utf8_encode IDENTIFIER @ exe"
  have ok: "entry_ok e" "list_all entry_ok es" using Cons.prems by auto
  have len: "40 \<le> length b" by (rule write_entry_length [OF w(1) ok(1)])
  have sl: "slice (pre @ b @ ?post) (length pre) (length pre + IDENTIFIER_LENGTH) = Some (take 8 b)"
    using len by (simp add: slice_def IDENTIFIER_LENGTH_def)
  obtain n rest where b: "b = to_be_bytes n @ rest" "n < 0x72000000" using write_entry_start [OF w(1) ok(1)] by blast
  have ni: "from_utf8_lossy (take 8 b) \<noteq> IDENTIFIER" by (rule entry_not_identifier [OF b(2)]) (simp add: b(1))
  have "read_loop (pre @ b @ ?post) (length pre) parsed
      = read_loop (pre @ b @ ?post) (length pre + length b) (parsed @ [entry_data e])"
    by (subst read_loop.simps) (simp add: sl ni read_entry_written [OF w(1) ok(1)])
  also have "\<dots> = Some (Inr (parsed @ map entry_data (e # es), length pre + length body + IDENTIFIER_LENGTH))"
    using Cons.IH [OF w(2) ok(2), of "pre @ b" "parsed @ [entry_data e]"] w(3) by simp
  finally show ?case using w(3) by simp
qed

section \<open>Properties\<close>

text \<open>
  C27. The reader gives back what the packer wrote: for every table of files that the packer accepts, with
  encodable names shorter than \<open>0x72000000\<close> bytes and digests of 32 characters, the package is read as exactly
  these names, compressed contents and digests, in order, and the same executable.
\<close>

theorem portable_package_roundtrip:
  assumes "write_package_metadata md5_table exe = Some data" and "list_all entry_ok md5_table" and "list_all valid_char exe"
  shows "BinaryReader_read data = Some (Inr (map entry_data md5_table, exe))"
proof -
  let ?I = "utf8_encode IDENTIFIER"
  obtain body where w: "write_entries md5_table = Some body" and d: "data = ?I @ body @ ?I @ utf8_encode exe"
    using assms(1) by (auto simp: write_package_metadata_def split: option.splits)
  have "length ?I = IDENTIFIER_LENGTH" "IDENTIFIER_LENGTH = 8" by (simp_all add: IDENTIFIER_LENGTH_def)
  then have "length data > IDENTIFIER_LENGTH" "take IDENTIFIER_LENGTH data = ?I"
    "drop (IDENTIFIER_LENGTH + length body + IDENTIFIER_LENGTH) data = utf8_encode exe"
    by (simp_all add: d)
  moreover have "read_loop data IDENTIFIER_LENGTH []
      = Some (Inr (map entry_data md5_table, IDENTIFIER_LENGTH + length body + IDENTIFIER_LENGTH))"
    using read_loop_written [OF w assms(2), of ?I "utf8_encode exe" "[]"] by (simp add: d)
  ultimately show ?thesis
    by (simp add: BinaryReader_read_def utf8_roundtrip identifier_valid assms(3))
qed

definition package_demo :: "(nat list \<times> bytes \<times> bytes) list" where
  "package_demo = [([0x61, 0xE9, 0x1F600], [1, 2, 3], replicate 32 0x30)]"

theorem portable_package_roundtrip_witness:
  "\<exists>data. write_package_metadata package_demo [0x61] = Some data
     \<and> BinaryReader_read data = Some (Inr (map entry_data package_demo, [0x61]))"
proof -
  have ok: "list_all entry_ok package_demo" "list_all valid_char [0x61]"
    by (simp_all add: package_demo_def entry_ok_def valid_char_def utf8_encode_def encode_char_def MD5_LENGTH_def)
  have "write_package_metadata package_demo [0x61] \<noteq> None"
    by (simp add: write_package_metadata_def package_demo_def write_entry_def utf8_encode_def encode_char_def Let_def)
  then obtain data where "write_package_metadata package_demo [0x61] = Some data" by auto
  with portable_package_roundtrip [OF this ok] show ?thesis by blast
qed

subsection \<open>Termination\<close>

lemma slice_Some: "slice data from to = Some s \<Longrightarrow> from \<le> to \<and> to \<le> length data \<and> length s = to - from"
  by (auto simp: slice_def split: if_splits)

lemma read_entry_advances:
  "read_entry data base = Some (entry, nx) \<Longrightarrow> base + 40 \<le> nx \<and> nx \<le> length data"
  by (auto simp: read_entry_def Let_def LENGTH_BYTES_def MD5_LENGTH_def split: option.splits dest!: slice_Some)

lemma read_loop_ends:
  "\<exists>r. read_loop data base parsed = Some r
     \<and> (case r of Inl p \<Rightarrow> p = OutOfRange
        | Inr (files, end) \<Rightarrow> base + 40 * (length files - length parsed) + IDENTIFIER_LENGTH \<le> end \<and> end \<le> length data
            \<and> length parsed \<le> length files)"
proof (induction "length data - base" arbitrary: base parsed rule: less_induct)
  case less
  show ?case
  proof (cases "slice data base (base + IDENTIFIER_LENGTH)")
    case None
    then show ?thesis by (subst read_loop.simps) simp
  next
    case (Some iden)
    show ?thesis
    proof (cases "from_utf8_lossy iden = IDENTIFIER \<or> read_entry data base = None")
      case True
      then show ?thesis using Some slice_Some [OF Some] by (subst read_loop.simps) auto
    next
      case False
      then obtain entry nx where e: "read_entry data base = Some (entry, nx)" by auto
      note adv = read_entry_advances [OF e]
      have l: "read_loop data base parsed = read_loop data nx (parsed @ [entry])"
        using False Some e by (subst read_loop.simps) simp
      from adv have "length data - nx < length data - base" by linarith
      from less [OF this, of "parsed @ [entry]"] obtain r where r: "read_loop data nx (parsed @ [entry]) = Some r"
        "case r of Inl p \<Rightarrow> p = OutOfRange
        | Inr (files, end) \<Rightarrow> nx + 40 * (length files - length (parsed @ [entry])) + IDENTIFIER_LENGTH \<le> end \<and> end \<le> length data
            \<and> length (parsed @ [entry]) \<le> length files" by blast
      then show ?thesis unfolding l using adv by (auto split: sum.splits)
    qed
  qed
qed

text \<open>
  C28. The reader ends on every input: it stops with a panic, or with at most one file for every forty bytes of
  the package, never in an endless loop.
\<close>

theorem portable_reader_ends:
  "\<exists>r. BinaryReader_read data = Some r
     \<and> (case r of Inl p \<Rightarrow> True | Inr (files, exe) \<Rightarrow> 40 * length files + 16 \<le> length data)"
proof -
  obtain r where r: "read_loop data IDENTIFIER_LENGTH [] = Some r"
    "case r of Inl p \<Rightarrow> p = OutOfRange
       | Inr (files, end) \<Rightarrow> IDENTIFIER_LENGTH + 40 * (length files - length ([] :: BinaryData list)) + IDENTIFIER_LENGTH \<le> end
            \<and> end \<le> length data \<and> length ([] :: BinaryData list) \<le> length files"
    using read_loop_ends [of data IDENTIFIER_LENGTH "[]"] by blast
  then show ?thesis
    by (auto simp: BinaryReader_read_def IDENTIFIER_LENGTH_def split: sum.splits)
qed

subsection \<open>Unpacking\<close>

lemma write_to_file_other: "p \<noteq> path f \<Longrightarrow> write_to_file dec md5 f dir p = dir p"
  by (auto simp: write_to_file_def split: option.splits)

lemma write_to_file_own:
  assumes "\<And>g. dir (path f) = Some g \<Longrightarrow> from_utf8_lossy (md5 g) = from_utf8_lossy (md5_code f) \<Longrightarrow> g = dec (raw f)"
  shows "write_to_file dec md5 f dir (path f) = Some (dec (raw f))"
  using assms by (auto simp: write_to_file_def split: option.splits)

text \<open>
  After the setup every file of the package has its content, given that an old file with the digest of a new
  one has its content; files of other names are untouched unless the directory was cleared.
\<close>

lemma setup_files_exact:
  assumes "distinct (map path files)"
    and "\<And>f g. f \<in> set files \<Longrightarrow> dir (path f) = Some g \<Longrightarrow> from_utf8_lossy (md5 g) = from_utf8_lossy (md5_code f) \<Longrightarrow>
           g = dec (raw f)"
  shows "setup_files dec md5 files fresh dir p =
     (case find (\<lambda>f. path f = p) files of Some f \<Rightarrow> Some (dec (raw f)) | None \<Rightarrow> if fresh then None else dir p)"
proof -
  have run: "fold (write_to_file dec md5) fs d p = (case find (\<lambda>f. path f = p) fs of Some f \<Rightarrow> Some (dec (raw f)) | None \<Rightarrow> d p)"
    if "distinct (map path fs)" "\<And>f g. f \<in> set fs \<Longrightarrow> d (path f) = Some g \<Longrightarrow>
        from_utf8_lossy (md5 g) = from_utf8_lossy (md5_code f) \<Longrightarrow> g = dec (raw f)" for fs d
    using that
  proof (induction fs arbitrary: d)
    case (Cons f fs)
    let ?d = "write_to_file dec md5 f d"
    have other: "?d (path g) = d (path g)" if "g \<in> set fs" for g
      using that Cons.prems(1) by (intro write_to_file_other) (auto simp: image_iff)
    have own: "?d (path f) = Some (dec (raw f))" using Cons.prems(2) by (intro write_to_file_own) auto
    have IH: "fold (write_to_file dec md5) fs ?d p
        = (case find (\<lambda>f. path f = p) fs of Some f \<Rightarrow> Some (dec (raw f)) | None \<Rightarrow> ?d p)"
    proof (rule Cons.IH)
      show "distinct (map path fs)" using Cons.prems(1) by simp
      fix g h
      assume "g \<in> set fs" "?d (path g) = Some h" "from_utf8_lossy (md5 h) = from_utf8_lossy (md5_code g)"
      then show "h = dec (raw g)" using Cons.prems(2) [of g h] other [of g] by simp
    qed
    show ?case
    proof (cases "path f = p")
      case True
      then have "find (\<lambda>f. path f = p) fs = None" using Cons.prems(1) by (auto simp: find_None_iff image_iff)
      with IH have "fold (write_to_file dec md5) fs ?d p = ?d p" by (simp only: option.case)
      also have "\<dots> = Some (dec (raw f))" using own unfolding True .
      finally show ?thesis using True by (simp only: fold_simps find.simps if_True option.case comp_apply simp_thms)
    next
      case False
      with IH write_to_file_other [of p f dec md5 d] show ?thesis by (simp split: option.splits)
    qed
  qed simp
  show ?thesis
  proof (cases fresh)
    case True
    then show ?thesis using run [OF assms(1), of Map.empty] by (simp add: setup_files_def)
  next
    case False
    then show ?thesis using run [OF assms] by (simp only: setup_files_def if_False)
  qed
qed

end
