(* ===== verification/MediaBuffers.thy ===== *)
theory MediaBuffers
  imports Prelude "HOL-Library.Word"
begin

text \<open>
  Bounded buffers between capture, playback and the clipboard: the queue of audio samples
  (\<^verbatim>\<open>src/libs/scrap/src/common/pcm.rs\<close>), the slot of the latest captured frame
  (\<^verbatim>\<open>src/libs/scrap/src/common/frame_slot.rs\<close>) and the registry of clipboard channels and watchers
  (\<^verbatim>\<open>src/src/client/clipboard_lifecycle.rs\<close>).

  A sample is a value of any type; the counter of dropped samples, a \<open>u64\<close>, is a natural number.
\<close>

section \<open>Audio samples\<close>

record 'a PcmQueue =
  samples :: "'a list"
  channels :: nat
  capacity :: nat
  dropped_samples :: nat

definition PcmQueue_new :: "nat \<Rightarrow> nat \<Rightarrow> 'a PcmQueue" where
  "PcmQueue_new chans cap =
     (let ch = max chans 1
      in \<lparr>samples = [], channels = ch, capacity = max (cap div ch) 1 * ch, dropped_samples = 0\<rparr>)"

definition pcm_clear :: "'a PcmQueue \<Rightarrow> 'a PcmQueue" where
  "pcm_clear q = q\<lparr>samples := []\<rparr>"

text \<open>The whole frames of a packet.\<close>

definition whole_frames :: "nat \<Rightarrow> 'a list \<Rightarrow> 'a list" where
  "whole_frames ch input = take (length input div ch * ch) input"

definition pcm_push :: "'a list \<Rightarrow> 'a PcmQueue \<Rightarrow> 'a PcmQueue" where
  "pcm_push packet q =
     (let input = whole_frames (channels q) packet
      in if length input > capacity q
         then q\<lparr>dropped_samples := dropped_samples q + (length (samples q) + length input - capacity q),
                samples := drop (length input - capacity q) input\<rparr>
         else
           let overflow = length (samples q) + length input - capacity q
           in q\<lparr>samples := drop overflow (samples q) @ input, dropped_samples := dropped_samples q + overflow\<rparr>)"

definition SAMPLE_BYTES :: nat where "SAMPLE_BYTES = 4"

fun chunks_exact :: "'b list \<Rightarrow> ('b list) list" where
  "chunks_exact (a # b # c # d # rest) = [a, b, c, d] # chunks_exact rest"
| "chunks_exact _ = []"

definition pcm_push_ne_bytes :: "('b list \<Rightarrow> 'a) \<Rightarrow> 'b list \<Rightarrow> 'a PcmQueue \<Rightarrow> 'a PcmQueue \<times> nat" where
  "pcm_push_ne_bytes from_ne_bytes bytes q =
     (let frame_bytes = SAMPLE_BYTES * channels q;
          whole = length bytes div frame_bytes * frame_bytes
      in (pcm_push (map from_ne_bytes (chunks_exact (take whole bytes))) q, length bytes - whole))"

text \<open>The samples that fill the output, when there are enough.\<close>

definition pcm_pop_exact :: "nat \<Rightarrow> 'a PcmQueue \<Rightarrow> 'a PcmQueue \<times> 'a list option" where
  "pcm_pop_exact requested q =
     (if requested = 0 \<or> length (samples q) < requested then (q, None)
      else (q\<lparr>samples := drop requested (samples q)\<rparr>, Some (take requested (samples q))))"

section \<open>The latest frame\<close>

record CaptureFrameSlot =
  frame :: "nat list"
  ready :: bool
  last_update :: instant
  timeout :: duration
  enable :: bool

definition Slot_new :: "duration \<Rightarrow> instant \<Rightarrow> CaptureFrameSlot" where
  "Slot_new limit t = \<lparr>frame = [], ready = False, last_update = t, timeout = limit, enable = False\<rparr>"

definition Slot_set_enable :: "bool \<Rightarrow> CaptureFrameSlot \<Rightarrow> CaptureFrameSlot" where
  "Slot_set_enable b s = s\<lparr>enable := b, ready := False\<rparr>"

definition Slot_update :: "nat list \<Rightarrow> instant \<Rightarrow> CaptureFrameSlot \<Rightarrow> CaptureFrameSlot" where
  "Slot_update data t s = (if \<not> enable s then s else s\<lparr>frame := data, ready := True, last_update := t\<rparr>)"

text \<open>
  \<open>take\<close> with the buffers \<open>dst\<close> and \<open>last\<close> of the caller. \<open>would_block_if_equal\<close> fails on equal buffers and
  otherwise copies the new frame to \<open>last\<close>.
\<close>

definition Slot_take ::
  "instant \<Rightarrow> nat list \<Rightarrow> nat list \<Rightarrow> CaptureFrameSlot \<Rightarrow> CaptureFrameSlot \<times> nat list \<times> nat list \<times> bool" where
  "Slot_take t dst old s =
     (if \<not> enable s \<or> \<not> ready s then (s, dst, old, False)
      else if since t (last_update s) > timeout s then (s, dst, old, False)
      else
        let s1 = s\<lparr>ready := False\<rparr>
        in if length old = length (frame s1)
           then if old = frame s1 then (s1, dst, old, False)
                else (s1\<lparr>frame := dst\<rparr>, frame s1, frame s1, True)
           else (s1\<lparr>frame := dst\<rparr>, frame s1, old, True))"

section \<open>Clipboard channels and watchers\<close>

type_synonym ClipboardChannelId = "string \<times> nat"

record ClipboardChannelPolicy =
  allow_text :: bool
  allow_file :: bool

datatype ClipboardPayloadKind = TextPayload | FilePayload

datatype ClipboardSnapshotOrigin = LocalOrigin | RemoteOrigin ClipboardChannelId

definition policy_allows :: "ClipboardPayloadKind \<Rightarrow> ClipboardChannelPolicy \<Rightarrow> bool" where
  "policy_allows kind p = (case kind of TextPayload \<Rightarrow> allow_text p | FilePayload \<Rightarrow> allow_file p)"

type_synonym ClipboardChannelRegistry = "(ClipboardChannelId \<times> ClipboardChannelPolicy) list"

definition channel_register :: "string \<Rightarrow> nat \<Rightarrow> ClipboardChannelPolicy \<Rightarrow> ClipboardChannelRegistry \<Rightarrow> ClipboardChannelRegistry" where
  "channel_register peer round policy r = AList.update (peer, round) policy r"

definition channel_update :: "string \<Rightarrow> nat \<Rightarrow> ClipboardChannelPolicy \<Rightarrow> ClipboardChannelRegistry \<Rightarrow> ClipboardChannelRegistry" where
  "channel_update peer round policy r = (if contains_key r (peer, round) then AList.update (peer, round) policy r else r)"

definition channel_unregister :: "string \<Rightarrow> nat \<Rightarrow> ClipboardChannelRegistry \<Rightarrow> ClipboardChannelRegistry" where
  "channel_unregister peer round r = AList.delete (peer, round) r"

definition channel_has_active :: "ClipboardChannelRegistry \<Rightarrow> bool" where
  "channel_has_active r = (r \<noteq> [])"

definition channel_requires :: "ClipboardPayloadKind \<Rightarrow> ClipboardChannelRegistry \<Rightarrow> bool" where
  "channel_requires kind r = list_ex (\<lambda>p. policy_allows kind (snd p)) r"

definition channel_recipients :: "ClipboardPayloadKind \<Rightarrow> ClipboardSnapshotOrigin \<Rightarrow> ClipboardChannelRegistry \<Rightarrow> ClipboardChannelId set" where
  "channel_recipients kind origin r =
     (case origin of
        RemoteOrigin _ \<Rightarrow> {}
      | LocalOrigin \<Rightarrow> set (map fst (filter (\<lambda>p. policy_allows kind (snd p)) r)))"

record ClipboardCoordinator =
  clip_channels :: ClipboardChannelRegistry
  watcher_generation :: "64 word"
  watcher_running :: bool

definition begin_watcher :: "ClipboardCoordinator \<Rightarrow> ClipboardCoordinator \<times> 64 word option" where
  "begin_watcher c =
     (if watcher_running c then (c, None)
      else
        let g = watcher_generation c + 1; g' = (if g = 0 then 1 else g)
        in (c\<lparr>watcher_generation := g', watcher_running := True\<rparr>, Some g'))"

definition stop_watcher :: "ClipboardCoordinator \<Rightarrow> ClipboardCoordinator" where
  "stop_watcher c = c\<lparr>watcher_running := False, watcher_generation := watcher_generation c + 1\<rparr>"

definition is_current_watcher :: "64 word \<Rightarrow> ClipboardCoordinator \<Rightarrow> bool" where
  "is_current_watcher g c = (watcher_running c \<and> watcher_generation c = g)"

definition finish_watcher :: "64 word \<Rightarrow> ClipboardCoordinator \<Rightarrow> ClipboardCoordinator" where
  "finish_watcher g c = (if watcher_generation c = g then c\<lparr>watcher_running := False\<rparr> else c)"

section \<open>The queue is a window on the stream\<close>

datatype 'a pcm_op = PcmPush "'a list" | PcmPop nat | PcmClear

text \<open>The queue with everything that was popped.\<close>

primrec pcm_step :: "'a pcm_op \<Rightarrow> 'a PcmQueue \<times> 'a list \<Rightarrow> 'a PcmQueue \<times> 'a list" where
  "pcm_step (PcmPush packet) s = (pcm_push packet (fst s), snd s)"
| "pcm_step (PcmPop n) s = (case pcm_pop_exact n (fst s) of (q, out) \<Rightarrow> (q, snd s @ (case out of None \<Rightarrow> [] | Some xs \<Rightarrow> xs)))"
| "pcm_step PcmClear s = (pcm_clear (fst s), snd s)"

text \<open>
  The contract: the stream of all samples pushed as whole frames and a reading position that only moves
  forward. A push moves it when the reader would be more than the capacity behind.
\<close>

record 'a Window =
  stream :: "'a list"
  pos :: nat
  skipped :: nat
  heard :: "'a list"

primrec window_step :: "nat \<Rightarrow> nat \<Rightarrow> 'a pcm_op \<Rightarrow> 'a Window \<Rightarrow> 'a Window" where
  "window_step ch cap (PcmPush packet) w =
     (let all = stream w @ whole_frames ch packet; p = max (pos w) (length all - cap)
      in w\<lparr>stream := all, pos := p, skipped := skipped w + (p - pos w)\<rparr>)"
| "window_step ch cap (PcmPop n) w =
     (if n = 0 \<or> length (stream w) - pos w < n then w
      else w\<lparr>pos := pos w + n, heard := heard w @ take n (drop (pos w) (stream w))\<rparr>)"
| "window_step ch cap PcmClear w = w\<lparr>pos := length (stream w)\<rparr>"

definition window_new :: "'a Window" where
  "window_new = \<lparr>stream = [], pos = 0, skipped = 0, heard = []\<rparr>"

definition shows_window :: "nat \<Rightarrow> nat \<Rightarrow> 'a Window \<Rightarrow> 'a PcmQueue \<times> 'a list \<Rightarrow> bool" where
  "shows_window ch cap w s \<longleftrightarrow> pos w \<le> length (stream w) \<and> channels (fst s) = ch \<and> capacity (fst s) = cap
     \<and> samples (fst s) = drop (pos w) (stream w) \<and> length (samples (fst s)) \<le> cap
     \<and> dropped_samples (fst s) = skipped w \<and> snd s = heard w"

lemma push_window:
  assumes "shows_window ch cap w s"
  shows "shows_window ch cap (window_step ch cap (PcmPush packet) w) (pcm_step (PcmPush packet) s)"
proof -
  define i where "i = whole_frames ch packet"
  let ?all = "stream w @ i"
  have s: "samples (fst s) = drop (pos w) (stream w)" "length (samples (fst s)) \<le> cap" "pos w \<le> length (stream w)"
    "channels (fst s) = ch" "capacity (fst s) = cap" "dropped_samples (fst s) = skipped w" "snd s = heard w"
    using assms by (auto simp: shows_window_def)
  have l: "length (samples (fst s)) = length (stream w) - pos w" by (simp add: s(1))
  show ?thesis
  proof (cases "length i > cap")
    case True
    then have p: "max (pos w) (length ?all - cap) = length ?all - cap" using s(3) by simp
    have "length ?all - cap = length (stream w) + (length i - cap)" using True by simp
    then have d: "drop (length ?all - cap) ?all = drop (length i - cap) i" by simp
    have k: "length ?all - cap - pos w = length (samples (fst s)) + length i - cap" using True l s(3) by simp
    have "pcm_step (PcmPush packet) s = ((fst s)\<lparr>dropped_samples := skipped w + (length ?all - cap - pos w),
        samples := drop (length ?all - cap) ?all\<rparr>, heard w)"
      using True s unfolding d k by (simp add: pcm_push_def Let_def i_def)
    moreover have "window_step ch cap (PcmPush packet) w = w\<lparr>stream := ?all, pos := length ?all - cap,
        skipped := skipped w + (length ?all - cap - pos w)\<rparr>"
      using p by (simp add: Let_def i_def)
    ultimately show ?thesis using s(4,5) by (simp add: shows_window_def)
  next
    case False
    define o' where "o' = length (samples (fst s)) + length i - cap"
    have p: "max (pos w) (length ?all - cap) = pos w + o'"
      unfolding o'_def l length_append using s(3) by linarith
    have "o' \<le> length (samples (fst s))" using False by (simp add: o'_def)
    then have "drop (pos w + o') ?all = drop o' (samples (fst s)) @ i" using s(1,3) l by (simp add: add.commute)
    moreover have "length (drop o' (samples (fst s)) @ i) \<le> cap" using False by (simp add: o'_def)
    moreover have "pos w + o' \<le> length ?all" using \<open>o' \<le> _\<close> l s(3) by simp
    moreover have "pcm_step (PcmPush packet) s = ((fst s)\<lparr>samples := drop o' (samples (fst s)) @ i,
        dropped_samples := skipped w + o'\<rparr>, heard w)"
      using False s(4-7) by (simp add: pcm_push_def Let_def i_def [symmetric] o'_def [symmetric])
    moreover have "window_step ch cap (PcmPush packet) w = w\<lparr>stream := ?all, pos := pos w + o', skipped := skipped w + o'\<rparr>"
      using p by (simp add: Let_def i_def [symmetric])
    ultimately show ?thesis using s(4,5) by (simp add: shows_window_def)
  qed
qed

lemma step_window: "shows_window ch cap w s \<Longrightarrow> shows_window ch cap (window_step ch cap x w) (pcm_step x s)"
proof (cases x)
  case (PcmPush packet)
  then show "shows_window ch cap w s \<Longrightarrow> ?thesis" by (simp only: push_window)
next
  case (PcmPop n)
  then show "shows_window ch cap w s \<Longrightarrow> ?thesis"
    by (auto simp: shows_window_def pcm_pop_exact_def add.commute)
next
  case PcmClear
  then show "shows_window ch cap w s \<Longrightarrow> ?thesis" by (auto simp: shows_window_def pcm_clear_def)
qed

text \<open>
  C29. The audio queue is a window on the stream of pushed whole frames. After every sequence of pushes, pops
  and clears it holds the stream from the reading position on, at most the capacity; the samples handed out are
  the stream at the successive positions, and the counter is the number of samples skipped because the reader
  lagged behind by more than the capacity.
\<close>

theorem pcm_queue_window:
  "let ch = max chans 1; cap = max (n div ch) 1 * ch;
       (q, out) = fold pcm_step ops (PcmQueue_new chans n, []);
       w = fold (window_step ch cap) ops window_new
   in samples q = drop (pos w) (stream w) \<and> length (samples q) \<le> cap \<and> out = heard w \<and> dropped_samples q = skipped w"
proof -
  define ch cap where "ch = max chans 1" and "cap = max (n div ch) 1 * ch"
  have "shows_window ch cap window_new (PcmQueue_new chans n, [])"
    by (simp add: shows_window_def window_new_def PcmQueue_new_def Let_def ch_def cap_def)
  then have "shows_window ch cap (fold (window_step ch cap) ops window_new) (fold pcm_step ops (PcmQueue_new chans n, []))"
    by (induction ops rule: rev_induct) (auto simp: step_window)
  then show ?thesis
    unfolding Let_def ch_def [symmetric] cap_def [symmetric] by (auto simp: shows_window_def case_prod_beta)
qed

text \<open>Pushes and pops of whole frames keep the channels aligned: the queue always holds whole frames.\<close>

lemma pcm_push_aligned:
  assumes "channels q dvd capacity q" "channels q dvd length (samples q)"
  shows "channels q dvd length (samples (pcm_push packet q))"
proof -
  have "channels q dvd length (whole_frames (channels q) packet)" by (simp add: whole_frames_def)
  then show ?thesis using assms by (auto simp: pcm_push_def Let_def dvd_diff_nat)
qed

section \<open>Generations of the clipboard watcher\<close>

datatype watcher_op = BeginWatcher | StopWatcher | FinishWatcher "64 word"

primrec watcher_step :: "watcher_op \<Rightarrow> ClipboardCoordinator \<Rightarrow> ClipboardCoordinator" where
  "watcher_step BeginWatcher c = fst (begin_watcher c)"
| "watcher_step StopWatcher c = stop_watcher c"
| "watcher_step (FinishWatcher g) c = finish_watcher g c"

text \<open>The distance a generation has moved: every call moves it by at most two, skipping zero.\<close>

lemma watcher_step_distance:
  "\<exists>j\<le>2. watcher_generation (watcher_step x c) = watcher_generation c + of_nat j"
proof (cases x)
  case BeginWatcher
  consider "watcher_running c" | "\<not> watcher_running c" "watcher_generation c + 1 = 0"
    | "\<not> watcher_running c" "watcher_generation c + 1 \<noteq> 0" by blast
  then show ?thesis
  proof cases
    case 1
    then show ?thesis using BeginWatcher by (intro exI [of _ 0]) (simp add: begin_watcher_def Let_def)
  next
    case 2
    have "watcher_generation c + 2 = (watcher_generation c + 1) + 1" by (simp only: one_add_one [symmetric] add.assoc)
    then have "watcher_generation c + 2 = 1" by (simp only: 2 add_0)
    then show ?thesis using BeginWatcher 2 by (intro exI [of _ 2]) (simp add: begin_watcher_def Let_def)
  next
    case 3
    then show ?thesis using BeginWatcher by (intro exI [of _ 1]) (simp add: begin_watcher_def Let_def)
  qed
next
  case StopWatcher
  then show ?thesis by (intro exI [of _ 1]) (simp add: stop_watcher_def)
next
  case (FinishWatcher g)
  then show ?thesis by (intro exI [of _ 0]) (simp add: finish_watcher_def)
qed

lemma watcher_run_distance:
  "\<exists>j\<le>2 * length ops. watcher_generation (fold watcher_step ops c) = watcher_generation c + of_nat j"
proof (induction ops arbitrary: c)
  case (Cons x ops)
  obtain i where i: "i \<le> 2" "watcher_generation (watcher_step x c) = watcher_generation c + of_nat i"
    using watcher_step_distance by blast
  obtain j where "j \<le> 2 * length ops"
    "watcher_generation (fold watcher_step ops (watcher_step x c)) = watcher_generation (watcher_step x c) + of_nat j"
    using Cons.IH by blast
  with i show ?case by (intro exI [of _ "i + j"]) (simp add: algebra_simps)
qed (intro exI [of _ 0], simp)

lemma near_generation_differs: "j < 2 ^ 63 \<Longrightarrow> (g :: 64 word) + 1 + of_nat j \<noteq> g"
proof
  assume j: "j < 2 ^ 63" and e: "g + 1 + of_nat j = g"
  then have "of_nat (Suc j) = (0 :: 64 word)" by (simp add: add.assoc)
  then have "2 ^ 64 dvd Suc j" by (simp only: word_of_nat_eq_0_iff) simp
  then have "2 ^ 64 \<le> Suc j" by (rule dvd_imp_le) simp
  with j show False by simp
qed

text \<open>
  A stopped clipboard watcher is fenced off for good: once the watcher of a generation has been stopped,
  whatever begins, stops and late finishes follow (up to two to the 61 of them, far below the wrap-around of the
  64-bit counter), that generation is never current again, and its own late finish changes nothing, so it
  cannot stop the watcher that replaced it.
\<close>

theorem stopped_watcher_fenced:
  assumes "length ops < 2 ^ 61"
  shows "let c = fold watcher_step ops (stop_watcher c\<^sub>0); g = watcher_generation c\<^sub>0
     in \<not> is_current_watcher g c \<and> finish_watcher g c = c"
proof -
  obtain j where j: "j \<le> 2 * length ops"
    "watcher_generation (fold watcher_step ops (stop_watcher c\<^sub>0)) = watcher_generation (stop_watcher c\<^sub>0) + of_nat j"
    using watcher_run_distance by blast
  then have "j < 2 ^ 63" using assms by simp
  from near_generation_differs [OF this, of "watcher_generation c\<^sub>0"] show ?thesis
    using j(2) by (simp add: is_current_watcher_def finish_watcher_def Let_def stop_watcher_def)
qed

theorem stopped_watcher_fenced_witness:
  "let c\<^sub>0 = \<lparr>clip_channels = [], watcher_generation = - 1, watcher_running = True\<rparr>;
       c = fold watcher_step [BeginWatcher, StopWatcher, BeginWatcher] (stop_watcher c\<^sub>0)
   in \<not> is_current_watcher (- 1) c \<and> finish_watcher (- 1) c = c \<and> is_current_watcher 3 c"
  using stopped_watcher_fenced [of "[BeginWatcher, StopWatcher, BeginWatcher]"
      "\<lparr>clip_channels = [], watcher_generation = - 1, watcher_running = True\<rparr>"]
  by (simp add: Let_def stop_watcher_def begin_watcher_def is_current_watcher_def)

text \<open>While a watcher runs no second one starts, and a started watcher is current.\<close>

lemma begin_watcher_exclusive:
  "snd (begin_watcher c) = Some g \<longleftrightarrow> \<not> watcher_running c \<and> is_current_watcher g (fst (begin_watcher c))"
  by (auto simp: begin_watcher_def is_current_watcher_def Let_def)

end
