(* ===== verification/AudioResampler.thy ===== *)
theory AudioResampler
  imports MediaBuffers FloatRound
begin

text \<open>
  The streaming resampler of audio packets (\<^verbatim>\<open>src/libs/scrap/src/common/pcm.rs\<close>, \<open>StreamingResampler\<close>). Samples and
  positions are the rational numbers of \<^theory_text>\<open>FloatRound\<close>, with the rounding of every operation written out;
  infinities and NaN are left out. The loop of \<open>process\<close> is a partial function: whether it ends depends on the
  rounding of the position.
\<close>

section \<open>Model\<close>

record StreamingResampler =
  rs_channels :: nat
  rs_step :: rat
  rs_position :: rat
  rs_previous :: "rat list"
  rs_passthrough :: bool

definition Resampler_new :: "nat \<Rightarrow> nat \<Rightarrow> nat \<Rightarrow> StreamingResampler" where
  "Resampler_new in_rate out_rate chans =
     (let pass = in_rate = out_rate \<or> in_rate = 0 \<or> out_rate = 0
      in \<lparr>rs_channels = max chans 1, rs_step = (if pass then 1 else f64 (of_nat in_rate / of_nat out_rate)),
          rs_position = 0, rs_previous = [], rs_passthrough = pass\<rparr>)"

definition lerp :: "rat \<Rightarrow> rat \<Rightarrow> rat \<Rightarrow> rat" where
  "lerp fraction a b = f32 (a + f32 (f32 (b - a) * fraction))"

text \<open>One output frame between two input frames.\<close>

definition resampled_frame :: "(nat \<Rightarrow> rat list) \<Rightarrow> rat \<Rightarrow> rat list" where
  "resampled_frame fr x =
     (let index = nat \<lfloor>x\<rfloor>; fraction = f32 (f64 (x - of_nat index))
      in map2 (lerp fraction) (fr index) (fr (index + 1)))"

partial_function (option) resample_loop ::
  "(nat \<Rightarrow> rat list) \<Rightarrow> nat \<Rightarrow> rat \<Rightarrow> rat \<Rightarrow> rat list \<Rightarrow> (rat \<times> rat list) option" where
  [code]: "resample_loop fr frames st x output =
     (if nat \<lfloor>x\<rfloor> + 1 \<ge> frames then Some (x, output)
      else resample_loop fr frames st (f64 (x + st)) (output @ resampled_frame fr x))"

text \<open>The frame of an index, for a packet and the last frame of the packet before.\<close>

definition frame_at :: "nat \<Rightarrow> rat list \<Rightarrow> nat \<Rightarrow> rat list" where
  "frame_at ch input i = take ch (drop (i * ch) input)"

definition joined_frame :: "nat \<Rightarrow> rat list \<Rightarrow> rat list \<Rightarrow> nat \<Rightarrow> rat list" where
  "joined_frame ch prev input i =
     (let offset = (if prev = [] then 0 else 1)
      in if i < offset then prev else frame_at ch input (i - offset))"

definition resample_process ::
  "rat list \<Rightarrow> StreamingResampler \<times> rat list \<Rightarrow> (StreamingResampler \<times> rat list) option" where
  "resample_process packet ro =
     (let r = fst ro; output = snd ro; ch = rs_channels r; input = whole_frames ch packet
      in if rs_passthrough r then Some (r, output @ input)
         else
           let offset = (if rs_previous r = [] then 0 else 1); frames = length input div ch + offset;
               fr = joined_frame ch (rs_previous r) input
           in if frames = 0 then Some (r, output)
              else
                map_option
                  (\<lambda>(p, out). (r\<lparr>rs_position := f64 (p - of_nat (frames - 1)), rs_previous := fr (frames - 1)\<rparr>, out))
                  (resample_loop fr frames (rs_step r) (rs_position r) output))"

primrec resample_packets ::
  "rat list list \<Rightarrow> StreamingResampler \<times> rat list \<Rightarrow> (StreamingResampler \<times> rat list) option" where
  "resample_packets [] ro = Some ro"
| "resample_packets (p # ps) ro = Option.bind (resample_process p ro) (resample_packets ps)"

section \<open>Positions on a binary grid\<close>

text \<open>Numbers of at most \<open>p\<close> significant bits are not rounded.\<close>

lemma rnd_exact:
  assumes "\<bar>k\<bar> < 2 ^ p"
  shows "rnd p (of_int k / 2 ^ j) = of_int k / 2 ^ j"
proof (cases "k = 0")
  case False
  define x :: rat where "x = of_int k / 2 ^ j"
  define e where "e = ilog2 \<bar>x\<bar>"
  define d where "d = int p - 1 - e - int j"
  have pj: "pow2 (int j) = 2 ^ j" by (simp add: pow2_def)
  have x: "\<bar>x\<bar> = of_int \<bar>k\<bar> / 2 ^ j" "0 < \<bar>x\<bar>" using False by (simp_all add: x_def)
  have "\<bar>k\<bar> + 1 \<le> 2 ^ p" using assms by simp
  have "of_int \<bar>k\<bar> < (of_int (2 ^ p) :: rat)" using assms by (simp only: of_int_less_iff)
  then have "\<bar>x\<bar> < pow2 (int p - int j)" unfolding x(1) pow2_diff pj by (simp add: pow2_def divide_strict_right_mono)
  then have "pow2 e < pow2 (int p - int j)" using ilog2_bounds(1) [OF x(2)] by (simp add: e_def)
  then have "\<not> int p - int j \<le> e" using pow2_mono [of "int p - int j" e] by auto
  then have d: "0 \<le> d" by (simp add: d_def)
  let ?u = "pow2 (e - int p + 1)"
  have "of_int k / 2 ^ j = of_int k * pow2 (- int j)" using pow2_diff [of 0 "int j"] by (simp add: pow2_def)
  also have "- int j = d + (e - int p + 1)" by (simp add: d_def)
  finally have "x = of_int k * pow2 d * ?u" by (simp only: x_def pow2_add mult.assoc)
  moreover have "pow2 d = of_int (2 ^ nat d)" using d by (simp add: pow2_def)
  ultimately have q: "x = of_int (k * 2 ^ nat d) * ?u" by simp
  have "?u \<noteq> 0" by (metis less_irrefl pow2_pos)
  with q have "x / ?u = of_int (k * 2 ^ nat d)" by simp
  then have "rnd p x = of_int (k * 2 ^ nat d) * ?u"
    using x(2) by (simp only: rnd_def Let_def e_def [symmetric] round_even_int) simp
  then show ?thesis using q by (simp add: x_def)
qed simp

lemma floor_grid: "\<lfloor>of_int a / (2 ^ j :: rat)\<rfloor> = a div 2 ^ j"
  using floor_divide_of_int_eq [of a "2 ^ j", where 'a = rat] by simp

lemma int_div_less: "0 < d \<Longrightarrow> a < F * d \<Longrightarrow> a div d < (F :: int)"
proof (rule ccontr)
  assume d: "0 < d" "a < F * d" and "\<not> a div d < F"
  then have "F * d \<le> a div d * d" by (intro mult_right_mono) auto
  then show False using d div_mult_mod_eq [of a d] pos_mod_sign [OF d(1), of a] by linarith
qed

text \<open>On the grid the loop visits the positions one step apart until the last pair of frames is passed.\<close>

lemma resample_loop_run:
  assumes "\<And>i. i < c \<Longrightarrow> a + int i * n < int F * 2 ^ j" "int F * 2 ^ j \<le> a + int c * n"
    "0 \<le> a" "0 < n" "int F * 2 ^ j + n \<le> 2 ^ 53"
  shows "resample_loop fr (F + 1) (of_int n / 2 ^ j) (of_int a / 2 ^ j) out =
     Some (of_int (a + int c * n) / 2 ^ j,
       out @ concat (map (\<lambda>i. resampled_frame fr (of_int (a + int i * n) / 2 ^ j)) [0..<c]))"
  using assms
proof (induction c arbitrary: a out)
  case 0
  then have "int F \<le> a div 2 ^ j" by (simp add: zdiv_mono1 [of "int F * 2 ^ j" a "2 ^ j", simplified])
  then have "F + 1 \<le> nat \<lfloor>of_int a / (2 ^ j :: rat)\<rfloor> + 1" by (simp add: floor_grid nat_le_iff le_nat_iff)
  then show ?case by (subst resample_loop.simps) (simp only: if_True, simp)
next
  case (Suc c)
  have a: "a < int F * 2 ^ j" using Suc.prems(1) [of 0] by simp
  then have "a div 2 ^ j < int F" by (simp add: int_div_less)
  then have go: "\<not> F + 1 \<le> nat \<lfloor>of_int a / (2 ^ j :: rat)\<rfloor> + 1"
    using Suc.prems(3) unfolding floor_grid by (simp add: not_le nat_less_iff pos_imp_zdiv_nonneg_iff)
  have "\<bar>a + n\<bar> < 2 ^ 53" using a Suc.prems(3-5) by simp
  from rnd_exact [OF this, of j] have next_pos: "f64 (of_int a / 2 ^ j + of_int n / 2 ^ j) = of_int (a + n) / 2 ^ j"
    by (simp add: add_divide_distrib)
  have IH: "resample_loop fr (F + 1) (of_int n / 2 ^ j) (of_int (a + n) / 2 ^ j) (out @ resampled_frame fr (of_int a / 2 ^ j)) =
     Some (of_int (a + n + int c * n) / 2 ^ j, (out @ resampled_frame fr (of_int a / 2 ^ j))
        @ concat (map (\<lambda>i. resampled_frame fr (of_int (a + n + int i * n) / 2 ^ j)) [0..<c]))"
  proof (rule Suc.IH)
    show "a + n + int i * n < int F * 2 ^ j" if "i < c" for i
      using Suc.prems(1) [of "Suc i"] that by (simp add: algebra_simps)
  qed (use Suc.prems in \<open>auto simp: algebra_simps\<close>)
  have "map (\<lambda>i. resampled_frame fr (of_int (a + int i * n) / 2 ^ j)) [0..<Suc c] =
      resampled_frame fr (of_int a / 2 ^ j) # map (\<lambda>i. resampled_frame fr (of_int (a + n + int i * n) / 2 ^ j)) [0..<c]"
    by (simp add: upt_conv_Cons map_Suc_upt [symmetric] algebra_simps del: upt_Suc)
  then show ?case
    by (subst resample_loop.simps) (simp only: go if_False next_pos IH, simp add: algebra_simps)
qed

section \<open>The reference\<close>

text \<open>
  The resampled stream as a function of the whole stream: one frame at every multiple of the step that lies
  before the last frame.
\<close>

definition output_frames :: "nat \<Rightarrow> nat \<Rightarrow> nat \<Rightarrow> nat" where
  "output_frames in_rate out_rate frames = ((frames - 1) * out_rate + in_rate - 1) div in_rate"

definition resample_reference :: "nat \<Rightarrow> nat \<Rightarrow> nat \<Rightarrow> rat list \<Rightarrow> rat list" where
  "resample_reference in_rate out_rate ch s =
     concat (map (\<lambda>k. resampled_frame (frame_at ch s) (of_nat (k * in_rate) / of_nat out_rate))
       [0..<output_frames in_rate out_rate (length s div ch)])"

lemma less_output_frames: "0 < in_rate \<Longrightarrow> k < output_frames in_rate out_rate N \<longleftrightarrow> k * in_rate < (N - 1) * out_rate"
proof -
  assume r: "0 < in_rate"
  have "k < output_frames in_rate out_rate N \<longleftrightarrow> Suc k * in_rate \<le> (N - 1) * out_rate + in_rate - 1"
    unfolding output_frames_def Suc_le_eq [symmetric] by (rule less_eq_div_iff_mult_less_eq [OF r])
  also have "\<dots> \<longleftrightarrow> k * in_rate < (N - 1) * out_rate" using r by auto
  finally show ?thesis .
qed

definition follows :: "nat \<Rightarrow> nat \<Rightarrow> nat \<Rightarrow> rat list \<Rightarrow> StreamingResampler \<times> rat list \<Rightarrow> bool" where
  "follows in_rate out_rate ch s ro \<longleftrightarrow>
     (let N = length s div ch
      in fst ro = \<lparr>rs_channels = ch, rs_step = of_nat in_rate / of_nat out_rate,
             rs_position = of_nat (output_frames in_rate out_rate N * in_rate) / of_nat out_rate - of_nat (N - 1),
             rs_previous = (if N = 0 then [] else frame_at ch s (N - 1)), rs_passthrough = False\<rparr>
         \<and> snd ro = resample_reference in_rate out_rate ch s)"

lemma resampled_frame_shift:
  assumes "of_nat b \<le> x" "fr (nat \<lfloor>x\<rfloor> - b) = fr' (nat \<lfloor>x\<rfloor>)" "fr (nat \<lfloor>x\<rfloor> - b + 1) = fr' (nat \<lfloor>x\<rfloor> + 1)"
  shows "resampled_frame fr (x - of_nat b) = resampled_frame fr' x"
proof -
  have "int b \<le> \<lfloor>x\<rfloor>" using assms(1) by (simp add: le_floor_iff)
  then have i: "nat \<lfloor>x - of_nat b\<rfloor> = nat \<lfloor>x\<rfloor> - b" "b \<le> nat \<lfloor>x\<rfloor>"
    using floor_diff_of_int [of x "int b"] by (simp_all add: nat_diff_distrib le_nat_iff)
  then have "x - of_nat b - of_nat (nat \<lfloor>x\<rfloor> - b) = x - of_nat (nat \<lfloor>x\<rfloor>)" by (simp add: of_nat_diff)
  then show ?thesis unfolding resampled_frame_def Let_def i(1) assms(2,3) by (simp only:)
qed

lemma frame_at_append:
  "(i + 1) * ch \<le> length s \<Longrightarrow> frame_at ch (s @ t) i = frame_at ch s i"
  by (simp add: frame_at_def)

lemma frame_at_append_right:
  "length s = N * ch \<Longrightarrow> frame_at ch (s @ t) (N + i) = frame_at ch t i"
  by (simp add: frame_at_def algebra_simps)

lemma frame_at_not_nil: "i * ch < length s \<Longrightarrow> 0 < ch \<Longrightarrow> frame_at ch s i \<noteq> []"
  by (simp add: frame_at_def)

text \<open>The frames the loop sees are those of the stream, counted from the last frame of the packet before.\<close>

lemma joined_frame_stream:
  assumes "0 < ch" "length s = N * ch" "length t = M * ch"
  shows "joined_frame ch (if N = 0 then [] else frame_at ch s (N - 1)) t i = frame_at ch (s @ t) (N - 1 + i)"
proof (cases N)
  case 0
  then show ?thesis using assms by (simp add: joined_frame_def)
next
  case (Suc N')
  have "frame_at ch s N' \<noteq> []" using assms Suc by (intro frame_at_not_nil) simp_all
  moreover have "frame_at ch (s @ t) N' = frame_at ch s N'" using assms Suc by (intro frame_at_append) simp
  moreover have "frame_at ch (s @ t) (N' + i) = frame_at ch t (i - 1)" if "0 < i"
    using frame_at_append_right [OF assms(2), of t "i - 1"] Suc that by simp
  ultimately show ?thesis using Suc by (auto simp: joined_frame_def Let_def)
qed

text \<open>Later packets do not change the frames already resampled.\<close>

lemma reference_append:
  assumes "0 < in_rate" "0 < out_rate" "0 < ch" "length s = N * ch" "length t = M * ch"
  shows "resample_reference in_rate out_rate ch (s @ t) = resample_reference in_rate out_rate ch s
    @ concat (map (\<lambda>k. resampled_frame (frame_at ch (s @ t)) (of_nat (k * in_rate) / of_nat out_rate))
        [output_frames in_rate out_rate N ..< output_frames in_rate out_rate (N + M)])"
proof -
  let ?K = "output_frames in_rate out_rate"
  let ?x = "\<lambda>k. of_nat (k * in_rate) / of_nat out_rate :: rat"
  have le: "?K N \<le> ?K (N + M)" unfolding output_frames_def by (intro div_le_mono diff_le_mono add_le_mono mult_le_mono) auto
  have "resampled_frame (frame_at ch (s @ t)) (?x k) = resampled_frame (frame_at ch s) (?x k)" if "k < ?K N" for k
  proof -
    have "k * in_rate < (N - 1) * out_rate" using that assms(1) by (simp add: less_output_frames)
    then have "k * in_rate div out_rate < N - 1" using assms(2) by (simp add: div_less_iff_less_mult)
    moreover have "nat \<lfloor>?x k\<rfloor> = k * in_rate div out_rate"
      using floor_divide_of_nat_eq [of "k * in_rate" out_rate, where 'a = rat] by simp
    ultimately have "nat \<lfloor>?x k\<rfloor> + 2 \<le> N" by simp
    then have "(nat \<lfloor>?x k\<rfloor> + 2) * ch \<le> length s" unfolding assms(4) by (rule mult_le_mono1)
    then show ?thesis
      unfolding resampled_frame_def Let_def using frame_at_append [of "nat \<lfloor>?x k\<rfloor>" ch s t] frame_at_append [of "nat \<lfloor>?x k\<rfloor> + 1" ch s t]
      by (simp add: algebra_simps)
  qed
  then have "map (\<lambda>k. resampled_frame (frame_at ch (s @ t)) (?x k)) [0..<?K N] =
      map (\<lambda>k. resampled_frame (frame_at ch s) (?x k)) [0..<?K N]" by simp
  moreover have "[0..<?K (N + M)] = [0..<?K N] @ [?K N..<?K (N + M)]" using le by (metis le0 le_add_diff_inverse upt_add_eq_append)
  moreover have "length s div ch = N" "length (s @ t) div ch = N + M" using assms by (simp_all add: add_mult_distrib [symmetric])
  ultimately show ?thesis unfolding resample_reference_def by (simp only: map_append concat_append)
qed

section \<open>Packets do not matter\<close>

text \<open>The position after \<open>k\<close> steps, counted from frame \<open>b\<close>, as a number of the grid.\<close>

lemma grid_position:
  assumes "in_rate * 2 ^ j = n * out_rate" "0 < out_rate"
  shows "of_nat (k * in_rate) / of_nat out_rate - of_nat b = (of_int (int k * int n - int b * 2 ^ j) / 2 ^ j :: rat)"
proof -
  have "(of_nat (in_rate * 2 ^ j) :: rat) = of_nat (n * out_rate)" using assms(1) by (simp only:)
  then have "of_nat in_rate / of_nat out_rate = (of_nat n / 2 ^ j :: rat)" using assms(2) by (simp add: field_simps)
  then have "of_nat (k * in_rate) / of_nat out_rate = (of_nat k * (of_nat n / 2 ^ j) :: rat)"
    by (metis of_nat_mult times_divide_eq_right)
  then show ?thesis by (simp add: diff_divide_distrib)
qed

lemma grid_less_output_frames:
  assumes "in_rate * 2 ^ j = n * out_rate" "0 < out_rate" "0 < in_rate"
  shows "k < output_frames in_rate out_rate N \<longleftrightarrow> k * n < (N - 1) * 2 ^ j"
proof -
  have "k < output_frames in_rate out_rate N \<longleftrightarrow> k * in_rate < (N - 1) * out_rate" using assms by (simp add: less_output_frames)
  also have "\<dots> \<longleftrightarrow> k * in_rate * 2 ^ j < (N - 1) * out_rate * 2 ^ j" by simp
  also have "k * in_rate * 2 ^ j = k * n * out_rate" using assms(1) by (simp add: mult.assoc)
  also have "(N - 1) * out_rate * 2 ^ j = (N - 1) * 2 ^ j * out_rate" by simp
  also have "k * n * out_rate < (N - 1) * 2 ^ j * out_rate \<longleftrightarrow> k * n < (N - 1) * 2 ^ j" using assms by simp
  finally show ?thesis .
qed

lemma grid_rest:
  assumes "in_rate * 2 ^ j = n * out_rate" "0 < out_rate" "0 < in_rate"
  shows "0 \<le> int (output_frames in_rate out_rate N) * int n - int (N - 1) * 2 ^ j"
    and "int (output_frames in_rate out_rate N) * int n - int (N - 1) * 2 ^ j \<le> int n"
proof -
  let ?K = "output_frames in_rate out_rate N"
  note less = grid_less_output_frames [OF assms]
  have "\<not> ?K * n < (N - 1) * 2 ^ j" using less [of ?K N] by simp
  then have "int ((N - 1) * 2 ^ j) \<le> int (?K * n)" by (simp only: of_nat_le_iff not_less)
  then show "0 \<le> int ?K * int n - int (N - 1) * 2 ^ j" by simp
  show "int ?K * int n - int (N - 1) * 2 ^ j \<le> int n"
  proof (cases ?K)
    case (Suc k)
    then have "k * n < (N - 1) * 2 ^ j" using less [of k N] by simp
    then have "int (k * n) < int ((N - 1) * 2 ^ j)" by (simp only: of_nat_less_iff)
    then have "int k * int n < int (N - 1) * 2 ^ j" by (simp only: of_nat_mult of_nat_power of_nat_numeral)
    then show ?thesis unfolding Suc of_nat_Suc distrib_right by linarith
  next
    case 0
    have "0 \<le> int (N - 1) * 2 ^ j" "0 \<le> int n" by simp_all
    then show ?thesis unfolding 0 of_nat_0 mult_zero_left by linarith
  qed
qed

lemma resample_process_run:
  assumes "\<not> rs_passthrough r" "rs_channels r = ch" "rs_previous r = prev" "whole_frames ch t = t"
    "length t div ch + (if prev = [] then 0 else 1) = F + 1"
    "resample_loop (joined_frame ch prev t) (F + 1) (rs_step r) (rs_position r) out = Some (p, out')"
  shows "resample_process t (r, out) =
    Some (r\<lparr>rs_position := f64 (p - of_nat F), rs_previous := joined_frame ch prev t F\<rparr>, out')"
  unfolding resample_process_def Let_def fst_conv snd_conv assms(2-5) using assms(1,6) by simp

lemma process_follows:
  assumes rates: "in_rate * 2 ^ j = n * out_rate" "0 < out_rate" "0 < in_rate" and ch: "0 < ch"
    and len: "length s = N * ch" "length t = M * ch" and small: "(N + M) * 2 ^ j + n \<le> 2 ^ 53"
    and f: "follows in_rate out_rate ch s ro"
  shows "\<exists>ro'. resample_process t ro = Some ro' \<and> follows in_rate out_rate ch (s @ t) ro'"
proof (cases "N + M = 0")
  case True
  then have "s = []" "t = []" using len ch by auto
  then show ?thesis using f by (simp add: resample_process_def follows_def whole_frames_def Let_def)
next
  case False
  let ?K = "output_frames in_rate out_rate"
  let ?x = "\<lambda>k. of_nat (k * in_rate) / of_nat out_rate :: rat"
  define b F where "b = N - 1" and "F = N + M - 1 - b"
  define c where "c = ?K (N + M) - ?K N"
  define a where "a = int (?K N) * int n - int b * 2 ^ j"
  let ?prev = "if N = 0 then [] else frame_at ch s (N - 1)"
  let ?fr = "joined_frame ch ?prev t"
  note lessK = grid_less_output_frames [OF rates]
  have n: "0 < n" using rates by (cases n) auto
  have fr: "?fr i = frame_at ch (s @ t) (b + i)" for i unfolding b_def by (rule joined_frame_stream [OF ch len])
  have lst: "N + M - 1 = b + F" using False by (auto simp: F_def b_def)
  have leK: "?K N \<le> ?K (N + M)" unfolding output_frames_def by (intro div_le_mono diff_le_mono add_le_mono mult_le_mono) auto
  have a: "0 \<le> a" using grid_rest(1) [OF rates, of N] by (simp add: a_def b_def)
  have pos: "?x (?K N + i) - of_nat b = of_int (a + int i * int n) / 2 ^ j" for i
    using grid_position [OF rates(1,2), of "?K N + i" b] by (simp add: a_def algebra_simps)
  have go: "a + int i * int n < int F * 2 ^ j" if "i < c" for i
  proof -
    have "(?K N + i) * n < (b + F) * 2 ^ j" using lessK [of "?K N + i" "N + M", unfolded lst] less_diff_conv [of i "?K (N + M)" "?K N"] that
      by (simp add: c_def add.commute)
    then have "int ((?K N + i) * n) < int ((b + F) * 2 ^ j)" by (simp only: of_nat_less_iff)
    then show ?thesis by (simp add: a_def algebra_simps)
  qed
  have "\<not> ?K (N + M) * n < (b + F) * 2 ^ j" using lessK [of "?K (N + M)" "N + M", unfolded lst] by simp
  then have "int ((b + F) * 2 ^ j) \<le> int (?K (N + M) * n)" by (simp only: of_nat_le_iff)
  moreover have K: "?K (N + M) = ?K N + c" using leK by (simp add: c_def)
  ultimately have stop: "int F * 2 ^ j \<le> a + int c * int n" by (simp add: a_def algebra_simps)
  have "F * 2 ^ j + n \<le> 2 ^ 53" using small by (rule order_trans [rotated]) (simp add: F_def)
  then have "int (F * 2 ^ j + n) \<le> int (2 ^ 53)" by (simp only: of_nat_le_iff)
  then have sm: "int F * 2 ^ j + int n \<le> 2 ^ 53" by simp
  have st: "of_nat in_rate / of_nat out_rate = (of_int (int n) / 2 ^ j :: rat)"
    using grid_position [OF rates(1,2), of 1 0] by simp
  have same: "resampled_frame ?fr (of_int (a + int i * int n) / 2 ^ j) = resampled_frame (frame_at ch (s @ t)) (?x (?K N + i))" for i
  proof -
    have "0 \<le> a + int i * int n" using a by simp
    then have "0 \<le> ?x (?K N + i) - of_nat b" unfolding pos by (intro divide_nonneg_pos) (simp_all only: of_int_0_le_iff, simp)
    then have "of_nat b \<le> ?x (?K N + i)" by linarith
    then have "b \<le> nat \<lfloor>?x (?K N + i)\<rfloor>" by (simp add: le_nat_iff le_floor_iff)
    then show ?thesis unfolding pos [symmetric]
      by (intro resampled_frame_shift) (use \<open>of_nat b \<le> _\<close> in \<open>simp_all add: fr\<close>)
  qed
  have "resample_loop ?fr (F + 1) (of_nat in_rate / of_nat out_rate) (?x (?K N) - of_nat b) (snd ro) =
      Some (of_int (a + int c * int n) / 2 ^ j, snd ro
        @ concat (map (\<lambda>i. resampled_frame ?fr (of_int (a + int i * int n) / 2 ^ j)) [0..<c]))"
    unfolding st using resample_loop_run [OF go stop a _ sm] n pos [of 0] by simp
  also have "map (\<lambda>i. resampled_frame ?fr (of_int (a + int i * int n) / 2 ^ j)) [0..<c] =
      map (\<lambda>k. resampled_frame (frame_at ch (s @ t)) (?x k)) [?K N..<?K (N + M)]"
    unfolding same K by (simp add: list_eq_iff_nth_eq)
  also have "snd ro @ concat \<dots> = resample_reference in_rate out_rate ch (s @ t)"
    using f len ch unfolding reference_append [OF rates(3,2) ch len] by (simp add: follows_def Let_def)
  finally have loop: "resample_loop ?fr (F + 1) (of_nat in_rate / of_nat out_rate) (?x (?K N) - of_nat b) (snd ro) =
      Some (of_int (a + int c * int n) / 2 ^ j, resample_reference in_rate out_rate ch (s @ t))" .
  have "of_int (a + int c * int n) / 2 ^ j = ?x (?K (N + M)) - of_nat b" unfolding K pos ..
  with loop have loop: "resample_loop ?fr (F + 1) (of_nat in_rate / of_nat out_rate) (?x (?K N) - of_nat b) (snd ro) =
      Some (?x (?K (N + M)) - of_nat b, resample_reference in_rate out_rate ch (s @ t))" by (simp only:)
  have fin: "?x (?K (N + M)) - of_nat b - of_nat F = of_int (int (?K (N + M)) * int n - int (b + F) * 2 ^ j) / 2 ^ j"
    using grid_position [OF rates(1,2), of "?K (N + M)" "b + F"] unfolding of_nat_add diff_diff_eq .
  have "0 < (N + M) * 2 ^ j" using False by simp
  with small have "n < 2 ^ 53" by linarith
  then have "int n < 2 ^ 53" by simp
  then have "\<bar>int (?K (N + M)) * int n - int (b + F) * 2 ^ j\<bar> < 2 ^ 53"
    using grid_rest [OF rates, of "N + M", unfolded lst] by linarith
  from rnd_exact [OF this, of j] have pos': "f64 (?x (?K (N + M)) - of_nat b - of_nat F) = ?x (?K (N + M)) - of_nat (b + F)"
    unfolding fin [symmetric] by (simp only: of_nat_add diff_diff_eq)
  define prev where "prev = ?prev"
  define r where "r = \<lparr>rs_channels = ch, rs_step = of_nat in_rate / of_nat out_rate, rs_position = ?x (?K N) - of_nat b,
     rs_previous = prev, rs_passthrough = False\<rparr>"
  have N: "length s div ch = N" "length (s @ t) div ch = N + M" using len ch by (simp_all add: add_mult_distrib [symmetric])
  have "fst ro = r" using f by (simp add: follows_def N Let_def r_def prev_def b_def)
  then have ro: "ro = (r, snd ro)" by (simp add: prod_eq_iff)
  have "prev = [] \<longleftrightarrow> N = 0" using frame_at_not_nil [of "N - 1" ch s] len ch by (auto simp: prev_def)
  then have frames: "length t div ch + (if prev = [] then 0 else 1) = F + 1" using False len ch by (auto simp: F_def b_def)
  have whole: "whole_frames ch t = t" using len ch by (simp add: whole_frames_def)
  have "resample_process t (r, snd ro) =
      Some (r\<lparr>rs_position := f64 (?x (?K (N + M)) - of_nat b - of_nat F), rs_previous := joined_frame ch prev t F\<rparr>,
        resample_reference in_rate out_rate ch (s @ t))"
    using loop by (intro resample_process_run whole frames) (simp_all add: r_def prev_def)
  moreover have "follows in_rate out_rate ch (s @ t) (r\<lparr>rs_position := f64 (?x (?K (N + M)) - of_nat b - of_nat F),
      rs_previous := joined_frame ch prev t F\<rparr>, resample_reference in_rate out_rate ch (s @ t))"
    unfolding follows_def Let_def N lst pos' prev_def fr using False by (auto simp: r_def)
  ultimately show ?thesis unfolding ro [symmetric] by blast
qed

text \<open>
  C30. Resampling does not depend on how the audio is cut into packets. For every pair of rates whose quotient is
  a binary fraction \<open>n / 2 ^ j\<close> (48000 to 16000 or 32000, 8000 to 48000 and the like, not 44100 to 48000), and a
  stream within the exact range of the position, processing the packets one after the other ends with exactly
  the frames of the reference: one frame at every multiple of the step before the last frame, interpolated in
  the whole stream, with no drift and no frame lost or repeated at a packet boundary.
\<close>

theorem resampler_packet_independent:
  assumes "in_rate * 2 ^ j = n * out_rate" "0 < in_rate" "0 < out_rate" "in_rate \<noteq> out_rate"
    and "\<And>p. p \<in> set packets \<Longrightarrow> max chans 1 dvd length p"
    and "length (concat packets) * 2 ^ j + n < 2 ^ 53"
  shows "\<exists>r. resample_packets packets (Resampler_new in_rate out_rate chans, []) =
    Some (r, resample_reference in_rate out_rate (max chans 1) (concat packets))"
proof -
  define ch where "ch = max chans 1"
  have ch: "0 < ch" by (simp add: ch_def)
  have run: "\<exists>ro'. resample_packets ps ro = Some ro' \<and> follows in_rate out_rate ch (s @ concat ps) ro'"
    if "follows in_rate out_rate ch s ro" "ch dvd length s" "\<And>p. p \<in> set ps \<Longrightarrow> ch dvd length p"
      "length (s @ concat ps) * 2 ^ j + n \<le> 2 ^ 53" for ps s ro
    using that
  proof (induction ps arbitrary: s ro)
    case (Cons p ps)
    obtain N where N: "length s = N * ch" using Cons.prems(2) by (metis dvd_div_mult_self)
    obtain M where M: "length p = M * ch" using Cons.prems(3) [of p] by (metis dvd_div_mult_self list.set_intros(1))
    have "N + M \<le> length (s @ concat (p # ps))" using ch N M by (simp add: add_le_mono trans_le_add1)
    then have "(N + M) * 2 ^ j + n \<le> 2 ^ 53" using Cons.prems(4) by (meson add_le_mono1 le_trans mult_le_mono1)
    from process_follows [OF assms(1,3,2) ch N M this Cons.prems(1)]
    obtain ro' where ro': "resample_process p ro = Some ro'" "follows in_rate out_rate ch (s @ p) ro'" by blast
    have "\<exists>ro''. resample_packets ps ro' = Some ro'' \<and> follows in_rate out_rate ch ((s @ p) @ concat ps) ro''"
      by (rule Cons.IH) (use Cons.prems ro'(2) in \<open>auto intro: dvd_add\<close>)
    then show ?case using ro'(1) by simp
  qed auto
  have st: "of_nat in_rate / of_nat out_rate = (of_int (int n) / 2 ^ j :: rat)"
    using grid_position [OF assms(1,3), of 1 0] by simp
  have "\<bar>int n\<bar> < 2 ^ 53" using assms(6) by simp
  from rnd_exact [OF this, of j] have "f64 (of_nat in_rate / of_nat out_rate) = of_nat in_rate / of_nat out_rate" unfolding st .
  then have "follows in_rate out_rate ch [] (Resampler_new in_rate out_rate chans, [])"
    using assms(2-4)
    by (simp add: follows_def Resampler_new_def Let_def ch_def resample_reference_def output_frames_def)
  from run [OF this, of packets] obtain ro' where
    "resample_packets packets (Resampler_new in_rate out_rate chans, []) = Some ro'" "follows in_rate out_rate ch (concat packets) ro'"
    using assms(5,6) by (auto simp: ch_def)
  then show ?thesis by (cases ro') (simp add: follows_def Let_def ch_def)
qed

theorem resampler_packet_independent_witness:
  "\<exists>r. resample_packets [[0, 8], [], [1, 2, 3, 4]] (Resampler_new 48000 32000 1, []) =
    Some (r, resample_reference 48000 32000 1 [0, 8, 1, 2, 3, 4])"
  using resampler_packet_independent [of 48000 1 3 32000 "[[0, 8], [], [1, 2, 3, 4]]" 1] by simp

text \<open>The number of frames: at the rate of the output, for all frames of the input but the last.\<close>

lemma resample_reference_length:
  assumes "0 < in_rate" "0 < out_rate" "0 < ch" "length s = N * ch"
  shows "length (resample_reference in_rate out_rate ch s) = output_frames in_rate out_rate N * ch"
proof -
  have "length (resampled_frame (frame_at ch s) (of_nat (k * in_rate) / of_nat out_rate)) = ch"
    if "k < output_frames in_rate out_rate N" for k
  proof -
    have "k * in_rate < (N - 1) * out_rate" using that assms(1) by (simp add: less_output_frames)
    then have "k * in_rate div out_rate < N - 1" using assms(2) by (simp add: div_less_iff_less_mult)
    then have i: "k * in_rate div out_rate + 2 \<le> N" by simp
    have "nat \<lfloor>of_nat (k * in_rate) / of_nat out_rate :: rat\<rfloor> = k * in_rate div out_rate"
      using floor_divide_of_nat_eq [of "k * in_rate" out_rate, where 'a = rat] by simp
    moreover have "(k * in_rate div out_rate + 2) * ch \<le> length s" unfolding assms(4) using i by (rule mult_le_mono1)
    ultimately show ?thesis by (simp add: resampled_frame_def Let_def frame_at_def algebra_simps)
  qed
  then have "map (\<lambda>k. length (resampled_frame (frame_at ch s) (of_nat (k * in_rate) / of_nat out_rate)))
      [0..<output_frames in_rate out_rate N] = map (\<lambda>_. ch) [0..<output_frames in_rate out_rate N]" by simp
  moreover have "length s div ch = N" using assms by simp
  ultimately show ?thesis
    unfolding resample_reference_def length_concat map_map comp_def by (simp only: sum_list_triv) simp
qed

end
