(* ===== verification/TerminalOutput.thy ===== *)
theory TerminalOutput
  imports Prelude "HOL-Library.Word" "HOL-Library.Sublist"
begin

text \<open>
  The output history of a remote terminal (\<^verbatim>\<open>src/src/server/terminal_service.rs\<close>, \<open>OutputBuffer\<close>): the lines a
  terminal has printed, kept for the replay after a reconnection. The size counter is a 64-bit \<open>usize\<close> that wraps
  as in a release build. The trimming loop is a partial function, since nothing in it bounds the counter by the
  lines that are left.
\<close>

type_synonym chunk = "8 word list"

section \<open>Model\<close>

definition MAX_OUTPUT_BUFFER_SIZE :: nat where "MAX_OUTPUT_BUFFER_SIZE = 1024 * 1024"
definition MAX_BUFFER_LINES :: nat where "MAX_BUFFER_LINES = 10000"
definition NEWLINE :: "8 word" where "NEWLINE = 10"

record OutputBuffer =
  lines :: "chunk list"
  total_size :: "64 word"
  last_line_incomplete :: bool

definition OutputBuffer_new :: OutputBuffer where
  "OutputBuffer_new = \<lparr>lines = [], total_size = 0, last_line_incomplete = False\<rparr>"

text \<open>\<open>split\<close> at the newlines: one piece more than there are newlines.\<close>

fun split_lines :: "chunk \<Rightarrow> chunk list" where
  "split_lines [] = [[]]"
| "split_lines (b # bs) =
     (if b = NEWLINE then [] # split_lines bs
      else case split_lines bs of piece # rest \<Rightarrow> (b # piece) # rest | [] \<Rightarrow> [[b]])"

text \<open>The loop over the pieces, with the index of the last one; \<open>ends\<close> is \<open>ends_with_newline\<close>.\<close>

definition push_piece :: "bool \<Rightarrow> bool \<Rightarrow> chunk \<Rightarrow> OutputBuffer \<Rightarrow> OutputBuffer" where
  "push_piece ends is_last line b =
     (let b1 = (if is_last \<and> \<not> ends \<and> line \<noteq> [] then b\<lparr>last_line_incomplete := True\<rparr> else b)
      in if line \<noteq> [] \<or> \<not> is_last
         then let line_data = (if \<not> is_last \<or> ends then line @ [NEWLINE] else line)
              in b1\<lparr>total_size := total_size b1 + of_nat (length line_data), lines := lines b1 @ [line_data]\<rparr>
         else b1)"

fun push_pieces :: "bool \<Rightarrow> chunk list \<Rightarrow> OutputBuffer \<Rightarrow> OutputBuffer" where
  "push_pieces ends [] b = b"
| "push_pieces ends (p # ps) b = push_pieces ends ps (push_piece ends (ps = []) p b)"

partial_function (option) trim :: "OutputBuffer \<Rightarrow> OutputBuffer option" where
  [code]: "trim b =
     (if unat (total_size b) > MAX_OUTPUT_BUFFER_SIZE \<or> length (lines b) > MAX_BUFFER_LINES
      then trim (case lines b of
             removed # rest \<Rightarrow> b\<lparr>lines := rest, total_size := total_size b - of_nat (length removed)\<rparr>
           | [] \<Rightarrow> b)
      else Some b)"

definition process_remaining :: "chunk \<Rightarrow> OutputBuffer \<Rightarrow> OutputBuffer option" where
  "process_remaining remaining b =
     trim (push_pieces (remaining \<noteq> [] \<and> last remaining = NEWLINE) (split_lines remaining) b)"

definition append_output :: "chunk \<Rightarrow> OutputBuffer \<Rightarrow> OutputBuffer option" where
  "append_output data b =
     (if data = [] then Some b
      else if last_line_incomplete b \<and> lines b \<noteq> [] then
        (if NEWLINE \<in> set data
         then let upto = takeWhile (\<lambda>x. x \<noteq> NEWLINE) data @ [NEWLINE]
              in process_remaining (drop (length upto) data)
                   (b\<lparr>lines := butlast (lines b) @ [last (lines b) @ upto], last_line_incomplete := False\<rparr>)
         else Some (b\<lparr>lines := butlast (lines b) @ [last (lines b) @ data],
                       total_size := total_size b + of_nat (length data)\<rparr>))
      else process_remaining data b)"

text \<open>\<open>get_recent\<close>: the offset of an oversized line moves past at most three continuation bytes.\<close>

unbundle bit_operations_syntax

definition is_continuation :: "8 word \<Rightarrow> bool" where
  "is_continuation b = (b AND 0xC0 = 0x80)"

fun skip_continuation :: "nat \<Rightarrow> chunk \<Rightarrow> chunk" where
  "skip_continuation (Suc n) (b # bs) = (if is_continuation b then skip_continuation n bs else b # bs)"
| "skip_continuation _ bs = bs"

fun collect_recent :: "nat \<Rightarrow> chunk list \<Rightarrow> nat \<Rightarrow> chunk list \<Rightarrow> chunk list" where
  "collect_recent max_bytes [] sz chunks = chunks"
| "collect_recent max_bytes (line # older) sz chunks =
     (if sz + length line > max_bytes
      then if sz = 0 \<and> length line > max_bytes
           then let rest = skip_continuation 3 (drop (length line - max_bytes) line)
                in if rest \<noteq> [] then rest # chunks else chunks
           else chunks
      else collect_recent max_bytes older (sz + length line) (line # chunks))"

definition get_recent :: "nat \<Rightarrow> OutputBuffer \<Rightarrow> chunk" where
  "get_recent max_bytes b = (if max_bytes = 0 then [] else concat (collect_recent max_bytes (rev (lines b)) 0 []))"

primrec append_all :: "chunk list \<Rightarrow> OutputBuffer \<Rightarrow> OutputBuffer option" where
  "append_all [] b = Some b"
| "append_all (d # ds) b = Option.bind (append_output d b) (append_all ds)"

lemma append_all_append: "append_all (xs @ ys) b = Option.bind (append_all xs b) (append_all ys)"
  by (induction xs arbitrary: b) (auto simp: bind_eq_Some_conv split: bind_split)

section \<open>Splitting and joining lines\<close>

fun join_lines :: "chunk list \<Rightarrow> chunk" where
  "join_lines [] = []"
| "join_lines [p] = p"
| "join_lines (p # ps) = p @ NEWLINE # join_lines ps"

lemma split_lines_not_nil [simp]: "split_lines d \<noteq> []"
  by (cases d) (auto split: list.splits)

lemma join_Cons: "ps \<noteq> [] \<Longrightarrow> join_lines (p # ps) = p @ NEWLINE # join_lines ps"
  by (cases ps) auto

lemma join_Cons_Cons: "join_lines ((b # p) # ps) = b # join_lines (p # ps)"
  by (cases ps) auto

lemma join_split [simp]: "join_lines (split_lines d) = d"
proof (induction d)
  case (Cons b bs)
  obtain p ps where "split_lines bs = p # ps" using split_lines_not_nil [of bs] by (cases "split_lines bs") auto
  with Cons show ?case by (auto simp: join_Cons join_Cons_Cons)
qed simp

lemma last_split_lines: "d \<noteq> [] \<Longrightarrow> last d = NEWLINE \<Longrightarrow> last (split_lines d) = []"
proof (induction d)
  case (Cons b bs)
  obtain p ps where p: "split_lines bs = p # ps" using split_lines_not_nil [of bs] by (cases "split_lines bs") auto
  show ?case
  proof (cases "bs = []")
    case True
    with Cons.prems show ?thesis by simp
  next
    case False
    with Cons have "last (p # ps) = []" by (simp add: p [symmetric])
    moreover have "ps \<noteq> []"
    proof
      assume "ps = []"
      then have "bs = p" "p = []" using join_split [of bs] p calculation by simp_all
      with False show False by simp
    qed
    ultimately show ?thesis using p by simp
  qed
qed simp

abbreviation content :: "OutputBuffer \<Rightarrow> chunk" where "content b \<equiv> concat (lines b)"

text \<open>The bytes and lines that a chunk adds.\<close>

lemma push_pieces_content:
  "ps \<noteq> [] \<Longrightarrow> (ends \<longrightarrow> last ps = []) \<Longrightarrow> content (push_pieces ends ps b) = content b @ join_lines ps
     \<and> total_size (push_pieces ends ps b) = total_size b + of_nat (length (join_lines ps))"
proof (induction ps arbitrary: b)
  case (Cons p ps)
  show ?case
  proof (cases "ps = []")
    case True
    with Cons.prems show ?thesis by (auto simp: push_piece_def Let_def)
  next
    case False
    have "content (push_piece ends False p b) = content b @ p @ [NEWLINE]"
      "total_size (push_piece ends False p b) = total_size b + of_nat (length p + 1)"
      by (simp_all add: push_piece_def Let_def)
    with Cons.IH [of "push_piece ends False p b"] Cons.prems False show ?thesis by (simp add: join_Cons algebra_simps)
  qed
qed simp

lemma push_pieces_complete: "last_line_incomplete (push_pieces True ps b) = last_line_incomplete b"
  by (induction ps arbitrary: b) (auto simp: push_piece_def Let_def)

definition pushed :: "chunk \<Rightarrow> OutputBuffer \<Rightarrow> OutputBuffer" where
  "pushed d b = push_pieces (d \<noteq> [] \<and> last d = NEWLINE) (split_lines d) b"

lemma pushed_content: "content (pushed d b) = content b @ d" "total_size (pushed d b) = total_size b + of_nat (length d)"
  using push_pieces_content [of "split_lines d" "d \<noteq> [] \<and> last d = NEWLINE" b] by (simp_all add: pushed_def last_split_lines)

section \<open>Trimming\<close>

definition over :: "OutputBuffer \<Rightarrow> bool" where
  "over b \<longleftrightarrow> unat (total_size b) > MAX_OUTPUT_BUFFER_SIZE \<or> length (lines b) > MAX_BUFFER_LINES"

definition popped :: "nat \<Rightarrow> OutputBuffer \<Rightarrow> OutputBuffer" where
  "popped k b = b\<lparr>lines := drop k (lines b), total_size := total_size b - of_nat (length (concat (take k (lines b))))\<rparr>"

lemma popped_0 [simp]: "popped 0 b = b"
  by (simp add: popped_def)

lemma popped_Suc: "lines b = l # ls \<Longrightarrow>
    popped k (b\<lparr>lines := ls, total_size := total_size b - of_nat (length l)\<rparr>) = popped (Suc k) b"
  by (simp add: popped_def algebra_simps)

text \<open>When the loop ends it has removed lines from the front and the limits hold.\<close>

lemma trim_Some:
  assumes "trim b = Some b'"
  shows "\<exists>k\<le>length (lines b). b' = popped k b \<and> \<not> over b'"
proof (rule trim.raw_induct [OF _ assms])
  fix loop :: "OutputBuffer \<Rightarrow> OutputBuffer option" and b b'
  assume IH: "\<And>b b'. loop b = Some b' \<Longrightarrow> \<exists>k\<le>length (lines b). b' = popped k b \<and> \<not> over b'"
    and step: "(if unat (total_size b) > MAX_OUTPUT_BUFFER_SIZE \<or> length (lines b) > MAX_BUFFER_LINES
      then loop (case lines b of
             removed # rest \<Rightarrow> b\<lparr>lines := rest, total_size := total_size b - of_nat (length removed)\<rparr>
           | [] \<Rightarrow> b)
      else Some b) = Some b'"
  show "\<exists>k\<le>length (lines b). b' = popped k b \<and> \<not> over b'"
  proof (cases "over b")
    case False
    with step show ?thesis by (intro exI [of _ 0]) (auto simp: over_def)
  next
    case True
    show ?thesis
    proof (cases "lines b")
      case Nil
      with True step have "loop b = Some b'" by (simp add: over_def)
      from IH [OF this] Nil have "\<not> over b" by auto
      with True show ?thesis by simp
    next
      case (Cons l ls)
      with True step have "loop (b\<lparr>lines := ls, total_size := total_size b - of_nat (length l)\<rparr>) = Some b'"
        by (auto simp: over_def)
      from IH [OF this] obtain k where "k \<le> length ls" "b' = popped (Suc k) b" "\<not> over b'"
        by (auto simp: popped_Suc [OF Cons])
      then show ?thesis using Cons by (intro exI [of _ "Suc k"]) simp
    qed
  qed
qed

lemma trim_returns: "k \<le> length (lines b) \<Longrightarrow> \<not> over (popped k b) \<Longrightarrow> \<exists>b'. trim b = Some b'"
proof (induction k arbitrary: b)
  case 0
  then show ?case by (subst trim.simps) (auto simp: over_def)
next
  case (Suc k)
  show ?case
  proof (cases "over b")
    case False
    then show ?thesis by (subst trim.simps) (auto simp: over_def)
  next
    case True
    from Suc.prems obtain l ls where l: "lines b = l # ls" by (cases "lines b") auto
    have "\<exists>b'. trim (b\<lparr>lines := ls, total_size := total_size b - of_nat (length l)\<rparr>) = Some b'"
      using Suc.prems l by (intro Suc.IH) (simp_all add: popped_Suc)
    with True l show ?thesis by (subst trim.simps) (auto simp: over_def)
  qed
qed

lemma process_remaining_eq: "process_remaining d b = trim (pushed d b)"
  by (simp add: process_remaining_def pushed_def)

section \<open>The history is the end of the output\<close>

lemma popped_suffix: "suffix (content (popped k b)) (content b)"
proof -
  have "content b = concat (take k (lines b)) @ content (popped k b)"
    by (simp add: popped_def flip: concat_append)
  then show ?thesis by (auto simp: suffix_def)
qed

lemma trim_suffix: "trim b = Some b' \<Longrightarrow> suffix (content b') (content b)"
  using trim_Some popped_suffix by blast

lemma content_last: "ls \<noteq> [] \<Longrightarrow> concat (butlast ls @ [last ls @ d]) = concat ls @ d"
  by (cases ls rule: rev_cases) auto

lemma upto_newline:
  assumes "NEWLINE \<in> set d"
  shows "(takeWhile (\<lambda>x. x \<noteq> NEWLINE) d @ [NEWLINE]) @ drop (length (takeWhile (\<lambda>x. x \<noteq> NEWLINE) d @ [NEWLINE])) d = d"
proof -
  obtain d1 d2 where "d = d1 @ NEWLINE # d2" "NEWLINE \<notin> set d1" using split_list_first [OF assms] by blast
  moreover from this have "takeWhile (\<lambda>x. x \<noteq> NEWLINE) (d1 @ NEWLINE # d2) = d1" by (subst takeWhile_append2) auto
  ultimately show ?thesis by simp
qed

lemma append_output_suffix: "append_output d b = Some b' \<Longrightarrow> suffix (content b') (content b @ d)"
proof -
  assume r: "append_output d b = Some b'"
  consider "d = []" | "d \<noteq> []" "last_line_incomplete b" "lines b \<noteq> []" "NEWLINE \<in> set d"
    | "d \<noteq> []" "last_line_incomplete b" "lines b \<noteq> []" "NEWLINE \<notin> set d"
    | "d \<noteq> []" "\<not> (last_line_incomplete b \<and> lines b \<noteq> [])" by blast
  then show ?thesis
  proof cases
    case 2
    define u where "u = takeWhile (\<lambda>x. x \<noteq> NEWLINE) d @ [NEWLINE]"
    define b1 where "b1 = b\<lparr>lines := butlast (lines b) @ [last (lines b) @ u], last_line_incomplete := False\<rparr>"
    have "trim (pushed (drop (length u) d) b1) = Some b'"
      using r 2 by (simp add: append_output_def Let_def process_remaining_eq u_def b1_def)
    moreover have "content b1 @ drop (length u) d = content b @ d"
      using content_last [OF 2(3), of u] upto_newline [OF 2(4)] by (simp add: b1_def u_def)
    ultimately show ?thesis using trim_suffix by (fastforce simp: pushed_content)
  next
    case 3
    with r content_last [OF 3(3), of d] show ?thesis by (auto simp: append_output_def simp del: concat_append)
  next
    case 4
    with r have "trim (pushed d b) = Some b'" by (auto simp: append_output_def process_remaining_eq)
    then show ?thesis using trim_suffix by (fastforce simp: pushed_content)
  qed (use r in \<open>simp add: append_output_def\<close>)
qed

lemma append_all_suffix: "append_all ds b = Some b' \<Longrightarrow> suffix (content b') (content b @ concat ds)"
proof (induction ds arbitrary: b)
  case (Cons d ds)
  then obtain b1 where b1: "append_output d b = Some b1" "append_all ds b1 = Some b'" by (auto simp: bind_eq_Some_conv)
  then have "suffix (content b') (content b1 @ concat ds)" by (intro Cons.IH)
  moreover have "suffix (content b1 @ concat ds) ((content b @ d) @ concat ds)"
    using append_output_suffix [OF b1(1)] by (auto simp: suffix_def)
  ultimately show ?case by (simp add: suffix_order.trans)
qed simp

lemma skip_continuation_suffix: "suffix (skip_continuation n bs) bs"
  by (induction n bs rule: skip_continuation.induct) (auto simp: suffix_ConsI)

lemma collect_recent_suffix:
  assumes "length (concat cs) = sz" "sz \<le> max_bytes"
  shows "suffix (concat (collect_recent max_bytes ls sz cs)) (concat (rev ls) @ concat cs)
    \<and> length (concat (collect_recent max_bytes ls sz cs)) \<le> max_bytes"
  using assms
proof (induction max_bytes ls sz cs rule: collect_recent.induct)
  case (2 max_bytes line older sz cs)
  show ?case
  proof (cases "sz + length line > max_bytes")
    case False
    with 2 show ?thesis by simp
  next
    case True
    define r where "r = skip_continuation 3 (drop (length line - max_bytes) line)"
    have r: "suffix r (drop (length line - max_bytes) line)" unfolding r_def by (rule skip_continuation_suffix)
    then have "suffix r line" using suffix_drop suffix_order.trans by blast
    then have "suffix r (concat (rev older) @ line)" by (metis suffix_appendI)
    moreover have "concat cs = []" if "sz = 0" using 2(2) that by (simp only: length_0_conv)
    moreover have "length r \<le> max_bytes" if "max_bytes < length line" using suffix_length_le [OF r] that by simp
    ultimately show ?thesis using True 2(2,3)
      by (auto simp: Let_def r_def [symmetric] suffix_appendI simp del: concat_eq_Nil_conv)
  qed
qed simp

lemma get_recent_suffix: "suffix (get_recent n b) (concat (lines b))"
  using collect_recent_suffix [of "[]" 0 n "rev (lines b)"] by (simp add: get_recent_def)

text \<open>
  What \<open>get_recent\<close> keeps: the longest run of last lines that fits; when even the newest line with any content does
  not fit, the end of that line, from the start of a character.
\<close>

definition recent_lines :: "nat \<Rightarrow> chunk list \<Rightarrow> chunk \<Rightarrow> bool" where
  "recent_lines n ls r \<longleftrightarrow> (\<exists>older newer. ls = older @ newer \<and> length (concat newer) \<le> n
     \<and> (if older = [] then r = concat newer
        else length (concat newer) + length (last older) > n
          \<and> r = (if concat newer = [] then skip_continuation 3 (drop (length (last older) - n) (last older)) else concat newer)))"

lemma collect_recent_exact:
  "length (concat ch) \<le> n \<Longrightarrow> ls = rev xs @ ch \<Longrightarrow> recent_lines n ls (concat (collect_recent n xs (length (concat ch)) ch))"
proof (induction xs arbitrary: ch)
  case Nil
  then show ?case unfolding recent_lines_def by (simp add: exI [of _ "[]"])
next
  case (Cons line older)
  show ?case
  proof (cases "length (concat ch) + length line > n")
    case True
    have r: "concat (collect_recent n (line # older) (length (concat ch)) ch)
        = (if concat ch = [] then skip_continuation 3 (drop (length line - n) line) else concat ch)"
      using True by (cases "concat ch = []") (simp_all add: Let_def del: concat_eq_Nil_conv)
    show ?thesis unfolding recent_lines_def r
      by (rule exI [of _ "rev older @ [line]"], rule exI [of _ ch]) (use True Cons.prems in simp)
  next
    case False
    then have "recent_lines n ls (concat (collect_recent n older (length (concat (line # ch))) (line # ch)))"
      using Cons.prems by (intro Cons.IH) auto
    then show ?thesis using False by (simp add: add.commute)
  qed
qed

lemma get_recent_exact: "0 < n \<Longrightarrow> recent_lines n (lines b) (get_recent n b)"
  using collect_recent_exact [of "[]" n "lines b" "rev (lines b)"] by (simp add: get_recent_def)

text \<open>
  The replay of a reconnected terminal is the end of its output: whatever chunks the history took in and as
  long as every append returned, the recent bytes are a suffix of everything the terminal printed, within the
  requested number of bytes. Nothing is reordered, repeated or left out in the middle.
\<close>

theorem terminal_replay_suffix:
  assumes "append_all chunks OutputBuffer_new = Some b"
  shows "suffix (get_recent n b) (concat chunks) \<and> length (get_recent n b) \<le> n"
proof -
  have "suffix (content b) (concat chunks)"
    using append_all_suffix [OF assms] by (simp add: OutputBuffer_new_def)
  moreover have "suffix (get_recent n b) (content b)" "length (get_recent n b) \<le> n"
    using collect_recent_suffix [of "[]" 0 n "rev (lines b)"] by (auto simp: get_recent_def)
  ultimately show ?thesis using suffix_order.trans by blast
qed

theorem terminal_replay_suffix_witness:
  "\<exists>b. append_all [[104, 105], [10, 36, 32], [0xE2, 0x82, 0xAC]] OutputBuffer_new = Some b \<and> get_recent 4 b = [32, 0xE2, 0x82, 0xAC]
     \<and> suffix (get_recent 4 b) (concat [[104, 105], [10, 36, 32], [0xE2, 0x82, 0xAC]])"
proof -
  let ?ds = "[[104, 105], [10, 36, 32], [0xE2, 0x82, 0xAC]] :: chunk list"
  have "append_all ?ds OutputBuffer_new =
      Some \<lparr>lines = [[104, 105, 10], [36, 32, 0xE2, 0x82, 0xAC]], total_size = 7, last_line_incomplete = True\<rparr>"
    by (simp add: append_output_def process_remaining_def OutputBuffer_new_def push_piece_def Let_def NEWLINE_def trim.simps
        MAX_OUTPUT_BUFFER_SIZE_def MAX_BUFFER_LINES_def)
  moreover from this terminal_replay_suffix [of ?ds _ 4]
  have "suffix (get_recent 4 \<lparr>lines = [[104, 105, 10], [36, 32, 0xE2, 0x82, 0xAC]], total_size = 7, last_line_incomplete = True\<rparr>) (concat ?ds)"
    by blast
  moreover have "get_recent 4 \<lparr>lines = [[104, 105, 10], [36, 32, 0xE2, 0x82, 0xAC]], total_size = 7, last_line_incomplete = True\<rparr>
      = [32, 0xE2, 0x82, 0xAC]"
    by (simp add: get_recent_def is_continuation_def numeral_3_eq_3)
  ultimately show ?thesis by (metis (no_types))
qed

section \<open>Whole lines are counted exactly\<close>

definition accounted :: "OutputBuffer \<Rightarrow> bool" where
  "accounted b \<longleftrightarrow> total_size b = of_nat (length (content b)) \<and> \<not> last_line_incomplete b
     \<and> length (content b) \<le> MAX_OUTPUT_BUFFER_SIZE \<and> length (lines b) \<le> MAX_BUFFER_LINES"

lemma unat_of_nat_small: "n < 2 ^ 64 \<Longrightarrow> unat (of_nat n :: 64 word) = n"
  by (simp add: unat_of_nat)

lemma trim_exact:
  assumes "total_size b = of_nat (length (content b))" "length (content b) < 2 ^ 64"
  shows "\<exists>b' k. trim b = Some b' \<and> b' = popped k b \<and> total_size b' = of_nat (length (content b'))
    \<and> length (content b') \<le> MAX_OUTPUT_BUFFER_SIZE \<and> length (lines b') \<le> MAX_BUFFER_LINES"
proof -
  have ex: "total_size (popped k b) = of_nat (length (content (popped k b)))" for k
  proof -
    have "content b = concat (take k (lines b)) @ content (popped k b)" by (simp add: popped_def flip: concat_append)
    then have "length (content b) = length (concat (take k (lines b))) + length (content (popped k b))" by (metis length_append)
    then show ?thesis by (simp add: popped_def assms(1))
  qed
  have "\<not> over (popped (length (lines b)) b)"
    using ex [of "length (lines b)"] by (simp add: over_def popped_def)
  then obtain b' where b': "trim b = Some b'" using trim_returns by blast
  obtain k where k: "b' = popped k b" "\<not> over b'" using trim_Some [OF b'] by blast
  have "length (content b') \<le> length (content b)" using popped_suffix suffix_length_le k(1) by blast
  then have "unat (total_size b') = length (content b')"
    using ex [of k] assms(2) unfolding k(1) by (simp add: unat_of_nat_small del: unat_of_nat)
  then show ?thesis using b' k ex by (auto simp: over_def not_less)
qed

lemma append_line_accounted:
  assumes "accounted b" "d \<noteq> []" "last d = NEWLINE" "length d < 2 ^ 32"
  shows "\<exists>b'. append_output d b = Some b' \<and> accounted b'"
proof -
  let ?p = "pushed d b"
  have "length (content ?p) < 2 ^ 64"
    using assms(1,4) by (simp add: pushed_content accounted_def MAX_OUTPUT_BUFFER_SIZE_def)
  moreover have "total_size ?p = of_nat (length (content ?p))" using assms(1) by (simp add: pushed_content accounted_def)
  ultimately obtain b' k where "trim ?p = Some b'" "b' = popped k ?p" "total_size b' = of_nat (length (content b'))"
    "length (content b') \<le> MAX_OUTPUT_BUFFER_SIZE" "length (lines b') \<le> MAX_BUFFER_LINES"
    using trim_exact by blast
  moreover from this have "\<not> last_line_incomplete b'"
    using assms(1-3) push_pieces_complete [of "split_lines d" b] by (simp add: popped_def pushed_def accounted_def)
  ultimately show ?thesis using assms(1,2)
    by (simp add: append_output_def process_remaining_eq accounted_def)
qed

text \<open>
  As long as the output arrives in chunks of whole lines, every append returns, the counter is the exact
  number of stored bytes, and the history stays within one megabyte and ten thousand lines.
\<close>

theorem terminal_history_bounded:
  assumes "\<And>d. d \<in> set chunks \<Longrightarrow> d \<noteq> [] \<and> last d = NEWLINE \<and> length d < 2 ^ 32"
  shows "\<exists>b. append_all chunks OutputBuffer_new = Some b \<and> total_size b = of_nat (length (concat (lines b)))
    \<and> length (concat (lines b)) \<le> MAX_OUTPUT_BUFFER_SIZE \<and> length (lines b) \<le> MAX_BUFFER_LINES"
proof -
  have "\<exists>b'. append_all chunks b = Some b' \<and> accounted b'" if "accounted b" for b
    using that assms
  proof (induction chunks arbitrary: b)
    case (Cons d ds)
    then obtain b1 where "append_output d b = Some b1" "accounted b1"
      using append_line_accounted [of b d] by auto
    then show ?case using Cons.IH [of b1] Cons.prems(2) by auto
  qed simp
  moreover have "accounted OutputBuffer_new" by (simp add: accounted_def OutputBuffer_new_def)
  ultimately show ?thesis by (auto simp: accounted_def)
qed

theorem terminal_history_bounded_witness:
  "\<exists>b. append_all [[104, 105, 10], [10], [36, 10]] OutputBuffer_new = Some b \<and> total_size b = of_nat (length (concat (lines b)))
    \<and> length (concat (lines b)) \<le> MAX_OUTPUT_BUFFER_SIZE \<and> length (lines b) \<le> MAX_BUFFER_LINES"
  by (rule terminal_history_bounded) (auto simp: NEWLINE_def)

section \<open>Lines that arrive in pieces\<close>

text \<open>
  A chunk that completes a pending line is added to the line but not to the counter. Output that comes as a
  character and then its newline loses one byte of the counter per line. After ten thousand lines each new line
  makes the loop remove two bytes, and after twenty thousand lines the counter wraps below zero: the loop removes
  every line, the counter stays huge, and the loop never ends.
\<close>

definition typed_lines :: "nat \<Rightarrow> 64 word \<Rightarrow> OutputBuffer" where
  "typed_lines n w = \<lparr>lines = replicate n [97, 10], total_size = w, last_line_incomplete = False\<rparr>"

definition after_char :: "nat \<Rightarrow> 64 word \<Rightarrow> OutputBuffer" where
  "after_char n w = \<lparr>lines = replicate n [97, 10] @ [[97]], total_size = w, last_line_incomplete = True\<rparr>"

lemma type_char: "append_output [97] (typed_lines n w) = trim (after_char n (w + 1))"
  by (simp add: append_output_def typed_lines_def after_char_def process_remaining_def push_piece_def Let_def NEWLINE_def)

lemma type_newline:
  assumes "n < MAX_BUFFER_LINES" "unat w \<le> MAX_OUTPUT_BUFFER_SIZE"
  shows "append_output [10] (after_char n w) = Some (typed_lines (Suc n) w)"
proof -
  have "append_output [10] (after_char n w) = trim (typed_lines (Suc n) w)"
    by (simp add: append_output_def typed_lines_def after_char_def process_remaining_def push_piece_def Let_def NEWLINE_def
        replicate_append_same [symmetric])
  then show ?thesis using assms by (subst (asm) trim.simps) (simp add: typed_lines_def)
qed

lemma trim_small: "\<not> over b \<Longrightarrow> trim b = Some b"
  by (subst trim.simps) (simp add: over_def)

lemma type_line_fills:
  assumes "n < MAX_BUFFER_LINES"
  shows "append_all [[97], [10]] (typed_lines n (of_nat n)) = Some (typed_lines (Suc n) (of_nat (Suc n)))"
proof -
  have n: "n + 1 < 2 ^ 64" "n + 1 \<le> MAX_OUTPUT_BUFFER_SIZE"
    using assms by (simp_all add: MAX_BUFFER_LINES_def MAX_OUTPUT_BUFFER_SIZE_def)
  then have u: "unat (of_nat n + 1 :: 64 word) = n + 1" using unat_of_nat_small [of "n + 1"] by (simp add: add.commute)
  then have "append_output [97] (typed_lines n (of_nat n)) = Some (after_char n (of_nat n + 1))"
    unfolding type_char using assms n by (intro trim_small) (simp add: over_def after_char_def)
  then show ?thesis using type_newline [OF assms, of "of_nat n + 1"] u n by (simp add: add.commute)
qed

lemma type_line_loses:
  assumes "m < MAX_BUFFER_LINES"
  shows "append_all [[97], [10]] (typed_lines MAX_BUFFER_LINES (of_nat (Suc m))) = Some (typed_lines MAX_BUFFER_LINES (of_nat m))"
proof -
  obtain L where L: "MAX_BUFFER_LINES = Suc L" by (simp add: MAX_BUFFER_LINES_def)
  have u: "unat (of_nat m :: 64 word) = m" "m \<le> MAX_OUTPUT_BUFFER_SIZE"
    using assms by (auto intro: unat_of_nat_small simp: MAX_BUFFER_LINES_def MAX_OUTPUT_BUFFER_SIZE_def)
  have "trim (after_char (Suc L) (of_nat (Suc m) + 1)) = trim (after_char L (of_nat m))"
    by (subst trim.simps) (simp add: after_char_def L)
  also have "\<dots> = Some (after_char L (of_nat m))" using u by (intro trim_small) (simp add: over_def after_char_def L)
  finally have "append_output [97] (typed_lines (Suc L) (of_nat (Suc m))) = Some (after_char L (of_nat m))" by (simp only: type_char)
  then show ?thesis using type_newline [of L "of_nat m"] u by (simp add: L)
qed

lemma wrapped_counter:
  assumes "1 < n" "n \<le> 2 ^ 32"
  shows "MAX_OUTPUT_BUFFER_SIZE < unat (1 - of_nat n :: 64 word)"
proof (rule ccontr)
  let ?v = "unat (1 - of_nat n :: 64 word)"
  assume "\<not> ?thesis"
  then have v: "?v \<le> MAX_OUTPUT_BUFFER_SIZE" by simp
  have "(of_nat (?v + n) :: 64 word) = of_nat 1" by simp
  moreover have "?v + n < 2 ^ 64" using v assms by (simp add: MAX_OUTPUT_BUFFER_SIZE_def)
  ultimately have "?v + n = 1" by (metis less_numeral_extra(1) one_less_power one_less_numeral_iff semiring_norm(76) unat_of_nat_small zero_less_numeral)
  with assms show False by simp
qed

lemma type_char_hangs: "append_output [97] (typed_lines MAX_BUFFER_LINES 0) = None"
proof (rule ccontr)
  let ?b = "after_char MAX_BUFFER_LINES 1"
  assume "\<not> ?thesis"
  then obtain b' where "trim ?b = Some b'" by (auto simp: type_char)
  then obtain k where k: "k \<le> length (lines ?b)" "\<not> over (popped k ?b)" using trim_Some by blast
  have "over (popped k ?b)"
  proof (cases k)
    case 0
    then show ?thesis by (simp add: over_def after_char_def)
  next
    case (Suc j)
    let ?n = "length (concat (take k (lines ?b)))"
    have "?n \<le> length (content ?b)" by (metis append_take_drop_id concat_append length_append le_add1)
    also have "\<dots> = 2 * MAX_BUFFER_LINES + 1" by (simp add: after_char_def length_concat sum_list_replicate)
    finally have "?n \<le> 2 ^ 32" by (simp add: MAX_BUFFER_LINES_def)
    moreover have "1 < ?n" using Suc by (simp add: after_char_def MAX_BUFFER_LINES_def take_Cons' replicate_app_Cons_same)
    ultimately show ?thesis using wrapped_counter [of ?n] by (simp add: over_def popped_def after_char_def)
  qed
  with k show False by simp
qed

lemma typed_lines_fill:
  "n \<le> MAX_BUFFER_LINES \<Longrightarrow> append_all (concat (replicate n [[97], [10]])) OutputBuffer_new = Some (typed_lines n (of_nat n))"
proof (induction n)
  case (Suc n)
  then show ?case
    unfolding replicate_Suc replicate_append_same [symmetric] concat_append append_all_append
    using type_line_fills [of n] by simp
qed (simp add: typed_lines_def OutputBuffer_new_def)

lemma typed_lines_lose:
  "m \<le> MAX_BUFFER_LINES \<Longrightarrow> append_all (concat (replicate m [[97], [10]])) (typed_lines MAX_BUFFER_LINES (of_nat m))
     = Some (typed_lines MAX_BUFFER_LINES 0)"
proof (induction m)
  case (Suc m)
  then show ?case unfolding replicate_Suc concat.simps append_all_append using type_line_loses [of m] by simp
qed simp

text \<open>The first character of line 20001 hangs the service.\<close>

theorem split_newlines_hang_history:
  "append_all (concat (replicate (2 * MAX_BUFFER_LINES) [[97], [NEWLINE]]) @ [[97]]) OutputBuffer_new = None"
proof -
  have "append_all (concat (replicate (2 * MAX_BUFFER_LINES) [[97], [10]])) OutputBuffer_new = Some (typed_lines MAX_BUFFER_LINES 0)"
    unfolding mult_2 replicate_add concat_append append_all_append using typed_lines_fill typed_lines_lose by simp
  then show ?thesis unfolding append_all_append NEWLINE_def by (simp add: type_char_hangs)
qed

text \<open>A line without a newline is not limited: it grows with every chunk, past the size of the buffer.\<close>

theorem unfinished_line_unbounded:
  "append_all (replicate (Suc n) [97]) OutputBuffer_new =
     Some \<lparr>lines = [replicate (Suc n) 97], total_size = of_nat (Suc n), last_line_incomplete = True\<rparr>"
proof (induction n)
  case 0
  then show ?case
    by (simp add: append_output_def OutputBuffer_new_def process_remaining_def push_piece_def Let_def NEWLINE_def trim.simps
        MAX_OUTPUT_BUFFER_SIZE_def MAX_BUFFER_LINES_def)
next
  case (Suc n)
  have "replicate (Suc (Suc n)) [97] = replicate (Suc n) [97] @ [[97 :: 8 word]]" by (simp add: replicate_append_same)
  then show ?case
    unfolding \<open>replicate (Suc (Suc n)) [97] = _\<close> append_all_append Suc
    by (simp add: append_output_def NEWLINE_def replicate_append_same)
qed

end
