(* ===== verification/TerminalService.thy ===== *)
theory TerminalService
  imports TerminalOutput TextFormat
begin

text \<open>
  Remote terminals that outlive a connection (\<^verbatim>\<open>src/src/server/terminal_service.rs\<close>): the registry of services, the
  terminals of a service, the actions of the viewer and the polling of the output, as built on a system other
  than Windows.

  The pseudo terminal, its child process and the reader and writer threads are outside: whether they can be
  created, whether the reader has ended, whether a resize works and what a process returns are inputs of the
  operations. A pseudo terminal is its size, a child its process number, a channel the list of its messages. An
  operation that takes in output is partial, since appending to the history may not end.
\<close>

section \<open>Data\<close>

definition MAX_SERVICES :: nat where "MAX_SERVICES = 100"
definition SERVICE_IDLE_TIMEOUT :: duration where "SERVICE_IDLE_TIMEOUT = from_secs 3600"
definition CHANNEL_BUFFER_SIZE :: nat where "CHANNEL_BUFFER_SIZE = 500"
definition COMPRESS_THRESHOLD :: nat where "COMPRESS_THRESHOLD = 512"
definition DEFAULT_RECONNECT_BUFFER_BYTES :: nat where "DEFAULT_RECONNECT_BUFFER_BYTES = 8 * 1024"
definition MAX_SIGWINCH_PHASE_ATTEMPTS :: nat where "MAX_SIGWINCH_PHASE_ATTEMPTS = 3"

datatype SigwinchPhase = SigIdle | TempResize nat | Restore nat
datatype SigwinchAction = DoTempResize | DoRestore
datatype SessionState = SessionClosed | SessionActive "chunk option" SigwinchPhase

record TerminalSession =
  ts_last_activity :: instant
  pty_pair :: "(16 word \<times> 16 word) option"
  child :: "nat option"
  input_tx :: "chunk list option"
  output_rx :: "chunk list option"
  exiting :: bool
  reader_thread :: bool
  writer_thread :: bool
  output_buffer :: OutputBuffer
  ts_title :: string
  pid :: nat
  rows :: "16 word"
  cols :: "16 word"
  closed_message_sent :: bool
  ts_state :: SessionState

definition Session_new :: "int \<Rightarrow> 16 word \<Rightarrow> 16 word \<Rightarrow> instant \<Rightarrow> TerminalSession" where
  "Session_new terminal_id r c t =
     \<lparr>ts_last_activity = t, pty_pair = None, child = None, input_tx = None, output_rx = None, exiting = False,
      reader_thread = False, writer_thread = False, output_buffer = OutputBuffer_new,
      ts_title = ''Terminal '' @ (if terminal_id < 0 then ''-'' else []) @ decimal (nat \<bar>terminal_id\<bar>),
      pid = 0, rows = r, cols = c, closed_message_sent = False, ts_state = SessionClosed\<rparr>"

text \<open>\<open>stop\<close>, with the child it hands to the reaper. The reader and the writer are joined.\<close>

definition session_stop :: "TerminalSession \<Rightarrow> TerminalSession \<times> nat list" where
  "session_stop s =
     (s\<lparr>ts_state := SessionClosed, exiting := True, input_tx := None, output_rx := None, pty_pair := None,
        reader_thread := False, writer_thread := False, child := None\<rparr>,
      case child s of None \<Rightarrow> [] | Some p \<Rightarrow> [p])"

record PersistentTerminalService =
  ps_id :: string
  sessions :: "(int \<times> TerminalSession) list"
  created_at :: instant
  last_activity :: instant
  is_persistent :: bool
  needs_session_sync :: bool
  is_specified_user :: bool

definition Service_init :: "string \<Rightarrow> bool \<Rightarrow> bool \<Rightarrow> instant \<Rightarrow> PersistentTerminalService" where
  "Service_init sid persistent specified t =
     \<lparr>ps_id = sid, sessions = [], created_at = t, last_activity = t, is_persistent = persistent,
      needs_session_sync = False, is_specified_user = specified\<rparr>"

definition reset_status :: "bool \<Rightarrow> PersistentTerminalService \<Rightarrow> PersistentTerminalService" where
  "reset_status persistent v =
     v\<lparr>is_persistent := persistent, needs_session_sync := True,
       sessions := map (\<lambda>(i, s). (i, s\<lparr>ts_state := SessionClosed\<rparr>)) (sessions v)\<rparr>"

text \<open>The registry and the children that wait for the reaper.\<close>

record Terminals =
  services :: "(string \<times> PersistentTerminalService) list"
  reaper :: "nat list"

section \<open>The registry\<close>

definition get_or_create_service :: "string \<Rightarrow> bool \<Rightarrow> bool \<Rightarrow> instant \<Rightarrow> Terminals \<Rightarrow> Terminals option" where
  "get_or_create_service sid persistent specified t g =
     (if \<not> contains_key (services g) sid \<and> length (services g) \<ge> MAX_SERVICES then None
      else
        let v = get_or (services g) sid (Service_init sid persistent specified t)
        in Some (g\<lparr>services := AList.update sid (reset_status persistent v) (services g)\<rparr>))"

definition remove_service :: "string \<Rightarrow> Terminals \<Rightarrow> Terminals" where
  "remove_service sid g =
     (case map_of (services g) sid of
        None \<Rightarrow> g
      | Some v \<Rightarrow> g\<lparr>services := AList.delete sid (services g),
                    reaper := reaper g @ concat (map (\<lambda>(i, s). snd (session_stop s)) (sessions v))\<rparr>)"

definition service_inactive :: "instant \<Rightarrow> PersistentTerminalService \<Rightarrow> bool" where
  "service_inactive t v =
     (if \<not> is_persistent v \<and> since t (last_activity v) > SERVICE_IDLE_TIMEOUT then True
      else is_persistent v \<and> sessions v = [] \<and> since t (last_activity v) > SERVICE_IDLE_TIMEOUT * 2)"

definition cleanup_inactive_services :: "instant \<Rightarrow> Terminals \<Rightarrow> Terminals" where
  "cleanup_inactive_services t g =
     fold remove_service (map fst (filter (\<lambda>(sid, v). service_inactive t v) (services g))) g"

definition set_persistent :: "string \<Rightarrow> bool \<Rightarrow> Terminals \<Rightarrow> Terminals option" where
  "set_persistent sid persistent g =
     (case map_of (services g) sid of
        None \<Rightarrow> None
      | Some v \<Rightarrow> Some (g\<lparr>services := AList.update sid (v\<lparr>is_persistent := persistent\<rparr>) (services g)\<rparr>))"

text \<open>The persistence of a proxy, and the end of its connection.\<close>

definition proxy_persistent :: "string \<Rightarrow> bool option \<Rightarrow> Terminals \<Rightarrow> bool" where
  "proxy_persistent sid persistent g =
     (case persistent of Some b \<Rightarrow> b
      | None \<Rightarrow> (case map_of (services g) sid of Some v \<Rightarrow> is_persistent v | None \<Rightarrow> False))"

definition on_disconnect :: "bool \<Rightarrow> string \<Rightarrow> Terminals \<Rightarrow> Terminals" where
  "on_disconnect persistent sid g = (if \<not> persistent then remove_service sid g else g)"

section \<open>Actions of the viewer\<close>

datatype TerminalResponse =
    Opened int bool string nat string "int list"
  | Data int chunk bool
  | Closed int int
  | Failed string

datatype TerminalAction =
    Open int "32 word" "32 word"
  | Resize int "32 word" "32 word"
  | Input int chunk
  | Close int
  | NoAction

text \<open>
  What the system answers to an action: the process number of a new shell or the step that failed, whether a
  resize and whether the killing of a child works.
\<close>

record PtyAnswers =
  spawned :: "string + nat"
  resized :: bool
  killed :: bool

definition remap_lowest :: "int \<Rightarrow> PersistentTerminalService \<Rightarrow> PersistentTerminalService" where
  "remap_lowest terminal_id v =
     (if \<not> contains_key (sessions v) terminal_id \<and> needs_session_sync v \<and> sessions v \<noteq> []
      then let lowest = Min (set (map fst (sessions v)))
           in case map_of (sessions v) lowest of
                Some s \<Rightarrow> v\<lparr>sessions := AList.update terminal_id s (AList.delete lowest (sessions v))\<rparr>
              | None \<Rightarrow> v
      else v)"

definition reconnect_session :: "TerminalSession \<Rightarrow> TerminalSession" where
  "reconnect_session s =
     (let buffer = get_recent DEFAULT_RECONNECT_BUFFER_BYTES (output_buffer s)
      in s\<lparr>ts_state := SessionActive (if buffer \<noteq> [] then Some buffer else None) (TempResize MAX_SIGWINCH_PHASE_ATTEMPTS)\<rparr>)"

definition open_existing ::
  "string \<Rightarrow> int \<Rightarrow> TerminalSession \<Rightarrow> PersistentTerminalService \<Rightarrow> PersistentTerminalService \<times> TerminalResponse" where
  "open_existing sid terminal_id s v =
     (let s1 = reconnect_session s;
          v1 = v\<lparr>sessions := AList.update terminal_id s1 (sessions v)\<rparr>;
          others = (if needs_session_sync v \<and> length (sessions v) > 1
                    then filter (\<lambda>i. i \<noteq> terminal_id) (map fst (sessions v)) else [])
      in (v1\<lparr>needs_session_sync := False\<rparr>,
          Opened terminal_id True ''Reconnected to existing terminal'' (pid s1) sid others))"

definition started_session :: "int \<Rightarrow> 16 word \<Rightarrow> 16 word \<Rightarrow> nat \<Rightarrow> instant \<Rightarrow> TerminalSession" where
  "started_session terminal_id r c p t =
     (Session_new terminal_id r c t)\<lparr>pid := p, pty_pair := Some (r, c), child := Some p, input_tx := Some [],
       output_rx := Some [], reader_thread := True, writer_thread := True, ts_state := SessionActive None SigIdle\<rparr>"

definition open_new ::
  "int \<Rightarrow> 16 word \<Rightarrow> 16 word \<Rightarrow> nat \<Rightarrow> instant \<Rightarrow> PersistentTerminalService \<Rightarrow> PersistentTerminalService \<times> TerminalResponse" where
  "open_new terminal_id r c p t v =
     (let others = (if needs_session_sync v then map fst (sessions v) else [])
      in (v\<lparr>needs_session_sync := False, sessions := AList.update terminal_id (started_session terminal_id r c p t) (sessions v)\<rparr>,
          Opened terminal_id True ''Terminal opened'' p (ps_id v) others))"

definition handle_open ::
  "string \<Rightarrow> PtyAnswers \<Rightarrow> instant \<Rightarrow> int \<Rightarrow> 32 word \<Rightarrow> 32 word \<Rightarrow> PersistentTerminalService \<Rightarrow>
   PersistentTerminalService \<times> (string + TerminalResponse option)" where
  "handle_open sid env t terminal_id r c v =
     (let v1 = remap_lowest terminal_id v
      in case map_of (sessions v1) terminal_id of
           Some s \<Rightarrow> (let (v2, resp) = open_existing sid terminal_id s v1 in (v2, Inr (Some resp)))
         | None \<Rightarrow>
             (case spawned env of
                Inl e \<Rightarrow> (v1, Inl e)
              | Inr p \<Rightarrow> (let (v2, resp) = open_new terminal_id (ucast r) (ucast c) p t v1 in (v2, Inr (Some resp)))))"

definition resize_session :: "bool \<Rightarrow> 32 word \<Rightarrow> 32 word \<Rightarrow> instant \<Rightarrow> TerminalSession \<Rightarrow> TerminalSession \<times> bool" where
  "resize_session ok r c t s =
     (let s1 = s\<lparr>ts_last_activity := t, rows := ucast r, cols := ucast c\<rparr>
      in case pty_pair s1 of
           None \<Rightarrow> (s1, True)
         | Some _ \<Rightarrow> if ok then (s1\<lparr>pty_pair := Some (ucast r, ucast c)\<rparr>, True) else (s1, False))"

definition handle_resize ::
  "PtyAnswers \<Rightarrow> instant \<Rightarrow> int \<Rightarrow> 32 word \<Rightarrow> 32 word \<Rightarrow> PersistentTerminalService \<Rightarrow>
   PersistentTerminalService \<times> (string + TerminalResponse option)" where
  "handle_resize env t terminal_id r c v =
     (case map_of (sessions v) terminal_id of
        None \<Rightarrow> (v, Inr None)
      | Some s \<Rightarrow>
          (let (s1, ok) = resize_session (resized env) r c t s
           in (v\<lparr>sessions := AList.update terminal_id s1 (sessions v)\<rparr>, if ok then Inr None else Inl ''resize'')))"

definition handle_data ::
  "instant \<Rightarrow> int \<Rightarrow> chunk \<Rightarrow> PersistentTerminalService \<Rightarrow> PersistentTerminalService \<times> (string + TerminalResponse option)" where
  "handle_data t terminal_id data v =
     (case map_of (sessions v) terminal_id of
        None \<Rightarrow> (v, Inr None)
      | Some s \<Rightarrow>
          (let s1 = s\<lparr>ts_last_activity := t, input_tx := map_option (\<lambda>sent. sent @ [data]) (input_tx s)\<rparr>
           in (v\<lparr>sessions := AList.update terminal_id s1 (sessions v)\<rparr>, Inr None)))"

text \<open>The session is removed first, so a child that cannot be killed is not handed to the reaper.\<close>

definition handle_close ::
  "PtyAnswers \<Rightarrow> int \<Rightarrow> PersistentTerminalService \<Rightarrow> PersistentTerminalService \<times> nat list \<times> (string + TerminalResponse option)" where
  "handle_close env terminal_id v =
     (case map_of (sessions v) terminal_id of
        None \<Rightarrow> (v, [], Inr None)
      | Some s \<Rightarrow>
          (let v1 = v\<lparr>sessions := AList.delete terminal_id (sessions v)\<rparr>
           in case child s of
                Some p \<Rightarrow> if killed env then (v1, [p], Inr (Some (Closed terminal_id (- 1)))) else (v1, [], Inl ''kill'')
              | None \<Rightarrow> (v1, [], Inr (Some (Closed terminal_id 0)))))"

definition handle_action ::
  "string \<Rightarrow> PtyAnswers \<Rightarrow> instant \<Rightarrow> TerminalAction \<Rightarrow> Terminals \<Rightarrow> Terminals \<times> (string + TerminalResponse option)" where
  "handle_action sid env t action g =
     (case map_of (services g) sid of
        None \<Rightarrow> (g, Inr (Some (Failed (''Terminal service '' @ sid @ '' not found''))))
      | Some v0 \<Rightarrow>
          (let v = v0\<lparr>last_activity := t\<rparr>;
               (v1, reaped, res) =
                 (case action of
                    Open i r c \<Rightarrow> (let (v1, res) = handle_open sid env t i r c v in (v1, [], res))
                  | Resize i r c \<Rightarrow> (let (v1, res) = handle_resize env t i r c v in (v1, [], res))
                  | Input i d \<Rightarrow> (let (v1, res) = handle_data t i d v in (v1, [], res))
                  | Close i \<Rightarrow> handle_close env i v
                  | NoAction \<Rightarrow> (v, [], Inr None))
           in (g\<lparr>services := AList.update sid v1 (services g), reaper := reaper g @ reaped\<rparr>, res)))"

section \<open>Polling the output\<close>

text \<open>
  The reader thread hands a chunk to the channel; it is dropped when the channel is full, and the thread ends
  when the receiver is gone. The second component tells whether the chunk is in the channel.
\<close>

definition try_send_output :: "chunk \<Rightarrow> TerminalSession \<Rightarrow> TerminalSession \<times> bool" where
  "try_send_output data s =
     (case output_rx s of
        None \<Rightarrow> (s, False)
      | Some queue \<Rightarrow> if length queue < CHANNEL_BUFFER_SIZE then (s\<lparr>output_rx := Some (queue @ [data])\<rparr>, True) else (s, False))"

definition sigwinch_rows :: "SigwinchAction \<Rightarrow> 16 word \<Rightarrow> 16 word" where
  "sigwinch_rows action r =
     (case action of
        DoTempResize \<Rightarrow> if r > 2 then (if r = 0 then 0 else r - 1) else if r = - 1 then r else r + 1
      | DoRestore \<Rightarrow> r)"

definition do_sigwinch_resize :: "bool \<Rightarrow> SigwinchAction \<Rightarrow> TerminalSession \<Rightarrow> TerminalSession \<times> bool" where
  "do_sigwinch_resize ok action s =
     (if rows s = 0 \<or> cols s = 0 then (s, False)
      else case pty_pair s of
             Some _ \<Rightarrow> if ok then (s\<lparr>pty_pair := Some (sigwinch_rows action (rows s), cols s)\<rparr>, True) else (s, False)
           | None \<Rightarrow> (s, False))"

definition create_terminal_data_response :: "(chunk \<Rightarrow> chunk) \<Rightarrow> int \<Rightarrow> chunk \<Rightarrow> TerminalResponse" where
  "create_terminal_data_response compress terminal_id data =
     (if length data > COMPRESS_THRESHOLD
      then let compressed = compress data
           in if length compressed < length data then Data terminal_id compressed True else Data terminal_id data False
      else Data terminal_id data False)"

text \<open>One step of the resize sequence: the phase with one attempt less, and what to do.\<close>

fun sigwinch_next :: "SigwinchPhase \<Rightarrow> SigwinchPhase \<times> SigwinchAction option" where
  "sigwinch_next (TempResize 0) = (SigIdle, None)"
| "sigwinch_next (TempResize (Suc n)) = (TempResize n, Some DoTempResize)"
| "sigwinch_next (Restore 0) = (SigIdle, None)"
| "sigwinch_next (Restore (Suc n)) = (Restore n, Some DoRestore)"
| "sigwinch_next SigIdle = (SigIdle, None)"

definition sigwinch_done :: "SigwinchAction \<Rightarrow> SigwinchPhase" where
  "sigwinch_done action = (case action of DoTempResize \<Rightarrow> Restore MAX_SIGWINCH_PHASE_ATTEMPTS | DoRestore \<Rightarrow> SigIdle)"

definition sigwinch_step :: "bool \<Rightarrow> SigwinchPhase \<Rightarrow> TerminalSession \<Rightarrow> TerminalSession" where
  "sigwinch_step ok phase s =
     (let (phase1, action) = sigwinch_next phase; s1 = s\<lparr>ts_state := SessionActive None phase1\<rparr>
      in case action of
           None \<Rightarrow> s1
         | Some a \<Rightarrow>
             (let (s2, resize_ok) = do_sigwinch_resize ok a s1
              in if resize_ok then s2\<lparr>ts_state := SessionActive None (sigwinch_done a)\<rparr> else s2))"

text \<open>
  What the poll of one session finds: whether its lock is free, whether the reader has ended, whether a resize
  works, and the exit code of the child if it has one by then.
\<close>

record Probe =
  lock_free :: bool
  reader_finished :: bool
  resize_works :: bool
  exit_status :: "int option"

definition drain :: "instant \<Rightarrow> TerminalSession \<Rightarrow> (TerminalSession \<times> chunk list) option" where
  "drain t s =
     (let received = (case output_rx s of None \<Rightarrow> [] | Some queue \<Rightarrow> queue);
          s1 = s\<lparr>output_rx := map_option (\<lambda>_. []) (output_rx s),
                 ts_last_activity := (if received \<noteq> [] then t else ts_last_activity s)\<rparr>
      in case append_all received (output_buffer s1) of
           None \<Rightarrow> None
         | Some b \<Rightarrow> Some (s1\<lparr>output_buffer := b\<rparr>, received))"

definition reader_gone :: "Probe \<Rightarrow> TerminalSession \<Rightarrow> bool" where
  "reader_gone pr s = (\<not> closed_message_sent s \<and> reader_thread s \<and> reader_finished pr)"

text \<open>The poll of one session: its responses, and whether it is to be reported as closed.\<close>

definition read_session ::
  "(chunk \<Rightarrow> chunk) \<Rightarrow> instant \<Rightarrow> int \<Rightarrow> Probe \<Rightarrow> TerminalSession \<Rightarrow> (TerminalSession \<times> TerminalResponse list \<times> bool) option" where
  "read_session compress t terminal_id pr s =
     (if \<not> lock_free pr then Some (s, [], False)
      else
        let gone = reader_gone pr s;
            s1 = s\<lparr>closed_message_sent := closed_message_sent s \<or> gone\<rparr>
        in case drain t s1 of
             None \<Rightarrow> None
           | Some (s2, received) \<Rightarrow>
               (case ts_state s2 of
                  SessionClosed \<Rightarrow> Some (s2, [], gone)
                | SessionActive pending phase \<Rightarrow>
                    let history = (case pending of Some b \<Rightarrow> if b \<noteq> [] then [b] else [] | None \<Rightarrow> [])
                    in Some (sigwinch_step (resize_works pr) phase s2,
                             map (create_terminal_data_response compress terminal_id) (history @ received), gone)))"

fun read_sessions ::
  "(chunk \<Rightarrow> chunk) \<Rightarrow> instant \<Rightarrow> (int \<Rightarrow> Probe) \<Rightarrow> (int \<times> TerminalSession) list \<Rightarrow>
   ((int \<times> TerminalSession) list \<times> TerminalResponse list \<times> int list) option" where
  "read_sessions compress t probe [] = Some ([], [], [])"
| "read_sessions compress t probe ((i, s) # rest) =
     (case read_session compress t i (probe i) s of
        None \<Rightarrow> None
      | Some (s1, resp, gone) \<Rightarrow>
          (case read_sessions compress t probe rest of
             None \<Rightarrow> None
           | Some (rest1, resps, closed) \<Rightarrow> Some ((i, s1) # rest1, resp @ resps, (if gone then [i] else []) @ closed)))"

text \<open>The end of a closed terminal: a session of a proxy that is not persistent is removed.\<close>

definition close_terminal ::
  "bool \<Rightarrow> (int \<Rightarrow> Probe) \<Rightarrow> int \<Rightarrow> (int \<times> TerminalSession) list \<times> nat list \<times> TerminalResponse list \<Rightarrow>
   (int \<times> TerminalSession) list \<times> nat list \<times> TerminalResponse list" where
  "close_terminal persistent probe i st =
     (case st of (ss, reaped, resps) \<Rightarrow>
        case map_of ss i of
          None \<Rightarrow> (ss, reaped, resps @ [Closed i 0])
        | Some s \<Rightarrow>
            let code = (case child s of None \<Rightarrow> 0
                        | Some _ \<Rightarrow> (case exit_status (probe i) of Some c \<Rightarrow> c | None \<Rightarrow> 0));
                ss1 = (if persistent then AList.update i (s\<lparr>child := None\<rparr>) ss else AList.delete i ss)
            in (ss1, reaped @ (case child s of None \<Rightarrow> [] | Some p \<Rightarrow> [p]), resps @ [Closed i code]))"

definition read_outputs ::
  "(chunk \<Rightarrow> chunk) \<Rightarrow> bool \<Rightarrow> string \<Rightarrow> instant \<Rightarrow> (int \<Rightarrow> Probe) \<Rightarrow> Terminals \<Rightarrow> (Terminals \<times> TerminalResponse list) option" where
  "read_outputs compress persistent sid t probe g =
     (case map_of (services g) sid of
        None \<Rightarrow> Some (g, [])
      | Some v \<Rightarrow>
          (case read_sessions compress t probe (sessions v) of
             None \<Rightarrow> None
           | Some (ss, resps, closed) \<Rightarrow>
               let (ss1, reaped, resps1) = fold (close_terminal persistent probe) closed (ss, [], resps)
               in Some (g\<lparr>services := AList.update sid (v\<lparr>sessions := ss1\<rparr>) (services g), reaper := reaper g @ reaped\<rparr>, resps1)))"

section \<open>Invariants of the registry\<close>

text \<open>There are never more than a hundred services.\<close>

lemma get_or_create_bounded:
  assumes "length (services g) \<le> MAX_SERVICES" "get_or_create_service sid persistent specified t g = Some g'"
  shows "length (services g') \<le> MAX_SERVICES"
  using assms by (cases "sid \<in> fst ` set (services g)") (force simp: get_or_create_service_def Let_def length_update
      split: if_splits)+

lemma remove_service_bounded: "length (services (remove_service sid g)) \<le> length (services g)"
  by (auto simp: remove_service_def length_delete_le split: option.splits)

lemma cleanup_bounded: "length (services (cleanup_inactive_services t g)) \<le> length (services g)"
proof -
  have "length (services (fold remove_service ids g)) \<le> length (services g)" for ids
    by (induction ids arbitrary: g) (auto intro: le_trans remove_service_bounded)
  then show ?thesis by (simp add: cleanup_inactive_services_def)
qed

lemma remove_service_of: "map_wf (services g) \<Longrightarrow>
    map_of (services (remove_service sid g)) = (map_of (services g))(sid := None) \<and> map_wf (services (remove_service sid g))"
  by (auto simp: remove_service_def map_of_delete map_wf_delete fun_eq_iff split: option.splits)

text \<open>The cleanup removes exactly the services that have been idle for too long.\<close>

lemma cleanup_exact:
  assumes "map_wf (services g)"
  shows "map_of (services (cleanup_inactive_services t g)) sid =
     (case map_of (services g) sid of Some v \<Rightarrow> if service_inactive t v then None else Some v | None \<Rightarrow> None)"
proof -
  have run: "map_of (services (fold remove_service ids g)) sid = (if sid \<in> set ids then None else map_of (services g) sid)"
    if "map_wf (services g)" for ids g
    using that
  proof (induction ids arbitrary: g)
    case (Cons i ids)
    with remove_service_of [OF Cons.prems, of i] show ?case by auto
  qed simp
  have "sid \<in> fst ` set (filter (\<lambda>(sid, v). service_inactive t v) (services g)) \<longleftrightarrow>
      (\<exists>v. map_of (services g) sid = Some v \<and> service_inactive t v)"
    using assms by (force simp: image_iff)
  then show ?thesis
    unfolding cleanup_inactive_services_def run [OF assms] by (auto split: option.splits)
qed

section \<open>What a client sees\<close>

text \<open>
  A terminal over time: the shell prints, the service polls, the connection is lost and the client comes back.
  \<open>printed\<close> are the chunks that entered the channel and \<open>seen\<close> is what the present client has received.
\<close>

datatype terminal_event = Print chunk | Poll instant Probe | Detach | Reattach

record Terminal_run =
  terminal :: TerminalSession
  printed :: "chunk list"
  seen :: chunk

fun payload :: "(chunk \<Rightarrow> chunk) \<Rightarrow> TerminalResponse \<Rightarrow> chunk" where
  "payload decompress (Data _ d compressed) = (if compressed then decompress d else d)"
| "payload decompress _ = []"

fun terminal_step ::
  "(chunk \<Rightarrow> chunk) \<Rightarrow> (chunk \<Rightarrow> chunk) \<Rightarrow> int \<Rightarrow> terminal_event \<Rightarrow> Terminal_run \<Rightarrow> Terminal_run option" where
  "terminal_step compress decompress i (Print c) x =
     (let (s, ok) = try_send_output c (terminal x)
      in Some (x\<lparr>terminal := s, printed := printed x @ (if ok then [c] else [])\<rparr>))"
| "terminal_step compress decompress i (Poll t pr) x =
     (case read_session compress t i pr (terminal x) of
        None \<Rightarrow> None
      | Some (s, resps, _) \<Rightarrow> Some (x\<lparr>terminal := s, seen := seen x @ concat (map (payload decompress) resps)\<rparr>))"
| "terminal_step compress decompress i Detach x = Some (x\<lparr>terminal := (terminal x)\<lparr>ts_state := SessionClosed\<rparr>, seen := []\<rparr>)"
| "terminal_step compress decompress i Reattach x = Some (x\<lparr>terminal := reconnect_session (terminal x), seen := []\<rparr>)"

primrec terminal_run ::
  "(chunk \<Rightarrow> chunk) \<Rightarrow> (chunk \<Rightarrow> chunk) \<Rightarrow> int \<Rightarrow> terminal_event list \<Rightarrow> Terminal_run \<Rightarrow> Terminal_run option" where
  "terminal_run compress decompress i [] x = Some x"
| "terminal_run compress decompress i (e # es) x =
     Option.bind (terminal_step compress decompress i e x) (terminal_run compress decompress i es)"

definition terminal_start :: "int \<Rightarrow> 16 word \<Rightarrow> 16 word \<Rightarrow> nat \<Rightarrow> instant \<Rightarrow> Terminal_run" where
  "terminal_start i r c p t = \<lparr>terminal = started_session i r c p t, printed = [], seen = []\<rparr>"

text \<open>What waits to be sent: the history of a reconnection and the channel.\<close>

definition waiting :: "TerminalSession \<Rightarrow> chunk" where
  "waiting s =
     (case ts_state s of SessionActive (Some b) _ \<Rightarrow> b | _ \<Rightarrow> [])
       @ (case output_rx s of Some queue \<Rightarrow> concat queue | None \<Rightarrow> [])"

definition run_inv :: "Terminal_run \<Rightarrow> bool" where
  "run_inv x \<longleftrightarrow> (\<exists>drained queue. output_rx (terminal x) = Some queue \<and> printed x = drained @ queue
     \<and> append_all drained OutputBuffer_new = Some (output_buffer (terminal x)))"

lemma payload_data [simp]:
  "(\<And>d. decompress (compress d) = d) \<Longrightarrow> payload decompress (create_terminal_data_response compress i d) = d"
  by (simp add: create_terminal_data_response_def Let_def)

lemma do_sigwinch_fields [simp]:
  "output_rx (fst (do_sigwinch_resize ok a s)) = output_rx s" "output_buffer (fst (do_sigwinch_resize ok a s)) = output_buffer s"
  "ts_state (fst (do_sigwinch_resize ok a s)) = ts_state s" "rows (fst (do_sigwinch_resize ok a s)) = rows s"
  "cols (fst (do_sigwinch_resize ok a s)) = cols s"
  by (simp_all add: do_sigwinch_resize_def split: option.splits)

lemma sigwinch_step_fields [simp]:
  "output_rx (sigwinch_step ok ph s) = output_rx s" "output_buffer (sigwinch_step ok ph s) = output_buffer s"
  "rows (sigwinch_step ok ph s) = rows s" "cols (sigwinch_step ok ph s) = cols s"
  by (simp_all add: sigwinch_step_def case_prod_beta Let_def split: option.splits)

lemma sigwinch_step_state: "\<exists>ph'. ts_state (sigwinch_step ok ph s) = SessionActive None ph'"
  by (simp add: sigwinch_step_def case_prod_beta Let_def split: option.splits)

text \<open>The poll of a free session, with everything the session still had to send.\<close>

lemma read_session_Some:
  assumes "read_session compress t i pr s = Some (s', resps, gone)" "lock_free pr" "output_rx s = Some queue"
    and "\<And>d. decompress (compress d) = d"
  shows "append_all queue (output_buffer s) = Some (output_buffer s')" "output_rx s' = Some []"
    "ts_state s = SessionClosed \<Longrightarrow> ts_state s' = SessionClosed \<and> resps = []"
    "ts_state s \<noteq> SessionClosed \<Longrightarrow> concat (map (payload decompress) resps) = waiting s \<and> (\<exists>ph. ts_state s' = SessionActive None ph)"
proof -
  have pay1: "payload decompress (create_terminal_data_response compress i d) = d" for d using assms(4) by simp
  then have pay: "map (payload decompress \<circ> create_terminal_data_response compress i) ds = ds" for ds
    by (simp add: comp_def)
  obtain b where b: "append_all queue (output_buffer s) = Some b"
    using assms(1-3) by (auto simp: read_session_def drain_def Let_def split: option.splits if_splits)
  show "append_all queue (output_buffer s) = Some (output_buffer s')" "output_rx s' = Some []"
    using assms(1-3) b by (auto simp: read_session_def drain_def Let_def split: option.splits SessionState.splits if_splits)
  show "ts_state s = SessionClosed \<Longrightarrow> ts_state s' = SessionClosed \<and> resps = []"
    using assms(1-3) b by (auto simp: read_session_def drain_def Let_def split: option.splits if_splits)
  show "ts_state s \<noteq> SessionClosed \<Longrightarrow> concat (map (payload decompress) resps) = waiting s \<and> (\<exists>ph. ts_state s' = SessionActive None ph)"
    using assms(1-3) b sigwinch_step_state
    by (auto simp: read_session_def drain_def Let_def waiting_def pay pay1 split: option.splits SessionState.splits if_splits)
qed

lemma terminal_step_inv:
  assumes "run_inv x" "terminal_step compress decompress i e x = Some x'" "\<And>d. decompress (compress d) = d"
  shows "run_inv x'"
proof -
  obtain drained queue where q: "output_rx (terminal x) = Some queue" "printed x = drained @ queue"
    and h: "append_all drained OutputBuffer_new = Some (output_buffer (terminal x))"
    using assms(1) by (auto simp: run_inv_def)
  show ?thesis
  proof (cases e)
    case (Print c)
    then show ?thesis using assms(2) q h
      by (cases "length queue < CHANNEL_BUFFER_SIZE") (auto simp: run_inv_def try_send_output_def)
  next
    case (Poll t pr)
    then obtain s resps gone where r: "read_session compress t i pr (terminal x) = Some (s, resps, gone)"
      and x': "x' = x\<lparr>terminal := s, seen := seen x @ concat (map (payload decompress) resps)\<rparr>"
      using assms(2) by (auto split: option.splits)
    show ?thesis
    proof (cases "lock_free pr")
      case False
      then show ?thesis using assms(1) r x' by (auto simp: read_session_def)
    next
      case True
      note rs = read_session_Some [OF r True q(1) assms(3)]
      have "append_all (drained @ queue) OutputBuffer_new = Some (output_buffer s)" using rs(1) h by (simp add: append_all_append)
      then show ?thesis using rs(2) q(2) by (simp add: run_inv_def x')
    qed
  qed (use assms(2) q h in \<open>auto simp: run_inv_def reconnect_session_def Let_def\<close>)
qed

lemma terminal_run_append:
  "terminal_run compress decompress i (es @ fs) x
     = Option.bind (terminal_run compress decompress i es x) (terminal_run compress decompress i fs)"
  by (induction es arbitrary: x) (auto split: bind_split)

lemma terminal_run_inv:
  assumes "run_inv x" "terminal_run compress decompress i es x = Some x'" "\<And>d. decompress (compress d) = d"
  shows "run_inv x'"
  using assms(1,2)
proof (induction es arbitrary: x)
  case (Cons e es)
  then obtain x1 where "terminal_step compress decompress i e x = Some x1" "terminal_run compress decompress i es x1 = Some x'"
    by (auto simp: bind_eq_Some_conv)
  with Cons show ?case using terminal_step_inv [where compress = compress and decompress = decompress] assms(3) by blast
qed simp

lemma run_inv_start: "run_inv (terminal_start i r c p t)"
  by (simp add: run_inv_def terminal_start_def started_session_def Session_new_def)

text \<open>A poll that gets the lock sends everything that waits.\<close>

lemma poll_sends_all:
  assumes "run_inv x" "ts_state (terminal x) \<noteq> SessionClosed" "lock_free pr"
    and "terminal_step compress decompress i (Poll t pr) x = Some x'" "\<And>d. decompress (compress d) = d"
  shows "seen x' = seen x @ waiting (terminal x)" "waiting (terminal x') = []" "printed x' = printed x"
    "ts_state (terminal x') \<noteq> SessionClosed"
proof -
  obtain queue where q: "output_rx (terminal x) = Some queue" using assms(1) by (auto simp: run_inv_def)
  obtain s resps gone where r: "read_session compress t i pr (terminal x) = Some (s, resps, gone)"
    and x': "x' = x\<lparr>terminal := s, seen := seen x @ concat (map (payload decompress) resps)\<rparr>"
    using assms(4) by (auto split: option.splits)
  note rs = read_session_Some [OF r assms(3) q assms(5)]
  from rs(4) [OF assms(2)] obtain ph where "concat (map (payload decompress) resps) = waiting (terminal x)"
    "ts_state s = SessionActive None ph" by blast
  then show "seen x' = seen x @ waiting (terminal x)" "waiting (terminal x') = []" "printed x' = printed x"
    "ts_state (terminal x') \<noteq> SessionClosed" using rs(2) by (simp_all add: x' waiting_def)
qed

lemma connected_step:
  assumes "run_inv x" "ts_state (terminal x) \<noteq> SessionClosed" "e \<noteq> Detach" "e \<noteq> Reattach"
    and "terminal_step compress decompress i e x = Some x'" "\<And>d. decompress (compress d) = d"
  shows "\<exists>new. printed x' = printed x @ new \<and> seen x' @ waiting (terminal x') = seen x @ waiting (terminal x) @ concat new"
    "ts_state (terminal x') \<noteq> SessionClosed"
proof -
  have "(\<exists>new. printed x' = printed x @ new \<and> seen x' @ waiting (terminal x') = seen x @ waiting (terminal x) @ concat new)
      \<and> ts_state (terminal x') \<noteq> SessionClosed"
  proof (cases e)
    case (Print c)
    obtain queue where "output_rx (terminal x) = Some queue" using assms(1) by (auto simp: run_inv_def)
    then show ?thesis using assms(2,5) Print
      by (cases "length queue < CHANNEL_BUFFER_SIZE") (auto simp: try_send_output_def waiting_def)
  next
    case (Poll t pr)
    show ?thesis
    proof (cases "lock_free pr")
      case True
      from poll_sends_all [OF assms(1,2) True assms(5) [unfolded Poll] assms(6)] show ?thesis by simp
    qed (use assms(2,5) Poll in \<open>auto simp: read_session_def\<close>)
  qed (use assms(3,4) in simp_all)
  then show "\<exists>new. printed x' = printed x @ new \<and> seen x' @ waiting (terminal x') = seen x @ waiting (terminal x) @ concat new"
    "ts_state (terminal x') \<noteq> SessionClosed" by blast+
qed

lemma connected_run:
  assumes "run_inv x" "ts_state (terminal x) \<noteq> SessionClosed" "Detach \<notin> set es" "Reattach \<notin> set es"
    and "terminal_run compress decompress i es x = Some x'" "\<And>d. decompress (compress d) = d"
  shows "(\<exists>new. printed x' = printed x @ new \<and> seen x' @ waiting (terminal x') = seen x @ waiting (terminal x) @ concat new)
    \<and> ts_state (terminal x') \<noteq> SessionClosed"
  using assms(1-5)
proof (induction es arbitrary: x)
  case (Cons e es)
  then obtain x1 where s: "terminal_step compress decompress i e x = Some x1" and r: "terminal_run compress decompress i es x1 = Some x'"
    by (auto simp: bind_eq_Some_conv)
  have e: "e \<noteq> Detach" "e \<noteq> Reattach" "Detach \<notin> set es" "Reattach \<notin> set es" using Cons.prems by auto
  note st = connected_step [OF Cons.prems(1,2) e(1,2) s assms(6)]
  have "(\<exists>new. printed x' = printed x1 @ new \<and> seen x' @ waiting (terminal x') = seen x1 @ waiting (terminal x1) @ concat new)
    \<and> ts_state (terminal x') \<noteq> SessionClosed"
    by (rule Cons.IH [OF terminal_step_inv [OF Cons.prems(1) s assms(6)] st(2) e(3,4) r])
  with st(1) show ?case by auto
qed simp

lemma reconnected_poll:
  assumes "terminal_run compress decompress i (pre @ Reattach # post) (terminal_start i r c p t) = Some x"
    and "lock_free pr" and "terminal_step compress decompress i (Poll u pr) x = Some x'"
    and "\<And>d. decompress (compress d) = d" "Detach \<notin> set post" "Reattach \<notin> set post"
  shows "seen x' = seen x @ waiting (terminal x) \<and> waiting (terminal x') = []"
proof -
  from assms(1) obtain y where y: "terminal_run compress decompress i pre (terminal_start i r c p t) = Some y"
    and x: "terminal_run compress decompress i post (y\<lparr>terminal := reconnect_session (terminal y), seen := []\<rparr>) = Some x"
    by (auto simp: terminal_run_append bind_eq_Some_conv)
  have iy: "run_inv (y\<lparr>terminal := reconnect_session (terminal y), seen := []\<rparr>)"
    using terminal_run_inv [OF run_inv_start y assms(4)] by (simp add: run_inv_def reconnect_session_def Let_def)
  have "ts_state (terminal x) \<noteq> SessionClosed"
    using connected_run [OF iy _ assms(5,6) x assms(4)] by (simp add: reconnect_session_def Let_def)
  from poll_sends_all(1,2) [OF terminal_run_inv [OF iy x assms(4)] this assms(2,3,4)] show ?thesis by blast
qed

text \<open>
  C31. What a client has received, together with what still waits for it, is determined exactly. The first
  client, until it is lost: everything that entered the channel. A client that came back: first the replayed history, which is the end
  of what the polls had taken over when it came back, cut as \<open>get_recent\<close> cuts it to 8 KB (the last whole lines that
  fit, or the end of an oversized last line), then every chunk that was still in the channel and every chunk
  printed since, in order, nothing missing and nothing repeated. A poll that gets the lock of the session leaves nothing waiting.
\<close>

theorem terminal_client_contiguous:
  assumes "\<And>d. decompress (compress d) = d"
    and "Detach \<notin> set post" and "Reattach \<notin> set post"
  shows "(\<forall>x. terminal_run compress decompress i post (terminal_start i r c p t) = Some x
            \<longrightarrow> seen x @ waiting (terminal x) = concat (printed x))
    \<and> (\<forall>x. terminal_run compress decompress i (pre @ Reattach # post) (terminal_start i r c p t) = Some x \<longrightarrow>
         (\<exists>taken replay rest. printed x = taken @ rest \<and> seen x @ waiting (terminal x) = replay @ concat rest
            \<and> (\<exists>b. append_all taken OutputBuffer_new = Some b \<and> recent_lines 8192 (lines b) replay)
            \<and> (\<exists>y. terminal_run compress decompress i pre (terminal_start i r c p t) = Some y
                 \<and> (\<exists>queue. printed y = taken @ queue \<and> output_rx (terminal y) = Some queue))
            \<and> suffix (replay @ concat rest) (concat (printed x)))
         \<and> (\<forall>u pr x'. lock_free pr \<and> terminal_step compress decompress i (Poll u pr) x = Some x'
              \<longrightarrow> seen x' = seen x @ waiting (terminal x) \<and> waiting (terminal x') = []))"
proof (intro conjI allI impI, goal_cases)
  case (1 x)
  have "ts_state (terminal (terminal_start i r c p t)) \<noteq> SessionClosed" "seen (terminal_start i r c p t) = []"
    "waiting (terminal (terminal_start i r c p t)) = []" "printed (terminal_start i r c p t) = []"
    by (simp_all add: terminal_start_def started_session_def waiting_def)
  with connected_run [OF run_inv_start _ assms(2,3) 1 assms(1)] show ?case by auto
next
  case (2 x)
  from 2 obtain y where y: "terminal_run compress decompress i pre (terminal_start i r c p t) = Some y"
    and x: "terminal_run compress decompress i post (y\<lparr>terminal := reconnect_session (terminal y), seen := []\<rparr>) = Some x"
    by (auto simp: terminal_run_append bind_eq_Some_conv)
  have iy: "run_inv y" by (rule terminal_run_inv [OF run_inv_start y assms(1)])
  then obtain taken queue where q: "output_rx (terminal y) = Some queue" "printed y = taken @ queue"
    and b: "append_all taken OutputBuffer_new = Some (output_buffer (terminal y))" by (auto simp: run_inv_def)
  let ?r = "get_recent DEFAULT_RECONNECT_BUFFER_BYTES (output_buffer (terminal y))"
  have w: "waiting (reconnect_session (terminal y)) = ?r @ concat queue"
    using q(1) by (simp add: reconnect_session_def Let_def waiting_def)
  have "run_inv (y\<lparr>terminal := reconnect_session (terminal y), seen := []\<rparr>)"
    "ts_state (reconnect_session (terminal y)) \<noteq> SessionClosed"
    using iy by (simp_all add: run_inv_def reconnect_session_def Let_def)
  with connected_run [OF _ _ assms(2,3) x assms(1)] w q(2) obtain new where
    new: "printed x = taken @ queue @ new" "seen x @ waiting (terminal x) = ?r @ concat (queue @ new)" by auto
  have "suffix ?r (concat taken)" using get_recent_suffix append_all_suffix [OF b] suffix_order.trans
    by (fastforce simp: OutputBuffer_new_def)
  then have "suffix (?r @ concat (queue @ new)) (concat (printed x))" by (auto simp: new(1) suffix_def)
  moreover have "recent_lines 8192 (lines (output_buffer (terminal y))) ?r"
    using get_recent_exact [of "8192" "output_buffer (terminal y)"] by (simp add: DEFAULT_RECONNECT_BUFFER_BYTES_def)
  ultimately show ?case using new q y b by blast
next
  case (3 x u pr x')
  then have "lock_free pr" "terminal_step compress decompress i (Poll u pr) x = Some x'" by simp_all
  from reconnected_poll [OF 3(1) this assms] show ?case by blast
next
  case (4 x u pr x')
  then have "lock_free pr" "terminal_step compress decompress i (Poll u pr) x = Some x'" by simp_all
  from reconnected_poll [OF 4(1) this assms] show ?case by blast
qed

definition probe_demo :: Probe where
  "probe_demo = \<lparr>lock_free = True, reader_finished = False, resize_works = True, exit_status = None\<rparr>"

definition events_demo :: "terminal_event list" where
  "events_demo = [Print [104, 10], Poll 1 probe_demo, Detach, Print [105], Reattach, Poll 2 probe_demo]"

lemmas terminal_eval = events_demo_def probe_demo_def terminal_start_def started_session_def Session_new_def
  try_send_output_def CHANNEL_BUFFER_SIZE_def read_session_def drain_def reader_gone_def Let_def append_output_def
  process_remaining_def OutputBuffer_new_def push_piece_def NEWLINE_def trim.simps MAX_OUTPUT_BUFFER_SIZE_def
  MAX_BUFFER_LINES_def sigwinch_step_def do_sigwinch_resize_def sigwinch_rows_def sigwinch_done_def
  create_terminal_data_response_def COMPRESS_THRESHOLD_def reconnect_session_def get_recent_def
  DEFAULT_RECONNECT_BUFFER_BYTES_def MAX_SIGWINCH_PHASE_ATTEMPTS_def

theorem terminal_client_contiguous_witness:
  "\<exists>x taken replay rest. terminal_run (\<lambda>d. d) (\<lambda>d. d) 1 events_demo (terminal_start 1 24 80 7 0) = Some x
     \<and> printed x = taken @ rest \<and> seen x @ waiting (terminal x) = replay @ concat rest \<and> seen x = [104, 10, 105]"
proof -
  have "\<exists>x. terminal_run (\<lambda>d. d) (\<lambda>d. d) 1 events_demo (terminal_start 1 24 80 7 0) = Some x \<and> seen x = [104, 10, 105]"
    by (simp add: terminal_eval numeral_3_eq_3)
  then obtain x where x: "terminal_run (\<lambda>d. d) (\<lambda>d. d) 1 events_demo (terminal_start 1 24 80 7 0) = Some x" "seen x = [104, 10, 105]"
    by blast
  have e: "events_demo = [Print [104, 10], Poll 1 probe_demo, Detach, Print [105]] @ Reattach # [Poll 2 probe_demo]"
    by (simp add: events_demo_def)
  show ?thesis
    using terminal_client_contiguous [of "\<lambda>d. d" "\<lambda>d. d" "[Poll 2 probe_demo]" 1 24 80 7 0
        "[Print [104, 10], Poll 1 probe_demo, Detach, Print [105]]", folded e] x
    by simp blast
qed

section \<open>Redrawing after a reconnection\<close>

primrec polls :: "(chunk \<Rightarrow> chunk) \<Rightarrow> int \<Rightarrow> (instant \<times> Probe) list \<Rightarrow> TerminalSession \<Rightarrow> TerminalSession option" where
  "polls compress i [] s = Some s"
| "polls compress i (tp # tps) s =
     (case read_session compress (fst tp) i (snd tp) s of None \<Rightarrow> None | Some (s1, _, _) \<Rightarrow> polls compress i tps s1)"

text \<open>How many polls a phase can still take.\<close>

fun phase_left :: "SigwinchPhase \<Rightarrow> nat" where
  "phase_left SigIdle = 0"
| "phase_left (Restore n) = n + 1"
| "phase_left (TempResize n) = (if n = 0 then 1 else n + MAX_SIGWINCH_PHASE_ATTEMPTS + 1)"

lemma sigwinch_step_left:
  "\<exists>ph'. ts_state (sigwinch_step ok ph s) = SessionActive None ph' \<and> phase_left ph' \<le> phase_left ph - 1"
  by (cases ph rule: sigwinch_next.cases)
    (auto simp: sigwinch_step_def sigwinch_done_def case_prod_beta Let_def MAX_SIGWINCH_PHASE_ATTEMPTS_def)

lemma read_session_left:
  assumes "read_session compress t i pr s = Some (s', r)" "lock_free pr" "ts_state s = SessionActive b ph"
  shows "\<exists>b' ph'. ts_state s' = SessionActive b' ph' \<and> phase_left ph' \<le> phase_left ph - 1 \<and> b' = None"
  using assms sigwinch_step_left
  by (auto simp: read_session_def drain_def Let_def split: option.splits SessionState.splits if_splits)

lemma polls_left:
  "polls compress i tps s = Some s' \<Longrightarrow> (\<And>tp. tp \<in> set tps \<Longrightarrow> lock_free (snd tp)) \<Longrightarrow> ts_state s = SessionActive b ph \<Longrightarrow>
    \<exists>b' ph'. ts_state s' = SessionActive b' ph' \<and> phase_left ph' \<le> phase_left ph - length tps \<and> (tps \<noteq> [] \<longrightarrow> b' = None)"
proof (induction tps arbitrary: s b ph)
  case (Cons tp tps)
  from Cons.prems(1) obtain s1 r where s1: "read_session compress (fst tp) i (snd tp) s = Some (s1, r)" "polls compress i tps s1 = Some s'"
    by (auto split: option.splits)
  obtain ph1 where ph1: "ts_state s1 = SessionActive None ph1" "phase_left ph1 \<le> phase_left ph - 1"
    using read_session_left [OF s1(1) _ Cons.prems(3)] Cons.prems(2) [of tp] by auto
  obtain b' ph' where "ts_state s' = SessionActive b' ph'" "phase_left ph' \<le> phase_left ph1 - length tps" "tps \<noteq> [] \<longrightarrow> b' = None"
    using Cons.IH [OF s1(2) _ ph1(1)] Cons.prems(2) by auto
  then show ?case using ph1 s1(2) by (cases tps) auto
qed simp

lemma read_session_sigwinch:
  assumes "read_session compress t i pr s = Some (s', r)" "lock_free pr" "ts_state s = SessionActive b ph"
  shows "\<exists>s2. s' = sigwinch_step (resize_works pr) ph s2 \<and> pty_pair s2 = pty_pair s \<and> rows s2 = rows s \<and> cols s2 = cols s"
  using assms by (auto simp: read_session_def drain_def Let_def split: option.splits SessionState.splits if_splits)

lemma sigwinch_next_3 [simp]:
  "sigwinch_next (TempResize 3) = (TempResize 2, Some DoTempResize)" "sigwinch_next (Restore 3) = (Restore 2, Some DoRestore)"
  by (simp_all add: numeral_3_eq_3 numeral_2_eq_2)

lemma temp_rows: "r \<noteq> 0 \<Longrightarrow> sigwinch_rows DoTempResize r \<noteq> 0 \<and> sigwinch_rows DoTempResize r \<noteq> r"
proof -
  assume r: "r \<noteq> 0"
  show ?thesis
  proof (cases "r > 2")
    case True
    then have "r \<noteq> 1" by auto
    then have "r - 1 \<noteq> 0" by simp
    with True r show ?thesis by (simp add: sigwinch_rows_def)
  next
    case False
    then have "r \<noteq> - 1" by auto
    then have "r + 1 \<noteq> 0" by (metis add_eq_0_iff2)
    with False r \<open>r \<noteq> - 1\<close> show ?thesis by (simp add: sigwinch_rows_def)
  qed
qed

text \<open>
  The redraw after a reconnection ends and leaves the terminal as it should be. Whatever resizes fail, after
  seven polls of the reconnected session the sequence is over and the history has been sent. If the resizes
  work, the first poll gives the terminal a different, usable number of rows, and the second one restores the
  size the client asked for.
\<close>

theorem terminal_redraw_ends:
  assumes "polls compress i tps (reconnect_session s) = Some s'" "\<And>tp. tp \<in> set tps \<Longrightarrow> lock_free (snd tp)"
    and "pty_pair s = Some dims" "rows s \<noteq> 0" "cols s \<noteq> 0"
  shows "(7 \<le> length tps \<longrightarrow> ts_state s' = SessionActive None SigIdle)
    \<and> (length tps = 1 \<and> list_all (resize_works \<circ> snd) tps \<longrightarrow> (\<exists>r. pty_pair s' = Some (r, cols s) \<and> r \<noteq> 0 \<and> r \<noteq> rows s))
    \<and> (length tps = 2 \<and> list_all (resize_works \<circ> snd) tps \<longrightarrow>
         pty_pair s' = Some (rows s, cols s) \<and> ts_state s' = SessionActive None SigIdle)"
proof (intro conjI impI)
  obtain b where st: "ts_state (reconnect_session s) = SessionActive b (TempResize 3)"
    by (simp add: reconnect_session_def Let_def MAX_SIGWINCH_PHASE_ATTEMPTS_def)
  have keep: "pty_pair (reconnect_session s) = Some dims" "rows (reconnect_session s) = rows s" "cols (reconnect_session s) = cols s"
    using assms(3) by (simp_all add: reconnect_session_def Let_def)
  show "ts_state s' = SessionActive None SigIdle" if "7 \<le> length tps"
  proof -
    obtain b' ph' where "ts_state s' = SessionActive b' ph'" "phase_left ph' \<le> 7 - length tps" "tps \<noteq> [] \<longrightarrow> b' = None"
      using polls_left [OF assms(1) assms(2) st] by (auto simp: MAX_SIGWINCH_PHASE_ATTEMPTS_def)
    with that show ?thesis by (cases ph') (auto split: if_splits)
  qed
  have first: "\<exists>r. pty_pair s1 = Some (r, cols s) \<and> r \<noteq> 0 \<and> r \<noteq> rows s \<and> rows s1 = rows s \<and> cols s1 = cols s
      \<and> ts_state s1 = SessionActive None (Restore 3)"
    if rd: "read_session compress t i pr (reconnect_session s) = Some (s1, x)" "lock_free pr" "resize_works pr" for t pr s1 x
  proof -
    obtain s2 where s2: "s1 = sigwinch_step True (TempResize 3) s2" "pty_pair s2 = Some dims" "rows s2 = rows s" "cols s2 = cols s"
      using read_session_sigwinch [OF rd(1,2) st] rd(3) keep by auto
    then show ?thesis using temp_rows [OF assms(4)] assms(4,5)
      by (simp add: sigwinch_step_def do_sigwinch_resize_def sigwinch_done_def Let_def MAX_SIGWINCH_PHASE_ATTEMPTS_def)
  qed
  show "\<exists>r. pty_pair s' = Some (r, cols s) \<and> r \<noteq> 0 \<and> r \<noteq> rows s"
    if one: "length tps = 1 \<and> list_all (resize_works \<circ> snd) tps"
  proof -
    obtain tp where tp: "tps = [tp]" using one by (cases tps) auto
    with assms(1) obtain x where "read_session compress (fst tp) i (snd tp) (reconnect_session s) = Some (s', x)"
      by (auto split: option.splits)
    then show ?thesis using first assms(2) one tp by fastforce
  qed
  assume two: "length tps = 2 \<and> list_all (resize_works \<circ> snd) tps"
  then obtain tp tp' where tp: "tps = [tp, tp']" by (cases tps; cases "tl tps") auto
  with assms(1) obtain s1 x x' where r: "read_session compress (fst tp) i (snd tp) (reconnect_session s) = Some (s1, x)"
    "read_session compress (fst tp') i (snd tp') s1 = Some (s', x')"
    by (auto split: option.splits)
  have free: "lock_free (snd tp)" "lock_free (snd tp')" "resize_works (snd tp)" "resize_works (snd tp')"
    using assms(2) two tp by auto
  obtain rr where s1: "pty_pair s1 = Some (rr, cols s)" "rows s1 = rows s" "cols s1 = cols s"
    "ts_state s1 = SessionActive None (Restore 3)"
    using first [OF r(1) free(1,3)] by blast
  obtain s2 where s2: "s' = sigwinch_step True (Restore 3) s2" "pty_pair s2 = pty_pair s1" "rows s2 = rows s" "cols s2 = cols s"
    using read_session_sigwinch [OF r(2) free(2) s1(4)] free(4) s1 by auto
  then show "pty_pair s' = Some (rows s, cols s)" "ts_state s' = SessionActive None SigIdle"
    using assms(4,5) s1(1) by (simp_all add: sigwinch_step_def do_sigwinch_resize_def sigwinch_done_def sigwinch_rows_def Let_def)
qed

theorem terminal_redraw_ends_witness:
  "\<exists>s'. polls (\<lambda>d. d) 1 [(1, probe_demo), (2, probe_demo)] (reconnect_session (started_session 1 24 80 7 0)) = Some s'
     \<and> pty_pair s' = Some (24, 80) \<and> ts_state s' = SessionActive None SigIdle"
proof -
  obtain s' where "polls (\<lambda>d. d) 1 [(1, probe_demo), (2, probe_demo)] (reconnect_session (started_session 1 24 80 7 0)) = Some s'"
    by (simp add: terminal_eval numeral_3_eq_3)
  moreover have "lock_free (snd tp)" if "tp \<in> set [(1 :: instant, probe_demo), (2, probe_demo)]" for tp
    using that by (auto simp: probe_demo_def)
  ultimately have "pty_pair s' = Some (24, 80) \<and> ts_state s' = SessionActive None SigIdle"
    using terminal_redraw_ends [of "\<lambda>d. d" 1 "[(1, probe_demo), (2, probe_demo)]" "started_session 1 24 80 7 0" s' "(24, 80)"]
    by (simp add: started_session_def Session_new_def probe_demo_def)
  with \<open>polls _ _ _ _ = _\<close> show ?thesis by blast
qed

section \<open>Opening a terminal\<close>

text \<open>
  A reconnecting client loses no terminal. When a service with surviving terminals is opened for the first
  time after a reconnection, the requested terminal, or the one with the lowest number if there is none of that
  number, is attached under the requested number, all other terminals keep their number and state, and the
  reply lists exactly these others.
\<close>

theorem terminal_reopen_exact:
  assumes "map_wf (sessions v)" "sessions v \<noteq> []" "needs_session_sync v"
  shows "let ids = fst ` set (sessions v); k = (if terminal_id \<in> ids then terminal_id else Min ids)
    in \<exists>v' s others. map_of (sessions v) k = Some s
      \<and> handle_open sid env t terminal_id r c v =
          (v', Inr (Some (Opened terminal_id True ''Reconnected to existing terminal'' (pid s) sid others)))
      \<and> map_of (sessions v') = ((map_of (sessions v))(k := None))(terminal_id \<mapsto> reconnect_session s)
      \<and> set others = ids - {k} \<and> \<not> needs_session_sync v'"
proof -
  define ids where "ids = fst ` set (sessions v)"
  define k where "k = (if terminal_id \<in> ids then terminal_id else Min ids)"
  have "ids \<noteq> {}" "finite ids" using assms(2) by (simp_all add: ids_def)
  then have "k \<in> ids" by (simp add: k_def)
  then obtain s where s: "map_of (sessions v) k = Some s"
    by (metis ids_def domD dom_map_of_conv_image_fst)
  define v1 where "v1 = remap_lowest terminal_id v"
  have v1: "map_of (sessions v1) = ((map_of (sessions v))(k := None))(terminal_id \<mapsto> s)"
    "needs_session_sync v1" "fst ` set (sessions v1) = insert terminal_id (ids - {k})" "map_wf (sessions v1)"
  proof -
    have "v1 = (if terminal_id \<in> ids then v else v\<lparr>sessions := AList.update terminal_id s (AList.delete k (sessions v))\<rparr>)"
      using s assms(2,3) unfolding v1_def remap_lowest_def contains_key_iff ids_def [symmetric] set_map
      by (cases "terminal_id \<in> ids") (simp_all add: k_def Let_def)
    then show "map_of (sessions v1) = ((map_of (sessions v))(k := None))(terminal_id \<mapsto> s)" "needs_session_sync v1"
        "map_wf (sessions v1)"
      using s assms(1,3) by (auto simp: k_def map_of_update map_of_delete map_wf_update map_wf_delete fun_eq_iff split: if_splits)
    then have "fst ` set (sessions v1) = dom (((map_of (sessions v))(k := None))(terminal_id \<mapsto> s))"
      by (metis dom_map_of_conv_image_fst)
    then show "fst ` set (sessions v1) = insert terminal_id (ids - {k})"
      by (simp add: ids_def dom_map_of_conv_image_fst)
  qed
  define others where
    "others = (if length (sessions v1) > 1 then filter (\<lambda>i. i \<noteq> terminal_id) (map fst (sessions v1)) else [])"
  have "terminal_id \<notin> ids - {k}" by (auto simp: k_def)
  then have flt: "set (filter (\<lambda>i. i \<noteq> terminal_id) (map fst (sessions v1))) = ids - {k}" using v1(3) by auto
  have "set others = ids - {k}"
  proof (cases "length (sessions v1) > 1")
    case False
    then have "card (fst ` set (sessions v1)) \<le> 1" using card_length [of "map fst (sessions v1)"] by simp
    then have "ids - {k} = {}" unfolding v1(3) using \<open>terminal_id \<notin> ids - {k}\<close> \<open>finite ids\<close> by simp
    with False show ?thesis by (simp add: others_def)
  qed (use flt in \<open>simp add: others_def\<close>)
  moreover have "handle_open sid env t terminal_id r c v =
      (v1\<lparr>sessions := AList.update terminal_id (reconnect_session s) (sessions v1), needs_session_sync := False\<rparr>,
       Inr (Some (Opened terminal_id True ''Reconnected to existing terminal'' (pid s) sid others)))"
    using v1(1,2) unfolding handle_open_def v1_def [symmetric] Let_def
    by (simp add: open_existing_def Let_def others_def reconnect_session_def)
  moreover have "map_of (AList.update terminal_id (reconnect_session s) (sessions v1)) =
      ((map_of (sessions v))(k := None))(terminal_id \<mapsto> reconnect_session s)"
    by (simp add: map_of_update v1(1))
  ultimately show ?thesis using s unfolding Let_def ids_def [symmetric] k_def [symmetric] by auto
qed

definition service_demo :: PersistentTerminalService where
  "service_demo = (Service_init ''s'' True False 0)\<lparr>needs_session_sync := True,
     sessions := [(5, started_session 5 24 80 9 0), (2, started_session 2 24 80 7 0)]\<rparr>"

theorem terminal_reopen_exact_witness:
  "\<exists>v' others. handle_open ''s'' \<lparr>spawned = Inr 3, resized = True, killed = True\<rparr> 1 1 24 80 service_demo =
      (v', Inr (Some (Opened 1 True ''Reconnected to existing terminal'' 7 ''s'' others))) \<and> set others = {5}
      \<and> map_of (sessions v') 2 = None"
proof -
  have "fst ` set (sessions service_demo) = {5, 2}" "map_of (sessions service_demo) 2 = Some (started_session 2 24 80 7 0)"
    by (simp_all add: service_demo_def)
  moreover have "Min {5, 2 :: int} = 2" by simp
  moreover have "pid (started_session 2 24 80 7 0) = 7" by (simp add: started_session_def)
  ultimately show ?thesis
    using terminal_reopen_exact [of service_demo 1 "''s''" "\<lparr>spawned = Inr 3, resized = True, killed = True\<rparr>" 1 24 80]
    by (fastforce simp: service_demo_def Let_def)
qed

text \<open>A terminal is reported as closed at most once by the polls.\<close>

lemma read_session_closed_once:
  assumes "read_session compress t i pr s = Some (s', resps, gone)"
  shows "gone \<Longrightarrow> \<not> closed_message_sent s \<and> closed_message_sent s'" "closed_message_sent s \<Longrightarrow> \<not> gone \<and> closed_message_sent s'"
proof -
  have "closed_message_sent (sigwinch_step ok ph s2) = closed_message_sent s2" for ok ph s2
    by (simp add: sigwinch_step_def do_sigwinch_resize_def case_prod_beta Let_def split: option.splits)
  then show "gone \<Longrightarrow> \<not> closed_message_sent s \<and> closed_message_sent s'" "closed_message_sent s \<Longrightarrow> \<not> gone \<and> closed_message_sent s'"
    using assms
    by (auto simp: read_session_def drain_def reader_gone_def Let_def split: option.splits SessionState.splits if_splits)
qed

end
