(* ===== verification/ClipboardFiles.thy ===== *)
theory ClipboardFiles
  imports Prelude TextFormat "HOL-Library.Word" "HOL-Library.Sublist"
begin

text \<open>
  Copying files over the clipboard, the side that has the files (\<^verbatim>\<open>src/libs/clipboard/src/platform/unix/local_file.rs\<close>
  and \<^verbatim>\<open>serv_files.rs\<close>) and the format that describes them (\<^verbatim>\<open>filetype.rs\<close>).

  Numbers of a fixed width are natural numbers with the wrap-around written out; the wire fields of a range
  request are 32-bit words, since their sign matters. The UTF-16 conversion of the crate \<open>utf16string\<close> is a pair of
  arguments. The disk is an argument that gives the bytes of a path, or nothing if it cannot be opened. A panic
  of the source is the value \<open>None\<close>.
\<close>

type_synonym octets = "8 word list"

section \<open>Paths\<close>

text \<open>A path is its root flag and its components, as \<open>Path\<close> compares them.\<close>

record path =
  rooted :: bool
  parts :: "string list"

fun split_slash :: "string \<Rightarrow> string list" where
  "split_slash [] = [[]]"
| "split_slash (c # cs) =
     (if c = CHR ''/'' then [] # split_slash cs
      else case split_slash cs of p # ps \<Rightarrow> (c # p) # ps | [] \<Rightarrow> [[c]])"

text \<open>Empty components disappear, and so does \<open>.\<close> except at the start of a relative path.\<close>

definition path_from :: "string \<Rightarrow> path" where
  "path_from s =
     (let r = (s \<noteq> [] \<and> hd s = CHR ''/''); ps = split_slash s
      in \<lparr>rooted = r,
          parts = (if \<not> r \<and> hd ps = ''.'' then [''.''] else []) @ filter (\<lambda>p. p \<noteq> [] \<and> p \<noteq> ''.'') ps\<rparr>)"

fun join_slash :: "string list \<Rightarrow> string" where
  "join_slash [] = []"
| "join_slash [p] = p"
| "join_slash (p # ps) = p @ CHR ''/'' # join_slash ps"

definition path_to_string :: "path \<Rightarrow> string" where
  "path_to_string p = (if rooted p then ''/'' else []) @ join_slash (parts p)"

definition path_parent :: "path \<Rightarrow> path option" where
  "path_parent p = (if parts p = [] then None else Some (p\<lparr>parts := butlast (parts p)\<rparr>))"

definition path_file_name :: "path \<Rightarrow> string option" where
  "path_file_name p =
     (if parts p = [] \<or> last (parts p) = ''..'' \<or> last (parts p) = ''.'' then None else Some (last (parts p)))"

definition path_strip_prefix :: "path \<Rightarrow> path \<Rightarrow> path option" where
  "path_strip_prefix base p =
     (if rooted base = rooted p \<and> prefix (parts base) (parts p)
      then Some \<lparr>rooted = False, parts = drop (length (parts base)) (parts p)\<rparr> else None)"

section \<open>Numbers on the wire\<close>

primrec le_bytes :: "nat \<Rightarrow> nat \<Rightarrow> octets" where
  "le_bytes 0 n = []"
| "le_bytes (Suc k) n = word_of_nat (n mod 256) # le_bytes k (n div 256)"

fun le_value :: "octets \<Rightarrow> nat" where
  "le_value [] = 0"
| "le_value (b # bs) = unat b + 256 * le_value bs"

lemma length_le_bytes [simp]: "length (le_bytes k n) = k"
  by (induction k arbitrary: n) auto

lemma le_value_bytes [simp]: "le_value (le_bytes k n) = n mod 256 ^ k"
proof (induction k arbitrary: n)
  case (Suc k)
  have "unat (word_of_nat (n mod 256) :: 8 word) = n mod 256" by (simp add: unat_of_nat)
  then show ?case using Suc mod_mult2_eq [of n 256 "256 ^ k"] by simp
qed simp

lemma le_value_less: "le_value bs < 256 ^ length bs"
proof (induction bs)
  case (Cons b bs)
  have "unat b < 256" using unsigned_less [of b] by simp
  with Cons show ?case by simp
qed simp

section \<open>Descriptors\<close>

definition FLAGS_FD_ATTRIBUTES :: nat where "FLAGS_FD_ATTRIBUTES = 0x04"
definition FLAGS_FD_SIZE :: nat where "FLAGS_FD_SIZE = 0x40"
definition FLAGS_FD_LAST_WRITE :: nat where "FLAGS_FD_LAST_WRITE = 0x20"
definition FLAGS_FD_PROGRESSUI :: nat where "FLAGS_FD_PROGRESSUI = 0x4000"
definition FLAGS_FD_UNIX_MODE :: nat where "FLAGS_FD_UNIX_MODE = 0x08"
definition LDAP_EPOCH_DELTA :: nat where "LDAP_EPOCH_DELTA = 116444772610000000"
definition BLOCK_SIZE :: nat where "BLOCK_SIZE = 4 * 1024 * 1024"
definition PERM_READ :: nat where "PERM_READ = 0x124"
definition PERM_RW :: nat where "PERM_RW = 0x1A4"
definition PERM_SELF_RO :: nat where "PERM_SELF_RO = 0x100"
definition PERM_RWX :: nat where "PERM_RWX = 0x1ED"

datatype FileType = File | Directory | Symlink

datatype CliprdrError = ConversionFailure | FileError string | InvalidRequest string

text \<open>Times are nanoseconds after the epoch of Unix.\<close>

record FileDescription =
  fd_conn_id :: int
  fd_name :: path
  fd_kind :: FileType
  fd_atime :: nat
  fd_last_modified :: nat
  fd_last_metadata_changed :: nat
  fd_creation_time :: nat
  fd_size :: nat
  fd_perm :: nat

record LocalFile =
  relative_root :: path
  lf_path :: path
  handle :: "nat option"
  lf_offset :: nat
  lf_name :: string
  lf_size :: nat
  last_write_time :: int
  is_dir :: bool
  lf_perm :: nat
  read_only :: bool
  hidden :: bool
  system_file :: bool
  archive :: bool
  normal :: bool

record Metadata =
  md_len :: nat
  md_is_dir :: bool
  md_readonly :: bool
  md_modified :: "int option"
  md_mode :: nat

definition trim_start_slash :: "string \<Rightarrow> string" where
  "trim_start_slash s = dropWhile (\<lambda>c. c = CHR ''/'') s"

definition replace_char :: "char \<Rightarrow> char \<Rightarrow> string \<Rightarrow> string" where
  "replace_char a b s = map (\<lambda>c. if c = a then b else c) s"

definition BACKSLASH :: char where "BACKSLASH = CHR 0x5C"
definition NUL :: char where "NUL = CHR 0x00"

definition try_open :: "(path \<Rightarrow> Metadata option) \<Rightarrow> path \<Rightarrow> path \<Rightarrow> CliprdrError + LocalFile" where
  "try_open metadata root p =
     (case metadata p of
        None \<Rightarrow> Inl (FileError (path_to_string p))
      | Some mt \<Rightarrow>
          let dir = md_is_dir mt; ro = md_readonly mt; hid = (case path_to_string p of c # _ \<Rightarrow> c = CHR ''.'' | [] \<Rightarrow> False)
          in Inr \<lparr>relative_root = root, lf_path = p, handle = None, lf_offset = 0,
                lf_name = replace_char (CHR ''/'') BACKSLASH (trim_start_slash (path_to_string p)),
                lf_size = md_len mt,
                last_write_time = (case md_modified mt of Some t \<Rightarrow> t | None \<Rightarrow> 0), is_dir = dir, lf_perm = md_mode mt,
                read_only = ro, hidden = hid, system_file = False, archive = False,
                normal = (\<not> (dir \<or> ro \<or> False \<or> hid \<or> False))\<rparr>)"

unbundle bit_operations_syntax

definition file_attributes :: "LocalFile \<Rightarrow> nat" where
  "file_attributes f =
     (if read_only f then 0x1 else 0) OR (if hidden f then 0x2 else 0) OR (if system_file f then 0x4 else 0)
       OR (if is_dir f then 0x10 else 0) OR (if archive f then 0x20 else 0) OR (if normal f then 0x80 else 0)"

definition win32_time :: "int \<Rightarrow> nat" where
  "win32_time t = nat t mod 2 ^ 64 div 100 + LDAP_EPOCH_DELTA"

definition wire_name :: "LocalFile \<Rightarrow> string" where
  "wire_name f = path_to_string (case path_strip_prefix (relative_root f) (lf_path f) of Some p \<Rightarrow> p | None \<Rightarrow> lf_path f)"

definition wire_flags :: nat where
  "wire_flags = FLAGS_FD_SIZE OR FLAGS_FD_LAST_WRITE OR FLAGS_FD_ATTRIBUTES OR FLAGS_FD_PROGRESSUI OR FLAGS_FD_UNIX_MODE"

text \<open>The padding \<open>520 - name_len\<close> of a longer name overflows.\<close>

definition as_bin :: "(string \<Rightarrow> octets) \<Rightarrow> LocalFile \<Rightarrow> octets option" where
  "as_bin utf16 f =
     (let name = utf16 (wire_name f)
      in if length name > 520 then None
         else Some (le_bytes 4 wire_flags @ replicate 32 0 @ le_bytes 4 (file_attributes f) @ replicate 12 0
                @ le_bytes 4 (lf_perm f) @ le_bytes 8 (win32_time (last_write_time f))
                @ le_bytes 4 (lf_size f div 2 ^ 32) @ le_bytes 4 (lf_size f mod 2 ^ 32)
                @ name @ replicate (520 - length name) 0))"

fun bins :: "(string \<Rightarrow> octets) \<Rightarrow> LocalFile list \<Rightarrow> octets option" where
  "bins utf16 [] = Some []"
| "bins utf16 (f # fs) =
     (case as_bin utf16 f of None \<Rightarrow> None
      | Some b \<Rightarrow> (case bins utf16 fs of None \<Rightarrow> None | Some bs \<Rightarrow> Some (b @ bs)))"

definition build_file_list_pdu :: "(string \<Rightarrow> octets) \<Rightarrow> LocalFile list \<Rightarrow> octets option" where
  "build_file_list_pdu utf16 files = map_option (\<lambda>bs. le_bytes 4 (length files mod 2 ^ 32) @ bs) (bins utf16 files)"

definition decode_perm :: "nat \<Rightarrow> nat \<Rightarrow> nat \<Rightarrow> nat" where
  "decode_perm flags attributes perm =
     (if flags AND FLAGS_FD_UNIX_MODE \<noteq> 0 then perm
      else if attributes = 0x80 then PERM_RWX
      else if attributes AND 0x01 \<noteq> 0 then PERM_READ
      else if attributes AND 0x02 \<noteq> 0 then PERM_SELF_RO
      else if attributes AND 0x10 \<noteq> 0 then PERM_RWX
      else PERM_RW)"

definition decode_time :: "nat \<Rightarrow> nat \<Rightarrow> nat" where
  "decode_time flags written =
     (if flags AND FLAGS_FD_LAST_WRITE \<noteq> 0 \<and> written \<ge> LDAP_EPOCH_DELTA
      then (written - LDAP_EPOCH_DELTA) * 100 mod 2 ^ 64 else 0)"

definition decode_name :: "string \<Rightarrow> path" where
  "decode_name s = path_from (rev (dropWhile (\<lambda>c. c = NUL) (rev (replace_char BACKSLASH (CHR ''/'') s))))"

text \<open>The cursor reads the fields in order; a descriptor has 592 bytes.\<close>

definition parse_file_descriptor ::
  "(octets \<Rightarrow> string option) \<Rightarrow> int \<Rightarrow> octets \<Rightarrow> octets \<times> (CliprdrError + FileDescription)" where
  "parse_file_descriptor from_utf16 conn data =
     (let flags = le_value (take 4 data);
          attributes = le_value (take 4 (drop 36 data));
          perm = le_value (take 4 (drop 52 data)) mod 2 ^ 16;
          written = le_value (take 8 (drop 56 data));
          size_high = le_value (take 4 (drop 64 data));
          size_low = le_value (take 4 (drop 68 data));
          block = take 520 (drop 72 data);
          rest = drop 592 data
      in (rest,
          case from_utf16 block of
            None \<Rightarrow> Inl ConversionFailure
          | Some wstr \<Rightarrow>
              if flags AND FLAGS_FD_ATTRIBUTES = 0
              then Inl (InvalidRequest ''file description must have valid attributes'')
              else
                let t = decode_time flags written
                in Inr \<lparr>fd_conn_id = conn, fd_name = decode_name wstr,
                      fd_kind = (if attributes AND 0x10 \<noteq> 0 then Directory else File),
                      fd_atime = t, fd_last_modified = t, fd_last_metadata_changed = t, fd_creation_time = t,
                      fd_size = (size_high * 2 ^ 32 + size_low) mod 2 ^ 64,
                      fd_perm = decode_perm flags attributes perm\<rparr>))"

fun parse_loop ::
  "(octets \<Rightarrow> string option) \<Rightarrow> int \<Rightarrow> nat \<Rightarrow> octets \<Rightarrow> CliprdrError + FileDescription list" where
  "parse_loop from_utf16 conn 0 data = Inr []"
| "parse_loop from_utf16 conn (Suc n) data =
     (case parse_file_descriptor from_utf16 conn data of
        (rest, Inl e) \<Rightarrow> Inl e
      | (rest, Inr d) \<Rightarrow> (case parse_loop from_utf16 conn n rest of Inl e \<Rightarrow> Inl e | Inr ds \<Rightarrow> Inr (d # ds)))"

definition parse_file_descriptors ::
  "(octets \<Rightarrow> string option) \<Rightarrow> int \<Rightarrow> octets \<Rightarrow> CliprdrError + FileDescription list" where
  "parse_file_descriptors from_utf16 conn pdu =
     (if length pdu < 4 then Inl (InvalidRequest ''file descriptor request with infficient length'')
      else
        let count = le_value (take 4 pdu); data = drop 4 pdu
        in if data = [] \<and> count = 0 then Inr []
           else if length data \<noteq> 592 * count then Inl (InvalidRequest ''file descriptor request with invalid length'')
           else parse_loop from_utf16 conn count data)"

section \<open>Descriptors round trip\<close>

text \<open>
  What arrives of a file: its relative path with every backslash taken for a separator, and its time of
  modification to 100 nanoseconds, times before 1970 as 1970.
\<close>

definition described :: "int \<Rightarrow> LocalFile \<Rightarrow> FileDescription" where
  "described conn f =
     (let t = (if last_write_time f < 0 then 0 else nat (last_write_time f) div 100 * 100)
      in \<lparr>fd_conn_id = conn, fd_name = path_from (replace_char BACKSLASH (CHR ''/'') (wire_name f)), fd_kind = (if is_dir f then Directory else File),
          fd_atime = t, fd_last_modified = t, fd_last_metadata_changed = t, fd_creation_time = t,
          fd_size = lf_size f, fd_perm = lf_perm f mod 2 ^ 16\<rparr>)"

lemma attributes_directory: "file_attributes f AND 0x10 \<noteq> 0 \<longleftrightarrow> is_dir f"
  by (cases "read_only f"; cases "hidden f"; cases "system_file f"; cases "is_dir f"; cases "archive f"; cases "normal f")
    (simp_all add: file_attributes_def)

lemma file_attributes_less: "file_attributes f < 2 ^ 32"
  by (cases "read_only f"; cases "hidden f"; cases "system_file f"; cases "is_dir f"; cases "archive f"; cases "normal f")
    (simp_all add: file_attributes_def)

lemma wire_flags_value: "wire_flags = 0x406C"
  by (simp add: wire_flags_def FLAGS_FD_SIZE_def FLAGS_FD_LAST_WRITE_def FLAGS_FD_ATTRIBUTES_def FLAGS_FD_PROGRESSUI_def
      FLAGS_FD_UNIX_MODE_def)

lemma replace_char_absent: "a \<notin> set s \<Longrightarrow> replace_char a b s = s"
  by (induction s) (auto simp: replace_char_def)

lemma decode_name_padded:
  assumes "s = [] \<or> last s \<noteq> NUL"
  shows "decode_name (s @ replicate m NUL) = path_from (replace_char BACKSLASH (CHR ''/'') s)"
proof -
  have "replace_char BACKSLASH (CHR ''/'') (s @ replicate m NUL) = replace_char BACKSLASH (CHR ''/'') s @ replicate m NUL"
    by (simp add: replace_char_def BACKSLASH_def NUL_def)
  moreover have "dropWhile (\<lambda>c. c = NUL) (rev (replace_char BACKSLASH (CHR ''/'') s @ replicate m NUL))
      = rev (replace_char BACKSLASH (CHR ''/'') s)"
    using assms by (cases s rule: rev_cases) (auto simp: dropWhile_append replace_char_def NUL_def BACKSLASH_def)
  ultimately show ?thesis by (simp add: decode_name_def)
qed

lemma decode_time_written:
  assumes "t < 2 ^ 64"
  shows "decode_time wire_flags (win32_time t) = (if t < 0 then 0 else nat t div 100 * 100)"
proof -
  have "nat t < 2 ^ 64" using assms by (simp add: nat_less_iff)
  then have m: "nat t mod 2 ^ 64 = nat t" by simp
  moreover have "nat t div 100 * 100 < 2 ^ 64" using \<open>nat t < 2 ^ 64\<close> div_times_less_eq_dividend [of "nat t" 100] by linarith
  ultimately show ?thesis by (simp add: decode_time_def win32_time_def wire_flags_value FLAGS_FD_LAST_WRITE_def)
qed

lemma win32_time_less: "win32_time t < 2 ^ 64"
proof -
  have "nat t mod 2 ^ 64 < 2 ^ 64" by simp
  then have "nat t mod 2 ^ 64 div 100 \<le> (2 ^ 64) div 100" by (intro div_le_mono) simp
  then show ?thesis by (simp add: win32_time_def LDAP_EPOCH_DELTA_def)
qed

text \<open>
  A file whose name fits in 260 units of UTF-16 and survives the conversion of the crate \<open>utf16string\<close>; no name ends
  with a null character, and sizes and times have 64 bits.
\<close>

definition transferable :: "(string \<Rightarrow> octets) \<Rightarrow> (octets \<Rightarrow> string option) \<Rightarrow> LocalFile \<Rightarrow> bool" where
  "transferable utf16 from_utf16 f \<longleftrightarrow>
     (let s = wire_name f; name = utf16 s
      in length name \<le> 520 \<and> (s = [] \<or> last s \<noteq> NUL)
         \<and> from_utf16 (name @ replicate (520 - length name) 0) = Some (s @ replicate ((520 - length name) div 2) NUL))
     \<and> lf_size f < 2 ^ 64 \<and> last_write_time f < 2 ^ 64"

lemma as_bin_length: "as_bin utf16 f = Some b \<Longrightarrow> length b = 592"
  by (auto simp: as_bin_def Let_def split: if_splits)

lemma parse_as_bin:
  assumes "transferable utf16 from_utf16 f"
  shows "\<exists>b. as_bin utf16 f = Some b \<and> parse_file_descriptor from_utf16 conn (b @ rest) = (rest, Inr (described conn f))"
proof -
  define s where "s = wire_name f"
  define name where "name = utf16 s"
  have t: "length name \<le> 520" "s = [] \<or> last s \<noteq> NUL" "lf_size f < 2 ^ 64" "last_write_time f < 2 ^ 64"
    "from_utf16 (name @ replicate (520 - length name) 0) = Some (s @ replicate ((520 - length name) div 2) NUL)"
    using assms by (auto simp: transferable_def Let_def name_def s_def)
  define b where "b = le_bytes 4 wire_flags @ replicate 32 0 @ le_bytes 4 (file_attributes f) @ replicate 12 0
    @ le_bytes 4 (lf_perm f) @ le_bytes 8 (win32_time (last_write_time f))
    @ le_bytes 4 (lf_size f div 2 ^ 32) @ le_bytes 4 (lf_size f mod 2 ^ 32) @ name @ replicate (520 - length name) 0"
  have bin: "as_bin utf16 f = Some b" using t(1) by (simp add: as_bin_def Let_def b_def name_def s_def)
  have fields: "take 4 (b @ rest) = le_bytes 4 wire_flags" "take 4 (drop 36 (b @ rest)) = le_bytes 4 (file_attributes f)"
    "take 4 (drop 52 (b @ rest)) = le_bytes 4 (lf_perm f)" "take 8 (drop 56 (b @ rest)) = le_bytes 8 (win32_time (last_write_time f))"
    "take 4 (drop 64 (b @ rest)) = le_bytes 4 (lf_size f div 2 ^ 32)" "take 4 (drop 68 (b @ rest)) = le_bytes 4 (lf_size f mod 2 ^ 32)"
    "take 520 (drop 72 (b @ rest)) = name @ replicate (520 - length name) 0" "drop 592 (b @ rest) = rest"
    using t(1) by (simp_all add: b_def del: le_bytes.simps)
  have p: "(256 :: nat) ^ 4 = 2 ^ 32" "(256 :: nat) ^ 8 = 2 ^ 64" by simp_all
  have hi: "lf_size f div 2 ^ 32 mod 2 ^ 32 * 2 ^ 32 + lf_size f mod 2 ^ 32 mod 2 ^ 32 = lf_size f"
    using t(3) by (simp add: div_mult_mod_eq less_mult_imp_div_less)
  have v: "le_value (take 4 (b @ rest)) = wire_flags" "le_value (take 4 (drop 36 (b @ rest))) = file_attributes f"
    "le_value (take 8 (drop 56 (b @ rest))) = win32_time (last_write_time f)"
    unfolding fields le_value_bytes p using file_attributes_less win32_time_less by (simp_all add: wire_flags_value)
  have v': "le_value (take 4 (drop 52 (b @ rest))) mod 2 ^ 16 = lf_perm f mod 2 ^ 16"
    unfolding fields le_value_bytes p by (simp add: mod_mod_cancel)
  have "le_value (take 4 (drop 64 (b @ rest))) * 2 ^ 32 + le_value (take 4 (drop 68 (b @ rest))) = lf_size f"
    unfolding fields le_value_bytes p by (rule hi)
  then have sz: "(le_value (take 4 (drop 64 (b @ rest))) * 2 ^ 32 + le_value (take 4 (drop 68 (b @ rest)))) mod 2 ^ 64 = lf_size f"
    using t(3) by simp
  have fl: "(wire_flags AND FLAGS_FD_ATTRIBUTES = 0) = False" "decode_perm wire_flags at pm = pm" for at pm
    by (simp_all add: wire_flags_value FLAGS_FD_ATTRIBUTES_def decode_perm_def FLAGS_FD_UNIX_MODE_def)
  have "parse_file_descriptor from_utf16 conn (b @ rest) = (rest, Inr (described conn f))"
    unfolding parse_file_descriptor_def described_def Let_def fields(7,8) t(5) v v' sz fl option.case if_False
      decode_name_padded [OF t(2)] decode_time_written [OF t(4)] s_def [symmetric]
    using attributes_directory [of f] by simp
  with bin show ?thesis by blast
qed

lemma bins_parse:
  assumes "\<And>f. f \<in> set fs \<Longrightarrow> transferable utf16 from_utf16 f"
  shows "\<exists>bs. bins utf16 fs = Some bs \<and> length bs = 592 * length fs
    \<and> parse_loop from_utf16 conn (length fs) bs = Inr (map (described conn) fs)"
  using assms
proof (induction fs)
  case (Cons f fs)
  then obtain bs where bs: "bins utf16 fs = Some bs" "length bs = 592 * length fs"
    "parse_loop from_utf16 conn (length fs) bs = Inr (map (described conn) fs)" by auto
  obtain b where b: "as_bin utf16 f = Some b" "parse_file_descriptor from_utf16 conn (b @ bs) = (bs, Inr (described conn f))"
    using parse_as_bin [of utf16 from_utf16 f conn bs] Cons.prems by auto
  then show ?case using bs as_bin_length [OF b(1)] by simp
qed simp

lemma file_list_parsed:
  assumes "length files < 2 ^ 32" "\<And>f. f \<in> set files \<Longrightarrow> transferable utf16 from_utf16 f"
  shows "\<exists>pdu. build_file_list_pdu utf16 files = Some pdu
    \<and> parse_file_descriptors from_utf16 conn pdu = Inr (map (described conn) files)"
proof -
  obtain bs where bs: "bins utf16 files = Some bs" "length bs = 592 * length files"
    "parse_loop from_utf16 conn (length files) bs = Inr (map (described conn) files)"
    using bins_parse [OF assms(2)] by blast
  have "le_value (le_bytes 4 (length files mod 2 ^ 32)) = length files"
    unfolding le_value_bytes using assms(1) by simp
  then show ?thesis using bs
    by (auto simp: build_file_list_pdu_def parse_file_descriptors_def Let_def simp del: le_bytes.simps le_value_bytes)
qed

lemma described_plain: "BACKSLASH \<notin> set (wire_name f) \<Longrightarrow> fd_name (described conn f) = path_from (wire_name f)"
  by (simp add: described_def Let_def replace_char_absent)


text \<open>The conversion for names of single-unit characters.\<close>

definition utf16_demo :: "string \<Rightarrow> octets" where
  "utf16_demo s = concat (map (\<lambda>c. [word_of_nat (of_char c), 0]) s)"

fun from_utf16_demo :: "octets \<Rightarrow> string option" where
  "from_utf16_demo (l # h # rest) = (if h = 0 then map_option (\<lambda>s. char_of (unat l) # s) (from_utf16_demo rest) else None)"
| "from_utf16_demo [] = Some []"
| "from_utf16_demo [x] = None"

lemma from_utf16_demo_padded: "from_utf16_demo (utf16_demo s @ replicate (2 * m) 0) = Some (s @ replicate m NUL)"
proof (induction s)
  case Nil
  have "from_utf16_demo (replicate (2 * m) 0) = Some (replicate m NUL)"
    by (induction m) (auto simp: NUL_def char_of_def)
  then show ?case by (simp add: utf16_demo_def)
next
  case (Cons c s)
  have "unat (word_of_nat (of_char c) :: 8 word) = of_char c"
    using of_char_mod_256 [of c, where 'a = nat] by (simp add: unat_of_nat)
  then show ?case using Cons by (simp add: utf16_demo_def)
qed

definition local_file_demo :: LocalFile where
  "local_file_demo = \<lparr>relative_root = path_from ''/home/u'', lf_path = path_from ''/home/u/d/a.txt'', handle = None, lf_offset = 0,
     lf_name = [], lf_size = 5, last_write_time = 1700000000123456789, is_dir = False, lf_perm = 0x81A4, read_only = False,
     hidden = False, system_file = False, archive = False, normal = True\<rparr>"

lemma local_file_demo_transferable: "transferable utf16_demo from_utf16_demo local_file_demo"
proof -
  have w: "wire_name local_file_demo = ''d/a.txt''"
    by (simp add: wire_name_def local_file_demo_def path_from_def path_strip_prefix_def path_to_string_def Let_def prefix_def)
  have "length (utf16_demo ''d/a.txt'') = 14" by (simp add: utf16_demo_def)
  then show ?thesis unfolding transferable_def Let_def w
    using from_utf16_demo_padded [of "''d/a.txt''" 253] by (simp add: local_file_demo_def NUL_def)
qed


section \<open>Names and times that do not survive\<close>

text \<open>A name of more than 260 units makes the list of files panic, whatever else is copied.\<close>

lemma long_name_panics:
  assumes "f \<in> set files" "length (utf16 (wire_name f)) > 520"
  shows "build_file_list_pdu utf16 files = None"
proof -
  have "bins utf16 files = None"
    using assms by (induction files) (auto simp: as_bin_def Let_def split: option.splits)
  then show ?thesis by (simp add: build_file_list_pdu_def)
qed

text \<open>A backslash of a file name arrives as a separator of directories.\<close>

lemma backslash_becomes_directory:
  "parts (decode_name (''a'' @ [BACKSLASH] @ ''b'' @ replicate m NUL)) = [''a'', ''b'']"
proof -
  have "replace_char BACKSLASH (CHR ''/'') (''a'' @ [BACKSLASH] @ ''b'' @ replicate m NUL) = ''a/b'' @ replicate m NUL"
    by (simp add: replace_char_def BACKSLASH_def NUL_def)
  then show ?thesis
    by (simp add: decode_name_def dropWhile_append NUL_def path_from_def Let_def)
qed

text \<open>
  The folder that is copied from has the empty relative path, so it arrives with the empty name; the test of the
  source that lists \<open>.\<close> below the root \<open>.\<close> expects the name \<open>.\<close> for it.
\<close>

lemma root_arrives_empty:
  assumes "lf_path f = relative_root f"
  shows "wire_name f = []" "fd_name (described conn f) = \<lparr>rooted = False, parts = []\<rparr>"
proof -
  show w: "wire_name f = []" using assms by (simp add: wire_name_def path_strip_prefix_def path_to_string_def)
  show "fd_name (described conn f) = \<lparr>rooted = False, parts = []\<rparr>"
    unfolding described_def w by (simp add: Let_def replace_char_def path_from_def)
qed

text \<open>
  The epoch of Windows is 369 years before that of Unix, 134774 days. The constant of the source is an hour, a
  minute and a second more.
\<close>

lemma epoch_delta_off: "LDAP_EPOCH_DELTA = (134774 * 86400 + 3661) * 10 ^ 7"
  by (simp add: LDAP_EPOCH_DELTA_def)

end
