(* ===== verification/ClipboardServe.thy ===== *)
theory ClipboardServe
  imports ClipboardFiles
begin

text \<open>
  Serving the contents of copied files (\<^verbatim>\<open>src/libs/clipboard/src/platform/unix/serv_files.rs\<close>, and \<open>read_exact_at\<close> of
  \<^verbatim>\<open>local_file.rs\<close>). An open file is the position of its reader. The disk gives the bytes of a path, or nothing if
  it cannot be opened. Allocating more than half of the address space panics.
\<close>

section \<open>Reading a file\<close>

type_synonym disk = "path \<Rightarrow> octets option"

definition load_handle :: "disk \<Rightarrow> LocalFile \<Rightarrow> LocalFile \<times> CliprdrError option" where
  "load_handle d f =
     (if \<not> is_dir f \<and> handle f = None
      then case d (lf_path f) of
             None \<Rightarrow> (f, Some (FileError (path_to_string (lf_path f))))
           | Some _ \<Rightarrow> (f\<lparr>handle := Some 0\<rparr>, None)
      else (f, None))"

text \<open>\<open>read_exact\<close> of the reader at a position: the bytes, or an error at the end of the file.\<close>

definition read_exact :: "octets \<Rightarrow> nat \<Rightarrow> nat \<Rightarrow> octets option" where
  "read_exact content position n =
     (if position + n \<le> length content then Some (take n (drop position content)) else None)"

definition read_exact_at :: "disk \<Rightarrow> nat \<Rightarrow> nat \<Rightarrow> LocalFile \<Rightarrow> LocalFile \<times> (CliprdrError + octets)" where
  "read_exact_at d n offset f0 =
     (case load_handle d f0 of
        (f, Some e) \<Rightarrow> (f, Inl e)
      | (f, None) \<Rightarrow>
          (case handle f of
             None \<Rightarrow> (f, Inl (FileError (path_to_string (lf_path f))))
           | Some position \<Rightarrow>
               let p = (if offset \<noteq> lf_offset f then offset else position);
                   content = (case d (lf_path f) of Some c \<Rightarrow> c | None \<Rightarrow> [])
               in case read_exact content p n of
                    None \<Rightarrow> (f\<lparr>handle := Some (max p (length content))\<rparr>, Inl (FileError (path_to_string (lf_path f))))
                  | Some buf \<Rightarrow>
                      let new_offset = offset + n
                      in (if new_offset \<ge> lf_size f then f\<lparr>lf_offset := 0, handle := None\<rparr>
                          else f\<lparr>lf_offset := new_offset, handle := Some (p + n)\<rparr>, Inr buf)))"

section \<open>The copied files\<close>

datatype FileContentsRequest = SizeRequest int nat | RangeRequest int nat nat nat

record ClipFiles =
  files :: "string list"
  file_list :: "LocalFile list"
  first_file_index :: nat
  files_pdu :: octets

definition usize_max :: nat where "usize_max = 2 ^ 64 - 1"

definition clip_clear :: "ClipFiles \<Rightarrow> ClipFiles" where
  "clip_clear c = \<lparr>files = [], file_list = [], first_file_index = usize_max, files_pdu = []\<rparr>"

datatype ClipboardFile = FileContentsResponse nat int octets | Files "(string \<times> nat) list"

definition get_files_for_audit :: "(path \<Rightarrow> bool) \<Rightarrow> FileContentsRequest \<Rightarrow> ClipFiles \<Rightarrow> ClipboardFile option" where
  "get_files_for_audit is_file request c =
     (case request of
        RangeRequest _ file_idx offset _ \<Rightarrow>
          if file_idx = first_file_index c \<and> offset = 0
          then let fs = map (\<lambda>f. (path_to_string (lf_path f), lf_size f)) (filter (\<lambda>f. is_file (lf_path f)) (file_list c))
               in if fs = [] then None else Some (Files fs)
          else None
      | SizeRequest _ _ \<Rightarrow> None)"

text \<open>The hot reload of the next file that is no directory, from index \<open>i\<close> on.\<close>

fun hot_reload :: "disk \<Rightarrow> LocalFile list \<Rightarrow> LocalFile list \<times> CliprdrError option" where
  "hot_reload d [] = ([], None)"
| "hot_reload d (f # fs) =
     (if \<not> is_dir f then (let (f1, e) = load_handle d f in (f1 # fs, e))
      else (let (fs1, e) = hot_reload d fs in (f # fs1, e)))"

definition reload_after :: "disk \<Rightarrow> nat \<Rightarrow> LocalFile list \<Rightarrow> LocalFile list \<times> CliprdrError option" where
  "reload_after d i fs = (let (tail, e) = hot_reload d (drop (i + 1) fs) in (take (i + 1) fs @ tail, e))"

definition invalid_index :: CliprdrError where "invalid_index = InvalidRequest ''invalid file index''"
definition invalid_offset :: CliprdrError where "invalid_offset = InvalidRequest ''invalid reading offset''"

text \<open>The sum \<open>offset + length\<close> is one of 64 bits.\<close>

definition read_size :: "nat \<Rightarrow> nat \<Rightarrow> nat \<Rightarrow> nat" where
  "read_size offset len sz = (if (offset + len) mod 2 ^ 64 > sz then sz - offset else len)"

definition respond ::
  "disk \<Rightarrow> nat \<Rightarrow> ClipboardFile \<Rightarrow> LocalFile list \<Rightarrow> ClipFiles \<Rightarrow> ClipFiles \<times> (CliprdrError + ClipboardFile)" where
  "respond d i response fs c =
     (let (fs1, e) = reload_after d i fs
      in (c\<lparr>file_list := fs1\<rparr>, case e of Some err \<Rightarrow> Inl err | None \<Rightarrow> Inr response))"

definition serve_file_contents ::
  "disk \<Rightarrow> FileContentsRequest \<Rightarrow> ClipFiles \<Rightarrow> (ClipFiles \<times> (CliprdrError + ClipboardFile)) option" where
  "serve_file_contents d request c =
     (case request of
        SizeRequest stream_id i \<Rightarrow>
          if i \<ge> length (file_list c) then Some (c, Inl invalid_index)
          else Some (respond d i (FileContentsResponse 1 stream_id (le_bytes 8 (lf_size (file_list c ! i)))) (file_list c) c)
      | RangeRequest stream_id i offset len \<Rightarrow>
          if i \<ge> length (file_list c) then Some (c, Inl invalid_index)
          else
            let f = file_list c ! i
            in if offset > lf_size f then Some (c, Inl invalid_offset)
               else
                 let n = read_size offset len (lf_size f)
                 in if n \<ge> 2 ^ 63 then None
                    else case read_exact_at d n offset f of
                           (f1, Inl e) \<Rightarrow> Some (c\<lparr>file_list := (file_list c)[i := f1]\<rparr>, Inl e)
                         | (f1, Inr buf) \<Rightarrow>
                             Some (respond d i (FileContentsResponse 1 stream_id buf) ((file_list c)[i := f1]) c))"

text \<open>The fields of a request are \<open>i32\<close>; a cast to 64 bits keeps the sign.\<close>

unbundle bit_operations_syntax

definition as_u64 :: "32 word \<Rightarrow> 64 word" where
  "as_u64 x = scast x"

definition decode_request :: "int \<Rightarrow> 32 word \<Rightarrow> 32 word \<Rightarrow> 32 word \<Rightarrow> 32 word \<Rightarrow> 32 word \<Rightarrow> FileContentsRequest option" where
  "decode_request stream_id list_index dw_flags low high cb =
     (if dw_flags = 1 then Some (SizeRequest stream_id (unat (as_u64 list_index)))
      else if dw_flags = 2
      then Some (RangeRequest stream_id (unat (as_u64 list_index)) (unat (push_bit 32 (as_u64 high) OR as_u64 low)) (unat (as_u64 cb)))
      else None)"

definition read_file_contents ::
  "disk \<Rightarrow> (path \<Rightarrow> bool) \<Rightarrow> int \<Rightarrow> 32 word \<Rightarrow> 32 word \<Rightarrow> 32 word \<Rightarrow> 32 word \<Rightarrow> 32 word \<Rightarrow> ClipFiles \<Rightarrow>
   (ClipFiles \<times> (CliprdrError + ClipboardFile) list) option" where
  "read_file_contents d is_file stream_id list_index dw_flags low high cb c =
     (case decode_request stream_id list_index dw_flags low high cb of
        None \<Rightarrow> Some (c, [Inl (InvalidRequest ''got invalid FileContentsRequest'')])
      | Some fcr \<Rightarrow>
          (case serve_file_contents d fcr c of
             None \<Rightarrow> None
           | Some (c1, res) \<Rightarrow>
               Some (c1, (case get_files_for_audit is_file fcr c of Some a \<Rightarrow> [Inr a] | None \<Rightarrow> []) @ [res])))"

text \<open>The other side: the fields of a read at an offset (\<open>read_node\<close> of the file system).\<close>

definition request_fields :: "64 word \<Rightarrow> 32 word \<Rightarrow> 32 word \<times> 32 word \<times> 32 word" where
  "request_fields offset sz = (ucast (offset AND 0xFFFFFFFF), ucast (signed_drop_bit 32 offset), sz)"

section \<open>The offset of a request\<close>

lemma decode_offset:
  fixes offset :: "64 word"
  assumes "\<not> bit offset 31"
  shows "push_bit 32 (as_u64 (ucast (signed_drop_bit 32 offset))) OR as_u64 (ucast (offset AND 0xFFFFFFFF)) = offset"
proof (rule bit_word_eqI)
  fix i assume i: "i < LENGTH(64)"
  have m: "(0xFFFFFFFF :: 64 word) = mask 32" by (simp add: mask_eq_exp_minus_1)
  show "bit (push_bit 32 (as_u64 (ucast (signed_drop_bit 32 offset))) OR as_u64 (ucast (offset AND 0xFFFFFFFF))) i = bit offset i"
  proof (cases "i < 32")
    case True
    then consider "i < 31" | "i = 31" by linarith
    then show ?thesis using i assms unfolding m by cases (auto simp: as_u64_def bit_simps min_def)
  next
    case False
    with i consider "32 \<le> i" "i < 63" | "i = 63" by fastforce
    then show ?thesis using assms unfolding m by cases (auto simp: as_u64_def bit_simps min_def)
  qed
qed

lemma decode_offset_high:
  fixes offset :: "64 word"
  assumes "bit offset 31"
  shows "2 ^ 63 \<le> unat (push_bit 32 (as_u64 (ucast (signed_drop_bit 32 offset))) OR as_u64 (ucast (offset AND 0xFFFFFFFF)))"
    (is "_ \<le> unat ?x")
proof -
  have m: "(0xFFFFFFFF :: 64 word) = mask 32" by (simp add: mask_eq_exp_minus_1)
  have "bit ?x 63" using assms unfolding m by (simp add: as_u64_def bit_simps)
  then have "bit (unat ?x) 63" by (simp add: bit_unsigned_iff)
  then have "odd (unat ?x div 2 ^ 63)" by (rule bit_iff_odd [THEN iffD1])
  then show ?thesis using div_less [of "unat ?x" "2 ^ 63"] by (metis even_zero linorder_not_less)
qed

lemma as_u64_small:
  assumes "unat x < 2 ^ 31"
  shows "unat (as_u64 x) = unat x"
proof -
  have "\<not> bit (unat x) 31" using div_less [OF assms] bit_iff_odd [of "unat x" 31] by simp
  then have "\<not> bit x 31" by (simp add: bit_unsigned_iff)
  then have "\<not> bit x n" if "31 \<le> n" for n
    using that bit_imp_le_length [of x n] by (cases "n = 31") auto
  then have "as_u64 x = ucast x"
    unfolding as_u64_def by (intro bit_word_eqI) (auto simp: bit_simps min_def)
  moreover have "unat (ucast x :: 64 word) = unat x" using assms by (simp add: unsigned_ucast_eq take_bit_nat_eq_self)
  ultimately show ?thesis by simp
qed

section \<open>Reading keeps the reader in step\<close>

text \<open>
  The recorded offset of an open file is the position of its reader, and directories are never open. A read
  that fails breaks this: it leaves the position of the reader somewhere else and the recorded offset as it was.
\<close>

definition in_step :: "LocalFile \<Rightarrow> bool" where
  "in_step f \<longleftrightarrow> (case handle f of Some p \<Rightarrow> p = lf_offset f \<and> \<not> is_dir f | None \<Rightarrow> lf_offset f = 0)"

text \<open>A file of the list as \<open>try_open\<close> makes it.\<close>

definition unopened :: "LocalFile \<Rightarrow> bool" where
  "unopened f \<longleftrightarrow> handle f = None \<and> lf_offset f = 0"

text \<open>A file of the list is on the disk with at least the size of its description.\<close>

definition intact :: "disk \<Rightarrow> LocalFile \<Rightarrow> bool" where
  "intact d f \<longleftrightarrow> is_dir f \<or> (\<exists>c. d (lf_path f) = Some c \<and> lf_size f \<le> length c)"

text \<open>What the operations never change of a file.\<close>

definition identity :: "LocalFile \<Rightarrow> path \<times> nat \<times> bool" where
  "identity f = (lf_path f, lf_size f, is_dir f)"

lemma intact_identity: "identity f' = identity f \<Longrightarrow> intact d f' = intact d f"
  by (simp add: identity_def intact_def)

lemma load_handle_ok:
  assumes "in_step f" "intact d f"
  shows "\<exists>f'. load_handle d f = (f', None) \<and> in_step f' \<and> identity f' = identity f \<and> lf_offset f' = lf_offset f
    \<and> (\<not> is_dir f \<longrightarrow> handle f' = Some (lf_offset f))"
  using assms by (auto simp: load_handle_def in_step_def intact_def identity_def split: option.splits)

lemma read_exact_at_ok:
  assumes "in_step f" "\<not> is_dir f" "d (lf_path f) = Some c" "lf_size f \<le> length c" "offset + n \<le> lf_size f"
  shows "\<exists>f'. read_exact_at d n offset f = (f', Inr (take n (drop offset c))) \<and> in_step f' \<and> identity f' = identity f"
proof -
  have "intact d f" using assms by (auto simp: intact_def)
  from load_handle_ok [OF assms(1) this] assms(2) obtain f1 where f1: "load_handle d f = (f1, None)" "in_step f1"
    "identity f1 = identity f" "lf_offset f1 = lf_offset f" "handle f1 = Some (lf_offset f)" by auto
  have id: "lf_path f1 = lf_path f" "lf_size f1 = lf_size f" using f1(3) by (auto simp: identity_def)
  have "read_exact c (if offset \<noteq> lf_offset f then offset else lf_offset f) n = Some (take n (drop offset c))"
    using assms(4,5) by (simp add: read_exact_def)
  then show ?thesis
    unfolding read_exact_at_def f1(1) using f1(3-5) assms(2,3) id
    by (auto simp: in_step_def identity_def Let_def split: if_splits)
qed

definition clip_ok :: "disk \<Rightarrow> ClipFiles \<Rightarrow> bool" where
  "clip_ok d c \<longleftrightarrow> list_all (\<lambda>f. in_step f \<and> intact d f) (file_list c)"

lemma hot_reload_ok:
  "list_all (\<lambda>f. in_step f \<and> intact d f) fs \<Longrightarrow>
   \<exists>fs'. hot_reload d fs = (fs', None) \<and> list_all (\<lambda>f. in_step f \<and> intact d f) fs' \<and> map identity fs' = map identity fs"
proof (induction fs)
  case (Cons f fs)
  show ?case
  proof (cases "is_dir f")
    case True
    with Cons show ?thesis by auto
  next
    case False
    obtain f' where "load_handle d f = (f', None)" "in_step f'" "identity f' = identity f"
      using load_handle_ok [of f d] Cons.prems by auto
    with False Cons.prems intact_identity [of f' f d] show ?thesis by auto
  qed
qed simp

lemma respond_ok:
  assumes "list_all (\<lambda>f. in_step f \<and> intact d f) fs"
  shows "\<exists>fs'. respond d i r fs c = (c\<lparr>file_list := fs'\<rparr>, Inr r) \<and> list_all (\<lambda>f. in_step f \<and> intact d f) fs'
    \<and> map identity fs' = map identity fs"
proof -
  have "list_all (\<lambda>f. in_step f \<and> intact d f) (drop (i + 1) fs)" "list_all (\<lambda>f. in_step f \<and> intact d f) (take (i + 1) fs)"
    using assms by (auto simp: list_all_iff dest: in_set_dropD in_set_takeD)
  moreover from this(1) obtain t where t: "hot_reload d (drop (i + 1) fs) = (t, None)"
    "list_all (\<lambda>f. in_step f \<and> intact d f) t" "map identity t = map identity (drop (i + 1) fs)"
    using hot_reload_ok by blast
  moreover have "map identity (take (i + 1) fs @ t) = map identity fs"
    unfolding map_append t(3) by (metis append_take_drop_id map_append)
  ultimately show ?thesis by (intro exI [of _ "take (i + 1) fs @ t"]) (simp add: respond_def reload_after_def)
qed

lemma read_size_min:
  assumes "offset \<le> sz" "sz < 2 ^ 63" "len < 2 ^ 31"
  shows "read_size offset len sz = min len (sz - offset)"
proof -
  have "offset + len < 2 ^ 64" using assms by simp
  then show ?thesis using assms(1) by (simp add: read_size_def)
qed

lemma range_served:
  fixes offset :: "64 word"
  assumes "clip_ok d c" "i < length (file_list c)" "i < 2 ^ 31" "\<not> is_dir (file_list c ! i)"
    and "d (lf_path (file_list c ! i)) = Some content" "lf_size (file_list c ! i) < 2 ^ 63"
    and "unat offset \<le> lf_size (file_list c ! i)" "\<not> bit offset 31" "unat sz < 2 ^ 31"
    and "request_fields offset sz = (low, high, cb)"
  shows "\<exists>c' audit. read_file_contents d is_file stream_id (word_of_nat i) 2 low high cb c =
       Some (c', audit @ [Inr (FileContentsResponse 1 stream_id
         (take (min (unat sz) (lf_size (file_list c ! i) - unat offset)) (drop (unat offset) content)))])
     \<and> clip_ok d c' \<and> map identity (file_list c') = map identity (file_list c)"
proof -
  define f where "f = file_list c ! i"
  define n where "n = min (unat sz) (lf_size f - unat offset)"
  have f: "in_step f" "intact d f" using assms(1,2) by (auto simp: clip_ok_def list_all_length f_def)
  have content: "d (lf_path f) = Some content" "lf_size f \<le> length content" "\<not> is_dir f"
    using f(2) assms(4,5) by (auto simp: intact_def f_def)
  have "unat (word_of_nat i :: 32 word) = i" using assms(3) by (simp add: unat_of_nat)
  then have ix: "unat (as_u64 (word_of_nat i)) = i" using as_u64_small [of "word_of_nat i"] assms(3) by simp
  have flds: "low = ucast (offset AND 0xFFFFFFFF)" "high = ucast (signed_drop_bit 32 offset)" "cb = sz"
    using assms(10) by (simp_all add: request_fields_def)
  have dec: "decode_request stream_id (word_of_nat i) 2 low high cb = Some (RangeRequest stream_id i (unat offset) (unat sz))"
    unfolding decode_request_def flds decode_offset [OF assms(8)] as_u64_small [OF assms(9)] ix by simp
  have rs: "read_size (unat offset) (unat sz) (lf_size f) = n"
    using read_size_min [of "unat offset" "lf_size f" "unat sz"] assms(6,7,9) by (simp add: n_def f_def)
  have small: "n < 2 ^ 63" "unat offset + n \<le> lf_size f" using assms(6,7) by (auto simp: n_def f_def min_less_iff_disj)
  obtain f' where f': "read_exact_at d n (unat offset) f = (f', Inr (take n (drop (unat offset) content)))" "in_step f'"
    "identity f' = identity f"
    using read_exact_at_ok [of f d content "unat offset" n] f(1) content small(2) by blast
  have "list_all (\<lambda>f. in_step f \<and> intact d f) ((file_list c)[i := f'])"
    using assms(1) f'(2) f(2) intact_identity [OF f'(3), of d] unfolding clip_ok_def list_all_iff
    by (auto dest: set_update_subset_insert [THEN subsetD])
  from respond_ok [OF this, of i "FileContentsResponse 1 stream_id (take n (drop (unat offset) content))" c] obtain fs' where
    r: "respond d i (FileContentsResponse 1 stream_id (take n (drop (unat offset) content))) ((file_list c)[i := f']) c
         = (c\<lparr>file_list := fs'\<rparr>, Inr (FileContentsResponse 1 stream_id (take n (drop (unat offset) content))))"
    "list_all (\<lambda>f. in_step f \<and> intact d f) fs'" "map identity fs' = map identity ((file_list c)[i := f'])" by blast
  have same: "map identity fs' = map identity (file_list c)"
    unfolding r(3) map_update f'(3) using assms(2) by (simp add: f_def list_update_same_conv)
  have "serve_file_contents d (RangeRequest stream_id i (unat offset) (unat sz)) c =
      Some (c\<lparr>file_list := fs'\<rparr>, Inr (FileContentsResponse 1 stream_id (take n (drop (unat offset) content))))"
    using assms(2,7) small(1) f'(1) r(1) by (simp add: serve_file_contents_def Let_def f_def [symmetric] rs)
  then show ?thesis unfolding read_file_contents_def dec n_def f_def
    using r(2) same by (auto simp: clip_ok_def n_def f_def)
qed

text \<open>A file that can be read at its recorded size answers every request without a failed read.\<close>

lemma read_size_within:
  assumes "offset \<le> sz" "sz < 2 ^ 63" "read_size offset len sz < 2 ^ 63"
  shows "offset + read_size offset len sz \<le> sz"
proof (cases "(offset + len) mod 2 ^ 64 > sz")
  case True
  then show ?thesis using assms(1) by (simp add: read_size_def)
next
  case False
  then have "len < 2 ^ 63" using assms(3) by (simp add: read_size_def)
  then have "(offset + len) mod 2 ^ 64 = offset + len" using assms(1,2) by simp
  with False show ?thesis by (simp add: read_size_def)
qed

lemma read_exact_at_dir:
  "in_step f \<Longrightarrow> is_dir f \<Longrightarrow> read_exact_at d n offset f = (f, Inl (FileError (path_to_string (lf_path f))))"
  by (auto simp: read_exact_at_def load_handle_def in_step_def split: option.splits)

lemma list_all_update: "list_all P xs \<Longrightarrow> P x \<Longrightarrow> list_all P (xs[i := x])"
  by (auto simp: list_all_iff dest: set_update_subset_insert [THEN subsetD])

lemma map_identity_update:
  "i < length fs \<Longrightarrow> identity f = identity (fs ! i) \<Longrightarrow> map identity (fs[i := f]) = map identity fs"
  by (simp add: map_update list_update_same_conv)

lemma range_keeps_ok:
  assumes "clip_ok d c" "i < length (file_list c)" "lf_size (file_list c ! i) < 2 ^ 63" "offset \<le> lf_size (file_list c ! i)"
    and "read_size offset len (lf_size (file_list c ! i)) < 2 ^ 63"
    and "read_exact_at d (read_size offset len (lf_size (file_list c ! i))) offset (file_list c ! i) = (f1, r)"
  shows "list_all (\<lambda>f. in_step f \<and> intact d f) ((file_list c)[i := f1])"
    "map identity ((file_list c)[i := f1]) = map identity (file_list c)"
proof -
  let ?f = "file_list c ! i" and ?n = "read_size offset len (lf_size (file_list c ! i))"
  have f: "in_step ?f" "intact d ?f" using assms(1,2) by (auto simp: clip_ok_def list_all_length)
  have "in_step f1 \<and> identity f1 = identity ?f"
  proof (cases "is_dir ?f")
    case True
    then show ?thesis using read_exact_at_dir [OF f(1) True] assms(6) f(1) by simp
  next
    case False
    then obtain content where "d (lf_path ?f) = Some content" "lf_size ?f \<le> length content" using f(2) by (auto simp: intact_def)
    from read_exact_at_ok [where d = d and f = ?f and c = content and offset = offset and n = ?n, OF f(1) False this read_size_within [OF assms(4,3,5)]] assms(6)
    show ?thesis by auto
  qed
  then show "list_all (\<lambda>f. in_step f \<and> intact d f) ((file_list c)[i := f1])"
    "map identity ((file_list c)[i := f1]) = map identity (file_list c)"
    using assms(1,2) f(2) intact_identity [of f1 ?f d] by (auto simp: clip_ok_def intro: list_all_update map_identity_update)
qed

lemma respond_keeps:
  assumes "list_all (\<lambda>f. in_step f \<and> intact d f) fs" "respond d i r fs c = (c', res)"
  shows "clip_ok d c'" "map identity (file_list c') = map identity fs"
  using respond_ok [OF assms(1), of i r c] assms(2) by (auto simp: clip_ok_def)

lemma serve_keeps:
  assumes "clip_ok d c" "list_all (\<lambda>f. lf_size f < 2 ^ 63) (file_list c)" "serve_file_contents d request c = Some (c', res)"
  shows "clip_ok d c' \<and> map identity (file_list c') = map identity (file_list c)"
proof (cases request)
  case (SizeRequest sid i)
  have "respond d i (FileContentsResponse 1 sid (le_bytes 8 (lf_size (file_list c ! i)))) (file_list c) c = (c', res) \<or> c' = c"
    using assms(3) by (auto simp: SizeRequest serve_file_contents_def split: if_splits)
  then show ?thesis using respond_keeps assms(1) by (metis clip_ok_def)
next
  case (RangeRequest sid i offset len)
  let ?f = "file_list c ! i" and ?n = "read_size offset len (lf_size (file_list c ! i))"
  show ?thesis
  proof (cases "i < length (file_list c) \<and> offset \<le> lf_size ?f")
    case True
    then have n: "?n < 2 ^ 63" using assms(3) by (auto simp: RangeRequest serve_file_contents_def Let_def split: if_splits)
    obtain f1 r where r: "read_exact_at d ?n offset ?f = (f1, r)" by force
    have "lf_size ?f < 2 ^ 63" using assms(2) True by (auto simp: list_all_length)
    note k = range_keeps_ok [OF assms(1) conjunct1 [OF True] this conjunct2 [OF True] n r]
    show ?thesis
    proof (cases r)
      case (Inl e)
      then have "c' = c\<lparr>file_list := (file_list c)[i := f1]\<rparr>"
        using assms(3) True n r by (simp add: RangeRequest serve_file_contents_def Let_def)
      then show ?thesis using k by (simp add: clip_ok_def)
    next
      case (Inr buf)
      then have "respond d i (FileContentsResponse 1 sid buf) ((file_list c)[i := f1]) c = (c', res)"
        using assms(3) True n r by (simp add: RangeRequest serve_file_contents_def Let_def)
      from respond_keeps [OF k(1) this] k(2) show ?thesis by simp
    qed
  qed (use assms(1,3) in \<open>auto simp: RangeRequest serve_file_contents_def Let_def split: if_splits\<close>)
qed

lemma list_all_sizes: "list_all (\<lambda>k. k < m) (map lf_size fs) \<Longrightarrow> list_all (\<lambda>f. lf_size f < m) fs"
  by (simp add: list_all_iff)

text \<open>The requests served one after the other, with whatever fields they have.\<close>

inductive serve_run :: "disk \<Rightarrow> (path \<Rightarrow> bool) \<Rightarrow> ClipFiles \<Rightarrow> ClipFiles \<Rightarrow> bool" for d is_file c0 where
  start: "serve_run d is_file c0 c0"
| request: "serve_run d is_file c0 c \<Longrightarrow> read_file_contents d is_file stream_id list_index dw_flags low high cb c = Some (c', rs)
    \<Longrightarrow> serve_run d is_file c0 c'"

lemma served_ok:
  assumes "serve_run d is_file c0 c" "list_all unopened (file_list c0)" "list_all (intact d) (file_list c0)"
    and "list_all (\<lambda>f. lf_size f < 2 ^ 63) (file_list c0)"
  shows "clip_ok d c \<and> map identity (file_list c) = map identity (file_list c0)"
  using assms(1)
proof (induction rule: serve_run.induct)
  case start
  show ?case using assms(2,3) by (simp add: clip_ok_def list_all_iff unopened_def in_step_def)
next
  case (request c sid li fl lo hi cb c' rs)
  have "map lf_size (file_list c) = map lf_size (file_list c0)"
    using arg_cong [OF conjunct2 [OF request.IH], of "map (fst \<circ> snd)"] by (simp add: identity_def comp_def)
  moreover have "list_all (\<lambda>k. k < 2 ^ 63) (map lf_size (file_list c0))" using assms(4) by (simp add: list_all_iff)
  ultimately have small: "list_all (\<lambda>f. lf_size f < 2 ^ 63) (file_list c)" by (metis list_all_sizes)
  from request.hyps(2) obtain fcr res where "c' = c \<or> serve_file_contents d fcr c = Some (c', res)"
    by (auto simp: read_file_contents_def split: option.splits)
  then show ?case
  proof
    assume "serve_file_contents d fcr c = Some (c', res)"
    from serve_keeps [OF conjunct1 [OF request.IH] small this] request.IH show ?thesis by simp
  qed (use request.IH in simp)
qed

text \<open>
  C33. A range of a copied file is served exactly. The list is as it was built, every file of it can be opened
  and has at least its recorded size, and any requests at all have been served since: then, for an offset whose bit 31 is clear, the
  request that the other side sends for a number of bytes at this offset is answered with these bytes of the
  file, up to its recorded size, and the list has kept its files. The audit entry may come first.
\<close>

theorem clipboard_range_exact:
  fixes offset :: "64 word"
  assumes "list_all unopened (file_list c0)" "list_all (intact d) (file_list c0)"
    and "list_all (\<lambda>f. lf_size f < 2 ^ 63) (file_list c0)" "serve_run d is_file c0 c"
    and "i < length (file_list c0)" "i < 2 ^ 31" "file_list c0 ! i = f0" "\<not> is_dir f0" "d (lf_path f0) = Some content"
    and "unat offset \<le> lf_size f0" "\<not> bit offset 31" "unat sz < 2 ^ 31"
    and "request_fields offset sz = (low, high, cb)"
  shows "(\<exists>c' audit. read_file_contents d is_file stream_id (word_of_nat i) 2 low high cb c =
       Some (c', audit @ [Inr (FileContentsResponse 1 stream_id
         (take (min (unat sz) (lf_size f0 - unat offset)) (drop (unat offset) content)))]))
     \<and> map identity (file_list c) = map identity (file_list c0)"
proof -
  have ok: "clip_ok d c" and same: "map identity (file_list c) = map identity (file_list c0)"
    using served_ok [OF assms(4,1-3)] by blast+
  have len: "i < length (file_list c)" using assms(5) arg_cong [OF same, of length] by simp
  then have "identity (file_list c ! i) = identity f0" using assms(5,7) same by (metis nth_map)
  then have e: "lf_path (file_list c ! i) = lf_path f0" "lf_size (file_list c ! i) = lf_size f0" "is_dir (file_list c ! i) = is_dir f0"
    by (simp_all add: identity_def)
  have "lf_size f0 < 2 ^ 63" using assms(3,5,7) by (auto simp: list_all_length)
  from range_served [OF ok len assms(6), unfolded e, OF assms(8,9) this assms(10-13)] same show ?thesis by blast
qed

definition clip_demo :: ClipFiles where
  "clip_demo = \<lparr>files = [''/home/u/d/a.txt''], file_list = [local_file_demo], first_file_index = 0, files_pdu = []\<rparr>"

theorem clipboard_range_exact_witness:
  "\<exists>c' audit. read_file_contents (\<lambda>p. Some [1, 2, 3, 4, 5]) (\<lambda>p. True) 9 (word_of_nat 0) 2 1 0 10 clip_demo =
     Some (c', audit @ [Inr (FileContentsResponse 1 9 [2, 3, 4, 5])])"
proof -
  have f: "request_fields 1 10 = (1, 0, 10)" "\<not> bit (1 :: 64 word) 31" by (simp_all add: request_fields_def)
  have l: "list_all unopened (file_list clip_demo)" "list_all (intact (\<lambda>p. Some [1, 2, 3, 4, 5])) (file_list clip_demo)"
    "list_all (\<lambda>f. lf_size f < 2 ^ 63) (file_list clip_demo)"
    by (simp_all add: clip_demo_def unopened_def intact_def local_file_demo_def)
  show ?thesis
    using clipboard_range_exact [OF l serve_run.start, of 0 local_file_demo "[1, 2, 3, 4, 5]" 1 10 1 0 10 "\<lambda>p. True" 9] f
    by (auto simp: clip_demo_def local_file_demo_def)
qed

section \<open>Requests that fail\<close>

text \<open>
  An offset with bit 31 set, as every one from two to four gigabytes, is decoded with the sign of its lower half
  and refused as lying behind the end of the file.
\<close>

lemma high_offset_refused:
  fixes offset :: "64 word"
  assumes "i < length (file_list c)" "i < 2 ^ 31" "lf_size (file_list c ! i) < 2 ^ 63" "bit offset 31"
    and "request_fields offset sz = (low, high, cb)"
  shows "\<exists>audit. read_file_contents d is_file stream_id (word_of_nat i) 2 low high cb c = Some (c, audit @ [Inl invalid_offset])"
proof -
  have "unat (word_of_nat i :: 32 word) = i" using assms(2) by (simp add: unat_of_nat)
  then have ix: "unat (as_u64 (word_of_nat i)) = i" using as_u64_small [of "word_of_nat i"] assms(2) by simp
  let ?o = "unat (push_bit 32 (as_u64 high) OR as_u64 low)"
  have "2 ^ 63 \<le> ?o" using decode_offset_high [OF assms(4)] assms(5) by (simp add: request_fields_def)
  then have "lf_size (file_list c ! i) < ?o" using assms(3) by linarith
  then have "serve_file_contents d (RangeRequest stream_id i ?o (unat (as_u64 cb))) c = Some (c, Inl invalid_offset)"
    using assms(1) by (simp add: serve_file_contents_def Let_def)
  then show ?thesis by (simp add: read_file_contents_def decode_request_def ix)
qed

text \<open>A negative length, one byte into a file, wraps the sum and asks for a buffer of the whole address space.\<close>

lemma negative_length_panics:
  assumes "file_list c \<noteq> []" "1 \<le> lf_size (file_list c ! 0)"
  shows "read_file_contents d is_file stream_id 0 2 1 0 (- 1) c = None"
proof -
  have o1: "unat (push_bit 32 (as_u64 0) OR as_u64 1) = 1" "unat (as_u64 0) = 0" by (simp_all add: as_u64_def)
  have "unat (as_u64 (- 1)) = 2 ^ 64 - 1" by (simp add: as_u64_def unsigned_minus_1_eq_mask mask_eq_exp_minus_1)
  then have "serve_file_contents d (RangeRequest stream_id 0 1 (unat (as_u64 (- 1)))) c = None"
    using assms by (simp add: serve_file_contents_def read_size_def Let_def)
  then show ?thesis by (simp add: read_file_contents_def decode_request_def o1)
qed

text \<open>A file that cannot be opened takes the answer for the file before it.\<close>

lemma next_file_unreadable:
  assumes "file_list c = [f, g]" "\<not> is_dir g" "handle g = None" "d (lf_path g) = None"
  shows "\<exists>c'. serve_file_contents d (SizeRequest stream_id 0) c = Some (c', Inl (FileError (path_to_string (lf_path g))))"
  using assms by (simp add: serve_file_contents_def respond_def reload_after_def load_handle_def)

end
