(* ===== verification/ClipboardFuse.thy ===== *)
theory ClipboardFuse
  imports ClipboardServe
begin

text \<open>
  Pasting files over the clipboard: the list of copied files (\<^verbatim>\<open>src/libs/clipboard/src/platform/unix/local_file.rs\<close>,
  \<open>construct_file_list\<close>) and the read-only file system in which the other side sees them
  (\<^verbatim>\<open>src/libs/clipboard/src/platform/unix/fuse/cs.rs\<close>). Random stream numbers, the present time and the replies that
  arrive are arguments; the kernel's requests are the operations. Inodes count from one.
\<close>

section \<open>The list of copied files\<close>

definition child_path :: "path \<Rightarrow> string \<Rightarrow> path" where
  "child_path p name = p\<lparr>parts := parts p @ [name]\<rparr>"

text \<open>
  The recursion over the directories, with the paths still to visit in order; it ends if there are finitely
  many paths below the copied ones.
\<close>

partial_function (option) constr_file_lst ::
  "(path \<Rightarrow> Metadata option) \<Rightarrow> (path \<Rightarrow> string list option) \<Rightarrow> path \<Rightarrow> path list \<Rightarrow> LocalFile list \<Rightarrow> path list \<Rightarrow>
   (CliprdrError + LocalFile list) option" where
  [code]: "constr_file_lst metadata read_dir root todo found visited =
     (case todo of
        [] \<Rightarrow> Some (Inr found)
      | p # rest \<Rightarrow>
          if p \<in> set visited then constr_file_lst metadata read_dir root rest found visited
          else
            (case try_open metadata root p of
               Inl e \<Rightarrow> Some (Inl e)
             | Inr f \<Rightarrow>
                 if is_dir f
                 then (case read_dir p of
                         None \<Rightarrow> Some (Inl (FileError (path_to_string p)))
                       | Some names \<Rightarrow>
                           constr_file_lst metadata read_dir root (map (child_path p) names @ rest) (found @ [f]) (p # visited))
                 else constr_file_lst metadata read_dir root rest (found @ [f]) (p # visited)))"

definition construct_file_list ::
  "(path \<Rightarrow> Metadata option) \<Rightarrow> (path \<Rightarrow> string list option) \<Rightarrow> path list \<Rightarrow> (CliprdrError + LocalFile list) option" where
  "construct_file_list metadata read_dir paths =
     (case paths of
        [] \<Rightarrow> Some (Inl (InvalidRequest ''empty file list''))
      | p # _ \<Rightarrow>
          (case path_parent p of
             None \<Rightarrow> Some (Inl (InvalidRequest ''empty parent''))
           | Some root \<Rightarrow> constr_file_lst metadata read_dir root paths [] []))"

definition clip_sync_files ::
  "(path \<Rightarrow> Metadata option) \<Rightarrow> (path \<Rightarrow> string list option) \<Rightarrow> (string \<Rightarrow> octets) \<Rightarrow> string list \<Rightarrow> ClipFiles \<Rightarrow>
   (ClipFiles \<times> CliprdrError option) option" where
  "clip_sync_files metadata read_dir utf16 clipboard_files c =
     (if files c = clipboard_files then Some (c, None)
      else case construct_file_list metadata read_dir (map path_from clipboard_files) of
             None \<Rightarrow> None
           | Some (Inl e) \<Rightarrow> Some (c, Some e)
           | Some (Inr fl) \<Rightarrow>
               let on_disk_dir = (\<lambda>f. case metadata (lf_path f) of Some mt \<Rightarrow> md_is_dir mt | None \<Rightarrow> False);
                   first = (case List.extract (\<lambda>f. \<not> on_disk_dir f) fl of Some (before, _, _) \<Rightarrow> length before | None \<Rightarrow> usize_max)
               in map_option (\<lambda>pdu. (\<lparr>files = clipboard_files, file_list = fl, first_file_index = first, files_pdu = pdu\<rparr>, None))
                    (build_file_list_pdu utf16 fl))"

section \<open>The file system\<close>

definition FUSE_ROOT_ID :: nat where "FUSE_ROOT_ID = 1"
definition MAX_NAME_LEN :: nat where "MAX_NAME_LEN = 255"
definition READ_RETRY :: nat where "READ_RETRY = 3"

record FileHandles =
  handlers :: "nat list"
  gc :: bool

record InodeAttributes =
  ia_inode :: nat
  ia_size :: nat
  ia_last_accessed :: nat
  ia_last_modified :: nat
  ia_last_metadata_changed :: nat
  ia_creation_time :: nat
  ia_kind :: FileType
  ia_perm :: nat

record FuseNode =
  fn_conn_id :: int
  fn_stream_id :: int
  fn_index :: nat
  fn_parent :: "nat option"
  fn_name :: string
  attributes :: InodeAttributes
  children :: "nat list"
  file_handlers :: FileHandles

definition Attributes_from_description :: "nat \<Rightarrow> nat \<Rightarrow> FileDescription \<Rightarrow> InodeAttributes" where
  "Attributes_from_description t inode desc =
     \<lparr>ia_inode = inode, ia_size = fd_size desc, ia_last_accessed = t, ia_last_modified = fd_last_modified desc,
      ia_last_metadata_changed = fd_last_metadata_changed desc, ia_creation_time = fd_creation_time desc,
      ia_kind = fd_kind desc, ia_perm = fd_perm desc\<rparr>"

definition Node_from_description :: "nat \<Rightarrow> int \<Rightarrow> nat \<Rightarrow> string \<Rightarrow> FileDescription \<Rightarrow> FuseNode" where
  "Node_from_description t stream inode base_name desc =
     \<lparr>fn_conn_id = fd_conn_id desc, fn_stream_id = stream, fn_index = inode - 2, fn_parent = None, fn_name = base_name,
      attributes = Attributes_from_description t inode desc, children = [], file_handlers = \<lparr>handlers = [], gc = False\<rparr>\<rparr>"

definition Node_new_root :: "nat \<Rightarrow> int \<Rightarrow> FuseNode" where
  "Node_new_root t stream =
     \<lparr>fn_conn_id = 0, fn_stream_id = stream, fn_index = 0, fn_parent = None, fn_name = ''/'',
      attributes = \<lparr>ia_inode = FUSE_ROOT_ID, ia_size = 0, ia_last_accessed = t, ia_last_modified = t,
        ia_last_metadata_changed = t, ia_creation_time = t, ia_kind = Directory, ia_perm = PERM_RWX\<rparr>,
      children = [], file_handlers = \<lparr>handlers = [], gc = False\<rparr>\<rparr>"

definition add_child :: "nat \<Rightarrow> FuseNode \<Rightarrow> FuseNode" where
  "add_child inode n = n\<lparr>children := children n @ [inode]\<rparr>"

definition parent_inode :: "(path \<times> nat) list \<Rightarrow> path \<Rightarrow> nat" where
  "parent_inode sub_roots name =
     (case path_parent name of Some p \<Rightarrow> get_or sub_roots p FUSE_ROOT_ID | None \<Rightarrow> FUSE_ROOT_ID)"

fun build_loop ::
  "nat \<Rightarrow> (nat \<Rightarrow> int) \<Rightarrow> FileDescription list \<Rightarrow> FuseNode list \<Rightarrow> (path \<times> nat) list \<Rightarrow> CliprdrError + FuseNode list" where
  "build_loop t stream [] tree sub_roots = Inr tree"
| "build_loop t stream (desc # descs) tree sub_roots =
     (let inode = length tree + FUSE_ROOT_ID; up = parent_inode sub_roots (fd_name desc);
          tree1 = tree[up - 1 := add_child inode (tree ! (up - 1))]
      in case path_file_name (fd_name desc) of
           None \<Rightarrow> Inl (FileError (path_to_string (fd_name desc)))
         | Some base_name \<Rightarrow>
             let sub_roots1 = (if fd_kind desc = Directory then AList.update (fd_name desc) inode sub_roots else sub_roots);
                 node = (Node_from_description t (stream inode) inode base_name desc)\<lparr>fn_parent := Some up\<rparr>
             in build_loop t stream descs (tree1 @ [node]) sub_roots1)"

definition root_map :: "(path \<times> nat) list" where
  "root_map = [(\<lparr>rooted = True, parts = []\<rparr>, FUSE_ROOT_ID), (\<lparr>rooted = False, parts = []\<rparr>, FUSE_ROOT_ID)]"

definition build_tree :: "nat \<Rightarrow> (nat \<Rightarrow> int) \<Rightarrow> FileDescription list \<Rightarrow> CliprdrError + FuseNode list" where
  "build_tree t stream descs = build_loop t stream descs [Node_new_root t (stream 1)] root_map"

section \<open>Requests of the kernel\<close>

datatype errno = ENAMETOOLONG | ENOENT | ENOTDIR | ENFILE | EBUSY | EBADF | EIO

record FuseServer =
  generation :: nat
  nodes :: "FuseNode list"
  file_handle_counter :: nat

definition FuseServer_new :: FuseServer where
  "FuseServer_new = \<lparr>generation = 0, nodes = [], file_handle_counter = 0\<rparr>"

definition load_file_list :: "nat \<Rightarrow> (nat \<Rightarrow> int) \<Rightarrow> FileDescription list \<Rightarrow> FuseServer \<Rightarrow> FuseServer \<times> CliprdrError option" where
  "load_file_list t stream descs s =
     (case build_tree t stream descs of
        Inl e \<Rightarrow> (s, Some e)
      | Inr tree \<Rightarrow> (s\<lparr>nodes := tree, generation := (generation s + 1) mod 2 ^ 64\<rparr>, None))"

definition fuse_init :: "nat \<Rightarrow> int \<Rightarrow> FuseServer \<Rightarrow> FuseServer" where
  "fuse_init t stream s = (if nodes s = [] then s\<lparr>nodes := [Node_new_root t stream]\<rparr> else s)"

text \<open>An inode is at least one; \<open>get\<close> of the inode's entry.\<close>

definition node_at :: "FuseServer \<Rightarrow> nat \<Rightarrow> FuseNode option" where
  "node_at s ino = (if ino - 1 < length (nodes s) then Some (nodes s ! (ino - 1)) else None)"

definition fuse_lookup :: "nat \<Rightarrow> string \<Rightarrow> FuseServer \<Rightarrow> errno + InodeAttributes" where
  "fuse_lookup ino name s =
     (if length name > MAX_NAME_LEN then Inl ENAMETOOLONG
      else case node_at s ino of
             None \<Rightarrow> Inl ENOENT
           | Some n \<Rightarrow>
               if ia_kind (attributes n) \<noteq> Directory then Inl ENOTDIR
               else (case find (\<lambda>i. fn_name (nodes s ! (i - 1)) = name) (children n) of
                       Some i \<Rightarrow> Inr (attributes (nodes s ! (i - 1)))
                     | None \<Rightarrow> Inl ENOENT))"

definition set_handles :: "nat \<Rightarrow> FileHandles \<Rightarrow> FuseServer \<Rightarrow> FuseServer" where
  "set_handles ino h s = s\<lparr>nodes := (nodes s)[ino - 1 := (nodes s ! (ino - 1))\<lparr>file_handlers := h\<rparr>]\<rparr>"

text \<open>The search of the standard library in a sorted vector.\<close>

function binary_search_in :: "nat list \<Rightarrow> nat \<Rightarrow> nat \<Rightarrow> nat \<Rightarrow> nat option" where
  "binary_search_in xs x lo hi =
     (if hi \<le> lo then None
      else let mid = (lo + hi) div 2
           in if xs ! mid = x then Some mid
              else if xs ! mid < x then binary_search_in xs x (mid + 1) hi
              else binary_search_in xs x lo mid)"
  by auto
termination by (relation "measure (\<lambda>(xs, x, lo, hi). hi - lo)") auto

declare binary_search_in.simps [simp del]

definition binary_search :: "nat list \<Rightarrow> nat \<Rightarrow> nat option" where
  "binary_search xs x = binary_search_in xs x 0 (length xs)"

definition have_handler :: "nat \<Rightarrow> FuseNode \<Rightarrow> bool" where
  "have_handler fh n = (binary_search (handlers (file_handlers n)) fh \<noteq> None)"

text \<open>\<open>alloc_fd\<close>: the counter of handles is one of 64 bits and wraps.\<close>

definition alloc_fd :: "FuseServer \<Rightarrow> FuseServer \<times> nat" where
  "alloc_fd s = (s\<lparr>file_handle_counter := (file_handle_counter s + 1) mod 2 ^ 64\<rparr>, file_handle_counter s)"

definition open_node :: "nat \<Rightarrow> FuseNode \<Rightarrow> FuseServer \<Rightarrow> FuseServer \<times> (errno + nat)" where
  "open_node ino n s =
     (let (s1, fh) = alloc_fd s; h = file_handlers n
      in (set_handles ino (h\<lparr>handlers := handlers h @ [fh]\<rparr>) s1, Inr fh))"

definition fuse_opendir :: "nat \<Rightarrow> FuseServer \<Rightarrow> FuseServer \<times> (errno + nat)" where
  "fuse_opendir ino s =
     (case node_at s ino of
        None \<Rightarrow> (s, Inl ENOENT)
      | Some n \<Rightarrow>
          if ia_kind (attributes n) \<noteq> Directory then (s, Inl ENOTDIR)
          else if gc (file_handlers n) then (s, Inl EBUSY) else open_node ino n s)"

definition fuse_open :: "nat \<Rightarrow> FuseServer \<Rightarrow> FuseServer \<times> (errno + nat)" where
  "fuse_open ino s =
     (case node_at s ino of
        None \<Rightarrow> (s, Inl ENOENT)
      | Some n \<Rightarrow>
          if ia_kind (attributes n) \<noteq> File then (s, Inl ENFILE)
          else if gc (file_handlers n) then (s, Inl EBUSY) else open_node ino n s)"

definition release_node :: "nat \<Rightarrow> nat \<Rightarrow> FuseNode \<Rightarrow> FuseServer \<Rightarrow> FuseServer option" where
  "release_node ino fh n s =
     (let h = file_handlers n
      in map_option (\<lambda>idx. set_handles ino (h\<lparr>handlers := take idx (handlers h) @ drop (Suc idx) (handlers h)\<rparr>) s)
           (binary_search (handlers h) fh))"

definition fuse_releasedir :: "nat \<Rightarrow> nat \<Rightarrow> FuseServer \<Rightarrow> FuseServer \<times> errno option" where
  "fuse_releasedir ino fh s =
     (case node_at s ino of
        None \<Rightarrow> (s, Some ENOENT)
      | Some n \<Rightarrow>
          if ia_kind (attributes n) \<noteq> Directory then (s, Some ENOTDIR)
          else if \<not> have_handler fh n then (s, Some EBADF)
          else (case release_node ino fh n s of Some s' \<Rightarrow> (s', None) | None \<Rightarrow> (s, None)))"

definition fuse_release :: "nat \<Rightarrow> nat \<Rightarrow> FuseServer \<Rightarrow> FuseServer \<times> errno option" where
  "fuse_release ino fh s =
     (case node_at s ino of
        None \<Rightarrow> (s, Some ENOENT)
      | Some n \<Rightarrow> (case release_node ino fh n s of Some s' \<Rightarrow> (s', None) | None \<Rightarrow> (s, Some EBADF)))"

text \<open>The entries of a directory, from an offset on; the kernel takes as many as its buffer holds.\<close>

definition fuse_readdir :: "nat \<Rightarrow> nat \<Rightarrow> nat \<Rightarrow> FuseServer \<Rightarrow> errno + (nat \<times> FileType \<times> string) list" where
  "fuse_readdir ino fh offset s =
     (case node_at s ino of
        None \<Rightarrow> Inl ENOENT
      | Some n \<Rightarrow>
          if \<not> have_handler fh n then Inl EBADF
          else if ia_kind (attributes n) \<noteq> Directory then Inl ENOTDIR
          else Inr (drop offset
                 ([(ino, Directory, ''.'')] @ (case fn_parent n of Some p \<Rightarrow> [(p, Directory, ''..'')] | None \<Rightarrow> [])
                  @ map (\<lambda>i. let c = nodes s ! (i - 1) in (i, ia_kind (attributes c), fn_name c)) (children n))))"

definition fuse_getattr :: "nat \<Rightarrow> FuseServer \<Rightarrow> errno + InodeAttributes" where
  "fuse_getattr ino s = (case node_at s ino of None \<Rightarrow> Inl ENOENT | Some n \<Rightarrow> Inr (attributes n))"

definition fuse_statfs :: "FuseServer \<Rightarrow> nat" where
  "fuse_statfs s =
     sum_list (map (\<lambda>n. ia_size (attributes n) div BLOCK_SIZE + (if ia_size (attributes n) mod BLOCK_SIZE \<noteq> 0 then 1 else 0)) (nodes s))"

definition list_root :: "FuseServer \<Rightarrow> string list option" where
  "list_root s = (if nodes s = [] then None else Some (map (\<lambda>i. fn_name (nodes s ! (i - 1))) (children (nodes s ! 0))))"

text \<open>
  The loop of \<open>read_node\<close> over the replies in the order of their arrival; no further reply is a timeout. \<open>send k\<close>
  says whether the request goes out the \<open>k\<close>-th time. The result comes with the replies left.
\<close>

unbundle bit_operations_syntax

fun read_replies :: "(nat \<Rightarrow> bool) \<Rightarrow> int \<Rightarrow> nat \<Rightarrow> ClipboardFile list \<Rightarrow> octets option \<times> ClipboardFile list" where
  "read_replies send stream retries [] = (None, [])"
| "read_replies send stream retries (FileContentsResponse msg_flags sid data # rest) =
     (if sid \<noteq> stream then read_replies send stream retries rest
      else if msg_flags AND 1 = 0
      then if retries + 1 > READ_RETRY then (None, rest)
           else if \<not> send (retries + 1) then (None, rest)
           else read_replies send stream (retries + 1) rest
      else (Some data, rest))"
| "read_replies send stream retries (Files fs # rest) = (None, rest)"

definition read_node :: "(nat \<Rightarrow> bool) \<Rightarrow> FuseNode \<Rightarrow> ClipboardFile list \<Rightarrow> octets option \<times> ClipboardFile list" where
  "read_node send n replies = (if \<not> send 0 then (None, replies) else read_replies send (fn_stream_id n) 0 replies)"

definition fuse_read ::
  "(nat \<Rightarrow> bool) \<Rightarrow> nat \<Rightarrow> nat \<Rightarrow> ClipboardFile list \<Rightarrow> FuseServer \<Rightarrow> (errno + octets) \<times> ClipboardFile list" where
  "fuse_read send ino fh replies s =
     (case node_at s ino of
        None \<Rightarrow> (Inl ENOENT, replies)
      | Some n \<Rightarrow>
          if \<not> have_handler fh n then (Inl EBADF, replies)
          else if ia_kind (attributes n) \<noteq> File then (Inl ENFILE, replies)
          else if gc (file_handlers n) then (Inl EBUSY, replies)
          else (case read_node send n replies of
                  (Some data, rest) \<Rightarrow> (Inr data, rest)
                | (None, rest) \<Rightarrow> (Inl EIO, rest)))"

section \<open>File handles\<close>

lemma binary_search_in_found: "binary_search_in xs x lo hi = Some i \<Longrightarrow> hi \<le> length xs \<Longrightarrow> i < length xs \<and> xs ! i = x"
proof (induction xs x lo hi rule: binary_search_in.induct)
  case (1 xs x lo hi)
  show ?case
    using 1(3,4) 1(1) [of "(lo + hi) div 2"] 1(2) [of "(lo + hi) div 2"]
    by (subst (asm) binary_search_in.simps [of xs x lo hi]) (auto simp: Let_def split: if_splits)
qed

lemma binary_search_in_missing:
  assumes "binary_search_in xs x lo hi = None" "sorted xs" "hi \<le> length xs" "lo \<le> i" "i < hi"
  shows "xs ! i \<noteq> x"
  using assms
proof (induction xs x lo hi rule: binary_search_in.induct)
  case (1 xs x lo hi)
  define mid where "mid = (lo + hi) div 2"
  have lt: "lo < hi" "mid < hi" using 1(6,7) by (auto simp: mid_def)
  have ne: "xs ! mid \<noteq> x" and up: "xs ! mid < x \<Longrightarrow> binary_search_in xs x (mid + 1) hi = None"
    and down: "\<not> xs ! mid < x \<Longrightarrow> binary_search_in xs x lo mid = None"
    using 1(3) lt by (subst (asm) binary_search_in.simps; simp add: Let_def mid_def [symmetric] split: if_splits)+
  show ?case
  proof (cases "xs ! mid < x")
    case True
    show ?thesis
    proof (cases "i \<le> mid")
      case True
      then have "xs ! i \<le> xs ! mid" using 1(4,5) lt by (simp add: sorted_nth_mono)
      then show ?thesis using \<open>xs ! mid < x\<close> by simp
    next
      case False
      then show ?thesis using 1(1) [OF _ mid_def ne True] up [OF True] 1(4-7) lt by simp
    qed
  next
    case False
    show ?thesis
    proof (cases "mid \<le> i")
      case True
      then have "xs ! mid \<le> xs ! i" using 1(4,5,7) by (simp add: sorted_nth_mono)
      then show ?thesis using \<open>\<not> xs ! mid < x\<close> ne by simp
    next
      case below: False
      then show ?thesis using 1(2) [OF _ mid_def ne False] down [OF False] 1(4-7) lt by simp
    qed
  qed
qed

lemma binary_search_exact: "sorted xs \<Longrightarrow> binary_search xs x \<noteq> None \<longleftrightarrow> x \<in> set xs"
  using binary_search_in_found [of xs x 0 "length xs"] binary_search_in_missing [of xs x 0 "length xs"]
  by (auto simp: binary_search_def in_set_conv_nth)

text \<open>The operations that change the state, with the number of handles asked for so far.\<close>

inductive fuse_run :: "nat \<Rightarrow> FuseServer \<Rightarrow> bool" where
  new: "fuse_run 0 FuseServer_new"
| init: "fuse_run k s \<Longrightarrow> fuse_run k (fuse_init t stream s)"
| load: "fuse_run k s \<Longrightarrow> fuse_run k (fst (load_file_list t streams descs s))"
| opendir: "fuse_run k s \<Longrightarrow> fuse_run (k + 1) (fst (fuse_opendir ino s))"
| open_file: "fuse_run k s \<Longrightarrow> fuse_run (k + 1) (fst (fuse_open ino s))"
| releasedir: "fuse_run k s \<Longrightarrow> fuse_run k (fst (fuse_releasedir ino fh s))"
| release: "fuse_run k s \<Longrightarrow> fuse_run k (fst (fuse_release ino fh s))"

definition handlers_ok :: "nat \<Rightarrow> FuseNode \<Rightarrow> bool" where
  "handlers_ok k n \<longleftrightarrow> sorted_wrt (<) (handlers (file_handlers n)) \<and> (\<forall>h\<in>set (handlers (file_handlers n)). h < k) \<and> \<not> gc (file_handlers n)"

definition handles_ok :: "FuseServer \<Rightarrow> bool" where
  "handles_ok s \<longleftrightarrow> (\<forall>n\<in>set (nodes s). handlers_ok (file_handle_counter s) n)"

lemma node_at_counter [simp]: "node_at (s\<lparr>file_handle_counter := k\<rparr>) ino = node_at s ino"
  by (simp add: node_at_def)

lemma node_at_handlers: "handles_ok s \<Longrightarrow> node_at s ino = Some n \<Longrightarrow> handlers_ok (file_handle_counter s) n"
  by (auto simp: handles_ok_def node_at_def split: if_splits)

definition fresh_node :: "FuseNode \<Rightarrow> bool" where
  "fresh_node n \<longleftrightarrow> file_handlers n = \<lparr>handlers = [], gc = False\<rparr>"

lemma fresh_handlers: "fresh_node n \<Longrightarrow> handlers_ok k n"
  by (simp add: fresh_node_def handlers_ok_def)

lemma build_loop_fresh: "build_loop t stream ds tree m = Inr tree' \<Longrightarrow> list_all fresh_node tree \<Longrightarrow> list_all fresh_node tree'"
proof (induction t stream ds tree m rule: build_loop.induct)
  case (2 t stream desc ds tree m)
  define up where "up = parent_inode m (fd_name desc)"
  obtain base where base: "path_file_name (fd_name desc) = Some base" using 2(2) by (auto simp: Let_def split: option.splits)
  have "list_all fresh_node (tree[up - 1 := add_child i (tree ! (up - 1))])" for i
  proof (cases "up - 1 < length tree")
    case True
    then have "fresh_node (add_child i (tree ! (up - 1)))" using 2(3) by (simp add: list_all_length fresh_node_def add_child_def)
    then show ?thesis using 2(3) by (auto simp: list_all_iff dest: set_update_subset_insert [THEN subsetD])
  next
    case False
    then show ?thesis using 2(3) by (simp only: list_update_beyond not_less)
  qed
  moreover have "fresh_node ((Node_from_description t st i b d)\<lparr>fn_parent := u\<rparr>)" for st i b d u
    by (simp add: fresh_node_def Node_from_description_def)
  ultimately show ?case using 2(1) [OF refl refl refl base refl refl] 2(2) base
    by (simp add: Let_def up_def [symmetric] split: if_splits)
qed simp

lemma build_tree_fresh: "build_tree t stream ds = Inr tree \<Longrightarrow> list_all fresh_node tree"
  using build_loop_fresh by (simp add: build_tree_def Node_new_root_def fresh_node_def)

lemma handles_ok_set:
  assumes "handles_ok s" "sorted_wrt (<) (handlers h)" "\<forall>x\<in>set (handlers h). x < file_handle_counter s" "\<not> gc h"
  shows "handles_ok (set_handles ino h s)"
  using assms by (auto simp: handles_ok_def set_handles_def handlers_ok_def dest!: set_update_subset_insert [THEN subsetD])

lemma set_handles_counter [simp]: "file_handle_counter (set_handles ino h s) = file_handle_counter s"
  by (simp add: set_handles_def)

text \<open>Below the wrap-around, an open adds the counter as a handle that no node has.\<close>

lemma open_node_handles:
  assumes "handles_ok s" "node_at s ino = Some n" "file_handle_counter s + 1 < 2 ^ 64"
  shows "handles_ok (fst (open_node ino n s))" "file_handle_counter (fst (open_node ino n s)) = file_handle_counter s + 1"
proof -
  let ?k = "file_handle_counter s"
  have k: "(?k + 1) mod 2 ^ 64 = ?k + 1" using assms(3) by simp
  have n: "handlers_ok ?k n" using node_at_handlers [OF assms(1,2)] .
  have "handles_ok (s\<lparr>file_handle_counter := ?k + 1\<rparr>)" using assms(1) by (auto simp: handles_ok_def handlers_ok_def less_Suc_eq)
  then show "handles_ok (fst (open_node ino n s))"
    using n handles_ok_set [of "s\<lparr>file_handle_counter := ?k + 1\<rparr>" "(file_handlers n)\<lparr>handlers := handlers (file_handlers n) @ [?k]\<rparr>" ino]
    unfolding open_node_def alloc_fd_def k
    by (auto simp: Let_def handlers_ok_def sorted_wrt_append less_Suc_eq)
  show "file_handle_counter (fst (open_node ino n s)) = ?k + 1"
    unfolding open_node_def alloc_fd_def k by (simp add: Let_def)
qed

lemma release_node_handles:
  assumes "handles_ok s" "node_at s ino = Some n" "release_node ino fh n s = Some s'"
  shows "handles_ok s'"
proof -
  obtain i where i: "s' = set_handles ino ((file_handlers n)\<lparr>handlers := take i (handlers (file_handlers n)) @ drop (Suc i) (handlers (file_handlers n))\<rparr>) s"
    using assms(3) by (auto simp: release_node_def Let_def)
  have "sorted_wrt (<) (take i xs @ drop (Suc i) xs)" if "sorted_wrt (<) xs" for xs :: "nat list"
  proof (cases "i < length xs")
    case True
    have "sorted_wrt (<) (take i xs @ xs ! i # drop (Suc i) xs)" using that id_take_nth_drop [OF True] by simp
    then show ?thesis by (auto simp: sorted_wrt_append)
  qed (use that in simp)
  then show ?thesis
    using node_at_handlers [OF assms(1,2)] assms(1) unfolding i
    by (intro handles_ok_set) (auto simp: handlers_ok_def dest: in_set_takeD in_set_dropD)
qed

lemma release_node_counter: "release_node ino fh n s = Some s' \<Longrightarrow> file_handle_counter s' = file_handle_counter s"
  by (auto simp: release_node_def Let_def)

lemma opens_handles:
  assumes "handles_ok s" "file_handle_counter s \<le> k" "k + 1 < 2 ^ 64" "op = fuse_open \<or> op = fuse_opendir"
  shows "handles_ok (fst (op ino s)) \<and> file_handle_counter (fst (op ino s)) \<le> k + 1"
proof -
  have "fst (op ino s) = s \<or> (\<exists>n. node_at s ino = Some n \<and> fst (op ino s) = fst (open_node ino n s))"
    using assms(4) by (auto simp: fuse_open_def fuse_opendir_def split: option.splits)
  then show ?thesis
  proof (elim disjE exE conjE)
    fix n assume n: "node_at s ino = Some n" "fst (op ino s) = fst (open_node ino n s)"
    from open_node_handles [OF assms(1) n(1)] assms(2,3) n(2) show ?thesis by simp
  qed (use assms(1,2) in simp)
qed

lemma releases_handles:
  assumes "handles_ok s" "op = fuse_release \<or> op = fuse_releasedir"
  shows "handles_ok (fst (op ino fh s)) \<and> file_handle_counter (fst (op ino fh s)) = file_handle_counter s"
proof -
  have "handles_ok s' \<and> file_handle_counter s' = file_handle_counter s"
    if "node_at s ino = Some n" "release_node ino fh n s = Some s'" for n s'
    using release_node_handles [OF assms(1) that] release_node_counter [OF that(2)] by simp
  then show ?thesis using assms by (auto simp: fuse_release_def fuse_releasedir_def split: option.split)
qed

lemma fuse_run_handles: "fuse_run k s \<Longrightarrow> k < 2 ^ 64 \<Longrightarrow> handles_ok s \<and> file_handle_counter s \<le> k"
proof (induction rule: fuse_run.induct)
  case new
  show ?case by (simp add: handles_ok_def FuseServer_new_def)
next
  case (init k s t stream)
  then show ?case by (simp add: fuse_init_def handles_ok_def handlers_ok_def Node_new_root_def)
next
  case (load k s t streams descs)
  then show ?case using build_tree_fresh [of t streams descs] fresh_handlers
    by (auto simp: load_file_list_def handles_ok_def list_all_iff split: sum.splits)
next
  case (opendir k s ino)
  then show ?case using opens_handles [of s k fuse_opendir ino] by simp
next
  case (open_file k s ino)
  then show ?case using opens_handles [of s k fuse_open ino] by simp
next
  case (releasedir k s ino fh)
  then show ?case using releases_handles [of s fuse_releasedir ino fh] by simp
next
  case (release k s ino fh)
  then show ?case using releases_handles [of s fuse_release ino fh] by simp
qed

text \<open>What an open and a release do to the nodes: one node changes, and of it one handle.\<close>

definition with_handlers :: "nat \<Rightarrow> FuseNode \<Rightarrow> nat list \<Rightarrow> FuseServer \<Rightarrow> FuseNode list" where
  "with_handlers ino n hs s = (nodes s)[ino - 1 := n\<lparr>file_handlers := (file_handlers n)\<lparr>handlers := hs\<rparr>\<rparr>]"

definition opens_exactly :: "(nat \<Rightarrow> FuseServer \<Rightarrow> FuseServer \<times> (errno + nat)) \<Rightarrow> nat \<Rightarrow> FuseNode \<Rightarrow> FuseServer \<Rightarrow> bool" where
  "opens_exactly op ino n s \<longleftrightarrow>
     (\<exists>s' fh. op ino s = (s', Inr fh) \<and> (\<forall>m\<in>set (nodes s). \<not> have_handler fh m)
        \<and> nodes s' = with_handlers ino n (handlers (file_handlers n) @ [fh]) s)"

definition releases_exactly ::
  "(nat \<Rightarrow> nat \<Rightarrow> FuseServer \<Rightarrow> FuseServer \<times> errno option) \<Rightarrow> nat \<Rightarrow> FuseNode \<Rightarrow> FuseServer \<Rightarrow> bool" where
  "releases_exactly op ino n s \<longleftrightarrow>
     (\<forall>fh. if fh \<in> set (handlers (file_handlers n))
           then \<exists>s'. op ino fh s = (s', None) \<and> nodes s' = with_handlers ino n (filter (\<lambda>h. h \<noteq> fh) (handlers (file_handlers n))) s
           else op ino fh s = (s, Some EBADF))"

lemma node_at_nodes: "node_at s ino = Some n \<Longrightarrow> nodes s ! (ino - 1) = n"
  by (simp add: node_at_def split: if_splits)

lemma have_handler_exact: "handlers_ok k m \<Longrightarrow> have_handler fh m \<longleftrightarrow> fh \<in> set (handlers (file_handlers m))"
  using binary_search_exact [of "handlers (file_handlers m)" fh]
  by (simp add: have_handler_def handlers_ok_def strict_sorted_imp_sorted)

lemma open_node_exact:
  assumes "handles_ok s" "node_at s ino = Some n" "op ino s = open_node ino n s"
  shows "opens_exactly op ino n s"
proof -
  have "\<not> have_handler (file_handle_counter s) m" if "m \<in> set (nodes s)" for m
  proof -
    have m: "handlers_ok (file_handle_counter s) m" using assms(1) that by (simp add: handles_ok_def)
    then show ?thesis unfolding have_handler_exact [OF m] by (auto simp: handlers_ok_def)
  qed
  then show ?thesis using node_at_nodes [OF assms(2)]
    by (simp add: opens_exactly_def assms(3) open_node_def alloc_fd_def Let_def set_handles_def with_handlers_def)
qed

lemma filter_other_at:
  assumes "distinct xs" "i < length xs"
  shows "take i xs @ drop (Suc i) xs = filter (\<lambda>h. h \<noteq> xs ! i) xs"
proof -
  have xs: "xs = take i xs @ xs ! i # drop (Suc i) xs" by (rule id_take_nth_drop [OF assms(2)])
  then have "xs ! i \<notin> set (take i xs)" "xs ! i \<notin> set (drop (Suc i) xs)"
    using assms(1) by (metis distinct_append distinct.simps(2) disjoint_insert(1) list.simps(15))+
  then have "filter (\<lambda>h. h \<noteq> xs ! i) (take i xs) = take i xs" "filter (\<lambda>h. h \<noteq> xs ! i) (drop (Suc i) xs) = drop (Suc i) xs"
    by (auto simp: filter_id_conv)
  then show ?thesis by (subst (4) xs) simp
qed

lemma release_node_exact:
  assumes "handlers_ok k n" "node_at s ino = Some n"
  shows "fh \<in> set (handlers (file_handlers n)) \<Longrightarrow> \<exists>s'. release_node ino fh n s = Some s'
      \<and> nodes s' = with_handlers ino n (filter (\<lambda>h. h \<noteq> fh) (handlers (file_handlers n))) s"
    and "fh \<notin> set (handlers (file_handlers n)) \<Longrightarrow> release_node ino fh n s = None"
proof -
  let ?hs = "handlers (file_handlers n)"
  have srt: "sorted ?hs" "distinct ?hs" using assms(1) by (simp_all add: handlers_ok_def strict_sorted_iff)
  show "fh \<notin> set ?hs \<Longrightarrow> release_node ino fh n s = None"
    using binary_search_exact [OF srt(1), of fh] by (simp add: release_node_def Let_def)
  assume "fh \<in> set ?hs"
  then obtain i where i: "binary_search ?hs fh = Some i" using binary_search_exact [OF srt(1), of fh] by auto
  then have "i < length ?hs" "?hs ! i = fh" using binary_search_in_found by (auto simp: binary_search_def)
  with filter_other_at [OF srt(2) this(1)] show "\<exists>s'. release_node ino fh n s = Some s'
      \<and> nodes s' = with_handlers ino n (filter (\<lambda>h. h \<noteq> fh) ?hs) s"
    using node_at_nodes [OF assms(2)] by (simp add: release_node_def i Let_def set_handles_def with_handlers_def)
qed

lemma releases_exactlyI:
  assumes "handlers_ok k n" "node_at s ino = Some n"
    and "\<And>fh s'. fh \<in> set (handlers (file_handlers n)) \<Longrightarrow> release_node ino fh n s = Some s' \<Longrightarrow> op ino fh s = (s', None)"
    and "\<And>fh. fh \<notin> set (handlers (file_handlers n)) \<Longrightarrow> op ino fh s = (s, Some EBADF)"
  shows "releases_exactly op ino n s"
proof -
  have "\<exists>s'. op ino fh s = (s', None) \<and> nodes s' = with_handlers ino n (filter (\<lambda>h. h \<noteq> fh) (handlers (file_handlers n))) s"
    if "fh \<in> set (handlers (file_handlers n))" for fh
    using release_node_exact(1) [OF assms(1,2) that] assms(3) [OF that] by metis
  with assms(4) show ?thesis unfolding releases_exactly_def by presburger
qed

text \<open>
  C35. File handles are exact, as the source argues. Over every sequence of loads, opens and releases in which fewer than
  2 ^ 64 handles were asked for, the handles of a node are strictly increasing, so that the binary search
  finds a handle exactly if it is registered. Opening a file or a directory is never refused as busy; it returns a handle
  that no node has, appends it to the handles of its node and changes no other node. Releasing one removes
  exactly this handle from its node; a handle that the node does not have is refused and nothing changes.
\<close>

theorem fuse_handles_exact:
  assumes "fuse_run k s" "k < 2 ^ 64" "node_at s ino = Some n"
  shows "sorted_wrt (<) (handlers (file_handlers n)) \<and> (\<forall>fh. have_handler fh n \<longleftrightarrow> fh \<in> set (handlers (file_handlers n)))
    \<and> (ia_kind (attributes n) = File \<longrightarrow> opens_exactly fuse_open ino n s)
    \<and> (ia_kind (attributes n) = Directory \<longrightarrow> opens_exactly fuse_opendir ino n s \<and> releases_exactly fuse_releasedir ino n s)
    \<and> releases_exactly fuse_release ino n s"
proof (intro conjI allI impI)
  have ok: "handles_ok s" using fuse_run_handles [OF assms(1,2)] by blast
  have n: "handlers_ok (file_handle_counter s) n" using node_at_handlers [OF ok assms(3)] .
  then have gc: "\<not> gc (file_handlers n)" by (simp add: handlers_ok_def)
  note rel = release_node_exact [OF n assms(3)]
  show "sorted_wrt (<) (handlers (file_handlers n))" using n by (simp add: handlers_ok_def)
  show "have_handler fh n \<longleftrightarrow> fh \<in> set (handlers (file_handlers n))" for fh using have_handler_exact [OF n] .
  show "opens_exactly fuse_open ino n s" if "ia_kind (attributes n) = File"
    by (rule open_node_exact [OF ok assms(3)]) (use that gc assms(3) in \<open>simp add: fuse_open_def\<close>)
  show "opens_exactly fuse_opendir ino n s" if "ia_kind (attributes n) = Directory"
    by (rule open_node_exact [OF ok assms(3)]) (use that gc assms(3) in \<open>simp add: fuse_opendir_def\<close>)
  show "releases_exactly fuse_releasedir ino n s" if "ia_kind (attributes n) = Directory"
    by (rule releases_exactlyI [OF n assms(3)]) (use that assms(3) have_handler_exact [OF n] in \<open>auto simp: fuse_releasedir_def\<close>)
  show "releases_exactly fuse_release ino n s"
    by (rule releases_exactlyI [OF n assms(3)]) (use assms(3) rel in \<open>auto simp: fuse_release_def\<close>)
qed

text \<open>One file, opened twice.\<close>

definition fuse_demo :: FuseServer where
  "fuse_demo = fst (fuse_open 2 (fst (fuse_open 2 (fst (load_file_list 0 (\<lambda>_. 0)
     [\<lparr>fd_conn_id = 7, fd_name = \<lparr>rooted = False, parts = [''a'']\<rparr>, fd_kind = File, fd_atime = 0, fd_last_modified = 0,
       fd_last_metadata_changed = 0, fd_creation_time = 0, fd_size = 5, fd_perm = 0\<rparr>] FuseServer_new)))))"

lemma fuse_demo_run: "fuse_run (0 + 1 + 1) fuse_demo"
  unfolding fuse_demo_def by (intro fuse_run.intros)

lemma fuse_demo_node: "\<exists>n. node_at fuse_demo 2 = Some n \<and> handlers (file_handlers n) = [0, 1]"
  by (simp add: fuse_demo_def load_file_list_def build_tree_def FuseServer_new_def Node_new_root_def Let_def path_file_name_def
      parent_inode_def path_parent_def root_map_def get_or_def FUSE_ROOT_ID_def Node_from_description_def add_child_def fuse_open_def node_at_def
      open_node_def alloc_fd_def set_handles_def Attributes_from_description_def)

theorem fuse_handles_exact_witness:
  "\<exists>s' n. node_at fuse_demo 2 = Some n \<and> fuse_release 2 0 fuse_demo = (s', None) \<and> nodes s' = with_handlers 2 n [1] fuse_demo"
proof -
  obtain n where n: "node_at fuse_demo 2 = Some n" "handlers (file_handlers n) = [0, 1]" using fuse_demo_node by blast
  then have "releases_exactly fuse_release 2 n fuse_demo" using fuse_handles_exact [OF fuse_demo_run _ n(1)] by simp
  then have "\<exists>s'. fuse_release 2 0 fuse_demo = (s', None)
      \<and> nodes s' = with_handlers 2 n (filter (\<lambda>h. h \<noteq> 0) (handlers (file_handlers n))) fuse_demo"
    unfolding releases_exactly_def using n(2) by (metis list.set_intros(1))
  then show ?thesis using n by simp
qed

section \<open>The tree mirrors the list\<close>

text \<open>The directories known before entry \<open>k\<close> of the list, and the inode of the parent of an entry.\<close>

primrec roots_upto :: "FileDescription list \<Rightarrow> nat \<Rightarrow> (path \<times> nat) list" where
  "roots_upto ds 0 = root_map"
| "roots_upto ds (Suc k) =
     (if fd_kind (ds ! k) = Directory then AList.update (fd_name (ds ! k)) (k + 2) (roots_upto ds k) else roots_upto ds k)"

definition parent_of :: "FileDescription list \<Rightarrow> nat \<Rightarrow> nat" where
  "parent_of ds i = parent_inode (roots_upto ds i) (fd_name (ds ! i))"

lemma roots_upto_range: "map_of (roots_upto ds k) p = Some i \<Longrightarrow> 1 \<le> i \<and> i \<le> k + 1"
proof (induction k)
  case 0
  then show ?case by (auto simp: root_map_def FUSE_ROOT_ID_def split: if_splits)
next
  case (Suc k)
  then show ?case by (auto simp: map_of_update split: if_splits)
qed

lemma parent_of_range: "1 \<le> parent_of ds i" "parent_of ds i \<le> i + 1"
  using roots_upto_range [of ds i]
  by (auto simp: parent_of_def parent_inode_def get_or_def FUSE_ROOT_ID_def split: option.splits)

definition mirrors :: "nat \<Rightarrow> FileDescription list \<Rightarrow> nat \<Rightarrow> FuseNode \<Rightarrow> bool" where
  "mirrors t ds i n \<longleftrightarrow> path_file_name (fd_name (ds ! i)) = Some (fn_name n) \<and> fn_index n = i
     \<and> fn_parent n = Some (parent_of ds i) \<and> fn_conn_id n = fd_conn_id (ds ! i)
     \<and> attributes n = Attributes_from_description t (i + 2) (ds ! i)"

definition tree_upto :: "nat \<Rightarrow> FileDescription list \<Rightarrow> nat \<Rightarrow> FuseNode list \<Rightarrow> bool" where
  "tree_upto t ds k tree \<longleftrightarrow> length tree = k + 1 \<and> ia_kind (attributes (tree ! 0)) = Directory \<and> ia_inode (attributes (tree ! 0)) = 1
     \<and> (\<forall>i<k. mirrors t ds i (tree ! (i + 1)))
     \<and> (\<forall>p\<le>k. children (tree ! p) = map (\<lambda>i. i + 2) (filter (\<lambda>i. parent_of ds i = p + 1) [0..<k]))"

lemma build_loop_tree:
  assumes "build_loop t stream (drop k ds) tree (roots_upto ds k) = Inr tree'" "tree_upto t ds k tree" "k \<le> length ds"
  shows "tree_upto t ds (length ds) tree'"
  using assms
proof (induction "length ds - k" arbitrary: k tree)
  case 0
  then show ?case by simp
next
  case (Suc m)
  then have k: "k < length ds" by simp
  then have d: "drop k ds = ds ! k # drop (Suc k) ds" by (rule Cons_nth_drop_Suc [symmetric])
  define up where "up = parent_of ds k"
  have up: "parent_inode (roots_upto ds k) (fd_name (ds ! k)) = up" "1 \<le> up" "up - 1 < length tree"
    using parent_of_range [of ds k] Suc.prems(2) by (auto simp: up_def parent_of_def tree_upto_def)
  have len: "length tree = k + 1" using Suc.prems(2) by (simp add: tree_upto_def)
  obtain base where base: "path_file_name (fd_name (ds ! k)) = Some base"
    using Suc.prems(1) by (auto simp: d Let_def split: option.splits)
  define tree1 where "tree1 = tree[up - 1 := add_child (k + 2) (tree ! (up - 1))]"
  define node where "node = (Node_from_description t (stream (k + 2)) (k + 2) base (ds ! k))\<lparr>fn_parent := Some up\<rparr>"
  have next_step: "build_loop t stream (drop (Suc k) ds) (tree1 @ [node]) (roots_upto ds (Suc k)) = Inr tree'"
    using Suc.prems(1) by (simp add: d Let_def base up(1) len tree1_def node_def FUSE_ROOT_ID_def split: if_splits)
  have old: "attributes (tree1 ! p) = attributes (tree ! p)" "fn_index (tree1 ! p) = fn_index (tree ! p)"
    "fn_parent (tree1 ! p) = fn_parent (tree ! p)" "fn_name (tree1 ! p) = fn_name (tree ! p)"
    "fn_conn_id (tree1 ! p) = fn_conn_id (tree ! p)"
    "children (tree1 ! p) = children (tree ! p) @ (if p = up - 1 then [k + 2] else [])" if "p < length tree" for p
    using that up(3) by (auto simp: tree1_def add_child_def nth_list_update)
  have "tree_upto t ds (Suc k) (tree1 @ [node])"
    unfolding tree_upto_def
  proof (intro conjI allI impI)
    show "length (tree1 @ [node]) = Suc k + 1" by (simp add: tree1_def len)
    show "ia_kind (attributes ((tree1 @ [node]) ! 0)) = Directory" "ia_inode (attributes ((tree1 @ [node]) ! 0)) = 1"
      using Suc.prems(2) old [of 0] len by (simp_all add: nth_append tree1_def tree_upto_def)
    show "mirrors t ds i ((tree1 @ [node]) ! (i + 1))" if "i < Suc k" for i
    proof (cases "i = k")
      case True
      then show ?thesis
        using base by (simp add: mirrors_def nth_append len tree1_def node_def Node_from_description_def up_def)
    next
      case False
      with that have "i < k" by simp
      then have "mirrors t ds i (tree ! (i + 1))" using Suc.prems(2) by (simp add: tree_upto_def)
      then show ?thesis using old [of "i + 1"] \<open>i < k\<close> len by (simp add: mirrors_def nth_append tree1_def)
    qed
    show "children ((tree1 @ [node]) ! p) = map (\<lambda>i. i + 2) (filter (\<lambda>i. parent_of ds i = p + 1) [0..<Suc k])" if "p \<le> Suc k" for p
    proof (cases "p = Suc k")
      case True
      have "parent_of ds i \<noteq> p + 1" if "i < Suc k" for i using parent_of_range(2) [of ds i] that True by simp
      then have "filter (\<lambda>i. parent_of ds i = p + 1) [0..<Suc k] = []" by (simp add: filter_empty_conv)
      then show ?thesis using True len by (simp add: nth_append tree1_def node_def Node_from_description_def)
    next
      case False
      with that have p: "p < length tree" "p \<le> k" by (simp_all add: len)
      then have "children (tree ! p) = map (\<lambda>i. i + 2) (filter (\<lambda>i. parent_of ds i = p + 1) [0..<k])"
        using Suc.prems(2) by (simp add: tree_upto_def)
      moreover have "p = up - 1 \<longleftrightarrow> parent_of ds k = p + 1" using up(2) by (auto simp: up_def)
      ultimately show ?thesis using old(6) [OF p(1)] p len by (simp add: nth_append tree1_def)
    qed
  qed
  then show ?case using Suc.hyps(1) [of "Suc k"] Suc.hyps(2) next_step k by simp
qed

lemma build_tree_mirrors: "build_tree t stream ds = Inr tree \<Longrightarrow> tree_upto t ds (length ds) tree"
  using build_loop_tree [of t stream 0 ds "[Node_new_root t (stream 1)]" tree]
  by (simp add: build_tree_def tree_upto_def Node_new_root_def FUSE_ROOT_ID_def)

section \<open>Every file is found under its path\<close>

fun resolve :: "FuseServer \<Rightarrow> nat \<Rightarrow> string list \<Rightarrow> errno + nat" where
  "resolve s ino [] = Inr ino"
| "resolve s ino (c # cs) = (case fuse_lookup ino c s of Inl e \<Rightarrow> Inl e | Inr a \<Rightarrow> resolve s (ia_inode a) cs)"

lemma resolve_append: "resolve s ino xs = Inr k \<Longrightarrow> resolve s ino (xs @ ys) = resolve s k ys"
  by (induction xs arbitrary: ino) (auto split: sum.splits)

lemma find_unique: "x \<in> set xs \<Longrightarrow> P x \<Longrightarrow> (\<And>y. y \<in> set xs \<Longrightarrow> P y \<Longrightarrow> y = x) \<Longrightarrow> find P xs = Some x"
proof (induction xs)
  case (Cons y ys)
  show ?case
  proof (cases "P y")
    case True
    then have "y = x" using Cons.prems(3) [of y] by simp
    with True show ?thesis by simp
  next
    case False
    then have "find P ys = Some x" using Cons by (metis list.set_intros(2) set_ConsD)
    with False show ?thesis by simp
  qed
qed simp

lemma path_parent_parts: "path_parent p = Some q \<Longrightarrow> butlast (parts p) = parts q"
  by (auto simp: path_parent_def split: if_splits)

text \<open>A list of relative paths in which every directory precedes its contents.\<close>

definition pre_ordered :: "FileDescription list \<Rightarrow> bool" where
  "pre_ordered ds \<longleftrightarrow> (\<forall>i<length ds. \<not> rooted (fd_name (ds ! i)) \<and> parts (fd_name (ds ! i)) \<noteq> []
     \<and> (length (parts (fd_name (ds ! i))) = 1
        \<or> (\<exists>j<i. fd_kind (ds ! j) = Directory \<and> path_parent (fd_name (ds ! i)) = Some (fd_name (ds ! j)))))"

lemma roots_upto_top:
  assumes "\<And>j. j < k \<Longrightarrow> parts (fd_name (ds ! j)) \<noteq> []"
  shows "map_of (roots_upto ds k) \<lparr>rooted = False, parts = []\<rparr> = Some 1"
  using assms
proof (induction k)
  case (Suc k)
  then have "fd_name (ds ! k) \<noteq> \<lparr>rooted = False, parts = []\<rparr>" using path.select_convs(2) by fastforce
  with Suc show ?case by (simp add: map_of_update)
qed (simp add: root_map_def FUSE_ROOT_ID_def)

lemma roots_upto_dir:
  assumes "distinct (map fd_name ds)" "j < k" "k \<le> length ds" "fd_kind (ds ! j) = Directory"
  shows "map_of (roots_upto ds k) (fd_name (ds ! j)) = Some (j + 2)"
  using assms
proof (induction k)
  case (Suc k)
  show ?case
  proof (cases "j = k")
    case True
    then show ?thesis using Suc.prems(4) by (simp add: map_of_update)
  next
    case False
    with Suc.prems have "fd_name (ds ! k) \<noteq> fd_name (ds ! j)" by (simp add: distinct_conv_nth)
    with False Suc show ?thesis by (simp add: map_of_update)
  qed
qed simp

lemma parent_of_cases:
  assumes "pre_ordered ds" "distinct (map fd_name ds)" "i < length ds"
  obtains "length (parts (fd_name (ds ! i))) = 1" "parent_of ds i = 1"
  | j where "j < i" "fd_kind (ds ! j) = Directory" "path_parent (fd_name (ds ! i)) = Some (fd_name (ds ! j))" "parent_of ds i = j + 2"
proof (cases "length (parts (fd_name (ds ! i))) = 1")
  case True
  have "path_parent (fd_name (ds ! i)) = Some \<lparr>rooted = False, parts = []\<rparr>"
    using True assms(1,3) by (cases "fd_name (ds ! i)") (auto simp: path_parent_def pre_ordered_def length_Suc_conv)
  moreover have "map_of (roots_upto ds i) \<lparr>rooted = False, parts = []\<rparr> = Some 1"
    using assms(1,3) by (intro roots_upto_top) (simp add: pre_ordered_def)
  ultimately show ?thesis using True that(1) by (simp add: parent_of_def parent_inode_def get_or_def)
next
  case False
  with assms(1,3) obtain j where j: "j < i" "fd_kind (ds ! j) = Directory" "path_parent (fd_name (ds ! i)) = Some (fd_name (ds ! j))"
    by (auto simp: pre_ordered_def)
  moreover have "map_of (roots_upto ds i) (fd_name (ds ! j)) = Some (j + 2)"
    using j assms(2,3) by (intro roots_upto_dir) simp_all
  ultimately show ?thesis using that(2) by (simp add: parent_of_def parent_inode_def get_or_def)
qed

text \<open>Two entries with the same parent and the same last component are the same.\<close>

lemma sibling_unique:
  assumes "pre_ordered ds" "distinct (map fd_name ds)" "i < length ds" "k < length ds"
    "parent_of ds i = parent_of ds k" "last (parts (fd_name (ds ! i))) = last (parts (fd_name (ds ! k)))"
  shows "i = k"
proof -
  have b: "butlast (parts (fd_name (ds ! i))) = butlast (parts (fd_name (ds ! k)))"
    using parent_of_cases [OF assms(1,2,3)]
  proof cases
    case 1
    from parent_of_cases [OF assms(1,2,4)] show ?thesis
    proof cases
      case 1
      with \<open>length (parts (fd_name (ds ! i))) = 1\<close> show ?thesis by (auto simp: length_Suc_conv)
    next
      case 2
      with \<open>parent_of ds i = 1\<close> assms(5) show ?thesis by simp
    qed
  next
    case (2 j)
    from parent_of_cases [OF assms(1,2,4)] show ?thesis
    proof cases
      case 1
      with 2 assms(5) show ?thesis by simp
    next
      case (2 j')
      with \<open>parent_of ds i = j + 2\<close> assms(5) have "j' = j" by simp
      with 2 \<open>path_parent (fd_name (ds ! i)) = _\<close> show ?thesis by (simp add: path_parent_parts)
    qed
  qed
  have ne: "parts (fd_name (ds ! i)) \<noteq> []" "parts (fd_name (ds ! k)) \<noteq> []" "\<not> rooted (fd_name (ds ! i))" "\<not> rooted (fd_name (ds ! k))"
    using assms(1,3,4) by (auto simp: pre_ordered_def)
  then have "parts (fd_name (ds ! i)) = parts (fd_name (ds ! k))" using b assms(6) by (metis append_butlast_last_id)
  then have "fd_name (ds ! i) = fd_name (ds ! k)" using ne by (cases "fd_name (ds ! i)"; cases "fd_name (ds ! k)") simp
  then show ?thesis using assms(2-4) nth_eq_iff_index_eq [of "map fd_name ds" i k] by simp
qed

lemma resolve_entry:
  assumes "pre_ordered ds" "distinct (map fd_name ds)" "tree_upto t ds (length ds) (nodes s)"
    and "\<And>d c. d \<in> set ds \<Longrightarrow> c \<in> set (parts (fd_name d)) \<Longrightarrow> length c \<le> MAX_NAME_LEN" and "i < length ds"
  shows "resolve s 1 (parts (fd_name (ds ! i))) = Inr (i + 2)"
  using assms(5)
proof (induction i rule: less_induct)
  case (less i)
  define up where "up = parent_of ds i"
  let ?ps = "parts (fd_name (ds ! i))"
  have ne: "?ps \<noteq> []" using assms(1) less.prems by (simp add: pre_ordered_def)
  have len: "length (nodes s) = length ds + 1" using assms(3) by (simp add: tree_upto_def)
  have mirror: "mirrors t ds k (nodes s ! (k + 1))" if "k < length ds" for k using assms(3) that by (simp add: tree_upto_def)
  have up: "resolve s 1 (butlast ?ps) = Inr up \<and> ia_kind (attributes (nodes s ! (up - 1))) = Directory"
    using parent_of_cases [OF assms(1,2) less.prems]
  proof cases
    case 1
    then have "butlast ?ps = []" by (auto simp: length_Suc_conv)
    then show ?thesis using 1(2) assms(3) by (simp add: up_def tree_upto_def)
  next
    case (2 j)
    have "butlast ?ps = parts (fd_name (ds ! j))" using 2(3) by (rule path_parent_parts)
    moreover have "mirrors t ds j (nodes s ! (j + 1))" using 2(1) less.prems by (intro mirror) simp
    ultimately show ?thesis using less.IH [of j] 2 less.prems by (simp add: mirrors_def Attributes_from_description_def up_def)
  qed
  have upr: "1 \<le> up" "up - 1 \<le> length ds" using parent_of_range [of ds i] less.prems by (simp_all add: up_def)
  have ch: "children (nodes s ! (up - 1)) = map (\<lambda>i. i + 2) (filter (\<lambda>i. parent_of ds i = up) [0..<length ds])"
    using assms(3) upr by (simp add: tree_upto_def)
  have name: "fn_name (nodes s ! (k + 1)) = last (parts (fd_name (ds ! k)))" if "k < length ds" for k
    using mirror [OF that] by (auto simp: mirrors_def path_file_name_def split: if_splits)
  have "find (\<lambda>i. fn_name (nodes s ! (i - 1)) = last ?ps) (children (nodes s ! (up - 1))) = Some (i + 2)"
  proof (rule find_unique)
    show "i + 2 \<in> set (children (nodes s ! (up - 1)))" unfolding ch using less.prems by (simp add: up_def)
    show "fn_name (nodes s ! (i + 2 - 1)) = last ?ps" using name [OF less.prems] by simp
    fix y assume "y \<in> set (children (nodes s ! (up - 1)))" "fn_name (nodes s ! (y - 1)) = last ?ps"
    then obtain k where k: "y = k + 2" "k < length ds" "parent_of ds k = up" "fn_name (nodes s ! (k + 1)) = last ?ps"
      unfolding ch by auto
    then have "k = i" using sibling_unique [OF assms(1,2) k(2) less.prems] name [OF k(2)] by (simp add: up_def)
    then show "y = i + 2" by (simp add: k(1))
  qed
  moreover have "length (last ?ps) \<le> MAX_NAME_LEN" using assms(4) [of "ds ! i" "last ?ps"] less.prems ne by simp
  moreover have "node_at s up = Some (nodes s ! (up - 1))" using upr len by (simp add: node_at_def)
  moreover have "ia_inode (attributes (nodes s ! (i + 1))) = i + 2"
    using mirror [OF less.prems] by (simp add: mirrors_def Attributes_from_description_def)
  ultimately have "resolve s up [last ?ps] = Inr (i + 2)" using up by (simp add: fuse_lookup_def)
  then have "resolve s 1 (butlast ?ps @ [last ?ps]) = Inr (i + 2)" by (simp only: resolve_append [OF conjunct1 [OF up]])
  then show ?case using ne by simp
qed

section \<open>From the copied folder to the pasted one\<close>

definition good_name :: "string \<Rightarrow> bool" where
  "good_name c \<longleftrightarrow> c \<noteq> [] \<and> c \<noteq> ''.'' \<and> c \<noteq> ''..'' \<and> CHR ''/'' \<notin> set c"

text \<open>A path below the folder that is copied from, with proper names.\<close>

definition below :: "path \<Rightarrow> path \<Rightarrow> bool" where
  "below root p \<longleftrightarrow> rooted p = rooted root \<and> (\<exists>rel. parts p = parts root @ rel \<and> rel \<noteq> [] \<and> list_all good_name rel)"

definition rel_parts :: "path \<Rightarrow> path \<Rightarrow> string list" where
  "rel_parts root p = drop (length (parts root)) (parts p)"

lemma split_slash_no: "CHR ''/'' \<notin> set c \<Longrightarrow> split_slash c = [c]"
  by (induction c) auto

lemma split_slash_Cons: "CHR ''/'' \<notin> set c \<Longrightarrow> split_slash (c @ CHR ''/'' # s) = c # split_slash s"
  by (induction c) auto

lemma split_join: "rel \<noteq> [] \<Longrightarrow> list_all good_name rel \<Longrightarrow> split_slash (join_slash rel) = rel"
proof (induction rel rule: join_slash.induct)
  case (2 p)
  then show ?case by (simp add: good_name_def split_slash_no)
next
  case (3 p q ps)
  then show ?case by (simp add: good_name_def split_slash_Cons)
qed simp

lemma path_from_join:
  assumes "rel \<noteq> []" "list_all good_name rel"
  shows "path_from (join_slash rel) = \<lparr>rooted = False, parts = rel\<rparr>"
proof -
  obtain c cs where c: "rel = c # cs" using assms(1) by (cases rel) auto
  then obtain d ds where d: "c = d # ds" "d \<noteq> CHR ''/''" using assms(2) by (cases c) (auto simp: good_name_def)
  have "hd (join_slash rel) = d" "join_slash rel \<noteq> []" unfolding c d(1) by (cases cs; simp)+
  moreover have "filter (\<lambda>p. p \<noteq> [] \<and> p \<noteq> ''.'') rel = rel"
    using assms(2) by (auto simp: filter_id_conv list_all_iff good_name_def)
  moreover have "hd rel \<noteq> ''.''" using assms(2) c by (simp add: good_name_def)
  ultimately show ?thesis using d(2) by (simp add: path_from_def split_join [OF assms] Let_def)
qed

text \<open>What the loop has found so far, and what it has still to visit.\<close>

definition anchored :: "path \<Rightarrow> LocalFile list \<Rightarrow> path \<Rightarrow> bool" where
  "anchored root found p \<longleftrightarrow> below root p
     \<and> (length (rel_parts root p) = 1 \<or> (\<exists>g\<in>set found. is_dir g \<and> path_parent p = Some (lf_path g)))"

definition listed :: "path \<Rightarrow> LocalFile list \<Rightarrow> bool" where
  "listed root found \<longleftrightarrow> distinct (map lf_path found)
     \<and> (\<forall>i<length found. relative_root (found ! i) = root \<and> anchored root (take i found) (lf_path (found ! i)))"

lemma anchored_mono: "anchored root found p \<Longrightarrow> anchored root (found @ fs) p"
  by (auto simp: anchored_def)

lemma listed_snoc:
  assumes "listed root found" "lf_path f \<notin> lf_path ` set found" "relative_root f = root" "anchored root found (lf_path f)"
  shows "listed root (found @ [f])"
  using assms by (auto simp: listed_def nth_append less_Suc_eq)

lemma try_open_fields: "try_open metadata root p = Inr f \<Longrightarrow> lf_path f = p \<and> relative_root f = root"
  by (auto simp: try_open_def Let_def split: option.splits)

lemma child_anchored:
  assumes "below root p" "good_name c" "f \<in> set found" "is_dir f" "lf_path f = p"
  shows "anchored root found (child_path p c)"
proof -
  have "path_parent (child_path p c) = Some p" by (simp add: path_parent_def child_path_def)
  moreover obtain rel where "parts p = parts root @ rel" "rel \<noteq> []" "list_all good_name rel" "rooted p = rooted root"
    using assms(1) by (auto simp: below_def)
  then have "below root (child_path p c)" using assms(2) by (auto simp: below_def child_path_def intro: exI [of _ "rel @ [c]"])
  ultimately show ?thesis using assms(3-5) by (auto simp: anchored_def)
qed

definition proper_dirs :: "(path \<Rightarrow> string list option) \<Rightarrow> bool" where
  "proper_dirs read_dir \<longleftrightarrow> (\<forall>p names c. read_dir p = Some names \<longrightarrow> c \<in> set names \<longrightarrow> good_name c)"

definition loop_ok :: "path \<Rightarrow> path list \<Rightarrow> LocalFile list \<Rightarrow> path list \<Rightarrow> bool" where
  "loop_ok root todo found visited \<longleftrightarrow>
     listed root found \<and> set visited = lf_path ` set found \<and> (\<forall>p\<in>set todo. anchored root found p)"

lemma loop_ok_visit:
  assumes "loop_ok root (p # rest) found visited" "p \<notin> set visited" "lf_path f = p" "relative_root f = root"
    and "\<And>c. c \<in> set names \<Longrightarrow> good_name c" "names = [] \<or> is_dir f"
  shows "loop_ok root (map (child_path p) names @ rest) (found @ [f]) (p # visited)"
proof -
  have "listed root (found @ [f])" using assms(1-4) by (intro listed_snoc) (auto simp: loop_ok_def)
  moreover have "anchored root (found @ [f]) (child_path p c)" if "c \<in> set names" for c
    using assms(1,3,5,6) that by (intro child_anchored [of _ _ _ f]) (auto simp: loop_ok_def anchored_def)
  ultimately show ?thesis using assms(1,3) by (auto simp: loop_ok_def intro: anchored_mono)
qed

lemma constr_listed:
  assumes "constr_file_lst metadata read_dir root todo found visited = Some r"
    and "proper_dirs read_dir" "loop_ok root todo found visited" "r = Inr fl"
  shows "listed root fl"
proof -
  have "proper_dirs read_dir \<longrightarrow> loop_ok root todo found visited \<longrightarrow> r = Inr fl \<longrightarrow> listed root fl"
  proof (rule constr_file_lst.raw_induct [OF _ assms(1), where P = "\<lambda>metadata read_dir root todo found visited r.
      proper_dirs read_dir \<longrightarrow> loop_ok root todo found visited \<longrightarrow> r = Inr fl \<longrightarrow> listed root fl"], intro impI, goal_cases)
    case (1 loop metadata read_dir root todo found visited r)
    note IH = 1(1) and step = 1(2) and proper = 1(3) and ok = 1(4) and r = 1(5)
    show ?case
    proof (cases todo)
      case Nil
      with step r ok show ?thesis by (simp add: loop_ok_def)
    next
      case (Cons p rest)
      show ?thesis
      proof (cases "p \<in> set visited")
        case True
        moreover have "loop_ok root rest found visited" using ok Cons by (simp add: loop_ok_def)
        ultimately show ?thesis using step Cons IH [of metadata read_dir root rest found visited r] proper r by simp
      next
        case False
        with step Cons r obtain f where f: "try_open metadata root p = Inr f" by (auto split: sum.splits)
        note fields = try_open_fields [OF f]
        show ?thesis
        proof (cases "is_dir f")
          case True
          with step Cons r f False obtain names where names: "read_dir p = Some names" by (auto split: option.splits)
          have "loop_ok root (map (child_path p) names @ rest) (found @ [f]) (p # visited)"
            using loop_ok_visit [of root p rest found visited f names] ok Cons False fields True proper names
            by (auto simp: proper_dirs_def)
          then show ?thesis using step Cons False f True names r proper
              IH [of metadata read_dir root "map (child_path p) names @ rest" "found @ [f]" "p # visited" r] by simp
        next
          case dir: False
          have "loop_ok root (map (child_path p) [] @ rest) (found @ [f]) (p # visited)"
            using ok Cons False fields by (intro loop_ok_visit) auto
          then show ?thesis using step Cons False f dir r proper IH [of metadata read_dir root rest "found @ [f]" "p # visited" r]
            by simp
        qed
      qed
    qed
  qed
  then show ?thesis using assms(2-4) by blast
qed

lemma described_name:
  assumes "below (relative_root f) (lf_path f)" "BACKSLASH \<notin> set (wire_name f)"
  shows "fd_name (described conn f) = \<lparr>rooted = False, parts = rel_parts (relative_root f) (lf_path f)\<rparr>"
proof -
  obtain rel where rel: "parts (lf_path f) = parts (relative_root f) @ rel" "rel \<noteq> []" "list_all good_name rel"
    "rooted (lf_path f) = rooted (relative_root f)"
    using assms by (auto simp: below_def)
  then have "wire_name f = join_slash rel" by (simp add: wire_name_def path_strip_prefix_def path_to_string_def)
  then show ?thesis using path_from_join [OF rel(2,3)] rel(1) described_plain [OF assms(2)] by (simp add: rel_parts_def)
qed

lemma listed_pre_ordered:
  assumes "listed root fl" "\<And>f. f \<in> set fl \<Longrightarrow> BACKSLASH \<notin> set (wire_name f)"
  shows "pre_ordered (map (described conn) fl)" "distinct (map fd_name (map (described conn) fl))"
proof -
  have b: "relative_root (fl ! i) = root" "below root (lf_path (fl ! i))" "anchored root (take i fl) (lf_path (fl ! i))" if "i < length fl" for i
    using assms(1) that by (auto simp: listed_def anchored_def)
  have nm: "fd_name (described conn (fl ! i)) = \<lparr>rooted = False, parts = rel_parts root (lf_path (fl ! i))\<rparr>" if "i < length fl" for i
    using described_name [of "fl ! i" conn] b [OF that] assms(2) that by simp
  have full: "lf_path (fl ! i) = \<lparr>rooted = rooted root, parts = parts root @ rel_parts root (lf_path (fl ! i))\<rparr>" "rel_parts root (lf_path (fl ! i)) \<noteq> []"
    if "i < length fl" for i
    using b(2) [OF that] by (cases "lf_path (fl ! i)"; auto simp: below_def rel_parts_def)+
  show "pre_ordered (map (described conn) fl)"
    unfolding pre_ordered_def
  proof (intro allI impI)
    fix i assume "i < length (map (described conn) fl)"
    then have i: "i < length fl" by simp
    have "\<exists>j<i. is_dir (fl ! j) \<and> path_parent (lf_path (fl ! i)) = Some (lf_path (fl ! j))" if deep: "length (rel_parts root (lf_path (fl ! i))) \<noteq> 1"
    proof -
      obtain g where g: "g \<in> set (take i fl)" "is_dir g" "path_parent (lf_path (fl ! i)) = Some (lf_path g)"
        using b(3) [OF i] deep by (auto simp: anchored_def)
      then obtain j where "j < i" "fl ! j = g" using i by (auto simp: in_set_conv_nth)
      with g(2,3) show ?thesis by blast
    qed
    then have "length (rel_parts root (lf_path (fl ! i))) = 1 \<or> (\<exists>j<i. fd_kind (map (described conn) fl ! j) = Directory
        \<and> path_parent (fd_name (map (described conn) fl ! i)) = Some (fd_name (map (described conn) fl ! j)))"
    proof (cases "length (rel_parts root (lf_path (fl ! i))) = 1")
      case False
      then obtain j where j: "j < i" "is_dir (fl ! j)" "path_parent (lf_path (fl ! i)) = Some (lf_path (fl ! j))"
        using \<open>length _ \<noteq> 1 \<Longrightarrow> _\<close> by blast
      have "butlast (parts root @ rel_parts root (lf_path (fl ! i))) = parts root @ rel_parts root (lf_path (fl ! j))"
        using path_parent_parts [OF j(3)] full(1) [OF i] full(1) [of j] j(1) i by (metis path.select_convs(2) less_trans)
      then have "butlast (rel_parts root (lf_path (fl ! i))) = rel_parts root (lf_path (fl ! j))"
        using full(2) [OF i] by (simp add: butlast_append)
      then show ?thesis using j i nm [of j] nm [OF i] full(2) [OF i]
        by (auto simp: path_parent_def described_def Let_def intro!: exI [of _ j])
    qed simp
    then show "\<not> rooted (fd_name (map (described conn) fl ! i)) \<and> parts (fd_name (map (described conn) fl ! i)) \<noteq> []
      \<and> (length (parts (fd_name (map (described conn) fl ! i))) = 1
        \<or> (\<exists>j<i. fd_kind (map (described conn) fl ! j) = Directory \<and>
             path_parent (fd_name (map (described conn) fl ! i)) = Some (fd_name (map (described conn) fl ! j))))"
      using i nm [OF i] full(2) [OF i] by simp
  qed
  show "distinct (map fd_name (map (described conn) fl))"
  proof -
    have "fd_name (described conn (fl ! i)) \<noteq> fd_name (described conn (fl ! k))" if "i < length fl" "k < length fl" "i \<noteq> k" for i k
    proof
      assume "fd_name (described conn (fl ! i)) = fd_name (described conn (fl ! k))"
      then have "rel_parts root (lf_path (fl ! i)) = rel_parts root (lf_path (fl ! k))" using nm that by simp
      then have "lf_path (fl ! i) = lf_path (fl ! k)" using full(1) that by metis
      then show False using assms that nth_eq_iff_index_eq [of "map lf_path fl" i k] by (simp add: listed_def)
    qed
    then show ?thesis by (simp add: distinct_conv_nth)
  qed
qed

lemma build_loop_succeeds:
  "(\<And>d. d \<in> set ds \<Longrightarrow> path_file_name (fd_name d) \<noteq> None) \<Longrightarrow> \<exists>tree'. build_loop t stream ds tree m = Inr tree'"
  by (induction ds arbitrary: tree m) (auto simp: Let_def split: option.splits)

text \<open>Nothing is left out: the list is closed under the contents of its directories.\<close>

definition contents_in :: "(path \<Rightarrow> string list option) \<Rightarrow> path set \<Rightarrow> LocalFile \<Rightarrow> bool" where
  "contents_in read_dir known f \<longleftrightarrow>
     (is_dir f \<longrightarrow> (\<exists>names. read_dir (lf_path f) = Some names \<and> child_path (lf_path f) ` set names \<subseteq> known))"

definition covering :: "(path \<Rightarrow> string list option) \<Rightarrow> path list \<Rightarrow> LocalFile list \<Rightarrow> path list \<Rightarrow> bool" where
  "covering read_dir todo found visited \<longleftrightarrow>
     set visited = lf_path ` set found \<and> (\<forall>f\<in>set found. contents_in read_dir (set todo \<union> set visited) f)"

lemma contents_in_mono: "contents_in read_dir known f \<Longrightarrow> known \<subseteq> known' \<Longrightarrow> contents_in read_dir known' f"
  by (auto simp: contents_in_def)

lemma covering_visit:
  assumes "covering read_dir (p # rest) found visited" "lf_path f = p" "is_dir f \<Longrightarrow> read_dir p = Some names"
  shows "covering read_dir (map (child_path p) names @ rest) (found @ [f]) (p # visited)"
proof -
  have "contents_in read_dir (set (map (child_path p) names @ rest) \<union> set (p # visited)) g" if "g \<in> set found" for g
  proof (rule contents_in_mono)
    show "contents_in read_dir (set (p # rest) \<union> set visited) g" using assms(1) that unfolding covering_def by blast
  qed auto
  moreover have "contents_in read_dir (set (map (child_path p) names @ rest) \<union> set (p # visited)) f"
    using assms(2,3) by (simp add: contents_in_def subset_iff)
  moreover have "set (p # visited) = lf_path ` set (found @ [f])" using assms(1,2) by (simp add: covering_def)
  ultimately show ?thesis unfolding covering_def by (metis UnE set_append set_ConsD empty_iff empty_set)
qed

lemma constr_covers:
  assumes "constr_file_lst metadata read_dir root todo found visited = Some r"
    and "covering read_dir todo found visited" "r = Inr fl"
  shows "set todo \<union> set visited \<subseteq> lf_path ` set fl \<and> (\<forall>f\<in>set fl. contents_in read_dir (lf_path ` set fl) f)"
proof -
  have "covering read_dir todo found visited \<longrightarrow> r = Inr fl \<longrightarrow>
    set todo \<union> set visited \<subseteq> lf_path ` set fl \<and> (\<forall>f\<in>set fl. contents_in read_dir (lf_path ` set fl) f)"
  proof (rule constr_file_lst.raw_induct [OF _ assms(1), where P = "\<lambda>metadata read_dir root todo found visited r.
      covering read_dir todo found visited \<longrightarrow> r = Inr fl \<longrightarrow>
      set todo \<union> set visited \<subseteq> lf_path ` set fl \<and> (\<forall>f\<in>set fl. contents_in read_dir (lf_path ` set fl) f)"], rule impI, rule impI, goal_cases)
    case (1 loop metadata read_dir root todo found visited r)
    note IH = 1(1) and step = 1(2) and cov = 1(3) and r = 1(4)
    show ?case
    proof (cases todo)
      case Nil
      with step r have "fl = found" by simp
      moreover have "set visited = lf_path ` set found" using cov by (simp add: covering_def)
      moreover have "\<forall>f\<in>set found. contents_in read_dir (set visited) f"
        using cov unfolding covering_def Nil list.set Un_empty_left by blast
      ultimately show ?thesis using Nil by simp
    next
      case (Cons p rest)
      show ?thesis
      proof (cases "p \<in> set visited")
        case True
        then have same: "set (p # rest) \<union> set visited = set rest \<union> set visited" by auto
        then have "covering read_dir rest found visited" using cov unfolding covering_def Cons same by blast
        then show ?thesis using same step Cons True IH [of metadata read_dir root rest found visited r] r
          by (simp only: list.case if_True) blast
      next
        case False
        with step Cons r obtain f where f: "try_open metadata root p = Inr f" by (auto split: sum.splits)
        note fields = try_open_fields [OF f]
        show ?thesis
        proof (cases "is_dir f")
          case True
          with step Cons r f False obtain names where names: "read_dir p = Some names" by (auto split: option.splits)
          have "covering read_dir (map (child_path p) names @ rest) (found @ [f]) (p # visited)"
            using covering_visit cov Cons fields names by blast
          then show ?thesis using step Cons False f True names r
              IH [of metadata read_dir root "map (child_path p) names @ rest" "found @ [f]" "p # visited" r] by simp
        next
          case dir: False
          have "covering read_dir (map (child_path p) [] @ rest) (found @ [f]) (p # visited)"
            using covering_visit [of read_dir p rest found visited f "[]"] cov Cons fields dir by blast
          then show ?thesis using step Cons False f dir r IH [of metadata read_dir root rest "found @ [f]" "p # visited" r]
            by simp
        qed
      qed
    qed
  qed
  then show ?thesis using assms(2,3) by blast
qed

text \<open>
  C34. A paste shows what was copied. Files and directories that lie directly in one folder are copied, their list
  is built, and the entries of directories are ordinary names; no name has a backslash, and names have at most 255 bytes and
  fit the descriptors. Then every copied path and everything below it is in the list; the list goes over the wire and is parsed;
  what is parsed loads into the file system of the other side; and there each entry is found by
  walking its relative path from the root, as a node that asks for the entry's own index and has its size and kind.
\<close>

theorem clipboard_paste_faithful:
  assumes "construct_file_list metadata read_dir paths = Some (Inr fl)" "proper_dirs read_dir"
    and "path_parent (hd paths) = Some root" "\<forall>p\<in>set paths. below root p \<and> length (rel_parts root p) = 1"
    and "\<forall>f\<in>set fl. \<forall>c\<in>set (parts (lf_path f)). length c \<le> MAX_NAME_LEN"
    and "\<forall>f\<in>set fl. transferable utf16 from_utf16 f \<and> BACKSLASH \<notin> set (wire_name f)" "length fl < 2 ^ 32"
  shows "set paths \<subseteq> lf_path ` set fl \<and> (\<forall>f\<in>set fl. contents_in read_dir (lf_path ` set fl) f)
    \<and> (\<exists>pdu ds s'. build_file_list_pdu utf16 fl = Some pdu \<and> parse_file_descriptors from_utf16 conn pdu = Inr ds
      \<and> load_file_list t stream ds s = (s', None) \<and> length (nodes s') = length fl + 1
      \<and> (\<forall>i<length fl. resolve s' 1 (rel_parts root (lf_path (fl ! i))) = Inr (i + 2)
          \<and> (\<exists>n. node_at s' (i + 2) = Some n \<and> fn_index n = i \<and> ia_size (attributes n) = lf_size (fl ! i)
               \<and> ia_kind (attributes n) = (if is_dir (fl ! i) then Directory else File))))"
proof -
  have run: "constr_file_lst metadata read_dir root paths [] [] = Some (Inr fl)"
    using assms(1,3) by (cases paths) (auto simp: construct_file_list_def)
  have covers: "set paths \<subseteq> lf_path ` set fl \<and> (\<forall>f\<in>set fl. contents_in read_dir (lf_path ` set fl) f)"
    using constr_covers [OF run] by (simp add: covering_def)
  have listed: "listed root fl"
    using constr_listed [OF run assms(2)] assms(4) by (simp add: loop_ok_def listed_def anchored_def)
  let ?ds = "map (described conn) fl"
  have plain: "BACKSLASH \<notin> set (wire_name f)" if "f \<in> set fl" for f using assms(6) that by blast
  note ordered = listed_pre_ordered [OF listed plain, of conn]
  obtain pdu where pdu: "build_file_list_pdu utf16 fl = Some pdu" "parse_file_descriptors from_utf16 conn pdu = Inr ?ds"
    using file_list_parsed [OF assms(7), of utf16 from_utf16 conn] assms(6) by blast
  have "path_file_name (fd_name d) \<noteq> None" if "d \<in> set ?ds" for d
  proof -
    obtain f where f: "f \<in> set fl" "d = described conn f" using \<open>d \<in> set ?ds\<close> by auto
    then obtain i where i: "i < length fl" "fl ! i = f" by (auto simp: in_set_conv_nth)
    then have "relative_root f = root" "below root (lf_path f)" using listed by (auto simp: listed_def anchored_def)
    then obtain rel where "rel_parts root (lf_path f) = rel" "rel \<noteq> []" "good_name (last rel)"
      by (auto simp: below_def rel_parts_def list_all_iff)
    then show ?thesis using described_name [of f conn] plain f \<open>relative_root f = root\<close> \<open>below root (lf_path f)\<close>
      by (simp add: path_file_name_def good_name_def)
  qed
  then obtain tree where tree: "build_tree t stream ?ds = Inr tree"
    using build_loop_succeeds [of ?ds] unfolding build_tree_def by blast
  then have up: "tree_upto t ?ds (length fl) tree" using build_tree_mirrors by fastforce
  define s' where "s' = s\<lparr>nodes := tree, generation := (generation s + 1) mod 2 ^ 64\<rparr>"
  have load: "load_file_list t stream ?ds s = (s', None)" by (simp add: load_file_list_def tree s'_def)
  have entry: "resolve s' 1 (rel_parts root (lf_path (fl ! i))) = Inr (i + 2)
      \<and> (\<exists>n. node_at s' (i + 2) = Some n \<and> fn_index n = i \<and> ia_size (attributes n) = lf_size (fl ! i)
           \<and> ia_kind (attributes n) = (if is_dir (fl ! i) then Directory else File))" if "i < length fl" for i
  proof
    have names: "fd_name (described conn f) = \<lparr>rooted = False, parts = rel_parts root (lf_path f)\<rparr>" if "f \<in> set fl" for f
    proof -
      obtain j where "j < length fl" "fl ! j = f" using \<open>f \<in> set fl\<close> by (auto simp: in_set_conv_nth)
      then show ?thesis using listed described_name [of f conn] plain [OF that] by (auto simp: listed_def anchored_def)
    qed
    have "length c \<le> MAX_NAME_LEN" if "d \<in> set ?ds" "c \<in> set (parts (fd_name d))" for d c
    proof -
      obtain f where f: "f \<in> set fl" "d = described conn f" using \<open>d \<in> set ?ds\<close> by auto
      then have "c \<in> set (parts (lf_path f))" using \<open>c \<in> _\<close> names [OF f(1)] by (auto simp: rel_parts_def dest: in_set_dropD)
      then show ?thesis using assms(5) f(1) by blast
    qed
    then show "resolve s' 1 (rel_parts root (lf_path (fl ! i))) = Inr (i + 2)"
      using resolve_entry [OF ordered, of t s' i] up names [of "fl ! i"] \<open>i < length fl\<close> by (simp add: s'_def)
    have "mirrors t ?ds i (tree ! (i + 1))" "length tree = length fl + 1" using up \<open>i < length fl\<close> by (auto simp: tree_upto_def)
    then show "\<exists>n. node_at s' (i + 2) = Some n \<and> fn_index n = i \<and> ia_size (attributes n) = lf_size (fl ! i)
           \<and> ia_kind (attributes n) = (if is_dir (fl ! i) then Directory else File)"
      using \<open>i < length fl\<close> by (simp add: node_at_def s'_def mirrors_def Attributes_from_description_def described_def Let_def)
  qed
  have "length (nodes s') = length fl + 1" using up by (simp add: s'_def tree_upto_def)
  with covers pdu load entry show ?thesis by blast
qed

text \<open>A folder with one file.\<close>

definition demo_root :: path where "demo_root = \<lparr>rooted = True, parts = [''s'']\<rparr>"

definition metadata_demo :: "path \<Rightarrow> Metadata option" where
  "metadata_demo p =
     (if p = child_path demo_root ''d''
      then Some \<lparr>md_len = 0, md_is_dir = True, md_readonly = False, md_modified = None, md_mode = 0\<rparr>
      else if p = child_path (child_path demo_root ''d'') ''a''
      then Some \<lparr>md_len = 5, md_is_dir = False, md_readonly = False, md_modified = None, md_mode = 0\<rparr> else None)"

definition read_dir_demo :: "path \<Rightarrow> string list option" where
  "read_dir_demo p = (if p = child_path demo_root ''d'' then Some [''a''] else None)"

definition copied_demo :: "bool \<Rightarrow> string list \<Rightarrow> nat \<Rightarrow> LocalFile" where
  "copied_demo dir rel len = \<lparr>relative_root = demo_root, lf_path = \<lparr>rooted = True, parts = ''s'' # rel\<rparr>, handle = None, lf_offset = 0,
     lf_name = replace_char (CHR ''/'') BACKSLASH (trim_start_slash (path_to_string \<lparr>rooted = True, parts = ''s'' # rel\<rparr>)),
     lf_size = len, last_write_time = 0, is_dir = dir, lf_perm = 0, read_only = False, hidden = False, system_file = False,
     archive = False, normal = (\<not> dir)\<rparr>"

lemma copied_demo_list:
  "construct_file_list metadata_demo read_dir_demo [child_path demo_root ''d'']
     = Some (Inr [copied_demo True [''d''] 0, copied_demo False [''d'', ''a''] 5])"
  by (simp add: construct_file_list_def path_parent_def constr_file_lst.simps try_open_def metadata_demo_def read_dir_demo_def
      child_path_def demo_root_def copied_demo_def path_to_string_def Let_def)

lemma copied_demo_transferable:
  assumes "rel \<in> {[''d''], [''d'', ''a'']}" "len < 2 ^ 64"
  shows "transferable utf16_demo from_utf16_demo (copied_demo dir rel len) \<and> BACKSLASH \<notin> set (wire_name (copied_demo dir rel len))"
proof -
  have w: "wire_name (copied_demo dir rel len) = join_slash rel"
    by (simp add: wire_name_def copied_demo_def demo_root_def path_strip_prefix_def path_to_string_def)
  have "length (utf16_demo (join_slash rel)) = 2 * length (join_slash rel)"
    by (simp add: utf16_demo_def length_concat comp_def sum_list_triv)
  then show ?thesis unfolding transferable_def Let_def w
    using assms from_utf16_demo_padded [of "join_slash rel" "260 - length (join_slash rel)"]
    by (auto simp: copied_demo_def BACKSLASH_def NUL_def diff_mult_distrib2)
qed

theorem clipboard_paste_faithful_witness:
  "\<exists>pdu ds s'. build_file_list_pdu utf16_demo [copied_demo True [''d''] 0, copied_demo False [''d'', ''a''] 5] = Some pdu
     \<and> parse_file_descriptors from_utf16_demo 7 pdu = Inr ds
     \<and> load_file_list 0 (\<lambda>_. 0) ds \<lparr>generation = 0, nodes = [], file_handle_counter = 0\<rparr> = (s', None)
     \<and> resolve s' 1 [''d'', ''a''] = Inr 3 \<and> map_option (\<lambda>n. (fn_index n, ia_size (attributes n))) (node_at s' 3) = Some (1, 5)"
proof -
  let ?fl = "[copied_demo True [''d''] 0, copied_demo False [''d'', ''a''] 5]"
  let ?s = "\<lparr>generation = 0, nodes = [], file_handle_counter = 0\<rparr>"
  have h1: "proper_dirs read_dir_demo" by (simp add: proper_dirs_def read_dir_demo_def good_name_def)
  have h2: "path_parent (hd [child_path demo_root ''d'']) = Some demo_root"
    by (simp add: path_parent_def child_path_def)
  have h3: "\<forall>p\<in>set [child_path demo_root ''d'']. below demo_root p \<and> length (rel_parts demo_root p) = 1"
    by (auto simp: below_def rel_parts_def child_path_def good_name_def)
  have h4: "\<forall>f\<in>set ?fl. \<forall>c\<in>set (parts (lf_path f)). length c \<le> MAX_NAME_LEN"
    by (simp add: copied_demo_def MAX_NAME_LEN_def)
  have h5: "\<forall>f\<in>set ?fl. transferable utf16_demo from_utf16_demo f \<and> BACKSLASH \<notin> set (wire_name f)" "length ?fl < 2 ^ 32"
    using copied_demo_transferable by simp_all
  note main = clipboard_paste_faithful [OF copied_demo_list h1 h2 h3 h4 h5, of 7 0 "\<lambda>_. 0" ?s]
  obtain pdu ds s' where s': "build_file_list_pdu utf16_demo ?fl = Some pdu" "parse_file_descriptors from_utf16_demo 7 pdu = Inr ds"
    "load_file_list 0 (\<lambda>_. 0) ds ?s = (s', None)"
    and e: "\<And>i. i < length ?fl \<Longrightarrow> resolve s' 1 (rel_parts demo_root (lf_path (?fl ! i))) = Inr (i + 2)
          \<and> (\<exists>n. node_at s' (i + 2) = Some n \<and> fn_index n = i \<and> ia_size (attributes n) = lf_size (?fl ! i))"
    using conjunct2 [OF conjunct2 [OF main]] by blast
  have "resolve s' 1 [''d'', ''a''] = Inr 3 \<and> map_option (\<lambda>n. (fn_index n, ia_size (attributes n))) (node_at s' 3) = Some (1, 5)"
    using e [of 1] by (auto simp: copied_demo_def rel_parts_def demo_root_def numeral_3_eq_3)
  with s' show ?thesis by blast
qed

section \<open>Replies of an earlier read\<close>

text \<open>
  A reply names only the stream, not the range it answers: when a read gave up after its time was over, the reply
  that comes late is returned as the data of the next read of that file.
\<close>

lemma late_reply_answers_next_read:
  assumes "node_at s ino = Some n" "have_handler fh n" "ia_kind (attributes n) = File" "\<not> gc (file_handlers n)" "send 0"
  shows "fuse_read send ino fh [] s = (Inl EIO, [])"
    and "fuse_read send ino fh [FileContentsResponse 1 (fn_stream_id n) late, FileContentsResponse 1 (fn_stream_id n) wanted] s
      = (Inr late, [FileContentsResponse 1 (fn_stream_id n) wanted])"
  using assms by (simp_all add: fuse_read_def read_node_def)

end
