(* ===== verification/FramePacing.thy ===== *)
theory FramePacing
  imports Messages "HOL-Library.Multiset"
begin

text \<open>
  Pacing and measuring of the host's video loop (\<^verbatim>\<open>src/src/server/video_service.rs\<close>): the pacer of the
  movie mode, the bounded samples of durations with their percentiles, the window that feeds the cadence
  controller, the counters of the diagnosis, and the controller that waits until a frame was fetched. The
  registries of notifiers are part of the state; the times at which things happen are arguments.
\<close>

section \<open>The movie pacer\<close>

definition DEFAULT_ENCODER_FPS :: nat where "DEFAULT_ENCODER_FPS = 30"
definition MAX_ENCODER_FPS :: nat where "MAX_ENCODER_FPS = 120"

definition normalized_encoder_fps :: "nat \<Rightarrow> nat" where
  "normalized_encoder_fps fps = (if 1 \<le> fps \<and> fps \<le> MAX_ENCODER_FPS then fps else DEFAULT_ENCODER_FPS)"

record MoviePacerDecision =
  scheduled_at :: instant
  missed_slots :: nat

record MovieFramePacer =
  period :: duration
  next_deadline :: instant
  skipped_slots :: nat

definition Pacer_new :: "nat \<Rightarrow> instant \<Rightarrow> MovieFramePacer" where
  "Pacer_new fps now = \<lparr>period = 1000000000 div normalized_encoder_fps fps, next_deadline = now, skipped_slots = 0\<rparr>"

text \<open>A period of zero gives no missed slots, as \<open>checked_div\<close> with its default does.\<close>

definition plan_at :: "instant \<Rightarrow> MovieFramePacer \<Rightarrow> MovieFramePacer \<times> MoviePacerDecision" where
  "plan_at now p =
     (let missed = (if next_deadline p < now then min (since now (next_deadline p) div period p) u32_max else 0);
          sched = next_deadline p + period p * missed
      in (p\<lparr>next_deadline := sched + period p,
            skipped_slots := (if missed > 0 then sat_add u64_max (skipped_slots p) missed else skipped_slots p)\<rparr>,
          \<lparr>scheduled_at = sched, missed_slots = missed\<rparr>))"

definition Pacer_set_fps :: "nat \<Rightarrow> instant \<Rightarrow> MovieFramePacer \<Rightarrow> MovieFramePacer" where
  "Pacer_set_fps fps now p =
     (let d = 1000000000 div normalized_encoder_fps fps in p\<lparr>period := d, next_deadline := now + d\<rparr>)"

text \<open>The instant until which the loop sleeps after planning; \<open>t\<close> is the time after the planning.\<close>

definition wait_next :: "instant \<Rightarrow> instant \<Rightarrow> MovieFramePacer \<Rightarrow> MovieFramePacer \<times> MoviePacerDecision \<times> duration" where
  "wait_next now t p =
     (case plan_at now p of (p', d) \<Rightarrow> (p', d, if t < scheduled_at d then scheduled_at d - t else 0))"

lemma encoder_fps_range: "1 \<le> normalized_encoder_fps fps" "normalized_encoder_fps fps \<le> 120"
  by (simp_all add: normalized_encoder_fps_def MAX_ENCODER_FPS_def DEFAULT_ENCODER_FPS_def)

lemma pacer_period_pos: "0 < period (Pacer_new fps now)" "0 < period (Pacer_set_fps fps now p)"
proof -
  have "normalized_encoder_fps fps \<le> 1000000000" using encoder_fps_range(2) by (rule order_trans) simp
  then have "0 < 1000000000 div normalized_encoder_fps fps" using encoder_fps_range(1) [of fps] by (simp add: div_greater_zero_iff Suc_le_eq)
  then show "0 < period (Pacer_new fps now)" "0 < period (Pacer_set_fps fps now p)"
    by (simp_all add: Pacer_new_def Pacer_set_fps_def Let_def)
qed

primrec plan_all :: "instant list \<Rightarrow> MovieFramePacer \<Rightarrow> MovieFramePacer \<times> MoviePacerDecision list" where
  "plan_all [] p = (p, [])"
| "plan_all (now # nows) p = (let (p1, d) = plan_at now p; (p2, ds) = plan_all nows p1 in (p2, d # ds))"

lemma plan_at_facts:
  assumes "plan_at now p = (p', d)"
  shows "period p' = period p" "next_deadline p' = scheduled_at d + period p"
    and "scheduled_at d = next_deadline p + period p * missed_slots d"
    and "skipped_slots p \<le> u64_max \<Longrightarrow> skipped_slots p' = sat_add u64_max (skipped_slots p) (missed_slots d)"
    and "0 < period p \<Longrightarrow> now < next_deadline p + period p * 2 ^ 32 \<Longrightarrow>
           now < scheduled_at d + period p \<and> (0 < missed_slots d \<longrightarrow> scheduled_at d \<le> now)"
proof -
  show "period p' = period p" "next_deadline p' = scheduled_at d + period p"
    "scheduled_at d = next_deadline p + period p * missed_slots d"
    using assms by (auto simp: plan_at_def Let_def)
  show "skipped_slots p \<le> u64_max \<Longrightarrow> skipped_slots p' = sat_add u64_max (skipped_slots p) (missed_slots d)"
    using assms by (auto simp: plan_at_def Let_def sat_add_def)
  assume pos: "0 < period p" and near: "now < next_deadline p + period p * 2 ^ 32"
  show "now < scheduled_at d + period p \<and> (0 < missed_slots d \<longrightarrow> scheduled_at d \<le> now)"
  proof (cases "next_deadline p < now")
    case True
    define late where "late = now - next_deadline p"
    have "late < period p * 2 ^ 32" using near True by (simp add: late_def)
    then have "late div period p < 2 ^ 32" using pos by (simp add: div_less_iff_less_mult mult.commute)
    then have m: "missed_slots d = late div period p" using assms True by (auto simp: plan_at_def Let_def late_def since_def)
    have "next_deadline p + period p * (late div period p) \<le> next_deadline p + late" by simp
    also have "next_deadline p + late = now" using True by (simp add: late_def)
    finally have "next_deadline p + period p * (late div period p) \<le> now" .
    moreover have "late < period p * (late div period p) + period p"
      using pos by (metis add.commute mult.commute dividend_less_div_times)
    ultimately show ?thesis using assms True m by (auto simp: plan_at_def Let_def late_def since_def)
  next
    case False
    then show ?thesis using assms pos by (auto simp: plan_at_def Let_def)
  qed
qed

text \<open>
  The movie pacer keeps its grid. Whatever the times at which the loop asks, every planned frame lies on the
  grid of the period, one slot after the previous one plus the slots that are counted as missed; a plan is never a
  whole period behind the clock, it skips slots only up to the present, and the total of skipped slots is exact
  up to the saturation of its counter. The loop must not sleep through \<open>2 ^ 32\<close> slots at once.
\<close>

theorem movie_pacer_grid:
  assumes "plan_all nows p = (p', ds)" "0 < period p" "skipped_slots p \<le> u64_max"
    and "\<And>now. now \<in> set nows \<Longrightarrow> now < next_deadline p + period p * 2 ^ 32" and "i < length nows"
  shows "scheduled_at (ds ! i) = next_deadline p + period p * (i + sum_list (map missed_slots (take (Suc i) ds)))
    \<and> nows ! i < scheduled_at (ds ! i) + period p \<and> (0 < missed_slots (ds ! i) \<longrightarrow> scheduled_at (ds ! i) \<le> nows ! i)
    \<and> skipped_slots p' = sat_add u64_max (skipped_slots p) (sum_list (map missed_slots ds))"
  using assms
proof (induction nows arbitrary: p ds i)
  case (Cons now nows)
  obtain p1 d ds1 where step: "plan_at now p = (p1, d)" "plan_all nows p1 = (p', ds1)" "ds = d # ds1"
    using Cons.prems(1) by (auto simp: Let_def split: prod.splits)
  note facts = plan_at_facts [OF step(1)]
  have later: "next_deadline p \<le> next_deadline p1" using facts(2,3) by simp
  have near: "\<And>t. t \<in> set nows \<Longrightarrow> t < next_deadline p1 + period p1 * 2 ^ 32"
    using Cons.prems(4) later facts(1) by (metis add_le_mono1 less_le_trans list.set_intros(2))
  have sat: "skipped_slots p1 = sat_add u64_max (skipped_slots p) (missed_slots d)" using facts(4) Cons.prems(3) .
  have total: "skipped_slots p' = sat_add u64_max (skipped_slots p) (sum_list (map missed_slots ds))"
  proof (cases nows)
    case Nil
    then show ?thesis using step sat by simp
  next
    case (Cons t ts)
    then have "skipped_slots p' = sat_add u64_max (skipped_slots p1) (sum_list (map missed_slots ds1))"
      using Cons.IH [OF step(2) _ _ near, of 0] facts(1) \<open>0 < period p\<close> sat by simp
    then show ?thesis using sat step(3) by (simp add: sat_add_def)
  qed
  show ?case
  proof (cases i)
    case 0
    then show ?thesis using facts(3,5) Cons.prems(2,4) total step(3) by simp
  next
    case (Suc j)
    have "j < length nows" using Cons.prems(5) Suc by simp
    have "0 < period p1" "skipped_slots p1 \<le> u64_max" using facts(1) Cons.prems(2) sat by simp_all
    note IH = Cons.IH [OF step(2) this near \<open>j < length nows\<close>]
    have grid: "scheduled_at (ds1 ! j) = next_deadline p1 + period p1 * (j + sum_list (map missed_slots (take (Suc j) ds1)))"
      and now: "nows ! j < scheduled_at (ds1 ! j) + period p1" "0 < missed_slots (ds1 ! j) \<longrightarrow> scheduled_at (ds1 ! j) \<le> nows ! j"
      using IH by blast+
    have "scheduled_at (ds1 ! j) = next_deadline p + period p * (i + sum_list (map missed_slots (take (Suc i) ds)))"
      unfolding grid using facts(1,2,3) Suc step(3) by (simp add: algebra_simps)
    then show ?thesis using now facts(1) Suc step(3) total by simp
  qed
qed simp

theorem movie_pacer_grid_witness:
  "map scheduled_at (snd (plan_all [5, 70, 100] \<lparr>period = 10, next_deadline = 0, skipped_slots = 0\<rparr>)) = [0, 70, 100]
    \<and> scheduled_at (snd (plan_all [5, 70, 100] \<lparr>period = 10, next_deadline = 0, skipped_slots = 0\<rparr>) ! 1) = 0 + 10 * (1 + 6)"
proof -
  let ?p = "\<lparr>period = 10, next_deadline = 0, skipped_slots = 0\<rparr>"
  have run: "plan_all [5, 70, 100] ?p = (\<lparr>period = 10, next_deadline = 110, skipped_slots = 8\<rparr>,
      [\<lparr>scheduled_at = 0, missed_slots = 0\<rparr>, \<lparr>scheduled_at = 70, missed_slots = 6\<rparr>, \<lparr>scheduled_at = 100, missed_slots = 2\<rparr>])"
    by (simp add: plan_at_def since_def sat_add_def Let_def)
  have "t < next_deadline ?p + period ?p * 2 ^ 32" if "t \<in> set [5, 70, 100]" for t using that by auto
  then have "scheduled_at ([\<lparr>scheduled_at = 0, missed_slots = 0\<rparr>, \<lparr>scheduled_at = 70, missed_slots = 6\<rparr>, \<lparr>scheduled_at = 100, missed_slots = 2\<rparr>] ! 1)
      = next_deadline ?p + period ?p * (1 + 6)"
    using movie_pacer_grid [OF run _ _ _, of 1] by simp
  then show ?thesis unfolding run by simp
qed

section \<open>Samples of durations\<close>

definition HOST_VIDEO_DIAG_SAMPLE_CAPACITY :: nat where "HOST_VIDEO_DIAG_SAMPLE_CAPACITY = 512"
definition HOST_VIDEO_DIAG_INTERVAL :: duration where "HOST_VIDEO_DIAG_INTERVAL = from_secs 5"
definition MOVIE_CADENCE_SAMPLE_INTERVAL :: duration where "MOVIE_CADENCE_SAMPLE_INTERVAL = from_millis 500"

record DurationSummary =
  p50_us :: nat
  p95_us :: nat
  max_us :: nat

record DurationSamples =
  samples_us :: "nat list"
  next_index :: nat

definition DurationSamples_default :: DurationSamples where
  "DurationSamples_default = \<lparr>samples_us = [], next_index = 0\<rparr>"

definition as_micros_u64 :: "duration \<Rightarrow> nat" where
  "as_micros_u64 d = min (d div 1000) u64_max"

definition record_duration :: "duration \<Rightarrow> DurationSamples \<Rightarrow> DurationSamples" where
  "record_duration d s =
     (if length (samples_us s) < HOST_VIDEO_DIAG_SAMPLE_CAPACITY then s\<lparr>samples_us := samples_us s @ [as_micros_u64 d]\<rparr>
      else s\<lparr>samples_us := (samples_us s)[next_index s := as_micros_u64 d],
             next_index := (next_index s + 1) mod HOST_VIDEO_DIAG_SAMPLE_CAPACITY\<rparr>)"

definition percentile_us :: "nat list \<Rightarrow> nat \<Rightarrow> nat" where
  "percentile_us ordered percentile =
     (if ordered = [] then 0
      else let rank = (length ordered * percentile + 99) div 100 in ordered ! min (rank - 1) (length ordered - 1))"

definition summary :: "DurationSamples \<Rightarrow> DurationSummary" where
  "summary s =
     (if samples_us s = [] then \<lparr>p50_us = 0, p95_us = 0, max_us = 0\<rparr>
      else let ordered = sort (samples_us s)
           in \<lparr>p50_us = percentile_us ordered 50, p95_us = percentile_us ordered 95, max_us = last ordered\<rparr>)"

text \<open>The samples are a ring that starts at \<open>next_index\<close> when it is full.\<close>

definition window_of :: "DurationSamples \<Rightarrow> nat list" where
  "window_of s = drop (next_index s) (samples_us s) @ take (next_index s) (samples_us s)"

definition last_of :: "nat \<Rightarrow> 'a list \<Rightarrow> 'a list" where
  "last_of n xs = drop (length xs - n) xs"

definition samples_ok :: "DurationSamples \<Rightarrow> bool" where
  "samples_ok s \<longleftrightarrow> length (samples_us s) \<le> HOST_VIDEO_DIAG_SAMPLE_CAPACITY \<and> next_index s < HOST_VIDEO_DIAG_SAMPLE_CAPACITY
     \<and> (length (samples_us s) < HOST_VIDEO_DIAG_SAMPLE_CAPACITY \<longrightarrow> next_index s = 0)"

lemma last_of_snoc: "last_of n (xs @ [x]) = (if length xs < n then xs @ [x] else drop 1 (last_of n xs @ [x]))"
  by (cases "n = 0") (auto simp: last_of_def Suc_diff_le)

lemma ring_step:
  assumes "i < length xs" "length xs = n"
  shows "drop ((i + 1) mod n) (xs[i := x]) @ take ((i + 1) mod n) (xs[i := x]) = drop 1 (drop i xs @ take i xs) @ [x]"
proof (cases "i + 1 = n")
  case True
  have "xs[i := x] = take i xs @ [x]" using assms True by (simp add: upd_conv_take_nth_drop)
  moreover have "drop 1 (drop i xs) = []" using assms True by simp
  ultimately show ?thesis using assms True by (simp add: drop_Suc_Cons)
next
  case False
  then have "i + 1 < n" using assms by simp
  then have "(i + 1) mod n = i + 1" by simp
  moreover have "drop (i + 1) (xs[i := x]) = drop (i + 1) xs" by simp
  moreover have "take (i + 1) (xs[i := x]) = take i xs @ [x]" using assms by (simp add: take_Suc_conv_app_nth)
  moreover have "drop 1 (drop i xs) = drop (i + 1) xs" by simp
  ultimately show ?thesis using assms \<open>i + 1 < n\<close> by (simp add: drop_append)
qed

lemma record_duration_window:
  assumes "samples_ok s" "window_of s = last_of HOST_VIDEO_DIAG_SAMPLE_CAPACITY xs"
    and "length (samples_us s) = min (length xs) HOST_VIDEO_DIAG_SAMPLE_CAPACITY"
  shows "samples_ok (record_duration d s)"
    and "window_of (record_duration d s) = last_of HOST_VIDEO_DIAG_SAMPLE_CAPACITY (xs @ [as_micros_u64 d])"
    and "length (samples_us (record_duration d s)) = min (length (xs @ [as_micros_u64 d])) HOST_VIDEO_DIAG_SAMPLE_CAPACITY"
proof -
  let ?n = HOST_VIDEO_DIAG_SAMPLE_CAPACITY
  have pos: "0 < ?n" by (simp add: HOST_VIDEO_DIAG_SAMPLE_CAPACITY_def)
  show "samples_ok (record_duration d s)" using assms(1) pos by (auto simp: samples_ok_def record_duration_def)
  show "length (samples_us (record_duration d s)) = min (length (xs @ [as_micros_u64 d])) ?n"
    using assms(3) by (auto simp: record_duration_def)
  show "window_of (record_duration d s) = last_of ?n (xs @ [as_micros_u64 d])"
  proof (cases "length (samples_us s) < ?n")
    case True
    then have "next_index s = 0" "length xs < ?n" using assms(1,3) by (auto simp: samples_ok_def)
    then show ?thesis using True assms(2) by (simp add: record_duration_def window_of_def last_of_snoc) (simp add: last_of_def)
  next
    case False
    then have full: "length (samples_us s) = ?n" "\<not> length xs < ?n" using assms(1,3) by (auto simp: samples_ok_def)
    then have "window_of (record_duration d s) = drop 1 (window_of s) @ [as_micros_u64 d]"
      using ring_step [of "next_index s" "samples_us s" ?n "as_micros_u64 d"] assms(1)
      by (simp add: record_duration_def window_of_def samples_ok_def)
    moreover have "window_of s \<noteq> []" using full pos by (auto simp: window_of_def)
    ultimately show ?thesis using full assms(2) by (simp add: last_of_snoc) (simp add: last_of_def)
  qed
qed

lemma record_all_window:
  "samples_ok (fold record_duration ds DurationSamples_default)
   \<and> window_of (fold record_duration ds DurationSamples_default) = last_of HOST_VIDEO_DIAG_SAMPLE_CAPACITY (map as_micros_u64 ds)
   \<and> length (samples_us (fold record_duration ds DurationSamples_default)) = min (length (map as_micros_u64 ds)) HOST_VIDEO_DIAG_SAMPLE_CAPACITY"
proof (induction ds rule: rev_induct)
  case Nil
  show ?case by (simp add: samples_ok_def DurationSamples_default_def window_of_def last_of_def HOST_VIDEO_DIAG_SAMPLE_CAPACITY_def)
next
  case (snoc d ds)
  then show ?case using record_duration_window [of "fold record_duration ds DurationSamples_default" "map as_micros_u64 ds" d] by simp
qed

lemma mset_window: "mset (window_of s) = mset (samples_us s)"
  unfolding window_of_def by (metis append_take_drop_id mset_append union_commute)

text \<open>The nearest rank: at least the given share of the samples is not larger, and the share below is too small.\<close>

lemma percentile_rank:
  assumes "sorted xs" "xs \<noteq> []" "1 \<le> q" "q \<le> 100"
  shows "percentile_us xs q \<in> set xs"
    and "length xs * q \<le> 100 * length (filter (\<lambda>x. x \<le> percentile_us xs q) xs)"
    and "100 * length (filter (\<lambda>x. x < percentile_us xs q) xs) < length xs * q"
proof -
  let ?n = "length xs"
  define r where "r = (?n * q + 99) div 100"
  have n: "0 < ?n" using assms(2) by simp
  have ceil: "1 \<le> (m + 99) div 100 \<and> (m + 99) div 100 * 100 \<le> m + 99 \<and> m \<le> (m + 99) div 100 * 100" if "0 < m" for m :: nat
    using that div_mult_mod_eq [of "m + 99" 100] mod_less_divisor [of 100 "m + 99"] by linarith
  have "0 < ?n * q" using n assms(3) by simp
  then have r1: "1 \<le> r" "r * 100 \<le> ?n * q + 99" "?n * q \<le> r * 100" using ceil [of "?n * q"] by (simp_all add: r_def)
  have rn: "r \<le> ?n"
  proof -
    have "?n * q \<le> ?n * 100" using assms(4) by (rule mult_le_mono2)
    then have "?n * q + 99 < ?n * 100 + 100" by linarith
    then have "?n * q + 99 < (?n + 1) * 100" by simp
    then show ?thesis unfolding r_def by (simp add: less_mult_imp_div_less less_Suc_eq_le [symmetric])
  qed
  define k where "k = r - 1"
  have k: "k < ?n" using r1(1) rn by (simp add: k_def)
  have v: "percentile_us xs q = xs ! k" using assms(2) rn by (simp add: percentile_us_def Let_def r_def [symmetric] k_def min_def)
  show "percentile_us xs q \<in> set xs" unfolding v using k by simp
  have "filter (\<lambda>x. x \<le> xs ! k) xs = filter (\<lambda>x. x \<le> xs ! k) (take r xs) @ filter (\<lambda>x. x \<le> xs ! k) (drop r xs)"
    by (metis append_take_drop_id filter_append)
  moreover have "x \<le> xs ! k" if "x \<in> set (take r xs)" for x
    using that assms(1) k by (auto simp: in_set_conv_nth k_def intro!: sorted_nth_mono)
  then have "filter (\<lambda>x. x \<le> xs ! k) (take r xs) = take r xs" by (simp add: filter_id_conv)
  ultimately have "r \<le> length (filter (\<lambda>x. x \<le> xs ! k) xs)" using rn by simp
  then show "?n * q \<le> 100 * length (filter (\<lambda>x. x \<le> percentile_us xs q) xs)" unfolding v using r1(3) by linarith
  have "filter (\<lambda>x. x < xs ! k) xs = filter (\<lambda>x. x < xs ! k) (take k xs) @ filter (\<lambda>x. x < xs ! k) (drop k xs)"
    by (metis append_take_drop_id filter_append)
  moreover have "\<not> x < xs ! k" if "x \<in> set (drop k xs)" for x
    using that assms(1) by (auto simp: in_set_conv_nth not_less intro!: sorted_nth_mono)
  then have "filter (\<lambda>x. x < xs ! k) (drop k xs) = []" by (simp add: filter_empty_conv)
  ultimately have "length (filter (\<lambda>x. x < xs ! k) xs) \<le> k" using k by (simp add: le_trans [OF length_filter_le])
  then show "100 * length (filter (\<lambda>x. x < percentile_us xs q) xs) < ?n * q" unfolding v using r1 by (simp add: k_def)
qed

lemma sorted_last_Max:
  assumes "sorted xs" "xs \<noteq> []"
  shows "last xs = Max (set xs)"
proof (rule Max_eqI [symmetric])
  show "last xs \<in> set xs" using assms(2) by simp
  fix y assume "y \<in> set xs"
  then obtain i where "i < length xs" "xs ! i = y" by (auto simp: in_set_conv_nth)
  then show "y \<le> last xs" using assms by (auto simp: last_conv_nth intro!: sorted_nth_mono)
qed simp

lemma length_filter_mset: "mset xs = mset ys \<Longrightarrow> length (filter P xs) = length (filter P ys)"
  by (metis mset_filter size_mset)

text \<open>
  The summary of the durations is exact over the last 512 samples: whatever was recorded, the median and the 95th
  percentile are samples of that window by nearest rank, and the maximum is its largest sample.
\<close>

theorem duration_summary_exact:
  assumes "ds \<noteq> []"
  defines "w \<equiv> last_of HOST_VIDEO_DIAG_SAMPLE_CAPACITY (map as_micros_u64 ds)"
  defines "r \<equiv> summary (fold record_duration ds DurationSamples_default)"
  shows "length w = min (length ds) HOST_VIDEO_DIAG_SAMPLE_CAPACITY
    \<and> p50_us r \<in> set w \<and> length w * 50 \<le> 100 * length (filter (\<lambda>x. x \<le> p50_us r) w) \<and> 100 * length (filter (\<lambda>x. x < p50_us r) w) < length w * 50
    \<and> p95_us r \<in> set w \<and> length w * 95 \<le> 100 * length (filter (\<lambda>x. x \<le> p95_us r) w) \<and> 100 * length (filter (\<lambda>x. x < p95_us r) w) < length w * 95
    \<and> max_us r = Max (set w)"
proof -
  define s where "s = fold record_duration ds DurationSamples_default"
  have w: "window_of s = w" "length (samples_us s) = min (length ds) HOST_VIDEO_DIAG_SAMPLE_CAPACITY"
    using record_all_window [of ds] by (simp_all add: s_def w_def)
  have ms: "mset (sort (samples_us s)) = mset w" using mset_window [of s] w(1) by simp
  have ne: "samples_us s \<noteq> []" using w(2) assms(1) by (auto simp: HOST_VIDEO_DIAG_SAMPLE_CAPACITY_def min_def split: if_splits)
  have len: "length w = length (samples_us s)" using arg_cong [OF mset_window [of s], of size] w(1) by simp
  have r: "r = \<lparr>p50_us = percentile_us (sort (samples_us s)) 50, p95_us = percentile_us (sort (samples_us s)) 95, max_us = last (sort (samples_us s))\<rparr>"
    using ne by (simp add: r_def summary_def s_def [symmetric] Let_def)
  have "set (sort (samples_us s)) = set w" using ms mset_eq_setD by blast
  moreover have "length (sort (samples_us s)) = length w" using len by simp
  moreover have "sort (samples_us s) \<noteq> []" using ne by (metis length_0_conv length_sort)
  moreover have "last (sort (samples_us s)) = Max (set (sort (samples_us s)))"
    using sorted_last_Max [OF sorted_sort] \<open>sort (samples_us s) \<noteq> []\<close> by blast
  ultimately show ?thesis
    using percentile_rank [of "sort (samples_us s)" 50] percentile_rank [of "sort (samples_us s)" 95] len w(2)
      length_filter_mset [OF ms] unfolding r by simp
qed

theorem duration_summary_exact_witness:
  "max_us (summary (fold record_duration [5000, 2000, 9000] DurationSamples_default)) = Max {5, 2, 9}
    \<and> p50_us (summary (fold record_duration [5000, 2000, 9000] DurationSamples_default)) \<in> {5, 2, 9}"
  using duration_summary_exact [of "[5000, 2000, 9000]"]
  by (simp add: last_of_def as_micros_u64_def HOST_VIDEO_DIAG_SAMPLE_CAPACITY_def)

section \<open>The window of the cadence controller\<close>

record MovieHostCadenceMetrics =
  pipeline_p95_us :: nat
  mh_iterations :: nat
  mh_missed_slots :: nat

record MovieHostCadenceWindow =
  started_at :: instant
  mw_iterations :: nat
  mw_missed_slots :: nat
  mw_capture :: DurationSamples
  mw_pipeline :: DurationSamples

definition CadenceWindow_new :: "instant \<Rightarrow> MovieHostCadenceWindow" where
  "CadenceWindow_new now = \<lparr>started_at = now, mw_iterations = 0, mw_missed_slots = 0, mw_capture = DurationSamples_default,
     mw_pipeline = DurationSamples_default\<rparr>"

definition record_iteration :: "MovieHostCadenceWindow \<Rightarrow> MovieHostCadenceWindow" where
  "record_iteration w = w\<lparr>mw_iterations := sat_add u64_max (mw_iterations w) 1\<rparr>"

definition record_missed_slots :: "nat \<Rightarrow> MovieHostCadenceWindow \<Rightarrow> MovieHostCadenceWindow" where
  "record_missed_slots n w = w\<lparr>mw_missed_slots := sat_add u64_max (mw_missed_slots w) n\<rparr>"

definition record_pipeline :: "duration \<Rightarrow> MovieHostCadenceWindow \<Rightarrow> MovieHostCadenceWindow" where
  "record_pipeline d w = w\<lparr>mw_pipeline := record_duration d (mw_pipeline w)\<rparr>"

definition record_capture :: "duration \<Rightarrow> MovieHostCadenceWindow \<Rightarrow> MovieHostCadenceWindow" where
  "record_capture d w = w\<lparr>mw_capture := record_duration d (mw_capture w)\<rparr>"

definition take_if_due :: "instant \<Rightarrow> MovieHostCadenceWindow \<Rightarrow> MovieHostCadenceWindow \<times> MovieHostCadenceMetrics option" where
  "take_if_due now w =
     (if since now (started_at w) < MOVIE_CADENCE_SAMPLE_INTERVAL then (w, None)
      else (\<lparr>started_at = now, mw_iterations = 0, mw_missed_slots = 0, mw_capture = DurationSamples_default, mw_pipeline = DurationSamples_default\<rparr>,
            Some \<lparr>pipeline_p95_us = sat_add u64_max (p95_us (summary (mw_capture w))) (p95_us (summary (mw_pipeline w))),
                  mh_iterations = mw_iterations w, mh_missed_slots = mw_missed_slots w\<rparr>))"

text \<open>What the loop records, in order; the metrics of a window are those of the records since the last one.\<close>

datatype cadence_event = Iteration | Missed nat | Pipeline duration | Capture duration | Sample instant

fun cadence_step :: "cadence_event \<Rightarrow> MovieHostCadenceWindow \<Rightarrow> MovieHostCadenceWindow \<times> MovieHostCadenceMetrics list" where
  "cadence_step Iteration w = (record_iteration w, [])"
| "cadence_step (Missed n) w = (record_missed_slots n w, [])"
| "cadence_step (Pipeline d) w = (record_pipeline d w, [])"
| "cadence_step (Capture d) w = (record_capture d w, [])"
| "cadence_step (Sample now) w = (case take_if_due now w of (w', m) \<Rightarrow> (w', case m of None \<Rightarrow> [] | Some x \<Rightarrow> [x]))"

primrec cadence_run :: "cadence_event list \<Rightarrow> MovieHostCadenceWindow \<Rightarrow> MovieHostCadenceWindow \<times> MovieHostCadenceMetrics list" where
  "cadence_run [] w = (w, [])"
| "cadence_run (e # es) w = (let (w1, ms) = cadence_step e w; (w2, ms') = cadence_run es w1 in (w2, ms @ ms'))"

text \<open>Every missed slot is reported once: what the metrics report and what is still in the window add up.\<close>

definition missed_in :: "cadence_event list \<Rightarrow> nat" where
  "missed_in es = sum_list (map (\<lambda>e. case e of Missed n \<Rightarrow> n | _ \<Rightarrow> 0) es)"

lemma missed_slots_reported_once:
  assumes "cadence_run es w = (w', ms)" "mw_missed_slots w + missed_in es \<le> u64_max"
  shows "mw_missed_slots w + missed_in es = mw_missed_slots w' + sum_list (map mh_missed_slots ms)"
  using assms
proof (induction es arbitrary: w ms)
  case (Cons e es)
  obtain w1 m1 m2 where step: "cadence_step e w = (w1, m1)" "cadence_run es w1 = (w', m2)" "ms = m1 @ m2"
    using Cons.prems(1) by (auto simp: Let_def split: prod.splits)
  have "mw_missed_slots w + (case e of Missed n \<Rightarrow> n | _ \<Rightarrow> 0) = mw_missed_slots w1 + sum_list (map mh_missed_slots m1)"
    using step(1) Cons.prems(2)
    by (cases e) (auto simp: record_iteration_def record_missed_slots_def record_pipeline_def record_capture_def take_if_due_def
        missed_in_def sat_add_exact split: if_splits prod.splits)
  moreover from this have "mw_missed_slots w1 + missed_in es \<le> u64_max" using Cons.prems(2) by (simp add: missed_in_def)
  ultimately show ?case using Cons.IH [OF step(2)] step(3) by (simp add: missed_in_def)
qed (simp add: missed_in_def)

section \<open>Counters of the diagnosis\<close>

record HostVideoDiagnostics =
  last_log :: instant
  last_loop_started :: "instant option"
  last_valid_capture :: "instant option"
  loop_iterations :: nat
  pacing_missed_slots :: nat
  encoder_recreations :: nat
  valid_capture :: nat
  invalid_capture :: nat
  would_block :: nat
  encode_calls :: nat
  repeat_encode_calls :: nat
  sent_batches :: nat
  sent_targets :: nat
  empty_send_results :: nat
  wait_frames :: nat
  wait_timeouts :: nat
  wait_total_ms :: nat
  wait_max_ms :: nat
  loop_intervals :: DurationSamples
  capture_intervals :: DurationSamples
  capture_calls :: DurationSamples
  encode_pipelines :: DurationSamples
  ack_waits :: DurationSamples
  loop_totals :: DurationSamples

definition Diagnostics_new :: "instant \<Rightarrow> HostVideoDiagnostics" where
  "Diagnostics_new now =
     \<lparr>last_log = now, last_loop_started = None, last_valid_capture = None, loop_iterations = 0, pacing_missed_slots = 0,
      encoder_recreations = 0, valid_capture = 0, invalid_capture = 0, would_block = 0, encode_calls = 0, repeat_encode_calls = 0,
      sent_batches = 0, sent_targets = 0, empty_send_results = 0, wait_frames = 0, wait_timeouts = 0, wait_total_ms = 0, wait_max_ms = 0,
      loop_intervals = DurationSamples_default, capture_intervals = DurationSamples_default, capture_calls = DurationSamples_default,
      encode_pipelines = DurationSamples_default, ack_waits = DurationSamples_default, loop_totals = DurationSamples_default\<rparr>"

definition interval_to :: "instant \<Rightarrow> instant option \<Rightarrow> DurationSamples \<Rightarrow> DurationSamples" where
  "interval_to now previous s = (case previous of None \<Rightarrow> s | Some t \<Rightarrow> record_duration (since now t) s)"

definition record_loop_start :: "instant \<Rightarrow> HostVideoDiagnostics \<Rightarrow> HostVideoDiagnostics" where
  "record_loop_start now h =
     h\<lparr>loop_iterations := loop_iterations h + 1, last_loop_started := Some now,
       loop_intervals := interval_to now (last_loop_started h) (loop_intervals h)\<rparr>"

definition record_valid_capture :: "instant \<Rightarrow> HostVideoDiagnostics \<Rightarrow> HostVideoDiagnostics" where
  "record_valid_capture now h =
     h\<lparr>valid_capture := valid_capture h + 1, last_valid_capture := Some now,
       capture_intervals := interval_to now (last_valid_capture h) (capture_intervals h)\<rparr>"

definition record_capture_call :: "duration \<Rightarrow> HostVideoDiagnostics \<Rightarrow> HostVideoDiagnostics" where
  "record_capture_call d h = h\<lparr>capture_calls := record_duration d (capture_calls h)\<rparr>"

definition record_encode_pipeline :: "duration \<Rightarrow> HostVideoDiagnostics \<Rightarrow> HostVideoDiagnostics" where
  "record_encode_pipeline d h = h\<lparr>encode_pipelines := record_duration d (encode_pipelines h)\<rparr>"

definition record_loop_total :: "duration \<Rightarrow> HostVideoDiagnostics \<Rightarrow> HostVideoDiagnostics" where
  "record_loop_total d h = h\<lparr>loop_totals := record_duration d (loop_totals h)\<rparr>"

definition record_pacing_missed_slots :: "nat \<Rightarrow> HostVideoDiagnostics \<Rightarrow> HostVideoDiagnostics" where
  "record_pacing_missed_slots n h = h\<lparr>pacing_missed_slots := sat_add u64_max (pacing_missed_slots h) n\<rparr>"

definition record_encoder_recreation :: "HostVideoDiagnostics \<Rightarrow> HostVideoDiagnostics" where
  "record_encoder_recreation h = h\<lparr>encoder_recreations := sat_add u64_max (encoder_recreations h) 1\<rparr>"

definition record_send_result :: "nat \<Rightarrow> HostVideoDiagnostics \<Rightarrow> HostVideoDiagnostics" where
  "record_send_result n h =
     (let h1 = h\<lparr>encode_calls := encode_calls h + 1\<rparr>
      in if n = 0 then h1\<lparr>empty_send_results := empty_send_results h1 + 1\<rparr>
         else h1\<lparr>sent_batches := sent_batches h1 + 1, sent_targets := sent_targets h1 + n\<rparr>)"

definition record_wait :: "nat \<Rightarrow> nat \<Rightarrow> duration \<Rightarrow> HostVideoDiagnostics \<Rightarrow> HostVideoDiagnostics" where
  "record_wait expected fetched elapsed h =
     (if expected = 0 then h
      else h\<lparr>wait_frames := wait_frames h + 1, wait_total_ms := wait_total_ms h + as_millis elapsed,
             wait_max_ms := max (wait_max_ms h) (as_millis elapsed), ack_waits := record_duration elapsed (ack_waits h),
             wait_timeouts := (if fetched < expected then wait_timeouts h + 1 else wait_timeouts h)\<rparr>)"

text \<open>The log line itself is not modelled; every five seconds the counters start again.\<close>

definition maybe_log :: "instant \<Rightarrow> HostVideoDiagnostics \<Rightarrow> HostVideoDiagnostics" where
  "maybe_log now h = (if since now (last_log h) < HOST_VIDEO_DIAG_INTERVAL then h else Diagnostics_new now)"

section \<open>Waiting until a frame was fetched\<close>

record VideoStreamKey =
  vk_source :: VideoSource
  vk_display :: nat

text \<open>The global registries: the queued notifications of a stream and the connections it was sent to.\<close>

record FetchRegistry =
  notifiers :: "(VideoStreamKey \<times> int list) list"
  display_conn_ids :: "(VideoStreamKey \<times> int set) list"

record VideoFrameController =
  stream_key :: VideoStreamKey
  cur :: instant
  send_conn_ids :: "int set"

definition FrameController_new :: "VideoSource \<Rightarrow> nat \<Rightarrow> instant \<Rightarrow> VideoFrameController" where
  "FrameController_new source d now = \<lparr>stream_key = \<lparr>vk_source = source, vk_display = d\<rparr>, cur = now, send_conn_ids = {}\<rparr>"

definition notify_key :: "VideoStreamKey \<Rightarrow> int \<Rightarrow> FetchRegistry \<Rightarrow> FetchRegistry" where
  "notify_key k conn r =
     (case map_of (notifiers r) k of
        None \<Rightarrow> r
      | Some q \<Rightarrow> r\<lparr>notifiers := AList.update k (q @ [conn]) (notifiers r)\<rparr>)"

definition notify_video_frame_fetched :: "VideoSource \<Rightarrow> nat \<Rightarrow> int \<Rightarrow> FetchRegistry \<Rightarrow> FetchRegistry" where
  "notify_video_frame_fetched source d conn r = notify_key \<lparr>vk_source = source, vk_display = d\<rparr> conn r"

definition notify_video_frame_fetched_by_conn_id :: "int \<Rightarrow> FetchRegistry \<Rightarrow> FetchRegistry" where
  "notify_video_frame_fetched_by_conn_id conn r =
     fold (\<lambda>k. notify_key k conn) (map fst (filter (\<lambda>(k, ids). conn \<in> ids) (display_conn_ids r))) r"

definition fetch_register :: "VideoStreamKey \<Rightarrow> FetchRegistry \<Rightarrow> FetchRegistry" where
  "fetch_register k r = (if contains_key (notifiers r) k then r else r\<lparr>notifiers := AList.update k [] (notifiers r)\<rparr>)"

definition controller_reset :: "VideoFrameController \<Rightarrow> VideoFrameController" where
  "controller_reset c = c\<lparr>send_conn_ids := {}\<rparr>"

definition set_send :: "instant \<Rightarrow> int set \<Rightarrow> VideoFrameController \<Rightarrow> FetchRegistry \<Rightarrow> VideoFrameController \<times> FetchRegistry" where
  "set_send tm ids c r =
     (if ids = {} then (c, r)
      else (c\<lparr>cur := tm, send_conn_ids := ids\<rparr>, r\<lparr>display_conn_ids := AList.update (stream_key c) ids (display_conn_ids r)\<rparr>))"

definition delivery_ready :: "int set \<Rightarrow> VideoFrameController \<Rightarrow> bool" where
  "delivery_ready fetched c =
     (if send_conn_ids c = {} then True
      else let n = card (send_conn_ids c \<inter> fetched)
           in n = card (send_conn_ids c) \<or> (card (send_conn_ids c) > 1 \<and> n > 0))"

text \<open>Both ways of emptying the queue of notifications; with \<open>arrived\<close> the first one that a wait receives.\<close>

definition drain_available :: "VideoFrameController \<Rightarrow> int set \<Rightarrow> FetchRegistry \<Rightarrow> FetchRegistry \<times> int set \<times> nat" where
  "drain_available c fetched r =
     (if send_conn_ids c = {} then (r, fetched, 0)
      else case map_of (notifiers r) (stream_key c) of
             None \<Rightarrow> (r, fetched, 0)
           | Some q \<Rightarrow> (r\<lparr>notifiers := AList.update (stream_key c) [] (notifiers r)\<rparr>,
                        fetched \<union> (set q \<inter> send_conn_ids c), length q))"

definition try_wait_next :: "int list \<Rightarrow> VideoFrameController \<Rightarrow> int set \<Rightarrow> FetchRegistry \<Rightarrow> FetchRegistry \<times> int set" where
  "try_wait_next arrived c fetched r =
     (if send_conn_ids c = {} then (r, fetched)
      else case map_of (notifiers r) (stream_key c) of
             None \<Rightarrow> (r, fetched)
           | Some q \<Rightarrow> (r\<lparr>notifiers := AList.update (stream_key c) [] (notifiers r)\<rparr>,
                        fetched \<union> (set (q @ arrived) \<inter> send_conn_ids c)))"

text \<open>
  The loop of the video service: rounds of at most 300 ms, each with the time since the wait began and the
  connections that report in it, until the frame is delivered or three seconds are over.
\<close>

fun wait_delivery ::
  "(nat \<times> int list) list \<Rightarrow> VideoFrameController \<Rightarrow> int set \<Rightarrow> FetchRegistry \<Rightarrow> FetchRegistry \<times> int set" where
  "wait_delivery [] c fetched r = (r, fetched)"
| "wait_delivery ((elapsed_ms, arrived) # rounds) c fetched r =
     (if elapsed_ms < 3000
      then let (r1, fetched1) = try_wait_next arrived c fetched r
           in if delivery_ready fetched1 c then (r1, fetched1) else wait_delivery rounds c fetched1 r1
      else (r, fetched))"

text \<open>
  The reports of web clients, which name no display, reach exactly the streams whose current frame they were
  sent: draining after them finds the connections of the frame among those that reported.
\<close>

lemma map_of_notify_key:
  "map_of (notifiers (notify_key k conn r)) k' =
     (if k' = k then map_option (\<lambda>q. q @ [conn]) (map_of (notifiers r) k) else map_of (notifiers r) k')"
  by (simp add: notify_key_def map_of_update split: option.splits)

lemma notify_key_conns [simp]: "display_conn_ids (notify_key k conn r) = display_conn_ids r"
  by (simp add: notify_key_def split: option.splits)

lemma fold_notify_key:
  assumes "distinct ks"
  shows "display_conn_ids (fold (\<lambda>k. notify_key k conn) ks r) = display_conn_ids r"
    and "map_of (notifiers (fold (\<lambda>k. notify_key k conn) ks r)) k' =
      (if k' \<in> set ks then map_option (\<lambda>q. q @ [conn]) (map_of (notifiers r) k') else map_of (notifiers r) k')"
  using assms by (induction ks arbitrary: r) (auto simp: map_of_notify_key)

lemma notify_by_conn_queue:
  assumes "map_wf (display_conn_ids r)" "map_of (display_conn_ids r) k = Some ids" "map_of (notifiers r) k = Some q"
  shows "display_conn_ids (notify_video_frame_fetched_by_conn_id conn r) = display_conn_ids r"
    and "map_of (notifiers (notify_video_frame_fetched_by_conn_id conn r)) k = Some (if conn \<in> ids then q @ [conn] else q)"
proof -
  let ?ks = "map fst (filter (\<lambda>(k, ids). conn \<in> ids) (display_conn_ids r))"
  have "distinct ?ks" using assms(1) by (rule distinct_map_filter)
  moreover have "k \<in> set ?ks \<longleftrightarrow> conn \<in> ids"
  proof -
    have "(k, b) \<in> set (display_conn_ids r) \<longleftrightarrow> b = ids" for b
      using map_of_eq_Some_iff [OF assms(1), of k b] assms(2) by auto
    then show ?thesis by (auto simp: image_iff)
  qed
  ultimately show "display_conn_ids (notify_video_frame_fetched_by_conn_id conn r) = display_conn_ids r"
    "map_of (notifiers (notify_video_frame_fetched_by_conn_id conn r)) k = Some (if conn \<in> ids then q @ [conn] else q)"
    using fold_notify_key [of ?ks conn r] assms(3) by (simp_all add: notify_video_frame_fetched_by_conn_id_def)
qed

lemma fetch_reports_exact:
  assumes "map_wf (display_conn_ids r)" "map_of (notifiers r) (stream_key c) = Some q" "ids \<noteq> {}"
    and "set_send tm ids c r = (c', r1)" "drain_available c' {} (fold notify_video_frame_fetched_by_conn_id reports r1) = (r2, fetched, n)"
  shows "fetched = ids \<inter> (set q \<union> set reports) \<and> map_of (notifiers r2) (stream_key c) = Some []"
proof -
  have c': "stream_key c' = stream_key c" "send_conn_ids c' = ids"
    and r1: "map_wf (display_conn_ids r1)" "map_of (display_conn_ids r1) (stream_key c) = Some ids" "map_of (notifiers r1) (stream_key c) = Some q"
    using assms(1-4) by (auto simp: set_send_def map_of_update intro: map_wf_update)
  have "\<exists>q'. map_of (notifiers (fold notify_video_frame_fetched_by_conn_id reports r1)) (stream_key c) = Some q' \<and> set q' \<inter> ids = ids \<inter> (set q \<union> set reports)"
    using r1
  proof (induction reports arbitrary: r1 q)
    case (Cons conn reports)
    note step = notify_by_conn_queue [OF Cons.prems, of conn]
    have "\<exists>q'. map_of (notifiers (fold notify_video_frame_fetched_by_conn_id reports (notify_video_frame_fetched_by_conn_id conn r1))) (stream_key c) = Some q'
        \<and> set q' \<inter> ids = ids \<inter> (set (if conn \<in> ids then q @ [conn] else q) \<union> set reports)"
      by (rule Cons.IH) (use step Cons.prems(1,2) in simp_all)
    moreover have "ids \<inter> (set (if conn \<in> ids then q @ [conn] else q) \<union> set reports) = ids \<inter> (set q \<union> set (conn # reports))" by auto
    ultimately show ?case by simp
  qed auto
  then obtain q' where q': "map_of (notifiers (fold notify_video_frame_fetched_by_conn_id reports r1)) (stream_key c) = Some q'"
    "set q' \<inter> ids = ids \<inter> (set q \<union> set reports)" by blast
  have "fetched = set q' \<inter> ids" "map_of (notifiers r2) (stream_key c) = Some []"
    using assms(3,5) c' q'(1) by (auto simp: drain_available_def map_of_update)
  then show ?thesis unfolding q'(2) by blast
qed

end
