(* ===== verification/ReferenceRefresh.thy ===== *)
theory ReferenceRefresh
  imports Messages
begin

text \<open>
  Encoding and reference frames of the host (\<^verbatim>\<open>src/src/server/video_service.rs\<close>): the numbering of streams and
  frames, the policy that decides when a new reference frame is due, the part of the loop of \<open>run\<close> that carries
  it out, and \<open>handle_one_frame\<close> with its handling of encoder failures. What the encoder answers and the readings
  of the clock are arguments; every \<open>bail!("SWITCH")\<close>, which restarts the stream, is a result of its own.
\<close>

section \<open>Numbers of streams and frames\<close>

definition next_video_stream_id :: "64 word \<Rightarrow> 64 word \<times> 64 word" where
  "next_video_stream_id counter = (if counter = 0 then (2, 1) else (counter + 1, counter))"

text \<open>The frame, with the number of the next one.\<close>

definition stamp_video_frame :: "nat \<Rightarrow> 64 word \<Rightarrow> VideoFrame \<Rightarrow> VideoFrame \<times> 64 word \<times> 64 word" where
  "stamp_video_frame stream_id next_id vf =
     (let frame_id = max next_id 1
      in (vf\<lparr>vf_stream_id := stream_id, vf_frame_id := unat frame_id\<rparr>, frame_id, max (frame_id + 1) 1))"

section \<open>When a reference frame is due\<close>

definition HW_ENCODER_WARMUP_TIMEOUT :: duration where "HW_ENCODER_WARMUP_TIMEOUT = from_secs 3"
definition HQ_REFERENCE_REFRESH_BITRATE_MULTIPLIER :: nat where "HQ_REFERENCE_REFRESH_BITRATE_MULTIPLIER = 3"
definition HQ_REFERENCE_REFRESH_BITRATE_DIVISOR :: nat where "HQ_REFERENCE_REFRESH_BITRATE_DIVISOR = 2"
definition HQ_REFERENCE_REFRESH_COOLDOWN :: duration where "HQ_REFERENCE_REFRESH_COOLDOWN = from_secs 6"
definition DELIVERY_REFERENCE_REFRESH_COOLDOWN :: duration where "DELIVERY_REFERENCE_REFRESH_COOLDOWN = from_millis 250"
definition IN_PLACE_REFERENCE_REFRESH_TIMEOUT :: duration where "IN_PLACE_REFERENCE_REFRESH_TIMEOUT = from_secs 1"

datatype ReferenceRefreshReason =
  StartupSafeEnded | SignificantBitrateIncrease | DeliveryRecovery | SecureDesktopTransition | MovieCadenceChange | SubscriberJoin

datatype SubscriberJoinAction = JoinWait | JoinReference | JoinRestart

definition subscriber_join_action ::
  "bool \<Rightarrow> bool \<Rightarrow> bool \<Rightarrow> instant option \<Rightarrow> instant \<Rightarrow> instant option \<times> SubscriberJoinAction" where
  "subscriber_join_action pending has_encoded_frame replayable_frame started now =
     (if \<not> pending then (None, JoinWait)
      else if \<not> has_encoded_frame then (started, JoinWait)
      else if \<not> replayable_frame \<or> is_some_and started (\<lambda>at. since now at \<ge> from_secs 10) then (started, JoinRestart)
      else if started = None then (Some now, JoinReference)
      else (started, JoinWait))"

record HqReferenceRefreshPolicy =
  rp_startup_safe :: bool
  reference_bitrate :: nat
  last_refresh :: "instant option"
  last_delivery_refresh_attempt :: "instant option"
  delivery_refresh_pending :: bool

definition RefreshPolicy_new :: "bool \<Rightarrow> nat \<Rightarrow> HqReferenceRefreshPolicy" where
  "RefreshPolicy_new startup_safe bitrate =
     \<lparr>rp_startup_safe = startup_safe, reference_bitrate = bitrate, last_refresh = None, last_delivery_refresh_attempt = None,
      delivery_refresh_pending = False\<rparr>"

definition refresh_evaluate ::
  "bool \<Rightarrow> bool \<Rightarrow> nat \<Rightarrow> instant \<Rightarrow> HqReferenceRefreshPolicy \<Rightarrow> HqReferenceRefreshPolicy \<times> ReferenceRefreshReason option" where
  "refresh_evaluate eligible startup_safe bitrate now p =
     (let ended = rp_startup_safe p \<and> \<not> startup_safe;
          p1 = p\<lparr>rp_startup_safe := startup_safe\<rparr>;
          threshold = sat_mul u32_max (reference_bitrate p) HQ_REFERENCE_REFRESH_BITRATE_MULTIPLIER div HQ_REFERENCE_REFRESH_BITRATE_DIVISOR;
          cooldown_elapsed = is_none_or (last_refresh p) (\<lambda>t. since now t \<ge> HQ_REFERENCE_REFRESH_COOLDOWN)
      in (p1,
          if \<not> eligible \<or> startup_safe \<or> bitrate = 0 then None
          else if ended then Some StartupSafeEnded
          else if reference_bitrate p > 0 \<and> bitrate \<ge> threshold \<and> cooldown_elapsed then Some SignificantBitrateIncrease
          else None))"

definition record_refresh :: "nat \<Rightarrow> instant \<Rightarrow> HqReferenceRefreshPolicy \<Rightarrow> HqReferenceRefreshPolicy" where
  "record_refresh bitrate now p = p\<lparr>reference_bitrate := bitrate, last_refresh := Some now, delivery_refresh_pending := False\<rparr>"

definition request_delivery_refresh ::
  "bool \<Rightarrow> instant \<Rightarrow> HqReferenceRefreshPolicy \<Rightarrow> HqReferenceRefreshPolicy \<times> ReferenceRefreshReason option" where
  "request_delivery_refresh requested now p =
     (let p1 = (if requested \<and> \<not> is_some_and (last_refresh p) (\<lambda>t. since now t < DELIVERY_REFERENCE_REFRESH_COOLDOWN)
                then p\<lparr>delivery_refresh_pending := True\<rparr> else p)
      in if \<not> delivery_refresh_pending p1 then (p1, None)
         else if is_some_and (last_delivery_refresh_attempt p1) (\<lambda>t. since now t < DELIVERY_REFERENCE_REFRESH_COOLDOWN) then (p1, None)
         else (p1\<lparr>last_delivery_refresh_attempt := Some now\<rparr>, Some DeliveryRecovery))"

section \<open>The reference stage of the loop\<close>

record PendingReferenceRefresh =
  reason :: ReferenceRefreshReason
  requested_at :: instant
  non_keyframe_frames :: nat

text \<open>The local variables of \<open>run\<close> that the stage and the encoding of a frame share.\<close>

record EncodeState =
  policy :: HqReferenceRefreshPolicy
  reference_refresh_pending :: "PendingReferenceRefresh option"
  subscriber_join_started :: "instant option"
  secure_desktop_reference_refresh_pending :: "ReferenceRefreshReason option"
  repeat_encode_counter :: nat
  encode_fail_counter :: nat
  hw_no_valid_frame_since :: "instant option"
  first_frame :: bool
  next_frame_id :: "64 word"
  bitrate :: nat

text \<open>
  What one pass reads: the service, the quality controller, the answers of the encoder (the bitrate of a
  recreated one, \<open>None\<close> if the recreation fails), and the successive readings of the clock.
\<close>

record RefreshInput =
  has_pending :: bool
  replayable :: bool
  eligible :: bool
  qos_startup_safe :: bool
  qos_bitrate :: nat
  delivery_requested :: bool
  cadence_recreated :: "nat option"
  keyframe_accepted :: bool
  recreated_on_timeout :: "nat option"
  recreated :: "nat option"
  clock :: "nat \<Rightarrow> instant"

definition new_reference :: "ReferenceRefreshReason \<Rightarrow> nat \<Rightarrow> instant \<Rightarrow> EncodeState \<Rightarrow> EncodeState" where
  "new_reference why rate now s =
     s\<lparr>policy := record_refresh rate now (policy s), bitrate := rate,
       reference_refresh_pending := Some \<lparr>reason = why, requested_at = now, non_keyframe_frames = 0\<rparr>, repeat_encode_counter := 0\<rparr>"

definition recreated_encoder :: "EncodeState \<Rightarrow> EncodeState" where
  "recreated_encoder s = s\<lparr>encode_fail_counter := 0, hw_no_valid_frame_since := None\<rparr>"

text \<open>An encoder that the movie cadence recreated for another rate.\<close>

definition cadence_stage :: "RefreshInput \<Rightarrow> EncodeState \<Rightarrow> EncodeState \<times> bool" where
  "cadence_stage i s =
     (case cadence_recreated i of
        Some rate \<Rightarrow> (recreated_encoder (new_reference MovieCadenceChange rate (clock i 0) s), True)
      | None \<Rightarrow> (s, False))"

text \<open>A reference that was asked for in place and did not come within a second.\<close>

definition timeout_stage :: "RefreshInput \<Rightarrow> EncodeState \<Rightarrow> EncodeState \<times> bool" where
  "timeout_stage i s =
     (case reference_refresh_pending s of
        Some r \<Rightarrow>
          if non_keyframe_frames r > 0 \<and> since (clock i 1) (requested_at r) \<ge> IN_PLACE_REFERENCE_REFRESH_TIMEOUT
          then (case recreated_on_timeout i of
                  Some rate \<Rightarrow> (recreated_encoder (new_reference (reason r) rate (clock i 2) s), True)
                | None \<Rightarrow> (s, False))
          else (s, False)
      | None \<Rightarrow> (s, False))"

text \<open>The first reason that is present.\<close>

definition or_else :: "'a option \<Rightarrow> 'a option \<Rightarrow> 'a option" where
  "or_else a b = (case a of Some x \<Rightarrow> Some x | None \<Rightarrow> b)"

definition carry_out :: "RefreshInput \<Rightarrow> ReferenceRefreshReason \<Rightarrow> EncodeState \<Rightarrow> EncodeState" where
  "carry_out i why s =
     (if keyframe_accepted i then new_reference why (bitrate s) (clock i 6) s
      else case recreated i of
             Some rate \<Rightarrow> recreated_encoder (new_reference why rate (clock i 6) s)
           | None \<Rightarrow> s)"

definition reference_stage :: "RefreshInput \<Rightarrow> EncodeState \<Rightarrow> EncodeState option" where
  "reference_stage i s0 =
     (case cadence_stage i s0 of (s', recreated_for_cadence) \<Rightarrow> case timeout_stage i s' of (s, recreated_after_timeout) \<Rightarrow>
        case subscriber_join_action (has_pending i) (next_frame_id s > 1) (replayable i) (subscriber_join_started s) (clock i 3) of
          (started, action) \<Rightarrow>
            if action = JoinRestart then None
            else
              let join_reason = (if action = JoinReference then Some SubscriberJoin else None);
                  (p1, policy_reason) = refresh_evaluate (eligible i) (qos_startup_safe i) (qos_bitrate i) (clock i 4) (policy s);
                  (p2, delivery_reason) = request_delivery_refresh (delivery_requested i) (clock i 5) p1;
                  why = or_else (secure_desktop_reference_refresh_pending s) (or_else join_reason (or_else delivery_reason policy_reason));
                  s1 = s\<lparr>policy := p2, subscriber_join_started := started, secure_desktop_reference_refresh_pending := None\<rparr>
              in if recreated_for_cadence \<or> recreated_after_timeout then Some s1
                 else (case why of None \<Rightarrow> Some s1 | Some x \<Rightarrow> Some (carry_out i x s1)))"

section \<open>Encoding a frame\<close>

text \<open>What the encoder is, and what it answers: a frame, or an error with the two texts the code looks for.\<close>

record Encoder =
  hardware :: bool
  latency_free :: bool
  software_fallback :: bool
  android :: bool

datatype EncodeAnswer =
    Encoded VideoFrame bool
  | EncodeError bool bool

datatype FrameOutcome = Sent VideoFrame bool | NothingSent | EncodeSwitch | EncodeFailed

definition keyframe_seen :: "bool \<Rightarrow> PendingReferenceRefresh option \<Rightarrow> PendingReferenceRefresh option" where
  "keyframe_seen has_keyframe pending =
     (case pending of
        None \<Rightarrow> None
      | Some r \<Rightarrow> if has_keyframe then None else Some (r\<lparr>non_keyframe_frames := sat_add u32_max (non_keyframe_frames r) 1\<rparr>))"

definition fall_back :: "Encoder \<Rightarrow> EncodeState \<Rightarrow> EncodeState \<times> FrameOutcome" where
  "fall_back enc s = (s, if software_fallback enc then EncodeSwitch else EncodeFailed)"

text \<open>\<open>t\<close> is the clock when a warm-up begins, \<open>t'\<close> when its length is measured.\<close>

definition handle_one_frame :: "nat \<Rightarrow> int \<Rightarrow> Encoder \<Rightarrow> EncodeAnswer \<Rightarrow> instant \<Rightarrow> instant \<Rightarrow> EncodeState \<Rightarrow> EncodeState \<times> FrameOutcome" where
  "handle_one_frame stream_id display enc answer t t' s0 =
     (let first = first_frame s0; s = s0\<lparr>first_frame := False\<rparr>
      in case answer of
           Encoded vf has_keyframe \<Rightarrow>
             let (vf1, _, next_id) = stamp_video_frame stream_id (next_frame_id s) (vf\<lparr>vf_display := display\<rparr>)
             in (s\<lparr>encode_fail_counter := 0, hw_no_valid_frame_since := None, next_frame_id := next_id,
                   reference_refresh_pending := keyframe_seen has_keyframe (reference_refresh_pending s)\<rparr>,
                 Sent vf1 (leading_keyframe vf1))
         | EncodeError no_valid_frame need_switch \<Rightarrow>
             let s1 = s\<lparr>encode_fail_counter := encode_fail_counter s + 1\<rparr>
             in if hardware enc \<and> no_valid_frame
                then let start = unwrap_or (hw_no_valid_frame_since s1) t; s2 = s1\<lparr>hw_no_valid_frame_since := Some start\<rparr>
                     in if since t' start < HW_ENCODER_WARMUP_TIMEOUT then (s2, NothingSent)
                        else fall_back enc (s2\<lparr>encode_fail_counter := 0, hw_no_valid_frame_since := None\<rparr>)
                else
                  let s2 = s1\<lparr>hw_no_valid_frame_since := None\<rparr>;
                      max_fail_times = (if android enc \<and> hardware enc then 9 else 3 :: nat);
                      exhausted = (first \<and> latency_free enc \<or> encode_fail_counter s2 \<ge> max_fail_times);
                      s3 = (if exhausted then s2\<lparr>encode_fail_counter := 0\<rparr> else s2)
                  in if exhausted \<and> hardware enc then fall_back enc s3
                     else if need_switch then fall_back enc s3
                     else (s3, NothingSent))"

text \<open>Whether a pass without a captured frame encodes the last one again.\<close>

definition REPEAT_ENCODE_MAX :: nat where "REPEAT_ENCODE_MAX = 10"

definition repeat_encode :: "Encoder \<Rightarrow> bool \<Rightarrow> EncodeState \<Rightarrow> EncodeState \<times> bool" where
  "repeat_encode enc replay s =
     (if (\<not> latency_free enc \<or> reference_refresh_pending s \<noteq> None) \<and> replay \<and> repeat_encode_counter s < REPEAT_ENCODE_MAX
      then (s\<lparr>repeat_encode_counter := repeat_encode_counter s + 1\<rparr>, True) else (s, False))"

section \<open>Passes of the loop\<close>

text \<open>A pass: the reference stage, and the frame it encodes if any, with the two readings of the clock there.\<close>

record Pass =
  stage_input :: RefreshInput
  answer :: "EncodeAnswer option"
  warm_t :: instant
  warm_t' :: instant

definition loop_pass :: "nat \<Rightarrow> int \<Rightarrow> Encoder \<Rightarrow> Pass \<Rightarrow> EncodeState \<Rightarrow> EncodeState option" where
  "loop_pass stream_id display enc x s =
     (case reference_stage (stage_input x) s of
        None \<Rightarrow> None
      | Some s1 \<Rightarrow>
          (case answer x of
             None \<Rightarrow> Some s1
           | Some a \<Rightarrow>
               (case handle_one_frame stream_id display enc a (warm_t x) (warm_t' x) s1 of
                  (s2, Sent _ _) \<Rightarrow> Some s2
                | (s2, NothingSent) \<Rightarrow> Some s2
                | _ \<Rightarrow> None)))"

primrec loop_passes :: "nat \<Rightarrow> int \<Rightarrow> Encoder \<Rightarrow> Pass list \<Rightarrow> EncodeState \<Rightarrow> EncodeState option" where
  "loop_passes stream_id display enc [] s = Some s"
| "loop_passes stream_id display enc (x # xs) s =
     (case loop_pass stream_id display enc x s of None \<Rightarrow> None | Some s1 \<Rightarrow> loop_passes stream_id display enc xs s1)"

lemma loop_passes_append:
  "loop_passes sid d enc (xs @ ys) s = (case loop_passes sid d enc xs s of None \<Rightarrow> None | Some s1 \<Rightarrow> loop_passes sid d enc ys s1)"
  by (induction xs arbitrary: s) (auto split: option.splits)

lemma handle_policy: "policy (fst (handle_one_frame sid d enc a t t' s)) = policy s"
  by (auto simp: handle_one_frame_def fall_back_def Let_def split: EncodeAnswer.splits prod.splits)

text \<open>A reference has been taken since \<open>T\<close>, up to the coalescing window, or one is still owed.\<close>

definition served :: "instant \<Rightarrow> EncodeState \<Rightarrow> bool" where
  "served T s \<longleftrightarrow> (\<exists>t. last_refresh (policy s) = Some t \<and> T < t + DELIVERY_REFERENCE_REFRESH_COOLDOWN)"

definition owed :: "EncodeState \<Rightarrow> bool" where
  "owed s \<longleftrightarrow> delivery_refresh_pending (policy s)"

lemma cooldown_pos: "0 < DELIVERY_REFERENCE_REFRESH_COOLDOWN"
  by (simp add: DELIVERY_REFERENCE_REFRESH_COOLDOWN_def from_millis_def)

lemma served_new: "T \<le> now \<Longrightarrow> served T (new_reference why rate now s)"
  using cooldown_pos by (simp add: served_def new_reference_def record_refresh_def)

lemma served_recreated [simp]: "served T (recreated_encoder s) = served T s" "owed (recreated_encoder s) = owed s"
  by (simp_all add: served_def owed_def recreated_encoder_def)

definition clock_from :: "instant \<Rightarrow> RefreshInput \<Rightarrow> bool" where
  "clock_from T i \<longleftrightarrow> (\<forall>k. T \<le> clock i k) \<and> mono (clock i)"

lemma early_stages_keep:
  assumes "clock_from T i" "served T s \<or> owed s"
  shows "served T (fst (cadence_stage i s)) \<or> owed (fst (cadence_stage i s))"
    and "served T (fst (timeout_stage i s)) \<or> owed (fst (timeout_stage i s))"
  using assms by (auto simp: cadence_stage_def timeout_stage_def clock_from_def served_new split: option.splits)

lemma early_stage_recreated:
  assumes "clock_from T i"
  shows "snd (cadence_stage i s) \<Longrightarrow> served T (fst (cadence_stage i s))"
    and "snd (timeout_stage i s) \<Longrightarrow> served T (fst (timeout_stage i s))"
  using assms by (auto simp: cadence_stage_def timeout_stage_def clock_from_def served_new split: option.splits if_splits)

lemma timeout_served: "clock_from T i \<Longrightarrow> served T s \<Longrightarrow> served T (fst (timeout_stage i s))"
  by (auto simp: timeout_stage_def clock_from_def served_new split: option.splits)

lemma reference_stageE:
  assumes "reference_stage i s0 = Some s2"
  obtains s s1 p1 dr where "s = fst (timeout_stage i (fst (cadence_stage i s0)))"
    and "last_refresh p1 = last_refresh (policy s)" "delivery_refresh_pending p1 = delivery_refresh_pending (policy s)"
    and "last_delivery_refresh_attempt p1 = last_delivery_refresh_attempt (policy s)"
    and "request_delivery_refresh (delivery_requested i) (clock i 5) p1 = (policy s1, dr)"
    and "reference_refresh_pending s1 = reference_refresh_pending s"
    and "(\<exists>x. s2 = carry_out i x s1) \<or> s2 = s1 \<and> (dr = None \<or> snd (cadence_stage i s0) \<or> snd (timeout_stage i (fst (cadence_stage i s0))))"
proof -
  obtain sc c where c: "cadence_stage i s0 = (sc, c)" by (cases "cadence_stage i s0")
  obtain s t where t: "timeout_stage i sc = (s, t)" by (cases "timeout_stage i sc")
  obtain started action where j: "subscriber_join_action (has_pending i) (next_frame_id s > 1) (replayable i) (subscriber_join_started s) (clock i 3) = (started, action)"
    by (cases "subscriber_join_action (has_pending i) (next_frame_id s > 1) (replayable i) (subscriber_join_started s) (clock i 3)")
  obtain p1 pr where e: "refresh_evaluate (eligible i) (qos_startup_safe i) (qos_bitrate i) (clock i 4) (policy s) = (p1, pr)"
    by (cases "refresh_evaluate (eligible i) (qos_startup_safe i) (qos_bitrate i) (clock i 4) (policy s)")
  obtain p2 dr where d: "request_delivery_refresh (delivery_requested i) (clock i 5) p1 = (p2, dr)"
    by (cases "request_delivery_refresh (delivery_requested i) (clock i 5) p1")
  define s1 where "s1 = s\<lparr>policy := p2, subscriber_join_started := started, secure_desktop_reference_refresh_pending := None\<rparr>"
  have p1: "last_refresh p1 = last_refresh (policy s)" "delivery_refresh_pending p1 = delivery_refresh_pending (policy s)"
    "last_delivery_refresh_attempt p1 = last_delivery_refresh_attempt (policy s)"
    using e by (auto simp: refresh_evaluate_def Let_def)
  define why where "why = or_else (secure_desktop_reference_refresh_pending s)
    (or_else (if action = JoinReference then Some SubscriberJoin else None) (or_else dr pr))"
  have "s2 = (if c \<or> t then s1 else case why of None \<Rightarrow> s1 | Some x \<Rightarrow> carry_out i x s1)"
    using assms c t j e d by (auto simp: reference_stage_def Let_def s1_def why_def split: if_splits option.splits)
  moreover have "why = None \<Longrightarrow> dr = None" by (auto simp: why_def or_else_def split: option.splits if_splits)
  ultimately have "(\<exists>x. s2 = carry_out i x s1) \<or> s2 = s1 \<and> (dr = None \<or> c \<or> t)" by (auto split: option.splits if_splits)
  then show thesis using that [of s p1 s1 dr] p1 d c t by (simp add: s1_def)
qed

lemma request_policy:
  assumes "request_delivery_refresh requested now p = (p', dr)"
  shows "last_refresh p' = last_refresh p" "delivery_refresh_pending p \<Longrightarrow> delivery_refresh_pending p'"
    and "requested \<Longrightarrow> delivery_refresh_pending p' \<or> is_some_and (last_refresh p) (\<lambda>t. since now t < DELIVERY_REFERENCE_REFRESH_COOLDOWN)"
    and "delivery_refresh_pending p \<Longrightarrow> is_none_or (last_delivery_refresh_attempt p) (\<lambda>t. t + DELIVERY_REFERENCE_REFRESH_COOLDOWN \<le> now) \<Longrightarrow> dr \<noteq> None"
    and "last_delivery_refresh_attempt p' = last_delivery_refresh_attempt p \<or> last_delivery_refresh_attempt p' = Some now"
    and "dr = None \<Longrightarrow> last_delivery_refresh_attempt p' = last_delivery_refresh_attempt p"
  using assms by (auto simp: request_delivery_refresh_def Let_def since_def is_some_and_iff is_none_or_iff split: if_splits)

lemma carry_out_keeps:
  assumes "clock_from T i" "served T s \<or> owed s"
  shows "served T (carry_out i x s) \<or> owed (carry_out i x s)"
    and "keyframe_accepted i \<or> recreated i \<noteq> None \<Longrightarrow> served T (carry_out i x s)"
  using assms by (auto simp: carry_out_def clock_from_def served_new split: option.splits)

lemma carry_out_attempt [simp]: "last_delivery_refresh_attempt (policy (carry_out i x s)) = last_delivery_refresh_attempt (policy s)"
  by (simp add: carry_out_def new_reference_def record_refresh_def recreated_encoder_def split: option.splits)

lemma early_attempt [simp]:
  "last_delivery_refresh_attempt (policy (fst (timeout_stage i s))) = last_delivery_refresh_attempt (policy s)"
  "last_delivery_refresh_attempt (policy (fst (cadence_stage i s))) = last_delivery_refresh_attempt (policy s)"
  by (auto simp: timeout_stage_def cadence_stage_def new_reference_def record_refresh_def recreated_encoder_def split: option.splits)

lemma stage_keeps:
  assumes "reference_stage i s0 = Some s2" "clock_from T i" "served T s0 \<or> owed s0"
  shows "served T s2 \<or> owed s2"
proof -
  obtain s s1 p1 dr where s: "s = fst (timeout_stage i (fst (cadence_stage i s0)))"
    and p1: "last_refresh p1 = last_refresh (policy s)" "delivery_refresh_pending p1 = delivery_refresh_pending (policy s)"
    and req: "request_delivery_refresh (delivery_requested i) (clock i 5) p1 = (policy s1, dr)"
    and fin: "(\<exists>x. s2 = carry_out i x s1) \<or> s2 = s1"
    using assms(1) by (elim reference_stageE) blast
  have "served T s \<or> owed s" unfolding s using early_stages_keep [OF assms(2)] assms(3) by blast
  then have "served T s1 \<or> owed s1" using request_policy(1,2) [OF req] p1 by (auto simp: served_def owed_def)
  then show ?thesis using fin carry_out_keeps(1) [OF assms(2)] by blast
qed

lemma stage_requested:
  assumes "reference_stage i s0 = Some s2" "mono (clock i)" "delivery_requested i"
  shows "served (clock i 5) s2 \<or> owed s2"
proof -
  obtain s1 p1 dr where req: "request_delivery_refresh (delivery_requested i) (clock i 5) p1 = (policy s1, dr)"
    and fin: "(\<exists>x. s2 = carry_out i x s1) \<or> s2 = s1"
    using assms(1) by (elim reference_stageE) blast
  have s1: "served (clock i 5) s1 \<or> owed s1"
    using request_policy(1,3) [OF req] assms(3) by (auto simp: served_def owed_def is_some_and_iff since_def)
  have "clock i 5 \<le> clock i 6" using assms(2) by (simp add: monoD)
  then have "served (clock i 5) (carry_out i x s1) \<or> owed (carry_out i x s1)" for x
    using s1 by (auto simp: carry_out_def served_new split: option.splits)
  then show ?thesis using fin s1 by blast
qed

lemma stage_attempt:
  assumes "reference_stage i s0 = Some s2"
  shows "last_delivery_refresh_attempt (policy s2) = last_delivery_refresh_attempt (policy s0)
    \<or> last_delivery_refresh_attempt (policy s2) = Some (clock i 5)"
proof -
  obtain s s1 p1 dr where s: "s = fst (timeout_stage i (fst (cadence_stage i s0)))"
    and p1: "last_delivery_refresh_attempt p1 = last_delivery_refresh_attempt (policy s)"
    and req: "request_delivery_refresh (delivery_requested i) (clock i 5) p1 = (policy s1, dr)"
    and fin: "(\<exists>x. s2 = carry_out i x s1) \<or> s2 = s1"
    using assms(1) by (elim reference_stageE) blast
  show ?thesis using request_policy(5) [OF req] p1 fin by (auto simp: s)
qed

lemma stage_serves:
  assumes "reference_stage i s0 = Some s2" "clock_from T i" "served T s0 \<or> owed s0"
    and "is_none_or (last_delivery_refresh_attempt (policy s0)) (\<lambda>t. t + DELIVERY_REFERENCE_REFRESH_COOLDOWN \<le> clock i 5)"
    and "keyframe_accepted i \<or> recreated i \<noteq> None"
  shows "served T s2"
proof -
  obtain s s1 p1 dr where s: "s = fst (timeout_stage i (fst (cadence_stage i s0)))"
    and p1: "last_refresh p1 = last_refresh (policy s)" "delivery_refresh_pending p1 = delivery_refresh_pending (policy s)"
      "last_delivery_refresh_attempt p1 = last_delivery_refresh_attempt (policy s)"
    and req: "request_delivery_refresh (delivery_requested i) (clock i 5) p1 = (policy s1, dr)"
    and fin: "(\<exists>x. s2 = carry_out i x s1) \<or> s2 = s1 \<and> (dr = None \<or> snd (cadence_stage i s0) \<or> snd (timeout_stage i (fst (cadence_stage i s0))))"
    using assms(1) by (elim reference_stageE) blast
  have keep: "served T s1 \<or> owed s1"
    using early_stages_keep [OF assms(2)] assms(3) request_policy(1,2) [OF req] p1 by (auto simp: s served_def owed_def)
  show ?thesis
  proof (cases "\<exists>x. s2 = carry_out i x s1")
    case True
    then show ?thesis using carry_out_keeps(2) [OF assms(2) keep assms(5)] by blast
  next
    case False
    then have s2: "s2 = s1" "dr = None \<or> snd (cadence_stage i s0) \<or> snd (timeout_stage i (fst (cadence_stage i s0)))" using fin by auto
    show ?thesis
    proof (cases "owed s")
      case True
      then have "dr \<noteq> None" using request_policy(4) [OF req] p1 assms(4) by (simp add: s owed_def)
      then have "snd (cadence_stage i s0) \<or> snd (timeout_stage i (fst (cadence_stage i s0)))" using s2(2) by blast
      then have "served T s"
        unfolding s using early_stage_recreated [OF assms(2)] timeout_served [OF assms(2)] by blast
      then show ?thesis using s2(1) request_policy(1) [OF req] p1(1) by (simp add: served_def)
    next
      case False
      then have "served T s" using early_stages_keep [OF assms(2)] assms(3) unfolding s by blast
      then show ?thesis using s2(1) request_policy(1) [OF req] p1(1) by (simp add: served_def)
    qed
  qed
qed

text \<open>A pass whose encoder can carry out a refresh serves the request or makes no attempt.\<close>

definition refreshable :: "RefreshInput \<Rightarrow> bool" where
  "refreshable i \<longleftrightarrow> keyframe_accepted i \<or> recreated i \<noteq> None"

lemma stage_refreshable:
  assumes "reference_stage i s0 = Some s2" "clock_from T i" "served T s0 \<or> owed s0" "refreshable i"
  shows "served T s2 \<or> owed s2 \<and> last_delivery_refresh_attempt (policy s2) = last_delivery_refresh_attempt (policy s0)"
proof -
  obtain s s1 p1 dr where s: "s = fst (timeout_stage i (fst (cadence_stage i s0)))"
    and p1: "last_refresh p1 = last_refresh (policy s)" "delivery_refresh_pending p1 = delivery_refresh_pending (policy s)"
      "last_delivery_refresh_attempt p1 = last_delivery_refresh_attempt (policy s)"
    and req: "request_delivery_refresh (delivery_requested i) (clock i 5) p1 = (policy s1, dr)"
    and fin: "(\<exists>x. s2 = carry_out i x s1) \<or> s2 = s1 \<and> (dr = None \<or> snd (cadence_stage i s0) \<or> snd (timeout_stage i (fst (cadence_stage i s0))))"
    using assms(1) by (elim reference_stageE) blast
  have keep: "served T s1 \<or> owed s1"
    using early_stages_keep [OF assms(2)] assms(3) request_policy(1,2) [OF req] p1 by (auto simp: s served_def owed_def)
  consider (out) x where "s2 = carry_out i x s1" | (quiet) "s2 = s1" "dr = None"
    | (made) "s2 = s1" "snd (cadence_stage i s0) \<or> snd (timeout_stage i (fst (cadence_stage i s0)))"
    using fin by blast
  then show ?thesis
  proof cases
    case out
    then show ?thesis using carry_out_keeps(2) [OF assms(2) keep] assms(4) by (simp add: refreshable_def)
  next
    case quiet
    then show ?thesis using keep request_policy(6) [OF req] p1(3) by (auto simp: s)
  next
    case made
    then have "served T s" unfolding s using early_stage_recreated [OF assms(2)] timeout_served [OF assms(2)] by blast
    then show ?thesis using made(1) request_policy(1) [OF req] p1(1) by (simp add: served_def)
  qed
qed

lemma stage_stays_served:
  assumes "reference_stage i s0 = Some s2" "clock_from T i" "served T s0"
  shows "served T s2"
proof -
  obtain s s1 p1 dr where s: "s = fst (timeout_stage i (fst (cadence_stage i s0)))"
    and p1: "last_refresh p1 = last_refresh (policy s)"
    and req: "request_delivery_refresh (delivery_requested i) (clock i 5) p1 = (policy s1, dr)"
    and fin: "(\<exists>x. s2 = carry_out i x s1) \<or> s2 = s1"
    using assms(1) by (elim reference_stageE) blast
  have "served T (fst (cadence_stage i s0))"
    using assms(2,3) by (auto simp: cadence_stage_def clock_from_def served_new split: option.splits)
  then have "served T s1" using timeout_served [OF assms(2)] request_policy(1) [OF req] p1 by (simp add: s served_def)
  then show ?thesis using fin assms(2) by (auto simp: carry_out_def clock_from_def served_new split: option.splits)
qed

lemma loop_pass_stage:
  assumes "loop_pass sid d enc x s = Some s2"
  obtains s1 where "reference_stage (stage_input x) s = Some s1" "policy s2 = policy s1"
proof -
  obtain s1 where s1: "reference_stage (stage_input x) s = Some s1" using assms by (auto simp: loop_pass_def split: option.splits)
  have "policy s2 = policy s1"
  proof (cases "answer x")
    case None
    with assms s1 show ?thesis by (simp add: loop_pass_def)
  next
    case (Some a)
    with assms s1 have "s2 = fst (handle_one_frame sid d enc a (warm_t x) (warm_t' x) s1)"
      by (auto simp: loop_pass_def split: prod.splits FrameOutcome.splits)
    then show ?thesis by (simp add: handle_policy)
  qed
  with s1 show thesis using that by blast
qed

lemma served_policy: "policy s = policy s' \<Longrightarrow> served T s = served T s' \<and> owed s = owed s'"
  by (simp add: served_def owed_def)

text \<open>One pass after the request: it is answered, or owed with an attempt that is old enough for the pass at \<open>L\<close>.\<close>

definition answerable :: "instant \<Rightarrow> instant \<Rightarrow> EncodeState \<Rightarrow> bool" where
  "answerable T L s \<longleftrightarrow> served T s \<or> owed s
     \<and> is_none_or (last_delivery_refresh_attempt (policy s)) (\<lambda>t. t + DELIVERY_REFERENCE_REFRESH_COOLDOWN \<le> L)"

lemma answerable_policy: "policy s = policy s' \<Longrightarrow> answerable T L s = answerable T L s'"
  by (simp add: answerable_def served_def owed_def)

lemma pass_answerable:
  assumes "loop_pass sid d enc z s1 = Some s2" "answerable T L s1" "clock_from T (stage_input z)"
    and "refreshable (stage_input z) \<or> clock (stage_input z) 5 + DELIVERY_REFERENCE_REFRESH_COOLDOWN \<le> L"
  shows "answerable T L s2"
proof -
  obtain s3 where r: "reference_stage (stage_input z) s1 = Some s3" and p: "policy s2 = policy s3" using loop_pass_stage [OF assms(1)] .
  have "answerable T L s3"
  proof (cases "served T s1")
    case True
    then show ?thesis using stage_stays_served [OF r assms(3)] by (simp add: answerable_def)
  next
    case False
    then have o: "served T s1 \<or> owed s1" using assms(2) by (simp add: answerable_def)
    show ?thesis using assms(4)
    proof
      assume "refreshable (stage_input z)"
      from stage_refreshable [OF r assms(3) o this] assms(2) False show ?thesis by (auto simp: answerable_def)
    next
      assume "clock (stage_input z) 5 + DELIVERY_REFERENCE_REFRESH_COOLDOWN \<le> L"
      then show ?thesis using stage_keeps [OF r assms(3) o] stage_attempt [OF r] assms(2) False
        by (auto simp: answerable_def is_none_or_def)
    qed
  qed
  then show ?thesis using answerable_policy [OF p] by blast
qed

lemma passes_answerable:
  "loop_passes sid d enc zs s1 = Some s2 \<Longrightarrow> answerable T L s1 \<Longrightarrow>
   (\<And>z. z \<in> set zs \<Longrightarrow> clock_from T (stage_input z)
      \<and> (refreshable (stage_input z) \<or> clock (stage_input z) 5 + DELIVERY_REFERENCE_REFRESH_COOLDOWN \<le> L)) \<Longrightarrow> answerable T L s2"
proof (induction zs arbitrary: s1)
  case (Cons z zs)
  then obtain s3 where s3: "loop_pass sid d enc z s1 = Some s3" "loop_passes sid d enc zs s3 = Some s2" by (auto split: option.splits)
  have "answerable T L s3" using pass_answerable [OF s3(1) Cons.prems(2)] Cons.prems(3) [of z] by simp
  then show ?case using Cons.IH [OF s3(2)] Cons.prems(3) by simp
qed simp

text \<open>
  C36. A viewer that asks for a reference frame is answered within a quarter of a second. When a pass of the loop reads a request and
  the stream is not restarted, every pass from 250 ms after it on leaves a reference that was taken later than
  250 ms before the request. The encoder must be able to take a keyframe request or to be recreated in that
  pass and in those less than 250 ms before it; how often the loop passes, the movie cadence, the time-outs,
  joining viewers, the quality controller, further requests and failing encodings do not matter.
\<close>

theorem delivery_request_answered:
  assumes "loop_passes sid d enc (x # xs @ [y]) s = Some s'"
    and "delivery_requested (stage_input x)" "mono (clock (stage_input x))"
    and "\<forall>z\<in>set (xs @ [y]). clock_from (clock (stage_input x) 5) (stage_input z)"
    and "is_none_or (last_delivery_refresh_attempt (policy s)) (\<lambda>t. t \<le> clock (stage_input x) 5)"
    and "clock (stage_input x) 5 + DELIVERY_REFERENCE_REFRESH_COOLDOWN \<le> clock (stage_input y) 5"
    and "\<forall>z\<in>set (xs @ [y]). clock (stage_input y) 5 < clock (stage_input z) 5 + DELIVERY_REFERENCE_REFRESH_COOLDOWN
           \<longrightarrow> keyframe_accepted (stage_input z) \<or> recreated (stage_input z) \<noteq> None"
  shows "\<exists>t. last_refresh (policy s') = Some t \<and> clock (stage_input x) 5 < t + DELIVERY_REFERENCE_REFRESH_COOLDOWN"
proof -
  define T where "T = clock (stage_input x) 5"
  define L where "L = clock (stage_input y) 5"
  obtain s1 s2 where run: "loop_pass sid d enc x s = Some s1" "loop_passes sid d enc xs s1 = Some s2" "loop_pass sid d enc y s2 = Some s'"
    using assms(1) by (auto simp: loop_passes_append split: option.splits)
  obtain s3 where r: "reference_stage (stage_input x) s = Some s3" and p: "policy s1 = policy s3" using loop_pass_stage [OF run(1)] .
  have "is_none_or (last_delivery_refresh_attempt (policy s3)) (\<lambda>t. t + DELIVERY_REFERENCE_REFRESH_COOLDOWN \<le> L)"
    using stage_attempt [OF r] assms(5,6) by (auto simp: L_def is_none_or_def split: option.splits)
  then have "answerable T L s3" using stage_requested [OF r assms(3,2)] by (auto simp: answerable_def T_def)
  then have a1: "answerable T L s1" using answerable_policy [OF p] by blast
  have z: "clock_from T (stage_input z) \<and> (refreshable (stage_input z) \<or> clock (stage_input z) 5 + DELIVERY_REFERENCE_REFRESH_COOLDOWN \<le> L)"
    if "z \<in> set (xs @ [y])" for z
    using assms(4,7) that unfolding T_def L_def refreshable_def by (meson not_less)
  have a2: "answerable T L s2" by (rule passes_answerable [OF run(2) a1]) (use z in simp)
  obtain s5 where s5: "reference_stage (stage_input y) s2 = Some s5" "policy s' = policy s5" using loop_pass_stage [OF run(3)] .
  have y: "clock_from T (stage_input y)" using z [of y] by simp
  have "keyframe_accepted (stage_input y) \<or> recreated (stage_input y) \<noteq> None"
    using assms(7) cooldown_pos by auto
  then have "served T s5" using a2 stage_serves [OF s5(1) y] stage_stays_served [OF s5(1) y]
    by (auto simp: answerable_def L_def)
  then show ?thesis using s5(2) by (simp add: served_def T_def)
qed

text \<open>A reference that was taken stays pending until a keyframe was encoded.\<close>

lemma stage_pending: "reference_stage i s = Some s' \<Longrightarrow> reference_refresh_pending s \<noteq> None \<Longrightarrow> reference_refresh_pending s' \<noteq> None"
proof (erule reference_stageE)
  fix s2 s1 p1 dr
  assume "reference_refresh_pending s \<noteq> None" "s2 = fst (timeout_stage i (fst (cadence_stage i s)))"
    "reference_refresh_pending s1 = reference_refresh_pending s2"
    "(\<exists>x. s' = carry_out i x s1) \<or> s' = s1 \<and> (dr = None \<or> snd (cadence_stage i s) \<or> snd (timeout_stage i (fst (cadence_stage i s))))"
  moreover from this have "reference_refresh_pending s2 \<noteq> None"
    by (auto simp: timeout_stage_def cadence_stage_def new_reference_def recreated_encoder_def split: option.splits)
  ultimately show ?thesis by (auto simp: carry_out_def new_reference_def recreated_encoder_def split: option.splits)
qed

lemma reference_held_until_keyframe:
  assumes "loop_passes sid d enc xs s = Some s'" "reference_refresh_pending s \<noteq> None"
    and "\<And>x vf. x \<in> set xs \<Longrightarrow> answer x \<noteq> Some (Encoded vf True)"
  shows "reference_refresh_pending s' \<noteq> None"
  using assms
proof (induction xs arbitrary: s)
  case (Cons x xs)
  then obtain s1 where s1: "loop_pass sid d enc x s = Some s1" "loop_passes sid d enc xs s1 = Some s'" by (auto split: option.splits)
  obtain s2 where s2: "reference_stage (stage_input x) s = Some s2" using s1(1) by (auto simp: loop_pass_def split: option.splits)
  have p2: "reference_refresh_pending s2 \<noteq> None" using stage_pending [OF s2] Cons.prems(2) .
  have "reference_refresh_pending (fst (handle_one_frame sid d enc a t t' s2)) \<noteq> None" if "answer x = Some a" for a t t'
    using that p2 Cons.prems(3) [of x]
    by (cases a) (auto simp: handle_one_frame_def stamp_video_frame_def keyframe_seen_def fall_back_def Let_def)
  then have "reference_refresh_pending s1 \<noteq> None"
    using s1(1) s2 p2 by (auto simp: loop_pass_def split: option.splits prod.splits FrameOutcome.splits) (metis fst_conv option.discI)+
  then show ?case using Cons.IH [OF s1(2)] Cons.prems(3) by auto
qed simp

definition input_demo :: "bool \<Rightarrow> instant \<Rightarrow> RefreshInput" where
  "input_demo requested t = \<lparr>has_pending = False, replayable = True, eligible = False, qos_startup_safe = False, qos_bitrate = 100,
     delivery_requested = requested, cadence_recreated = None, keyframe_accepted = True, recreated_on_timeout = None, recreated = None,
     clock = (\<lambda>_. t)\<rparr>"

definition state_demo :: EncodeState where
  "state_demo = \<lparr>policy = (RefreshPolicy_new False 100)\<lparr>last_delivery_refresh_attempt := Some 900\<rparr>, reference_refresh_pending = None,
     subscriber_join_started = None, secure_desktop_reference_refresh_pending = None, repeat_encode_counter = 0, encode_fail_counter = 0,
     hw_no_valid_frame_since = None, first_frame = False, next_frame_id = 7, bitrate = 100\<rparr>"

definition encoder_demo :: Encoder where
  "encoder_demo = \<lparr>hardware = True, latency_free = True, software_fallback = True, android = False\<rparr>"

definition pass_demo :: "bool \<Rightarrow> instant \<Rightarrow> Pass" where
  "pass_demo requested t = \<lparr>stage_input = input_demo requested t, answer = None, warm_t = t, warm_t' = t\<rparr>"

text \<open>A request shortly after an attempt waits over two passes.\<close>

theorem delivery_request_answered_witness:
  "\<exists>s'. loop_passes 1 0 encoder_demo [pass_demo True 1000, pass_demo False 33000000, pass_demo False 300000000] state_demo = Some s'
     \<and> (\<exists>t. last_refresh (policy s') = Some t \<and> 1000 < t + DELIVERY_REFERENCE_REFRESH_COOLDOWN)"
proof -
  let ?x = "pass_demo True 1000" and ?m = "pass_demo False 33000000" and ?y = "pass_demo False 300000000"
  obtain s' where run: "loop_passes 1 0 encoder_demo (?x # [?m] @ [?y]) state_demo = Some s'"
    by (simp add: pass_demo_def input_demo_def state_demo_def loop_pass_def reference_stage_def cadence_stage_def timeout_stage_def
        subscriber_join_action_def refresh_evaluate_def request_delivery_refresh_def Let_def or_else_def RefreshPolicy_new_def since_def
        DELIVERY_REFERENCE_REFRESH_COOLDOWN_def from_millis_def)
  have c: "\<forall>z\<in>set ([?m] @ [?y]). clock_from (clock (stage_input ?x) 5) (stage_input z)"
    by (simp add: clock_from_def pass_demo_def input_demo_def mono_def)
  have "\<exists>t. last_refresh (policy s') = Some t \<and> clock (stage_input ?x) 5 < t + DELIVERY_REFERENCE_REFRESH_COOLDOWN"
    by (rule delivery_request_answered [OF run _ _ c])
      (simp_all add: pass_demo_def input_demo_def state_demo_def RefreshPolicy_new_def DELIVERY_REFERENCE_REFRESH_COOLDOWN_def from_millis_def mono_def)
  then show ?thesis using run by (auto simp: pass_demo_def input_demo_def)
qed

section \<open>Failing encoders\<close>

text \<open>A run of encodings that all fail without a switch; each with the two texts and the two readings of the clock.\<close>

primrec failing :: "nat \<Rightarrow> int \<Rightarrow> Encoder \<Rightarrow> (bool \<times> bool \<times> instant \<times> instant) list \<Rightarrow> EncodeState \<Rightarrow> EncodeState option" where
  "failing sid d enc [] s = Some s"
| "failing sid d enc (e # es) s =
     (case e of (no_valid, need_switch, t, t') \<Rightarrow>
        case handle_one_frame sid d enc (EncodeError no_valid need_switch) t t' s of
          (s', NothingSent) \<Rightarrow> failing sid d enc es s'
        | _ \<Rightarrow> None)"

abbreviation no_valid_frame :: "bool \<times> bool \<times> instant \<times> instant \<Rightarrow> bool" where "no_valid_frame e \<equiv> fst e"
abbreviation began :: "bool \<times> bool \<times> instant \<times> instant \<Rightarrow> instant" where "began e \<equiv> fst (snd (snd e))"
abbreviation ended :: "bool \<times> bool \<times> instant \<times> instant \<Rightarrow> instant" where "ended e \<equiv> snd (snd (snd e))"

definition max_fail_times :: "Encoder \<Rightarrow> nat" where
  "max_fail_times enc = (if android enc then 9 else 3)"

lemma failed_once:
  assumes "handle_one_frame sid d enc (EncodeError nv sw) t t' s = (s', NothingSent)" "hardware enc"
  shows "encode_fail_counter s' = encode_fail_counter s + 1"
    and "\<not> nv \<Longrightarrow> encode_fail_counter s' < max_fail_times enc \<and> hw_no_valid_frame_since s' = None"
    and "nv \<Longrightarrow> hw_no_valid_frame_since s' = Some (unwrap_or (hw_no_valid_frame_since s) t)
           \<and> t' < unwrap_or (hw_no_valid_frame_since s) t + HW_ENCODER_WARMUP_TIMEOUT"
  using assms
  by (auto simp: handle_one_frame_def fall_back_def Let_def max_fail_times_def since_def HW_ENCODER_WARMUP_TIMEOUT_def from_secs_def split: if_splits)

lemma failing_counter:
  assumes "failing sid d enc es s = Some s'" "hardware enc" "i < length es" "max_fail_times enc \<le> encode_fail_counter s + i + 1"
  shows "no_valid_frame (es ! i)"
  using assms
proof (induction es arbitrary: s i)
  case (Cons e es)
  obtain nv sw t t' where e: "e = (nv, sw, t, t')" by (cases e)
  obtain s1 where s1: "handle_one_frame sid d enc (EncodeError nv sw) t t' s = (s1, NothingSent)" "failing sid d enc es s1 = Some s'"
    using Cons.prems(1) by (auto simp: e split: prod.splits FrameOutcome.splits)
  note once = failed_once [OF s1(1) Cons.prems(2)]
  show ?case
  proof (cases i)
    case 0
    then show ?thesis using once(1,2) Cons.prems(4) e by (cases nv) auto
  next
    case (Suc j)
    then show ?thesis using Cons.IH [OF s1(2) Cons.prems(2), of j] Cons.prems(3,4) once(1) by simp
  qed
qed simp

text \<open>A warm-up that is under way does not begin later than the present call.\<close>

lemma failing_warmup:
  assumes "failing sid d enc es s = Some s'" "hardware enc" "sorted (map began es)" "es \<noteq> []"
    and "is_none_or (hw_no_valid_frame_since s) (\<lambda>a. a \<le> began (hd es))"
  shows "is_none_or (hw_no_valid_frame_since s') (\<lambda>a. a \<le> began (last es))"
  using assms
proof (induction es arbitrary: s)
  case (Cons e es)
  obtain nv sw t t' where e: "e = (nv, sw, t, t')" by (cases e)
  obtain s1 where s1: "handle_one_frame sid d enc (EncodeError nv sw) t t' s = (s1, NothingSent)" "failing sid d enc es s1 = Some s'"
    using Cons.prems(1) by (auto simp: e split: prod.splits FrameOutcome.splits)
  have now: "is_none_or (hw_no_valid_frame_since s1) (\<lambda>a. a \<le> t)"
    using failed_once(2,3) [OF s1(1) Cons.prems(2)] Cons.prems(5) e by (cases nv; cases "hw_no_valid_frame_since s") auto
  show ?case
  proof (cases es)
    case Nil
    then show ?thesis using s1(2) now e by simp
  next
    case (Cons e2 es2)
    then have "is_none_or (hw_no_valid_frame_since s1) (\<lambda>a. a \<le> began (hd es))"
      using now Cons.prems(3) e by (auto simp: is_none_or_iff)
    then show ?thesis using Cons.IH [OF s1(2) Cons.prems(2)] Cons.prems(3) Cons by simp
  qed
qed simp

lemma failing_streak:
  assumes "failing sid d enc es s = Some s'" "hardware enc" "\<forall>e\<in>set es. no_valid_frame e" "es \<noteq> []"
  shows "ended (last es) < unwrap_or (hw_no_valid_frame_since s) (began (hd es)) + HW_ENCODER_WARMUP_TIMEOUT"
  using assms
proof (induction es arbitrary: s)
  case (Cons e es)
  obtain nv sw t t' where e: "e = (nv, sw, t, t')" by (cases e)
  obtain s1 where s1: "handle_one_frame sid d enc (EncodeError nv sw) t t' s = (s1, NothingSent)" "failing sid d enc es s1 = Some s'"
    using Cons.prems(1) by (auto simp: e split: prod.splits FrameOutcome.splits)
  note once = failed_once(3) [OF s1(1) Cons.prems(2)]
  have nv: nv using Cons.prems(3) e by simp
  show ?case
  proof (cases es)
    case Nil
    then show ?thesis using once nv e by simp
  next
    case (Cons e2 es2)
    then show ?thesis using Cons.IH [OF s1(2) Cons.prems(2)] Cons.prems(3) once nv e by simp
  qed
qed simp

lemma failing_append:
  "failing sid d enc (xs @ ys) s = (case failing sid d enc xs s of None \<Rightarrow> None | Some s1 \<Rightarrow> failing sid d enc ys s1)"
  by (induction xs arbitrary: s) (auto split: prod.splits FrameOutcome.splits)

text \<open>
  C37. A hardware encoder that stops delivering is given up in bounded time. In a run of failing encodings that does
  not switch to another encoder, only the first two failures (the first eight on Android) can be real errors; all
  later ones are missing packets of a warm-up, and the run ends less than three seconds after the first of them.
\<close>

theorem encoder_failure_bounded:
  assumes "failing sid d enc es s = Some s'" "hardware enc" "sorted (map began es)" "max_fail_times enc \<le> length es"
    and "is_none_or (hw_no_valid_frame_since s) (\<lambda>a. a \<le> began (hd es))"
  shows "(\<forall>i<length es. max_fail_times enc \<le> i + 1 \<longrightarrow> no_valid_frame (es ! i))
    \<and> ended (last es) < began (es ! (max_fail_times enc - 1)) + HW_ENCODER_WARMUP_TIMEOUT"
proof
  let ?m = "max_fail_times enc - 1"
  have m: "0 < ?m" "?m < length es" using assms(4) by (auto simp: max_fail_times_def split: if_splits)
  show late: "\<forall>i<length es. max_fail_times enc \<le> i + 1 \<longrightarrow> no_valid_frame (es ! i)"
    using failing_counter [OF assms(1,2)] by auto
  have split: "es = take ?m es @ drop ?m es" "drop ?m es \<noteq> []" "take ?m es \<noteq> []" using m by auto
  obtain s1 where s1: "failing sid d enc (take ?m es) s = Some s1" "failing sid d enc (drop ?m es) s1 = Some s'"
    using assms(1) split(1) failing_append [of sid d enc "take ?m es" "drop ?m es" s] by (auto split: option.splits)
  have "sorted (map began (take ?m es))" using assms(3) by (simp add: take_map [symmetric] sorted_wrt_take)
  then have "is_none_or (hw_no_valid_frame_since s1) (\<lambda>a. a \<le> began (last (take ?m es)))"
    using failing_warmup [OF s1(1) assms(2) _ split(3)] assms(5) m by (simp add: hd_take)
  moreover have "began (last (take ?m es)) \<le> began (es ! ?m)"
  proof -
    have "last (take ?m es) = es ! (?m - 1)" using m by (subst last_conv_nth) (auto simp: min_def)
    then show ?thesis using sorted_nth_mono [OF assms(3), of "?m - 1" ?m] m by simp
  qed
  ultimately have "unwrap_or (hw_no_valid_frame_since s1) (began (es ! ?m)) \<le> began (es ! ?m)"
    by (cases "hw_no_valid_frame_since s1") auto
  moreover have "\<forall>e\<in>set (drop ?m es). no_valid_frame e"
  proof
    fix e assume "e \<in> set (drop ?m es)"
    then obtain k where "k < length es - ?m" "es ! (?m + k) = e" using m by (auto simp: in_set_conv_nth)
    then show "no_valid_frame e" using late [rule_format, of "?m + k"] m by simp
  qed
  then have "ended (last es) < unwrap_or (hw_no_valid_frame_since s1) (began (es ! ?m)) + HW_ENCODER_WARMUP_TIMEOUT"
    using failing_streak [OF s1(2) assms(2) _ split(2)] m by (simp add: hd_drop_conv_nth)
  ultimately show "ended (last es) < began (es ! ?m) + HW_ENCODER_WARMUP_TIMEOUT" by linarith
qed

theorem encoder_failure_bounded_witness:
  "\<exists>s'. failing 1 0 encoder_demo [(False, False, 0, 0), (False, False, 10, 10), (True, False, 20, 20), (True, False, 2000000000, 2000000000)] state_demo = Some s'
     \<and> (2000000000 :: nat) < 20 + HW_ENCODER_WARMUP_TIMEOUT"
proof -
  obtain s' where run: "failing 1 0 encoder_demo [(False, False, 0, 0), (False, False, 10, 10), (True, False, 20, 20), (True, False, 2000000000, 2000000000)] state_demo = Some s'"
    by (simp add: handle_one_frame_def fall_back_def Let_def encoder_demo_def state_demo_def since_def HW_ENCODER_WARMUP_TIMEOUT_def from_secs_def)
  then show ?thesis using encoder_failure_bounded [OF run] by (simp add: max_fail_times_def encoder_demo_def state_demo_def)
qed

section \<open>Joining viewers and frame numbers\<close>

text \<open>A run of the join decision in which viewers keep waiting, with the times; \<open>None\<close> if it restarts the stream.\<close>

primrec join_waits :: "instant list \<Rightarrow> bool \<Rightarrow> instant option \<Rightarrow> instant option option" where
  "join_waits [] replay started = Some started"
| "join_waits (now # nows) replay started =
     (case subscriber_join_action True True replay started now of
        (started', JoinRestart) \<Rightarrow> None
      | (started', _) \<Rightarrow> join_waits nows replay started')"

lemma join_waits_started:
  "join_waits nows replay (Some t) = Some r \<Longrightarrow> replay \<or> nows = [] \<Longrightarrow> now \<in> set nows \<Longrightarrow> now < t + from_secs 10"
proof (induction nows)
  case (Cons n nows)
  then have "n < t + from_secs 10" "join_waits nows replay (Some t) = Some r"
    by (auto simp: subscriber_join_action_def since_def from_secs_def split: if_splits)
  with Cons show ?case by auto
qed simp

text \<open>A viewer that waits for its first keyframe gets the stream restarted within ten seconds of the request for it.\<close>

lemma subscriber_join_bounded:
  assumes "join_waits (t # nows) replay None = Some r" "now \<in> set nows"
  shows "replay \<and> now < t + from_secs 10"
proof -
  have "replay" "join_waits nows replay (Some t) = Some r"
    using assms(1) by (auto simp: subscriber_join_action_def split: if_splits)
  then show ?thesis using join_waits_started [of nows replay t r now] assms(2) by simp
qed

text \<open>Streams and frames never have the number zero, and frames are numbered one after the other.\<close>

lemma stream_ids_nonzero: "snd (next_video_stream_id c) \<noteq> 0 \<and> (unat c + 1 < 2 ^ 64 \<longrightarrow> c \<noteq> 0 \<longrightarrow> fst (next_video_stream_id c) = snd (next_video_stream_id c) + 1)"
  by (simp add: next_video_stream_id_def)

lemma frame_ids_consecutive:
  assumes "stamp_video_frame sid n vf = (vf', k, n')"
  shows "k \<noteq> 0" "vf_frame_id vf' = unat k" "n \<noteq> 0 \<Longrightarrow> k = n" "unat n + 1 < 2 ^ 64 \<Longrightarrow> n \<noteq> 0 \<Longrightarrow> unat n' = unat k + 1" "n' \<noteq> 0"
proof -
  have ne: "max x 1 \<noteq> 0" for x :: "64 word" by (cases "x = 0") (simp_all add: max_def)
  show "k \<noteq> 0" "vf_frame_id vf' = unat k" "n' \<noteq> 0" using assms ne by (auto simp: stamp_video_frame_def Let_def)
  have "1 \<le> n" if "n \<noteq> 0" using that by (simp add: word_le_nat_alt Suc_le_eq unat_gt_0)
  then show k: "k = n" if "n \<noteq> 0" using assms that by (auto simp: stamp_video_frame_def Let_def max_def)
  show "unat n' = unat k + 1" if small: "unat n + 1 < 2 ^ 64" and nz: "n \<noteq> 0"
  proof -
    have "unat (n + 1) = unat n + 1" using small by (simp add: unat_word_ariths)
    moreover have "n' = max (n + 1) 1" using assms k [OF nz] by (auto simp: stamp_video_frame_def Let_def)
    ultimately show ?thesis using k [OF nz] by (simp add: max_def word_le_nat_alt)
  qed
qed

end
