(* ===== verification/CodecNegotiation.thy ===== *)
theory CodecNegotiation
  imports ViewerPolicies TextFormat "HOL-Library.Monad_Syntax"
begin

text \<open>
  Choosing the video codec (\<^verbatim>\<open>src/libs/scrap/src/common/codec.rs\<close>, and \<open>get_encoder_config\<close> of
  \<^verbatim>\<open>src/src/server/video_service.rs\<close>): the decoders and wishes of the viewers, the formats that all of them and the
  host can use, the vote between explicit wishes, the configuration of the encoder and the fall-backs, and the bounds
  checks before decoded pictures are read. The encoders that the host finds are an argument. Sizes, frame rate and
  quality of a configuration are passed through unchanged and left out.
\<close>

section \<open>Formats and wishes\<close>

datatype CodecFormat = VP8 | VP9 | AV1 | H264 | H265 | UnknownFormat

datatype PreferCodec = PAuto | PVP8 | PVP9 | PAV1 | PAV1_SW | PAV1_HW | PH264 | PH264_HQ | PH265 | PH265_HQ

record SupportedDecoding =
  ability_vp8 :: int
  ability_vp9 :: int
  ability_av1 :: int
  ability_h264 :: int
  ability_h265 :: int
  preferring :: PreferCodec
  prefer_i444 :: bool
  i444_vp9 :: bool
  i444_av1 :: bool

definition SupportedDecoding_default :: SupportedDecoding where
  "SupportedDecoding_default = \<lparr>ability_vp8 = 0, ability_vp9 = 0, ability_av1 = 0, ability_h264 = 0, ability_h265 = 0, preferring = PAuto,
     prefer_i444 = False, i444_vp9 = False, i444_av1 = False\<rparr>"

definition format_request :: "PreferCodec \<Rightarrow> PreferCodec" where
  "format_request p =
     (case p of PAV1_SW \<Rightarrow> PAV1 | PAV1_HW \<Rightarrow> PAV1 | PH264_HQ \<Rightarrow> PH264 | PH265_HQ \<Rightarrow> PH265 | other \<Rightarrow> other)"

record UsableCodecs =
  u_vp8 :: bool
  u_vp9 :: bool
  u_av1 :: bool
  u_h264 :: bool
  u_h265 :: bool

definition supports :: "UsableCodecs \<Rightarrow> PreferCodec \<Rightarrow> bool" where
  "supports u p =
     (case format_request p of
        PAuto \<Rightarrow> True | PVP8 \<Rightarrow> u_vp8 u | PVP9 \<Rightarrow> u_vp9 u
      | PAV1 \<Rightarrow> u_av1 u | PAV1_SW \<Rightarrow> u_av1 u | PAV1_HW \<Rightarrow> u_av1 u
      | PH264 \<Rightarrow> u_h264 u | PH264_HQ \<Rightarrow> u_h264 u | PH265 \<Rightarrow> u_h265 u | PH265_HQ \<Rightarrow> u_h265 u)"

definition explicit_codec_preference_order :: "PreferCodec list" where
  "explicit_codec_preference_order = [PAV1, PH265, PH264, PVP9, PVP8]"

type_synonym decodings = "(int \<times> SupportedDecoding) list"

definition votes :: "decodings \<Rightarrow> PreferCodec \<Rightarrow> nat" where
  "votes ds p = length (filter (\<lambda>d. format_request (preferring (snd d)) = p) ds)"

fun most_wanted :: "decodings \<Rightarrow> UsableCodecs \<Rightarrow> PreferCodec list \<Rightarrow> PreferCodec option \<times> nat \<Rightarrow> PreferCodec option \<times> nat" where
  "most_wanted ds u [] best = best"
| "most_wanted ds u (p # ps) (sel, n) =
     (if \<not> supports u p then most_wanted ds u ps (sel, n)
      else if votes ds p > n then most_wanted ds u ps (Some p, votes ds p)
      else most_wanted ds u ps (sel, n))"

definition with_profile :: "decodings \<Rightarrow> PreferCodec \<Rightarrow> PreferCodec" where
  "with_profile ds p =
     (let wants = (\<lambda>hq. \<exists>d\<in>set ds. preferring (snd d) = hq)
      in case p of
           PH264 \<Rightarrow> if wants PH264_HQ then PH264_HQ else PH264
         | PH265 \<Rightarrow> if wants PH265_HQ then PH265_HQ else PH265
         | other \<Rightarrow> other)"

definition preferred_explicit_codec :: "decodings \<Rightarrow> UsableCodecs \<Rightarrow> PreferCodec option" where
  "preferred_explicit_codec ds u = map_option (with_profile ds) (fst (most_wanted ds u explicit_codec_preference_order (None, 0)))"

definition available_encoding_profile :: "PreferCodec \<Rightarrow> bool \<Rightarrow> bool \<Rightarrow> PreferCodec" where
  "available_encoding_profile p h264_hq h265_hq =
     (if p = PH264_HQ \<and> \<not> h264_hq then PH264 else if p = PH265_HQ \<and> \<not> h265_hq then PH265 else p)"

definition codec_for_preference :: "PreferCodec \<Rightarrow> CodecFormat \<Rightarrow> CodecFormat" where
  "codec_for_preference p auto_codec =
     (case p of
        PVP8 \<Rightarrow> VP8 | PVP9 \<Rightarrow> VP9 | PAV1 \<Rightarrow> AV1 | PAV1_SW \<Rightarrow> AV1 | PAV1_HW \<Rightarrow> AV1
      | PH264 \<Rightarrow> H264 | PH264_HQ \<Rightarrow> H264 | PH265 \<Rightarrow> H265 | PH265_HQ \<Rightarrow> H265 | PAuto \<Rightarrow> auto_codec)"

definition preferred_codec :: "decodings \<Rightarrow> UsableCodecs \<Rightarrow> PreferCodec \<Rightarrow> PreferCodec" where
  "preferred_codec ds u host_default =
     (case preferred_explicit_codec ds u of
        Some p \<Rightarrow> p
      | None \<Rightarrow> if supports u host_default then host_default else PAuto)"

definition preference_from_codec_option :: "string \<Rightarrow> PreferCodec" where
  "preference_from_codec_option c =
     (if c = ''vp8'' then PVP8
      else if c = ''vp9'' then PVP9
      else if c \<in> {''av1'', ''av1-hw'', ''av1-sw'', ''av1-legacy''} then PAV1
      else if c \<in> {''h264'', ''h264-hw'', ''h264-sw''} then PH264
      else if c \<in> {''h264-hq'', ''h264-hq-sw''} then PH264_HQ
      else if c \<in> {''h265'', ''h265-hw'', ''h265-sw''} then PH265
      else if c \<in> {''h265-hq'', ''h265-hq-sw''} then PH265_HQ
      else PAuto)"

definition auto_codec_for_usable :: "UsableCodecs \<Rightarrow> CodecFormat" where
  "auto_codec_for_usable u =
     (if u_av1 u then AV1 else if u_h265 u then H265 else if u_h264 u then H264 else if u_vp9 u then VP9
      else if u_vp8 u then VP8 else VP9)"

definition runtime_software_fallback_codec :: "decodings \<Rightarrow> CodecFormat option" where
  "runtime_software_fallback_codec ds =
     (if ds \<noteq> [] \<and> (\<forall>d\<in>set ds. ability_vp9 (snd d) > 0) then Some VP9
      else if ds \<noteq> [] \<and> (\<forall>d\<in>set ds. ability_vp8 (snd d) > 0) then Some VP8 else None)"

section \<open>Choosing the implementation\<close>

datatype DecoderPreference = DAuto | DHardware | DSoftware

definition ends_with :: "string \<Rightarrow> string \<Rightarrow> bool" where
  "ends_with s suf = (length suf \<le> length s \<and> drop (length s - length suf) s = suf)"

definition DecoderPreference_from_option :: "string \<Rightarrow> DecoderPreference" where
  "DecoderPreference_from_option v =
     (if ends_with v ''-sw'' then DSoftware
      else if ends_with v ''-hw'' \<or> v \<in> {''h264'', ''h265'', ''h264-hq'', ''h265-hq''} then DHardware
      else DAuto)"

definition use_hardware :: "DecoderPreference \<Rightarrow> bool \<Rightarrow> bool" where
  "use_hardware p prefer_hardware = (case p of DAuto \<Rightarrow> prefer_hardware | DHardware \<Rightarrow> True | DSoftware \<Rightarrow> False)"

definition decoder_backend_order :: "bool \<Rightarrow> nat \<Rightarrow> bool list" where
  "decoder_backend_order prefer_hardware fallback =
     (let hardware_first = (prefer_hardware \<noteq> (fallback mod 2 \<noteq> 0)) in [hardware_first, \<not> hardware_first])"

definition encoder_backend_preference :: "string \<Rightarrow> CodecFormat \<Rightarrow> bool \<Rightarrow> bool" where
  "encoder_backend_preference option_value format prefer_hardware =
     (let selected = preference_from_codec_option option_value
      in if selected = PAuto \<or> codec_for_preference selected UnknownFormat \<noteq> format then prefer_hardware
         else use_hardware (DecoderPreference_from_option option_value) prefer_hardware)"

text \<open>
  What the host has: names (in ASCII) of encoders in memory per format, and formats of the graphics card, as far as
  no service has given it up. \<open>vram_feature\<close> says whether the build has the encoders of the graphics card.
\<close>

record Host =
  try_get_hardware :: "CodecFormat \<Rightarrow> string option"
  try_get_software :: "CodecFormat \<Rightarrow> string option"
  try_get_high_quality :: "CodecFormat \<Rightarrow> string option"
  hwram_preferred :: "CodecFormat \<Rightarrow> string option"
  is_hardware_encoder :: "string \<Rightarrow> bool"
  vram_available :: "CodecFormat \<Rightarrow> bool"
  vram_try_get :: "CodecFormat \<Rightarrow> bool"
  vram_feature :: bool
  disable_av1 :: bool
  encoder_option :: string
  prefer_hardware_codec :: bool

definition encoder_prefers_hardware :: "Host \<Rightarrow> CodecFormat \<Rightarrow> bool" where
  "encoder_prefers_hardware h format = encoder_backend_preference (encoder_option h) format (prefer_hardware_codec h)"

section \<open>The negotiation\<close>

record SupportedEncoding =
  e_vp8 :: bool
  e_av1 :: bool
  e_av1_hw :: bool
  e_h264 :: bool
  e_h265 :: bool
  e_h264_hq :: bool
  e_h265_hq :: bool

text \<open>The global state of the module.\<close>

record Negotiation =
  PEER_DECODINGS :: decodings
  ENCODE_CODEC_FORMAT :: CodecFormat
  ENCODE_CODEC_PREFERENCE :: PreferCodec
  USABLE_ENCODING :: "SupportedEncoding option"
  ENOCDE_NOT_USE :: "(string \<times> bool) list"

definition Negotiation_initial :: Negotiation where
  "Negotiation_initial = \<lparr>PEER_DECODINGS = [], ENCODE_CODEC_FORMAT = VP9, ENCODE_CODEC_PREFERENCE = PAuto, USABLE_ENCODING = None,
     ENOCDE_NOT_USE = []\<rparr>"

text \<open>\<open>VRamEncoder::set_not_use\<close>, and \<open>VRamEncoder::available\<close>, which finds nothing while any service has given it up.\<close>

definition set_not_use :: "string \<Rightarrow> bool \<Rightarrow> Negotiation \<Rightarrow> Negotiation" where
  "set_not_use name not_use n = n\<lparr>ENOCDE_NOT_USE := AList.update name not_use (ENOCDE_NOT_USE n)\<rparr>"

definition without_vram :: "Host \<Rightarrow> Host" where
  "without_vram h = h\<lparr>vram_available := (\<lambda>_. False), vram_try_get := (\<lambda>_. False)\<rparr>"

definition present_host :: "Negotiation \<Rightarrow> Host \<Rightarrow> Host" where
  "present_host n h = (if list_ex snd (ENOCDE_NOT_USE n) then without_vram h else h)"

datatype EncodingUpdate = Update int SupportedDecoding | Remove int | NewOnlyVP9 int | Check

definition update_decodings :: "EncodingUpdate \<Rightarrow> decodings \<Rightarrow> decodings" where
  "update_decodings up ds =
     (case up of
        Update i d \<Rightarrow> AList.update i d ds
      | Remove i \<Rightarrow> AList.delete i ds
      | NewOnlyVP9 i \<Rightarrow> AList.update i (SupportedDecoding_default\<lparr>ability_vp9 := 1\<rparr>) ds
      | Check \<Rightarrow> ds)"

definition all_decode :: "(SupportedDecoding \<Rightarrow> int) \<Rightarrow> decodings \<Rightarrow> bool" where
  "all_decode ability ds = (ds \<noteq> [] \<and> (\<forall>d\<in>set ds. ability (snd d) > 0))"

definition usable_codecs :: "Host \<Rightarrow> decodings \<Rightarrow> UsableCodecs" where
  "usable_codecs h ds =
     \<lparr>u_vp8 = all_decode ability_vp8 ds, u_vp9 = all_decode ability_vp9 ds,
      u_av1 = (all_decode ability_av1 ds \<and> \<not> disable_av1 h),
      u_h264 = (all_decode ability_h264 ds
        \<and> (vram_available h H264 \<or> try_get_hardware h H264 \<noteq> None \<or> try_get_software h H264 \<noteq> None)),
      u_h265 = (all_decode ability_h265 ds
        \<and> (vram_available h H265 \<or> try_get_hardware h H265 \<noteq> None \<or> try_get_software h H265 \<noteq> None))\<rparr>"

definition encoder_update :: "Host \<Rightarrow> EncodingUpdate \<Rightarrow> Negotiation \<Rightarrow> Negotiation" where
  "encoder_update h0 up n =
     (let h = present_host n h0; ds = update_decodings up (PEER_DECODINGS n); u = usable_codecs h ds;
          h264_hq = (all_decode ability_h264 ds \<and> try_get_high_quality h H264 \<noteq> None);
          h265_hq = (all_decode ability_h265 ds \<and> try_get_high_quality h H265 \<noteq> None);
          p = available_encoding_profile (preferred_codec ds u (preference_from_codec_option (encoder_option h))) h264_hq h265_hq
      in n\<lparr>PEER_DECODINGS := ds, ENCODE_CODEC_FORMAT := codec_for_preference p (auto_codec_for_usable u), ENCODE_CODEC_PREFERENCE := p,
          USABLE_ENCODING := Some \<lparr>e_vp8 = u_vp8 u, e_av1 = u_av1 u, e_av1_hw = (u_av1 u \<and> try_get_hardware h AV1 \<noteq> None),
            e_h264 = u_h264 u, e_h265 = u_h265 u, e_h264_hq = h264_hq, e_h265_hq = h265_hq\<rparr>\<rparr>)"

definition high_quality_profile_required :: "Negotiation \<Rightarrow> bool" where
  "high_quality_profile_required n = (ENCODE_CODEC_PREFERENCE n \<in> {PH264_HQ, PH265_HQ})"

section \<open>Configurations and fall-backs\<close>

datatype EncoderCfg = VPX CodecFormat | AOM | HWRAM string bool | VRAM CodecFormat

definition apply_codec_fallback :: "CodecFormat \<Rightarrow> Negotiation \<Rightarrow> Negotiation" where
  "apply_codec_fallback format n =
     (if ENCODE_CODEC_FORMAT n = format then n else n\<lparr>ENCODE_CODEC_FORMAT := format, ENCODE_CODEC_PREFERENCE := PAuto\<rparr>)"

definition format_of_name :: "string \<Rightarrow> CodecFormat" where
  "format_of_name name0 =
     (let name = to_ascii_lowercase name0
      in if contains_str ''vp8'' name then VP8
         else if contains_str ''vp9'' name then VP9
         else if contains_str ''av1'' name then AV1
         else if contains_str ''h264'' name \<or> contains_str ''x264'' name then H264
         else H265)"

text \<open>A configuration of the graphics card for another format changes nothing.\<close>

definition set_fallback :: "EncoderCfg \<Rightarrow> Negotiation \<Rightarrow> Negotiation" where
  "set_fallback cfg n =
     (case cfg of
        VPX f \<Rightarrow> apply_codec_fallback (if f = VP8 then VP8 else VP9) n
      | AOM \<Rightarrow> apply_codec_fallback AV1 n
      | HWRAM name _ \<Rightarrow> apply_codec_fallback (format_of_name name) n
      | VRAM f \<Rightarrow> if f = H264 \<or> f = H265 then apply_codec_fallback f n else n)"

definition set_software_fallback_codec :: "Negotiation \<Rightarrow> Negotiation \<times> CodecFormat option" where
  "set_software_fallback_codec n =
     (case runtime_software_fallback_codec (PEER_DECODINGS n) of
        None \<Rightarrow> (n, None)
      | Some f \<Rightarrow> (apply_codec_fallback f n, Some f))"

definition use_i444 :: "EncoderCfg \<Rightarrow> Negotiation \<Rightarrow> bool" where
  "use_i444 cfg n =
     (let ds = PEER_DECODINGS n;
          usable = (case cfg of
              VPX f \<Rightarrow> f \<noteq> VP8 \<and> (\<forall>d\<in>set ds. i444_vp9 (snd d))
            | AOM \<Rightarrow> \<forall>d\<in>set ds. i444_av1 (snd d)
            | _ \<Rightarrow> False)
      in (\<forall>d\<in>set ds. prefer_i444 (snd d)) \<and> usable \<and> ds \<noteq> [])"

definition software_cfg :: "decodings \<Rightarrow> EncoderCfg option" where
  "software_cfg ds = map_option (\<lambda>f. VPX (if f = VP8 then VP8 else VP9)) (runtime_software_fallback_codec ds)"

text \<open>
  The choice of the configuration; \<open>None\<close> is the error that no common fall-back exists. A service \<open>name\<close> whose frames do not come
  from the graphics card (\<open>off_gpu\<close>: the portable service, GDI, a capturer without it, a camera) gives up its encoders for
  all services, and the negotiation is renewed first.
\<close>

definition chosen_config :: "Host \<Rightarrow> Negotiation \<Rightarrow> EncoderCfg option" where
  "chosen_config h n =
     (let f = ENCODE_CODEC_FORMAT n
      in if f = H264 \<or> f = H265
         then let hq = high_quality_profile_required n;
                  ram = (if hq then try_get_high_quality h f else hwram_preferred h f);
                  prefer_vram = (encoder_prefers_hardware h f \<or> is_none_or ram (is_hardware_encoder h))
              in if \<not> hq \<and> prefer_vram \<and> vram_try_get h f then Some (VRAM f)
                 else (case ram of
                         Some name \<Rightarrow> Some (HWRAM name hq)
                       | None \<Rightarrow> software_cfg (PEER_DECODINGS n))
         else if f = VP8 \<or> f = VP9 then Some (VPX f)
         else if f = AV1
         then if encoder_prefers_hardware h AV1
              then (case try_get_hardware h AV1 of Some name \<Rightarrow> Some (HWRAM name False) | None \<Rightarrow> Some AOM)
              else Some AOM
         else Some (VPX VP9))"

definition get_encoder_config :: "Host \<Rightarrow> string \<Rightarrow> bool \<Rightarrow> Negotiation \<Rightarrow> Negotiation \<times> EncoderCfg option" where
  "get_encoder_config h name off_gpu n =
     (let n1 = (if vram_feature h \<and> off_gpu then set_not_use name True n else n);
          n2 = (if vram_feature h then encoder_update h Check n1 else n1)
      in (n2, chosen_config (present_host n2 h) n2))"

definition cfg_format :: "EncoderCfg \<Rightarrow> CodecFormat" where
  "cfg_format cfg = (case cfg of VPX f \<Rightarrow> f | AOM \<Rightarrow> AV1 | HWRAM name _ \<Rightarrow> format_of_name name | VRAM f \<Rightarrow> f)"

text \<open>\<open>setup_encoder\<close> up to opening the encoder, and \<open>Encoder::new\<close> when it cannot be opened.\<close>

definition setup_encoder :: "Host \<Rightarrow> string \<Rightarrow> bool \<Rightarrow> Negotiation \<Rightarrow> Negotiation \<times> EncoderCfg option" where
  "setup_encoder h name off_gpu n =
     (case get_encoder_config h name off_gpu n of (n1, None) \<Rightarrow> (n1, None) | (n1, Some cfg) \<Rightarrow> (set_fallback cfg n1, Some cfg))"

definition encoder_open_failed :: "EncoderCfg \<Rightarrow> Negotiation \<Rightarrow> Negotiation" where
  "encoder_open_failed cfg n =
     (case cfg of VPX _ \<Rightarrow> n | AOM \<Rightarrow> n | _ \<Rightarrow> fst (set_software_fallback_codec n))"

section \<open>Every viewer can decode\<close>

definition decodes :: "SupportedDecoding \<Rightarrow> CodecFormat \<Rightarrow> bool" where
  "decodes d f =
     (case f of
        VP8 \<Rightarrow> ability_vp8 d > 0 | VP9 \<Rightarrow> ability_vp9 d > 0 | AV1 \<Rightarrow> ability_av1 d > 0
      | H264 \<Rightarrow> ability_h264 d > 0 | H265 \<Rightarrow> ability_h265 d > 0 | UnknownFormat \<Rightarrow> False)"

definition usable :: "UsableCodecs \<Rightarrow> CodecFormat \<Rightarrow> bool" where
  "usable u f =
     (case f of VP8 \<Rightarrow> u_vp8 u | VP9 \<Rightarrow> u_vp9 u | AV1 \<Rightarrow> u_av1 u | H264 \<Rightarrow> u_h264 u | H265 \<Rightarrow> u_h265 u | UnknownFormat \<Rightarrow> False)"

lemma usable_decodes: "usable (usable_codecs h ds) f \<Longrightarrow> d \<in> set ds \<Longrightarrow> decodes (snd d) f"
  by (cases f) (auto simp: usable_def usable_codecs_def decodes_def all_decode_def)

lemma auto_usable: "usable u f \<Longrightarrow> usable u (auto_codec_for_usable u)"
  by (cases f) (auto simp: usable_def auto_codec_for_usable_def)

lemma supports_usable: "supports u p \<Longrightarrow> p \<noteq> PAuto \<Longrightarrow> usable u (codec_for_preference p a)"
  by (cases p) (auto simp: supports_def format_request_def usable_def codec_for_preference_def)

lemma supports_profile [simp]:
  "supports u (available_encoding_profile p x y) = supports u p" "supports u (with_profile ds p) = supports u p"
  by (cases p; auto simp: available_encoding_profile_def with_profile_def supports_def format_request_def Let_def)+

lemma most_wanted_supported:
  "most_wanted ds u ps (sel, n) = (sel', n') \<Longrightarrow> sel' = sel \<or> (\<exists>p. sel' = Some p \<and> p \<in> set ps \<and> supports u p)"
  by (induction ps arbitrary: sel n) (fastforce split: if_splits)+

lemma preferred_codec_supported: "supports u (preferred_codec ds u host)"
proof (cases "preferred_explicit_codec ds u")
  case None
  then show ?thesis by (simp add: preferred_codec_def) (simp add: supports_def format_request_def)
next
  case (Some p)
  then obtain q n where "most_wanted ds u explicit_codec_preference_order (None, 0) = (Some q, n)" "p = with_profile ds q"
    by (auto simp: preferred_explicit_codec_def) (metis prod.collapse)
  then have "supports u p" using most_wanted_supported by fastforce
  then show ?thesis by (simp add: preferred_codec_def Some)
qed

lemma update_format_usable:
  assumes "usable (usable_codecs (present_host n h) ds) f" "ds = update_decodings up (PEER_DECODINGS n)"
  shows "usable (usable_codecs (present_host n h) ds) (ENCODE_CODEC_FORMAT (encoder_update h up n))"
proof -
  let ?h = "present_host n h"
  define p where "p = available_encoding_profile (preferred_codec ds (usable_codecs ?h ds) (preference_from_codec_option (encoder_option ?h)))
    (all_decode ability_h264 ds \<and> try_get_high_quality ?h H264 \<noteq> None) (all_decode ability_h265 ds \<and> try_get_high_quality ?h H265 \<noteq> None)"
  have "supports (usable_codecs ?h ds) p" by (simp add: p_def preferred_codec_supported)
  then have "usable (usable_codecs ?h ds) (codec_for_preference p (auto_codec_for_usable (usable_codecs ?h ds)))"
    using supports_usable [of _ p] auto_usable [OF assms(1)] by (cases "p = PAuto") (auto simp: codec_for_preference_def)
  then show ?thesis using assms(2) by (simp add: encoder_update_def Let_def p_def)
qed

text \<open>A format that is usable without the graphics card stays usable, whatever the services give up.\<close>

lemma usable_without_vram: "usable (usable_codecs (without_vram h) ds) f \<Longrightarrow> usable (usable_codecs (present_host n h) ds) f"
  by (cases f) (auto simp: usable_def usable_codecs_def present_host_def without_vram_def)

lemma fallback_decodes: "runtime_software_fallback_codec ds = Some f \<Longrightarrow> d \<in> set ds \<Longrightarrow> decodes (snd d) f"
  by (auto simp: runtime_software_fallback_codec_def decodes_def split: if_splits)

lemma fallback_formats: "runtime_software_fallback_codec ds = Some f \<Longrightarrow> f = VP8 \<or> f = VP9"
  by (auto simp: runtime_software_fallback_codec_def split: if_splits)

text \<open>The encoders that the host finds for a format have names of this format.\<close>

definition names_match :: "Host \<Rightarrow> bool" where
  "names_match h \<longleftrightarrow> (\<forall>f name. f \<in> {AV1, H264, H265} \<longrightarrow>
     try_get_hardware h f = Some name \<or> try_get_high_quality h f = Some name \<or> hwram_preferred h f = Some name \<longrightarrow> format_of_name name = f)"

lemma names_match_present [simp]: "names_match (present_host n h) = names_match h"
  by (simp add: names_match_def present_host_def without_vram_def)

text \<open>
  The operations on the shared state, in any order; what the host finds may be different at every one of them,
  within \<open>H\<close>.
\<close>

inductive negotiated :: "Host set \<Rightarrow> Negotiation \<Rightarrow> bool" for H where
  initial: "negotiated H Negotiation_initial"
| update: "negotiated H n \<Longrightarrow> h \<in> H \<Longrightarrow> negotiated H (encoder_update h up n)"
| configure: "negotiated H n \<Longrightarrow> h \<in> H \<Longrightarrow> negotiated H (fst (setup_encoder h name off_gpu n))"
| open_failed: "negotiated H n \<Longrightarrow> negotiated H (encoder_open_failed cfg n)"
| software: "negotiated H n \<Longrightarrow> negotiated H (fst (set_software_fallback_codec n))"
| not_use: "negotiated H n \<Longrightarrow> negotiated H (set_not_use name b n)"

text \<open>A format that all viewers decode and every host state encodes, without the graphics card.\<close>

definition common_format :: "Host set \<Rightarrow> decodings \<Rightarrow> CodecFormat \<Rightarrow> bool" where
  "common_format H ds f \<longleftrightarrow> (\<forall>h\<in>H. usable (usable_codecs (without_vram h) ds) f)"

definition all_can :: "Negotiation \<Rightarrow> CodecFormat \<Rightarrow> bool" where
  "all_can n f \<longleftrightarrow> (\<forall>d\<in>set (PEER_DECODINGS n). decodes (snd d) f)"

text \<open>The format in use is a known one, and every viewer decodes it if there is a common one.\<close>

definition format_ok :: "Host set \<Rightarrow> Negotiation \<Rightarrow> bool" where
  "format_ok H n \<longleftrightarrow> ENCODE_CODEC_FORMAT n \<noteq> UnknownFormat
     \<and> ((\<exists>f. common_format H (PEER_DECODINGS n) f) \<longrightarrow> all_can n (ENCODE_CODEC_FORMAT n))"

lemma apply_fallback [simp]:
  "PEER_DECODINGS (apply_codec_fallback f n) = PEER_DECODINGS n" "ENCODE_CODEC_FORMAT (apply_codec_fallback f n) = f"
  by (simp_all add: apply_codec_fallback_def)

lemma format_ok_fallback:
  "format_ok H n \<Longrightarrow> runtime_software_fallback_codec (PEER_DECODINGS n) = Some f \<Longrightarrow> format_ok H (apply_codec_fallback f n)"
  using fallback_formats [of "PEER_DECODINGS n" f] by (auto simp: format_ok_def all_can_def fallback_decodes)

lemma format_ok_software: "format_ok H n \<Longrightarrow> format_ok H (fst (set_software_fallback_codec n))"
  by (auto simp: set_software_fallback_codec_def format_ok_fallback split: option.splits)

lemma format_ok_not_use [simp]: "format_ok H (set_not_use name b n) = format_ok H n"
  by (simp add: format_ok_def set_not_use_def all_can_def)

lemma format_ok_update:
  assumes "h \<in> H"
  shows "format_ok H (encoder_update h up n)"
proof -
  have "codec_for_preference p (auto_codec_for_usable u) \<noteq> UnknownFormat" for p u
    by (cases p) (auto simp: codec_for_preference_def auto_codec_for_usable_def)
  then have k: "ENCODE_CODEC_FORMAT (encoder_update h up n) \<noteq> UnknownFormat" by (simp add: encoder_update_def Let_def)
  have p: "PEER_DECODINGS (encoder_update h up n) = update_decodings up (PEER_DECODINGS n)" by (simp add: encoder_update_def Let_def)
  have "all_can (encoder_update h up n) (ENCODE_CODEC_FORMAT (encoder_update h up n))"
    if "common_format H (PEER_DECODINGS (encoder_update h up n)) f" for f
  proof -
    have "usable (usable_codecs (present_host n h) (update_decodings up (PEER_DECODINGS n))) f"
      using that assms usable_without_vram unfolding common_format_def p by blast
    from usable_decodes [OF update_format_usable [OF this refl]] show ?thesis by (auto simp: all_can_def p)
  qed
  with k show ?thesis by (auto simp: format_ok_def)
qed

text \<open>The configuration is for the negotiated format or for a software format that all viewers decode.\<close>

lemma config_format:
  assumes "chosen_config h n = Some cfg" "names_match h" "ENCODE_CODEC_FORMAT n \<noteq> UnknownFormat"
  shows "cfg_format cfg = ENCODE_CODEC_FORMAT n \<or> runtime_software_fallback_codec (PEER_DECODINGS n) = Some (cfg_format cfg)"
proof -
  have name: "format_of_name m = f" if "f \<in> {AV1, H264, H265}"
    "try_get_hardware h f = Some m \<or> try_get_high_quality h f = Some m \<or> hwram_preferred h f = Some m" for f m
    using assms(2) that by (auto simp: names_match_def)
  consider "ENCODE_CODEC_FORMAT n \<in> {H264, H265}" | "ENCODE_CODEC_FORMAT n \<in> {VP8, VP9}" | "ENCODE_CODEC_FORMAT n = AV1"
    using assms(3) by (cases "ENCODE_CODEC_FORMAT n") auto
  then show ?thesis
  proof cases
    case 1
    then show ?thesis using assms(1) name [of "ENCODE_CODEC_FORMAT n"] fallback_formats [of "PEER_DECODINGS n"]
      by (auto simp: chosen_config_def Let_def cfg_format_def software_cfg_def split: if_splits option.splits)
  next
    case 2
    then show ?thesis using assms(1) by (auto simp: chosen_config_def Let_def cfg_format_def)
  next
    case 3
    then show ?thesis using assms(1) name [of AV1]
      by (auto simp: chosen_config_def Let_def cfg_format_def split: if_splits option.splits)
  qed
qed

lemma chosen_set_fallback:
  assumes "chosen_config h n = Some cfg"
  shows "set_fallback cfg n = apply_codec_fallback (cfg_format cfg) n"
  using assms by (auto simp: chosen_config_def software_cfg_def set_fallback_def cfg_format_def Let_def
      split: EncoderCfg.splits if_splits option.splits)

lemma get_config_ok:
  assumes "format_ok H n" "h \<in> H" "get_encoder_config h name off_gpu n = (n1, r)"
  shows "format_ok H n1" "PEER_DECODINGS n1 = PEER_DECODINGS n" "r = chosen_config (present_host n1 h) n1"
proof -
  have c: "PEER_DECODINGS (encoder_update h Check m) = PEER_DECODINGS m" for m
    by (simp add: encoder_update_def Let_def update_decodings_def)
  show "format_ok H n1" using assms(1,3) format_ok_update [OF assms(2)] by (auto simp: get_encoder_config_def Let_def)
  show "PEER_DECODINGS n1 = PEER_DECODINGS n" using assms(3) by (auto simp: get_encoder_config_def Let_def c set_not_use_def)
  show "r = chosen_config (present_host n1 h) n1" using assms(3) by (auto simp: get_encoder_config_def Let_def)
qed

lemma setup_ok:
  assumes "format_ok H n" "h \<in> H" "names_match h" "setup_encoder h name off_gpu n = (n', r)"
  shows "format_ok H n'" "PEER_DECODINGS n' = PEER_DECODINGS n" "r = Some cfg \<Longrightarrow> cfg_format cfg = ENCODE_CODEC_FORMAT n'"
proof -
  obtain n1 r1 where g: "get_encoder_config h name off_gpu n = (n1, r1)" by force
  note c = get_config_ok [OF assms(1,2) g]
  have "format_ok H n' \<and> PEER_DECODINGS n' = PEER_DECODINGS n \<and> (r = Some cfg \<longrightarrow> cfg_format cfg = ENCODE_CODEC_FORMAT n')"
  proof (cases r1)
    case None
    then show ?thesis using assms(4) g c(1,2) by (simp add: setup_encoder_def)
  next
    case (Some cfg1)
    then have ch: "chosen_config (present_host n1 h) n1 = Some cfg1" using c(3) by simp
    have n': "n' = apply_codec_fallback (cfg_format cfg1) n1" "r = Some cfg1"
      using assms(4) g Some chosen_set_fallback [OF ch] by (simp_all add: setup_encoder_def)
    have "ENCODE_CODEC_FORMAT n1 \<noteq> UnknownFormat" using c(1) by (simp add: format_ok_def)
    from config_format [OF ch _ this] assms(3)
    have "n' = n1 \<or> runtime_software_fallback_codec (PEER_DECODINGS n1) = Some (cfg_format cfg1)"
      using n'(1) by (auto simp: apply_codec_fallback_def)
    then have "format_ok H n'" using c(1) format_ok_fallback n'(1) by auto
    then show ?thesis using n' c(2) by simp
  qed
  then show "format_ok H n'" "PEER_DECODINGS n' = PEER_DECODINGS n" "r = Some cfg \<Longrightarrow> cfg_format cfg = ENCODE_CODEC_FORMAT n'"
    by blast+
qed

lemma negotiated_format_ok:
  assumes "negotiated H n" "\<And>h. h \<in> H \<Longrightarrow> names_match h"
  shows "format_ok H n"
  using assms(1)
proof (induction rule: negotiated.induct)
  case (configure n h name off_gpu)
  then show ?case using setup_ok(1) [OF configure.IH configure.hyps(2) assms(2) [OF configure.hyps(2)], of name off_gpu] by (metis prod.collapse)
next
  case (open_failed n cfg)
  then show ?case by (auto simp: encoder_open_failed_def format_ok_software split: EncoderCfg.splits)
next
  case initial
  show ?case by (simp add: format_ok_def all_can_def Negotiation_initial_def)
qed (simp_all add: format_ok_update format_ok_software)

text \<open>Viewers that all decode VP8, or all decode VP9, always get an encoder.\<close>

lemma config_exists: "runtime_software_fallback_codec (PEER_DECODINGS n) \<noteq> None \<Longrightarrow> chosen_config h n \<noteq> None"
  by (auto simp: chosen_config_def software_cfg_def Let_def split: option.splits)

lemma setup_exists:
  assumes "runtime_software_fallback_codec (PEER_DECODINGS n) \<noteq> None" "h \<in> H" "format_ok H n"
  shows "snd (setup_encoder h name off_gpu n) \<noteq> None"
proof -
  obtain n1 r where g: "get_encoder_config h name off_gpu n = (n1, r)" by force
  note c = get_config_ok [OF assms(3,2) g]
  have "r \<noteq> None" unfolding c(3) by (rule config_exists) (use assms(1) c(2) in simp)
  then show ?thesis by (auto simp: setup_encoder_def g)
qed

text \<open>
  C38. Every viewer can decode what the encoder makes. Over every sequence of viewers that join, leave or change their
  decoders, of encoders that are set up or fail to open, of runtime fall-backs and of services that give up the
  graphics card, the host finding other encoders at each of them: as long as there is a format that all viewers
  decode and the host can always encode without the graphics card, the encoder that is set up next makes a format
  that each viewer decodes, which is also the format in use afterwards. If the viewers all decode VP8 or all decode VP9, an encoder is
  set up.
\<close>

theorem negotiated_decodable:
  assumes "negotiated H n" "\<And>h. h \<in> H \<Longrightarrow> names_match h" "common_format H (PEER_DECODINGS n) f"
    and "h \<in> H" "d \<in> set (PEER_DECODINGS n)"
  shows "decodes (snd d) (ENCODE_CODEC_FORMAT n)
    \<and> (\<forall>n' cfg. setup_encoder h name off_gpu n = (n', Some cfg) \<longrightarrow>
          decodes (snd d) (cfg_format cfg) \<and> cfg_format cfg = ENCODE_CODEC_FORMAT n')
    \<and> ((\<forall>v\<in>set (PEER_DECODINGS n). decodes (snd v) VP8) \<or> (\<forall>v\<in>set (PEER_DECODINGS n). decodes (snd v) VP9)
          \<longrightarrow> (\<exists>n' cfg. setup_encoder h name off_gpu n = (n', Some cfg)))"
proof (intro conjI allI impI)
  have ok: "format_ok H n" using negotiated_format_ok [OF assms(1,2)] by blast
  then show "decodes (snd d) (ENCODE_CODEC_FORMAT n)" using assms(3,5) by (auto simp: format_ok_def all_can_def)
  show "\<exists>n' cfg. setup_encoder h name off_gpu n = (n', Some cfg)"
    if "(\<forall>v\<in>set (PEER_DECODINGS n). decodes (snd v) VP8) \<or> (\<forall>v\<in>set (PEER_DECODINGS n). decodes (snd v) VP9)"
  proof -
    have "runtime_software_fallback_codec (PEER_DECODINGS n) \<noteq> None"
      using that assms(5) by (auto simp: runtime_software_fallback_codec_def decodes_def)
    from setup_exists [OF this assms(4) ok, of name off_gpu] show ?thesis by (metis option.exhaust prod.collapse)
  qed
  fix n' cfg assume r: "setup_encoder h name off_gpu n = (n', Some cfg)"
  note s = setup_ok [OF ok assms(4) assms(2) [OF assms(4)] r]
  show e: "cfg_format cfg = ENCODE_CODEC_FORMAT n'" using s(3) by simp
  show "decodes (snd d) (cfg_format cfg)" using s(1,2) assms(3,5) unfolding e by (auto simp: format_ok_def all_can_def)
qed

text \<open>A viewer with H.264 and VP9, a host with one encoder for H.264 that does not open.\<close>

definition host_demo :: Host where
  "host_demo = \<lparr>try_get_hardware = (\<lambda>f. if f = H264 then Some ''h264_nvenc'' else None), try_get_software = (\<lambda>_. None),
     try_get_high_quality = (\<lambda>_. None), hwram_preferred = (\<lambda>f. if f = H264 then Some ''h264_nvenc'' else None),
     is_hardware_encoder = (\<lambda>_. True), vram_available = (\<lambda>_. False), vram_try_get = (\<lambda>_. False), vram_feature = False,
     disable_av1 = False, encoder_option = [], prefer_hardware_codec = True\<rparr>"

definition viewer_demo :: SupportedDecoding where
  "viewer_demo = SupportedDecoding_default\<lparr>ability_vp9 := 1, ability_h264 := 1, preferring := PH264_HQ\<rparr>"

definition negotiation_demo :: Negotiation where
  "negotiation_demo = encoder_open_failed (HWRAM ''h264_nvenc'' False)
     (fst (setup_encoder host_demo ''monitor0'' False (encoder_update host_demo (Update 1 viewer_demo) Negotiation_initial)))"

lemma nvenc_format: "format_of_name ''h264_nvenc'' = H264"
  by (simp add: format_of_name_def to_ascii_lowercase_def ascii_lower_def Let_def)

lemma host_demo_names: "names_match host_demo"
  by (simp add: names_match_def host_demo_def nvenc_format)

theorem negotiated_decodable_witness:
  "ENCODE_CODEC_FORMAT (encoder_update host_demo (Update 1 viewer_demo) Negotiation_initial) = H264
    \<and> ENCODE_CODEC_FORMAT negotiation_demo = VP9
    \<and> (\<exists>n' cfg. setup_encoder host_demo ''monitor0'' False negotiation_demo = (n', Some cfg) \<and> decodes viewer_demo (cfg_format cfg))"
proof -
  have up: "encoder_update host_demo (Update 1 viewer_demo) Negotiation_initial =
    \<lparr>PEER_DECODINGS = [(1, viewer_demo)], ENCODE_CODEC_FORMAT = H264, ENCODE_CODEC_PREFERENCE = PH264,
     USABLE_ENCODING = Some \<lparr>e_vp8 = False, e_av1 = False, e_av1_hw = False, e_h264 = True, e_h265 = False, e_h264_hq = False, e_h265_hq = False\<rparr>,
     ENOCDE_NOT_USE = []\<rparr>"
    by (simp add: encoder_update_def present_host_def update_decodings_def Negotiation_initial_def usable_codecs_def all_decode_def viewer_demo_def
        SupportedDecoding_default_def host_demo_def available_encoding_profile_def preferred_codec_def preferred_explicit_codec_def
        explicit_codec_preference_order_def supports_def format_request_def votes_def with_profile_def codec_for_preference_def Let_def)
  have run: "negotiated {host_demo} negotiation_demo" unfolding negotiation_demo_def
    by (rule open_failed, rule configure, rule update, rule initial) simp_all
  have fb: "runtime_software_fallback_codec [(1, viewer_demo)] = Some VP9"
    by (simp add: runtime_software_fallback_codec_def viewer_demo_def SupportedDecoding_default_def)
  have peers: "PEER_DECODINGS (fst (setup_encoder host_demo ''monitor0'' False
      (encoder_update host_demo (Update 1 viewer_demo) Negotiation_initial))) = [(1, viewer_demo)]"
    unfolding up by (simp add: setup_encoder_def get_encoder_config_def chosen_config_def present_host_def host_demo_def
        high_quality_profile_required_def set_fallback_def nvenc_format Let_def)
  have n: "PEER_DECODINGS negotiation_demo = [(1, viewer_demo)]" "ENCODE_CODEC_FORMAT negotiation_demo = VP9"
    unfolding negotiation_demo_def encoder_open_failed_def EncoderCfg.case set_software_fallback_codec_def peers fb by (simp_all add: peers)
  have c: "common_format {host_demo} (PEER_DECODINGS negotiation_demo) VP9"
    by (simp add: n common_format_def usable_def usable_codecs_def without_vram_def all_decode_def viewer_demo_def SupportedDecoding_default_def)
  have v: "\<forall>v\<in>set (PEER_DECODINGS negotiation_demo). decodes (snd v) VP9"
    by (simp add: n decodes_def viewer_demo_def SupportedDecoding_default_def)
  have h: "\<And>h. h \<in> {host_demo} \<Longrightarrow> names_match h" by (simp add: host_demo_names)
  show ?thesis
    using negotiated_decodable [OF run h c, of host_demo "(1, viewer_demo)" "''monitor0''" False] v n up by auto
qed

section \<open>The vote\<close>

text \<open>The first of the usable formats with the most votes, if there is a vote at all.\<close>

lemma most_wanted_first:
  assumes "most_wanted ds u ps (sel, n) = (sel', n')"
  shows "n \<le> n'" "\<And>p. p \<in> set ps \<Longrightarrow> supports u p \<Longrightarrow> votes ds p \<le> n'"
    and "n' = n \<and> sel' = sel \<or>
      (\<exists>k<length ps. sel' = Some (ps ! k) \<and> supports u (ps ! k) \<and> votes ds (ps ! k) = n' \<and> n < n'
        \<and> (\<forall>j<k. supports u (ps ! j) \<longrightarrow> votes ds (ps ! j) < n'))"
proof -
  show mono: "n \<le> n'" using assms by (induction ps arbitrary: sel n) (fastforce split: if_splits)+
  show "\<And>p. p \<in> set ps \<Longrightarrow> supports u p \<Longrightarrow> votes ds p \<le> n'" using assms
  proof (induction ps arbitrary: sel n)
    case (Cons q qs)
    have "votes ds q \<le> n'" if "supports u q"
    proof -
      have m: "m \<le> n'" if "most_wanted ds u qs (s0, m) = (sel', n')" for s0 m
        using that by (induction qs arbitrary: s0 m) (fastforce split: if_splits)+
      show ?thesis using Cons.prems(3) \<open>supports u q\<close> m by (auto split: if_splits) (meson le_trans not_less)
    qed
    then show ?case using Cons by (auto split: if_splits)
  qed simp
  show "n' = n \<and> sel' = sel \<or>
      (\<exists>k<length ps. sel' = Some (ps ! k) \<and> supports u (ps ! k) \<and> votes ds (ps ! k) = n' \<and> n < n'
        \<and> (\<forall>j<k. supports u (ps ! j) \<longrightarrow> votes ds (ps ! j) < n'))"
    using assms
  proof (induction ps arbitrary: sel n)
    case (Cons q qs)
    let ?win = "\<lambda>m k. sel' = Some (qs ! k) \<and> supports u (qs ! k) \<and> votes ds (qs ! k) = n' \<and> m < n'
        \<and> (\<forall>j<k. supports u (qs ! j) \<longrightarrow> votes ds (qs ! j) < n')"
    show ?case
    proof (cases "supports u q \<and> votes ds q > n")
      case True
      then have "most_wanted ds u qs (Some q, votes ds q) = (sel', n')" using Cons.prems by simp
      from Cons.IH [OF this] show ?thesis
      proof
        assume "n' = votes ds q \<and> sel' = Some q"
        then show ?thesis using True by (intro disjI2 exI [of _ 0]) auto
      next
        assume "\<exists>k<length qs. ?win (votes ds q) k"
        then obtain k where "k < length qs" "?win (votes ds q) k" by blast
        then show ?thesis using True by (intro disjI2 exI [of _ "Suc k"]) (auto simp: less_Suc_eq_0_disj)
      qed
    next
      case False
      then have "most_wanted ds u qs (sel, n) = (sel', n')" using Cons.prems by (auto split: if_splits)
      from Cons.IH [OF this] show ?thesis
      proof
        assume "\<exists>k<length qs. ?win n k"
        then obtain k where k: "k < length qs" "?win n k" by blast
        then have "supports u q \<Longrightarrow> votes ds q < n'" using False by auto
        then show ?thesis using k by (intro disjI2 exI [of _ "Suc k"]) (auto simp: less_Suc_eq_0_disj)
      qed simp
    qed
  qed simp
qed

lemma with_profile_format: "p \<in> set explicit_codec_preference_order \<Longrightarrow> format_request (with_profile ds p) = p"
  by (auto simp: explicit_codec_preference_order_def format_request_def with_profile_def Let_def)

lemma with_profile_wanted: "with_profile ds p = p \<or> (\<exists>d\<in>set ds. preferring (snd d) = with_profile ds p)"
  by (cases "\<exists>d\<in>set ds. preferring (snd d) = PH264_HQ"; cases "\<exists>d\<in>set ds. preferring (snd d) = PH265_HQ"; cases p)
    (simp_all add: with_profile_def Let_def)

text \<open>
  The wish of the majority decides. Among the formats that every viewer and the host can use, the explicit choice
  is one that some viewer asks for and that no other usable format has more requests than, with ties going to AV1,
  H.265, H.264, VP9 and VP8 in this order; without a request for a usable format there is no explicit choice. The
  high-quality profile does not split the vote.
\<close>

theorem codec_vote_majority:
  "(case preferred_explicit_codec ds u of
      None \<Rightarrow> \<forall>p\<in>set explicit_codec_preference_order. supports u p \<longrightarrow> votes ds p = 0
    | Some w \<Rightarrow> let p = format_request w
        in \<exists>k<length explicit_codec_preference_order. explicit_codec_preference_order ! k = p \<and> supports u p \<and> 0 < votes ds p
          \<and> (\<forall>q\<in>set explicit_codec_preference_order. supports u q \<longrightarrow> votes ds q \<le> votes ds p)
          \<and> (\<forall>j<k. supports u (explicit_codec_preference_order ! j) \<longrightarrow> votes ds (explicit_codec_preference_order ! j) < votes ds p)
          \<and> (w = p \<or> (\<exists>d\<in>set ds. preferring (snd d) = w)))"
proof -
  obtain sel n where r: "most_wanted ds u explicit_codec_preference_order (None, 0) = (sel, n)" by (cases "most_wanted ds u explicit_codec_preference_order (None, 0)")
  note facts = most_wanted_first [OF r]
  show ?thesis
  proof (cases sel)
    case None
    then have "n = 0" using facts(3) by auto
    then show ?thesis using facts(2) None r by (auto simp: preferred_explicit_codec_def)
  next
    case (Some p)
    then obtain k where k: "k < length explicit_codec_preference_order" "explicit_codec_preference_order ! k = p" "supports u p" "votes ds p = n" "0 < n"
      "\<forall>j<k. supports u (explicit_codec_preference_order ! j) \<longrightarrow> votes ds (explicit_codec_preference_order ! j) < n"
      using facts(3) by auto
    have "p \<in> set explicit_codec_preference_order" using k(1,2) nth_mem by blast
    then have p: "format_request (with_profile ds p) = p" "with_profile ds p = p \<or> (\<exists>d\<in>set ds. preferring (snd d) = with_profile ds p)"
      using with_profile_format with_profile_wanted by blast+
    have "preferred_explicit_codec ds u = Some (with_profile ds p)" using r Some by (simp add: preferred_explicit_codec_def)
    then show ?thesis using k p facts(2) by (auto simp: Let_def p(1) intro!: exI [of _ k])
  qed
qed

theorem codec_vote_majority_witness:
  "preferred_explicit_codec [(1, viewer_demo), (2, SupportedDecoding_default\<lparr>preferring := PVP9\<rparr>), (3, SupportedDecoding_default\<lparr>preferring := PH264\<rparr>)]
     \<lparr>u_vp8 = True, u_vp9 = True, u_av1 = True, u_h264 = True, u_h265 = True\<rparr> = Some PH264_HQ
    \<and> (\<exists>k<length explicit_codec_preference_order. explicit_codec_preference_order ! k = PH264)"
proof -
  let ?ds = "[(1, viewer_demo), (2, SupportedDecoding_default\<lparr>preferring := PVP9\<rparr>), (3, SupportedDecoding_default\<lparr>preferring := PH264\<rparr>)]"
  let ?u = "\<lparr>u_vp8 = True, u_vp9 = True, u_av1 = True, u_h264 = True, u_h265 = True\<rparr>"
  have r: "preferred_explicit_codec ?ds ?u = Some PH264_HQ"
    by (simp add: preferred_explicit_codec_def explicit_codec_preference_order_def supports_def format_request_def votes_def viewer_demo_def
        SupportedDecoding_default_def with_profile_def Let_def)
  show ?thesis using codec_vote_majority [where ds = ?ds and u = ?u] unfolding r by (auto simp: Let_def format_request_def)
qed

section \<open>Reading decoded pictures\<close>

definition checked_add :: "nat \<Rightarrow> nat \<Rightarrow> nat option" where
  "checked_add a b = (if a + b \<le> u64_max then Some (a + b) else None)"

definition checked_mul :: "nat \<Rightarrow> nat \<Rightarrow> nat option" where
  "checked_mul a b = (if a * b \<le> u64_max then Some (a * b) else None)"

definition div_ceil :: "nat \<Rightarrow> nat \<Rightarrow> nat" where
  "div_ceil a b = (a + (b - 1)) div b"

definition yuv420_planes_complete :: "int \<Rightarrow> (int \<times> nat) list \<Rightarrow> bool" where
  "yuv420_planes_complete height planes =
     (if height \<le> 0 \<or> planes = [] then False
      else list_all (\<lambda>(i, (linesize, len)).
             let rows = (if i = 0 then nat height else div_ceil (nat height) 2)
             in linesize > 0 \<and> is_some_and (checked_mul (nat linesize) rows) (\<lambda>needed. len \<ge> needed)) (enumerate 0 planes))"

definition strided_read_end :: "nat \<Rightarrow> nat \<Rightarrow> nat \<Rightarrow> nat \<Rightarrow> nat option" where
  "strided_read_end offset stride rows row_bytes =
     (if rows = 0 \<or> row_bytes = 0 then Some offset
      else do {
        m \<leftarrow> checked_mul (rows - 1) stride;
        a \<leftarrow> checked_add offset m;
        checked_add a row_bytes
      })"

definition mediacodec_yuv420_read_in_bounds :: "nat \<Rightarrow> nat \<Rightarrow> nat \<Rightarrow> nat \<Rightarrow> nat \<Rightarrow> nat \<Rightarrow> nat \<Rightarrow> bool \<Rightarrow> bool" where
  "mediacodec_yuv420_read_in_bounds len stride slice_height lft up width height semi_planar =
     is_some_and
       (do {
          y_size \<leftarrow> checked_mul stride slice_height;
          let chroma_rows = div_ceil height 2;
          let chroma_width = div_ceil width 2;
          ty \<leftarrow> checked_mul up stride;
          y_offset \<leftarrow> checked_add ty lft;
          y_end \<leftarrow> strided_read_end y_offset stride height width;
          chroma_end \<leftarrow>
            (if semi_planar
             then do {
               tc \<leftarrow> checked_mul (up div 2) stride;
               a \<leftarrow> checked_add y_size tc;
               uv_offset \<leftarrow> checked_add a (lft div 2 * 2);
               w2 \<leftarrow> checked_mul chroma_width 2;
               strided_read_end uv_offset stride chroma_rows w2
             }
             else do {
               let uv_stride = div_ceil stride 2;
               uv_size \<leftarrow> checked_mul uv_stride (div_ceil slice_height 2);
               tc \<leftarrow> checked_mul (up div 2) uv_stride;
               uv_offset \<leftarrow> checked_add tc (lft div 2);
               a \<leftarrow> checked_add y_size uv_offset;
               u_end \<leftarrow> strided_read_end a uv_stride chroma_rows chroma_width;
               b \<leftarrow> checked_add y_size uv_size;
               c \<leftarrow> checked_add b uv_offset;
               v_end \<leftarrow> strided_read_end c uv_stride chroma_rows chroma_width;
               Some (max u_end v_end)
             });
          Some (max y_end chroma_end)
        })
       (\<lambda>end_offset. end_offset \<le> len)"

lemma checked_add_value: "checked_add a b = Some z \<Longrightarrow> z = a + b"
  by (simp add: checked_add_def split: if_splits)

lemma checked_mul_value: "checked_mul a b = Some z \<Longrightarrow> z = a * b"
  by (simp add: checked_mul_def split: if_splits)

lemma strided_read_end_covers:
  assumes "strided_read_end offset stride rows row_bytes = Some e" "r < rows" "c < row_bytes"
  shows "offset + r * stride + c < e"
proof -
  have "r * stride \<le> (rows - 1) * stride" using assms(2) by (intro mult_le_mono1) simp
  moreover have "e = offset + (rows - 1) * stride + row_bytes"
    using assms by (auto simp: strided_read_end_def checked_add_def checked_mul_def split: if_splits bind_splits)
  ultimately show ?thesis using assms(3) by linarith
qed

text \<open>
  No picture is read past its buffer. If the check before the conversion succeeds, then every byte that it reads
  lies in the buffer: the luma rows of the visible region, and its chroma rows in the interleaved or in the two
  separate planes, for every alignment, odd sizes included.
\<close>

theorem yuv420_reads_in_bounds:
  assumes "mediacodec_yuv420_read_in_bounds len stride slice_height lft up width height semi_planar"
  shows "(\<forall>r<height. \<forall>c<width. (up + r) * stride + lft + c < len)
    \<and> (\<forall>r<div_ceil height 2. \<forall>c<div_ceil width 2.
         (if semi_planar
          then stride * slice_height + (up div 2 + r) * stride + lft div 2 * 2 + 2 * c + 1 < len
          else let s = div_ceil stride 2; u = stride * slice_height + (up div 2 + r) * s + lft div 2 + c
               in u < len \<and> u + s * div_ceil slice_height 2 < len))"
proof -
  have y: "\<exists>y_end. strided_read_end (up * stride + lft) stride height width = Some y_end \<and> y_end \<le> len"
    using assms
    by (auto simp: mediacodec_yuv420_read_in_bounds_def Let_def bind_eq_Some_conv is_some_and_iff dest!: checked_add_value checked_mul_value)
  then have luma: "(up + r) * stride + lft + c < len" if "r < height" "c < width" for r c
    using strided_read_end_covers [of "up * stride + lft" stride height width _ r c] that by (fastforce simp: algebra_simps)
  show ?thesis
  proof (cases semi_planar)
    case True
    then obtain e where e: "strided_read_end (stride * slice_height + up div 2 * stride + lft div 2 * 2) stride (div_ceil height 2) (div_ceil width 2 * 2) = Some e" "e \<le> len"
      using assms
      by (auto simp: mediacodec_yuv420_read_in_bounds_def Let_def bind_eq_Some_conv is_some_and_iff dest!: checked_add_value checked_mul_value)
    have "stride * slice_height + (up div 2 + r) * stride + lft div 2 * 2 + 2 * k + 1 < len" if "r < div_ceil height 2" "k < div_ceil width 2" for r k
    proof -
      have "2 * k + 1 < div_ceil width 2 * 2" using that(2) by linarith
      then show ?thesis using strided_read_end_covers [OF e(1) that(1), of "2 * k + 1"] e(2) by (simp add: algebra_simps)
    qed
    with luma True show ?thesis by simp
  next
    case False
    then obtain u v where uv: "strided_read_end (stride * slice_height + (up div 2 * div_ceil stride 2 + lft div 2)) (div_ceil stride 2) (div_ceil height 2) (div_ceil width 2) = Some u"
      "strided_read_end (stride * slice_height + div_ceil stride 2 * div_ceil slice_height 2 + (up div 2 * div_ceil stride 2 + lft div 2)) (div_ceil stride 2) (div_ceil height 2) (div_ceil width 2) = Some v"
      "u \<le> len" "v \<le> len"
      using assms
      by (auto simp: mediacodec_yuv420_read_in_bounds_def Let_def bind_eq_Some_conv is_some_and_iff dest!: checked_add_value checked_mul_value)
    have "stride * slice_height + (up div 2 + r) * div_ceil stride 2 + lft div 2 + k < len
        \<and> stride * slice_height + (up div 2 + r) * div_ceil stride 2 + lft div 2 + k + div_ceil stride 2 * div_ceil slice_height 2 < len"
      if "r < div_ceil height 2" "k < div_ceil width 2" for r k
      using strided_read_end_covers [OF uv(1) that] strided_read_end_covers [OF uv(2) that] uv(3,4) by (simp add: algebra_simps)
    with luma False show ?thesis by (simp add: Let_def)
  qed
qed

theorem yuv420_reads_in_bounds_witness:
  "mediacodec_yuv420_read_in_bounds 24 4 4 0 0 3 3 True \<and> (0 + 2) * 4 + 0 + 2 < (24 :: nat)"
proof -
  have ok: "mediacodec_yuv420_read_in_bounds 24 4 4 0 0 3 3 True"
    by (simp add: mediacodec_yuv420_read_in_bounds_def strided_read_end_def checked_add_def checked_mul_def div_ceil_def Let_def)
  have "(0 + 2) * 4 + 0 + 2 < (24 :: nat)" using conjunct1 [OF yuv420_reads_in_bounds [OF ok], rule_format, of 2 2] by simp
  with ok show ?thesis by blast
qed

end
