(* ===== verification/PortableHelper.thy ===== *)
theory PortableHelper
  imports Prelude "HOL-Library.Multiset"
begin

text \<open>
  The privileged helper that captures secure desktops, \<^verbatim>\<open>src/src/server/portable_service.rs\<close>: the shared
  memory with its one-time token and its counters, the life cycle of the helper in the main process with
  its launch, authentication, first frame, restart and stop, and the gate of
  \<^verbatim>\<open>src/src/server/video_service.rs\<close> that starts it. The global variables of the module are one record.
  Every function is one step except the launch, whose stages are steps of their own, and the handshake,
  which waits for the peer between the check of the token and its end. Displays, processes, names and
  tokens that the platform provides are arguments; strings are their bytes. The generation counter is
  a natural number: 64 bits are not exhausted by launches.
\<close>

unbundle bit_operations_syntax

section \<open>The shared memory\<close>

type_synonym bytes = "8 word list"

definition IPC_TOKEN_LEN :: nat where "IPC_TOKEN_LEN = 64"
definition SHMEM_NAME_MAX_LEN :: nat where "SHMEM_NAME_MAX_LEN = 64"
definition FRAME_ALIGN :: nat where "FRAME_ALIGN = 64"
definition SIZE_COUNTER :: nat where "SIZE_COUNTER = 4 * 2"
definition ADDR_IPC_TOKEN :: nat where "ADDR_IPC_TOKEN = 0"

text \<open>The sizes of the structures of the platform and of the compiler.\<close>

record Layout =
  size_cursorinfo :: nat
  size_capturer_para :: nat
  size_frame_info :: nat

definition ADDR_CURSOR_PARA :: nat where "ADDR_CURSOR_PARA = ADDR_IPC_TOKEN + IPC_TOKEN_LEN"

definition ADDR_CURSOR_COUNTER :: "Layout \<Rightarrow> nat" where
  "ADDR_CURSOR_COUNTER l = ADDR_CURSOR_PARA + size_cursorinfo l"

definition ADDR_CAPTURER_PARA :: "Layout \<Rightarrow> nat" where
  "ADDR_CAPTURER_PARA l = ADDR_CURSOR_COUNTER l + SIZE_COUNTER"

definition ADDR_CAPTURE_FRAME_INFO :: "Layout \<Rightarrow> nat" where
  "ADDR_CAPTURE_FRAME_INFO l = ADDR_CAPTURER_PARA l + size_capturer_para l"

definition ADDR_CAPTURE_WOULDBLOCK :: "Layout \<Rightarrow> nat" where
  "ADDR_CAPTURE_WOULDBLOCK l = ADDR_CAPTURE_FRAME_INFO l + size_frame_info l"

definition ADDR_CAPTURE_FRAME_COUNTER :: "Layout \<Rightarrow> nat" where
  "ADDR_CAPTURE_FRAME_COUNTER l = ADDR_CAPTURE_WOULDBLOCK l + 4"

definition ADDR_CAPTURE_FRAME :: "Layout \<Rightarrow> nat" where
  "ADDR_CAPTURE_FRAME l = (ADDR_CAPTURE_FRAME_COUNTER l + SIZE_COUNTER + FRAME_ALIGN - 1) div FRAME_ALIGN * FRAME_ALIGN"

definition MIN_RUNTIME_SHMEM_LEN :: "Layout \<Rightarrow> nat" where
  "MIN_RUNTIME_SHMEM_LEN l = ADDR_CAPTURE_FRAME l + FRAME_ALIGN"

definition align_to :: "nat \<Rightarrow> nat \<Rightarrow> nat" where
  "align_to v a = (v + a - 1) div a * a"

definition is_valid_capture_frame_length :: "Layout \<Rightarrow> nat \<Rightarrow> nat \<Rightarrow> bool" where
  "is_valid_capture_frame_length l shmem_len frame_len =
     (let frame_capacity = shmem_len - ADDR_CAPTURE_FRAME l in frame_len > 0 \<and> frame_len \<le> frame_capacity)"

text \<open>The size of the memory for the largest resolution of the displays.\<close>

fun max_pixel :: "(nat \<times> nat) list \<Rightarrow> nat \<Rightarrow> nat" where
  "max_pixel [] acc = acc"
| "max_pixel ((w, h) # rs) acc =
     (let pixel = align_to w 64 * align_to h 64 in max_pixel rs (if acc < pixel then pixel else acc))"

definition shmem_size :: "Layout \<Rightarrow> (nat \<times> nat) list list \<Rightarrow> nat" where
  "shmem_size l displays = max (align_to (ADDR_CAPTURE_FRAME l + max_pixel (concat displays) 0 * 4) 64) (MIN_RUNTIME_SHMEM_LEN l)"

definition is_ascii_digit :: "8 word \<Rightarrow> bool" where "is_ascii_digit b = (48 \<le> b \<and> b \<le> 57)"
definition is_ascii_uppercase :: "8 word \<Rightarrow> bool" where "is_ascii_uppercase b = (65 \<le> b \<and> b \<le> 90)"
definition is_ascii_lowercase :: "8 word \<Rightarrow> bool" where "is_ascii_lowercase b = (97 \<le> b \<and> b \<le> 122)"

definition is_ascii_hexdigit :: "8 word \<Rightarrow> bool" where
  "is_ascii_hexdigit b = (is_ascii_digit b \<or> 65 \<le> b \<and> b \<le> 70 \<or> 97 \<le> b \<and> b \<le> 102)"

definition is_valid_portable_service_shmem_name :: "bytes \<Rightarrow> bool" where
  "is_valid_portable_service_shmem_name name =
     (name \<noteq> [] \<and> length name \<le> SHMEM_NAME_MAX_LEN
      \<and> (\<forall>b \<in> set name. is_ascii_digit b \<or> is_ascii_uppercase b \<or> is_ascii_lowercase b \<or> b = 95 \<or> b = 45))"

definition is_valid_portable_service_ipc_token :: "bytes \<Rightarrow> bool" where
  "is_valid_portable_service_ipc_token token =
     (length token = IPC_TOKEN_LEN \<and> (\<forall>b \<in> set token. is_ascii_hexdigit b \<and> \<not> is_ascii_uppercase b))"

definition hex_digit :: "nat \<Rightarrow> 8 word" where
  "hex_digit n = (if n < 10 then of_nat (48 + n) else of_nat (87 + n))"

definition generate_one_time_ipc_token :: "8 word list \<Rightarrow> bytes" where
  "generate_one_time_ipc_token random_bytes =
     concat (map (\<lambda>b. [hex_digit (unat b div 16), hex_digit (unat b mod 16)]) random_bytes)"

definition constant_time_ipc_token_eq :: "bytes \<Rightarrow> bytes \<Rightarrow> bool" where
  "constant_time_ipc_token_eq expected candidate =
     (if length expected \<noteq> IPC_TOKEN_LEN \<or> length candidate \<noteq> IPC_TOKEN_LEN then False
      else fold (\<lambda>(a, b) acc. acc OR (a XOR b)) (zip expected candidate) 0 = 0)"

definition shmem_write :: "nat \<Rightarrow> bytes \<Rightarrow> bytes \<Rightarrow> bytes" where
  "shmem_write addr data mem = take addr mem @ data @ drop (addr + length data) mem"

definition write_ipc_token_to_shmem :: "bytes \<Rightarrow> bytes \<Rightarrow> bytes option" where
  "write_ipc_token_to_shmem token mem =
     (if is_valid_portable_service_ipc_token token then Some (shmem_write ADDR_IPC_TOKEN token mem) else None)"

definition clear_ipc_token_in_shmem :: "bytes \<Rightarrow> bytes" where
  "clear_ipc_token_in_shmem mem = shmem_write ADDR_IPC_TOKEN (replicate IPC_TOKEN_LEN 0) mem"

text \<open>Bytes that are not UTF-8 are no token either way.\<close>

definition read_ipc_token_from_shmem :: "bytes \<Rightarrow> bytes option" where
  "read_ipc_token_from_shmem mem =
     (if length mem < ADDR_IPC_TOKEN + IPC_TOKEN_LEN then None
      else let bs = take IPC_TOKEN_LEN (drop ADDR_IPC_TOKEN mem);
               token = takeWhile (\<lambda>b. b \<noteq> 0) bs
           in if token = [] then None
              else if is_valid_portable_service_ipc_token token then Some token else None)"

text \<open>The two counters of an exchange: of the writer and of the reader.\<close>

record Counter =
  wptr :: int
  rptr :: int

definition counter_ready :: "Counter \<Rightarrow> Counter \<times> bool" where
  "counter_ready c = (if rptr c \<noteq> wptr c then (c\<lparr>rptr := wptr c\<rparr>, True) else (c, False))"

definition counter_equal :: "Counter \<Rightarrow> bool" where
  "counter_equal c = (wptr c = rptr c)"

definition increase_counter :: "Counter \<Rightarrow> Counter" where
  "increase_counter c =
     (let iw = wptr c; ir = wptr c;
          iw_plus1 = (if iw = i32_max then 0 else iw + 1);
          c = c\<lparr>wptr := iw_plus1\<rparr>
      in if ir = iw_plus1 then c\<lparr>rptr := iw\<rparr> else c)"

section \<open>The life cycle of the helper\<close>

definition PORTABLE_SERVICE_STARTUP_TIMEOUT :: duration where "PORTABLE_SERVICE_STARTUP_TIMEOUT = from_secs 15"
definition PORTABLE_SERVICE_FIRST_FRAME_TIMEOUT :: duration where "PORTABLE_SERVICE_FIRST_FRAME_TIMEOUT = from_secs 5"
definition MAX_SECURE_CAPTURE_RECOVERY_FAILURES :: nat where "MAX_SECURE_CAPTURE_RECOVERY_FAILURES = 3"
definition SECURE_CAPTURE_RECOVERY_BACKOFF :: duration where "SECURE_CAPTURE_RECOVERY_BACKOFF = from_secs 15"

datatype StartPara = Direct | ElevatedDirect | SecureDesktop | Logon string string

datatype LifecycleState = Stopped | Starting | Ready

record PortableService =
  lc_state :: LifecycleState
  lc_generation :: nat
  NEXT_LIFECYCLE_GENERATION :: nat
  IPC_RUNTIME_GENERATION :: nat
  SECURE_CAPTURE_GENERATION :: nat
  SECURE_DESKTOP_HELPER_GENERATION :: nat
  FIRST_FRAME_GENERATION :: nat
  SECURE_CAPTURE_RECOVERY_FAILURES :: nat
  LAST_SECURE_CAPTURE_RECOVERY_FAILURE :: "instant option"
  SHMEM :: "bytes option"
  SHMEM_RUNTIME_NAME :: "bytes option"
  IPC_RUNTIME_TOKEN :: "bytes option"
  INPUT_VIA_HELPER :: bool
  SENDER :: "nat list"

definition PortableService_initial :: PortableService where
  "PortableService_initial =
     \<lparr>lc_state = Stopped, lc_generation = 0, NEXT_LIFECYCLE_GENERATION = 0, IPC_RUNTIME_GENERATION = 0,
      SECURE_CAPTURE_GENERATION = 0, SECURE_DESKTOP_HELPER_GENERATION = 0, FIRST_FRAME_GENERATION = 0,
      SECURE_CAPTURE_RECOVERY_FAILURES = 0, LAST_SECURE_CAPTURE_RECOVERY_FAILURE = None, SHMEM = None,
      SHMEM_RUNTIME_NAME = None, IPC_RUNTIME_TOKEN = None, INPUT_VIA_HELPER = False, SENDER = []\<rparr>"

definition mark_generation_ready :: "nat \<Rightarrow> PortableService \<Rightarrow> PortableService \<times> bool" where
  "mark_generation_ready generation s =
     (if generation = 0 \<or> lc_generation s \<noteq> generation \<or> lc_state s \<noteq> Starting then (s, False)
      else (s\<lparr>lc_state := Ready\<rparr>, True))"

definition compare_exchange :: "nat \<Rightarrow> nat \<Rightarrow> nat" where
  "compare_exchange generation v = (if v = generation then 0 else v)"

definition clear_generation_if_current :: "nat \<Rightarrow> PortableService \<Rightarrow> PortableService \<times> bool" where
  "clear_generation_if_current generation s =
     (if generation = 0 \<or> lc_generation s \<noteq> generation then (s, False)
      else let owned = (SECURE_CAPTURE_GENERATION s = generation \<or> SECURE_DESKTOP_HELPER_GENERATION s = generation)
           in (s\<lparr>lc_state := Stopped,
                 SECURE_CAPTURE_GENERATION := compare_exchange generation (SECURE_CAPTURE_GENERATION s),
                 SECURE_DESKTOP_HELPER_GENERATION := compare_exchange generation (SECURE_DESKTOP_HELPER_GENERATION s),
                 FIRST_FRAME_GENERATION := (if owned then compare_exchange generation (FIRST_FRAME_GENERATION s) else FIRST_FRAME_GENERATION s),
                 INPUT_VIA_HELPER := False\<rparr>, True))"

definition record_secure_capture_recovery_failure :: "instant \<Rightarrow> PortableService \<Rightarrow> PortableService \<times> nat" where
  "record_secure_capture_recovery_failure now s =
     (let failures = SECURE_CAPTURE_RECOVERY_FAILURES s + 1
      in (s\<lparr>SECURE_CAPTURE_RECOVERY_FAILURES := failures, LAST_SECURE_CAPTURE_RECOVERY_FAILURE := Some now\<rparr>, failures))"

definition first_frame_timed_out :: "bool \<Rightarrow> duration \<Rightarrow> duration \<Rightarrow> bool" where
  "first_frame_timed_out first_frame_received elapsed timeout = (\<not> first_frame_received \<and> elapsed \<ge> timeout)"

definition recovery_allowed :: "nat \<Rightarrow> bool \<Rightarrow> bool" where
  "recovery_allowed failures backoff_elapsed = (failures < MAX_SECURE_CAPTURE_RECOVERY_FAILURES \<or> backoff_elapsed)"

definition set_runtime_ipc_token :: "bytes \<Rightarrow> PortableService \<Rightarrow> PortableService" where
  "set_runtime_ipc_token token s = s\<lparr>IPC_RUNTIME_TOKEN := Some token\<rparr>"

definition start_para_routes_input_via_helper :: "StartPara \<Rightarrow> bool" where
  "start_para_routes_input_via_helper para =
     (case para of Direct \<Rightarrow> False | ElevatedDirect \<Rightarrow> True | SecureDesktop \<Rightarrow> True | Logon _ _ \<Rightarrow> True)"

definition start_para_for_quick_support_process :: "bool \<Rightarrow> StartPara" where
  "start_para_for_quick_support_process elevated = (if elevated then ElevatedDirect else Direct)"

definition clear_runtime_shmem_state :: "PortableService \<Rightarrow> PortableService" where
  "clear_runtime_shmem_state s =
     s\<lparr>SHMEM := None, SHMEM_RUNTIME_NAME := None, IPC_RUNTIME_TOKEN := None, IPC_RUNTIME_GENERATION := 0\<rparr>"

definition consume_runtime_ipc_token_if_match ::
  "bytes \<Rightarrow> PortableService \<Rightarrow> PortableService \<times> bool \<times> bytes option \<times> nat option" where
  "consume_runtime_ipc_token_if_match candidate s =
     (if \<not> is_some_and (IPC_RUNTIME_TOKEN s) (\<lambda>expected. constant_time_ipc_token_eq expected candidate)
      then (s, False, None, None)
      else (s\<lparr>IPC_RUNTIME_TOKEN := None, SHMEM := map_option clear_ipc_token_in_shmem (SHMEM s)\<rparr>, True,
            SHMEM_RUNTIME_NAME s, if IPC_RUNTIME_GENERATION s \<noteq> 0 then Some (IPC_RUNTIME_GENERATION s) else None))"

definition restore_runtime_ipc_token_after_failed_handshake ::
  "bytes \<Rightarrow> bytes option \<Rightarrow> PortableService \<Rightarrow> PortableService" where
  "restore_runtime_ipc_token_after_failed_handshake token expected_shmem_name s =
     (let withdrawn = (if IPC_RUNTIME_TOKEN s = Some token then s\<lparr>IPC_RUNTIME_TOKEN := None\<rparr> else s)
      in if IPC_RUNTIME_TOKEN s \<noteq> None \<and> IPC_RUNTIME_TOKEN s \<noteq> Some token then s
         else if SHMEM_RUNTIME_NAME s \<noteq> expected_shmem_name then withdrawn
         else case Option.bind (SHMEM s) (write_ipc_token_to_shmem token) of
                None \<Rightarrow> withdrawn
              | Some mem \<Rightarrow> s\<lparr>SHMEM := Some mem, IPC_RUNTIME_TOKEN := Some token\<rparr>)"

definition starting_timeout_reset :: "nat \<Rightarrow> instant \<Rightarrow> PortableService \<Rightarrow> PortableService" where
  "starting_timeout_reset launch_token now s =
     (if lc_generation s = launch_token \<and> lc_state s = Starting
      then let s = s\<lparr>lc_state := Stopped\<rparr>;
               s = (if SECURE_CAPTURE_GENERATION s = launch_token
                    then (fst (record_secure_capture_recovery_failure now s))\<lparr>SECURE_CAPTURE_GENERATION := 0\<rparr> else s)
           in s\<lparr>SECURE_DESKTOP_HELPER_GENERATION := compare_exchange launch_token (SECURE_DESKTOP_HELPER_GENERATION s),
                INPUT_VIA_HELPER := False\<rparr>
      else s)"

text \<open>
  The launch in the order of the code: the generation is taken under the lock of the life cycle, the old
  memory is dropped, the new one is created under its own lock, the token is published, the process is
  started. \<open>running\<close> says whether a helper process exists.
\<close>

definition start_begin :: "bool \<Rightarrow> PortableService \<Rightarrow> PortableService \<times> nat option" where
  "start_begin running s =
     (let s = (if lc_state s = Starting \<and> \<not> running then s\<lparr>lc_state := Stopped\<rparr> else s)
      in if lc_state s \<noteq> Stopped then (s, None)
         else let generation = NEXT_LIFECYCLE_GENERATION s + 1
              in (s\<lparr>NEXT_LIFECYCLE_GENERATION := generation, lc_state := Starting, lc_generation := generation\<rparr>, Some generation))"

definition start_create :: "bool \<Rightarrow> nat \<Rightarrow> nat \<Rightarrow> bytes \<Rightarrow> PortableService \<Rightarrow> PortableService" where
  "start_create secure launch_token len name s =
     s\<lparr>SHMEM := Some (replicate len 0), SHMEM_RUNTIME_NAME := Some name, IPC_RUNTIME_GENERATION := launch_token,
       SECURE_CAPTURE_GENERATION := (if secure then launch_token else 0),
       SECURE_DESKTOP_HELPER_GENERATION := (if secure then launch_token else 0), FIRST_FRAME_GENERATION := 0\<rparr>"

text \<open>The platform's part: the resolutions of each display, a memory name, random bytes for the token, and what starting the process answers.\<close>

datatype SpawnAnswer = Spawned | SpawnFailed | ExePathFailed

record LaunchEnv =
  le_layout :: Layout
  le_running :: bool
  le_displays :: "(nat \<times> nat) list list option"
  le_name :: bytes
  le_random :: "8 word list option"
  le_create :: bool
  le_spawn :: SpawnAnswer

text \<open>Whether the memory is cleared when the process was not started.\<close>

definition spawn_clears :: "SpawnAnswer \<Rightarrow> bool" where
  "spawn_clears a = (case a of Spawned \<Rightarrow> False | SpawnFailed \<Rightarrow> True | ExePathFailed \<Rightarrow> False)"

definition start_memory :: "LaunchEnv \<Rightarrow> bool \<Rightarrow> nat \<Rightarrow> PortableService \<Rightarrow> PortableService \<times> bytes option" where
  "start_memory env secure launch_token s =
     (case le_displays env of
        None \<Rightarrow> (s, None)
      | Some displays \<Rightarrow>
          if displays = [] \<or> \<not> is_valid_portable_service_shmem_name (le_name env) then (s, None)
          else case le_random env of
                 None \<Rightarrow> (s, None)
               | Some random_bytes \<Rightarrow>
                   if \<not> le_create env then (s, None)
                   else let token = generate_one_time_ipc_token random_bytes;
                            s = start_create secure launch_token (shmem_size (le_layout env) displays) (le_name env) s
                        in case Option.bind (SHMEM s) (write_ipc_token_to_shmem token) of
                             None \<Rightarrow> (clear_runtime_shmem_state s, None)
                           | Some mem \<Rightarrow> (s\<lparr>SHMEM := Some mem\<rparr>, Some token))"

definition start_portable_service :: "StartPara \<Rightarrow> LaunchEnv \<Rightarrow> PortableService \<Rightarrow> PortableService \<times> bool" where
  "start_portable_service para env s =
     (case start_begin (le_running env) s of
        (s, None) \<Rightarrow> (s, False)
      | (s, Some launch_token) \<Rightarrow>
          (case start_memory env (para = SecureDesktop) launch_token (clear_runtime_shmem_state s) of
             (s, None) \<Rightarrow> (fst (clear_generation_if_current launch_token s), False)
           | (s, Some token) \<Rightarrow>
               let s = set_runtime_ipc_token token s
               in if le_spawn env = Spawned
                  then (s\<lparr>INPUT_VIA_HELPER := start_para_routes_input_via_helper para\<rparr>, True)
                  else let s = (if spawn_clears (le_spawn env) then clear_runtime_shmem_state s else s)
                       in (fst (clear_generation_if_current launch_token s), False)))"

definition lifecycle :: "PortableService \<Rightarrow> LifecycleState" where
  "lifecycle s = lc_state s"

definition ready_generation :: "PortableService \<Rightarrow> nat option" where
  "ready_generation s = (if lc_state s = Ready then Some (lc_generation s) else None)"

definition ready_for_capture :: "PortableService \<Rightarrow> bool" where
  "ready_for_capture s = (ready_generation s \<noteq> None)"

definition helper_running :: "PortableService \<Rightarrow> bool" where
  "helper_running s = (lifecycle s = Ready)"

definition helper_active :: "PortableService \<Rightarrow> bool" where
  "helper_active s = (lifecycle s \<noteq> Stopped)"

definition routes_input_via_helper :: "PortableService \<Rightarrow> bool" where
  "routes_input_via_helper s = (helper_running s \<and> INPUT_VIA_HELPER s)"

definition secure_capture_recovery_allowed :: "instant \<Rightarrow> PortableService \<Rightarrow> PortableService \<times> bool" where
  "secure_capture_recovery_allowed now s =
     (let failures = SECURE_CAPTURE_RECOVERY_FAILURES s;
          backoff_elapsed = is_some_and (LAST_SECURE_CAPTURE_RECOVERY_FAILURE s)
            (\<lambda>last. since now last \<ge> SECURE_CAPTURE_RECOVERY_BACKOFF);
          allowed = recovery_allowed failures backoff_elapsed
      in (if failures \<ge> MAX_SECURE_CAPTURE_RECOVERY_FAILURES \<and> backoff_elapsed
          then s\<lparr>SECURE_CAPTURE_RECOVERY_FAILURES := MAX_SECURE_CAPTURE_RECOVERY_FAILURES - 1\<rparr> else s, allowed))"

definition reset_secure_capture_recovery_failures :: "PortableService \<Rightarrow> PortableService" where
  "reset_secure_capture_recovery_failures s =
     s\<lparr>SECURE_CAPTURE_RECOVERY_FAILURES := 0, LAST_SECURE_CAPTURE_RECOVERY_FAILURE := None, SECURE_CAPTURE_GENERATION := 0\<rparr>"

definition mark_secure_capture_first_frame :: "nat \<Rightarrow> PortableService \<Rightarrow> PortableService" where
  "mark_secure_capture_first_frame generation s =
     (if ready_generation s \<noteq> Some generation then s
      else reset_secure_capture_recovery_failures (s\<lparr>FIRST_FRAME_GENERATION := generation\<rparr>))"

definition send_generation_shutdown :: "nat \<Rightarrow> PortableService \<Rightarrow> PortableService" where
  "send_generation_shutdown generation s = s\<lparr>SENDER := SENDER s @ [generation]\<rparr>"

definition stop_secure_capture_helper :: "PortableService \<Rightarrow> PortableService \<times> bool" where
  "stop_secure_capture_helper s =
     (case ready_generation s of
        None \<Rightarrow> (s, False)
      | Some generation \<Rightarrow>
          if generation = 0 \<or> SECURE_DESKTOP_HELPER_GENERATION s \<noteq> generation then (s, False)
          else case clear_generation_if_current generation s of
                 (s, False) \<Rightarrow> (s, False)
               | (s, True) \<Rightarrow> (send_generation_shutdown generation s, True))"

definition request_secure_capture_restart :: "nat \<Rightarrow> instant \<Rightarrow> PortableService \<Rightarrow> PortableService \<times> bool" where
  "request_secure_capture_restart generation now s =
     (case clear_generation_if_current generation s of
        (s, False) \<Rightarrow> (s, False)
      | (s, True) \<Rightarrow> (send_generation_shutdown generation (fst (record_secure_capture_recovery_failure now s)), True))"

text \<open>The end of an authenticated connection.\<close>

definition connection_closed :: "nat \<Rightarrow> instant \<Rightarrow> PortableService \<Rightarrow> PortableService" where
  "connection_closed generation now s =
     (let secure_capture_generation = (SECURE_CAPTURE_GENERATION s = generation);
          first_frame_received = (FIRST_FRAME_GENERATION s = generation);
          (s, cleared) = clear_generation_if_current generation s
      in if cleared \<and> secure_capture_generation \<and> \<not> first_frame_received
         then fst (record_secure_capture_recovery_failure now s) else s)"

section \<open>The capturer on the shared memory\<close>

text \<open>
  What a call of \<open>frame\<close> finds in the memory: the counters, the header of the frame, the frame, and
  whether the helper would block. The capture parameters that the main process writes for the helper
  (\<open>set_para\<close>) and the initial value of the blocking flag are left out.
\<close>

record FrameInfo =
  fi_length :: nat
  fi_width :: nat
  fi_height :: nat

record FrameArea =
  fa_counter :: Counter
  fa_info :: FrameInfo
  fa_memory :: bytes
  fa_wouldblock :: bool

record CapturerPortable =
  cp_width :: nat
  cp_height :: nat
  cp_generation :: nat
  started_at :: instant
  first_frame_received :: bool

datatype FrameError = BrokenPipe | ShmemDropped | InvalidData | WouldBlock | TimedOut | OtherError

definition CapturerPortable_new :: "(nat \<times> nat) option \<Rightarrow> instant \<Rightarrow> PortableService \<Rightarrow> PortableService \<times> CapturerPortable option" where
  "CapturerPortable_new display now s =
     (case ready_generation s of
        None \<Rightarrow> (s, None)
      | Some generation \<Rightarrow>
          (case SHMEM s of
             None \<Rightarrow> (s, None)
           | Some mem \<Rightarrow>
               let s = s\<lparr>SHMEM := Some (take ADDR_CURSOR_PARA mem @ replicate (length mem - ADDR_CURSOR_PARA) 0)\<rparr>;
                   (width, height) = unwrap_or display (0, 0)
               in if width = 0 \<or> height = 0 then (s, None)
                  else (s\<lparr>SECURE_CAPTURE_GENERATION := generation\<rparr>,
                        Some \<lparr>cp_width = width, cp_height = height, cp_generation = generation, started_at = now,
                              first_frame_received = False\<rparr>)))"

definition capturer_frame ::
  "Layout \<Rightarrow> instant \<Rightarrow> FrameArea \<Rightarrow> CapturerPortable \<Rightarrow> PortableService
     \<Rightarrow> (FrameError + bytes) \<times> FrameArea \<times> CapturerPortable \<times> PortableService" where
  "capturer_frame l now a c s =
     (if ready_generation s \<noteq> Some (cp_generation c) then (Inl BrokenPipe, a, c, s)
      else if SHMEM s = None then (Inl ShmemDropped, a, c, s)
      else case counter_ready (fa_counter a) of
             (k, True) \<Rightarrow>
               let a = a\<lparr>fa_counter := k\<rparr>; frame_len = fi_length (fa_info a)
               in if \<not> is_valid_capture_frame_length l (length (fa_memory a)) frame_len then (Inl InvalidData, a, c, s)
                  else if fi_width (fa_info a) \<noteq> cp_width c \<or> fi_height (fa_info a) \<noteq> cp_height c
                  then (Inl WouldBlock, a, c, s)
                  else let data = take frame_len (drop (ADDR_CAPTURE_FRAME l) (fa_memory a))
                       in if first_frame_received c then (Inr data, a, c, s)
                          else (Inr data, a, c\<lparr>first_frame_received := True\<rparr>, mark_secure_capture_first_frame (cp_generation c) s)
           | (_, False) \<Rightarrow>
               if first_frame_timed_out (first_frame_received c) (since now (started_at c)) PORTABLE_SERVICE_FIRST_FRAME_TIMEOUT
               then (Inl TimedOut, a, c, fst (request_secure_capture_restart (cp_generation c) now s))
               else (Inl (if fa_wouldblock a then WouldBlock else OtherError), a, c, s))"

section \<open>The gate of the video service\<close>

definition INSTALLED_SECURE_CAPTURE_HELPER_START_COOLDOWN :: duration where
  "INSTALLED_SECURE_CAPTURE_HELPER_START_COOLDOWN = from_secs 5"

text \<open>\<open>last_start\<close> is the time of the last start; the result says whether the helper runs.\<close>

definition ensure_installed_secure_capture_helper ::
  "bool \<Rightarrow> instant \<Rightarrow> instant \<Rightarrow> LaunchEnv \<Rightarrow> instant option \<Rightarrow> PortableService \<Rightarrow> PortableService \<times> instant option \<times> bool" where
  "ensure_installed_secure_capture_helper forced t now env last_start s =
     (if \<not> forced then (s, last_start, False)
      else if helper_running s then (s, last_start, True)
      else if helper_active s then (s, last_start, False)
      else (case secure_capture_recovery_allowed t s of
             (s, False) \<Rightarrow> (s, last_start, False)
           | (s, True) \<Rightarrow>
               if is_some_and last_start (\<lambda>l. since now l < INSTALLED_SECURE_CAPTURE_HELPER_START_COOLDOWN) then (s, last_start, False)
               else (case start_portable_service SecureDesktop env s of
                      (s, True) \<Rightarrow> (s, Some now, helper_running s)
                    | (s, False) \<Rightarrow> (s, Some now, False))))"

section \<open>The life cycle as a system\<close>

text \<open>
  The launches in progress, the handshake that has taken a token and is not over (connections are accepted one
  after the other), the open connections and the watchdogs of finished launches. The history keeps the
  generation, memory name and token of every launch that made a memory, and the generation and token of
  every completed handshake. A second launch may begin while the process of the first is not started yet; its
  beginning sets the flag \<open>overlapped\<close>, and from then on the stages of the launches interleave. Names and tokens
  are fresh.
\<close>

datatype LaunchPhase = Begun | Cleared | Created bytes | Published

record Launch =
  l_generation :: nat
  l_para :: StartPara
  l_phase :: LaunchPhase

record HelperSystem =
  svc :: PortableService
  launching :: "Launch list"
  overlapped :: bool
  handshake :: "(bytes \<times> bytes option \<times> nat option) option"
  sessions :: "nat list"
  watchdogs :: "nat list"
  issued :: "(nat \<times> bytes \<times> bytes) list"
  accepted :: "(nat \<times> bytes) list"

definition HelperSystem_initial :: HelperSystem where
  "HelperSystem_initial =
     \<lparr>svc = PortableService_initial, launching = [], overlapped = False, handshake = None, sessions = [], watchdogs = [], issued = [], accepted = []\<rparr>"

definition fresh_issue :: "bytes \<Rightarrow> bytes \<Rightarrow> HelperSystem \<Rightarrow> bool" where
  "fresh_issue name token x = (\<forall>(g, n, t) \<in> set (issued x). n \<noteq> name \<and> t \<noteq> token)"

inductive helper_step :: "HelperSystem \<Rightarrow> HelperSystem \<Rightarrow> bool" where
  refused: "start_begin running (svc x) = (s, None) \<Longrightarrow> helper_step x (x\<lparr>svc := s\<rparr>)"
| begun: "start_begin running (svc x) = (s, Some g)
     \<Longrightarrow> helper_step x (x\<lparr>svc := s, launching := launching x @ [\<lparr>l_generation = g, l_para = para, l_phase = Begun\<rparr>],
                          overlapped := overlapped x \<or> launching x \<noteq> []\<rparr>)"
| cleared: "launching x = pre @ j # post \<Longrightarrow> l_phase j = Begun
     \<Longrightarrow> helper_step x (x\<lparr>svc := clear_runtime_shmem_state (svc x), launching := pre @ j\<lparr>l_phase := Cleared\<rparr> # post\<rparr>)"
| created: "launching x = pre @ j # post \<Longrightarrow> l_phase j = Cleared
     \<Longrightarrow> start_memory env (l_para j = SecureDesktop) (l_generation j) (svc x) = (s, Some token)
     \<Longrightarrow> fresh_issue (le_name env) token x
     \<Longrightarrow> helper_step x (x\<lparr>svc := s, launching := pre @ j\<lparr>l_phase := Created token\<rparr> # post,
                          issued := (l_generation j, le_name env, token) # issued x\<rparr>)"
| not_created: "launching x = pre @ j # post \<Longrightarrow> l_phase j = Cleared
     \<Longrightarrow> start_memory env (l_para j = SecureDesktop) (l_generation j) (svc x) = (s, None)
     \<Longrightarrow> helper_step x (x\<lparr>svc := fst (clear_generation_if_current (l_generation j) s), launching := pre @ post\<rparr>)"
| published: "launching x = pre @ j # post \<Longrightarrow> l_phase j = Created token
     \<Longrightarrow> helper_step x (x\<lparr>svc := set_runtime_ipc_token token (svc x), launching := pre @ j\<lparr>l_phase := Published\<rparr> # post\<rparr>)"
| launched: "launching x = pre @ j # post \<Longrightarrow> l_phase j = Published
     \<Longrightarrow> helper_step x (x\<lparr>svc := (svc x)\<lparr>INPUT_VIA_HELPER := start_para_routes_input_via_helper (l_para j)\<rparr>,
                          launching := pre @ post, watchdogs := l_generation j # watchdogs x\<rparr>)"
| not_launched: "launching x = pre @ j # post \<Longrightarrow> l_phase j = Published
     \<Longrightarrow> s = (if spawn_clears a then clear_runtime_shmem_state (svc x) else svc x)
     \<Longrightarrow> helper_step x (x\<lparr>svc := fst (clear_generation_if_current (l_generation j) s), launching := pre @ post\<rparr>)"
| watchdog: "g \<in> set (watchdogs x) \<Longrightarrow> helper_step x (x\<lparr>svc := starting_timeout_reset g now (svc x), watchdogs := remove1 g (watchdogs x)\<rparr>)"
| presented: "handshake x = None \<Longrightarrow> consume_runtime_ipc_token_if_match candidate (svc x) = (s, True, name, g)
     \<Longrightarrow> helper_step x (x\<lparr>svc := s, handshake := Some (candidate, name, g)\<rparr>)"
| rejected: "handshake x = None \<Longrightarrow> consume_runtime_ipc_token_if_match candidate (svc x) = (s, False, name, g)
     \<Longrightarrow> helper_step x (x\<lparr>svc := s\<rparr>)"
| authenticated: "handshake x = Some (token, name, Some g)
     \<Longrightarrow> helper_step x (x\<lparr>handshake := None, sessions := g # sessions x, accepted := (g, token) # accepted x\<rparr>)"
| without_generation: "handshake x = Some (token, name, None) \<Longrightarrow> helper_step x (x\<lparr>handshake := None\<rparr>)"
| handshake_failed: "handshake x = Some (token, name, g)
     \<Longrightarrow> s = restore_runtime_ipc_token_after_failed_handshake token name (svc x)
     \<Longrightarrow> helper_step x (x\<lparr>handshake := None,
           svc := (case g of None \<Rightarrow> s | Some generation \<Rightarrow> fst (clear_generation_if_current generation s))\<rparr>)"
| pong: "g \<in> set (sessions x) \<Longrightarrow> helper_step x (x\<lparr>svc := fst (mark_generation_ready g (svc x))\<rparr>)"
| closed: "g \<in> set (sessions x)
     \<Longrightarrow> helper_step x (x\<lparr>svc := connection_closed g now (svc x), sessions := remove1 g (sessions x)\<rparr>)"
| stopped: "helper_step x (x\<lparr>svc := fst (stop_secure_capture_helper (svc x))\<rparr>)"
| restarted: "helper_step x (x\<lparr>svc := fst (request_secure_capture_restart g now (svc x))\<rparr>)"
| asked: "helper_step x (x\<lparr>svc := fst (secure_capture_recovery_allowed now (svc x))\<rparr>)"
| reset: "helper_step x (x\<lparr>svc := reset_secure_capture_recovery_failures (svc x)\<rparr>)"
| armed: "helper_step x (x\<lparr>svc := fst (CapturerPortable_new display now (svc x))\<rparr>)"
| frame: "capturer_frame l now a c (svc x) = (r, a', c', s) \<Longrightarrow> helper_step x (x\<lparr>svc := s\<rparr>)"

section \<open>What the operations keep\<close>

definition runtime :: "PortableService \<Rightarrow> nat \<times> bytes option \<times> bytes option" where
  "runtime s = (IPC_RUNTIME_GENERATION s, SHMEM_RUNTIME_NAME s, IPC_RUNTIME_TOKEN s)"

definition lives_on :: "PortableService \<Rightarrow> PortableService \<Rightarrow> bool" where
  "lives_on s s' = (lc_generation s' = lc_generation s \<and> NEXT_LIFECYCLE_GENERATION s' = NEXT_LIFECYCLE_GENERATION s
     \<and> lc_state s' \<in> {lc_state s, Stopped})"

lemma lives_on_refl [simp]: "lives_on s s"
  by (simp add: lives_on_def)

lemma lives_on_trans: "lives_on s t \<Longrightarrow> lives_on t u \<Longrightarrow> lives_on s u"
  by (auto simp: lives_on_def)

lemma runtime_clear_generation [simp]: "runtime (fst (clear_generation_if_current g s)) = runtime s"
  by (simp add: clear_generation_if_current_def runtime_def Let_def)

lemma runtime_record [simp]: "runtime (fst (record_secure_capture_recovery_failure now s)) = runtime s"
  by (simp add: record_secure_capture_recovery_failure_def runtime_def Let_def)

lemma runtime_shutdown [simp]: "runtime (send_generation_shutdown g s) = runtime s"
  by (simp add: send_generation_shutdown_def runtime_def)

lemma runtime_ready [simp]: "runtime (fst (mark_generation_ready g s)) = runtime s"
  by (simp add: mark_generation_ready_def runtime_def)

lemma runtime_timeout [simp]: "runtime (starting_timeout_reset g now s) = runtime s"
  by (simp add: starting_timeout_reset_def record_secure_capture_recovery_failure_def runtime_def Let_def)

lemma runtime_stop [simp]: "runtime (fst (stop_secure_capture_helper s)) = runtime s"
  using runtime_clear_generation [of "lc_generation s" s]
  by (auto simp: stop_secure_capture_helper_def ready_generation_def split: prod.splits bool.splits simp del: runtime_clear_generation)

lemma runtime_restart [simp]: "runtime (fst (request_secure_capture_restart g now s)) = runtime s"
  using runtime_clear_generation [of g s]
  by (auto simp: request_secure_capture_restart_def split: prod.splits bool.splits simp del: runtime_clear_generation)

lemma runtime_closed [simp]: "runtime (connection_closed g now s) = runtime s"
  using runtime_clear_generation [of g s]
  by (auto simp: connection_closed_def Let_def split: prod.splits simp del: runtime_clear_generation)

lemma runtime_allowed [simp]: "runtime (fst (secure_capture_recovery_allowed now s)) = runtime s"
  by (simp add: secure_capture_recovery_allowed_def runtime_def Let_def)

lemma runtime_reset [simp]: "runtime (reset_secure_capture_recovery_failures s) = runtime s"
  by (simp add: reset_secure_capture_recovery_failures_def runtime_def)

lemma runtime_first_frame [simp]: "runtime (mark_secure_capture_first_frame g s) = runtime s"
  by (simp add: mark_secure_capture_first_frame_def) (simp add: runtime_def)

lemma runtime_armed [simp]: "runtime (fst (CapturerPortable_new d now s)) = runtime s"
  by (simp add: CapturerPortable_new_def runtime_def Let_def split: option.splits prod.splits)

lemma runtime_frame: "capturer_frame l now a c s = (r, a', c', s') \<Longrightarrow> runtime s' = runtime s"
  by (auto simp: capturer_frame_def Let_def split: if_splits prod.splits bool.splits)

lemma lives_clear_generation [simp]: "lives_on s (fst (clear_generation_if_current g s))"
  by (simp add: clear_generation_if_current_def lives_on_def Let_def)

lemma lives_record [simp]: "lives_on s (fst (record_secure_capture_recovery_failure now s))"
  by (simp add: record_secure_capture_recovery_failure_def lives_on_def Let_def)

lemma lives_shutdown [simp]: "lives_on s (send_generation_shutdown g s)"
  by (simp add: send_generation_shutdown_def lives_on_def)

lemma lives_timeout [simp]: "lives_on s (starting_timeout_reset g now s)"
  by (simp add: starting_timeout_reset_def record_secure_capture_recovery_failure_def lives_on_def Let_def)

lemma lives_stop [simp]: "lives_on s (fst (stop_secure_capture_helper s))"
  using lives_clear_generation [of s "lc_generation s"]
  by (auto simp: stop_secure_capture_helper_def ready_generation_def split: prod.splits bool.splits
        intro: lives_on_trans simp del: lives_clear_generation)

lemma lives_recorded: "lives_on s t \<Longrightarrow> lives_on s (send_generation_shutdown g (fst (record_secure_capture_recovery_failure now t)))"
  by (metis lives_on_trans lives_record lives_shutdown)

lemma lives_restart [simp]: "lives_on s (fst (request_secure_capture_restart g now s))"
  using lives_clear_generation [of s g]
  by (auto simp: request_secure_capture_restart_def split: prod.splits bool.splits
        intro: lives_recorded simp del: lives_clear_generation)

lemma lives_closed [simp]: "lives_on s (connection_closed g now s)"
  using lives_clear_generation [of s g]
  by (auto simp: connection_closed_def Let_def split: prod.splits intro: lives_on_trans simp del: lives_clear_generation)

lemma lives_allowed [simp]: "lives_on s (fst (secure_capture_recovery_allowed now s))"
  by (simp add: secure_capture_recovery_allowed_def lives_on_def Let_def)

lemma lives_reset [simp]: "lives_on s (reset_secure_capture_recovery_failures s)"
  by (simp add: reset_secure_capture_recovery_failures_def lives_on_def)

lemma lives_first_frame [simp]: "lives_on s (mark_secure_capture_first_frame g s)"
  by (simp add: mark_secure_capture_first_frame_def reset_secure_capture_recovery_failures_def lives_on_def)

lemma lives_armed [simp]: "lives_on s (fst (CapturerPortable_new d now s))"
  by (simp add: CapturerPortable_new_def lives_on_def Let_def split: option.splits prod.splits)

lemma lives_frame: "capturer_frame l now a c s = (r, a', c', s') \<Longrightarrow> lives_on s s'"
  by (auto simp: capturer_frame_def Let_def split: if_splits prod.splits bool.splits)

lemma lives_clear_runtime [simp]: "lives_on s (clear_runtime_shmem_state s)"
  by (simp add: clear_runtime_shmem_state_def lives_on_def)

lemma lives_restore [simp]: "lives_on s (restore_runtime_ipc_token_after_failed_handshake t n s)"
  by (simp add: restore_runtime_ipc_token_after_failed_handshake_def lives_on_def Let_def split: option.split)

lemma lives_consume [simp]: "lives_on s (fst (consume_runtime_ipc_token_if_match c s))"
  by (simp add: consume_runtime_ipc_token_if_match_def lives_on_def)

lemma lives_create [simp]: "lives_on s (start_create b g len name s)"
  by (simp add: start_create_def lives_on_def)

lemma lives_memory: "lives_on s (fst (start_memory env b g s))"
proof -
  have "lives_on s ((start_create b g len name s)\<lparr>SHMEM := v\<rparr>)"
    "lives_on s (clear_runtime_shmem_state (start_create b g len name s))" for len name v
    by (simp_all add: start_create_def clear_runtime_shmem_state_def lives_on_def)
  then show ?thesis
    by (auto simp: start_memory_def Let_def split: option.split)
qed

section \<open>The invariant\<close>

definition life_inv :: "HelperSystem \<Rightarrow> bool" where
  "life_inv x = (lc_generation (svc x) \<le> NEXT_LIFECYCLE_GENERATION (svc x)
     \<and> length (launching x) \<le> 1
     \<and> (\<forall>g \<in> fst ` set (issued x). 0 < g \<and> g \<le> NEXT_LIFECYCLE_GENERATION (svc x))
     \<and> (\<forall>j. launching x = [j] \<longrightarrow> 0 < l_generation j \<and> l_generation j \<le> NEXT_LIFECYCLE_GENERATION (svc x)
          \<and> (l_phase j \<in> {Begun, Cleared} \<longrightarrow> l_generation j \<notin> fst ` set (issued x))))"

text \<open>Every issued token belongs to one launch and one memory name.\<close>

definition issues_ok :: "(nat \<times> bytes \<times> bytes) list \<Rightarrow> bool" where
  "issues_ok xs = (\<forall>(g, n, t) \<in> set xs. \<forall>(g', n', t') \<in> set xs.
     is_valid_portable_service_ipc_token t \<and> ((g = g' \<or> n = n' \<or> t = t') \<longrightarrow> g = g' \<and> n = n' \<and> t = t'))"

text \<open>
  The memory of the service is that of one launch; its token was neither accepted nor is it in a handshake.
\<close>

fun runtime_ok :: "nat \<times> bytes option \<times> bytes option \<Rightarrow> (nat \<times> bytes \<times> bytes) list \<Rightarrow> bool" where
  "runtime_ok (g, n, t) xs \<longleftrightarrow>
     (case n of None \<Rightarrow> g = 0 \<and> t = None
      | Some m \<Rightarrow> \<exists>u. (g, m, u) \<in> set xs \<and> (t = None \<or> t = Some u))"

definition unused :: "bytes \<Rightarrow> HelperSystem \<Rightarrow> bool" where
  "unused t x = (t \<notin> snd ` set (accepted x))"

definition token_inv :: "HelperSystem \<Rightarrow> bool" where
  "token_inv x =
     (issues_ok (issued x) \<and> runtime_ok (runtime (svc x)) (issued x)
      \<and> (\<forall>t. IPC_RUNTIME_TOKEN (svc x) = Some t \<longrightarrow> unused t x)
      \<and> (\<forall>t n g. handshake x = Some (t, n, g) \<longrightarrow>
           IPC_RUNTIME_TOKEN (svc x) \<noteq> Some t \<and> unused t x
           \<and> (\<exists>g' n'. g = Some g' \<and> n = Some n' \<and> (g', n', t) \<in> set (issued x)))
      \<and> (\<forall>(g, t) \<in> set (accepted x). \<exists>n. (g, n, t) \<in> set (issued x)) \<and> distinct (map fst (accepted x)))"

definition launch_inv :: "HelperSystem \<Rightarrow> bool" where
  "launch_inv x =
     (\<forall>j. launching x = [j] \<longrightarrow>
        (case l_phase j of
           Begun \<Rightarrow> True
         | Cleared \<Rightarrow> runtime (svc x) = (0, None, None)
         | Created t \<Rightarrow> unused t x \<and> (\<forall>n g. handshake x \<noteq> Some (t, n, g))
             \<and> (\<exists>m. runtime (svc x) = (l_generation j, Some m, None) \<and> (l_generation j, m, t) \<in> set (issued x))
         | Published \<Rightarrow> True))"

definition ready_inv :: "HelperSystem \<Rightarrow> bool" where
  "ready_inv x = (set (sessions x) \<subseteq> fst ` set (accepted x)
     \<and> (lc_state (svc x) = Ready \<longrightarrow> lc_generation (svc x) \<in> fst ` set (accepted x)))"

definition single_inv :: "HelperSystem \<Rightarrow> bool" where
  "single_inv x = (life_inv x \<and> token_inv x \<and> launch_inv x \<and> ready_inv x)"

lemmas single_inv_defs = single_inv_def life_inv_def token_inv_def launch_inv_def ready_inv_def

text \<open>A step that keeps the memory of the service and the history, and at most stops the helper.\<close>

lemma quiet_step:
  assumes inv: "single_inv x" and rt: "runtime (svc y) = runtime (svc x)" and lives: "lives_on (svc x) (svc y)"
    and keeps: "launching y = launching x" "handshake y = handshake x" "set (sessions y) \<subseteq> set (sessions x)"
      "issued y = issued x" "accepted y = accepted x"
  shows "single_inv y"
proof -
  have same: "unused t y = unused t x" for t using keeps by (simp add: unused_def)
  have tok: "IPC_RUNTIME_TOKEN (svc y) = IPC_RUNTIME_TOKEN (svc x)" using rt by (simp add: runtime_def)
  have "life_inv y" using inv lives keeps by (simp add: single_inv_def life_inv_def lives_on_def)
  moreover have "token_inv y" using inv keeps by (simp add: single_inv_def token_inv_def same rt tok)
  moreover have "launch_inv y" using inv keeps by (simp add: single_inv_def launch_inv_def same rt cong: LaunchPhase.case_cong)
  moreover have "ready_inv y" using inv lives keeps by (auto simp: single_inv_def ready_inv_def lives_on_def)
  ultimately show ?thesis by (simp add: single_inv_def)
qed

lemma single_inv_initial: "single_inv HelperSystem_initial"
  by (simp add: single_inv_defs HelperSystem_initial_def PortableService_initial_def issues_ok_def runtime_def)

lemma start_begin_some:
  "start_begin running s = (s', Some g) \<Longrightarrow>
     g = NEXT_LIFECYCLE_GENERATION s + 1 \<and> NEXT_LIFECYCLE_GENERATION s' = g \<and> lc_generation s' = g \<and> lc_state s' = Starting
     \<and> runtime s' = runtime s"
  by (auto simp: start_begin_def runtime_def Let_def split: if_splits)

lemma start_begin_none: "start_begin running s = (s', None) \<Longrightarrow> lives_on s s' \<and> runtime s' = runtime s"
  by (auto simp: start_begin_def runtime_def lives_on_def Let_def split: if_splits)

lemma inv_begun:
  assumes "single_inv x" "launching x = []" "start_begin running (svc x) = (s, Some g)"
  shows "single_inv (x\<lparr>svc := s, launching := [\<lparr>l_generation = g, l_para = para, l_phase = Begun\<rparr>]\<rparr>)"
proof -
  note b = start_begin_some [OF assms(3)]
  have tok: "IPC_RUNTIME_TOKEN s = IPC_RUNTIME_TOKEN (svc x)" using b by (simp add: runtime_def)
  show ?thesis using assms(1) b tok
    by (auto simp: single_inv_defs unused_def)
qed

lemma runtime_cleared [simp]: "runtime (clear_runtime_shmem_state s) = (0, None, None)"
  by (simp add: clear_runtime_shmem_state_def runtime_def)

lemma token_none: "runtime s = (g, n, None) \<Longrightarrow> IPC_RUNTIME_TOKEN s = None"
  by (simp add: runtime_def)

text \<open>The memory is dropped: no token is left, and the launch in progress has not made its own.\<close>

lemma inv_dropped:
  assumes inv: "single_inv x" and rt: "runtime s = (0, None, None)" and lives: "lives_on (svc x) s"
    and keeps: "handshake y = handshake x" "sessions y = sessions x" "issued y = issued x" "accepted y = accepted x" "svc y = s"
    and launch: "launching y = [] \<or> (\<exists>j. launching x = [j] \<and> l_phase j = Begun \<and> launching y = [j\<lparr>l_phase := Cleared\<rparr>])"
  shows "single_inv y"
proof -
  have "life_inv y" using inv lives keeps launch by (fastforce simp: single_inv_def life_inv_def lives_on_def)
  moreover have "token_inv y" using inv keeps
    by (simp add: single_inv_def token_inv_def unused_def rt token_none [OF rt])
  moreover have "launch_inv y" using keeps launch rt by (auto simp: launch_inv_def)
  moreover have "ready_inv y" using inv lives keeps by (auto simp: single_inv_def ready_inv_def lives_on_def)
  ultimately show ?thesis by (simp add: single_inv_def)
qed

text \<open>A launch ends; the memory stays as it is.\<close>

lemma inv_launch_over:
  assumes inv: "single_inv x" and rt: "runtime s = runtime (svc x)" and lives: "lives_on (svc x) s"
    and keeps: "handshake y = handshake x" "sessions y = sessions x" "issued y = issued x" "accepted y = accepted x" "svc y = s"
    and launch: "launching y = []"
  shows "single_inv y"
proof -
  have tok: "IPC_RUNTIME_TOKEN s = IPC_RUNTIME_TOKEN (svc x)" using rt by (simp add: runtime_def)
  have "life_inv y" using inv lives keeps launch by (auto simp: single_inv_def life_inv_def lives_on_def)
  moreover have "token_inv y" using inv keeps by (simp add: single_inv_def token_inv_def unused_def rt tok)
  moreover have "launch_inv y" using launch by (simp add: launch_inv_def)
  moreover have "ready_inv y" using inv lives keeps by (auto simp: single_inv_def ready_inv_def lives_on_def)
  ultimately show ?thesis by (simp add: single_inv_def)
qed

lemma start_memory_some:
  assumes "start_memory env b g s = (s', Some token)"
  shows "is_valid_portable_service_ipc_token token \<and> runtime s' = (g, Some (le_name env), IPC_RUNTIME_TOKEN s)"
  using assms
  by (auto simp: start_memory_def start_create_def write_ipc_token_to_shmem_def runtime_def Let_def split: option.splits if_splits)

lemma start_memory_none:
  assumes "start_memory env b g s = (s', None)"
  shows "runtime s' = runtime s \<or> runtime s' = (0, None, None)"
  using assms by (auto simp: start_memory_def Let_def split: option.splits if_splits)

lemma issues_okD:
  "issues_ok xs \<Longrightarrow> (g, n, t) \<in> set xs \<Longrightarrow> (g', n', t') \<in> set xs \<Longrightarrow> g = g' \<or> n = n' \<or> t = t' \<Longrightarrow> g = g' \<and> n = n' \<and> t = t'"
  unfolding issues_ok_def by fastforce

lemma issues_ok_valid: "issues_ok xs \<Longrightarrow> (g, n, t) \<in> set xs \<Longrightarrow> is_valid_portable_service_ipc_token t"
  unfolding issues_ok_def by fastforce

lemma issues_ok_Cons:
  assumes ok: "issues_ok xs" and valid: "is_valid_portable_service_ipc_token t" and new: "g \<notin> fst ` set xs"
    and fresh: "\<And>g' n' t'. (g', n', t') \<in> set xs \<Longrightarrow> n' \<noteq> n \<and> t' \<noteq> t"
  shows "issues_ok ((g, n, t) # xs)"
proof -
  have gen: "(g', n', t') \<in> set xs \<Longrightarrow> g' \<noteq> g" for g' n' t' using new by (force simp: image_iff)
  have "is_valid_portable_service_ipc_token u \<and> ((h = h' \<or> m = m' \<or> u = u') \<longrightarrow> h = h' \<and> m = m' \<and> u = u')"
    if "(h, m, u) \<in> set ((g, n, t) # xs)" "(h', m', u') \<in> set ((g, n, t) # xs)" for h m u h' m' u'
    using that valid gen fresh issues_okD [OF ok] issues_ok_valid [OF ok] by (simp, metis)
  then show ?thesis unfolding issues_ok_def by blast
qed

lemma inv_created:
  assumes inv: "single_inv x" and j: "launching x = [j]" "l_phase j = Cleared"
    and mem: "start_memory env b (l_generation j) (svc x) = (s, Some token)" and fresh: "fresh_issue (le_name env) token x"
  shows "single_inv (x\<lparr>svc := s, launching := [j\<lparr>l_phase := Created token\<rparr>], issued := (l_generation j, le_name env, token) # issued x\<rparr>)"
    (is "single_inv ?y")
proof -
  have rt0: "runtime (svc x) = (0, None, None)" using inv j by (simp add: single_inv_def launch_inv_def)
  have rt: "is_valid_portable_service_ipc_token token" "runtime s = (l_generation j, Some (le_name env), None)"
    using start_memory_some [OF mem] token_none [OF rt0] by simp_all
  have lives: "lives_on (svc x) s" using lives_memory [of "svc x" env b "l_generation j"] mem by simp
  have new: "l_generation j \<notin> fst ` set (issued x)" using inv j by (simp add: single_inv_def life_inv_def)
  have unused: "token \<notin> snd ` set (accepted x)" "\<forall>n g. handshake x \<noteq> Some (token, n, g)"
    using inv fresh by (fastforce simp: single_inv_def token_inv_def fresh_issue_def)+
  have issues: "issues_ok ((l_generation j, le_name env, token) # issued x)"
    using inv fresh rt(1) new by (intro issues_ok_Cons) (auto simp: single_inv_def token_inv_def fresh_issue_def)
  have "life_inv ?y" using inv j lives by (auto simp: single_inv_def life_inv_def lives_on_def)
  moreover have "token_inv ?y"
    using inv issues rt(2) token_none [OF rt(2)] unfolding single_inv_def token_inv_def unused_def
    by (simp add: case_prod_unfold) blast
  moreover have "launch_inv ?y" using unused rt by (auto simp: launch_inv_def unused_def)
  moreover have "ready_inv ?y" using inv lives by (auto simp: single_inv_def ready_inv_def lives_on_def)
  ultimately show ?thesis by (simp add: single_inv_def)
qed

lemma inv_published:
  assumes inv: "single_inv x" and j: "launching x = [j]" "l_phase j = Created token"
  shows "single_inv (x\<lparr>svc := set_runtime_ipc_token token (svc x), launching := [j\<lparr>l_phase := Published\<rparr>]\<rparr>)"
    (is "single_inv ?y")
proof -
  obtain m where rt: "runtime (svc x) = (l_generation j, Some m, None)" "(l_generation j, m, token) \<in> set (issued x)"
    and un: "unused token x" "\<forall>n g. handshake x \<noteq> Some (token, n, g)"
    using inv j by (auto simp: single_inv_def launch_inv_def)
  have "life_inv ?y" using inv j by (simp add: single_inv_def life_inv_def set_runtime_ipc_token_def)
  moreover have "token_inv ?y" using inv rt un
    by (auto simp: single_inv_def token_inv_def set_runtime_ipc_token_def runtime_def unused_def)
  moreover have "launch_inv ?y" by (simp add: launch_inv_def)
  moreover have "ready_inv ?y" using inv by (simp add: single_inv_def ready_inv_def set_runtime_ipc_token_def)
  ultimately show ?thesis by (simp add: single_inv_def)
qed

lemma fold_differences:
  "fold (\<lambda>(a, b) acc. acc OR (a XOR b)) ps acc = (0 :: 8 word) \<longleftrightarrow> acc = 0 \<and> (\<forall>(a, b) \<in> set ps. a = b)"
  by (induction ps arbitrary: acc) (auto simp: or_eq_0_iff xor_zero_iff)

text \<open>The comparison in constant time is equality of tokens of the right length.\<close>

lemma constant_time_ipc_token_eq_iff:
  "constant_time_ipc_token_eq e c \<longleftrightarrow> length e = IPC_TOKEN_LEN \<and> e = c"
proof -
  have "(\<forall>(a, b) \<in> set (zip e c). a = b) \<longleftrightarrow> e = c" if "length e = length c"
    using that by (auto simp: set_zip list_eq_iff_nth_eq)
  then show ?thesis by (auto simp: constant_time_ipc_token_eq_def fold_differences)
qed

lemma inv_presented:
  assumes inv: "single_inv x" and h: "handshake x = None"
    and c: "consume_runtime_ipc_token_if_match candidate (svc x) = (s, True, name, g)"
  shows "single_inv (x\<lparr>svc := s, handshake := Some (candidate, name, g)\<rparr>)" (is "single_inv ?y")
proof -
  have tok: "IPC_RUNTIME_TOKEN (svc x) = Some candidate" and s: "runtime s = (IPC_RUNTIME_GENERATION (svc x), SHMEM_RUNTIME_NAME (svc x), None)"
    and res: "name = SHMEM_RUNTIME_NAME (svc x)" "g = (if IPC_RUNTIME_GENERATION (svc x) \<noteq> 0 then Some (IPC_RUNTIME_GENERATION (svc x)) else None)"
    using c by (auto simp: consume_runtime_ipc_token_if_match_def is_some_and_iff constant_time_ipc_token_eq_iff runtime_def split: if_splits)
  have lives: "lives_on (svc x) s" using lives_consume [of "svc x" candidate] c by simp
  obtain m where m: "SHMEM_RUNTIME_NAME (svc x) = Some m" "(IPC_RUNTIME_GENERATION (svc x), m, candidate) \<in> set (issued x)"
    using inv tok by (auto simp: single_inv_def token_inv_def runtime_def split: option.splits)
  have gen: "IPC_RUNTIME_GENERATION (svc x) > 0" using inv m by (force simp: single_inv_def life_inv_def)
  have "life_inv ?y" using inv lives by (auto simp: single_inv_def life_inv_def lives_on_def)
  moreover have "token_inv ?y" using inv tok s res m gen token_none [OF s]
    by (auto simp: single_inv_def token_inv_def unused_def)
  moreover have "launch_inv ?y" using inv s tok
    by (auto simp: single_inv_def launch_inv_def unused_def runtime_def split: LaunchPhase.splits)
  moreover have "ready_inv ?y" using inv lives by (auto simp: single_inv_def ready_inv_def lives_on_def)
  ultimately show ?thesis by (simp add: single_inv_def)
qed

lemma inv_authenticated:
  assumes inv: "single_inv x" and h: "handshake x = Some (token, name, Some g)"
  shows "single_inv (x\<lparr>handshake := None, sessions := g # sessions x, accepted := (g, token) # accepted x\<rparr>)" (is "single_inv ?y")
proof -
  have T: "token_inv x" using inv by (simp add: single_inv_def)
  then obtain n where n: "(g, n, token) \<in> set (issued x)" "unused token x" "IPC_RUNTIME_TOKEN (svc x) \<noteq> Some token"
    using h by (auto simp: token_inv_def)
  have ok: "issues_ok (issued x)" and acc: "\<And>g t. (g, t) \<in> set (accepted x) \<Longrightarrow> \<exists>n. (g, n, t) \<in> set (issued x)"
    using T by (auto simp: token_inv_def)
  have g: "g \<notin> fst ` set (accepted x)"
  proof
    assume "g \<in> fst ` set (accepted x)"
    then obtain t where t: "(g, t) \<in> set (accepted x)" by auto
    with acc obtain m where "(g, m, t) \<in> set (issued x)" by blast
    then have "t = token" using issues_okD [OF ok _ n(1)] by blast
    then show False using t n(2) by (force simp: unused_def)
  qed
  have "life_inv ?y" using inv by (simp add: single_inv_def life_inv_def)
  moreover have "token_inv ?y" using T n g by (auto simp: token_inv_def unused_def)
  moreover have "launch_inv ?y" using inv h by (auto simp: single_inv_def launch_inv_def unused_def split: LaunchPhase.splits)
  moreover have "ready_inv ?y" using inv by (auto simp: single_inv_def ready_inv_def)
  ultimately show ?thesis by (simp add: single_inv_def)
qed

lemma restore_cases:
  "runtime (restore_runtime_ipc_token_after_failed_handshake t n s) = runtime s
   \<or> IPC_RUNTIME_TOKEN s = Some t
   \<or> IPC_RUNTIME_TOKEN s = None \<and> SHMEM_RUNTIME_NAME s = n
     \<and> runtime (restore_runtime_ipc_token_after_failed_handshake t n s) = (IPC_RUNTIME_GENERATION s, n, Some t)"
  by (auto simp: restore_runtime_ipc_token_after_failed_handshake_def runtime_def Let_def split: option.split)

lemma inv_over:
  assumes inv: "single_inv x" and h: "handshake x = Some (t, n, g)"
  shows "single_inv (x\<lparr>handshake := None\<rparr>)"
  using inv by (auto simp: single_inv_defs unused_def split: LaunchPhase.splits)

text \<open>The token goes back to the memory it came from.\<close>

lemma inv_restored:
  assumes inv: "single_inv x" and h: "handshake x = Some (t, Some n, Some g)" and issue: "(g, n, t) \<in> set (issued x)"
    and rt: "runtime s = (IPC_RUNTIME_GENERATION (svc x), Some n, Some t)" and name: "SHMEM_RUNTIME_NAME (svc x) = Some n"
    and lives: "lives_on (svc x) s"
  shows "single_inv (x\<lparr>handshake := None, svc := s\<rparr>)" (is "single_inv ?y")
proof -
  have T: "token_inv x" using inv by (simp add: single_inv_def)
  obtain u where u: "(IPC_RUNTIME_GENERATION (svc x), n, u) \<in> set (issued x)"
    using T name by (auto simp: token_inv_def runtime_def)
  have same: "IPC_RUNTIME_GENERATION (svc x) = g" "u = t" using issues_okD [OF _ u issue] T by (auto simp: token_inv_def)
  have tok: "IPC_RUNTIME_TOKEN s = Some t" using rt by (simp add: runtime_def)
  have phase: "\<forall>j. launching x = [j] \<longrightarrow> l_phase j \<in> {Begun, Published}"
  proof (intro allI impI)
    fix j assume j: "launching x = [j]"
    show "l_phase j \<in> {Begun, Published}"
    proof (cases "l_phase j")
      case Cleared then show ?thesis using inv j name by (simp add: single_inv_def launch_inv_def runtime_def)
    next
      case (Created v)
      then have "v \<noteq> t" "(l_generation j, n, v) \<in> set (issued x)"
        using inv j name h by (auto simp: single_inv_def launch_inv_def runtime_def)
      then show ?thesis using issues_okD [OF _ issue] T by (auto simp: token_inv_def)
    qed simp_all
  qed
  have "life_inv ?y" using inv lives by (auto simp: single_inv_def life_inv_def lives_on_def)
  moreover have "token_inv ?y" using T h rt tok same issue by (auto simp: token_inv_def unused_def)
  moreover have "launch_inv ?y" using phase by (auto simp: launch_inv_def split: LaunchPhase.splits)
  moreover have "ready_inv ?y" using inv lives by (auto simp: single_inv_def ready_inv_def lives_on_def)
  ultimately show ?thesis by (simp add: single_inv_def)
qed

lemma inv_handshake_failed:
  assumes inv: "single_inv x" and h: "handshake x = Some (token, name, g)"
    and s: "s = restore_runtime_ipc_token_after_failed_handshake token name (svc x)"
  shows "single_inv (x\<lparr>handshake := None, svc := (case g of None \<Rightarrow> s | Some k \<Rightarrow> fst (clear_generation_if_current k s))\<rparr>)"
proof -
  have T: "token_inv x" using inv by (simp add: single_inv_def)
  obtain g' n where gn: "g = Some g'" "name = Some n" "(g', n, token) \<in> set (issued x)" "IPC_RUNTIME_TOKEN (svc x) \<noteq> Some token"
    using T h by (auto simp: token_inv_def)
  let ?t = "fst (clear_generation_if_current g' s)"
  have lives: "lives_on (svc x) ?t" using s by (metis lives_on_trans lives_restore lives_clear_generation)
  have "runtime ?t = runtime (svc x)
      \<or> SHMEM_RUNTIME_NAME (svc x) = Some n \<and> runtime ?t = (IPC_RUNTIME_GENERATION (svc x), Some n, Some token)"
    using restore_cases [of token name "svc x"] gn s by auto
  then have "single_inv (x\<lparr>handshake := None, svc := ?t\<rparr>)"
  proof
    assume "runtime ?t = runtime (svc x)"
    then show ?thesis using quiet_step [OF inv_over [OF inv h], of "x\<lparr>handshake := None, svc := ?t\<rparr>"] lives by simp
  next
    assume "SHMEM_RUNTIME_NAME (svc x) = Some n \<and> runtime ?t = (IPC_RUNTIME_GENERATION (svc x), Some n, Some token)"
    then show ?thesis using inv_restored [OF inv _ gn(3) _ _ lives] h gn by simp
  qed
  then show ?thesis using gn by simp
qed

lemma inv_pong:
  assumes inv: "single_inv x" and g: "g \<in> set (sessions x)"
  shows "single_inv (x\<lparr>svc := fst (mark_generation_ready g (svc x))\<rparr>)" (is "single_inv ?y")
proof -
  have rt: "runtime (svc ?y) = runtime (svc x)" by simp
  then have tok: "IPC_RUNTIME_TOKEN (svc ?y) = IPC_RUNTIME_TOKEN (svc x)" by (simp add: runtime_def)
  have "life_inv ?y" using inv by (simp add: single_inv_def life_inv_def mark_generation_ready_def)
  moreover have "token_inv ?y" using inv rt tok by (simp add: single_inv_def token_inv_def unused_def)
  moreover have "launch_inv ?y" using inv rt by (simp add: single_inv_def launch_inv_def unused_def cong: LaunchPhase.case_cong)
  moreover have "ready_inv ?y" using inv g by (auto simp: single_inv_def ready_inv_def mark_generation_ready_def)
  ultimately show ?thesis by (simp add: single_inv_def)
qed

lemma single_launch: "single_inv x \<Longrightarrow> launching x = pre @ j # post \<Longrightarrow> pre = [] \<and> post = []"
  by (simp add: single_inv_def life_inv_def)

lemma single_inv_step:
  assumes inv: "single_inv x" and step: "helper_step x y" and alone: "\<not> overlapped y"
  shows "single_inv y"
  using step
proof cases
  case (refused running s)
  then show ?thesis using quiet_step [OF inv, of y] start_begin_none by simp
next
  case (begun running s g para)
  then have none: "launching x = []" and "\<not> overlapped x" using alone by auto
  have "single_inv (x\<lparr>svc := s, launching := [\<lparr>l_generation = g, l_para = para, l_phase = Begun\<rparr>]\<rparr>)"
    by (rule inv_begun [OF inv none begun(2)])
  then show ?thesis using begun(1) none by (simp add: single_inv_defs unused_def)
next
  case (cleared pre j post)
  then show ?thesis using inv_dropped [OF inv, of "svc y" y] single_launch [OF inv cleared(2)] by simp
next
  case (created pre j post env s token)
  then show ?thesis using inv_created [OF inv] single_launch [OF inv created(2)] by simp
next
  case (not_created pre j post env s)
  have one: "pre = []" "post = []" using single_launch [OF inv not_created(2)] by simp_all
  have lives: "lives_on (svc x) s" using lives_memory not_created(4) by (metis fst_conv)
  have "runtime (svc x) = (0, None, None)" using inv not_created(2,3) one by (simp add: single_inv_def launch_inv_def)
  then have "runtime s = (0, None, None)" using start_memory_none [OF not_created(4)] by auto
  then show ?thesis using inv_dropped [OF inv, of "svc y" y] lives not_created(1) one lives_on_trans [OF lives] by simp
next
  case (published pre j post token)
  then show ?thesis using inv_published [OF inv] single_launch [OF inv published(2)] by simp
next
  case (launched pre j post)
  then show ?thesis using inv_launch_over [OF inv, of "svc y" y] single_launch [OF inv launched(2)] by (simp add: runtime_def lives_on_def)
next
  case (not_launched pre j post s a)
  have one: "launching y = []" using single_launch [OF inv not_launched(2)] not_launched(1) by simp
  have "lives_on (svc x) s" using not_launched(4) by simp
  then have lives: "lives_on (svc x) (svc y)" using not_launched(1) by (auto intro: lives_on_trans)
  show ?thesis
  proof (cases "spawn_clears a")
    case True
    then show ?thesis using not_launched one inv_dropped [OF inv _ lives, of y] by simp
  next
    case False
    then show ?thesis using not_launched one inv_launch_over [OF inv _ lives, of y] by simp
  qed
next
  case (rejected candidate s name g)
  then have "s = svc x" by (simp add: consume_runtime_ipc_token_if_match_def split: if_splits)
  then show ?thesis using rejected quiet_step [OF inv, of y] by simp
next
  case (frame l now a c r a' c' s)
  then show ?thesis using quiet_step [OF inv, of y] runtime_frame lives_frame by simp
next
  case (closed g now)
  then show ?thesis using quiet_step [OF inv, of y] by (simp add: set_remove1_subset)
qed (auto intro!: inv_presented [OF inv] inv_authenticated [OF inv] inv_over [OF inv]
      inv_handshake_failed [OF inv] inv_pong [OF inv] intro: quiet_step [OF inv])

subsection \<open>What overlapping launches keep\<close>

text \<open>
  The tokens that were issued are in one place each: with the launch that made them, published, in the handshake
  or accepted. This holds for interleaved launches too.
\<close>

definition launch_token :: "Launch \<Rightarrow> bytes list" where
  "launch_token j = (case l_phase j of Created t \<Rightarrow> [t] | _ \<Rightarrow> [])"

definition option_list :: "'a option \<Rightarrow> 'a list" where
  "option_list u = (case u of None \<Rightarrow> [] | Some a \<Rightarrow> [a])"

definition token_places :: "HelperSystem \<Rightarrow> bytes list" where
  "token_places x = concat (map launch_token (launching x)) @ option_list (IPC_RUNTIME_TOKEN (svc x))
     @ option_list (map_option fst (handshake x)) @ map snd (accepted x)"

definition tokens :: "HelperSystem \<Rightarrow> bytes set" where
  "tokens x = (snd \<circ> snd) ` set (issued x)"

definition shared_inv :: "HelperSystem \<Rightarrow> bool" where
  "shared_inv x =
     (lc_generation (svc x) \<le> NEXT_LIFECYCLE_GENERATION (svc x) \<and> ready_inv x
      \<and> (\<forall>t \<in> tokens x. is_valid_portable_service_ipc_token t)
      \<and> distinct (token_places x) \<and> set (token_places x) \<subseteq> tokens x)"

lemma distinct_fewer:
  assumes "distinct xs" "mset ys \<subseteq># mset xs"
  shows "distinct ys \<and> set ys \<subseteq> set xs"
proof -
  have "count (mset ys) a = (if a \<in> set ys then 1 else 0)" for a
  proof -
    have "count (mset ys) a \<le> 1"
    proof (rule order_trans [OF mset_subset_eq_count [OF assms(2)]])
      show "count (mset xs) a \<le> 1"
        using distinct_count_atmost_1 [THEN iffD1, OF assms(1), rule_format, of a] by (auto split: if_splits)
    qed
    moreover have "count (mset ys) a = 0 \<longleftrightarrow> a \<notin> set ys" by simp
    ultimately show ?thesis by (metis le_less less_one)
  qed
  then show ?thesis using set_mset_mono [OF assms(2)] by (simp add: distinct_count_atmost_1)
qed

lemma launch_token_simps [simp]:
  "l_phase j = Begun \<Longrightarrow> launch_token j = []" "l_phase j = Cleared \<Longrightarrow> launch_token j = []"
  "l_phase j = Created t \<Longrightarrow> launch_token j = [t]" "l_phase j = Published \<Longrightarrow> launch_token j = []"
  by (simp_all add: launch_token_def)

lemma option_list_simps [simp]: "option_list None = []" "option_list (Some a) = [a]"
  by (simp_all add: option_list_def)

text \<open>A step keeps the tokens in their places, moves one on, or issues a new one.\<close>

definition moves_tokens :: "HelperSystem \<Rightarrow> HelperSystem \<Rightarrow> bool" where
  "moves_tokens x y \<longleftrightarrow>
     issued y = issued x \<and> mset (token_places y) \<subseteq># mset (token_places x)
     \<or> (\<exists>g n t. issued y = (g, n, t) # issued x \<and> t \<notin> tokens x \<and> is_valid_portable_service_ipc_token t
          \<and> mset (token_places y) \<subseteq># add_mset t (mset (token_places x)))"

lemma token_runtime: "runtime s = runtime s' \<Longrightarrow> IPC_RUNTIME_TOKEN s = IPC_RUNTIME_TOKEN s'"
  by (simp add: runtime_def)

lemma moves_svc:
  assumes "issued y = issued x" "concat (map launch_token (launching y)) = concat (map launch_token (launching x))"
    "handshake y = handshake x" "accepted y = accepted x" "IPC_RUNTIME_TOKEN (svc y) \<in> {IPC_RUNTIME_TOKEN (svc x), None}"
  shows "moves_tokens x y"
  using assms by (auto simp: moves_tokens_def token_places_def)

lemma step_moves_tokens:
  assumes "helper_step x y"
  shows "moves_tokens x y"
  using assms
proof cases
  case (created pre j post env s token)
  have "is_valid_portable_service_ipc_token token" "IPC_RUNTIME_TOKEN s = IPC_RUNTIME_TOKEN (svc x)"
    using start_memory_some [OF created(4)] by (simp_all add: runtime_def)
  then show ?thesis using created(1,2,3,5) by (auto simp: moves_tokens_def token_places_def tokens_def fresh_issue_def)
next
  case (not_created pre j post env s)
  then have "IPC_RUNTIME_TOKEN s \<in> {IPC_RUNTIME_TOKEN (svc x), None}"
    using start_memory_none [OF not_created(4)] by (auto simp: runtime_def)
  then show ?thesis using not_created(1,2,3) token_runtime [OF runtime_clear_generation] by (intro moves_svc) simp_all
next
  case (not_launched pre j post s a)
  then have "IPC_RUNTIME_TOKEN s \<in> {IPC_RUNTIME_TOKEN (svc x), None}" by (simp add: clear_runtime_shmem_state_def)
  then show ?thesis using not_launched(1,2,3) token_runtime [OF runtime_clear_generation] by (intro moves_svc) simp_all
next
  case (presented candidate s name g)
  then have "IPC_RUNTIME_TOKEN (svc x) = Some candidate" "IPC_RUNTIME_TOKEN s = None"
    by (auto simp: consume_runtime_ipc_token_if_match_def is_some_and_iff constant_time_ipc_token_eq_iff split: if_splits)
  then show ?thesis using presented(1,2) by (simp add: moves_tokens_def token_places_def)
next
  case (rejected candidate s name g)
  then have "s = svc x" by (simp add: consume_runtime_ipc_token_if_match_def split: if_splits)
  then show ?thesis using rejected(1) by (intro moves_svc) simp_all
next
  case (handshake_failed token name g s)
  then have "IPC_RUNTIME_TOKEN s \<in> {IPC_RUNTIME_TOKEN (svc x), None, Some token}"
    by (auto simp: restore_runtime_ipc_token_after_failed_handshake_def Let_def split: option.split)
  moreover have "IPC_RUNTIME_TOKEN (svc y) = IPC_RUNTIME_TOKEN s"
    using handshake_failed(1) token_runtime [OF runtime_clear_generation] by (simp split: option.split)
  ultimately show ?thesis using handshake_failed(1,2) by (auto simp: moves_tokens_def token_places_def option_list_def split: option.splits)
next
  case (refused running s)
  then have "IPC_RUNTIME_TOKEN s = IPC_RUNTIME_TOKEN (svc x)" using start_begin_none [OF refused(2)] by (simp add: runtime_def)
  then show ?thesis using refused(1) by (intro moves_svc) simp_all
next
  case (begun running s g para)
  then have "IPC_RUNTIME_TOKEN s = IPC_RUNTIME_TOKEN (svc x)" using start_begin_some [OF begun(2)] by (simp add: runtime_def)
  then show ?thesis using begun(1) by (intro moves_svc) simp_all
next
  case (frame l now a c r a' c' s)
  then show ?thesis using token_runtime [OF runtime_frame [OF frame(2)]] by (intro moves_svc) simp_all
next
  case (published pre j post token)
  then show ?thesis by (simp add: moves_tokens_def token_places_def set_runtime_ipc_token_def)
next
  case (authenticated token name g)
  then show ?thesis by (simp add: moves_tokens_def token_places_def)
next
  case (without_generation token name)
  then show ?thesis by (simp add: moves_tokens_def token_places_def)
next
  case (launched pre j post)
  then show ?thesis by (intro moves_svc) simp_all
qed (auto intro!: moves_svc token_runtime simp: clear_runtime_shmem_state_def)

lemma shared_tokens:
  assumes inv: "shared_inv x" and step: "helper_step x y"
  shows "(\<forall>t \<in> tokens y. is_valid_portable_service_ipc_token t) \<and> distinct (token_places y) \<and> set (token_places y) \<subseteq> tokens y"
proof -
  have x: "\<forall>t \<in> tokens x. is_valid_portable_service_ipc_token t" "distinct (token_places x)" "set (token_places x) \<subseteq> tokens x"
    using inv by (auto simp: shared_inv_def)
  consider "issued y = issued x" "mset (token_places y) \<subseteq># mset (token_places x)"
    | g n t where "issued y = (g, n, t) # issued x" "t \<notin> tokens x" "is_valid_portable_service_ipc_token t"
        "mset (token_places y) \<subseteq># mset (t # token_places x)"
    using step_moves_tokens [OF step] by (auto simp: moves_tokens_def)
  then show ?thesis
  proof cases
    case 1
    have "tokens y = tokens x" using 1(1) by (simp add: tokens_def)
    then show ?thesis using distinct_fewer [OF x(2) 1(2)] x by auto
  next
    case (2 g n t)
    have "distinct (t # token_places x)" using x 2(2) by auto
    from distinct_fewer [OF this 2(4)] show ?thesis using 2(1,3) x by (auto simp: tokens_def)
  qed
qed

lemma lives_input [simp]: "lives_on s (s\<lparr>INPUT_VIA_HELPER := b\<rparr>)"
  by (simp add: lives_on_def)

lemma lives_token [simp]: "lives_on s (set_runtime_ipc_token t s)"
  by (simp add: lives_on_def set_runtime_ipc_token_def)

text \<open>A step begins a new generation, or makes the current one ready for a connection, or at most stops it.\<close>

lemma step_lives:
  assumes "helper_step x y"
  shows "lives_on (svc x) (svc y)
    \<or> NEXT_LIFECYCLE_GENERATION (svc x) < lc_generation (svc y) \<and> lc_generation (svc y) = NEXT_LIFECYCLE_GENERATION (svc y)
      \<and> lc_state (svc y) = Starting
    \<or> (\<exists>g. g \<in> set (sessions x) \<and> svc y = fst (mark_generation_ready g (svc x)))"
  using assms
proof cases
  case (begun running s g para)
  then show ?thesis using start_begin_some [OF begun(2)] by simp
next
  case (not_created pre j post env s)
  then have "lives_on (svc x) s" using lives_memory by (metis fst_conv)
  from lives_on_trans [OF this lives_clear_generation] show ?thesis using not_created(1) by simp
next
  case (not_launched pre j post s a)
  then have "lives_on (svc x) s" by simp
  from lives_on_trans [OF this lives_clear_generation] show ?thesis using not_launched(1) by simp
next
  case (handshake_failed token name g s)
  then have "lives_on (svc x) s" by simp
  with lives_on_trans [OF this lives_clear_generation] show ?thesis using handshake_failed(1) by (simp split: option.split)
next
  case (created pre j post env s token)
  then have "lives_on (svc x) s" using lives_memory by (metis fst_conv)
  then show ?thesis using created by simp
next
  case (presented candidate s name h)
  then show ?thesis using lives_consume [of "svc x" candidate] by simp
next
  case (rejected candidate s name h)
  then show ?thesis using lives_consume [of "svc x" candidate] by simp
qed (auto simp: start_begin_none lives_frame)

lemma step_sessions:
  "helper_step x y \<Longrightarrow> set (accepted x) \<subseteq> set (accepted y) \<and> set (sessions y) \<subseteq> set (sessions x) \<union> fst ` set (accepted y)"
  by (cases rule: helper_step.cases) (auto dest: set_remove1_subset [THEN subsetD])

lemma shared_ready:
  assumes inv: "ready_inv x" and step: "helper_step x y"
  shows "ready_inv y"
proof -
  note s = step_sessions [OF step]
  have acc: "fst ` set (accepted x) \<subseteq> fst ` set (accepted y)" using s by blast
  have sess: "set (sessions y) \<subseteq> fst ` set (accepted y)" using s acc inv unfolding ready_inv_def by blast
  moreover have "lc_generation (svc y) \<in> fst ` set (accepted y)" if "lc_state (svc y) = Ready"
  proof -
    let ?A = "fst ` set (accepted x)"
    have A: "set (sessions x) \<subseteq> ?A" "lc_state (svc x) = Ready \<Longrightarrow> lc_generation (svc x) \<in> ?A"
      using inv unfolding ready_inv_def by blast+
    have made: "svc y = fst (mark_generation_ready g (svc x)) \<Longrightarrow> g \<in> set (sessions x) \<Longrightarrow> lc_generation (svc y) \<in> ?A" for g
      using A that unfolding mark_generation_ready_def by (cases "lc_generation (svc x) = g") auto
    have "lives_on (svc x) (svc y) \<Longrightarrow> lc_generation (svc y) \<in> ?A"
      using A(2) that unfolding lives_on_def by simp
    then show ?thesis using step_lives [OF step] that made acc by (metis LifecycleState.distinct(5) subsetD)
  qed
  ultimately show ?thesis by (simp add: ready_inv_def)
qed

lemma shared_inv_step:
  assumes inv: "shared_inv x" and step: "helper_step x y"
  shows "shared_inv y"
proof -
  have "lc_generation (svc y) \<le> NEXT_LIFECYCLE_GENERATION (svc y)"
    using step_lives [OF step] inv by (auto simp: shared_inv_def lives_on_def mark_generation_ready_def split: if_splits)
  then show ?thesis using shared_tokens [OF inv step] shared_ready [OF _ step] inv by (simp add: shared_inv_def)
qed

lemma overlapped_stays: "helper_step x y \<Longrightarrow> overlapped x \<Longrightarrow> overlapped y"
  by (cases rule: helper_step.cases) auto

text \<open>What holds always, and what holds as long as no two launches overlapped.\<close>

definition helper_inv :: "HelperSystem \<Rightarrow> bool" where
  "helper_inv x = (shared_inv x \<and> (\<not> overlapped x \<longrightarrow> single_inv x))"

lemma helper_inv_initial: "helper_inv HelperSystem_initial"
  using single_inv_initial
  by (simp add: helper_inv_def shared_inv_def ready_inv_def token_places_def tokens_def HelperSystem_initial_def PortableService_initial_def)

lemma helper_inv_step: "helper_inv x \<Longrightarrow> helper_step x y \<Longrightarrow> helper_inv y"
  using shared_inv_step single_inv_step overlapped_stays by (auto simp: helper_inv_def)

interpretation helper: invariant_machine "\<lambda>x. x = HelperSystem_initial" helper_step helper_inv
  by unfold_locales (auto simp: helper_inv_initial intro: helper_inv_step)

section \<open>Only the process that was launched becomes the helper\<close>

lemma filter_fst_distinct:
  "distinct (map fst xs) \<Longrightarrow> (g, t) \<in> set xs \<Longrightarrow> filter (\<lambda>p. fst p = g) xs = [(g, t)]"
proof (induction xs)
  case (Cons p xs)
  then show ?case
  proof (cases "p = (g, t)")
    case True
    then have "g \<notin> fst ` set xs" using Cons.prems(1) by simp
    then have "filter (\<lambda>p. fst p = g) xs = []" by (auto simp: filter_empty_conv)
    then show ?thesis using True by simp
  next
    case False
    then have "(g, t) \<in> set xs" using Cons.prems(2) by simp
    then have "fst p \<noteq> g" using Cons.prems(1) by (force simp: image_iff)
    then show ?thesis using Cons \<open>(g, t) \<in> set xs\<close> by simp
  qed
qed simp

text \<open>
  C39. A helper that is ready was authenticated: a connection completed the handshake for its generation with
  a valid token that a launch had issued, and no token was accepted twice, even when launches overlap. As long
  as no launch began while another one was not finished, the token is that of the very launch that began the
  ready generation and of no other, and exactly one connection completed the handshake for this generation.
  This holds whatever connections present tokens, handshakes fail and give their token back, launches fail
  or time out in between. With overlapping launches the token may be that of the other launch, as
  \<open>overlapping_launches\<close> shows.
\<close>

theorem helper_ready_authenticated:
  assumes reach: "helper_step\<^sup>*\<^sup>* HelperSystem_initial x" and ready: "lc_state (svc x) = Ready"
  shows "\<exists>g name token. (lc_generation (svc x), token) \<in> set (accepted x) \<and> (g, name, token) \<in> set (issued x)
     \<and> is_valid_portable_service_ipc_token token \<and> distinct (map snd (accepted x))
     \<and> (\<not> overlapped x \<longrightarrow> g = lc_generation (svc x)
          \<and> filter (\<lambda>p. fst p = lc_generation (svc x)) (accepted x) = [(lc_generation (svc x), token)]
          \<and> {e \<in> set (issued x). fst e = lc_generation (svc x) \<or> snd (snd e) = token} = {(lc_generation (svc x), name, token)})"
proof -
  have inv: "helper_inv x" using helper.inv_reachable reach by blast
  let ?g = "lc_generation (svc x)"
  have "ready_inv x" using inv by (simp add: helper_inv_def shared_inv_def)
  then obtain token where t: "(?g, token) \<in> set (accepted x)" using ready by (auto simp: ready_inv_def)
  have "set (token_places x) \<subseteq> tokens x" "distinct (token_places x)" and valid: "\<forall>u \<in> tokens x. is_valid_portable_service_ipc_token u"
    using inv by (auto simp: helper_inv_def shared_inv_def)
  then have d: "distinct (map snd (accepted x))" and "token \<in> tokens x" using t by (auto simp: token_places_def)
  then obtain g' n' where i: "(g', n', token) \<in> set (issued x)" by (auto simp: tokens_def)
  show ?thesis
  proof (cases "overlapped x")
    case True
    then show ?thesis using t i d valid \<open>token \<in> tokens x\<close> by blast
  next
    case False
    then have single: "single_inv x" using inv by (simp add: helper_inv_def)
    then have ok: "issues_ok (issued x)" and acc: "\<exists>n. (?g, n, token) \<in> set (issued x)" "distinct (map fst (accepted x))"
      using t by (auto simp: single_inv_def token_inv_def)
    obtain name where n: "(?g, name, token) \<in> set (issued x)" using acc(1) by blast
    have "{e \<in> set (issued x). fst e = ?g \<or> snd (snd e) = token} = {(?g, name, token)}"
      using issues_okD [OF ok _ n] n by (auto simp: set_eq_iff)
    then show ?thesis using t n d filter_fst_distinct [OF acc(2) t] issues_ok_valid [OF ok n] by blast
  qed
qed

text \<open>A generation that stopped is not revived.\<close>

definition past :: "nat \<Rightarrow> HelperSystem \<Rightarrow> bool" where
  "past g x = (g < lc_generation (svc x) \<or> lc_generation (svc x) = g \<and> lc_state (svc x) = Stopped)"

lemma past_lives: "past g x \<Longrightarrow> lives_on (svc x) (svc y) \<Longrightarrow> past g y"
  by (auto simp: past_def lives_on_def)

lemma past_step:
  assumes inv: "helper_inv x" and past: "past g x" and step: "helper_step x y"
  shows "past g y"
  using step_lives [OF step]
proof (elim disjE exE)
  assume "lives_on (svc x) (svc y)"
  then show ?thesis by (rule past_lives [OF past])
next
  assume "NEXT_LIFECYCLE_GENERATION (svc x) < lc_generation (svc y) \<and> lc_generation (svc y) = NEXT_LIFECYCLE_GENERATION (svc y)
      \<and> lc_state (svc y) = Starting"
  then show ?thesis using inv past by (auto simp: past_def helper_inv_def shared_inv_def)
next
  fix h assume "h \<in> set (sessions x) \<and> svc y = fst (mark_generation_ready h (svc x))"
  then show ?thesis using past by (auto simp: past_def mark_generation_ready_def)
qed

lemma past_steps:
  assumes "helper_step\<^sup>*\<^sup>* x y" "helper_inv x" "past g x"
  shows "past g y"
  using assms
proof (induction rule: rtranclp_induct)
  case (step y z)
  then show ?case using past_step [of y g z] helper.inv_steps by blast
qed simp

text \<open>
  A generation of the helper that stopped, for whatever reason, never starts or runs again: late
  answers of its process, late watchdogs and connections that still hold its token change nothing of a
  newer generation, and cannot bring the old one back.
\<close>

theorem stopped_generation_final:
  assumes "helper_step\<^sup>*\<^sup>* HelperSystem_initial x" "lc_state (svc x) = Stopped" "helper_step\<^sup>*\<^sup>* x y"
    "lc_generation (svc y) = lc_generation (svc x)"
  shows "lc_state (svc y) = Stopped"
  using past_steps [of x y "lc_generation (svc x)"] helper.inv_reachable [OF refl assms(1)] assms by (auto simp: past_def)

subsection \<open>A run\<close>

lemma hex_digit_ok: "n < 16 \<Longrightarrow> is_ascii_hexdigit (hex_digit n) \<and> \<not> is_ascii_uppercase (hex_digit n)"
proof -
  have "list_all (\<lambda>n. is_ascii_hexdigit (hex_digit n) \<and> \<not> is_ascii_uppercase (hex_digit n)) [0..<16]"
    by (simp add: upt_rec hex_digit_def is_ascii_hexdigit_def is_ascii_digit_def is_ascii_uppercase_def)
  then show "n < 16 \<Longrightarrow> ?thesis" by (auto simp: list_all_iff)
qed

text \<open>The tokens that are generated from 32 random bytes are valid.\<close>

lemma generated_token_valid:
  assumes "length random_bytes = 32"
  shows "is_valid_portable_service_ipc_token (generate_one_time_ipc_token random_bytes)"
proof -
  have "length (concat (map (\<lambda>b. [hex_digit (unat b div 16), hex_digit (unat b mod 16)]) bs)) = 2 * length bs" for bs :: "8 word list"
    by (induction bs) simp_all
  moreover have "unat b div 16 < 16" for b :: "8 word"
  proof -
    have "unat b < 256" by (rule order_less_le_trans [OF unsigned_less]) simp
    then show ?thesis by simp
  qed
  ultimately show ?thesis using assms hex_digit_ok
    by (auto simp: is_valid_portable_service_ipc_token_def generate_one_time_ipc_token_def IPC_TOKEN_LEN_def)
qed

definition helper_demo_env :: LaunchEnv where
  "helper_demo_env =
     \<lparr>le_layout = \<lparr>size_cursorinfo = 24, size_capturer_para = 24, size_frame_info = 24\<rparr>, le_running = False,
      le_displays = Some [[(1920, 1080)]], le_name = [95, 112], le_random = Some (replicate 32 7), le_create = True, le_spawn = Spawned\<rparr>"

definition helper_demo_token :: bytes where
  "helper_demo_token = generate_one_time_ipc_token (replicate 32 7)"

lemma helper_demo_valid: "is_valid_portable_service_ipc_token helper_demo_token"
  by (simp add: helper_demo_token_def generated_token_valid)

lemma helper_demo_name: "is_valid_portable_service_shmem_name (le_name helper_demo_env)"
  by (simp add: helper_demo_env_def is_valid_portable_service_shmem_name_def SHMEM_NAME_MAX_LEN_def is_ascii_lowercase_def)

lemma helper_demo_memory:
  "start_memory helper_demo_env True 1 s =
     (s\<lparr>SHMEM := Some (shmem_write 0 helper_demo_token (replicate (shmem_size (le_layout helper_demo_env) [[(1920, 1080)]]) 0)),
        SHMEM_RUNTIME_NAME := Some (le_name helper_demo_env), IPC_RUNTIME_GENERATION := 1, SECURE_CAPTURE_GENERATION := 1,
        SECURE_DESKTOP_HELPER_GENERATION := 1, FIRST_FRAME_GENERATION := 0\<rparr>, Some helper_demo_token)"
proof -
  have env: "le_displays helper_demo_env = Some [[(1920, 1080)]]" "le_random helper_demo_env = Some (replicate 32 7)"
    "le_create helper_demo_env" by (simp_all add: helper_demo_env_def)
  show ?thesis
    using helper_demo_valid helper_demo_name unfolding start_memory_def env helper_demo_token_def
    by (simp add: env start_create_def write_ipc_token_to_shmem_def ADDR_IPC_TOKEN_def Let_def)
qed

lemma helper_demo_run:
  "\<exists>x. helper_step\<^sup>*\<^sup>* HelperSystem_initial x \<and> lc_state (svc x) = Ready \<and> lc_generation (svc x) = 1 \<and> \<not> overlapped x
     \<and> accepted x = [(1, helper_demo_token)] \<and> SECURE_CAPTURE_GENERATION (svc x) = 1"
proof -
  let ?s0 = PortableService_initial and ?mem = "shmem_write 0 helper_demo_token (replicate (shmem_size (le_layout helper_demo_env) [[(1920, 1080)]]) 0)"
  let ?s1 = "?s0\<lparr>NEXT_LIFECYCLE_GENERATION := 1, lc_state := Starting, lc_generation := 1\<rparr>"
  let ?s2 = "?s1\<lparr>SHMEM := Some ?mem, SHMEM_RUNTIME_NAME := Some (le_name helper_demo_env), IPC_RUNTIME_GENERATION := 1,
    SECURE_CAPTURE_GENERATION := 1, SECURE_DESKTOP_HELPER_GENERATION := 1\<rparr>"
  let ?s3 = "?s2\<lparr>IPC_RUNTIME_TOKEN := Some helper_demo_token\<rparr>"
  let ?s4 = "?s3\<lparr>INPUT_VIA_HELPER := True\<rparr>"
  let ?s5 = "?s4\<lparr>IPC_RUNTIME_TOKEN := None, SHMEM := Some (clear_ipc_token_in_shmem ?mem)\<rparr>"
  let ?j = "\<lparr>l_generation = 1, l_para = SecureDesktop, l_phase = Begun\<rparr>"
  let ?x0 = HelperSystem_initial
  let ?x1 = "?x0\<lparr>svc := ?s1, launching := [?j]\<rparr>"
  let ?x2 = "?x1\<lparr>launching := [?j\<lparr>l_phase := Cleared\<rparr>]\<rparr>"
  let ?x3 = "?x2\<lparr>svc := ?s2, launching := [?j\<lparr>l_phase := Created helper_demo_token\<rparr>], issued := [(1, le_name helper_demo_env, helper_demo_token)]\<rparr>"
  let ?x4 = "?x3\<lparr>svc := ?s3, launching := [?j\<lparr>l_phase := Published\<rparr>]\<rparr>"
  let ?x5 = "?x4\<lparr>svc := ?s4, launching := [], watchdogs := [1]\<rparr>"
  let ?x6 = "?x5\<lparr>svc := ?s5, handshake := Some (helper_demo_token, Some (le_name helper_demo_env), Some 1)\<rparr>"
  let ?x7 = "?x6\<lparr>handshake := None, sessions := [1], accepted := [(1, helper_demo_token)]\<rparr>"
  let ?x8 = "?x7\<lparr>svc := ?s5\<lparr>lc_state := Ready\<rparr>\<rparr>"
  have 1: "helper_step ?x0 ?x1"
    using helper_step.begun [of False ?x0 ?s1 1 SecureDesktop] by (simp add: HelperSystem_initial_def start_begin_def PortableService_initial_def)
  have 2: "helper_step ?x1 ?x2"
    using helper_step.cleared [of ?x1 "[]" ?j "[]"] by (simp add: clear_runtime_shmem_state_def PortableService_initial_def HelperSystem_initial_def)
  have 3: "helper_step ?x2 ?x3"
    using helper_step.created [of ?x2 "[]" "?j\<lparr>l_phase := Cleared\<rparr>" "[]" helper_demo_env ?s2 helper_demo_token]
    by (simp add: HelperSystem_initial_def helper_demo_memory [unfolded One_nat_def] fresh_issue_def PortableService_initial_def)
  have 4: "helper_step ?x3 ?x4" and 5: "helper_step ?x4 ?x5"
    using helper_step.published [of ?x3 "[]" "?j\<lparr>l_phase := Created helper_demo_token\<rparr>" "[]" helper_demo_token]
      helper_step.launched [of ?x4 "[]" "?j\<lparr>l_phase := Published\<rparr>" "[]"]
    by (simp_all add: set_runtime_ipc_token_def start_para_routes_input_via_helper_def HelperSystem_initial_def)
  have 6: "helper_step ?x5 ?x6"
    using helper_step.presented [of ?x5 helper_demo_token ?s5] helper_demo_valid
    by (simp add: consume_runtime_ipc_token_if_match_def constant_time_ipc_token_eq_iff is_valid_portable_service_ipc_token_def HelperSystem_initial_def)
  have 7: "helper_step ?x6 ?x7" and 8: "helper_step ?x7 ?x8"
    using helper_step.authenticated [of ?x6] helper_step.pong [of 1 ?x7]
    by (simp_all add: mark_generation_ready_def HelperSystem_initial_def)
  have "helper_step\<^sup>*\<^sup>* ?x0 ?x8"
    using 1 2 3 4 5 6 7 8 by (meson converse_rtranclp_into_rtranclp rtranclp.rtrancl_refl)
  then show ?thesis by (intro exI [of _ ?x8]) (simp add: HelperSystem_initial_def)
qed

theorem helper_ready_authenticated_witness:
  "\<exists>x. helper_step\<^sup>*\<^sup>* HelperSystem_initial x \<and> lc_generation (svc x) = 1
     \<and> filter (\<lambda>p. fst p = 1) (accepted x) = [(1, helper_demo_token)]"
proof -
  obtain x where x: "helper_step\<^sup>*\<^sup>* HelperSystem_initial x" "lc_state (svc x) = Ready" "lc_generation (svc x) = 1"
    "accepted x = [(1, helper_demo_token)]" "\<not> overlapped x"
    using helper_demo_run by blast
  then show ?thesis using helper_ready_authenticated [OF x(1,2)] by auto
qed

theorem stopped_generation_final_witness:
  "\<exists>x. helper_step\<^sup>*\<^sup>* HelperSystem_initial x \<and> lc_generation (svc x) = 1 \<and> lc_state (svc x) = Stopped"
proof -
  obtain x where x: "helper_step\<^sup>*\<^sup>* HelperSystem_initial x" "lc_state (svc x) = Ready" "lc_generation (svc x) = 1"
    using helper_demo_run by blast
  let ?y = "x\<lparr>svc := fst (request_secure_capture_restart 1 0 (svc x))\<rparr>"
  have y: "helper_step\<^sup>*\<^sup>* HelperSystem_initial ?y"
    by (rule rtranclp.rtrancl_into_rtrancl [OF x(1) helper_step.restarted])
  have y': "lc_state (svc ?y) = Stopped" "lc_generation (svc ?y) = 1"
    using x(3) by (simp_all add: request_secure_capture_restart_def clear_generation_if_current_def Let_def
          record_secure_capture_recovery_failure_def send_generation_shutdown_def)
  let ?z = "?y\<lparr>svc := reset_secure_capture_recovery_failures (svc ?y)\<rparr>"
  have z: "helper_step\<^sup>*\<^sup>* ?y ?z" "lc_generation (svc ?z) = lc_generation (svc ?y)"
    using helper_step.reset [of ?y] by (auto simp: reset_secure_capture_recovery_failures_def)
  have "lc_state (svc ?z) = Stopped" by (rule stopped_generation_final [OF y y'(1) z])
  then show ?thesis using y y'(2) z by (metis rtranclp_trans)
qed

section \<open>Retries of the secure capture are rationed\<close>

text \<open>What the rationing reads: the number of failures and the time of the last one.\<close>

definition counters :: "PortableService \<Rightarrow> nat \<times> instant option" where
  "counters s = (SECURE_CAPTURE_RECOVERY_FAILURES s, LAST_SECURE_CAPTURE_RECOVERY_FAILURE s)"

text \<open>
  The host from a reset of the counters on, up to the time \<open>T\<close>, with the times of the failures recorded so far. The gate of
  the video service asks and launches; a launch that does not become ready in time, a helper without a first
  frame and a connection that closes before one record failures; everything else leaves the counters alone. No
  frame arrives and the desktop stays secure, since both reset the counters.
\<close>

inductive recovering :: "PortableService \<Rightarrow> instant \<Rightarrow> instant list \<Rightarrow> PortableService \<Rightarrow> bool" for s0 where
  start: "recovering s0 0 [] s0"
| gate: "recovering s0 T fails s \<Longrightarrow> T \<le> t
    \<Longrightarrow> ensure_installed_secure_capture_helper forced t now env last_start s = (s', last_start', r) \<Longrightarrow> recovering s0 t fails s'"
| failure: "recovering s0 T fails s \<Longrightarrow> T \<le> t
    \<Longrightarrow> s' \<in> {starting_timeout_reset g t s, fst (request_secure_capture_restart g t s), connection_closed g t s}
    \<Longrightarrow> recovering s0 t (fails @ (if SECURE_CAPTURE_RECOVERY_FAILURES s' = SECURE_CAPTURE_RECOVERY_FAILURES s then [] else [t])) s'"
| other: "recovering s0 T fails s \<Longrightarrow> T \<le> t \<Longrightarrow> counters s' = counters s \<Longrightarrow> recovering s0 t fails s'"

lemma counters_clear [simp]: "counters (fst (clear_generation_if_current g s)) = counters s"
  by (simp add: clear_generation_if_current_def counters_def Let_def)

lemma counters_runtime [simp]: "counters (clear_runtime_shmem_state s) = counters s" "counters (set_runtime_ipc_token t s) = counters s"
  "counters (s\<lparr>INPUT_VIA_HELPER := b\<rparr>) = counters s" "counters (s\<lparr>SHMEM := m\<rparr>) = counters s"
  "counters (start_create b' g len name s) = counters s"
  by (simp_all add: clear_runtime_shmem_state_def set_runtime_ipc_token_def start_create_def counters_def)

lemma counters_begin [simp]: "counters (fst (start_begin running s)) = counters s"
  by (simp add: start_begin_def counters_def Let_def)

lemma counters_memory [simp]: "counters (fst (start_memory env b g s)) = counters s"
  by (simp add: start_memory_def Let_def split: option.split)

text \<open>A launch, whether its process starts or not, leaves the counters as they are and begins a generation.\<close>

lemma counters_start [simp]: "counters (fst (start_portable_service para env s)) = counters s"
proof -
  obtain s1 g where 1: "start_begin (le_running env) s = (s1, g)" by force
  have c1: "counters s1 = counters s" using counters_begin [of "le_running env" s] 1 by simp
  show ?thesis
  proof (cases g)
    case (Some k)
    obtain s2 t where 2: "start_memory env (para = SecureDesktop) k (clear_runtime_shmem_state s1) = (s2, t)" by force
    have "counters s2 = counters s" using counters_memory [of env "para = SecureDesktop" k "clear_runtime_shmem_state s1"] 2 c1 by simp
    then show ?thesis by (cases t) (simp_all add: start_portable_service_def 1 2 Some Let_def)
  qed (use c1 in \<open>simp add: start_portable_service_def 1\<close>)
qed

lemma next_kept:
  "NEXT_LIFECYCLE_GENERATION (fst (start_memory env b g s)) = NEXT_LIFECYCLE_GENERATION s"
  "NEXT_LIFECYCLE_GENERATION (fst (clear_generation_if_current g s)) = NEXT_LIFECYCLE_GENERATION s"
  using lives_memory [of s env b g] lives_clear_generation [of s g] by (simp_all add: lives_on_def)

lemma next_untouched [simp]:
  "NEXT_LIFECYCLE_GENERATION (clear_runtime_shmem_state s) = NEXT_LIFECYCLE_GENERATION s"
  "NEXT_LIFECYCLE_GENERATION (set_runtime_ipc_token t s) = NEXT_LIFECYCLE_GENERATION s"
  by (simp_all add: clear_runtime_shmem_state_def set_runtime_ipc_token_def)

lemma start_begins_generation:
  assumes "lc_state s = Stopped"
  shows "NEXT_LIFECYCLE_GENERATION (fst (start_portable_service para env s)) = NEXT_LIFECYCLE_GENERATION s + 1"
proof -
  let ?k = "NEXT_LIFECYCLE_GENERATION s + 1"
  obtain s1 where 1: "start_begin (le_running env) s = (s1, Some ?k)" "NEXT_LIFECYCLE_GENERATION s1 = ?k"
    using assms by (simp add: start_begin_def)
  obtain s2 t where 2: "start_memory env (para = SecureDesktop) ?k (clear_runtime_shmem_state s1) = (s2, t)" by force
  have "NEXT_LIFECYCLE_GENERATION s2 = ?k"
    using next_kept(1) [of env "para = SecureDesktop" ?k "clear_runtime_shmem_state s1"] 1(2) 2 by simp
  then show ?thesis using 1(1) 2
    by (cases t) (simp_all add: start_portable_service_def Let_def next_kept(2))
qed

text \<open>
  The counters after \<open>fails\<close>: before the third failure the counter counts; from then on it is full, or one below
  because the gate has seen the back-off of the last failure elapse.
\<close>

definition ration_ok :: "instant \<Rightarrow> instant list \<Rightarrow> PortableService \<Rightarrow> bool" where
  "ration_ok T fails s \<longleftrightarrow>
     LAST_SECURE_CAPTURE_RECOVERY_FAILURE s = (if fails = [] then None else Some (last fails))
     \<and> (if length fails < 3 then SECURE_CAPTURE_RECOVERY_FAILURES s = length fails
        else SECURE_CAPTURE_RECOVERY_FAILURES s \<ge> 3
          \<or> SECURE_CAPTURE_RECOVERY_FAILURES s = 2 \<and> last fails + SECURE_CAPTURE_RECOVERY_BACKOFF \<le> T)"

lemma ration_counters: "counters s' = counters s \<Longrightarrow> T \<le> t \<Longrightarrow> ration_ok T fails s \<Longrightarrow> ration_ok t fails s'"
  by (auto simp: ration_ok_def counters_def split: if_splits)

lemma ration_recorded:
  "counters s' = (SECURE_CAPTURE_RECOVERY_FAILURES s + 1, Some t) \<Longrightarrow> ration_ok T fails s \<Longrightarrow> ration_ok t (fails @ [t]) s'"
  by (auto simp: ration_ok_def counters_def split: if_splits)

lemma allowed_iff:
  assumes "ration_ok T fails s" "T \<le> t" "secure_capture_recovery_allowed t s = (s', b)"
  shows "b \<longleftrightarrow> length fails < 3 \<or> last fails + SECURE_CAPTURE_RECOVERY_BACKOFF \<le> t" and "ration_ok t fails s'"
  using assms
  by (auto simp: secure_capture_recovery_allowed_def recovery_allowed_def ration_ok_def MAX_SECURE_CAPTURE_RECOVERY_FAILURES_def
      since_def is_some_and_def SECURE_CAPTURE_RECOVERY_BACKOFF_def from_secs_def Let_def split: if_splits)

lemma failure_counters:
  assumes "s' \<in> {starting_timeout_reset g t s, fst (request_secure_capture_restart g t s), connection_closed g t s}"
  shows "counters s' = counters s \<or> counters s' = (SECURE_CAPTURE_RECOVERY_FAILURES s + 1, Some t)"
proof -
  obtain s1 b where c: "clear_generation_if_current g s = (s1, b)" by force
  have "counters s1 = counters s" using counters_clear [of g s] c by simp
  then have "counters (fst (record_secure_capture_recovery_failure t s1)) = (SECURE_CAPTURE_RECOVERY_FAILURES s + 1, Some t)"
    "counters (send_generation_shutdown g (fst (record_secure_capture_recovery_failure t s1))) = (SECURE_CAPTURE_RECOVERY_FAILURES s + 1, Some t)"
    by (simp_all add: record_secure_capture_recovery_failure_def send_generation_shutdown_def counters_def Let_def)
  then have "counters (fst (request_secure_capture_restart g t s)) \<in> {counters s, (SECURE_CAPTURE_RECOVERY_FAILURES s + 1, Some t)}"
    "counters (connection_closed g t s) \<in> {counters s, (SECURE_CAPTURE_RECOVERY_FAILURES s + 1, Some t)}"
    using \<open>counters s1 = counters s\<close>
    by (cases b; simp add: request_secure_capture_restart_def connection_closed_def c Let_def)+
  moreover have "counters (starting_timeout_reset g t s) \<in> {counters s, (SECURE_CAPTURE_RECOVERY_FAILURES s + 1, Some t)}"
    by (auto simp: starting_timeout_reset_def record_secure_capture_recovery_failure_def counters_def Let_def)
  ultimately show ?thesis using assms by auto
qed

lemma gate_ration:
  assumes "ration_ok T fails s" "T \<le> t"
    and "ensure_installed_secure_capture_helper forced t now env last_start s = (s', last_start', r)"
  shows "ration_ok t fails s'"
proof -
  obtain s1 b where a: "secure_capture_recovery_allowed t s = (s1, b)" by force
  note ok = allowed_iff(2) [OF assms(1,2) a] and keep = ration_counters [OF _ order_refl ok]
  have "s' \<in> {s, s1, fst (start_portable_service SecureDesktop env s1)}"
    using assms(3) by (auto simp: ensure_installed_secure_capture_helper_def a split: if_splits bool.splits prod.splits)
  then show ?thesis using ok ration_counters [OF refl assms(2,1)] keep by auto
qed

lemma recovering_ration:
  assumes "recovering s0 T fails s" "counters s0 = (0, None)"
  shows "ration_ok T fails s"
  using assms(1)
proof (induction rule: recovering.induct)
  case start
  show ?case using assms(2) by (simp add: ration_ok_def counters_def)
next
  case (gate T fails s t forced now env last_start s' last_start' r)
  then show ?case using gate_ration by blast
next
  case (failure T fails s t s' g)
  from failure_counters [OF failure.hyps(3)] show ?case
  proof
    assume c: "counters s' = counters s"
    then have "SECURE_CAPTURE_RECOVERY_FAILURES s' = SECURE_CAPTURE_RECOVERY_FAILURES s" by (simp add: counters_def)
    then show ?thesis using ration_counters [OF c failure.hyps(2) failure.IH] by simp
  next
    assume c: "counters s' = (SECURE_CAPTURE_RECOVERY_FAILURES s + 1, Some t)"
    then have "SECURE_CAPTURE_RECOVERY_FAILURES s' \<noteq> SECURE_CAPTURE_RECOVERY_FAILURES s" by (simp add: counters_def)
    then show ?thesis using ration_recorded [OF c failure.IH] by simp
  qed
next
  case (other T fails s t s')
  then show ?case using ration_counters by blast
qed



section \<open>The shared memory\<close>

text \<open>The helper reads the token that was written, and none after it was cleared.\<close>

lemma token_in_memory:
  assumes valid: "is_valid_portable_service_ipc_token token" and len: "IPC_TOKEN_LEN \<le> length mem"
  shows "map_option read_ipc_token_from_shmem (write_ipc_token_to_shmem token mem) = Some (Some token)"
    and "read_ipc_token_from_shmem (clear_ipc_token_in_shmem mem) = None"
proof -
  have nz: "b \<noteq> 0" if "b \<in> set token" for b
    using valid that by (auto simp: is_valid_portable_service_ipc_token_def is_ascii_hexdigit_def is_ascii_digit_def)
  then have tw: "takeWhile (\<lambda>b. b \<noteq> 0) token = token" by simp
  have "length token = 64" "token \<noteq> []" using valid by (auto simp: is_valid_portable_service_ipc_token_def IPC_TOKEN_LEN_def)
  then show "map_option read_ipc_token_from_shmem (write_ipc_token_to_shmem token mem) = Some (Some token)"
    using valid len by (simp add: tw Let_def write_ipc_token_to_shmem_def read_ipc_token_from_shmem_def shmem_write_def ADDR_IPC_TOKEN_def IPC_TOKEN_LEN_def)
  have "takeWhile (\<lambda>b. b \<noteq> 0) (replicate 64 (0 :: 8 word)) = []" by (simp add: numeral_eq_Suc)
  then show "read_ipc_token_from_shmem (clear_ipc_token_in_shmem mem) = None"
    using len by (simp add: clear_ipc_token_in_shmem_def read_ipc_token_from_shmem_def shmem_write_def ADDR_IPC_TOKEN_def IPC_TOKEN_LEN_def)
qed

lemma align_to_ge: "0 < a \<Longrightarrow> v \<le> align_to v a"
proof -
  assume "0 < a"
  then have "v + a - 1 < (v + a - 1) div a * a + a" using div_mult_mod_eq [of "v + a - 1" a] mod_less_divisor [of a "v + a - 1"] by linarith
  then show ?thesis by (simp add: align_to_def)
qed

lemma max_pixel_ge: "acc \<le> max_pixel rs acc \<and> (\<forall>(w, h) \<in> set rs. align_to w 64 * align_to h 64 \<le> max_pixel rs acc)"
proof (induction rs arbitrary: acc)
  case (Cons r rs)
  obtain w h where r: "r = (w, h)" by fastforce
  let ?acc = "if acc < align_to w 64 * align_to h 64 then align_to w 64 * align_to h 64 else acc"
  show ?case using Cons.IH [of ?acc] by (auto simp: r Let_def split: if_splits)
qed simp

text \<open>The memory holds a frame of four bytes per pixel of every resolution of every display.\<close>

lemma memory_holds_frames:
  assumes rs: "rs \<in> set displays" "(w, h) \<in> set rs" and frame: "0 < w" "0 < h"
  shows "is_valid_capture_frame_length l (shmem_size l displays) (w * h * 4)"
proof -
  have "(w, h) \<in> set (concat displays)" using rs by auto
  then have "align_to w 64 * align_to h 64 \<le> max_pixel (concat displays) 0" using max_pixel_ge [of 0 "concat displays"] by fastforce
  moreover have "w * h \<le> align_to w 64 * align_to h 64" by (intro mult_le_mono align_to_ge) simp_all
  ultimately have "ADDR_CAPTURE_FRAME l + w * h * 4 \<le> align_to (ADDR_CAPTURE_FRAME l + max_pixel (concat displays) 0 * 4) 64"
    using align_to_ge [of 64 "ADDR_CAPTURE_FRAME l + max_pixel (concat displays) 0 * 4"] by linarith
  then have "ADDR_CAPTURE_FRAME l + w * h * 4 \<le> shmem_size l displays" by (simp add: shmem_size_def)
  then show ?thesis using frame by (simp add: is_valid_capture_frame_length_def Let_def)
qed

text \<open>A frame that the capturer returns lies inside the memory, has the length the helper announced, and belongs to the current helper.\<close>

lemma frame_inside_memory:
  assumes "capturer_frame l now a c s = (Inr data, a', c', s')"
  shows "length data = fi_length (fa_info a)" "ADDR_CAPTURE_FRAME l + length data \<le> length (fa_memory a)"
    "ready_generation s = Some (cp_generation c)"
  using assms by (auto simp: capturer_frame_def is_valid_capture_frame_length_def Let_def split: if_splits prod.splits bool.splits)

text \<open>
  The counters say that the frame was read as soon as the capturer returns it, although the data is still in
  the shared memory: the helper, which waits for equal counters, may write the next frame over it.
\<close>

lemma frame_released_early:
  assumes "capturer_frame l now a c s = (Inr data, a', c', s')"
  shows "counter_equal (fa_counter a')"
  using assms by (auto simp: capturer_frame_def counter_ready_def counter_equal_def Let_def split: if_splits prod.splits bool.splits)

text \<open>The counter of the reader is never adjusted by the writer: both values compared are the writer's.\<close>

lemma increase_counter_keeps_reader: "rptr (increase_counter c) = rptr c"
  by (simp add: increase_counter_def Let_def)

text \<open>A frame is announced until it is read, as long as the reader is not a whole cycle behind.\<close>

lemma counter_announces:
  "rptr c = wptr c \<Longrightarrow> snd (counter_ready (increase_counter c)) \<and> \<not> counter_equal (increase_counter c)
     \<and> counter_equal (fst (counter_ready (increase_counter c)))"
  by (simp add: increase_counter_def counter_ready_def counter_equal_def Let_def)

section \<open>Overlapping launches\<close>

text \<open>
  A second launch that comes before the process of the first was started takes the first for stale. When the
  first publishes its token last, this token is accepted for the second generation.
\<close>

lemma overlapping_launches:
  assumes t: "is_valid_portable_service_ipc_token t" and t': "is_valid_portable_service_ipc_token t'"
  shows "let (s, g) = start_begin False PortableService_initial; (s, g') = start_begin False s;
             s = start_create True (the g) n name (clear_runtime_shmem_state (clear_runtime_shmem_state s));
             s = set_runtime_ipc_token t' (start_create True (the g') n' name' s);
             s = set_runtime_ipc_token t s
         in g = Some 1 \<and> g' = Some 2 \<and> snd (snd (snd (consume_runtime_ipc_token_if_match t s))) = Some 2"
  using t by (simp add: start_begin_def PortableService_initial_def clear_runtime_shmem_state_def start_create_def set_runtime_ipc_token_def
      consume_runtime_ipc_token_if_match_def constant_time_ipc_token_eq_iff is_valid_portable_service_ipc_token_def)

end
