(* ===== verification/HandshakeWire.thy ===== *)
theory HandshakeWire
  imports Prelude
begin

text \<open>
  The messages of the peer handshake (\<^verbatim>\<open>src/src/common.rs\<close>): the signed identity that a host sends first, in
  its formats with and without pairing and with a QUIC certificate, the payload in which the viewer answers
  with its session key, and the proof of the pairing passphrase. Signatures, the protobuf message \<open>IdPk\<close>, the
  key derivation, the hash and base64 are the fields of \<open>Crypto\<close>; what is relied on are the laws below. Strings that
  only are compared and hashed are lists of bytes.
\<close>

unbundle bit_operations_syntax

type_synonym bytes = "8 word list"

record IdPk =
  ip_id :: bytes
  ip_pk :: bytes
  ip_secure_channel :: nat

record Crypto =
  sign :: "bytes \<Rightarrow> bytes \<Rightarrow> bytes"
  verify :: "bytes \<Rightarrow> bytes \<Rightarrow> bytes option"
  write_to_bytes :: "IdPk \<Rightarrow> bytes"
  parse_from_bytes :: "bytes \<Rightarrow> IdPk option"
  argon2id13 :: "bytes \<Rightarrow> bytes \<Rightarrow> bytes option"
  sha256 :: "bytes \<Rightarrow> bytes"
  base64_encode :: "bytes \<Rightarrow> string"
  base64_decode :: "string \<Rightarrow> bytes option"

definition PUBLICKEYBYTES :: nat where "PUBLICKEYBYTES = 32"
definition SALTBYTES :: nat where "SALTBYTES = 16"
definition SECURE_SIGNED_ID_V2_MAGIC :: bytes where "SECURE_SIGNED_ID_V2_MAGIC = [82, 68, 83, 69, 67, 86, 50, 0]"
definition DIRECT_SIGNED_ID_V2_MAGIC :: bytes where "DIRECT_SIGNED_ID_V2_MAGIC = [82, 68, 68, 73, 82, 86, 50, 0]"
definition DIRECT_SIGNED_ID_V3_MAGIC :: bytes where "DIRECT_SIGNED_ID_V3_MAGIC = [82, 68, 68, 73, 82, 86, 51, 0]"
definition DIRECT_PUBLIC_KEY_V2_MAGIC :: bytes where "DIRECT_PUBLIC_KEY_V2_MAGIC = [82, 68, 80, 85, 66, 86, 50, 0]"
definition DIRECT_PUBLIC_KEY_V3_MAGIC :: bytes where "DIRECT_PUBLIC_KEY_V3_MAGIC = [82, 68, 80, 85, 66, 86, 51, 0]"
definition DIRECT_HANDSHAKE_ACK_OK :: bytes where "DIRECT_HANDSHAKE_ACK_OK = [100, 105, 114, 101, 99, 116, 45, 111, 107]"
definition DIRECT_HANDSHAKE_FLAG_PAIRING_REQUIRED :: "8 word" where "DIRECT_HANDSHAKE_FLAG_PAIRING_REQUIRED = 1"
definition DIRECT_HANDSHAKE_FLAG_PAIRED_VIEWER_IDENTITY :: "8 word" where "DIRECT_HANDSHAKE_FLAG_PAIRED_VIEWER_IDENTITY = 2"
definition DIRECT_HANDSHAKE_FLAG_QUIC_CERTIFICATE :: "8 word" where "DIRECT_HANDSHAKE_FLAG_QUIC_CERTIFICATE = 4"
definition DIRECT_QUIC_CERTIFICATE_MAX_LEN :: nat where "DIRECT_QUIC_CERTIFICATE_MAX_LEN = 16 * 1024"
definition DIRECT_PUBLIC_KEY_FLAG_PAIRING_PROOF :: "8 word" where "DIRECT_PUBLIC_KEY_FLAG_PAIRING_PROOF = 1"
definition DIRECT_PUBLIC_KEY_FLAG_INITIATOR_ID :: "8 word" where "DIRECT_PUBLIC_KEY_FLAG_INITIATOR_ID = 2"
definition DIRECT_PAIRING_PROOF_LEN :: nat where "DIRECT_PAIRING_PROOF_LEN = 32"

lemmas wire_constants = PUBLICKEYBYTES_def SALTBYTES_def SECURE_SIGNED_ID_V2_MAGIC_def DIRECT_SIGNED_ID_V2_MAGIC_def
  DIRECT_SIGNED_ID_V3_MAGIC_def DIRECT_PUBLIC_KEY_V2_MAGIC_def DIRECT_PUBLIC_KEY_V3_MAGIC_def
  DIRECT_HANDSHAKE_FLAG_PAIRING_REQUIRED_def DIRECT_HANDSHAKE_FLAG_PAIRED_VIEWER_IDENTITY_def
  DIRECT_HANDSHAKE_FLAG_QUIC_CERTIFICATE_def DIRECT_QUIC_CERTIFICATE_MAX_LEN_def
  DIRECT_PUBLIC_KEY_FLAG_PAIRING_PROOF_def DIRECT_PUBLIC_KEY_FLAG_INITIATOR_ID_def DIRECT_PAIRING_PROOF_LEN_def

datatype HandshakeError =
    SignatureMismatch
  | MissingSigningKey
  | MissingMetadata
  | TruncatedMetadata
  | InvalidFlags
  | InvalidSaltLength
  | UnexpectedSalt
  | InvalidCertificateMetadata
  | InvalidIdPk
  | WrongPublicLength
  | CertificateTooLarge
  | IdentityMismatch
  | InitiatorTooLarge
  | MissingFlags
  | TruncatedProof
  | TruncatedInitiator
  | MissingProof
  | MissingSessionKey
  | DerivationFailed

record DirectSignedId =
  d_id :: bytes
  d_sign_pk :: bytes
  d_box_pk :: bytes
  d_pairing_required :: bool
  d_pairing_salt :: "bytes option"
  d_supports_paired_viewer_identity :: bool
  d_quic_certificate_der :: "bytes option"
  d_secure_channel :: nat

record SecureSignedId =
  s_id :: bytes
  s_box_pk :: bytes
  s_pairing_required :: bool
  s_pairing_salt :: "bytes option"
  s_supports_paired_viewer_identity :: bool
  s_quic_certificate_der :: "bytes option"
  s_secure_channel :: nat

record DirectPublicKeyPayload =
  pp_pairing_proof :: "bytes option"
  pp_initiator :: "DirectSignedId option"
  pp_symmetric_value :: bytes

definition starts_with :: "bytes \<Rightarrow> bytes \<Rightarrow> bool" where
  "starts_with p xs = (take (length p) xs = p)"

definition get_pk :: "bytes \<Rightarrow> bytes option" where
  "get_pk pk = (if length pk = 32 then Some pk else None)"

definition be16 :: "nat \<Rightarrow> bytes" where
  "be16 n = [word_of_nat (n div 256), word_of_nat (n mod 256)]"

definition from_be16 :: "8 word \<Rightarrow> 8 word \<Rightarrow> nat" where
  "from_be16 a b = unat a * 256 + unat b"

section \<open>Signed identities\<close>

definition encode_id_pk :: "Crypto \<Rightarrow> bytes \<Rightarrow> bytes \<Rightarrow> nat \<Rightarrow> bytes" where
  "encode_id_pk c ident pk secure_channel = write_to_bytes c \<lparr>ip_id = ident, ip_pk = pk, ip_secure_channel = secure_channel\<rparr>"

definition pairing_flags :: "8 word" where
  "pairing_flags = DIRECT_HANDSHAKE_FLAG_PAIRING_REQUIRED OR DIRECT_HANDSHAKE_FLAG_PAIRED_VIEWER_IDENTITY"

definition sign_secure_id_with_pairing :: "Crypto \<Rightarrow> bytes \<Rightarrow> bytes \<Rightarrow> bytes \<Rightarrow> bytes" where
  "sign_secure_id_with_pairing c id_pk sign_sk pairing_salt =
     sign c (SECURE_SIGNED_ID_V2_MAGIC @ [pairing_flags, word_of_nat (length pairing_salt)] @ pairing_salt @ id_pk) sign_sk"

definition sign_direct_id :: "Crypto \<Rightarrow> bytes \<Rightarrow> bytes \<Rightarrow> bytes \<Rightarrow> bytes" where
  "sign_direct_id c id_pk sign_pk sign_sk = sign_pk @ sign c id_pk sign_sk"

definition sign_direct_id_with_pairing :: "Crypto \<Rightarrow> bytes \<Rightarrow> bytes \<Rightarrow> bytes \<Rightarrow> bytes \<Rightarrow> bytes" where
  "sign_direct_id_with_pairing c id_pk sign_pk sign_sk pairing_salt =
     DIRECT_SIGNED_ID_V2_MAGIC @ sign_pk
       @ sign c ([pairing_flags, word_of_nat (length pairing_salt)] @ pairing_salt @ id_pk) sign_sk"

definition create_host_signed_id ::
  "Crypto \<Rightarrow> bool \<Rightarrow> bytes \<Rightarrow> bytes \<Rightarrow> bytes \<Rightarrow> bytes \<Rightarrow> bytes option \<Rightarrow> nat \<Rightarrow> bytes" where
  "create_host_signed_id c direct ident box_pk sign_pk sign_sk pairing_salt secure_channel =
     (let id_pk = encode_id_pk c ident box_pk secure_channel
      in case pairing_salt of
           None \<Rightarrow> if direct then sign_direct_id c id_pk sign_pk sign_sk else sign c id_pk sign_sk
         | Some salt \<Rightarrow>
             if direct then sign_direct_id_with_pairing c id_pk sign_pk sign_sk salt
             else sign_secure_id_with_pairing c id_pk sign_sk salt)"

definition create_direct_signed_id :: "Crypto \<Rightarrow> bytes \<Rightarrow> bytes \<Rightarrow> bytes \<Rightarrow> bytes \<Rightarrow> bytes" where
  "create_direct_signed_id c ident pk sign_pk sign_sk = sign_direct_id c (encode_id_pk c ident pk 0) sign_pk sign_sk"

definition create_direct_signed_id_v3 ::
  "Crypto \<Rightarrow> bytes \<Rightarrow> bytes \<Rightarrow> bytes \<Rightarrow> bytes \<Rightarrow> bytes option \<Rightarrow> bytes \<Rightarrow> HandshakeError + bytes" where
  "create_direct_signed_id_v3 c ident pk sign_pk sign_sk pairing_salt quic_certificate_der =
     (if length sign_pk \<noteq> PUBLICKEYBYTES \<or> quic_certificate_der = []
         \<or> length quic_certificate_der > DIRECT_QUIC_CERTIFICATE_MAX_LEN then Inl InvalidCertificateMetadata
      else if length quic_certificate_der \<ge> 2 ^ 16 then Inl CertificateTooLarge
      else let flags = DIRECT_HANDSHAKE_FLAG_PAIRED_VIEWER_IDENTITY OR DIRECT_HANDSHAKE_FLAG_QUIC_CERTIFICATE;
               salt = (case pairing_salt of None \<Rightarrow> [] | Some s \<Rightarrow> s);
               flags = (if pairing_salt \<noteq> None then flags OR DIRECT_HANDSHAKE_FLAG_PAIRING_REQUIRED else flags);
               signed_payload = [flags, word_of_nat (length salt)] @ be16 (length quic_certificate_der) @ salt
                 @ quic_certificate_der @ encode_id_pk c ident pk 0
           in Inr (DIRECT_SIGNED_ID_V3_MAGIC @ sign_pk @ sign c signed_payload sign_sk))"

text \<open>The identity at the end of a verified payload.\<close>

definition parse_id_pk :: "Crypto \<Rightarrow> bytes \<Rightarrow> HandshakeError + bytes \<times> bytes \<times> nat" where
  "parse_id_pk c bs =
     (case parse_from_bytes c bs of
        None \<Rightarrow> Inl InvalidIdPk
      | Some res \<Rightarrow>
          (case get_pk (ip_pk res) of
             None \<Rightarrow> Inl WrongPublicLength
           | Some pk \<Rightarrow> Inr (ip_id res, pk, ip_secure_channel res)))"

definition has_flag :: "8 word \<Rightarrow> 8 word \<Rightarrow> bool" where
  "has_flag flags f = (flags AND f \<noteq> 0)"

text \<open>The flags, the salt and the rest of a payload with pairing.\<close>

definition decode_pairing :: "bytes \<Rightarrow> HandshakeError + bool \<times> bool \<times> bytes option \<times> bytes" where
  "decode_pairing verified =
     (if length verified < 2 then Inl MissingMetadata
      else let flags = verified ! 0; salt_len = unat (verified ! 1);
               pairing_required = has_flag flags DIRECT_HANDSHAKE_FLAG_PAIRING_REQUIRED;
               rest = drop 2 verified
           in if length verified < 2 + salt_len then Inl TruncatedMetadata
              else if pairing_required \<and> salt_len \<noteq> SALTBYTES then Inl InvalidSaltLength
              else Inr (pairing_required, has_flag flags DIRECT_HANDSHAKE_FLAG_PAIRED_VIEWER_IDENTITY,
                        if pairing_required then Some (take salt_len rest) else None, drop salt_len rest))"

definition decode_secure_signed_id :: "Crypto \<Rightarrow> bytes \<Rightarrow> bytes \<Rightarrow> HandshakeError + SecureSignedId" where
  "decode_secure_signed_id c signed_id key =
     (case verify c signed_id key of
        None \<Rightarrow> Inl SignatureMismatch
      | Some verified \<Rightarrow>
          if starts_with SECURE_SIGNED_ID_V2_MAGIC verified
          then (case decode_pairing (drop (length SECURE_SIGNED_ID_V2_MAGIC) verified) of
                  Inl e \<Rightarrow> Inl e
                | Inr (required, supports, salt, rest) \<Rightarrow>
                    (case parse_id_pk c rest of
                       Inl e \<Rightarrow> Inl e
                     | Inr (ident, pk, channel) \<Rightarrow>
                         Inr \<lparr>s_id = ident, s_box_pk = pk, s_pairing_required = required, s_pairing_salt = salt,
                              s_supports_paired_viewer_identity = supports, s_quic_certificate_der = None, s_secure_channel = channel\<rparr>))
          else (case parse_id_pk c verified of
                  Inl e \<Rightarrow> Inl e
                | Inr (ident, pk, channel) \<Rightarrow>
                    Inr \<lparr>s_id = ident, s_box_pk = pk, s_pairing_required = False, s_pairing_salt = None,
                         s_supports_paired_viewer_identity = False, s_quic_certificate_der = None, s_secure_channel = channel\<rparr>))"

text \<open>The part of a payload of the third format that precedes the identity.\<close>

definition decode_certificate :: "bytes \<Rightarrow> HandshakeError + bool \<times> bool \<times> bytes option \<times> bytes \<times> bytes" where
  "decode_certificate verified =
     (if length verified < 4 then Inl MissingMetadata
      else let flags = verified ! 0
           in if flags AND NOT (DIRECT_HANDSHAKE_FLAG_PAIRING_REQUIRED OR DIRECT_HANDSHAKE_FLAG_PAIRED_VIEWER_IDENTITY
                   OR DIRECT_HANDSHAKE_FLAG_QUIC_CERTIFICATE) \<noteq> 0 then Inl InvalidFlags
              else let salt_len = unat (verified ! 1); certificate_len = from_be16 (verified ! 2) (verified ! 3);
                       pairing_required = has_flag flags DIRECT_HANDSHAKE_FLAG_PAIRING_REQUIRED;
                       rest = drop 4 verified
                   in if length verified \<le> 4 + salt_len + certificate_len \<or> certificate_len = 0
                         \<or> certificate_len > DIRECT_QUIC_CERTIFICATE_MAX_LEN
                         \<or> \<not> has_flag flags DIRECT_HANDSHAKE_FLAG_QUIC_CERTIFICATE then Inl InvalidCertificateMetadata
                      else if pairing_required \<and> salt_len \<noteq> SALTBYTES then Inl InvalidSaltLength
                      else if \<not> pairing_required \<and> salt_len \<noteq> 0 then Inl UnexpectedSalt
                      else Inr (pairing_required, has_flag flags DIRECT_HANDSHAKE_FLAG_PAIRED_VIEWER_IDENTITY,
                                if pairing_required then Some (take salt_len rest) else None,
                                take certificate_len (drop salt_len rest), drop (salt_len + certificate_len) rest))"

definition decode_direct_id_pk :: "Crypto \<Rightarrow> bytes \<Rightarrow> HandshakeError + DirectSignedId" where
  "decode_direct_id_pk c payload =
     (let magic_len = (if starts_with DIRECT_SIGNED_ID_V3_MAGIC payload \<or> starts_with DIRECT_SIGNED_ID_V2_MAGIC payload then 8 else 0);
          sign_pk = take PUBLICKEYBYTES (drop magic_len payload)
      in if length payload \<le> magic_len + PUBLICKEYBYTES then Inl MissingSigningKey
         else case verify c (drop (magic_len + PUBLICKEYBYTES) payload) sign_pk of
                None \<Rightarrow> Inl SignatureMismatch
              | Some verified \<Rightarrow>
                  if starts_with DIRECT_SIGNED_ID_V3_MAGIC payload
                  then (case decode_certificate verified of
                          Inl e \<Rightarrow> Inl e
                        | Inr (required, supports, salt, certificate, rest) \<Rightarrow>
                            (case parse_id_pk c rest of
                               Inl e \<Rightarrow> Inl e
                             | Inr (ident, pk, channel) \<Rightarrow>
                                 Inr \<lparr>d_id = ident, d_sign_pk = sign_pk, d_box_pk = pk, d_pairing_required = required,
                                      d_pairing_salt = salt, d_supports_paired_viewer_identity = supports,
                                      d_quic_certificate_der = Some certificate, d_secure_channel = channel\<rparr>))
                  else if starts_with DIRECT_SIGNED_ID_V2_MAGIC payload
                  then (case decode_pairing verified of
                          Inl e \<Rightarrow> Inl e
                        | Inr (required, supports, salt, rest) \<Rightarrow>
                            (case parse_id_pk c rest of
                               Inl e \<Rightarrow> Inl e
                             | Inr (ident, pk, channel) \<Rightarrow>
                                 Inr \<lparr>d_id = ident, d_sign_pk = sign_pk, d_box_pk = pk, d_pairing_required = required,
                                      d_pairing_salt = salt, d_supports_paired_viewer_identity = supports,
                                      d_quic_certificate_der = None, d_secure_channel = channel\<rparr>))
                  else (case parse_id_pk c verified of
                          Inl e \<Rightarrow> Inl e
                        | Inr (ident, pk, channel) \<Rightarrow>
                            Inr \<lparr>d_id = ident, d_sign_pk = sign_pk, d_box_pk = pk, d_pairing_required = False,
                                 d_pairing_salt = None, d_supports_paired_viewer_identity = False,
                                 d_quic_certificate_der = None, d_secure_channel = channel\<rparr>))"

definition attach_direct_quic_identity :: "Crypto \<Rightarrow> bytes \<Rightarrow> DirectSignedId \<Rightarrow> HandshakeError + DirectSignedId" where
  "attach_direct_quic_identity c payload direct_id =
     (if payload = [] then Inr direct_id
      else case decode_direct_id_pk c payload of
             Inl e \<Rightarrow> Inl e
           | Inr identity \<Rightarrow>
               if d_id identity \<noteq> d_id direct_id \<or> d_sign_pk identity \<noteq> d_sign_pk direct_id
                  \<or> d_box_pk identity \<noteq> d_box_pk direct_id \<or> d_quic_certificate_der identity = None then Inl IdentityMismatch
               else Inr (direct_id\<lparr>d_quic_certificate_der := d_quic_certificate_der identity\<rparr>))"

definition attach_secure_quic_identity :: "Crypto \<Rightarrow> bytes \<Rightarrow> bytes \<Rightarrow> SecureSignedId \<Rightarrow> HandshakeError + SecureSignedId" where
  "attach_secure_quic_identity c expected_sign_pk payload secure_id =
     (if payload = [] then Inr secure_id
      else case decode_direct_id_pk c payload of
             Inl e \<Rightarrow> Inl e
           | Inr identity \<Rightarrow>
               if d_id identity \<noteq> s_id secure_id \<or> d_sign_pk identity \<noteq> expected_sign_pk
                  \<or> d_box_pk identity \<noteq> s_box_pk secure_id \<or> d_quic_certificate_der identity = None then Inl IdentityMismatch
               else Inr (secure_id\<lparr>s_quic_certificate_der := d_quic_certificate_der identity\<rparr>))"

section \<open>The answer of the viewer\<close>

definition wrap_direct_public_key_symmetric_value :: "bytes \<Rightarrow> bytes option \<Rightarrow> bytes" where
  "wrap_direct_public_key_symmetric_value sealed_key pairing_proof =
     (case pairing_proof of None \<Rightarrow> sealed_key | Some proof \<Rightarrow> DIRECT_PUBLIC_KEY_V2_MAGIC @ proof @ sealed_key)"

definition wrap_direct_public_key_symmetric_value_with_identity ::
  "bytes \<Rightarrow> bytes option \<Rightarrow> bytes option \<Rightarrow> HandshakeError + bytes" where
  "wrap_direct_public_key_symmetric_value_with_identity sealed_key pairing_proof initiator_signed_id =
     (case initiator_signed_id of
        None \<Rightarrow> Inr (wrap_direct_public_key_symmetric_value sealed_key pairing_proof)
      | Some initiator \<Rightarrow>
          if length initiator \<ge> 2 ^ 16 then Inl InitiatorTooLarge
          else let flags = (if pairing_proof \<noteq> None then DIRECT_PUBLIC_KEY_FLAG_INITIATOR_ID OR DIRECT_PUBLIC_KEY_FLAG_PAIRING_PROOF
                            else DIRECT_PUBLIC_KEY_FLAG_INITIATOR_ID)
               in Inr (DIRECT_PUBLIC_KEY_V3_MAGIC @ [flags] @ (case pairing_proof of None \<Rightarrow> [] | Some p \<Rightarrow> p)
                       @ be16 (length initiator) @ initiator @ sealed_key))"

text \<open>The optional proof and the optional initiator, each with what follows it.\<close>

definition unwrap_proof :: "8 word \<Rightarrow> bytes \<Rightarrow> HandshakeError + bytes option \<times> bytes" where
  "unwrap_proof flags rest =
     (if \<not> has_flag flags DIRECT_PUBLIC_KEY_FLAG_PAIRING_PROOF then Inr (None, rest)
      else if length rest < DIRECT_PAIRING_PROOF_LEN then Inl TruncatedProof
      else Inr (Some (take DIRECT_PAIRING_PROOF_LEN rest), drop DIRECT_PAIRING_PROOF_LEN rest))"

definition unwrap_initiator :: "Crypto \<Rightarrow> 8 word \<Rightarrow> bytes \<Rightarrow> HandshakeError + DirectSignedId option \<times> bytes" where
  "unwrap_initiator c flags rest =
     (if \<not> has_flag flags DIRECT_PUBLIC_KEY_FLAG_INITIATOR_ID then Inr (None, rest)
      else if length rest < 2 then Inl TruncatedInitiator
      else let initiator_len = from_be16 (rest ! 0) (rest ! 1); rest = drop 2 rest
           in if initiator_len = 0 \<or> length rest < initiator_len then Inl TruncatedInitiator
              else case decode_direct_id_pk c (take initiator_len rest) of
                     Inl e \<Rightarrow> Inl e
                   | Inr initiator \<Rightarrow> Inr (Some initiator, drop initiator_len rest))"

definition unwrap_direct_public_key_payload :: "Crypto \<Rightarrow> bytes \<Rightarrow> bool \<Rightarrow> HandshakeError + DirectPublicKeyPayload" where
  "unwrap_direct_public_key_payload c payload pairing_required =
     (if starts_with DIRECT_PUBLIC_KEY_V3_MAGIC payload
      then let rest = drop (length DIRECT_PUBLIC_KEY_V3_MAGIC) payload
           in case rest of
                [] \<Rightarrow> Inl MissingFlags
              | flags # rest \<Rightarrow>
                  if flags AND NOT (DIRECT_PUBLIC_KEY_FLAG_PAIRING_PROOF OR DIRECT_PUBLIC_KEY_FLAG_INITIATOR_ID) \<noteq> 0 then Inl InvalidFlags
                  else case unwrap_proof flags rest of
                         Inl e \<Rightarrow> Inl e
                       | Inr (proof, rest) \<Rightarrow>
                           (case unwrap_initiator c flags rest of
                              Inl e \<Rightarrow> Inl e
                            | Inr (initiator, rest) \<Rightarrow>
                                if pairing_required \<and> proof = None \<and> initiator = None then Inl MissingProof
                                else if rest = [] then Inl MissingSessionKey
                                else Inr \<lparr>pp_pairing_proof = proof, pp_initiator = initiator, pp_symmetric_value = rest\<rparr>)
      else if \<not> pairing_required then Inr \<lparr>pp_pairing_proof = None, pp_initiator = None, pp_symmetric_value = payload\<rparr>
      else if length payload \<le> length DIRECT_PUBLIC_KEY_V2_MAGIC + DIRECT_PAIRING_PROOF_LEN
              \<or> \<not> starts_with DIRECT_PUBLIC_KEY_V2_MAGIC payload then Inl MissingProof
      else Inr \<lparr>pp_pairing_proof = Some (take DIRECT_PAIRING_PROOF_LEN (drop (length DIRECT_PUBLIC_KEY_V2_MAGIC) payload)),
               pp_initiator = None,
               pp_symmetric_value = drop (length DIRECT_PUBLIC_KEY_V2_MAGIC + DIRECT_PAIRING_PROOF_LEN) payload\<rparr>)"

definition validate_direct_public_key_initiator :: "DirectSignedId \<Rightarrow> bytes \<Rightarrow> HandshakeError + unit" where
  "validate_direct_public_key_initiator initiator asymmetric_value =
     (case get_pk asymmetric_value of
        None \<Rightarrow> Inl WrongPublicLength
      | Some box_pk \<Rightarrow> if d_box_pk initiator \<noteq> box_pk then Inl IdentityMismatch else Inr ())"

definition is_direct_handshake_ack_ok :: "bytes \<Rightarrow> bool" where
  "is_direct_handshake_ack_ok payload = (payload = DIRECT_HANDSHAKE_ACK_OK)"

section \<open>The proof of the passphrase\<close>

definition PAIRING_LABEL :: bytes where
  "PAIRING_LABEL = [114, 117, 115, 116, 100, 101, 115, 107, 45, 100, 105, 114, 101, 99, 116, 45, 112, 97, 105, 114, 105, 110, 103, 45, 118, 49]"

definition pairing_message :: "bytes \<Rightarrow> bytes \<Rightarrow> bytes \<Rightarrow> bytes \<Rightarrow> bytes \<Rightarrow> bytes" where
  "pairing_message derived peer_id responder_sign_pk responder_box_pk initiator_box_pk =
     PAIRING_LABEL @ derived @ peer_id @ responder_sign_pk @ responder_box_pk @ initiator_box_pk"

definition compute_direct_pairing_proof ::
  "Crypto \<Rightarrow> bytes \<Rightarrow> bytes \<Rightarrow> bytes \<Rightarrow> bytes \<Rightarrow> bytes \<Rightarrow> bytes \<Rightarrow> HandshakeError + bytes" where
  "compute_direct_pairing_proof c passphrase salt peer_id responder_sign_pk responder_box_pk initiator_box_pk =
     (case argon2id13 c passphrase salt of
        None \<Rightarrow> Inl DerivationFailed
      | Some derived \<Rightarrow>
          Inr (take DIRECT_PAIRING_PROOF_LEN
                 (sha256 c (pairing_message derived peer_id responder_sign_pk responder_box_pk initiator_box_pk))))"

section \<open>The laws of the cryptography\<close>

text \<open>A key pair whose signatures verify to the message, and a message format that parses what it writes for an id (a
  valid string) and a channel mode (32 bits), where a message with a key is not empty; base64 and a digest of 32 bytes.\<close>

definition key_pair :: "Crypto \<Rightarrow> bytes \<Rightarrow> bytes \<Rightarrow> bool" where
  "key_pair c pk sk = (length pk = PUBLICKEYBYTES \<and> (\<forall>m. verify c (sign c m sk) pk = Some m \<and> sign c m sk \<noteq> []))"

definition id_format :: "Crypto \<Rightarrow> bytes \<Rightarrow> nat \<Rightarrow> bool" where
  "id_format c ident channel =
     (\<forall>pk. let x = \<lparr>ip_id = ident, ip_pk = pk, ip_secure_channel = channel\<rparr>
           in parse_from_bytes c (write_to_bytes c x) = Some x \<and> (pk \<noteq> [] \<longrightarrow> write_to_bytes c x \<noteq> []))"

definition base64_ok :: "Crypto \<Rightarrow> bool" where
  "base64_ok c = (\<forall>x. base64_decode c (base64_encode c x) = Some x \<and> (x \<noteq> [] \<longrightarrow> base64_encode c x \<noteq> []))"

definition digest_ok :: "Crypto \<Rightarrow> bool" where
  "digest_ok c = (\<forall>x. length (sha256 c x) = 32)"

lemma starts_with_append [simp]: "starts_with p (p @ xs)"
  by (simp add: starts_with_def)

lemma parse_encoded [simp]:
  "id_format c ident channel \<Longrightarrow> length pk = 32 \<Longrightarrow> parse_id_pk c (encode_id_pk c ident pk channel) = Inr (ident, pk, channel)"
  by (simp add: id_format_def parse_id_pk_def encode_id_pk_def get_pk_def Let_def)

lemma from_be16_be16: "n < 65536 \<Longrightarrow> from_be16 (be16 n ! 0) (be16 n ! 1) = n"
proof -
  assume "n < 65536"
  then have "n div 256 < 256" by simp
  then show ?thesis by (simp add: from_be16_def be16_def unat_of_nat)
qed

lemma pairing_flag_facts [simp]:
  "has_flag pairing_flags DIRECT_HANDSHAKE_FLAG_PAIRING_REQUIRED" "has_flag pairing_flags DIRECT_HANDSHAKE_FLAG_PAIRED_VIEWER_IDENTITY"
  by (simp_all add: has_flag_def pairing_flags_def wire_constants)

lemma decode_pairing_encoded:
  "length salt = SALTBYTES \<Longrightarrow> decode_pairing ([pairing_flags, word_of_nat (length salt)] @ salt @ rest) = Inr (True, True, Some salt, rest)"
  by (simp add: decode_pairing_def SALTBYTES_def Let_def)

lemma magics_differ [simp]:
  "\<not> starts_with DIRECT_SIGNED_ID_V3_MAGIC (DIRECT_SIGNED_ID_V2_MAGIC @ xs)"
  "\<not> starts_with DIRECT_PUBLIC_KEY_V3_MAGIC (DIRECT_PUBLIC_KEY_V2_MAGIC @ xs)"
  by (simp_all add: starts_with_def wire_constants)

lemma length_magic [simp]:
  "length DIRECT_SIGNED_ID_V2_MAGIC = 8" "length DIRECT_SIGNED_ID_V3_MAGIC = 8" "length SECURE_SIGNED_ID_V2_MAGIC = 8"
  "length DIRECT_PUBLIC_KEY_V2_MAGIC = 8" "length DIRECT_PUBLIC_KEY_V3_MAGIC = 8"
  by (simp_all add: wire_constants)

text \<open>A key that does not look like one of the markers of the newer formats.\<close>

definition plain_key :: "bytes \<Rightarrow> bool" where
  "plain_key pk = (\<not> starts_with DIRECT_SIGNED_ID_V3_MAGIC pk \<and> \<not> starts_with DIRECT_SIGNED_ID_V2_MAGIC pk)"

lemma starts_with_long: "length p \<le> length xs \<Longrightarrow> starts_with p (xs @ ys) = starts_with p xs"
  by (simp add: starts_with_def)

lemma direct_id_plain:
  assumes "key_pair c pk sk" "id_format c ident channel" "length box_pk = 32" "plain_key pk"
  shows "decode_direct_id_pk c (sign_direct_id c (encode_id_pk c ident box_pk channel) pk sk) =
    Inr \<lparr>d_id = ident, d_sign_pk = pk, d_box_pk = box_pk, d_pairing_required = False, d_pairing_salt = None,
         d_supports_paired_viewer_identity = False, d_quic_certificate_der = None, d_secure_channel = channel\<rparr>"
  using assms by (simp add: decode_direct_id_pk_def sign_direct_id_def key_pair_def plain_key_def PUBLICKEYBYTES_def Let_def starts_with_long)

lemma direct_id_pairing:
  assumes "key_pair c pk sk" "id_format c ident channel" "length box_pk = 32" "length salt = SALTBYTES"
  shows "decode_direct_id_pk c (sign_direct_id_with_pairing c (encode_id_pk c ident box_pk channel) pk sk salt) =
    Inr \<lparr>d_id = ident, d_sign_pk = pk, d_box_pk = box_pk, d_pairing_required = True, d_pairing_salt = Some salt,
         d_supports_paired_viewer_identity = True, d_quic_certificate_der = None, d_secure_channel = channel\<rparr>"
  using assms decode_pairing_encoded [OF assms(4), of "encode_id_pk c ident box_pk channel"]
  by (simp add: decode_direct_id_pk_def sign_direct_id_with_pairing_def key_pair_def PUBLICKEYBYTES_def Let_def)

lemma secure_id_decoded:
  assumes "key_pair c pk sk" "id_format c ident channel" "length box_pk = 32" "\<And>s. salt = Some s \<Longrightarrow> length s = SALTBYTES"
    "\<not> starts_with SECURE_SIGNED_ID_V2_MAGIC (encode_id_pk c ident box_pk channel)"
  shows "decode_secure_signed_id c (create_host_signed_id c False ident box_pk pk sk salt channel) pk =
    Inr \<lparr>s_id = ident, s_box_pk = box_pk, s_pairing_required = (salt \<noteq> None), s_pairing_salt = salt,
         s_supports_paired_viewer_identity = (salt \<noteq> None), s_quic_certificate_der = None, s_secure_channel = channel\<rparr>"
  using assms decode_pairing_encoded [of "the salt" "encode_id_pk c ident box_pk channel"]
  by (cases salt) (simp_all add: decode_secure_signed_id_def create_host_signed_id_def sign_secure_id_with_pairing_def key_pair_def Let_def)

lemma decode_certificate_encoded:
  fixes salt :: "bytes option"
  defines "sl \<equiv> (case salt of None \<Rightarrow> [] | Some s \<Rightarrow> s)"
  assumes salt: "\<And>s. salt = Some s \<Longrightarrow> length s = SALTBYTES" and cert: "cert \<noteq> []" "length cert \<le> DIRECT_QUIC_CERTIFICATE_MAX_LEN"
    and rest: "rest \<noteq> []"
    and flags: "flags = (if salt \<noteq> None then (DIRECT_HANDSHAKE_FLAG_PAIRED_VIEWER_IDENTITY OR DIRECT_HANDSHAKE_FLAG_QUIC_CERTIFICATE)
       OR DIRECT_HANDSHAKE_FLAG_PAIRING_REQUIRED else DIRECT_HANDSHAKE_FLAG_PAIRED_VIEWER_IDENTITY OR DIRECT_HANDSHAKE_FLAG_QUIC_CERTIFICATE)"
  shows "decode_certificate ([flags, word_of_nat (length sl)] @ be16 (length cert) @ sl @ cert @ rest) = Inr (salt \<noteq> None, True, salt, cert, rest)"
proof -
  have len: "unat (word_of_nat (length sl) :: 8 word) = length sl" using salt by (cases salt) (simp_all add: sl_def SALTBYTES_def)
  have be: "from_be16 (be16 (length cert) ! 0) (be16 (length cert) ! 1) = length cert"
    using cert(2) by (intro from_be16_be16) (simp add: DIRECT_QUIC_CERTIFICATE_MAX_LEN_def)
  have two: "length (be16 n) = 2" for n by (simp add: be16_def)
  let ?v = "[flags, word_of_nat (length sl)] @ be16 (length cert) @ sl @ cert @ rest"
  have v: "?v ! 0 = flags" "?v ! 1 = word_of_nat (length sl)" "?v ! 2 = be16 (length cert) ! 0" "?v ! 3 = be16 (length cert) ! 1"
    "drop 4 ?v = sl @ cert @ rest" "length ?v = 4 + length sl + length cert + length rest"
    using two by (simp_all add: be16_def)
  have f: "flags AND NOT (DIRECT_HANDSHAKE_FLAG_PAIRING_REQUIRED OR DIRECT_HANDSHAKE_FLAG_PAIRED_VIEWER_IDENTITY
      OR DIRECT_HANDSHAKE_FLAG_QUIC_CERTIFICATE) = 0"
    "has_flag flags DIRECT_HANDSHAKE_FLAG_PAIRING_REQUIRED \<longleftrightarrow> salt \<noteq> None"
    "has_flag flags DIRECT_HANDSHAKE_FLAG_PAIRED_VIEWER_IDENTITY" "has_flag flags DIRECT_HANDSHAKE_FLAG_QUIC_CERTIFICATE"
    by (simp_all add: flags has_flag_def wire_constants)
  show ?thesis
    unfolding decode_certificate_def v f len be Let_def
    using cert rest salt f(3,4) by (cases salt) (simp_all add: sl_def)
qed

lemma direct_id_certificate:
  assumes "key_pair c pk sk" "id_format c ident 0" "length box_pk = 32" "\<And>s. salt = Some s \<Longrightarrow> length s = SALTBYTES"
    and "cert \<noteq> []" "length cert \<le> DIRECT_QUIC_CERTIFICATE_MAX_LEN"
  shows "\<exists>p. create_direct_signed_id_v3 c ident box_pk pk sk salt cert = Inr p \<and> decode_direct_id_pk c p =
    Inr \<lparr>d_id = ident, d_sign_pk = pk, d_box_pk = box_pk, d_pairing_required = (salt \<noteq> None), d_pairing_salt = salt,
         d_supports_paired_viewer_identity = True, d_quic_certificate_der = Some cert, d_secure_channel = 0\<rparr>"
proof -
  have rest: "encode_id_pk c ident box_pk 0 \<noteq> []" using spec [OF assms(2) [unfolded id_format_def Let_def], of box_pk] assms(3)
    by (cases box_pk) (simp_all add: encode_id_pk_def)
  note dec = decode_certificate_encoded [OF assms(4-6) rest refl]
  show ?thesis using assms dec
    by (simp add: create_direct_signed_id_v3_def decode_direct_id_pk_def key_pair_def PUBLICKEYBYTES_def DIRECT_QUIC_CERTIFICATE_MAX_LEN_def Let_def)
qed

text \<open>
  C10. A viewer reads exactly the identity that a host signed. In the direct mode, for every id, session key,
  pairing salt and channel mode of the host the decoded identity has these and the signing key of the host; pairing is
  required, and the identity of a paired viewer supported, exactly if there is a salt. In the rendezvous mode the same holds
  with the key that the rendezvous server vouches for. The identity with a QUIC certificate of up to 16 KB has the
  certificate, always supports the identity of a paired viewer, and has channel mode 0. The two plain formats are
  recognized by what they do not start with: the signing key must not begin with the marker of a newer format, nor the
  encoded id with that of the rendezvous format.
\<close>

theorem signed_identity_roundtrip:
  assumes "key_pair c pk sk" "id_format c ident channel" "id_format c ident 0" "length box_pk = 32" "\<And>s. salt = Some s \<Longrightarrow> length s = SALTBYTES"
    and "plain_key pk" "\<not> starts_with SECURE_SIGNED_ID_V2_MAGIC (encode_id_pk c ident box_pk channel)"
    and "cert \<noteq> []" "length cert \<le> DIRECT_QUIC_CERTIFICATE_MAX_LEN"
  shows "decode_direct_id_pk c (create_host_signed_id c True ident box_pk pk sk salt channel) =
      Inr \<lparr>d_id = ident, d_sign_pk = pk, d_box_pk = box_pk, d_pairing_required = (salt \<noteq> None), d_pairing_salt = salt,
           d_supports_paired_viewer_identity = (salt \<noteq> None), d_quic_certificate_der = None, d_secure_channel = channel\<rparr>
    \<and> decode_secure_signed_id c (create_host_signed_id c False ident box_pk pk sk salt channel) pk =
      Inr \<lparr>s_id = ident, s_box_pk = box_pk, s_pairing_required = (salt \<noteq> None), s_pairing_salt = salt,
           s_supports_paired_viewer_identity = (salt \<noteq> None), s_quic_certificate_der = None, s_secure_channel = channel\<rparr>
    \<and> (\<exists>p. create_direct_signed_id_v3 c ident box_pk pk sk salt cert = Inr p \<and> decode_direct_id_pk c p =
      Inr \<lparr>d_id = ident, d_sign_pk = pk, d_box_pk = box_pk, d_pairing_required = (salt \<noteq> None), d_pairing_salt = salt,
           d_supports_paired_viewer_identity = True, d_quic_certificate_der = Some cert, d_secure_channel = 0\<rparr>)"
proof (intro conjI)
  show "decode_direct_id_pk c (create_host_signed_id c True ident box_pk pk sk salt channel) =
      Inr \<lparr>d_id = ident, d_sign_pk = pk, d_box_pk = box_pk, d_pairing_required = (salt \<noteq> None), d_pairing_salt = salt,
           d_supports_paired_viewer_identity = (salt \<noteq> None), d_quic_certificate_der = None, d_secure_channel = channel\<rparr>"
    using direct_id_plain [OF assms(1,2,4,6)] direct_id_pairing [OF assms(1,2,4)] assms(5)
    by (cases salt) (simp_all add: create_host_signed_id_def)
qed (use secure_id_decoded [OF assms(1,2,4,5,7), of salt] direct_id_certificate [OF assms(1,3,4,5,8,9), of salt] in simp_all)

section \<open>What a decoded identity shows\<close>

text \<open>An identity that decodes was signed with the key it names.\<close>

lemma decoded_identity_signed:
  assumes "decode_direct_id_pk c payload = Inr d"
  shows "length (d_sign_pk d) = PUBLICKEYBYTES
    \<and> (verify c (drop 32 payload) (d_sign_pk d) \<noteq> None \<or> verify c (drop 40 payload) (d_sign_pk d) \<noteq> None)"
  using assms
  by (auto simp: decode_direct_id_pk_def Let_def PUBLICKEYBYTES_def split: if_splits option.splits sum.splits prod.splits)

lemma parse_id_pk_length: "parse_id_pk c bs = Inr (ident, pk, ch) \<Longrightarrow> length pk = 32"
  by (auto simp: parse_id_pk_def get_pk_def split: option.splits if_splits)

lemma decode_pairing_salt: "decode_pairing v = Inr (r, u, salt, rest) \<Longrightarrow> r = (salt \<noteq> None) \<and> (\<forall>s. salt = Some s \<longrightarrow> length s = SALTBYTES)"
  by (auto simp: decode_pairing_def Let_def split: if_splits)

lemma decode_certificate_salt:
  "decode_certificate v = Inr (r, u, salt, cert, rest) \<Longrightarrow> r = (salt \<noteq> None) \<and> (\<forall>s. salt = Some s \<longrightarrow> length s = SALTBYTES)"
  by (auto simp: decode_certificate_def Let_def split: if_splits)

text \<open>Pairing is required exactly if a salt of the right length is there.\<close>

lemma decoded_salt:
  assumes "decode_direct_id_pk c payload = Inr d"
  shows "d_pairing_required d = (d_pairing_salt d \<noteq> None)" "d_pairing_salt d = Some s \<Longrightarrow> length s = SALTBYTES" "length (d_box_pk d) = 32"
  using assms
  by (auto simp: decode_direct_id_pk_def Let_def split: if_splits option.splits sum.splits prod.splits
      dest!: decode_pairing_salt decode_certificate_salt parse_id_pk_length)

lemma decoded_secure_salt:
  assumes "decode_secure_signed_id c payload key = Inr d"
  shows "s_pairing_required d = (s_pairing_salt d \<noteq> None)"
  using assms
  by (auto simp: decode_secure_signed_id_def split: if_splits option.splits sum.splits prod.splits dest!: decode_pairing_salt)

section \<open>The answer of the viewer arrives\<close>

text \<open>
  The host reads what the viewer wrapped: the proof of the passphrase if there is one, the identity of
  the viewer if it sends one, and the sealed session key, whether the host requires pairing or not. Without an
  identity and a proof the sealed key is sent as it is, so it must not begin with the marker of the newer format.
\<close>

lemma payload_unwrapped:
  assumes "wrap_direct_public_key_symmetric_value_with_identity key pairing_proof initiator = Inr payload" "key \<noteq> []"
    and "\<And>p. pairing_proof = Some p \<Longrightarrow> length p = DIRECT_PAIRING_PROOF_LEN" "\<And>i. initiator = Some i \<Longrightarrow> i \<noteq> []"
    and "pairing_proof = None \<Longrightarrow> initiator = None \<Longrightarrow> \<not> starts_with DIRECT_PUBLIC_KEY_V3_MAGIC key"
    and "required \<longleftrightarrow> pairing_proof \<noteq> None \<or> initiator \<noteq> None"
  shows "unwrap_direct_public_key_payload c payload required =
    (case initiator of
       None \<Rightarrow> Inr \<lparr>pp_pairing_proof = pairing_proof, pp_initiator = None, pp_symmetric_value = key\<rparr>
     | Some i \<Rightarrow> (case decode_direct_id_pk c i of
                    Inl e \<Rightarrow> Inl e
                  | Inr d \<Rightarrow> Inr \<lparr>pp_pairing_proof = pairing_proof, pp_initiator = Some d, pp_symmetric_value = key\<rparr>))"
proof (cases initiator)
  case None
  then have "payload = wrap_direct_public_key_symmetric_value key pairing_proof"
    using assms(1) by (simp add: wrap_direct_public_key_symmetric_value_with_identity_def)
  then show ?thesis using assms(2-6) None
    by (cases pairing_proof) (simp_all add: wrap_direct_public_key_symmetric_value_def unwrap_direct_public_key_payload_def
        DIRECT_PAIRING_PROOF_LEN_def)
next
  case (Some i)
  then have i: "i \<noteq> []" "length i < 65536"
    using assms(1,4) by (auto simp: wrap_direct_public_key_symmetric_value_with_identity_def split: if_splits)
  define flags where "flags = (if pairing_proof \<noteq> None then DIRECT_PUBLIC_KEY_FLAG_INITIATOR_ID OR DIRECT_PUBLIC_KEY_FLAG_PAIRING_PROOF
    else DIRECT_PUBLIC_KEY_FLAG_INITIATOR_ID)"
  have p: "payload = DIRECT_PUBLIC_KEY_V3_MAGIC @ flags # (case pairing_proof of None \<Rightarrow> [] | Some p \<Rightarrow> p) @ be16 (length i) @ i @ key"
    using assms(1) Some by (simp add: wrap_direct_public_key_symmetric_value_with_identity_def flags_def Let_def split: if_splits)
  have f: "flags AND NOT (DIRECT_PUBLIC_KEY_FLAG_PAIRING_PROOF OR DIRECT_PUBLIC_KEY_FLAG_INITIATOR_ID) = 0"
    "has_flag flags DIRECT_PUBLIC_KEY_FLAG_PAIRING_PROOF \<longleftrightarrow> pairing_proof \<noteq> None" "has_flag flags DIRECT_PUBLIC_KEY_FLAG_INITIATOR_ID"
    by (simp_all add: flags_def has_flag_def wire_constants)
  have un: "unwrap_proof flags ((case pairing_proof of None \<Rightarrow> [] | Some p \<Rightarrow> p) @ rest) = Inr (pairing_proof, rest)" for rest
    using assms(3) f(2) by (cases pairing_proof) (simp_all add: unwrap_proof_def)
  have "unwrap_initiator c flags (be16 (length i) @ i @ key) =
      (case decode_direct_id_pk c i of Inl e \<Rightarrow> Inl e | Inr d \<Rightarrow> Inr (Some d, key))"
    using i f(3) from_be16_be16 [OF i(2)] by (simp add: unwrap_initiator_def be16_def Let_def split: sum.split)
  then show ?thesis unfolding unwrap_direct_public_key_payload_def p using assms(2) Some un f(1)
    by (simp add: Let_def split: sum.split)
qed

section \<open>The proof binds its parts\<close>

text \<open>The message that is hashed determines the derived key, the peer and the three keys.\<close>

lemma pairing_message_inj:
  assumes "pairing_message d i s b v = pairing_message d' i' s' b' v'"
    and "length d = length d'" "length s = 32" "length s' = 32" "length b = 32" "length b' = 32" "length v = 32" "length v' = 32"
  shows "d = d' \<and> i = i' \<and> s = s' \<and> b = b' \<and> v = v'"
proof -
  have 1: "d @ (i @ s @ b @ v) = d' @ (i' @ s' @ b' @ v')" using assms(1) by (simp add: pairing_message_def)
  then have d: "d = d'" and 2: "i @ (s @ b @ v) = i' @ (s' @ b' @ v')" using assms(2) by simp_all
  have "i = i' \<and> s @ b @ v = s' @ b' @ v'" using iffD1 [OF append_eq_append_conv 2] assms(3-8) by simp
  then show ?thesis using d assms(3-8) by simp
qed

section \<open>A concrete instance\<close>

text \<open>A format of \<open>IdPk\<close> with lengths in unary, and a signature that is the front of the key followed by the message.\<close>

definition demo_write :: "IdPk \<Rightarrow> bytes" where
  "demo_write x = replicate (length (ip_id x)) 1 @ [0] @ ip_id x @ replicate (length (ip_pk x)) 1 @ [0] @ ip_pk x @ replicate (ip_secure_channel x) 1"

definition unary :: "bytes \<Rightarrow> nat \<times> bytes" where
  "unary bs = (length (takeWhile (\<lambda>b. b = 1) bs), drop 1 (dropWhile (\<lambda>b. b = 1) bs))"

definition demo_parse :: "bytes \<Rightarrow> IdPk option" where
  "demo_parse bs = (let (n, rest) = unary bs; (k, rest') = unary (drop n rest)
     in Some \<lparr>ip_id = take n rest, ip_pk = take k rest', ip_secure_channel = length (drop k rest')\<rparr>)"

definition crypto_demo :: Crypto where
  "crypto_demo = \<lparr>sign = (\<lambda>m sk. take 32 sk @ m), verify = (\<lambda>s pk. if starts_with pk s then Some (drop (length pk) s) else None),
     write_to_bytes = demo_write, parse_from_bytes = demo_parse, argon2id13 = (\<lambda>p s. Some (p @ s)), sha256 = (\<lambda>m. take 32 (m @ replicate 32 0)),
     base64_encode = map (\<lambda>b. char_of (unat b)), base64_decode = (\<lambda>s. Some (map (\<lambda>c. word_of_nat (of_char c)) s))\<rparr>"

lemma unary_replicate: "unary (replicate n 1 @ 0 # xs) = (n, xs)"
  by (induction n) (auto simp: unary_def)

lemma demo_format: "id_format crypto_demo ident channel"
  by (auto simp: id_format_def Let_def crypto_demo_def demo_parse_def demo_write_def unary_replicate)

definition key_demo :: bytes where "key_demo = replicate 32 7"

lemma demo_base64: "base64_ok crypto_demo"
proof -
  have u: "unat b < 256" for b :: "8 word" by (rule order_less_le_trans [OF unsigned_less]) simp
  have "word_of_nat (of_char (char_of (unat b))) = b" for b :: "8 word" using u [of b] by simp
  then show ?thesis by (simp add: base64_ok_def crypto_demo_def comp_def)
qed

lemma demo_digest: "digest_ok crypto_demo"
  by (auto simp: digest_ok_def crypto_demo_def min_def)

lemma key_demo_pair: "key_pair crypto_demo key_demo key_demo"
  by (simp add: key_pair_def crypto_demo_def key_demo_def PUBLICKEYBYTES_def)

lemma key_demo_plain: "plain_key key_demo"
  by (auto simp: plain_key_def starts_with_def key_demo_def wire_constants dest: arg_cong [of _ _ hd])

theorem signed_identity_roundtrip_witness:
  "decode_direct_id_pk crypto_demo (create_host_signed_id crypto_demo True [5] key_demo key_demo key_demo (Some (replicate 16 3)) 1) =
     Inr \<lparr>d_id = [5], d_sign_pk = key_demo, d_box_pk = key_demo, d_pairing_required = True, d_pairing_salt = Some (replicate 16 3),
          d_supports_paired_viewer_identity = True, d_quic_certificate_der = None, d_secure_channel = 1\<rparr>"
proof -
  have "\<not> starts_with SECURE_SIGNED_ID_V2_MAGIC (encode_id_pk crypto_demo [5] key_demo 1)"
    by (simp add: starts_with_def wire_constants encode_id_pk_def crypto_demo_def demo_write_def)
  moreover have "length key_demo = 32" by (simp add: key_demo_def)
  ultimately show ?thesis
    using signed_identity_roundtrip [OF key_demo_pair demo_format demo_format _ _ key_demo_plain, of key_demo "Some (replicate 16 3)" "[5]" 1 "[9]"]
    by (simp add: SALTBYTES_def DIRECT_QUIC_CERTIFICATE_MAX_LEN_def)
qed

lemma payload_unwrapped_demo:
  "\<exists>payload. wrap_direct_public_key_symmetric_value_with_identity [1, 2] (Some (replicate 32 4)) None = Inr payload
     \<and> unwrap_direct_public_key_payload crypto_demo payload True =
         Inr \<lparr>pp_pairing_proof = Some (replicate 32 4), pp_initiator = None, pp_symmetric_value = [1, 2]\<rparr>"
proof -
  obtain payload where p: "wrap_direct_public_key_symmetric_value_with_identity [1, 2] (Some (replicate 32 4)) None = Inr payload"
    by (simp add: wrap_direct_public_key_symmetric_value_with_identity_def)
  then show ?thesis using payload_unwrapped [OF p, of True crypto_demo] by (simp add: DIRECT_PAIRING_PROOF_LEN_def)
qed

end
