(* ===== verification/PeerTrust.thy ===== *)
theory PeerTrust
  imports HandshakeWire
begin

text \<open>
  The handshake of a viewer with a host and the trust it leaves behind: the keys and pairings that the viewer
  remembers (\<^verbatim>\<open>src/src/common.rs\<close>), the handshake of a direct and of a rendezvous connection with its retries
  (\<^verbatim>\<open>src/src/client.rs\<close>), and the host's side (\<^verbatim>\<open>src/src/server.rs\<close>). Both handshakes of the viewer have the
  same stages, which are written once. What arrives over the connection, the answers of the user, the clock
  and the configuration are the fields of an attempt. The model is that of a build with QUIC.
\<close>

section \<open>What the viewer remembers\<close>

text \<open>The text of a confirmed pairing: the old \<open>Y\<close>, a time in milliseconds, or anything else.\<close>

datatype Confirmation = LegacyYes | ConfirmedAt int | Unreadable

datatype Scope = Direct | Rendezvous

text \<open>
  \<open>bootstrap_key\<close> is the key that the configuration pins for a peer id (empty: none); the other fields are
  options per peer configuration and the identities that QUIC remembers.
\<close>

record ViewerStore =
  bootstrap_key :: "bytes \<Rightarrow> string"
  pinned_key :: "bytes \<Rightarrow> string option"
  paired_viewer :: "Scope \<Rightarrow> bytes \<Rightarrow> Confirmation option"
  quic_peers :: "(bytes \<times> bytes \<times> bytes) list"

datatype TrustedPeerSigningKeyStatus = Trusted | Missing | Changed bytes bytes | InvalidPinnedKey

datatype ViewerError =
    ReopenAfterApproval
  | PeerError string
  | EmptySigningKey
  | InvalidPinned
  | BootstrapMismatch
  | IdentityChanged
  | InvalidMessage
  | InvalidSignedKey HandshakeError
  | NoRendezvousKey
  | MissingPublicKey
  | InvalidPublicKey HandshakeError
  | PeerIdMismatch
  | NoCertificate
  | BindingMismatch
  | EmptyPeerId
  | NoPairingToRepair
  | KeyChangedWithoutPairing
  | FirstContactRefused
  | UserDeclined
  | LocalIdentity
  | WireError HandshakeError
  | TimedOut
  | SendFailed
  | ResetByPeer
  | InvalidAcknowledgement
  | AcknowledgementMissing
  | QuicStoreError
  | QuicIdentityChanged
  | TransportError
  | RetryLimit
  | RejectedAfterRetry
  | UpgradeMismatch

definition validate_pinned_peer_signing_key :: "Crypto \<Rightarrow> string option \<Rightarrow> bytes \<Rightarrow> ViewerError + bool" where
  "validate_pinned_peer_signing_key c pinned pk =
     (case pinned of
        None \<Rightarrow> Inr True
      | Some v \<Rightarrow> if v = [] then Inr True
          else case base64_decode c v of
                 None \<Rightarrow> Inl InvalidPinned
               | Some expected \<Rightarrow> if expected \<noteq> pk then Inl IdentityChanged else Inr False)"

definition pinned_peer_signing_key_status :: "Crypto \<Rightarrow> string option \<Rightarrow> bytes \<Rightarrow> TrustedPeerSigningKeyStatus" where
  "pinned_peer_signing_key_status c pinned pk =
     (case pinned of
        None \<Rightarrow> Missing
      | Some v \<Rightarrow> if v = [] then Missing
          else case base64_decode c v of
                 None \<Rightarrow> InvalidPinnedKey
               | Some expected \<Rightarrow> if expected = pk then Trusted else Changed expected pk)"

definition validate_bootstrap_trusted_peer_signing_key :: "Crypto \<Rightarrow> string \<Rightarrow> bytes \<Rightarrow> ViewerError + unit" where
  "validate_bootstrap_trusted_peer_signing_key c trusted_key pk =
     (if trusted_key = [] then Inr ()
      else case base64_decode c trusted_key of
             None \<Rightarrow> Inl InvalidPinned
           | Some expected \<Rightarrow> if expected \<noteq> pk then Inl BootstrapMismatch else Inr ())"

definition trusted_peer_signing_key_status ::
  "Crypto \<Rightarrow> ViewerStore \<Rightarrow> bytes \<Rightarrow> bytes \<Rightarrow> bytes \<Rightarrow> ViewerError + TrustedPeerSigningKeyStatus" where
  "trusted_peer_signing_key_status c st peer_id cid pk =
     (if pk = [] then Inl EmptySigningKey
      else let key = bootstrap_key st peer_id
           in if key \<noteq> []
              then (case validate_bootstrap_trusted_peer_signing_key c key pk of Inl e \<Rightarrow> Inl e | Inr _ \<Rightarrow> Inr Trusted)
              else Inr (pinned_peer_signing_key_status c (pinned_key st cid) pk))"

definition pin_peer_signing_key :: "Crypto \<Rightarrow> bytes \<Rightarrow> bytes \<Rightarrow> ViewerStore \<Rightarrow> ViewerError + ViewerStore" where
  "pin_peer_signing_key c cid pk st =
     (if pk = [] then Inl EmptySigningKey
      else case validate_pinned_peer_signing_key c (pinned_key st cid) pk of
             Inl e \<Rightarrow> Inl e
           | Inr needs_pin \<Rightarrow>
               Inr (if needs_pin then st\<lparr>pinned_key := (pinned_key st)(cid \<mapsto> base64_encode c pk)\<rparr> else st))"

definition pin_trusted_peer_signing_key :: "Crypto \<Rightarrow> bytes \<Rightarrow> bytes \<Rightarrow> bytes \<Rightarrow> ViewerStore \<Rightarrow> ViewerError + ViewerStore" where
  "pin_trusted_peer_signing_key c peer_id cid pk st =
     (if pk = [] then Inl EmptySigningKey
      else let key = bootstrap_key st peer_id
           in if key \<noteq> []
              then (case validate_bootstrap_trusted_peer_signing_key c key pk of Inl e \<Rightarrow> Inl e | Inr _ \<Rightarrow> Inr st)
              else pin_peer_signing_key c cid pk st)"

definition trust_peer_signing_key_after_pairing ::
  "Crypto \<Rightarrow> bytes \<Rightarrow> bytes \<Rightarrow> bytes \<Rightarrow> ViewerStore \<Rightarrow> ViewerError + ViewerStore" where
  "trust_peer_signing_key_after_pairing c peer_id cid pk st =
     (if pk = [] then Inl EmptySigningKey
      else let key = bootstrap_key st peer_id
           in if key \<noteq> []
              then (case validate_bootstrap_trusted_peer_signing_key c key pk of Inl e \<Rightarrow> Inl e | Inr _ \<Rightarrow> Inr st)
              else let encoded = base64_encode c pk
                   in Inr (if pinned_key st cid \<noteq> Some encoded then st\<lparr>pinned_key := (pinned_key st)(cid \<mapsto> encoded)\<rparr> else st))"

definition PAIRED_VIEWER_CONFIRMATION_TTL_MS :: int where
  "PAIRED_VIEWER_CONFIRMATION_TTL_MS = 30 * 24 * 60 * 60 * 1000"

definition is_paired_viewer_confirmation_current :: "int \<Rightarrow> Confirmation \<Rightarrow> bool" where
  "is_paired_viewer_confirmation_current now value =
     (case value of
        LegacyYes \<Rightarrow> True
      | Unreadable \<Rightarrow> False
      | ConfirmedAt t \<Rightarrow> t > 0 \<and> (t \<ge> now \<or> sat_i64 (now - t) \<le> PAIRED_VIEWER_CONFIRMATION_TTL_MS))"

definition set_confirmed_paired_viewer :: "Scope \<Rightarrow> bytes \<Rightarrow> int \<Rightarrow> bool \<Rightarrow> ViewerStore \<Rightarrow> ViewerStore" where
  "set_confirmed_paired_viewer scope cid now yes st =
     st\<lparr>paired_viewer := (paired_viewer st)(scope := (paired_viewer st scope)(cid := if yes then Some (ConfirmedAt now) else None))\<rparr>"

text \<open>An old confirmation is renewed when it is read.\<close>

definition has_confirmed_paired_viewer :: "Scope \<Rightarrow> bytes \<Rightarrow> int \<Rightarrow> ViewerStore \<Rightarrow> ViewerStore \<times> bool" where
  "has_confirmed_paired_viewer scope cid now st =
     (case paired_viewer st scope cid of
        None \<Rightarrow> (st, False)
      | Some LegacyYes \<Rightarrow> (set_confirmed_paired_viewer scope cid now True st, True)
      | Some value \<Rightarrow> (st, is_paired_viewer_confirmation_current now value))"

text \<open>\<open>ok\<close> says whether the store of QUIC can be read and written.\<close>

definition remember_peer ::
  "bool \<Rightarrow> bool \<Rightarrow> bytes \<Rightarrow> bytes \<Rightarrow> bytes \<Rightarrow> (bytes \<times> bytes \<times> bytes) list \<Rightarrow> ViewerError + (bytes \<times> bytes \<times> bytes) list" where
  "remember_peer ok allow_replace ident identity_key certificate_der peers =
     (if certificate_der = [] then Inr peers
      else if \<not> ok then Inl QuicStoreError
      else case map_of peers ident of
             None \<Rightarrow> Inr ((ident, identity_key, certificate_der) # peers)
           | Some existing \<Rightarrow>
               if existing = (identity_key, certificate_der) then Inr peers
               else if allow_replace then Inr ((ident, identity_key, certificate_der) # filter (\<lambda>p. fst p \<noteq> ident) peers)
               else Inl QuicIdentityChanged)"

definition remember_authenticated_peer :: "bool \<Rightarrow> bytes \<Rightarrow> bytes \<Rightarrow> bytes \<Rightarrow> ViewerStore \<Rightarrow> ViewerError + ViewerStore" where
  "remember_authenticated_peer ok ident identity_key certificate_der st =
     (case remember_peer ok True ident identity_key certificate_der (quic_peers st) of
        Inl e \<Rightarrow> Inl e
      | Inr peers \<Rightarrow> Inr (st\<lparr>quic_peers := peers\<rparr>))"

section \<open>One attempt\<close>

record HandshakeInput =
  peer :: "(bytes \<times> bytes) option"
  passphrase :: "bytes option"
  can_reopen :: bool
  require_authenticated_repair :: bool
  repair_identity_approved :: bool
  reopen_requested :: bool

definition HandshakeInput_default :: HandshakeInput where
  "HandshakeInput_default = \<lparr>peer = None, passphrase = None, can_reopen = False, require_authenticated_repair = False,
     repair_identity_approved = False, reopen_requested = False\<rparr>"

definition bind_peer :: "bytes \<Rightarrow> bytes \<Rightarrow> HandshakeInput \<Rightarrow> ViewerError + HandshakeInput" where
  "bind_peer peer_id signing_key i =
     (case peer i of
        Some (expected_id, expected_key) \<Rightarrow>
          if expected_id \<noteq> peer_id \<or> expected_key \<noteq> signing_key then Inl IdentityChanged else Inr i
      | None \<Rightarrow> Inr (i\<lparr>peer := Some (peer_id, signing_key)\<rparr>))"

definition needs_fresh_socket :: "bool \<Rightarrow> HandshakeInput \<Rightarrow> bool" where
  "needs_fresh_socket late i = (can_reopen i \<and> late)"

datatype NextMessage =
    NoAnswer
  | Closed
  | Unparsable
  | SignedIdMessage bytes bytes
  | ErrorBox string
  | OtherMessage

text \<open>
  What the world does in one attempt. \<open>quic_binding\<close> is the check of the certificate if the connection is a
  QUIC one; \<open>confirm\<close> is the answer of the user who is shown the id and the fingerprint of the key; \<open>late\<close> and
  \<open>late_passphrase\<close> tell whether half the time-out has passed at the two places that ask; \<open>sealed_key\<close> seals the
  new session key for the session key of the host. \<open>NoAnswer\<close> is a time-out or an error of the connection.
\<close>

record Attempt =
  first_message :: NextMessage
  quic_binding :: "(bytes \<Rightarrow> bytes \<Rightarrow> bool) option"
  confirm :: "bytes \<Rightarrow> bytes \<Rightarrow> bool"
  asked_passphrase :: "bytes option"
  late :: bool
  late_passphrase :: bool
  our_box_pk :: bytes
  sealed_key :: "bytes \<Rightarrow> bool \<Rightarrow> bytes"
  local_id :: bytes
  local_keys :: "(bytes \<times> bytes) option"
  local_certificate :: "bytes option"
  sent :: bool
  acknowledgement :: NextMessage
  allow_unverified_peer_trust :: bool
  remember_paired_viewers :: bool
  directional_secretbox_enabled :: bool
  current_time :: int
  quic_store_ok :: "bytes \<Rightarrow> bool"

record PublicKeyMessage =
  asymmetric_value :: bytes
  symmetric_value :: bytes
  message_quic_identity :: bytes

text \<open>
  The state of the viewer with its history: the identities that the user confirmed, the identities for which a proof
  was computed from a passphrase and sent, and the messages.
\<close>

record Viewer =
  store :: ViewerStore
  hs_input :: HandshakeInput
  confirmations :: "(bytes \<times> bytes) list"
  proofs :: "(bytes \<times> bytes \<times> bytes) list"
  outbox :: "PublicKeyMessage list"

text \<open>An outcome keeps the state that an error leaves behind.\<close>

definition and_then :: "'v \<times> (ViewerError + 'a) \<Rightarrow> ('v \<Rightarrow> 'a \<Rightarrow> 'v \<times> (ViewerError + 'b)) \<Rightarrow> 'v \<times> (ViewerError + 'b)" where
  "and_then r f = (case snd r of Inl e \<Rightarrow> (fst r, Inl e) | Inr x \<Rightarrow> f (fst r) x)"

definition keep_store :: "Viewer \<Rightarrow> ViewerError + ViewerStore \<Rightarrow> Viewer \<times> (ViewerError + unit)" where
  "keep_store v r = (case r of Inl e \<Rightarrow> (v, Inl e) | Inr st \<Rightarrow> (v\<lparr>store := st\<rparr>, Inr ()))"

text \<open>The peer as both kinds of handshake see it after the first message.\<close>

record PeerIdentity =
  peer_id :: bytes
  sign_pk :: bytes
  box_pk :: bytes
  pairing_required :: bool
  pairing_salt :: "bytes option"
  supports_paired_viewer_identity :: bool
  quic_certificate_der :: "bytes option"
  secure_channel :: nat

definition pending_peer_trust_from_status :: "TrustedPeerSigningKeyStatus \<Rightarrow> bool option" where
  "pending_peer_trust_from_status status =
     (case status of Trusted \<Rightarrow> None | Missing \<Rightarrow> Some False | Changed _ _ \<Rightarrow> Some True | InvalidPinnedKey \<Rightarrow> Some True)"

definition authenticated_peer_allows_quic_pin :: "bool \<Rightarrow> bool \<Rightarrow> bool \<Rightarrow> bool \<Rightarrow> bool" where
  "authenticated_peer_allows_quic_pin signing_key_was_trusted trust_was_confirmed pairing_was_proven paired_viewer_was_confirmed =
     (signing_key_was_trusted \<or> trust_was_confirmed \<or> pairing_was_proven \<or> paired_viewer_was_confirmed)"

definition SECURE_CHANNEL_DIRECTIONAL :: nat where "SECURE_CHANNEL_DIRECTIONAL = 1"

definition viewer_selects_directional_secretbox :: "bool \<Rightarrow> nat \<Rightarrow> bool" where
  "viewer_selects_directional_secretbox enabled channel = (channel = SECURE_CHANNEL_DIRECTIONAL \<and> enabled)"

definition check_quic_binding :: "Attempt \<Rightarrow> PeerIdentity \<Rightarrow> ViewerError + PeerIdentity" where
  "check_quic_binding a p =
     (case quic_binding a of
        None \<Rightarrow> Inr p
      | Some verify_signed_identity \<Rightarrow>
          (case quic_certificate_der p of
             None \<Rightarrow> Inl NoCertificate
           | Some certificate \<Rightarrow> if verify_signed_identity (sign_pk p) certificate then Inr p else Inl BindingMismatch))"

definition receive_direct_id :: "Crypto \<Rightarrow> Attempt \<Rightarrow> ViewerError + PeerIdentity" where
  "receive_direct_id c a =
     (case first_message a of
        SignedIdMessage si quic_identity \<Rightarrow>
          (case decode_direct_id_pk c si of
             Inl e \<Rightarrow> Inl (InvalidSignedKey e)
           | Inr d \<Rightarrow>
               (case attach_direct_quic_identity c quic_identity d of
                  Inl e \<Rightarrow> Inl (WireError e)
                | Inr d \<Rightarrow>
                    check_quic_binding a \<lparr>peer_id = d_id d, sign_pk = d_sign_pk d, box_pk = d_box_pk d,
                      pairing_required = d_pairing_required d, pairing_salt = d_pairing_salt d,
                      supports_paired_viewer_identity = d_supports_paired_viewer_identity d,
                      quic_certificate_der = d_quic_certificate_der d, secure_channel = d_secure_channel d\<rparr>))
      | NoAnswer \<Rightarrow> Inl TimedOut
      | Closed \<Rightarrow> Inl ResetByPeer
      | _ \<Rightarrow> Inl InvalidMessage)"

text \<open>
  The rendezvous server vouches for the id and the signing key of the peer with the key \<open>rs_pk\<close>.
\<close>

definition decode_id_pk :: "Crypto \<Rightarrow> bytes \<Rightarrow> bytes \<Rightarrow> HandshakeError + bytes \<times> bytes" where
  "decode_id_pk c signed_id key =
     (case verify c signed_id key of
        None \<Rightarrow> Inl SignatureMismatch
      | Some verified \<Rightarrow> (case parse_id_pk c verified of Inl e \<Rightarrow> Inl e | Inr (ident, pk, _) \<Rightarrow> Inr (ident, pk)))"

definition vouched_key :: "Crypto \<Rightarrow> bytes option \<Rightarrow> bytes \<Rightarrow> bytes \<Rightarrow> ViewerError + bytes" where
  "vouched_key c rs_pk signed_id_pk pid =
     (case rs_pk of
        None \<Rightarrow> Inl NoRendezvousKey
      | Some k \<Rightarrow>
          if signed_id_pk = [] then Inl MissingPublicKey
          else case decode_id_pk c signed_id_pk k of
                 Inl e \<Rightarrow> Inl (InvalidPublicKey e)
               | Inr (ident, pk) \<Rightarrow> if ident \<noteq> pid then Inl PeerIdMismatch else Inr pk)"

definition receive_secure_id :: "Crypto \<Rightarrow> Attempt \<Rightarrow> bytes \<Rightarrow> bytes \<Rightarrow> ViewerError + PeerIdentity" where
  "receive_secure_id c a pid pk =
     (case first_message a of
        SignedIdMessage si quic_identity \<Rightarrow>
          (case decode_secure_signed_id c si pk of
             Inl e \<Rightarrow> Inl (InvalidSignedKey e)
           | Inr d \<Rightarrow>
               (case attach_secure_quic_identity c pk quic_identity d of
                  Inl e \<Rightarrow> Inl (WireError e)
                | Inr d \<Rightarrow>
                    (case check_quic_binding a \<lparr>peer_id = s_id d, sign_pk = pk, box_pk = s_box_pk d,
                        pairing_required = s_pairing_required d, pairing_salt = s_pairing_salt d,
                        supports_paired_viewer_identity = s_supports_paired_viewer_identity d,
                        quic_certificate_der = s_quic_certificate_der d, secure_channel = s_secure_channel d\<rparr> of
                       Inl e \<Rightarrow> Inl e
                     | Inr p \<Rightarrow> if peer_id p \<noteq> pid then Inl PeerIdMismatch else Inr p)))
      | NoAnswer \<Rightarrow> Inl TimedOut
      | Closed \<Rightarrow> Inl ResetByPeer
      | _ \<Rightarrow> Inl InvalidMessage)"


section \<open>The stages of a handshake\<close>

text \<open>Both handshakes bind the input to the identity and look the key up; a direct one refuses an empty id.\<close>

definition identity_stage ::
  "Crypto \<Rightarrow> Scope \<Rightarrow> bytes \<Rightarrow> PeerIdentity \<Rightarrow> Viewer \<Rightarrow> Viewer \<times> (ViewerError + TrustedPeerSigningKeyStatus)" where
  "identity_stage c scope cid p v =
     (case bind_peer (peer_id p) (sign_pk p) (hs_input v) of
        Inl e \<Rightarrow> (v, Inl e)
      | Inr i \<Rightarrow>
          let v = v\<lparr>hs_input := i\<rparr>
          in if scope = Direct \<and> peer_id p = [] then (v, Inl EmptyPeerId)
             else (v, trusted_peer_signing_key_status c (store v) (peer_id p) cid (sign_pk p)))"

definition confirm_peer_trust :: "Attempt \<Rightarrow> PeerIdentity \<Rightarrow> Viewer \<Rightarrow> Viewer \<times> (ViewerError + unit)" where
  "confirm_peer_trust a p v =
     (if confirm a (peer_id p) (sign_pk p)
      then (v\<lparr>confirmations := (peer_id p, sign_pk p) # confirmations v\<rparr>, Inr ())
      else (v, Inl UserDeclined))"

text \<open>
  When the saved QUIC identity did not match, a direct handshake needs a pairing, and the user checks the fingerprint
  of a key that is not the trusted one.
\<close>

definition repair_stage ::
  "Attempt \<Rightarrow> PeerIdentity \<Rightarrow> TrustedPeerSigningKeyStatus \<Rightarrow> Viewer \<Rightarrow> Viewer \<times> (ViewerError + unit)" where
  "repair_stage a p status v =
     (if require_authenticated_repair (hs_input v) \<and> status \<noteq> Trusted \<and> \<not> pairing_required p
      then (v, Inl NoPairingToRepair)
      else if require_authenticated_repair (hs_input v) \<and> status \<noteq> Trusted \<and> \<not> repair_identity_approved (hs_input v)
      then and_then (confirm_peer_trust a p v) (\<lambda>v _. (v\<lparr>hs_input := (hs_input v)\<lparr>repair_identity_approved := True\<rparr>\<rparr>, Inr ()))
      else (v, Inr ()))"

text \<open>
  Without a pairing a changed key is refused, and an unknown key is pinned when the configuration allows it and the
  user confirms. The outcome is whether trust is pending for the pairing, and whether it was confirmed here.
\<close>

definition first_contact_stage ::
  "Crypto \<Rightarrow> bytes \<Rightarrow> Attempt \<Rightarrow> PeerIdentity \<Rightarrow> TrustedPeerSigningKeyStatus \<Rightarrow> Viewer \<Rightarrow> Viewer \<times> (ViewerError + bool \<times> bool)" where
  "first_contact_stage c cid a p status v =
     (case pending_peer_trust_from_status status of
        None \<Rightarrow> (v, Inr (False, False))
      | Some replace_existing_pin \<Rightarrow>
          if pairing_required p then (v, Inr (True, False))
          else if replace_existing_pin then (v, Inl KeyChangedWithoutPairing)
          else if \<not> allow_unverified_peer_trust a then (v, Inl FirstContactRefused)
          else and_then (confirm_peer_trust a p v) (\<lambda>v _.
            and_then (keep_store v (pin_trusted_peer_signing_key c (peer_id p) cid (sign_pk p) (store v))) (\<lambda>v _.
              if needs_fresh_socket (late a) (hs_input v)
              then (v\<lparr>hs_input := (hs_input v)\<lparr>reopen_requested := True\<rparr>\<rparr>, Inl ReopenAfterApproval)
              else (v, Inr (False, True)))))"

text \<open>The two identities that the viewer signs for the host.\<close>

definition create_direct_public_key_initiator_id :: "Crypto \<Rightarrow> Attempt \<Rightarrow> ViewerError + bytes" where
  "create_direct_public_key_initiator_id c a =
     (case get_pk (our_box_pk a) of
        None \<Rightarrow> Inl LocalIdentity
      | Some bpk \<Rightarrow>
          (case local_keys a of
             None \<Rightarrow> Inl LocalIdentity
           | Some (pk, sk) \<Rightarrow> Inr (create_direct_signed_id c (local_id a) bpk pk sk)))"

definition create_direct_quic_identity :: "Crypto \<Rightarrow> Attempt \<Rightarrow> ViewerError + bytes" where
  "create_direct_quic_identity c a =
     (case get_pk (our_box_pk a) of
        None \<Rightarrow> Inl LocalIdentity
      | Some bpk \<Rightarrow>
          (case local_keys a of
             None \<Rightarrow> Inl LocalIdentity
           | Some (pk, sk) \<Rightarrow>
               (case local_certificate a of
                  None \<Rightarrow> Inl LocalIdentity
                | Some certificate \<Rightarrow>
                    (case create_direct_signed_id_v3 c (local_id a) bpk pk sk None certificate of
                       Inl e \<Rightarrow> Inl (WireError e)
                     | Inr identity \<Rightarrow> Inr identity))))"

text \<open>Whether the host knows this viewer from an earlier pairing, and the identities that go with the answer.\<close>

definition remembered_pairing :: "Scope \<Rightarrow> bytes \<Rightarrow> Attempt \<Rightarrow> PeerIdentity \<Rightarrow> bool \<Rightarrow> Viewer \<Rightarrow> Viewer \<times> bool" where
  "remembered_pairing scope cid a p pending v =
     (if pairing_required p \<and> supports_paired_viewer_identity p \<and> remember_paired_viewers a \<and> \<not> pending
      then let (st, yes) = has_confirmed_paired_viewer scope cid (current_time a) (store v) in (v\<lparr>store := st\<rparr>, yes)
      else (v, False))"

definition viewer_identities :: "Crypto \<Rightarrow> Attempt \<Rightarrow> PeerIdentity \<Rightarrow> ViewerError + bytes option \<times> bytes" where
  "viewer_identities c a p =
     (case (if pairing_required p \<and> supports_paired_viewer_identity p \<and> remember_paired_viewers a
            then (case create_direct_public_key_initiator_id c a of Inl e \<Rightarrow> Inl e | Inr i \<Rightarrow> Inr (Some i)) else Inr None) of
        Inl e \<Rightarrow> Inl e
      | Inr initiator \<Rightarrow>
          (case (if quic_certificate_der p \<noteq> None then create_direct_quic_identity c a else Inr []) of
             Inl e \<Rightarrow> Inl e
           | Inr identity \<Rightarrow> Inr (initiator, identity)))"

text \<open>The passphrase that is at hand, or that the user gives, and the proof of it.\<close>

definition proof_stage ::
  "Crypto \<Rightarrow> Attempt \<Rightarrow> PeerIdentity \<Rightarrow> bool \<Rightarrow> Viewer \<Rightarrow> Viewer \<times> (ViewerError + bytes option)" where
  "proof_stage c a p use_paired_viewer v =
     (case pairing_salt p of
        None \<Rightarrow> (v, Inr None)
      | Some salt \<Rightarrow>
          if use_paired_viewer then (v, Inr None)
          else let given = (case passphrase (hs_input v) of Some x \<Rightarrow> Some x | None \<Rightarrow> asked_passphrase a);
                   v = v\<lparr>hs_input := (hs_input v)\<lparr>passphrase := None\<rparr>\<rparr>
               in case given of
                    None \<Rightarrow> (v, Inl UserDeclined)
                  | Some secret \<Rightarrow>
                      if needs_fresh_socket (late_passphrase a) (hs_input v)
                      then (v\<lparr>hs_input := (hs_input v)\<lparr>passphrase := Some secret, reopen_requested := True\<rparr>\<rparr>, Inl ReopenAfterApproval)
                      else case compute_direct_pairing_proof c secret salt (peer_id p) (sign_pk p) (box_pk p) (our_box_pk a) of
                             Inl e \<Rightarrow> (v, Inl (WireError e))
                           | Inr pr \<Rightarrow> (v, Inr (Some pr)))"

definition send_stage ::
  "Attempt \<Rightarrow> PeerIdentity \<Rightarrow> bytes option \<Rightarrow> bytes option \<Rightarrow> bytes \<Rightarrow> Viewer \<Rightarrow> Viewer \<times> (ViewerError + unit)" where
  "send_stage a p pairing_proof initiator identity v =
     (let directional = viewer_selects_directional_secretbox (directional_secretbox_enabled a) (secure_channel p)
      in case wrap_direct_public_key_symmetric_value_with_identity (sealed_key a (box_pk p) directional) pairing_proof initiator of
           Inl e \<Rightarrow> (v, Inl (WireError e))
         | Inr value \<Rightarrow>
             let v = v\<lparr>proofs := (case pairing_proof of None \<Rightarrow> proofs v | Some pr \<Rightarrow> (peer_id p, sign_pk p, pr) # proofs v),
                       outbox := \<lparr>asymmetric_value = our_box_pk a, symmetric_value = value, message_quic_identity = identity\<rparr> # outbox v\<rparr>
             in (v, if sent a then Inr () else Inl SendFailed))"

definition clear_refused_paired_viewer :: "Scope \<Rightarrow> bytes \<Rightarrow> int \<Rightarrow> bool \<Rightarrow> Viewer \<Rightarrow> Viewer" where
  "clear_refused_paired_viewer scope cid now used v =
     (if used then v\<lparr>store := set_confirmed_paired_viewer scope cid now False (store v)\<rparr> else v)"

text \<open>A host that requires pairing acknowledges; a refusal makes the viewer forget the pairing that it relied on.\<close>

definition acknowledgement_stage ::
  "Scope \<Rightarrow> bytes \<Rightarrow> Attempt \<Rightarrow> PeerIdentity \<Rightarrow> bool \<Rightarrow> Viewer \<Rightarrow> Viewer \<times> (ViewerError + unit)" where
  "acknowledgement_stage scope cid a p used v =
     (let clear = clear_refused_paired_viewer scope cid (current_time a) used
      in if \<not> pairing_required p then (v, Inr ())
         else case acknowledgement a of
                SignedIdMessage si _ \<Rightarrow> if is_direct_handshake_ack_ok si then (v, Inr ()) else (clear v, Inl InvalidAcknowledgement)
              | ErrorBox text \<Rightarrow> (clear v, Inl (PeerError text))
              | OtherMessage \<Rightarrow> (clear v, Inl InvalidAcknowledgement)
              | Closed \<Rightarrow> (clear v, Inl AcknowledgementMissing)
              | NoAnswer \<Rightarrow> (v, Inl TimedOut)
              | Unparsable \<Rightarrow> (v, Inl InvalidMessage))"

definition confirm_scope :: "Scope \<Rightarrow> bytes \<Rightarrow> Attempt \<Rightarrow> Viewer \<Rightarrow> Viewer" where
  "confirm_scope scope cid a v = v\<lparr>store := set_confirmed_paired_viewer scope cid (current_time a) True (store v)\<rparr>"

definition confirmed_scope :: "Scope \<Rightarrow> bytes \<Rightarrow> Attempt \<Rightarrow> Viewer \<Rightarrow> Viewer \<times> bool" where
  "confirmed_scope scope cid a v =
     (let (st, yes) = has_confirmed_paired_viewer scope cid (current_time a) (store v) in (v\<lparr>store := st\<rparr>, yes))"

definition remember_quic :: "bytes \<Rightarrow> Attempt \<Rightarrow> PeerIdentity \<Rightarrow> bytes \<Rightarrow> Viewer \<Rightarrow> Viewer \<times> (ViewerError + unit)" where
  "remember_quic cid a p certificate v =
     and_then (keep_store v (remember_authenticated_peer (quic_store_ok a (peer_id p)) (peer_id p) (sign_pk p) certificate (store v)))
       (\<lambda>v _. if cid \<noteq> peer_id p
              then keep_store v (remember_authenticated_peer (quic_store_ok a cid) cid (sign_pk p) certificate (store v))
              else (v, Inr ()))"

text \<open>
  What a successful handshake leaves after the key is trusted: the pairing that was proven and the QUIC identity. A
  rendezvous handshake also confirms the direct scope for a host with QUIC.
\<close>

definition remember_rest ::
  "Scope \<Rightarrow> bytes \<Rightarrow> Attempt \<Rightarrow> PeerIdentity \<Rightarrow> bool \<Rightarrow> bool \<Rightarrow> bool \<Rightarrow> bool \<Rightarrow> Viewer \<Rightarrow> Viewer \<times> (ViewerError + unit)" where
  "remember_rest scope cid a p was_trusted confirmed proven initiator v =
     (let v = (if proven \<and> initiator then confirm_scope scope cid a v else v);
          v = (if proven \<and> initiator \<and> scope = Rendezvous \<and> quic_certificate_der p \<noteq> None then confirm_scope Direct cid a v else v);
          (v, paired) = confirmed_scope scope cid a v;
          (v, paired) = (if scope = Rendezvous \<and> \<not> paired then confirmed_scope Direct cid a v else (v, paired))
      in if authenticated_peer_allows_quic_pin was_trusted confirmed proven paired
         then case quic_certificate_der p of
                None \<Rightarrow> (v, Inr ())
              | Some certificate \<Rightarrow>
                  remember_quic cid a p certificate (if scope = Rendezvous then confirm_scope Direct cid a v else v)
         else (v, Inr ()))"

definition remember_stage ::
  "Crypto \<Rightarrow> Scope \<Rightarrow> bytes \<Rightarrow> Attempt \<Rightarrow> PeerIdentity \<Rightarrow> bool \<Rightarrow> bool \<Rightarrow> bool \<Rightarrow> bool \<Rightarrow> bool \<Rightarrow> Viewer
     \<Rightarrow> Viewer \<times> (ViewerError + unit)" where
  "remember_stage c scope cid a p was_trusted pending confirmed proven initiator v =
     and_then (if pending then keep_store v (trust_peer_signing_key_after_pairing c (peer_id p) cid (sign_pk p) (store v)) else (v, Inr ()))
       (\<lambda>v _. remember_rest scope cid a p was_trusted (confirmed \<or> pending) proven initiator v)"

section \<open>The two handshakes\<close>

text \<open>Whether to trust the key: the status of it, whether trust waits for the pairing, and whether the user gave it.\<close>

definition decide_trust ::
  "Crypto \<Rightarrow> Scope \<Rightarrow> bytes \<Rightarrow> Attempt \<Rightarrow> PeerIdentity \<Rightarrow> Viewer
     \<Rightarrow> Viewer \<times> (ViewerError + TrustedPeerSigningKeyStatus \<times> bool \<times> bool)" where
  "decide_trust c scope cid a p v =
     and_then (identity_stage c scope cid p v) (\<lambda>v status.
     and_then (if scope = Direct then repair_stage a p status v else (v, Inr ())) (\<lambda>v _.
     and_then (first_contact_stage c cid a p status v) (\<lambda>v (pending, confirmed). (v, Inr (status, pending, confirmed)))))"

text \<open>The answer with the session key and the proof, the acknowledgement, and what is remembered.\<close>

definition exchange ::
  "Crypto \<Rightarrow> Scope \<Rightarrow> bytes \<Rightarrow> Attempt \<Rightarrow> PeerIdentity \<Rightarrow> bool \<Rightarrow> bool \<Rightarrow> bool \<Rightarrow> Viewer \<Rightarrow> Viewer \<times> (ViewerError + unit)" where
  "exchange c scope cid a p was_trusted pending confirmed v =
     (let (v, used) = remembered_pairing scope cid a p pending v
      in and_then (v, viewer_identities c a p) (\<lambda>v (initiator, identity).
         and_then (proof_stage c a p used v) (\<lambda>v pairing_proof.
         and_then (send_stage a p pairing_proof initiator identity v) (\<lambda>v _.
         and_then (acknowledgement_stage scope cid a p used v) (\<lambda>v _.
         remember_stage c scope cid a p was_trusted pending confirmed (pairing_proof \<noteq> None) (initiator \<noteq> None) v)))))"

text \<open>From the identity of the host to the end; the outcome is the signing key.\<close>

definition authenticate ::
  "Crypto \<Rightarrow> Scope \<Rightarrow> bytes \<Rightarrow> Attempt \<Rightarrow> PeerIdentity \<Rightarrow> Viewer \<Rightarrow> Viewer \<times> (ViewerError + bytes)" where
  "authenticate c scope cid a p v =
     and_then (decide_trust c scope cid a p v) (\<lambda>v (status, pending, confirmed).
     and_then (exchange c scope cid a p (status = Trusted) pending confirmed v) (\<lambda>v _. (v, Inr (sign_pk p))))"

definition secure_direct_connection_with_input ::
  "Crypto \<Rightarrow> bytes \<Rightarrow> Attempt \<Rightarrow> Viewer \<Rightarrow> Viewer \<times> (ViewerError + bytes)" where
  "secure_direct_connection_with_input c cid a v =
     (if reopen_requested (hs_input v) then (v, Inl ReopenAfterApproval)
      else and_then (v, receive_direct_id c a) (\<lambda>v p. authenticate c Direct cid a p v))"

definition secure_connection_with_input ::
  "Crypto \<Rightarrow> bytes option \<Rightarrow> bytes \<Rightarrow> bytes \<Rightarrow> bytes \<Rightarrow> Attempt \<Rightarrow> Viewer \<Rightarrow> Viewer \<times> (ViewerError + bytes)" where
  "secure_connection_with_input c rs_pk signed_id_pk pid cid a v =
     (if reopen_requested (hs_input v) then (v, Inl ReopenAfterApproval)
      else and_then (v, vouched_key c rs_pk signed_id_pk pid) (\<lambda>v pk.
           and_then (v, receive_secure_id c a pid pk) (\<lambda>v p. authenticate c Rendezvous cid a p v)))"


section \<open>The retries\<close>

definition PASSPHRASE_REJECTED :: string where
  "PASSPHRASE_REJECTED = ''Handshake failed: pairing passphrase rejected''"

definition is_confirmed :: "Scope \<Rightarrow> bytes \<Rightarrow> int \<Rightarrow> Viewer \<Rightarrow> Viewer \<times> bool" where
  "is_confirmed scope cid now v = (let (st, yes) = has_confirmed_paired_viewer scope cid now (store v) in (v\<lparr>store := st\<rparr>, yes))"

text \<open>
  A connection of a direct peer: \<open>identity_repair\<close> says that the saved QUIC identity did not match, \<open>transport\<close> and
  \<open>candidate\<close> are the connections that come about, an error, or the attempt that runs over the connection.
\<close>

record Connect =
  transport :: "(ViewerError + Attempt)"
  identity_repair :: bool
  candidate :: "(ViewerError + Attempt)"

definition set_input :: "(HandshakeInput \<Rightarrow> HandshakeInput) \<Rightarrow> Viewer \<Rightarrow> Viewer" where
  "set_input f v = v\<lparr>hs_input := f (hs_input v)\<rparr>"

definition open_connection :: "Connect \<Rightarrow> Viewer \<Rightarrow> Viewer \<times> (ViewerError + Attempt)" where
  "open_connection w v =
     (if require_authenticated_repair (hs_input v) then (v, candidate w)
      else if identity_repair w
      then (set_input (\<lambda>i. i\<lparr>require_authenticated_repair := True\<rparr>) v, candidate w)
      else (v, transport w))"

text \<open>
  The loop over at most five attempts; \<open>rejected\<close> and \<open>remembered\<close> are the two flags that allow one retry each.
\<close>

function direct_attempts ::
  "Crypto \<Rightarrow> bytes \<Rightarrow> (nat \<Rightarrow> Connect) \<Rightarrow> int \<Rightarrow> bool \<Rightarrow> nat \<Rightarrow> bool \<Rightarrow> bool \<Rightarrow> Viewer \<Rightarrow> Viewer \<times> (ViewerError + Attempt \<times> bytes)" where
  "direct_attempts c cid world now had attempts rejected remembered v =
     (if attempts \<ge> 5 then (v, Inl RetryLimit)
      else case open_connection (world attempts) (set_input (\<lambda>i. i\<lparr>reopen_requested := False\<rparr>) v) of
             (v, Inl e) \<Rightarrow> (v, Inl e)
           | (v, Inr a) \<Rightarrow>
               (case secure_direct_connection_with_input c cid a v of
                  (v, Inr pk) \<Rightarrow> (v, Inr (a, pk))
                | (v, Inl e) \<Rightarrow>
                    if e = ReopenAfterApproval then direct_attempts c cid world now had (attempts + 1) rejected remembered v
                    else if e = PeerError PASSPHRASE_REJECTED
                    then if \<not> rejected then direct_attempts c cid world now had (attempts + 1) True remembered v
                         else (v, Inl RejectedAfterRetry)
                    else let (v, still) = (if had then is_confirmed Direct cid now v else (v, True))
                         in if still \<or> remembered then (v, Inl e)
                            else direct_attempts c cid world now had (attempts + 1) rejected True v))"
  by pat_completeness auto
termination by (relation "measure (\<lambda>(_, _, _, _, _, attempts, _). 5 - attempts)") auto

declare direct_attempts.simps [simp del]

datatype Promotion = NotPretrusted | PromotionFailed | PromotionTimedOut | Promoted Attempt

definition is_quic :: "Attempt \<Rightarrow> bool" where
  "is_quic a = (quic_binding a \<noteq> None)"

fun promotions ::
  "Crypto \<Rightarrow> bytes \<Rightarrow> (nat \<Rightarrow> Promotion) \<Rightarrow> Attempt \<times> bytes \<Rightarrow> nat \<Rightarrow> Viewer \<Rightarrow> Viewer \<times> (ViewerError + Attempt \<times> bytes)" where
  "promotions c cid world (conn, pk) 0 v = (v, Inl RetryLimit)"
| "promotions c cid world (conn, pk) (Suc n) v =
     (let v = set_input (\<lambda>i. i\<lparr>reopen_requested := False\<rparr>) v
      in case world n of
           NotPretrusted \<Rightarrow> (v, Inr (conn, pk))
         | PromotionTimedOut \<Rightarrow> (v, Inr (conn, pk))
         | PromotionFailed \<Rightarrow> (v, Inl TransportError)
         | Promoted quic \<Rightarrow>
             (case secure_direct_connection_with_input c cid quic v of
                (v, Inl e) \<Rightarrow> if e = ReopenAfterApproval then promotions c cid world (conn, pk) n v else (v, Inl e)
              | (v, Inr quic_pk) \<Rightarrow> if quic_pk \<noteq> pk then (v, Inl UpgradeMismatch) else (v, Inr (quic, quic_pk))))"

definition promote_confirmed_direct_to_quic ::
  "Crypto \<Rightarrow> bytes \<Rightarrow> (nat \<Rightarrow> Promotion) \<Rightarrow> Attempt \<times> bytes \<Rightarrow> Viewer \<Rightarrow> Viewer \<times> (ViewerError + Attempt \<times> bytes)" where
  "promote_confirmed_direct_to_quic c cid world con v =
     (if is_quic (fst con) then (v, Inr con) else promotions c cid world con 3 v)"

text \<open>\<open>had_quic_trust\<close> is the answer of the QUIC store at the start, or that it could not be read.\<close>

definition connect_secure_direct_with_pairing_retry ::
  "Crypto \<Rightarrow> bytes \<Rightarrow> (nat \<Rightarrow> Connect) \<Rightarrow> (nat \<Rightarrow> Promotion) \<Rightarrow> bool option \<Rightarrow> int \<Rightarrow> Viewer
     \<Rightarrow> Viewer \<times> (ViewerError + Attempt \<times> bytes)" where
  "connect_secure_direct_with_pairing_retry c cid world upgrades had_quic_trust now v =
     (let (v, had) = is_confirmed Direct cid now v
      in case had_quic_trust of
           None \<Rightarrow> (v, Inl QuicStoreError)
         | Some had_quic \<Rightarrow>
             and_then (direct_attempts c cid world now had 0 False False (v\<lparr>hs_input := HandshakeInput_default\<lparr>can_reopen := True\<rparr>\<rparr>))
               (\<lambda>v con. if had_quic \<and> \<not> is_quic (fst con) then (v, Inr con)
                        else promote_confirmed_direct_to_quic c cid upgrades con v))"

text \<open>The retries around a rendezvous connection \<open>op\<close>, of which the loop makes at most five.\<close>

fun retry_rendezvous ::
  "(Viewer \<Rightarrow> Viewer \<times> (ViewerError + 'a)) list \<Rightarrow> bytes \<Rightarrow> int \<Rightarrow> bool \<Rightarrow> bool \<Rightarrow> bool \<Rightarrow> Viewer \<Rightarrow> Viewer \<times> (ViewerError + 'a)" where
  "retry_rendezvous [] cid now had rejected remembered v = (v, Inl RetryLimit)"
| "retry_rendezvous (op # ops) cid now had rejected remembered v =
     (case op v of
        (v, Inr x) \<Rightarrow> (v, Inr x)
      | (v, Inl e) \<Rightarrow>
          if e = ReopenAfterApproval then retry_rendezvous ops cid now had rejected remembered v
          else if \<not> rejected \<and> e = PeerError PASSPHRASE_REJECTED then retry_rendezvous ops cid now had True remembered v
          else let (v, still) = (if had then is_confirmed Rendezvous cid now v else (v, True))
               in if still \<or> remembered then (v, Inl e) else retry_rendezvous ops cid now had rejected True v)"

definition retry_after_cleared_rendezvous_pairing ::
  "(nat \<Rightarrow> Viewer \<Rightarrow> Viewer \<times> (ViewerError + 'a)) \<Rightarrow> bytes \<Rightarrow> int \<Rightarrow> Viewer \<Rightarrow> Viewer \<times> (ViewerError + 'a)" where
  "retry_after_cleared_rendezvous_pairing op cid now v =
     (let (v, had) = is_confirmed Rendezvous cid now v in retry_rendezvous (map op [0..<5]) cid now had False False v)"


section \<open>What each stage does to the store\<close>

lemma and_then_keeps:
  "P (fst r) \<Longrightarrow> (\<And>v x. P v \<Longrightarrow> P (fst (f v x))) \<Longrightarrow> P (fst (and_then r f))"
  by (simp add: and_then_def split: sum.split)

lemma and_then_cases:
  assumes "and_then r f = (v', res)"
  obtains (failed) e where "r = (v', Inl e)" "res = Inl e"
    | (passed) w x where "r = (w, Inr x)" "f w x = (v', res)"
  using assms by (cases r; cases "snd r") (auto simp: and_then_def)

lemmas stage_splits = if_splits option.splits sum.splits prod.splits

lemma identity_stage_facts:
  assumes "identity_stage c scope cid p v = (w, res)"
  shows "store w = store v" "confirmations w = confirmations v" "proofs w = proofs v"
    "res = Inr status \<Longrightarrow> trusted_peer_signing_key_status c (store v) (peer_id p) cid (sign_pk p) = Inr status"
    "res = Inr status \<Longrightarrow> peer (hs_input w) = Some (peer_id p, sign_pk p)"
    "res = Inr status \<Longrightarrow> peer (hs_input v) = None \<or> peer (hs_input v) = Some (peer_id p, sign_pk p)"
  using assms by (auto simp: identity_stage_def bind_peer_def Let_def split: stage_splits)

lemma repair_stage_facts:
  assumes "repair_stage a p status v = (w, res)"
  shows "store w = store v" "proofs w = proofs v" "peer (hs_input w) = peer (hs_input v)"
    "confirmations w = confirmations v \<or> confirmations w = (peer_id p, sign_pk p) # confirmations v" "res \<noteq> Inl ReopenAfterApproval"
  using assms by (auto simp: repair_stage_def confirm_peer_trust_def and_then_def split: stage_splits)

definition first_trust :: "Attempt \<Rightarrow> PeerIdentity \<Rightarrow> TrustedPeerSigningKeyStatus \<Rightarrow> bool" where
  "first_trust a p status = (status = Missing \<and> \<not> pairing_required p \<and> allow_unverified_peer_trust a \<and> confirm a (peer_id p) (sign_pk p))"

lemma pin_trusted_cases:
  assumes "pin_trusted_peer_signing_key c ident cid pk st = Inr st'"
  shows "st' = st \<or> st' = st\<lparr>pinned_key := (pinned_key st)(cid \<mapsto> base64_encode c pk)\<rparr>"
  using assms by (auto simp: pin_trusted_peer_signing_key_def pin_peer_signing_key_def Let_def split: stage_splits)

lemma first_contact_facts:
  assumes "first_contact_stage c cid a p status v = (w, res)"
  shows "store w \<noteq> store v \<Longrightarrow> first_trust a p status \<and>
      store w = (store v)\<lparr>pinned_key := (pinned_key (store v))(cid \<mapsto> base64_encode c (sign_pk p))\<rparr>"
    "proofs w = proofs v" "peer (hs_input w) = peer (hs_input v)"
    "confirmations w = confirmations v \<or> confirmations w = (peer_id p, sign_pk p) # confirmations v"
    "res = Inr (pending, confirmed) \<Longrightarrow>
       (status = Trusted \<and> \<not> pending \<and> \<not> confirmed) \<or> (status \<noteq> Trusted \<and> pairing_required p \<and> pending)
       \<or> (first_trust a p status \<and> \<not> pending \<and> confirmed)"
  using assms
  by (auto simp: first_contact_stage_def first_trust_def pending_peer_trust_from_status_def confirm_peer_trust_def and_then_def
      keep_store_def dest!: pin_trusted_cases split: stage_splits TrustedPeerSigningKeyStatus.splits)

lemma has_confirmed_store:
  assumes "has_confirmed_paired_viewer scope cid now st = (st', yes)"
  shows "pinned_key st' = pinned_key st" "bootstrap_key st' = bootstrap_key st" "quic_peers st' = quic_peers st"
  using assms
  by (auto simp: has_confirmed_paired_viewer_def set_confirmed_paired_viewer_def split: option.splits Confirmation.splits)

text \<open>Two states that differ at most in the remembered pairings and the QUIC identities.\<close>

definition same_pins :: "Viewer \<Rightarrow> Viewer \<Rightarrow> bool" where
  "same_pins v w = (pinned_key (store w) = pinned_key (store v) \<and> bootstrap_key (store w) = bootstrap_key (store v)
     \<and> confirmations w = confirmations v \<and> peer (hs_input w) = peer (hs_input v))"

lemma remembered_pairing_facts:
  assumes "remembered_pairing scope cid a p pending v = (w, used)"
  shows "same_pins v w" "proofs w = proofs v" "used \<Longrightarrow> \<not> pending"
  using assms by (auto simp: remembered_pairing_def same_pins_def split: stage_splits dest: has_confirmed_store)

lemma proof_stage_facts:
  assumes "proof_stage c a p used v = (w, res)"
  shows "same_pins v w" "proofs w = proofs v" "store w = store v"
    "res = Inr pr \<Longrightarrow> (pr = None) = (pairing_salt p = None \<or> used)"
  using assms by (auto simp: proof_stage_def same_pins_def Let_def split: stage_splits)

lemma send_stage_facts:
  assumes "send_stage a p pr initiator identity v = (w, res)"
  shows "same_pins v w" "store w = store v" "proofs w = proofs v \<or> (\<exists>x. pr = Some x \<and> proofs w = (peer_id p, sign_pk p, x) # proofs v)"
    "res = Inr u \<Longrightarrow> pr = Some x \<Longrightarrow> proofs w = (peer_id p, sign_pk p, x) # proofs v" "res \<noteq> Inl ReopenAfterApproval"
    "pr = None \<Longrightarrow> proofs w = proofs v"
  using assms by (auto simp: send_stage_def same_pins_def Let_def split: stage_splits)

lemma acknowledgement_facts:
  assumes "acknowledgement_stage scope cid a p used v = (w, res)"
  shows "same_pins v w" "proofs w = proofs v" "res \<noteq> Inl ReopenAfterApproval"
    "res = Inr u \<Longrightarrow> pairing_required p \<Longrightarrow> \<exists>quic. acknowledgement a = SignedIdMessage DIRECT_HANDSHAKE_ACK_OK quic"
  using assms
  by (auto simp: acknowledgement_stage_def clear_refused_paired_viewer_def set_confirmed_paired_viewer_def same_pins_def Let_def
      is_direct_handshake_ack_ok_def split: NextMessage.splits if_splits)

lemma acknowledgement_outbox: "acknowledgement_stage scope cid a p used v = (w, res) \<Longrightarrow> outbox w = outbox v"
  by (auto simp: acknowledgement_stage_def clear_refused_paired_viewer_def Let_def split: NextMessage.splits if_splits)

lemma remember_peer_not_reopen: "remember_authenticated_peer ok ident pk cert st \<noteq> Inl ReopenAfterApproval"
  by (simp add: remember_authenticated_peer_def remember_peer_def split: sum.split option.split)

lemma remember_authenticated_store:
  "remember_authenticated_peer ok ident pk cert st = Inr st' \<Longrightarrow> pinned_key st' = pinned_key st \<and> bootstrap_key st' = bootstrap_key st"
  by (auto simp: remember_authenticated_peer_def split: sum.splits)

lemma remember_quic_facts:
  assumes "remember_quic cid a p cert v = (w, res)"
  shows "same_pins v w \<and> proofs w = proofs v \<and> outbox w = outbox v \<and> res \<noteq> Inl ReopenAfterApproval"
  using assms remember_peer_not_reopen
  by (auto simp: remember_quic_def same_pins_def keep_store_def and_then_def dest!: remember_authenticated_store split: sum.splits if_splits)

lemma confirm_scope_facts: "same_pins v (confirm_scope scope cid a v)" "proofs (confirm_scope scope cid a v) = proofs v \<and> outbox (confirm_scope scope cid a v) = outbox v"
  by (simp_all add: confirm_scope_def set_confirmed_paired_viewer_def same_pins_def)

lemma confirmed_scope_facts: "confirmed_scope scope cid a v = (w, yes) \<Longrightarrow> same_pins v w \<and> proofs w = proofs v \<and> outbox w = outbox v"
  by (auto simp: confirmed_scope_def same_pins_def dest: has_confirmed_store split: prod.splits)

lemma same_pins_trans: "same_pins u v \<Longrightarrow> same_pins v w \<Longrightarrow> same_pins u w"
  by (simp add: same_pins_def)


lemma trust_after_pairing_cases:
  assumes "trust_peer_signing_key_after_pairing c ident cid pk st = Inr st'"
  shows "st' = st \<or> st' = st\<lparr>pinned_key := (pinned_key st)(cid \<mapsto> base64_encode c pk)\<rparr>"
  using assms by (auto simp: trust_peer_signing_key_after_pairing_def Let_def split: stage_splits)

lemma trust_after_pairing_not_reopen: "trust_peer_signing_key_after_pairing c ident cid pk st \<noteq> Inl ReopenAfterApproval"
  by (auto simp: trust_peer_signing_key_after_pairing_def validate_bootstrap_trusted_peer_signing_key_def Let_def split: stage_splits)

lemma remember_rest_facts:
  assumes "remember_rest scope cid a p was_trusted confirmed proven initiator v = (w, res)"
  shows "same_pins v w \<and> proofs w = proofs v \<and> outbox w = outbox v \<and> res \<noteq> Inl ReopenAfterApproval"
proof -
  define v1 where "v1 = (if proven \<and> initiator then confirm_scope scope cid a v else v)"
  define v2 where "v2 = (if proven \<and> initiator \<and> scope = Rendezvous \<and> quic_certificate_der p \<noteq> None then confirm_scope Direct cid a v1 else v1)"
  obtain v3 x where 3: "confirmed_scope scope cid a v2 = (v3, x)" by (cases "confirmed_scope scope cid a v2")
  obtain v4 y where 4: "(if scope = Rendezvous \<and> \<not> x then confirmed_scope Direct cid a v3 else (v3, x)) = (v4, y)"
    by (cases "if scope = Rendezvous \<and> \<not> x then confirmed_scope Direct cid a v3 else (v3, x)")
  define v5 where "v5 = (if scope = Rendezvous then confirm_scope Direct cid a v4 else v4)"
  have refl: "same_pins u u" for u by (simp add: same_pins_def)
  have "same_pins v v1 \<and> proofs v1 = proofs v \<and> outbox v1 = outbox v" by (simp add: v1_def refl confirm_scope_facts)
  moreover have "same_pins v1 v2 \<and> proofs v2 = proofs v1 \<and> outbox v2 = outbox v1" by (simp add: v2_def refl confirm_scope_facts)
  moreover have "same_pins v2 v3 \<and> proofs v3 = proofs v2 \<and> outbox v3 = outbox v2" using confirmed_scope_facts [OF 3] .
  moreover have "same_pins v3 v4 \<and> proofs v4 = proofs v3 \<and> outbox v4 = outbox v3" using 4 confirmed_scope_facts refl by (auto split: if_splits)
  moreover have "same_pins v4 v5 \<and> proofs v5 = proofs v4 \<and> outbox v5 = outbox v4" by (simp add: v5_def refl confirm_scope_facts)
  ultimately have v45: "same_pins v v4 \<and> proofs v4 = proofs v \<and> outbox v4 = outbox v" "same_pins v v5 \<and> proofs v5 = proofs v \<and> outbox v5 = outbox v"
    using same_pins_trans by metis+
  have "(if authenticated_peer_allows_quic_pin was_trusted confirmed proven y
      then case quic_certificate_der p of None \<Rightarrow> (v4, Inr ()) | Some certificate \<Rightarrow> remember_quic cid a p certificate v5
      else (v4, Inr ())) = (w, res)"
    using assms unfolding remember_rest_def Let_def v1_def [symmetric] v2_def [symmetric] 3 prod.case 4 v5_def [symmetric] .
  moreover have "remember_quic cid a p cert v5 = (w, res) \<Longrightarrow> ?thesis" for cert
    using remember_quic_facts [of cid a p cert v5 w res] v45(2) same_pins_trans [of v v5 w] by simp
  ultimately show ?thesis using v45(1) by (auto split: if_splits option.splits)
qed

lemma remember_stage_facts:
  assumes "remember_stage c scope cid a p was_trusted pending confirmed proven initiator v = (w, res)"
  shows "proofs w = proofs v" "confirmations w = confirmations v" "peer (hs_input w) = peer (hs_input v)" "res \<noteq> Inl ReopenAfterApproval"
    "pinned_key (store w) \<noteq> pinned_key (store v) \<Longrightarrow>
       pending \<and> pinned_key (store w) = (pinned_key (store v))(cid \<mapsto> base64_encode c (sign_pk p))"
    "bootstrap_key (store w) = bootstrap_key (store v)" "outbox w = outbox v"
  using assms unfolding remember_stage_def
  by (auto elim!: and_then_cases simp: keep_store_def same_pins_def trust_after_pairing_not_reopen
      dest!: remember_rest_facts trust_after_pairing_cases split: if_splits sum.splits)


section \<open>The trust that a connection leaves\<close>

lemma decide_trust_facts:
  assumes "decide_trust c scope cid a p v = (w, res)"
  defines "status \<equiv> trusted_peer_signing_key_status c (store v) (peer_id p) cid (sign_pk p)"
  shows "pinned_key (store w) \<noteq> pinned_key (store v) \<Longrightarrow> \<exists>s. status = Inr s \<and> first_trust a p s
      \<and> pinned_key (store w) = (pinned_key (store v))(cid \<mapsto> base64_encode c (sign_pk p))"
    "bootstrap_key (store w) = bootstrap_key (store v)" "proofs w = proofs v"
    "res = Inr (s, pending, confirmed) \<Longrightarrow> status = Inr s \<and>
       ((s = Trusted \<and> \<not> pending \<and> \<not> confirmed) \<or> (s \<noteq> Trusted \<and> pairing_required p \<and> pending)
        \<or> (first_trust a p s \<and> \<not> pending \<and> confirmed))"
proof -
  consider (bad_id) e where "identity_stage c scope cid p v = (w, Inl e)" "res = Inl e"
    | (bad_repair) v1 s e where "identity_stage c scope cid p v = (v1, Inr s)"
        "(if scope = Direct then repair_stage a p s v1 else (v1, Inr ())) = (w, Inl e)" "res = Inl e"
    | (contact) v1 s v2 r3 where "identity_stage c scope cid p v = (v1, Inr s)"
        "(if scope = Direct then repair_stage a p s v1 else (v1, Inr ())) = (v2, Inr ())"
        "first_contact_stage c cid a p s v2 = (w, r3)" "res = (case r3 of Inl e \<Rightarrow> Inl e | Inr (pe, co) \<Rightarrow> Inr (s, pe, co))"
    using assms(1) unfolding decide_trust_def by (auto elim!: and_then_cases split: prod.splits)
  note cases = this
  have store: "store v2 = store v1 \<and> proofs v2 = proofs v1"
    if "(if scope = Direct then repair_stage a p s v1 else (v1, Inr ())) = (v2, r2)" for s v1 v2 and r2 :: "ViewerError + unit"
    using that repair_stage_facts by (auto split: if_splits)
  show "pinned_key (store w) \<noteq> pinned_key (store v) \<Longrightarrow> \<exists>s. status = Inr s \<and> first_trust a p s
      \<and> pinned_key (store w) = (pinned_key (store v))(cid \<mapsto> base64_encode c (sign_pk p))"
  proof (cases rule: cases)
    case contact
    assume "pinned_key (store w) \<noteq> pinned_key (store v)"
    then have "store w \<noteq> store v" by metis
    then show ?thesis
      using identity_stage_facts(1) [OF contact(1)] identity_stage_facts(4) [OF contact(1) refl] store [OF contact(2)]
        first_contact_facts(1) [OF contact(3)] by (auto simp: status_def)
  qed (use identity_stage_facts(1) store in metis)+
  show "bootstrap_key (store w) = bootstrap_key (store v)"
  proof (cases rule: cases)
    case contact
    then show ?thesis
      using identity_stage_facts(1) [OF contact(1)] store [OF contact(2)] first_contact_facts(1) [OF contact(3)]
      by (cases "store w = store v2") simp_all
  qed (use identity_stage_facts(1) store in metis)+
  show "proofs w = proofs v"
    by (cases rule: cases) (metis identity_stage_facts(3) store first_contact_facts(2))+
  show "status = Inr t \<and> ((t = Trusted \<and> \<not> pending \<and> \<not> confirmed) \<or> (t \<noteq> Trusted \<and> pairing_required p \<and> pending)
        \<or> (first_trust a p t \<and> \<not> pending \<and> confirmed))" if "res = Inr (t, pending, confirmed)" for t pending confirmed
  proof (cases rule: cases)
    case contact
    then have "r3 = Inr (pending, confirmed)" and t: "identity_stage c scope cid p v = (v1, Inr t)" "first_contact_stage c cid a p t v2 = (w, r3)"
      using that by (auto split: sum.splits)
    then show ?thesis using identity_stage_facts(4) [OF t(1) refl] first_contact_facts(5) [OF t(2)] by (simp add: status_def)
  qed (use that in simp_all)
qed

lemma exchange_cases:
  assumes "exchange c scope cid a p was_trusted pending confirmed v = (w, res)" and "remembered_pairing scope cid a p pending v = (v1, used)"
  obtains (no_identity) e where "w = v1" "res = Inl e"
    | (no_proof) e where "proof_stage c a p used v1 = (w, Inl e)" "res = Inl e"
    | (not_sent) pr initiator identity v2 e where "proof_stage c a p used v1 = (v2, Inr pr)"
        "send_stage a p pr initiator identity v2 = (w, Inl e)" "res = Inl e"
    | (refused) pr initiator identity v2 v3 e where "proof_stage c a p used v1 = (v2, Inr pr)"
        "send_stage a p pr initiator identity v2 = (v3, Inr ())" "acknowledgement_stage scope cid a p used v3 = (w, Inl e)" "res = Inl e"
    | (acknowledged) pr initiator identity v2 v3 v4 where "proof_stage c a p used v1 = (v2, Inr pr)"
        "send_stage a p pr initiator identity v2 = (v3, Inr ())" "acknowledgement_stage scope cid a p used v3 = (v4, Inr ())"
        "remember_stage c scope cid a p was_trusted pending confirmed (pr \<noteq> None) (initiator \<noteq> None) v4 = (w, res)"
proof -
  have "and_then (v1, viewer_identities c a p) (\<lambda>v (initiator, identity).
         and_then (proof_stage c a p used v) (\<lambda>v pairing_proof.
         and_then (send_stage a p pairing_proof initiator identity v) (\<lambda>v _.
         and_then (acknowledgement_stage scope cid a p used v) (\<lambda>v _.
         remember_stage c scope cid a p was_trusted pending confirmed (pairing_proof \<noteq> None) (initiator \<noteq> None) v)))) = (w, res)"
    using assms by (simp add: exchange_def)
  then show thesis
  proof (cases rule: and_then_cases)
    case (failed e)
    then show thesis using no_identity by simp
  next
    case (passed u x)
    obtain initiator identity where x: "x = (initiator, identity)" by (cases x)
    have "u = v1" using passed(1) by simp
    from passed(2) [unfolded x this prod.case] show thesis
    proof (cases rule: and_then_cases)
      case (failed e)
      then show thesis by (rule no_proof)
    next
      case proof_done: (passed v2 pr)
      from proof_done(2) show thesis
      proof (cases rule: and_then_cases)
        case (failed e)
        then show thesis by (rule not_sent [OF proof_done(1)])
      next
        case send_done: (passed v3 y)
        from send_done(2) show thesis
          by (cases rule: and_then_cases)
            (use refused acknowledged proof_done(1) send_done(1) in \<open>simp_all add: unit_eq\<close>)
      qed
    qed
  qed
qed

lemma exchange_facts:
  assumes "exchange c scope cid a p was_trusted pending confirmed v = (w, res)"
  shows "pinned_key (store w) \<noteq> pinned_key (store v) \<Longrightarrow> pending \<and> pinned_key (store w) = (pinned_key (store v))(cid \<mapsto> base64_encode c (sign_pk p))"
    "bootstrap_key (store w) = bootstrap_key (store v)" "confirmations w = confirmations v" "peer (hs_input w) = peer (hs_input v)"
    "proofs w = proofs v \<or> (res \<noteq> Inl ReopenAfterApproval \<and> (\<exists>pr. proofs w = (peer_id p, sign_pk p, pr) # proofs v))"
    "pending \<Longrightarrow> pairing_required p \<Longrightarrow> res = Inr () \<or> pinned_key (store w) \<noteq> pinned_key (store v) \<Longrightarrow>
       (\<exists>quic. acknowledgement a = SignedIdMessage DIRECT_HANDSHAKE_ACK_OK quic)
       \<and> (pairing_salt p = None \<or> (\<exists>pr. proofs w = (peer_id p, sign_pk p, pr) # proofs v))"
proof -
  obtain v1 used where 1: "remembered_pairing scope cid a p pending v = (v1, used)" by fastforce
  note r = remembered_pairing_facts [OF 1]
  have to_proof: "same_pins v u \<and> proofs u = proofs v" if "proof_stage c a p used v1 = (u, q)" for u q
    using proof_stage_facts(1,2) [OF that] r(1,2) same_pins_trans [of v v1 u] by simp
  have to_send: "same_pins v u \<and> (proofs u = proofs v \<or> (\<exists>x. proofs u = (peer_id p, sign_pk p, x) # proofs v))"
    if "proof_stage c a p used v1 = (v2, q)" "send_stage a p pr initiator identity v2 = (u, q')" for v2 u q q' pr initiator identity
    using to_proof [OF that(1)] send_stage_facts(1,3) [OF that(2)] same_pins_trans [of v v2 u] by auto
  have to_ack: "same_pins v u \<and> (proofs u = proofs v \<or> (\<exists>x. proofs u = (peer_id p, sign_pk p, x) # proofs v))"
    if "proof_stage c a p used v1 = (v2, q)" "send_stage a p pr initiator identity v2 = (v3, q')"
      "acknowledgement_stage scope cid a p used v3 = (u, q'')" for v2 v3 u q q' q'' pr initiator identity
    using to_send [OF that(1,2)] acknowledgement_facts(1,2) [OF that(3)] same_pins_trans [of v v3 u] by simp
  note parts = same_pins_def
  have all: "(pinned_key (store w) \<noteq> pinned_key (store v) \<longrightarrow>
        pending \<and> pinned_key (store w) = (pinned_key (store v))(cid \<mapsto> base64_encode c (sign_pk p)))
      \<and> bootstrap_key (store w) = bootstrap_key (store v) \<and> confirmations w = confirmations v \<and> peer (hs_input w) = peer (hs_input v)
      \<and> (proofs w = proofs v \<or> (res \<noteq> Inl ReopenAfterApproval \<and> (\<exists>pr. proofs w = (peer_id p, sign_pk p, pr) # proofs v)))"
    using assms 1
  proof (cases rule: exchange_cases)
    case no_identity
    then show ?thesis using r by (simp add: parts)
  next
    case no_proof
    then show ?thesis using to_proof by (simp add: parts)
  next
    case not_sent
    then show ?thesis using to_send [OF not_sent(1,2)] send_stage_facts(5) [OF not_sent(2)] by (auto simp: parts)
  next
    case refused
    then show ?thesis using to_ack [OF refused(1-3)] acknowledgement_facts(3) [OF refused(3)] by (auto simp: parts)
  next
    case (acknowledged pr initiator identity v2 v3 v4)
    note m = remember_stage_facts [OF acknowledged(4)]
    have "pinned_key (store v4) = pinned_key (store v)" using to_ack [OF acknowledged(1-3)] by (simp add: parts)
    then show ?thesis using to_ack [OF acknowledged(1-3)] m by (auto simp: parts)
  qed
  then show "pinned_key (store w) \<noteq> pinned_key (store v) \<Longrightarrow>
        pending \<and> pinned_key (store w) = (pinned_key (store v))(cid \<mapsto> base64_encode c (sign_pk p))"
    "bootstrap_key (store w) = bootstrap_key (store v)" "confirmations w = confirmations v" "peer (hs_input w) = peer (hs_input v)"
    "proofs w = proofs v \<or> (res \<noteq> Inl ReopenAfterApproval \<and> (\<exists>pr. proofs w = (peer_id p, sign_pk p, pr) # proofs v))"
    by simp_all
  show "(\<exists>quic. acknowledgement a = SignedIdMessage DIRECT_HANDSHAKE_ACK_OK quic)
       \<and> (pairing_salt p = None \<or> (\<exists>pr. proofs w = (peer_id p, sign_pk p, pr) # proofs v))"
    if asm: "pending" "pairing_required p" "res = Inr () \<or> pinned_key (store w) \<noteq> pinned_key (store v)"
    using assms 1
  proof (cases rule: exchange_cases)
    case no_identity
    then show ?thesis using r asm by (simp add: parts)
  next
    case no_proof
    then show ?thesis using to_proof [OF no_proof(1)] asm by (simp add: parts)
  next
    case not_sent
    then show ?thesis using to_send [OF not_sent(1,2)] asm by (simp add: parts)
  next
    case refused
    then show ?thesis using to_ack [OF refused(1-3)] asm by (simp add: parts)
  next
    case (acknowledged pr initiator identity v2 v3 v4)
    have "\<not> used" using r(3) asm(1) by blast
    then have "pairing_salt p \<noteq> None \<Longrightarrow> \<exists>x. pr = Some x" using proof_stage_facts(4) [OF acknowledged(1) refl] by auto
    then have "pairing_salt p \<noteq> None \<Longrightarrow> \<exists>x. proofs w = (peer_id p, sign_pk p, x) # proofs v"
      using send_stage_facts(4) [OF acknowledged(2) refl] to_proof [OF acknowledged(1)] acknowledgement_facts(2) [OF acknowledged(3)]
        remember_stage_facts(1) [OF acknowledged(4)] by metis
    then show ?thesis using acknowledgement_facts(4) [OF acknowledged(3) refl asm(2)] by blast
  qed
qed

lemma authenticate_facts:
  assumes "authenticate c scope cid a p v = (w, res)"
  defines "status \<equiv> trusted_peer_signing_key_status c (store v) (peer_id p) cid (sign_pk p)"
  shows "(\<exists>pk. res = Inr pk) \<or> pinned_key (store w) \<noteq> pinned_key (store v) \<Longrightarrow>
      status = Inr Trusted \<or> (\<exists>s. status = Inr s \<and> first_trust a p s)
      \<or> (pairing_required p \<and> (\<exists>quic. acknowledgement a = SignedIdMessage DIRECT_HANDSHAKE_ACK_OK quic)
         \<and> (pairing_salt p = None \<or> (\<exists>pr. proofs w = (peer_id p, sign_pk p, pr) # proofs v)))"
    "pinned_key (store w) \<noteq> pinned_key (store v) \<Longrightarrow>
      pinned_key (store w) = (pinned_key (store v))(cid \<mapsto> base64_encode c (sign_pk p)) \<and> status \<noteq> Inr Trusted"
    "bootstrap_key (store w) = bootstrap_key (store v)"
    "res = Inr pk \<Longrightarrow> pk = sign_pk p"
proof -
  consider (undecided) e where "decide_trust c scope cid a p v = (w, Inl e)" "res = Inl e"
    | (decided) u s pending confirmed r where "decide_trust c scope cid a p v = (u, Inr (s, pending, confirmed))"
        "exchange c scope cid a p (s = Trusted) pending confirmed u = (w, r)"
        "res = (case r of Inl e \<Rightarrow> Inl e | Inr _ \<Rightarrow> Inr (sign_pk p))"
    using assms(1) unfolding authenticate_def by (auto elim!: and_then_cases split: prod.splits)
  note cases = this
  show "status = Inr Trusted \<or> (\<exists>s. status = Inr s \<and> first_trust a p s)
      \<or> (pairing_required p \<and> (\<exists>quic. acknowledgement a = SignedIdMessage DIRECT_HANDSHAKE_ACK_OK quic)
         \<and> (pairing_salt p = None \<or> (\<exists>pr. proofs w = (peer_id p, sign_pk p, pr) # proofs v)))"
    if "(\<exists>pk. res = Inr pk) \<or> pinned_key (store w) \<noteq> pinned_key (store v)"
  proof (cases rule: cases)
    case undecided
    then show ?thesis using that decide_trust_facts(1) [OF undecided(1)] by (auto simp: status_def)
  next
    case (decided u s pending confirmed r)
    note d = decide_trust_facts [OF decided(1)] and x = exchange_facts [OF decided(2)]
    show ?thesis
    proof (cases "s \<noteq> Trusted \<and> pairing_required p \<and> pending")
      case False
      then show ?thesis using d(4) [OF refl] by (auto simp: status_def)
    next
      case True
      then have "\<not> first_trust a p s" by (simp add: first_trust_def)
      then have "pinned_key (store u) = pinned_key (store v)" using d(1) d(4) [OF refl] by auto
      then have "r = Inr () \<or> pinned_key (store w) \<noteq> pinned_key (store u)"
        using that decided(3) by (cases r) simp_all
      then show ?thesis using x(6) True d(3) by simp
    qed
  qed
  show "pinned_key (store w) = (pinned_key (store v))(cid \<mapsto> base64_encode c (sign_pk p)) \<and> status \<noteq> Inr Trusted"
    if "pinned_key (store w) \<noteq> pinned_key (store v)"
  proof (cases rule: cases)
    case undecided
    then show ?thesis using that decide_trust_facts(1) [OF undecided(1)] by (auto simp: status_def first_trust_def)
  next
    case (decided u s pending confirmed r)
    note d = decide_trust_facts [OF decided(1)] and x = exchange_facts(1) [OF decided(2)]
    have s: "status = Inr s" and not_trusted: "pending \<Longrightarrow> s \<noteq> Trusted" and not_pending: "first_trust a p s \<Longrightarrow> \<not> pending"
      using d(4) [OF refl] by (auto simp: first_trust_def status_def)
    show ?thesis
    proof (cases "pinned_key (store u) = pinned_key (store v)")
      case True
      then show ?thesis using that x s not_trusted by simp
    next
      case False
      then have u: "first_trust a p s" "pinned_key (store u) = (pinned_key (store v))(cid \<mapsto> base64_encode c (sign_pk p))"
        using d(1) s by (auto simp: status_def)
      then have "pinned_key (store w) = pinned_key (store u)" using x not_pending by blast
      then show ?thesis using u s by (simp add: first_trust_def)
    qed
  qed
  show "bootstrap_key (store w) = bootstrap_key (store v)"
    by (cases rule: cases) (metis decide_trust_facts(2) exchange_facts(2))+
  show "res = Inr pk \<Longrightarrow> pk = sign_pk p"
    by (cases rule: cases) (auto split: sum.splits)
qed


text \<open>The status depends on the pins only, and a key that was just pinned is trusted.\<close>

lemma status_of_pins:
  "pinned_key st' = pinned_key st \<Longrightarrow> bootstrap_key st' = bootstrap_key st \<Longrightarrow>
     trusted_peer_signing_key_status c st' ident cid pk = trusted_peer_signing_key_status c st ident cid pk"
  by (simp add: trusted_peer_signing_key_status_def Let_def)

lemma pin_trusted_trusts:
  "pin_trusted_peer_signing_key c ident cid pk st = Inr st' \<Longrightarrow> base64_ok c \<Longrightarrow>
     trusted_peer_signing_key_status c st' ident cid pk = Inr Trusted"
  by (auto simp: pin_trusted_peer_signing_key_def pin_peer_signing_key_def validate_pinned_peer_signing_key_def base64_ok_def
      trusted_peer_signing_key_status_def pinned_peer_signing_key_status_def Let_def split: stage_splits)

lemma trust_after_pairing_trusts:
  "trust_peer_signing_key_after_pairing c ident cid pk st = Inr st' \<Longrightarrow> base64_ok c \<Longrightarrow>
     trusted_peer_signing_key_status c st' ident cid pk = Inr Trusted"
  by (auto simp: trust_peer_signing_key_after_pairing_def base64_ok_def trusted_peer_signing_key_status_def
      pinned_peer_signing_key_status_def Let_def split: stage_splits)

lemma first_contact_trusts:
  "first_contact_stage c cid a p status v = (w, Inr (pending, True)) \<Longrightarrow> base64_ok c \<Longrightarrow>
     trusted_peer_signing_key_status c (store w) (peer_id p) cid (sign_pk p) = Inr Trusted"
  by (auto simp: first_contact_stage_def confirm_peer_trust_def and_then_def keep_store_def pin_trusted_trusts split: stage_splits)

lemma decide_trust_trusts:
  assumes "decide_trust c scope cid a p v = (w, Inr (s, pending, True))" "base64_ok c"
  shows "trusted_peer_signing_key_status c (store w) (peer_id p) cid (sign_pk p) = Inr Trusted"
  using assms unfolding decide_trust_def by (auto elim!: and_then_cases dest: first_contact_trusts split: prod.splits)

lemma remember_stage_trusts:
  assumes "remember_stage c scope cid a p was_trusted True confirmed proven initiator v = (w, Inr ())" "base64_ok c"
  shows "trusted_peer_signing_key_status c (store w) (peer_id p) cid (sign_pk p) = Inr Trusted"
proof -
  obtain st where st: "trust_peer_signing_key_after_pairing c (peer_id p) cid (sign_pk p) (store v) = Inr st"
    and r: "remember_rest scope cid a p was_trusted True proven initiator (v\<lparr>store := st\<rparr>) = (w, Inr ())"
    using assms(1) unfolding remember_stage_def by (auto elim!: and_then_cases simp: keep_store_def split: sum.splits)
  have "same_pins (v\<lparr>store := st\<rparr>) w" using remember_rest_facts [OF r] by simp
  then have "trusted_peer_signing_key_status c (store w) (peer_id p) cid (sign_pk p) =
      trusted_peer_signing_key_status c st (peer_id p) cid (sign_pk p)"
    by (intro status_of_pins) (simp_all add: same_pins_def)
  then show ?thesis using trust_after_pairing_trusts [OF st assms(2)] by simp
qed

lemma authenticate_trusts:
  assumes "authenticate c scope cid a p v = (w, Inr pk)" "base64_ok c"
  shows "trusted_peer_signing_key_status c (store w) (peer_id p) cid (sign_pk p) = Inr Trusted"
proof -
  obtain u s pending confirmed where d: "decide_trust c scope cid a p v = (u, Inr (s, pending, confirmed))"
    and x: "exchange c scope cid a p (s = Trusted) pending confirmed u = (w, Inr ())"
    using assms(1) unfolding authenticate_def by (auto elim!: and_then_cases split: prod.splits)
  obtain v1 used where 1: "remembered_pairing scope cid a p pending u = (v1, used)" by fastforce
  show ?thesis
  proof (cases pending)
    case True
    from x 1 show ?thesis
      by (cases rule: exchange_cases) (use True remember_stage_trusts assms(2) in auto)
  next
    case False
    have same: "trusted_peer_signing_key_status c (store w) (peer_id p) cid (sign_pk p) =
        trusted_peer_signing_key_status c (store u) (peer_id p) cid (sign_pk p)"
      using exchange_facts(1,2) [OF x] False by (intro status_of_pins) auto
    show ?thesis
    proof (cases "first_trust a p s")
      case True
      then have "confirmed" using decide_trust_facts(4) [OF d refl] by (auto simp: first_trust_def)
      then show ?thesis using same decide_trust_trusts d assms(2) by simp
    next
      case not_first: False
      then have s: "s = Trusted" "trusted_peer_signing_key_status c (store v) (peer_id p) cid (sign_pk p) = Inr s"
        using decide_trust_facts(4) [OF d refl] False by auto
      then have "pinned_key (store u) = pinned_key (store v)" using decide_trust_facts(1) [OF d] by (auto simp: first_trust_def)
      then show ?thesis using same s decide_trust_facts(2) [OF d] status_of_pins by metis
    qed
  qed
qed

text \<open>The identity that a handshake of either kind received.\<close>

definition received_identity :: "Crypto \<Rightarrow> bytes option \<Rightarrow> bytes \<Rightarrow> bytes \<Rightarrow> Attempt \<Rightarrow> PeerIdentity \<Rightarrow> bool" where
  "received_identity c rs_pk signed_id_pk pid a p =
     (receive_direct_id c a = Inr p \<or> (\<exists>pk. vouched_key c rs_pk signed_id_pk pid = Inr pk \<and> receive_secure_id c a pid pk = Inr p))"

lemma secure_connection_cases:
  assumes "secure_direct_connection_with_input c cid a v = (w, res) \<or> secure_connection_with_input c rs_pk sid pid cid a v = (w, res)"
  obtains (nothing) e where "w = v" "res = Inl e"
    | (peer) p scope where "received_identity c rs_pk sid pid a p" "authenticate c scope cid a p v = (w, res)"
  using assms unfolding secure_direct_connection_with_input_def secure_connection_with_input_def received_identity_def
  by (auto elim!: and_then_cases split: if_splits)

lemma check_quic_binding_same: "check_quic_binding a q = Inr p \<Longrightarrow> p = q"
  by (auto simp: check_quic_binding_def split: stage_splits)

lemma attach_keeps_salt:
  "attach_direct_quic_identity c q d = Inr d' \<Longrightarrow> d_pairing_required d' = d_pairing_required d \<and> d_pairing_salt d' = d_pairing_salt d"
  "attach_secure_quic_identity c k q s = Inr s' \<Longrightarrow> s_pairing_required s' = s_pairing_required s \<and> s_pairing_salt s' = s_pairing_salt s"
  by (auto simp: attach_direct_quic_identity_def attach_secure_quic_identity_def split: stage_splits)

lemma received_salt:
  assumes "received_identity c rs_pk sid pid a p" shows "pairing_required p = (pairing_salt p \<noteq> None)"
proof -
  have "pairing_required p = (pairing_salt p \<noteq> None)" if "receive_direct_id c a = Inr p"
    using that unfolding receive_direct_id_def
    by (auto split: NextMessage.split_asm sum.split_asm dest!: check_quic_binding_same attach_keeps_salt(1) dest: decoded_salt(1))
  moreover have "pairing_required p = (pairing_salt p \<noteq> None)" if "receive_secure_id c a pid pk = Inr p" for pk
    using that unfolding receive_secure_id_def
    by (auto split: NextMessage.split_asm sum.split_asm if_split_asm dest!: check_quic_binding_same attach_keeps_salt(2)
        dest: decoded_secure_salt)
  ultimately show ?thesis using assms unfolding received_identity_def by blast
qed

text \<open>
  C11. What a viewer trusts after a handshake, direct or over the rendezvous server, is justified. If the handshake
  succeeds or leaves another pinned key, then the host presented an identity whose signing key was already
  trusted; or the peer had no key so far, requires no pairing, the configuration allows unverified peers and the user
  confirmed exactly this id and key; or the host requires pairing, the viewer sent a proof of the passphrase for this id
  and key, and the host acknowledged it. A changed or unreadable key is thus never replaced without a pairing. The only
  pin that changes is that of this peer, to this key, and the keys that the configuration pins stay. After a success
  the signing key that is returned is the one that was presented, and it is trusted from then on.
\<close>

theorem connection_trust_justified:
  assumes "secure_direct_connection_with_input c cid a v = (w, res) \<or> secure_connection_with_input c rs_pk sid pid cid a v = (w, res)"
    and "(\<exists>pk. res = Inr pk) \<or> pinned_key (store w) \<noteq> pinned_key (store v)"
    and "base64_ok c"
  shows "\<exists>p. received_identity c rs_pk sid pid a p
    \<and> (trusted_peer_signing_key_status c (store v) (peer_id p) cid (sign_pk p) = Inr Trusted
       \<or> (trusted_peer_signing_key_status c (store v) (peer_id p) cid (sign_pk p) = Inr Missing \<and> \<not> pairing_required p
          \<and> allow_unverified_peer_trust a \<and> confirm a (peer_id p) (sign_pk p))
       \<or> (pairing_required p \<and> (\<exists>pr. proofs w = (peer_id p, sign_pk p, pr) # proofs v)
          \<and> (\<exists>quic. acknowledgement a = SignedIdMessage DIRECT_HANDSHAKE_ACK_OK quic)))
    \<and> (pinned_key (store w) = pinned_key (store v)
       \<or> pinned_key (store w) = (pinned_key (store v))(cid \<mapsto> base64_encode c (sign_pk p)))
    \<and> bootstrap_key (store w) = bootstrap_key (store v)
    \<and> (\<forall>pk. res = Inr pk \<longrightarrow> pk = sign_pk p \<and> trusted_peer_signing_key_status c (store w) (peer_id p) cid pk = Inr Trusted)"
  using assms(1)
proof (cases rule: secure_connection_cases)
  case nothing
  then show ?thesis using assms(2) by simp
next
  case (peer p scope)
  note f = authenticate_facts [OF peer(2)]
  have salt: "pairing_required p \<Longrightarrow> pairing_salt p \<noteq> None" using received_salt [OF peer(1)] by simp
  have trusted: "pk = sign_pk p \<and> trusted_peer_signing_key_status c (store w) (peer_id p) cid pk = Inr Trusted" if "res = Inr pk" for pk
    using f(4) [OF that] authenticate_trusts [of c scope cid a p v w pk] peer(2) that assms(3) by simp
  show ?thesis
  proof (intro exI [of _ p] conjI)
    show "trusted_peer_signing_key_status c (store v) (peer_id p) cid (sign_pk p) = Inr Trusted
       \<or> (trusted_peer_signing_key_status c (store v) (peer_id p) cid (sign_pk p) = Inr Missing \<and> \<not> pairing_required p
          \<and> allow_unverified_peer_trust a \<and> confirm a (peer_id p) (sign_pk p))
       \<or> (pairing_required p \<and> (\<exists>pr. proofs w = (peer_id p, sign_pk p, pr) # proofs v)
          \<and> (\<exists>quic. acknowledgement a = SignedIdMessage DIRECT_HANDSHAKE_ACK_OK quic))"
      using f(1) [OF assms(2)] salt unfolding first_trust_def by blast
  qed (use peer(1) f(2,3) trusted in blast)+
qed

section \<open>All attempts of one connection\<close>

text \<open>Whatever the user confirmed and whatever proof was sent is for the one identity that the input is bound to.\<close>

definition entries :: "Viewer \<Rightarrow> (bytes \<times> bytes) set" where
  "entries v = set (confirmations v) \<union> (\<lambda>x. (fst x, fst (snd x))) ` set (proofs v)"

definition one_identity :: "Viewer \<Rightarrow> bool" where
  "one_identity v = (case peer (hs_input v) of None \<Rightarrow> entries v = {} | Some ik \<Rightarrow> entries v \<subseteq> {ik})"

definition keeps_binding :: "Viewer \<Rightarrow> Viewer \<Rightarrow> bool" where
  "keeps_binding v w = (peer (hs_input v) \<noteq> None \<longrightarrow> peer (hs_input w) = peer (hs_input v))"

definition bound_to :: "PeerIdentity \<Rightarrow> Viewer \<Rightarrow> bool" where
  "bound_to p v = (peer (hs_input v) = Some (peer_id p, sign_pk p) \<and> one_identity v)"

lemma identity_stage_bound:
  assumes "identity_stage c scope cid p v = (w, res)" "one_identity v"
  shows "one_identity w" "keeps_binding v w" "res = Inr s \<Longrightarrow> bound_to p w"
proof -
  have e: "entries w = entries v" using identity_stage_facts(2,3) [OF assms(1)] by (simp add: entries_def)
  have "peer (hs_input w) = peer (hs_input v) \<or> (peer (hs_input v) = None \<and> peer (hs_input w) = Some (peer_id p, sign_pk p))"
    using assms(1) by (auto simp: identity_stage_def bind_peer_def Let_def split: stage_splits)
  then show "one_identity w" "keeps_binding v w" using e assms(2) by (auto simp: one_identity_def keeps_binding_def split: option.splits)
  then show "bound_to p w" if "res = Inr s" using identity_stage_facts(5) [OF assms(1) that] by (simp add: bound_to_def)
qed

lemma bound_to_step:
  assumes "bound_to p v" "peer (hs_input w) = peer (hs_input v)"
    and "confirmations w = confirmations v \<or> confirmations w = (peer_id p, sign_pk p) # confirmations v"
    and "proofs w = proofs v \<or> (\<exists>pr. proofs w = (peer_id p, sign_pk p, pr) # proofs v)"
  shows "bound_to p w"
proof -
  have "entries w \<subseteq> insert (peer_id p, sign_pk p) (entries v)" using assms(3,4) by (fastforce simp: entries_def)
  moreover have "entries v \<subseteq> {(peer_id p, sign_pk p)}" using assms(1) unfolding bound_to_def one_identity_def by (elim conjE) simp
  ultimately have "entries w \<subseteq> {(peer_id p, sign_pk p)}" by blast
  then show ?thesis using assms(1,2) by (simp add: bound_to_def one_identity_def)
qed

lemma decide_trust_bound:
  assumes "decide_trust c scope cid a p v = (w, res)" "one_identity v"
  shows "one_identity w \<and> keeps_binding v w \<and> ((\<exists>x. res = Inr x) \<longrightarrow> bound_to p w)"
proof -
  have repair: "bound_to p v2"
    if "(if scope = Direct then repair_stage a p s v1 else (v1, Inr ())) = (v2, r2)" "bound_to p v1" for s v1 v2 and r2 :: "ViewerError + unit"
    using that repair_stage_facts(2-4) bound_to_step by (auto split: if_splits)
  have contact: "bound_to p v2" if "first_contact_stage c cid a p s v1 = (v2, r2)" "bound_to p v1" for s v1 v2 r2
    using bound_to_step [OF that(2) first_contact_facts(3,4) [OF that(1)]] first_contact_facts(2) [OF that(1)] by simp
  have all: "one_identity u \<and> keeps_binding v u" if "bound_to p u" "keeps_binding v v1" "bound_to p v1" for u v1
    using that by (auto simp: bound_to_def keeps_binding_def)
  show ?thesis
    using assms(1) unfolding decide_trust_def
  proof (cases rule: and_then_cases)
    case (failed e)
    then show ?thesis using identity_stage_bound(1,2) [OF _ assms(2)] by auto
  next
    case (passed v1 s)
    note id = identity_stage_bound [OF passed(1) assms(2)]
    from passed(2) show ?thesis
    proof (cases rule: and_then_cases)
      case (failed e)
      then show ?thesis using all [OF repair [OF failed(1) id(3) [OF refl]] id(2) id(3) [OF refl]] by simp
    next
      case r: (passed v2 u)
      note b = repair [OF r(1) id(3) [OF refl]]
      from r(2) show ?thesis
      proof (cases rule: and_then_cases)
        case (failed e)
        then show ?thesis using all [OF contact [OF failed(1) b] id(2) id(3) [OF refl]] by simp
      next
        case (passed v3 x)
        then have "w = v3" by (cases x) simp
        then show ?thesis using all [OF contact [OF passed(1) b] id(2) id(3) [OF refl]] contact [OF passed(1) b] by simp
      qed
    qed
  qed
qed

text \<open>An attempt sends at most one proof, and none if it ends in order to be repeated on a new connection.\<close>

lemma authenticate_bound:
  assumes "authenticate c scope cid a p v = (w, res)" "one_identity v"
  shows "one_identity w \<and> keeps_binding v w
    \<and> (length (proofs w) = length (proofs v) \<or> (length (proofs w) = Suc (length (proofs v)) \<and> res \<noteq> Inl ReopenAfterApproval))
    \<and> (\<forall>pk. res = Inr pk \<longrightarrow> bound_to p w \<and> pk = sign_pk p)"
  using assms(1) unfolding authenticate_def
proof (cases rule: and_then_cases)
  case (failed e)
  then show ?thesis using decide_trust_bound [OF failed(1) assms(2)] decide_trust_facts(3) [OF failed(1)] by simp
next
  case (passed u x)
  obtain s pending confirmed where x: "x = (s, pending, confirmed)" by (cases x)
  note d = decide_trust_bound [OF passed(1) assms(2)] decide_trust_facts(3) [OF passed(1)]
  obtain r where r: "exchange c scope cid a p (s = Trusted) pending confirmed u = (w, r)"
      "res = (case r of Inl e \<Rightarrow> Inl e | Inr _ \<Rightarrow> Inr (sign_pk p))"
    using passed(2) x by (auto elim!: and_then_cases)
  note f = exchange_facts(3-5) [OF r(1)]
  have "bound_to p w" using bound_to_step [of p u w] d(1) f by blast
  then show ?thesis using d f r(2) by (auto simp: bound_to_def keeps_binding_def split: sum.splits)
qed

lemma secure_direct_bound:
  assumes "secure_direct_connection_with_input c cid a v = (w, res)" "one_identity v"
  shows "one_identity w \<and> keeps_binding v w
    \<and> (length (proofs w) = length (proofs v) \<or> (length (proofs w) = Suc (length (proofs v)) \<and> res \<noteq> Inl ReopenAfterApproval))
    \<and> (\<forall>pk. res = Inr pk \<longrightarrow> (\<exists>ident. peer (hs_input w) = Some (ident, pk)))"
proof -
  have id: "one_identity v \<and> keeps_binding v v" using assms(2) by (simp add: keeps_binding_def)
  consider "w = v" "\<exists>e. res = Inl e" | p where "authenticate c Direct cid a p v = (w, res)"
    using assms(1) unfolding secure_direct_connection_with_input_def by (auto elim!: and_then_cases split: if_splits)
  then show ?thesis
    by cases (use id authenticate_bound [OF _ assms(2)] in \<open>fastforce simp: bound_to_def\<close>)+
qed


lemma is_confirmed_frame:
  "is_confirmed scope cid now v = (w, yes) \<Longrightarrow> proofs w = proofs v \<and> confirmations w = confirmations v \<and> hs_input w = hs_input v"
  by (auto simp: is_confirmed_def split: prod.splits)

lemma open_connection_frame:
  "open_connection x v = (w, r) \<Longrightarrow> proofs w = proofs v \<and> confirmations w = confirmations v \<and> peer (hs_input w) = peer (hs_input v)"
  by (auto simp: open_connection_def set_input_def split: if_splits)

lemma one_identity_frame:
  "proofs w = proofs v \<and> confirmations w = confirmations v \<and> peer (hs_input w) = peer (hs_input v) \<Longrightarrow>
     one_identity w = one_identity v \<and> keeps_binding v w"
  by (simp add: one_identity_def entries_def keeps_binding_def split: option.split)

lemma keeps_binding_trans: "keeps_binding u v \<Longrightarrow> keeps_binding v w \<Longrightarrow> keeps_binding u w"
  by (auto simp: keeps_binding_def)

text \<open>What an attempt of the loop does, on whatever connection.\<close>

lemma one_attempt:
  assumes "one_identity v"
    and "open_connection x (set_input (\<lambda>i. i\<lparr>reopen_requested := False\<rparr>) v) = (v1, Inr a)"
    and "secure_direct_connection_with_input c cid a v1 = (v2, res)"
  shows "one_identity v2 \<and> (length (proofs v2) \<le> length (proofs v) + (if res = Inl ReopenAfterApproval then 0 else 1))
    \<and> (\<forall>pk. res = Inr pk \<longrightarrow> (\<exists>ident. peer (hs_input v2) = Some (ident, pk)))"
proof -
  let ?u = "set_input (\<lambda>i. i\<lparr>reopen_requested := False\<rparr>) v"
  have u: "proofs ?u = proofs v \<and> confirmations ?u = confirmations v \<and> peer (hs_input ?u) = peer (hs_input v)"
    by (simp add: set_input_def)
  have f: "proofs v1 = proofs v \<and> confirmations v1 = confirmations v \<and> peer (hs_input v1) = peer (hs_input v)"
    using open_connection_frame [OF assms(2)] u by simp
  then have "one_identity v1" using one_identity_frame assms(1) by blast
  from secure_direct_bound [OF assms(3) this] show ?thesis using f by auto
qed

text \<open>How an iteration of the loop ends: it is the last one, or the next one runs with one flag more or the same flags.\<close>

lemma direct_attempts_step:
  assumes "direct_attempts c cid world now had attempts rejected remembered v = (w, res)" "attempts < 5"
    and "open_connection (world attempts) (set_input (\<lambda>i. i\<lparr>reopen_requested := False\<rparr>) v) = (v1, Inr a)"
    and "secure_direct_connection_with_input c cid a v1 = (v2, r)"
  obtains (succeeded) pk where "r = Inr pk" "w = v2" "res = Inr (a, pk)"
    | (stopped) e v3 where "proofs v3 = proofs v2 \<and> confirmations v3 = confirmations v2 \<and> hs_input v3 = hs_input v2" "w = v3" "res = Inl e"
    | (reopened) "r = Inl ReopenAfterApproval" "direct_attempts c cid world now had (attempts + 1) rejected remembered v2 = (w, res)"
    | (asked_again) "\<not> rejected" "direct_attempts c cid world now had (attempts + 1) True remembered v2 = (w, res)"
    | (forgotten) v3 where "proofs v3 = proofs v2 \<and> confirmations v3 = confirmations v2 \<and> hs_input v3 = hs_input v2" "\<not> remembered"
        "direct_attempts c cid world now had (attempts + 1) rejected True v3 = (w, res)"
proof (cases r)
  case (Inr pk)
  then show thesis using assms succeeded by (subst (asm) direct_attempts.simps) simp
next
  case (Inl e)
  obtain v3 still where 3: "(if had then is_confirmed Direct cid now v2 else (v2, True)) = (v3, still)" by fastforce
  have f: "proofs v3 = proofs v2 \<and> confirmations v3 = confirmations v2 \<and> hs_input v3 = hs_input v2"
    using 3 is_confirmed_frame by (auto split: if_splits)
  have "(if e = ReopenAfterApproval then direct_attempts c cid world now had (attempts + 1) rejected remembered v2
      else if e = PeerError PASSPHRASE_REJECTED
      then if \<not> rejected then direct_attempts c cid world now had (attempts + 1) True remembered v2 else (v2, Inl RejectedAfterRetry)
      else if still \<or> remembered then (v3, Inl e)
      else direct_attempts c cid world now had (attempts + 1) rejected True v3) = (w, res)"
    using assms(1) by (subst (asm) direct_attempts.simps) (simp add: assms(3,4) Inl 3 Let_def assms(2) [unfolded not_le [symmetric]] split del: if_split cong: if_cong)
  then show thesis using Inl f stopped reopened asked_again forgotten by (auto split: if_splits)
qed

lemma direct_attempts_bound:
  assumes "direct_attempts c cid world now had attempts rejected remembered v = (w, res)" "one_identity v"
  shows "one_identity w \<and> length (proofs w) + of_bool rejected + of_bool remembered \<le> length (proofs v) + 3
    \<and> (\<forall>a pk. res = Inr (a, pk) \<longrightarrow> (\<exists>ident. peer (hs_input w) = Some (ident, pk)))"
  using assms
proof (induction "5 - attempts" arbitrary: attempts rejected remembered v rule: less_induct)
  case less
  let ?u = "set_input (\<lambda>i. i\<lparr>reopen_requested := False\<rparr>) v"
  have u: "proofs ?u = proofs v \<and> confirmations ?u = confirmations v \<and> peer (hs_input ?u) = peer (hs_input v)"
    by (simp add: set_input_def)
  have two: "of_bool rejected + of_bool remembered \<le> (2 :: nat)" by (cases rejected; cases remembered) simp_all
  obtain v1 ra where o: "open_connection (world attempts) ?u = (v1, ra)" by fastforce
  show ?case
  proof (cases "attempts \<ge> 5 \<or> (\<exists>e. ra = Inl e)")
    case True
    then have "(w = v \<or> w = v1) \<and> (\<exists>e. res = Inl e)"
      using less.prems(1) o by (subst (asm) direct_attempts.simps) (auto split: if_splits)
    then show ?thesis
      using open_connection_frame [OF o] u one_identity_frame [of v1 v] less.prems(2) two by auto
  next
    case False
    then obtain a where a: "ra = Inr a" and few: "attempts < 5" by (cases ra) auto
    obtain v2 r where s: "secure_direct_connection_with_input c cid a v1 = (v2, r)" by fastforce
    note att = one_attempt [OF less.prems(2) o [unfolded a] s]
    have next_one: "5 - (attempts + 1) < 5 - attempts" using few by simp
    show ?thesis
      using less.prems(1) few o [unfolded a] s
    proof (cases rule: direct_attempts_step)
      case succeeded
      then show ?thesis using att two by auto
    next
      case stopped
      then show ?thesis using att two one_identity_frame [of w v2] by (auto split: if_splits)
    next
      case reopened
      then show ?thesis using less.hyps [OF next_one reopened(2)] att by simp
    next
      case asked_again
      then show ?thesis using less.hyps [OF next_one asked_again(2)] att by (auto split: if_splits)
    next
      case (forgotten v3)
      then have "one_identity v3" using att one_identity_frame [of v3 v2] by simp
      then show ?thesis using less.hyps [OF next_one forgotten(3)] forgotten(1,2) att by (auto split: if_splits)
    qed
  qed
qed

lemma promotions_bound:
  assumes "promotions c cid world con n v = (w, res)" "one_identity v" "\<exists>ident. peer (hs_input v) = Some (ident, snd con)"
  shows "one_identity w \<and> length (proofs w) \<le> length (proofs v) + 1
    \<and> (\<forall>a pk. res = Inr (a, pk) \<longrightarrow> (\<exists>ident. peer (hs_input w) = Some (ident, pk)))"
  using assms
proof (induction n arbitrary: v)
  case 0
  then show ?case by (cases con) auto
next
  case (Suc n)
  obtain conn pk where con: "con = (conn, pk)" by (cases con)
  let ?u = "set_input (\<lambda>i. i\<lparr>reopen_requested := False\<rparr>) v"
  have u: "proofs ?u = proofs v \<and> confirmations ?u = confirmations v \<and> peer (hs_input ?u) = peer (hs_input v)"
    by (simp add: set_input_def)
  then have uone: "one_identity ?u" using one_identity_frame Suc.prems(2) by blast
  show ?case
  proof (cases "world n")
    case (Promoted quic)
    obtain v2 r where s: "secure_direct_connection_with_input c cid quic ?u = (v2, r)" by fastforce
    note att = secure_direct_bound [OF s uone]
    obtain ident where id: "peer (hs_input v2) = Some (ident, pk)"
      using att Suc.prems(3) u con by (auto simp: keeps_binding_def)
    show ?thesis
    proof (cases "r = Inl ReopenAfterApproval")
      case True
      then have "promotions c cid world con n v2 = (w, res)" using Suc.prems(1) con Promoted s by simp
      from Suc.IH [OF this] att id con True u show ?thesis by simp
    next
      case False
      then have "w = v2 \<and> (\<forall>a k. res = Inr (a, k) \<longrightarrow> k = pk)"
        using Suc.prems(1) con Promoted s by (auto simp: Let_def split: sum.splits if_splits)
      then show ?thesis using att id u by auto
    qed
  qed (use Suc.prems con u uone in auto)
qed

text \<open>
  C12. One connection of a direct peer deals with one identity. However the transport, the peers that answer, the user and
  the clock behave in the at most five attempts and the at most three attempts to change to QUIC, there is
  one id and one signing key such that every identity that the user confirmed and every identity that was
  sent a proof of the passphrase is this one, and a connection that comes about is authenticated with this key. At most
  four proofs are sent in all: an answer to a host that keeps refusing, or a peer that is exchanged between
  the attempts, cannot collect more.
\<close>

theorem direct_connection_one_identity:
  assumes "connect_secure_direct_with_pairing_retry c cid world upgrades had_quic_trust now v = (w, res)"
    and "confirmations v = []" "proofs v = []"
  shows "\<exists>ident key. set (confirmations w) \<subseteq> {(ident, key)} \<and> (\<lambda>(i, k, _). (i, k)) ` set (proofs w) \<subseteq> {(ident, key)}
    \<and> length (proofs w) \<le> 4 \<and> (case res of Inl _ \<Rightarrow> True | Inr (_, pk) \<Rightarrow> pk = key)"
proof -
  obtain v0 had where v0: "is_confirmed Direct cid now v = (v0, had)" by fastforce
  let ?v = "v0\<lparr>hs_input := HandshakeInput_default\<lparr>can_reopen := True\<rparr>\<rparr>"
  have start: "one_identity ?v" "proofs ?v = []" "entries v0 = {}" "proofs v0 = []"
    using is_confirmed_frame [OF v0] assms(2,3) by (simp_all add: one_identity_def entries_def HandshakeInput_default_def)
  have "(entries w = {} \<or> one_identity w) \<and> length (proofs w) \<le> 4
      \<and> (\<forall>a pk. res = Inr (a, pk) \<longrightarrow> (\<exists>ident. peer (hs_input w) = Some (ident, pk)))"
  proof (cases had_quic_trust)
    case None
    then show ?thesis using assms(1) v0 start by (auto simp: connect_secure_direct_with_pairing_retry_def)
  next
    case (Some had_quic)
    obtain u r where d: "direct_attempts c cid world now had 0 False False ?v = (u, r)" by fastforce
    note db = direct_attempts_bound [OF d start(1)]
    have e: "and_then (u, r) (\<lambda>v con. if had_quic \<and> \<not> is_quic (fst con) then (v, Inr con)
        else promote_confirmed_direct_to_quic c cid upgrades con v) = (w, res)"
      using assms(1) v0 Some d by (simp add: connect_secure_direct_with_pairing_retry_def)
    then show ?thesis
    proof (cases rule: and_then_cases)
      case failed
      then show ?thesis using db start(2) by simp
    next
      case (passed u' con)
      have same: "u' = u" "r = Inr con" using passed(1) by simp_all
      obtain a pk where con: "con = (a, pk)" by (cases con)
      have id: "\<exists>ident. peer (hs_input u) = Some (ident, snd con)" using db same(2) con by simp
      have p: "promotions c cid upgrades con 3 u = (w, res) \<Longrightarrow> ?thesis"
        using promotions_bound [of c cid upgrades con 3 u w res] db id start(2) by auto
      have "(w = u \<and> res = Inr con) \<or> promotions c cid upgrades con 3 u = (w, res)"
        using passed(2) same(1) unfolding promote_confirmed_direct_to_quic_def by (metis Pair_inject)
      then show ?thesis using p db same(2) start(2) by auto
    qed
  qed
  then have one: "entries w = {} \<or> one_identity w" and four: "length (proofs w) \<le> 4"
    and res: "res = Inr (a, pk) \<Longrightarrow> \<exists>ident. peer (hs_input w) = Some (ident, pk)" for a pk by blast+
  define ik where "ik = (case peer (hs_input w) of None \<Rightarrow> ([], []) | Some x \<Rightarrow> x)"
  have ent: "entries w \<subseteq> {ik}" using one by (auto simp: one_identity_def ik_def split: option.splits)
  have "(\<lambda>(i, k, _). (i, k)) ` set (proofs w) \<subseteq> entries w" "set (confirmations w) \<subseteq> entries w"
    by (auto simp: entries_def image_iff split: prod.splits) force
  then have "set (confirmations w) \<subseteq> {(fst ik, snd ik)} \<and> (\<lambda>(i, k, _). (i, k)) ` set (proofs w) \<subseteq> {(fst ik, snd ik)}"
    using ent by auto
  moreover have "case res of Inl _ \<Rightarrow> True | Inr (_, pk) \<Rightarrow> pk = snd ik"
    using res by (auto simp: ik_def split: sum.splits prod.splits)
  ultimately show ?thesis using four by blast
qed


section \<open>A concrete run\<close>

lemma and_then_done [simp]: "and_then (v, Inr x) f = f v x" "and_then (v, Inl e) f = (v, Inl e)"
  by (simp_all add: and_then_def)

text \<open>A trusted host without a pairing and without QUIC is connected to.\<close>

lemma trusted_host_connects:
  assumes "receive_direct_id c a = Inr p" "hs_input v = HandshakeInput_default" "peer_id p \<noteq> []" "sent a"
    and "trusted_peer_signing_key_status c (store v) (peer_id p) cid (sign_pk p) = Inr Trusted"
    and "\<not> pairing_required p" "pairing_salt p = None" "quic_certificate_der p = None"
  shows "\<exists>w. secure_direct_connection_with_input c cid a v = (w, Inr (sign_pk p))"
proof -
  let ?v = "v\<lparr>hs_input := (hs_input v)\<lparr>peer := Some (peer_id p, sign_pk p)\<rparr>\<rparr>"
  have d: "decide_trust c Direct cid a p v = (?v, Inr (Trusted, False, False))"
    using assms(2,3,5) by (simp add: decide_trust_def identity_stage_def bind_peer_def repair_stage_def first_contact_stage_def
        pending_peer_trust_from_status_def HandshakeInput_default_def)
  obtain v2 where s: "send_stage a p None None [] ?v = (v2, Inr ())"
    using assms(4) by (simp add: send_stage_def wrap_direct_public_key_symmetric_value_with_identity_def Let_def)
  have "\<exists>w. remember_rest Direct cid a p True False False False v2 = (w, Inr ())"
    using assms(8) by (auto simp: remember_rest_def Let_def split: prod.split)
  then have "\<exists>w. remember_stage c Direct cid a p True False False False False v2 = (w, Inr ())" by (simp add: remember_stage_def)
  then have "\<exists>w. exchange c Direct cid a p True False False ?v = (w, Inr ())"
    using assms(6-8) s by (auto simp: exchange_def remembered_pairing_def viewer_identities_def proof_stage_def acknowledgement_stage_def)
  then show ?thesis using assms(1,2) d by (auto simp: secure_direct_connection_with_input_def authenticate_def HandshakeInput_default_def)
qed

definition attempt_demo :: "NextMessage \<Rightarrow> Attempt" where
  "attempt_demo m = \<lparr>first_message = m, quic_binding = None, confirm = (\<lambda>_ _. False), asked_passphrase = Some [1], late = False,
     late_passphrase = False, our_box_pk = key_demo, sealed_key = (\<lambda>_ _. [2]), local_id = [6], local_keys = Some (key_demo, key_demo),
     local_certificate = Some [9], sent = True, acknowledgement = NoAnswer, allow_unverified_peer_trust = False,
     remember_paired_viewers = True, directional_secretbox_enabled = True, current_time = 1000, quic_store_ok = (\<lambda>_. True)\<rparr>"

definition plain_offer :: NextMessage where
  "plain_offer = SignedIdMessage (sign_direct_id crypto_demo (encode_id_pk crypto_demo [5] key_demo 0) key_demo key_demo) []"

definition store_demo :: ViewerStore where
  "store_demo = \<lparr>bootstrap_key = (\<lambda>_. []), pinned_key = [[5] \<mapsto> base64_encode crypto_demo key_demo],
     paired_viewer = (\<lambda>_ _. None), quic_peers = []\<rparr>"

definition viewer_demo :: Viewer where
  "viewer_demo = \<lparr>store = store_demo, hs_input = HandshakeInput_default, confirmations = [], proofs = [], outbox = []\<rparr>"

lemma plain_offer_received:
  "receive_direct_id crypto_demo (attempt_demo plain_offer) = Inr \<lparr>peer_id = [5], sign_pk = key_demo, box_pk = key_demo,
     pairing_required = False, pairing_salt = None, supports_paired_viewer_identity = False, quic_certificate_der = None, secure_channel = 0\<rparr>"
  using direct_id_plain [OF key_demo_pair demo_format _ key_demo_plain, of key_demo "[5]" 0]
  by (simp add: receive_direct_id_def attempt_demo_def plain_offer_def attach_direct_quic_identity_def check_quic_binding_def key_demo_def)

lemma demo_trusted: "trusted_peer_signing_key_status crypto_demo store_demo [5] [5] key_demo = Inr Trusted"
  using demo_base64
  by (simp add: trusted_peer_signing_key_status_def store_demo_def pinned_peer_signing_key_status_def base64_ok_def key_demo_def)

lemma demo_run_succeeds:
  "\<exists>w. secure_direct_connection_with_input crypto_demo [5] (attempt_demo plain_offer) viewer_demo = (w, Inr key_demo)"
  using trusted_host_connects [OF plain_offer_received, of viewer_demo "[5]"] demo_trusted
  by (simp add: viewer_demo_def attempt_demo_def)

theorem connection_trust_justified_witness:
  "\<exists>p. received_identity crypto_demo None [] [] (attempt_demo plain_offer) p
     \<and> trusted_peer_signing_key_status crypto_demo store_demo (peer_id p) [5] (sign_pk p) = Inr Trusted"
proof -
  obtain w where w: "secure_direct_connection_with_input crypto_demo [5] (attempt_demo plain_offer) viewer_demo = (w, Inr key_demo)"
    using demo_run_succeeds by blast
  from connection_trust_justified [OF disjI1 [OF w] _ demo_base64, of None "[]" "[]"] obtain p
    where p: "received_identity crypto_demo None [] [] (attempt_demo plain_offer) p"
    by blast
  then have "receive_direct_id crypto_demo (attempt_demo plain_offer) = Inr p" by (simp add: received_identity_def vouched_key_def)
  then have "trusted_peer_signing_key_status crypto_demo store_demo (peer_id p) [5] (sign_pk p) = Inr Trusted"
    using plain_offer_received demo_trusted by auto
  then show ?thesis using p by blast
qed

definition connection_demo :: "Viewer \<times> (ViewerError + Attempt \<times> bytes)" where
  "connection_demo = connect_secure_direct_with_pairing_retry crypto_demo [5]
     (\<lambda>_. \<lparr>transport = Inr (attempt_demo plain_offer), identity_repair = False, candidate = Inl TransportError\<rparr>)
     (\<lambda>_. NotPretrusted) (Some False) 0 viewer_demo"

theorem direct_connection_one_identity_witness:
  "\<exists>ident key. set (confirmations (fst connection_demo)) \<subseteq> {(ident, key)} \<and> length (proofs (fst connection_demo)) \<le> 4"
proof -
  have "connect_secure_direct_with_pairing_retry crypto_demo [5]
     (\<lambda>_. \<lparr>transport = Inr (attempt_demo plain_offer), identity_repair = False, candidate = Inl TransportError\<rparr>)
     (\<lambda>_. NotPretrusted) (Some False) 0 viewer_demo = (fst connection_demo, snd connection_demo)"
    by (simp add: connection_demo_def)
  from direct_connection_one_identity [OF this] show ?thesis by (auto simp: viewer_demo_def)
qed

end
