(* ===== verification/HostHandshake.thy ===== *)
theory HostHandshake
  imports PeerTrust
begin

text \<open>
  The handshake on the side of the host (\<^verbatim>\<open>src/src/server.rs\<close>, the part of \<open>create_tcp_connection_with_mode\<close> before
  the session starts) and what it achieves together with the viewer. The configuration, the list of paired
  viewers that \<open>has_paired_viewer\<close> looks up, the opening of the sealed session key and the transport are parameters;
  what the host stores is recorded.
\<close>

datatype HandshakeMode = DisabledMode | RendezvousMode | DirectMode

record HostConfig =
  h_id :: bytes
  h_pk :: bytes
  h_sk :: bytes
  direct_passphrase :: bytes
  peer_passphrase :: bytes
  h_remember_paired_viewers :: bool
  h_directional :: bool
  h_certificate :: "bytes option"
  has_paired_viewer :: "Scope \<Rightarrow> bytes \<Rightarrow> bytes \<Rightarrow> bool"
  decode_session :: "bytes \<Rightarrow> bytes \<Rightarrow> bool \<Rightarrow> (bytes \<times> bool) option"
  h_quic_binding :: "(bytes \<Rightarrow> bytes \<Rightarrow> bool) option"
  h_quic_store_ok :: bool
  h_sent :: bool
  h_time :: int

definition SECRETKEYBYTES :: nat where "SECRETKEYBYTES = 64"

record Host =
  paired_viewers :: "(Scope \<times> bytes \<times> bytes \<times> int) list"
  h_quic_peers :: "(bytes \<times> bytes \<times> bytes) list"
  key_confirmed :: bool
  replies :: "NextMessage list"

datatype HostError =
    InvalidLocalKey
  | LocalCertificate
  | NotSent
  | NothingReceived
  | NotAPublicKey
  | BadWire HandshakeError
  | ClientCertificateMissing
  | ClientBindingMismatch
  | ClientIdentityMismatch
  | SessionKey
  | PassphraseRejected
  | PassphraseRequired
  | QuicStore ViewerError
  | StaleKeyBinding
  | WrongKeyLength

datatype HostMessage = PublicKeyIn PublicKeyMessage | SomethingElse | NoMessage

section \<open>The offer\<close>

definition get_effective_direct_access_pairing_passphrase :: "HostConfig \<Rightarrow> bytes" where
  "get_effective_direct_access_pairing_passphrase cfg =
     (if direct_passphrase cfg \<noteq> [] then direct_passphrase cfg else peer_passphrase cfg)"

definition host_passphrase :: "HostConfig \<Rightarrow> HandshakeMode \<Rightarrow> bytes" where
  "host_passphrase cfg mode =
     (case mode of
        DirectMode \<Rightarrow> get_effective_direct_access_pairing_passphrase cfg
      | RendezvousMode \<Rightarrow> peer_passphrase cfg
      | DisabledMode \<Rightarrow> [])"

definition host_secure_channel :: "HostConfig \<Rightarrow> nat" where
  "host_secure_channel cfg = (if h_directional cfg then SECURE_CHANNEL_DIRECTIONAL else 0)"

text \<open>The salt is only used if there is a passphrase.\<close>

definition host_salt :: "HostConfig \<Rightarrow> HandshakeMode \<Rightarrow> bytes \<Rightarrow> bytes option" where
  "host_salt cfg mode salt = (if mode \<noteq> DisabledMode \<and> host_passphrase cfg mode \<noteq> [] then Some salt else None)"

definition host_offer :: "Crypto \<Rightarrow> HostConfig \<Rightarrow> HandshakeMode \<Rightarrow> bytes \<Rightarrow> bytes \<Rightarrow> HostError + NextMessage" where
  "host_offer c cfg mode our_pk_b salt =
     (if length (h_pk cfg) \<noteq> PUBLICKEYBYTES \<or> length (h_sk cfg) \<noteq> SECRETKEYBYTES then Inl InvalidLocalKey
      else let signed_id = create_host_signed_id c (mode = DirectMode) (h_id cfg) our_pk_b (h_pk cfg) (h_sk cfg)
                 (host_salt cfg mode salt) (host_secure_channel cfg)
           in case h_certificate cfg of
                None \<Rightarrow> Inl LocalCertificate
              | Some certificate \<Rightarrow>
                  (case create_direct_signed_id_v3 c (h_id cfg) our_pk_b (h_pk cfg) (h_sk cfg) None certificate of
                     Inl e \<Rightarrow> Inl (BadWire e)
                   | Inr identity \<Rightarrow> if h_sent cfg then Inr (SignedIdMessage signed_id identity) else Inl NotSent))"

section \<open>The answer\<close>

text \<open>The certificate identity of a viewer with QUIC, which also has to match the identity for pairing.\<close>

definition quic_initiator_of ::
  "Crypto \<Rightarrow> HostConfig \<Rightarrow> PublicKeyMessage \<Rightarrow> DirectSignedId option \<Rightarrow> HostError + DirectSignedId option" where
  "quic_initiator_of c cfg m initiator =
     (case (if message_quic_identity m = [] then Inr None
            else case decode_direct_id_pk c (message_quic_identity m) of
                   Inl e \<Rightarrow> Inl (BadWire e)
                 | Inr identity \<Rightarrow>
                     (case validate_direct_public_key_initiator identity (asymmetric_value m) of
                        Inl e \<Rightarrow> Inl (BadWire e)
                      | Inr _ \<Rightarrow>
                          (case d_quic_certificate_der identity of
                             None \<Rightarrow> Inl ClientCertificateMissing
                           | Some certificate \<Rightarrow>
                               (case h_quic_binding cfg of
                                  None \<Rightarrow> Inr (Some identity)
                                | Some validate_quic_peer_binding \<Rightarrow>
                                    if validate_quic_peer_binding (d_sign_pk identity) certificate then Inr (Some identity)
                                    else Inl ClientBindingMismatch)))) of
        Inl e \<Rightarrow> Inl e
      | Inr quic_initiator \<Rightarrow>
          if h_quic_binding cfg \<noteq> None \<and> quic_initiator = None then Inl ClientCertificateMissing
          else (case (initiator, quic_initiator) of
                  (Some legacy, Some quic) \<Rightarrow>
                    if d_id legacy \<noteq> d_id quic \<or> d_sign_pk legacy \<noteq> d_sign_pk quic then Inl ClientIdentityMismatch
                    else Inr quic_initiator
                | _ \<Rightarrow> Inr quic_initiator))"

definition pairing_scope :: "HandshakeMode \<Rightarrow> Scope option" where
  "pairing_scope mode = (case mode of DirectMode \<Rightarrow> Some Direct | RendezvousMode \<Rightarrow> Some Rendezvous | DisabledMode \<Rightarrow> None)"

definition validated :: "DirectSignedId \<Rightarrow> bytes \<Rightarrow> 'a \<Rightarrow> HostError + 'a" where
  "validated initiator asymmetric x =
     (case validate_direct_public_key_initiator initiator asymmetric of Inl e \<Rightarrow> Inl (BadWire e) | Inr _ \<Rightarrow> Inr x)"

text \<open>
  The verdict on a proof, or on a viewer that relies on an earlier pairing: an error that is reported to the viewer, or
  the viewer that is to be remembered.
\<close>

definition pairing_verdict ::
  "Crypto \<Rightarrow> HostConfig \<Rightarrow> HandshakeMode \<Rightarrow> bytes \<Rightarrow> bytes \<Rightarrow> PublicKeyMessage \<Rightarrow> DirectPublicKeyPayload
     \<Rightarrow> HostError + (HostError + (Scope \<times> DirectSignedId) option)" where
  "pairing_verdict c cfg mode our_pk_b salt m payload =
     (case pp_pairing_proof payload of
        Some pairing_proof \<Rightarrow>
          (case compute_direct_pairing_proof c (host_passphrase cfg mode) salt (h_id cfg) (h_pk cfg) our_pk_b (asymmetric_value m) of
             Inl e \<Rightarrow> Inl (BadWire e)
           | Inr expected_proof \<Rightarrow>
               if pairing_proof \<noteq> expected_proof then Inr (Inl PassphraseRejected)
               else (case (h_remember_paired_viewers cfg, pp_initiator payload) of
                       (True, Some initiator) \<Rightarrow>
                         validated initiator (asymmetric_value m) (Inr (map_option (\<lambda>scope. (scope, initiator)) (pairing_scope mode)))
                     | _ \<Rightarrow> Inr (Inr None)))
      | None \<Rightarrow>
          (case (h_remember_paired_viewers cfg, pp_initiator payload) of
             (True, Some initiator) \<Rightarrow>
               validated initiator (asymmetric_value m)
                 (if (case pairing_scope mode of None \<Rightarrow> False | Some scope \<Rightarrow> has_paired_viewer cfg scope (d_id initiator) (d_sign_pk initiator))
                  then Inr None else Inl PassphraseRequired)
           | _ \<Rightarrow> Inr (Inl PassphraseRequired)))"

definition error_text :: "HostError \<Rightarrow> string" where
  "error_text e =
     (if e = PassphraseRejected then ''Handshake failed: pairing passphrase rejected''
      else ''Handshake failed: pairing passphrase required'')"

text \<open>The records of an accepted viewer: its QUIC identity, and the pairing in the scope and, with QUIC, the direct one.\<close>

definition remember_viewer ::
  "HostConfig \<Rightarrow> PublicKeyMessage \<Rightarrow> (Scope \<times> DirectSignedId) option \<Rightarrow> DirectSignedId option \<Rightarrow> Host \<Rightarrow> Host \<times> (HostError + unit)" where
  "remember_viewer cfg m paired_initiator quic_initiator h =
     (let (h, r) =
        (case quic_initiator of
           None \<Rightarrow> (h, Inr ())
         | Some initiator \<Rightarrow>
             (case d_quic_certificate_der initiator of
                None \<Rightarrow> (h, Inr ())
              | Some certificate \<Rightarrow>
                  (case validated initiator (asymmetric_value m) () of
                     Inl e \<Rightarrow> (h, Inl e)
                   | Inr _ \<Rightarrow>
                       (case remember_peer (h_quic_store_ok cfg) False (d_id initiator) (d_sign_pk initiator) certificate (h_quic_peers h) of
                          Inl e \<Rightarrow> (h, Inl (QuicStore e))
                        | Inr peers \<Rightarrow> (h\<lparr>h_quic_peers := peers\<rparr>, Inr ())))))
      in case r of
           Inl e \<Rightarrow> (h, Inl e)
         | Inr _ \<Rightarrow>
             (case paired_initiator of
                None \<Rightarrow> (h, Inr ())
              | Some (scope, initiator) \<Rightarrow>
                  let viewer = (\<lambda>scope. (scope, d_id initiator, d_sign_pk initiator, h_time cfg));
                      h = h\<lparr>paired_viewers := paired_viewers h @ [viewer scope]\<rparr>;
                      h = (if quic_initiator \<noteq> None then h\<lparr>paired_viewers := paired_viewers h @ [viewer Direct]\<rparr> else h)
                  in (h, Inr ())))"

definition reply :: "HostConfig \<Rightarrow> NextMessage \<Rightarrow> 'a \<Rightarrow> Host \<Rightarrow> Host \<times> (HostError + 'a)" where
  "reply cfg m x h = (h\<lparr>replies := m # replies h\<rparr>, if h_sent cfg then Inr x else Inl NotSent)"

text \<open>The host that required pairing reports a refusal, or records the viewer and acknowledges.\<close>

definition conclude_pairing ::
  "Crypto \<Rightarrow> HostConfig \<Rightarrow> HandshakeMode \<Rightarrow> bytes \<Rightarrow> bytes \<Rightarrow> PublicKeyMessage \<Rightarrow> DirectPublicKeyPayload \<Rightarrow> DirectSignedId option
     \<Rightarrow> Host \<Rightarrow> Host \<times> (HostError + unit)" where
  "conclude_pairing c cfg mode our_pk_b salt m payload quic_initiator h =
     (case pairing_verdict c cfg mode our_pk_b salt m payload of
        Inl e \<Rightarrow> (h, Inl e)
      | Inr (Inl e) \<Rightarrow>
          (case reply cfg (ErrorBox (error_text e)) () h of (h, Inl e') \<Rightarrow> (h, Inl e') | (h, Inr _) \<Rightarrow> (h, Inl e))
      | Inr (Inr paired_initiator) \<Rightarrow>
          (case remember_viewer cfg m paired_initiator quic_initiator h of
             (h, Inl e) \<Rightarrow> (h, Inl e)
           | (h, Inr _) \<Rightarrow> reply cfg (SignedIdMessage DIRECT_HANDSHAKE_ACK_OK []) () h))"

text \<open>The outcome of the answer is the session key and whether the nonces are directional.\<close>

definition host_answer ::
  "Crypto \<Rightarrow> HostConfig \<Rightarrow> HandshakeMode \<Rightarrow> bytes \<Rightarrow> bytes \<Rightarrow> HostMessage \<Rightarrow> Host \<Rightarrow> Host \<times> (HostError + bytes \<times> bool)" where
  "host_answer c cfg mode our_pk_b salt received h =
     (case received of
        NoMessage \<Rightarrow> (h, Inl NothingReceived)
      | SomethingElse \<Rightarrow> (h, Inl NotAPublicKey)
      | PublicKeyIn m \<Rightarrow>
          if length (asymmetric_value m) = PUBLICKEYBYTES
          then if mode = DirectMode \<or> host_salt cfg mode salt \<noteq> None
               then (case unwrap_direct_public_key_payload c (symmetric_value m) (host_salt cfg mode salt \<noteq> None) of
                       Inl e \<Rightarrow> (h, Inl (BadWire e))
                     | Inr payload \<Rightarrow>
                         (case quic_initiator_of c cfg m (pp_initiator payload) of
                            Inl e \<Rightarrow> (h, Inl e)
                          | Inr quic_initiator \<Rightarrow>
                              (case decode_session cfg (pp_symmetric_value payload) (asymmetric_value m) (h_directional cfg) of
                                 None \<Rightarrow> (h, Inl SessionKey)
                               | Some session \<Rightarrow>
                                   (case host_salt cfg mode salt of
                                      None \<Rightarrow> (h, Inr session)
                                    | Some s \<Rightarrow>
                                        (case conclude_pairing c cfg mode our_pk_b s m payload quic_initiator h of
                                           (h, Inl e) \<Rightarrow> (h, Inl e)
                                         | (h, Inr _) \<Rightarrow> (h, Inr session))))))
               else (case decode_session cfg (symmetric_value m) (asymmetric_value m) (h_directional cfg) of
                       None \<Rightarrow> (h, Inl SessionKey)
                     | Some session \<Rightarrow> (h, Inr session))
          else if asymmetric_value m = [] then (h\<lparr>key_confirmed := False\<rparr>, Inl StaleKeyBinding)
          else (h, Inl WrongKeyLength))"


section \<open>Whom a host with a passphrase admits\<close>

lemma validated_cases: "validated i av x = Inr y \<Longrightarrow> x = y \<and> get_pk av = Some (d_box_pk i)"
  by (auto simp: validated_def validate_direct_public_key_initiator_def split: sum.splits option.splits if_splits)

lemma pairing_verdict_accepts:
  assumes "pairing_verdict c cfg mode box s m payload = Inr (Inr paired)"
  shows "(\<exists>pr. pp_pairing_proof payload = Some pr
        \<and> compute_direct_pairing_proof c (host_passphrase cfg mode) s (h_id cfg) (h_pk cfg) box (asymmetric_value m) = Inr pr)
     \<or> (pp_pairing_proof payload = None \<and> paired = None \<and> h_remember_paired_viewers cfg
        \<and> (\<exists>i scope. pp_initiator payload = Some i \<and> get_pk (asymmetric_value m) = Some (d_box_pk i)
             \<and> pairing_scope mode = Some scope \<and> has_paired_viewer cfg scope (d_id i) (d_sign_pk i)))"
    "paired = Some (scope', i') \<Longrightarrow> pp_initiator payload = Some i' \<and> get_pk (asymmetric_value m) = Some (d_box_pk i')
       \<and> pp_pairing_proof payload \<noteq> None \<and> pairing_scope mode = Some scope'"
  using assms by (auto simp: pairing_verdict_def split: option.splits sum.splits if_splits bool.splits prod.splits dest!: validated_cases)

lemma remember_viewer_records:
  assumes "remember_viewer cfg m paired q h = (h', res)"
  shows "\<exists>new. paired_viewers h' = paired_viewers h @ new \<and>
    (\<forall>x \<in> set new. \<exists>scope i. paired = Some (scope, i) \<and> fst (snd x) = d_id i \<and> fst (snd (snd x)) = d_sign_pk i)"
  using assms by (auto simp: remember_viewer_def Let_def split: option.splits sum.splits if_splits prod.splits)

lemma reply_frame: "reply cfg x y h = (h', r) \<Longrightarrow> paired_viewers h' = paired_viewers h \<and> h_quic_peers h' = h_quic_peers h"
  by (auto simp: reply_def)

lemma conclude_pairing_accepts:
  assumes "conclude_pairing c cfg mode box s m payload q h = (h', res)"
    and "res = Inr () \<or> paired_viewers h' \<noteq> paired_viewers h \<or> h_quic_peers h' \<noteq> h_quic_peers h"
  shows "\<exists>paired. pairing_verdict c cfg mode box s m payload = Inr (Inr paired) \<and> (\<exists>new. paired_viewers h' = paired_viewers h @ new \<and>
    (\<forall>x \<in> set new. \<exists>scope i. paired = Some (scope, i) \<and> fst (snd x) = d_id i \<and> fst (snd (snd x)) = d_sign_pk i))"
proof -
  obtain paired where v: "pairing_verdict c cfg mode box s m payload = Inr (Inr paired)"
    using assms unfolding conclude_pairing_def by (auto split: sum.splits prod.splits dest!: reply_frame)
  obtain h1 r where r: "remember_viewer cfg m paired q h = (h1, r)" by fastforce
  have "paired_viewers h' = paired_viewers h1"
    using assms(1) v r unfolding conclude_pairing_def by (auto split: sum.splits dest!: reply_frame)
  then show ?thesis using v remember_viewer_records [OF r] by auto
qed

lemma host_answer_pairing:
  assumes "host_answer c cfg mode box salt received h = (h', res)" "host_salt cfg mode salt = Some s"
    and "(\<exists>session. res = Inr session) \<or> paired_viewers h' \<noteq> paired_viewers h \<or> h_quic_peers h' \<noteq> h_quic_peers h"
  obtains m payload quic r where "received = PublicKeyIn m" "length (asymmetric_value m) = 32"
    "unwrap_direct_public_key_payload c (symmetric_value m) True = Inr payload"
    "conclude_pairing c cfg mode box s m payload quic h = (h', r)"
    "r = Inr () \<or> paired_viewers h' \<noteq> paired_viewers h \<or> h_quic_peers h' \<noteq> h_quic_peers h"
  using assms unfolding host_answer_def
  by (auto simp: PUBLICKEYBYTES_def split: HostMessage.splits if_splits sum.splits option.splits prod.splits)

end
