(* ===== verification/HandshakeAgreement.thy ===== *)
theory HandshakeAgreement
  imports HostHandshake
begin

text \<open>
  The direct handshake of a viewer and a host that both follow the code (\<^verbatim>\<open>src/src/client.rs\<close>, \<^verbatim>\<open>src/src/server.rs\<close>): with
  the same passphrase they end with each other's keys, with different ones neither keeps anything. The last part
  shows what the acknowledgement alone does not say.
\<close>

section \<open>Whom a host admits\<close>

text \<open>
  C13. A host with a pairing passphrase admits only whom it should. If its handshake succeeds, or leaves another
  list of paired viewers or of QUIC identities, then the viewer answered with the proof that the host computes from
  its own passphrase, this connection's salt and session keys and its identity; or it sent no proof but an identity
  whose session key is the one of this connection, which the host remembers as a paired viewer of this scope
  and may use since the option is on. Viewers are only ever added to the list, only after a proof, and only under the id
  and the signing key of the identity that came with this answer and names its session key.
\<close>

theorem host_admission_justified:
  assumes "host_answer c cfg mode box salt received h = (h', res)" "host_salt cfg mode salt = Some s"
    and "(\<exists>session. res = Inr session) \<or> paired_viewers h' \<noteq> paired_viewers h \<or> h_quic_peers h' \<noteq> h_quic_peers h"
  shows "\<exists>m payload. received = PublicKeyIn m \<and> unwrap_direct_public_key_payload c (symmetric_value m) True = Inr payload
    \<and> ((\<exists>pr. pp_pairing_proof payload = Some pr
          \<and> compute_direct_pairing_proof c (host_passphrase cfg mode) s (h_id cfg) (h_pk cfg) box (asymmetric_value m) = Inr pr)
       \<or> (pp_pairing_proof payload = None \<and> paired_viewers h' = paired_viewers h \<and> h_remember_paired_viewers cfg
          \<and> (\<exists>i scope. pp_initiator payload = Some i \<and> d_box_pk i = asymmetric_value m
               \<and> pairing_scope mode = Some scope \<and> has_paired_viewer cfg scope (d_id i) (d_sign_pk i))))
    \<and> (\<exists>new. paired_viewers h' = paired_viewers h @ new
       \<and> (\<forall>x \<in> set new. \<exists>i. pp_initiator payload = Some i \<and> d_box_pk i = asymmetric_value m
            \<and> fst (snd x) = d_id i \<and> fst (snd (snd x)) = d_sign_pk i))"
proof -
  from assms obtain m payload quic r where m: "received = PublicKeyIn m" "length (asymmetric_value m) = 32"
      "unwrap_direct_public_key_payload c (symmetric_value m) True = Inr payload"
    and c: "conclude_pairing c cfg mode box s m payload quic h = (h', r)"
      "r = Inr () \<or> paired_viewers h' \<noteq> paired_viewers h \<or> h_quic_peers h' \<noteq> h_quic_peers h"
    by (rule host_answer_pairing)
  obtain paired new where v: "pairing_verdict c cfg mode box s m payload = Inr (Inr paired)"
    and new: "paired_viewers h' = paired_viewers h @ new"
      "\<forall>x \<in> set new. \<exists>scope i. paired = Some (scope, i) \<and> fst (snd x) = d_id i \<and> fst (snd (snd x)) = d_sign_pk i"
    using conclude_pairing_accepts [OF c] by (elim exE conjE)
  have pk: "get_pk (asymmetric_value m) = Some (asymmetric_value m)" using m(2) by (simp add: get_pk_def)
  have "paired = None \<Longrightarrow> new = []" using new(2) by (cases new) auto
  moreover have "\<forall>x \<in> set new. \<exists>i. pp_initiator payload = Some i \<and> d_box_pk i = asymmetric_value m
      \<and> fst (snd x) = d_id i \<and> fst (snd (snd x)) = d_sign_pk i"
  proof
    fix x assume "x \<in> set new"
    then obtain scope i where i: "paired = Some (scope, i)" "fst (snd x) = d_id i" "fst (snd (snd x)) = d_sign_pk i" using new(2) by blast
    then show "\<exists>i. pp_initiator payload = Some i \<and> d_box_pk i = asymmetric_value m
        \<and> fst (snd x) = d_id i \<and> fst (snd (snd x)) = d_sign_pk i"
      using pairing_verdict_accepts(2) [OF v i(1)] pk by auto
  qed
  ultimately show ?thesis
    using m(1,3) new(1) pairing_verdict_accepts(1) [OF v] unfolding pk by (intro exI [of _ m] exI [of _ payload]) auto
qed

section \<open>The viewer up to the acknowledgement\<close>

lemma offer_received:
  assumes "host_offer c cfg DirectMode box salt = Inr (first_message a)" "quic_binding a = None"
    and "key_pair c (h_pk cfg) (h_sk cfg)" "id_format c (h_id cfg) (host_secure_channel cfg)" "length box = 32" "length salt = SALTBYTES"
    and "id_format c (h_id cfg) 0" "host_passphrase cfg DirectMode \<noteq> []" "h_certificate cfg = Some hc" "hc \<noteq> []" "length hc \<le> DIRECT_QUIC_CERTIFICATE_MAX_LEN"
  shows "receive_direct_id c a = Inr \<lparr>peer_id = h_id cfg, sign_pk = h_pk cfg, box_pk = box, pairing_required = True,
    pairing_salt = Some salt, supports_paired_viewer_identity = True, quic_certificate_der = Some hc,
    secure_channel = host_secure_channel cfg\<rparr>"
proof -
  obtain q where q: "create_direct_signed_id_v3 c (h_id cfg) box (h_pk cfg) (h_sk cfg) None hc = Inr q"
    and dq: "decode_direct_id_pk c q = Inr \<lparr>d_id = h_id cfg, d_sign_pk = h_pk cfg, d_box_pk = box, d_pairing_required = (None \<noteq> (None :: bytes option)),
      d_pairing_salt = None, d_supports_paired_viewer_identity = True, d_quic_certificate_der = Some hc, d_secure_channel = 0\<rparr>"
    using direct_id_certificate [OF assms(3,7,5), of None hc] assms(10,11) by auto
  have "q \<noteq> []" using dq by (auto simp: decode_direct_id_pk_def Let_def split: if_splits)
  have salt: "host_salt cfg DirectMode salt = Some salt" using assms(8) by (simp add: host_salt_def)
  let ?s = "create_host_signed_id c True (h_id cfg) box (h_pk cfg) (h_sk cfg) (Some salt) (host_secure_channel cfg)"
  have "first_message a = SignedIdMessage ?s q"
    using assms(1) q salt assms(9) by (simp add: host_offer_def Let_def split: if_splits)
  moreover have "decode_direct_id_pk c ?s = Inr \<lparr>d_id = h_id cfg, d_sign_pk = h_pk cfg, d_box_pk = box, d_pairing_required = True,
      d_pairing_salt = Some salt, d_supports_paired_viewer_identity = True, d_quic_certificate_der = None, d_secure_channel = host_secure_channel cfg\<rparr>"
    using direct_id_pairing [OF assms(3-6)] by (simp add: create_host_signed_id_def)
  ultimately show ?thesis
    using dq \<open>q \<noteq> []\<close> assms(2) by (simp add: receive_direct_id_def attach_direct_quic_identity_def check_quic_binding_def)
qed

lemma decide_trust_with_pairing:
  assumes "peer (hs_input v) = None" "\<not> require_authenticated_repair (hs_input v)" "peer_id p \<noteq> []" "pairing_required p"
    and "trusted_peer_signing_key_status c (store v) (peer_id p) cid (sign_pk p) = Inr s"
  shows "decide_trust c Direct cid a p v =
    (v\<lparr>hs_input := (hs_input v)\<lparr>peer := Some (peer_id p, sign_pk p)\<rparr>\<rparr>, Inr (s, s \<noteq> Trusted, False))"
  using assms
  by (cases s) (simp_all add: decide_trust_def identity_stage_def bind_peer_def repair_stage_def first_contact_stage_def
      pending_peer_trust_from_status_def Let_def)

lemma exchange_until_acknowledgement:
  assumes "pairing_required p" "pairing_salt p = Some salt" "paired_viewer (store v) scope cid = None"
    and "viewer_identities c a p = Inr (initiator, identity)" "passphrase (hs_input v) = None" "asked_passphrase a = Some secret"
    and "\<not> can_reopen (hs_input v)" "sent a"
    and "compute_direct_pairing_proof c secret salt (peer_id p) (sign_pk p) (box_pk p) (our_box_pk a) = Inr pr"
    and "wrap_direct_public_key_symmetric_value_with_identity
      (sealed_key a (box_pk p) (viewer_selects_directional_secretbox (directional_secretbox_enabled a) (secure_channel p))) (Some pr) initiator = Inr value"
  obtains v3 where "store v3 = store v"
    "outbox v3 = \<lparr>asymmetric_value = our_box_pk a, symmetric_value = value, message_quic_identity = identity\<rparr> # outbox v"
    "exchange c scope cid a p was_trusted pending confirmed v = and_then (acknowledgement_stage scope cid a p False v3)
       (\<lambda>v _. remember_stage c scope cid a p was_trusted pending confirmed True (initiator \<noteq> None) v)"
proof -
  have r: "remembered_pairing scope cid a p pending v = (v, False)"
    using assms(3) by (simp add: remembered_pairing_def has_confirmed_paired_viewer_def)
  let ?v2 = "v\<lparr>hs_input := (hs_input v)\<lparr>passphrase := None\<rparr>\<rparr>"
  have pr: "proof_stage c a p False v = (?v2, Inr (Some pr))"
    using assms by (simp add: proof_stage_def needs_fresh_socket_def Let_def)
  obtain v3 where v3: "send_stage a p (Some pr) initiator identity ?v2 = (v3, Inr ())" "store v3 = store v"
      "outbox v3 = \<lparr>asymmetric_value = our_box_pk a, symmetric_value = value, message_quic_identity = identity\<rparr> # outbox v"
    using assms(8,10) by (simp add: send_stage_def Let_def)
  have "exchange c scope cid a p was_trusted pending confirmed v = and_then (acknowledgement_stage scope cid a p False v3)
       (\<lambda>v _. remember_stage c scope cid a p was_trusted pending confirmed True (initiator \<noteq> None) v)"
    unfolding exchange_def r using assms(4) pr v3(1) by simp
  then show thesis using that v3(2,3) by blast
qed

lemma remember_stage_succeeds:
  assumes "\<And>x. quic_store_ok a x" "pending \<Longrightarrow> bootstrap_key (store v) (peer_id p) = []" "sign_pk p \<noteq> []"
  shows "\<exists>w. remember_stage c scope cid a p was_trusted pending confirmed proven initiator v = (w, Inr ())"
proof -
  have rm: "\<exists>st'. remember_authenticated_peer (quic_store_ok a x) ident pk cert st = Inr st'" for x ident pk cert st
    using assms(1) [of x] by (auto simp: remember_authenticated_peer_def remember_peer_def split: option.split)
  have q: "\<exists>w. remember_quic cid a p cert v = (w, Inr ())" for cert v
  proof -
    obtain st1 where 1: "remember_authenticated_peer (quic_store_ok a (peer_id p)) (peer_id p) (sign_pk p) cert (store v) = Inr st1"
      using rm by blast
    obtain st2 where "remember_authenticated_peer (quic_store_ok a cid) cid (sign_pk p) cert st1 = Inr st2" using rm by blast
    with 1 show ?thesis by (simp add: remember_quic_def keep_store_def)
  qed
  have "\<exists>w. remember_rest scope cid a p was_trusted confirmed proven initiator v = (w, Inr ())" for confirmed v
    unfolding remember_rest_def Let_def by (auto split: prod.split option.split if_split intro!: q)
  moreover have "pending \<Longrightarrow> \<exists>st. trust_peer_signing_key_after_pairing c (peer_id p) cid (sign_pk p) (store v) = Inr st"
    using assms(2,3) by (simp add: trust_peer_signing_key_after_pairing_def Let_def)
  ultimately show ?thesis unfolding remember_stage_def by (cases pending) (auto simp: keep_store_def)
qed


section \<open>The host after the answer\<close>

definition plain_identity :: "bytes \<Rightarrow> bytes \<Rightarrow> bytes \<Rightarrow> bytes option \<Rightarrow> DirectSignedId" where
  "plain_identity ident pk box certificate = \<lparr>d_id = ident, d_sign_pk = pk, d_box_pk = box, d_pairing_required = False,
     d_pairing_salt = None, d_supports_paired_viewer_identity = certificate \<noteq> None, d_quic_certificate_der = certificate, d_secure_channel = 0\<rparr>"

lemma plain_identity_simps [simp]:
  "d_id (plain_identity i k b x) = i" "d_sign_pk (plain_identity i k b x) = k" "d_box_pk (plain_identity i k b x) = b"
  "d_quic_certificate_der (plain_identity i k b x) = x"
  by (simp_all add: plain_identity_def)

lemma host_takes_answer:
  assumes "key_pair c vpk vsk" "plain_key vpk" "id_format c vid 0" "length ours = 32" "host_passphrase cfg DirectMode \<noteq> []"
    and "wrap_direct_public_key_symmetric_value_with_identity sealed (Some pr) (Some (create_direct_signed_id c vid ours vpk vsk)) = Inr value"
    and "length pr = DIRECT_PAIRING_PROOF_LEN" "sealed \<noteq> []"
    and "create_direct_signed_id_v3 c vid ours vpk vsk None vc = Inr q" "vc \<noteq> []" "length vc \<le> DIRECT_QUIC_CERTIFICATE_MAX_LEN"
    and "h_quic_binding cfg = None" "decode_session cfg sealed ours (h_directional cfg) = Some session"
  defines "m \<equiv> \<lparr>asymmetric_value = ours, symmetric_value = value, message_quic_identity = q\<rparr>"
  shows "host_answer c cfg DirectMode box salt (PublicKeyIn m) h =
    (case conclude_pairing c cfg DirectMode box salt m
        \<lparr>pp_pairing_proof = Some pr, pp_initiator = Some (plain_identity vid vpk ours None), pp_symmetric_value = sealed\<rparr>
        (Some (plain_identity vid vpk ours (Some vc))) h of
       (h, Inl e) \<Rightarrow> (h, Inl e) | (h, Inr _) \<Rightarrow> (h, Inr session))"
proof -
  have initiator: "decode_direct_id_pk c (create_direct_signed_id c vid ours vpk vsk) = Inr (plain_identity vid vpk ours None)"
    using direct_id_plain [OF assms(1,3,4,2)] by (simp add: create_direct_signed_id_def plain_identity_def)
  have "create_direct_signed_id c vid ours vpk vsk \<noteq> []"
    using assms(1) by (auto simp: create_direct_signed_id_def sign_direct_id_def key_pair_def)
  then have "unwrap_direct_public_key_payload c value True =
      Inr \<lparr>pp_pairing_proof = Some pr, pp_initiator = Some (plain_identity vid vpk ours None), pp_symmetric_value = sealed\<rparr>"
    using payload_unwrapped [OF assms(6,8), of True c] assms(7) initiator by simp
  moreover have salt: "host_salt cfg DirectMode salt = Some salt" using assms(5) by (simp add: host_salt_def)
  moreover have dq: "decode_direct_id_pk c q = Inr (plain_identity vid vpk ours (Some vc))"
    using direct_id_certificate [OF assms(1,3,4), of None vc] assms(9-11) by (auto simp: plain_identity_def)
  moreover have "q \<noteq> []" using dq by (auto simp: decode_direct_id_pk_def Let_def split: if_splits)
  moreover have "quic_initiator_of c cfg m (Some (plain_identity vid vpk ours None)) = Inr (Some (plain_identity vid vpk ours (Some vc)))"
    using dq \<open>q \<noteq> []\<close> assms(4,12) by (simp add: quic_initiator_of_def m_def validate_direct_public_key_initiator_def get_pk_def)
  ultimately show ?thesis using assms(4,13) by (simp add: host_answer_def m_def PUBLICKEYBYTES_def)
qed

lemma conclude_with_proof:
  assumes "compute_direct_pairing_proof c (host_passphrase cfg DirectMode) salt (h_id cfg) (h_pk cfg) box (asymmetric_value m) = Inr expected"
    and "asymmetric_value m = ours" "length ours = 32" "h_sent cfg" "h_quic_store_ok cfg" "map_of (h_quic_peers h) vid = None"
  shows "\<exists>h' r. conclude_pairing c cfg DirectMode box salt m
        \<lparr>pp_pairing_proof = Some pr, pp_initiator = Some (plain_identity vid vpk ours None), pp_symmetric_value = sealed\<rparr>
        (Some (plain_identity vid vpk ours (Some vc))) h = (h', r)
    \<and> (if pr = expected
       then r = Inr () \<and> hd (replies h') = SignedIdMessage DIRECT_HANDSHAKE_ACK_OK []
          \<and> (h_remember_paired_viewers cfg \<longrightarrow> (Direct, vid, vpk, h_time cfg) \<in> set (paired_viewers h'))
       else r = Inl PassphraseRejected \<and> hd (replies h') = ErrorBox PASSPHRASE_REJECTED
          \<and> paired_viewers h' = paired_viewers h \<and> h_quic_peers h' = h_quic_peers h)"
  using assms
  by (cases "h_remember_paired_viewers cfg"; cases "pr = expected") (auto simp: conclude_pairing_def pairing_verdict_def validated_def validate_direct_public_key_initiator_def get_pk_def
      remember_viewer_def remember_peer_def reply_def error_text_def PASSPHRASE_REJECTED_def pairing_scope_def Let_def)


section \<open>Both sides\<close>

text \<open>
  A first direct handshake of a viewer with a host that requires pairing: intact signatures, encodings and transport, valid
  local keys and certificates, a viewer and a host that do not know each other by an earlier pairing, and any key that
  the viewer may have pinned for the host. \<open>vpk\<close>, \<open>vsk\<close> and \<open>vc\<close> are the viewer's keys and certificate, \<open>hc\<close> is the
  certificate of the host, \<open>secret\<close> the passphrase that the user gives, and \<open>session\<close> what the host opens.
\<close>

definition first_meeting ::
  "Crypto \<Rightarrow> HostConfig \<Rightarrow> bytes \<Rightarrow> bytes \<Rightarrow> Host \<Rightarrow> bytes \<Rightarrow> Attempt \<Rightarrow> Viewer \<Rightarrow> bytes \<Rightarrow> bytes \<Rightarrow> bytes \<Rightarrow> bytes \<Rightarrow> bytes
     \<Rightarrow> (bool \<Rightarrow> bytes \<times> bool) \<Rightarrow> TrustedPeerSigningKeyStatus \<Rightarrow> bool" where
  "first_meeting c cfg box salt h cid a v secret vpk vsk vc hc session s \<longleftrightarrow>
     key_pair c (h_pk cfg) (h_sk cfg) \<and> key_pair c vpk vsk \<and> plain_key vpk
     \<and> id_format c (h_id cfg) (host_secure_channel cfg) \<and> id_format c (h_id cfg) 0 \<and> id_format c (local_id a) 0 \<and> base64_ok c \<and> digest_ok c
     \<and> host_offer c cfg DirectMode box salt = Inr (first_message a) \<and> length box = 32 \<and> length salt = SALTBYTES
     \<and> host_passphrase cfg DirectMode \<noteq> [] \<and> h_certificate cfg = Some hc \<and> hc \<noteq> [] \<and> length hc \<le> DIRECT_QUIC_CERTIFICATE_MAX_LEN
     \<and> h_id cfg \<noteq> [] \<and> h_quic_binding cfg = None \<and> h_quic_store_ok cfg \<and> map_of (h_quic_peers h) (local_id a) = None
     \<and> quic_binding a = None \<and> hs_input v = HandshakeInput_default \<and> asked_passphrase a = Some secret \<and> sent a \<and> remember_paired_viewers a
     \<and> local_keys a = Some (vpk, vsk) \<and> local_certificate a = Some vc \<and> vc \<noteq> [] \<and> length vc \<le> DIRECT_QUIC_CERTIFICATE_MAX_LEN
     \<and> length (our_box_pk a) = 32 \<and> length (create_direct_signed_id c (local_id a) (our_box_pk a) vpk vsk) < 2 ^ 16
     \<and> paired_viewer (store v) Direct cid = None \<and> (\<forall>x. quic_store_ok a x) \<and> (\<forall>d. sealed_key a box d \<noteq> [])
     \<and> trusted_peer_signing_key_status c (store v) (h_id cfg) cid (h_pk cfg) = Inr s
     \<and> (\<forall>d. decode_session cfg (sealed_key a box d) (our_box_pk a) (h_directional cfg) = Some (session d))"

text \<open>The run up to the reply, whatever the viewer then takes for the acknowledgement.\<close>

lemma meeting_until_reply:
  assumes "first_meeting c cfg box salt h cid a v secret vpk vsk vc hc session s"
    and proof_values: "compute_direct_pairing_proof c secret salt (h_id cfg) (h_pk cfg) box (our_box_pk a) = Inr given"
      "compute_direct_pairing_proof c (host_passphrase cfg DirectMode) salt (h_id cfg) (h_pk cfg) box (our_box_pk a) = Inr expected"
    and run: "secure_direct_connection_with_input c cid a v = (w, res)"
      "host_answer c cfg DirectMode box salt (PublicKeyIn (hd (outbox w))) h = (h', hres)"
  obtains v3 p d i where "authenticate c Direct cid a p v = (w, res)" "peer_id p = h_id cfg" "sign_pk p = h_pk cfg" "pairing_required p"
    "store v3 = store v"
    "and_then (and_then (acknowledgement_stage Direct cid a p False v3)
      (\<lambda>v _. remember_stage c Direct cid a p (s = Trusted) (s \<noteq> Trusted) False True i v)) (\<lambda>v _. (v, Inr (h_pk cfg))) = (w, res)"
    "if given = expected
     then hres = Inr (session d) \<and> hd (replies h') = SignedIdMessage DIRECT_HANDSHAKE_ACK_OK []
        \<and> (h_remember_paired_viewers cfg \<longrightarrow> (Direct, local_id a, vpk, h_time cfg) \<in> set (paired_viewers h'))
     else hres = Inl PassphraseRejected \<and> hd (replies h') = ErrorBox PASSPHRASE_REJECTED \<and> paired_viewers h' = paired_viewers h"
proof -
  have hid: "id_format c (h_id cfg) (host_secure_channel cfg)" "id_format c (h_id cfg) 0"
    and keys: "key_pair c (h_pk cfg) (h_sk cfg)" "key_pair c vpk vsk" "plain_key vpk" "id_format c (local_id a) 0" "base64_ok c" "digest_ok c"
    and host: "host_offer c cfg DirectMode box salt = Inr (first_message a)" "length box = 32" "length salt = SALTBYTES"
      "host_passphrase cfg DirectMode \<noteq> []" "h_certificate cfg = Some hc" "hc \<noteq> []" "length hc \<le> DIRECT_QUIC_CERTIFICATE_MAX_LEN"
      "h_id cfg \<noteq> []" "h_quic_binding cfg = None" "h_quic_store_ok cfg" "map_of (h_quic_peers h) (local_id a) = None"
    and viewer: "quic_binding a = None" "hs_input v = HandshakeInput_default" "asked_passphrase a = Some secret" "sent a" "remember_paired_viewers a"
      "local_keys a = Some (vpk, vsk)" "local_certificate a = Some vc" "vc \<noteq> []" "length vc \<le> DIRECT_QUIC_CERTIFICATE_MAX_LEN"
      "length (our_box_pk a) = 32" "length (create_direct_signed_id c (local_id a) (our_box_pk a) vpk vsk) < 2 ^ 16"
      "paired_viewer (store v) Direct cid = None" "\<And>x. quic_store_ok a x" "\<And>d. sealed_key a box d \<noteq> []"
      "trusted_peer_signing_key_status c (store v) (h_id cfg) cid (h_pk cfg) = Inr s"
      "\<And>d. decode_session cfg (sealed_key a box d) (our_box_pk a) (h_directional cfg) = Some (session d)"
    using assms(1) unfolding first_meeting_def by blast+
  let ?p = "\<lparr>peer_id = h_id cfg, sign_pk = h_pk cfg, box_pk = box, pairing_required = True, pairing_salt = Some salt,
    supports_paired_viewer_identity = True, quic_certificate_der = Some hc, secure_channel = host_secure_channel cfg\<rparr>"
  let ?d = "viewer_selects_directional_secretbox (directional_secretbox_enabled a) (host_secure_channel cfg)"
  let ?i = "create_direct_signed_id c (local_id a) (our_box_pk a) vpk vsk"
  have p: "receive_direct_id c a = Inr ?p"
    by (rule offer_received [OF host(1) viewer(1) keys(1) hid(1) host(2,3) hid(2) host(4-7)])
  have sent: "h_sent cfg" using host(1) by (auto simp: host_offer_def Let_def split: if_splits option.splits sum.splits)
  obtain q where q: "create_direct_signed_id_v3 c (local_id a) (our_box_pk a) vpk vsk None vc = Inr q"
    using direct_id_certificate [OF keys(2,4) viewer(10), of None vc] viewer(8,9) by auto
  obtain val where wrapped: "wrap_direct_public_key_symmetric_value_with_identity (sealed_key a box ?d) (Some given) (Some ?i) = Inr val"
    using viewer(11) by (simp add: wrap_direct_public_key_symmetric_value_with_identity_def)
  let ?v1 = "v\<lparr>hs_input := (hs_input v)\<lparr>peer := Some (peer_id ?p, sign_pk ?p)\<rparr>\<rparr>"
  have trust: "decide_trust c Direct cid a ?p v = (?v1, Inr (s, s \<noteq> Trusted, False))"
    by (rule decide_trust_with_pairing) (use viewer(2,15) host(8) in \<open>simp_all add: HandshakeInput_default_def\<close>)
  have identities: "viewer_identities c a ?p = Inr (Some ?i, q)"
    using viewer(5-7,10) q
    by (simp add: viewer_identities_def create_direct_public_key_initiator_id_def create_direct_quic_identity_def get_pk_def)
  obtain v3 where v3: "store v3 = store ?v1"
      "outbox v3 = \<lparr>asymmetric_value = our_box_pk a, symmetric_value = val, message_quic_identity = q\<rparr> # outbox ?v1"
      "exchange c Direct cid a ?p (s = Trusted) (s \<noteq> Trusted) False ?v1 = and_then (acknowledgement_stage Direct cid a ?p False v3)
         (\<lambda>v _. remember_stage c Direct cid a ?p (s = Trusted) (s \<noteq> Trusted) False True (Some ?i \<noteq> None) v)"
    by (rule exchange_until_acknowledgement [of ?p salt ?v1 Direct cid c a "Some ?i" q secret given val "s = Trusted" "s \<noteq> Trusted" False])
      (use viewer(2-4,12) identities proof_values(1) wrapped in \<open>simp_all add: HandshakeInput_default_def\<close>)
  have run1: "and_then (and_then (acknowledgement_stage Direct cid a ?p False v3)
      (\<lambda>v _. remember_stage c Direct cid a ?p (s = Trusted) (s \<noteq> Trusted) False True (Some ?i \<noteq> None) v))
      (\<lambda>v _. (v, Inr (h_pk cfg))) = (w, res)"
    and auth: "authenticate c Direct cid a ?p v = (w, res)"
    using run(1) p trust v3(3) viewer(2)
    by (simp_all add: secure_direct_connection_with_input_def authenticate_def HandshakeInput_default_def)
  let ?m = "\<lparr>asymmetric_value = our_box_pk a, symmetric_value = val, message_quic_identity = q\<rparr>"
  have "outbox w = outbox v3"
    using run1 by (auto elim!: and_then_cases dest!: acknowledgement_outbox remember_stage_facts(7))
  then have m: "hd (outbox w) = ?m" using v3(2) by simp
  have len: "length given = DIRECT_PAIRING_PROOF_LEN"
    using proof_values(1) keys(6) by (auto simp: compute_direct_pairing_proof_def digest_ok_def DIRECT_PAIRING_PROOF_LEN_def split: option.splits)
  obtain h1 r where con: "conclude_pairing c cfg DirectMode box salt ?m
        \<lparr>pp_pairing_proof = Some given, pp_initiator = Some (plain_identity (local_id a) vpk (our_box_pk a) None), pp_symmetric_value = sealed_key a box ?d\<rparr>
        (Some (plain_identity (local_id a) vpk (our_box_pk a) (Some vc))) h = (h1, r)"
    and r: "if given = expected
       then r = Inr () \<and> hd (replies h1) = SignedIdMessage DIRECT_HANDSHAKE_ACK_OK []
          \<and> (h_remember_paired_viewers cfg \<longrightarrow> (Direct, local_id a, vpk, h_time cfg) \<in> set (paired_viewers h1))
       else r = Inl PassphraseRejected \<and> hd (replies h1) = ErrorBox PASSPHRASE_REJECTED
          \<and> paired_viewers h1 = paired_viewers h \<and> h_quic_peers h1 = h_quic_peers h"
    using conclude_with_proof [of c cfg salt box ?m expected "our_box_pk a" h "local_id a" given vpk "sealed_key a box ?d" vc]
      proof_values(2) viewer(10) sent host(10,11) by auto
  have h1: "h' = h1" "hres = (case r of Inl e \<Rightarrow> Inl e | Inr _ \<Rightarrow> Inr (session ?d))"
    using run(2) host_takes_answer [OF keys(2,3,4) viewer(10) host(4) wrapped len viewer(14) q viewer(8,9) host(9) viewer(16)] con
    unfolding m by (simp_all split: sum.splits)
  show thesis
    by (rule that [OF auth _ _ _ _ run1 [simplified]]) (use v3(1) h1 r in auto)
qed



section \<open>What the acknowledgement does not say\<close>

text \<open>
  The acknowledgement is a constant that does not depend on the passphrase. Outside of a repair of the QUIC identity, whoever
  announces a pairing and acknowledges whatever proof arrives becomes the pinned peer in place of another key: the
  passphrase is arbitrary here, and the user was not shown the new fingerprint.
\<close>

lemma acknowledgement_replaces_pin:
  assumes "receive_direct_id c a = Inr p" "hs_input v = HandshakeInput_default" "peer_id p \<noteq> []" "sent a"
    and "trusted_peer_signing_key_status c (store v) (peer_id p) cid (sign_pk p) = Inr (Changed old new)"
    and "pairing_required p" "pairing_salt p = Some salt" "quic_certificate_der p = None" "\<not> remember_paired_viewers a"
    and "paired_viewer (store v) Direct cid = None" "asked_passphrase a = Some secret" "sign_pk p \<noteq> []" "\<And>x. quic_store_ok a x"
    and "compute_direct_pairing_proof c secret salt (peer_id p) (sign_pk p) (box_pk p) (our_box_pk a) = Inr pr"
    and "acknowledgement a = SignedIdMessage DIRECT_HANDSHAKE_ACK_OK q" "base64_ok c"
  shows "\<exists>w. secure_direct_connection_with_input c cid a v = (w, Inr (sign_pk p)) \<and> confirmations w = confirmations v
    \<and> trusted_peer_signing_key_status c (store w) (peer_id p) cid (sign_pk p) = Inr Trusted"
proof -
  let ?v1 = "v\<lparr>hs_input := (hs_input v)\<lparr>peer := Some (peer_id p, sign_pk p)\<rparr>\<rparr>"
  have d: "decide_trust c Direct cid a p v = (?v1, Inr (Changed old new, True, False))"
    using decide_trust_with_pairing [of v p c cid "Changed old new" a] assms(2,3,5,6) by (simp add: HandshakeInput_default_def)
  have i: "viewer_identities c a p = Inr (None, [])" using assms(8,9) by (simp add: viewer_identities_def)
  obtain val where w: "wrap_direct_public_key_symmetric_value_with_identity
      (sealed_key a (box_pk p) (viewer_selects_directional_secretbox (directional_secretbox_enabled a) (secure_channel p))) (Some pr) None = Inr val"
    by (simp add: wrap_direct_public_key_symmetric_value_with_identity_def)
  obtain v3 where v3: "store v3 = store ?v1"
    "exchange c Direct cid a p False True False ?v1 = and_then (acknowledgement_stage Direct cid a p False v3)
       (\<lambda>v _. remember_stage c Direct cid a p False True False True ((None :: bytes option) \<noteq> None) v)"
    by (rule exchange_until_acknowledgement [of p salt ?v1 Direct cid c a None "[]" secret pr val False True False])
      (use assms i w in \<open>simp_all add: HandshakeInput_default_def\<close>)
  have "acknowledgement_stage Direct cid a p False v3 = (v3, Inr ())"
    using assms(6,15) by (simp add: acknowledgement_stage_def is_direct_handshake_ack_ok_def Let_def)
  moreover have "bootstrap_key (store v3) (peer_id p) = []"
    using assms(5) v3(1) by (auto simp: trusted_peer_signing_key_status_def Let_def split: if_splits sum.splits)
  ultimately obtain w where "exchange c Direct cid a p False True False ?v1 = (w, Inr ())"
    using remember_stage_succeeds [of a True v3 p c Direct cid False False True False] assms(12,13) v3(2) by auto
  note x = this exchange_facts(3) [OF this]
  have auth: "authenticate c Direct cid a p v = (w, Inr (sign_pk p))" using d x(1) by (simp add: authenticate_def)
  then have "secure_direct_connection_with_input c cid a v = (w, Inr (sign_pk p))"
    using assms(1,2) by (simp add: secure_direct_connection_with_input_def HandshakeInput_default_def)
  then show ?thesis using x(2) authenticate_trusts [OF auth assms(16)] by auto
qed

section \<open>A concrete meeting\<close>

definition host_config_demo :: HostConfig where
  "host_config_demo = \<lparr>h_id = [5], h_pk = key_demo, h_sk = replicate 64 7, direct_passphrase = [1], peer_passphrase = [],
     h_remember_paired_viewers = True, h_directional = False, h_certificate = Some [9], has_paired_viewer = (\<lambda>_ _ _. False),
     decode_session = (\<lambda>_ _ d. Some ([3], d)), h_quic_binding = None, h_quic_store_ok = True, h_sent = True, h_time = 7\<rparr>"

definition salt_demo :: bytes where "salt_demo = replicate 16 3"

definition offer_demo :: NextMessage where
  "offer_demo = (case host_offer crypto_demo host_config_demo DirectMode key_demo salt_demo of Inl _ \<Rightarrow> NoAnswer | Inr m \<Rightarrow> m)"

definition meeting_attempt :: Attempt where
  "meeting_attempt = (attempt_demo offer_demo)\<lparr>acknowledgement := SignedIdMessage DIRECT_HANDSHAKE_ACK_OK []\<rparr>"

definition host_demo :: Host where
  "host_demo = \<lparr>paired_viewers = [], h_quic_peers = [], key_confirmed = True, replies = []\<rparr>"

lemma host_demo_pair: "key_pair crypto_demo key_demo (replicate 64 7)"
  by (simp add: key_pair_def crypto_demo_def key_demo_def PUBLICKEYBYTES_def starts_with_def)

lemma offer_demo: "host_offer crypto_demo host_config_demo DirectMode key_demo salt_demo = Inr offer_demo"
  using direct_id_certificate [OF host_demo_pair demo_format, of key_demo None "[9]" "[5]"]
  by (auto simp: offer_demo_def host_offer_def host_config_demo_def PUBLICKEYBYTES_def SECRETKEYBYTES_def key_demo_def
      DIRECT_QUIC_CERTIFICATE_MAX_LEN_def)

lemma demo_meeting:
  "first_meeting crypto_demo host_config_demo key_demo salt_demo host_demo [5] meeting_attempt viewer_demo [1] key_demo key_demo [9] [9]
     (\<lambda>_. ([3], False)) Trusted"
proof -
  have "length (create_direct_signed_id crypto_demo [6] key_demo key_demo key_demo) < 2 ^ 16"
    by (simp add: create_direct_signed_id_def sign_direct_id_def encode_id_pk_def crypto_demo_def demo_write_def key_demo_def)
  then show ?thesis
    using host_demo_pair key_demo_pair key_demo_plain demo_format demo_base64 demo_digest offer_demo demo_trusted
    by (simp add: first_meeting_def host_config_demo_def meeting_attempt_def attempt_demo_def viewer_demo_def host_demo_def
        host_passphrase_def get_effective_direct_access_pairing_passphrase_def salt_demo_def SALTBYTES_def
        DIRECT_QUIC_CERTIFICATE_MAX_LEN_def store_demo_def) (simp add: key_demo_def)
qed

lemma demo_proof:
  "\<exists>pr. compute_direct_pairing_proof crypto_demo [1] salt_demo (h_id host_config_demo) (h_pk host_config_demo) key_demo (our_box_pk meeting_attempt) = Inr pr
     \<and> compute_direct_pairing_proof crypto_demo (host_passphrase host_config_demo DirectMode) salt_demo (h_id host_config_demo)
         (h_pk host_config_demo) key_demo (our_box_pk meeting_attempt) = Inr pr"
  by (simp add: compute_direct_pairing_proof_def crypto_demo_def host_passphrase_def get_effective_direct_access_pairing_passphrase_def
      host_config_demo_def)

definition meeting_demo :: "Viewer \<times> (ViewerError + bytes)" where
  "meeting_demo = secure_direct_connection_with_input crypto_demo [5] meeting_attempt viewer_demo"

definition host_meeting_demo :: "Host \<times> (HostError + bytes \<times> bool)" where
  "host_meeting_demo = host_answer crypto_demo host_config_demo DirectMode key_demo salt_demo
     (PublicKeyIn (hd (outbox (fst meeting_demo)))) host_demo"

lemma demo_reply:
  "hd (replies (fst host_meeting_demo)) = acknowledgement meeting_attempt \<and> (\<exists>x. snd host_meeting_demo = Inr x)"
proof -
  obtain pr where pr: "compute_direct_pairing_proof crypto_demo [1] salt_demo (h_id host_config_demo) (h_pk host_config_demo) key_demo (our_box_pk meeting_attempt) = Inr pr"
    "compute_direct_pairing_proof crypto_demo (host_passphrase host_config_demo DirectMode) salt_demo (h_id host_config_demo)
         (h_pk host_config_demo) key_demo (our_box_pk meeting_attempt) = Inr pr"
    using demo_proof by blast
  have run: "secure_direct_connection_with_input crypto_demo [5] meeting_attempt viewer_demo = (fst meeting_demo, snd meeting_demo)"
    "host_answer crypto_demo host_config_demo DirectMode key_demo salt_demo (PublicKeyIn (hd (outbox (fst meeting_demo)))) host_demo =
       (fst host_meeting_demo, snd host_meeting_demo)"
    by (simp_all add: meeting_demo_def host_meeting_demo_def)
  from demo_meeting pr run show ?thesis
    by (rule meeting_until_reply) (auto simp: meeting_attempt_def)
qed


theorem host_admission_justified_witness:
  "\<exists>m payload. hd (outbox (fst meeting_demo)) = m \<and> unwrap_direct_public_key_payload crypto_demo (symmetric_value m) True = Inr payload
     \<and> pp_pairing_proof payload \<noteq> None"
proof -
  have run: "host_answer crypto_demo host_config_demo DirectMode key_demo salt_demo (PublicKeyIn (hd (outbox (fst meeting_demo)))) host_demo =
       (fst host_meeting_demo, snd host_meeting_demo)"
    by (simp add: host_meeting_demo_def)
  have salt: "host_salt host_config_demo DirectMode salt_demo = Some salt_demo"
    by (simp add: host_salt_def host_passphrase_def get_effective_direct_access_pairing_passphrase_def host_config_demo_def)
  have never: "\<not> has_paired_viewer host_config_demo x y z" for x y z by (simp add: host_config_demo_def)
  show ?thesis using host_admission_justified [OF run salt] demo_reply never by auto
qed

end
