(* ===== verification/Spec2Isabelle.thy ===== *)
theory Spec2Isabelle
  imports Prelude VideoQueue HelperRetry VideoDelivery SessionPolicy PermissionFlow NetAddr LoginGuard LoginFlow
    QuicAdmission PresentationClock PeerSecurity DisplayControl StreamRecovery MovieCadence ViewerPolicies VideoQoS QosInvariants
    TextFormat ServiceHub KeyDsl PortableReader MediaBuffers AudioResampler
    TerminalOutput TerminalService ClipboardFiles ClipboardServe ClipboardFuse
    FramePacing ReferenceRefresh CodecNegotiation PortableHelper
    HandshakeWire PeerTrust HostHandshake HandshakeAgreement
begin

text \<open>
  \<^bold>\<open>A verification library of RustAdmin\<close>

  RustAdmin is a remote desktop program. A \<^emph>\<open>host\<close> captures its displays, encodes them and serves them to
  connected \<^emph>\<open>viewers\<close>, which send input, files, clipboard contents and terminal data back. The library
  models the parts of the program that decide: who may connect and do what, which frames are sent, kept or
  asked for again, at which rate and quality, and what happens when something fails.

  \<^bold>\<open>The parts and how they interact\<close>

  A viewer reaches the host over TCP or QUIC. \<open>QuicAdmission\<close> limits the handshakes that are not authenticated.
  Viewer and host authenticate each other with \<open>HandshakeWire\<close>, \<open>PeerTrust\<close> and \<open>HostHandshake\<close>.
  The login of a connection (\<open>LoginFlow\<close>) asks \<open>LoginGuard\<close> before it compares a password and reports every
  failure to it; an authorized connection has the permissions of \<open>SessionPolicy\<close> and changes them by
  \<open>PermissionFlow\<close>. The connection subscribes to services of the hub (\<open>ServiceHub\<close>). The video service encodes
  with the codec of \<open>CodecNegotiation\<close>, at the pace of \<open>FramePacing\<close> and \<open>MovieCadence\<close> and with the rate and
  bitrate of \<open>VideoQoS\<close>; \<open>ReferenceRefresh\<close> decides when a frame must be a reference. Frames go through the
  queue of their connection (\<open>VideoQueue\<close>), whose losses and whose feedback from the viewer drive
  \<open>VideoDelivery\<close>, which asks the video service for new references. Secure desktops are captured by the
  processes that \<open>HelperRetry\<close> and \<open>PortableHelper\<close> start. The viewer orders, decodes and presents the frames
  with \<open>StreamRecovery\<close> and \<open>PresentationClock\<close>, and keeps asking for the displays the user wants with
  \<open>DisplayControl\<close>. Audio, terminals, the clipboard and the key language are independent of the video.

  \<^bold>\<open>Theories, sources and what their lemmas show\<close>

  The name of a definition is that of the source; where it would clash it has the type in front
  (\<open>State_push\<close> for \<open>State::push\<close>). A structure is a record, an enumeration a datatype, a method a function on
  the record, and a mutex makes the function that holds it one step of a step relation.

  \<^item> \<open>Prelude\<close>: time, options, saturating arithmetic and \<open>HashMap\<close> as association lists; the interface
    \<open>invariant_machine\<close> (an invariant over the reachable states) that nearly all components interpret with their
    own step relation, and \<open>functional_refinement\<close>. \<open>FloatRound\<close>: floating point with its rounding.
    \<open>TextFormat\<close>: numbers and text. \<open>Messages\<close>: the fields of the wire messages that are read. \<open>NetAddr\<close>:
    addresses and their prefixes.
  \<^item> \<open>VideoQueue\<close> (\<^verbatim>\<open>src/src/server/video_queue.rs\<close>): limits, byte accounting, no delta frame without its
    reference, and progress of the fair scheduling of the displays.
  \<^item> \<open>VideoDelivery\<close> (\<open>VideoDeliveryController\<close> of \<^verbatim>\<open>src/src/server/connection.rs\<close>): the state per display, bounded
    reissues of a recovery, snapshots that can be restored.
  \<^item> \<open>SessionPolicy\<close>, \<open>PermissionFlow\<close> (\<^verbatim>\<open>src/src/server/connection.rs\<close>,
    \<^verbatim>\<open>src/src/server/input_authorization.rs\<close>): what a session may do, the prompts, and that every permission of a
    low-permission session was approved locally.
  \<^item> \<open>LoginGuard\<close>, \<open>LoginFlow\<close> (\<^verbatim>\<open>src/src/server/login_failure_check.rs\<close>, \<^verbatim>\<open>src/src/server/connection.rs\<close>): the number of
    guesses with concurrent connections, what authorizes a connection, the types of connections the device permits.
  \<^item> \<open>QuicAdmission\<close> (\<^verbatim>\<open>src/src/quic_transport/admission.rs\<close>): exact counters of handshakes.
  \<^item> \<open>HandshakeWire\<close>, \<open>PeerTrust\<close>, \<open>HostHandshake\<close>, \<open>HandshakeAgreement\<close> (\<^verbatim>\<open>src/src/common.rs\<close>, \<^verbatim>\<open>src/src/client.rs\<close>,
    \<^verbatim>\<open>src/src/server.rs\<close>): the messages of the peer handshake, what a viewer pins and why, the retries of one
    connection (five attempts and three upgrades to QUIC, the bounds of the source), whom a host admits, and that
    both sides agree; also what the acknowledgement does not prove.
  \<^item> \<open>PeerSecurity\<close> (\<^verbatim>\<open>src/src/common/peer_security_mutation.rs\<close>): the journal, and recovery after a crash at any
    point. The stores are a locale (\<open>peer_stores\<close>, which gives \<open>peer_backend\<close>), interpreted on a store in memory
    and on the fake of the source's tests.
  \<^item> \<open>ServiceHub\<close> (\<^verbatim>\<open>src/src/server/service.rs\<close>, \<^verbatim>\<open>src/src/server.rs\<close>): the hub refines a small machine per viewer;
    what a viewer was sent is what the operations send to it while it waits and since it joined.
  \<^item> \<open>VideoQoS\<close>, \<open>QosInvariants\<close>, \<open>MovieCadence\<close> (\<^verbatim>\<open>src/src/server/video_qos.rs\<close>): ranges of rates and ratios, pace of
    reductions, independence of healthy viewers, the cadence of the movie mode.
  \<^item> \<open>FramePacing\<close>, \<open>ReferenceRefresh\<close>, \<open>CodecNegotiation\<close> (\<^verbatim>\<open>src/src/server/video_service.rs\<close>,
    \<^verbatim>\<open>src/libs/scrap/src/common/codec.rs\<close>): the grid of the pacer, answered requests for references, encoders that
    are given up, formats that every viewer decodes.
  \<^item> \<open>HelperRetry\<close> (\<^verbatim>\<open>src/src/server/helper_retry.rs\<close>), \<open>PortableHelper\<close>
    (\<^verbatim>\<open>src/src/server/portable_service.rs\<close>): bounded starts of helpers, stale attempts without effect,
    authentication of the privileged helper by a one-time token, also when launches overlap, and its rationed restarts.
  \<^item> \<open>PresentationClock\<close> (\<^verbatim>\<open>src/libs/scrap/src/common/video_presentation_clock.rs\<close>), \<open>DisplayControl\<close>, \<open>StreamRecovery\<close>
    (\<^verbatim>\<open>src/src/client/\<close>), \<open>ViewerPolicies\<close> (\<^verbatim>\<open>src/src/video_profile.rs\<close>, \<^verbatim>\<open>src/src/keyboard_input_policy.rs\<close>): the
    viewer's order of frames, its bounded requests, the delivery of display intents, its options.
  \<^item> \<open>MediaBuffers\<close>, \<open>AudioResampler\<close> (\<^verbatim>\<open>src/libs/scrap/src/common/pcm.rs\<close>, \<^verbatim>\<open>frame_slot.rs\<close>,
    \<^verbatim>\<open>src/src/client/clipboard_lifecycle.rs\<close>): buffers as windows on streams; resampling that does not depend on the
    cut into packets.
  \<^item> \<open>TerminalOutput\<close>, \<open>TerminalService\<close> (\<^verbatim>\<open>src/src/server/terminal_service.rs\<close>): bounded history, contiguous output
    over a reconnect, redraw.
  \<^item> \<open>ClipboardFiles\<close>, \<open>ClipboardServe\<close>, \<open>ClipboardFuse\<close> (\<^verbatim>\<open>src/libs/clipboard/src/platform/unix/\<close>): descriptors on the
    wire, ranges of files, and the file system of the paste.
  \<^item> \<open>KeyDsl\<close> (\<^verbatim>\<open>src/libs/enigo/src/dsl.rs\<close>), \<open>PortableReader\<close> (\<^verbatim>\<open>src/libs/portable/\<close>): round trips of the key language
    and of the package, and that reading ends.

  \<^bold>\<open>Conventions\<close>

  \<^item> \<^emph>\<open>Time.\<close> An instant is a number of nanoseconds; every function that reads the clock has the reading as an argument.
  \<^item> \<^emph>\<open>Integers.\<close> Values that saturate or wrap do so at their width: as words, or as numbers with the limit written
    out. Counters of events that cannot reach 64 bits in the life of a process are natural numbers.
  \<^item> \<^emph>\<open>Floating point.\<close> A finite value is a rational number, rounded to 24 or 53 bits after every operation as
    the source's type demands. Infinities and NaN do not occur in the modelled ranges and are left out.
  \<^item> \<^emph>\<open>Errors.\<close> An early return, an \<open>Err\<close> or a panic is a value of a sum or option type.
  \<^item> \<^emph>\<open>Loops.\<close> Loops over a collection are structural recursions. The five loops that need not end on every
    input (\<open>resample_loop\<close>, \<open>constr_file_lst\<close>, \<open>error_to_string\<close>, \<open>read_loop\<close>, \<open>trim\<close>) are partial functions with
    the result \<open>None\<close> for no return, and each has a lemma that says when it returns. Loops with a bound of their own
    (\<open>POP_ROUNDS\<close> of the queue, \<open>SYNC_ROUNDS\<close> of the outbox) keep it, and the bound is proved to be enough.
  \<^item> \<^emph>\<open>Code outside the repository\<close> (protobuf, tokio, SHA-256, the configuration and stores of \<^verbatim>\<open>hbb_common\<close>,
    encoders, the operating system) is an argument of the definitions that use it; what is relied on is a named
    hypothesis or a locale with a concrete instance.
  \<^item> Definitions whose name has \<open>demo\<close> in it are the inputs of the witnesses.

  \<^bold>\<open>Not modelled\<close>

  The user interfaces (\<^verbatim>\<open>src/src/flutter*.rs\<close>, \<^verbatim>\<open>src/src/ui*\<close>), the platform layers (\<^verbatim>\<open>src/src/platform\<close>,
  the capture and codec bindings of \<^verbatim>\<open>src/libs/scrap\<close>, \<^verbatim>\<open>src/libs/enigo\<close> beyond its key language, virtual displays,
  privacy mode), translations, plugins, the updater and the transport itself: they call the operating system or
  foreign libraries and keep little state of their own. Of the large files only the parts named above are modelled:
  of \<^verbatim>\<open>connection.rs\<close> not the dispatch of messages to services, of \<^verbatim>\<open>video_service.rs\<close> not the capturers,
  of \<^verbatim>\<open>client.rs\<close> and \<^verbatim>\<open>io_loop.rs\<close> not the choice of a transport, the routes over the
  rendezvous server, the user's options and file transfer. Memory safety of \<open>unsafe\<close> blocks
  and the scheduling of threads between the steps of a lock are not considered.
\<close>

end
